(* ===== verification/Prelude.thy ===== *)
theory Prelude
  imports Main "HOL-Library.Word" "HOL-Library.Product_Lexorder" "HOL-Library.List_Lexorder"
    "HOL-Library.Char_ord"
begin

section \<open>Prelude: machine types, results, shared lemmas\<close>

text \<open>
  Shared vocabulary of the development.  Rust's unsigned integers are words of their width; the
  node is built in release mode (\<^verbatim>\<open>wasix_eth/Cargo.toml\<close> sets no overflow checks), so
  \<open>+\<close>, \<open>-\<close> and \<open>*\<close> on them wrap around, and \<open>saturating_sub\<close> is written out.
  A fallible Rust function returns \<open>'e + 'a\<close>, with \<open>Inl\<close> for \<open>Err\<close> and for a panic;
  \<open>rbind\<close> is the operator \<open>?\<close>.
\<close>

named_theorems result_simps \<open>rewriting of the result monad\<close>
named_theorems table_simps \<open>lookups after updates of tables\<close>

type_synonym u8 = "8 word"
type_synonym u32 = "32 word"
type_synonym u64 = "64 word"
type_synonym u128 = "128 word"
type_synonym u256 = "256 word"
type_synonym b256 = "256 word"
type_synonym address = "160 word"
type_synonym bytes = "8 word list"

subsection \<open>Results\<close>

definition rbind :: "'e + 'a \<Rightarrow> ('a \<Rightarrow> 'e + 'b) \<Rightarrow> 'e + 'b" where
  "rbind r f = (case r of Inl e \<Rightarrow> Inl e | Inr x \<Rightarrow> f x)"

text \<open>\<open>ok_flat\<close> is the idiom \<open>.ok().flatten()\<close>, also \<open>if let Ok(Some(x))\<close>.\<close>

definition ok_flat :: "'e + 'a option \<Rightarrow> 'a option" where
  "ok_flat r = (case r of Inl e \<Rightarrow> None | Inr v \<Rightarrow> v)"

definition ok_or :: "'a option \<Rightarrow> 'e \<Rightarrow> 'e + 'a" where
  "ok_or v e = (case v of None \<Rightarrow> Inl e | Some x \<Rightarrow> Inr x)"

text \<open>\<open>ensure c e\<close> is the early return \<open>if !c { return Err(e) }\<close>.\<close>

definition ensure :: "bool \<Rightarrow> 'e \<Rightarrow> 'e + unit" where
  "ensure c e = (if c then Inr () else Inl e)"

definition unwrap_or :: "'a option \<Rightarrow> 'a \<Rightarrow> 'a" where
  "unwrap_or v d = (case v of None \<Rightarrow> d | Some x \<Rightarrow> x)"

definition or_else :: "'a option \<Rightarrow> 'a option \<Rightarrow> 'a option" where
  "or_else a b = (case a of None \<Rightarrow> b | Some x \<Rightarrow> Some x)"

subsection \<open>Actions: state, errors, sequencing\<close>

text \<open>
  An operation that changes state and can fail is an action: it returns its result and the state
  it leaves behind, also when it fails, because a sequence of committed transactions that stops
  half way keeps what it committed.
\<close>

type_synonym ('s, 'e, 'a) act = "'s \<Rightarrow> ('e + 'a) \<times> 's"

definition ret :: "'a \<Rightarrow> ('s, 'e, 'a) act" where
  "ret x s = (Inr x, s)"

definition fail :: "'e \<Rightarrow> ('s, 'e, 'a) act" where
  "fail e s = (Inl e, s)"

definition sbind :: "('s, 'e, 'a) act \<Rightarrow> ('a \<Rightarrow> ('s, 'e, 'b) act) \<Rightarrow> ('s, 'e, 'b) act" where
  "sbind m f s = (case m s of (Inl e, s') \<Rightarrow> (Inl e, s') | (Inr x, s') \<Rightarrow> f x s')"

definition sseq :: "('s, 'e, unit) act \<Rightarrow> ('s, 'e, 'b) act \<Rightarrow> ('s, 'e, 'b) act" where
  "sseq m n = sbind m (\<lambda>_. n)"

definition reads :: "('s \<Rightarrow> 'e + 'a) \<Rightarrow> ('s, 'e, 'a) act" where
  "reads f s = (f s, s)"

definition peeks :: "('s \<Rightarrow> 'a) \<Rightarrow> ('s, 'e, 'a) act" where
  "peeks f s = (Inr (f s), s)"

text \<open>\<open>let _ = m;\<close> runs \<open>m\<close> and drops its error.\<close>

definition ignore_err :: "('s, 'e, unit) act \<Rightarrow> ('s, 'e, unit) act" where
  "ignore_err m s = (Inr (), snd (m s))"

fun for_each :: "'a list \<Rightarrow> ('a \<Rightarrow> ('s, 'e, unit) act) \<Rightarrow> ('s, 'e, unit) act" where
  "for_each [] f = ret ()"
| "for_each (x # xs) f = sseq (f x) (for_each xs f)"

subsection \<open>Word arithmetic of the source\<close>

definition saturating_sub :: "'a::len word \<Rightarrow> 'a word \<Rightarrow> 'a word" where
  "saturating_sub a b = (if a < b then 0 else a - b)"

definition saturating_add :: "'a::len word \<Rightarrow> 'a word \<Rightarrow> 'a word" where
  "saturating_add a b = (if a + b < a then -1 else a + b)"

definition saturating_mul :: "'a::len word \<Rightarrow> 'a word \<Rightarrow> 'a word" where
  "saturating_mul a b = (if unat a * unat b < 2 ^ LENGTH('a) then a * b else -1)"

subsection \<open>Lemmas on results\<close>

lemma rbind_simps [simp, result_simps]:
  "rbind (Inl e) f = Inl e" "rbind (Inr x) f = f x"
  by (simp_all add: rbind_def)

lemma rbind_Inr_iff [result_simps]: "rbind r f = Inr y \<longleftrightarrow> (\<exists>x. r = Inr x \<and> f x = Inr y)"
  by (cases r) auto

lemma rbind_Inl_iff [result_simps]:
  "rbind r f = Inl e \<longleftrightarrow> r = Inl e \<or> (\<exists>x. r = Inr x \<and> f x = Inl e)"
  by (cases r) auto

lemma rbind_assoc: "rbind (rbind r f) g = rbind r (\<lambda>x. rbind (f x) g)"
  by (cases r) auto

lemma ok_flat_simps [simp, result_simps]:
  "ok_flat (Inl e) = None" "ok_flat (Inr v) = v"
  by (simp_all add: ok_flat_def)

lemma ok_flat_Some_iff: "ok_flat r = Some x \<longleftrightarrow> r = Inr (Some x)"
  by (cases r) auto

lemma ok_or_simps [simp, result_simps]:
  "ok_or None e = Inl e" "ok_or (Some x) e = Inr x"
  by (simp_all add: ok_or_def)

lemma ensure_simps [simp, result_simps]:
  "ensure True e = Inr ()" "ensure False e = Inl e"
  by (simp_all add: ensure_def)

lemma ensure_Inr_iff [simp, result_simps]: "ensure c e = Inr u \<longleftrightarrow> c"
  by (simp add: ensure_def)

lemma ensure_Inl_iff [simp, result_simps]: "ensure c e = Inl e' \<longleftrightarrow> \<not> c \<and> e' = e"
  by (auto simp: ensure_def)

lemma unwrap_or_simps [simp, result_simps]:
  "unwrap_or None d = d" "unwrap_or (Some x) d = x"
  by (simp_all add: unwrap_or_def)

lemma or_else_simps [simp, result_simps]:
  "or_else None b = b" "or_else (Some x) b = Some x"
  by (simp_all add: or_else_def)

lemma or_else_eq_None [simp]: "or_else a b = None \<longleftrightarrow> a = None \<and> b = None"
  by (cases a) auto

subsection \<open>Lemmas on actions\<close>

lemma act_simps [simp, result_simps]:
  "ret x s = (Inr x, s)" "fail e s = (Inl e, s)" "reads f s = (f s, s)" "peeks g s = (Inr (g s), s)"
  by (simp_all add: ret_def fail_def reads_def peeks_def)

lemma sbind_Inr_iff [result_simps]:
  "sbind m f s = (Inr y, s'') \<longleftrightarrow> (\<exists>x s'. m s = (Inr x, s') \<and> f x s' = (Inr y, s''))"
  by (auto simp: sbind_def split: prod.splits sum.splits)

lemma sseq_Inr_iff [result_simps]:
  "sseq m n s = (Inr y, s'') \<longleftrightarrow> (\<exists>u s'. m s = (Inr u, s') \<and> n s' = (Inr y, s''))"
  by (simp add: sseq_def sbind_Inr_iff)

lemma sbind_step [simp]: "m s = (Inr x, s') \<Longrightarrow> sbind m f s = f x s'"
  by (simp add: sbind_def)

lemma sbind_error [simp]: "m s = (Inl e, s') \<Longrightarrow> sbind m f s = (Inl e, s')"
  by (simp add: sbind_def)

lemma sseq_step [simp]: "m s = (Inr u, s') \<Longrightarrow> sseq m n s = n s'"
  by (simp add: sseq_def)

lemma sseq_error [simp]: "m s = (Inl e, s') \<Longrightarrow> sseq m n s = (Inl e, s')"
  by (simp add: sseq_def)

lemma for_each_append:
  "for_each (xs @ ys) f = sseq (for_each xs f) (for_each ys f)"
  by (induction xs)
    (auto simp: fun_eq_iff sseq_def sbind_def split: prod.splits sum.splits)

text \<open>Rule for invariants of a loop: what every iteration keeps, the loop keeps.\<close>

lemma for_each_keeps:
  assumes "\<And>x s. x \<in> set xs \<Longrightarrow> I s \<Longrightarrow> I (snd (f x s))" and "I s"
  shows "I (snd (for_each xs f s))"
  using assms
proof (induction xs arbitrary: s)
  case (Cons x xs)
  have x: "I (snd (f x s))"
    using Cons.prems by simp
  show ?case
  proof (cases "f x s")
    case (Pair r s')
    with x have "I s'" by simp
    with Cons.IH Cons.prems(1) have "I (snd (for_each xs f s'))" by simp
    with Pair \<open>I s'\<close> show ?thesis by (cases r) simp_all
  qed
qed simp

lemma for_each_ok:
  assumes "\<And>x s. x \<in> set xs \<Longrightarrow> I s \<Longrightarrow> fst (f x s) = Inr ()"
    and "\<And>x s. x \<in> set xs \<Longrightarrow> I s \<Longrightarrow> I (snd (f x s))" and "I s"
  shows "fst (for_each xs f s) = Inr ()"
  using assms
proof (induction xs arbitrary: s)
  case (Cons x xs)
  have "f x s = (Inr (), snd (f x s))" and "I (snd (f x s))"
    using Cons.prems by (simp_all add: prod_eq_iff)
  moreover have "fst (for_each xs f (snd (f x s))) = Inr ()"
    using Cons.prems by (intro Cons.IH) auto
  ultimately show ?case
    by (metis for_each.simps(2) sseq_step)
qed simp

lemma for_each_Inr_keeps:
  assumes "for_each xs f s = (Inr u, s')" and "J s"
    and "\<And>y s t. y \<in> set xs \<Longrightarrow> J s \<Longrightarrow> f y s = (Inr (), t) \<Longrightarrow> J t"
  shows "J s'"
  using assms by (induction xs arbitrary: s) (auto simp: sseq_Inr_iff ret_def)

text \<open>Rule for what one iteration of a loop establishes and the later ones keep.\<close>

lemma for_each_establishes:
  assumes "for_each xs f s = (Inr u, s')" and "x \<in> set xs" and "distinct xs" and "J s"
    and before: "\<And>y s t. y \<in> set xs \<Longrightarrow> y \<noteq> x \<Longrightarrow> J s \<Longrightarrow> f y s = (Inr (), t) \<Longrightarrow> J t"
    and at: "\<And>s t. J s \<Longrightarrow> f x s = (Inr (), t) \<Longrightarrow> Q t"
    and after: "\<And>y s t. y \<in> set xs \<Longrightarrow> y \<noteq> x \<Longrightarrow> Q s \<Longrightarrow> f y s = (Inr (), t) \<Longrightarrow> Q t"
  shows "Q s'"
proof -
  from \<open>x \<in> set xs\<close> obtain ys zs where xs: "xs = ys @ x # zs" by (auto simp: in_set_conv_decomp)
  with assms(1) obtain s1 s2 where s1: "for_each ys f s = (Inr (), s1)" and s2: "f x s1 = (Inr (), s2)"
    and s3: "for_each zs f s2 = (Inr u, s')"
    by (auto simp: for_each_append sseq_Inr_iff)
  have n: "x \<notin> set ys" "x \<notin> set zs" using \<open>distinct xs\<close> xs by auto
  have "J s1" by (rule for_each_Inr_keeps [where J = J, OF s1 \<open>J s\<close>]) (use before n xs in auto)
  with at s2 have "Q s2" by blast
  show "Q s'" by (rule for_each_Inr_keeps [where J = Q, OF s3 \<open>Q s2\<close>]) (use after n xs in auto)
qed

subsection \<open>Lemmas on words\<close>

lemma unat_saturating_sub: "unat (saturating_sub a b) = unat a - unat b"
  by (auto simp: saturating_sub_def word_less_nat_alt unat_sub word_le_nat_alt)

lemma saturating_sub_le: "saturating_sub a b \<le> a"
  by (simp add: word_le_nat_alt unat_saturating_sub)

lemma unat_max_word_value: "unat (- 1 :: 'a::len word) = 2 ^ LENGTH('a) - 1"
  by (simp add: unsigned_minus_1_eq_mask mask_eq_exp_minus_1)

lemma unat_saturating_add: "unat (saturating_add a b) = min (unat a + unat b) (2 ^ LENGTH('a) - 1)"
  for a b :: "'a::len word"
proof (cases "unat a + unat b < 2 ^ LENGTH('a)")
  case True
  then have *: "unat (a + b) = unat a + unat b" by (simp add: unat_word_ariths)
  then have "\<not> a + b < a" by (simp add: word_less_nat_alt)
  then show ?thesis using True * by (simp add: saturating_add_def)
next
  case False
  have lt: "unat a < 2 ^ LENGTH('a)" "unat b < 2 ^ LENGTH('a)" by (rule unsigned_less)+
  have "(unat a + unat b) mod 2 ^ LENGTH('a) = (unat a + unat b - 2 ^ LENGTH('a)) mod 2 ^ LENGTH('a)"
    using False by (intro le_mod_geq) simp
  also have "\<dots> = unat a + unat b - 2 ^ LENGTH('a)" using lt by (intro mod_less) linarith
  finally have "unat (a + b) < unat a" using False lt unfolding unat_word_ariths(1) by linarith
  then have "a + b < a" by (simp add: word_less_nat_alt)
  then show ?thesis using False by (simp add: saturating_add_def unat_max_word_value)
qed

lemma unat_saturating_mul: "unat (saturating_mul a b) = min (unat a * unat b) (2 ^ LENGTH('a) - 1)"
  for a b :: "'a::len word"
proof (cases "unat a * unat b < 2 ^ LENGTH('a)")
  case True
  then have "unat (a * b) = unat a * unat b" by (simp add: unat_word_ariths)
  then show ?thesis using True by (simp add: saturating_mul_def)
next
  case False
  then show ?thesis by (simp add: saturating_mul_def unat_max_word_value)
qed

lemma unat_add_no_wrap:
  "unat a + unat b < 2 ^ LENGTH('a::len) \<Longrightarrow> unat (a + b :: 'a word) = unat a + unat b"
  by (simp add: unat_word_ariths)

lemma unat_mult_no_wrap:
  "unat a * unat b < 2 ^ LENGTH('a::len) \<Longrightarrow> unat (a * b :: 'a word) = unat a * unat b"
  by (simp add: unat_word_ariths)

lemma unat_sub_no_wrap: "b \<le> a \<Longrightarrow> unat (a - b) = unat a - unat b"
  by (simp add: unat_sub)

lemma unat_ucast_mod: "unat (ucast w :: 'b::len word) = unat w mod 2 ^ LENGTH('b)"
  by (simp add: unsigned_ucast_eq take_bit_eq_mod)

lemma unat_ucast_fits: "unat w < 2 ^ LENGTH('b::len) \<Longrightarrow> unat (ucast w :: 'b word) = unat w"
  by (simp add: unat_ucast_mod)

lemma unat_Suc_no_wrap:
  assumes "p < p + (1 :: 'a::len word)"
  shows "unat (p + 1) = Suc (unat p)"
proof -
  have e: "unat (p + 1) = Suc (unat p) mod 2 ^ LENGTH('a)"
    by (simp add: unat_word_ariths)
  have "unat p < 2 ^ LENGTH('a)" by (rule unsigned_less)
  moreover have "Suc (unat p) \<noteq> 2 ^ LENGTH('a)"
    using e assms by (metis less_nat_zero_code mod_self word_less_nat_alt)
  ultimately have "Suc (unat p) < 2 ^ LENGTH('a)" by linarith
  then show ?thesis using e by simp
qed

subsection \<open>Frames\<close>

text \<open>\<open>frame f m\<close>: the action \<open>m\<close> leaves the component \<open>f\<close> of the state alone, also when it
  fails.\<close>

definition frame :: "('s \<Rightarrow> 'b) \<Rightarrow> ('s, 'e, 'a) act \<Rightarrow> bool" where
  "frame f m \<longleftrightarrow> (\<forall>s. f (snd (m s)) = f s)"

lemma frameD: "frame f m \<Longrightarrow> m s = (r, s') \<Longrightarrow> f s' = f s"
  by (metis frame_def snd_conv)

lemma frame_basic [intro]: "frame f (ret x)" "frame f (fail e)" "frame f (reads g)" "frame f (peeks h)"
  "frame f (Pair r)"
  by (simp_all add: frame_def)

lemma frame_sbind [intro]:
  assumes "frame f m" and "\<And>x. frame f (n x)"
  shows "frame f (sbind m n)"
  unfolding frame_def
proof
  fix s
  obtain r s' where m: "m s = (r, s')" by (cases "m s")
  with assms show "f (snd (sbind m n s)) = f s"
    using frameD [OF assms(1) m] by (cases r) (simp_all add: frame_def)
qed

lemma frame_sseq [intro]: "frame f m \<Longrightarrow> frame f n \<Longrightarrow> frame f (sseq m n)"
  by (auto simp: sseq_def)

lemma frame_for_each [intro]:
  assumes "\<And>x. frame f (g x)"
  shows "frame f (for_each xs g)"
  by (induction xs) (auto intro: assms)

lemma frame_ignore_err [intro]: "frame f m \<Longrightarrow> frame f (ignore_err m)"
  by (simp add: frame_def ignore_err_def)

lemma frame_option [intro]:
  "frame f m \<Longrightarrow> (\<And>x. frame f (n x)) \<Longrightarrow> frame f (case v of None \<Rightarrow> m | Some x \<Rightarrow> n x)"
  by (cases v) auto

lemma frame_prod [intro]: "(\<And>a b. frame f (n a b)) \<Longrightarrow> frame f (case p of (a, b) \<Rightarrow> n a b)"
  by (cases p) auto

subsection \<open>Actions that cannot fail\<close>

definition total_on :: "('s \<Rightarrow> bool) \<Rightarrow> ('s, 'e, 'a) act \<Rightarrow> bool" where
  "total_on I m \<longleftrightarrow> (\<forall>s. I s \<longrightarrow> (\<exists>x s'. m s = (Inr x, s') \<and> I s'))"

lemma total_onD: "total_on I m \<Longrightarrow> I s \<Longrightarrow> \<exists>x s'. m s = (Inr x, s') \<and> I s'"
  by (simp add: total_on_def)

lemma total_ret [intro]: "total_on I (ret x)" "total_on I (Pair (Inr x))" "total_on I (peeks h)"
  by (simp_all add: total_on_def)

lemma total_reads [intro]: "(\<And>s. I s \<Longrightarrow> \<exists>x. g s = Inr x) \<Longrightarrow> total_on I (reads g)"
  by (simp add: total_on_def)

lemma total_sbind [intro]:
  assumes "total_on I m" and "\<And>x. total_on I (n x)"
  shows "total_on I (sbind m n)"
  unfolding total_on_def
proof (intro allI impI)
  fix s
  assume "I s"
  then obtain x s' where m: "m s = (Inr x, s')" and s': "I s'"
    using total_onD [OF assms(1)] by blast
  from total_onD [OF assms(2) s', of x] show "\<exists>y s''. sbind m n s = (Inr y, s'') \<and> I s''"
    unfolding sbind_def m by simp
qed

lemma total_sseq [intro]: "total_on I m \<Longrightarrow> total_on I n \<Longrightarrow> total_on I (sseq m n)"
  unfolding sseq_def by (rule total_sbind)

lemma total_for_each [intro]:
  assumes "\<And>x. total_on I (g x)"
  shows "total_on I (for_each xs g)"
  by (induction xs) (auto intro: assms)

lemma total_for_each_set:
  assumes "\<And>x. x \<in> set xs \<Longrightarrow> total_on I (g x)"
  shows "total_on I (for_each xs g)"
  using assms by (induction xs) auto

lemma total_ignore_err [intro]: "total_on I m \<Longrightarrow> total_on I (ignore_err m)"
  by (force simp: total_on_def ignore_err_def)

lemma total_option [intro]:
  "total_on I m \<Longrightarrow> (\<And>x. total_on I (n x)) \<Longrightarrow> total_on I (case v of None \<Rightarrow> m | Some x \<Rightarrow> n x)"
  by (cases v) auto

lemma total_prod [intro]: "(\<And>a b. total_on I (n a b)) \<Longrightarrow> total_on I (case p of (a, b) \<Rightarrow> n a b)"
  by (cases p) auto

lemmas total_rules = total_sseq total_sbind total_for_each total_prod total_option total_ignore_err total_ret

end
