(* ===== verification/EthTypes.thy ===== *)
theory EthTypes
  imports Prelude
begin

section \<open>Chain data types and the hard fork schedule\<close>

text \<open>
  \<^verbatim>\<open>wasix_eth_types/src/lib.rs\<close> and \<^verbatim>\<open>chain.rs\<close>.  The structs of the \<open>alloy\<close>
  crates (header, transaction envelope, block, chain configuration) are seen by this repository
  through their public fields and accessors, which are the fields of the records below; \<open>tx\<close>
  holds the results of the accessors of a transaction envelope (for example \<open>tx_gas_price\<close> is
  \<open>gas_price()\<close>, \<open>None\<close> for a dynamic-fee transaction, and \<open>tx_signer\<close> is
  \<open>recover_signer().ok()\<close>).  Hashing of headers, the blob price exponential and the like are
  parameters of the definitions that call them.
\<close>

subsection \<open>Headers, transactions, blocks, receipts\<close>

record header =
  h_parent_hash :: b256
  h_ommers_hash :: b256
  h_beneficiary :: address
  h_state_root :: b256
  h_transactions_root :: b256
  h_receipts_root :: b256
  h_logs_bloom :: "2048 word"
  h_difficulty :: u256
  h_number :: u64
  h_gas_limit :: u64
  h_gas_used :: u64
  h_timestamp :: u64
  h_extra_data :: bytes
  h_mix_hash :: b256
  h_nonce :: u64
  h_base_fee_per_gas :: "u64 option"
  h_withdrawals_root :: "b256 option"
  h_blob_gas_used :: "u64 option"
  h_excess_blob_gas :: "u64 option"
  h_parent_beacon_block_root :: "b256 option"
  h_requests_hash :: "b256 option"

datatype tx_type = Legacy | Eip2930 | Eip1559 | Eip4844 | Eip7702

record tx =
  tx_kind :: tx_type
  tx_hash :: b256
  tx_signer :: "address option"
  tx_nonce :: u64
  tx_gas_limit :: u64
  tx_gas_price :: "u128 option"
  tx_max_fee_per_gas :: u128
  tx_max_priority_fee_per_gas :: "u128 option"
  tx_blob_versioned_hashes :: "b256 list option"
  tx_max_fee_per_blob_gas :: "u128 option"
  tx_chain_id :: "u64 option"
  tx_to :: "address option"
  tx_value :: u256
  tx_input :: bytes
  tx_access_list :: "(address \<times> b256 list) list option"
  tx_authorization_list :: "bytes list option"

definition is_eip4844 :: "tx \<Rightarrow> bool" where
  "is_eip4844 t = (tx_kind t = Eip4844)"

record withdrawal =
  w_index :: u64
  w_validator_index :: u64
  w_address :: address
  w_amount :: u64

record body =
  b_transactions :: "tx list"
  b_ommers :: "header list"
  b_withdrawals :: "withdrawal list option"

record block =
  b_header :: header
  b_body :: body

record log_entry =
  l_address :: address
  l_topics :: "b256 list"
  l_data :: bytes

datatype eip658_value = Eip658 bool | PostState b256

record receipt =
  r_tx_type :: u8
  r_status :: eip658_value
  r_cumulative_gas_used :: u64
  r_logs :: "log_entry list"
  r_logs_bloom :: "2048 word"

record receipt_meta =
  rm_contract_address :: "address option"

record trie_account =
  acc_nonce :: u64
  acc_balance :: u256
  acc_storage_root :: b256
  acc_code_hash :: b256

datatype invalidation_reason = Hard | Soft

record reorg_context =
  common_ancestor_hash :: b256
  new_canonical_blocks :: "block list"
  is_reorg :: bool

record forkchoice_state =
  fc_head :: b256
  fc_safe :: b256
  fc_finalized :: b256

record peer_entry =
  pe_peer_id :: string
  pe_discovery_addr :: string
  pe_p2p_addr :: string

subsection \<open>Chain configuration and hard forks\<close>

record blob_params =
  bp_target_blob_count :: u64
  bp_max_blob_count :: u64
  bp_update_fraction :: u128

record chain_config =
  homestead_block :: "u64 option"
  eip150_block :: "u64 option"
  eip155_block :: "u64 option"
  eip158_block :: "u64 option"
  byzantium_block :: "u64 option"
  constantinople_block :: "u64 option"
  petersburg_block :: "u64 option"
  istanbul_block :: "u64 option"
  muir_glacier_block :: "u64 option"
  berlin_block :: "u64 option"
  london_block :: "u64 option"
  arrow_glacier_block :: "u64 option"
  gray_glacier_block :: "u64 option"
  merge_netsplit_block :: "u64 option"
  shanghai_time :: "u64 option"
  cancun_time :: "u64 option"
  prague_time :: "u64 option"
  terminal_total_difficulty :: "u256 option"
  blob_schedule :: "(string \<times> blob_params) list"

datatype hardfork = Frontier | Homestead | TangerineWhistle | SpuriousDragon | Byzantium
  | Constantinople | Petersburg | Istanbul | MuirGlacier | Berlin | London | ArrowGlacier
  | GrayGlacier | Paris | Shanghai | Cancun | Prague

text \<open>The derived \<open>PartialOrd\<close>/\<open>Ord\<close>: the order of the variants.\<close>

fun fork_index :: "hardfork \<Rightarrow> nat" where
  "fork_index Frontier = 0"
| "fork_index Homestead = 1"
| "fork_index TangerineWhistle = 2"
| "fork_index SpuriousDragon = 3"
| "fork_index Byzantium = 4"
| "fork_index Constantinople = 5"
| "fork_index Petersburg = 6"
| "fork_index Istanbul = 7"
| "fork_index MuirGlacier = 8"
| "fork_index Berlin = 9"
| "fork_index London = 10"
| "fork_index ArrowGlacier = 11"
| "fork_index GrayGlacier = 12"
| "fork_index Paris = 13"
| "fork_index Shanghai = 14"
| "fork_index Cancun = 15"
| "fork_index Prague = 16"

lemma fork_index_inject: "fork_index a = fork_index b \<longleftrightarrow> a = b"
  by (cases a; cases b) simp_all

instantiation hardfork :: linorder
begin

definition less_eq_hardfork :: "hardfork \<Rightarrow> hardfork \<Rightarrow> bool" where
  "less_eq_hardfork a b = (fork_index a \<le> fork_index b)"

definition less_hardfork :: "hardfork \<Rightarrow> hardfork \<Rightarrow> bool" where
  "less_hardfork a b = (fork_index a < fork_index b)"

instance
  by standard (auto simp: less_eq_hardfork_def less_hardfork_def fork_index_inject)

end

definition is_shanghai_active :: "hardfork \<Rightarrow> bool" where
  "is_shanghai_active f = (f \<ge> Shanghai)"

definition is_cancun_active :: "hardfork \<Rightarrow> bool" where
  "is_cancun_active f = (f \<ge> Cancun)"

type_synonym fork_entry = "u64 \<times> bool \<times> hardfork"

definition fork_opt :: "u64 option \<Rightarrow> bool \<Rightarrow> hardfork \<Rightarrow> fork_entry list" where
  "fork_opt v ts f = (case v of None \<Rightarrow> [] | Some b \<Rightarrow> [(b, ts, f)])"

text \<open>The \<open>forks\<close> vector in the order in which it is pushed, before sorting.\<close>

definition config_forks :: "chain_config \<Rightarrow> fork_entry list" where
  "config_forks c =
     fork_opt (homestead_block c) False Homestead @
     fork_opt (eip150_block c) False TangerineWhistle @
     fork_opt (eip155_block c) False SpuriousDragon @
     fork_opt (eip158_block c) False SpuriousDragon @
     fork_opt (byzantium_block c) False Byzantium @
     fork_opt (constantinople_block c) False Constantinople @
     fork_opt (petersburg_block c) False Petersburg @
     fork_opt (istanbul_block c) False Istanbul @
     fork_opt (muir_glacier_block c) False MuirGlacier @
     fork_opt (berlin_block c) False Berlin @
     fork_opt (london_block c) False London @
     fork_opt (arrow_glacier_block c) False ArrowGlacier @
     fork_opt (gray_glacier_block c) False GrayGlacier @
     fork_opt (merge_netsplit_block c) False Paris @
     fork_opt (shanghai_time c) True Shanghai @
     fork_opt (cancun_time c) True Cancun @
     fork_opt (prague_time c) True Prague"

definition fork_sort_key :: "fork_entry \<Rightarrow> bool \<times> u64" where
  "fork_sort_key e = (fst (snd e), fst e)"

definition fork_reached :: "u64 \<Rightarrow> u64 \<Rightarrow> fork_entry \<Rightarrow> bool" where
  "fork_reached block_number timestamp e =
     (if fst (snd e) then fst e \<le> timestamp else fst e \<le> block_number)"

fun scan_forks :: "u64 \<Rightarrow> u64 \<Rightarrow> hardfork \<Rightarrow> fork_entry list \<Rightarrow> hardfork" where
  "scan_forks n ts active [] = active"
| "scan_forks n ts active (e # es) =
     (if fork_reached n ts e then scan_forks n ts (snd (snd e)) es else active)"

definition get_active_fork_with_total_difficulty ::
  "chain_config \<Rightarrow> u64 \<Rightarrow> u64 \<Rightarrow> u256 option \<Rightarrow> hardfork" where
  "get_active_fork_with_total_difficulty c n ts td =
     (let active_fork = scan_forks n ts Frontier (sort_key fork_sort_key (config_forks c))
      in if active_fork < Paris
         then (case (terminal_total_difficulty c, td) of
                 (Some ttd, Some d) \<Rightarrow> if d \<ge> ttd then Paris else active_fork
               | _ \<Rightarrow> active_fork)
         else active_fork)"

definition get_active_fork :: "chain_config \<Rightarrow> u64 \<Rightarrow> u64 \<Rightarrow> hardfork" where
  "get_active_fork c n ts = get_active_fork_with_total_difficulty c n ts None"

fun blob_params_of :: "hardfork \<Rightarrow> chain_config \<Rightarrow> blob_params option" where
  "blob_params_of Cancun c = map_of (blob_schedule c) ''cancun''"
| "blob_params_of Prague c = map_of (blob_schedule c) ''prague''"
| "blob_params_of _ c = None"

subsection \<open>Blob gas\<close>

definition TARGET_BLOB_GAS_PER_BLOCK :: u64 where
  "TARGET_BLOB_GAS_PER_BLOCK = 393216"

definition MAX_BLOB_GAS_PER_BLOCK :: u64 where
  "MAX_BLOB_GAS_PER_BLOCK = 786432"

definition DATA_GAS_PER_BLOB :: u64 where
  "DATA_GAS_PER_BLOB = 131072"

definition BLOB_GASPRICE_UPDATE_FRACTION :: u64 where
  "BLOB_GASPRICE_UPDATE_FRACTION = 3338477"

definition MAX_MEMPOOL_SIZE :: nat where
  "MAX_MEMPOOL_SIZE = 50000"

definition calc_blob_gasprice :: "(u128 \<Rightarrow> u128 \<Rightarrow> u128 \<Rightarrow> u128) \<Rightarrow> u64 \<Rightarrow> u128 \<Rightarrow> u128" where
  "calc_blob_gasprice fake_exponential excess_blob_gas update_fraction =
     fake_exponential 1 (ucast excess_blob_gas) update_fraction"

definition calc_excess_blob_gas :: "u64 option \<Rightarrow> u64 option \<Rightarrow> u64 \<Rightarrow> u64" where
  "calc_excess_blob_gas parent_excess parent_used target =
     saturating_sub (unwrap_or parent_excess 0 + unwrap_or parent_used 0) target"

subsection \<open>The schedule in order\<close>

text \<open>
  A configuration is \<open>fork_ordered\<close> when the sorted schedule lists the forks in the order of
  the enumeration, as every published chain configuration does.
\<close>

definition fork_ordered :: "chain_config \<Rightarrow> bool" where
  "fork_ordered c = sorted (map (\<lambda>e. snd (snd e)) (sort_key fork_sort_key (config_forks c)))"

definition opt_le :: "'a::order option \<Rightarrow> 'a option \<Rightarrow> bool" where
  "opt_le a b = (case a of None \<Rightarrow> True | Some x \<Rightarrow> (case b of None \<Rightarrow> False | Some y \<Rightarrow> x \<le> y))"

lemmas fork_order_simps = less_eq_hardfork_def less_hardfork_def

lemma scan_forks_takeWhile:
  "scan_forks n ts a es =
     (case takeWhile (fork_reached n ts) es of [] \<Rightarrow> a | r \<Rightarrow> snd (snd (last r)))"
  by (induction es arbitrary: a) (auto split: list.splits)

lemma fork_reached_mono:
  "fork_reached n ts e \<Longrightarrow> n \<le> n' \<Longrightarrow> ts \<le> ts' \<Longrightarrow> fork_reached n' ts' e"
  by (auto simp: fork_reached_def split: if_splits)

lemma scan_forks_ge_start:
  "sorted (map (\<lambda>e. snd (snd e)) es) \<Longrightarrow> \<forall>e \<in> set es. a \<le> snd (snd e) \<Longrightarrow> a \<le> scan_forks n ts a es"
proof (induction es arbitrary: a)
  case (Cons e es)
  have "snd (snd e) \<le> scan_forks n ts (snd (snd e)) es"
    using Cons.prems by (intro Cons.IH) auto
  then show ?case
    using Cons.prems(2) by auto
qed simp

lemma scan_forks_mono:
  assumes "sorted (map (\<lambda>e. snd (snd e)) es)" and "\<forall>e \<in> set es. a \<le> snd (snd e)"
    and "n \<le> n'" and "ts \<le> ts'"
  shows "scan_forks n ts a es \<le> scan_forks n' ts' a es"
  using assms(1,2)
proof (induction es arbitrary: a)
  case (Cons e es)
  have IH: "scan_forks n ts (snd (snd e)) es \<le> scan_forks n' ts' (snd (snd e)) es"
    using Cons.prems by (intro Cons.IH) auto
  have "a \<le> scan_forks n' ts' a (e # es)"
    using Cons.prems by (intro scan_forks_ge_start) auto
  with IH show ?case
    using fork_reached_mono [of n ts e n' ts', OF _ assms(3,4)] by auto
qed simp

lemma Frontier_least [simp]: "Frontier \<le> f"
  by (simp add: less_eq_hardfork_def)

lemma le_Frontier [simp]: "f \<le> Frontier \<longleftrightarrow> f = Frontier"
  by (cases f) (simp_all add: less_eq_hardfork_def)

lemma set_fork_opt: "e \<in> set (fork_opt v ts f) \<longleftrightarrow> (\<exists>b. v = Some b \<and> e = (b, ts, f))"
  by (cases v) (auto simp: fork_opt_def)

lemma config_forks_time:
  "(t, True, f) \<in> set (config_forks c) \<longleftrightarrow>
     shanghai_time c = Some t \<and> f = Shanghai \<or> cancun_time c = Some t \<and> f = Cancun \<or>
     prague_time c = Some t \<and> f = Prague"
  by (simp add: config_forks_def set_fork_opt)

lemma config_forks_block: "(t, False, f) \<in> set (config_forks c) \<Longrightarrow> f \<le> Paris"
  by (auto simp: config_forks_def set_fork_opt less_eq_hardfork_def)

lemma config_forks_time_unique:
  "(t, True, f) \<in> set (config_forks c) \<Longrightarrow> (t', b, f) \<in> set (config_forks c) \<Longrightarrow> t' = t \<and> b"
  by (cases b) (auto simp: config_forks_time dest!: config_forks_block simp: less_eq_hardfork_def)

lemma takeWhile_closed:
  assumes "sorted (map k es)" and "\<And>x y. x \<in> set es \<Longrightarrow> k x \<le> k y \<Longrightarrow> P y \<Longrightarrow> P x"
  shows "takeWhile P es = filter P es"
  using assms
proof (induction es)
  case (Cons e es)
  have "takeWhile P es = filter P es"
    using Cons.prems by (intro Cons.IH) auto
  moreover have "\<not> P y" if "\<not> P e" "y \<in> set es" for y
    using Cons.prems(1) Cons.prems(2) [of e y] that by auto
  ultimately show ?case
    by (auto simp: filter_empty_conv)
qed simp

lemma sorted_last: "sorted (map f xs) \<Longrightarrow> x \<in> set xs \<Longrightarrow> f x \<le> f (last xs)"
  by (induction xs) (auto split: if_splits)

text \<open>With every block-numbered fork reached, the reached forks are a prefix of the schedule.\<close>

lemma reached_prefix:
  assumes "\<forall>e \<in> set (config_forks c). \<not> fst (snd e) \<longrightarrow> fork_reached n ts e"
  shows "takeWhile (fork_reached n ts) (sort_key fork_sort_key (config_forks c)) =
         filter (fork_reached n ts) (sort_key fork_sort_key (config_forks c))"
proof (rule takeWhile_closed [where k = fork_sort_key])
  show "sorted (map fork_sort_key (sort_key fork_sort_key (config_forks c)))"
    by simp
  fix x y :: fork_entry
  assume "x \<in> set (sort_key fork_sort_key (config_forks c))" "fork_sort_key x \<le> fork_sort_key y"
    and "fork_reached n ts y"
  with assms show "fork_reached n ts x"
    by (auto simp: fork_sort_key_def fork_reached_def less_eq_prod_def split: if_splits)
qed

lemma scan_forks_reached_iff:
  assumes "sorted (map (\<lambda>e. snd (snd e)) es)" and "takeWhile P es = filter P es"
    and "P = fork_reached n ts" and "e \<in> set es"
    and "\<And>e'. e' \<in> set es \<Longrightarrow> snd (snd e') = snd (snd e) \<Longrightarrow> e' = e" and "snd (snd e) \<noteq> Frontier"
  shows "snd (snd e) \<le> scan_forks n ts Frontier es \<longleftrightarrow> P e"
proof -
  let ?F = "\<lambda>e::fork_entry. snd (snd e)"
  have scan: "scan_forks n ts Frontier es = (case filter P es of [] \<Rightarrow> Frontier | r \<Rightarrow> ?F (last r))"
    unfolding scan_forks_takeWhile assms(2)[unfolded assms(3)] assms(3) ..
  have split: "filter P es @ dropWhile P es = es"
    using assms(2) by (metis takeWhile_dropWhile_id)
  then have srt: "sorted (map ?F (filter P es) @ map ?F (dropWhile P es))"
    using assms(1) by (metis map_append)
  show ?thesis
  proof
    assume "P e"
    with assms(4) have e: "e \<in> set (filter P es)" by simp
    have "sorted (map ?F (filter P es))"
      using srt by (simp add: sorted_append)
    then have "?F e \<le> ?F (last (filter P es))"
      using e by (rule sorted_last)
    with e show "?F e \<le> scan_forks n ts Frontier es"
      by (auto simp: scan filter_empty_conv split: list.splits)
  next
    assume le: "?F e \<le> scan_forks n ts Frontier es"
    show "P e"
    proof (rule ccontr)
      assume "\<not> P e"
      then have tl: "e \<in> set (dropWhile P es)"
        using assms(4) arg_cong [OF split, of set] by auto
      show False
      proof (cases "filter P es")
        case Nil
        with le assms(6) show False
          by (simp add: scan)
      next
        case (Cons a r)
        let ?l = "last (filter P es)"
        have l: "?l \<in> set (filter P es)" by (rule last_in_set) (simp add: Cons)
        have "\<forall>x \<in> ?F ` set (filter P es). \<forall>y \<in> ?F ` set (dropWhile P es). x \<le> y"
          using srt unfolding sorted_append set_map by blast
        then have "?F ?l \<le> ?F e"
          using l tl by blast
        with le Cons have "?F ?l = ?F e"
          by (simp add: scan)
        with assms(5) l have "?l = e" by auto
        with l \<open>\<not> P e\<close> show False by auto
      qed
    qed
  qed
qed

subsection \<open>Properties\<close>

text \<open>Hard forks never deactivate.  On a configuration whose schedule lists the forks in order,
  the active fork never decreases as the block number, the timestamp and the total difficulty
  grow.\<close>

theorem active_fork_monotone:
  assumes "fork_ordered c" and "n \<le> n'" and "ts \<le> ts'" and "opt_le td td'"
  shows "get_active_fork_with_total_difficulty c n ts td \<le>
         get_active_fork_with_total_difficulty c n' ts' td'"
proof -
  let ?es = "sort_key fork_sort_key (config_forks c)"
  have "scan_forks n ts Frontier ?es \<le> scan_forks n' ts' Frontier ?es"
    using assms by (intro scan_forks_mono) (auto simp: fork_ordered_def)
  then show ?thesis
    using assms(4) unfolding get_active_fork_with_total_difficulty_def Let_def
    by (auto simp: opt_le_def split: option.splits)
qed

text \<open>Once every block-numbered fork is reached (as on any post-merge chain), a
  timestamp-scheduled fork is active exactly from its timestamp on.\<close>

theorem timestamp_fork_active_iff:
  assumes "fork_ordered c" and "(t, True, f) \<in> set (config_forks c)"
    and "\<forall>e \<in> set (config_forks c). \<not> fst (snd e) \<longrightarrow> fork_reached n ts e"
  shows "f \<le> get_active_fork_with_total_difficulty c n ts td \<longleftrightarrow> t \<le> ts"
proof -
  let ?es = "sort_key fork_sort_key (config_forks c)"
  have f: "Paris < f"
    using assms(2) by (auto simp: config_forks_time less_hardfork_def)
  have "snd (snd (t, True, f)) \<le> scan_forks n ts Frontier ?es \<longleftrightarrow> fork_reached n ts (t, True, f)"
  proof (rule scan_forks_reached_iff [OF _ reached_prefix [OF assms(3)] refl])
    fix e' :: fork_entry
    assume "e' \<in> set ?es" and f': "snd (snd e') = snd (snd (t, True, f))"
    then have "(fst e', fst (snd e'), f) \<in> set (config_forks c)"
      by (metis prod.collapse set_sort snd_conv)
    then show "e' = (t, True, f)"
      using config_forks_time_unique [OF assms(2), of "fst e'" "fst (snd e')"] f'
      by (simp add: prod_eq_iff)
  next
    show "snd (snd (t, True, f)) \<noteq> Frontier"
      using f by (auto simp: less_hardfork_def)
  qed (use assms in \<open>auto simp: fork_ordered_def\<close>)
  then have "f \<le> scan_forks n ts Frontier ?es \<longleftrightarrow> t \<le> ts"
    by (simp add: fork_reached_def)
  then show ?thesis
    using f unfolding get_active_fork_with_total_difficulty_def Let_def
    by (auto split: option.splits)
qed

definition mainnet_config :: chain_config where
  "mainnet_config = \<lparr>homestead_block = Some 1150000, eip150_block = Some 2463000,
     eip155_block = Some 2675000, eip158_block = Some 2675000, byzantium_block = Some 4370000,
     constantinople_block = Some 7280000, petersburg_block = Some 7280000,
     istanbul_block = Some 9069000, muir_glacier_block = Some 9200000,
     berlin_block = Some 12244000, london_block = Some 12965000,
     arrow_glacier_block = Some 13773000, gray_glacier_block = Some 15050000,
     merge_netsplit_block = None, shanghai_time = Some 1681338455,
     cancun_time = Some 1710338135, prague_time = Some 1746612311,
     terminal_total_difficulty = Some 58750000000000000000000, blob_schedule = []\<rparr>"

lemma mainnet_sorted:
  "sort_key fork_sort_key (config_forks mainnet_config) = config_forks mainnet_config"
  by (simp add: mainnet_config_def config_forks_def fork_opt_def fork_sort_key_def less_eq_prod_def)

lemma mainnet_ordered: "fork_ordered mainnet_config"
  unfolding fork_ordered_def mainnet_sorted
  by (simp add: mainnet_config_def config_forks_def fork_opt_def less_eq_hardfork_def)

theorem active_fork_monotone_witness:
  "get_active_fork_with_total_difficulty mainnet_config 12000000 0 None \<le>
   get_active_fork_with_total_difficulty mainnet_config 20000000 1720000000 None"
  by (rule active_fork_monotone [OF mainnet_ordered]) (simp_all add: opt_le_def)

lemma mainnet_post_merge:
  "\<forall>e \<in> set (config_forks mainnet_config). \<not> fst (snd e) \<longrightarrow> fork_reached 20000000 1720000000 e"
  by (simp add: mainnet_config_def config_forks_def fork_opt_def fork_reached_def)

theorem timestamp_fork_active_iff_witness:
  "Cancun \<le> get_active_fork_with_total_difficulty mainnet_config 20000000 1720000000 None"
  using timestamp_fork_active_iff [OF mainnet_ordered, of 1710338135 Cancun 20000000 1720000000 None]
    mainnet_post_merge
  by (simp add: config_forks_time) (simp add: mainnet_config_def)

end
