(* ===== verification/Tables.thy ===== *)
theory Tables
  imports Prelude
begin

section \<open>Ordered tables\<close>

text \<open>
  The storage crate keeps everything in \<open>redb\<close> tables: ordered key-value maps with point
  lookup, insertion, removal, iteration in key order and range scans.  A table is represented by
  its contents, an association list in strictly increasing key order.  \<open>kv_table\<close> is the
  contract the storage crate relies on; the interpretation at the end discharges it for the
  representation, and every storage lemma rests on the interpretation's facts.
\<close>

type_synonym ('k, 'v) table = "('k \<times> 'v) list"

definition tbl_empty :: "('k, 'v) table" where
  "tbl_empty = []"

definition tbl_get :: "('k, 'v) table \<Rightarrow> 'k \<Rightarrow> 'v option" where
  "tbl_get = map_of"

fun tbl_insert :: "'k::linorder \<Rightarrow> 'v \<Rightarrow> ('k, 'v) table \<Rightarrow> ('k, 'v) table" where
  "tbl_insert k v [] = [(k, v)]"
| "tbl_insert k v ((k', v') # t) =
     (if k < k' then (k, v) # (k', v') # t
      else if k = k' then (k, v) # t
      else (k', v') # tbl_insert k v t)"

definition tbl_remove :: "'k \<Rightarrow> ('k, 'v) table \<Rightarrow> ('k, 'v) table" where
  "tbl_remove k t = filter (\<lambda>e. fst e \<noteq> k) t"

definition tbl_iter :: "('k, 'v) table \<Rightarrow> ('k \<times> 'v) list" where
  "tbl_iter t = t"

definition tbl_range :: "'k::linorder \<Rightarrow> 'k \<Rightarrow> ('k, 'v) table \<Rightarrow> ('k \<times> 'v) list" where
  "tbl_range lo hi t = filter (\<lambda>e. lo \<le> fst e \<and> fst e \<le> hi) t"

definition tbl_wf :: "('k::linorder, 'v) table \<Rightarrow> bool" where
  "tbl_wf t = sorted_wrt (<) (map fst t)"

subsection \<open>The contract\<close>

locale kv_table =
  fixes emp :: "'t"
    and get :: "'t \<Rightarrow> 'k::linorder \<Rightarrow> 'v option"
    and put :: "'k \<Rightarrow> 'v \<Rightarrow> 't \<Rightarrow> 't"
    and del :: "'k \<Rightarrow> 't \<Rightarrow> 't"
    and iter :: "'t \<Rightarrow> ('k \<times> 'v) list"
    and wf :: "'t \<Rightarrow> bool"
  assumes get_emp: "get emp k = None"
    and get_put: "get (put k v t) k' = (if k' = k then Some v else get t k')"
    and get_del: "get (del k t) k' = (if k' = k then None else get t k')"
    and iter_get: "wf t \<Longrightarrow> (k, v) \<in> set (iter t) \<longleftrightarrow> get t k = Some v"
    and iter_sorted: "wf t \<Longrightarrow> sorted_wrt (<) (map fst (iter t))"
    and wf_emp: "wf emp"
    and wf_put: "wf t \<Longrightarrow> wf (put k v t)"
    and wf_del: "wf t \<Longrightarrow> wf (del k t)"
begin

definition put_all :: "('k \<times> 'v) list \<Rightarrow> 't \<Rightarrow> 't" where
  "put_all = fold (\<lambda>e. put (fst e) (snd e))"

lemma get_put_all:
  "get (put_all es t) k = (case map_of (rev es) k of None \<Rightarrow> get t k | Some v \<Rightarrow> Some v)"
  by (induction es arbitrary: t)
    (auto simp: put_all_def get_put map_add_def split: option.splits)

lemma wf_put_all: "wf t \<Longrightarrow> wf (put_all es t)"
  by (induction es arbitrary: t) (auto simp: put_all_def wf_put)

lemma last_is_max:
  assumes "wf t" and "iter t \<noteq> []" and "get t k = Some v"
  shows "k \<le> fst (last (iter t))"
proof -
  have srt: "sorted_wrt (<) (map fst (iter t))"
    using assms(1) by (rule iter_sorted)
  have "(k, v) \<in> set (iter t)"
    using assms iter_get by simp
  then obtain i where i: "i < length (iter t)" "iter t ! i = (k, v)"
    by (auto simp: in_set_conv_nth)
  have "map fst (iter t) ! i \<le> map fst (iter t) ! (length (iter t) - 1)"
  proof (cases "i = length (iter t) - 1")
    case False
    with i have "i < length (iter t) - 1" by simp
    with srt show ?thesis
      by (intro less_imp_le) (rule sorted_wrt_nth_less, auto)
  qed simp
  with i assms(2) show ?thesis
    by (simp add: last_conv_nth)
qed

lemma del_put_same: "wf t \<Longrightarrow> get (del k (put k v t)) = get (del k t)"
  by (rule ext) (simp add: get_del get_put)

end

subsection \<open>The representation satisfies it\<close>

lemma tbl_get_insert: "tbl_get (tbl_insert k v t) k' = (if k' = k then Some v else tbl_get t k')"
  by (induction t) (auto simp: tbl_get_def)

lemma tbl_get_remove: "tbl_get (tbl_remove k t) k' = (if k' = k then None else tbl_get t k')"
  by (induction t) (auto simp: tbl_get_def tbl_remove_def)

lemma tbl_insert_keys: "fst ` set (tbl_insert k v t) = insert k (fst ` set t)"
  by (induction k v t rule: tbl_insert.induct) (simp_all add: insert_commute)

lemma tbl_wf_insert: "tbl_wf t \<Longrightarrow> tbl_wf (tbl_insert k v t)"
proof (induction t)
  case (Cons e t)
  obtain k' v' where e: "e = (k', v')" by (cases e)
  from Cons.prems have tl: "tbl_wf t" and lt: "\<forall>x \<in> fst ` set t. k' < x"
    by (auto simp: tbl_wf_def e)
  have "\<forall>x \<in> fst ` set (tbl_insert k v t). k' < x" if "k' < k"
    using lt that by (simp add: tbl_insert_keys)
  with tl lt Cons.IH show ?case
    by (auto simp: e tbl_wf_def not_less order.strict_iff_order)
qed (simp add: tbl_wf_def)

lemma tbl_wf_remove: "tbl_wf t \<Longrightarrow> tbl_wf (tbl_remove k t)"
  by (induction t) (auto simp: tbl_wf_def tbl_remove_def)

lemma tbl_wf_distinct: "tbl_wf t \<Longrightarrow> distinct (map fst t)"
  by (simp add: tbl_wf_def strict_sorted_iff)

lemma tbl_iter_get: "tbl_wf t \<Longrightarrow> (k, v) \<in> set (tbl_iter t) \<longleftrightarrow> tbl_get t k = Some v"
  by (auto simp: tbl_iter_def tbl_get_def tbl_wf_distinct map_of_is_SomeI dest: map_of_SomeD)

interpretation tb: kv_table tbl_empty tbl_get tbl_insert tbl_remove tbl_iter tbl_wf
proof unfold_locales
  fix t :: "('a::linorder, 'b) table" and k :: 'a and v :: 'b
  show "tbl_get tbl_empty k = None"
    by (simp add: tbl_get_def tbl_empty_def)
  show "tbl_wf t \<Longrightarrow> sorted_wrt (<) (map fst (tbl_iter t))"
    by (simp add: tbl_wf_def tbl_iter_def)
  show "tbl_wf tbl_empty"
    by (simp add: tbl_wf_def tbl_empty_def)
qed (simp_all add: tbl_get_insert tbl_get_remove tbl_iter_get tbl_wf_insert tbl_wf_remove)

lemmas tbl_gets [simp, table_simps] = tb.get_emp tb.get_put tb.get_del
lemmas tbl_wfs [simp, intro] = tb.wf_emp tb.wf_put tb.wf_del

lemma tbl_range_get:
  "tbl_wf t \<Longrightarrow> (k, v) \<in> set (tbl_range lo hi t) \<longleftrightarrow> lo \<le> k \<and> k \<le> hi \<and> tbl_get t k = Some v"
  using tb.iter_get [of t k v] by (auto simp: tbl_range_def tbl_iter_def)

end
