(* ===== verification/Storage.thy ===== *)
theory Storage
  imports EthTypes Tables
begin

section \<open>The database and the read provider\<close>

text \<open>
  \<^verbatim>\<open>wasix_eth_storage/src/tables.rs\<close>, \<^verbatim>\<open>codecs.rs\<close> (the table schema) and
  \<^verbatim>\<open>read.rs\<close>.  \<open>db\<close> has one table per \<open>Table\<close> implementation.  Rows are kept as the values
  they stand for; the theory \<open>Codecs\<close> has the bytes they are stored as, and shows which values are read back.  \<open>db_opens\<close>
  says which tables can currently be opened and read: a transaction on another one fails with
  \<open>TableError\<close>, which is how the \<open>?\<close> of \<open>begin_read()?\<close>, \<open>open_table()?\<close> and \<open>get()?\<close>
  is modelled.  The hash of a header (\<open>hash_slow\<close>, the Keccak-256 of its RLP) is a parameter
  \<open>hs\<close>.  Queries against a historical state root go through the state trie and are not part of
  this theory; those against the current state (\<open>state_root = None\<close>) are.
\<close>

datatype tbl = THeaders | THeaderTD | TBlockBodies | TTransactions | TReceipts | TReceiptsMeta
  | TCanonicalHeads | THeaderNumbers | TTransactionLookup | TAccounts | TStorages | TBytecodes
  | TAccountChangeSets | TStorageChangeSets | TPlainState | THashedState | TTrieNodes | TMetadata
  | TPayloads | TForkchoice | TActivePeers

record blobs_bundle =
  bb_commitments :: "bytes list"
  bb_proofs :: "bytes list"
  bb_blobs :: "bytes list"

type_synonym payload_id = u64
type_synonym payload = "block \<times> receipt list \<times> receipt_meta list \<times> blobs_bundle"

record db =
  t_headers :: "(b256, header) table"
  t_header_td :: "(b256, u256) table"
  t_block_bodies :: "(b256, body) table"
  t_transactions :: "(b256, tx) table"
  t_receipts :: "(b256 \<times> u64, receipt) table"
  t_receipts_meta :: "(b256 \<times> u64, receipt_meta) table"
  t_canonical_heads :: "(u64, b256) table"
  t_header_numbers :: "(b256, u64) table"
  t_transaction_lookup :: "(b256, b256 \<times> u64) table"
  t_accounts :: "(address, trie_account) table"
  t_storages :: "(address \<times> b256, u256) table"
  t_bytecodes :: "(b256, bytes) table"
  t_account_change_sets :: "(u64, (address \<times> bytes option) list) table"
  t_storage_change_sets :: "(u64, (address \<times> b256 \<times> u256) list) table"
  t_plain_state :: "(address, bytes) table"
  t_hashed_state :: "(b256, bytes) table"
  t_trie_nodes :: "(b256, bytes) table"
  t_metadata :: "(string, bytes) table"
  t_payloads :: "(payload_id, payload) table"
  t_forkchoice :: "(string, b256) table"
  t_active_peers :: "(string, peer_entry) table"
  db_opens :: "tbl \<Rightarrow> bool"

datatype block_tag = Number u64 | Latest | Safe | Finalized | Pending | Earliest
datatype block_id = IdHash b256 | IdNumber block_tag

datatype storage_error =
    TableError tbl
  | BlockNotFound block_id
  | DecodeError address
  | BlockDataMissing b256
  | BlockHashNotFound u64
  | UpdateFailed

definition db_wf :: "db \<Rightarrow> bool" where
  "db_wf d \<longleftrightarrow> tbl_wf (t_canonical_heads d) \<and> tbl_wf (t_payloads d) \<and> tbl_wf (t_storages d)"

text \<open>A database right after its tables have been created.\<close>

definition empty_db :: db where
  "empty_db = \<lparr>t_headers = tbl_empty, t_header_td = tbl_empty, t_block_bodies = tbl_empty,
     t_transactions = tbl_empty, t_receipts = tbl_empty, t_receipts_meta = tbl_empty,
     t_canonical_heads = tbl_empty, t_header_numbers = tbl_empty, t_transaction_lookup = tbl_empty,
     t_accounts = tbl_empty, t_storages = tbl_empty, t_bytecodes = tbl_empty,
     t_account_change_sets = tbl_empty, t_storage_change_sets = tbl_empty, t_plain_state = tbl_empty,
     t_hashed_state = tbl_empty, t_trie_nodes = tbl_empty, t_metadata = tbl_empty,
     t_payloads = tbl_empty, t_forkchoice = tbl_empty, t_active_peers = tbl_empty,
     db_opens = (\<lambda>_. True)\<rparr>"

definition read_tbl :: "tbl \<Rightarrow> (db \<Rightarrow> ('k, 'v) table) \<Rightarrow> 'k \<Rightarrow> db \<Rightarrow> storage_error + 'v option" where
  "read_tbl T f k d = (if db_opens d T then Inr (tbl_get (f d) k) else Inl (TableError T))"

subsection \<open>Point lookups\<close>

definition header_td :: "b256 \<Rightarrow> db \<Rightarrow> storage_error + u256 option" where
  "header_td hash d = read_tbl THeaderTD t_header_td hash d"

definition block_hash :: "u64 \<Rightarrow> db \<Rightarrow> storage_error + b256 option" where
  "block_hash number d = read_tbl TCanonicalHeads t_canonical_heads number d"

definition block_number :: "b256 \<Rightarrow> db \<Rightarrow> storage_error + u64 option" where
  "block_number hash d = read_tbl THeaderNumbers t_header_numbers hash d"

definition block_body_by_hash :: "b256 \<Rightarrow> db \<Rightarrow> storage_error + body option" where
  "block_body_by_hash hash d = read_tbl TBlockBodies t_block_bodies hash d"

definition block_body :: "u64 \<Rightarrow> db \<Rightarrow> storage_error + body option" where
  "block_body number d =
     rbind (block_hash number d) (\<lambda>h.
       case h of None \<Rightarrow> Inr None | Some hash \<Rightarrow> block_body_by_hash hash d)"

definition forkchoice :: "string \<Rightarrow> db \<Rightarrow> storage_error + b256 option" where
  "forkchoice key d = read_tbl TForkchoice t_forkchoice key d"

definition latest_block_number :: "db \<Rightarrow> storage_error + u64 option" where
  "latest_block_number d =
     (if db_opens d TCanonicalHeads
      then Inr (case rev (tbl_iter (t_canonical_heads d)) of [] \<Rightarrow> None | e # _ \<Rightarrow> Some (fst e))
      else Inl (TableError TCanonicalHeads))"

definition head_or_latest :: "db \<Rightarrow> storage_error + b256 option" where
  "head_or_latest d =
     rbind (forkchoice ''head'' d) (\<lambda>head_hash.
       case head_hash of Some h \<Rightarrow> Inr (Some h)
       | None \<Rightarrow> rbind (latest_block_number d) (\<lambda>latest.
           case latest of Some n \<Rightarrow> block_hash n d | None \<Rightarrow> Inr None))"

definition forkchoice_nonzero :: "string \<Rightarrow> block_tag \<Rightarrow> db \<Rightarrow> storage_error + b256 option" where
  "forkchoice_nonzero key tag d =
     rbind (forkchoice key d) (\<lambda>hash.
       case hash of Some h \<Rightarrow> if h \<noteq> 0 then Inr (Some h) else Inl (BlockNotFound (IdNumber tag))
       | None \<Rightarrow> Inl (BlockNotFound (IdNumber tag)))"

fun resolve_block_id :: "block_id \<Rightarrow> db \<Rightarrow> storage_error + b256 option" where
  "resolve_block_id (IdHash hash) d = Inr (Some hash)"
| "resolve_block_id (IdNumber (Number n)) d = block_hash n d"
| "resolve_block_id (IdNumber Latest) d = head_or_latest d"
| "resolve_block_id (IdNumber Safe) d = forkchoice_nonzero ''safe'' Safe d"
| "resolve_block_id (IdNumber Finalized) d = forkchoice_nonzero ''finalized'' Finalized d"
| "resolve_block_id (IdNumber Pending) d = head_or_latest d"
| "resolve_block_id (IdNumber Earliest) d = block_hash 0 d"

definition header :: "block_id \<Rightarrow> db \<Rightarrow> storage_error + header option" where
  "header bid d =
     rbind (resolve_block_id bid d) (\<lambda>hash.
       case hash of None \<Rightarrow> Inr None
       | Some h \<Rightarrow> if h \<noteq> 0 then read_tbl THeaders t_headers h d else Inr None)"

definition latest_header_td :: "db \<Rightarrow> storage_error + u256 option" where
  "latest_header_td d =
     rbind (latest_block_number d) (\<lambda>n.
       case n of None \<Rightarrow> Inr None
       | Some number \<Rightarrow> rbind (block_hash number d) (\<lambda>h.
           case h of None \<Rightarrow> Inr None | Some hash \<Rightarrow> header_td hash d))"

definition block :: "(header \<Rightarrow> b256) \<Rightarrow> block_id \<Rightarrow> db \<Rightarrow> storage_error + block option" where
  "block hs bid d =
     rbind (header bid d) (\<lambda>h.
       case h of None \<Rightarrow> Inr None
       | Some hdr \<Rightarrow> rbind (block_body_by_hash (hs hdr) d) (\<lambda>b.
           Inr (map_option (\<lambda>bd. \<lparr>b_header = hdr, b_body = bd\<rparr>) b)))"

definition block_by_hash :: "(header \<Rightarrow> b256) \<Rightarrow> b256 \<Rightarrow> db \<Rightarrow> storage_error + block option" where
  "block_by_hash hs hash d = block hs (IdHash hash) d"

definition get_payload :: "payload_id \<Rightarrow> db \<Rightarrow> payload option" where
  "get_payload pid d = (if db_opens d TPayloads then tbl_get (t_payloads d) pid else None)"

definition get_payload_by_block_hash :: "(header \<Rightarrow> b256) \<Rightarrow> b256 \<Rightarrow> db \<Rightarrow> payload option" where
  "get_payload_by_block_hash hs hash d =
     (if db_opens d TPayloads
      then map_option snd (find (\<lambda>e. hs (b_header (fst (snd e))) = hash) (tbl_iter (t_payloads d)))
      else None)"

definition all_payload_ids :: "db \<Rightarrow> payload_id list" where
  "all_payload_ids d = (if db_opens d TPayloads then map fst (tbl_iter (t_payloads d)) else [])"

definition highest_block_number :: "db \<Rightarrow> storage_error + u64" where
  "highest_block_number d =
     rbind (latest_block_number d) (\<lambda>l. let latest = unwrap_or l 0 in
     rbind (forkchoice ''head'' d) (\<lambda>head_hash.
       case head_hash of None \<Rightarrow> Inr latest
       | Some hash \<Rightarrow> rbind (block_number hash d) (\<lambda>n.
           case n of None \<Rightarrow> Inr latest | Some number \<Rightarrow> Inr (max latest number))))"

definition is_canonical :: "b256 \<Rightarrow> db \<Rightarrow> storage_error + bool" where
  "is_canonical hash d =
     rbind (block_number hash d) (\<lambda>n.
       case n of None \<Rightarrow> Inr False
       | Some number \<Rightarrow> rbind (block_hash number d) (\<lambda>c.
           case c of None \<Rightarrow> Inr False | Some canonical_hash \<Rightarrow> Inr (canonical_hash = hash)))"

subsection \<open>Transactions, receipts and logs\<close>

definition transaction :: "b256 \<Rightarrow> db \<Rightarrow> storage_error + tx option" where
  "transaction hash d = read_tbl TTransactions t_transactions hash d"

definition transaction_lookup :: "b256 \<Rightarrow> db \<Rightarrow> storage_error + (b256 \<times> u64) option" where
  "transaction_lookup hash d = read_tbl TTransactionLookup t_transaction_lookup hash d"

definition receipt_at :: "b256 \<Rightarrow> u64 \<Rightarrow> db \<Rightarrow> storage_error + receipt option" where
  "receipt_at hash index d = read_tbl TReceipts t_receipts (hash, index) d"

definition receipt_meta_at :: "b256 \<Rightarrow> u64 \<Rightarrow> db \<Rightarrow> storage_error + receipt_meta option" where
  "receipt_meta_at hash index d = read_tbl TReceiptsMeta t_receipts_meta (hash, index) d"

definition transaction_block_reference :: "b256 \<Rightarrow> db \<Rightarrow> storage_error + (u64 \<times> b256 \<times> u64) option" where
  "transaction_block_reference hash d =
     rbind (transaction_lookup hash d) (\<lambda>l.
       case l of None \<Rightarrow> Inr None
       | Some (bh, index) \<Rightarrow> rbind (block_number bh d) (\<lambda>n.
           case n of None \<Rightarrow> Inr None
           | Some number \<Rightarrow> rbind (block_hash number d) (\<lambda>c.
               case c of None \<Rightarrow> Inr None
               | Some canonical_hash \<Rightarrow>
                   Inr (if canonical_hash = bh then Some (number, bh, index) else None))))"

definition transaction_block :: "b256 \<Rightarrow> db \<Rightarrow> storage_error + u64 option" where
  "transaction_block hash d =
     rbind (transaction_lookup hash d) (\<lambda>l.
       case l of None \<Rightarrow> Inr None
       | Some (bh, index) \<Rightarrow> rbind (block_number bh d) (\<lambda>n.
           case n of None \<Rightarrow> Inr None
           | Some number \<Rightarrow> rbind (block_hash number d) (\<lambda>c.
               case c of None \<Rightarrow> Inr None
               | Some canonical_hash \<Rightarrow> Inr (if canonical_hash = bh then Some number else None))))"

definition transaction_receipt :: "b256 \<Rightarrow> db \<Rightarrow> storage_error + receipt option" where
  "transaction_receipt hash d =
     rbind (transaction_block_reference hash d) (\<lambda>r.
       case r of None \<Rightarrow> Inr None | Some (number, bh, index) \<Rightarrow> receipt_at bh index d)"

record log_filter =
  f_from_block :: "block_tag option"
  f_to_block :: "block_tag option"
  f_address :: "address list"
  f_topics :: "b256 list list"

record rpc_log =
  rl_inner :: log_entry
  rl_block_hash :: b256
  rl_block_number :: u64
  rl_transaction_hash :: b256
  rl_transaction_index :: u64
  rl_log_index :: u64

definition filter_from :: "u64 \<Rightarrow> block_tag option \<Rightarrow> u64" where
  "filter_from latest f = (case f of Some (Number n) \<Rightarrow> n | Some Latest \<Rightarrow> latest | _ \<Rightarrow> 0)"

definition filter_to :: "u64 \<Rightarrow> u64 \<Rightarrow> block_tag option \<Rightarrow> u64" where
  "filter_to latest from f =
     (case f of Some (Number n) \<Rightarrow> n | Some Latest \<Rightarrow> latest | _ \<Rightarrow> max latest from)"

fun topics_match :: "b256 list list \<Rightarrow> b256 list \<Rightarrow> bool" where
  "topics_match [] ts = True"
| "topics_match (f # fs) [] = (if f = [] then topics_match fs [] else False)"
| "topics_match (f # fs) (t # ts) = (if f = [] \<or> t \<in> set f then topics_match fs ts else False)"

definition log_matches :: "log_filter \<Rightarrow> log_entry \<Rightarrow> bool" where
  "log_matches f l =
     ((f_address f = [] \<or> l_address l \<in> set (f_address f)) \<and> topics_match (f_topics f) (l_topics l))"

fun tx_logs :: "log_filter \<Rightarrow> u64 \<Rightarrow> b256 \<Rightarrow> (nat \<times> tx) list \<Rightarrow> db \<Rightarrow> storage_error + rpc_log list" where
  "tx_logs f number bh [] d = Inr []"
| "tx_logs f number bh ((i, t) # txs) d =
     rbind (receipt_at bh (of_nat i) d) (\<lambda>r.
       let here = (case r of None \<Rightarrow> []
             | Some rc \<Rightarrow> map (\<lambda>(j, l). \<lparr>rl_inner = l, rl_block_hash = bh, rl_block_number = number,
                     rl_transaction_hash = tx_hash t, rl_transaction_index = of_nat i,
                     rl_log_index = of_nat j\<rparr>)
                 (filter (\<lambda>(j, l). log_matches f l) (List.enumerate 0 (r_logs rc))))
       in rbind (tx_logs f number bh txs d) (\<lambda>rest. Inr (here @ rest)))"

definition block_logs :: "log_filter \<Rightarrow> u64 \<Rightarrow> db \<Rightarrow> storage_error + rpc_log list" where
  "block_logs f number d =
     rbind (block_hash number d) (\<lambda>h.
       case h of None \<Rightarrow> Inr []
       | Some bh \<Rightarrow> rbind (block_body number d) (\<lambda>b.
           case b of None \<Rightarrow> Inr []
           | Some bd \<Rightarrow> tx_logs f number bh (List.enumerate 0 (b_transactions bd)) d))"

fun range_logs :: "log_filter \<Rightarrow> u64 list \<Rightarrow> db \<Rightarrow> storage_error + rpc_log list" where
  "range_logs f [] d = Inr []"
| "range_logs f (n # ns) d =
     rbind (block_logs f n d) (\<lambda>here. rbind (range_logs f ns d) (\<lambda>rest. Inr (here @ rest)))"

text \<open>\<open>from..=to\<close> on \<open>u64\<close>.\<close>

definition inclusive_range :: "u64 \<Rightarrow> u64 \<Rightarrow> u64 list" where
  "inclusive_range a b = map of_nat [unat a ..< Suc (unat b)]"

definition logs :: "log_filter \<Rightarrow> db \<Rightarrow> storage_error + rpc_log list" where
  "logs f d =
     rbind (latest_block_number d) (\<lambda>l.
       let latest = unwrap_or l 0;
           from = filter_from latest (f_from_block f);
           to = filter_to latest from (f_to_block f)
       in range_logs f (inclusive_range from to) d)"

subsection \<open>Current state\<close>

definition latest_account :: "address \<Rightarrow> db \<Rightarrow> storage_error + trie_account option" where
  "latest_account addr d = read_tbl TAccounts t_accounts addr d"

definition accounts :: "db \<Rightarrow> storage_error + (address \<times> trie_account) list" where
  "accounts d = (if db_opens d TAccounts then Inr (tbl_iter (t_accounts d)) else Inl (TableError TAccounts))"

definition addresses :: "db \<Rightarrow> storage_error + address list" where
  "addresses d =
     (if db_opens d TAccounts then Inr (map fst (tbl_iter (t_accounts d))) else Inl (TableError TAccounts))"

definition latest_storage :: "address \<Rightarrow> b256 \<Rightarrow> db \<Rightarrow> storage_error + u256" where
  "latest_storage addr slot d =
     rbind (read_tbl TStorages t_storages (addr, slot) d) (\<lambda>v. Inr (unwrap_or v 0))"

definition latest_account_storages :: "address \<Rightarrow> db \<Rightarrow> storage_error + (b256 \<times> u256) list" where
  "latest_account_storages addr d =
     (if db_opens d TStorages
      then Inr (map (\<lambda>e. (snd (fst e), snd e)) (tbl_range (addr, 0) (addr, - 1) (t_storages d)))
      else Inl (TableError TStorages))"

definition bytecode :: "b256 \<Rightarrow> db \<Rightarrow> storage_error + bytes option" where
  "bytecode code_hash d = read_tbl TBytecodes t_bytecodes code_hash d"

definition plain_state :: "address \<Rightarrow> db \<Rightarrow> storage_error + bytes option" where
  "plain_state addr d = read_tbl TPlainState t_plain_state addr d"

definition hashed_state :: "b256 \<Rightarrow> db \<Rightarrow> storage_error + bytes option" where
  "hashed_state hash d = read_tbl THashedState t_hashed_state hash d"

definition trie_node :: "b256 \<Rightarrow> db \<Rightarrow> storage_error + bytes option" where
  "trie_node hash d = read_tbl TTrieNodes t_trie_nodes hash d"

definition get_metadata :: "string \<Rightarrow> db \<Rightarrow> storage_error + bytes option" where
  "get_metadata key d = read_tbl TMetadata t_metadata key d"

definition account_change_set :: "u64 \<Rightarrow> db \<Rightarrow> storage_error + (address \<times> bytes option) list option" where
  "account_change_set number d = read_tbl TAccountChangeSets t_account_change_sets number d"

definition storage_change_set :: "u64 \<Rightarrow> db \<Rightarrow> storage_error + (address \<times> b256 \<times> u256) list option" where
  "storage_change_set number d = read_tbl TStorageChangeSets t_storage_change_sets number d"

subsection \<open>Sample data\<close>

text \<open>Headers and transactions of a development network, for the concrete instances of the theorems.\<close>

definition devnet_header :: "u64 \<Rightarrow> u64 \<Rightarrow> u64 \<Rightarrow> u64 \<Rightarrow> u64 \<Rightarrow> header" where
  "devnet_header n ts used fee blob_gas = \<lparr>h_parent_hash = ucast n, h_ommers_hash = 7,
     h_beneficiary = 0, h_state_root = 0, h_transactions_root = 0, h_receipts_root = 0,
     h_logs_bloom = 0, h_difficulty = 0, h_number = n, h_gas_limit = 30000000, h_gas_used = used,
     h_timestamp = ts, h_extra_data = [], h_mix_hash = 0, h_nonce = 0,
     h_base_fee_per_gas = Some fee, h_withdrawals_root = Some 0, h_blob_gas_used = Some blob_gas,
     h_excess_blob_gas = Some 0, h_parent_beacon_block_root = Some 0, h_requests_hash = None\<rparr>"

definition devnet_tx :: "tx_type \<Rightarrow> u64 \<Rightarrow> b256 list \<Rightarrow> tx" where
  "devnet_tx k n hashes = \<lparr>tx_kind = k, tx_hash = ucast n, tx_signer = Some 1, tx_nonce = n,
     tx_gas_limit = 21000, tx_gas_price = None, tx_max_fee_per_gas = 1000,
     tx_max_priority_fee_per_gas = Some 1, tx_blob_versioned_hashes = Some hashes,
     tx_max_fee_per_blob_gas = Some 1, tx_chain_id = Some 1, tx_to = Some 2, tx_value = 0, tx_input = [],
     tx_access_list = None, tx_authorization_list = None\<rparr>"

end
