(* ===== verification/Consensus.thy ===== *)
theory Consensus
  imports Storage
begin

section \<open>Consensus rules\<close>

text \<open>
  \<^verbatim>\<open>wasix_eth_core/src/consensus.rs\<close>, \<open>EthConsensus\<close>: header validation against the
  parent, body validation, the checks after execution, and the base fee and blob fee rules.  The
  record \<open>crypto\<close> holds what the \<open>alloy\<close> crates compute (header hash, Merkle roots, the
  empty-ommers constant, the blob price exponential); \<open>now\<close> is the system clock.  One
  constructor of \<open>consensus_error\<close> stands for one error message; \<open>DivisionByZero\<close> is the
  panic of a Rust division.
\<close>

record crypto =
  hash_slow :: "header \<Rightarrow> b256"
  EMPTY_OMMER_ROOT_HASH :: b256
  calculate_transaction_root :: "tx list \<Rightarrow> b256"
  calculate_ommers_hash :: "header list \<Rightarrow> b256"
  calculate_withdrawals_root :: "withdrawal list \<Rightarrow> b256"
  fake_exponential :: "u128 \<Rightarrow> u128 \<Rightarrow> u128 \<Rightarrow> u128"

datatype consensus_error =
    InvalidBlockNumber | TimestampNotAfterParent | TimestampInFuture
  | GasLimitTooLow | InvalidGasLimitChange | GasUsedExceedsLimit | ExtraDataTooLong
  | BaseFeeMissing | InvalidBaseFee
  | DifficultyNotZero | NonceNotZero | OmmersHashNotEmpty
  | WithdrawalsRootMissing | WithdrawalsRootUnexpected
  | BlobGasUsedMissing | ExcessBlobGasMissing | ParentBeaconRootMissing
  | InvalidExcessBlobGas | InvalidExcessBlobGasAtTransition | BlobGasUsedExceedsMaximum
  | BlobGasUsedUnexpected | ExcessBlobGasUnexpected | ParentBeaconRootUnexpected
  | RequestsHashMissing | RequestsHashUnexpected
  | InvalidTransactionsRoot | InvalidOmmersHash | InvalidWithdrawalsRoot | WithdrawalsMissing
  | InvalidBlobGasUsed | BlobGasUsedFieldMissing | Eip7702BeforePrague
  | GasUsedMismatch | ReceiptsRootMismatch | LogsBloomMismatch | StateRootMismatch
  | BlobVersionedHashesMismatch | ParentBeaconRootMismatch
  | DivisionByZero

abbreviation andthen :: "'e + unit \<Rightarrow> 'e + 'a \<Rightarrow> 'e + 'a" where
  "andthen a b \<equiv> rbind a (\<lambda>_. b)"

subsection \<open>Fees\<close>

definition calculate_next_base_fee :: "header \<Rightarrow> consensus_error + u64 option" where
  "calculate_next_base_fee parent =
     (case h_base_fee_per_gas parent of
        None \<Rightarrow> Inr None
      | Some parent_base_fee \<Rightarrow>
          let parent_gas_used = h_gas_used parent;
              parent_gas_target = h_gas_limit parent div 2
          in if parent_gas_used = parent_gas_target then Inr (Some parent_base_fee)
             else if parent_gas_used > parent_gas_target then
               if parent_gas_target = 0 then Inl DivisionByZero
               else let gas_used_delta = parent_gas_used - parent_gas_target;
                        base_fee_delta = (ucast parent_base_fee * ucast gas_used_delta :: u128)
                          div ucast parent_gas_target div 8
                    in Inr (Some (parent_base_fee + max (ucast base_fee_delta) 1))
             else let gas_used_delta = parent_gas_target - parent_gas_used;
                      base_fee_delta = (ucast parent_base_fee * ucast gas_used_delta :: u128)
                        div ucast parent_gas_target div 8
                  in Inr (Some (saturating_sub parent_base_fee (ucast base_fee_delta))))"

definition parent_td :: "crypto \<Rightarrow> header \<Rightarrow> db \<Rightarrow> u256 option" where
  "parent_td cr parent d = ok_flat (header_td (hash_slow cr parent) d)"

definition calculate_next_blob_base_fee ::
  "crypto \<Rightarrow> chain_config \<Rightarrow> db \<Rightarrow> header \<Rightarrow> u128 option" where
  "calculate_next_blob_base_fee cr c d parent =
     (case (h_excess_blob_gas parent, h_blob_gas_used parent) of
        (Some parent_excess, Some parent_used) \<Rightarrow>
          let td = parent_td cr parent d;
              current_fork = get_active_fork_with_total_difficulty c
                (h_number parent + 1) (h_timestamp parent + 1) td;
              (target, update_fraction) =
                (case blob_params_of current_fork c of
                   Some params \<Rightarrow> (bp_target_blob_count params * DATA_GAS_PER_BLOB,
                                   bp_update_fraction params)
                 | None \<Rightarrow> (TARGET_BLOB_GAS_PER_BLOCK, ucast BLOB_GASPRICE_UPDATE_FRACTION));
              new_excess = calc_excess_blob_gas (Some parent_excess) (Some parent_used) target
          in Some (calc_blob_gasprice (fake_exponential cr) new_excess update_fraction)
      | _ \<Rightarrow> None)"

subsection \<open>Header validation\<close>

definition check_gas_limit :: "hardfork \<Rightarrow> hardfork \<Rightarrow> u64 \<Rightarrow> u64 \<Rightarrow> consensus_error + unit" where
  "check_gas_limit parent_fork current_fork parent_gas_limit gas_limit =
     (let is_london_transition = parent_fork < London \<and> current_fork \<ge> London;
          target_gas_limit = (if is_london_transition then parent_gas_limit * 2 else parent_gas_limit);
          limit_delta = target_gas_limit div 1024;
          diff = (if gas_limit > target_gas_limit then gas_limit - target_gas_limit
                  else target_gas_limit - gas_limit)
      in ensure (diff < limit_delta) InvalidGasLimitChange)"

definition check_base_fee :: "hardfork \<Rightarrow> header \<Rightarrow> header \<Rightarrow> consensus_error + unit" where
  "check_base_fee current_fork hdr parent =
     (if current_fork \<ge> London
      then rbind (ok_or (h_base_fee_per_gas hdr) BaseFeeMissing) (\<lambda>actual_base_fee.
           rbind (calculate_next_base_fee parent) (\<lambda>expected.
             case expected of None \<Rightarrow> Inr ()
             | Some e \<Rightarrow>
                 let expected_base_fee = (if h_base_fee_per_gas parent = None then 1000000000 else e)
                 in ensure (actual_base_fee = expected_base_fee) InvalidBaseFee))
      else Inr ())"

definition check_merge :: "crypto \<Rightarrow> hardfork \<Rightarrow> header \<Rightarrow> consensus_error + unit" where
  "check_merge cr current_fork hdr =
     (if current_fork \<ge> Paris
      then andthen (ensure (h_difficulty hdr = 0) DifficultyNotZero)
          (andthen (ensure (h_nonce hdr = 0) NonceNotZero)
                   (ensure (h_ommers_hash hdr = EMPTY_OMMER_ROOT_HASH cr) OmmersHashNotEmpty))
      else Inr ())"

definition check_shanghai :: "hardfork \<Rightarrow> header \<Rightarrow> consensus_error + unit" where
  "check_shanghai current_fork hdr =
     (if current_fork \<ge> Shanghai
      then ensure (h_withdrawals_root hdr \<noteq> None) WithdrawalsRootMissing
      else ensure (h_withdrawals_root hdr = None) WithdrawalsRootUnexpected)"

definition blob_target :: "blob_params option \<Rightarrow> u64" where
  "blob_target params = (case params of Some p \<Rightarrow> bp_target_blob_count p * DATA_GAS_PER_BLOB
     | None \<Rightarrow> TARGET_BLOB_GAS_PER_BLOCK)"

definition blob_max :: "blob_params option \<Rightarrow> u64" where
  "blob_max params = (case params of Some p \<Rightarrow> bp_max_blob_count p * DATA_GAS_PER_BLOB
     | None \<Rightarrow> MAX_BLOB_GAS_PER_BLOCK)"

definition check_cancun :: "chain_config \<Rightarrow> hardfork \<Rightarrow> hardfork \<Rightarrow> header \<Rightarrow> header \<Rightarrow>
    consensus_error + unit" where
  "check_cancun c parent_fork current_fork hdr parent =
     (if current_fork \<ge> Cancun
      then rbind (ok_or (h_blob_gas_used hdr) BlobGasUsedMissing) (\<lambda>used.
           rbind (ok_or (h_excess_blob_gas hdr) ExcessBlobGasMissing) (\<lambda>excess.
           andthen (ensure (h_parent_beacon_block_root hdr \<noteq> None) ParentBeaconRootMissing)
             (let params = blob_params_of current_fork c in
              andthen (if is_cancun_active parent_fork
                       then ensure (excess = calc_excess_blob_gas (h_excess_blob_gas parent)
                                      (h_blob_gas_used parent) (blob_target params))
                              InvalidExcessBlobGas
                       else ensure (excess = 0) InvalidExcessBlobGasAtTransition)
                (ensure (used \<le> blob_max params) BlobGasUsedExceedsMaximum))))
      else andthen (ensure (h_blob_gas_used hdr = None) BlobGasUsedUnexpected)
          (andthen (ensure (h_excess_blob_gas hdr = None) ExcessBlobGasUnexpected)
                   (ensure (h_parent_beacon_block_root hdr = None) ParentBeaconRootUnexpected)))"

definition check_prague :: "hardfork \<Rightarrow> header \<Rightarrow> consensus_error + unit" where
  "check_prague current_fork hdr =
     (if current_fork \<ge> Prague
      then ensure (h_requests_hash hdr \<noteq> None) RequestsHashMissing
      else ensure (h_requests_hash hdr = None) RequestsHashUnexpected)"

definition validate_header ::
  "crypto \<Rightarrow> chain_config \<Rightarrow> db \<Rightarrow> u64 \<Rightarrow> header \<Rightarrow> header \<Rightarrow> consensus_error + unit" where
  "validate_header cr c d now hdr parent =
     andthen (ensure (h_number hdr = h_number parent + 1) InvalidBlockNumber)
    (andthen (ensure (h_timestamp hdr > h_timestamp parent) TimestampNotAfterParent)
    (andthen (ensure (h_timestamp hdr \<le> now + 15) TimestampInFuture)
    (andthen (ensure (h_gas_limit hdr \<ge> 5000) GasLimitTooLow)
    (let td = parent_td cr parent d;
         parent_fork = get_active_fork_with_total_difficulty c (h_number parent) (h_timestamp parent) td;
         current_fork = get_active_fork_with_total_difficulty c (h_number hdr) (h_timestamp hdr) td
     in
     andthen (check_gas_limit parent_fork current_fork (h_gas_limit parent) (h_gas_limit hdr))
    (andthen (ensure (h_gas_used hdr \<le> h_gas_limit hdr) GasUsedExceedsLimit)
    (andthen (ensure (length (h_extra_data hdr) \<le> 32) ExtraDataTooLong)
    (andthen (check_base_fee current_fork hdr parent)
    (andthen (check_merge cr current_fork hdr)
    (andthen (check_shanghai current_fork hdr)
    (andthen (check_cancun c parent_fork current_fork hdr parent)
             (check_prague current_fork hdr)))))))))))"

subsection \<open>Body validation and post-execution checks\<close>

fun blob_gas_of :: "tx list \<Rightarrow> u64" where
  "blob_gas_of [] = 0"
| "blob_gas_of (t # ts) =
     (if tx_kind t = Eip4844
      then of_nat (length (unwrap_or (tx_blob_versioned_hashes t) [])) * 131072 else 0) + blob_gas_of ts"

definition validate_body :: "crypto \<Rightarrow> chain_config \<Rightarrow> db \<Rightarrow> block \<Rightarrow> consensus_error + unit" where
  "validate_body cr c d b =
     (let hdr = b_header b; bd = b_body b;
          td = ok_flat (header_td (h_parent_hash hdr) d);
          current_fork = get_active_fork_with_total_difficulty c (h_number hdr) (h_timestamp hdr) td;
          is_prague = current_fork \<ge> Prague;
          blob_gas = blob_gas_of (b_transactions bd)
      in andthen (ensure (calculate_transaction_root cr (b_transactions bd) = h_transactions_root hdr)
                    InvalidTransactionsRoot)
        (andthen (ensure (calculate_ommers_hash cr (b_ommers bd) = h_ommers_hash hdr) InvalidOmmersHash)
        (andthen (case b_withdrawals bd of
                    Some ws \<Rightarrow> ensure (Some (calculate_withdrawals_root cr ws) = h_withdrawals_root hdr)
                                 InvalidWithdrawalsRoot
                  | None \<Rightarrow> ensure (h_withdrawals_root hdr = None) WithdrawalsMissing)
        (andthen (case h_blob_gas_used hdr of
                    Some used \<Rightarrow> ensure (blob_gas = used) InvalidBlobGasUsed
                  | None \<Rightarrow> ensure (\<not> blob_gas > 0) BlobGasUsedFieldMissing)
                 (ensure (is_prague \<or> (\<forall>t \<in> set (b_transactions bd). tx_kind t \<noteq> Eip7702))
                    Eip7702BeforePrague)))))"

definition validate_block_post_execution ::
  "block \<Rightarrow> u64 \<Rightarrow> b256 \<Rightarrow> 2048 word \<Rightarrow> b256 \<Rightarrow> consensus_error + unit" where
  "validate_block_post_execution b cumulative_gas_used receipts_root logs_bloom calculated_state_root =
     andthen (ensure (h_gas_used (b_header b) = cumulative_gas_used) GasUsedMismatch)
    (andthen (ensure (h_receipts_root (b_header b) = receipts_root) ReceiptsRootMismatch)
    (andthen (ensure (h_logs_bloom (b_header b) = logs_bloom) LogsBloomMismatch)
             (ensure (h_state_root (b_header b) = calculated_state_root) StateRootMismatch)))"

definition tx_blob_hashes :: "tx list \<Rightarrow> b256 list" where
  "tx_blob_hashes ts = concat (map (\<lambda>t. if tx_kind t = Eip4844
     then unwrap_or (tx_blob_versioned_hashes t) [] else []) ts)"

definition validate_cancun :: "block \<Rightarrow> b256 list option \<Rightarrow> consensus_error + unit" where
  "validate_cancun b expected =
     (case expected of None \<Rightarrow> Inr ()
      | Some expected_hashes \<Rightarrow>
          ensure (tx_blob_hashes (b_transactions (b_body b)) = expected_hashes)
            BlobVersionedHashesMismatch)"

definition validate_parent_beacon_block_root :: "header \<Rightarrow> b256 option \<Rightarrow> consensus_error + unit" where
  "validate_parent_beacon_block_root hdr root =
     (case root of None \<Rightarrow> Inr ()
      | Some r \<Rightarrow> ensure (h_parent_beacon_block_root hdr = Some r) ParentBeaconRootMismatch)"

subsection \<open>Base fee: correctness\<close>

text \<open>EIP-1559 over the natural numbers.\<close>

definition eip1559_next_base_fee :: "nat \<Rightarrow> nat \<Rightarrow> nat \<Rightarrow> nat" where
  "eip1559_next_base_fee fee used limit =
     (let target = limit div 2 in
      if used = target then fee
      else if used > target then fee + max (fee * (used - target) div target div 8) 1
      else fee - fee * (target - used) div target div 8)"

lemma unat_u64_to_u128: "unat (ucast (w :: u64) :: u128) = unat w"
  using unsigned_less [of w, where ?'a = nat] by (simp add: unat_ucast_fits)

text \<open>The base fee delta of the source, computed in 128 bits, never wraps.\<close>

lemma unat_base_fee_delta:
  fixes fee delta target :: u64
  shows "unat ((ucast fee * ucast delta :: u128) div ucast target div 8) =
         unat fee * unat delta div unat target div 8"
proof -
  have "unat fee < 2 ^ 64" "unat delta < 2 ^ 64"
    using unsigned_less [of fee, where ?'a = nat] unsigned_less [of delta, where ?'a = nat] by simp_all
  then have "unat fee * unat delta < 2 ^ 64 * 2 ^ 64"
    by (intro mult_strict_mono) auto
  then have "unat fee * unat delta < 2 ^ 128"
    by simp
  then show ?thesis
    by (simp add: unat_div unat_u64_to_u128 unat_mult_no_wrap)
qed

lemma base_fee_delta_bound:
  fixes fee used limit :: nat
  assumes "used \<le> limit" and "limit div 2 \<noteq> 0" and "fee < 2 ^ 63"
  shows "fee * (used - limit div 2) div (limit div 2) div 8 \<le> fee div 4"
proof -
  let ?t = "limit div 2"
  have "used - ?t \<le> 2 * ?t"
    using assms by simp
  then have "fee * (used - ?t) \<le> fee * (2 * ?t)"
    by (rule mult_le_mono2)
  then have "fee * (used - ?t) div ?t \<le> fee * (2 * ?t) div ?t"
    by (rule div_le_mono)
  then have "fee * (used - ?t) div ?t \<le> fee * 2"
    using assms(2) by (simp add: mult.assoc [symmetric])
  then have "fee * (used - ?t) div ?t div 8 \<le> fee * 2 div 8"
    by (rule div_le_mono)
  then show ?thesis by simp
qed

text \<open>C28: the 64/128-bit base fee computation of \<open>calculate_next_base_fee\<close> returns, without a panic, the
  base fee that EIP-1559 defines over the unbounded natural numbers: with a gas limit of at least 2, gas used
  within the limit and a base fee below \<open>2^63\<close> wei nothing wraps, on the raising, the lowering and the
  unchanged branch.\<close>

theorem next_base_fee_eip1559:
  assumes "h_base_fee_per_gas parent = Some fee" and "unat fee < 2 ^ 63"
    and "h_gas_used parent \<le> h_gas_limit parent" and "2 \<le> h_gas_limit parent"
  shows "\<exists>f. calculate_next_base_fee parent = Inr (Some f) \<and>
    unat f = eip1559_next_base_fee (unat fee) (unat (h_gas_used parent)) (unat (h_gas_limit parent))"
proof -
  define used limit where "used = h_gas_used parent" and "limit = h_gas_limit parent"
  have ul: "unat used \<le> unat limit" and l2: "2 \<le> unat limit"
    using assms(3,4) by (simp_all add: used_def limit_def word_le_nat_alt)
  have t: "unat (limit div 2) = unat limit div 2"
    by (simp add: unat_div)
  then have t0: "unat limit div 2 \<noteq> 0" and t0': "limit div 2 \<noteq> 0"
    using l2 by (auto simp: unat_eq_0 [symmetric])
  consider "used = limit div 2" | "used > limit div 2" | "used < limit div 2"
    by fastforce
  then show ?thesis
  proof cases
    case 1
    then have "unat used = unat limit div 2" using t by simp
    with 1 assms(1) show ?thesis
      by (simp add: calculate_next_base_fee_def eip1559_next_base_fee_def
        used_def [symmetric] limit_def [symmetric])
  next
    case 2
    then have d: "unat (used - limit div 2) = unat used - unat limit div 2"
      by (simp add: unat_sub t)
    let ?bfd = "(ucast fee * ucast (used - limit div 2) :: u128) div ucast (limit div 2) div 8"
    let ?n = "unat fee * (unat used - unat limit div 2) div (unat limit div 2) div 8"
    have "unat ?bfd = ?n"
      by (simp add: unat_base_fee_delta d t)
    moreover have n: "?n \<le> unat fee div 4"
      using base_fee_delta_bound [OF ul t0 assms(2)] .
    moreover have "?n < 2 ^ 63"
      using n assms(2) by (meson div_le_dividend le_less_trans)
    ultimately have b: "unat (ucast ?bfd :: u64) = ?n"
      by (subst unat_ucast_fits) simp_all
    then have m: "unat (max (ucast ?bfd :: u64) 1) = max ?n 1"
      by (simp add: max_def word_le_nat_alt)
    have "unat (fee + max (ucast ?bfd) 1) = unat fee + max ?n 1"
      using m \<open>?n < 2 ^ 63\<close> assms(2) by (subst unat_add_no_wrap) (auto simp: max_def)
    with 2 t0' t assms(1) show ?thesis
      by (auto simp: calculate_next_base_fee_def eip1559_next_base_fee_def Let_def
        used_def [symmetric] limit_def [symmetric] word_less_nat_alt)
  next
    case 3
    then have d: "unat (limit div 2 - used) = unat limit div 2 - unat used"
      by (simp add: unat_sub t)
    let ?bfd = "(ucast fee * ucast (limit div 2 - used) :: u128) div ucast (limit div 2) div 8"
    let ?n = "unat fee * (unat limit div 2 - unat used) div (unat limit div 2) div 8"
    have nb: "unat ?bfd = ?n"
      by (simp add: unat_base_fee_delta d t)
    have "unat fee * (unat limit div 2 - unat used) \<le> unat fee * (unat limit div 2)"
      by (intro mult_le_mono2) simp
    then have "unat fee * (unat limit div 2 - unat used) div (unat limit div 2) \<le> unat fee"
      using t0 by (metis div_le_mono nonzero_mult_div_cancel_right)
    then have "?n \<le> unat fee" by (metis div_le_dividend le_trans)
    then have "?n < 2 ^ 63" using assms(2) by (rule le_less_trans)
    with nb have b: "unat (ucast ?bfd :: u64) = ?n"
      by (subst unat_ucast_fits) simp_all
    have "unat used < unat limit div 2" using 3 t by (simp add: word_less_nat_alt)
    with 3 t0' b assms(1) show ?thesis
      by (auto simp: calculate_next_base_fee_def eip1559_next_base_fee_def Let_def
        used_def [symmetric] limit_def [symmetric] unat_saturating_sub)
  qed
qed

subsection \<open>Header validation: correctness\<close>

lemma check_gas_limit_ok:
  assumes "check_gas_limit pf cf pl gl = Inr ()"
  shows "pl div 2 \<noteq> 0"
proof
  assume "pl div 2 = 0"
  then have "unat (pl div 2) = 0" by simp
  then have pl: "unat pl < 2"
    by (auto simp: unat_div div_eq_0_iff)
  have "unat (pl * 2) \<le> unat pl * 2"
    by (simp add: unat_word_ariths)
  with pl have "unat (pl * 2 div 1024) = 0" "unat (pl div 1024) = 0"
    by (simp_all add: unat_div div_eq_0_iff)
  then have "pl * 2 div 1024 = 0" "pl div 1024 = 0"
    by (simp_all add: unat_eq_0)
  with assms show False
    by (auto simp: check_gas_limit_def Let_def split: if_splits)
qed

lemma next_base_fee_panic:
  "calculate_next_base_fee parent = Inl e \<Longrightarrow> h_gas_limit parent div 2 = 0"
  by (auto simp: calculate_next_base_fee_def Let_def split: option.splits if_splits)

lemma next_base_fee_None:
  "calculate_next_base_fee parent = Inr None \<longleftrightarrow> h_base_fee_per_gas parent = None"
  by (auto simp: calculate_next_base_fee_def Let_def split: option.splits if_splits)

lemma check_base_fee_panic:
  "check_base_fee f hdr parent = Inl DivisionByZero \<Longrightarrow> h_gas_limit parent div 2 = 0"
  by (auto simp: check_base_fee_def Let_def rbind_Inl_iff ok_or_def next_base_fee_panic
      split: if_splits option.splits)

lemma other_checks_no_panic:
  "check_gas_limit pf cf pl gl \<noteq> Inl DivisionByZero"
  "check_merge cr cf hdr \<noteq> Inl DivisionByZero"
  "check_shanghai cf hdr \<noteq> Inl DivisionByZero"
  "check_cancun c pf cf hdr parent \<noteq> Inl DivisionByZero"
  "check_prague cf hdr \<noteq> Inl DivisionByZero"
  by (auto simp: check_gas_limit_def check_merge_def check_shanghai_def check_cancun_def
      check_prague_def Let_def rbind_Inl_iff ok_or_def split: if_splits option.splits)

text \<open>Header validation never panics: the unguarded division by the parent's gas target in
  \<open>calculate_next_base_fee\<close> is protected by the gas limit check that runs before it, for every header,
  parent, configuration, database and clock.\<close>

theorem validate_header_no_panic: "validate_header cr c d now hdr parent \<noteq> Inl DivisionByZero"
proof
  assume "validate_header cr c d now hdr parent = Inl DivisionByZero"
  then obtain pf cf where "check_gas_limit pf cf (h_gas_limit parent) (h_gas_limit hdr) = Inr ()"
    and "check_base_fee cf hdr parent = Inl DivisionByZero"
    unfolding validate_header_def Let_def rbind_Inl_iff
    by (auto simp: other_checks_no_panic)
  then show False
    using check_gas_limit_ok check_base_fee_panic by blast
qed

text \<open>What acceptance means, for the whole conjunction of checks.\<close>

lemma validate_header_ok:
  assumes "validate_header cr c d now hdr parent = Inr ()"
  defines "pf \<equiv> get_active_fork_with_total_difficulty c (h_number parent) (h_timestamp parent)
      (parent_td cr parent d)"
    and "cf \<equiv> get_active_fork_with_total_difficulty c (h_number hdr) (h_timestamp hdr)
      (parent_td cr parent d)"
  shows "h_number hdr = h_number parent + 1" "h_timestamp parent < h_timestamp hdr"
    "h_timestamp hdr \<le> now + 15" "5000 \<le> h_gas_limit hdr"
    "check_gas_limit pf cf (h_gas_limit parent) (h_gas_limit hdr) = Inr ()"
    "h_gas_used hdr \<le> h_gas_limit hdr" "length (h_extra_data hdr) \<le> 32"
    "check_base_fee cf hdr parent = Inr ()" "check_merge cr cf hdr = Inr ()"
    "check_shanghai cf hdr = Inr ()" "check_cancun c pf cf hdr parent = Inr ()"
    "check_prague cf hdr = Inr ()"
  using assms(1) unfolding validate_header_def Let_def rbind_Inr_iff pf_def cf_def by auto

fun validated_chain :: "crypto \<Rightarrow> chain_config \<Rightarrow> db \<Rightarrow> u64 \<Rightarrow> header list \<Rightarrow> bool" where
  "validated_chain cr c d now [] = True"
| "validated_chain cr c d now [h] = True"
| "validated_chain cr c d now (p # h # hs) =
     (validate_header cr c d now h p = Inr () \<and> validated_chain cr c d now (h # hs))"

lemma validated_chain_nth:
  "validated_chain cr c d now hs \<Longrightarrow> Suc i < length hs \<Longrightarrow>
     validate_header cr c d now (hs ! Suc i) (hs ! i) = Inr ()"
proof (induction cr c d now hs arbitrary: i rule: validated_chain.induct)
  case (3 cr c d now p h hs)
  then show ?case by (cases i) auto
qed auto

text \<open>C9: along any sequence of headers each of which validates against its predecessor, block numbers
  are consecutive, timestamps strictly increase (by at least one per block), every gas limit is at least 5000
  and gas used stays within it.\<close>

theorem validated_chain_linear:
  assumes "validated_chain cr c d now hs" and "i < j" and "j < length hs"
  shows "h_number (hs ! j) = h_number (hs ! i) + of_nat (j - i) \<and>
    unat (h_timestamp (hs ! i)) + (j - i) \<le> unat (h_timestamp (hs ! j)) \<and>
    5000 \<le> h_gas_limit (hs ! j) \<and> h_gas_used (hs ! j) \<le> h_gas_limit (hs ! j)"
  using assms(2,3)
proof (induction j)
  case (Suc j)
  note ok = validate_header_ok [OF validated_chain_nth [OF assms(1) Suc.prems(2)]]
  show ?case
  proof (cases "i = j")
    case True
    with ok(1,2,4,6) show ?thesis
      by (simp add: word_less_nat_alt)
  next
    case False
    with Suc have "h_number (hs ! j) = h_number (hs ! i) + of_nat (j - i)"
      and "unat (h_timestamp (hs ! i)) + (j - i) \<le> unat (h_timestamp (hs ! j))"
      by simp_all
    moreover have "Suc j - i = Suc (j - i)" using False Suc.prems by simp
    ultimately show ?thesis
      using ok(1,2,4,6) by (simp add: word_less_nat_alt)
  qed
qed simp

text \<open>When the parent has no base fee (the first London block), the base fee of the new header is
  not constrained: validation gives the same verdict for every value, although the source means to require
  1 gwei there.\<close>

theorem london_base_fee_unchecked:
  assumes "h_base_fee_per_gas parent = None"
  shows "validate_header cr c d now (hdr\<lparr>h_base_fee_per_gas := Some f\<rparr>) parent =
         validate_header cr c d now (hdr\<lparr>h_base_fee_per_gas := Some g\<rparr>) parent"
proof -
  have "check_base_fee cf (hdr\<lparr>h_base_fee_per_gas := Some x\<rparr>) parent = Inr ()" for cf x
    using assms next_base_fee_None [of parent] by (simp add: check_base_fee_def)
  moreover have "check_merge cr cf (hdr\<lparr>h_base_fee_per_gas := x\<rparr>) = check_merge cr cf hdr"
    "check_shanghai cf (hdr\<lparr>h_base_fee_per_gas := x\<rparr>) = check_shanghai cf hdr"
    "check_cancun c pf cf (hdr\<lparr>h_base_fee_per_gas := x\<rparr>) parent = check_cancun c pf cf hdr parent"
    "check_prague cf (hdr\<lparr>h_base_fee_per_gas := x\<rparr>) = check_prague cf hdr" for pf cf x
    by (simp_all add: check_merge_def check_shanghai_def check_cancun_def check_prague_def)
  ultimately show ?thesis
    by (simp add: validate_header_def)
qed

text \<open>A header accepted under London or later whose parent has a base fee carries exactly the
  EIP-1559 base fee computed from its parent.\<close>

theorem accepted_base_fee:
  assumes "validate_header cr c d now hdr parent = Inr ()"
    and "London \<le> get_active_fork_with_total_difficulty c (h_number hdr) (h_timestamp hdr)
      (parent_td cr parent d)"
    and "h_base_fee_per_gas parent = Some fee" and "unat fee < 2 ^ 63"
    and "h_gas_used parent \<le> h_gas_limit parent"
  shows "\<exists>f. h_base_fee_per_gas hdr = Some f \<and>
    unat f = eip1559_next_base_fee (unat fee) (unat (h_gas_used parent)) (unat (h_gas_limit parent))"
proof -
  note ok = validate_header_ok [OF assms(1)]
  have "h_gas_limit parent div 2 \<noteq> 0"
    using ok(5) by (rule check_gas_limit_ok)
  then have "2 \<le> h_gas_limit parent"
    by (metis div_word_less le_less_linear)
  from next_base_fee_eip1559 [OF assms(3,4,5) this] ok(8) assms(2,3) show ?thesis
    by (auto simp: check_base_fee_def rbind_Inr_iff ok_or_def Let_def split: option.splits)
qed

text \<open>An accepted header has exactly the optional fields its fork prescribes: a withdrawals root
  iff Shanghai is active, the three blob fields iff Cancun, a requests hash iff Prague; and from Paris on it has
  the proof-of-stake values of difficulty, nonce and ommers hash.\<close>

theorem accepted_fields_match_fork:
  assumes "validate_header cr c d now hdr parent = Inr ()"
    and "cf = get_active_fork_with_total_difficulty c (h_number hdr) (h_timestamp hdr)
      (parent_td cr parent d)"
  shows "(h_withdrawals_root hdr \<noteq> None \<longleftrightarrow> Shanghai \<le> cf) \<and>
    (h_blob_gas_used hdr \<noteq> None \<longleftrightarrow> Cancun \<le> cf) \<and>
    (h_excess_blob_gas hdr \<noteq> None \<longleftrightarrow> Cancun \<le> cf) \<and>
    (h_parent_beacon_block_root hdr \<noteq> None \<longleftrightarrow> Cancun \<le> cf) \<and>
    (h_requests_hash hdr \<noteq> None \<longleftrightarrow> Prague \<le> cf) \<and>
    (Paris \<le> cf \<longrightarrow> h_difficulty hdr = 0 \<and> h_nonce hdr = 0 \<and>
       h_ommers_hash hdr = EMPTY_OMMER_ROOT_HASH cr)"
proof -
  note ok = validate_header_ok [OF assms(1), folded assms(2)]
  have "h_withdrawals_root hdr \<noteq> None \<longleftrightarrow> Shanghai \<le> cf"
    using ok(10) by (auto simp: check_shanghai_def split: if_splits)
  moreover have "h_blob_gas_used hdr \<noteq> None \<longleftrightarrow> Cancun \<le> cf"
    "h_excess_blob_gas hdr \<noteq> None \<longleftrightarrow> Cancun \<le> cf"
    "h_parent_beacon_block_root hdr \<noteq> None \<longleftrightarrow> Cancun \<le> cf"
    using ok(11) by (auto simp: check_cancun_def rbind_Inr_iff ok_or_def split: if_splits option.splits)
  moreover have "h_requests_hash hdr \<noteq> None \<longleftrightarrow> Prague \<le> cf"
    using ok(12) by (auto simp: check_prague_def split: if_splits)
  moreover have "Paris \<le> cf \<longrightarrow> h_difficulty hdr = 0 \<and> h_nonce hdr = 0 \<and>
       h_ommers_hash hdr = EMPTY_OMMER_ROOT_HASH cr"
    using ok(9) by (auto simp: check_merge_def rbind_Inr_iff split: if_splits)
  ultimately show ?thesis by blast
qed

text \<open>Between two Cancun blocks an accepted header carries the EIP-4844 excess blob gas of its parent,
  computed without wrap-around, and its blob gas used stays within the fork's maximum.\<close>

theorem accepted_excess_blob_gas:
  assumes "validate_header cr c d now hdr parent = Inr ()"
    and "cf = get_active_fork_with_total_difficulty c (h_number hdr) (h_timestamp hdr)
      (parent_td cr parent d)" and "Cancun \<le> cf"
    and "Cancun \<le> get_active_fork_with_total_difficulty c (h_number parent) (h_timestamp parent)
      (parent_td cr parent d)"
    and "h_excess_blob_gas parent = Some pe" and "h_blob_gas_used parent = Some pu"
    and "unat pe + unat pu < 2 ^ 64"
  shows "\<exists>excess used. h_excess_blob_gas hdr = Some excess \<and> h_blob_gas_used hdr = Some used \<and>
    unat excess = unat pe + unat pu - unat (blob_target (blob_params_of cf c)) \<and>
    used \<le> blob_max (blob_params_of cf c)"
proof -
  note ok = validate_header_ok [OF assms(1), folded assms(2)]
  have "unat (calc_excess_blob_gas (Some pe) (Some pu) t) = unat pe + unat pu - unat t" for t
    using assms(7) by (simp add: calc_excess_blob_gas_def unat_saturating_sub unat_add_no_wrap)
  then show ?thesis
    using ok(11) assms(3-6)
    by (auto simp: check_cancun_def rbind_Inr_iff ok_or_def is_cancun_active_def Let_def
        split: option.splits)
qed

subsection \<open>Body validation: correctness\<close>

lemma blob_gas_of_hashes: "blob_gas_of ts = of_nat (length (tx_blob_hashes ts)) * 131072"
  by (induction ts) (simp_all add: tx_blob_hashes_def algebra_simps)

text \<open>Body validation ties the header's blob gas to the versioned hashes of the consensus
  client: when the body is accepted and its blob hashes equal the expected list, the header's blob gas
  used is 131072 per expected hash, and a header without that field has no blobs at all.\<close>

theorem accepted_body_blob_gas:
  assumes "validate_body cr c d b = Inr ()" and "validate_cancun b (Some hashes) = Inr ()"
    and "131072 * length hashes < 2 ^ 64"
  shows "case h_blob_gas_used (b_header b) of
           Some used \<Rightarrow> unat used = 131072 * length hashes
         | None \<Rightarrow> hashes = []"
proof -
  have h: "tx_blob_hashes (b_transactions (b_body b)) = hashes"
    using assms(2) by (simp add: validate_cancun_def)
  have len: "unat (of_nat (length hashes) :: u64) = length hashes"
    using assms(3) by (simp add: unat_of_nat take_bit_eq_mod)
  then have gas: "unat (of_nat (length hashes) * 131072 :: u64) = 131072 * length hashes"
    using assms(3) by (subst unat_mult_no_wrap) simp_all
  have "case h_blob_gas_used (b_header b) of
          Some used \<Rightarrow> of_nat (length hashes) * 131072 = used
        | None \<Rightarrow> \<not> (of_nat (length hashes) * 131072 :: u64) > 0"
    using assms(1) by (simp add: validate_body_def Let_def rbind_Inr_iff blob_gas_of_hashes h
        split: option.splits)
  then show ?thesis
    using gas by (auto simp: word_less_nat_alt split: option.splits)
qed

subsection \<open>Witnesses\<close>

text \<open>Two consecutive blocks of a development network with every fork up to Cancun at genesis.\<close>

definition devnet_config :: chain_config where
  "devnet_config = \<lparr>homestead_block = Some 0, eip150_block = None, eip155_block = None,
     eip158_block = None, byzantium_block = None, constantinople_block = None,
     petersburg_block = None, istanbul_block = None, muir_glacier_block = None,
     berlin_block = None, london_block = Some 0, arrow_glacier_block = None,
     gray_glacier_block = None, merge_netsplit_block = Some 0, shanghai_time = Some 0,
     cancun_time = Some 0, prague_time = None, terminal_total_difficulty = Some 0,
     blob_schedule = []\<rparr>"

definition devnet_crypto :: crypto where
  "devnet_crypto = \<lparr>hash_slow = (\<lambda>h. ucast (h_number h) + 1), EMPTY_OMMER_ROOT_HASH = 7,
     calculate_transaction_root = (\<lambda>ts. of_nat (length ts)),
     calculate_ommers_hash = (\<lambda>os. 7 + of_nat (length os)),
     calculate_withdrawals_root = (\<lambda>ws. of_nat (length ws)),
     fake_exponential = (\<lambda>a b c. a + b)\<rparr>"

lemma devnet_forks:
  "sort_key fork_sort_key (config_forks devnet_config) = config_forks devnet_config"
  by (simp add: devnet_config_def config_forks_def fork_opt_def fork_sort_key_def less_eq_prod_def)

lemma devnet_fork: "get_active_fork_with_total_difficulty devnet_config n ts td = Cancun"
  unfolding get_active_fork_with_total_difficulty_def devnet_forks
  by (simp add: devnet_config_def config_forks_def fork_opt_def fork_reached_def less_hardfork_def)

abbreviation devnet_parent :: header where
  "devnet_parent \<equiv> devnet_header 5 100 30000000 800 0"

abbreviation devnet_child :: header where
  "devnet_child \<equiv> devnet_header 6 112 15000000 900 131072"

lemma devnet_base_fee: "calculate_next_base_fee devnet_parent = Inr (Some 900)"
  by (simp add: calculate_next_base_fee_def devnet_header_def max_def word_le_nat_alt)

lemma devnet_accepts:
  "validate_header devnet_crypto devnet_config empty_db 1000 devnet_child devnet_parent = Inr ()"
proof -
  have "check_base_fee Cancun devnet_child devnet_parent = Inr ()"
    unfolding check_base_fee_def devnet_base_fee by (simp add: devnet_header_def less_eq_hardfork_def)
  moreover have "check_cancun devnet_config Cancun Cancun devnet_child devnet_parent = Inr ()"
    by (simp add: check_cancun_def devnet_header_def devnet_config_def is_cancun_active_def
        calc_excess_blob_gas_def saturating_sub_def blob_target_def blob_max_def
        TARGET_BLOB_GAS_PER_BLOCK_def MAX_BLOB_GAS_PER_BLOCK_def)
  ultimately show ?thesis
    by (simp add: validate_header_def devnet_fork check_merge_def check_shanghai_def check_prague_def
        check_gas_limit_def less_eq_hardfork_def less_hardfork_def)
      (simp add: devnet_header_def devnet_crypto_def)
qed

theorem next_base_fee_eip1559_witness:
  "\<exists>f. calculate_next_base_fee devnet_parent = Inr (Some f) \<and>
     unat f = eip1559_next_base_fee 800 30000000 30000000"
  using next_base_fee_eip1559 [of devnet_parent 800] by (simp add: devnet_header_def)

theorem validated_chain_linear_witness:
  "h_number devnet_child = h_number devnet_parent + 1"
  using validated_chain_linear [of devnet_crypto devnet_config empty_db 1000
      "[devnet_parent, devnet_child]" 0 1]
  by (simp add: devnet_accepts)

theorem london_base_fee_unchecked_witness:
  "validate_header devnet_crypto devnet_config empty_db 1000
     (devnet_child\<lparr>h_base_fee_per_gas := Some 1\<rparr>) (devnet_parent\<lparr>h_base_fee_per_gas := None\<rparr>) =
   validate_header devnet_crypto devnet_config empty_db 1000
     (devnet_child\<lparr>h_base_fee_per_gas := Some 77\<rparr>) (devnet_parent\<lparr>h_base_fee_per_gas := None\<rparr>)"
  by (rule london_base_fee_unchecked) simp

theorem accepted_base_fee_witness:
  "\<exists>f. h_base_fee_per_gas devnet_child = Some f \<and>
     unat f = eip1559_next_base_fee 800 30000000 30000000"
  using accepted_base_fee [OF devnet_accepts, of 800]
  by (simp add: devnet_fork less_eq_hardfork_def) (simp add: devnet_header_def)

theorem accepted_fields_match_fork_witness:
  "h_withdrawals_root devnet_child \<noteq> None \<and> h_blob_gas_used devnet_child \<noteq> None \<and>
   h_requests_hash devnet_child = None"
  using accepted_fields_match_fork [OF devnet_accepts refl]
  by (simp add: devnet_fork less_eq_hardfork_def)

theorem accepted_excess_blob_gas_witness:
  "\<exists>excess used. h_excess_blob_gas devnet_child = Some excess \<and>
     h_blob_gas_used devnet_child = Some used \<and> unat excess = 0 \<and> used \<le> 786432"
  using accepted_excess_blob_gas [OF devnet_accepts refl, of 0 0]
  by (simp add: devnet_fork less_eq_hardfork_def)
    (simp add: devnet_header_def devnet_config_def blob_max_def MAX_BLOB_GAS_PER_BLOCK_def)

definition devnet_block :: block where
  "devnet_block = \<lparr>b_header = devnet_child\<lparr>h_transactions_root := 1\<rparr>,
     b_body = \<lparr>b_transactions = [devnet_tx Eip4844 3 [42]], b_ommers = [], b_withdrawals = Some []\<rparr>\<rparr>"

theorem accepted_body_blob_gas_witness:
  "validate_cancun devnet_block (Some [42]) = Inr () \<and>
   (case h_blob_gas_used (b_header devnet_block) of
      Some used \<Rightarrow> unat used = 131072 * length [42 :: b256] | None \<Rightarrow> [42 :: b256] = [])"
proof -
  have "validate_body devnet_crypto devnet_config empty_db devnet_block = Inr ()"
    by (simp add: validate_body_def devnet_block_def devnet_tx_def devnet_crypto_def
        devnet_header_def)
  moreover have c: "validate_cancun devnet_block (Some [42]) = Inr ()"
    by (simp add: validate_cancun_def devnet_block_def devnet_tx_def tx_blob_hashes_def)
  ultimately show ?thesis
    using accepted_body_blob_gas [of devnet_crypto devnet_config empty_db devnet_block "[42]"] by simp
qed

end
