(* ===== verification/StorageWrite.thy ===== *)
theory StorageWrite
  imports Storage
begin

section \<open>Write transactions and the write provider\<close>

text \<open>
  \<^verbatim>\<open>wasix_eth_storage/src/write.rs\<close>.  A write transaction of \<open>redb\<close> is an action on its
  own copy of the tables.  The operations of \<open>BatchWriter\<close> that only touch its transaction are the
  actions \<open>wtx_...\<close>; those of \<open>DatabaseWriteProvider\<close> run the same table updates inside
  \<open>with_write\<close>, which commits them all or none.  \<open>store\<close> is the provider: the committed
  database, the two tracking maps, and whether \<open>commit()\<close> succeeds.
\<close>

subsection \<open>Inside a transaction\<close>

type_synonym 'a wtx = "(db, storage_error, 'a) act"

definition open_table :: "tbl \<Rightarrow> unit wtx" where
  "open_table T d = (if db_opens d T then Inr () else Inl (TableError T), d)"

definition wtx_upd :: "tbl \<Rightarrow> (('t \<Rightarrow> 't) \<Rightarrow> db \<Rightarrow> db) \<Rightarrow> ('t \<Rightarrow> 't) \<Rightarrow> unit wtx" where
  "wtx_upd T upd f = sseq (open_table T) (\<lambda>d. (Inr (), upd f d))"

definition wtx_insert_header :: "b256 \<Rightarrow> header \<Rightarrow> unit wtx" where
  "wtx_insert_header hash hdr =
     sseq (wtx_upd THeaders t_headers_update (tbl_insert hash hdr))
          (wtx_upd THeaderNumbers t_header_numbers_update (tbl_insert hash (h_number hdr)))"

definition wtx_insert_block_hash :: "b256 \<Rightarrow> u64 \<Rightarrow> unit wtx" where
  "wtx_insert_block_hash hash number =
     wtx_upd THeaderNumbers t_header_numbers_update (tbl_insert hash number)"

definition wtx_insert_header_td :: "b256 \<Rightarrow> u256 \<Rightarrow> unit wtx" where
  "wtx_insert_header_td hash td = wtx_upd THeaderTD t_header_td_update (tbl_insert hash td)"

definition wtx_insert_header_number :: "b256 \<Rightarrow> u64 \<Rightarrow> unit wtx" where
  "wtx_insert_header_number hash number =
     wtx_upd THeaderNumbers t_header_numbers_update (tbl_insert hash number)"

definition wtx_set_canonical :: "u64 \<Rightarrow> b256 \<Rightarrow> unit wtx" where
  "wtx_set_canonical number hash =
     wtx_upd TCanonicalHeads t_canonical_heads_update (tbl_insert number hash)"

definition wtx_remove_canonical :: "u64 \<Rightarrow> unit wtx" where
  "wtx_remove_canonical number =
     wtx_upd TCanonicalHeads t_canonical_heads_update (tbl_remove number)"

definition wtx_insert_body_tx :: "b256 \<Rightarrow> nat \<times> tx \<Rightarrow> unit wtx" where
  "wtx_insert_body_tx hash = (\<lambda>(index, t).
     sseq (wtx_upd TTransactions t_transactions_update (tbl_insert (tx_hash t) t))
          (wtx_upd TTransactionLookup t_transaction_lookup_update
             (tbl_insert (tx_hash t) (hash, of_nat index))))"

definition wtx_insert_block_body :: "b256 \<Rightarrow> u64 \<Rightarrow> body \<Rightarrow> unit wtx" where
  "wtx_insert_block_body hash number bd =
     sseq (wtx_upd TBlockBodies t_block_bodies_update (tbl_insert hash bd))
    (sseq (open_table TTransactions)
    (sseq (open_table TTransactionLookup)
          (for_each (List.enumerate 0 (b_transactions bd)) (wtx_insert_body_tx hash))))"

definition insert_opt :: "'k::linorder \<Rightarrow> 'v option \<Rightarrow> ('k, 'v) table \<Rightarrow> ('k, 'v) table" where
  "insert_opt k v t = (case v of None \<Rightarrow> t | Some x \<Rightarrow> tbl_insert k x t)"

definition wtx_update_forkchoice :: "b256 \<Rightarrow> b256 option \<Rightarrow> b256 option \<Rightarrow> unit wtx" where
  "wtx_update_forkchoice head safe finalized =
     wtx_upd TForkchoice t_forkchoice_update
       (\<lambda>t. insert_opt ''finalized'' finalized (insert_opt ''safe'' safe (tbl_insert ''head'' head t)))"

definition wtx_add_payload :: "payload_id \<Rightarrow> payload \<Rightarrow> unit wtx" where
  "wtx_add_payload pid p = wtx_upd TPayloads t_payloads_update (tbl_insert pid p)"

definition payload_ids_of_block :: "(header \<Rightarrow> b256) \<Rightarrow> b256 \<Rightarrow> (payload_id, payload) table \<Rightarrow> payload_id list" where
  "payload_ids_of_block hs hash t =
     map fst (filter (\<lambda>e. hs (b_header (fst (snd e))) = hash) (tbl_iter t))"

definition wtx_remove_payload_by_block_hash :: "(header \<Rightarrow> b256) \<Rightarrow> b256 \<Rightarrow> unit wtx" where
  "wtx_remove_payload_by_block_hash hs hash =
     wtx_upd TPayloads t_payloads_update (\<lambda>t. fold tbl_remove (payload_ids_of_block hs hash t) t)"

definition wtx_insert_transaction :: "b256 \<Rightarrow> tx \<Rightarrow> unit wtx" where
  "wtx_insert_transaction hash t = wtx_upd TTransactions t_transactions_update (tbl_insert hash t)"

definition wtx_insert_receipt :: "b256 \<Rightarrow> u64 \<Rightarrow> receipt \<Rightarrow> unit wtx" where
  "wtx_insert_receipt bh index r = wtx_upd TReceipts t_receipts_update (tbl_insert (bh, index) r)"

definition wtx_insert_receipt_meta :: "b256 \<Rightarrow> u64 \<Rightarrow> receipt_meta \<Rightarrow> unit wtx" where
  "wtx_insert_receipt_meta bh index m =
     wtx_upd TReceiptsMeta t_receipts_meta_update (tbl_insert (bh, index) m)"

definition wtx_remove_receipt_meta :: "b256 \<Rightarrow> u64 \<Rightarrow> unit wtx" where
  "wtx_remove_receipt_meta bh index =
     wtx_upd TReceiptsMeta t_receipts_meta_update (tbl_remove (bh, index))"

definition wtx_insert_transaction_lookup :: "b256 \<Rightarrow> b256 \<Rightarrow> u64 \<Rightarrow> unit wtx" where
  "wtx_insert_transaction_lookup hash bh index =
     wtx_upd TTransactionLookup t_transaction_lookup_update (tbl_insert hash (bh, index))"

text \<open>\<open>committed\<close> is the database as the batch's \<open>read_provider\<close> sees it.\<close>

definition wtx_insert_block ::
  "(header \<Rightarrow> b256) \<Rightarrow> db \<Rightarrow> block \<Rightarrow> receipt list \<Rightarrow> receipt_meta list \<Rightarrow> unit wtx" where
  "wtx_insert_block hs committed b receipts metas =
     (let hash = hs (b_header b); number = h_number (b_header b) in
      sseq (wtx_insert_header hash (b_header b))
     (sseq (wtx_insert_block_body hash number (b_body b))
     (sbind (reads (\<lambda>_. if number = 0 then Inr 0
               else rbind (header_td (h_parent_hash (b_header b)) committed) (\<lambda>v. Inr (unwrap_or v 0))))
       (\<lambda>parent_td.
      sseq (wtx_insert_header_td hash (parent_td + h_difficulty (b_header b)))
     (sseq (for_each (List.enumerate 0 receipts) (\<lambda>(i, r). wtx_insert_receipt hash (of_nat i) r))
           (for_each (List.enumerate 0 metas) (\<lambda>(i, m). wtx_insert_receipt_meta hash (of_nat i) m)))))))"

definition wtx_insert_bytecode :: "b256 \<Rightarrow> bytes \<Rightarrow> unit wtx" where
  "wtx_insert_bytecode code_hash code = wtx_upd TBytecodes t_bytecodes_update (tbl_insert code_hash code)"

definition wtx_update_hashed_state :: "b256 \<Rightarrow> bytes \<Rightarrow> unit wtx" where
  "wtx_update_hashed_state hash st = wtx_upd THashedState t_hashed_state_update (tbl_insert hash st)"

definition wtx_update_trie_node :: "b256 \<Rightarrow> bytes \<Rightarrow> unit wtx" where
  "wtx_update_trie_node hash node = wtx_upd TTrieNodes t_trie_nodes_update (tbl_insert hash node)"

definition wtx_insert_account_change_set :: "u64 \<Rightarrow> (address \<times> bytes option) list \<Rightarrow> unit wtx" where
  "wtx_insert_account_change_set number cs =
     wtx_upd TAccountChangeSets t_account_change_sets_update (tbl_insert number cs)"

definition wtx_insert_storage_change_set :: "u64 \<Rightarrow> (address \<times> b256 \<times> u256) list \<Rightarrow> unit wtx" where
  "wtx_insert_storage_change_set number cs =
     wtx_upd TStorageChangeSets t_storage_change_sets_update (tbl_insert number cs)"

definition wtx_remove_change_set :: "u64 \<Rightarrow> unit wtx" where
  "wtx_remove_change_set number =
     sseq (wtx_upd TAccountChangeSets t_account_change_sets_update (tbl_remove number))
          (wtx_upd TStorageChangeSets t_storage_change_sets_update (tbl_remove number))"

definition wtx_set_metadata :: "string \<Rightarrow> bytes \<Rightarrow> unit wtx" where
  "wtx_set_metadata key v = wtx_upd TMetadata t_metadata_update (tbl_insert key v)"

subsection \<open>The provider\<close>

record store =
  s_db :: db
  touched_accounts :: "address set"
  touched_storages :: "address \<rightharpoonup> b256 set"
  s_commits :: bool

type_synonym 'a wr = "(store, storage_error, 'a) act"

definition new_provider :: "db \<Rightarrow> store" where
  "new_provider d = \<lparr>s_db = d, touched_accounts = {}, touched_storages = Map.empty, s_commits = True\<rparr>"

text \<open>
  \<open>with_write_then m t\<close>: the closure runs \<open>m\<close> and, when it succeeds, records \<open>t\<close> in
  the tracking maps, which are not part of the transaction; then the transaction is committed.
\<close>

definition with_write_then :: "'a wtx \<Rightarrow> (store \<Rightarrow> store) \<Rightarrow> 'a wr" where
  "with_write_then m t s =
     (case m (s_db s) of
        (Inl e, d) \<Rightarrow> (Inl e, s)
      | (Inr x, d) \<Rightarrow> if s_commits s then (Inr x, (t s)\<lparr>s_db := d\<rparr>) else (Inl UpdateFailed, t s))"

definition with_write :: "'a wtx \<Rightarrow> 'a wr" where
  "with_write m = with_write_then m (\<lambda>s. s)"

definition touch_account :: "address \<Rightarrow> store \<Rightarrow> store" where
  "touch_account addr s = s\<lparr>touched_accounts := insert addr (touched_accounts s)\<rparr>"

definition touch_slot :: "address \<Rightarrow> b256 \<Rightarrow> store \<Rightarrow> store" where
  "touch_slot addr slot s = s\<lparr>touched_storages := (touched_storages s)
     (addr \<mapsto> insert slot (unwrap_or (touched_storages s addr) {}))\<rparr>"

text \<open>The inherent method of \<open>DatabaseWriteProvider\<close>; it shadows the method of the trait.\<close>

definition clear_tracking_inherent :: "store \<Rightarrow> store" where
  "clear_tracking_inherent s = s"

definition clear_tracking :: "store \<Rightarrow> store" where
  "clear_tracking s = s\<lparr>touched_accounts := {}, touched_storages := Map.empty\<rparr>"

definition insert_header :: "b256 \<Rightarrow> header \<Rightarrow> unit wr" where
  "insert_header hash hdr = with_write
     (sseq (wtx_upd THeaders t_headers_update (tbl_insert hash hdr))
           (wtx_upd THeaderNumbers t_header_numbers_update (tbl_insert hash (h_number hdr))))"

definition insert_block_hash :: "b256 \<Rightarrow> u64 \<Rightarrow> unit wr" where
  "insert_block_hash hash number = with_write
     (wtx_upd THeaderNumbers t_header_numbers_update (tbl_insert hash number))"

definition insert_header_td :: "b256 \<Rightarrow> u256 \<Rightarrow> unit wr" where
  "insert_header_td hash td = with_write (wtx_upd THeaderTD t_header_td_update (tbl_insert hash td))"

definition insert_header_number :: "b256 \<Rightarrow> u64 \<Rightarrow> unit wr" where
  "insert_header_number hash number = with_write
     (wtx_upd THeaderNumbers t_header_numbers_update (tbl_insert hash number))"

definition set_canonical :: "u64 \<Rightarrow> b256 \<Rightarrow> unit wr" where
  "set_canonical number hash = with_write
     (wtx_upd TCanonicalHeads t_canonical_heads_update (tbl_insert number hash))"

definition remove_canonical :: "u64 \<Rightarrow> unit wr" where
  "remove_canonical number = with_write
     (wtx_upd TCanonicalHeads t_canonical_heads_update (tbl_remove number))"

definition insert_block_body :: "b256 \<Rightarrow> u64 \<Rightarrow> body \<Rightarrow> unit wr" where
  "insert_block_body hash number bd = with_write
     (sseq (wtx_upd TBlockBodies t_block_bodies_update (tbl_insert hash bd))
     (sseq (open_table TTransactions)
     (sseq (open_table TTransactionLookup)
           (for_each (List.enumerate 0 (b_transactions bd)) (wtx_insert_body_tx hash)))))"

definition update_forkchoice :: "b256 \<Rightarrow> b256 option \<Rightarrow> b256 option \<Rightarrow> unit wr" where
  "update_forkchoice head safe finalized = with_write
     (wtx_upd TForkchoice t_forkchoice_update
       (\<lambda>t. insert_opt ''finalized'' finalized (insert_opt ''safe'' safe (tbl_insert ''head'' head t))))"

definition add_payload :: "payload_id \<Rightarrow> payload \<Rightarrow> unit wr" where
  "add_payload pid p = with_write (wtx_upd TPayloads t_payloads_update (tbl_insert pid p))"

definition remove_payload_by_block_hash :: "(header \<Rightarrow> b256) \<Rightarrow> b256 \<Rightarrow> unit wr" where
  "remove_payload_by_block_hash hs hash = with_write
     (wtx_upd TPayloads t_payloads_update (\<lambda>t. fold tbl_remove (payload_ids_of_block hs hash t) t))"

definition insert_block ::
  "(header \<Rightarrow> b256) \<Rightarrow> block \<Rightarrow> receipt list \<Rightarrow> receipt_meta list \<Rightarrow> unit wr" where
  "insert_block hs b receipts metas s =
     with_write (wtx_insert_block hs (s_db s) b receipts metas) s"

definition insert_transaction :: "b256 \<Rightarrow> tx \<Rightarrow> unit wr" where
  "insert_transaction hash t = with_write
     (wtx_upd TTransactions t_transactions_update (tbl_insert hash t))"

definition insert_receipt :: "b256 \<Rightarrow> u64 \<Rightarrow> receipt \<Rightarrow> unit wr" where
  "insert_receipt bh index r = with_write
     (wtx_upd TReceipts t_receipts_update (tbl_insert (bh, index) r))"

definition insert_receipt_meta :: "b256 \<Rightarrow> u64 \<Rightarrow> receipt_meta \<Rightarrow> unit wr" where
  "insert_receipt_meta bh index m = with_write
     (wtx_upd TReceiptsMeta t_receipts_meta_update (tbl_insert (bh, index) m))"

definition remove_receipt_meta :: "b256 \<Rightarrow> u64 \<Rightarrow> unit wr" where
  "remove_receipt_meta bh index = with_write
     (wtx_upd TReceiptsMeta t_receipts_meta_update (tbl_remove (bh, index)))"

definition insert_transaction_lookup :: "b256 \<Rightarrow> b256 \<Rightarrow> u64 \<Rightarrow> unit wr" where
  "insert_transaction_lookup hash bh index = with_write
     (wtx_upd TTransactionLookup t_transaction_lookup_update (tbl_insert hash (bh, index)))"

definition update_account :: "address \<Rightarrow> trie_account \<Rightarrow> unit wr" where
  "update_account addr acc = with_write_then
     (wtx_upd TAccounts t_accounts_update (tbl_insert addr acc)) (touch_account addr)"

definition remove_account :: "address \<Rightarrow> unit wr" where
  "remove_account addr = with_write_then
     (wtx_upd TAccounts t_accounts_update (tbl_remove addr)) (touch_account addr)"

definition update_storage :: "address \<Rightarrow> b256 \<Rightarrow> u256 \<Rightarrow> unit wr" where
  "update_storage addr slot v = with_write_then
     (wtx_upd TStorages t_storages_update
        (if v = 0 then tbl_remove (addr, slot) else tbl_insert (addr, slot) v))
     (\<lambda>s. touch_account addr (touch_slot addr slot s))"

definition account_slots :: "address \<Rightarrow> db \<Rightarrow> (address \<times> b256) list" where
  "account_slots addr d = map fst (tbl_range (addr, 0) (addr, - 1) (t_storages d))"

definition reset_storage :: "address \<Rightarrow> unit wr" where
  "reset_storage addr s = with_write_then
     (wtx_upd TStorages t_storages_update (fold tbl_remove (account_slots addr (s_db s))))
     (\<lambda>s. touch_account addr (fold (\<lambda>k. touch_slot addr (snd k)) (account_slots addr (s_db s)) s)) s"

definition insert_bytecode :: "b256 \<Rightarrow> bytes \<Rightarrow> unit wr" where
  "insert_bytecode code_hash code = with_write
     (wtx_upd TBytecodes t_bytecodes_update (tbl_insert code_hash code))"

definition update_plain_state :: "address \<Rightarrow> bytes \<Rightarrow> unit wr" where
  "update_plain_state addr st = with_write
     (wtx_upd TPlainState t_plain_state_update (tbl_insert addr st))"

definition remove_plain_state :: "address \<Rightarrow> unit wr" where
  "remove_plain_state addr = with_write (wtx_upd TPlainState t_plain_state_update (tbl_remove addr))"

definition update_hashed_state :: "b256 \<Rightarrow> bytes \<Rightarrow> unit wr" where
  "update_hashed_state hash st = with_write
     (wtx_upd THashedState t_hashed_state_update (tbl_insert hash st))"

definition update_trie_node :: "b256 \<Rightarrow> bytes \<Rightarrow> unit wr" where
  "update_trie_node hash node = with_write
     (wtx_upd TTrieNodes t_trie_nodes_update (tbl_insert hash node))"

definition set_metadata :: "string \<Rightarrow> bytes \<Rightarrow> unit wr" where
  "set_metadata key v = with_write (wtx_upd TMetadata t_metadata_update (tbl_insert key v))"

definition register_peer :: "peer_entry \<Rightarrow> unit wr" where
  "register_peer p = with_write
     (wtx_upd TActivePeers t_active_peers_update (tbl_insert (pe_peer_id p) p))"

definition remove_peer :: "string \<Rightarrow> unit wr" where
  "remove_peer pid = with_write (wtx_upd TActivePeers t_active_peers_update (tbl_remove pid))"

definition insert_account_change_set :: "u64 \<Rightarrow> (address \<times> bytes option) list \<Rightarrow> unit wr" where
  "insert_account_change_set number cs = with_write
     (wtx_upd TAccountChangeSets t_account_change_sets_update (tbl_insert number cs))"

definition insert_storage_change_set :: "u64 \<Rightarrow> (address \<times> b256 \<times> u256) list \<Rightarrow> unit wr" where
  "insert_storage_change_set number cs = with_write
     (wtx_upd TStorageChangeSets t_storage_change_sets_update (tbl_insert number cs))"

definition remove_change_set :: "u64 \<Rightarrow> unit wr" where
  "remove_change_set number = with_write
     (sseq (wtx_upd TAccountChangeSets t_account_change_sets_update (tbl_remove number))
           (wtx_upd TStorageChangeSets t_storage_change_sets_update (tbl_remove number)))"

subsection \<open>Transactions commit completely or not at all\<close>

lemma open_table_Inr [simp]: "open_table T d = (Inr u, d') \<longleftrightarrow> db_opens d T \<and> d' = d"
  by (auto simp: open_table_def)

lemma wtx_upd_Inr [simp]: "wtx_upd T upd f d = (Inr u, d') \<longleftrightarrow> db_opens d T \<and> d' = upd f d"
  by (auto simp: wtx_upd_def sseq_Inr_iff)

lemma wtx_upd_ok: "db_opens d T \<Longrightarrow> wtx_upd T upd f d = (Inr (), upd f d)"
  by simp

lemma with_write_then_Inr:
  "with_write_then m t s = (Inr x, s') \<longleftrightarrow>
     (\<exists>d. m (s_db s) = (Inr x, d) \<and> s_commits s \<and> s' = (t s)\<lparr>s_db := d\<rparr>)"
  by (auto simp: with_write_then_def split: prod.splits sum.splits if_splits)

lemma with_write_Inr:
  "with_write m s = (Inr x, s') \<longleftrightarrow>
     (\<exists>d. m (s_db s) = (Inr x, d) \<and> s_commits s \<and> s' = s\<lparr>s_db := d\<rparr>)"
  by (simp add: with_write_def with_write_then_Inr)

lemma with_write_then_Inl:
  "with_write_then m t s = (Inl e, s') \<Longrightarrow> (\<And>s. s_db (t s) = s_db s) \<Longrightarrow> s_db s' = s_db s"
  by (auto simp: with_write_then_def split: prod.splits sum.splits if_splits)

lemma with_write_Inl: "with_write m s = (Inl e, s') \<Longrightarrow> s' = s"
  by (auto simp: with_write_def with_write_then_def split: prod.splits sum.splits if_splits)

lemmas write_simps = with_write_Inr with_write_then_Inr sseq_Inr_iff sbind_Inr_iff

lemma touch_db [simp]: "s_db (touch_account a s) = s_db s" "s_db (touch_slot a k s) = s_db s"
  by (simp_all add: touch_account_def touch_slot_def)

lemma fold_touch_db [simp]: "s_db (fold (\<lambda>k. touch_slot a (g k)) ks s) = s_db s"
  by (induction ks arbitrary: s) simp_all

subsection \<open>Loops over tables\<close>

lemma insert_body_txs:
  assumes "db_opens d TTransactions" and "db_opens d TTransactionLookup"
  shows "for_each es (wtx_insert_body_tx hash) d = (Inr (),
    d\<lparr>t_transactions := tb.put_all (map (\<lambda>(i, t). (tx_hash t, t)) es) (t_transactions d),
      t_transaction_lookup := tb.put_all (map (\<lambda>(i, t). (tx_hash t, (hash, of_nat i))) es)
        (t_transaction_lookup d)\<rparr>)"
  using assms
proof (induction es arbitrary: d)
  case (Cons e es)
  obtain i t where e: "e = (i, t)" by (cases e)
  let ?d = "d\<lparr>t_transactions := tbl_insert (tx_hash t) t (t_transactions d),
      t_transaction_lookup := tbl_insert (tx_hash t) (hash, of_nat i) (t_transaction_lookup d)\<rparr>"
  have "wtx_insert_body_tx hash e d = (Inr (), ?d)"
    using Cons.prems by (simp add: wtx_insert_body_tx_def e sseq_Inr_iff)
  then show ?case
    using Cons.IH [of ?d] Cons.prems by (simp add: e tb.put_all_def)
qed (simp add: tb.put_all_def)

lemma insert_receipts:
  assumes "db_opens d TReceipts"
  shows "for_each es (\<lambda>(i, r). wtx_insert_receipt hash (of_nat i) r) d = (Inr (),
    d\<lparr>t_receipts := tb.put_all (map (\<lambda>(i, r). ((hash, of_nat i), r)) es) (t_receipts d)\<rparr>)"
  using assms
proof (induction es arbitrary: d)
  case (Cons e es)
  obtain i r where e: "e = (i, r)" by (cases e)
  let ?d = "d\<lparr>t_receipts := tbl_insert (hash, of_nat i) r (t_receipts d)\<rparr>"
  have "wtx_insert_receipt hash (of_nat i) r d = (Inr (), ?d)"
    using Cons.prems by (simp add: wtx_insert_receipt_def)
  then show ?case
    using Cons.IH [of ?d] Cons.prems by (simp add: e tb.put_all_def)
qed (simp add: tb.put_all_def)

lemma insert_receipt_metas:
  assumes "db_opens d TReceiptsMeta"
  shows "for_each es (\<lambda>(i, m). wtx_insert_receipt_meta hash (of_nat i) m) d = (Inr (),
    d\<lparr>t_receipts_meta := tb.put_all (map (\<lambda>(i, m). ((hash, of_nat i), m)) es) (t_receipts_meta d)\<rparr>)"
  using assms
proof (induction es arbitrary: d)
  case (Cons e es)
  obtain i r where e: "e = (i, r)" by (cases e)
  let ?d = "d\<lparr>t_receipts_meta := tbl_insert (hash, of_nat i) r (t_receipts_meta d)\<rparr>"
  have "wtx_insert_receipt_meta hash (of_nat i) r d = (Inr (), ?d)"
    using Cons.prems by (simp add: wtx_insert_receipt_meta_def)
  then show ?case
    using Cons.IH [of ?d] Cons.prems by (simp add: e tb.put_all_def)
qed (simp add: tb.put_all_def)

lemma get_put_all_distinct:
  assumes "distinct (map fst es)" and "(k, v) \<in> set es"
  shows "tbl_get (tb.put_all es t) k = Some v"
proof -
  have "map_of (rev es) k = Some v"
    using assms by (intro map_of_is_SomeI) (simp_all add: rev_map [symmetric])
  then show ?thesis by (simp add: tb.get_put_all)
qed

lemma of_nat_index_inj:
  "i < 2 ^ 64 \<Longrightarrow> j < 2 ^ 64 \<Longrightarrow> (of_nat i :: u64) = of_nat j \<longleftrightarrow> i = j"
  by (simp add: word_unat_eq_iff unat_of_nat take_bit_eq_mod)

lemma get_put_enumerated:
  assumes "i < length xs" and "length xs \<le> 2 ^ 64"
  shows "tbl_get (tb.put_all (map (\<lambda>(i, x). ((hash :: b256, of_nat i :: u64), x)) (List.enumerate 0 xs)) t)
           (hash, of_nat i) = Some (xs ! i)"
proof (rule get_put_all_distinct)
  show "((hash, of_nat i), xs ! i) \<in> set (map (\<lambda>(i, x). ((hash, of_nat i :: u64), x)) (List.enumerate 0 xs))"
    using assms(1) by (force simp: in_set_enumerate_eq)
  have "map fst (map (\<lambda>(i, x). ((hash, of_nat i :: u64), x)) (List.enumerate 0 xs)) =
        map (\<lambda>i. (hash, of_nat i)) [0 ..< length xs]"
    by (induction xs rule: rev_induct) (simp_all add: enumerate_append_eq)
  then show "distinct (map fst (map (\<lambda>(i, x). ((hash, of_nat i :: u64), x)) (List.enumerate 0 xs)))"
    using assms(2) by (simp add: distinct_map inj_on_def of_nat_index_inj)
qed

lemma get_put_by_tx_hash:
  assumes "i < length ts" and "distinct (map tx_hash ts)"
  shows "tbl_get (tb.put_all (map (\<lambda>(i, t). (tx_hash t, f i t)) (List.enumerate 0 ts)) tab)
           (tx_hash (ts ! i)) = Some (f i (ts ! i))"
proof (rule get_put_all_distinct)
  have "map fst (map (\<lambda>(i, t). (tx_hash t, f i t)) (List.enumerate 0 ts)) = map tx_hash ts"
    by (induction ts rule: rev_induct) (simp_all add: enumerate_append_eq)
  with assms(2) show "distinct (map fst (map (\<lambda>(i, t). (tx_hash t, f i t)) (List.enumerate 0 ts)))"
    by simp
  show "(tx_hash (ts ! i), f i (ts ! i)) \<in> set (map (\<lambda>(i, t). (tx_hash t, f i t)) (List.enumerate 0 ts))"
    using assms(1) by (force simp: in_set_enumerate_eq)
qed

subsection \<open>Storing a block\<close>

definition block_tables :: "tbl list" where
  "block_tables = [THeaders, THeaderNumbers, TBlockBodies, TTransactions, TTransactionLookup,
     THeaderTD, TReceipts, TReceiptsMeta]"

text \<open>The tables after \<open>insert_block\<close>, in closed form.\<close>

definition block_inserted ::
  "(header \<Rightarrow> b256) \<Rightarrow> block \<Rightarrow> receipt list \<Rightarrow> receipt_meta list \<Rightarrow> db \<Rightarrow> db" where
  "block_inserted hs b receipts metas d =
     (let hash = hs (b_header b); hdr = b_header b; txs = List.enumerate 0 (b_transactions (b_body b));
          parent = (if h_number hdr = 0 then 0
                    else unwrap_or (tbl_get (t_header_td d) (h_parent_hash hdr)) 0)
      in d\<lparr>t_headers := tbl_insert hash hdr (t_headers d),
           t_header_numbers := tbl_insert hash (h_number hdr) (t_header_numbers d),
           t_block_bodies := tbl_insert hash (b_body b) (t_block_bodies d),
           t_transactions := tb.put_all (map (\<lambda>(i, t). (tx_hash t, t)) txs) (t_transactions d),
           t_transaction_lookup := tb.put_all (map (\<lambda>(i, t). (tx_hash t, (hash, of_nat i))) txs)
             (t_transaction_lookup d),
           t_header_td := tbl_insert hash (parent + h_difficulty hdr) (t_header_td d),
           t_receipts := tb.put_all (map (\<lambda>(i, r). ((hash, of_nat i), r)) (List.enumerate 0 receipts))
             (t_receipts d),
           t_receipts_meta := tb.put_all (map (\<lambda>(i, m). ((hash, of_nat i), m)) (List.enumerate 0 metas))
             (t_receipts_meta d)\<rparr>)"

lemma block_inserted_tables [simp]:
  fixes b :: block and d :: db and hs :: "header \<Rightarrow> b256" and receipts :: "receipt list"
    and metas :: "receipt_meta list"
  defines "d' \<equiv> block_inserted hs b receipts metas d" and "hash \<equiv> hs (b_header b)"
    and "txs \<equiv> List.enumerate 0 (b_transactions (b_body b))"
  shows "t_headers d' = tbl_insert hash (b_header b) (t_headers d)"
    "t_header_numbers d' = tbl_insert hash (h_number (b_header b)) (t_header_numbers d)"
    "t_block_bodies d' = tbl_insert hash (b_body b) (t_block_bodies d)"
    "t_transactions d' = tb.put_all (map (\<lambda>(i, t). (tx_hash t, t)) txs) (t_transactions d)"
    "t_transaction_lookup d' =
       tb.put_all (map (\<lambda>(i, t). (tx_hash t, (hash, of_nat i))) txs) (t_transaction_lookup d)"
    "t_header_td d' = tbl_insert hash ((if h_number (b_header b) = 0 then 0
       else unwrap_or (tbl_get (t_header_td d) (h_parent_hash (b_header b))) 0)
       + h_difficulty (b_header b)) (t_header_td d)"
    "t_receipts d' = tb.put_all (map (\<lambda>(i, r). ((hash, of_nat i), r)) (List.enumerate 0 receipts))
       (t_receipts d)"
    "t_receipts_meta d' = tb.put_all (map (\<lambda>(i, m). ((hash, of_nat i), m)) (List.enumerate 0 metas))
       (t_receipts_meta d)"
    "db_opens d' = db_opens d" "t_canonical_heads d' = t_canonical_heads d"
    "t_accounts d' = t_accounts d" "t_storages d' = t_storages d" "t_forkchoice d' = t_forkchoice d"
  by (simp_all add: assms block_inserted_def Let_def split del: if_split)

lemma wtx_insert_block_ok:
  assumes "\<forall>T \<in> set block_tables. db_opens d T"
  shows "wtx_insert_block hs d b receipts metas d = (Inr (), block_inserted hs b receipts metas d)"
proof -
  let ?hdr = "b_header b" and ?h = "hs (b_header b)"
  let ?txs = "List.enumerate 0 (b_transactions (b_body b))"
  have o: "db_opens d THeaders" "db_opens d THeaderNumbers" "db_opens d TBlockBodies"
    "db_opens d TTransactions" "db_opens d TTransactionLookup" "db_opens d THeaderTD"
    "db_opens d TReceipts" "db_opens d TReceiptsMeta"
    using assms by (simp_all add: block_tables_def)
  let ?d1 = "d\<lparr>t_headers := tbl_insert ?h ?hdr (t_headers d),
      t_header_numbers := tbl_insert ?h (h_number ?hdr) (t_header_numbers d)\<rparr>"
  have 1: "wtx_insert_header ?h ?hdr d = (Inr (), ?d1)"
    using o by (simp add: wtx_insert_header_def sseq_Inr_iff)
  let ?d2 = "?d1\<lparr>t_block_bodies := tbl_insert ?h (b_body b) (t_block_bodies d),
      t_transactions := tb.put_all (map (\<lambda>(i, t). (tx_hash t, t)) ?txs) (t_transactions d),
      t_transaction_lookup := tb.put_all (map (\<lambda>(i, t). (tx_hash t, (?h, of_nat i))) ?txs)
        (t_transaction_lookup d)\<rparr>"
  have 2: "wtx_insert_block_body ?h n (b_body b) ?d1 = (Inr (), ?d2)" for n
    using o by (simp add: wtx_insert_block_body_def sseq_Inr_iff insert_body_txs)
  show ?thesis
    unfolding wtx_insert_block_def Let_def sseq_step [of "wtx_insert_header _ _", OF 1]
      sseq_step [of "wtx_insert_block_body _ _ _", OF 2]
    using o by (simp add: sbind_def sseq_def wtx_insert_header_td_def wtx_upd_ok insert_receipts
      insert_receipt_metas header_td_def read_tbl_def block_inserted_def Let_def)
qed

lemma insert_block_ok:
  assumes "\<forall>T \<in> set block_tables. db_opens (s_db s) T" and "s_commits s"
  shows "insert_block hs b receipts metas s =
    (Inr (), s\<lparr>s_db := block_inserted hs b receipts metas (s_db s)\<rparr>)"
  unfolding insert_block_def with_write_Inr using wtx_insert_block_ok [OF assms(1)] assms(2) by blast

text \<open>Storing a block succeeds whenever its tables can be opened and the commit goes through, and then the rows of the block are those
  that were stored.\<close>

lemma insert_block_rows:
  assumes "\<forall>T \<in> set block_tables. db_opens (s_db s) T" and "s_commits s"
    and "hs (b_header b) \<noteq> 0" and "distinct (map tx_hash (b_transactions (b_body b)))"
    and "length receipts \<le> 2 ^ 64" and "length metas \<le> 2 ^ 64"
  shows "\<exists>s'. insert_block hs b receipts metas s = (Inr (), s') \<and>
    (let d' = s_db s'; hash = hs (b_header b); hdr = b_header b in
      block_by_hash hs hash d' = Inr (Some b) \<and>
      block_number hash d' = Inr (Some (h_number hdr)) \<and>
      header_td hash d' = Inr (Some ((if h_number hdr = 0 then 0
        else unwrap_or (tbl_get (t_header_td (s_db s)) (h_parent_hash hdr)) 0) + h_difficulty hdr)) \<and>
      (\<forall>i < length (b_transactions (b_body b)). let t = b_transactions (b_body b) ! i in
         transaction (tx_hash t) d' = Inr (Some t) \<and>
         transaction_lookup (tx_hash t) d' = Inr (Some (hash, of_nat i))) \<and>
      (\<forall>i < length receipts. receipt_at hash (of_nat i) d' = Inr (Some (receipts ! i))) \<and>
      (\<forall>i < length metas. receipt_meta_at hash (of_nat i) d' = Inr (Some (metas ! i))))"
proof -
  let ?d = "block_inserted hs b receipts metas (s_db s)" and ?hash = "hs (b_header b)"
  let ?ts = "b_transactions (b_body b)"
  have os: "db_opens (s_db s) THeaders" "db_opens (s_db s) THeaderNumbers"
    "db_opens (s_db s) TBlockBodies" "db_opens (s_db s) TTransactions"
    "db_opens (s_db s) TTransactionLookup" "db_opens (s_db s) THeaderTD"
    "db_opens (s_db s) TReceipts" "db_opens (s_db s) TReceiptsMeta"
    using assms(1) by (simp_all add: block_tables_def)
  have "block_by_hash hs ?hash ?d = Inr (Some b)"
    "block_number ?hash ?d = Inr (Some (h_number (b_header b)))"
    using os assms(3) by (simp_all add: block_by_hash_def block_def header_def
        block_body_by_hash_def block_number_def read_tbl_def)
  moreover have "header_td ?hash ?d = Inr (Some ((if h_number (b_header b) = 0 then 0
        else unwrap_or (tbl_get (t_header_td (s_db s)) (h_parent_hash (b_header b))) 0)
        + h_difficulty (b_header b)))"
    using os by (simp add: header_td_def read_tbl_def)
  moreover have "transaction (tx_hash (?ts ! i)) ?d = Inr (Some (?ts ! i))"
      "transaction_lookup (tx_hash (?ts ! i)) ?d = Inr (Some (?hash, of_nat i))"
    if "i < length ?ts" for i
    using os get_put_by_tx_hash [OF that assms(4), of "\<lambda>i t. t"]
      get_put_by_tx_hash [OF that assms(4), of "\<lambda>i t. (?hash, of_nat i)"]
    by (simp_all add: transaction_def transaction_lookup_def read_tbl_def)
  moreover have "receipt_at ?hash (of_nat i) ?d = Inr (Some (receipts ! i))"
    if "i < length receipts" for i
    using os get_put_enumerated [OF that assms(5)] by (simp add: receipt_at_def read_tbl_def)
  moreover have "receipt_meta_at ?hash (of_nat i) ?d = Inr (Some (metas ! i))"
    if "i < length metas" for i
    using os get_put_enumerated [OF that assms(6)] by (simp add: receipt_meta_at_def read_tbl_def)
  ultimately show ?thesis
    unfolding insert_block_ok [OF assms(1,2)] by (simp add: Let_def)
qed

text \<open>Storing a block is atomic: when \<open>insert_block\<close> reports an error, whichever table
  or step caused it, the committed database and the tracking maps are exactly what they were.\<close>

theorem insert_block_atomic:
  assumes "insert_block hs b receipts metas s = (Inl e, s')"
  shows "s' = s"
  using assms unfolding insert_block_def by (rule with_write_Inl)

subsection \<open>Clearing an account's storage\<close>

lemma tbl_get_remove_all:
  fixes t :: "('k::linorder, 'v) table"
  shows "tbl_get (fold tbl_remove ks t) k = (if k \<in> set ks then None else tbl_get t k)"
  by (induction ks arbitrary: t) auto

lemma account_slots_iff:
  assumes "tbl_wf (t_storages d)"
  shows "k \<in> set (account_slots addr d) \<longleftrightarrow> fst k = addr \<and> tbl_get (t_storages d) k \<noteq> None"
proof -
  have "(addr, 0) \<le> k \<and> k \<le> (addr, - 1) \<longleftrightarrow> fst k = addr"
    by (cases k) (auto simp: less_eq_prod_def)
  then show ?thesis
    using tbl_range_get [OF assms, of k _ "(addr, 0)" "(addr, - 1)"]
    by (force simp: account_slots_def)
qed

text \<open>After \<open>reset_storage\<close> every slot of the account reads as zero, every slot of every other
  account reads as before, no other table changed, and the account and all of its former slots are
  recorded as touched, so that the next root computation sees them.\<close>

theorem reset_storage_clears:
  assumes "reset_storage addr s = (Inr (), s')" and "tbl_wf (t_storages (s_db s))"
  shows "latest_storage a slot (s_db s') =
           (if a = addr then Inr 0 else latest_storage a slot (s_db s)) \<and>
         s_db s' = (s_db s)\<lparr>t_storages := t_storages (s_db s')\<rparr> \<and>
         addr \<in> touched_accounts s' \<and>
         (\<forall>slot'. tbl_get (t_storages (s_db s)) (addr, slot') \<noteq> None \<longrightarrow>
            (\<exists>S. touched_storages s' addr = Some S \<and> slot' \<in> S))"
proof -
  let ?ks = "account_slots addr (s_db s)"
  let ?t = "\<lambda>s. touch_account addr (fold (\<lambda>k. touch_slot addr (snd k)) ?ks s)"
  have o: "db_opens (s_db s) TStorages"
    and s': "s' = (?t s)\<lparr>s_db := (s_db s)\<lparr>t_storages := fold tbl_remove ?ks (t_storages (s_db s))\<rparr>\<rparr>"
    using assms(1) by (auto simp: reset_storage_def with_write_then_Inr)
  have "latest_storage a slot (s_db s') = (if a = addr then Inr 0 else latest_storage a slot (s_db s))"
    using o account_slots_iff [OF assms(2), of "(a, slot)" addr]
    by (auto simp: s' latest_storage_def read_tbl_def tbl_get_remove_all)
  moreover have "\<exists>S. touched_storages (fold (\<lambda>k. touch_slot addr (snd k)) ks s) addr = Some S \<and> slot' \<in> S"
    if "(addr, slot') \<in> set ks" for slot' ks
    using that
  proof (induction ks rule: rev_induct)
    case (snoc k ks)
    then show ?case
      by (cases "k = (addr, slot')") (auto simp: touch_slot_def)
  qed simp
  ultimately show ?thesis
    using account_slots_iff [OF assms(2)]
    by (auto simp: s' touch_account_def)
qed

subsection \<open>Fork choice and payloads\<close>

text \<open>\<open>update_forkchoice\<close> makes the new head what the read provider resolves the tags \<open>latest\<close>
  and \<open>pending\<close> to, moves the safe and finalized blocks only when they are given, and leaves the canonical
  chain, the headers and the state alone.\<close>

theorem update_forkchoice_resolves:
  assumes "update_forkchoice head safe finalized s = (Inr (), s')"
  shows "resolve_block_id (IdNumber Latest) (s_db s') = Inr (Some head) \<and>
    resolve_block_id (IdNumber Pending) (s_db s') = Inr (Some head) \<and>
    forkchoice ''safe'' (s_db s') = (case safe of Some h \<Rightarrow> Inr (Some h) | None \<Rightarrow> forkchoice ''safe'' (s_db s)) \<and>
    forkchoice ''finalized'' (s_db s') =
      (case finalized of Some h \<Rightarrow> Inr (Some h) | None \<Rightarrow> forkchoice ''finalized'' (s_db s)) \<and>
    s_db s' = (s_db s)\<lparr>t_forkchoice := t_forkchoice (s_db s')\<rparr>"
  using assms
  by (auto simp: update_forkchoice_def with_write_Inr forkchoice_def read_tbl_def head_or_latest_def
      insert_opt_def split: option.splits)

lemma payload_ids_of_block_iff:
  assumes "tbl_wf t"
  shows "k \<in> set (payload_ids_of_block hs hash t) \<longleftrightarrow>
    (\<exists>p. tbl_get t k = Some p \<and> hs (b_header (fst p)) = hash)"
  using tb.iter_get [OF assms] by (force simp: payload_ids_of_block_def)

lemma tbl_wf_remove_all: "tbl_wf t \<Longrightarrow> tbl_wf (fold tbl_remove ks t)"
  by (induction ks arbitrary: t) auto

text \<open>\<open>remove_payload_by_block_hash\<close> forgets exactly the built payloads of that block: the block
  is no longer found by its hash, and a payload identifier is still answered, with the same payload, iff it
  belonged to another block.\<close>

theorem remove_payload_exact:
  assumes "remove_payload_by_block_hash hs hash s = (Inr (), s')" and "tbl_wf (t_payloads (s_db s))"
  shows "get_payload_by_block_hash hs hash (s_db s') = None \<and>
    get_payload pid (s_db s') =
      (case get_payload pid (s_db s) of None \<Rightarrow> None
       | Some p \<Rightarrow> if hs (b_header (fst p)) = hash then None else Some p)"
proof -
  let ?t = "t_payloads (s_db s)"
  let ?t' = "fold tbl_remove (payload_ids_of_block hs hash ?t) ?t"
  have o: "db_opens (s_db s) TPayloads" and s': "s' = s\<lparr>s_db := (s_db s)\<lparr>t_payloads := ?t'\<rparr>\<rparr>"
    using assms(1) by (auto simp: remove_payload_by_block_hash_def with_write_Inr)
  have get: "tbl_get ?t' k = (case tbl_get ?t k of None \<Rightarrow> None
       | Some p \<Rightarrow> if hs (b_header (fst p)) = hash then None else Some p)" for k
    using payload_ids_of_block_iff [OF assms(2), of k hs hash]
    by (auto simp: tbl_get_remove_all split: option.splits)
  have "hs (b_header (fst (snd e))) \<noteq> hash" if "e \<in> set (tbl_iter ?t')" for e
    using that get [of "fst e"] tb.iter_get [OF tbl_wf_remove_all [OF assms(2)], of "fst e" "snd e"]
    by (auto split: option.splits if_splits)
  then have "find (\<lambda>e. hs (b_header (fst (snd e))) = hash) (tbl_iter ?t') = None"
    unfolding find_None_iff by blast
  then show ?thesis
    using o get [of pid] by (simp add: s' get_payload_by_block_hash_def get_payload_def)
qed

subsection \<open>Canonical chain queries\<close>

text \<open>\<open>latest_block_number\<close> is the greatest height of the canonical chain: it has a canonical
  block and no greater height has one; it is absent exactly when the chain is empty.\<close>

theorem latest_block_number_max:
  assumes "tbl_wf (t_canonical_heads d)" and "latest_block_number d = Inr r"
  shows "case r of None \<Rightarrow> \<forall>n. block_hash n d = Inr None
    | Some m \<Rightarrow> (\<exists>h. block_hash m d = Inr (Some h)) \<and> (\<forall>n h. block_hash n d = Inr (Some h) \<longrightarrow> n \<le> m)"
proof -
  let ?t = "t_canonical_heads d"
  have o: "db_opens d TCanonicalHeads"
    and r: "r = (case rev (tbl_iter ?t) of [] \<Rightarrow> None | e # _ \<Rightarrow> Some (fst e))"
    using assms(2) by (auto simp: latest_block_number_def split: if_splits)
  show ?thesis
  proof (cases "tbl_iter ?t = []")
    case True
    then have "tbl_get ?t n = None" for n
      using tb.iter_get [OF assms(1), of n] by (cases "tbl_get ?t n") auto
    with True o show ?thesis by (simp add: r block_hash_def read_tbl_def)
  next
    case False
    let ?l = "last (tbl_iter ?t)"
    have rl: "r = Some (fst ?l)"
      using False by (cases "tbl_iter ?t" rule: rev_cases) (simp_all add: r)
    have "(fst ?l, snd ?l) \<in> set (tbl_iter ?t)"
      using False by simp
    then have "tbl_get ?t (fst ?l) = Some (snd ?l)"
      using tb.iter_get [OF assms(1)] by blast
    then show ?thesis
      using o tb.last_is_max [OF assms(1) False] by (simp add: rl block_hash_def read_tbl_def)
  qed
qed

text \<open>A transaction is only ever located in a canonical block: a reference returned by
  \<open>transaction_block_reference\<close> names a block that \<open>is_canonical\<close> confirms, at the height where
  the canonical chain has it, agreeing with the lookup table and with \<open>transaction_block\<close>.\<close>

theorem transaction_reference_canonical:
  assumes "transaction_block_reference hash d = Inr (Some (n, bh, i))"
  shows "is_canonical bh d = Inr True \<and> block_hash n d = Inr (Some bh) \<and>
    block_number bh d = Inr (Some n) \<and> transaction_lookup hash d = Inr (Some (bh, i)) \<and>
    transaction_block hash d = Inr (Some n) \<and> transaction_receipt hash d = receipt_at bh i d"
proof -
  obtain l where l: "transaction_lookup hash d = Inr l"
    using assms by (auto simp: transaction_block_reference_def rbind_Inr_iff)
  with assms obtain bh' i' where l': "l = Some (bh', i')"
    by (cases l) (auto simp: transaction_block_reference_def)
  with assms l obtain m where m: "block_number bh' d = Inr (Some m)"
    by (auto simp: transaction_block_reference_def rbind_Inr_iff split: option.splits)
  with assms l l' obtain c where c: "block_hash m d = Inr (Some c)"
    by (auto simp: transaction_block_reference_def rbind_Inr_iff split: option.splits)
  with assms l l' m have "c = bh'" "n = m" "bh = bh'" "i = i'"
    by (simp_all add: transaction_block_reference_def split: if_splits)
  with assms l l' m c show ?thesis
    by (simp add: is_canonical_def transaction_block_def transaction_receipt_def)
qed

subsection \<open>Log queries\<close>

lemma topics_match_nth:
  "topics_match fs ts \<longleftrightarrow>
     (\<forall>i < length fs. fs ! i = [] \<or> i < length ts \<and> ts ! i \<in> set (fs ! i))"
proof (induction fs ts rule: topics_match.induct)
  case (2 f fs)
  then show ?case by (auto simp: All_less_Suc2)
next
  case (3 f fs t ts)
  then show ?case by (auto simp: All_less_Suc2)
qed simp

definition log_at :: "u64 \<Rightarrow> b256 \<Rightarrow> tx \<Rightarrow> nat \<Rightarrow> nat \<Rightarrow> log_entry \<Rightarrow> rpc_log" where
  "log_at n bh t i j l = \<lparr>rl_inner = l, rl_block_hash = bh, rl_block_number = n,
     rl_transaction_hash = tx_hash t, rl_transaction_index = of_nat i, rl_log_index = of_nat j\<rparr>"

lemma tx_logs_iff:
  assumes "tx_logs f n bh es d = Inr ls"
  shows "x \<in> set ls \<longleftrightarrow> (\<exists>i t rc j. (i, t) \<in> set es \<and> receipt_at bh (of_nat i) d = Inr (Some rc) \<and>
    j < length (r_logs rc) \<and> log_matches f (r_logs rc ! j) \<and> x = log_at n bh t i j (r_logs rc ! j))"
  using assms
proof (induction es arbitrary: ls)
  case (Cons e es)
  obtain i t where e: "e = (i, t)" by (cases e)
  from Cons.prems obtain r rest where r: "receipt_at bh (of_nat i) d = Inr r"
    and rest: "tx_logs f n bh es d = Inr rest"
    by (auto simp: e rbind_Inr_iff Let_def)
  let ?here = "case r of None \<Rightarrow> [] | Some rc \<Rightarrow> map (\<lambda>(j, l). log_at n bh t i j l)
      (filter (\<lambda>(j, l). log_matches f l) (List.enumerate 0 (r_logs rc)))"
  have ls: "ls = ?here @ rest"
    using Cons.prems r rest by (simp add: e Let_def log_at_def split: option.splits)
  have here: "x \<in> set ?here \<longleftrightarrow> (\<exists>rc j. receipt_at bh (of_nat i) d = Inr (Some rc) \<and>
      j < length (r_logs rc) \<and> log_matches f (r_logs rc ! j) \<and> x = log_at n bh t i j (r_logs rc ! j))"
    by (cases r) (auto simp: r in_set_enumerate_eq image_iff)
  have "x \<in> set ls \<longleftrightarrow> x \<in> set ?here \<or> x \<in> set rest"
    by (simp only: ls set_append Un_iff)
  then show ?case
    unfolding here Cons.IH [OF rest] e list.set insert_iff prod.inject by blast
qed simp

lemma block_logs_iff:
  assumes "block_logs f n d = Inr ls"
  shows "x \<in> set ls \<longleftrightarrow> (\<exists>bh bd i rc j. block_hash n d = Inr (Some bh) \<and> block_body n d = Inr (Some bd) \<and>
    i < length (b_transactions bd) \<and> receipt_at bh (of_nat i) d = Inr (Some rc) \<and>
    j < length (r_logs rc) \<and> log_matches f (r_logs rc ! j) \<and>
    x = log_at n bh (b_transactions bd ! i) i j (r_logs rc ! j))"
proof -
  obtain h where h: "block_hash n d = Inr h"
    using assms by (auto simp: block_logs_def rbind_Inr_iff)
  show ?thesis
  proof (cases h)
    case None
    with assms h show ?thesis by (simp add: block_logs_def)
  next
    case (Some bh)
    with assms h obtain b where b: "block_body n d = Inr b"
      by (auto simp: block_logs_def rbind_Inr_iff)
    show ?thesis
    proof (cases b)
      case None
      with assms h Some b show ?thesis by (simp add: block_logs_def)
    next
      case (Some bd)
      with assms h \<open>h = Some bh\<close> b
      have "tx_logs f n bh (List.enumerate 0 (b_transactions bd)) d = Inr ls"
        by (simp add: block_logs_def)
      from tx_logs_iff [OF this, of x] show ?thesis
        using h \<open>h = Some bh\<close> b Some by (auto simp: in_set_enumerate_eq)
    qed
  qed
qed

lemma range_logs_iff:
  "range_logs f ns d = Inr ls \<Longrightarrow>
     x \<in> set ls \<longleftrightarrow> (\<exists>n ls'. n \<in> set ns \<and> block_logs f n d = Inr ls' \<and> x \<in> set ls')"
proof (induction ns arbitrary: ls)
  case (Cons a ns)
  then obtain here rest where "block_logs f a d = Inr here" "range_logs f ns d = Inr rest" "ls = here @ rest"
    by (auto simp: rbind_Inr_iff)
  moreover from this(2) have "x \<in> set rest \<longleftrightarrow> (\<exists>n ls'. n \<in> set ns \<and> block_logs f n d = Inr ls' \<and> x \<in> set ls')"
    by (rule Cons.IH)
  ultimately show ?case
    by (metis Un_iff insert_iff list.set(2) set_append sum.inject(2))
qed simp

lemma range_logs_all_ok:
  "range_logs f ns d = Inr ls \<Longrightarrow> n \<in> set ns \<Longrightarrow> \<exists>ls'. block_logs f n d = Inr ls'"
  by (induction ns arbitrary: ls) (auto simp: rbind_Inr_iff)

lemma inclusive_range_iff: "n \<in> set (inclusive_range a b) \<longleftrightarrow> a \<le> n \<and> n \<le> b"
proof
  assume "n \<in> set (inclusive_range a b)"
  then obtain k where k: "n = of_nat k" "unat a \<le> k" "k \<le> unat b"
    by (auto simp: inclusive_range_def)
  moreover have "k < 2 ^ 64"
    using k(3) unsigned_less [of b, where ?'a = nat] by simp
  ultimately show "a \<le> n \<and> n \<le> b"
    by (simp add: word_le_nat_alt unat_of_nat take_bit_eq_mod)
next
  assume "a \<le> n \<and> n \<le> b"
  then have "unat n \<in> set [unat a ..< Suc (unat b)]"
    unfolding word_le_nat_alt by auto
  then show "n \<in> set (inclusive_range a b)"
    unfolding inclusive_range_def set_map by (metis image_eqI of_nat_unat ucast_id)
qed

text \<open>A log query is sound and complete.  When it answers, the result contains a log iff that log is
  at some position of some receipt of some transaction of the canonical block at some height in the requested
  range, and matches the filter: its address is among the requested ones and every position of the topic
  filter is empty or contains the topic at that position.  Each result carries the block, transaction and
  position it came from.\<close>

theorem logs_exact:
  assumes "logs f d = Inr ls"
  shows "\<exists>l from to. latest_block_number d = Inr l \<and>
    from = filter_from (unwrap_or l 0) (f_from_block f) \<and>
    to = filter_to (unwrap_or l 0) from (f_to_block f) \<and>
    (\<forall>x. x \<in> set ls \<longleftrightarrow> (\<exists>n bh bd i rc j. from \<le> n \<and> n \<le> to \<and>
       block_hash n d = Inr (Some bh) \<and> block_body n d = Inr (Some bd) \<and>
       i < length (b_transactions bd) \<and> receipt_at bh (of_nat i) d = Inr (Some rc) \<and>
       j < length (r_logs rc) \<and> x = log_at n bh (b_transactions bd ! i) i j (r_logs rc ! j) \<and>
       (f_address f = [] \<or> l_address (r_logs rc ! j) \<in> set (f_address f)) \<and>
       (\<forall>k < length (f_topics f). f_topics f ! k = [] \<or>
          k < length (l_topics (r_logs rc ! j)) \<and> l_topics (r_logs rc ! j) ! k \<in> set (f_topics f ! k))))"
proof -
  obtain l where l: "latest_block_number d = Inr l"
    using assms by (auto simp: logs_def rbind_Inr_iff)
  define from' where "from' = filter_from (unwrap_or l 0) (f_from_block f)"
  define to' where "to' = filter_to (unwrap_or l 0) from' (f_to_block f)"
  have rl: "range_logs f (inclusive_range from' to') d = Inr ls"
    using assms l by (simp add: logs_def Let_def from'_def to'_def)
  have "x \<in> set ls \<longleftrightarrow> (\<exists>n bh bd i rc j. from' \<le> n \<and> n \<le> to' \<and>
       block_hash n d = Inr (Some bh) \<and> block_body n d = Inr (Some bd) \<and>
       i < length (b_transactions bd) \<and> receipt_at bh (of_nat i) d = Inr (Some rc) \<and>
       j < length (r_logs rc) \<and> x = log_at n bh (b_transactions bd ! i) i j (r_logs rc ! j) \<and>
       log_matches f (r_logs rc ! j))"
    (is "_ = (\<exists>n bh bd i rc j. ?P n bh bd i rc j)") for x
  proof
    assume "x \<in> set ls"
    then obtain n ls' where "from' \<le> n" "n \<le> to'" "block_logs f n d = Inr ls'" "x \<in> set ls'"
      using range_logs_iff [OF rl] by (auto simp: inclusive_range_iff)
    then show "\<exists>n bh bd i rc j. ?P n bh bd i rc j"
      using block_logs_iff by blast
  next
    assume "\<exists>n bh bd i rc j. ?P n bh bd i rc j"
    then obtain n bh bd i rc j where P: "?P n bh bd i rc j" by blast
    then obtain ls' where ls': "block_logs f n d = Inr ls'"
      using range_logs_all_ok [OF rl] by (auto simp: inclusive_range_iff)
    then have "x \<in> set ls'"
      using block_logs_iff [OF ls'] P by blast
    then show "x \<in> set ls"
      using range_logs_iff [OF rl] ls' P by (auto simp: inclusive_range_iff)
  qed
  then show ?thesis
    using l unfolding from'_def [symmetric] to'_def [symmetric] log_matches_def topics_match_nth
    by (auto simp: from'_def to'_def)
qed

subsection \<open>Witnesses\<close>

definition sample_hash :: "header \<Rightarrow> b256" where
  "sample_hash h = ucast (h_number h) + 1"

definition sample_block :: block where
  "sample_block = \<lparr>b_header = devnet_header 6 112 21000 900 0,
     b_body = \<lparr>b_transactions = [devnet_tx Eip1559 3 [], devnet_tx Eip1559 4 []], b_ommers = [],
       b_withdrawals = Some []\<rparr>\<rparr>"

definition sample_log :: log_entry where
  "sample_log = \<lparr>l_address = 77, l_topics = [5], l_data = []\<rparr>"

definition sample_receipt :: receipt where
  "sample_receipt = \<lparr>r_tx_type = 2, r_status = Eip658 True, r_cumulative_gas_used = 21000,
     r_logs = [sample_log], r_logs_bloom = 0\<rparr>"

definition sample_payload :: payload where
  "sample_payload = (sample_block, [sample_receipt], [],
     \<lparr>bb_commitments = [], bb_proofs = [], bb_blobs = []\<rparr>)"

definition sample_db :: db where
  "sample_db = empty_db\<lparr>t_canonical_heads := [(6, 7)], t_header_numbers := [(7, 6)],
     t_block_bodies := [(7, b_body sample_block)], t_transaction_lookup := [(3, (7, 0))],
     t_receipts := [((7, 0), sample_receipt)], t_storages := [((1, 5), 9), ((2, 5), 8)],
     t_payloads := [(1, sample_payload), (2, sample_payload)]\<rparr>"

lemma empty_db_opens [simp]: "db_opens empty_db T" "db_opens sample_db T"
  by (simp_all add: empty_db_def sample_db_def)

lemma new_provider_simps [simp]: "s_db (new_provider d) = d" "s_commits (new_provider d)"
  by (simp_all add: new_provider_def)

theorem insert_block_atomic_witness:
  "insert_block sample_hash sample_block [] [] ((new_provider sample_db)\<lparr>s_commits := False\<rparr>) =
     (Inl UpdateFailed, (new_provider sample_db)\<lparr>s_commits := False\<rparr>)"
proof -
  let ?s = "(new_provider sample_db)\<lparr>s_commits := False\<rparr>"
  have "fst (insert_block sample_hash sample_block [] [] ?s) = Inl UpdateFailed"
    using wtx_insert_block_ok [of sample_db sample_hash sample_block "[]" "[]"]
    by (simp add: insert_block_def with_write_def with_write_then_def)
  then show ?thesis
    using insert_block_atomic [of sample_hash sample_block "[]" "[]" ?s UpdateFailed] by (metis prod.collapse)
qed

theorem reset_storage_clears_witness:
  "\<exists>s'. reset_storage 1 (new_provider sample_db) = (Inr (), s') \<and>
     latest_storage 1 5 (s_db s') = Inr 0 \<and> latest_storage 2 5 (s_db s') = Inr 8"
proof -
  obtain s' where s': "reset_storage 1 (new_provider sample_db) = (Inr (), s')"
    by (simp add: reset_storage_def with_write_then_Inr)
  have "tbl_wf (t_storages sample_db)"
    by (simp add: sample_db_def tbl_wf_def less_prod_def)
  moreover have "latest_storage 2 5 sample_db = Inr 8"
    by (simp add: latest_storage_def read_tbl_def) (simp add: sample_db_def tbl_get_def)
  ultimately show ?thesis
    using reset_storage_clears [OF s', of 1 5] reset_storage_clears [OF s', of 2 5] s' by simp
qed

theorem update_forkchoice_resolves_witness:
  "\<exists>s'. update_forkchoice 7 None (Some 3) (new_provider sample_db) = (Inr (), s') \<and>
     resolve_block_id (IdNumber Latest) (s_db s') = Inr (Some 7)"
proof -
  obtain s' where s': "update_forkchoice 7 None (Some 3) (new_provider sample_db) = (Inr (), s')"
    by (simp add: update_forkchoice_def with_write_Inr)
  then show ?thesis using update_forkchoice_resolves [OF s'] by blast
qed

theorem remove_payload_exact_witness:
  "\<exists>s'. remove_payload_by_block_hash sample_hash 7 (new_provider sample_db) = (Inr (), s') \<and>
     get_payload_by_block_hash sample_hash 7 (s_db s') = None"
proof -
  obtain s' where s': "remove_payload_by_block_hash sample_hash 7 (new_provider sample_db) = (Inr (), s')"
    by (simp add: remove_payload_by_block_hash_def with_write_Inr)
  have "tbl_wf (t_payloads sample_db)"
    by (simp add: sample_db_def tbl_wf_def)
  then show ?thesis using remove_payload_exact [OF s'] s' by simp
qed

theorem latest_block_number_max_witness:
  "latest_block_number sample_db = Inr (Some 6) \<and> (\<exists>h. block_hash 6 sample_db = Inr (Some h))"
proof -
  have l: "latest_block_number sample_db = Inr (Some 6)"
    by (simp add: latest_block_number_def) (simp add: sample_db_def tbl_iter_def)
  moreover have "tbl_wf (t_canonical_heads sample_db)"
    by (simp add: sample_db_def tbl_wf_def)
  ultimately show ?thesis using latest_block_number_max [of sample_db "Some 6"] by simp
qed

lemma sample_reads:
  "block_hash n sample_db = Inr (if n = 6 then Some 7 else None)"
  "block_number h sample_db = Inr (if h = 7 then Some 6 else None)"
  "transaction_lookup t sample_db = Inr (if t = 3 then Some (7, 0) else None)"
  "block_body_by_hash h sample_db = Inr (if h = 7 then Some (b_body sample_block) else None)"
  "receipt_at h i sample_db = Inr (if h = 7 \<and> i = 0 then Some sample_receipt else None)"
  by (simp_all add: block_hash_def block_number_def transaction_lookup_def block_body_by_hash_def
      receipt_at_def read_tbl_def) (auto simp: sample_db_def tbl_get_def)

theorem transaction_reference_canonical_witness:
  "transaction_block_reference 3 sample_db = Inr (Some (6, 7, 0)) \<and> is_canonical 7 sample_db = Inr True"
proof -
  have "transaction_block_reference 3 sample_db = Inr (Some (6, 7, 0))"
    by (simp add: transaction_block_reference_def sample_reads)
  with transaction_reference_canonical [OF this] show ?thesis by simp
qed

definition sample_filter :: log_filter where
  "sample_filter = \<lparr>f_from_block = Some (Number 6), f_to_block = Some Latest, f_address = [77],
     f_topics = [[4, 5]]\<rparr>"

theorem logs_exact_witness:
  "\<exists>ls. logs sample_filter sample_db = Inr ls \<and>
     (\<exists>l from to. latest_block_number sample_db = Inr l \<and>
        from = filter_from (unwrap_or l 0) (f_from_block sample_filter) \<and>
        to = filter_to (unwrap_or l 0) from (f_to_block sample_filter)) \<and>
     log_at 6 7 (devnet_tx Eip1559 3 []) 0 0 sample_log \<in> set ls"
proof -
  have l: "latest_block_number sample_db = Inr (Some 6)"
    by (simp add: latest_block_number_def) (simp add: sample_db_def tbl_iter_def)
  have "inclusive_range 6 6 = [6]"
    by (simp add: inclusive_range_def)
  then have "logs sample_filter sample_db = Inr [log_at 6 7 (devnet_tx Eip1559 3 []) 0 0 sample_log]"
    using l by (simp add: logs_def sample_filter_def filter_from_def filter_to_def block_logs_def
        block_body_def sample_reads sample_block_def sample_receipt_def log_matches_def sample_log_def
        log_at_def)
  with logs_exact [OF this] show ?thesis by auto
qed

subsection \<open>Frames of the write operations\<close>

lemma frame_open_table [intro]: "frame f (open_table T)"
  by (simp add: frame_def open_table_def)

lemma frame_wtx_upd [intro]: "(\<And>d. f (upd g d) = f d) \<Longrightarrow> frame f (wtx_upd T upd g)"
  by (auto simp: frame_def wtx_upd_def open_table_def sseq_def sbind_def)

lemma frame_with_write_then [intro]:
  "frame f m \<Longrightarrow> (\<And>s. s_db (t s) = s_db s) \<Longrightarrow> frame (\<lambda>s. f (s_db s)) (with_write_then m t)"
  by (auto simp: frame_def with_write_then_def split: prod.splits sum.splits) (metis snd_conv)

lemma frame_with_write [intro]: "frame f m \<Longrightarrow> frame (\<lambda>s. f (s_db s)) (with_write m)"
  by (auto simp: with_write_def)

text \<open>No operation on tables opens or closes one.\<close>

lemma frame_wtx_insert_block_opens:
  "frame db_opens (wtx_insert_block hs d0 b rs ms)"
  unfolding wtx_insert_block_def wtx_insert_header_def wtx_insert_block_body_def wtx_insert_body_tx_def
    wtx_insert_header_td_def wtx_insert_receipt_def wtx_insert_receipt_meta_def Let_def
  by (intro frame_sseq frame_sbind frame_for_each frame_prod frame_wtx_upd frame_open_table frame_basic) simp_all

lemma frame_wtx_insert_block_canonical:
  "frame t_canonical_heads (wtx_insert_block hs d0 b rs ms)"
  unfolding wtx_insert_block_def wtx_insert_header_def wtx_insert_block_body_def wtx_insert_body_tx_def
    wtx_insert_header_td_def wtx_insert_receipt_def wtx_insert_receipt_meta_def Let_def
  by (intro frame_sseq frame_sbind frame_for_each frame_prod frame_wtx_upd frame_open_table frame_basic) simp_all

end
