(* ===== verification/Chain.thy ===== *)
theory Chain
  imports StorageWrite
begin

section \<open>Block tree, canonical state and chain manager\<close>

text \<open>
  \<^verbatim>\<open>wasix_eth_core/src/engine/sidechain_tracker.rs\<close> (\<open>BlockTree\<close>),
  \<^verbatim>\<open>engine/canonicality_tracker.rs\<close> (\<open>CanonicalState\<close>) and
  \<^verbatim>\<open>chain_manager.rs\<close> (\<open>ChainManagerImpl\<close>).  The three share one storage and are
  modelled by one record, \<open>chain\<close>.  Each method takes its locks one after the other and is
  modelled as one step.  Queries are functions of the state; methods that write storage are actions.
\<close>

subsection \<open>Block tree\<close>

record block_tree =
  bt_blocks :: "b256 \<rightharpoonup> block"
  bt_children :: "b256 \<rightharpoonup> b256 list"
  bt_invalid :: "b256 \<rightharpoonup> b256 \<times> invalidation_reason"

definition tree_new :: block_tree where
  "tree_new = \<lparr>bt_blocks = Map.empty, bt_children = Map.empty, bt_invalid = Map.empty\<rparr>"

definition add_orphan :: "(header \<Rightarrow> b256) \<Rightarrow> b256 \<Rightarrow> block \<Rightarrow> block_tree \<Rightarrow> block_tree" where
  "add_orphan hs parent_hash b t =
     (let hash = hs (b_header b) in
      t\<lparr>bt_blocks := (bt_blocks t)(hash \<mapsto> b),
        bt_children := (bt_children t)
          (parent_hash \<mapsto> unwrap_or (bt_children t parent_hash) [] @ [hash])\<rparr>)"

definition mark_invalid :: "b256 \<Rightarrow> b256 \<Rightarrow> invalidation_reason \<Rightarrow> block_tree \<Rightarrow> block_tree" where
  "mark_invalid hash parent_hash reason t =
     (let t' = (if hash = parent_hash
                then t\<lparr>bt_invalid := (bt_invalid t)(hash \<mapsto> (0, reason))\<rparr>
                else t\<lparr>bt_invalid := (bt_invalid t)(hash \<mapsto> (parent_hash, reason))\<rparr>)
      in t'\<lparr>bt_blocks := (bt_blocks t')(hash := None)\<rparr>)"

definition remove_invalid :: "b256 \<Rightarrow> block_tree \<Rightarrow> block_tree" where
  "remove_invalid hash t = t\<lparr>bt_invalid := (bt_invalid t)(hash := None)\<rparr>"

definition tree_invalidation_reason :: "block_tree \<Rightarrow> b256 \<Rightarrow> invalidation_reason option" where
  "tree_invalidation_reason t hash = map_option snd (bt_invalid t hash)"

definition get_invalid_parent :: "block_tree \<Rightarrow> b256 \<Rightarrow> b256 option" where
  "get_invalid_parent t hash = map_option fst (bt_invalid t hash)"

definition get_children :: "block_tree \<Rightarrow> b256 \<Rightarrow> b256 list" where
  "get_children t parent_hash = unwrap_or (bt_children t parent_hash) []"

definition remove_children :: "b256 \<Rightarrow> block_tree \<Rightarrow> b256 list \<times> block_tree" where
  "remove_children parent_hash t =
     (unwrap_or (bt_children t parent_hash) [],
      t\<lparr>bt_children := (bt_children t)(parent_hash := None)\<rparr>)"

definition get_block :: "block_tree \<Rightarrow> b256 \<Rightarrow> block option" where
  "get_block t hash = bt_blocks t hash"

definition remove_block :: "b256 \<Rightarrow> block_tree \<Rightarrow> block option \<times> block_tree" where
  "remove_block hash t = (bt_blocks t hash, t\<lparr>bt_blocks := (bt_blocks t)(hash := None)\<rparr>)"

definition contains_block :: "block_tree \<Rightarrow> b256 \<Rightarrow> bool" where
  "contains_block t hash = (bt_blocks t hash \<noteq> None)"

text \<open>The order of \<open>values()\<close> of a \<open>HashMap\<close> is unspecified, so the result is a set.\<close>

definition get_all_blocks :: "block_tree \<Rightarrow> block set" where
  "get_all_blocks t = ran (bt_blocks t)"

subsection \<open>Canonical state\<close>

record sync_info =
  si_current_block :: u256
  si_highest_block :: u256
  si_starting_block :: u256
  si_stages :: "(string \<times> u256) list option"

datatype sync_status = SyncNone | SyncInfo sync_info

record chain =
  ch_store :: store
  ch_tree :: block_tree
  ch_fc :: forkchoice_state
  ch_number :: u64
  ch_sync :: sync_status

type_synonym 'a chain_act = "(chain, storage_error, 'a) act"

abbreviation ch_db :: "chain \<Rightarrow> db" where
  "ch_db c \<equiv> s_db (ch_store c)"

definition on_store :: "'a wr \<Rightarrow> 'a chain_act" where
  "on_store m c = (case m (ch_store c) of (r, s) \<Rightarrow> (r, c\<lparr>ch_store := s\<rparr>))"

definition stored_or_zero :: "string \<Rightarrow> db \<Rightarrow> b256" where
  "stored_or_zero key d = unwrap_or (ok_flat (forkchoice key d)) 0"

definition canonical_new :: "db \<Rightarrow> forkchoice_state \<times> u64" where
  "canonical_new d =
     (let head_hash = stored_or_zero ''head'' d;
          head_number = (if head_hash \<noteq> 0 then unwrap_or (ok_flat (block_number head_hash d)) 0 else 0)
      in (\<lparr>fc_head = head_hash, fc_safe = stored_or_zero ''safe'' d,
           fc_finalized = stored_or_zero ''finalized'' d\<rparr>, head_number))"

definition get_head :: "chain \<Rightarrow> b256 \<times> u64" where
  "get_head c = (fc_head (ch_fc c), ch_number c)"

definition get_safe :: "chain \<Rightarrow> b256" where
  "get_safe c = fc_safe (ch_fc c)"

definition get_finalized :: "chain \<Rightarrow> b256" where
  "get_finalized c = fc_finalized (ch_fc c)"

definition get_state :: "chain \<Rightarrow> forkchoice_state \<times> u64" where
  "get_state c = (ch_fc c, ch_number c)"

definition persist_forkchoice :: "forkchoice_state \<Rightarrow> unit chain_act" where
  "persist_forkchoice st =
     on_store (update_forkchoice (fc_head st) (Some (fc_safe st)) (Some (fc_finalized st)))"

definition update_head :: "b256 \<Rightarrow> u64 \<Rightarrow> unit chain_act" where
  "update_head hash number c =
     (if fc_head (ch_fc c) = hash \<and> ch_number c = number then (Inr (), c)
      else let st = (ch_fc c)\<lparr>fc_head := hash\<rparr>
           in persist_forkchoice st (c\<lparr>ch_fc := st, ch_number := number\<rparr>))"

definition update_safe :: "b256 \<Rightarrow> unit chain_act" where
  "update_safe hash c =
     (if fc_safe (ch_fc c) = hash then (Inr (), c)
      else let st = (ch_fc c)\<lparr>fc_safe := hash\<rparr> in persist_forkchoice st (c\<lparr>ch_fc := st\<rparr>))"

definition update_finalized :: "b256 \<Rightarrow> unit chain_act" where
  "update_finalized hash c =
     (if fc_finalized (ch_fc c) = hash then (Inr (), c)
      else let st = (ch_fc c)\<lparr>fc_finalized := hash\<rparr> in persist_forkchoice st (c\<lparr>ch_fc := st\<rparr>))"

definition update_state :: "forkchoice_state \<Rightarrow> u64 \<Rightarrow> unit chain_act" where
  "update_state st head_number c =
     (if ch_fc c = st \<and> ch_number c = head_number then (Inr (), c)
      else persist_forkchoice st (c\<lparr>ch_fc := st, ch_number := head_number\<rparr>))"

subsection \<open>Chain manager\<close>

definition chain_new :: "store \<Rightarrow> block_tree \<Rightarrow> chain" where
  "chain_new s t = (case canonical_new (s_db s) of (fc, n) \<Rightarrow>
     \<lparr>ch_store = s, ch_tree = t, ch_fc = fc, ch_number = n, ch_sync = SyncNone\<rparr>)"

definition head_block :: "chain \<Rightarrow> b256 \<times> u64" where
  "head_block c = get_head c"

definition get_sync_status :: "chain \<Rightarrow> sync_status" where
  "get_sync_status c =
     (let current = SyncInfo \<lparr>si_current_block = ucast (snd (head_block c)),
            si_highest_block = ucast (snd (head_block c)), si_starting_block = 0,
            si_stages = Some []\<rparr>
      in case ch_sync c of
           SyncInfo info \<Rightarrow> if si_stages info = None then SyncInfo info else current
         | SyncNone \<Rightarrow> current)"

definition set_sync_status :: "sync_status \<Rightarrow> chain \<Rightarrow> chain" where
  "set_sync_status st c = c\<lparr>ch_sync := st\<rparr>"

definition set_head_block :: "b256 \<Rightarrow> u64 \<Rightarrow> unit chain_act" where
  "set_head_block hash number = ignore_err (update_head hash number)"

text \<open>Headers by hash, and built payloads by block hash.\<close>

definition stored_header :: "db \<Rightarrow> b256 \<Rightarrow> header option" where
  "stored_header d hash = ok_flat (header (IdHash hash) d)"

definition payload_header :: "(header \<Rightarrow> b256) \<Rightarrow> db \<Rightarrow> b256 \<Rightarrow> header option" where
  "payload_header hs d hash = map_option (\<lambda>p. b_header (fst p)) (get_payload_by_block_hash hs hash d)"

definition tree_header :: "block_tree \<Rightarrow> b256 \<Rightarrow> header option" where
  "tree_header t hash = map_option b_header (get_block t hash)"

definition has_block :: "(header \<Rightarrow> b256) \<Rightarrow> chain \<Rightarrow> b256 \<Rightarrow> bool" where
  "has_block hs c hash =
     (if stored_header (ch_db c) hash \<noteq> None then True
      else if contains_block (ch_tree c) hash then True
      else get_payload_by_block_hash hs hash (ch_db c) \<noteq> None)"

definition get_invalidation_reason :: "chain \<Rightarrow> b256 \<Rightarrow> invalidation_reason option" where
  "get_invalidation_reason c hash = tree_invalidation_reason (ch_tree c) hash"

definition is_invalid :: "chain \<Rightarrow> b256 \<Rightarrow> bool" where
  "is_invalid c hash = (get_invalidation_reason c hash \<noteq> None)"

definition add_invalid_block :: "b256 \<Rightarrow> b256 \<Rightarrow> invalidation_reason \<Rightarrow> chain \<Rightarrow> chain" where
  "add_invalid_block hash parent_hash reason c =
     c\<lparr>ch_tree := mark_invalid hash parent_hash reason (ch_tree c)\<rparr>"

definition remove_invalid_block :: "b256 \<Rightarrow> chain \<Rightarrow> chain" where
  "remove_invalid_block hash c = c\<lparr>ch_tree := remove_invalid hash (ch_tree c)\<rparr>"

definition total_difficulty :: "chain \<Rightarrow> u256" where
  "total_difficulty c = unwrap_or (ok_flat (header_td (fst (head_block c)) (ch_db c))) 0"

definition canonical_at :: "chain \<Rightarrow> u64 \<Rightarrow> b256 option" where
  "canonical_at c n = ok_flat (block_hash n (ch_db c))"

definition known_canonical :: "chain \<Rightarrow> b256 \<Rightarrow> bool" where
  "known_canonical c hash = (is_canonical hash (ch_db c) = Inr True)"

subsubsection \<open>Ancestry\<close>

definition number_of :: "(header \<Rightarrow> b256) \<Rightarrow> chain \<Rightarrow> b256 \<Rightarrow> u64 option" where
  "number_of hs c hash =
     or_else (ok_flat (block_number hash (ch_db c)))
    (or_else (map_option h_number (tree_header (ch_tree c) hash))
             (map_option h_number (payload_header hs (ch_db c) hash)))"

definition parent_info :: "(header \<Rightarrow> b256) \<Rightarrow> chain \<Rightarrow> b256 \<Rightarrow> (b256 \<times> u64) option" where
  "parent_info hs c current =
     (let link = (\<lambda>hdr. (h_parent_hash hdr, saturating_sub (h_number hdr) 1)) in
      case stored_header (ch_db c) current of Some hdr \<Rightarrow> Some (link hdr)
      | None \<Rightarrow> (case payload_header hs (ch_db c) current of Some hdr \<Rightarrow> Some (link hdr)
      | None \<Rightarrow> (case tree_header (ch_tree c) current of Some hdr \<Rightarrow> Some (link hdr)
      | None \<Rightarrow> if Some current = canonical_at c 0 then Some (0, 0) else None)))"

text \<open>The loop \<open>for _ in 0..2048\<close>; the first argument counts the remaining iterations.\<close>

fun ancestor_walk :: "nat \<Rightarrow> (header \<Rightarrow> b256) \<Rightarrow> chain \<Rightarrow> b256 \<Rightarrow> u64 option \<Rightarrow> b256 \<Rightarrow> u64 option \<Rightarrow> bool" where
  "ancestor_walk 0 hs c target target_number current current_number = False"
| "ancestor_walk (Suc k) hs c target target_number current current_number =
     (let continue_up = (case parent_info hs c current of
            Some (parent, p_num) \<Rightarrow> ancestor_walk k hs c target target_number parent (Some p_num)
          | None \<Rightarrow> False)
      in if current = target then True
         else if current = 0 then False
         else case (current_number, target_number) of
             (Some c_num, Some t_num) \<Rightarrow>
               if c_num < t_num then False
               else if known_canonical c current
               then (case canonical_at c t_num of
                       Some canonical_hash_at_t_num \<Rightarrow> canonical_hash_at_t_num = target
                     | None \<Rightarrow> continue_up)
               else continue_up
           | _ \<Rightarrow> continue_up)"

definition is_ancestor :: "(header \<Rightarrow> b256) \<Rightarrow> chain \<Rightarrow> b256 \<Rightarrow> b256 \<Rightarrow> bool" where
  "is_ancestor hs c head_hash target =
     (let head_number = number_of hs c head_hash;
          target_number = number_of hs c target;
          walk = ancestor_walk 2048 hs c target target_number head_hash head_number
      in if head_hash = target then True
         else if target = 0 then True
         else case (head_number, target_number) of
             (Some h_num, Some t_num) \<Rightarrow>
               if t_num > h_num then False
               else if known_canonical c target \<and> known_canonical c head_hash then h_num \<ge> t_num
               else walk
           | _ \<Rightarrow> walk)"

subsubsection \<open>Latest valid ancestor\<close>

definition known_number :: "(header \<Rightarrow> b256) \<Rightarrow> chain \<Rightarrow> b256 \<Rightarrow> u64 option" where
  "known_number hs c current =
     map_option h_number (or_else (tree_header (ch_tree c) current)
       (or_else (stored_header (ch_db c) current) (payload_header hs (ch_db c) current)))"

definition canonical_shortcut :: "(header \<Rightarrow> b256) \<Rightarrow> chain \<Rightarrow> b256 \<Rightarrow> b256 option" where
  "canonical_shortcut hs c current =
     (case known_number hs c current of None \<Rightarrow> None
      | Some num \<Rightarrow> (case canonical_at c (saturating_sub num 1) of None \<Rightarrow> None
         | Some canonical_hash \<Rightarrow>
             if is_ancestor hs c current canonical_hash then Some canonical_hash else None))"

definition invalid_parent :: "(header \<Rightarrow> b256) \<Rightarrow> chain \<Rightarrow> b256 \<Rightarrow> b256 option" where
  "invalid_parent hs c current =
     or_else (get_invalid_parent (ch_tree c) current)
       (map_option h_parent_hash (or_else (tree_header (ch_tree c) current)
         (or_else (stored_header (ch_db c) current) (payload_header hs (ch_db c) current))))"

text \<open>What the function returns at the first block that is not known invalid.\<close>

definition settle_at :: "(header \<Rightarrow> b256) \<Rightarrow> chain \<Rightarrow> b256 \<Rightarrow> b256 option" where
  "settle_at hs c current =
     (if has_block hs c current then Some current
      else if canonical_at c 0 = Some current then Some current
      else if current = 0 then Some 0 else None)"

text \<open>The walk through invalid blocks; \<open>visited\<close> grows with every iteration and stops it at 1024.\<close>

function valid_ancestor_walk :: "(header \<Rightarrow> b256) \<Rightarrow> chain \<Rightarrow> b256 list \<Rightarrow> b256 \<Rightarrow> b256 option" where
  "valid_ancestor_walk hs c visited current =
     (if get_invalidation_reason c current = None then settle_at hs c current
      else if current \<in> set visited then None
      else case canonical_shortcut hs c current of Some a \<Rightarrow> Some a
      | None \<Rightarrow> (case invalid_parent hs c current of None \<Rightarrow> None
         | Some parent \<Rightarrow>
             if parent = current then None
             else if known_canonical c parent then Some parent
             else if Suc (length visited) \<ge> 1024 then None
             else valid_ancestor_walk hs c (current # visited) parent))"
  by pat_completeness auto
termination
  by (relation "measure (\<lambda>(hs, c, visited, current). 1024 - length visited)") auto

declare valid_ancestor_walk.simps [simp del]

definition get_latest_valid_ancestor :: "(header \<Rightarrow> b256) \<Rightarrow> chain \<Rightarrow> b256 \<Rightarrow> b256 option" where
  "get_latest_valid_ancestor hs c hash =
     (if hash = 0 then Some 0
      else if known_canonical c hash then Some hash
      else if hash = fst (head_block c) \<and> get_invalidation_reason c hash = None then Some hash
      else if get_invalidation_reason c hash = None \<and>
              (has_block hs c hash \<or> canonical_at c 0 = Some hash) then Some hash
      else valid_ancestor_walk hs c [] hash)"

datatype payload_status_enum = Valid | Invalid string | Syncing | Accepted

record payload_status =
  ps_status :: payload_status_enum
  ps_latest_valid_hash :: "b256 option"

definition determine_payload_status :: "(header \<Rightarrow> b256) \<Rightarrow> chain \<Rightarrow> b256 \<Rightarrow> payload_status" where
  "determine_payload_status hs c head_block_hash =
     (if is_invalid c head_block_hash
      then \<lparr>ps_status = Invalid ''Block is known to be invalid'',
            ps_latest_valid_hash = get_latest_valid_ancestor hs c head_block_hash\<rparr>
      else if stored_header (ch_db c) head_block_hash \<noteq> None
      then \<lparr>ps_status = Valid, ps_latest_valid_hash = Some head_block_hash\<rparr>
      else if get_payload_by_block_hash hs head_block_hash (ch_db c) \<noteq> None
      then \<lparr>ps_status = Valid, ps_latest_valid_hash = Some head_block_hash\<rparr>
      else \<lparr>ps_status = Syncing, ps_latest_valid_hash = None\<rparr>)"

subsection \<open>Ancestry is decided correctly\<close>

definition parent_rel :: "(header \<Rightarrow> b256) \<Rightarrow> chain \<Rightarrow> (b256 \<times> b256) set" where
  "parent_rel hs c = {(x, y). \<exists>n. parent_info hs c x = Some (y, n)}"

text \<open>The canonical table is a chain: every entry has its header, with that number, and the entry
  below it is its parent.\<close>

definition canonical_linked :: "chain \<Rightarrow> bool" where
  "canonical_linked c \<longleftrightarrow> (\<forall>n h. canonical_at c n = Some h \<longrightarrow>
     (\<exists>hdr. stored_header (ch_db c) h = Some hdr \<and> h_number hdr = n \<and>
        (n \<noteq> 0 \<longrightarrow> canonical_at c (n - 1) = Some (h_parent_hash hdr))))"

text \<open>Numbers agree with links: a block with a parent has a number one above the parent's.\<close>

definition heights_ok :: "(header \<Rightarrow> b256) \<Rightarrow> chain \<Rightarrow> bool" where
  "heights_ok hs c \<longleftrightarrow> parent_info hs c 0 = None \<and>
     (\<forall>x y p. parent_info hs c x = Some (y, p) \<longrightarrow> y \<noteq> 0 \<longrightarrow>
        number_of hs c x = Some (p + 1) \<and> p < p + 1 \<and>
        (\<forall>q. number_of hs c y = Some q \<longrightarrow> q = p))"

lemma known_canonical_iff:
  "known_canonical c h \<longleftrightarrow> (\<exists>n. block_number h (ch_db c) = Inr (Some n) \<and> canonical_at c n = Some h)"
  by (auto simp: known_canonical_def is_canonical_def canonical_at_def ok_flat_Some_iff rbind_Inr_iff
      split: option.splits)

lemma known_canonical_number:
  "known_canonical c h \<Longrightarrow> \<exists>n. number_of hs c h = Some n \<and> canonical_at c n = Some h"
  by (auto simp: known_canonical_iff number_of_def)

lemma parent_info_stored:
  "stored_header (ch_db c) h = Some hdr \<Longrightarrow>
     parent_info hs c h = Some (h_parent_hash hdr, saturating_sub (h_number hdr) 1)"
  by (simp add: parent_info_def)

lemma canonical_descent:
  assumes "canonical_linked c" and "canonical_at c n = Some h" and "m \<le> n"
  shows "\<exists>g. canonical_at c m = Some g \<and> (h, g) \<in> (parent_rel hs c)\<^sup>*"
  using assms(2,3)
proof (induction "unat n - unat m" arbitrary: n h)
  case 0
  then have "n = m"
    by (metis diff_is_0_eq le_antisym word_le_nat_alt word_unat_eq_iff)
  with 0 show ?case by auto
next
  case (Suc k)
  then have lt: "m < n"
    by (metis diff_self_eq_0 nat.distinct(1) order_le_less)
  then have "n \<noteq> 0" by auto
  with assms(1) Suc.prems(1) obtain hdr where hdr: "stored_header (ch_db c) h = Some hdr"
    and up: "canonical_at c (n - 1) = Some (h_parent_hash hdr)"
    unfolding canonical_linked_def by metis
  have u: "unat (n - 1) = unat n - 1"
    using \<open>n \<noteq> 0\<close> by (metis One_nat_def unat_minus_one)
  with lt have "m \<le> n - 1" "k = unat (n - 1) - unat m"
    using Suc.hyps(2) by (auto simp: word_le_nat_alt word_less_nat_alt)
  then obtain g where "canonical_at c m = Some g" "(h_parent_hash hdr, g) \<in> (parent_rel hs c)\<^sup>*"
    using Suc.hyps(1) [OF _ up] by blast
  moreover have "(h, h_parent_hash hdr) \<in> parent_rel hs c"
    using parent_info_stored [OF hdr] by (simp add: parent_rel_def)
  ultimately show ?case by (meson converse_rtrancl_into_rtrancl)
qed

lemma parent_number:
  assumes "heights_ok hs c" and "parent_info hs c x = Some (y, p)" and "y \<noteq> 0"
  shows "number_of hs c x = Some (p + 1)" "unat (p + 1) = Suc (unat p)"
    "number_of hs c y = Some q \<Longrightarrow> q = p" "x \<noteq> 0"
proof -
  show "number_of hs c x = Some (p + 1)" "number_of hs c y = Some q \<Longrightarrow> q = p" "x \<noteq> 0"
    using assms unfolding heights_ok_def by (blast, blast) (use assms in \<open>auto simp: heights_ok_def\<close>)
  have "p < p + 1"
    using assms unfolding heights_ok_def by blast
  then show "unat (p + 1) = Suc (unat p)"
    by (rule unat_Suc_no_wrap)
qed

lemma ancestor_walk_sound:
  assumes "canonical_linked c" and "heights_ok hs c" and "t \<noteq> 0"
  shows "ancestor_walk k hs c t tn x xn \<Longrightarrow>
    (\<And>n q. xn = Some n \<Longrightarrow> number_of hs c x = Some q \<Longrightarrow> x \<noteq> 0 \<Longrightarrow> q = n) \<Longrightarrow> (x, t) \<in> (parent_rel hs c)\<^sup>*"
proof (induction k arbitrary: x xn)
  case (Suc k)
  let ?up = "case parent_info hs c x of
      Some (parent, p_num) \<Rightarrow> ancestor_walk k hs c t tn parent (Some p_num) | None \<Rightarrow> False"
  consider "x = t" | "x \<noteq> t" "x \<noteq> 0" ?up
    | n m where "x \<noteq> t" "x \<noteq> 0" "xn = Some n" "tn = Some m" "m \<le> n" "known_canonical c x"
      "canonical_at c m = Some t"
    using Suc.prems(1) by (auto simp: Let_def not_less split: if_splits option.splits)
  then show ?case
  proof cases
    case 2
    then obtain y p where y: "parent_info hs c x = Some (y, p)"
      and w: "ancestor_walk k hs c t tn y (Some p)"
      by (auto split: option.splits)
    have "(y, t) \<in> (parent_rel hs c)\<^sup>*"
      using Suc.IH [OF w] parent_number(3) [OF assms(2) y] by simp
    with y show ?thesis
      by (auto simp: parent_rel_def intro: converse_rtrancl_into_rtrancl)
  next
    case 3
    from known_canonical_number [OF this(6)] obtain q where q: "number_of hs c x = Some q"
      "canonical_at c q = Some x" by blast
    with 3 Suc.prems(2) have "m \<le> q" by blast
    from canonical_descent [OF assms(1) q(2) this] 3(7) show ?thesis by auto
  qed simp
qed simp

lemma path_nonzero:
  assumes "heights_ok hs c" and "t \<noteq> 0" and "(y, t) \<in> parent_rel hs c ^^ j"
  shows "y \<noteq> 0"
proof (cases j)
  case (Suc i)
  with assms(3) obtain z where "(y, z) \<in> parent_rel hs c"
    by (meson relpow_Suc_D2)
  with assms(1) show ?thesis by (auto simp: parent_rel_def heights_ok_def)
qed (use assms in simp)

lemma path_first_step:
  assumes "heights_ok hs c" and "t \<noteq> 0" and "(x, t) \<in> parent_rel hs c ^^ Suc j"
  obtains y p where "parent_info hs c x = Some (y, p)" "(y, t) \<in> parent_rel hs c ^^ j" "y \<noteq> 0"
proof -
  from assms(3) obtain y where xy: "(x, y) \<in> parent_rel hs c" and yt: "(y, t) \<in> parent_rel hs c ^^ j"
    by (meson relpow_Suc_D2)
  from xy obtain p where "parent_info hs c x = Some (y, p)"
    by (auto simp: parent_rel_def)
  then show ?thesis
    using yt path_nonzero [OF assms(1,2) yt] by (rule that)
qed

lemma heights_path:
  assumes "heights_ok hs c" and "t \<noteq> 0"
  shows "(x, t) \<in> parent_rel hs c ^^ j \<Longrightarrow> number_of hs c t = Some m \<Longrightarrow> number_of hs c x = Some n \<Longrightarrow>
    unat n = unat m + j"
proof (induction j arbitrary: x n)
  case (Suc j)
  from path_first_step [OF assms Suc.prems(1)] obtain y p where
    y: "parent_info hs c x = Some (y, p)" "(y, t) \<in> parent_rel hs c ^^ j" "y \<noteq> 0" .
  note pn = parent_number [OF assms(1) y(1,3)]
  obtain q where q: "number_of hs c y = Some q"
  proof (cases j)
    case (Suc i)
    then show ?thesis
      using that path_first_step [OF assms] parent_number(1) [OF assms(1)] y(2) by metis
  qed (use y(2) Suc.prems(2) that in simp)
  have "unat q = unat m + j"
    using Suc.IH [OF y(2) Suc.prems(2) q] .
  with pn(1,2) pn(3) [OF q] Suc.prems(3) show ?case by simp
qed simp

lemma canonical_path:
  assumes "canonical_linked c" and "heights_ok hs c" and "t \<noteq> 0"
  shows "(x, t) \<in> parent_rel hs c ^^ j \<Longrightarrow> canonical_at c n = Some x \<Longrightarrow> number_of hs c t = Some m \<Longrightarrow>
    number_of hs c x = Some n \<Longrightarrow> canonical_at c m = Some t"
proof (induction j arbitrary: x n)
  case (Suc j)
  from path_first_step [OF assms(2,3) Suc.prems(1)] obtain y p where
    y: "parent_info hs c x = Some (y, p)" "(y, t) \<in> parent_rel hs c ^^ j" "y \<noteq> 0" .
  note pn = parent_number [OF assms(2) y(1,3)]
  from pn(1) Suc.prems(4) have n: "n = p + 1" by simp
  with pn(2) have "n \<noteq> 0" by auto
  with assms(1) Suc.prems(2) obtain hdr where hdr: "stored_header (ch_db c) x = Some hdr"
    and up: "canonical_at c (n - 1) = Some (h_parent_hash hdr)"
    unfolding canonical_linked_def by metis
  have yp: "canonical_at c p = Some y"
    using up parent_info_stored [OF hdr, of hs] y(1) n by simp
  show ?case
  proof (cases "number_of hs c y")
    case None
    then have "y = t"
    proof (cases j)
      case (Suc i)
      then show ?thesis
        using path_first_step [OF assms(2,3)] parent_number(1) [OF assms(2)] y(2) None
        by (metis option.distinct(1))
    qed (use y(2) in simp)
    with None Suc.prems(3) show ?thesis by simp
  next
    case (Some q)
    with pn(3) yp Suc.IH [OF y(2) _ Suc.prems(3)] show ?thesis by blast
  qed
qed simp

lemma ancestor_walk_complete:
  assumes "canonical_linked c" and "heights_ok hs c" and "t \<noteq> 0"
  shows "(x, t) \<in> parent_rel hs c ^^ j \<Longrightarrow> j < k \<Longrightarrow> (\<And>q. number_of hs c x = Some q \<Longrightarrow> xn = Some q) \<Longrightarrow>
    ancestor_walk k hs c t (number_of hs c t) x xn"
proof (induction k arbitrary: x xn j)
  case (Suc k)
  show ?case
  proof (cases "x = t")
    case False
    with Suc.prems(1) obtain i where j: "j = Suc i" by (cases j) auto
    from path_first_step [OF assms(2,3) Suc.prems(1) [unfolded j]] obtain y p where
      y: "parent_info hs c x = Some (y, p)" "(y, t) \<in> parent_rel hs c ^^ i" "y \<noteq> 0" .
    note pn = parent_number [OF assms(2) y(1,3)]
    have up: "ancestor_walk k hs c t (number_of hs c t) y (Some p)"
      using Suc.IH [OF y(2)] Suc.prems(2) j pn(3) by force
    show ?thesis
    proof (cases "number_of hs c t")
      case None
      with False pn y(1) up Suc.prems(3) show ?thesis by (simp add: Let_def)
    next
      case (Some m)
      have "unat (p + 1) = unat m + j"
        using heights_path [OF assms(2,3) Suc.prems(1) Some pn(1)] .
      then have "\<not> p + 1 < m" by (simp add: word_less_nat_alt)
      moreover have "canonical_at c m = Some t" if kc: "known_canonical c x"
        using known_canonical_number [OF kc, of hs] canonical_path [OF assms Suc.prems(1) _ Some] by blast
      ultimately show ?thesis
        using False pn y(1) up Suc.prems(3) Some by (simp add: Let_def)
    qed
  qed simp
qed simp

lemma is_ancestor_sound:
  assumes "canonical_linked c" and "heights_ok hs c" and "t \<noteq> 0" and "is_ancestor hs c h t"
  shows "(h, t) \<in> (parent_rel hs c)\<^sup>*"
proof -
  let ?hn = "number_of hs c h" and ?tn = "number_of hs c t"
  let ?w = "ancestor_walk 2048 hs c t ?tn h ?hn"
  consider "h = t" | ?w | n m where "?hn = Some n" "?tn = Some m" "m \<le> n"
      "known_canonical c t" "known_canonical c h"
    using assms(3,4) by (auto simp: is_ancestor_def Let_def not_less split: if_splits option.splits)
  then show ?thesis
  proof cases
    case 2
    from ancestor_walk_sound [OF assms(1-3) this] show ?thesis by simp
  next
    case 3
    with known_canonical_number [of c h hs] known_canonical_number [of c t hs]
    have "canonical_at c n = Some h" "canonical_at c m = Some t" by auto
    with canonical_descent [OF assms(1) _ 3(3)] show ?thesis by (metis option.inject)
  qed simp
qed

lemma is_ancestor_complete:
  assumes "canonical_linked c" and "heights_ok hs c" and "t \<noteq> 0" and "k < 2048"
    and "(h, t) \<in> parent_rel hs c ^^ k"
  shows "is_ancestor hs c h t"
proof -
  have w: "ancestor_walk 2048 hs c t (number_of hs c t) h (number_of hs c h)"
    using ancestor_walk_complete [OF assms(1-3,5,4)] by simp
  then show ?thesis
    using heights_path [OF assms(2,3,5)]
    by (force simp: is_ancestor_def Let_def word_less_nat_alt word_le_nat_alt split: option.splits)
qed

text \<open>C10: ancestry queries are exact within their bound.  On a chain whose canonical table is linked
  and whose block numbers agree with the parent links, \<open>is_ancestor\<close> never claims an ancestor that is not
  reachable over parent links (through stored headers, built payloads, buffered blocks and genesis), and
  finds every ancestor that is fewer than 2048 links away, in spite of its shortcuts through the canonical
  table.\<close>

theorem is_ancestor_correct:
  assumes "canonical_linked c" and "heights_ok hs c" and "t \<noteq> 0"
  shows "(is_ancestor hs c h t \<longrightarrow> (h, t) \<in> (parent_rel hs c)\<^sup>*) \<and>
    (\<forall>k < 2048. (h, t) \<in> parent_rel hs c ^^ k \<longrightarrow> is_ancestor hs c h t)"
  using is_ancestor_sound [OF assms] is_ancestor_complete [OF assms] by blast

subsection \<open>The latest valid ancestor\<close>

definition invalid_step :: "(header \<Rightarrow> b256) \<Rightarrow> chain \<Rightarrow> (b256 \<times> b256) set" where
  "invalid_step hs c = {(x, y). is_invalid c x \<and> invalid_parent hs c x = Some y}"

text \<open>What a result \<open>a\<close> of the walk stands for, seen from the last block \<open>x\<close> the walk visited.\<close>

definition valid_at :: "(header \<Rightarrow> b256) \<Rightarrow> chain \<Rightarrow> b256 \<Rightarrow> b256 \<Rightarrow> bool" where
  "valid_at hs c x a \<longleftrightarrow>
     a = x \<and> \<not> is_invalid c a \<and>
       (has_block hs c a \<or> canonical_at c 0 = Some a \<or> a = 0 \<or> a = fst (head_block c)) \<or>
     (\<exists>n. canonical_at c n = Some a) \<and> (invalid_parent hs c x = Some a \<or> is_ancestor hs c x a)"

lemma settle_at_valid:
  "settle_at hs c x = Some a \<Longrightarrow> \<not> is_invalid c x \<Longrightarrow> valid_at hs c x a"
  by (auto simp: settle_at_def valid_at_def split: if_splits)

lemma canonical_shortcut_valid: "canonical_shortcut hs c x = Some a \<Longrightarrow> valid_at hs c x a"
  by (auto simp: canonical_shortcut_def valid_at_def split: option.splits if_splits)

lemma known_canonical_at: "known_canonical c a \<Longrightarrow> \<exists>n. canonical_at c n = Some a"
  by (auto simp: known_canonical_iff)

lemma valid_ancestor_walk_sound:
  "valid_ancestor_walk hs c visited x = Some a \<Longrightarrow>
     \<exists>y. (x, y) \<in> (invalid_step hs c)\<^sup>* \<and> valid_at hs c y a"
proof (induction hs c visited x rule: valid_ancestor_walk.induct)
  case (1 hs c visited x)
  note walk = 1(2) [unfolded valid_ancestor_walk.simps [of hs c visited x]]
  show ?case
  proof (cases "get_invalidation_reason c x = None")
    case True
    with walk settle_at_valid [of hs c x a] show ?thesis by (auto simp: is_invalid_def)
  next
    case inv: False
    show ?thesis
    proof (cases "canonical_shortcut hs c x")
      case (Some b)
      with walk inv canonical_shortcut_valid [of hs c x a] show ?thesis
        by (auto split: if_splits)
    next
      case None
      with walk inv obtain p where p: "invalid_parent hs c x = Some p" and v: "x \<notin> set visited"
        and px: "p \<noteq> x"
        by (auto split: if_splits option.splits)
      have step: "(x, p) \<in> invalid_step hs c"
        using p inv by (simp add: invalid_step_def is_invalid_def)
      show ?thesis
      proof (cases "known_canonical c p")
        case True
        with walk inv v None p px have "a = p" by (simp split: if_splits)
        with True p have "valid_at hs c x a"
          by (auto simp: valid_at_def dest: known_canonical_at)
        then show ?thesis by blast
      next
        case False
        with walk inv v None p px have "\<not> 1024 \<le> Suc (length visited)"
          and "valid_ancestor_walk hs c (x # visited) p = Some a"
          by (simp_all split: if_splits)
        with 1(1) [OF inv v None p px False] step show ?thesis
          by (meson converse_rtrancl_into_rtrancl)
      qed
    qed
  qed
qed

text \<open>The latest valid ancestor of a block is a sound answer.  It is reached from the block by
  following the recorded parents of known-invalid blocks only, and then it is either the first block on that
  way that is not known to be invalid (and is known to the node), or a block of the canonical chain that is the
  recorded parent or an ancestor of the last invalid block; or it is the block itself when that is canonical.
  In particular an answer that is itself known to be invalid can only be a canonical block.\<close>

theorem latest_valid_ancestor_sound:
  assumes "get_latest_valid_ancestor hs c h = Some a"
  shows "\<exists>x. (h, x) \<in> (invalid_step hs c)\<^sup>* \<and> (valid_at hs c x a \<or> a = h \<and> known_canonical c h \<or> a = 0 \<and> h = 0)"
proof -
  consider "h = 0" "a = 0" | "known_canonical c h" "a = h"
    | "\<not> is_invalid c h" "a = h" "has_block hs c h \<or> canonical_at c 0 = Some h \<or> h = fst (head_block c)"
    | "valid_ancestor_walk hs c [] h = Some a"
    using assms unfolding get_latest_valid_ancestor_def is_invalid_def by (metis option.inject)
  then show ?thesis
  proof cases
    case 3
    then have "valid_at hs c h a" by (auto simp: valid_at_def)
    then show ?thesis by blast
  next
    case 4
    from valid_ancestor_walk_sound [OF this] show ?thesis by blast
  qed auto
qed

lemma invalid_step_fun: "(x, y) \<in> invalid_step hs c \<Longrightarrow> (x, z) \<in> invalid_step hs c \<Longrightarrow> y = z"
  by (simp add: invalid_step_def)

lemma invalid_dist_unique:
  assumes "\<not> is_invalid c t"
  shows "(x, t) \<in> invalid_step hs c ^^ k \<Longrightarrow> (x, t) \<in> invalid_step hs c ^^ k' \<Longrightarrow> k = k'"
proof (induction k arbitrary: x k')
  case 0
  then have "x = t" by simp
  with 0 assms show ?case
    by (cases k') (auto dest!: relpow_Suc_D2 simp del: relpow.simps simp: invalid_step_def)
next
  case (Suc k)
  from Suc.prems(1) obtain y where y: "(x, y) \<in> invalid_step hs c" "(y, t) \<in> invalid_step hs c ^^ k"
    by (meson relpow_Suc_D2)
  with assms Suc.prems(2) obtain i where k': "k' = Suc i"
    by (cases k') (auto simp: invalid_step_def)
  with Suc.prems(2) obtain z where "(x, z) \<in> invalid_step hs c" "(z, t) \<in> invalid_step hs c ^^ i"
    by (meson relpow_Suc_D2)
  with y Suc.IH [OF y(2)] show ?case
    using invalid_step_fun k' by blast
qed

lemma valid_ancestor_walk_live:
  assumes "\<not> is_invalid c t" and "settle_at hs c t \<noteq> None"
  shows "(x, t) \<in> invalid_step hs c ^^ k \<Longrightarrow> length visited + k \<le> 1023 \<Longrightarrow>
    (\<forall>v \<in> set visited. \<exists>k' > k. (v, t) \<in> invalid_step hs c ^^ k') \<Longrightarrow>
    valid_ancestor_walk hs c visited x \<noteq> None"
proof (induction k arbitrary: x visited)
  case 0
  with assms show ?case
    by (subst valid_ancestor_walk.simps) (simp add: is_invalid_def)
next
  case (Suc k)
  from Suc.prems(1) obtain p where step: "(x, p) \<in> invalid_step hs c"
    and path: "(p, t) \<in> invalid_step hs c ^^ k"
    by (meson relpow_Suc_D2)
  then have inv: "get_invalidation_reason c x \<noteq> None" and p: "invalid_parent hs c x = Some p"
    by (simp_all add: invalid_step_def is_invalid_def)
  have "x \<notin> set visited"
    using Suc.prems(1,3) invalid_dist_unique [OF assms(1)] by (metis less_irrefl)
  moreover have "p \<noteq> x"
    using path Suc.prems(1) invalid_dist_unique [OF assms(1)] by (metis n_not_Suc_n)
  moreover have "valid_ancestor_walk hs c (x # visited) p \<noteq> None"
  proof (rule Suc.IH [OF path])
    show "length (x # visited) + k \<le> 1023" using Suc.prems(2) by simp
    show "\<forall>v \<in> set (x # visited). \<exists>k' > k. (v, t) \<in> invalid_step hs c ^^ k'"
      using Suc.prems(1,3) by (metis Suc_lessD lessI set_ConsD)
  qed
  ultimately show ?case
    using inv p Suc.prems(2)
    by (subst valid_ancestor_walk.simps) (auto split: option.splits)
qed

text \<open>The search for the latest valid ancestor succeeds within its limit of 1024: when following the
  recorded parents of invalid blocks for fewer than 1024 steps leads to a block that is not invalid and is
  known (or is the genesis block or the zero hash), the search returns an answer; neither the cycle check nor the
  limit cuts it off.\<close>

theorem latest_valid_ancestor_found:
  assumes "(h, t) \<in> invalid_step hs c ^^ k" and "k < 1024" and "\<not> is_invalid c t"
    and "has_block hs c t \<or> canonical_at c 0 = Some t \<or> t = 0"
  shows "get_latest_valid_ancestor hs c h \<noteq> None"
proof -
  have "settle_at hs c t \<noteq> None"
    using assms(4) by (auto simp: settle_at_def)
  from valid_ancestor_walk_live [OF assms(3) this assms(1), of "[]"] assms(2) show ?thesis
    by (auto simp: get_latest_valid_ancestor_def)
qed

subsection \<open>Canonical state survives a restart\<close>

lemma update_forkchoice_ok:
  assumes "update_forkchoice head safe finalized s = (Inr (), s')"
  shows "db_opens (s_db s) TForkchoice" "s' = s\<lparr>s_db := (s_db s)\<lparr>t_forkchoice :=
    insert_opt ''finalized'' finalized (insert_opt ''safe'' safe (tbl_insert ''head'' head (t_forkchoice (s_db s))))\<rparr>\<rparr>"
  using assms by (auto simp: update_forkchoice_def with_write_Inr)

text \<open>A fork choice that was accepted survives a restart.  When \<open>update_state\<close> changed the state and
  reported success, and the head number is the one stored for the head block (or both are zero), rebuilding
  the canonical state from the database gives exactly the state in memory.\<close>

theorem canonical_state_restart:
  assumes "update_state st n c = (Inr (), c')" and "ch_fc c \<noteq> st \<or> ch_number c \<noteq> n"
    and "if fc_head st = 0 then n = 0 else block_number (fc_head st) (ch_db c) = Inr (Some n)"
  shows "canonical_new (ch_db c') = get_state c' \<and> get_state c' = (st, n)"
proof -
  obtain s' where s': "update_forkchoice (fc_head st) (Some (fc_safe st)) (Some (fc_finalized st)) (ch_store c) = (Inr (), s')"
    and c': "c' = c\<lparr>ch_fc := st, ch_number := n, ch_store := s'\<rparr>"
  proof -
    obtain r s' where r: "update_forkchoice (fc_head st) (Some (fc_safe st)) (Some (fc_finalized st)) (ch_store c) = (r, s')"
      by (cases "update_forkchoice (fc_head st) (Some (fc_safe st)) (Some (fc_finalized st)) (ch_store c)")
    have "\<not> (ch_fc c = st \<and> ch_number c = n)" using assms(2) by blast
    with assms(1) r have "r = Inr ()" "c' = c\<lparr>ch_fc := st, ch_number := n, ch_store := s'\<rparr>"
      by (simp_all add: update_state_def persist_forkchoice_def on_store_def)
    with r that show ?thesis by simp
  qed
  note u = update_forkchoice_ok [OF s']
  have "ok_flat (forkchoice ''head'' (s_db s')) = Some (fc_head st)"
    "ok_flat (forkchoice ''safe'' (s_db s')) = Some (fc_safe st)"
    "ok_flat (forkchoice ''finalized'' (s_db s')) = Some (fc_finalized st)"
    "block_number h (s_db s') = block_number h (ch_db c)" for h
    using u(1) by (simp_all add: u(2) forkchoice_def read_tbl_def insert_opt_def block_number_def)
  then show ?thesis
    using assms(3) by (auto simp: canonical_new_def stored_or_zero_def get_state_def c' Let_def split: if_splits)
qed

subsection \<open>Payload status\<close>

text \<open>The status reported for a head block never contradicts what is known about it: a block is
  reported valid, with itself as the latest valid hash, iff it is stored or built and not marked invalid; it
  is reported invalid iff it is marked invalid, and then the reported latest valid hash is the one found by the
  search; every other block is reported as syncing, with no latest valid hash.\<close>

lemma payload_status_exact:
  "(ps_status (determine_payload_status hs c h) = Valid \<longleftrightarrow>
      \<not> is_invalid c h \<and> (stored_header (ch_db c) h \<noteq> None \<or> get_payload_by_block_hash hs h (ch_db c) \<noteq> None)) \<and>
   ((\<exists>e. ps_status (determine_payload_status hs c h) = Invalid e) \<longleftrightarrow> is_invalid c h) \<and>
   ps_latest_valid_hash (determine_payload_status hs c h) =
     (if is_invalid c h then get_latest_valid_ancestor hs c h
      else if ps_status (determine_payload_status hs c h) = Valid then Some h else None)"
  by (auto simp: determine_payload_status_def)

subsection \<open>Witnesses\<close>

text \<open>A chain with two canonical blocks (hashes 1 and 2), a buffered block (3) on top of them and an
  invalid block (4) above that.\<close>

abbreviation sample_header :: "u64 \<Rightarrow> header" where
  "sample_header n \<equiv> devnet_header n (100 + n) 21000 900 0"

definition sample_chain :: chain where
  "sample_chain = \<lparr>ch_store = new_provider (empty_db\<lparr>
       t_headers := [(1, sample_header 0), (2, sample_header 1)], t_header_numbers := [(1, 0), (2, 1)],
       t_canonical_heads := [(0, 1), (1, 2)]\<rparr>),
     ch_tree = \<lparr>bt_blocks = [3 \<mapsto> \<lparr>b_header = sample_header 2,
         b_body = \<lparr>b_transactions = [], b_ommers = [], b_withdrawals = None\<rparr>\<rparr>],
       bt_children = [2 \<mapsto> [3]], bt_invalid = [4 \<mapsto> (3, Hard)]\<rparr>,
     ch_fc = \<lparr>fc_head = 2, fc_safe = 1, fc_finalized = 1\<rparr>, ch_number = 1, ch_sync = SyncNone\<rparr>"

lemma sample_chain_reads:
  "stored_header (ch_db sample_chain) h = (if h = 1 then Some (sample_header 0)
     else if h = 2 then Some (sample_header 1) else None)"
  "block_number h (ch_db sample_chain) = Inr (if h = 1 then Some 0 else if h = 2 then Some 1 else None)"
  "canonical_at sample_chain n = (if n = 0 then Some 1 else if n = 1 then Some 2 else None)"
  "payload_header sample_hash (ch_db sample_chain) h = None"
  "get_payload_by_block_hash sample_hash h (ch_db sample_chain) = None"
  "tree_header (ch_tree sample_chain) h = (if h = 3 then Some (sample_header 2) else None)"
  by (auto simp: stored_header_def header_def block_number_def canonical_at_def block_hash_def
      payload_header_def get_payload_by_block_hash_def tree_header_def get_block_def read_tbl_def
      sample_chain_def new_provider_def empty_db_def tbl_get_def tbl_empty_def tbl_iter_def)

lemma sample_chain_parent:
  "parent_info sample_hash sample_chain x =
     (if x = 1 then Some (0, 0) else if x = 2 then Some (1, 0) else if x = 3 then Some (2, 1) else None)"
  by (auto simp: parent_info_def sample_chain_reads devnet_header_def saturating_sub_def)

lemma sample_chain_number:
  "number_of sample_hash sample_chain x =
     (if x = 1 then Some 0 else if x = 2 then Some 1 else if x = 3 then Some 2 else None)"
  by (auto simp: number_of_def sample_chain_reads devnet_header_def)

lemma sample_chain_linked: "canonical_linked sample_chain"
  by (auto simp: canonical_linked_def sample_chain_reads devnet_header_def split: if_splits)

lemma sample_chain_heights: "heights_ok sample_hash sample_chain"
  by (auto simp: heights_ok_def sample_chain_parent sample_chain_number split: if_splits)

theorem is_ancestor_correct_witness: "is_ancestor sample_hash sample_chain 3 1"
proof -
  have "(3, 2) \<in> parent_rel sample_hash sample_chain" "(2, 1) \<in> parent_rel sample_hash sample_chain"
    by (auto simp: parent_rel_def sample_chain_parent)
  then have "(3, 1) \<in> parent_rel sample_hash sample_chain ^^ 2"
    by (auto simp: numeral_2_eq_2)
  moreover have "(2 :: nat) < 2048" by simp
  ultimately show ?thesis
    using is_ancestor_correct [OF sample_chain_linked sample_chain_heights one_neq_zero, of 3] by blast
qed

lemma sample_chain_invalid: "is_invalid sample_chain h \<longleftrightarrow> h = 4"
  "invalid_parent sample_hash sample_chain 4 = Some 3"
  by (auto simp: is_invalid_def get_invalidation_reason_def tree_invalidation_reason_def sample_chain_def
      invalid_parent_def get_invalid_parent_def)

lemma sample_chain_step: "(4, 3) \<in> invalid_step sample_hash sample_chain ^^ 1"
  by (simp add: invalid_step_def sample_chain_invalid)

lemma sample_chain_has: "has_block sample_hash sample_chain 3"
  by (simp add: has_block_def contains_block_def sample_chain_def)

theorem latest_valid_ancestor_found_witness:
  "get_latest_valid_ancestor sample_hash sample_chain 4 \<noteq> None"
  using latest_valid_ancestor_found [OF sample_chain_step] sample_chain_has
  by (simp add: sample_chain_invalid)

theorem latest_valid_ancestor_sound_witness:
  "\<exists>a x. get_latest_valid_ancestor sample_hash sample_chain 2 = Some a \<and>
     (2, x) \<in> (invalid_step sample_hash sample_chain)\<^sup>* \<and>
     (valid_at sample_hash sample_chain x a \<or> a = 2 \<and> known_canonical sample_chain 2)"
proof -
  have "known_canonical sample_chain 2"
    by (auto simp: known_canonical_iff sample_chain_reads)
  then have "get_latest_valid_ancestor sample_hash sample_chain 2 = Some 2"
    by (simp add: get_latest_valid_ancestor_def)
  from latest_valid_ancestor_sound [OF this] this show ?thesis by auto
qed

theorem canonical_state_restart_witness:
  "\<exists>c'. update_state \<lparr>fc_head = 1, fc_safe = 1, fc_finalized = 1\<rparr> 0 sample_chain = (Inr (), c') \<and>
     canonical_new (ch_db c') = get_state c'"
proof -
  let ?st = "\<lparr>fc_head = 1, fc_safe = 1, fc_finalized = 1\<rparr>"
  have d: "ch_fc sample_chain \<noteq> ?st \<or> ch_number sample_chain \<noteq> 0"
    by (simp add: sample_chain_def)
  have "\<exists>s'. update_forkchoice 1 (Some 1) (Some 1) (ch_store sample_chain) = (Inr (), s')"
    by (simp add: update_forkchoice_def with_write_Inr sample_chain_def empty_db_def)
  then obtain c' where c': "update_state ?st 0 sample_chain = (Inr (), c')"
    using d by (auto simp: update_state_def persist_forkchoice_def on_store_def)
  from canonical_state_restart [OF c' d] show ?thesis
    using c' by (simp add: sample_chain_reads)
qed

subsection \<open>Storage operations seen from the chain\<close>

lemma on_store_Inr:
  "on_store m c = (Inr x, c') \<longleftrightarrow> (\<exists>s'. m (ch_store c) = (Inr x, s') \<and> c' = c\<lparr>ch_store := s'\<rparr>)"
  by (auto simp: on_store_def split: prod.splits)

lemma frame_on_store [intro]: "frame f m \<Longrightarrow> frame (\<lambda>c. f (ch_store c)) (on_store m)"
  by (auto simp: frame_def on_store_def split: prod.splits) (metis snd_conv)

end
