(* ===== verification/Reorg.thy ===== *)
theory Reorg
  imports Chain
begin

section \<open>Reorganisations\<close>

text \<open>
  \<^verbatim>\<open>wasix_eth_core/src/engine/reorg_manager.rs\<close>, \<open>ReorgHandler\<close>.  The walk back from a new
  head is a loop with no bound of its own: it is a \<open>partial_function\<close>, and \<open>resolve_reorg_total\<close> shows
  when it ends.  \<open>dec_acc\<close> stands for \<open>TrieAccount::decode\<close>.
\<close>

subsection \<open>Finding the common ancestor\<close>

definition marked_canonical :: "chain \<Rightarrow> b256 \<Rightarrow> bool" where
  "marked_canonical c hash =
     (case ok_flat (block_number hash (ch_db c)) of None \<Rightarrow> False
      | Some number \<Rightarrow> (case ok_flat (block_hash number (ch_db c)) of None \<Rightarrow> False
         | Some canonical_hash \<Rightarrow> canonical_hash = hash))"

text \<open>The walk: the blocks collected so far, and the common ancestor if one was found.\<close>

partial_function (option) reorg_walk ::
  "(header \<Rightarrow> b256) \<Rightarrow> chain \<Rightarrow> b256 \<Rightarrow> block list \<Rightarrow> b256 \<Rightarrow> (storage_error + block list \<times> b256 option) option" where
  "reorg_walk hs c old_head collected current =
     (if current = 0 then Some (Inr (collected, None))
      else if current = old_head then Some (Inr (collected, Some old_head))
      else if marked_canonical c current then Some (Inr (collected, Some current))
      else case stored_header (ch_db c) current of
          Some hdr \<Rightarrow>
            (case ok_flat (block_by_hash hs current (ch_db c)) of
               Some b \<Rightarrow> reorg_walk hs c old_head (collected @ [b]) (h_parent_hash hdr)
             | None \<Rightarrow> (case get_payload_by_block_hash hs current (ch_db c) of
                 Some p \<Rightarrow> reorg_walk hs c old_head (collected @ [fst p]) (h_parent_hash hdr)
               | None \<Rightarrow> Some (Inl (BlockDataMissing current))))
        | None \<Rightarrow> (case get_payload_by_block_hash hs current (ch_db c) of
            Some p \<Rightarrow> reorg_walk hs c old_head (collected @ [fst p]) (h_parent_hash (b_header (fst p)))
          | None \<Rightarrow> Some (Inr (collected, None))))"

definition reorg_context_of :: "b256 \<Rightarrow> b256 \<Rightarrow> block list \<times> b256 option \<Rightarrow> reorg_context" where
  "reorg_context_of old_head new_head = (\<lambda>(blocks, found).
     (let ancestor = unwrap_or found 0 in
      if found \<noteq> None \<and> ancestor = new_head
      then \<lparr>common_ancestor_hash = ancestor, new_canonical_blocks = [], is_reorg = False\<rparr>
      else if found \<noteq> None \<and> ancestor = old_head
      then \<lparr>common_ancestor_hash = ancestor, new_canonical_blocks = blocks, is_reorg = False\<rparr>
      else \<lparr>common_ancestor_hash = ancestor, new_canonical_blocks = blocks,
             is_reorg = (found \<noteq> None \<and> old_head \<noteq> ancestor)\<rparr>))"

definition resolve_reorg ::
  "(header \<Rightarrow> b256) \<Rightarrow> chain \<Rightarrow> b256 \<Rightarrow> b256 \<Rightarrow> (storage_error + reorg_context) option" where
  "resolve_reorg hs c old_head new_head =
     map_option (\<lambda>r. rbind r (\<lambda>w. Inr (reorg_context_of old_head new_head w)))
       (reorg_walk hs c old_head [] new_head)"

subsection \<open>Marking a branch canonical\<close>

definition promote_payload :: "(header \<Rightarrow> b256) \<Rightarrow> b256 \<Rightarrow> unit chain_act" where
  "promote_payload hs hash c =
     (if ok_flat (block_body_by_hash hash (ch_db c)) \<noteq> None then ret () c
      else case get_payload_by_block_hash hs hash (ch_db c) of
          None \<Rightarrow> ret () c
        | Some (full_block, receipts, metas, bundle) \<Rightarrow>
            sseq (on_store (insert_block hs full_block receipts metas))
                 (on_store (remove_payload_by_block_hash hs hash)) c)"

definition repair_td :: "header \<Rightarrow> b256 \<Rightarrow> unit chain_act" where
  "repair_td hdr hash c =
     (case ok_flat (header_td (h_parent_hash hdr) (ch_db c)) of
        None \<Rightarrow> ret () c
      | Some ptd \<Rightarrow>
          let expected_td = ptd + h_difficulty hdr in
          if ok_flat (header_td hash (ch_db c)) \<noteq> Some expected_td
          then on_store (insert_header_td hash expected_td) c else ret () c)"

definition mark_block_canonical :: "(header \<Rightarrow> b256) \<Rightarrow> block \<Rightarrow> unit chain_act" where
  "mark_block_canonical hs b =
     (let hash = hs (b_header b); number = h_number (b_header b) in
      sseq (promote_payload hs hash)
     (sseq (on_store (set_canonical number hash))
     (sseq (on_store (insert_header_number hash number))
     (sseq (on_store (insert_block_hash hash number))
     (sseq (repair_td (b_header b) hash)
           (for_each (List.enumerate 0 (b_transactions (b_body b)))
              (\<lambda>(i, t). on_store (insert_transaction_lookup (tx_hash t) hash (of_nat i)))))))))"

definition mark_branch_canonical :: "(header \<Rightarrow> b256) \<Rightarrow> block list \<Rightarrow> unit chain_act" where
  "mark_branch_canonical hs blocks = for_each (rev blocks) (mark_block_canonical hs)"

subsection \<open>Reverting to a height\<close>

definition revert_account :: "(bytes \<Rightarrow> trie_account option) \<Rightarrow> address \<times> bytes option \<Rightarrow> unit chain_act" where
  "revert_account dec_acc = (\<lambda>(addr, old_state).
     case old_state of
       Some st \<Rightarrow> (case dec_acc st of
           None \<Rightarrow> fail (DecodeError addr)
         | Some acc \<Rightarrow> sseq (on_store (update_account addr acc)) (on_store (update_plain_state addr st)))
     | None \<Rightarrow> sseq (on_store (remove_account addr)) (on_store (remove_plain_state addr)))"

definition revert_slot :: "address \<times> b256 \<times> u256 \<Rightarrow> unit chain_act" where
  "revert_slot = (\<lambda>(addr, slot, old_value). on_store (update_storage addr slot old_value))"

definition drop_receipt_metas :: "u64 \<Rightarrow> unit chain_act" where
  "drop_receipt_metas h =
     sbind (reads (\<lambda>c. block_hash h (ch_db c))) (\<lambda>bh.
       case bh of None \<Rightarrow> ret ()
       | Some hash \<Rightarrow> sbind (reads (\<lambda>c. block_body_by_hash hash (ch_db c))) (\<lambda>b.
           case b of None \<Rightarrow> ret ()
           | Some bd \<Rightarrow> for_each [0 ..< length (b_transactions bd)]
               (\<lambda>i. ignore_err (on_store (remove_receipt_meta hash (of_nat i))))))"

definition revert_block :: "(bytes \<Rightarrow> trie_account option) \<Rightarrow> u64 \<Rightarrow> unit chain_act" where
  "revert_block dec_acc h =
     sbind (reads (\<lambda>c. account_change_set h (ch_db c))) (\<lambda>acs.
     sseq (for_each (unwrap_or acs []) (revert_account dec_acc))
    (sbind (reads (\<lambda>c. storage_change_set h (ch_db c))) (\<lambda>scs.
     sseq (for_each (unwrap_or scs []) revert_slot)
    (sseq (on_store (remove_change_set h))
    (sseq (drop_receipt_metas h)
          (on_store (remove_canonical h)))))))"

definition revert_to_height :: "(bytes \<Rightarrow> trie_account option) \<Rightarrow> u64 \<Rightarrow> unit chain_act" where
  "revert_to_height dec_acc height c0 =
     sseq (for_each (rev (inclusive_range (height + 1) (snd (get_head c0)))) (revert_block dec_acc))
    (sbind (reads (\<lambda>c. rbind (block_hash height (ch_db c)) (\<lambda>h. ok_or h (BlockHashNotFound height))))
      (\<lambda>new_head_hash.
     sseq (update_head new_head_hash height)
          (\<lambda>c. (Inr (), c\<lparr>ch_store := clear_tracking_inherent (ch_store c)\<rparr>)))) c0"

subsection \<open>The walk back ends and finds the branch\<close>

definition known_header :: "(header \<Rightarrow> b256) \<Rightarrow> chain \<Rightarrow> b256 \<Rightarrow> header option" where
  "known_header hs c x = or_else (stored_header (ch_db c) x) (payload_header hs (ch_db c) x)"

definition numbers_decrease :: "(header \<Rightarrow> b256) \<Rightarrow> chain \<Rightarrow> bool" where
  "numbers_decrease hs c \<longleftrightarrow> (\<forall>x hdr hdr'. known_header hs c x = Some hdr \<longrightarrow>
     known_header hs c (h_parent_hash hdr) = Some hdr' \<longrightarrow> h_number hdr' < h_number hdr)"

definition headers_keyed :: "(header \<Rightarrow> b256) \<Rightarrow> chain \<Rightarrow> bool" where
  "headers_keyed hs c \<longleftrightarrow> (\<forall>x hdr. stored_header (ch_db c) x = Some hdr \<longrightarrow> hs hdr = x)"

fun reorg_path :: "(header \<Rightarrow> b256) \<Rightarrow> chain \<Rightarrow> b256 \<Rightarrow> b256 list \<Rightarrow> b256 \<Rightarrow> bool" where
  "reorg_path hs c x [] e = (x = e)"
| "reorg_path hs c x (h # hashes) e =
     (x = h \<and> (case known_header hs c x of None \<Rightarrow> False
        | Some hdr \<Rightarrow> reorg_path hs c (h_parent_hash hdr) hashes e))"

lemma payload_header_Some:
  "get_payload_by_block_hash hs x d = Some p \<Longrightarrow> payload_header hs d x = Some (b_header (fst p))"
  by (simp add: payload_header_def)

lemma payload_hash: "get_payload_by_block_hash hs x d = Some p \<Longrightarrow> hs (b_header (fst p)) = x"
proof -
  assume "get_payload_by_block_hash hs x d = Some p"
  then obtain e where "find (\<lambda>e. hs (b_header (fst (snd e))) = x) (tbl_iter (t_payloads d)) = Some e"
    and "p = snd e"
    unfolding get_payload_by_block_hash_def map_option_eq_Some by (cases "db_opens d TPayloads") force+
  then show ?thesis
    unfolding find_Some_iff by blast
qed

lemma block_by_hash_header:
  "ok_flat (block_by_hash hs x d) = Some b \<Longrightarrow> stored_header d x = Some (b_header b)"
  by (auto simp: block_by_hash_def block_def stored_header_def ok_flat_Some_iff rbind_Inr_iff
      split: option.splits)

lemma reorg_walk_total:
  assumes "numbers_decrease hs c"
  shows "\<exists>r. reorg_walk hs c old acc x = Some r"
proof (induction "case known_header hs c x of None \<Rightarrow> 0 | Some h \<Rightarrow> Suc (unat (h_number h))"
    arbitrary: acc x rule: less_induct)
  case less
  have up: "\<exists>r. reorg_walk hs c old acc' (h_parent_hash hdr) = Some r"
    if "known_header hs c x = Some hdr" for acc' hdr
    using assms that unfolding numbers_decrease_def
    by (intro less) (auto simp: word_less_nat_alt split: option.splits)
  show ?case
  proof (cases "stored_header (ch_db c) x")
    case None
    show ?thesis
    proof (cases "get_payload_by_block_hash hs x (ch_db c)")
      case (Some p)
      with None have "known_header hs c x = Some (b_header (fst p))"
        by (simp add: known_header_def payload_header_Some)
      from up [OF this] None Some show ?thesis
        by (subst reorg_walk.simps) simp
    qed (use None in \<open>subst reorg_walk.simps, simp\<close>)
  next
    case (Some hdr)
    then have "known_header hs c x = Some hdr" by (simp add: known_header_def)
    from up [OF this] Some show ?thesis
      by (subst reorg_walk.simps) (simp split: option.split)
  qed
qed

text \<open>Resolving a reorganisation always ends.  When the number of every known block is above that of
  its parent, the unbounded walk back from the new head returns, with a context or with an error.\<close>

theorem resolve_reorg_total:
  assumes "numbers_decrease hs c"
  shows "\<exists>r. resolve_reorg hs c old_head new_head = Some r"
  using reorg_walk_total [OF assms] by (auto simp: resolve_reorg_def)

definition branch_end :: "(header \<Rightarrow> b256) \<Rightarrow> chain \<Rightarrow> b256 \<Rightarrow> b256 \<Rightarrow> b256 option \<Rightarrow> bool" where
  "branch_end hs c old e found \<longleftrightarrow>
     (if e \<noteq> 0 \<and> (e = old \<or> marked_canonical c e) then found = Some e
      else found = None \<and> (e = 0 \<or> known_header hs c e = None))"

definition fresh_block :: "chain \<Rightarrow> b256 \<Rightarrow> b256 \<Rightarrow> bool" where
  "fresh_block c old h \<longleftrightarrow> h \<noteq> 0 \<and> h \<noteq> old \<and> \<not> marked_canonical c h"

text \<open>One unfolding of the walk, as a case distinction.\<close>

lemma reorg_walk_cases:
  assumes "reorg_walk hs c old acc x = Some (Inr (bs, found))" and "headers_keyed hs c"
  obtains (stop) "bs = acc" "branch_end hs c old x found"
  | (step) b hdr where "fresh_block c old x" "known_header hs c x = Some hdr" "hs (b_header b) = x"
      "reorg_walk hs c old (acc @ [b]) (h_parent_hash hdr) = Some (Inr (bs, found))"
proof (cases "fresh_block c old x")
  case False
  then show ?thesis
    using assms(1) stop by (subst (asm) reorg_walk.simps) (auto simp: fresh_block_def branch_end_def split: if_splits)
next
  case fresh: True
  show ?thesis
  proof (cases "stored_header (ch_db c) x")
    case (Some hdr)
    then have k: "known_header hs c x = Some hdr" by (simp add: known_header_def)
    show ?thesis
    proof (cases "ok_flat (block_by_hash hs x (ch_db c))")
      case None
      with fresh Some assms(1) obtain p where p: "get_payload_by_block_hash hs x (ch_db c) = Some p"
        and "reorg_walk hs c old (acc @ [fst p]) (h_parent_hash hdr) = Some (Inr (bs, found))"
        by (subst (asm) reorg_walk.simps) (auto simp: fresh_block_def split: option.splits)
      with fresh k payload_hash [OF p] step show ?thesis by blast
    next
      case (Some b)
      with fresh \<open>stored_header (ch_db c) x = Some hdr\<close> assms(1)
      have "reorg_walk hs c old (acc @ [b]) (h_parent_hash hdr) = Some (Inr (bs, found))"
        by (subst (asm) reorg_walk.simps) (simp add: fresh_block_def)
      moreover have "hs (b_header b) = x"
        using block_by_hash_header [OF Some] assms(2) by (auto simp: headers_keyed_def)
      ultimately show ?thesis using fresh k step by blast
    qed
  next
    case None
    show ?thesis
    proof (cases "get_payload_by_block_hash hs x (ch_db c)")
      case None
      with fresh \<open>stored_header (ch_db c) x = None\<close> assms(1) show ?thesis
        by (subst (asm) reorg_walk.simps, intro stop)
          (auto simp: fresh_block_def branch_end_def known_header_def payload_header_def)
    next
      case (Some p)
      with fresh \<open>stored_header (ch_db c) x = None\<close> assms(1)
      have "reorg_walk hs c old (acc @ [fst p]) (h_parent_hash (b_header (fst p))) = Some (Inr (bs, found))"
        by (subst (asm) reorg_walk.simps) (simp add: fresh_block_def)
      moreover have "known_header hs c x = Some (b_header (fst p))"
        using Some None by (simp add: known_header_def payload_header_Some)
      ultimately show ?thesis using fresh payload_hash [OF Some] step by blast
    qed
  qed
qed

lemma reorg_walk_branch:
  assumes "headers_keyed hs c" and "numbers_decrease hs c"
    and "reorg_walk hs c old acc x = Some (Inr (bs, found))"
  shows "\<exists>bs' e. bs = acc @ bs' \<and> reorg_path hs c x (map (\<lambda>b. hs (b_header b)) bs') e \<and>
      (\<forall>b \<in> set bs'. fresh_block c old (hs (b_header b))) \<and> branch_end hs c old e found"
  using assms(3)
proof (induction "case known_header hs c x of None \<Rightarrow> 0 | Some h \<Rightarrow> Suc (unat (h_number h))"
    arbitrary: acc x rule: less_induct)
  case less
  from less.prems assms(1) show ?case
  proof (cases rule: reorg_walk_cases)
    case stop
    then show ?thesis by (intro exI [of _ "[]"]) auto
  next
    case (step b hdr)
    have "(case known_header hs c (h_parent_hash hdr) of None \<Rightarrow> 0 | Some h \<Rightarrow> Suc (unat (h_number h))) <
        (case known_header hs c x of None \<Rightarrow> 0 | Some h \<Rightarrow> Suc (unat (h_number h)))"
      using assms(2) step(2) unfolding numbers_decrease_def
      by (auto simp: word_less_nat_alt split: option.splits)
    from less.hyps [OF this step(4)] obtain bs' e where "bs = (acc @ [b]) @ bs'"
      "reorg_path hs c (h_parent_hash hdr) (map (\<lambda>b. hs (b_header b)) bs') e"
      "\<forall>b \<in> set bs'. fresh_block c old (hs (b_header b))" "branch_end hs c old e found"
      by blast
    with step(1-3) show ?thesis
      by (intro exI [of _ "b # bs'"] exI [of _ e]) auto
  qed
qed

text \<open>A resolved reorganisation is the missing branch.  The blocks of the context are the blocks from
  the new head down, each the parent of the one before, none of them zero, canonical or the old head; they end
  just above \<open>e\<close>, the first block that is the old head or canonical, which is then the common ancestor, or
  (with ancestor zero) at the zero hash or an unknown block.  It is a reorganisation iff \<open>e\<close> is canonical
  and neither the old nor the new head.\<close>

theorem resolve_reorg_branch:
  assumes "headers_keyed hs c" and "numbers_decrease hs c"
    and "resolve_reorg hs c old_head new_head = Some (Inr ctx)"
  shows "\<exists>e. reorg_path hs c new_head (map (\<lambda>b. hs (b_header b)) (new_canonical_blocks ctx)) e \<and>
    (\<forall>b \<in> set (new_canonical_blocks ctx). fresh_block c old_head (hs (b_header b))) \<and>
    (if e \<noteq> 0 \<and> (e = old_head \<or> marked_canonical c e) then common_ancestor_hash ctx = e
     else common_ancestor_hash ctx = 0 \<and> (e = 0 \<or> known_header hs c e = None)) \<and>
    (is_reorg ctx \<longleftrightarrow> e \<noteq> 0 \<and> marked_canonical c e \<and> e \<noteq> old_head \<and> e \<noteq> new_head)"
proof -
  obtain bs found where w: "reorg_walk hs c old_head [] new_head = Some (Inr (bs, found))"
    and ctx: "ctx = reorg_context_of old_head new_head (bs, found)"
    using assms(3) by (auto simp: resolve_reorg_def rbind_Inr_iff)
  from reorg_walk_branch [OF assms(1,2) w] obtain e where
    p: "reorg_path hs c new_head (map (\<lambda>b. hs (b_header b)) bs) e"
    and f: "\<forall>b \<in> set bs. fresh_block c old_head (hs (b_header b))" and e: "branch_end hs c old_head e found"
    by auto
  have nil: "bs = []" if "found = Some e" "e = new_head"
  proof (cases bs)
    case (Cons b bs')
    with p f have "fresh_block c old_head new_head" by auto
    with e that show ?thesis by (auto simp: branch_end_def fresh_block_def split: if_splits)
  qed simp
  let ?C = "e \<noteq> 0 \<and> (e = old_head \<or> marked_canonical c e)"
  have fnd: "found = (if ?C then Some e else None)" and unk: "\<not> ?C \<Longrightarrow> e = 0 \<or> known_header hs c e = None"
    using e by (simp_all add: branch_end_def split: if_splits)
  have "new_canonical_blocks ctx = bs"
  proof (cases ?C)
    case True
    then have "found = Some e" using fnd by simp
    with nil show ?thesis by (auto simp: ctx reorg_context_of_def Let_def)
  qed (use fnd in \<open>auto simp: ctx reorg_context_of_def Let_def\<close>)
  moreover have "common_ancestor_hash ctx = (if ?C then e else 0)"
    using fnd by (cases ?C) (simp_all add: ctx reorg_context_of_def Let_def)
  moreover have "is_reorg ctx \<longleftrightarrow> e \<noteq> 0 \<and> marked_canonical c e \<and> e \<noteq> old_head \<and> e \<noteq> new_head"
    using fnd by (cases ?C) (auto simp: ctx reorg_context_of_def Let_def)
  ultimately show ?thesis using p f unk by (intro exI [of _ e]) simp
qed

subsection \<open>A marked branch is the canonical chain\<close>

lemmas frame_rules = frame_sseq frame_sbind frame_for_each frame_prod frame_option frame_ignore_err
  frame_basic frame_wtx_upd frame_open_table

lemma frame_wtx_insert_block_numbers:
  assumes "h \<noteq> hs (b_header b)"
  shows "frame (\<lambda>d. tbl_get (t_header_numbers d) h) (wtx_insert_block hs d0 b rs ms)"
  unfolding wtx_insert_block_def wtx_insert_header_def wtx_insert_block_body_def wtx_insert_body_tx_def
    wtx_insert_header_td_def wtx_insert_receipt_def wtx_insert_receipt_meta_def Let_def
  using assms by (intro frame_rules) simp_all

lemma frame_insert_block:
  "(\<And>d0. frame f (wtx_insert_block hs d0 b rs ms)) \<Longrightarrow> frame (\<lambda>s. f (s_db s)) (insert_block hs b rs ms)"
  using frame_with_write unfolding frame_def insert_block_def by metis

lemma frame_remove_payload:
  "(\<And>d g. f (t_payloads_update g d) = f d) \<Longrightarrow>
     frame (\<lambda>s. f (s_db s)) (remove_payload_by_block_hash hs hash)"
  unfolding remove_payload_by_block_hash_def by (intro frame_with_write frame_wtx_upd)

lemma frame_promote_payload:
  assumes "\<And>d0 b rs ms. hs (b_header b) = hash \<Longrightarrow> frame f (wtx_insert_block hs d0 b rs ms)"
    and "\<And>d g. f (t_payloads_update g d) = f d"
  shows "frame (\<lambda>c. f (ch_db c)) (promote_payload hs hash)"
  unfolding frame_def
proof
  fix c
  show "f (ch_db (snd (promote_payload hs hash c))) = f (ch_db c)"
  proof (cases "get_payload_by_block_hash hs hash (ch_db c)")
    case (Some p)
    obtain b rs ms bu where p: "p = (b, rs, ms, bu)" by (cases p)
    have "hs (b_header b) = hash"
      using payload_hash [OF Some] p by simp
    then have "frame (\<lambda>c. f (ch_db c)) (sseq (on_store (insert_block hs b rs ms))
        (on_store (remove_payload_by_block_hash hs hash)))"
      using assms by (intro frame_sseq frame_on_store frame_insert_block frame_remove_payload)
    then show ?thesis
      using Some p by (simp add: promote_payload_def frame_def)
  qed (simp add: promote_payload_def)
qed

lemma frame_repair_td:
  "(\<And>d g. f (t_header_td_update g d) = f d) \<Longrightarrow> frame (\<lambda>c. f (ch_db c)) (repair_td hdr hash)"
proof -
  assume f: "\<And>d g. f (t_header_td_update g d) = f d"
  have "frame (\<lambda>c. f (ch_db c)) (on_store (insert_header_td hash td))" for td
    unfolding insert_header_td_def using f by (intro frame_on_store frame_with_write frame_wtx_upd)
  then show ?thesis
    unfolding frame_def repair_td_def by (auto simp: Let_def split: option.splits)
qed

lemma frame_lookups:
  "(\<And>d g. f (t_transaction_lookup_update g d) = f d) \<Longrightarrow>
     frame (\<lambda>c. f (ch_db c)) (for_each es (\<lambda>(i, t). on_store (insert_transaction_lookup (tx_hash t) hash (of_nat i))))"
  unfolding insert_transaction_lookup_def
  by (intro frame_for_each frame_prod frame_on_store frame_with_write frame_wtx_upd)

lemma mark_block_tables:
  assumes "mark_block_canonical hs b c = (Inr (), c')"
  defines "hash \<equiv> hs (b_header b)" and "number \<equiv> h_number (b_header b)"
  shows "tbl_get (t_canonical_heads (ch_db c')) n =
      (if n = number then Some hash else tbl_get (t_canonical_heads (ch_db c)) n)"
    and "tbl_get (t_header_numbers (ch_db c')) h =
      (if h = hash then Some number else tbl_get (t_header_numbers (ch_db c)) h)"
    and "db_opens (ch_db c') = db_opens (ch_db c)"
    and "db_opens (ch_db c) TCanonicalHeads" "db_opens (ch_db c) THeaderNumbers"
proof -
  obtain c1 c2 c3 c4 c5 where
    1: "promote_payload hs hash c = (Inr (), c1)" and
    2: "on_store (set_canonical number hash) c1 = (Inr (), c2)" and
    3: "on_store (insert_header_number hash number) c2 = (Inr (), c3)" and
    4: "on_store (insert_block_hash hash number) c3 = (Inr (), c4)" and
    5: "repair_td (b_header b) hash c4 = (Inr (), c5)" and
    6: "for_each (List.enumerate 0 (b_transactions (b_body b)))
          (\<lambda>(i, t). on_store (insert_transaction_lookup (tx_hash t) hash (of_nat i))) c5 = (Inr (), c')"
    using assms(1) unfolding mark_block_canonical_def Let_def hash_def number_def sseq_Inr_iff by auto
  have e2: "ch_db c2 = (ch_db c1)\<lparr>t_canonical_heads := tbl_insert number hash (t_canonical_heads (ch_db c1))\<rparr>"
      "db_opens (ch_db c1) TCanonicalHeads"
    using 2 by (auto simp: on_store_Inr set_canonical_def with_write_Inr)
  have e3: "ch_db c3 = (ch_db c2)\<lparr>t_header_numbers := tbl_insert hash number (t_header_numbers (ch_db c2))\<rparr>"
      "db_opens (ch_db c2) THeaderNumbers"
    using 3 by (auto simp: on_store_Inr insert_header_number_def with_write_Inr)
  have e4: "ch_db c4 = (ch_db c3)\<lparr>t_header_numbers := tbl_insert hash number (t_header_numbers (ch_db c3))\<rparr>"
    using 4 by (auto simp: on_store_Inr insert_block_hash_def with_write_Inr)
  have o1: "db_opens (ch_db c1) = db_opens (ch_db c)"
    using frameD [OF frame_promote_payload [where f = db_opens] 1]
    by (simp add: frame_wtx_insert_block_opens)
  have h1: "t_canonical_heads (ch_db c1) = t_canonical_heads (ch_db c)"
    using frameD [OF frame_promote_payload [where f = t_canonical_heads] 1]
    by (simp add: frame_wtx_insert_block_canonical)
  have n1: "tbl_get (t_header_numbers (ch_db c1)) h = tbl_get (t_header_numbers (ch_db c)) h" if "h \<noteq> hash" for h
    using frameD [OF frame_promote_payload [where f = "\<lambda>d. tbl_get (t_header_numbers d) h"] 1] that
    by (simp add: frame_wtx_insert_block_numbers)
  have f5: "f (ch_db c') = f (ch_db c4)" if "\<And>d g. f (t_header_td_update g d) = f d"
    "\<And>d g. f (t_transaction_lookup_update g d) = f d" for f :: "db \<Rightarrow> 'z"
    using frameD [OF frame_repair_td [OF that(1)] 5] frameD [OF frame_lookups [OF that(2)] 6] by simp
  show "tbl_get (t_canonical_heads (ch_db c')) n =
      (if n = number then Some hash else tbl_get (t_canonical_heads (ch_db c)) n)"
    by (simp add: f5 [of t_canonical_heads] e4 e3(1) e2(1) h1)
  show "tbl_get (t_header_numbers (ch_db c')) h =
      (if h = hash then Some number else tbl_get (t_header_numbers (ch_db c)) h)"
    using n1 by (simp add: f5 [of t_header_numbers] e4 e3(1) e2(1))
  show "db_opens (ch_db c') = db_opens (ch_db c)"
    by (simp add: f5 [of db_opens] e4 e3(1) e2(1) o1)
  show "db_opens (ch_db c) TCanonicalHeads" "db_opens (ch_db c) THeaderNumbers"
    using e2 e3 o1 by simp_all
qed

lemma mark_blocks_tables:
  assumes "for_each xs (mark_block_canonical hs) c = (Inr (), c')"
    and "distinct (map (\<lambda>b. h_number (b_header b)) xs)" and "distinct (map (\<lambda>b. hs (b_header b)) xs)"
  shows "(\<forall>b \<in> set xs. tbl_get (t_canonical_heads (ch_db c')) (h_number (b_header b)) = Some (hs (b_header b)) \<and>
      tbl_get (t_header_numbers (ch_db c')) (hs (b_header b)) = Some (h_number (b_header b))) \<and>
    (\<forall>n. n \<notin> (\<lambda>b. h_number (b_header b)) ` set xs \<longrightarrow>
      tbl_get (t_canonical_heads (ch_db c')) n = tbl_get (t_canonical_heads (ch_db c)) n) \<and>
    (\<forall>h. h \<notin> (\<lambda>b. hs (b_header b)) ` set xs \<longrightarrow>
      tbl_get (t_header_numbers (ch_db c')) h = tbl_get (t_header_numbers (ch_db c)) h) \<and>
    db_opens (ch_db c') = db_opens (ch_db c) \<and>
    (xs \<noteq> [] \<longrightarrow> db_opens (ch_db c) TCanonicalHeads \<and> db_opens (ch_db c) THeaderNumbers)"
  using assms
proof (induction xs arbitrary: c)
  case (Cons b xs)
  then obtain c1 where m: "mark_block_canonical hs b c = (Inr (), c1)"
    and r: "for_each xs (mark_block_canonical hs) c1 = (Inr (), c')"
    by (auto simp: sseq_Inr_iff)
  note t = mark_block_tables [OF m]
  from Cons.IH [OF r] Cons.prems(2,3) t show ?case by auto
qed simp

text \<open>Marking a branch makes it the canonical chain.  After a successful \<open>mark_branch_canonical\<close> every
  block of the branch (distinct heights, distinct hashes) is the canonical block of its height and is reported
  canonical, and the canonical block of every other height is unchanged.\<close>

theorem mark_branch_canonical_heads:
  assumes "mark_branch_canonical hs blocks c = (Inr (), c')"
    and "distinct (map (\<lambda>b. h_number (b_header b)) blocks)" and "distinct (map (\<lambda>b. hs (b_header b)) blocks)"
  shows "(\<forall>b \<in> set blocks. block_hash (h_number (b_header b)) (ch_db c') = Inr (Some (hs (b_header b))) \<and>
      is_canonical (hs (b_header b)) (ch_db c') = Inr True) \<and>
    (\<forall>n. n \<notin> (\<lambda>b. h_number (b_header b)) ` set blocks \<longrightarrow> block_hash n (ch_db c') = block_hash n (ch_db c))"
proof -
  note t = mark_blocks_tables [OF assms(1) [unfolded mark_branch_canonical_def]]
  have "distinct (map (\<lambda>b. h_number (b_header b)) (rev blocks))"
    "distinct (map (\<lambda>b. hs (b_header b)) (rev blocks))"
    using assms(2,3) by (simp_all add: rev_map [symmetric])
  note t = t [OF this]
  have o: "db_opens (ch_db c') TCanonicalHeads" "db_opens (ch_db c') THeaderNumbers" if "blocks \<noteq> []"
    using t that by simp_all
  have "block_hash (h_number (b_header b)) (ch_db c') = Inr (Some (hs (b_header b)))"
      "block_number (hs (b_header b)) (ch_db c') = Inr (Some (h_number (b_header b)))"
    if b: "b \<in> set blocks" for b
    using t o b by (auto simp: block_hash_def block_number_def read_tbl_def)
  moreover have "block_hash n (ch_db c') = block_hash n (ch_db c)"
    if "n \<notin> (\<lambda>b. h_number (b_header b)) ` set blocks" for n
    using t that by (simp add: block_hash_def read_tbl_def)
  ultimately show ?thesis by (simp add: is_canonical_def)
qed

subsection \<open>Change sets are an undo log\<close>

text \<open>\<open>undo cs old new\<close>: the change set holds exactly the old values of the keys that changed.\<close>

definition acc_undo ::
  "(bytes \<Rightarrow> trie_account option) \<Rightarrow> (address \<times> bytes option) list \<Rightarrow> (address \<Rightarrow> trie_account option) \<Rightarrow>
   (address \<Rightarrow> trie_account option) \<Rightarrow> bool" where
  "acc_undo dec cs old new \<longleftrightarrow>
     (\<forall>(a, st) \<in> set cs. case st of None \<Rightarrow> old a = None | Some bs \<Rightarrow> old a = dec bs \<and> dec bs \<noteq> None) \<and>
     (\<forall>a. a \<notin> fst ` set cs \<longrightarrow> new a = old a)"

definition slot_undo ::
  "(address \<times> b256 \<times> u256) list \<Rightarrow> (address \<times> b256 \<Rightarrow> u256) \<Rightarrow> (address \<times> b256 \<Rightarrow> u256) \<Rightarrow> bool" where
  "slot_undo cs old new \<longleftrightarrow>
     (\<forall>(a, k, v) \<in> set cs. old (a, k) = v) \<and>
     (\<forall>a k. (a, k) \<notin> (\<lambda>(a, k, v). (a, k)) ` set cs \<longrightarrow> new (a, k) = old (a, k))"

abbreviation accs :: "chain \<Rightarrow> address \<Rightarrow> trie_account option" where
  "accs c \<equiv> tbl_get (t_accounts (ch_db c))"

definition slots :: "chain \<Rightarrow> address \<times> b256 \<Rightarrow> u256" where
  "slots c k = unwrap_or (tbl_get (t_storages (ch_db c)) k) 0"

text \<open>The rest of the state a revert reads or removes.\<close>

definition revert_rest :: "chain \<Rightarrow> _" where
  "revert_rest c = (t_account_change_sets (ch_db c), t_storage_change_sets (ch_db c),
     t_canonical_heads (ch_db c), ch_fc c, ch_number c)"

lemma revert_accounts:
  assumes "for_each cs (revert_account dec) c = (Inr (), c')"
    and "\<forall>(a, st) \<in> set cs. case st of None \<Rightarrow> old a = None | Some bs \<Rightarrow> old a = dec bs \<and> dec bs \<noteq> None"
  shows "(\<forall>a. accs c' a = (if a \<in> fst ` set cs then old a else accs c a)) \<and> slots c' = slots c \<and>
    revert_rest c' = revert_rest c"
  using assms
proof (induction cs arbitrary: c)
  case (Cons e cs)
  obtain a st where e: "e = (a, st)" by (cases e)
  from Cons.prems(1) obtain c1 where r: "revert_account dec e c = (Inr (), c1)"
    and rest: "for_each cs (revert_account dec) c1 = (Inr (), c')"
    by (auto simp: sseq_Inr_iff)
  have ok: "case st of None \<Rightarrow> old a = None | Some bs \<Rightarrow> old a = dec bs \<and> dec bs \<noteq> None"
    using Cons.prems(2) by (auto simp: e split: option.splits)
  have "accs c1 = (accs c)(a := old a) \<and> slots c1 = slots c \<and> revert_rest c1 = revert_rest c"
  proof (cases st)
    case None
    with r ok show ?thesis
      by (auto simp: e revert_account_def sseq_Inr_iff on_store_Inr remove_account_def remove_plain_state_def
          with_write_Inr with_write_then_Inr revert_rest_def slots_def fun_eq_iff touch_account_def)
  next
    case (Some bs)
    with ok obtain acc where "dec bs = Some acc" "old a = Some acc" by auto
    with r Some show ?thesis
      by (auto simp: e revert_account_def sseq_Inr_iff on_store_Inr update_account_def update_plain_state_def
          with_write_Inr with_write_then_Inr revert_rest_def slots_def fun_eq_iff touch_account_def)
  qed
  with Cons.IH [OF rest] Cons.prems(2) show ?case
    by (auto simp: e)
qed simp

lemma revert_slots:
  assumes "for_each cs revert_slot c = (Inr (), c')" and "\<forall>(a, k, v) \<in> set cs. old (a, k) = v"
  shows "(\<forall>k. slots c' k = (if k \<in> (\<lambda>(a, k, v). (a, k)) ` set cs then old k else slots c k)) \<and>
    accs c' = accs c \<and> revert_rest c' = revert_rest c"
  using assms
proof (induction cs arbitrary: c)
  case (Cons e cs)
  obtain a k v where e: "e = (a, k, v)" by (cases e)
  from Cons.prems(1) obtain c1 where r: "revert_slot e c = (Inr (), c1)"
    and rest: "for_each cs revert_slot c1 = (Inr (), c')"
    by (auto simp: sseq_Inr_iff)
  have "old (a, k) = v"
    using Cons.prems(2) by (simp add: e)
  then have "slots c1 = (slots c)((a, k) := old (a, k)) \<and> accs c1 = accs c \<and> revert_rest c1 = revert_rest c"
    using r by (auto simp: e revert_slot_def on_store_Inr update_storage_def with_write_then_Inr revert_rest_def
        slots_def fun_eq_iff touch_account_def touch_slot_def)
  with Cons.IH [OF rest] Cons.prems(2) show ?case
    by (auto simp: e)
qed simp

lemma frame_drop_receipt_metas:
  assumes "\<And>d g. f (t_receipts_meta_update g d) = f d"
  shows "frame (\<lambda>c. f (ch_db c)) (drop_receipt_metas h)"
  unfolding drop_receipt_metas_def remove_receipt_meta_def
  by (intro frame_sbind frame_basic frame_option frame_for_each frame_ignore_err frame_on_store
      frame_with_write frame_wtx_upd assms)

lemma frame_drop_receipt_metas_head:
  "frame (\<lambda>c. (ch_fc c, ch_number c)) (drop_receipt_metas h)"
proof -
  have "frame (\<lambda>c. (ch_fc c, ch_number c)) (on_store m)" for m :: "'a wr"
    by (auto simp: frame_def on_store_def split: prod.splits)
  then show ?thesis
    unfolding drop_receipt_metas_def
    by (intro frame_sbind frame_basic frame_option frame_for_each frame_ignore_err)
qed

lemma update_head_effect:
  assumes "update_head hash n c = (Inr (), c')"
  shows "get_head c' = (hash, n)" "\<exists>g. ch_db c' = t_forkchoice_update g (ch_db c)"
proof -
  show "get_head c' = (hash, n)"
    using assms by (auto simp: update_head_def persist_forkchoice_def on_store_Inr get_head_def Let_def split: if_splits)
  show "\<exists>g. ch_db c' = t_forkchoice_update g (ch_db c)"
  proof (cases "fc_head (ch_fc c) = hash \<and> ch_number c = n")
    case True
    with assms have "ch_db c' = t_forkchoice_update (\<lambda>t. t) (ch_db c)"
      by (simp add: update_head_def)
    then show ?thesis by blast
  next
    case False
    with assms show ?thesis
      unfolding update_head_def persist_forkchoice_def Let_def
      by (auto simp: on_store_Inr update_forkchoice_def with_write_Inr)
  qed
qed

definition change_sets_at :: "chain \<Rightarrow> u64 \<Rightarrow> (address \<times> bytes option) list \<times> (address \<times> b256 \<times> u256) list" where
  "change_sets_at c h = (unwrap_or (tbl_get (t_account_change_sets (ch_db c)) h) [],
     unwrap_or (tbl_get (t_storage_change_sets (ch_db c)) h) [])"

lemma revert_block_effect:
  assumes "revert_block dec h c = (Inr (), c')"
    and "acc_undo dec (fst (change_sets_at c h)) old_a (accs c)"
    and "slot_undo (snd (change_sets_at c h)) old_s (slots c)"
  shows "accs c' = old_a \<and> slots c' = old_s \<and>
    (\<forall>n. n \<noteq> h \<longrightarrow> change_sets_at c' n = change_sets_at c n) \<and>
    (\<forall>n. tbl_get (t_canonical_heads (ch_db c')) n =
      (if n = h then None else tbl_get (t_canonical_heads (ch_db c)) n)) \<and>
    ch_fc c' = ch_fc c \<and> ch_number c' = ch_number c"
proof -
  let ?ac = "fst (change_sets_at c h)" and ?sc = "snd (change_sets_at c h)"
  obtain c1 scs c2 c3 c4 where
    1: "for_each ?ac (revert_account dec) c = (Inr (), c1)" and
    scs: "storage_change_set h (ch_db c1) = Inr scs" and
    2: "for_each (unwrap_or scs []) revert_slot c1 = (Inr (), c2)" and
    3: "on_store (remove_change_set h) c2 = (Inr (), c3)" and
    4: "drop_receipt_metas h c3 = (Inr (), c4)" and
    5: "on_store (remove_canonical h) c4 = (Inr (), c')"
    using assms(1) unfolding revert_block_def sbind_Inr_iff sseq_Inr_iff
    by (auto simp: change_sets_at_def account_change_set_def read_tbl_def split: if_splits)
  have e1: "accs c1 a = (if a \<in> fst ` set ?ac then old_a a else accs c a)" "slots c1 = slots c"
      "revert_rest c1 = revert_rest c" for a
    using revert_accounts [OF 1] assms(2) unfolding acc_undo_def by blast+
  then have a1: "accs c1 = old_a"
    using assms(2) by (auto simp: acc_undo_def fun_eq_iff)
  have sc: "unwrap_or scs [] = ?sc"
    using scs e1(3) by (auto simp: storage_change_set_def read_tbl_def change_sets_at_def revert_rest_def
        split: if_splits)
  have e2: "slots c2 k = (if k \<in> (\<lambda>(a, k, v). (a, k)) ` set ?sc then old_s k else slots c1 k)"
      "accs c2 = accs c1" "revert_rest c2 = revert_rest c1" for k
    using revert_slots [OF 2] assms(3) unfolding slot_undo_def sc by blast+
  have s2: "slots c2 = old_s"
  proof
    fix k :: "address \<times> b256"
    show "slots c2 k = old_s k"
      using assms(3) e2(1) [of k] e1(2) unfolding slot_undo_def by (cases k) auto
  qed
  have e3: "accs c3 = accs c2" "slots c3 = slots c2" "n \<noteq> h \<Longrightarrow> change_sets_at c3 n = change_sets_at c2 n"
      "t_canonical_heads (ch_db c3) = t_canonical_heads (ch_db c2)" "ch_fc c3 = ch_fc c2" "ch_number c3 = ch_number c2" for n
    using 3 by (auto simp: on_store_Inr remove_change_set_def with_write_Inr sseq_Inr_iff slots_def
        change_sets_at_def fun_eq_iff)
  have e4: "accs c4 = accs c3" "slots c4 = slots c3" "change_sets_at c4 n = change_sets_at c3 n"
      "t_canonical_heads (ch_db c4) = t_canonical_heads (ch_db c3)" "ch_fc c4 = ch_fc c3" "ch_number c4 = ch_number c3" for n
    using frameD [OF frame_drop_receipt_metas [of t_accounts] 4] frameD [OF frame_drop_receipt_metas [of t_storages] 4]
      frameD [OF frame_drop_receipt_metas [of t_account_change_sets] 4]
      frameD [OF frame_drop_receipt_metas [of t_storage_change_sets] 4]
      frameD [OF frame_drop_receipt_metas [of t_canonical_heads] 4] frameD [OF frame_drop_receipt_metas_head 4]
    by (simp_all add: slots_def fun_eq_iff change_sets_at_def)
  have e5: "accs c' = accs c4" "slots c' = slots c4" "change_sets_at c' n = change_sets_at c4 n"
      "tbl_get (t_canonical_heads (ch_db c')) n = (if n = h then None else tbl_get (t_canonical_heads (ch_db c4)) n)"
      "ch_fc c' = ch_fc c4" "ch_number c' = ch_number c4" for n
    using 5 by (auto simp: on_store_Inr remove_canonical_def with_write_Inr slots_def change_sets_at_def fun_eq_iff)
  have r: "change_sets_at c2 n = change_sets_at c n" "t_canonical_heads (ch_db c2) = t_canonical_heads (ch_db c)"
      "ch_fc c2 = ch_fc c" "ch_number c2 = ch_number c" for n
    using e2(3) e1(3) by (simp_all add: revert_rest_def change_sets_at_def)
  show ?thesis
    using a1 s2 by (simp add: e5 e4 e3 e2(2) r)
qed

lemma revert_loop:
  assumes "for_each (map of_nat (rev [Suc m ..< Suc n])) (revert_block dec) c = (Inr (), c')"
    and "m \<le> n" and "n < 2 ^ 64" and "accs c = A n" and "slots c = S n"
    and "\<And>h. m < h \<Longrightarrow> h \<le> n \<Longrightarrow> acc_undo dec (fst (change_sets_at c (of_nat h))) (A (h - 1)) (A h)"
    and "\<And>h. m < h \<Longrightarrow> h \<le> n \<Longrightarrow> slot_undo (snd (change_sets_at c (of_nat h))) (S (h - 1)) (S h)"
  shows "accs c' = A m \<and> slots c' = S m \<and>
    (\<forall>h. tbl_get (t_canonical_heads (ch_db c')) h =
      (if m < unat h \<and> unat h \<le> n then None else tbl_get (t_canonical_heads (ch_db c)) h)) \<and>
    ch_fc c' = ch_fc c \<and> ch_number c' = ch_number c"
  using assms
proof (induction n arbitrary: c)
  case 0
  then show ?case by auto
next
  case (Suc n)
  show ?case
  proof (cases "m = Suc n")
    case True
    with Suc.prems show ?thesis by auto
  next
    case False
    then have m: "m \<le> n" using Suc.prems(2) by simp
    have "map of_nat (rev [Suc m ..< Suc (Suc n)]) = (of_nat (Suc n) :: u64) # map of_nat (rev [Suc m ..< Suc n])"
      using m by simp
    with Suc.prems(1) obtain c1 where b: "revert_block dec (of_nat (Suc n)) c = (Inr (), c1)"
      and rest: "for_each (map of_nat (rev [Suc m ..< Suc n])) (revert_block dec) c1 = (Inr (), c')"
      by (auto simp: sseq_Inr_iff)
    have "acc_undo dec (fst (change_sets_at c (of_nat (Suc n)))) (A n) (accs c)"
      "slot_undo (snd (change_sets_at c (of_nat (Suc n)))) (S n) (slots c)"
      using Suc.prems(4,5) Suc.prems(6,7) [of "Suc n"] m by simp_all
    note e = revert_block_effect [OF b this]
    have ne: "(of_nat h :: u64) \<noteq> of_nat (Suc n)" if "h \<le> n" for h
      using that Suc.prems(3) of_nat_index_inj [of h "Suc n"] by simp
    have cs: "change_sets_at c1 (of_nat h) = change_sets_at c (of_nat h)" if "h \<le> n" for h
      using e ne [OF that] by blast
    have "accs c' = A m \<and> slots c' = S m \<and>
      (\<forall>h. tbl_get (t_canonical_heads (ch_db c')) h =
        (if m < unat h \<and> unat h \<le> n then None else tbl_get (t_canonical_heads (ch_db c1)) h)) \<and>
      ch_fc c' = ch_fc c1 \<and> ch_number c' = ch_number c1"
      using Suc.prems(3,6,7) cs e by (intro Suc.IH [OF rest m]) simp_all
    moreover have "h = of_nat (Suc n) \<longleftrightarrow> unat h = Suc n" for h :: u64
      using Suc.prems(3) by (simp add: word_unat_eq_iff unat_of_nat take_bit_eq_mod del: of_nat_Suc)
    ultimately show ?thesis
      using e m by (auto simp: le_Suc_eq)
  qed
qed

text \<open>C11: reverting restores the past.  Let \<open>A h\<close> and \<open>S h\<close> be the accounts and storage slots after block
  \<open>h\<close>, and let the change set of every block above the target height hold the values before that block of
  everything it changed.  Then a successful \<open>revert_to_height\<close> from the head leaves exactly the accounts and
  slots of the target height, no canonical block above it, the canonical chain below it untouched, and the
  head on its canonical block.\<close>

theorem revert_restores_state:
  assumes "revert_to_height dec height c = (Inr (), c')" and "height < ch_number c"
    and "accs c = A (unat (ch_number c))" and "slots c = S (unat (ch_number c))"
    and "\<forall>h. height < h \<and> h \<le> ch_number c \<longrightarrow>
      acc_undo dec (fst (change_sets_at c h)) (A (unat h - 1)) (A (unat h)) \<and>
      slot_undo (snd (change_sets_at c h)) (S (unat h - 1)) (S (unat h))"
  shows "accs c' = A (unat height) \<and> slots c' = S (unat height) \<and>
    (\<forall>n. height < n \<and> n \<le> ch_number c \<longrightarrow> block_hash n (ch_db c') = Inr None) \<and>
    (\<forall>n. n \<le> height \<longrightarrow> tbl_get (t_canonical_heads (ch_db c')) n = tbl_get (t_canonical_heads (ch_db c)) n) \<and>
    block_hash height (ch_db c') = Inr (Some (fst (get_head c'))) \<and> snd (get_head c') = height"
proof -
  let ?m = "unat height" and ?n = "unat (ch_number c)"
  have mn: "?m < ?n" using assms(2) by (simp add: word_less_nat_alt)
  have n64: "?n < 2 ^ 64" using unsigned_less [of "ch_number c", where ?'a = nat] by simp
  have "unat (height + 1) = Suc ?m"
    using mn n64 by (subst unat_add_no_wrap) simp_all
  then have rng: "rev (inclusive_range (height + 1) (ch_number c)) = map of_nat (rev [Suc ?m ..< Suc ?n])"
    by (simp add: inclusive_range_def rev_map)
  obtain c1 hh c2 where
    1: "for_each (map of_nat (rev [Suc ?m ..< Suc ?n])) (revert_block dec) c = (Inr (), c1)" and
    hh: "block_hash height (ch_db c1) = Inr (Some hh)" and
    2: "update_head hh height c1 = (Inr (), c2)" and
    c': "c' = c2\<lparr>ch_store := clear_tracking_inherent (ch_store c2)\<rparr>"
    using assms(1) unfolding revert_to_height_def get_head_def snd_conv rng
    by (auto simp: sseq_Inr_iff sbind_Inr_iff rbind_Inr_iff ok_or_def split: option.splits)
  have of_nat: "unat (of_nat h :: u64) = h" if "h \<le> ?n" for h
    using that n64 by (simp add: unat_of_nat take_bit_eq_mod)
  have u: "acc_undo dec (fst (change_sets_at c (of_nat h))) (A (h - 1)) (A h)"
      "slot_undo (snd (change_sets_at c (of_nat h))) (S (h - 1)) (S h)" if "?m < h" "h \<le> ?n" for h
    using assms(5) [rule_format, of "of_nat h"] that of_nat [of h] by (auto simp: word_less_nat_alt word_le_nat_alt)
  note l = revert_loop [OF 1 less_imp_le [OF mn] n64 assms(3,4) u]
  have db: "ch_db c' = ch_db c2" "get_head c' = get_head c2"
    by (simp_all add: c' clear_tracking_inherent_def get_head_def)
  have o: "db_opens (ch_db c1) TCanonicalHeads"
    using hh by (simp add: block_hash_def read_tbl_def split: if_splits)
  obtain g where t: "ch_db c2 = t_forkchoice_update g (ch_db c1)"
    using update_head_effect(2) [OF 2] by blast
  note h = update_head_effect(1) [OF 2]
  show ?thesis
    using l o hh h by (auto simp: db t block_hash_def read_tbl_def slots_def word_less_nat_alt word_le_nat_alt fun_eq_iff)
qed

definition healthy_db :: "db \<Rightarrow> bool" where
  "healthy_db d \<longleftrightarrow> (\<forall>T. db_opens d T)"

abbreviation healthy :: "store \<Rightarrow> bool" where
  "healthy s \<equiv> healthy_db (s_db s) \<and> s_commits s"

abbreviation healthy_chain :: "chain \<Rightarrow> bool" where
  "healthy_chain c \<equiv> healthy (ch_store c)"

lemma total_open_table: "(\<And>d. I d \<Longrightarrow> db_opens d T) \<Longrightarrow> total_on I (open_table T)"
  by (simp add: total_on_def open_table_def)

lemma total_wtx_upd:
  "(\<And>d. I d \<Longrightarrow> db_opens d T \<and> I (upd g d)) \<Longrightarrow> total_on I (wtx_upd T upd g)"
  by (simp add: total_on_def)

lemma total_with_write_then:
  "total_on I m \<Longrightarrow> (\<And>s. s_commits (t s) = s_commits s) \<Longrightarrow>
     total_on (\<lambda>s. I (s_db s) \<and> s_commits s) (with_write_then m t)"
  by (force simp: total_on_def with_write_then_Inr)

lemma total_with_write: "total_on I m \<Longrightarrow> total_on (\<lambda>s. I (s_db s) \<and> s_commits s) (with_write m)"
  unfolding with_write_def by (rule total_with_write_then) simp_all

lemma total_on_store: "total_on I m \<Longrightarrow> total_on (\<lambda>c. I (ch_store c)) (on_store m)"
  by (force simp: total_on_def on_store_Inr)

lemma total_insert_block: "total_on healthy (insert_block hs b rs ms)"
  using insert_block_ok unfolding total_on_def healthy_db_def by force

lemma total_mark_block: "total_on healthy_chain (mark_block_canonical hs b)"
proof -
  have "total_on healthy_chain (promote_payload hs hash)" for hash
  proof -
    have "total_on healthy_chain (sseq (on_store (insert_block hs b rs ms))
        (on_store (remove_payload_by_block_hash hs hash)))" for b rs ms
      unfolding remove_payload_by_block_hash_def
      by (intro total_rules total_on_store total_with_write total_wtx_upd total_insert_block) (simp add: healthy_db_def)
    then show ?thesis
      unfolding total_on_def promote_payload_def by (auto split: option.splits prod.splits)
  qed
  moreover have "total_on healthy_chain (repair_td hdr hash)" for hdr hash
  proof -
    have "total_on healthy_chain (on_store (insert_header_td hash td))" for td
      unfolding insert_header_td_def by (intro total_on_store total_with_write total_wtx_upd) (simp add: healthy_db_def)
    then show ?thesis
      unfolding total_on_def repair_td_def by (auto simp: Let_def split: option.splits)
  qed
  ultimately show ?thesis
    unfolding mark_block_canonical_def Let_def set_canonical_def insert_header_number_def insert_block_hash_def
      insert_transaction_lookup_def
    by (intro total_rules total_on_store total_with_write total_wtx_upd) (simp_all add: healthy_db_def)
qed

lemma mark_branch_canonical_total:
  "healthy_chain c \<Longrightarrow> \<exists>c'. mark_branch_canonical hs blocks c = (Inr (), c') \<and> healthy_chain c'"
  using total_onD [OF total_for_each [OF total_mark_block]] unfolding mark_branch_canonical_def by fastforce

subsection \<open>Reverting succeeds\<close>

definition decodable :: "(bytes \<Rightarrow> trie_account option) \<Rightarrow> (address \<times> bytes option) list \<Rightarrow> bool" where
  "decodable dec cs \<longleftrightarrow> (\<forall>(a, st) \<in> set cs. case st of None \<Rightarrow> True | Some bs \<Rightarrow> dec bs \<noteq> None)"

text \<open>What a revert to \<open>height\<close> relies on: tables that open, change sets that decode, and a canonical
  block at that height.\<close>

definition revertible :: "(bytes \<Rightarrow> trie_account option) \<Rightarrow> u64 \<Rightarrow> db \<Rightarrow> bool" where
  "revertible dec height d \<longleftrightarrow> healthy_db d \<and> tbl_get (t_canonical_heads d) height \<noteq> None \<and>
     (\<forall>h cs. tbl_get (t_account_change_sets d) h = Some cs \<longrightarrow> decodable dec cs)"

abbreviation revertible_chain :: "(bytes \<Rightarrow> trie_account option) \<Rightarrow> u64 \<Rightarrow> chain \<Rightarrow> bool" where
  "revertible_chain dec height c \<equiv> revertible dec height (ch_db c) \<and> s_commits (ch_store c)"

lemmas total_writes = total_on_store total_with_write total_with_write_then total_wtx_upd

lemma total_store_op:
  assumes "\<And>d. revertible dec height d \<Longrightarrow> db_opens d T \<and> revertible dec height (upd g d)"
  shows "total_on (revertible_chain dec height) (on_store (with_write (wtx_upd T upd g)))"
  by (rule total_on_store [where I = "\<lambda>s. revertible dec height (s_db s) \<and> s_commits s"],
      rule total_with_write, rule total_wtx_upd, rule assms)

lemma total_store_op_then:
  assumes "\<And>d. revertible dec height d \<Longrightarrow> db_opens d T \<and> revertible dec height (upd g d)"
    and "\<And>s. s_commits (t s) = s_commits s"
  shows "total_on (revertible_chain dec height) (on_store (with_write_then (wtx_upd T upd g) t))"
  by (rule total_on_store [where I = "\<lambda>s. revertible dec height (s_db s) \<and> s_commits s"],
      rule total_with_write_then, rule total_wtx_upd, rule assms(1), assumption, rule assms(2))

lemma total_revert_account:
  assumes "case st of None \<Rightarrow> True | Some bs \<Rightarrow> dec bs \<noteq> None"
  shows "total_on (revertible_chain dec height) (revert_account dec (a, st))"
proof (cases st)
  case None
  then show ?thesis
    unfolding revert_account_def remove_account_def remove_plain_state_def
    by (simp, intro total_sseq total_store_op total_store_op_then)
      (simp_all add: revertible_def healthy_db_def touch_account_def)
next
  case (Some bs)
  with assms obtain acc where "dec bs = Some acc" by auto
  with Some show ?thesis
    unfolding revert_account_def update_account_def update_plain_state_def
    by (simp, intro total_sseq total_store_op total_store_op_then)
      (simp_all add: revertible_def healthy_db_def touch_account_def)
qed

lemma total_revert_slot: "total_on (revertible_chain dec height) (revert_slot e)"
  unfolding revert_slot_def update_storage_def
  by (intro total_prod total_store_op_then) (simp_all add: revertible_def healthy_db_def touch_account_def touch_slot_def)

lemma total_remove_change_set: "total_on (revertible_chain dec height) (on_store (remove_change_set h))"
  unfolding remove_change_set_def
  by (rule total_on_store [where I = "\<lambda>s. revertible dec height (s_db s) \<and> s_commits s"],
      rule total_with_write, intro total_sseq total_wtx_upd)
    (auto simp: revertible_def healthy_db_def split: if_splits)

lemma total_drop_receipt_metas: "total_on (revertible_chain dec height) (drop_receipt_metas h)"
  unfolding drop_receipt_metas_def remove_receipt_meta_def
  by (intro total_sbind total_reads total_option total_ret total_for_each total_ignore_err total_store_op)
    (auto simp: revertible_def healthy_db_def block_hash_def block_body_by_hash_def read_tbl_def)

lemma total_remove_canonical:
  "h \<noteq> height \<Longrightarrow> total_on (revertible_chain dec height) (on_store (remove_canonical h))"
  unfolding remove_canonical_def by (intro total_store_op) (auto simp: revertible_def healthy_db_def)

lemma total_revert_block:
  assumes "h \<noteq> height"
  shows "total_on (revertible_chain dec height) (revert_block dec h)"
  unfolding total_on_def
proof (intro allI impI)
  fix c
  assume c: "revertible_chain dec height c"
  then obtain acs where acs: "account_change_set h (ch_db c) = Inr acs"
    by (simp add: account_change_set_def read_tbl_def revertible_def healthy_db_def)
  have dec: "decodable dec (unwrap_or acs [])"
  proof (cases acs)
    case (Some cs)
    with acs have "tbl_get (t_account_change_sets (ch_db c)) h = Some cs"
      by (simp add: account_change_set_def read_tbl_def split: if_splits)
    with c Some show ?thesis by (simp add: revertible_def)
  qed (simp add: decodable_def)
  have fa: "total_on (revertible_chain dec height) (for_each (unwrap_or acs []) (revert_account dec))"
  proof (rule total_for_each_set)
    fix e
    assume "e \<in> set (unwrap_or acs [])"
    then show "total_on (revertible_chain dec height) (revert_account dec e)"
      using dec total_revert_account [where st = "snd e" and a = "fst e"] by (auto simp: decodable_def)
  qed
  have "total_on (revertible_chain dec height)
    (sseq (for_each (unwrap_or acs []) (revert_account dec))
    (sbind (reads (\<lambda>c. storage_change_set h (ch_db c))) (\<lambda>scs.
     sseq (for_each (unwrap_or scs []) revert_slot)
    (sseq (on_store (remove_change_set h)) (sseq (drop_receipt_metas h) (on_store (remove_canonical h)))))))"
    by (rule total_sseq [OF fa], intro total_sseq total_sbind total_reads total_for_each total_revert_slot total_remove_change_set
        total_drop_receipt_metas total_remove_canonical assms)
      (auto simp: storage_change_set_def read_tbl_def revertible_def healthy_db_def)
  from total_onD [OF this c] show "\<exists>x s'. revert_block dec h c = (Inr x, s') \<and> revertible_chain dec height s'"
    by (simp add: revert_block_def sbind_def [of "reads _"] acs)
qed

lemma revert_to_height_total:
  assumes "revertible_chain dec height c" and "height < ch_number c"
  shows "\<exists>c'. revert_to_height dec height c = (Inr (), c')"
proof -
  have "total_on (revertible_chain dec height) (revert_block dec h)"
    if "h \<in> set (rev (inclusive_range (height + 1) (ch_number c)))" for h
  proof (rule total_revert_block)
    have "unat (height + 1) = Suc (unat height)"
      using assms(2) unsigned_less [of "ch_number c", where ?'a = nat]
      by (subst unat_add_no_wrap) (simp_all add: word_less_nat_alt)
    then have "height < height + 1" by (simp add: word_less_nat_alt)
    with that show "h \<noteq> height" by (auto simp: inclusive_range_iff)
  qed
  then have "total_on (revertible_chain dec height)
      (for_each (rev (inclusive_range (height + 1) (ch_number c))) (revert_block dec))"
    by (rule total_for_each_set)
  from total_onD [OF this assms(1)] obtain c1 where
    1: "for_each (rev (inclusive_range (height + 1) (ch_number c))) (revert_block dec) c = (Inr (), c1)"
    and c1: "revertible_chain dec height c1" by auto
  then obtain hh where hh: "block_hash height (ch_db c1) = Inr (Some hh)"
    by (auto simp: block_hash_def read_tbl_def revertible_def healthy_db_def)
  have "\<exists>c2. update_head hh height c1 = (Inr (), c2)"
    using c1 by (auto simp: update_head_def persist_forkchoice_def Let_def on_store_Inr update_forkchoice_def
        with_write_Inr revertible_def healthy_db_def)
  then show ?thesis
    using 1 hh by (auto simp: revert_to_height_def get_head_def)
qed

text \<open>C39: reverting succeeds.  When the tables can be opened and written, every stored change set decodes, and
  the target height below the head has a canonical block, \<open>revert_to_height\<close> reports success.\<close>

theorem revert_succeeds:
  assumes "revertible_chain dec height c" and "height < ch_number c"
  shows "\<exists>c'. revert_to_height dec height c = (Inr (), c')"
  using assms by (rule revert_to_height_total)

subsection \<open>Witnesses\<close>

text \<open>Two canonical blocks (hashes 1 and 2), a stored block 3 above them, and one account created by
  the block at height 1.\<close>

definition reorg_body :: body where
  "reorg_body = \<lparr>b_transactions = [devnet_tx Eip1559 3 []], b_ommers = [], b_withdrawals = None\<rparr>"

definition reorg_account :: trie_account where
  "reorg_account = \<lparr>acc_nonce = 1, acc_balance = 5, acc_storage_root = 0, acc_code_hash = 0\<rparr>"

definition reorg_db :: db where
  "reorg_db = empty_db\<lparr>
     t_headers := [(1, sample_header 0), (2, sample_header 1), (3, sample_header 2)],
     t_header_numbers := [(1, 0), (2, 1)], t_canonical_heads := [(0, 1), (1, 2)],
     t_block_bodies := [(3, reorg_body)], t_accounts := [(7, reorg_account)],
     t_account_change_sets := [(1, [(7, None)])]\<rparr>"

definition reorg_chain :: chain where
  "reorg_chain = sample_chain\<lparr>ch_store := new_provider reorg_db\<rparr>"

lemma reorg_chain_db [simp]: "ch_db reorg_chain = reorg_db" "s_commits (ch_store reorg_chain)"
  "ch_number reorg_chain = 1" "db_opens reorg_db T"
  by (simp_all add: reorg_chain_def sample_chain_def reorg_db_def)

lemma reorg_chain_reads:
  "stored_header reorg_db h = (if h = 1 then Some (sample_header 0)
     else if h = 2 then Some (sample_header 1) else if h = 3 then Some (sample_header 2) else None)"
  "block_number h reorg_db = Inr (if h = 1 then Some 0 else if h = 2 then Some 1 else None)"
  "block_hash n reorg_db = Inr (if n = 0 then Some 1 else if n = 1 then Some 2 else None)"
  "get_payload_by_block_hash sample_hash h reorg_db = None"
  "block_body_by_hash h reorg_db = Inr (if h = 3 then Some reorg_body else None)"
  by (simp_all add: stored_header_def header_def block_number_def block_hash_def
      get_payload_by_block_hash_def block_body_by_hash_def read_tbl_def)
    (auto simp: reorg_db_def empty_db_def tbl_get_def tbl_empty_def tbl_iter_def)

lemma reorg_chain_known:
  "known_header sample_hash reorg_chain h = (if h = 1 then Some (sample_header 0)
     else if h = 2 then Some (sample_header 1) else if h = 3 then Some (sample_header 2) else None)"
  by (simp add: known_header_def payload_header_def reorg_chain_reads)

lemma reorg_chain_decreases: "numbers_decrease sample_hash reorg_chain"
  by (auto simp: numbers_decrease_def reorg_chain_known devnet_header_def split: if_splits)

lemma reorg_chain_keyed: "headers_keyed sample_hash reorg_chain"
  by (auto simp: headers_keyed_def reorg_chain_reads sample_hash_def devnet_header_def split: if_splits)

theorem resolve_reorg_total_witness: "\<exists>r. resolve_reorg sample_hash reorg_chain 2 3 = Some r"
  by (rule resolve_reorg_total [OF reorg_chain_decreases])

lemma reorg_chain_block:
  "ok_flat (block_by_hash sample_hash 3 reorg_db) = Some \<lparr>b_header = sample_header 2, b_body = reorg_body\<rparr>"
proof -
  have "header (IdHash 3) reorg_db = Inr (Some (sample_header 2))"
    using reorg_chain_reads(1) [of 3] by (simp add: stored_header_def ok_flat_Some_iff)
  then show ?thesis
    by (simp add: block_by_hash_def block_def reorg_chain_reads sample_hash_def)
      (simp add: devnet_header_def)
qed

lemma reorg_chain_resolves:
  "resolve_reorg sample_hash reorg_chain 2 3 = Some (Inr \<lparr>common_ancestor_hash = 2,
     new_canonical_blocks = [\<lparr>b_header = sample_header 2, b_body = reorg_body\<rparr>], is_reorg = False\<rparr>)"
proof -
  have "h_parent_hash (sample_header 2) = 2" by (simp add: devnet_header_def)
  then have "reorg_walk sample_hash reorg_chain 2 [] 3 =
      Some (Inr ([\<lparr>b_header = sample_header 2, b_body = reorg_body\<rparr>], Some 2))"
    by (subst reorg_walk.simps, simp add: marked_canonical_def reorg_chain_reads reorg_chain_block)
      (subst reorg_walk.simps, simp)
  then show ?thesis by (simp add: resolve_reorg_def reorg_context_of_def)
qed

theorem resolve_reorg_branch_witness:
  "\<exists>ctx. resolve_reorg sample_hash reorg_chain 2 3 = Some (Inr ctx) \<and> \<not> is_reorg ctx \<and>
     (\<exists>e. reorg_path sample_hash reorg_chain 3 (map (\<lambda>b. sample_hash (b_header b)) (new_canonical_blocks ctx)) e)"
  using resolve_reorg_branch [OF reorg_chain_keyed reorg_chain_decreases reorg_chain_resolves]
    reorg_chain_resolves by auto

lemma reorg_chain_healthy: "healthy_chain reorg_chain"
  by (simp add: healthy_db_def)

theorem mark_branch_canonical_heads_witness:
  "\<exists>c'. mark_branch_canonical sample_hash [\<lparr>b_header = sample_header 2, b_body = reorg_body\<rparr>] reorg_chain = (Inr (), c') \<and>
     block_hash 2 (ch_db c') = Inr (Some 3)"
proof -
  have h: "sample_hash (devnet_header 2 102 21000 900 0) = 3" "h_number (devnet_header 2 102 21000 900 0) = 2"
    by (simp_all add: sample_hash_def devnet_header_def)
  obtain c' where c': "mark_branch_canonical sample_hash [\<lparr>b_header = sample_header 2, b_body = reorg_body\<rparr>]
      reorg_chain = (Inr (), c')"
    using mark_branch_canonical_total [OF reorg_chain_healthy] by blast
  with mark_branch_canonical_heads [OF c'] show ?thesis by (simp add: h)
qed

lemma reorg_chain_tables:
  "tbl_get (t_canonical_heads reorg_db) 0 = Some 1"
  "tbl_get (t_account_change_sets reorg_db) h = (if h = 1 then Some [(7, None)] else None)"
  "tbl_get (t_storage_change_sets reorg_db) h = None"
  "tbl_get (t_accounts reorg_db) = [7 \<mapsto> reorg_account]"
  "tbl_get (t_storages reorg_db) k = None"
  by (auto simp: reorg_db_def empty_db_def tbl_get_def tbl_empty_def)

lemma reorg_chain_revertible: "revertible_chain (\<lambda>_. None) 0 reorg_chain"
  by (auto simp: revertible_def healthy_db_def reorg_chain_tables decodable_def)

theorem revert_succeeds_witness: "\<exists>c'. revert_to_height (\<lambda>_. None) 0 reorg_chain = (Inr (), c')"
  by (rule revert_succeeds [OF reorg_chain_revertible]) simp

theorem revert_restores_state_witness:
  "\<exists>c'. revert_to_height (\<lambda>_. None) 0 reorg_chain = (Inr (), c') \<and> accs c' = Map.empty \<and>
     snd (get_head c') = 0"
proof -
  let ?A = "\<lambda>n :: nat. if n = 0 then Map.empty else [7 \<mapsto> reorg_account]" and ?S = "\<lambda>(n :: nat) k. 0 :: u256"
  obtain c' where c': "revert_to_height (\<lambda>_. None) 0 reorg_chain = (Inr (), c')"
    using revert_to_height_total [OF reorg_chain_revertible] by auto
  have "\<forall>h. 0 < h \<and> h \<le> ch_number reorg_chain \<longrightarrow>
      acc_undo (\<lambda>_. None) (fst (change_sets_at reorg_chain h)) (?A (unat h - 1)) (?A (unat h)) \<and>
      slot_undo (snd (change_sets_at reorg_chain h)) (?S (unat h - 1)) (?S (unat h))"
  proof (intro allI impI)
    fix h :: u64
    assume "0 < h \<and> h \<le> ch_number reorg_chain"
    then have "h = 1" by (simp add: word_less_nat_alt word_le_nat_alt word_unat_eq_iff)
    then show "acc_undo (\<lambda>_. None) (fst (change_sets_at reorg_chain h)) (?A (unat h - 1)) (?A (unat h)) \<and>
      slot_undo (snd (change_sets_at reorg_chain h)) (?S (unat h - 1)) (?S (unat h))"
      by (simp add: change_sets_at_def reorg_chain_tables acc_undo_def slot_undo_def)
  qed
  with revert_restores_state [OF c', of ?A ?S] c' show ?thesis
    by (simp add: reorg_chain_tables slots_def fun_eq_iff)
qed

end
