(* ===== verification/RpcErrors.thy ===== *)
theory RpcErrors
  imports Storage
begin

section \<open>Errors of the RPC interface\<close>

text \<open>
  \<^verbatim>\<open>wasix_eth_types/src/error.rs\<close>: the enum \<open>RpcError\<close>, its conversion to JSON-RPC error
  codes, and the parsers of the parameters.  \<open>RpcPanic\<close> is added for a panic of the caller's task: nothing
  after it runs.  A parameter is a JSON value; only strings are looked into.  The conversion of a full-length
  hexadecimal string is that of the \<^verbatim>\<open>alloy\<close> crate and a parameter.
\<close>

datatype rpc_error =
    RpcPanic
  | BlockNotFound block_id
  | TransactionNotFound b256
  | AccountNotFound address
  | InvalidParams string
  | Internal string
  | StateUnavailable block_id
  | ParseError string
  | InvalidRequest string
  | MethodNotFound string
  | ServerError string
  | UnknownPayload string
  | InvalidForkchoiceState string
  | InvalidParamsCode string
  | InvalidPayloadAttributes string
  | TooLargeRequest string
  | UnsupportedFork string
  | MissingAuthorizationHeader
  | InvalidAuthorizationHeader
  | InvalidJwtToken

text \<open>The four named constants are those of JSON-RPC 2.0.\<close>

fun error_code :: "rpc_error \<Rightarrow> int option" where
  "error_code RpcPanic = None"
| "error_code (BlockNotFound _) = Some (-32001)"
| "error_code (TransactionNotFound _) = Some (-32002)"
| "error_code (AccountNotFound _) = Some (-32003)"
| "error_code (InvalidParams _) = Some (-32602)"
| "error_code (Internal _) = Some (-32603)"
| "error_code (StateUnavailable _) = Some (-32004)"
| "error_code (ParseError _) = Some (-32700)"
| "error_code (InvalidRequest _) = Some (-32600)"
| "error_code (MethodNotFound _) = Some (-32601)"
| "error_code (ServerError _) = Some (-32000)"
| "error_code (UnknownPayload _) = Some (-38001)"
| "error_code (InvalidForkchoiceState _) = Some (-38002)"
| "error_code (InvalidParamsCode _) = Some (-32602)"
| "error_code (InvalidPayloadAttributes _) = Some (-38003)"
| "error_code (TooLargeRequest _) = Some (-38004)"
| "error_code (UnsupportedFork _) = Some (-38005)"
| "error_code MissingAuthorizationHeader = Some (-32000)"
| "error_code InvalidAuthorizationHeader = Some (-32000)"
| "error_code InvalidJwtToken = Some (-32000)"

subsection \<open>Parameters\<close>

definition from_str :: "(string \<Rightarrow> 'a option) \<Rightarrow> string \<Rightarrow> rpc_error + 'a" where
  "from_str parse s = ok_or (parse s) (InvalidParamsCode ''Invalid params'')"

definition hex_param :: "string option \<Rightarrow> rpc_error + string" where
  "hex_param v =
     rbind (ok_or v (InvalidParamsCode ''Invalid params'')) (\<lambda>s.
       if take 2 s = ''0x'' then Inr s else Inl (InvalidParamsCode ''hex string without 0x prefix''))"

definition parse_strict_hex :: "(string \<Rightarrow> 'a option) \<Rightarrow> string option \<Rightarrow> rpc_error + 'a" where
  "parse_strict_hex parse v = rbind (hex_param v) (from_str parse)"

text \<open>The two loose parsers differ in the width (64 or 40 digits) and the message.\<close>

definition parse_loose :: "nat \<Rightarrow> string \<Rightarrow> (string \<Rightarrow> 'a option) \<Rightarrow> string option \<Rightarrow> rpc_error + 'a" where
  "parse_loose n msg parse v =
     rbind (hex_param v) (\<lambda>s.
       let hex_part = drop 2 s in
       if length hex_part > n then Inl (InvalidParamsCode msg)
       else if length hex_part = n then from_str parse s
       else from_str parse (''0x'' @ replicate (n - length hex_part) (CHR ''0'') @ hex_part))"

definition parse_loose_hash :: "(string \<Rightarrow> b256 option) \<Rightarrow> string option \<Rightarrow> rpc_error + b256" where
  "parse_loose_hash = parse_loose 64 ''hex string too long for B256''"

definition parse_loose_address :: "(string \<Rightarrow> address option) \<Rightarrow> string option \<Rightarrow> rpc_error + address" where
  "parse_loose_address = parse_loose 40 ''hex string too long for Address''"

text \<open>A shorter number is read like the same number with leading zeros.\<close>

lemma parse_loose_pads:
  "length ds \<le> n \<Longrightarrow>
   parse_loose n msg parse (Some (''0x'' @ ds)) = from_str parse (''0x'' @ replicate (n - length ds) (CHR ''0'') @ ds)"
  by (simp add: parse_loose_def hex_param_def Let_def)

lemma parse_loose_zeros:
  assumes "k + length ds \<le> n"
  shows "parse_loose n msg parse (Some (''0x'' @ replicate k (CHR ''0'') @ ds)) = parse_loose n msg parse (Some (''0x'' @ ds))"
proof -
  have "replicate (n - length (replicate k (CHR ''0'') @ ds)) (CHR ''0'') @ replicate k (CHR ''0'') @ ds
      = replicate (n - length ds) (CHR ''0'') @ ds"
    using assms by (simp add: append_assoc [symmetric] replicate_add [symmetric] del: append_assoc)
  with assms show ?thesis
    by (simp only: parse_loose_pads length_append length_replicate)
qed

end
