(* ===== verification/Forkchoice.thy ===== *)
theory Forkchoice
  imports Chain RpcErrors
begin

section \<open>Fork choice validation\<close>

text \<open>
  \<^verbatim>\<open>wasix_eth_core/src/engine/forkchoice_validator.rs\<close>, \<open>ForkchoiceValidator\<close>.  The checks
  return \<open>Option<RpcResult<..>>\<close>, which is only ever \<open>None\<close> (no objection) or an error; here
  \<open>rpc_error option\<close>.  The validator sees the chain through the trait object \<open>dyn ChainManager\<close>: the
  locale \<open>ancestry\<close> is what it relies on of it, and the chain manager's own queries are its
  interpretation.
\<close>

definition fc_header :: "(header \<Rightarrow> b256) \<Rightarrow> chain \<Rightarrow> b256 \<Rightarrow> header option" where
  "fc_header hs c hash =
     or_else (stored_header (ch_db c) hash)
    (or_else (payload_header hs (ch_db c) hash)
       (if canonical_at c 0 = Some hash then ok_flat (header (IdNumber (Number 0)) (ch_db c)) else None))"

definition fc_number :: "(header \<Rightarrow> b256) \<Rightarrow> chain \<Rightarrow> b256 \<Rightarrow> u64" where
  "fc_number hs c hash =
     unwrap_or (or_else (map_option h_number (stored_header (ch_db c) hash))
               (or_else (map_option h_number (payload_header hs (ch_db c) hash))
                  (if canonical_at c 0 = Some hash then Some 0 else None))) 0"

definition check_finalized_block ::
  "(header \<Rightarrow> b256) \<Rightarrow> chain \<Rightarrow> forkchoice_state \<Rightarrow> header \<Rightarrow> rpc_error option" where
  "check_finalized_block hs c st hdr =
     (if fc_finalized st \<noteq> 0 then
        let target_hash = (if fc_safe st \<noteq> 0 then fc_safe st else fc_head st) in
        case fc_header hs c (fc_finalized st) of
          Some fh \<Rightarrow>
            let target_num = (if target_hash = fc_head st then h_number hdr else fc_number hs c target_hash) in
            if h_number fh > target_num \<or> \<not> is_ancestor hs c target_hash (fc_finalized st)
            then Some (InvalidForkchoiceState
              ''finalizedBlockHash is not an ancestor of safeBlockHash or headBlockHash'')
            else None
        | None \<Rightarrow> Some (InvalidForkchoiceState ''finalizedBlockHash unknown'')
      else None)"

definition check_safe_block ::
  "(header \<Rightarrow> b256) \<Rightarrow> chain \<Rightarrow> forkchoice_state \<Rightarrow> header \<Rightarrow> rpc_error option" where
  "check_safe_block hs c st hdr =
     (if fc_safe st \<noteq> 0 then
        case fc_header hs c (fc_safe st) of
          Some sh \<Rightarrow>
            if h_number sh > h_number hdr \<or> \<not> is_ancestor hs c (fc_head st) (fc_safe st)
            then Some (InvalidForkchoiceState ''safeBlockHash is not an ancestor of headBlockHash'')
            else None
        | None \<Rightarrow> Some (InvalidForkchoiceState ''safeBlockHash unknown'')
      else None)"

definition check_header_without_headheader :: "chain \<Rightarrow> forkchoice_state \<Rightarrow> rpc_error option" where
  "check_header_without_headheader c st =
     (if Some (fc_head st) \<noteq> canonical_at c 0
      then Some (InvalidForkchoiceState ''headBlockHash header not found'')
      else if fc_safe st \<noteq> 0 \<and> fc_safe st \<noteq> fc_head st
      then Some (InvalidForkchoiceState ''safeBlockHash is not an ancestor of headBlockHash'')
      else if fc_finalized st \<noteq> 0 \<and> fc_finalized st \<noteq> fc_head st
      then Some (InvalidForkchoiceState ''finalizedBlockHash is not an ancestor of headBlockHash'')
      else None)"

subsection \<open>What the validator relies on\<close>

locale ancestry =
  fixes sane :: "'s \<Rightarrow> bool"
    and anc :: "'s \<Rightarrow> b256 \<Rightarrow> b256 \<Rightarrow> bool"
    and up :: "'s \<Rightarrow> (b256 \<times> b256) set"
    and limit :: nat
  assumes anc_sound: "sane s \<Longrightarrow> t \<noteq> 0 \<Longrightarrow> anc s h t \<Longrightarrow> (h, t) \<in> (up s)\<^sup>*"
    and anc_complete: "sane s \<Longrightarrow> t \<noteq> 0 \<Longrightarrow> k < limit \<Longrightarrow> (h, t) \<in> up s ^^ k \<Longrightarrow> anc s h t"
begin

lemma anc_trans:
  assumes "sane s" and "b \<noteq> 0" and "f \<noteq> 0" and "anc s h b" and "anc s b f"
  shows "(h, f) \<in> (up s)\<^sup>*"
  using anc_sound [OF assms(1,2,4)] anc_sound [OF assms(1,3,5)] by simp

lemma anc_short_trans:
  assumes "sane s" and "f \<noteq> 0" and "(h, b) \<in> up s ^^ i" and "(b, f) \<in> up s ^^ j" and "i + j < limit"
  shows "anc s h f"
  using assms(3,4) by (intro anc_complete [OF assms(1,2,5)]) (auto simp: relpow_add)

end

text \<open>The chain manager provides it, on chains with a linked canonical table and consistent numbers.\<close>

interpretation cm: ancestry "\<lambda>c. canonical_linked c \<and> heights_ok hs c" "is_ancestor hs" "parent_rel hs" 2048
  for hs
proof unfold_locales
  fix c t h
  assume "canonical_linked c \<and> heights_ok hs c" and "t \<noteq> 0" and "is_ancestor hs c h t"
  then show "(h, t) \<in> (parent_rel hs c)\<^sup>*"
    using is_ancestor_sound by blast
next
  fix c t k h
  assume "canonical_linked c \<and> heights_ok hs c" and "t \<noteq> 0" and "k < 2048" and "(h, t) \<in> parent_rel hs c ^^ k"
  then show "is_ancestor hs c h t"
    using is_ancestor_complete by blast
qed

subsection \<open>Accepted fork choices are consistent\<close>

text \<open>C24: a fork choice that passes the checks is consistent with the block graph: the safe block is on
  the parent chain of the head, the finalized block is on the parent chain of the safe block (of the head
  when no safe block is given), hence of the head, and their numbers do not exceed the head's.\<close>

theorem accepted_forkchoice_consistent:
  assumes "canonical_linked c" and "heights_ok hs c"
    and "check_safe_block hs c st hdr = None" and "check_finalized_block hs c st hdr = None"
  shows "(fc_safe st \<noteq> 0 \<longrightarrow> (fc_head st, fc_safe st) \<in> (parent_rel hs c)\<^sup>* \<and>
      (\<exists>sh. fc_header hs c (fc_safe st) = Some sh \<and> h_number sh \<le> h_number hdr)) \<and>
    (fc_finalized st \<noteq> 0 \<longrightarrow> (fc_head st, fc_finalized st) \<in> (parent_rel hs c)\<^sup>* \<and>
      (fc_safe st \<noteq> 0 \<longrightarrow> (fc_safe st, fc_finalized st) \<in> (parent_rel hs c)\<^sup>*) \<and>
      fc_header hs c (fc_finalized st) \<noteq> None)"
proof -
  have ok: "canonical_linked c \<and> heights_ok hs c" using assms(1,2) by simp
  have s: "is_ancestor hs c (fc_head st) (fc_safe st)"
      "\<exists>sh. fc_header hs c (fc_safe st) = Some sh \<and> h_number sh \<le> h_number hdr" if "fc_safe st \<noteq> 0"
    using assms(3) that by (auto simp: check_safe_block_def not_less split: option.splits if_splits)
  have f: "is_ancestor hs c (if fc_safe st \<noteq> 0 then fc_safe st else fc_head st) (fc_finalized st)"
      "fc_header hs c (fc_finalized st) \<noteq> None" if "fc_finalized st \<noteq> 0"
    using assms(4) that by (auto simp: check_finalized_block_def Let_def split: option.splits if_splits)
  show ?thesis
    using s f cm.anc_sound [OF ok] cm.anc_trans [OF ok, of "fc_safe st" "fc_finalized st" "fc_head st"]
    by (cases "fc_safe st = 0") simp_all
qed

text \<open>The checks do not reject good fork choices: when safe and finalized are known blocks, numbered
  consistently, with the safe block fewer than 2048 links below the head and the finalized block fewer than
  2048 links below the safe block, both checks pass.\<close>

theorem good_forkchoice_accepted:
  assumes "canonical_linked c" and "heights_ok hs c"
    and "fc_safe st \<noteq> 0" and "fc_finalized st \<noteq> 0" and "fc_safe st \<noteq> fc_head st"
    and "(fc_head st, fc_safe st) \<in> parent_rel hs c ^^ i" and "i < 2048"
    and "(fc_safe st, fc_finalized st) \<in> parent_rel hs c ^^ j" and "j < 2048"
    and "fc_header hs c (fc_safe st) = Some sh" and "fc_header hs c (fc_finalized st) = Some fh"
    and "h_number fh \<le> fc_number hs c (fc_safe st)" and "h_number sh \<le> h_number hdr"
  shows "check_safe_block hs c st hdr = None \<and> check_finalized_block hs c st hdr = None"
proof -
  have ok: "canonical_linked c \<and> heights_ok hs c" using assms(1,2) by simp
  have "is_ancestor hs c (fc_head st) (fc_safe st)"
    by (rule cm.anc_complete [OF ok assms(3,7,6)])
  moreover have "is_ancestor hs c (fc_safe st) (fc_finalized st)"
    by (rule cm.anc_complete [OF ok assms(4,9,8)])
  ultimately show ?thesis
    using assms(3-5,10-13) by (auto simp: check_safe_block_def check_finalized_block_def Let_def not_less)
qed

subsection \<open>Witnesses\<close>

definition sample_forkchoice :: forkchoice_state where
  "sample_forkchoice = \<lparr>fc_head = 3, fc_safe = 2, fc_finalized = 1\<rparr>"

lemma sample_fc_headers:
  "fc_header sample_hash sample_chain 2 = Some (sample_header 1)"
  "fc_header sample_hash sample_chain 1 = Some (sample_header 0)"
  "fc_number sample_hash sample_chain 2 = 1"
  by (simp_all add: fc_header_def fc_number_def sample_chain_reads devnet_header_def)

lemma sample_fc_links:
  "(3, 2) \<in> parent_rel sample_hash sample_chain ^^ 1" "(2, 1) \<in> parent_rel sample_hash sample_chain ^^ 1"
  by (simp_all add: parent_rel_def sample_chain_parent)

theorem good_forkchoice_accepted_witness:
  "check_safe_block sample_hash sample_chain sample_forkchoice (sample_header 2) = None \<and>
   check_finalized_block sample_hash sample_chain sample_forkchoice (sample_header 2) = None"
  by (rule good_forkchoice_accepted [OF sample_chain_linked sample_chain_heights, where i = 1 and j = 1
        and sh = "sample_header 1" and fh = "sample_header 0"])
    (simp_all add: sample_forkchoice_def sample_fc_headers sample_fc_links [simplified] devnet_header_def)

lemma sample_fc_checks:
  "check_safe_block sample_hash sample_chain sample_forkchoice (sample_header 2) = None"
  "check_finalized_block sample_hash sample_chain sample_forkchoice (sample_header 2) = None"
proof -
  have "is_ancestor sample_hash sample_chain 3 2" "is_ancestor sample_hash sample_chain 2 1"
    using is_ancestor_complete [OF sample_chain_linked sample_chain_heights _ _ sample_fc_links(1)]
      is_ancestor_complete [OF sample_chain_linked sample_chain_heights _ _ sample_fc_links(2)] by simp_all
  then show "check_safe_block sample_hash sample_chain sample_forkchoice (sample_header 2) = None"
    "check_finalized_block sample_hash sample_chain sample_forkchoice (sample_header 2) = None"
    by (simp_all add: check_safe_block_def check_finalized_block_def sample_forkchoice_def sample_fc_headers)
      (simp_all add: devnet_header_def)
qed

theorem accepted_forkchoice_consistent_witness:
  "(3, 1) \<in> (parent_rel sample_hash sample_chain)\<^sup>*"
  using accepted_forkchoice_consistent [OF sample_chain_linked sample_chain_heights sample_fc_checks]
  by (simp add: sample_forkchoice_def)

end
