(* ===== verification/Mempool.thy ===== *)
theory Mempool
  imports EthTypes "HOL-Library.AList" "HOL-Library.Multiset"
begin

section \<open>Transaction pool\<close>

text \<open>
  \<^verbatim>\<open>wasix_eth_core/src/mempool/mempool.rs\<close>: \<open>MempoolInner\<close>, \<open>Mempool\<close> and
  \<open>MempoolSnapshot\<close>.  A \<open>DashMap\<close> from senders to queues is an association list with distinct keys;
  the order of the list stands for the unspecified iteration order of the map, and the theorems hold for
  every order.  Three things come from outside: \<open>bs\<close> is \<open>binary_search_by_key\<close> of the \<open>im\<close> crate
  (\<open>Inr i\<close> for \<open>Ok(i)\<close>, \<open>Inl i\<close> for \<open>Err(i)\<close>), with the contract \<open>search_ok\<close>; \<open>tip\<close> is
  \<open>effective_tip_per_gas\<close> of the \<open>alloy\<close> crate; \<open>coin\<close> is the outcome of the random draw that
  triggers the capacity check.  \<open>U256::to\<close> panics when the value does not fit, which is the error
  \<open>ConversionPanic\<close>.
\<close>

type_synonym queues = "(address \<times> tx list) list"
type_synonym blob_data = "bytes \<times> bytes \<times> bytes"
type_synonym search = "u64 \<Rightarrow> u64 list \<Rightarrow> nat + nat"

datatype mempool_error = ConversionPanic

record mempool =
  pending_transactions :: queues
  queued_transactions :: queues
  pooled_envelopes :: "b256 \<rightharpoonup> bytes"
  pooled_bytes :: "b256 \<rightharpoonup> bytes"
  blobs :: "b256 \<rightharpoonup> blob_data"
  mp_base_fee :: u256

definition search_ok :: "search \<Rightarrow> bool" where
  "search_ok bs \<longleftrightarrow> (\<forall>k ks. sorted_wrt (<) ks \<longrightarrow>
     (case bs k ks of
        Inr i \<Rightarrow> i < length ks \<and> ks ! i = k
      | Inl i \<Rightarrow> k \<notin> set ks \<and> i = length (filter (\<lambda>x. x < k) ks)))"

definition mempool_new :: "u256 \<Rightarrow> mempool" where
  "mempool_new fee = \<lparr>pending_transactions = [], queued_transactions = [], pooled_envelopes = Map.empty,
     pooled_bytes = Map.empty, blobs = Map.empty, mp_base_fee = fee\<rparr>"

definition u256_to_u64 :: "u256 \<Rightarrow> mempool_error + u64" where
  "u256_to_u64 w = (if w < 2 ^ 64 then Inr (ucast w) else Inl ConversionPanic)"

definition u256_to_u128 :: "u256 \<Rightarrow> mempool_error + u128" where
  "u256_to_u128 w = (if w < 2 ^ 128 then Inr (ucast w) else Inl ConversionPanic)"

definition sender_of :: "tx \<Rightarrow> address" where
  "sender_of t = unwrap_or (tx_signer t) 0"

definition queue_of :: "queues \<Rightarrow> address \<Rightarrow> tx list" where
  "queue_of q a = unwrap_or (map_of q a) []"

definition nonces :: "tx list \<Rightarrow> u64 list" where
  "nonces ts = map tx_nonce ts"

definition queues_len :: "queues \<Rightarrow> nat" where
  "queues_len q = sum_list (map (\<lambda>e. length (snd e)) q)"

definition mempool_len :: "mempool \<Rightarrow> nat" where
  "mempool_len m = queues_len (pending_transactions m) + queues_len (queued_transactions m)"

definition mempool_is_empty :: "mempool \<Rightarrow> bool" where
  "mempool_is_empty m = (mempool_len m = 0)"

definition get_all_transactions :: "mempool \<Rightarrow> tx list" where
  "get_all_transactions m =
     concat (map snd (pending_transactions m)) @ concat (map snd (queued_transactions m))"

definition clear :: "mempool \<Rightarrow> mempool" where
  "clear m = m\<lparr>pending_transactions := [], queued_transactions := []\<rparr>"

text \<open>Forgetting the blobs, the envelope and the bytes of a transaction.\<close>

definition drop_data :: "tx \<Rightarrow> mempool \<Rightarrow> mempool" where
  "drop_data t m =
     m\<lparr>blobs := (if is_eip4844 t
          then (blobs m) |` (- set (unwrap_or (tx_blob_versioned_hashes t) [])) else blobs m),
       pooled_envelopes := (pooled_envelopes m)(tx_hash t := None),
       pooled_bytes := (pooled_bytes m)(tx_hash t := None)\<rparr>"

subsection \<open>Tips and eviction\<close>

definition calculate_effective_tip :: "tx \<Rightarrow> u256 \<Rightarrow> mempool_error + u128" where
  "calculate_effective_tip t fee =
     rbind (u256_to_u128 fee) (\<lambda>base_fee.
       Inr (if tx_max_fee_per_gas t < base_fee then 0
            else let max_tip = tx_max_fee_per_gas t - base_fee in
              if tx_kind t = Legacy \<or> tx_kind t = Eip2930 then max_tip
              else min max_tip (unwrap_or (tx_max_priority_fee_per_gas t) 0)))"

text \<open>The scan for the sender whose last transaction has the lowest tip; \<open>best\<close> is the candidate and its
  tip so far.\<close>

fun scan_worst :: "u256 \<Rightarrow> bool \<Rightarrow> queues \<Rightarrow> (address \<times> bool) option \<times> u128 \<Rightarrow>
    mempool_error + (address \<times> bool) option \<times> u128" where
  "scan_worst fee is_pending [] best = Inr best"
| "scan_worst fee is_pending ((a, q) # es) best =
     (if q = [] then scan_worst fee is_pending es best
      else rbind (calculate_effective_tip (last q) fee) (\<lambda>t.
        scan_worst fee is_pending es (if t < snd best then (Some (a, is_pending), t) else best)))"

definition find_worst :: "mempool \<Rightarrow> mempool_error + (address \<times> bool) option" where
  "find_worst m =
     rbind (scan_worst (mp_base_fee m) False (queued_transactions m) (None, - 1)) (\<lambda>best.
       if fst best = None \<or> queued_transactions m = []
       then rbind (scan_worst (mp_base_fee m) True (pending_transactions m) best) (\<lambda>b. Inr (fst b))
       else Inr (fst best))"

definition pop_back :: "address \<Rightarrow> queues \<Rightarrow> queues" where
  "pop_back a q =
     (let rest = butlast (queue_of q a)
      in if map_of q a = None then q
         else if rest = [] then AList.delete a q else AList.update a rest q)"

definition evict :: "address \<times> bool \<Rightarrow> mempool \<Rightarrow> mempool" where
  "evict = (\<lambda>(a, is_pending) m.
     if is_pending then m\<lparr>pending_transactions := pop_back a (pending_transactions m)\<rparr>
     else m\<lparr>queued_transactions := pop_back a (queued_transactions m)\<rparr>)"

text \<open>One eviction makes the pool smaller; the loop ends (\<open>enforce_loop\<close> stops when an eviction would
  not, which never happens).\<close>

function enforce_loop :: "nat \<Rightarrow> mempool \<Rightarrow> mempool_error + mempool" where
  "enforce_loop max_size m =
     (if mempool_len m > max_size
      then rbind (find_worst m) (\<lambda>w.
        case w of None \<Rightarrow> Inr m
        | Some victim \<Rightarrow>
            if mempool_len (evict victim m) < mempool_len m then enforce_loop max_size (evict victim m)
            else Inr m)
      else Inr m)"
  by pat_completeness auto
termination
  by (relation "measure (\<lambda>(max_size, m). mempool_len m)") auto

declare enforce_loop.simps [simp del]

definition enforce_capacity :: "nat \<Rightarrow> mempool \<Rightarrow> mempool_error + mempool" where
  "enforce_capacity max_size m = (if mempool_len m \<le> max_size then Inr m else enforce_loop max_size m)"

subsection \<open>Insertion and promotion\<close>

definition insert_at :: "nat \<Rightarrow> 'a \<Rightarrow> 'a list \<Rightarrow> 'a list" where
  "insert_at i x xs = take i xs @ x # drop i xs"

definition remove_at :: "nat \<Rightarrow> 'a list \<Rightarrow> 'a list" where
  "remove_at i xs = take i xs @ drop (Suc i) xs"

text \<open>The loop of \<open>promote_queued\<close>: every round takes one transaction out of the queue of the sender.\<close>

function promote_loop :: "search \<Rightarrow> address \<Rightarrow> u64 \<Rightarrow> mempool \<Rightarrow> mempool" where
  "promote_loop bs a next_nonce m =
     (case map_of (queued_transactions m) a of
        None \<Rightarrow> m
      | Some q \<Rightarrow> (case bs next_nonce (nonces q) of
          Inl _ \<Rightarrow> m
        | Inr pos \<Rightarrow>
            if pos < length q then
              let t = q ! pos;
                  m1 = m\<lparr>queued_transactions := AList.update a (remove_at pos q) (queued_transactions m)\<rparr>;
                  p = queue_of (pending_transactions m1) a;
                  p' = (case bs (tx_nonce t) (nonces p) of Inr _ \<Rightarrow> p | Inl p_pos \<Rightarrow> insert_at p_pos t p)
              in promote_loop bs a (next_nonce + 1)
                   (m1\<lparr>pending_transactions := AList.update a p' (pending_transactions m1)\<rparr>)
            else m))"
  by pat_completeness auto
termination
  by (relation "measure (\<lambda>(bs, a, n, m). length (queue_of (queued_transactions m) a))")
    (auto simp: queue_of_def remove_at_def update_conv')

declare promote_loop.simps [simp del]

definition promote_queued :: "search \<Rightarrow> address \<Rightarrow> u64 \<Rightarrow> mempool \<Rightarrow> mempool" where
  "promote_queued bs a next_expected_nonce m =
     (let m' = promote_loop bs a next_expected_nonce m
      in if map_of (queued_transactions m') a = Some []
         then m'\<lparr>queued_transactions := AList.delete a (queued_transactions m')\<rparr> else m')"

definition sel_queues :: "bool \<Rightarrow> mempool \<Rightarrow> queues" where
  "sel_queues is_pending m = (if is_pending then pending_transactions m else queued_transactions m)"

definition set_queue :: "bool \<Rightarrow> address \<Rightarrow> tx list \<Rightarrow> mempool \<Rightarrow> mempool" where
  "set_queue is_pending a q m =
     (if is_pending then m\<lparr>pending_transactions := AList.update a q (pending_transactions m)\<rparr>
      else m\<lparr>queued_transactions := AList.update a q (queued_transactions m)\<rparr>)"

definition place_in_queue :: "search \<Rightarrow> address \<Rightarrow> tx \<Rightarrow> bool \<Rightarrow> mempool \<Rightarrow> bool \<times> mempool" where
  "place_in_queue bs from t is_pending m =
     (let queue = queue_of (sel_queues is_pending m) from;
          pos = (case bs (tx_nonce t) (nonces queue) of Inr i \<Rightarrow> i | Inl i \<Rightarrow> i);
          gas_price = unwrap_or (tx_gas_price t) 0
      in if pos < length queue \<and> tx_nonce (queue ! pos) = tx_nonce t then
           let old_tx = queue ! pos;
               old_gas_price = unwrap_or (tx_gas_price old_tx) 0;
               min_replacement_price = old_gas_price + old_gas_price div 10
           in if gas_price \<ge> min_replacement_price
              then (True, set_queue is_pending from (queue[pos := t]) (drop_data old_tx m))
              else (False, set_queue is_pending from queue m)
         else
           let m' = set_queue is_pending from (insert_at pos t queue) m
           in (True, if is_pending then promote_queued bs from (tx_nonce t + 1) m' else m'))"

definition insert_into_queue ::
  "search \<Rightarrow> bool \<Rightarrow> address \<Rightarrow> tx \<Rightarrow> bool \<Rightarrow> mempool \<Rightarrow> mempool_error + bool \<times> mempool" where
  "insert_into_queue bs coin from t is_pending m =
     rbind (if coin then enforce_capacity MAX_MEMPOOL_SIZE m else Inr m) (\<lambda>m'.
       Inr (place_in_queue bs from t is_pending m'))"

definition next_pending_nonce :: "mempool \<Rightarrow> address \<Rightarrow> u64 \<Rightarrow> u64" where
  "next_pending_nonce m from current_nonce =
     (let q = queue_of (pending_transactions m) from
      in max (if q = [] then current_nonce else tx_nonce (last q) + 1) current_nonce)"

definition add_transaction ::
  "search \<Rightarrow> bool \<Rightarrow> tx \<Rightarrow> u64 \<Rightarrow> mempool \<Rightarrow> mempool_error + bool \<times> mempool" where
  "add_transaction bs coin t current_nonce m =
     (if tx_nonce t < current_nonce then Inr (False, m)
      else insert_into_queue bs coin (sender_of t) t
             (tx_nonce t \<le> next_pending_nonce m (sender_of t) current_nonce) m)"

definition add_transaction_no_nonce_sync ::
  "search \<Rightarrow> bool \<Rightarrow> tx \<Rightarrow> mempool \<Rightarrow> mempool_error + bool \<times> mempool" where
  "add_transaction_no_nonce_sync bs coin t m = add_transaction bs coin t 0 m"

fun expected_nonce :: "tx list \<Rightarrow> u64 \<Rightarrow> u64" where
  "expected_nonce [] expected = expected"
| "expected_nonce (t # ts) expected =
     (if tx_nonce t = expected then expected_nonce ts (expected + 1)
      else if tx_nonce t > expected then expected
      else expected_nonce ts expected)"

definition next_expected_nonce :: "mempool \<Rightarrow> address \<Rightarrow> u64 \<Rightarrow> u64" where
  "next_expected_nonce m a state_nonce =
     (case map_of (pending_transactions m) a of
        Some q \<Rightarrow> expected_nonce q state_nonce | None \<Rightarrow> state_nonce)"

definition remove_transactions :: "b256 list \<Rightarrow> mempool \<Rightarrow> mempool" where
  "remove_transactions tx_hashes m =
     (let keep = map (\<lambda>(a, q). (a, filter (\<lambda>t. tx_hash t \<notin> set tx_hashes) q));
          removed = filter (\<lambda>t. tx_hash t \<in> set tx_hashes) (get_all_transactions m);
          m1 = m\<lparr>pending_transactions := keep (pending_transactions m),
                 queued_transactions := keep (queued_transactions m)\<rparr>;
          m2 = fold drop_data removed m1
      in m2\<lparr>pending_transactions := filter (\<lambda>(a, q). q \<noteq> []) (pending_transactions m2),
            queued_transactions := filter (\<lambda>(a, q). q \<noteq> []) (queued_transactions m2)\<rparr>)"

subsection \<open>Selection for block building\<close>

definition blob_hashes_of :: "tx \<Rightarrow> b256 list" where
  "blob_hashes_of t = unwrap_or (tx_blob_versioned_hashes t) []"

definition blob_count :: "tx \<Rightarrow> u32" where
  "blob_count t = of_nat (length (blob_hashes_of t))"

text \<open>\<open>BinaryHeap::pop\<close>: the greatest entry, by tip and then by address.\<close>

definition pop_max :: "'a::linorder list \<Rightarrow> ('a \<times> 'a list) option" where
  "pop_max xs = (if xs = [] then None else let x = Max (set xs) in Some (x, remove1 x xs))"

fun init_heap :: "(tx \<Rightarrow> u64 \<Rightarrow> u128 option) \<Rightarrow> u64 \<Rightarrow> queues \<Rightarrow> (u128 \<times> address) list" where
  "init_heap tip fee [] = []"
| "init_heap tip fee ((a, q) # es) =
     (case q of [] \<Rightarrow> [] | t # _ \<Rightarrow> (case tip t fee of None \<Rightarrow> [] | Some x \<Rightarrow> [(x, a)])) @ init_heap tip fee es"

definition heap_after :: "(tx \<Rightarrow> u64 \<Rightarrow> u128 option) \<Rightarrow> u64 \<Rightarrow> tx list \<Rightarrow> nat \<Rightarrow> address \<Rightarrow>
    (u128 \<times> address) list \<Rightarrow> (u128 \<times> address) list" where
  "heap_after tip fee queue i a pq =
     (if i < length queue
      then case tip (queue ! i) fee of None \<Rightarrow> pq | Some next_tip \<Rightarrow> (next_tip, a) # pq else pq)"

definition remaining :: "queues \<Rightarrow> (address \<Rightarrow> nat) \<Rightarrow> nat" where
  "remaining pend cur = sum_list (map (\<lambda>e. length (snd e) - cur (fst e)) pend)"

lemma sum_list_less:
  fixes f g :: "'a \<Rightarrow> nat"
  assumes "\<And>x. x \<in> set xs \<Longrightarrow> f x \<le> g x" and "y \<in> set xs" and "f y < g y"
  shows "sum_list (map f xs) < sum_list (map g xs)"
  using assms
proof (induction xs)
  case (Cons x xs)
  have le: "sum_list (map f xs) \<le> sum_list (map g xs)"
    using Cons.prems(1) by (intro sum_list_mono) simp
  show ?case
  proof (cases "y \<in> set xs")
    case True
    with Cons.IH Cons.prems show ?thesis
      by (metis add_le_less_mono list.set_intros(1,2) list.simps(9) sum_list.Cons)
  next
    case False
    with Cons.prems have "f x < g x" by simp
    with le show ?thesis by simp
  qed
qed simp

lemma remaining_advance:
  assumes "map_of pend a = Some queue" and "cur a < length queue"
  shows "remaining pend (cur(a := Suc (cur a))) < remaining pend cur"
  unfolding remaining_def
  using assms by (intro sum_list_less [of _ _ _ "(a, queue)"]) (auto dest: map_of_SomeD)

lemma pop_max_Some: "pop_max xs = Some (x, xs') \<Longrightarrow> x \<in> set xs \<and> length xs = Suc (length xs') \<and> xs' = remove1 x xs"
  by (auto simp: pop_max_def Let_def length_remove1 split: if_splits)

lemma heap_after_length: "length (heap_after tip fee queue i a pq) \<le> Suc (length pq)"
  by (auto simp: heap_after_def split: option.splits)

lemma skip_decreases:
  "pop_max pq = Some z \<Longrightarrow> (entry, pq') = z \<Longrightarrow> length pq' + r < length pq + r"
  using pop_max_Some [of pq entry pq'] by simp

lemma select_decreases:
  assumes "pop_max pq = Some z" and "(entry, pq') = z" and "map_of pend a = Some queue" and "cur a < length queue"
  shows "length (heap_after tip fee queue (Suc (cur a)) a pq') + remaining pend (cur(a := Suc (cur a))) <
    length pq + remaining pend cur"
  using pop_max_Some [of pq entry pq'] assms(1,2) remaining_advance [of pend a queue cur, OF assms(3,4)]
    heap_after_length [of tip fee queue "Suc (cur a)" a pq'] by simp

function select_loop :: "(tx \<Rightarrow> u64 \<Rightarrow> u128 option) \<Rightarrow> queues \<Rightarrow> (b256 \<Rightarrow> bool) \<Rightarrow> u64 \<Rightarrow> u32 \<Rightarrow> u64 \<Rightarrow>
    (u128 \<times> address) list \<Rightarrow> (address \<Rightarrow> nat) \<Rightarrow> u64 \<Rightarrow> u32 \<Rightarrow> tx list \<Rightarrow> tx list" where
  "select_loop tip pend has_blob target max_blobs fee pq cur gas nblobs result =
     (if \<not> gas < target then result
      else case pop_max pq of
          None \<Rightarrow> result
        | Some (entry, pq') \<Rightarrow>
            let a = snd entry in
            (case map_of pend a of
               None \<Rightarrow> result
             | Some queue \<Rightarrow>
                 if cur a < length queue then
                   let t = queue ! cur a in
                   if gas + tx_gas_limit t > target
                   then select_loop tip pend has_blob target max_blobs fee pq' cur gas nblobs result
                   else if is_eip4844 t \<and> (nblobs + blob_count t > max_blobs \<or>
                             \<not> list_all has_blob (blob_hashes_of t))
                   then select_loop tip pend has_blob target max_blobs fee pq' cur gas nblobs result
                   else select_loop tip pend has_blob target max_blobs fee
                          (heap_after tip fee queue (Suc (cur a)) a pq') (cur(a := Suc (cur a)))
                          (gas + tx_gas_limit t) (if is_eip4844 t then nblobs + blob_count t else nblobs)
                          (result @ [t])
                 else result))"
  by pat_completeness auto
termination
  by (relation "measure (\<lambda>(tip, pend, has_blob, target, max_blobs, fee, pq, cur, gas, nb, res).
      length pq + remaining pend cur)")
    (simp_all only: in_measure case_prod_conv wf_measure select_decreases skip_decreases)

declare select_loop.simps [simp del]

definition peek_best_transactions :: "(tx \<Rightarrow> u64 \<Rightarrow> u128 option) \<Rightarrow> u64 \<Rightarrow> u256 \<Rightarrow> u32 option \<Rightarrow> mempool \<Rightarrow>
    mempool_error + tx list" where
  "peek_best_transactions tip target_gas_limit fee max_blobs_per_block m =
     rbind (u256_to_u64 fee) (\<lambda>base_fee.
       Inr (select_loop tip (pending_transactions m) (\<lambda>h. blobs m h \<noteq> None) target_gas_limit
              (unwrap_or max_blobs_per_block 6) base_fee
              (init_heap tip base_fee (pending_transactions m)) (\<lambda>_. 0) 0 0 []))"

text \<open>Scans for the sender with the best first transaction.\<close>

fun scan_price :: "queues \<Rightarrow> address option \<times> u128 \<Rightarrow> address option" where
  "scan_price [] best = fst best"
| "scan_price ((a, q) # es) best =
     (if q = [] then scan_price es best
      else let p = unwrap_or (tx_gas_price (hd q)) 0
           in scan_price es (if p > snd best then (Some a, p) else best))"

fun scan_tip :: "u256 \<Rightarrow> queues \<Rightarrow> address option \<times> u128 \<Rightarrow> mempool_error + address option" where
  "scan_tip fee [] best = Inr (fst best)"
| "scan_tip fee ((a, q) # es) best =
     (if q = [] then scan_tip fee es best
      else rbind (calculate_effective_tip (hd q) fee) (\<lambda>t.
        scan_tip fee es (if t > snd best \<or> t = snd best \<and> fst best = None then (Some a, t) else best)))"

definition pop_front :: "address \<Rightarrow> queues \<Rightarrow> queues" where
  "pop_front a q =
     (let rest = tl (queue_of q a) in if rest = [] then AList.delete a q else AList.update a rest q)"

fun peek_loop :: "nat \<Rightarrow> queues \<Rightarrow> tx list" where
  "peek_loop 0 q = []"
| "peek_loop (Suc n) q =
     (case scan_price q (None, 0) of None \<Rightarrow> []
      | Some a \<Rightarrow> hd (queue_of q a) # peek_loop n (pop_front a q))"

definition promote_all :: "search \<Rightarrow> mempool \<Rightarrow> mempool" where
  "promote_all bs m =
     fold (\<lambda>a m. let q = queue_of (pending_transactions m) a
                 in if q = [] then m else promote_queued bs a (tx_nonce (last q) + 1) m)
       (map fst (queued_transactions m)) m"

definition peek_transactions :: "search \<Rightarrow> nat \<Rightarrow> mempool \<Rightarrow> tx list \<times> mempool" where
  "peek_transactions bs n m =
     (let m' = promote_all bs m in (peek_loop n (pending_transactions m'), m'))"

fun pop_loop :: "nat \<Rightarrow> mempool \<Rightarrow> mempool_error + tx list \<times> mempool" where
  "pop_loop 0 m = Inr ([], m)"
| "pop_loop (Suc n) m =
     rbind (scan_tip (mp_base_fee m) (pending_transactions m) (None, 0)) (\<lambda>best.
       case best of None \<Rightarrow> Inr ([], m)
       | Some a \<Rightarrow>
           let t = hd (queue_of (pending_transactions m) a);
               m' = drop_data t (m\<lparr>pending_transactions := pop_front a (pending_transactions m)\<rparr>)
           in rbind (pop_loop n m') (\<lambda>(ts, m''). Inr (t # ts, m'')))"

definition pop_transactions :: "nat \<Rightarrow> mempool \<Rightarrow> mempool_error + tx list \<times> mempool" where
  "pop_transactions n m = pop_loop n m"

subsection \<open>Well-formed pools\<close>

definition queue_wf :: "address \<Rightarrow> tx list \<Rightarrow> bool" where
  "queue_wf a q \<longleftrightarrow> sorted_wrt (<) (nonces q) \<and> (\<forall>t \<in> set q. sender_of t = a)"

definition queues_wf :: "queues \<Rightarrow> bool" where
  "queues_wf qs \<longleftrightarrow> distinct (map fst qs) \<and> (\<forall>a q. map_of qs a = Some q \<longrightarrow> queue_wf a q)"

definition mempool_wf :: "mempool \<Rightarrow> bool" where
  "mempool_wf m \<longleftrightarrow> queues_wf (pending_transactions m) \<and> queues_wf (queued_transactions m)"

lemma queue_wf_Nil [simp]: "queue_wf a []"
  by (simp add: queue_wf_def nonces_def)

lemma queue_of_wf: "queues_wf qs \<Longrightarrow> queue_wf a (queue_of qs a)"
  by (cases "map_of qs a") (auto simp: queues_wf_def queue_of_def)

lemma queues_wf_update: "queues_wf qs \<Longrightarrow> queue_wf a q \<Longrightarrow> queues_wf (AList.update a q qs)"
  by (auto simp: queues_wf_def update_conv' distinct_update split: if_splits)

lemma queues_wf_delete: "queues_wf qs \<Longrightarrow> queues_wf (AList.delete a qs)"
  by (auto simp: queues_wf_def delete_conv' distinct_delete split: if_splits)

lemma queue_of_update: "queue_of (AList.update a q qs) b = (if b = a then q else queue_of qs b)"
  by (simp add: queue_of_def update_conv')

lemma queue_of_delete: "queue_of (AList.delete a qs) b = (if b = a then [] else queue_of qs b)"
  by (simp add: queue_of_def delete_conv')

lemma nonces_simps [simp]:
  "length (nonces q) = length q" "i < length q \<Longrightarrow> nonces q ! i = tx_nonce (q ! i)"
  "set (nonces q) = tx_nonce ` set q" "nonces (a @ b) = nonces a @ nonces b" "nonces (t # q) = tx_nonce t # nonces q"
  "nonces [] = []"
  by (simp_all add: nonces_def)

subsection \<open>Sorted queues\<close>

lemma sorted_take_filter:
  fixes k :: "'a::linorder"
  assumes "sorted_wrt (<) ks"
  shows "take (length (filter (\<lambda>x. x < k) ks)) ks = filter (\<lambda>x. x < k) ks"
    and "drop (length (filter (\<lambda>x. x < k) ks)) ks = filter (\<lambda>x. \<not> x < k) ks"
proof -
  have "take (length (filter (\<lambda>x. x < k) ks)) ks = filter (\<lambda>x. x < k) ks \<and>
    drop (length (filter (\<lambda>x. x < k) ks)) ks = filter (\<lambda>x. \<not> x < k) ks"
    using assms
  proof (induction ks)
    case (Cons x ks)
    show ?case
    proof (cases "x < k")
      case False
      with Cons.prems have "\<forall>y \<in> set ks. \<not> y < k" by auto
      then have "filter (\<lambda>x. x < k) ks = []" "filter (\<lambda>x. \<not> x < k) ks = ks"
        by (simp_all add: filter_empty_conv filter_id_conv)
      with False show ?thesis by simp
    qed (use Cons in simp)
  qed simp
  then show "take (length (filter (\<lambda>x. x < k) ks)) ks = filter (\<lambda>x. x < k) ks"
    and "drop (length (filter (\<lambda>x. x < k) ks)) ks = filter (\<lambda>x. \<not> x < k) ks"
    by simp_all
qed

lemma insert_at_sorted:
  fixes k :: "'a::linorder"
  assumes "sorted_wrt (<) ks" and "k \<notin> set ks"
  shows "sorted_wrt (<) (insert_at (length (filter (\<lambda>x. x < k) ks)) k ks)"
  using assms
  by (auto simp: insert_at_def sorted_take_filter sorted_wrt_append sorted_wrt_filter not_less order_le_less)

lemma insert_at_set: "i \<le> length xs \<Longrightarrow> set (insert_at i x xs) = insert x (set xs)"
  by (metis Un_insert_right append_take_drop_id insert_at_def list.set(2) set_append)

lemma nonces_insert_at: "nonces (insert_at i t q) = insert_at i (tx_nonce t) (nonces q)"
  by (simp add: nonces_def insert_at_def take_map drop_map)

lemma nonces_remove_at: "nonces (remove_at i q) = remove_at i (nonces q)"
  by (simp add: nonces_def remove_at_def take_map drop_map)

lemma remove_at_sorted:
  assumes "sorted_wrt (<) ks"
  shows "sorted_wrt (<) (remove_at i ks)"
proof -
  have "sorted_wrt (<) (take i ks @ drop i ks)" using assms by simp
  then have "\<forall>x \<in> set (take i ks). \<forall>y \<in> set (drop i ks). x < y"
    unfolding sorted_wrt_append by blast
  moreover have "set (drop (Suc i) ks) \<subseteq> set (drop i ks)"
    by (rule set_drop_subset_set_drop) simp
  ultimately show ?thesis
    using assms unfolding remove_at_def sorted_wrt_append by (auto simp: sorted_wrt_take sorted_wrt_drop)
qed

lemma remove_at_set: "set (remove_at i xs) \<subseteq> set xs"
  unfolding remove_at_def by (auto dest: in_set_takeD in_set_dropD)

lemma search_okD:
  "search_ok bs \<Longrightarrow> sorted_wrt (<) ks \<Longrightarrow> (case bs k ks of
     Inr i \<Rightarrow> i < length ks \<and> ks ! i = k
   | Inl i \<Rightarrow> k \<notin> set ks \<and> i = length (filter (\<lambda>x. x < k) ks))"
  by (simp add: search_ok_def)

lemma queue_wf_insert:
  assumes "search_ok bs" and "queue_wf a q" and "sender_of t = a" and "bs (tx_nonce t) (nonces q) = Inl i"
  shows "queue_wf a (insert_at i t q) \<and> i \<le> length q \<and> tx_nonce t \<notin> set (nonces q)"
proof -
  have s: "sorted_wrt (<) (nonces q)" using assms(2) by (simp add: queue_wf_def)
  have i: "tx_nonce t \<notin> set (nonces q)" "i = length (filter (\<lambda>x. x < tx_nonce t) (nonces q))"
    using search_okD [OF assms(1) s, of "tx_nonce t"] assms(4) by simp_all
  then have le: "i \<le> length q" by (metis length_filter_le nonces_simps(1))
  moreover have "sorted_wrt (<) (nonces (insert_at i t q))"
    using insert_at_sorted [OF s i(1)] i(2) by (simp add: nonces_insert_at)
  ultimately show ?thesis
    using i(1) assms(2,3) by (simp add: queue_wf_def insert_at_set)
qed

lemma queue_wf_replace:
  assumes "queue_wf a q" and "i < length q" and "tx_nonce (q ! i) = tx_nonce t" and "sender_of t = a"
  shows "queue_wf a (q[i := t])"
proof -
  have "nonces (q[i := t]) = nonces q"
    using assms(2,3) by (simp add: nonces_def map_update list_update_same_conv)
  then show ?thesis
    using assms set_update_subset_insert [of q i t] by (auto simp: queue_wf_def)
qed

lemma queue_wf_remove: "queue_wf a q \<Longrightarrow> queue_wf a (remove_at i q)"
  using remove_at_set [of i q] by (auto simp: queue_wf_def nonces_remove_at remove_at_sorted)

lemma search_Inr:
  assumes "search_ok bs" and "queue_wf a q" and "bs k (nonces q) = Inr i"
  shows "i < length q" "tx_nonce (q ! i) = k"
proof -
  have "sorted_wrt (<) (nonces q)" using assms(2) by (simp add: queue_wf_def)
  from search_okD [OF assms(1) this, of k] have "i < length (nonces q) \<and> nonces q ! i = k"
    unfolding assms(3) by simp
  then show "i < length q" "tx_nonce (q ! i) = k" by auto
qed

subsection \<open>Every operation keeps the pool well-formed\<close>

lemma promote_loop_wf:
  "search_ok bs \<Longrightarrow> mempool_wf m \<Longrightarrow> mempool_wf (promote_loop bs a n m)"
proof (induction bs a n m rule: promote_loop.induct)
  case (1 bs a n m)
  show ?case
  proof (cases "map_of (queued_transactions m) a")
    case None
    then show ?thesis using 1 by (subst promote_loop.simps) simp
  next
    case (Some q)
    have q: "queue_wf a q"
      using 1(3) Some by (simp add: mempool_wf_def queues_wf_def)
    show ?thesis
    proof (cases "bs n (nonces q)")
      case (Inl i)
      then show ?thesis using 1 Some by (subst promote_loop.simps) simp
    next
      case (Inr pos)
      define t where "t = q ! pos"
      define m1 where "m1 = m\<lparr>queued_transactions := AList.update a (remove_at pos q) (queued_transactions m)\<rparr>"
      define p where "p = queue_of (pending_transactions m1) a"
      define p' where "p' = (case bs (tx_nonce t) (nonces p) of Inr _ \<Rightarrow> p | Inl p_pos \<Rightarrow> insert_at p_pos t p)"
      note pos = search_Inr [OF 1(2) q Inr]
      have t: "sender_of t = a" using q pos by (simp add: queue_wf_def t_def)
      have m1: "mempool_wf m1"
        using 1(3) q by (simp add: m1_def mempool_wf_def queues_wf_update queue_wf_remove)
      then have p: "queue_wf a p" by (simp add: p_def mempool_wf_def queue_of_wf)
      have "queue_wf a p'"
        using p queue_wf_insert [OF 1(2) p t] by (auto simp: p'_def split: sum.splits)
      with m1 have "mempool_wf (m1\<lparr>pending_transactions := AList.update a p' (pending_transactions m1)\<rparr>)"
        by (simp add: mempool_wf_def queues_wf_update)
      with 1(1) [OF Some Inr pos(1) t_def m1_def p_def p'_def 1(2)]
      have "mempool_wf (promote_loop bs a (n + 1) (m1\<lparr>pending_transactions := AList.update a p' (pending_transactions m1)\<rparr>))"
        by blast
      moreover have "promote_loop bs a n m =
          promote_loop bs a (n + 1) (m1\<lparr>pending_transactions := AList.update a p' (pending_transactions m1)\<rparr>)"
        unfolding p'_def p_def m1_def t_def
        by (subst promote_loop.simps) (simp only: Some Inr pos(1) option.case sum.case Let_def if_True)
      ultimately show ?thesis by simp
    qed
  qed
qed

lemma promote_queued_wf: "search_ok bs \<Longrightarrow> mempool_wf m \<Longrightarrow> mempool_wf (promote_queued bs a n m)"
  using promote_loop_wf [of bs m a n]
  by (auto simp: promote_queued_def Let_def mempool_wf_def queues_wf_delete)

lemma drop_data_queues [simp]:
  "pending_transactions (drop_data t m) = pending_transactions m"
  "queued_transactions (drop_data t m) = queued_transactions m" "mp_base_fee (drop_data t m) = mp_base_fee m"
  by (simp_all add: drop_data_def)

lemma set_queue_wf: "mempool_wf m \<Longrightarrow> queue_wf a q \<Longrightarrow> mempool_wf (set_queue b a q m)"
  by (simp add: set_queue_def mempool_wf_def queues_wf_update)

lemma sel_queue_wf: "mempool_wf m \<Longrightarrow> queue_wf a (queue_of (sel_queues b m) a)"
  by (simp add: sel_queues_def mempool_wf_def queue_of_wf)

lemma place_in_queue_wf:
  assumes "search_ok bs" and "mempool_wf m" and "sender_of t = a"
  shows "mempool_wf (snd (place_in_queue bs a t b m))"
proof -
  let ?q = "queue_of (sel_queues b m) a"
  have q: "queue_wf a ?q" using assms(2) by (rule sel_queue_wf)
  show ?thesis
  proof (cases "bs (tx_nonce t) (nonces ?q)")
    case (Inl i)
    note w = queue_wf_insert [OF assms(1) q assms(3) Inl]
    have "\<not> (i < length ?q \<and> tx_nonce (?q ! i) = tx_nonce t)"
      using w by (metis image_eqI nonces_simps(3) nth_mem)
    then have "snd (place_in_queue bs a t b m) = (let m' = set_queue b a (insert_at i t ?q) m
        in if b then promote_queued bs a (tx_nonce t + 1) m' else m')"
      by (simp only: place_in_queue_def Let_def Inl sum.case if_False snd_conv)
    with w assms(1) set_queue_wf [OF assms(2), of a "insert_at i t ?q" b] show ?thesis
      by (cases b) (simp_all only: Let_def promote_queued_wf if_True if_False)
  next
    case (Inr i)
    note w = search_Inr [OF assms(1) q Inr]
    have "mempool_wf (drop_data (?q ! i) m)" using assms(2) by (simp add: mempool_wf_def)
    then have r: "mempool_wf (set_queue b a (?q[i := t]) (drop_data (?q ! i) m))"
      using queue_wf_replace [OF q w assms(3)] by (rule set_queue_wf)
    have "snd (place_in_queue bs a t b m) \<in>
        {set_queue b a (?q[i := t]) (drop_data (?q ! i) m), set_queue b a ?q m}"
      by (simp only: place_in_queue_def Let_def Inr sum.case w if_True simp_thms split: if_splits) simp
    with r assms(2) q set_queue_wf show ?thesis by auto
  qed
qed

lemma pop_back_wf: "queues_wf qs \<Longrightarrow> queues_wf (pop_back a qs)"
proof -
  assume w: "queues_wf qs"
  have "queue_wf a (butlast (queue_of qs a))"
    using queue_of_wf [OF w, of a] by (auto simp: queue_wf_def nonces_def map_butlast dest: in_set_butlastD)
      (metis append_butlast_last_id butlast.simps(1) sorted_wrt_append)
  with w show ?thesis
    by (simp add: pop_back_def Let_def queues_wf_update queues_wf_delete)
qed

lemma enforce_loop_wf: "enforce_loop k m = Inr m' \<Longrightarrow> mempool_wf m \<Longrightarrow> mempool_wf m'"
proof (induction k m rule: enforce_loop.induct)
  case (1 k m)
  have e: "mempool_wf (evict v m)" for v
    using 1(3) by (cases v) (simp add: evict_def mempool_wf_def pop_back_wf)
  show ?case
  proof (cases "mempool_len m > k")
    case False
    with 1 show ?thesis by (subst (asm) (2) enforce_loop.simps) simp
  next
    case True
    with 1(2) obtain w where w: "find_worst m = Inr w"
      by (subst (asm) enforce_loop.simps) (auto simp: rbind_Inr_iff)
    show ?thesis
    proof (cases "\<exists>v. w = Some v \<and> mempool_len (evict v m) < mempool_len m")
      case False
      with 1(2,3) True w show ?thesis
        by (subst (asm) enforce_loop.simps) (auto split: option.splits if_splits)
    next
      case T: True
      then obtain v where v: "w = Some v" "mempool_len (evict v m) < mempool_len m" by blast
      with 1(2) True w have "enforce_loop k (evict v m) = Inr m'"
        by (subst (asm) enforce_loop.simps) simp
      with 1(1) [OF True v(2)] e show ?thesis by blast
    qed
  qed
qed

lemma enforce_capacity_wf: "enforce_capacity k m = Inr m' \<Longrightarrow> mempool_wf m \<Longrightarrow> mempool_wf m'"
  by (auto simp: enforce_capacity_def enforce_loop_wf split: if_splits)

lemma add_transaction_wf:
  assumes "search_ok bs" and "mempool_wf m" and "add_transaction bs coin t n m = Inr (r, m')"
  shows "mempool_wf m'"
proof (cases "tx_nonce t < n")
  case False
  with assms(3) obtain m1 where m1: "(if coin then enforce_capacity MAX_MEMPOOL_SIZE m else Inr m) = Inr m1"
    and r: "(r, m') = place_in_queue bs (sender_of t) t (tx_nonce t \<le> next_pending_nonce m (sender_of t) n) m1"
    by (auto simp: add_transaction_def insert_into_queue_def rbind_Inr_iff)
  have "mempool_wf m1"
    using m1 assms(2) enforce_capacity_wf by (auto split: if_splits)
  from place_in_queue_wf [OF assms(1) this refl] show ?thesis
    by (metis r snd_conv)
qed (use assms in \<open>simp add: add_transaction_def\<close>)

lemma filter_queues_wf:
  assumes "queues_wf qs"
  shows "queues_wf (filter (\<lambda>(a, q). q \<noteq> []) (map (\<lambda>(a, q). (a, filter P q)) qs))"
proof -
  have d: "distinct (map fst (map (\<lambda>(a, q). (a, filter P q)) qs))"
    using assms by (simp add: queues_wf_def case_prod_unfold comp_def)
  have w: "queue_wf a (filter P q)" if "(a, q) \<in> set qs" for a q
  proof -
    have "queue_wf a q" using that assms by (simp add: queues_wf_def)
    then show ?thesis
      by (auto simp: queue_wf_def nonces_def sorted_wrt_map sorted_wrt_filter)
  qed
  show ?thesis
    unfolding queues_wf_def
    using d w by (auto intro: distinct_map_filter dest!: map_of_SomeD)
qed

lemma fold_drop_data_queues [simp]:
  "pending_transactions (fold drop_data ts m) = pending_transactions m"
  "queued_transactions (fold drop_data ts m) = queued_transactions m"
  by (induction ts arbitrary: m) simp_all

lemma remove_transactions_wf: "mempool_wf m \<Longrightarrow> mempool_wf (remove_transactions hs m)"
  by (simp add: remove_transactions_def Let_def mempool_wf_def filter_queues_wf)

lemma pop_front_wf: "queues_wf qs \<Longrightarrow> queues_wf (pop_front a qs)"
proof -
  assume w: "queues_wf qs"
  have "queue_wf a (tl (queue_of qs a))"
    using queue_of_wf [OF w, of a] by (cases "queue_of qs a") (auto simp: queue_wf_def)
  with w show ?thesis
    by (simp add: pop_front_def Let_def queues_wf_update queues_wf_delete)
qed

lemma pop_loop_wf: "pop_loop n m = Inr (ts, m') \<Longrightarrow> mempool_wf m \<Longrightarrow> mempool_wf m'"
proof (induction n arbitrary: m ts)
  case (Suc n)
  from Suc.prems(1) obtain best where b: "scan_tip (mp_base_fee m) (pending_transactions m) (None, 0) = Inr best"
    by (auto simp: rbind_Inr_iff)
  show ?case
  proof (cases best)
    case (Some a)
    let ?t = "hd (queue_of (pending_transactions m) a)"
    let ?m = "drop_data ?t (m\<lparr>pending_transactions := pop_front a (pending_transactions m)\<rparr>)"
    from Suc.prems(1) b Some obtain ts' where "pop_loop n ?m = Inr (ts', m')"
      by (auto simp: rbind_Inr_iff Let_def)
    moreover have "mempool_wf ?m" using Suc.prems(2) by (simp add: mempool_wf_def pop_front_wf)
    ultimately show ?thesis by (rule Suc.IH)
  qed (use Suc.prems b in simp)
qed simp

lemma promote_all_wf: "search_ok bs \<Longrightarrow> mempool_wf m \<Longrightarrow> mempool_wf (promote_all bs m)"
proof -
  have "mempool_wf (fold (\<lambda>a m. let q = queue_of (pending_transactions m) a
      in if q = [] then m else promote_queued bs a (tx_nonce (last q) + 1) m) as m)"
    if "search_ok bs" "mempool_wf m" for as m
    using that(2) by (induction as arbitrary: m) (simp_all add: Let_def promote_queued_wf that(1))
  then show "search_ok bs \<Longrightarrow> mempool_wf m \<Longrightarrow> mempool_wf (promote_all bs m)"
    by (simp add: promote_all_def)
qed

text \<open>C22: the pool stays well-formed under every operation: no sender has two queues, every queue holds
  only transactions of its sender, in strictly increasing nonce order, hence never two with the same nonce,
  whatever is added (with or without the random capacity check), promoted, peeked, popped, evicted or removed.\<close>

theorem mempool_wf_invariant:
  assumes "search_ok bs" and "mempool_wf m"
  shows "(\<forall>coin t n r m'. add_transaction bs coin t n m = Inr (r, m') \<longrightarrow> mempool_wf m') \<and>
    (\<forall>a n. mempool_wf (promote_queued bs a n m)) \<and>
    (\<forall>k m'. enforce_capacity k m = Inr m' \<longrightarrow> mempool_wf m') \<and>
    (\<forall>hs. mempool_wf (remove_transactions hs m)) \<and>
    (\<forall>n. mempool_wf (snd (peek_transactions bs n m))) \<and>
    (\<forall>n ts m'. pop_transactions n m = Inr (ts, m') \<longrightarrow> mempool_wf m') \<and> mempool_wf (clear m)"
proof (intro conjI allI impI)
  show "mempool_wf (snd (peek_transactions bs n m))" for n
    using assms by (simp add: peek_transactions_def Let_def promote_all_wf)
  show "mempool_wf m'" if "pop_transactions n m = Inr (ts, m')" for n ts m'
    using that assms(2) unfolding pop_transactions_def by (rule pop_loop_wf)
  show "mempool_wf (clear m)"
    by (simp add: clear_def mempool_wf_def queues_wf_def)
qed (use assms add_transaction_wf promote_queued_wf enforce_capacity_wf remove_transactions_wf in blast)+

end
