(* ===== verification/MempoolAdd.thy ===== *)
theory MempoolAdd
  imports Mempool "HOL-Library.Sublist"
begin

section \<open>Transaction pool: adding and nonces\<close>

text \<open>
  What \<open>add_transaction\<close> promises of its result, the nonce a sender gets next, and two behaviours of
  \<^verbatim>\<open>mempool.rs\<close> that its comments do not announce.  The witnesses run the pool with a
  linear search in the place of the binary search of the \<open>im\<close> crate.
\<close>

subsection \<open>What adding a transaction does\<close>

lemma promote_loop_keeps:
  "t \<in> set (queue_of (pending_transactions m) b) \<Longrightarrow> t \<in> set (queue_of (pending_transactions (promote_loop bs a n m)) b)"
proof (induction bs a n m rule: promote_loop.induct)
  case (1 bs a n m)
  have ins: "set p \<subseteq> set (insert_at i x p)" for i and x :: tx and p
  proof -
    have "set p = set (take i p) \<union> set (drop i p)" by (metis append_take_drop_id set_append)
    then show ?thesis by (auto simp: insert_at_def)
  qed
  show ?case
  proof (cases "map_of (queued_transactions m) a")
    case None
    then show ?thesis using 1 by (subst promote_loop.simps) simp
  next
    case (Some q)
    show ?thesis
    proof (cases "\<exists>pos. bs n (nonces q) = Inr pos \<and> pos < length q")
      case False
      then show ?thesis using 1(2) Some by (subst promote_loop.simps) (auto split: sum.splits)
    next
      case True
      then obtain pos where pos: "bs n (nonces q) = Inr pos" "pos < length q" by blast
      define t' where "t' = q ! pos"
      define m1 where "m1 = m\<lparr>queued_transactions := AList.update a (remove_at pos q) (queued_transactions m)\<rparr>"
      define p where "p = queue_of (pending_transactions m1) a"
      define p' where "p' = (case bs (tx_nonce t') (nonces p) of Inr _ \<Rightarrow> p | Inl p_pos \<Rightarrow> insert_at p_pos t' p)"
      have "set p \<subseteq> set p'" using ins by (auto simp: p'_def split: sum.splits)
      then have "t \<in> set (queue_of (pending_transactions
          (m1\<lparr>pending_transactions := AList.update a p' (pending_transactions m1)\<rparr>)) b)"
        using 1(2) by (auto simp: queue_of_update p_def m1_def)
      note IH = 1(1) [OF Some pos t'_def m1_def p_def p'_def this]
      moreover have "promote_loop bs a n m =
          promote_loop bs a (n + 1) (m1\<lparr>pending_transactions := AList.update a p' (pending_transactions m1)\<rparr>)"
        unfolding p'_def p_def m1_def t'_def
        by (subst promote_loop.simps) (simp only: Some pos option.case sum.case Let_def if_True)
      ultimately show ?thesis by simp
    qed
  qed
qed

lemma promote_queued_pending:
  "pending_transactions (promote_queued bs a n m) = pending_transactions (promote_loop bs a n m)"
  by (simp add: promote_queued_def Let_def)

lemma in_pool_iff:
  "t \<in> set (get_all_transactions m) \<longleftrightarrow>
    (\<exists>e \<in> set (pending_transactions m) \<union> set (queued_transactions m). t \<in> set (snd e))"
  by (auto simp: get_all_transactions_def)

lemma in_queue_of: "t \<in> set (queue_of qs a) \<Longrightarrow> \<exists>e \<in> set qs. t \<in> set (snd e)"
  by (cases "map_of qs a") (auto simp: queue_of_def dest!: map_of_SomeD intro: bexI [of _ "(a, _)"])

lemma queue_of_in_pool:
  "t \<in> set (queue_of (pending_transactions m) a) \<or> t \<in> set (queue_of (queued_transactions m) a) \<Longrightarrow>
    t \<in> set (get_all_transactions m)"
  unfolding in_pool_iff using in_queue_of by blast

lemma place_in_queue_cases:
  fixes a :: address and b :: bool and t :: tx
  assumes "search_ok bs" and "mempool_wf m"
  defines "q \<equiv> queue_of (sel_queues b m) a"
  obtains (fresh) i where "tx_nonce t \<notin> set (nonces q)" "i \<le> length q"
      "i = length (filter (\<lambda>x. x < tx_nonce t) (nonces q))"
      "place_in_queue bs a t b m = (True, let m' = set_queue b a (insert_at i t q) m
        in if b then promote_queued bs a (tx_nonce t + 1) m' else m')"
  | (replaced) i where "i < length q" "tx_nonce (q ! i) = tx_nonce t"
      "unwrap_or (tx_gas_price t) 0 \<ge>
        unwrap_or (tx_gas_price (q ! i)) 0 + unwrap_or (tx_gas_price (q ! i)) 0 div 10"
      "place_in_queue bs a t b m = (True, set_queue b a (q[i := t]) (drop_data (q ! i) m))"
  | (underpriced) i where "i < length q" "tx_nonce (q ! i) = tx_nonce t"
      "unwrap_or (tx_gas_price t) 0 <
        unwrap_or (tx_gas_price (q ! i)) 0 + unwrap_or (tx_gas_price (q ! i)) 0 div 10"
      "place_in_queue bs a t b m = (False, set_queue b a q m)"
proof (cases "bs (tx_nonce t) (nonces q)")
  case (Inl i)
  have w: "queue_wf a q" unfolding q_def using assms(2) by (rule sel_queue_wf)
  then have "sorted_wrt (<) (nonces q)" by (simp add: queue_wf_def)
  from search_okD [OF assms(1) this, of "tx_nonce t"] Inl
  have i: "tx_nonce t \<notin> set (nonces q)" "i = length (filter (\<lambda>x. x < tx_nonce t) (nonces q))" by simp_all
  then have le: "i \<le> length q" by (metis length_filter_le nonces_simps(1))
  have "\<not> (i < length q \<and> tx_nonce (q ! i) = tx_nonce t)"
    using i(1) by (metis image_eqI nonces_simps(3) nth_mem)
  then have "place_in_queue bs a t b m = (True, let m' = set_queue b a (insert_at i t q) m
        in if b then promote_queued bs a (tx_nonce t + 1) m' else m')"
    unfolding place_in_queue_def q_def [symmetric] Let_def Inl by (simp only: sum.case if_False)
  then show thesis by (rule fresh [OF i(1) le i(2)])
next
  case (Inr i)
  have "queue_wf a q" unfolding q_def using assms(2) by (rule sel_queue_wf)
  note i = search_Inr [OF assms(1) this Inr]
  show thesis
  proof (cases "unwrap_or (tx_gas_price t) 0 \<ge>
      unwrap_or (tx_gas_price (q ! i)) 0 + unwrap_or (tx_gas_price (q ! i)) 0 div 10")
    case True
    show thesis
      by (rule replaced [OF i True])
        (unfold place_in_queue_def q_def [symmetric] Let_def Inr, simp only: sum.case if_True i True simp_thms)
  next
    case False
    then have lt: "unwrap_or (tx_gas_price t) 0 <
        unwrap_or (tx_gas_price (q ! i)) 0 + unwrap_or (tx_gas_price (q ! i)) 0 div 10" by simp
    show thesis
      by (rule underpriced [OF i lt])
        (unfold place_in_queue_def q_def [symmetric] Let_def Inr, simp only: sum.case if_True if_False i False simp_thms)
  qed
qed

lemma set_queue_in_pool: "t \<in> set q \<Longrightarrow> t \<in> set (get_all_transactions (set_queue b a q m))"
  by (rule queue_of_in_pool [of _ _ a]) (cases b; simp add: set_queue_def queue_of_update)

lemma place_in_queue_True:
  assumes "search_ok bs" and "mempool_wf m" and "place_in_queue bs a t b m = (True, m')"
  shows "t \<in> set (get_all_transactions m')"
  using assms(1,2)
proof (cases rule: place_in_queue_cases [where bs = bs and m = m and a = a and b = b and t = t])
  case (fresh i)
  let ?q = "insert_at i t (queue_of (sel_queues b m) a)"
  have t: "t \<in> set ?q" using fresh(2) by (simp add: insert_at_set)
  show ?thesis
  proof (cases b)
    case True
    with t have "t \<in> set (queue_of (pending_transactions (set_queue b a ?q m)) a)"
      by (simp add: set_queue_def queue_of_update)
    note keeps = promote_loop_keeps [OF this, of bs a "tx_nonce t + 1"]
    have "m' = promote_queued bs a (tx_nonce t + 1) (set_queue b a ?q m)"
      using fresh(4) assms(3) True by (simp add: Let_def)
    with keeps show ?thesis
      by (intro queue_of_in_pool [of _ _ a]) (simp add: promote_queued_pending)
  next
    case False
    then have "m' = set_queue b a ?q m" using fresh(4) assms(3) by simp
    with t set_queue_in_pool show ?thesis by simp
  qed
next
  case (replaced i)
  then show ?thesis using assms(3) by (auto intro!: set_queue_in_pool set_update_memI)
qed (use assms(3) in simp)

lemma add_transaction_decompose:
  assumes "search_ok bs" and "mempool_wf m" and "add_transaction bs coin t n m = Inr (r, m')" and "n \<le> tx_nonce t"
  obtains m1 b where "(if coin then enforce_capacity MAX_MEMPOOL_SIZE m else Inr m) = Inr m1" "mempool_wf m1"
    "b \<longleftrightarrow> tx_nonce t \<le> next_pending_nonce m (sender_of t) n"
    "place_in_queue bs (sender_of t) t b m1 = (r, m')"
proof -
  from assms(3,4) obtain m1 where m1: "(if coin then enforce_capacity MAX_MEMPOOL_SIZE m else Inr m) = Inr m1"
    and r: "place_in_queue bs (sender_of t) t (tx_nonce t \<le> next_pending_nonce m (sender_of t) n) m1 = (r, m')"
    by (auto simp: add_transaction_def insert_into_queue_def rbind_Inr_iff not_less [symmetric])
  have "mempool_wf m1"
    using m1 assms(2) enforce_capacity_wf by (auto split: if_splits)
  with m1 r that show thesis by blast
qed

definition linear_search :: search where
  "linear_search k ks = (let i = length (takeWhile (\<lambda>x. x < k) ks)
     in if i < length ks \<and> ks ! i = k then Inr i else Inl i)"

lemma linear_search_ok: "search_ok linear_search"
proof -
  have "case linear_search k ks of Inr i \<Rightarrow> i < length ks \<and> ks ! i = k
      | Inl i \<Rightarrow> k \<notin> set ks \<and> i = length (filter (\<lambda>x. x < k) ks)" if "sorted_wrt (<) ks" for k ks
    using that
  proof (induction ks)
    case (Cons x ks)
    show ?case
    proof (cases "x < k")
      case True
      have "linear_search k (x # ks) = map_sum Suc Suc (linear_search k ks)"
        using True by (auto simp: linear_search_def Let_def)
      then show ?thesis using Cons True by (auto split: sum.splits)
    next
      case False
      with Cons.prems have "filter (\<lambda>x. x < k) ks = []" "x \<noteq> k \<Longrightarrow> k \<notin> set ks"
        by (force simp: filter_empty_conv)+
      with False show ?thesis by (auto simp: linear_search_def)
    qed
  qed (simp add: linear_search_def)
  then show ?thesis by (simp add: search_ok_def)
qed

definition sample_tx :: "tx_type \<Rightarrow> u64 \<Rightarrow> u128 option \<Rightarrow> tx" where
  "sample_tx k n price = \<lparr>tx_kind = k, tx_hash = ucast n, tx_signer = Some 1, tx_nonce = n,
     tx_gas_limit = 21000, tx_gas_price = price, tx_max_fee_per_gas = 1000,
     tx_max_priority_fee_per_gas = Some 1, tx_blob_versioned_hashes = None,
     tx_max_fee_per_blob_gas = None, tx_chain_id = Some 1, tx_to = Some 2, tx_value = 0, tx_input = [],
     tx_access_list = None, tx_authorization_list = None\<rparr>"

definition sample_pool :: "tx list \<Rightarrow> tx list \<Rightarrow> mempool" where
  "sample_pool p q = (mempool_new 7)\<lparr>pending_transactions := [(1, p)], queued_transactions := [(1, q)]\<rparr>"

lemma sample_pool_wf: "queue_wf 1 p \<Longrightarrow> queue_wf 1 q \<Longrightarrow> mempool_wf (sample_pool p q)"
  by (simp add: sample_pool_def mempool_wf_def queues_wf_def)

lemma sample_tx_simps [simp]:
  "tx_nonce (sample_tx k n p) = n" "tx_gas_price (sample_tx k n p) = p" "sender_of (sample_tx k n p) = 1"
  "tx_kind (sample_tx k n p) = k" "tx_gas_limit (sample_tx k n p) = 21000"
  "tx_max_fee_per_gas (sample_tx k n p) = 1000" "tx_blob_versioned_hashes (sample_tx k n p) = None"
  by (simp_all add: sample_tx_def sender_of_def)

lemma sample_pool_simps [simp]:
  "pending_transactions (sample_pool p q) = [(1, p)]" "queued_transactions (sample_pool p q) = [(1, q)]"
  by (simp_all add: sample_pool_def)

theorem mempool_wf_invariant_witness:
  "\<exists>m'. add_transaction linear_search False (sample_tx Legacy 6 (Some 9)) 5
      (sample_pool [sample_tx Legacy 5 (Some 9)] []) = Inr (True, m') \<and> mempool_wf m'"
proof -
  let ?m = "sample_pool [sample_tx Legacy 5 (Some 9)] []"
  have w: "mempool_wf ?m" by (rule sample_pool_wf) (simp_all add: queue_wf_def)
  have "\<exists>m'. add_transaction linear_search False (sample_tx Legacy 6 (Some 9)) 5 ?m = Inr (True, m')"
    by (simp add: add_transaction_def insert_into_queue_def place_in_queue_def sel_queues_def queue_of_def
        linear_search_def Let_def next_pending_nonce_def max_def)
  with mempool_wf_invariant [OF linear_search_ok w] show ?thesis by blast
qed

text \<open>C38: what the answer of adding a transaction says.  After true the transaction is in the pool.  After false, either the nonce
  was already used on chain and the pool is unchanged, or the pool holds a transaction of the same sender with the same
  nonce and the new gas price is below the old one plus ten percent; that transaction may be the same one, when it is
  submitted again.\<close>

theorem add_transaction_outcome:
  assumes "search_ok bs" and "mempool_wf m" and "add_transaction bs coin t n m = Inr (r, m')"
  shows "if r then t \<in> set (get_all_transactions m')
    else tx_nonce t < n \<and> m' = m \<or>
      (\<exists>old \<in> set (get_all_transactions m'). sender_of old = sender_of t \<and> tx_nonce old = tx_nonce t \<and>
         unwrap_or (tx_gas_price t) 0 < unwrap_or (tx_gas_price old) 0 + unwrap_or (tx_gas_price old) 0 div 10)"
proof (cases "tx_nonce t < n")
  case False
  then have "n \<le> tx_nonce t" by simp
  from add_transaction_decompose [OF assms this] obtain m1 b where
    w: "mempool_wf m1" and p: "place_in_queue bs (sender_of t) t b m1 = (r, m')" by metis
  show ?thesis
  proof (cases r)
    case True
    with place_in_queue_True [OF assms(1) w] p show ?thesis by simp
  next
    case False
    let ?q = "queue_of (sel_queues b m1) (sender_of t)"
    have "\<exists>i < length ?q. tx_nonce (?q ! i) = tx_nonce t \<and> m' = set_queue b (sender_of t) ?q m1 \<and>
        unwrap_or (tx_gas_price t) 0 < unwrap_or (tx_gas_price (?q ! i)) 0 + unwrap_or (tx_gas_price (?q ! i)) 0 div 10"
      using assms(1) w
      by (cases rule: place_in_queue_cases [where bs = bs and m = m1 and a = "sender_of t" and b = b and t = t])
        (use p False in auto)
    then obtain i where i: "i < length ?q" "tx_nonce (?q ! i) = tx_nonce t" "m' = set_queue b (sender_of t) ?q m1"
      "unwrap_or (tx_gas_price t) 0 < unwrap_or (tx_gas_price (?q ! i)) 0 + unwrap_or (tx_gas_price (?q ! i)) 0 div 10"
      by blast
    moreover have "sender_of (?q ! i) = sender_of t"
      using sel_queue_wf [OF w, of "sender_of t" b] i(1) by (simp add: queue_wf_def)
    ultimately show ?thesis
      using False set_queue_in_pool [of "?q ! i" ?q] by auto
  qed
qed (use assms(3) in \<open>simp add: add_transaction_def\<close>)

theorem add_transaction_outcome_witness:
  "add_transaction linear_search False (sample_tx Legacy 5 (Some 109)) 5 (sample_pool [sample_tx Legacy 5 (Some 100)] []) =
      Inr (False, sample_pool [sample_tx Legacy 5 (Some 100)] []) \<and>
   sample_tx Legacy 5 (Some 100) \<in> set (get_all_transactions (sample_pool [sample_tx Legacy 5 (Some 100)] []))"
proof -
  let ?o = "sample_tx Legacy 5 (Some 100)" and ?m = "sample_pool [sample_tx Legacy 5 (Some 100)] []"
  have w: "mempool_wf ?m" by (rule sample_pool_wf) (simp_all add: queue_wf_def)
  have a: "add_transaction linear_search False (sample_tx Legacy 5 (Some 109)) 5 ?m = Inr (False, ?m)"
    by (simp add: add_transaction_def insert_into_queue_def place_in_queue_def sel_queues_def queue_of_def set_queue_def
        linear_search_def Let_def next_pending_nonce_def max_def sample_pool_def)
  from add_transaction_outcome [OF linear_search_ok w a]
  show ?thesis using a by (auto simp: get_all_transactions_def)
qed

subsection \<open>Next nonce of a sender\<close>

lemma less_plus_one: "x < - 1 \<Longrightarrow> x < x + (1 :: 'a::len word)"
  using inc_less_eq_triv_imp [of x] by (auto simp: not_less [symmetric])

lemma le_last_nonce:
  assumes "queue_wf a q" and "t \<in> set q"
  shows "tx_nonce t \<le> tx_nonce (last q)"
  using assms
  by (induction q) (auto simp: queue_wf_def order_less_imp_le split: if_splits)

lemma expected_nonce_spec:
  assumes "sorted_wrt (<) (nonces q)" and "\<forall>t \<in> set q. tx_nonce t < - 1"
  shows "s \<le> expected_nonce q s \<and> expected_nonce q s \<notin> set (nonces q) \<and>
    {s ..< expected_nonce q s} \<subseteq> set (nonces q)"
  using assms
proof (induction q arbitrary: s)
  case (Cons t q)
  let ?n = "tx_nonce t"
  have later: "\<forall>x \<in> set (nonces q). ?n < x" using Cons.prems(1) by simp
  consider "?n = s" | "?n > s" | "?n < s" using linorder_less_linear [of ?n s] by blast
  then show ?case
  proof cases
    case 1
    have up: "s < s + 1" using Cons.prems(2) 1 by (simp add: less_plus_one)
    have IH: "s + 1 \<le> expected_nonce q (s + 1) \<and> expected_nonce q (s + 1) \<notin> set (nonces q) \<and>
        {s + 1 ..< expected_nonce q (s + 1)} \<subseteq> set (nonces q)"
      using Cons by simp
    moreover have "{s ..< e} \<subseteq> insert s {s + 1 ..< e}" for e
      using inc_le by (force simp: order_le_less)
    ultimately have "s < expected_nonce q (s + 1)"
      "{s ..< expected_nonce q (s + 1)} \<subseteq> insert s (set (nonces q))"
      using up order_less_le_trans by blast+
    with IH 1 show ?thesis by (simp add: order_less_imp_le order_less_imp_not_eq2)
  next
    case 2
    with later have "s \<notin> set (nonces q)" by (metis order_less_asym)
    with 2 show ?thesis by simp
  next
    case 3
    have "s \<le> expected_nonce q s \<and> expected_nonce q s \<notin> set (nonces q) \<and>
        {s ..< expected_nonce q s} \<subseteq> set (nonces q)"
      using Cons by simp
    with 3 show ?thesis by auto
  qed
qed simp

text \<open>The next nonce offered to a sender is the least nonce from the account's on-chain nonce upwards
  that is not taken by a pending transaction of that sender: it is free, and every nonce between is taken.
  (The nonce $2^{64}-1$, where the counter would wrap, is excluded.)\<close>

theorem next_expected_nonce_least:
  fixes state_nonce :: u64
  assumes "mempool_wf m" and "\<forall>t \<in> set (queue_of (pending_transactions m) a). tx_nonce t < - 1"
  defines "e \<equiv> next_expected_nonce m a state_nonce"
  shows "state_nonce \<le> e \<and> e \<notin> set (nonces (queue_of (pending_transactions m) a)) \<and>
    (\<forall>k. state_nonce \<le> k \<longrightarrow> k < e \<longrightarrow> k \<in> set (nonces (queue_of (pending_transactions m) a)))"
proof -
  have "queue_wf a (queue_of (pending_transactions m) a)"
    using assms(1) by (simp add: mempool_wf_def queue_of_wf)
  then have "sorted_wrt (<) (nonces (queue_of (pending_transactions m) a))" by (simp add: queue_wf_def)
  moreover have "e = expected_nonce (queue_of (pending_transactions m) a) state_nonce"
    by (simp add: e_def next_expected_nonce_def queue_of_def split: option.split)
  ultimately show ?thesis
    using expected_nonce_spec [OF _ assms(2), of state_nonce] by (auto simp: subset_iff)
qed

theorem next_expected_nonce_least_witness:
  "next_expected_nonce (sample_pool [sample_tx Legacy 5 None, sample_tx Legacy 6 None, sample_tx Legacy 8 None] []) 1 5 = 7 \<and>
   7 \<notin> set (nonces [sample_tx Legacy 5 None, sample_tx Legacy 6 None, sample_tx Legacy 8 None])"
proof -
  let ?q = "[sample_tx Legacy 5 None, sample_tx Legacy 6 None, sample_tx Legacy 8 None]"
  have w: "mempool_wf (sample_pool ?q [])" by (rule sample_pool_wf) (simp_all add: queue_wf_def)
  have e: "next_expected_nonce (sample_pool ?q []) 1 5 = 7" by (simp add: next_expected_nonce_def)
  have q: "queue_of (pending_transactions (sample_pool ?q [])) 1 = ?q" by (simp add: queue_of_def)
  from next_expected_nonce_least [OF w, of 1 5] show ?thesis unfolding q e by simp
qed

subsection \<open>Two behaviours the comments of the code do not announce\<close>

text \<open>A replacement of a pending transaction that carries no \<open>gas_price\<close> (an EIP-1559 or blob
  transaction) is always accepted, whatever its fees are: the ten-percent price bump is computed from
  \<open>gas_price\<close>, which is 0 for such a transaction.\<close>

theorem dynamic_fee_replacement_unpriced:
  assumes "search_ok bs" and "mempool_wf m"
    and "old \<in> set (queue_of (pending_transactions m) (sender_of t))" and "tx_nonce old = tx_nonce t"
    and "tx_gas_price old = None" and "n \<le> tx_nonce t"
    and "\<forall>x \<in> set (queue_of (pending_transactions m) (sender_of t)). tx_nonce x < - 1"
  shows "\<exists>m'. add_transaction bs False t n m = Inr (True, m') \<and>
    t \<in> set (queue_of (pending_transactions m') (sender_of t)) \<and>
    length (queue_of (pending_transactions m') (sender_of t)) = length (queue_of (pending_transactions m) (sender_of t))"
proof -
  let ?a = "sender_of t" let ?q = "queue_of (pending_transactions m) ?a"
  have sel: "queue_of (sel_queues True m) ?a = ?q" by (simp add: sel_queues_def)
  have w: "queue_wf ?a ?q" using assms(2) by (simp add: mempool_wf_def queue_of_wf)
  then have "sorted_wrt (<) (nonces ?q)" by (simp add: queue_wf_def)
  then have uniq: "x = old" if "x \<in> set ?q" "tx_nonce x = tx_nonce t" for x
    using that assms(3,4) by (metis inj_onD nonces_def distinct_map strict_sorted_iff)
  have ne: "?q \<noteq> []" using assms(3) by auto
  have "tx_nonce t \<le> tx_nonce (last ?q)" using le_last_nonce [OF w assms(3)] assms(4) by simp
  also have "\<dots> < tx_nonce (last ?q) + 1" using assms(7) ne by (simp add: less_plus_one)
  finally have p: "tx_nonce t \<le> next_pending_nonce m ?a n"
    using ne by (simp add: next_pending_nonce_def Let_def le_max_iff_disj order_less_imp_le)
  have add: "add_transaction bs False t n m = Inr (place_in_queue bs ?a t True m)"
    using p assms(6) by (simp add: add_transaction_def insert_into_queue_def not_less [symmetric])
  show ?thesis
    using assms(1,2)
  proof (cases rule: place_in_queue_cases [where bs = bs and m = m and a = "?a" and b = True and t = t])
    case (fresh i)
    with assms(3,4) sel show ?thesis by (metis image_eqI nonces_simps(3))
  next
    case (replaced i)
    then show ?thesis
      unfolding add sel by (auto simp: set_queue_def queue_of_update intro!: set_update_memI)
  next
    case (underpriced i)
    with uniq [of "?q ! i"] assms(5) sel show ?thesis by simp
  qed
qed

theorem dynamic_fee_replacement_unpriced_witness:
  "\<exists>m'. add_transaction linear_search False (sample_tx Eip1559 5 None) 5
      (sample_pool [sample_tx Eip1559 5 None\<lparr>tx_max_fee_per_gas := 9000\<rparr>] []) = Inr (True, m') \<and>
    sample_tx Eip1559 5 None \<in> set (queue_of (pending_transactions m') 1)"
proof -
  let ?o = "sample_tx Eip1559 5 None\<lparr>tx_max_fee_per_gas := 9000\<rparr>"
  have s: "sender_of ?o = 1" by (simp add: sample_tx_def sender_of_def)
  have w: "mempool_wf (sample_pool [?o] [])"
    by (rule sample_pool_wf) (simp_all add: queue_wf_def s)
  from dynamic_fee_replacement_unpriced [OF linear_search_ok w, of ?o "sample_tx Eip1559 5 None" 5]
  show ?thesis by (auto simp: queue_of_def)
qed

text \<open>The pending queue of a sender can have nonce gaps.  A transaction at or above the current nonce
  and more than one below the first pending one goes straight in front of the pending queue, although the
  documentation of \<open>pending_transactions\<close> promises that it has no gaps.\<close>

theorem pending_gap_created:
  assumes "search_ok bs" and "mempool_wf m" and "queue_of (pending_transactions m) (sender_of t) = p # ps"
    and "tx_nonce t < tx_nonce p" and "n \<le> tx_nonce t" and "tx_nonce (last (p # ps)) < - 1"
    and "map_of (queued_transactions m) (sender_of t) = None"
  shows "\<exists>m'. add_transaction bs False t n m = Inr (True, m') \<and>
    queue_of (pending_transactions m') (sender_of t) = t # p # ps"
proof -
  let ?a = "sender_of t"
  have sel: "queue_of (sel_queues True m) ?a = p # ps" using assms(3) by (simp add: sel_queues_def)
  have w: "queue_wf ?a (p # ps)" using assms(2,3) by (metis mempool_wf_def queue_of_wf)
  have "tx_nonce t < tx_nonce (last (p # ps))" using le_last_nonce [OF w, of p] assms(4) by simp
  also have "\<dots> < tx_nonce (last (p # ps)) + 1" using assms(6) by (simp add: less_plus_one)
  finally have "tx_nonce t \<le> next_pending_nonce m ?a n"
    using assms(3) by (auto simp: next_pending_nonce_def Let_def le_max_iff_disj order_less_imp_le)
  then have add: "add_transaction bs False t n m = Inr (place_in_queue bs ?a t True m)"
    using assms(5) by (simp add: add_transaction_def insert_into_queue_def not_less [symmetric])
  have above: "\<forall>x \<in> set (p # ps). tx_nonce t < tx_nonce x"
    using w assms(4) by (auto simp: queue_wf_def)
  show ?thesis
    using assms(1,2)
  proof (cases rule: place_in_queue_cases [where bs = bs and m = m and a = "?a" and b = True and t = t])
    case (fresh i)
    have "i = 0" using fresh(3) above unfolding sel by (auto simp: filter_empty_conv nonces_def)
    then show ?thesis
      unfolding add fresh(4) sel using assms(7)
      by (simp add: Let_def promote_queued_pending insert_at_def set_queue_def)
        (subst promote_loop.simps, simp add: queue_of_update)
  next
    case (replaced i)
    with above show ?thesis unfolding sel by (metis nth_mem order_less_irrefl)
  next
    case (underpriced i)
    with above show ?thesis unfolding sel by (metis nth_mem order_less_irrefl)
  qed
qed

theorem pending_gap_created_witness:
  "\<exists>m'. add_transaction linear_search False (sample_tx Legacy 3 (Some 9)) 0
      ((mempool_new 7)\<lparr>pending_transactions := [(1, [sample_tx Legacy 5 (Some 9)])]\<rparr>) = Inr (True, m') \<and>
    nonces (queue_of (pending_transactions m') 1) = [3, 5]"
proof -
  let ?m = "(mempool_new 7)\<lparr>pending_transactions := [(1, [sample_tx Legacy 5 (Some 9)])]\<rparr>"
  have w: "mempool_wf ?m" by (simp add: mempool_new_def mempool_wf_def queues_wf_def queue_wf_def)
  from pending_gap_created [OF linear_search_ok w, of "sample_tx Legacy 3 (Some 9)" "sample_tx Legacy 5 (Some 9)" "[]" 0]
  show ?thesis by (auto simp: queue_of_def mempool_new_def)
qed

end
