(* ===== verification/MempoolLimits.thy ===== *)
theory MempoolLimits
  imports MempoolAdd
begin

section \<open>Transaction pool: capacity and block building\<close>

text \<open>
  The capacity check (\<open>enforce_capacity\<close>) and the selection of transactions for a block
  (\<open>peek_best_transactions\<close>): termination with the exact size, the bounds on gas and blobs, and the order
  in which transactions of a sender are dropped or chosen.
\<close>

subsection \<open>Capacity\<close>

lemma queues_len_delete:
  assumes "distinct (map fst qs)"
  shows "queues_len qs = length (queue_of qs a) + queues_len (AList.delete a qs)"
  using assms
proof (induction qs)
  case (Cons e qs)
  obtain b q where e: "e = (b, q)" by (cases e)
  show ?case
  proof (cases "b = a")
    case True
    with Cons.prems e have "a \<notin> fst ` set qs" by simp
    then have "AList.delete a qs = qs" by (auto simp: AList.delete_eq filter_id_conv image_iff)
    with True e show ?thesis by (simp add: queues_len_def queue_of_def)
  next
    case False
    with Cons e show ?thesis by (simp add: queues_len_def queue_of_def)
  qed
qed (simp add: queues_len_def queue_of_def)

lemma queues_len_update:
  assumes "distinct (map fst qs)"
  shows "queues_len (AList.update a q qs) = length q + queues_len (AList.delete a qs)"
proof -
  have "AList.delete a (AList.update a q qs) = AList.delete a qs" by (induction qs) auto
  moreover have "distinct (map fst (AList.update a q qs))" using assms by (rule distinct_update)
  ultimately show ?thesis by (simp add: queues_len_delete [of "AList.update a q qs" a] queue_of_update)
qed

lemma queues_len_pos: "0 < queues_len qs \<longleftrightarrow> (\<exists>e \<in> set qs. snd e \<noteq> [])"
  by (induction qs) (auto simp: queues_len_def)

lemma queue_of_mem: "distinct (map fst qs) \<Longrightarrow> (a, q) \<in> set qs \<Longrightarrow> queue_of qs a = q"
  by (simp add: queue_of_def)

lemma pop_back_len:
  assumes "queues_wf qs" and "queue_of qs a \<noteq> []"
  shows "queues_len qs = Suc (queues_len (pop_back a qs))"
proof -
  have d: "distinct (map fst qs)" using assms(1) by (simp add: queues_wf_def)
  have "map_of qs a \<noteq> None" using assms(2) by (cases "map_of qs a") (simp_all add: queue_of_def)
  then show ?thesis
    using queues_len_delete [OF d, of a] queues_len_update [OF d, of a "butlast (queue_of qs a)"] assms(2)
    by (cases "queue_of qs a" rule: rev_cases) (auto simp: pop_back_def Let_def)
qed

lemma pop_back_prefix: "prefix (queue_of (pop_back a qs) b) (queue_of qs b)"
  by (auto simp: pop_back_def Let_def queue_of_update queue_of_delete prefixeq_butlast)

lemma calculate_effective_tip_fits:
  assumes "fee < 2 ^ 128" and "tx_max_fee_per_gas t < - 1"
  shows "\<exists>x. calculate_effective_tip t fee = Inr x \<and> x < - 1"
proof -
  have le: "tx_max_fee_per_gas t - b \<le> tx_max_fee_per_gas t" if "b \<le> tx_max_fee_per_gas t" for b
    using that by (metis word_sub_le_iff word_sub_le)
  have "(0 :: u128) < - 1" by (simp add: word_gt_0)
  with assms show ?thesis
    using le order_le_less_trans [OF le assms(2)]
    by (auto simp: calculate_effective_tip_def u256_to_u128_def Let_def not_less min_less_iff_disj)
qed

lemma scan_worst_spec:
  assumes "fee < 2 ^ 128" and "\<forall>e \<in> set es. \<forall>t \<in> set (snd e). tx_max_fee_per_gas t < - 1"
  shows "\<exists>c x. scan_worst fee b es best = Inr (c, x) \<and>
    (c = fst best \<or> (\<exists>a q. (a, q) \<in> set es \<and> q \<noteq> [] \<and> c = Some (a, b))) \<and>
    (c = None \<longrightarrow> fst best = None \<and> (snd best = - 1 \<longrightarrow> x = - 1 \<and> (\<forall>e \<in> set es. snd e = [])))"
  using assms(2)
proof (induction es arbitrary: best)
  case (Cons e es)
  obtain a q where e: "e = (a, q)" by (cases e)
  have es: "\<forall>e \<in> set es. \<forall>t \<in> set (snd e). tx_max_fee_per_gas t < - 1" using Cons.prems by simp
  show ?case
  proof (cases "q = []")
    case True
    with e Cons.IH [OF es, of best] show ?thesis by auto
  next
    case False
    with Cons.prems e have "tx_max_fee_per_gas (last q) < - 1" by simp
    from calculate_effective_tip_fits [OF assms(1) this]
    obtain x where x: "calculate_effective_tip (last q) fee = Inr x" "x < - 1" by blast
    define nb where "nb = (if x < snd best then (Some (a, b), x) else best)"
    from Cons.IH [OF es, of nb] obtain c y where
      c: "scan_worst fee b es nb = Inr (c, y)"
        "c = fst nb \<or> (\<exists>a q. (a, q) \<in> set es \<and> q \<noteq> [] \<and> c = Some (a, b))"
        "c = None \<longrightarrow> fst nb = None \<and> (snd nb = - 1 \<longrightarrow> y = - 1 \<and> (\<forall>e \<in> set es. snd e = []))"
      by (elim exE conjE) (rule that)
    have "scan_worst fee b (e # es) best = Inr (c, y)" using e False x(1) c(1) by (simp add: nb_def)
    moreover have "c = fst best \<or> (\<exists>a q. (a, q) \<in> set (e # es) \<and> q \<noteq> [] \<and> c = Some (a, b))"
      using c(2) e False by (auto simp: nb_def split: if_splits)
    moreover have "c = None \<longrightarrow> fst best = None \<and> snd best \<noteq> - 1"
      using c(3) x(2) by (auto simp: nb_def split: if_splits)
    ultimately show ?thesis by (intro exI [of _ c] exI [of _ y] conjI) simp_all
  qed
next
  case Nil
  show ?case by (cases best) simp
qed

lemma find_worst_spec:
  assumes "mp_base_fee m < 2 ^ 128" and "\<forall>t \<in> set (get_all_transactions m). tx_max_fee_per_gas t < - 1"
    and "mempool_wf m" and "0 < mempool_len m"
  shows "\<exists>a b. find_worst m = Inr (Some (a, b)) \<and> queue_of (sel_queues b m) a \<noteq> [] \<and>
    (b \<longrightarrow> queues_len (queued_transactions m) = 0)"
proof -
  have fees: "\<forall>e \<in> set (queued_transactions m). \<forall>t \<in> set (snd e). tx_max_fee_per_gas t < - 1"
    "\<forall>e \<in> set (pending_transactions m). \<forall>t \<in> set (snd e). tx_max_fee_per_gas t < - 1"
    using assms(2) in_pool_iff [of _ m] by blast+
  have d: "distinct (map fst (pending_transactions m))" "distinct (map fst (queued_transactions m))"
    using assms(3) by (simp_all add: mempool_wf_def queues_wf_def)
  from scan_worst_spec [OF assms(1) fees(1), of False "(None, - 1)"] obtain c x where
    c: "scan_worst (mp_base_fee m) False (queued_transactions m) (None, - 1) = Inr (c, x)"
      "c = None \<or> (\<exists>a q. (a, q) \<in> set (queued_transactions m) \<and> q \<noteq> [] \<and> c = Some (a, False))"
      "c = None \<Longrightarrow> x = - 1 \<and> (\<forall>e \<in> set (queued_transactions m). snd e = [])" by auto
  show ?thesis
  proof (cases c)
    case None
    with c(3) have none: "x = - 1" "queues_len (queued_transactions m) = 0"
      using queues_len_pos [of "queued_transactions m"] by auto
    with assms(4) have "\<exists>e \<in> set (pending_transactions m). snd e \<noteq> []"
      using queues_len_pos [of "pending_transactions m"] by (simp add: mempool_len_def)
    with scan_worst_spec [OF assms(1) fees(2), of True "(None, - 1)"] obtain a q y where
      "scan_worst (mp_base_fee m) True (pending_transactions m) (None, - 1) = Inr (Some (a, True), y)"
      "(a, q) \<in> set (pending_transactions m)" "q \<noteq> []" by auto
    with none c(1) None show ?thesis
      using queue_of_mem [OF d(1)] by (auto simp: find_worst_def sel_queues_def)
  next
    case (Some p)
    with c(2) obtain a q where q: "(a, q) \<in> set (queued_transactions m)" "q \<noteq> []" "c = Some (a, False)" by auto
    then have "queued_transactions m \<noteq> []" by auto
    with q c(1) show ?thesis
      using queue_of_mem [OF d(2) q(1)] by (auto simp: find_worst_def sel_queues_def)
  qed
qed

lemma evict_spec:
  assumes "mempool_wf m" and "queue_of (sel_queues b m) a \<noteq> []"
  shows "mempool_len m = Suc (mempool_len (evict (a, b) m))"
    and "prefix (queue_of (pending_transactions (evict (a, b) m)) c) (queue_of (pending_transactions m) c)"
    and "prefix (queue_of (queued_transactions (evict (a, b) m)) c) (queue_of (queued_transactions m) c)"
    and "queues_len (queued_transactions (evict (a, b) m)) \<le> queues_len (queued_transactions m)"
    and "mempool_wf (evict (a, b) m)" and "mp_base_fee (evict (a, b) m) = mp_base_fee m"
    and "\<not> b \<Longrightarrow> pending_transactions (evict (a, b) m) = pending_transactions m"
  using assms pop_back_prefix [of a] pop_back_wf [of _ a]
    pop_back_len [of "pending_transactions m" a] pop_back_len [of "queued_transactions m" a]
  by (auto simp: evict_def sel_queues_def mempool_wf_def mempool_len_def)

lemma in_pool_wf_iff:
  assumes "mempool_wf m"
  shows "t \<in> set (get_all_transactions m) \<longleftrightarrow> (\<exists>a. t \<in> set (queue_of (pending_transactions m) a) \<or>
    t \<in> set (queue_of (queued_transactions m) a))"
proof -
  have "(\<exists>e \<in> set qs. t \<in> set (snd e)) \<longleftrightarrow> (\<exists>a. t \<in> set (queue_of qs a))" if "queues_wf qs" for qs
    using that queue_of_mem in_queue_of [of t qs] by (fastforce simp: queues_wf_def)
  with assms show ?thesis by (simp add: mempool_wf_def in_pool_iff bex_Un) blast
qed

lemma evict_subset:
  assumes "mempool_wf m" and "queue_of (sel_queues b m) a \<noteq> []"
  shows "set (get_all_transactions (evict (a, b) m)) \<subseteq> set (get_all_transactions m)"
  using in_pool_wf_iff [OF assms(1)] in_pool_wf_iff [OF evict_spec(5) [OF assms]]
    set_mono_prefix [OF evict_spec(2) [OF assms]] set_mono_prefix [OF evict_spec(3) [OF assms]]
  by blast

lemma enforce_loop_exact:
  assumes "mp_base_fee m < 2 ^ 128" and "\<forall>t \<in> set (get_all_transactions m). tx_max_fee_per_gas t < - 1" and "mempool_wf m"
  shows "\<exists>m'. enforce_loop k m = Inr m' \<and> mempool_len m' = min k (mempool_len m) \<and>
    (\<forall>a. prefix (queue_of (pending_transactions m') a) (queue_of (pending_transactions m) a) \<and>
         prefix (queue_of (queued_transactions m') a) (queue_of (queued_transactions m) a)) \<and>
    queues_len (queued_transactions m') \<le> queues_len (queued_transactions m) \<and>
    (0 < queues_len (queued_transactions m') \<longrightarrow> pending_transactions m' = pending_transactions m)"
  using assms
proof (induction k m rule: enforce_loop.induct)
  case (1 k m)
  show ?case
  proof (cases "mempool_len m > k")
    case False
    then show ?thesis by (subst enforce_loop.simps) simp
  next
    case True
    then have "0 < mempool_len m" by simp
    from find_worst_spec [OF 1(2-4) this] obtain a b where
      w: "find_worst m = Inr (Some (a, b))" "queue_of (sel_queues b m) a \<noteq> []"
        "b \<longrightarrow> queues_len (queued_transactions m) = 0" by blast
    note e = evict_spec [OF 1(4) w(2)]
    have less: "mempool_len (evict (a, b) m) < mempool_len m" using e(1) by simp
    have step: "enforce_loop k m = enforce_loop k (evict (a, b) m)"
      by (subst enforce_loop.simps) (simp add: True w(1) less)
    have fees: "\<forall>t \<in> set (get_all_transactions (evict (a, b) m)). tx_max_fee_per_gas t < - 1"
      using 1(3) evict_subset [OF 1(4) w(2)] by blast
    from 1(1) [OF True less _ fees e(5)] 1(2) e(6) obtain m' where
      m': "enforce_loop k (evict (a, b) m) = Inr m'" "mempool_len m' = min k (mempool_len (evict (a, b) m))"
        "\<And>c. prefix (queue_of (pending_transactions m') c) (queue_of (pending_transactions (evict (a, b) m)) c)"
        "\<And>c. prefix (queue_of (queued_transactions m') c) (queue_of (queued_transactions (evict (a, b) m)) c)"
        "queues_len (queued_transactions m') \<le> queues_len (queued_transactions (evict (a, b) m))"
        "0 < queues_len (queued_transactions m') \<longrightarrow>
          pending_transactions m' = pending_transactions (evict (a, b) m)" by auto
    moreover have "mempool_len m' = min k (mempool_len m)" using m'(2) e(1) True by simp
    moreover have "0 < queues_len (queued_transactions m') \<longrightarrow> pending_transactions m' = pending_transactions m"
      using m'(5,6) e(4,7) w(3) by fastforce
    moreover have "prefix (queue_of (pending_transactions m') c) (queue_of (pending_transactions m) c)"
      "prefix (queue_of (queued_transactions m') c) (queue_of (queued_transactions m) c)" for c
      using m'(3,4) e(2,3) prefix_order.trans by blast+
    ultimately show ?thesis
      unfolding step using le_trans [OF m'(5) e(4)] by (intro exI [of _ m'] conjI allI)
  qed
qed

text \<open>The capacity check brings the pool down to exactly the limit (or leaves it alone below it): it
  terminates without an error, drops one transaction at a time from the tail of a queue, so that what remains of every sender
  is a prefix in nonce order of what was there, and touches the pending transactions only once no queued one
  is left.  It needs a base fee that fits 128 bits and fees below the maximal value.\<close>

theorem enforce_capacity_exact:
  assumes "mp_base_fee m < 2 ^ 128" and "\<forall>t \<in> set (get_all_transactions m). tx_max_fee_per_gas t < - 1"
    and "mempool_wf m"
  shows "\<exists>m'. enforce_capacity k m = Inr m' \<and> mempool_len m' = min k (mempool_len m) \<and>
    (\<forall>a. prefix (queue_of (pending_transactions m') a) (queue_of (pending_transactions m) a) \<and>
         prefix (queue_of (queued_transactions m') a) (queue_of (queued_transactions m) a)) \<and>
    (0 < queues_len (queued_transactions m') \<longrightarrow> pending_transactions m' = pending_transactions m)"
proof (cases "mempool_len m \<le> k")
  case False
  with enforce_loop_exact [OF assms, of k] show ?thesis by (auto simp: enforce_capacity_def)
qed (simp add: enforce_capacity_def)

theorem enforce_capacity_exact_witness:
  "\<exists>m'. enforce_capacity 2 (sample_pool [sample_tx Legacy 5 None, sample_tx Legacy 6 None] [sample_tx Legacy 8 None]) = Inr m' \<and>
     mempool_len m' = 2"
proof -
  let ?m = "sample_pool [sample_tx Legacy 5 None, sample_tx Legacy 6 None] [sample_tx Legacy 8 None]"
  have w: "mempool_wf ?m" by (rule sample_pool_wf) (simp_all add: queue_wf_def)
  have l: "mempool_len ?m = 3" by (simp add: mempool_len_def queues_len_def)
  have "mp_base_fee ?m < 2 ^ 128" by (simp add: sample_pool_def mempool_new_def)
  moreover have "\<forall>t \<in> set (get_all_transactions ?m). tx_max_fee_per_gas t < - 1"
    by (simp add: get_all_transactions_def)
  ultimately show ?thesis
    using enforce_capacity_exact [OF _ _ w, of 2] l by auto
qed

subsection \<open>Selection for a block\<close>

definition gas_sum :: "tx list \<Rightarrow> nat" where
  "gas_sum ts = sum_list (map (\<lambda>t. unat (tx_gas_limit t)) ts)"

definition blob_sum :: "tx list \<Rightarrow> nat" where
  "blob_sum ts = sum_list (map (\<lambda>t. if is_eip4844 t then length (blob_hashes_of t) else 0) ts)"

definition by_sender :: "address \<Rightarrow> tx list \<Rightarrow> tx list" where
  "by_sender a ts = filter (\<lambda>t. sender_of t = a) ts"

text \<open>What the loop keeps: the counters are the exact sums, the selection of every sender is what the index
  of that sender has passed.\<close>

definition selection :: "queues \<Rightarrow> (b256 \<Rightarrow> bool) \<Rightarrow> u64 \<Rightarrow> u32 \<Rightarrow> (address \<Rightarrow> nat) \<Rightarrow> u64 \<Rightarrow> u32 \<Rightarrow> tx list \<Rightarrow> bool" where
  "selection pend has_blob target max_blobs cur gas nblobs res \<longleftrightarrow>
     unat gas = gas_sum res \<and> gas \<le> target \<and> unat nblobs = blob_sum res \<and> nblobs \<le> max_blobs \<and>
     (\<forall>t \<in> set res. is_eip4844 t \<longrightarrow> list_all has_blob (blob_hashes_of t)) \<and>
     (\<forall>a. by_sender a res = take (cur a) (queue_of pend a))"

lemma unat_add_le:
  fixes a b c :: "'a::len word"
  assumes "a \<le> c" and "unat c + unat b < 2 ^ LENGTH('a)"
  shows "unat (a + b) = unat a + unat b"
proof (rule unat_add_lem [THEN iffD1])
  show "unat a + unat b < 2 ^ LENGTH('a)" using assms by (simp add: word_le_nat_alt)
qed

lemma selection_step:
  assumes "selection pend has_blob target max_blobs cur gas nblobs res"
    and q: "map_of pend a = Some queue" "cur a < length queue" "t = queue ! cur a" "sender_of t = a"
    and gas: "unat target + unat (tx_gas_limit t) < 2 ^ 64" "\<not> gas + tx_gas_limit t > target"
    and blobs: "unat max_blobs + length (blob_hashes_of t) < 2 ^ 32"
      "is_eip4844 t \<Longrightarrow> \<not> (nblobs + blob_count t > max_blobs \<or> \<not> list_all has_blob (blob_hashes_of t))"
  shows "selection pend has_blob target max_blobs (cur(a := Suc (cur a))) (gas + tx_gas_limit t)
    (if is_eip4844 t then nblobs + blob_count t else nblobs) (res @ [t])"
proof -
  have "unat (gas + tx_gas_limit t) = unat gas + unat (tx_gas_limit t)"
    using assms(1) gas(1) by (intro unat_add_le [of _ target]) (simp_all add: selection_def)
  moreover have c: "unat (blob_count t) = length (blob_hashes_of t)"
    using blobs(1) by (simp add: blob_count_def unat_of_nat)
  moreover have "unat (nblobs + blob_count t) = unat nblobs + unat (blob_count t)"
    using assms(1) blobs(1) c by (intro unat_add_le [of _ max_blobs]) (simp_all add: selection_def)
  moreover have "queue_of pend a = queue" using q(1) by (simp add: queue_of_def)
  ultimately show ?thesis
    using assms(1) q gas(2) blobs(2)
    by (auto simp: selection_def gas_sum_def blob_sum_def by_sender_def take_Suc_conv_app_nth not_less)
qed

lemma select_loop_selection:
  assumes "queues_wf pend" and "\<forall>e \<in> set pend. \<forall>t \<in> set (snd e). unat target + unat (tx_gas_limit t) < 2 ^ 64 \<and>
      unat max_blobs + length (blob_hashes_of t) < 2 ^ 32"
    and "selection pend has_blob target max_blobs cur gas nblobs res"
  shows "\<exists>cur' gas' nblobs'. selection pend has_blob target max_blobs cur' gas' nblobs'
    (select_loop tip pend has_blob target max_blobs fee pq cur gas nblobs res)"
  using assms
proof (induction tip pend has_blob target max_blobs fee pq cur gas nblobs res rule: select_loop.induct)
  case (1 tip pend has_blob target max_blobs fee pq cur gas nblobs res)
  show ?case
  proof (cases "\<exists>p a pq' queue. gas < target \<and> pop_max pq = Some ((p, a), pq') \<and> map_of pend a = Some queue \<and>
      cur a < length queue")
    case False
    then have "select_loop tip pend has_blob target max_blobs fee pq cur gas nblobs res = res"
      by (subst select_loop.simps) (auto simp: Let_def split: option.splits)
    then show ?thesis using 1(6) by metis
  next
    case True
    then obtain p a pq' queue where s: "gas < target" "pop_max pq = Some ((p, a), pq')"
      "map_of pend a = Some queue" "cur a < length queue" by blast
    let ?t = "queue ! cur a"
    have mem: "(a, queue) \<in> set pend" "?t \<in> set queue" using s(3,4) by (auto dest: map_of_SomeD)
    then have b: "unat target + unat (tx_gas_limit ?t) < 2 ^ 64"
      "unat max_blobs + length (blob_hashes_of ?t) < 2 ^ 32" using 1(5) by fastforce+
    have snd: "sender_of ?t = a" using 1(4) s(3) mem(2) by (auto simp: queues_wf_def queue_wf_def)
    have ns: "\<not> \<not> gas < target" using s(1) by simp
    note IH = 1(1-3) [OF ns s(2) refl refl, unfolded snd_conv, OF s(3,4) refl]
    show ?thesis
    proof (cases "gas + tx_gas_limit ?t > target")
      case T: True
      then have "select_loop tip pend has_blob target max_blobs fee pq cur gas nblobs res =
          select_loop tip pend has_blob target max_blobs fee pq' cur gas nblobs res"
        by (subst select_loop.simps) (simp add: s Let_def)
      with IH(1) [OF T 1(4-6)] show ?thesis by simp
    next
      case F: False
      show ?thesis
      proof (cases "is_eip4844 ?t \<and> (nblobs + blob_count ?t > max_blobs \<or> \<not> list_all has_blob (blob_hashes_of ?t))")
        case T: True
        have "select_loop tip pend has_blob target max_blobs fee pq cur gas nblobs res =
            select_loop tip pend has_blob target max_blobs fee pq' cur gas nblobs res"
          by (subst select_loop.simps) (simp only: s Let_def F T option.case case_prod_conv snd_conv if_True if_False simp_thms)
        with IH(2) [OF F T 1(4-6)] show ?thesis by simp
      next
        case F2: False
        have step: "select_loop tip pend has_blob target max_blobs fee pq cur gas nblobs res =
            select_loop tip pend has_blob target max_blobs fee
              (heap_after tip fee queue (Suc (cur a)) a pq') (cur(a := Suc (cur a)))
              (gas + tx_gas_limit ?t) (if is_eip4844 ?t then nblobs + blob_count ?t else nblobs) (res @ [?t])"
          by (subst select_loop.simps)
            (simp only: s Let_def F F2 option.case case_prod_conv snd_conv if_True if_False simp_thms)
        have "selection pend has_blob target max_blobs (cur(a := Suc (cur a))) (gas + tx_gas_limit ?t)
            (if is_eip4844 ?t then nblobs + blob_count ?t else nblobs) (res @ [?t])"
          using F2 by (intro selection_step [OF 1(6) s(3,4) refl snd b(1) F b(2)]) blast
        from IH(3) [OF F F2 1(4,5), folded fun_upd_def, OF this] show ?thesis unfolding step .
      qed
    qed
  qed
qed

text \<open>The transactions selected for a block fit it: their gas limits add up to at most the target, their
  blobs to at most the allowed number, every blob transaction has all its blobs in the pool, and the
  selection of every sender is a prefix of that sender's pending queue, so nonces come in order and no
  transaction comes twice.  (The sums are compared in 64 and 32 bits; the theorem asks that adding one transaction to the
  target does not wrap.)\<close>

theorem peek_best_sound:
  assumes "mempool_wf m" and "peek_best_transactions tip target fee max_blobs m = Inr ts"
    and "\<forall>a. \<forall>t \<in> set (queue_of (pending_transactions m) a). unat target + unat (tx_gas_limit t) < 2 ^ 64 \<and>
      unat (unwrap_or max_blobs 6) + length (blob_hashes_of t) < 2 ^ 32"
  shows "gas_sum ts \<le> unat target \<and> blob_sum ts \<le> unat (unwrap_or max_blobs 6) \<and>
    (\<forall>t \<in> set ts. is_eip4844 t \<longrightarrow> (\<forall>h \<in> set (blob_hashes_of t). blobs m h \<noteq> None)) \<and>
    (\<forall>a. prefix (by_sender a ts) (queue_of (pending_transactions m) a))"
proof -
  have w: "queues_wf (pending_transactions m)" using assms(1) by (simp add: mempool_wf_def)
  then have b: "\<forall>e \<in> set (pending_transactions m). \<forall>t \<in> set (snd e). unat target + unat (tx_gas_limit t) < 2 ^ 64 \<and>
      unat (unwrap_or max_blobs 6) + length (blob_hashes_of t) < 2 ^ 32"
    using assms(3) queue_of_mem [of "pending_transactions m"] unfolding queues_wf_def by (metis prod.collapse)
  have i: "selection (pending_transactions m) (\<lambda>h. blobs m h \<noteq> None) target (unwrap_or max_blobs 6) (\<lambda>_. 0) 0 0 []"
    by (simp add: selection_def gas_sum_def blob_sum_def by_sender_def)
  from assms(2) obtain f pq where ts: "ts = select_loop tip (pending_transactions m) (\<lambda>h. blobs m h \<noteq> None) target
      (unwrap_or max_blobs 6) f pq (\<lambda>_. 0) 0 0 []"
    by (auto simp: peek_best_transactions_def rbind_Inr_iff)
  from select_loop_selection [OF w b i] obtain cur' gas' nblobs' where
    "selection (pending_transactions m) (\<lambda>h. blobs m h \<noteq> None) target (unwrap_or max_blobs 6) cur' gas' nblobs' ts"
    unfolding ts by blast
  then show ?thesis
    by (auto simp: selection_def word_le_nat_alt list_all_iff take_is_prefix)
qed

theorem peek_best_sound_witness:
  "peek_best_transactions (\<lambda>t fee. Some 1) 50000 7 None
      (sample_pool [sample_tx Legacy 5 None, sample_tx Legacy 6 None, sample_tx Legacy 7 None] []) =
      Inr [sample_tx Legacy 5 None, sample_tx Legacy 6 None] \<and>
   gas_sum [sample_tx Legacy 5 None, sample_tx Legacy 6 None] \<le> 50000"
proof -
  let ?m = "sample_pool [sample_tx Legacy 5 None, sample_tx Legacy 6 None, sample_tx Legacy 7 None] []"
  have w: "mempool_wf ?m" by (rule sample_pool_wf) (simp_all add: queue_wf_def)
  have e: "peek_best_transactions (\<lambda>t fee. Some 1) 50000 7 None ?m = Inr [sample_tx Legacy 5 None, sample_tx Legacy 6 None]"
    by (simp add: peek_best_transactions_def u256_to_u64_def select_loop.simps pop_max_def Let_def heap_after_def
        is_eip4844_def)
  have "\<forall>a. \<forall>t \<in> set (queue_of (pending_transactions ?m) a). unat (50000 :: u64) + unat (tx_gas_limit t) < 2 ^ 64 \<and>
      unat (unwrap_or None (6 :: u32)) + length (blob_hashes_of t) < 2 ^ 32"
    by (auto simp: queue_of_def blob_hashes_of_def)
  from peek_best_sound [OF w e this] e show ?thesis by simp
qed

end
