(* ===== verification/TrieNode.thy ===== *)
theory TrieNode
  imports Prelude
begin

section \<open>Nodes of the Merkle-Patricia trie\<close>

text \<open>
  \<^verbatim>\<open>wasix_eth_storage/src/trie.rs\<close>, first part: the hex-prefix encoding of paths and the RLP
  encoding and decoding of nodes.  A path (\<open>Nibbles\<close>) is a list of bytes below 16.  A child reference
  (\<open>RlpNode\<close>, here \<open>ChildNode\<close>) is its byte string.  The RLP primitives of \<open>alloy_rlp\<close>, the child
  references of \<open>alloy_trie\<close> and \<open>keccak256\<close> are outside this repository: they are the fields of
  \<open>trie_lib\<close>, and \<open>lib_ok\<close> states what is documented of them.
\<close>

unbundle bit_operations_syntax

type_synonym nibbles = "u8 list"
type_synonym child = bytes

record trie_lib =
  rlp_header :: "bool \<Rightarrow> nat \<Rightarrow> bytes"
  rlp_dec_header :: "bytes \<Rightarrow> ((bool \<times> nat) \<times> bytes) option"
  rlp_bytes :: "bytes \<Rightarrow> bytes"
  rlp_dec_bytes :: "bytes \<Rightarrow> bytes option"
  word_rlp :: "b256 \<Rightarrow> child"
  as_hash :: "child \<Rightarrow> b256 option"
  from_raw_rlp :: "bytes \<Rightarrow> child option"
  from_rlp :: "bytes \<Rightarrow> child"
  keccak256 :: "bytes \<Rightarrow> b256"
  EMPTY_ROOT_HASH :: b256
  unpack :: "b256 \<Rightarrow> nibbles"
  pack :: "nibbles \<Rightarrow> b256"

definition nibble_path :: "nibbles \<Rightarrow> bool" where
  "nibble_path ns \<longleftrightarrow> (\<forall>n \<in> set ns. n < 16)"

definition EMPTY_STRING_CODE :: u8 where
  "EMPTY_STRING_CODE = 0x80"

text \<open>The law on headers is about list headers, the only ones \<^verbatim>\<open>trie.rs\<close> writes itself: a string header of length one
  before a byte below \<open>0x80\<close> is not canonical, and \<open>alloy_rlp\<close> refuses it.  An RLP item: its header says where its content \<open>p\<close> starts and how long it is.\<close>

definition rlp_item :: "trie_lib \<Rightarrow> bytes \<Rightarrow> bool" where
  "rlp_item L c \<longleftrightarrow> c \<noteq> [] \<and>
     (\<exists>l p q. c = q @ p \<and> (\<forall>rest. rlp_dec_header L (c @ rest) = Some ((l, length p), p @ rest)))"

definition lib_ok :: "trie_lib \<Rightarrow> bool" where
  "lib_ok L \<longleftrightarrow>
     (\<forall>p rest. length p < 2 ^ 64 \<longrightarrow> rlp_header L True (length p) \<noteq> [] \<and>
        rlp_dec_header L (rlp_header L True (length p) @ p @ rest) = Some ((True, length p), p @ rest)) \<and>
     (\<forall>v rest. length v < 2 ^ 64 \<longrightarrow> rlp_bytes L v \<noteq> [] \<and> (\<exists>q. rlp_bytes L v = q @ v) \<and>
        rlp_dec_header L (rlp_bytes L v @ rest) = Some ((False, length v), v @ rest) \<and>
        rlp_dec_bytes L (rlp_bytes L v) = Some v) \<and>
     (\<forall>v. length (rlp_bytes L v) \<ge> length v) \<and>
     (\<forall>v. rlp_bytes L v = [EMPTY_STRING_CODE] \<longleftrightarrow> v = []) \<and>
     (\<forall>h. as_hash L (word_rlp L h) = Some h \<and> length (word_rlp L h) = 33 \<and> rlp_item L (word_rlp L h)) \<and>
     (\<forall>c. length c < 32 \<longrightarrow> as_hash L c = None) \<and>
     (\<forall>c. length c \<le> 33 \<longrightarrow> from_raw_rlp L c = Some c) \<and>
     (\<forall>b. length b < 32 \<longrightarrow> from_rlp L b = b) \<and>
     EMPTY_ROOT_HASH L = keccak256 L [EMPTY_STRING_CODE] \<and>
     (\<forall>k. nibble_path (unpack L k) \<and> length (unpack L k) = 64 \<and> pack L (unpack L k) = k)"

subsection \<open>Hex-prefix encoding of paths\<close>

text \<open>The loops take the nibbles two at a time; the number of nibbles left is even there.\<close>

fun pack_pairs :: "nibbles \<Rightarrow> bytes" where
  "pack_pairs (a # b # ns) = (push_bit 4 a OR b) # pack_pairs ns"
| "pack_pairs _ = []"

definition encode_path :: "nibbles \<Rightarrow> bool \<Rightarrow> bytes" where
  "encode_path nibbles is_leaf =
     (let flag = (if is_leaf then 0x20 else 0x00)
      in if odd (length nibbles)
         then (flag OR 0x10 OR hd nibbles) # pack_pairs (tl nibbles)
         else flag # pack_pairs nibbles)"

fun unpack_pairs :: "bytes \<Rightarrow> nibbles" where
  "unpack_pairs [] = []"
| "unpack_pairs (b # bs) = drop_bit 4 b # (b AND 0x0F) # unpack_pairs bs"

definition decode_path :: "bytes \<Rightarrow> (nibbles \<times> bool) option" where
  "decode_path data = (case data of [] \<Rightarrow> None
     | first # rest \<Rightarrow>
         let is_leaf = (first AND 0x20 \<noteq> 0); is_odd = (first AND 0x10 \<noteq> 0)
         in Some ((if is_odd then [first AND 0x0F] else []) @ unpack_pairs rest, is_leaf))"

subsection \<open>Nodes and their encoding\<close>

datatype mpt_node = EmptyRoot | Leaf nibbles bytes | Extension nibbles child
  | Branch "child list" "bytes option"

datatype trie_error = EmptyRlpBuffer | HeaderDecode | ExpectedList nat | ItemHeaderDecode | ItemTooLong
  | KeyMustBeString | InvalidHexPrefix | LeafValueDecode | ExtensionChildDecode | BranchValueDecode
  | BranchChildDecode | InvalidItemCount nat | NodeNotFound b256 | NibblesEmpty | BranchIndex
  | ProviderError | SlicePanic | IndexPanic | Diverges

definition encode_leaf :: "trie_lib \<Rightarrow> nibbles \<Rightarrow> bytes \<Rightarrow> bytes" where
  "encode_leaf L key v =
     (let encoded_key = encode_path key True;
          payload_length = length (rlp_bytes L encoded_key) + length (rlp_bytes L v)
      in rlp_header L True payload_length @ rlp_bytes L encoded_key @ rlp_bytes L v)"

definition encode_extension :: "trie_lib \<Rightarrow> nibbles \<Rightarrow> child \<Rightarrow> bytes" where
  "encode_extension L key c =
     (let encoded_key = encode_path key False;
          payload_length = length (rlp_bytes L encoded_key) + length c
      in rlp_header L True payload_length @ rlp_bytes L encoded_key @ c)"

definition branch_child :: "child \<Rightarrow> bytes" where
  "branch_child c = (if c = [] then [EMPTY_STRING_CODE] else c)"

definition branch_value :: "trie_lib \<Rightarrow> bytes option \<Rightarrow> bytes" where
  "branch_value L v = (case v of None \<Rightarrow> [EMPTY_STRING_CODE] | Some x \<Rightarrow> rlp_bytes L x)"

definition encode_branch :: "trie_lib \<Rightarrow> child list \<Rightarrow> bytes option \<Rightarrow> bytes" where
  "encode_branch L stack v =
     (let payload_length = sum_list (map (\<lambda>c. if c = [] then 1 else length c) stack) +
            (case v of None \<Rightarrow> 1 | Some x \<Rightarrow> length (rlp_bytes L x))
      in rlp_header L True payload_length @ concat (map branch_child stack) @ branch_value L v)"

definition encode_node :: "trie_lib \<Rightarrow> mpt_node \<Rightarrow> bytes" where
  "encode_node L n = (case n of EmptyRoot \<Rightarrow> [EMPTY_STRING_CODE]
     | Leaf k v \<Rightarrow> encode_leaf L k v | Extension k c \<Rightarrow> encode_extension L k c
     | Branch s v \<Rightarrow> encode_branch L s v)"

text \<open>The \<open>length\<close> methods compute the length of the encoding without encoding.\<close>

definition leaf_length :: "trie_lib \<Rightarrow> nibbles \<Rightarrow> bytes \<Rightarrow> nat" where
  "leaf_length L key v =
     (let payload_length = length (rlp_bytes L (encode_path key True)) + length (rlp_bytes L v)
      in length (rlp_header L True payload_length) + payload_length)"

definition extension_length :: "trie_lib \<Rightarrow> nibbles \<Rightarrow> child \<Rightarrow> nat" where
  "extension_length L key c =
     (let payload_length = length (rlp_bytes L (encode_path key False)) + length c
      in length (rlp_header L True payload_length) + payload_length)"

definition branch_length :: "trie_lib \<Rightarrow> child list \<Rightarrow> bytes option \<Rightarrow> nat" where
  "branch_length L stack v =
     (let payload_length = sum_list (map (\<lambda>c. if c = [] then 1 else length c) stack) +
            (case v of None \<Rightarrow> 1 | Some x \<Rightarrow> length (rlp_bytes L x))
      in length (rlp_header L True payload_length) + payload_length)"

subsection \<open>Decoding\<close>

text \<open>The loop over the items of a list payload.  Every round takes at least one byte when the header
  decoder does; \<open>Diverges\<close> is the round that takes none.\<close>

fun split_items :: "nat \<Rightarrow> trie_lib \<Rightarrow> bytes \<Rightarrow> trie_error + bytes list" where
  "split_items k L p =
     (if p = [] then Inr []
      else case k of 0 \<Rightarrow> Inl Diverges
        | Suc k' \<Rightarrow> (case rlp_dec_header L p of None \<Rightarrow> Inl ItemHeaderDecode
            | Some ((l, payload_length), rest) \<Rightarrow>
                let item_len = (length p - length rest) + payload_length
                in if item_len > length p then Inl ItemTooLong
                   else rbind (split_items k' L (drop item_len p)) (\<lambda>items. Inr (take item_len p # items))))"

declare split_items.simps [simp del]

definition decode_child :: "trie_lib \<Rightarrow> bytes \<Rightarrow> trie_error + child" where
  "decode_child L item =
     (if item = [EMPTY_STRING_CODE] then Inr [] else ok_or (from_raw_rlp L item) BranchChildDecode)"

fun decode_children :: "trie_lib \<Rightarrow> bytes list \<Rightarrow> trie_error + child list" where
  "decode_children L [] = Inr []"
| "decode_children L (item # items) =
     rbind (decode_child L item) (\<lambda>c. rbind (decode_children L items) (\<lambda>cs. Inr (c # cs)))"

definition decode_branch_value :: "trie_lib \<Rightarrow> bytes \<Rightarrow> trie_error + bytes option" where
  "decode_branch_value L item =
     (if item = [EMPTY_STRING_CODE] then Inr None
      else rbind (ok_or (rlp_dec_bytes L item) BranchValueDecode) (\<lambda>v. Inr (Some v)))"

definition decode_pair :: "trie_lib \<Rightarrow> bytes \<Rightarrow> bytes \<Rightarrow> trie_error + mpt_node" where
  "decode_pair L item0 item1 = (case rlp_dec_header L item0 of
     None \<Rightarrow> Inl HeaderDecode
   | Some ((l, n), key) \<Rightarrow>
       if l then Inl KeyMustBeString
       else case decode_path key of None \<Rightarrow> Inl InvalidHexPrefix
         | Some (ns, is_leaf) \<Rightarrow>
             if is_leaf then rbind (ok_or (rlp_dec_bytes L item1) LeafValueDecode) (\<lambda>v. Inr (Leaf ns v))
             else rbind (ok_or (from_raw_rlp L item1) ExtensionChildDecode) (\<lambda>c. Inr (Extension ns c)))"

definition decode_items :: "trie_lib \<Rightarrow> bytes list \<Rightarrow> trie_error + mpt_node" where
  "decode_items L items =
     (if length items = 2 then decode_pair L (items ! 0) (items ! 1)
      else if length items = 17 then
        rbind (decode_children L (take 16 items)) (\<lambda>stack.
        rbind (decode_branch_value L (items ! 16)) (\<lambda>v. Inr (Branch stack v)))
      else Inl (InvalidItemCount (length items)))"

text \<open>\<open>MyTrieNode::decode\<close> returns the node and the bytes after it.\<close>

definition decode_node :: "trie_lib \<Rightarrow> bytes \<Rightarrow> trie_error + mpt_node \<times> bytes" where
  "decode_node L buf =
     (if buf = [] then Inl EmptyRlpBuffer
      else case rlp_dec_header L buf of None \<Rightarrow> Inl HeaderDecode
        | Some ((l, payload_length), b) \<Rightarrow>
            if \<not> l then (if payload_length = 0 then Inr (EmptyRoot, b) else Inl (ExpectedList payload_length))
            else if payload_length > length b then Inl SlicePanic
            else rbind (split_items payload_length L (take payload_length b)) (\<lambda>items.
                 rbind (decode_items L items) (\<lambda>n. Inr (n, drop payload_length b))))"

subsection \<open>Paths survive the encoding\<close>

lemma nibble_path_simps [simp]:
  "nibble_path []" "nibble_path (n # ns) \<longleftrightarrow> n < 16 \<and> nibble_path ns"
  "nibble_path (as @ bs) \<longleftrightarrow> nibble_path as \<and> nibble_path bs"
  by (auto simp: nibble_path_def)

lemma nibble_path_drop: "nibble_path ns \<Longrightarrow> nibble_path (drop k ns)"
  by (auto simp: nibble_path_def dest: in_set_dropD)

lemma nibble_path_take: "nibble_path ns \<Longrightarrow> nibble_path (take k ns)"
  by (auto simp: nibble_path_def dest: in_set_takeD)

lemma nibble_take_bit:
  assumes "n < (16 :: u8)"
  shows "take_bit 4 n = n"
proof (rule word_unat_eq_iff [THEN iffD2])
  have "unat n < 2 ^ 4" using assms by (simp add: word_less_nat_alt)
  then show "unat (take_bit 4 n) = unat n"
    by (simp add: unsigned_take_bit_eq take_bit_nat_eq_self)
qed

lemma nibble_bit: "n < (16 :: u8) \<Longrightarrow> 4 \<le> k \<Longrightarrow> \<not> bit n k"
  by (metis bit_take_bit_iff nibble_take_bit not_less)

lemma pack_high: "b < (16 :: u8) \<Longrightarrow> a < 16 \<Longrightarrow> drop_bit 4 (push_bit 4 a OR b) = a"
proof -
  assume "b < 16" "a < 16"
  then have ab: "take_bit 4 b = b" "take_bit 4 a = a" by (simp_all add: nibble_take_bit)
  show ?thesis
    by (subst ab(1) [symmetric], subst (2) ab(2) [symmetric], rule bit_word_eqI)
      (auto simp: bit_simps)
qed

lemma pack_low: "b < (16 :: u8) \<Longrightarrow> (push_bit 4 a OR b) AND 0x0F = b"
proof -
  assume "b < 16"
  then have b: "take_bit 4 b = b" by (simp add: nibble_take_bit)
  have "(push_bit 4 a OR b) AND 0x0F = take_bit 4 (push_bit 4 a OR b)"
    by (simp add: take_bit_eq_mask mask_eq_decr_exp)
  also have "\<dots> = take_bit 4 b" by (rule bit_word_eqI) (auto simp: bit_simps)
  finally show ?thesis using b by simp
qed

lemma unpack_pack: "even (length ns) \<Longrightarrow> nibble_path ns \<Longrightarrow> unpack_pairs (pack_pairs ns) = ns"
  by (induction ns rule: pack_pairs.induct) (simp_all only: pack_pairs.simps unpack_pairs.simps pack_high pack_low nibble_path_simps length_Cons even_Suc list.size simp_thms
      even_zero)

lemma path_flags:
  assumes "n < (16 :: u8)"
  shows "(flag OR 0x10 OR n) AND 0x20 \<noteq> 0 \<longleftrightarrow> bit flag 5" and "(flag OR 0x10 OR n) AND 0x10 \<noteq> 0"
    and "flag = 0x20 \<or> flag = 0 \<Longrightarrow> (flag OR 0x10 OR n) AND 0x0F = n"
proof -
  have two: "(0x20 :: u8) = 2 ^ 5" "(0x10 :: u8) = 2 ^ 4" by simp_all
  show "(flag OR 0x10 OR n) AND 0x20 \<noteq> 0 \<longleftrightarrow> bit flag 5"
    unfolding two using nibble_bit [OF assms, of 5]
    by (simp add: and_exp_eq_0_iff_not_bit bit_simps del: power_numeral)
  show "(flag OR 0x10 OR n) AND 0x10 \<noteq> 0"
    unfolding two by (simp add: and_exp_eq_0_iff_not_bit bit_simps del: power_numeral)
  have "(0x30 :: u8) = push_bit 4 3" "(0x10 :: u8) = push_bit 4 1" by simp_all
  then show "flag = 0x20 \<or> flag = 0 \<Longrightarrow> (flag OR 0x10 OR n) AND 0x0F = n"
    using pack_low [OF assms, of 3] pack_low [OF assms, of 1] by (auto simp: or.assoc [symmetric])
qed

lemma decode_encode_path:
  assumes "nibble_path ns"
  shows "decode_path (encode_path ns leaf) = Some (ns, leaf)"
proof (cases "odd (length ns)")
  case True
  then obtain n ms where ns: "ns = n # ms" by (cases ns) auto
  have "unpack_pairs (pack_pairs ms) = ms" using True assms ns by (intro unpack_pack) auto
  moreover have n: "n < 16" using assms ns by simp
  ultimately show ?thesis
    using ns True path_flags [OF n] path_flags(1) [OF n, of 0] path_flags(2) [OF n, of 0] path_flags(3) [OF n, of 0]
    by (cases leaf) (simp_all add: encode_path_def decode_path_def Let_def)
next
  case False
  with assms unpack_pack [of ns] show ?thesis
    by (simp add: encode_path_def decode_path_def Let_def)
qed

subsection \<open>Nodes survive the encoding\<close>

lemma lib_header:
  "lib_ok L \<Longrightarrow> length p < 2 ^ 64 \<Longrightarrow> rlp_header L True (length p) \<noteq> [] \<and>
    rlp_dec_header L (rlp_header L True (length p) @ p @ rest) = Some ((True, length p), p @ rest)"
  by (simp add: lib_ok_def)

lemma lib_bytes:
  "lib_ok L \<Longrightarrow> length v < 2 ^ 64 \<Longrightarrow> rlp_bytes L v \<noteq> [] \<and> (\<exists>q. rlp_bytes L v = q @ v) \<and>
    rlp_dec_header L (rlp_bytes L v @ rest) = Some ((False, length v), v @ rest) \<and>
    rlp_dec_bytes L (rlp_bytes L v) = Some v"
  by (simp add: lib_ok_def)

lemma lib_misc:
  assumes "lib_ok L"
  shows "rlp_bytes L v = [EMPTY_STRING_CODE] \<longleftrightarrow> v = []" and "length v \<le> length (rlp_bytes L v)"
    and "as_hash L (word_rlp L h) = Some h" and "length (word_rlp L h) = 33" and "rlp_item L (word_rlp L h)"
    and "length c < 32 \<Longrightarrow> as_hash L c = None" and "length c \<le> 33 \<Longrightarrow> from_raw_rlp L c = Some c"
    and "length b < 32 \<Longrightarrow> from_rlp L b = b" and "EMPTY_ROOT_HASH L = keccak256 L [EMPTY_STRING_CODE]"
    and "nibble_path (unpack L k)" and "length (unpack L k) = 64" and "pack L (unpack L k) = k"
  using assms by (simp_all add: lib_ok_def)

lemma item_bytes: "lib_ok L \<Longrightarrow> length v < 2 ^ 64 \<Longrightarrow> rlp_item L (rlp_bytes L v)"
  using lib_bytes [of L v] unfolding rlp_item_def by blast

lemma item_empty: "lib_ok L \<Longrightarrow> rlp_item L [EMPTY_STRING_CODE]"
  using item_bytes [of L "[]"] lib_misc(1) [of L "[]"] by simp

lemma item_list: "lib_ok L \<Longrightarrow> length p < 2 ^ 64 \<Longrightarrow> rlp_item L (rlp_header L True (length p) @ p)"
  using lib_header [of L p] unfolding rlp_item_def by fastforce

lemma split_items_cons:
  assumes "rlp_item L c"
  shows "split_items (Suc k) L (c @ rest) = rbind (split_items k L rest) (\<lambda>items. Inr (c # items))"
proof -
  from assms obtain l p q where c: "c \<noteq> []" "c = q @ p"
    and d: "rlp_dec_header L (c @ rest) = Some ((l, length p), p @ rest)"
    unfolding rlp_item_def by blast
  from c(2) have len: "length (c @ rest) - length (p @ rest) + length p = length c" by simp
  have ne: "c @ rest \<noteq> []" "\<not> length (c @ rest) < length c" using c(1) by simp_all
  show ?thesis
    by (subst split_items.simps) (use ne d len c(1) in \<open>simp add: Let_def del: length_append\<close>)
qed

lemma split_items_concat:
  assumes "list_all (rlp_item L) items" and "length (concat items) \<le> k"
  shows "split_items k L (concat items) = Inr items"
  using assms
proof (induction items arbitrary: k)
  case Nil
  then show ?case by (subst split_items.simps) simp
next
  case (Cons c items)
  then have c: "rlp_item L c" "c \<noteq> []" by (simp_all add: rlp_item_def)
  with Cons.prems obtain k' where k: "k = Suc k'" "length (concat items) \<le> k'"
    by (cases c; cases k) auto
  with Cons split_items_cons [OF c(1), of k' "concat items"] show ?case by simp
qed

definition child_ok :: "trie_lib \<Rightarrow> child \<Rightarrow> bool" where
  "child_ok L c \<longleftrightarrow> rlp_item L c \<and> length c \<le> 33 \<and> c \<noteq> [EMPTY_STRING_CODE]"

definition node_ok :: "trie_lib \<Rightarrow> mpt_node \<Rightarrow> bool" where
  "node_ok L n \<longleftrightarrow> (case n of EmptyRoot \<Rightarrow> True
     | Leaf k v \<Rightarrow> nibble_path k
     | Extension k c \<Rightarrow> nibble_path k \<and> child_ok L c
     | Branch s v \<Rightarrow> length s = 16 \<and> list_all (\<lambda>c. c = [] \<or> child_ok L c) s \<and> v \<noteq> Some [])"

text \<open>The payload of a node as the list of its items.\<close>

definition node_items :: "trie_lib \<Rightarrow> mpt_node \<Rightarrow> bytes list" where
  "node_items L n = (case n of EmptyRoot \<Rightarrow> []
     | Leaf k v \<Rightarrow> [rlp_bytes L (encode_path k True), rlp_bytes L v]
     | Extension k c \<Rightarrow> [rlp_bytes L (encode_path k False), c]
     | Branch s v \<Rightarrow> map branch_child s @ [branch_value L v])"

lemma branch_payload_length:
  "length (concat (map branch_child s)) = sum_list (map (\<lambda>c. if c = [] then 1 else length c) s)"
  "length (branch_value L v) = (case v of None \<Rightarrow> 1 | Some x \<Rightarrow> length (rlp_bytes L x))"
  by (induction s) (simp_all add: branch_child_def branch_value_def split: option.split)

lemma encode_node_items:
  assumes "n \<noteq> EmptyRoot"
  shows "encode_node L n = rlp_header L True (length (concat (node_items L n))) @ concat (node_items L n)"
  using assms
  by (cases n) (simp_all add: encode_node_def encode_leaf_def encode_extension_def encode_branch_def node_items_def
      Let_def branch_payload_length del: length_concat)

lemma encoded_lengths:
  "length (encode_node L (Leaf k v)) = leaf_length L k v"
  "length (encode_node L (Extension k c)) = extension_length L k c"
  "length (encode_node L (Branch s w)) = branch_length L s w"
  by (simp_all only: encode_node_items mpt_node.distinct not_False_eq_True)
    (simp_all add: node_items_def leaf_length_def extension_length_def branch_length_def Let_def
      branch_payload_length del: length_concat)

lemma node_item_small:
  assumes "lib_ok L" and "length (concat (node_items L n)) < 2 ^ 64" and "rlp_bytes L v \<in> set (node_items L n)"
  shows "length v < 2 ^ 64"
proof -
  have "length (rlp_bytes L v) \<le> length (concat (node_items L n))"
    using assms(3) by (simp add: length_concat member_le_sum_list)
  with assms(2) lib_misc(2) [OF assms(1), of v] show ?thesis by simp
qed

lemma node_items_ok:
  assumes "lib_ok L" and "node_ok L n" and "length (concat (node_items L n)) < 2 ^ 64"
  shows "list_all (rlp_item L) (node_items L n)"
proof -
  note small = node_item_small [OF assms(1,3)]
  show ?thesis
  proof (cases n)
    case (Branch s w)
    have "rlp_item L (branch_value L w)"
    proof (cases w)
      case (Some x)
      then have "rlp_bytes L x \<in> set (node_items L n)" using Branch by (simp add: node_items_def branch_value_def)
      with Some small show ?thesis by (simp add: branch_value_def item_bytes assms(1))
    qed (simp add: branch_value_def item_empty assms(1))
    moreover have "rlp_item L (branch_child c)" if "c = [] \<or> child_ok L c" for c
      using that item_empty [OF assms(1)] by (auto simp: child_ok_def branch_child_def)
    moreover have "list_all (\<lambda>c. c = [] \<or> child_ok L c) s" using Branch assms(2) by (simp add: node_ok_def)
    ultimately show ?thesis
      unfolding Branch node_items_def by (simp add: list_all_iff)
  qed (use assms(1,2) small in \<open>auto simp: node_items_def node_ok_def child_ok_def intro!: item_bytes\<close>)
qed

lemma decode_children_ok:
  assumes "lib_ok L" and "list_all (\<lambda>c. c = [] \<or> child_ok L c) s"
  shows "decode_children L (map branch_child s) = Inr s"
  using assms(2)
  by (induction s) (auto simp: decode_child_def branch_child_def child_ok_def lib_misc(7) [OF assms(1)])

lemma decode_branch_value_ok:
  assumes "lib_ok L" and "v \<noteq> Some []" and "\<And>x. v = Some x \<Longrightarrow> length x < 2 ^ 64"
  shows "decode_branch_value L (branch_value L v) = Inr v"
  using assms lib_misc(1) [OF assms(1)] lib_bytes [OF assms(1)]
  by (cases v) (simp_all add: decode_branch_value_def branch_value_def)

lemma decode_pair_ok:
  assumes "lib_ok L" and "nibble_path k" and "length (encode_path k leaf) < 2 ^ 64"
  shows "decode_pair L (rlp_bytes L (encode_path k leaf)) item =
    (if leaf then rbind (ok_or (rlp_dec_bytes L item) LeafValueDecode) (\<lambda>v. Inr (Leaf k v))
     else rbind (ok_or (from_raw_rlp L item) ExtensionChildDecode) (\<lambda>c. Inr (Extension k c)))"
  using lib_bytes [OF assms(1,3), of "[]"] decode_encode_path [OF assms(2)]
  by (simp add: decode_pair_def)

lemma decode_items_ok:
  assumes "lib_ok L" and "node_ok L n" and "n \<noteq> EmptyRoot" and "length (concat (node_items L n)) < 2 ^ 64"
  shows "decode_items L (node_items L n) = Inr n"
proof -
  note small = node_item_small [OF assms(1,4)]
  show ?thesis
  proof (cases n)
    case (Leaf k v)
    then have "length (encode_path k True) < 2 ^ 64" "length v < 2 ^ 64" "nibble_path k"
      using small assms(2) by (simp_all add: node_items_def node_ok_def)
    with Leaf lib_bytes [OF assms(1), of v] show ?thesis
      by (simp add: node_items_def decode_items_def decode_pair_ok [OF assms(1)])
  next
    case (Extension k c)
    then have "length (encode_path k False) < 2 ^ 64" "length c \<le> 33" "nibble_path k"
      using small assms(2) by (simp_all add: node_items_def node_ok_def child_ok_def)
    with Extension lib_misc(7) [OF assms(1)] show ?thesis
      by (simp add: node_items_def decode_items_def decode_pair_ok [OF assms(1)])
  next
    case (Branch s w)
    then have s: "length s = 16" "list_all (\<lambda>c. c = [] \<or> child_ok L c) s" "w \<noteq> Some []"
      using assms(2) by (simp_all add: node_ok_def)
    have "length x < 2 ^ 64" if "w = Some x" for x
      using that Branch by (intro small) (simp add: node_items_def branch_value_def)
    from decode_branch_value_ok [OF assms(1) s(3) this] decode_children_ok [OF assms(1) s(2)] s(1)
    show ?thesis using Branch by (simp add: decode_items_def node_items_def nth_append)
  qed (use assms(3) in simp)
qed

lemma decode_encode:
  assumes "lib_ok L" and "node_ok L n" and "length (encode_node L n) < 2 ^ 64"
  shows "decode_node L (encode_node L n @ rest) = Inr (n, rest)"
proof (cases "n = EmptyRoot")
  case True
  have "rlp_dec_header L ([EMPTY_STRING_CODE] @ rest) = Some ((False, 0), rest)"
    using lib_bytes [OF assms(1), of "[]" rest] lib_misc(1) [OF assms(1), of "[]"] by simp
  with True show ?thesis by (simp add: encode_node_def decode_node_def)
next
  case False
  let ?p = "concat (node_items L n)"
  have e: "encode_node L n = rlp_header L True (length ?p) @ ?p" by (rule encode_node_items [OF False])
  then have small: "length ?p < 2 ^ 64" using assms(3) by (simp del: length_concat)
  note h = lib_header [OF assms(1) small, of rest]
  have s: "split_items (length ?p) L ?p = Inr (node_items L n)"
    by (rule split_items_concat [OF node_items_ok [OF assms(1,2) small]]) simp
  show ?thesis
    unfolding e decode_node_def append_assoc
    using h s decode_items_ok [OF assms(1,2) False small] by (simp del: length_concat)
qed

lemma encode_node_inj:
  assumes "lib_ok L" and "node_ok L n" and "node_ok L m" and "encode_node L n = encode_node L m"
    and "length (encode_node L n) < 2 ^ 64"
  shows "n = m"
  using decode_encode [OF assms(1,2,5), of "[]"] decode_encode [OF assms(1,3), of "[]"] assms(4,5) by simp

lemma item_node:
  assumes "lib_ok L" and "length (encode_node L n) < 2 ^ 64"
  shows "rlp_item L (encode_node L n)"
proof (cases "n = EmptyRoot")
  case False
  with assms encode_node_items [OF False, of L] item_list [OF assms(1), of "concat (node_items L n)"]
  show ?thesis by (simp del: length_concat)
qed (simp add: encode_node_def item_empty assms(1))

text \<open>C30: a trie node survives its encoding: decoding the encoding of a node, followed by anything, gives the
  node back and leaves exactly what followed.  The node's paths consist of nibbles, its children are RLP items of
  at most 33 bytes, a branch has 16 children and no empty value; the encoding is shorter than $2^{64}$ bytes.\<close>

theorem trie_node_roundtrip:
  assumes "lib_ok L" and "node_ok L n" and "length (encode_node L n) < 2 ^ 64"
  shows "decode_node L (encode_node L n @ rest) = Inr (n, rest)"
  using assms by (rule decode_encode)

subsection \<open>A reference instance of the library\<close>

text \<open>RLP as the yellow paper defines it, with a remainder in the place of the hash function; it serves
  the witnesses.\<close>

fun be_bytes :: "nat \<Rightarrow> bytes" where
  "be_bytes n = (if n = 0 then [] else be_bytes (n div 256) @ [of_nat (n mod 256)])"

declare be_bytes.simps [simp del]

definition be_val :: "bytes \<Rightarrow> nat" where
  "be_val bs = foldl (\<lambda>a b. a * 256 + unat b) 0 bs"

definition ref_header :: "bool \<Rightarrow> nat \<Rightarrow> bytes" where
  "ref_header l n = (let base = (if l then 0xc0 else 0x80) in
     if n < 56 then [of_nat (base + n)] else of_nat (base + 55 + length (be_bytes n)) # be_bytes n)"

definition ref_bytes :: "bytes \<Rightarrow> bytes" where
  "ref_bytes v = (if length v = 1 \<and> unat (hd v) < 0x80 then v else ref_header False (length v) @ v)"

definition ref_dec_header :: "bytes \<Rightarrow> ((bool \<times> nat) \<times> bytes) option" where
  "ref_dec_header buf = (case buf of [] \<Rightarrow> None
     | b # r \<Rightarrow>
         let x = unat b; long = (\<lambda>k. be_val (take k r))
         in if x < 0x80 then Some ((False, 1), b # r)
            else if x = 0x81 \<and> r \<noteq> [] \<and> unat (hd r) < 0x80 then None
            else if x < 0xb8 then Some ((False, x - 0x80), r)
            else if x < 0xc0 then Some ((False, long (x - 0xb7)), drop (x - 0xb7) r)
            else if x < 0xf8 then Some ((True, x - 0xc0), r)
            else Some ((True, long (x - 0xf7)), drop (x - 0xf7) r))"

definition be32 :: "b256 \<Rightarrow> bytes" where
  "be32 h = replicate (32 - length (be_bytes (unat h))) 0 @ be_bytes (unat h)"

definition ref_hash :: "bytes \<Rightarrow> b256" where
  "ref_hash b = of_nat (be_val (1 # b) mod (2 ^ 256 - 189))"

definition ref_lib :: trie_lib where
  "ref_lib = \<lparr>rlp_header = ref_header, rlp_dec_header = ref_dec_header, rlp_bytes = ref_bytes,
     rlp_dec_bytes = (\<lambda>b. case ref_dec_header b of Some ((False, n), r) \<Rightarrow> Some (take n r) | _ \<Rightarrow> None),
     word_rlp = (\<lambda>h. 0xa0 # be32 h),
     as_hash = (\<lambda>c. if length c = 33 then Some (of_nat (be_val (tl c))) else None),
     from_raw_rlp = (\<lambda>b. if length b \<le> 33 then Some b else None),
     from_rlp = (\<lambda>b. if length b < 32 then b else 0xa0 # be32 (ref_hash b)),
     keccak256 = ref_hash, EMPTY_ROOT_HASH = ref_hash [EMPTY_STRING_CODE],
     unpack = (\<lambda>k. unpack_pairs (be32 k)), pack = (\<lambda>ns. of_nat (be_val (pack_pairs ns)))\<rparr>"

lemma be_val_append: "be_val (as @ [b]) = be_val as * 256 + unat b"
  by (simp add: be_val_def)

lemma be_val_be_bytes [simp]: "be_val (be_bytes n) = n"
proof (induction n rule: be_bytes.induct)
  case (1 n)
  show ?case
  proof (cases "n = 0")
    case True
    then show ?thesis by (simp add: be_bytes.simps be_val_def)
  next
    case False
    have "unat (of_nat (n mod 256) :: u8) = n mod 256" by (simp add: unat_of_nat)
    with 1 False show ?thesis by (subst be_bytes.simps) (simp add: be_val_append)
  qed
qed

lemma be_val_zeros [simp]: "be_val (replicate k 0 @ bs) = be_val bs"
proof -
  have "foldl (\<lambda>a b. a * 256 + unat b) 0 (replicate k (0 :: u8)) = 0" by (induction k) simp_all
  then show ?thesis by (simp add: be_val_def)
qed

lemma be_bytes_length: "n < 256 ^ k \<Longrightarrow> length (be_bytes n) \<le> k"
proof (induction k arbitrary: n)
  case (Suc k)
  have "n div 256 < 256 ^ k" using Suc.prems by (simp add: less_mult_imp_div_less mult.commute)
  with Suc.IH show ?case by (subst be_bytes.simps) simp
qed (simp add: be_bytes.simps)

lemma be_bytes_pos: "0 < n \<Longrightarrow> 0 < length (be_bytes n)"
  by (subst be_bytes.simps) simp

lemma ref_header_dec:
  assumes "n < 2 ^ 64" and "l \<or> n \<noteq> 1 \<or> r = [] \<or> 0x80 \<le> unat (hd r)"
  shows "ref_dec_header (ref_header l n @ r) = Some ((l, n), r)"
proof (cases "n < 56")
  case True
  with assms(2) show ?thesis
    by (cases l) (auto simp: ref_dec_header_def ref_header_def unat_of_nat Let_def simp del: of_nat_add)
next
  case False
  have "length (be_bytes n) \<le> 8" using assms(1) by (intro be_bytes_length) simp
  moreover have "0 < length (be_bytes n)" using False by (intro be_bytes_pos) simp
  ultimately show ?thesis
    using False by (cases l) (simp_all add: ref_dec_header_def ref_header_def unat_of_nat Let_def del: of_nat_add)
qed

lemma ref_bytes_dec:
  assumes "length v < 2 ^ 64"
  shows "ref_dec_header (ref_bytes v @ r) = Some ((False, length v), v @ r)"
proof (cases "length v = 1 \<and> unat (hd v) < 0x80")
  case True
  then obtain x where "v = [x]" "unat x < 0x80" by (cases v) auto
  then show ?thesis by (simp add: ref_bytes_def ref_dec_header_def)
next
  case False
  then have "length v \<noteq> 1 \<or> v @ r = [] \<or> 0x80 \<le> unat (hd (v @ r))" by (cases v) auto
  then have "ref_dec_header (ref_header False (length v) @ v @ r) = Some ((False, length v), v @ r)"
    by (intro ref_header_dec assms) simp
  with False show ?thesis unfolding ref_bytes_def by (simp only: if_False append_assoc)
qed

lemma ref_header_nonempty [simp]: "ref_header l n \<noteq> []"
  by (simp add: ref_header_def Let_def)

lemma be32_length [simp]: "length (be32 h) = 32"
proof -
  have "unat h < 256 ^ 32" using unsigned_less [of h] by simp
  from be_bytes_length [OF this] show ?thesis by (simp add: be32_def)
qed

lemma be32_word: "0xa0 # be32 h = ref_bytes (be32 h)"
  by (simp add: ref_bytes_def ref_header_def)

lemma ref_bytes_empty: "ref_bytes v = [EMPTY_STRING_CODE] \<longleftrightarrow> v = []"
proof
  assume e: "ref_bytes v = [EMPTY_STRING_CODE]"
  show "v = []"
  proof (cases "length v = 1 \<and> unat (hd v) < 0x80")
    case True
    with e show ?thesis by (cases v) (simp_all add: ref_bytes_def EMPTY_STRING_CODE_def)
  next
    case False
    then have "ref_bytes v = ref_header False (length v) @ v" unfolding ref_bytes_def by (rule if_not_P)
    with e show ?thesis using ref_header_nonempty [of False "length v"] by (metis append_eq_Cons_conv append_is_Nil_conv)
  qed
qed (simp add: ref_bytes_def ref_header_def EMPTY_STRING_CODE_def)

lemma unpack_pairs_nibbles: "nibble_path (unpack_pairs bs)" "length (unpack_pairs bs) = 2 * length bs"
proof -
  have "drop_bit 4 b < 16 \<and> b AND 15 < 16" for b :: u8
  proof -
    have "unat b < 2 ^ LENGTH(8)" by (rule unsigned_less)
    then have "unat b div 16 < 16" by (simp add: less_mult_imp_div_less)
    moreover have "unat b mod 16 < 16" by simp
    moreover have "b AND 15 = take_bit 4 b" by (simp add: take_bit_eq_mask mask_eq_decr_exp)
    ultimately show ?thesis
      by (simp add: word_less_nat_alt drop_bit_eq_div take_bit_eq_mod unat_div_distrib unat_mod_distrib)
  qed
  then show "nibble_path (unpack_pairs bs)" by (induction bs) simp_all
qed (induction bs, simp_all)

lemma pack_unpack: "pack_pairs (unpack_pairs bs) = bs"
proof (induction bs)
  case (Cons b bs)
  have "push_bit 4 (drop_bit 4 b) OR (b AND 15) = b"
  proof -
    have "b AND 15 = take_bit 4 b" by (simp add: take_bit_eq_mask mask_eq_decr_exp)
    then show ?thesis by (simp only:) (rule bit_word_eqI, auto simp: bit_simps)
  qed
  with Cons show ?case by simp
qed simp

lemma ref_lib_ok: "lib_ok ref_lib"
proof -
  have nonempty: "ref_bytes v \<noteq> []" for v by (auto simp: ref_bytes_def)
  have suffix: "\<exists>q. ref_bytes v = q @ v" for v by (auto simp: ref_bytes_def)
  then have len: "length v \<le> length (ref_bytes v)" for v by (metis le_add2 length_append)
  have word: "rlp_item ref_lib (0xa0 # be32 h)" for h
    unfolding rlp_item_def be32_word using suffix [of "be32 h"] nonempty [of "be32 h"] ref_bytes_dec [of "be32 h"]
    by (auto simp: ref_lib_def)
  have val: "of_nat (be_val (be32 h)) = h" for h by (simp add: be32_def)
  show ?thesis
    unfolding lib_ok_def
    using ref_header_dec [of _ True] ref_bytes_dec [of _ "[]"] ref_bytes_dec nonempty suffix len word val ref_bytes_empty
      unpack_pairs_nibbles pack_unpack
    by (simp add: ref_lib_def)
qed

theorem trie_node_roundtrip_witness:
  "decode_node ref_lib (encode_node ref_lib (Branch ([encode_node ref_lib (Leaf [1, 2, 3] [9])] @ replicate 15 []) (Some [5])) @ [1, 2]) =
    Inr (Branch ([encode_node ref_lib (Leaf [1, 2, 3] [9])] @ replicate 15 []) (Some [5]), [1, 2])"
proof -
  let ?l = "Leaf [1, 2, 3] [9]"
  let ?n = "Branch ([encode_node ref_lib ?l] @ replicate 15 []) (Some [5])"
  have e: "encode_node ref_lib ?l = [0xc4, 0x82, 0x31, 0x23, 9]"
    by (simp add: encode_node_def encode_leaf_def encode_path_def ref_lib_def ref_bytes_def ref_header_def Let_def)
  have "rlp_item ref_lib (encode_node ref_lib ?l)" by (rule item_node [OF ref_lib_ok]) (simp add: e)
  then have "node_ok ref_lib ?n" by (simp add: node_ok_def child_ok_def e list_all_iff)
  moreover have "length (encode_node ref_lib ?n) < 2 ^ 64"
    unfolding e encoded_lengths
    by (simp add: branch_length_def Let_def ref_lib_def ref_header_def ref_bytes_def sum_list_replicate)
  ultimately show ?thesis by (rule trie_node_roundtrip [OF ref_lib_ok])
qed

end
