(* ===== verification/Trie.thy ===== *)
theory Trie
  imports TrieNode "HOL-Library.AList" "HOL-Library.Sublist"
begin

section \<open>The Merkle-Patricia trie\<close>

text \<open>
  \<^verbatim>\<open>wasix_eth_storage/src/trie.rs\<close>, second part: \<open>EthTrie\<close>.  The trie keeps its root hash, a
  cache of decoded nodes and the dirty nodes not yet written; the node provider behind it (\<open>trie_node\<close> of
  the trait \<open>StateProvider\<close>) is the argument \<open>db\<close>.  The recursive functions of the code call each other
  through hashes found in the store, so nothing in the types bounds the depth: they take fuel here, one
  unit per call, and \<open>Diverges\<close> is running out of it.  The paths handed to the operations consist of
  nibbles, which the type \<open>Nibbles\<close> guarantees.
\<close>

type_synonym provider = "b256 \<Rightarrow> trie_error + bytes option"

record trie =
  root_hash :: b256
  cache :: "b256 \<rightharpoonup> mpt_node"
  dirty :: "(b256 \<times> bytes) list"

type_synonym 'a trie_act = "(trie, trie_error, 'a) act"

definition trie_new :: "b256 \<Rightarrow> trie" where
  "trie_new root = \<lparr>root_hash = root, cache = Map.empty, dirty = []\<rparr>"

subsection \<open>Nodes in and out of the store\<close>

definition store_node :: "trie_lib \<Rightarrow> mpt_node \<Rightarrow> b256 trie_act" where
  "store_node L n t =
     (let buf = encode_node L n; hash = keccak256 L buf
      in (Inr hash, t\<lparr>dirty := AList.update hash buf (dirty t), cache := (cache t)(hash \<mapsto> n)\<rparr>))"

definition store_node_to_rlp :: "trie_lib \<Rightarrow> mpt_node \<Rightarrow> child trie_act" where
  "store_node_to_rlp L n t =
     (let buf = encode_node L n
      in if length buf \<ge> 32
         then let hash = keccak256 L buf
              in (Inr (word_rlp L hash),
                  t\<lparr>dirty := AList.update hash buf (dirty t), cache := (cache t)(hash \<mapsto> n)\<rparr>)
         else (Inr (from_rlp L buf), t))"

definition node_data :: "provider \<Rightarrow> b256 \<Rightarrow> trie \<Rightarrow> trie_error + bytes" where
  "node_data db hash t = (case map_of (dirty t) hash of Some data \<Rightarrow> Inr data
     | None \<Rightarrow> rbind (db hash) (\<lambda>b. ok_or b (NodeNotFound hash)))"

definition get_node :: "trie_lib \<Rightarrow> provider \<Rightarrow> b256 \<Rightarrow> mpt_node trie_act" where
  "get_node L db hash t =
     (if hash = EMPTY_ROOT_HASH L then (Inr EmptyRoot, t)
      else case cache t hash of Some n \<Rightarrow> (Inr n, t)
      | None \<Rightarrow> (case rbind (node_data db hash t) (decode_node L) of
          Inl e \<Rightarrow> (Inl e, t)
        | Inr (n, rest) \<Rightarrow> (Inr n, t\<lparr>cache := (cache t)(hash \<mapsto> n)\<rparr>)))"

definition inline_node :: "trie_lib \<Rightarrow> child \<Rightarrow> trie_error + mpt_node" where
  "inline_node L c = (if c = [] then Inr EmptyRoot else rbind (decode_node L c) (\<lambda>r. Inr (fst r)))"

definition get_node_from_rlp :: "trie_lib \<Rightarrow> provider \<Rightarrow> child \<Rightarrow> mpt_node trie_act" where
  "get_node_from_rlp L db c = (case as_hash L c of
     Some hash \<Rightarrow> get_node L db hash | None \<Rightarrow> reads (\<lambda>_. inline_node L c))"

subsection \<open>Lookup\<close>

fun get_recursive :: "nat \<Rightarrow> trie_lib \<Rightarrow> provider \<Rightarrow> b256 \<Rightarrow> nibbles \<Rightarrow> bytes option trie_act"
  and get_recursive_node :: "nat \<Rightarrow> trie_lib \<Rightarrow> provider \<Rightarrow> mpt_node \<Rightarrow> nibbles \<Rightarrow> bytes option trie_act"
  and get_recursive_rlp :: "nat \<Rightarrow> trie_lib \<Rightarrow> provider \<Rightarrow> child \<Rightarrow> nibbles \<Rightarrow> bytes option trie_act" where
  "get_recursive 0 L db hash ns = fail Diverges"
| "get_recursive (Suc k) L db hash ns =
     (if hash = EMPTY_ROOT_HASH L then ret None
      else sbind (get_node L db hash) (\<lambda>n. get_recursive_node k L db n ns))"
| "get_recursive_node 0 L db n ns = fail Diverges"
| "get_recursive_node (Suc k) L db n ns =
     (case n of
        EmptyRoot \<Rightarrow> ret None
      | Leaf key v \<Rightarrow> ret (if key = ns then Some v else None)
      | Extension key c \<Rightarrow>
          if prefix key ns then get_recursive_rlp k L db c (drop (length key) ns) else ret None
      | Branch stack v \<Rightarrow> (case ns of [] \<Rightarrow> ret v
          | i # remaining \<Rightarrow>
              if unat i < length stack then get_recursive_rlp k L db (stack ! unat i) remaining
              else fail IndexPanic))"
| "get_recursive_rlp 0 L db c ns = fail Diverges"
| "get_recursive_rlp (Suc k) L db c ns =
     (case as_hash L c of
        Some hash \<Rightarrow> get_recursive k L db hash ns
      | None \<Rightarrow> if c = [] then ret None
          else sbind (reads (\<lambda>_. decode_node L c)) (\<lambda>r. get_recursive_node k L db (fst r) ns))"

definition get_nibbles :: "nat \<Rightarrow> trie_lib \<Rightarrow> provider \<Rightarrow> nibbles \<Rightarrow> bytes option trie_act" where
  "get_nibbles k L db ns t = get_recursive k L db (root_hash t) ns t"

definition trie_get :: "nat \<Rightarrow> trie_lib \<Rightarrow> provider \<Rightarrow> b256 \<Rightarrow> bytes option trie_act" where
  "trie_get k L db key = get_nibbles k L db (unpack L key)"

subsection \<open>Insertion\<close>

fun common_prefix_length :: "nibbles \<Rightarrow> nibbles \<Rightarrow> nat" where
  "common_prefix_length (a # as) (b # bs) = (if a = b then Suc (common_prefix_length as bs) else 0)"
| "common_prefix_length _ _ = 0"

definition empty_stack :: "child list" where
  "empty_stack = replicate 16 []"

text \<open>A branch built for a split is put below an extension when the paths share a prefix.\<close>

definition below_prefix :: "trie_lib \<Rightarrow> nibbles \<Rightarrow> mpt_node \<Rightarrow> mpt_node trie_act" where
  "below_prefix L shared branch =
     (if length shared > 0 then sbind (store_node_to_rlp L branch) (\<lambda>c. ret (Extension shared c))
      else ret branch)"

definition insert_leaf :: "trie_lib \<Rightarrow> nibbles \<Rightarrow> bytes \<Rightarrow> nibbles \<Rightarrow> bytes \<Rightarrow> mpt_node trie_act" where
  "insert_leaf L key old ns v =
     (let common = common_prefix_length ns key in
      if common = length ns \<and> common = length key then ret (Leaf key v)
      else sbind
        (if common = length key then
           let remaining_new = drop common ns in
           sbind (store_node_to_rlp L (Leaf (tl remaining_new) v)) (\<lambda>c.
             ret (Branch (empty_stack[unat (hd remaining_new) := c]) (Some old)))
         else if common = length ns then
           let remaining_leaf = drop common key in
           sbind (store_node_to_rlp L (Leaf (tl remaining_leaf) old)) (\<lambda>c.
             ret (Branch (empty_stack[unat (hd remaining_leaf) := c]) (Some v)))
         else
           sbind (store_node_to_rlp L (Leaf (drop (common + 1) key) old)) (\<lambda>c1.
           sbind (store_node_to_rlp L (Leaf (drop (common + 1) ns) v)) (\<lambda>c2.
             ret (Branch (empty_stack[unat (key ! common) := c1, unat (ns ! common) := c2]) None))))
        (below_prefix L (take common ns)))"

text \<open>What is left of a split extension: its child itself when no path is left.\<close>

definition shortened_extension :: "trie_lib \<Rightarrow> nibbles \<Rightarrow> child \<Rightarrow> child trie_act" where
  "shortened_extension L key c =
     (if key = [] then ret c else store_node_to_rlp L (Extension key c))"

definition split_extension :: "trie_lib \<Rightarrow> nibbles \<Rightarrow> child \<Rightarrow> nibbles \<Rightarrow> bytes \<Rightarrow> mpt_node trie_act" where
  "split_extension L key c ns v =
     (let common = common_prefix_length ns key in
      sbind
        (if common = length ns then
           let remaining_ext = drop common key in
           sbind (shortened_extension L (tl remaining_ext) c) (\<lambda>c1.
             ret (Branch (empty_stack[unat (hd remaining_ext) := c1]) (Some v)))
         else
           sbind (shortened_extension L (drop (common + 1) key) c) (\<lambda>c1.
           sbind (store_node_to_rlp L (Leaf (drop (common + 1) ns) v)) (\<lambda>c2.
             ret (Branch (empty_stack[unat (key ! common) := c1, unat (ns ! common) := c2]) None))))
        (below_prefix L (take common key)))"

fun insert_recursive :: "nat \<Rightarrow> trie_lib \<Rightarrow> provider \<Rightarrow> b256 \<Rightarrow> nibbles \<Rightarrow> bytes \<Rightarrow> b256 trie_act"
  and insert_recursive_rlp :: "nat \<Rightarrow> trie_lib \<Rightarrow> provider \<Rightarrow> child \<Rightarrow> nibbles \<Rightarrow> bytes \<Rightarrow> child trie_act" where
  "insert_recursive 0 L db hash ns v = fail Diverges"
| "insert_recursive (Suc k) L db hash ns v =
     (if hash = EMPTY_ROOT_HASH L then store_node L (Leaf ns v)
      else sbind (get_node L db hash) (\<lambda>n.
        case n of
          EmptyRoot \<Rightarrow> store_node L (Leaf ns v)
        | Leaf key old \<Rightarrow> sbind (insert_leaf L key old ns v) (store_node L)
        | Extension key c \<Rightarrow>
            if common_prefix_length ns key = length key
            then sbind (insert_recursive_rlp k L db c (drop (length key) ns) v) (\<lambda>c'.
              store_node L (Extension key c'))
            else sbind (split_extension L key c ns v) (store_node L)
        | Branch stack w \<Rightarrow> (case ns of
              [] \<Rightarrow> store_node L (Branch stack (Some v))
            | i # remaining \<Rightarrow>
                if unat i \<ge> 16 then fail BranchIndex
                else sbind (insert_recursive_rlp k L db (stack ! unat i) remaining v) (\<lambda>c'.
                  store_node L (Branch (stack[unat i := c']) w)))))"
| "insert_recursive_rlp 0 L db c ns v = fail Diverges"
| "insert_recursive_rlp (Suc k) L db c ns v =
     (case as_hash L c of
        Some hash \<Rightarrow> sbind (insert_recursive k L db hash ns v) (\<lambda>h. ret (word_rlp L h))
      | None \<Rightarrow>
          sbind (reads (\<lambda>_. inline_node L c)) (\<lambda>n.
          sbind (store_node L n) (\<lambda>dummy_hash.
          sbind (insert_recursive k L db dummy_hash ns v) (\<lambda>new_hash.
          sbind (get_node L db new_hash) (store_node_to_rlp L)))))"

definition set_root :: "b256 trie_act \<Rightarrow> unit trie_act" where
  "set_root m t = (case m t of (Inl e, t') \<Rightarrow> (Inl e, t') | (Inr h, t') \<Rightarrow> (Inr (), t'\<lparr>root_hash := h\<rparr>))"

definition insert_nibbles :: "nat \<Rightarrow> trie_lib \<Rightarrow> provider \<Rightarrow> nibbles \<Rightarrow> bytes \<Rightarrow> unit trie_act" where
  "insert_nibbles k L db ns v t = set_root (insert_recursive k L db (root_hash t) ns v) t"

definition trie_insert :: "nat \<Rightarrow> trie_lib \<Rightarrow> provider \<Rightarrow> b256 \<Rightarrow> bytes \<Rightarrow> unit trie_act" where
  "trie_insert k L db key v = insert_nibbles k L db (unpack L key) v"

text \<open>\<open>calculate_trie_root\<close> fills a trie over \<open>MemoryState\<close>, whose node table is empty.\<close>

definition memory_state :: provider where
  "memory_state hash = Inr None"

definition calculate_trie_root :: "nat \<Rightarrow> trie_lib \<Rightarrow> (b256 \<times> bytes) list \<Rightarrow> trie_error + b256" where
  "calculate_trie_root k L leaves =
     (case for_each leaves (\<lambda>(key, v). trie_insert k L memory_state key v) (trie_new (EMPTY_ROOT_HASH L)) of
        (Inl e, t) \<Rightarrow> Inl e | (Inr _, t) \<Rightarrow> Inr (root_hash t))"

subsection \<open>Deletion\<close>

definition collapse_extension :: "trie_lib \<Rightarrow> provider \<Rightarrow> nibbles \<Rightarrow> child \<Rightarrow> mpt_node trie_act" where
  "collapse_extension L db key c =
     (if c = [] then ret EmptyRoot
      else sbind (get_node_from_rlp L db c) (\<lambda>n. case n of
          Extension k c' \<Rightarrow> ret (Extension (key @ k) c')
        | _ \<Rightarrow> ret (Extension key c)))"

definition used_slots :: "child list \<Rightarrow> (nat \<times> child) list" where
  "used_slots stack = filter (\<lambda>(i, c). c \<noteq> []) (List.enumerate 0 stack)"

definition collapse_branch :: "trie_lib \<Rightarrow> provider \<Rightarrow> child list \<Rightarrow> bytes option \<Rightarrow> mpt_node trie_act" where
  "collapse_branch L db stack v =
     (case used_slots stack of
        [] \<Rightarrow> ret (if v = None then EmptyRoot else Branch stack v)
      | [(i, c)] \<Rightarrow>
          if v \<noteq> None then ret (Branch stack v)
          else sbind (get_node_from_rlp L db c) (\<lambda>n. case n of
              Leaf key w \<Rightarrow> ret (Leaf (of_nat i # key) w)
            | Extension key c' \<Rightarrow> ret (Extension (of_nat i # key) c')
            | Branch s w \<Rightarrow> ret (Extension [of_nat i] c)
            | EmptyRoot \<Rightarrow> ret (Branch stack v))
      | _ \<Rightarrow> ret (Branch stack v))"

fun delete_recursive :: "nat \<Rightarrow> trie_lib \<Rightarrow> provider \<Rightarrow> b256 \<Rightarrow> nibbles \<Rightarrow> b256 trie_act"
  and delete_recursive_node :: "nat \<Rightarrow> trie_lib \<Rightarrow> provider \<Rightarrow> mpt_node \<Rightarrow> nibbles \<Rightarrow> mpt_node trie_act"
  and delete_recursive_rlp :: "nat \<Rightarrow> trie_lib \<Rightarrow> provider \<Rightarrow> child \<Rightarrow> nibbles \<Rightarrow> child trie_act" where
  "delete_recursive 0 L db hash ns = fail Diverges"
| "delete_recursive (Suc k) L db hash ns =
     (if hash = EMPTY_ROOT_HASH L then ret (EMPTY_ROOT_HASH L)
      else sbind (get_node L db hash) (\<lambda>n.
           sbind (delete_recursive_node k L db n ns) (\<lambda>new_node.
             if new_node = EmptyRoot then ret (EMPTY_ROOT_HASH L) else store_node L new_node)))"
| "delete_recursive_node 0 L db n ns = fail Diverges"
| "delete_recursive_node (Suc k) L db n ns =
     (case n of
        EmptyRoot \<Rightarrow> ret EmptyRoot
      | Leaf key v \<Rightarrow> ret (if key = ns then EmptyRoot else Leaf key v)
      | Extension key c \<Rightarrow>
          if prefix key ns
          then sbind (delete_recursive_rlp k L db c (drop (length key) ns)) (collapse_extension L db key)
          else ret (Extension key c)
      | Branch stack v \<Rightarrow> (case ns of
            [] \<Rightarrow> collapse_branch L db stack None
          | i # remaining \<Rightarrow>
              if unat i \<ge> 16 then fail BranchIndex
              else sbind (delete_recursive_rlp k L db (stack ! unat i) remaining) (\<lambda>c.
                collapse_branch L db (stack[unat i := c]) v)))"
| "delete_recursive_rlp 0 L db c ns = fail Diverges"
| "delete_recursive_rlp (Suc k) L db c ns =
     (case as_hash L c of
        Some hash \<Rightarrow> sbind (delete_recursive k L db hash ns) (\<lambda>h.
          ret (if h = EMPTY_ROOT_HASH L then [] else word_rlp L h))
      | None \<Rightarrow> if c = [] then ret []
          else sbind (reads (\<lambda>_. decode_node L c)) (\<lambda>r.
               sbind (delete_recursive_node k L db (fst r) ns) (store_node_to_rlp L)))"

definition delete_nibbles :: "nat \<Rightarrow> trie_lib \<Rightarrow> provider \<Rightarrow> nibbles \<Rightarrow> unit trie_act" where
  "delete_nibbles k L db ns t = set_root (delete_recursive k L db (root_hash t) ns) t"

definition trie_delete :: "nat \<Rightarrow> trie_lib \<Rightarrow> provider \<Rightarrow> b256 \<Rightarrow> unit trie_act" where
  "trie_delete k L db key = delete_nibbles k L db (unpack L key)"

subsection \<open>Enumeration and commit\<close>

definition full_entry :: "trie_lib \<Rightarrow> nibbles \<Rightarrow> bytes \<Rightarrow> (b256 \<times> bytes) list" where
  "full_entry L path v = (if length path = 64 then [(pack L path, v)] else [])"

function walk_recursive_node :: "nat \<Rightarrow> trie_lib \<Rightarrow> provider \<Rightarrow> mpt_node \<Rightarrow> nibbles \<Rightarrow> (b256 \<times> bytes) list trie_act"
  and walk_recursive_rlp :: "nat \<Rightarrow> trie_lib \<Rightarrow> provider \<Rightarrow> child \<Rightarrow> nibbles \<Rightarrow> (b256 \<times> bytes) list trie_act"
  and walk_slots :: "nat \<Rightarrow> trie_lib \<Rightarrow> provider \<Rightarrow> child list \<Rightarrow> nibbles \<Rightarrow> nat list \<Rightarrow> (b256 \<times> bytes) list trie_act" where
  "walk_recursive_node 0 L db n path = fail Diverges"
| "walk_recursive_node (Suc k) L db n path =
     (case n of
        Leaf key v \<Rightarrow> ret (full_entry L (path @ key) v)
      | Extension key c \<Rightarrow> walk_recursive_rlp k L db c (path @ key)
      | Branch stack v \<Rightarrow>
          sbind (walk_slots k L db stack path [0 ..< 64]) (\<lambda>entries.
            ret (entries @ (case v of None \<Rightarrow> [] | Some w \<Rightarrow> full_entry L path w)))
      | EmptyRoot \<Rightarrow> ret [])"
| "walk_recursive_rlp 0 L db c path = fail Diverges"
| "walk_recursive_rlp (Suc k) L db c path =
     sbind (get_node_from_rlp L db c) (\<lambda>n. walk_recursive_node k L db n path)"
| "walk_slots k L db stack path [] = ret []"
| "walk_slots k L db stack path (i # is) =
     (if i < length stack then
        if stack ! i \<noteq> []
        then sbind (walk_recursive_rlp k L db (stack ! i) (path @ [of_nat i])) (\<lambda>es.
             sbind (walk_slots k L db stack path is) (\<lambda>fs. ret (es @ fs)))
        else walk_slots k L db stack path is
      else fail IndexPanic)"
  by pat_completeness auto
termination
  by (relation "inv_image (less_than <*lex*> less_than) (\<lambda>s. case s of
      Inl (k, _) \<Rightarrow> (k, 0) | Inr (Inl (k, _)) \<Rightarrow> (k, 0) | Inr (Inr (k, _, _, _, _, is)) \<Rightarrow> (k, length is))")
    auto

definition all_entries :: "nat \<Rightarrow> trie_lib \<Rightarrow> provider \<Rightarrow> (b256 \<times> bytes) list trie_act" where
  "all_entries k L db t =
     (if root_hash t = EMPTY_ROOT_HASH L then (Inr [], t)
      else sbind (get_node L db (root_hash t)) (\<lambda>n. walk_recursive_node k L db n []) t)"

text \<open>\<open>commit\<close> drains the dirty nodes into the writer \<open>upd\<close> (\<open>update_trie_node\<close> of the trait
  \<open>StateWriter\<close>); an error stops the writing, and the drained nodes are gone.\<close>

definition commit :: "(b256 \<Rightarrow> bytes \<Rightarrow> ('s, 'e, unit) act) \<Rightarrow> trie \<Rightarrow> 's \<Rightarrow> ('e + unit) \<times> trie \<times> 's" where
  "commit upd t s = (case for_each (dirty t) (\<lambda>(hash, data). upd hash data) s of
     (r, s') \<Rightarrow> (r, t\<lparr>dirty := []\<rparr>, s'))"

end
