(* ===== verification/TrieSpec.thy ===== *)
theory TrieSpec
  imports Trie
begin

section \<open>The trie implements a map\<close>

text \<open>
  The abstract trie: a tree with the nodes of the Merkle-Patricia trie but without hashes, encodings and
  stores, with lookup and insertion on it (\<open>plookup\<close>, \<open>pinsert\<close>).  The first part shows that these are
  lookup and update of a map; the second that \<open>EthTrie\<close> refines them: a store that holds the nodes of a tree
  under their hashes answers lookups as the tree does, and insertion turns it into a store of the new
  tree.
\<close>

subsection \<open>The trie as a tree\<close>

text \<open>The flag of a node tells how a parent refers to it: a child is referred to by hash when its
  encoding has 32 bytes or more, and also, when the flag is set, although it is shorter.  \<open>EthTrie\<close> produces such
  references: a child that was referred to by hash stays so when an insertion makes its node short.\<close>

datatype ptrie = PEmpty | PLeaf bool nibbles bytes | PExt bool nibbles ptrie | PBranch bool "ptrie list" "bytes option"

lemma nth_size [termination_simp]: "i < length ts \<Longrightarrow> size (ts ! i) < Suc (size_list size ts + n)"
  by (meson less_SucI nth_mem size_list_estimation' order_refl le_imp_less_Suc trans_le_add1)

fun flag :: "ptrie \<Rightarrow> bool" where
  "flag PEmpty = False"
| "flag (PLeaf b key v) = b"
| "flag (PExt b key t) = b"
| "flag (PBranch b ts v) = b"

definition node_ref :: "trie_lib \<Rightarrow> bool \<Rightarrow> mpt_node \<Rightarrow> child" where
  "node_ref L b n = (if n = EmptyRoot then []
     else let e = encode_node L n in if b \<or> length e \<ge> 32 then word_rlp L (keccak256 L e) else e)"

fun node_of :: "trie_lib \<Rightarrow> ptrie \<Rightarrow> mpt_node" where
  "node_of L PEmpty = EmptyRoot"
| "node_of L (PLeaf b key v) = Leaf key v"
| "node_of L (PExt b key t) = Extension key (node_ref L (flag t) (node_of L t))"
| "node_of L (PBranch b ts v) = Branch (map (\<lambda>t. node_ref L (flag t) (node_of L t)) ts) v"

definition penc :: "trie_lib \<Rightarrow> ptrie \<Rightarrow> bytes" where
  "penc L t = encode_node L (node_of L t)"

definition phash :: "trie_lib \<Rightarrow> ptrie \<Rightarrow> b256" where
  "phash L t = keccak256 L (penc L t)"

definition pref :: "trie_lib \<Rightarrow> ptrie \<Rightarrow> child" where
  "pref L t = node_ref L (flag t) (node_of L t)"

definition hashed :: "trie_lib \<Rightarrow> ptrie \<Rightarrow> bool" where
  "hashed L t \<longleftrightarrow> t \<noteq> PEmpty \<and> (flag t \<or> 32 \<le> length (penc L t))"

fun plookup :: "ptrie \<Rightarrow> nibbles \<Rightarrow> bytes option" where
  "plookup PEmpty ns = None"
| "plookup (PLeaf b key v) ns = (if key = ns then Some v else None)"
| "plookup (PExt b key t) ns = (if prefix key ns then plookup t (drop (length key) ns) else None)"
| "plookup (PBranch b ts v) ns = (case ns of [] \<Rightarrow> v
     | i # r \<Rightarrow> if unat i < length ts then plookup (ts ! unat i) r else None)"

definition pbelow :: "bool \<Rightarrow> nibbles \<Rightarrow> ptrie \<Rightarrow> ptrie" where
  "pbelow b shared t = (if shared = [] then t else PExt b shared t)"

definition pstack :: "ptrie list" where
  "pstack = replicate 16 PEmpty"

definition pinsert_leaf :: "bool \<Rightarrow> nibbles \<Rightarrow> bytes \<Rightarrow> nibbles \<Rightarrow> bytes \<Rightarrow> ptrie" where
  "pinsert_leaf b key old ns v =
     (let common = common_prefix_length ns key; rn = drop common ns; rk = drop common key;
          b' = (b \<and> common = 0) in
      if rn = [] \<and> rk = [] then PLeaf b key v
      else pbelow b (take common ns)
        (if rk = [] then PBranch b' (pstack[unat (hd rn) := PLeaf False (tl rn) v]) (Some old)
         else if rn = [] then PBranch b' (pstack[unat (hd rk) := PLeaf False (tl rk) old]) (Some v)
         else PBranch b' (pstack[unat (hd rk) := PLeaf False (tl rk) old, unat (hd rn) := PLeaf False (tl rn) v]) None))"

definition psplit :: "bool \<Rightarrow> nibbles \<Rightarrow> ptrie \<Rightarrow> nibbles \<Rightarrow> bytes \<Rightarrow> ptrie" where
  "psplit b key t ns v =
     (let common = common_prefix_length ns key; rn = drop common ns; rk = drop common key;
          b' = (b \<and> common = 0) in
      pbelow b (take common key)
        (if rn = [] then PBranch b' (pstack[unat (hd rk) := pbelow False (tl rk) t]) (Some v)
         else PBranch b' (pstack[unat (hd rk) := pbelow False (tl rk) t, unat (hd rn) := PLeaf False (tl rn) v]) None))"

fun pinsert :: "trie_lib \<Rightarrow> bool \<Rightarrow> nibbles \<Rightarrow> bytes \<Rightarrow> ptrie \<Rightarrow> ptrie" where
  "pinsert L b ns v PEmpty = PLeaf b ns v"
| "pinsert L b ns v (PLeaf b' key old) = pinsert_leaf b key old ns v"
| "pinsert L b ns v (PExt b' key t) =
     (if common_prefix_length ns key = length key then PExt b key (pinsert L (hashed L t) (drop (length key) ns) v t)
      else psplit b key t ns v)"
| "pinsert L b ns v (PBranch b' ts w) = (case ns of [] \<Rightarrow> PBranch b ts (Some v)
     | i # r \<Rightarrow> if unat i < length ts
         then PBranch b (ts[unat i := pinsert L (hashed L (ts ! unat i)) r v (ts ! unat i)]) w else PBranch b ts w)"

fun is_pbranch :: "ptrie \<Rightarrow> bool" where
  "is_pbranch (PBranch b ts v) = True"
| "is_pbranch t = False"

fun pwf :: "ptrie \<Rightarrow> bool" where
  "pwf PEmpty = True"
| "pwf (PLeaf b key v) = (nibble_path key \<and> v \<noteq> [])"
| "pwf (PExt b key t) = (nibble_path key \<and> key \<noteq> [] \<and> is_pbranch t \<and> pwf t)"
| "pwf (PBranch b ts v) = (length ts = 16 \<and> v \<noteq> Some [] \<and> (\<forall>t \<in> set ts. pwf t))"

subsection \<open>Insertion and lookup on trees\<close>

lemma common_prefix_split:
  obtains p ns' key' where "ns = p @ ns'" "key = p @ key'" "common_prefix_length ns key = length p"
    "ns' = [] \<or> key' = [] \<or> hd ns' \<noteq> hd key'"
proof (induction ns key arbitrary: thesis rule: common_prefix_length.induct)
  case (1 a as b bs)
  show ?case
  proof (cases "a = b")
    case True
    obtain p ns' key' where "as = p @ ns'" "bs = p @ key'" "common_prefix_length as bs = length p"
      "ns' = [] \<or> key' = [] \<or> hd ns' \<noteq> hd key'" using 1(1) [OF True] by blast
    with True 1(2) [of "a # p" ns' key'] show ?thesis by simp
  next
    case False
    with 1(2) [of "[]" "a # as" "b # bs"] show ?thesis by simp
  qed
qed simp_all

lemma nibble_index: "i < (16 :: u8) \<Longrightarrow> unat i < 16"
  by (simp add: word_less_nat_alt)

lemma unat_index_eq: "unat a = unat b \<longleftrightarrow> a = (b :: u8)"
  by (simp add: word_unat_eq_iff)

lemma pbelow_lookup:
  "plookup (pbelow b p t) ms = (if prefix p ms then plookup t (drop (length p) ms) else None)"
  by (simp add: pbelow_def)

lemma pstack_simps [simp]:
  "length pstack = 16" "i < 16 \<Longrightarrow> pstack ! i = PEmpty"
  by (simp_all add: pstack_def)

lemma pinsert_leaf_lookup:
  assumes "nibble_path key" and "nibble_path ns" and "nibble_path ms"
  shows "plookup (pinsert_leaf b key old ns v) ms = (if ms = ns then Some v else plookup (PLeaf b' key old) ms)"
proof -
  obtain p ns' key' where s: "ns = p @ ns'" "key = p @ key'" "common_prefix_length ns key = length p"
    "ns' = [] \<or> key' = [] \<or> hd ns' \<noteq> hd key'" by (rule common_prefix_split)
  show ?thesis
  proof (cases "prefix p ms")
    case False
    with s show ?thesis by (auto simp: pinsert_leaf_def Let_def pbelow_lookup)
  next
    case True
    then obtain ms' where ms: "ms = p @ ms'" by (auto simp: prefix_def)
    have n: "\<And>i r. ns' = i # r \<Longrightarrow> unat i < 16" "\<And>i r. key' = i # r \<Longrightarrow> unat i < 16"
      "\<And>i r. ms' = i # r \<Longrightarrow> unat i < 16" using assms s ms by (auto simp: nibble_index)
    show ?thesis
      using s(4) n unfolding pinsert_leaf_def s(3) unfolding s(1,2) ms
      by (cases ns'; cases key'; cases ms') (auto simp: Let_def pbelow_lookup nth_list_update unat_index_eq)
  qed
qed

lemma psplit_lookup:
  assumes "nibble_path key" and "nibble_path ns" and "nibble_path ms" and "common_prefix_length ns key \<noteq> length key"
  shows "plookup (psplit b key t ns v) ms = (if ms = ns then Some v else plookup (PExt b' key t) ms)"
proof -
  obtain p ns' key' where s: "ns = p @ ns'" "key = p @ key'" "common_prefix_length ns key = length p"
    "ns' = [] \<or> key' = [] \<or> hd ns' \<noteq> hd key'" by (rule common_prefix_split)
  then obtain j k where k: "key' = j # k" using assms(4) by (cases key') auto
  show ?thesis
  proof (cases "prefix p ms")
    case False
    with s show ?thesis by (auto simp: psplit_def Let_def pbelow_lookup dest: append_prefixD)
  next
    case True
    then obtain ms' where ms: "ms = p @ ms'" by (auto simp: prefix_def)
    have n: "\<And>i r. ns' = i # r \<Longrightarrow> unat i < 16" "unat j < 16"
      "\<And>i r. ms' = i # r \<Longrightarrow> unat i < 16" using assms s ms k by (auto simp: nibble_index)
    show ?thesis
      using s(4) n unfolding psplit_def s(3) unfolding s(1,2) ms k
      by (cases ns'; cases ms') (auto simp: Let_def pbelow_lookup nth_list_update unat_index_eq)
  qed
qed

lemma common_prefix_full: "common_prefix_length ns key = length key \<longleftrightarrow> prefix key ns"
proof -
  obtain p ns' key' where "ns = p @ ns'" "key = p @ key'" "common_prefix_length ns key = length p"
    "ns' = [] \<or> key' = [] \<or> hd ns' \<noteq> hd key'" by (rule common_prefix_split)
  then show ?thesis by (cases ns'; cases key') auto
qed

lemma plookup_pinsert:
  assumes "pwf t" and "nibble_path ns" and "nibble_path ms"
  shows "plookup (pinsert L b ns v t) ms = (if ms = ns then Some v else plookup t ms)"
  using assms
proof (induction L b ns v t arbitrary: ms rule: pinsert.induct)
  case (2 L b ns v b' key old)
  then show ?case by (simp add: pinsert_leaf_lookup)
next
  case (3 L b ns v b' key t)
  show ?case
  proof (cases "common_prefix_length ns key = length key")
    case True
    then obtain ns' where ns: "ns = key @ ns'" unfolding common_prefix_full by (auto simp: prefix_def)
    show ?thesis
    proof (cases "prefix key ms")
      case P: True
      then obtain ms' where ms: "ms = key @ ms'" by (auto simp: prefix_def)
      with ns True 3 show ?thesis by simp
    qed (use ns True in \<open>auto simp: prefix_def\<close>)
  next
    case False
    with 3 psplit_lookup [of key ns ms b t v b'] show ?thesis by simp
  qed
next
  case (4 L b ns v b' ts w)
  show ?case
  proof (cases ns)
    case (Cons i r)
    with 4 have i: "unat i < length ts" "pwf (ts ! unat i)" "nibble_path r" by (simp_all add: nibble_index)
    show ?thesis
    proof (cases ms)
      case (Cons j q)
      with 4 have "unat j < length ts" "nibble_path q" by (simp_all add: nibble_index)
      with 4(1) [OF \<open>ns = i # r\<close> i(1) i(2,3)] i \<open>ns = i # r\<close> Cons show ?thesis
        by (auto simp: nth_list_update unat_index_eq)
    qed (use i \<open>ns = i # r\<close> in simp)
  qed (simp split: list.split)
qed simp_all

lemma pwf_pbelow: "pwf t \<Longrightarrow> is_pbranch t \<Longrightarrow> nibble_path p \<Longrightarrow> pwf (pbelow b p t)"
  by (simp add: pbelow_def)

lemma pstack_set: "x \<in> set (pstack[i := a]) \<Longrightarrow> x = a \<or> x = PEmpty"
  "x \<in> set (pstack[i := a, j := b]) \<Longrightarrow> x = a \<or> x = b \<or> x = PEmpty"
  using set_update_subset_insert [of pstack i a] set_update_subset_insert [of "pstack[i := a]" j b]
  by (auto simp: pstack_def)

lemma pwf_pinsert:
  assumes "pwf t" and "nibble_path ns" and "v \<noteq> []"
  shows "pwf (pinsert L b ns v t) \<and> (is_pbranch t \<longrightarrow> is_pbranch (pinsert L b ns v t))"
  using assms
proof (induction L b ns v t rule: pinsert.induct)
  case (2 L b ns v b' key old)
  then show ?case
    by (auto simp: pinsert_leaf_def Let_def nibble_path_take nibble_path_drop intro!: pwf_pbelow dest!: pstack_set
        simp del: drop_eq_Nil)
      (metis nibble_path_drop nibble_path_simps(2) list.collapse)+
next
  case (3 L b ns v b' key t)
  show ?case
  proof (cases "common_prefix_length ns key = length key")
    case True
    with 3 show ?thesis by (simp add: nibble_path_drop)
  next
    case False
    have tl: "nibble_path (tl xs)" if "nibble_path xs" for xs using that by (cases xs) simp_all
    from 3 False show ?thesis
      by (auto simp: psplit_def Let_def nibble_path_take nibble_path_drop tl intro!: pwf_pbelow dest!: pstack_set
        simp del: drop_eq_Nil)
  qed
next
  case (4 L b ns v b' ts w)
  show ?case
  proof (cases ns)
    case (Cons i r)
    with 4 have i: "unat i < length ts" "pwf (ts ! unat i)" "nibble_path r" by (simp_all add: nibble_index)
    from 4(1) [OF Cons i 4(4)] 4(2) i Cons show ?thesis
      by (auto dest!: set_update_subset_insert [THEN subsetD])
  qed (use 4 in simp)
qed simp_all

end
