(* ===== verification/TrieRefine.thy ===== *)
theory TrieRefine imports TrieSpec begin

text \<open>The stored trie refines the tree: a cache, a table and a set of dirty nodes that together hold every
  node of the tree under its hash (\<open>represents\<close>).  Reading follows the tree, and an insertion stores exactly the
  nodes of the tree after the insertion.\<close>

subsection \<open>Stores that hold a tree\<close>

fun subs :: "ptrie \<Rightarrow> ptrie set" where
  "subs PEmpty = {}"
| "subs (PLeaf b key v) = {PLeaf b key v}"
| "subs (PExt b key t) = insert (PExt b key t) (subs t)"
| "subs (PBranch b ts v) = insert (PBranch b ts v) (\<Union>t \<in> set ts. subs t)"

fun psubs :: "ptrie \<Rightarrow> ptrie set" where
  "psubs (PExt b key t) = subs t"
| "psubs (PBranch b ts v) = (\<Union>t \<in> set ts. subs t)"
| "psubs _ = {}"

lemma subs_psubs: "t \<noteq> PEmpty \<Longrightarrow> subs t = insert t (psubs t)" "psubs t \<subseteq> subs t"
  by (cases t; auto)+

lemma node_of_EmptyRoot [simp]: "node_of L t = EmptyRoot \<longleftrightarrow> t = PEmpty"
  by (cases t) simp_all

text \<open>The byte strings \<open>S\<close> in play: pairwise without hash collision, the empty node among them.\<close>

definition collision_free :: "trie_lib \<Rightarrow> bytes set \<Rightarrow> bool" where
  "collision_free L S \<longleftrightarrow> inj_on (keccak256 L) S \<and> [EMPTY_STRING_CODE] \<in> S \<and> (\<forall>b \<in> S. length b < 2 ^ 64)"

definition addressed :: "trie_lib \<Rightarrow> provider \<Rightarrow> bytes set \<Rightarrow> trie \<Rightarrow> bool" where
  "addressed L db S t \<longleftrightarrow>
     (\<forall>h n. cache t h = Some n \<longrightarrow> node_ok L n \<and> encode_node L n \<in> S \<and> keccak256 L (encode_node L n) = h) \<and>
     (\<forall>h b. map_of (dirty t) h = Some b \<longrightarrow> b \<in> S \<and> keccak256 L b = h) \<and>
     (\<forall>h b. db h = Inr (Some b) \<longrightarrow> b \<in> S \<and> keccak256 L b = h)"

definition holds :: "provider \<Rightarrow> trie \<Rightarrow> b256 \<Rightarrow> bool" where
  "holds db t h \<longleftrightarrow> cache t h \<noteq> None \<or> map_of (dirty t) h \<noteq> None \<or> (\<exists>b. db h = Inr (Some b))"

definition grows :: "trie_lib \<Rightarrow> provider \<Rightarrow> bytes set \<Rightarrow> trie \<Rightarrow> trie \<Rightarrow> bool" where
  "grows L db S t t' \<longleftrightarrow> addressed L db S t' \<and> (\<forall>h. holds db t h \<longrightarrow> holds db t' h) \<and> root_hash t' = root_hash t"

lemma grows_refl: "addressed L db S t \<Longrightarrow> grows L db S t t"
  by (simp add: grows_def)

lemma grows_trans: "grows L db S t u \<Longrightarrow> grows L db S u w \<Longrightarrow> grows L db S t w"
  by (simp add: grows_def)

text \<open>\<open>yields m t x Q\<close>: run on \<open>t\<close>, \<open>m\<close> succeeds with \<open>x\<close>, loses nothing from the store and ends where \<open>Q\<close>
  holds.\<close>

definition yields :: "trie_lib \<Rightarrow> provider \<Rightarrow> bytes set \<Rightarrow> 'a trie_act \<Rightarrow> trie \<Rightarrow> 'a \<Rightarrow> (trie \<Rightarrow> bool) \<Rightarrow> bool" where
  "yields L db S m t x Q \<longleftrightarrow> (\<exists>t'. m t = (Inr x, t') \<and> grows L db S t t' \<and> Q t')"

lemma yields_ret: "addressed L db S t \<Longrightarrow> Q t \<Longrightarrow> yields L db S (ret x) t x Q"
  by (simp add: yields_def grows_refl)

lemma yields_Pair: "addressed L db S t \<Longrightarrow> Q t \<Longrightarrow> yields L db S (Pair (Inr x)) t x Q"
  by (simp add: yields_def grows_refl)

lemma yields_reads: "addressed L db S t \<Longrightarrow> f t = Inr x \<Longrightarrow> Q t \<Longrightarrow> yields L db S (reads f) t x Q"
  by (simp add: yields_def grows_refl)

lemma yields_bind:
  assumes "yields L db S m t x Q" and "\<And>t'. grows L db S t t' \<Longrightarrow> Q t' \<Longrightarrow> yields L db S (f x) t' y R"
  shows "yields L db S (sbind m f) t y R"
proof -
  from assms(1) obtain t1 where 1: "m t = (Inr x, t1)" "grows L db S t t1" "Q t1" by (auto simp: yields_def)
  from assms(2) [OF 1(2,3)] obtain t2 where "f x t1 = (Inr y, t2)" "grows L db S t1 t2" "R t2" by (auto simp: yields_def)
  with 1 show ?thesis by (auto simp: yields_def intro: grows_trans)
qed

lemma yields_cong: "yields L db S m t x Q \<Longrightarrow> x = y \<Longrightarrow> (\<And>t'. grows L db S t t' \<Longrightarrow> Q t' \<Longrightarrow> R t') \<Longrightarrow> yields L db S m t y R"
  by (auto simp: yields_def)

lemma grows_addressed: "grows L db S t t' \<Longrightarrow> addressed L db S t'"
  by (simp add: grows_def)

lemma grows_holds: "grows L db S t t' \<Longrightarrow> holds db t h \<Longrightarrow> holds db t' h"
  by (simp add: grows_def)

lemma get_node_yields:
  assumes "lib_ok L" and "collision_free L S" and "addressed L db S t" and "node_ok L n" and "encode_node L n \<in> S"
    and "n \<noteq> EmptyRoot \<Longrightarrow> holds db t (keccak256 L (encode_node L n))"
  shows "yields L db S (get_node L db (keccak256 L (encode_node L n))) t n (\<lambda>_. True)"
proof -
  let ?h = "keccak256 L (encode_node L n)"
  have len: "length (encode_node L n) < 2 ^ 64" using assms(2,5) by (simp add: collision_free_def)
  have inj: "b = encode_node L n" if "b \<in> S" "keccak256 L b = ?h" for b
    using assms(2,5) that unfolding collision_free_def inj_on_def by blast
  have empty: "n = EmptyRoot" if "?h = EMPTY_ROOT_HASH L"
  proof -
    have "[EMPTY_STRING_CODE] = encode_node L n"
      using that assms(2) lib_misc(9) [OF assms(1)] by (intro inj) (simp_all add: collision_free_def)
    with encode_node_inj [OF assms(1,4), of EmptyRoot] len show ?thesis
      by (simp add: encode_node_def node_ok_def)
  qed
  show ?thesis
  proof (cases "n = EmptyRoot")
    case True
    then have "?h = EMPTY_ROOT_HASH L" using lib_misc(9) [OF assms(1)] by (simp add: encode_node_def)
    with True assms(3) show ?thesis by (simp add: yields_def get_node_def grows_refl)
  next
    case False
    then have ne: "?h \<noteq> EMPTY_ROOT_HASH L" using empty by blast
    show ?thesis
    proof (cases "cache t ?h")
      case (Some m)
      with assms(3) have "node_ok L m" "encode_node L m = encode_node L n"
        by (auto simp: addressed_def intro: inj)
      with encode_node_inj [OF assms(1,4)] len have "m = n" by metis
      with Some ne assms(3) show ?thesis by (simp add: yields_def get_node_def grows_refl)
    next
      case None
      have d: "node_data db ?h t = Inr (encode_node L n)"
      proof (cases "map_of (dirty t) ?h")
        case (Some b)
        with assms(3) have "b \<in> S" "keccak256 L b = ?h" unfolding addressed_def by blast+
        then have "b = encode_node L n" by (rule inj)
        with Some show ?thesis by (simp only: node_data_def option.case)
      next
        case D: None
        with assms(6) False None obtain b where "db ?h = Inr (Some b)" by (auto simp: holds_def)
        moreover from this assms(3) have "b \<in> S" "keccak256 L b = ?h" unfolding addressed_def by blast+
        then have "b = encode_node L n" by (rule inj)
        ultimately show ?thesis using D by (simp only: node_data_def option.case rbind_simps ok_or_simps)
      qed
      have "decode_node L (encode_node L n) = Inr (n, [])"
        using decode_encode [OF assms(1,4) len, of "[]"] by simp
      then have "get_node L db ?h t = (Inr n, t\<lparr>cache := (cache t)(?h \<mapsto> n)\<rparr>)"
        using ne None d by (simp add: get_node_def)
      moreover have "grows L db S t (t\<lparr>cache := (cache t)(?h \<mapsto> n)\<rparr>)"
        using assms(3,4,5) by (auto simp: grows_def addressed_def holds_def)
      ultimately show ?thesis by (auto simp: yields_def)
    qed
  qed
qed

lemma stored_grows:
  assumes "addressed L db S t" and "node_ok L n" and "encode_node L n \<in> S"
  shows "grows L db S t (t\<lparr>dirty := AList.update (keccak256 L (encode_node L n)) (encode_node L n) (dirty t),
    cache := (cache t)(keccak256 L (encode_node L n) \<mapsto> n)\<rparr>)"
  using assms by (auto simp: grows_def addressed_def holds_def update_conv')

lemma store_node_yields:
  assumes "addressed L db S t" and "node_ok L n" and "encode_node L n \<in> S"
  shows "yields L db S (store_node L n) t (keccak256 L (encode_node L n))
    (\<lambda>t'. holds db t' (keccak256 L (encode_node L n)))"
  using stored_grows [OF assms] by (simp add: yields_def store_node_def Let_def holds_def)

lemma store_node_to_rlp_yields:
  assumes "lib_ok L" and "addressed L db S t" and "node_ok L n" and "encode_node L n \<in> S" and "n \<noteq> EmptyRoot"
  shows "yields L db S (store_node_to_rlp L n) t (node_ref L False n)
    (\<lambda>t'. 32 \<le> length (encode_node L n) \<longrightarrow> holds db t' (keccak256 L (encode_node L n)))"
  using stored_grows [OF assms(2-4)] assms(5) lib_misc(8) [OF assms(1)] grows_refl [OF assms(2)]
  by (auto simp: yields_def store_node_to_rlp_def Let_def holds_def node_ref_def)

subsection \<open>Encodings of trees\<close>

definition encs :: "trie_lib \<Rightarrow> ptrie \<Rightarrow> bytes set" where
  "encs L t = penc L ` subs t"

lemma penc_not_empty:
  assumes "lib_ok L" and "node_ok L n" and "length (encode_node L n) < 2 ^ 64" and "n \<noteq> EmptyRoot"
  shows "encode_node L n \<noteq> [EMPTY_STRING_CODE]"
  using encode_node_inj [OF assms(1,2), of EmptyRoot] assms(3,4) by (auto simp: encode_node_def node_ok_def)

lemma node_ref_ok:
  assumes "lib_ok L" and "node_ok L n" and "length (encode_node L n) < 2 ^ 64" and "n \<noteq> EmptyRoot"
  shows "child_ok L (node_ref L b n)"
proof (cases "b \<or> 32 \<le> length (encode_node L n)")
  case True
  have "word_rlp L h \<noteq> [EMPTY_STRING_CODE]" for h using lib_misc(4) [OF assms(1), of h] by auto
  with True assms(4) lib_misc(4,5) [OF assms(1)] show ?thesis by (simp add: node_ref_def child_ok_def Let_def)
next
  case False
  with assms item_node [OF assms(1,3)] penc_not_empty [OF assms] show ?thesis
    by (simp add: node_ref_def child_ok_def Let_def)
qed

lemma node_of_ok:
  assumes "lib_ok L" and "collision_free L S"
  shows "pwf t \<Longrightarrow> encs L t \<subseteq> S \<Longrightarrow> node_ok L (node_of L t)"
proof (induction t)
  case (PExt b key t)
  have n: "node_ok L (node_of L t)" using PExt by (simp add: encs_def)
  have "t \<noteq> PEmpty" using PExt.prems by auto
  then have "t \<in> subs t" by (simp add: subs_psubs)
  with PExt.prems(2) have "penc L t \<in> S" by (auto simp: encs_def)
  with assms(2) have "length (encode_node L (node_of L t)) < 2 ^ 64" by (simp add: collision_free_def penc_def)
  from node_ref_ok [OF assms(1) n this] \<open>t \<noteq> PEmpty\<close> PExt.prems(1) show ?case by (simp add: node_ok_def)
next
  case (PBranch b ts v)
  have "c = [] \<or> child_ok L c" if "c = node_ref L (flag t) (node_of L t)" "t \<in> set ts" for c t
  proof (cases "t = PEmpty")
    case False
    then have "t \<in> subs t" by (simp add: subs_psubs)
    with PBranch.prems(2) that(2) have "penc L t \<in> S" "encs L t \<subseteq> S" by (auto simp: encs_def)
    with assms(2) PBranch.IH [OF that(2)] PBranch.prems(1) that node_ref_ok [OF assms(1)] False show ?thesis
      by (simp add: collision_free_def penc_def)
  qed (simp add: that(1) node_ref_def)
  with PBranch.prems(1) show ?case by (auto simp: node_ok_def list_all_iff)
qed (simp_all add: node_ok_def)

definition avail :: "trie_lib \<Rightarrow> provider \<Rightarrow> trie \<Rightarrow> ptrie \<Rightarrow> bool" where
  "avail L db t p \<longleftrightarrow> (\<forall>s \<in> psubs p. hashed L s \<longrightarrow> holds db t (phash L s))"

definition avail_child :: "trie_lib \<Rightarrow> provider \<Rightarrow> trie \<Rightarrow> ptrie \<Rightarrow> bool" where
  "avail_child L db t p \<longleftrightarrow> (\<forall>s \<in> subs p. hashed L s \<longrightarrow> holds db t (phash L s))"

lemma avail_grows: "grows L db S t t' \<Longrightarrow> avail L db t p \<Longrightarrow> avail L db t' p"
  "grows L db S t t' \<Longrightarrow> avail_child L db t p \<Longrightarrow> avail_child L db t' p"
  by (auto simp: avail_def avail_child_def grows_holds)

lemma avail_childD:
  assumes "avail_child L db t p"
  shows "avail L db t p" and "hashed L p \<Longrightarrow> holds db t (phash L p)"
  using assms subs_psubs [of p] by (auto simp: avail_def avail_child_def hashed_def)

lemma avail_childI:
  assumes "avail L db t p" and "hashed L p \<Longrightarrow> holds db t (phash L p)"
  shows "avail_child L db t p"
  using assms subs_psubs(1) [of p] by (cases "p = PEmpty") (auto simp: avail_def avail_child_def)

lemma avail_simps:
  "avail L db t (PExt b key p) \<longleftrightarrow> avail_child L db t p"
  "avail L db t (PBranch b ps v) \<longleftrightarrow> (\<forall>p \<in> set ps. avail_child L db t p)"
  "avail L db t (PLeaf b key w)" "avail L db t PEmpty" "avail_child L db t PEmpty"
  by (auto simp: avail_def avail_child_def)

lemma encs_simps:
  "encs L (PExt b key p) = insert (penc L (PExt b key p)) (encs L p)"
  "encs L (PBranch b ps v) = insert (penc L (PBranch b ps v)) (\<Union>p \<in> set ps. encs L p)"
  "encs L (PLeaf b key w) = {penc L (PLeaf b key w)}" "encs L PEmpty = {}"
  by (auto simp: encs_def)

lemma penc_in_encs: "p \<noteq> PEmpty \<Longrightarrow> penc L p \<in> encs L p"
  by (auto simp: encs_def subs_psubs)

lemma penc_in:
  assumes "collision_free L S" and "encs L p \<subseteq> S"
  shows "penc L p \<in> S"
proof (cases "p = PEmpty")
  case True
  with assms(1) show ?thesis by (simp add: penc_def encode_node_def collision_free_def)
qed (use assms(2) penc_in_encs in blast)

subsection \<open>Lookup refines the lookup of the tree\<close>

lemma child_resolves:
  assumes "lib_ok L" and "collision_free L S" and "pwf p" and "encs L p \<subseteq> S" and "p \<noteq> PEmpty"
  shows "hashed L p \<Longrightarrow> as_hash L (pref L p) = Some (phash L p)"
    and "\<not> hashed L p \<Longrightarrow> as_hash L (pref L p) = None \<and> pref L p = penc L p \<and>
      penc L p \<noteq> [] \<and> decode_node L (penc L p) = Inr (node_of L p, [])"
proof -
  have "penc L p \<in> S" by (rule penc_in [OF assms(2,4)])
  then have len: "length (encode_node L (node_of L p)) < 2 ^ 64"
    using assms(2) by (simp add: collision_free_def penc_def)
  note ok = node_of_ok [OF assms(1-4)]
  have ne: "penc L p \<noteq> []" using item_node [OF assms(1) len] by (simp add: rlp_item_def penc_def)
  show "hashed L p \<Longrightarrow> as_hash L (pref L p) = Some (phash L p)"
    using assms(5) lib_misc(3) [OF assms(1)] by (auto simp: pref_def hashed_def node_ref_def Let_def penc_def phash_def)
  show "\<not> hashed L p \<Longrightarrow> as_hash L (pref L p) = None \<and> pref L p = penc L p \<and>
      penc L p \<noteq> [] \<and> decode_node L (penc L p) = Inr (node_of L p, [])"
    using assms(5) lib_misc(6) [OF assms(1)] ne decode_encode [OF assms(1) ok len, of "[]"]
    by (auto simp: pref_def hashed_def node_ref_def Let_def penc_def)
qed

lemma phash_not_empty:
  assumes "lib_ok L" and "collision_free L S" and "pwf p" and "encs L p \<subseteq> S" and "p \<noteq> PEmpty"
  shows "phash L p \<noteq> EMPTY_ROOT_HASH L"
proof
  assume "phash L p = EMPTY_ROOT_HASH L"
  then have "penc L p = [EMPTY_STRING_CODE]"
    using penc_in [OF assms(2,4)] assms(2) lib_misc(9) [OF assms(1)]
    unfolding collision_free_def phash_def inj_on_def by metis
  moreover have "length (penc L p) < 2 ^ 64" using penc_in [OF assms(2,4)] assms(2) by (simp add: collision_free_def)
  ultimately show False
    using penc_not_empty [OF assms(1) node_of_ok [OF assms(1-4)]] assms(5) by (simp add: penc_def)
qed

lemma get_phash_yields:
  assumes "lib_ok L" and "collision_free L S" and "pwf p" and "encs L p \<subseteq> S" and "addressed L db S t"
    and "p \<noteq> PEmpty \<Longrightarrow> holds db t (phash L p)"
  shows "yields L db S (get_node L db (phash L p)) t (node_of L p) (\<lambda>_. True)"
  unfolding phash_def penc_def
  using assms penc_in [OF assms(2,4)] node_of_ok [OF assms(1-4)]
  by (intro get_node_yields) (auto simp: penc_def phash_def)

lemma get_rlp_yields:
  assumes L: "lib_ok L" "collision_free L S" and p: "pwf p" "encs L p \<subseteq> S"
    and t: "addressed L db S t" "avail_child L db t p" and fuel: "3 * length ns + 3 \<le> k"
    and rec: "\<And>k t. p \<noteq> PEmpty \<Longrightarrow> 3 * length ns < k \<Longrightarrow> addressed L db S t \<Longrightarrow> avail L db t p \<Longrightarrow>
      yields L db S (get_recursive_node k L db (node_of L p) ns) t (plookup p ns) (\<lambda>_. True)"
  shows "yields L db S (get_recursive_rlp k L db (pref L p) ns) t (plookup p ns) (\<lambda>_. True)"
proof -
  obtain k' where k: "k = Suc (Suc k')" "3 * length ns < k'" using fuel by (cases k; cases "k - 1") auto
  show ?thesis
  proof (cases "p = PEmpty")
    case True
    with t(1) k lib_misc(6) [OF L(1), of "[]"] show ?thesis by (simp add: pref_def node_ref_def yields_Pair yields_ret)
  next
    case False
    show ?thesis
    proof (cases "hashed L p")
      case True
      have "yields L db S (get_recursive (Suc k') L db (phash L p) ns) t (plookup p ns) (\<lambda>_. True)"
        using phash_not_empty [OF L p False] k(2) False avail_childD(2) [OF t(2) True]
        by (auto intro!: yields_bind [OF get_phash_yields [OF L p t(1)]] rec
            dest: grows_addressed intro: avail_grows avail_childD(1) [OF t(2)])
      with child_resolves(1) [OF L p False True] k show ?thesis by simp
    next
      case F: False
      note c = child_resolves(2) [OF L p False this]
      have "yields L db S (sbind (reads (\<lambda>_. decode_node L (penc L p))) (\<lambda>r. get_recursive_node (Suc k') L db (fst r) ns)) t
          (plookup p ns) (\<lambda>_. True)"
      proof (rule yields_bind [OF yields_reads [where x = "(node_of L p, [])" and Q = "\<lambda>_. True"]])
        show "yields L db S (get_recursive_node (Suc k') L db (fst (node_of L p, [])) ns) t' (plookup p ns) (\<lambda>_. True)"
          if "grows L db S t t'" for t'
          unfolding fst_conv using k(2) avail_childD(1) [OF t(2)] that
          by (intro rec [OF False]) (auto dest: grows_addressed intro: avail_grows)
      qed (use c t in simp_all)
      moreover have "as_hash L (penc L p) = None" using c by metis
      then have "get_recursive_rlp k L db (pref L p) ns =
          sbind (reads (\<lambda>_. decode_node L (penc L p))) (\<lambda>r. get_recursive_node (Suc k') L db (fst r) ns)"
        using c k(1) by (simp del: get_recursive_node.simps)
      ultimately show ?thesis by (simp only:)
    qed
  qed
qed

lemma get_node_refines:
  assumes L: "lib_ok L" "collision_free L S"
  shows "pwf p \<Longrightarrow> encs L p \<subseteq> S \<Longrightarrow> nibble_path ns \<Longrightarrow> addressed L db S t \<Longrightarrow> avail L db t p \<Longrightarrow>
    3 * length ns < k \<Longrightarrow>
    yields L db S (get_recursive_node k L db (node_of L p) ns) t (plookup p ns) (\<lambda>_. True)"
proof (induction p ns arbitrary: k t rule: plookup.induct)
  case (3 b key p ns)
  then obtain k' where k: "k = Suc k'" by (cases k) auto
  show ?case
  proof (cases "prefix key ns")
    case True
    then obtain r where ns: "ns = key @ r" by (auto simp: prefix_def)
    have "key \<noteq> []" using 3 by simp
    then have "3 * length r + 3 \<le> k'" using 3 k ns by (cases key) simp_all
    then have "yields L db S (get_recursive_rlp k' L db (pref L p) r) t (plookup p r) (\<lambda>_. True)"
      using 3 ns True by (intro get_rlp_yields [OF L]) (auto simp: encs_simps avail_simps)
    with k ns show ?thesis by (simp add: pref_def)
  qed (use 3 k in \<open>simp add: yields_Pair\<close>)
next
  case (4 b ps v ns)
  then obtain k' where k: "k = Suc k'" by (cases k) auto
  show ?case
  proof (cases ns)
    case (Cons i r)
    then have i: "unat i < length ps" "nibble_path r" using 4 by (simp_all add: nibble_index)
    then have m: "ps ! unat i \<in> set ps" by simp
    have "yields L db S (get_recursive_rlp k' L db (pref L (ps ! unat i)) r) t
        (plookup (ps ! unat i) r) (\<lambda>_. True)"
    proof (rule get_rlp_yields [OF L])
      show "encs L (ps ! unat i) \<subseteq> S" using 4(3) m by (auto simp: encs_simps)
      then show "yields L db S (get_recursive_node k L db (node_of L (ps ! unat i)) r) t
          (plookup (ps ! unat i) r) (\<lambda>_. True)"
        if "3 * length r < k" "addressed L db S t" "avail L db t (ps ! unat i)" for k t
        using 4(1) [OF Cons i(1)] that i(2) 4(2) m by simp
    qed (use 4 m Cons k in \<open>auto simp: avail_simps\<close>)
    with k Cons i show ?thesis by (simp add: pref_def)
  qed (use 4 k in \<open>simp add: yields_Pair\<close>)
next
  case (1 ns)
  then show ?case by (cases k) (simp_all add: yields_Pair)
next
  case (2 b key v ns)
  then show ?case by (cases k) (simp_all add: yields_Pair)
qed

subsection \<open>Insertion refines the insertion of the tree\<close>

lemma common_zero: "take (common_prefix_length ns key) ns = [] \<longleftrightarrow> common_prefix_length ns key = 0"
  "take (common_prefix_length ns key) key = [] \<longleftrightarrow> common_prefix_length ns key = 0"
proof -
  obtain p ns' key' where "ns = p @ ns'" "key = p @ key'" "common_prefix_length ns key = length p"
    "ns' = [] \<or> key' = [] \<or> hd ns' \<noteq> hd key'" by (rule common_prefix_split)
  then show "take (common_prefix_length ns key) ns = [] \<longleftrightarrow> common_prefix_length ns key = 0"
    "take (common_prefix_length ns key) key = [] \<longleftrightarrow> common_prefix_length ns key = 0" by auto
qed

lemma flag_pinsert: "pwf p \<Longrightarrow> nibble_path ns \<Longrightarrow> flag (pinsert L b ns v p) = b"
  by (cases p) (auto simp: pinsert_leaf_def psplit_def Let_def pbelow_def common_zero simp del: take_eq_Nil
      split: list.split)

lemma pinsert_not_empty: "pinsert L b ns v p \<noteq> PEmpty"
  by (cases p) (auto simp: pinsert_leaf_def psplit_def Let_def pbelow_def split: list.split)

lemma store_tree_yields:
  assumes "lib_ok L" and "collision_free L S" and "pwf p" and "encs L p \<subseteq> S" and "addressed L db S t" and "avail L db t p"
  shows "yields L db S (store_node L (node_of L p)) t (phash L p) (\<lambda>t'. holds db t' (phash L p) \<and> avail L db t' p)"
proof (rule yields_cong)
  show "yields L db S (store_node L (node_of L p)) t (phash L p) (\<lambda>t'. holds db t' (phash L p))"
    unfolding phash_def penc_def using assms penc_in [OF assms(2,4)]
    by (intro store_node_yields node_of_ok) (simp_all add: penc_def)
qed (use assms(6) avail_grows in auto)

lemma store_child_yields:
  assumes "lib_ok L" and "collision_free L S" and "pwf p" and "encs L p \<subseteq> S" and "p \<noteq> PEmpty" and "\<not> flag p"
    and "addressed L db S t" and "avail L db t p"
  shows "yields L db S (store_node_to_rlp L (node_of L p)) t (pref L p) (\<lambda>t'. avail_child L db t' p)"
proof (rule yields_cong)
  show "yields L db S (store_node_to_rlp L (node_of L p)) t (node_ref L False (node_of L p))
      (\<lambda>t'. 32 \<le> length (penc L p) \<longrightarrow> holds db t' (phash L p))"
    unfolding phash_def penc_def using assms penc_in [OF assms(2,4)]
    by (intro store_node_to_rlp_yields node_of_ok) (simp_all add: penc_def)
  show "node_ref L False (node_of L p) = pref L p" using assms(6) by (simp add: pref_def)
  show "avail_child L db t' p" if "grows L db S t t'" "32 \<le> length (penc L p) \<longrightarrow> holds db t' (phash L p)" for t'
    using that assms(6) avail_grows(1) [OF that(1) assms(8)] by (intro avail_childI) (auto simp: hashed_def)
qed

lemma below_prefix_yields:
  assumes L: "lib_ok L" "collision_free L S" and "pwf (pbelow b s p)" and "encs L (pbelow b s p) \<subseteq> S"
    and "p \<noteq> PEmpty" and "s \<noteq> [] \<Longrightarrow> \<not> flag p" and "addressed L db S t" and "avail L db t p"
  shows "yields L db S (below_prefix L s (node_of L p)) t (node_of L (pbelow b s p)) (\<lambda>t'. avail L db t' (pbelow b s p))"
proof (cases "s = []")
  case False
  have "yields L db S (sbind (store_node_to_rlp L (node_of L p)) (\<lambda>c. ret (Extension s c))) t
      (Extension s (pref L p)) (\<lambda>t'. avail_child L db t' p)"
    using assms False
    by (intro yields_bind [OF store_child_yields [OF L]] yields_ret)
      (auto simp: pbelow_def encs_simps grows_addressed)
  with False show ?thesis by (simp add: below_prefix_def pbelow_def avail_simps pref_def)
qed (use assms in \<open>simp add: below_prefix_def pbelow_def yields_Pair yields_ret\<close>)

lemma node_of_stack:
  "node_of L (PBranch b (pstack[i := p]) w) = Branch (empty_stack[i := pref L p]) w"
  "node_of L (PBranch b (pstack[i := p, j := q]) w) = Branch (empty_stack[i := pref L p, j := pref L q]) w"
  by (simp_all add: pstack_def empty_stack_def map_update pref_def node_ref_def)

lemma avail_stack:
  "avail_child L db t p \<Longrightarrow> avail L db t (PBranch b (pstack[i := p]) w)"
  "avail_child L db t p \<Longrightarrow> avail_child L db t q \<Longrightarrow> avail L db t (PBranch b (pstack[i := p, j := q]) w)"
  unfolding avail_simps by (blast dest: pstack_set intro: avail_simps)+

lemma encs_stack:
  "i < 16 \<Longrightarrow> encs L (PBranch b (pstack[i := p]) w) \<subseteq> S \<Longrightarrow> encs L p \<subseteq> S"
  "i < 16 \<Longrightarrow> j < 16 \<Longrightarrow> i \<noteq> j \<Longrightarrow> encs L (PBranch b (pstack[i := p, j := q]) w) \<subseteq> S \<Longrightarrow> encs L p \<subseteq> S \<and> encs L q \<subseteq> S"
proof -
  show "i < 16 \<Longrightarrow> encs L (PBranch b (pstack[i := p]) w) \<subseteq> S \<Longrightarrow> encs L p \<subseteq> S"
    using set_update_memI [of i pstack p] by (auto simp: encs_simps)
  assume a: "i < 16" "j < 16" "i \<noteq> j" "encs L (PBranch b (pstack[i := p, j := q]) w) \<subseteq> S"
  have "p \<in> set (pstack[i := p, j := q])" "q \<in> set (pstack[i := p, j := q])"
    using a(1-3) set_update_memI [of j "pstack[i := p]" q] set_update_memI [of i "pstack[j := q]" p]
    by (simp_all add: list_update_swap)
  with a(4) show "encs L p \<subseteq> S \<and> encs L q \<subseteq> S" by (auto simp: encs_simps)
qed

lemma encs_below: "encs L (pbelow b s p) \<subseteq> S \<Longrightarrow> encs L p \<subseteq> S"
  by (auto simp: pbelow_def encs_simps split: if_splits)

lemma pwf_below: "pwf (pbelow b s p) \<Longrightarrow> pwf p"
  by (auto simp: pbelow_def split: if_splits)

lemma pwf_stack:
  "i < 16 \<Longrightarrow> pwf (PBranch b (pstack[i := p]) w) \<Longrightarrow> pwf p"
  using set_update_memI [of i pstack p] by auto

text \<open>One new child in a fresh branch, and two.\<close>

lemma one_child_yields:
  assumes L: "lib_ok L" "collision_free L S" and m: "yields L db S m t (pref L p) (\<lambda>t'. avail_child L db t' p)"
  shows "yields L db S (sbind m (\<lambda>c. ret (Branch (empty_stack[i := c]) w))) t
    (node_of L (PBranch b (pstack[i := p]) w)) (\<lambda>t'. avail L db t' (PBranch b (pstack[i := p]) w))"
  unfolding node_of_stack using m by (rule yields_bind) (auto intro!: yields_ret avail_stack simp: grows_addressed)

lemma two_children_yields:
  assumes L: "lib_ok L" "collision_free L S" and m: "yields L db S m t (pref L p) (\<lambda>t'. avail_child L db t' p)"
    and m': "\<And>t'. addressed L db S t' \<Longrightarrow> yields L db S m' t' (pref L q) (\<lambda>t'. avail_child L db t' q)"
  shows "yields L db S (sbind m (\<lambda>c1. sbind m' (\<lambda>c2. ret (Branch (empty_stack[i := c1, j := c2]) w)))) t
    (node_of L (PBranch b (pstack[i := p, j := q]) w)) (\<lambda>t'. avail L db t' (PBranch b (pstack[i := p, j := q]) w))"
  unfolding node_of_stack using m
proof (rule yields_bind)
  fix t1 assume t1: "grows L db S t t1" "avail_child L db t1 p"
  show "yields L db S (sbind m' (\<lambda>c2. ret (Branch (empty_stack[i := pref L p, j := c2]) w))) t1
      (Branch (empty_stack[i := pref L p, j := pref L q]) w)
      (\<lambda>t'. avail L db t' (PBranch b (pstack[i := p, j := q]) w))"
    by (rule yields_bind [OF m' [OF grows_addressed [OF t1(1)]]])
      (auto intro!: yields_ret avail_stack avail_grows(2) [OF _ t1(2)] simp: grows_addressed)
qed

lemma leaf_child_yields:
  assumes "lib_ok L" "collision_free L S" and "encs L (PLeaf False key v) \<subseteq> S" and "nibble_path key" and "v \<noteq> []"
    and "addressed L db S t"
  shows "yields L db S (store_node_to_rlp L (Leaf key v)) t (pref L (PLeaf False key v))
    (\<lambda>t'. avail_child L db t' (PLeaf False key v))"
  using store_child_yields [OF assms(1,2) _ assms(3) _ _ assms(6)] assms(4,5) by (simp add: avail_simps)

lemma insert_leaf_yields:
  assumes L: "lib_ok L" "collision_free L S" and key: "nibble_path key" "old \<noteq> []" and ns: "nibble_path ns" "v \<noteq> []"
    and e: "encs L (pinsert_leaf b key old ns v) \<subseteq> S" and t: "addressed L db S t"
  shows "yields L db S (insert_leaf L key old ns v) t (node_of L (pinsert_leaf b key old ns v))
    (\<lambda>t'. avail L db t' (pinsert_leaf b key old ns v))"
proof -
  have wf: "pwf (pinsert_leaf b key old ns v)"
    using pwf_pinsert [of "PLeaf b key old" ns v L b] key ns by simp
  obtain p ns' key' where s: "ns = p @ ns'" "key = p @ key'" "common_prefix_length ns key = length p"
    "ns' = [] \<or> key' = [] \<or> hd ns' \<noteq> hd key'" by (rule common_prefix_split)
  have np: "nibble_path ns'" "nibble_path key'" using key ns s by simp_all
  show ?thesis
  proof (cases "ns' = [] \<and> key' = []")
    case True
    with s t show ?thesis
      by (simp add: insert_leaf_def pinsert_leaf_def Let_def avail_simps yields_ret yields_Pair)
  next
    case False
    define B where "B = (if key' = [] then PBranch (b \<and> p = []) (pstack[unat (hd ns') := PLeaf False (tl ns') v]) (Some old)
         else if ns' = [] then PBranch (b \<and> p = []) (pstack[unat (hd key') := PLeaf False (tl key') old]) (Some v)
         else PBranch (b \<and> p = []) (pstack[unat (hd key') := PLeaf False (tl key') old, unat (hd ns') := PLeaf False (tl ns') v]) None)"
    have pi: "pinsert_leaf b key old ns v = pbelow b p B"
      using False unfolding pinsert_leaf_def s(3) unfolding s(1,2) B_def by (simp add: Let_def)
    define m where "m = (if key' = [] then
           sbind (store_node_to_rlp L (Leaf (tl ns') v)) (\<lambda>c. ret (Branch (empty_stack[unat (hd ns') := c]) (Some old)))
         else if ns' = [] then
           sbind (store_node_to_rlp L (Leaf (tl key') old)) (\<lambda>c. ret (Branch (empty_stack[unat (hd key') := c]) (Some v)))
         else
           sbind (store_node_to_rlp L (Leaf (tl key') old)) (\<lambda>c1.
           sbind (store_node_to_rlp L (Leaf (tl ns') v)) (\<lambda>c2.
             ret (Branch (empty_stack[unat (hd key') := c1, unat (hd ns') := c2]) None))))"
    have im: "insert_leaf L key old ns v = sbind m (below_prefix L p)"
      using False unfolding insert_leaf_def s(3) unfolding s(1,2) m_def
      by (cases ns'; cases key') (simp_all add: Let_def)
    have eB: "encs L B \<subseteq> S" using e unfolding pi by (rule encs_below)
    have "yields L db S m t (node_of L B) (\<lambda>t'. avail L db t' B)"
    proof (cases "key' = [] \<or> ns' = []")
      case one: True
      show ?thesis
      proof (cases "key' = []")
        case True
        with False obtain i r where ir: "ns' = i # r" by (cases ns') auto
        then have B: "B = PBranch (b \<and> p = []) (pstack[unat i := PLeaf False r v]) (Some old)" using True by (simp add: B_def)
        have i: "i < 16" "nibble_path r" using np ir by simp_all
        have "encs L (PLeaf False r v) \<subseteq> S" using encs_stack(1) [OF nibble_index [OF i(1)] eB [unfolded B]] .
        note this i(2)
        from one_child_yields [OF L leaf_child_yields [OF L this ns(2) t]] show ?thesis
          using True ir by (simp add: m_def B_def)
      next
        case F: False
        with one obtain i r where ir: "key' = i # r" "ns' = []" by (cases key') auto
        then have B: "B = PBranch (b \<and> p = []) (pstack[unat i := PLeaf False r old]) (Some v)" by (simp add: B_def)
        have i: "i < 16" "nibble_path r" using np ir by simp_all
        have "encs L (PLeaf False r old) \<subseteq> S" using encs_stack(1) [OF nibble_index [OF i(1)] eB [unfolded B]] .
        note this i(2)
        from one_child_yields [OF L leaf_child_yields [OF L this key(2) t]] show ?thesis
          using F ir by (simp add: m_def B_def)
      qed
    next
      case two: False
      then obtain i r j q where ir: "key' = i # r" "ns' = j # q" by (cases key'; cases ns') auto
      with s(4) have ij: "unat i \<noteq> unat j" by (auto simp: unat_index_eq)
      have B: "B = PBranch (b \<and> p = []) (pstack[unat i := PLeaf False r old, unat j := PLeaf False q v]) None"
        using ir by (simp add: B_def)
      have i: "i < 16" "nibble_path r" "j < 16" "nibble_path q" using np ir by simp_all
      note eij = encs_stack(2) [OF nibble_index [OF i(1)] nibble_index [OF i(3)] ij eB [unfolded B]]
      note eij [THEN conjunct1] i(2) eij [THEN conjunct2] i(4)
      from two_children_yields [OF L leaf_child_yields [OF L this(1,2) key(2) t] leaf_child_yields [OF L this(3,4) ns(2)]]
      show ?thesis using ir by (simp add: m_def B_def)
    qed
    then show ?thesis
      unfolding im pi
    proof (rule yields_bind)
      fix t1 assume "grows L db S t t1" "avail L db t1 B"
      then show "yields L db S (below_prefix L p (node_of L B)) t1 (node_of L (pbelow b p B)) (\<lambda>t'. avail L db t' (pbelow b p B))"
        using wf e unfolding pi
        by (intro below_prefix_yields [OF L]) (auto simp: B_def grows_addressed)
    qed
  qed
qed

lemma shortened_yields:
  assumes L: "lib_ok L" "collision_free L S" and "pwf (pbelow False key p)" and "encs L (pbelow False key p) \<subseteq> S"
    and "p \<noteq> PEmpty" and "addressed L db S t" and "avail_child L db t p"
  shows "yields L db S (shortened_extension L key (pref L p)) t (pref L (pbelow False key p))
    (\<lambda>t'. avail_child L db t' (pbelow False key p))"
proof (cases "key = []")
  case False
  have "yields L db S (store_node_to_rlp L (node_of L (PExt False key p))) t (pref L (PExt False key p))
      (\<lambda>t'. avail_child L db t' (PExt False key p))"
    using assms False by (intro store_child_yields [OF L]) (auto simp: pbelow_def avail_simps)
  with False show ?thesis by (simp add: shortened_extension_def pbelow_def pref_def)
qed (use assms in \<open>simp add: shortened_extension_def pbelow_def yields_Pair yields_ret\<close>)

lemma split_extension_yields:
  assumes L: "lib_ok L" "collision_free L S" and x: "pwf (PExt b' key p)" and ns: "nibble_path ns" "v \<noteq> []"
    and e: "encs L (psplit b key p ns v) \<subseteq> S" and t: "addressed L db S t" "avail_child L db t p"
    and ne: "common_prefix_length ns key \<noteq> length key"
  shows "yields L db S (split_extension L key (pref L p) ns v) t (node_of L (psplit b key p ns v))
    (\<lambda>t'. avail L db t' (psplit b key p ns v))"
proof -
  have wf: "pwf (psplit b key p ns v)"
    using pwf_pinsert [OF x ns, of L b] ne by simp
  obtain s ns' key' where s: "ns = s @ ns'" "key = s @ key'" "common_prefix_length ns key = length s"
    "ns' = [] \<or> key' = [] \<or> hd ns' \<noteq> hd key'" by (rule common_prefix_split)
  then obtain i r where ir: "key' = i # r" using ne by (cases key') auto
  have i: "unat i < 16" "nibble_path r" "nibble_path ns'" using x ns s ir by (simp_all add: nibble_index)
  have pe: "p \<noteq> PEmpty" using x by auto
  define B where "B = (if ns' = [] then PBranch (b \<and> s = []) (pstack[unat i := pbelow False r p]) (Some v)
       else PBranch (b \<and> s = []) (pstack[unat i := pbelow False r p, unat (hd ns') := PLeaf False (tl ns') v]) None)"
  have pi: "psplit b key p ns v = pbelow b s B"
    unfolding psplit_def s(3) unfolding s(1,2) B_def ir by (simp add: Let_def)
  define m where "m = (if ns' = [] then
         sbind (shortened_extension L r (pref L p)) (\<lambda>c1. ret (Branch (empty_stack[unat i := c1]) (Some v)))
       else
         sbind (shortened_extension L r (pref L p)) (\<lambda>c1.
         sbind (store_node_to_rlp L (Leaf (tl ns') v)) (\<lambda>c2.
           ret (Branch (empty_stack[unat i := c1, unat (hd ns') := c2]) None))))"
  have im: "split_extension L key (pref L p) ns v = sbind m (below_prefix L s)"
    unfolding split_extension_def s(3) unfolding s(1,2) m_def ir by (cases ns') (simp_all add: Let_def)
  have eB: "encs L B \<subseteq> S" using e unfolding pi by (rule encs_below)
  have wr: "pwf (pbelow False r p)" using x i(2) by (auto intro: pwf_pbelow)
  have "yields L db S m t (node_of L B) (\<lambda>t'. avail L db t' B)"
  proof (cases ns')
    case Nil
    with eB i(1) have "encs L (pbelow False r p) \<subseteq> S" using encs_stack(1) [of "unat i"] by (simp add: B_def)
    from one_child_yields [OF L shortened_yields [OF L wr this pe t]] show ?thesis
      using Nil by (simp add: m_def B_def)
  next
    case (Cons j q)
    with s(4) ir have ij: "unat i \<noteq> unat j" by (auto simp: unat_index_eq)
    have B: "B = PBranch (b \<and> s = []) (pstack[unat i := pbelow False r p, unat j := PLeaf False q v]) None"
      using Cons by (simp add: B_def)
    have j: "j < 16" "nibble_path q" using i(3) Cons by simp_all
    note eij = encs_stack(2) [OF i(1) nibble_index [OF j(1)] ij eB [unfolded B]]
    note eij [THEN conjunct1] eij [THEN conjunct2] j(2)
    from two_children_yields [OF L shortened_yields [OF L wr this(1) pe t] leaf_child_yields [OF L this(2,3) ns(2)]]
    show ?thesis using Cons by (simp add: m_def B_def)
  qed
  then show ?thesis
    unfolding im pi
  proof (rule yields_bind)
    fix t1 assume "grows L db S t t1" "avail L db t1 B"
    then show "yields L db S (below_prefix L s (node_of L B)) t1 (node_of L (pbelow b s B)) (\<lambda>t'. avail L db t' (pbelow b s B))"
      using wf e unfolding pi
      by (intro below_prefix_yields [OF L]) (auto simp: B_def grows_addressed)
  qed
qed

lemma insert_rlp_yields:
  assumes L: "lib_ok L" "collision_free L S" and p: "pwf p" "encs L p \<subseteq> S" and ns: "nibble_path ns" "v \<noteq> []"
    and p': "p' = pinsert L (hashed L p) ns v p" "encs L p' \<subseteq> S"
    and t: "addressed L db S t" "avail_child L db t p" and fuel: "2 * length ns + 2 \<le> k"
    and rec: "\<And>k t. 2 * length ns < k \<Longrightarrow> addressed L db S t \<Longrightarrow> avail L db t p \<Longrightarrow>
      (p \<noteq> PEmpty \<Longrightarrow> holds db t (phash L p)) \<Longrightarrow>
      yields L db S (insert_recursive k L db (phash L p) ns v) t (phash L p') (\<lambda>t'. holds db t' (phash L p') \<and> avail L db t' p')"
  shows "yields L db S (insert_recursive_rlp k L db (pref L p) ns v) t (pref L p') (\<lambda>t'. avail_child L db t' p')"
proof -
  obtain k' where k: "k = Suc k'" "2 * length ns < k'" using fuel by (cases k) auto
  have f: "flag p' = hashed L p" and ne: "p' \<noteq> PEmpty" and wf: "pwf p'"
    using p ns p' flag_pinsert pinsert_not_empty pwf_pinsert by simp_all
  have av: "avail L db t p" using t(2) by (rule avail_childD(1))
  show ?thesis
  proof (cases "hashed L p")
    case True
    then have pe: "p \<noteq> PEmpty" by (simp add: hashed_def)
    have "pref L p' = word_rlp L (phash L p')" using f True ne by (simp add: pref_def node_ref_def phash_def penc_def)
    moreover have "yields L db S (sbind (insert_recursive k' L db (phash L p) ns v) (\<lambda>h. ret (word_rlp L h))) t
        (word_rlp L (phash L p')) (\<lambda>t'. avail_child L db t' p')"
      by (rule yields_bind [OF rec [OF k(2) t(1) av avail_childD(2) [OF t(2) True]]])
        (auto intro!: yields_ret avail_childI simp: grows_addressed)
    ultimately show ?thesis using k(1) child_resolves(1) [OF L p pe True] by simp
  next
    case False
    have i: "as_hash L (pref L p) = None" "inline_node L (pref L p) = Inr (node_of L p)"
    proof -
      show "as_hash L (pref L p) = None"
        using False child_resolves(2) [OF L p] lib_misc(6) [OF L(1), of "[]"]
        by (cases "p = PEmpty") (auto simp: pref_def node_ref_def)
      show "inline_node L (pref L p) = Inr (node_of L p)"
        using False child_resolves(2) [OF L p]
        by (cases "p = PEmpty") (auto simp: inline_node_def, simp_all add: pref_def node_ref_def)
    qed
    have "yields L db S (sbind (reads (\<lambda>_. inline_node L (pref L p))) (\<lambda>n. sbind (store_node L n) (\<lambda>d.
        sbind (insert_recursive k' L db d ns v) (\<lambda>h. sbind (get_node L db h) (store_node_to_rlp L))))) t
        (pref L p') (\<lambda>t'. avail_child L db t' p')"
    proof (rule yields_bind [OF yields_reads [OF t(1) i(2), of "\<lambda>t'. t' = t", OF refl]])
      fix t0 assume "t0 = t"
      then show "yields L db S (sbind (store_node L (node_of L p)) (\<lambda>d. sbind (insert_recursive k' L db d ns v)
          (\<lambda>h. sbind (get_node L db h) (store_node_to_rlp L)))) t0 (pref L p') (\<lambda>t'. avail_child L db t' p')"
        using f False ne
        by (auto intro!: yields_bind [OF store_tree_yields [OF L p t(1) av]] yields_bind [OF rec]
            yields_bind [OF get_phash_yields [OF L wf p'(2)]] store_child_yields [OF L wf p'(2)]
            intro: grows_addressed avail_grows k(2))
    qed
    with i k(1) show ?thesis by simp
  qed
qed

lemma get_phash_bind:
  assumes "lib_ok L" and "collision_free L S" and "pwf p" and "encs L p \<subseteq> S" and "addressed L db S t"
    and "holds db t (phash L p)" and "\<And>t1. grows L db S t t1 \<Longrightarrow> yields L db S (f (node_of L p)) t1 x Q"
  shows "yields L db S (sbind (get_node L db (phash L p)) f) t x Q"
  using assms by (intro yields_bind [OF get_phash_yields]) auto

lemma insert_refines:
  assumes L: "lib_ok L" "collision_free L S"
  shows "pwf p \<Longrightarrow> encs L p \<subseteq> S \<Longrightarrow> nibble_path ns \<Longrightarrow> v \<noteq> [] \<Longrightarrow> encs L (pinsert L b ns v p) \<subseteq> S \<Longrightarrow>
    addressed L db S t \<Longrightarrow> avail L db t p \<Longrightarrow> (p \<noteq> PEmpty \<Longrightarrow> holds db t (phash L p)) \<Longrightarrow> 2 * length ns < k \<Longrightarrow>
    yields L db S (insert_recursive k L db (phash L p) ns v) t (phash L (pinsert L b ns v p))
      (\<lambda>t'. holds db t' (phash L (pinsert L b ns v p)) \<and> avail L db t' (pinsert L b ns v p))"
proof (induction L' \<equiv> L b ns v p arbitrary: k t rule: pinsert.induct)
  case (1 b ns v)
  then obtain k' where k: "k = Suc k'" by (cases k) auto
  have "phash L PEmpty = EMPTY_ROOT_HASH L"
    using lib_misc(9) [OF L(1)] by (simp add: phash_def penc_def encode_node_def)
  with k 1 store_tree_yields [OF L, of "PLeaf b ns v" db t] show ?case by (simp add: avail_simps)
next
  case (2 b ns v b' key old)
  then obtain k' where k: "k = Suc k'" by (cases k) auto
  have wf: "pwf (pinsert_leaf b key old ns v)" using pwf_pinsert [OF 2(1,3,4), of L b] by simp
  have "yields L db S (sbind (insert_leaf L key old ns v) (store_node L)) t1 (phash L (pinsert_leaf b key old ns v))
      (\<lambda>t'. holds db t' (phash L (pinsert_leaf b key old ns v)) \<and> avail L db t' (pinsert_leaf b key old ns v))"
    if "grows L db S t t1" for t1
    using that 2 wf
    by (intro yields_bind [OF insert_leaf_yields [OF L, where b = b]] store_tree_yields [OF L]) (auto simp: grows_addressed)
  with 2 phash_not_empty [OF L 2(1,2)] show ?case
    unfolding k insert_recursive.simps by (auto intro!: get_phash_bind [OF L])
next
  case (3 b ns v b' key p)
  then obtain k' where k: "k = Suc k'" by (cases k) auto
  have av: "avail_child L db t p" using 3(8) by (simp add: avail_simps)
  have wf: "pwf (pinsert L b ns v (PExt b' key p))" using pwf_pinsert [OF 3(2,4,5), of L b] by simp
  let ?q = "pinsert L b ns v (PExt b' key p)"
  have "yields L db S (if common_prefix_length ns key = length key
        then sbind (insert_recursive_rlp k' L db (pref L p) (drop (length key) ns) v) (\<lambda>c'. store_node L (Extension key c'))
        else sbind (split_extension L key (pref L p) ns v) (store_node L)) t1 (phash L ?q)
      (\<lambda>t'. holds db t' (phash L ?q) \<and> avail L db t' ?q)"
    if t1: "grows L db S t t1" for t1
  proof (cases "common_prefix_length ns key = length key")
    case True
    let ?r = "drop (length key) ns" let ?p' = "pinsert L (hashed L p) ?r v p"
    have q: "?q = PExt b key ?p'" using True by simp
    have "key \<noteq> []" "prefix key ns" using 3(2) True common_prefix_full by simp_all
    then have "length ?r < length ns" by (cases key; cases ns) auto
    then have fuel: "2 * length ?r + 2 \<le> k'" using 3(10) k by simp
    have e: "encs L p \<subseteq> S" "encs L ?p' \<subseteq> S" using 3(3,6) q by (auto simp: encs_simps)
    have n: "nibble_path ?r" using 3(4) by (rule nibble_path_drop)
    have "yields L db S (insert_recursive_rlp k' L db (pref L p) ?r v) t1 (pref L ?p') (\<lambda>t'. avail_child L db t' ?p')"
      using 3(1) [OF True] 3(2,5) e n fuel avail_grows(2) [OF t1 av] grows_addressed [OF t1]
      by (intro insert_rlp_yields [OF L _ _ _ _ refl]) auto
    then have "yields L db S (sbind (insert_recursive_rlp k' L db (pref L p) ?r v) (\<lambda>c'. store_node L (Extension key c')))
        t1 (phash L ?q) (\<lambda>t'. holds db t' (phash L ?q) \<and> avail L db t' ?q)"
    proof (rule yields_bind)
      fix t2 assume "grows L db S t1 t2" "avail_child L db t2 ?p'"
      then show "yields L db S (store_node L (Extension key (pref L ?p'))) t2 (phash L ?q)
          (\<lambda>t'. holds db t' (phash L ?q) \<and> avail L db t' ?q)"
        using store_tree_yields [OF L wf 3(6), of db t2] unfolding q
        by (simp add: avail_simps grows_addressed pref_def)
    qed
    with True show ?thesis by simp
  next
    case False
    then have q: "?q = psplit b key p ns v" by simp
    show ?thesis
      using False wf 3 t1 av unfolding q
      by (auto intro!: yields_bind [OF split_extension_yields [OF L, where b = b and b' = b']] store_tree_yields [OF L]
          simp: grows_addressed avail_grows)
  qed
  with 3 phash_not_empty [OF L 3(2,3)] show ?case
    unfolding k insert_recursive.simps by (auto intro!: get_phash_bind [OF L] simp: pref_def)
next
  case (4 b ns v b' ps w)
  then obtain k' where k: "k = Suc k'" by (cases k) auto
  let ?q = "pinsert L b ns v (PBranch b' ps w)"
  have wf: "pwf ?q" using pwf_pinsert [OF 4(2,4,5), of L b] by simp
  have "yields L db S (case ns of [] \<Rightarrow> store_node L (Branch (map (pref L) ps) (Some v))
      | i # r \<Rightarrow> if unat i \<ge> 16 then fail BranchIndex
          else sbind (insert_recursive_rlp k' L db (map (pref L) ps ! unat i) r v)
            (\<lambda>c'. store_node L (Branch ((map (pref L) ps)[unat i := c']) w))) t1 (phash L ?q)
      (\<lambda>t'. holds db t' (phash L ?q) \<and> avail L db t' ?q)"
    if t1: "grows L db S t t1" for t1
  proof (cases ns)
    case Nil
    with wf 4 t1 avail_grows(1) [OF t1 4(8)] store_tree_yields [OF L wf 4(6), of db t1] show ?thesis
      by (simp add: grows_addressed avail_simps pref_def [abs_def])
  next
    case (Cons i r)
    then have i: "unat i < length ps" "\<not> 16 \<le> unat i" "nibble_path r" using 4(2,4) nibble_index [of i] by simp_all
    then have m: "ps ! unat i \<in> set ps" by simp
    let ?p = "ps ! unat i" let ?p' = "pinsert L (hashed L ?p) r v ?p"
    have q: "?q = PBranch b (ps[unat i := ?p']) w" using Cons i by simp
    have e: "encs L ?p \<subseteq> S" "encs L ?p' \<subseteq> S"
      using 4(3,6) q m set_update_memI [OF i(1), of ?p'] by (auto simp: encs_simps)
    have av: "avail_child L db t1 p" if "p \<in> set ps" for p
      using that avail_grows(1) [OF t1 4(8)] by (simp add: avail_simps)
    have "yields L db S (insert_recursive_rlp k' L db (pref L ?p) r v) t1 (pref L ?p') (\<lambda>t'. avail_child L db t' ?p')"
      using 4(1) [OF Cons i(1)] 4(2,5,10) e i m Cons k av [OF m] grows_addressed [OF t1]
      by (intro insert_rlp_yields [OF L _ _ _ _ refl]) auto
    then have "yields L db S (sbind (insert_recursive_rlp k' L db (pref L ?p) r v)
        (\<lambda>c'. store_node L (Branch ((map (pref L) ps)[unat i := c']) w)))
        t1 (phash L ?q) (\<lambda>t'. holds db t' (phash L ?q) \<and> avail L db t' ?q)"
    proof (rule yields_bind)
      fix t2 assume t2: "grows L db S t1 t2" "avail_child L db t2 ?p'"
      have "avail L db t2 ?q"
        using t2(2) avail_grows(2) [OF t2(1) av] unfolding q avail_simps
        by (auto dest!: set_update_subset_insert [THEN subsetD])
      then show "yields L db S (store_node L (Branch ((map (pref L) ps)[unat i := pref L ?p']) w)) t2 (phash L ?q)
          (\<lambda>t'. holds db t' (phash L ?q) \<and> avail L db t' ?q)"
        using store_tree_yields [OF L wf 4(6), of db t2] grows_addressed [OF t2(1)] unfolding q
        by (simp add: pref_def [abs_def] map_update)
    qed
    with Cons i show ?thesis by simp
  qed
  note body = this
  have n: "node_of L (PBranch b' ps w) = Branch (map (pref L) ps) w" by (simp add: pref_def [abs_def])
  have h: "phash L (PBranch b' ps w) \<noteq> EMPTY_ROOT_HASH L" by (rule phash_not_empty [OF L 4(2,3)]) simp
  show ?case
    unfolding k insert_recursive.simps if_not_P [OF h]
    by (rule get_phash_bind [OF L 4(2,3,7)]) (use 4(9) body in \<open>simp_all only: n mpt_node.case ptrie.distinct simp_thms\<close>)
qed

subsection \<open>The store of a trie\<close>

definition represents :: "trie_lib \<Rightarrow> provider \<Rightarrow> bytes set \<Rightarrow> ptrie \<Rightarrow> trie \<Rightarrow> bool" where
  "represents L db S p t \<longleftrightarrow> pwf p \<and> encs L p \<subseteq> S \<and> addressed L db S t \<and> avail L db t p \<and>
     root_hash t = phash L p \<and> (p \<noteq> PEmpty \<longrightarrow> holds db t (phash L p))"

lemma represents_empty:
  assumes "lib_ok L" and "\<And>h b. db h \<noteq> Inr (Some b)"
  shows "represents L db S PEmpty (trie_new (EMPTY_ROOT_HASH L))"
  using assms lib_misc(9) [OF assms(1)]
  by (simp add: represents_def trie_new_def addressed_def avail_simps encs_simps phash_def penc_def encode_node_def)

lemma get_represents:
  assumes L: "lib_ok L" "collision_free L S" and r: "represents L db S p t" and ns: "nibble_path ns"
    and k: "3 * length ns + 1 < k"
  shows "fst (get_nibbles k L db ns t) = Inr (plookup p ns)"
proof -
  obtain k' where k': "k = Suc k'" "3 * length ns < k'" using k by (cases k) auto
  show ?thesis
  proof (cases "p = PEmpty")
    case True
    then have "root_hash t = EMPTY_ROOT_HASH L"
      using r lib_misc(9) [OF L(1)] by (simp add: represents_def phash_def penc_def encode_node_def)
    with True k' show ?thesis by (simp add: get_nibbles_def)
  next
    case False
    have p: "pwf p" "encs L p \<subseteq> S" "addressed L db S t" "avail L db t p" "holds db t (phash L p)" "root_hash t = phash L p"
      using r False by (simp_all add: represents_def)
    have "yields L db S (sbind (get_node L db (phash L p)) (\<lambda>n. get_recursive_node k' L db n ns)) t (plookup p ns) (\<lambda>_. True)"
      using p(1,2) ns k'(2) avail_grows(1) [OF _ p(4)] grows_addressed
      by (intro get_phash_bind [OF L p(1-3,5)] get_node_refines [OF L]) blast+
    with k'(1) p(6) phash_not_empty [OF L p(1,2) False] show ?thesis
      by (auto simp: get_nibbles_def yields_def)
  qed
qed

lemma insert_represents:
  assumes L: "lib_ok L" "collision_free L S" and r: "represents L db S p t" and ns: "nibble_path ns" "v \<noteq> []"
    and e: "encs L (pinsert L False ns v p) \<subseteq> S" and k: "2 * length ns < k"
  shows "\<exists>t'. insert_nibbles k L db ns v t = (Inr (), t') \<and> represents L db S (pinsert L False ns v p) t'"
proof -
  let ?q = "pinsert L False ns v p"
  have "yields L db S (insert_recursive k L db (phash L p) ns v) t (phash L ?q) (\<lambda>t'. holds db t' (phash L ?q) \<and> avail L db t' ?q)"
    using r ns e k by (intro insert_refines [OF L]) (auto simp: represents_def)
  then obtain t1 where t1: "insert_recursive k L db (phash L p) ns v t = (Inr (phash L ?q), t1)"
    "addressed L db S t1" "holds db t1 (phash L ?q)" "avail L db t1 ?q" by (auto simp: yields_def grows_def)
  have same: "addressed L db S (t1\<lparr>root_hash := h\<rparr>) = addressed L db S t1" "holds db (t1\<lparr>root_hash := h\<rparr>) = holds db t1" for h
    by (auto simp: addressed_def holds_def)
  have "represents L db S ?q (t1\<lparr>root_hash := phash L ?q\<rparr>)"
    using t1 e pwf_pinsert [of p ns v L False] r ns
    by (simp add: represents_def same avail_def)
  moreover have "insert_nibbles k L db ns v t = (Inr (), t1\<lparr>root_hash := phash L ?q\<rparr>)"
    using t1(1) r by (simp add: insert_nibbles_def set_root_def represents_def)
  ultimately show ?thesis by blast
qed

text \<open>C2: \<open>EthTrie\<close> refines a map from paths to values.  Inserting into a trie whose store holds its nodes
  succeeds and leaves a store that holds the new trie; looking up any path then gives the inserted value at
  the inserted path and at every other path what it gave before.  The hash function has no collision among the
  encodings of the nodes in play, values are not empty, and the fuel covers the depth of the paths.\<close>

theorem trie_get_after_insert:
  assumes "lib_ok L" and "collision_free L S" and "represents L db S p t" and "nibble_path ns" and "v \<noteq> []"
    and "encs L (pinsert L False ns v p) \<subseteq> S" and "2 * length ns < k"
  shows "\<exists>t'. insert_nibbles k L db ns v t = (Inr (), t') \<and> represents L db S (pinsert L False ns v p) t' \<and>
    (\<forall>ms j. nibble_path ms \<longrightarrow> 3 * length ms + 1 < j \<longrightarrow>
      fst (get_nibbles j L db ms t') = (if ms = ns then Inr (Some v) else fst (get_nibbles j L db ms t)))"
proof -
  from insert_represents [OF assms] obtain t' where
    t': "insert_nibbles k L db ns v t = (Inr (), t')" "represents L db S (pinsert L False ns v p) t'" by blast
  have "fst (get_nibbles j L db ms t') = (if ms = ns then Inr (Some v) else fst (get_nibbles j L db ms t))"
    if "nibble_path ms" "3 * length ms + 1 < j" for ms j
    using get_represents [OF assms(1,2) t'(2) that] get_represents [OF assms(1-3) that]
      plookup_pinsert [of p ns ms L False v] assms(3,4) that(1) by (simp add: represents_def)
  with t' show ?thesis by blast
qed

end
