(* ===== verification/TrieFacts.thy ===== *)
theory TrieFacts imports TrieRefine begin

text \<open>Concrete instances of the trie and two consequences of the refinement: what enumeration does on a branch, and that
  the root hash remembers the order of writes.\<close>

subsection \<open>The reference instance has no short collisions\<close>

definition short_strings :: "bytes set" where
  "short_strings = {b. length b \<le> 31}"

lemma byte_bound: "unat (x :: u8) < 256"
proof -
  have "unat x < 2 ^ LENGTH(8)" by (rule unsigned_less)
  then show ?thesis by simp
qed

lemma base_digits:
  assumes "a * 256 + x = b * 256 + (y :: nat)" and "x < 256" and "y < 256"
  shows "a = b" and "x = y"
proof -
  have "(a * 256 + x) div 256 = a" "(b * 256 + y) div 256 = b" using assms(2,3) by simp_all
  then show "a = b" using assms(1) by simp
  with assms(1) show "x = y" by simp
qed

lemma be_val_one_snoc: "be_val (1 # xs @ [x]) = be_val (1 # xs) * 256 + unat x"
  using be_val_append [of "1 # xs" x] by simp

lemma be_val_one: "be_val [1] = 1" "0 < be_val (1 # xs)"
  by (simp add: be_val_def) (induction xs rule: rev_induct, simp add: be_val_def, simp add: be_val_one_snoc)

lemma be_val_one_inj: "be_val (1 # a) = be_val (1 # b) \<Longrightarrow> a = b"
proof (induction a arbitrary: b rule: rev_induct)
  case Nil
  show ?case
  proof (cases b rule: rev_cases)
    case (snoc ys y)
    with Nil be_val_one(2) [of ys] show ?thesis by (simp add: be_val_one_snoc be_val_one(1))
  qed simp
next
  case (snoc x xs)
  show ?case
  proof (cases b rule: rev_cases)
    case Nil
    with snoc.prems be_val_one(2) [of xs] show ?thesis by (simp add: be_val_one_snoc be_val_one(1))
  next
    case b: (snoc ys y)
    have "be_val (1 # xs) * 256 + unat x = be_val (1 # ys) * 256 + unat y"
      using snoc.prems b by (simp add: be_val_one_snoc)
    note base_digits [OF this byte_bound byte_bound]
    with snoc.IH b show ?thesis by (simp add: unat_index_eq)
  qed
qed

lemma ref_collision_free: "collision_free ref_lib short_strings"
proof -
  have bound: "be_val b < 256 ^ length b" for b
  proof (induction b rule: rev_induct)
    case (snoc x xs)
    have "unat x < 2 ^ LENGTH(8)" by (rule unsigned_less)
    with snoc show ?case by (simp add: be_val_append)
  qed (simp add: be_val_def)
  have one: "be_val (1 # b) = 256 ^ length b + be_val b" for b
  proof (induction b rule: rev_induct)
    case (snoc x xs)
    then show ?case using be_val_one_snoc [of xs x] by (simp add: be_val_append)
  qed (simp add: be_val_def)
  have "unat (ref_hash b) = be_val (1 # b)" if "length b \<le> 31" for b
  proof -
    have "be_val (1 # b) < 2 * 256 ^ length b" using bound [of b] one [of b] by simp
    also have "\<dots> \<le> 2 * 256 ^ 31" using that by (intro mult_left_mono power_increasing) simp_all
    finally have "be_val (1 # b) < 2 * 256 ^ 31" .
    then show ?thesis by (simp add: ref_hash_def unat_of_nat)
  qed
  then have "inj_on ref_hash short_strings"
    unfolding inj_on_def short_strings_def using be_val_one_inj by (metis mem_Collect_eq)
  then show ?thesis by (simp add: collision_free_def ref_lib_def short_strings_def)
qed

lemma ref_penc_leaf: "penc ref_lib (PLeaf b [1, 2] [9]) = [0xc4, 0x82, 0x20, 0x12, 9]"
  by (simp add: penc_def encode_node_def encode_leaf_def encode_path_def ref_lib_def ref_bytes_def ref_header_def Let_def)

theorem trie_get_after_insert_witness:
  "\<exists>t'. insert_nibbles 5 ref_lib memory_state [1, 2] [9] (trie_new (EMPTY_ROOT_HASH ref_lib)) = (Inr (), t') \<and>
    fst (get_nibbles 8 ref_lib memory_state [1, 2] t') = Inr (Some [9]) \<and>
    fst (get_nibbles 8 ref_lib memory_state [1, 3] t') = Inr None"
proof -
  let ?t = "trie_new (EMPTY_ROOT_HASH ref_lib)"
  have r: "represents ref_lib memory_state short_strings PEmpty ?t"
    by (rule represents_empty [OF ref_lib_ok]) (simp add: memory_state_def)
  have e: "encs ref_lib (pinsert ref_lib False [1, 2] [9] PEmpty) \<subseteq> short_strings"
    by (simp add: encs_simps ref_penc_leaf short_strings_def)
  have np: "nibble_path [1, 2]" "nibble_path [1, 3]" "[9] \<noteq> []" by simp_all
  have none: "fst (get_nibbles 8 ref_lib memory_state [1, 3] ?t) = Inr None"
    using get_represents [OF ref_lib_ok ref_collision_free r np(2), of 8] by simp
  from trie_get_after_insert [OF ref_lib_ok ref_collision_free r np(1,3) e, of 5] obtain t' where
    t': "insert_nibbles 5 ref_lib memory_state [1, 2] [9] ?t = (Inr (), t')"
      "\<forall>ms j. nibble_path ms \<longrightarrow> 3 * length ms + 1 < j \<longrightarrow> fst (get_nibbles j ref_lib memory_state ms t') =
        (if ms = [1, 2] then Inr (Some [9]) else fst (get_nibbles j ref_lib memory_state ms ?t))" by auto
  from t'(2) [rule_format, OF np(1), of 8] t'(2) [rule_format, OF np(2), of 8] none t'(1) show ?thesis by simp
qed

subsection \<open>Enumeration\<close>

text \<open>The fuel a walk needs: two calls per level.\<close>

fun pheight :: "ptrie \<Rightarrow> nat" where
  "pheight (PExt b key p) = Suc (pheight p)"
| "pheight (PBranch b ps v) = Suc (Max (set (map pheight ps)))"
| "pheight _ = 0"

lemma child_height: "q \<in> set ps \<Longrightarrow> pheight q < pheight (PBranch b ps v)"
  by (simp add: less_Suc_eq_le)

lemma get_child_yields:
  assumes L: "lib_ok L" "collision_free L S" and p: "pwf p" "encs L p \<subseteq> S" "p \<noteq> PEmpty"
    and t: "addressed L db S t" "avail_child L db t p"
  shows "yields L db S (get_node_from_rlp L db (pref L p)) t (node_of L p) (\<lambda>_. True)"
proof (cases "hashed L p")
  case True
  with get_phash_yields [OF L p(1,2) t(1)] avail_childD(2) [OF t(2)] child_resolves(1) [OF L p] show ?thesis
    by (simp add: get_node_from_rlp_def)
next
  case False
  from child_resolves(2) [OF L p this] have "as_hash L (pref L p) = None" "inline_node L (pref L p) = Inr (node_of L p)"
    by (metis, auto simp: inline_node_def)
  with t(1) show ?thesis by (simp add: get_node_from_rlp_def yields_reads)
qed

definition walks :: "trie_lib \<Rightarrow> provider \<Rightarrow> bytes set \<Rightarrow> 'a trie_act \<Rightarrow> trie \<Rightarrow> bool" where
  "walks L db S m t \<longleftrightarrow> fst (m t) = Inl IndexPanic \<or> (\<exists>x. yields L db S m t x (\<lambda>_. True))"

lemma walks_bind:
  assumes "yields L db S m t x (\<lambda>_. True)" and "\<And>t'. grows L db S t t' \<Longrightarrow> walks L db S (f x) t'"
  shows "walks L db S (sbind m f) t"
proof -
  from assms(1) obtain t' where t': "m t = (Inr x, t')" "grows L db S t t'" by (auto simp: yields_def)
  with assms(2) [OF t'(2)] show ?thesis by (auto simp: walks_def yields_def intro: grows_trans)
qed

lemma panics_bind:
  assumes "yields L db S m t x (\<lambda>_. True)" and "\<And>t'. grows L db S t t' \<Longrightarrow> fst (f x t') = Inl IndexPanic"
  shows "fst (sbind m f t) = Inl IndexPanic"
  using assms by (auto simp: yields_def)

fun inner :: "ptrie \<Rightarrow> bool" where
  "inner (PExt b key p) = True"
| "inner (PBranch b ps v) = True"
| "inner _ = False"

lemma walk_slots_panics:
  assumes rec: "\<And>q path t. q \<in> set ps \<Longrightarrow> q \<noteq> PEmpty \<Longrightarrow> addressed L db S t \<Longrightarrow> avail_child L db t q \<Longrightarrow>
      walks L db S (walk_recursive_rlp k L db (pref L q) path) t"
    and "addressed L db S t" and "\<forall>q \<in> set ps. avail_child L db t q" and "j \<in> set is" and "length ps \<le> j"
  shows "fst (walk_slots k L db (map (pref L) ps) path is t) = Inl IndexPanic"
  using assms(2-4)
proof (induction "is" arbitrary: t)
  case (Cons i "is")
  show ?case
  proof (cases "i < length ps \<and> pref L (ps ! i) \<noteq> []")
    case True
    with Cons.prems(3) assms(5) have j: "j \<in> set is" by auto
    have "ps ! i \<noteq> PEmpty" using True by (auto simp: pref_def node_ref_def)
    then have "walks L db S (walk_recursive_rlp k L db (pref L (ps ! i)) (path @ [of_nat i])) t"
      using True Cons.prems(1,2) by (intro rec) simp_all
    then consider t' where "walk_recursive_rlp k L db (pref L (ps ! i)) (path @ [of_nat i]) t = (Inl IndexPanic, t')"
      | x t' where "walk_recursive_rlp k L db (pref L (ps ! i)) (path @ [of_nat i]) t = (Inr x, t')" "grows L db S t t'"
      unfolding walks_def yields_def by (metis prod.collapse)
    then show ?thesis
    proof cases
      case (2 x t')
      have "fst (walk_slots k L db (map (pref L) ps) path is t') = Inl IndexPanic"
        using Cons.IH [OF grows_addressed [OF 2(2)] _ j] Cons.prems(2) avail_grows(2) [OF 2(2)] by blast
      then obtain t'' where "walk_slots k L db (map (pref L) ps) path is t' = (Inl IndexPanic, t'')"
        by (metis prod.collapse)
      with True 2 show ?thesis by simp
    qed (use True in simp)
  next
    case False
    with Cons assms(5) show ?thesis by (cases "i < length ps") auto
  qed
qed simp

lemma walk_node_ends:
  assumes L: "lib_ok L" "collision_free L S"
  shows "pwf p \<Longrightarrow> encs L p \<subseteq> S \<Longrightarrow> addressed L db S t \<Longrightarrow> avail L db t p \<Longrightarrow> 2 * pheight p < k \<Longrightarrow>
    (inner p \<longrightarrow> fst (walk_recursive_node k L db (node_of L p) path t) = Inl IndexPanic) \<and>
    walks L db S (walk_recursive_node k L db (node_of L p) path) t"
proof (induction "pheight p" arbitrary: p k t path rule: less_induct)
  case less
  obtain k1 where k: "k = Suc k1" using less.prems(5) by (cases k) auto
  have child: "(inner q \<longrightarrow> fst (walk_recursive_rlp k1 L db (pref L q) path t) = Inl IndexPanic) \<and>
      walks L db S (walk_recursive_rlp k1 L db (pref L q) path) t"
    if q: "pheight q < pheight p" "pwf q" "encs L q \<subseteq> S" "q \<noteq> PEmpty" and t: "addressed L db S t" "avail_child L db t q"
    for q path t
  proof -
    obtain k2 where k2: "k1 = Suc k2" "2 * pheight q < k2" using less.prems(5) q(1) k by (cases k1) simp_all
    note get = get_child_yields [OF L q(2-4) t]
    have rec: "(inner q \<longrightarrow> fst (walk_recursive_node k2 L db (node_of L q) path t') = Inl IndexPanic) \<and>
        walks L db S (walk_recursive_node k2 L db (node_of L q) path) t'" if "grows L db S t t'" for t'
      by (rule less.hyps [OF q(1-3) grows_addressed [OF that] avail_grows(1) [OF that avail_childD(1) [OF t(2)]] k2(2)])
    have "walk_recursive_rlp k1 L db (pref L q) path =
        sbind (get_node_from_rlp L db (pref L q)) (\<lambda>n. walk_recursive_node k2 L db n path)" using k2(1) by simp
    moreover have "walks L db S (sbind (get_node_from_rlp L db (pref L q)) (\<lambda>n. walk_recursive_node k2 L db n path)) t"
      by (rule walks_bind [OF get]) (simp add: rec)
    moreover have "inner q \<Longrightarrow>
        fst (sbind (get_node_from_rlp L db (pref L q)) (\<lambda>n. walk_recursive_node k2 L db n path) t) = Inl IndexPanic"
      by (rule panics_bind [OF get]) (simp add: rec)
    ultimately show ?thesis by simp
  qed
  show ?case
  proof (cases p)
    case (PExt b key q)
    have q: "pheight q < pheight p" "pwf q" "encs L q \<subseteq> S" "q \<noteq> PEmpty" "avail_child L db t q" and "inner q"
      using less.prems PExt by (cases q; auto simp: encs_simps avail_simps)+
    with child [OF q(1-4) less.prems(3) q(5), of "path @ key"] PExt k show ?thesis by (simp add: pref_def walks_def)
  next
    case (PBranch b ps v)
    have "fst (walk_slots k1 L db (map (pref L) ps) path [0 ..< 64] t) = Inl IndexPanic"
    proof (rule walk_slots_panics [where j = 16])
      show "walks L db S (walk_recursive_rlp k1 L db (pref L q) path) t"
        if "q \<in> set ps" "q \<noteq> PEmpty" "addressed L db S t" "avail_child L db t q" for q path t
        using less.prems(1,2) that child_height [OF that(1)] PBranch
        by (intro conjunct2 [OF child]) (auto simp: encs_simps)
    qed (use less.prems PBranch in \<open>auto simp: avail_simps\<close>)
    then obtain t' where "walk_slots k1 L db (map (pref L) ps) path [0 ..< 64] t = (Inl IndexPanic, t')"
      by (metis prod.collapse)
    with PBranch k show ?thesis by (simp add: pref_def [abs_def] walks_def)
  qed (use k less.prems in \<open>auto simp: walks_def intro: yields_ret exI\<close>)
qed

text \<open>A trie with two entries cannot be enumerated.  On every stored trie in which two different paths have a
  value, \<open>all_entries\<close> panics: it indexes the 16 children of a branch with 0 to 63.  The fuel bound, two calls per level,
  excludes running out of fuel as the reason.\<close>

theorem two_entries_not_enumerable:
  assumes "lib_ok L" and "collision_free L S" and "represents L db S p t"
    and "plookup p ns \<noteq> None" and "plookup p ms \<noteq> None" and "ns \<noteq> ms" and "2 * pheight p < k"
  shows "fst (all_entries k L db t) = Inl IndexPanic"
proof -
  have p: "pwf p" "encs L p \<subseteq> S" "addressed L db S t" "avail L db t p" "root_hash t = phash L p"
    using assms(3) by (simp_all add: represents_def)
  have ne: "p \<noteq> PEmpty" "\<And>b key v. p \<noteq> PLeaf b key v" using assms(4-6) by (auto split: if_splits)
  have "holds db t (phash L p)" using assms(3) ne by (simp add: represents_def)
  with get_phash_yields [OF assms(1,2) p(1-3)] obtain t1 where
    g: "get_node L db (phash L p) t = (Inr (node_of L p), t1)" "grows L db S t t1" by (auto simp: yields_def)
  have "inner p" using ne by (cases p) auto
  then have "fst (walk_recursive_node k L db (node_of L p) [] t1) = Inl IndexPanic"
    using walk_node_ends [OF assms(1,2) p(1,2) grows_addressed [OF g(2)] avail_grows(1) [OF g(2) p(4)] assms(7)] by blast
  with g(1) p(5) phash_not_empty [OF assms(1,2) p(1,2) ne(1)] show ?thesis by (simp add: all_entries_def)
qed

definition sample_two :: ptrie where
  "sample_two = PBranch False (pstack[1 := PLeaf False [2] [9], 3 := PLeaf False [4] [8]]) None"

lemma sample_two_insert: "pinsert ref_lib False [3, 4] [8] (PLeaf False [1, 2] [9]) = sample_two"
  by (simp add: pinsert_leaf_def pbelow_def sample_two_def Let_def)

lemma empty_stack_expand: "empty_stack = [[], [], [], [], [], [], [], [], [], [], [], [], [], [], [], []]"
  by (simp add: empty_stack_def numeral_eq_Suc)

lemma sample_two_encs: "encs ref_lib sample_two \<subseteq> short_strings"
proof -
  have leaf: "penc ref_lib (PLeaf False [2] [9]) = [0xc2, 0x32, 9]" "penc ref_lib (PLeaf False [4] [8]) = [0xc2, 0x34, 8]"
    by (simp_all add: penc_def encode_node_def encode_leaf_def encode_path_def ref_lib_def ref_bytes_def ref_header_def Let_def)
  then have pref: "pref ref_lib (PLeaf False [2] [9]) = [0xc2, 0x32, 9]" "pref ref_lib (PLeaf False [4] [8]) = [0xc2, 0x34, 8]"
    by (simp_all add: pref_def node_ref_def penc_def Let_def)
  have "length (penc ref_lib sample_two) \<le> 31"
    unfolding penc_def sample_two_def node_of_stack encoded_lengths pref empty_stack_expand
    by (simp add: branch_length_def ref_lib_def ref_header_def Let_def)
  then show ?thesis
    unfolding sample_two_def by (auto simp: encs_simps short_strings_def leaf dest!: pstack_set)
qed

lemma sample_two_stored:
  obtains t where "represents ref_lib memory_state short_strings sample_two t"
proof -
  have "represents ref_lib memory_state short_strings PEmpty (trie_new (EMPTY_ROOT_HASH ref_lib))"
    by (rule represents_empty [OF ref_lib_ok]) (simp add: memory_state_def)
  from insert_represents [OF ref_lib_ok ref_collision_free this, of "[1, 2]" "[9]" 5] obtain t1 where
    "represents ref_lib memory_state short_strings (PLeaf False [1, 2] [9]) t1"
    by (auto simp: encs_simps ref_penc_leaf short_strings_def)
  from insert_represents [OF ref_lib_ok ref_collision_free this, of "[3, 4]" "[8]" 5] that show thesis
    unfolding sample_two_insert using sample_two_encs by auto
qed

theorem two_entries_not_enumerable_witness:
  "\<exists>t. represents ref_lib memory_state short_strings sample_two t \<and>
    fst (all_entries 3 ref_lib memory_state t) = Inl IndexPanic"
proof -
  obtain t where t: "represents ref_lib memory_state short_strings sample_two t" by (rule sample_two_stored)
  have "plookup sample_two [1, 2] \<noteq> None" "plookup sample_two [3, 4] \<noteq> None"
    by (simp_all add: sample_two_def)
  moreover have "2 * pheight sample_two < 3" by (simp add: sample_two_def pstack_def numeral_eq_Suc)
  ultimately show ?thesis
    using two_entries_not_enumerable [OF ref_lib_ok ref_collision_free t, of "[1, 2]" "[3, 4]" 3] t by auto
qed

subsection \<open>The root depends on the history\<close>

definition insert_all :: "nat \<Rightarrow> trie_lib \<Rightarrow> provider \<Rightarrow> (nibbles \<times> bytes) list \<Rightarrow> unit trie_act" where
  "insert_all k L db kvs = for_each kvs (\<lambda>(ns, v). insert_nibbles k L db ns v)"

definition fork_tree :: "bool \<Rightarrow> bytes \<Rightarrow> bytes \<Rightarrow> ptrie" where
  "fork_tree b v x = PBranch False (pstack[1 := PLeaf b [] v, 2 := PLeaf False [] x]) None"

lemma fork_tree_insert: "pinsert L False [2] x (PLeaf False [1] v) = fork_tree False v x"
  by (simp add: pinsert_leaf_def pbelow_def fork_tree_def Let_def)

lemma fork_tree_overwrite:
  assumes "lib_ok L" and "32 \<le> length w"
  shows "pinsert L False [1] v (fork_tree False w x) = fork_tree True v x"
proof -
  have "length (penc L (PLeaf False [] w)) \<ge> 32"
    using lib_misc(2) [OF assms(1), of w] assms(2)
    by (simp add: penc_def encode_node_def encode_leaf_def Let_def)
  then have "hashed L (PLeaf False [] w)" by (simp add: hashed_def)
  then show ?thesis by (simp add: fork_tree_def pinsert_leaf_def list_update_swap)
qed

lemma fork_tree_roots:
  assumes L: "lib_ok L" "collision_free L S" and "length (encode_node L (Leaf [] v)) < 32"
    and "v \<noteq> []" and "x \<noteq> []" and "encs L (fork_tree True v x) \<subseteq> S" and "encs L (fork_tree False v x) \<subseteq> S"
  shows "phash L (fork_tree True v x) \<noteq> phash L (fork_tree False v x)"
proof
  assume "phash L (fork_tree True v x) = phash L (fork_tree False v x)"
  then have e: "penc L (fork_tree True v x) = penc L (fork_tree False v x)"
    using penc_in [OF L(2) assms(6)] penc_in [OF L(2) assms(7)] L(2)
    unfolding phash_def collision_free_def inj_on_def by blast
  have wf: "pwf (fork_tree b v x)" for b using assms(4,5) by (auto simp: fork_tree_def dest!: pstack_set)
  have "node_of L (fork_tree True v x) = node_of L (fork_tree False v x)"
    using encode_node_inj [OF L(1) node_of_ok [OF L wf assms(6)] node_of_ok [OF L wf assms(7)]] e
      penc_in [OF L(2) assms(6)] L(2) by (simp add: penc_def collision_free_def)
  then have "pref L (PLeaf True [] v) = pref L (PLeaf False [] v)"
    unfolding fork_tree_def node_of_stack by (simp add: empty_stack_expand)
  moreover have "length (pref L (PLeaf True [] v)) = 33" "length (pref L (PLeaf False [] v)) < 32"
    using assms(3) lib_misc(4) [OF L(1)] by (simp_all add: pref_def node_ref_def Let_def)
  ultimately show False by simp
qed

lemma insert_all_simps:
  "insert_all k L db [] t = (Inr (), t)"
  "insert_nibbles k L db ns v t = (Inr (), t1) \<Longrightarrow> insert_all k L db ((ns, v) # kvs) t = insert_all k L db kvs t1"
  by (simp_all add: insert_all_def)

text \<open>The root hash is not a function of the contents.  Writing a long value under one path, another value beside
  it, and then a short value over the long one leaves the same contents as writing the two final values at once, but a
  different root: the child that shrank is still referred to by its hash.  (In a Merkle-Patricia trie the root is
  determined by the contents.)\<close>

theorem root_depends_on_history:
  assumes "lib_ok L" and "collision_free L S" and "\<And>h b. db h \<noteq> Inr (Some b)"
    and "v \<noteq> []" and "x \<noteq> []" and "length (encode_node L (Leaf [] v)) < 32" and "32 \<le> length w" and "2 < k"
    and "encs L (PLeaf False [1] w) \<union> encs L (fork_tree False w x) \<union> encs L (fork_tree True v x) \<union>
      encs L (PLeaf False [1] v) \<union> encs L (fork_tree False v x) \<subseteq> S"
  shows "\<exists>t1 t2. insert_all k L db [([1], w), ([2], x), ([1], v)] (trie_new (EMPTY_ROOT_HASH L)) = (Inr (), t1) \<and>
    insert_all k L db [([1], v), ([2], x)] (trie_new (EMPTY_ROOT_HASH L)) = (Inr (), t2) \<and>
    (\<forall>ms j. nibble_path ms \<longrightarrow> 3 * length ms + 1 < j \<longrightarrow>
      fst (get_nibbles j L db ms t1) = fst (get_nibbles j L db ms t2)) \<and>
    root_hash t1 \<noteq> root_hash t2"
proof -
  have r: "represents L db S PEmpty (trie_new (EMPTY_ROOT_HASH L))"
    by (rule represents_empty [OF assms(1,3)])
  have n: "nibble_path [1]" "nibble_path [2]" "w \<noteq> []" "2 * length [1 :: u8] < k" "2 * length [2 :: u8] < k"
    using assms(7,8) by auto
  note ins = insert_represents [OF assms(1,2)]
  obtain a1 where a1: "insert_nibbles k L db [1] w (trie_new (EMPTY_ROOT_HASH L)) = (Inr (), a1)"
    "represents L db S (PLeaf False [1] w) a1" using ins [OF r n(1,3) _ n(4)] assms(9) by auto
  obtain a2 where a2: "insert_nibbles k L db [2] x a1 = (Inr (), a2)" "represents L db S (fork_tree False w x) a2"
    using ins [OF a1(2) n(2) assms(5) _ n(5)] assms(9) unfolding fork_tree_insert by auto
  obtain t1 where a3: "insert_nibbles k L db [1] v a2 = (Inr (), t1)" and t1: "represents L db S (fork_tree True v x) t1"
    using ins [OF a2(2) n(1) assms(4) _ n(4)] assms(9) unfolding fork_tree_overwrite [OF assms(1,7)] by auto
  obtain b1 where b1: "insert_nibbles k L db [1] v (trie_new (EMPTY_ROOT_HASH L)) = (Inr (), b1)"
    "represents L db S (PLeaf False [1] v) b1" using ins [OF r n(1) assms(4) _ n(4)] assms(9) by auto
  obtain t2 where b2: "insert_nibbles k L db [2] x b1 = (Inr (), t2)" and t2: "represents L db S (fork_tree False v x) t2"
    using ins [OF b1(2) n(2) assms(5) _ n(5)] assms(9) unfolding fork_tree_insert by auto
  have same: "plookup (fork_tree True v x) ms = plookup (fork_tree False v x) ms" for ms
    by (simp add: fork_tree_def nth_list_update split: list.split)
  have "fst (get_nibbles j L db ms t1) = fst (get_nibbles j L db ms t2)"
    if "nibble_path ms" "3 * length ms + 1 < j" for ms j
    using get_represents [OF assms(1,2) t1 that] get_represents [OF assms(1,2) t2 that] same by simp
  moreover have "root_hash t1 \<noteq> root_hash t2"
    using fork_tree_roots [OF assms(1,2,6,4,5)] assms(9) t1 t2 by (simp add: represents_def)
  ultimately show ?thesis
    using a1(1) a2(1) a3 b1(1) b2 by (auto simp: insert_all_simps)
qed

text \<open>The reference encoding with a hash that a proof can compute: the length of the string, marked by two of its
  bytes.  It separates the nine strings of the concrete run below.\<close>

definition marked_hash :: "bytes \<Rightarrow> b256" where
  "marked_hash b = of_nat (length b +
     (if 34 < length b \<and> b ! 34 = 235 then 100 else if 1 < length b \<and> b ! 1 = 0x20 then 200 else 0))"

definition marked_lib :: trie_lib where
  "marked_lib = ref_lib\<lparr>keccak256 := marked_hash, EMPTY_ROOT_HASH := marked_hash [EMPTY_STRING_CODE]\<rparr>"

lemma marked_lib_ok: "lib_ok marked_lib"
  using ref_lib_ok unfolding lib_ok_def rlp_item_def by (simp add: marked_lib_def)

lemma marked_simps [simp]:
  "keccak256 marked_lib = marked_hash" "rlp_header marked_lib = ref_header" "rlp_bytes marked_lib = ref_bytes"
  "word_rlp marked_lib h = 0xa0 # be32 h"
  by (simp_all add: marked_lib_def ref_lib_def)

lemma be32_small:
  assumes "0 < n" and "n < 256"
  shows "be32 (of_nat n) = replicate 31 0 @ [of_nat n]"
proof -
  have "n < 2 ^ 256" by (rule less_trans [OF assms(2)]) simp
  then have "unat (of_nat n :: b256) = n" by (simp add: unat_of_nat)
  with assms be_bytes.simps [of n] be_bytes.simps [of 0] show ?thesis by (simp add: be32_def)
qed

lemma be32_small_numeral [simp]:
  "be32 235 = replicate 31 0 @ [235]" "be32 203 = replicate 31 0 @ [203]"
  using be32_small [of 235] be32_small [of 203] by simp_all

abbreviation long_value :: bytes where "long_value \<equiv> replicate 32 7"

lemma marked_leaves:
  "penc marked_lib (PLeaf b [1] long_value) = [0xe2, 0x31, 0xa0] @ long_value"
  "penc marked_lib (PLeaf b [] long_value) = [0xe2, 0x20, 0xa0] @ long_value"
  "penc marked_lib (PLeaf b [] [9, 9]) = [0xc4, 0x20, 0x82, 9, 9]"
  "penc marked_lib (PLeaf b [] [5]) = [0xc2, 0x20, 5]"
  "penc marked_lib (PLeaf b [1] [5]) = [0xc2, 0x31, 5]"
  by (simp_all add: penc_def encode_node_def encode_leaf_def encode_path_def ref_bytes_def ref_header_def Let_def)

lemma marked_leaf_refs:
  "pref marked_lib (PLeaf False [] long_value) = 0xa0 # replicate 31 0 @ [235]"
  "pref marked_lib (PLeaf False [] [9, 9]) = [0xc4, 0x20, 0x82, 9, 9]"
  "pref marked_lib (PLeaf True [] [5]) = 0xa0 # replicate 31 0 @ [203]"
  "pref marked_lib (PLeaf False [] [5]) = [0xc2, 0x20, 5]"
  using marked_leaves(2-4) [of False] by (simp_all add: pref_def node_ref_def penc_def marked_hash_def Let_def)

lemma fourteen_codes:
  "replicate 14 (c :: u8) = [c, c, c, c, c, c, c, c, c, c, c, c, c, c]"
  by (simp add: numeral_eq_Suc)

lemma marked_forks:
  "penc marked_lib (fork_tree False long_value [9, 9]) =
    [0xf5, 0x80, 0xa0] @ replicate 31 0 @ [235] @ [0xc4, 0x20, 0x82, 9, 9] @ replicate 14 0x80"
  "penc marked_lib (fork_tree True [5] [9, 9]) =
    [0xf5, 0x80, 0xa0] @ replicate 31 0 @ [203] @ [0xc4, 0x20, 0x82, 9, 9] @ replicate 14 0x80"
  "penc marked_lib (fork_tree False [5] [9, 9]) =
    [0xd7, 0x80, 0xc2, 0x20, 5] @ [0xc4, 0x20, 0x82, 9, 9] @ replicate 14 0x80"
  unfolding penc_def fork_tree_def node_of_stack marked_leaf_refs empty_stack_expand
  by (simp_all add: encode_node_def encode_branch_def ref_header_def branch_child_def branch_value_def
      EMPTY_STRING_CODE_def fourteen_codes)

definition marked_strings :: "bytes set" where
  "marked_strings = insert [EMPTY_STRING_CODE] (encs marked_lib (PLeaf False [1] long_value) \<union>
     encs marked_lib (fork_tree False long_value [9, 9]) \<union> encs marked_lib (fork_tree True [5] [9, 9]) \<union>
     encs marked_lib (PLeaf False [1] [5]) \<union> encs marked_lib (fork_tree False [5] [9, 9]))"

lemma fork_encs:
  "encs L (fork_tree b v x) = {penc L (fork_tree b v x), penc L (PLeaf b [] v), penc L (PLeaf False [] x)}"
proof -
  have "set (pstack[1 := PLeaf b [] v, 2 := PLeaf False [] x]) = {PEmpty, PLeaf b [] v, PLeaf False [] x}"
    by (auto simp: pstack_def numeral_eq_Suc)
  then show ?thesis by (auto simp: fork_tree_def encs_simps)
qed

definition marked_list :: "bytes list" where
  "marked_list = [[0x80], [0xe2, 0x31, 0xa0] @ long_value, [0xe2, 0x20, 0xa0] @ long_value, [0xc4, 0x20, 0x82, 9, 9],
    [0xc2, 0x20, 5], [0xc2, 0x31, 5],
    [0xf5, 0x80, 0xa0] @ replicate 31 0 @ [235] @ [0xc4, 0x20, 0x82, 9, 9] @ replicate 14 0x80,
    [0xf5, 0x80, 0xa0] @ replicate 31 0 @ [203] @ [0xc4, 0x20, 0x82, 9, 9] @ replicate 14 0x80,
    [0xd7, 0x80, 0xc2, 0x20, 5] @ [0xc4, 0x20, 0x82, 9, 9] @ replicate 14 0x80]"

lemma marked_strings_eq: "marked_strings = set marked_list"
  unfolding marked_strings_def marked_list_def fork_encs encs_simps marked_leaves marked_forks EMPTY_STRING_CODE_def list.set
  by blast

lemma marked_hashes:
  "marked_hash [0x80] = 1" "marked_hash ([0xe2, 0x31, 0xa0] @ long_value) = 35"
  "marked_hash ([0xe2, 0x20, 0xa0] @ long_value) = 235" "marked_hash [0xc4, 0x20, 0x82, 9, 9] = 205"
  "marked_hash [0xc2, 0x20, 5] = 203" "marked_hash [0xc2, 0x31, 5] = 3"
  "marked_hash ([0xf5, 0x80, 0xa0] @ replicate 31 0 @ [235] @ [0xc4, 0x20, 0x82, 9, 9] @ replicate 14 0x80) = 154"
  "marked_hash ([0xf5, 0x80, 0xa0] @ replicate 31 0 @ [203] @ [0xc4, 0x20, 0x82, 9, 9] @ replicate 14 0x80) = 54"
  "marked_hash ([0xd7, 0x80, 0xc2, 0x20, 5] @ [0xc4, 0x20, 0x82, 9, 9] @ replicate 14 0x80) = 24"
  by (simp_all add: marked_hash_def nth_append)


lemma marked_collision_free: "collision_free marked_lib marked_strings"
proof -
  have "distinct (map marked_hash marked_list)"
    unfolding marked_list_def list.map marked_hashes by simp
  then have "inj_on marked_hash marked_strings" by (simp add: marked_strings_eq distinct_map)
  moreover have "length b < 2 ^ 64" if "b \<in> marked_strings" for b using that unfolding marked_strings_eq marked_list_def by auto
  ultimately show ?thesis by (simp add: collision_free_def marked_strings_def)
qed

theorem root_depends_on_history_witness:
  "\<exists>t1 t2. insert_all 3 marked_lib memory_state [([1], long_value), ([2], [9, 9]), ([1], [5])]
      (trie_new (EMPTY_ROOT_HASH marked_lib)) = (Inr (), t1) \<and>
    insert_all 3 marked_lib memory_state [([1], [5]), ([2], [9, 9])] (trie_new (EMPTY_ROOT_HASH marked_lib)) = (Inr (), t2) \<and>
    root_hash t1 \<noteq> root_hash t2"
proof -
  have "length (encode_node marked_lib (Leaf [] [5])) < 32" using marked_leaves(4) [of False] by (simp add: penc_def)
  from root_depends_on_history [OF marked_lib_ok marked_collision_free _ _ _ this, of memory_state "[9, 9]" long_value 3]
  show ?thesis by (auto simp: memory_state_def marked_strings_def)
qed

end
