(* ===== verification/StateRead.thy ===== *)
theory StateRead
  imports TrieRefine Storage
begin

section \<open>Historical state\<close>

text \<open>
  The parts of \<^verbatim>\<open>wasix_eth_storage/src/read.rs\<close> and \<^verbatim>\<open>read_traits.rs\<close> that read the state of
  an older block out of the stored trie nodes: accounts by a walk written out in the provider, storage
  slots through \<open>EthTrie\<close>, and the enumeration \<open>iterate_trie\<close> with its explicit stack.  The codecs of
  accounts and of 256-bit numbers are derived by \<open>alloy_rlp\<close>; they are the fields of \<open>state_lib\<close>.
\<close>

record state_lib =
  s_trie :: trie_lib
  enc_account :: "trie_account \<Rightarrow> bytes"
  dec_account :: "bytes \<Rightarrow> trie_account option"
  enc_u256 :: "u256 \<Rightarrow> bytes"
  dec_u256 :: "bytes \<Rightarrow> u256 option"
  KECCAK256_EMPTY :: b256

datatype state_error = StoreFailure storage_error | TrieFailure trie_error | AccountDecode | ValueDecode

definition of_store :: "storage_error + 'a \<Rightarrow> state_error + 'a" where
  "of_store r = map_sum StoreFailure id r"

definition of_trie :: "trie_error + 'a \<Rightarrow> state_error + 'a" where
  "of_trie r = map_sum TrieFailure id r"

lemma of_simps [simp]:
  "of_store (Inr x) = Inr x" "of_store (Inl e) = Inl (StoreFailure e)"
  "of_trie (Inr x) = Inr x" "of_trie (Inl d) = Inl (TrieFailure d)"
  by (simp_all add: of_store_def of_trie_def)

text \<open>The node provider a trie over this database has.\<close>

definition trie_provider :: "db \<Rightarrow> provider" where
  "trie_provider d hash = (case trie_node hash d of Inl e \<Rightarrow> Inl ProviderError | Inr b \<Rightarrow> Inr b)"

text \<open>A slice out of bounds and a loop that makes no progress are not errors the code can catch.\<close>

definition is_panic :: "trie_error \<Rightarrow> bool" where
  "is_panic e \<longleftrightarrow> e = SlicePanic \<or> e = IndexPanic \<or> e = Diverges"

text \<open>Addresses and words are hashed as their big-endian bytes.\<close>

definition be_fixed :: "nat \<Rightarrow> nat \<Rightarrow> bytes" where
  "be_fixed n x = map (\<lambda>i. of_nat (x div 256 ^ (n - 1 - i) mod 256)) [0 ..< n]"

definition hash_address :: "state_lib \<Rightarrow> address \<Rightarrow> b256" where
  "hash_address sl a = keccak256 (s_trie sl) (be_fixed 20 (unat a))"

definition hash_word :: "state_lib \<Rightarrow> b256 \<Rightarrow> b256" where
  "hash_word sl w = keccak256 (s_trie sl) (be_fixed 32 (unat w))"

subsection \<open>The account walk\<close>

text \<open>
  \<open>get_account_from_trie\<close> fetches a node by its hash and walks on while children are embedded in it; a
  child behind a hash goes back to the outer loop.  The code has the body of the inner loop three
  times: once for the fetched node, and in the loops over a node embedded in a branch or in an
  extension.  The three copies do the same and are one definition here.
\<close>

datatype walk_result = Found "trie_account option" | Refetch b256 nat

fun embedded_walk :: "nat \<Rightarrow> state_lib \<Rightarrow> nibbles \<Rightarrow> nat \<Rightarrow> mpt_node \<Rightarrow> state_error + walk_result" where
  "embedded_walk 0 sl nibbles cursor n = Inl (TrieFailure Diverges)"
| "embedded_walk (Suc k) sl nibbles cursor n =
     (case n of
        Leaf key v \<Rightarrow>
          if drop cursor nibbles = key
          then rbind (ok_or (dec_account sl v) AccountDecode) (\<lambda>a. Inr (Found (Some a)))
          else Inr (Found None)
      | Extension key c \<Rightarrow>
          if prefix key (drop cursor nibbles)
          then case as_hash (s_trie sl) c of
              Some h \<Rightarrow> Inr (Refetch h (cursor + length key))
            | None \<Rightarrow> rbind (of_trie (decode_node (s_trie sl) c)) (\<lambda>r.
                embedded_walk k sl nibbles (cursor + length key) (fst r))
          else Inr (Found None)
      | Branch stack v \<Rightarrow>
          if cursor = length nibbles then Inr (Found (Option.bind v (dec_account sl)))
          else if unat (nibbles ! cursor) < length stack then
            let c = stack ! unat (nibbles ! cursor) in
            case as_hash (s_trie sl) c of
              Some h \<Rightarrow> Inr (Refetch h (cursor + 1))
            | None \<Rightarrow> if c = [] then Inr (Found None)
                else rbind (of_trie (decode_node (s_trie sl) c)) (\<lambda>r.
                  embedded_walk k sl nibbles (cursor + 1) (fst r))
          else Inl (TrieFailure IndexPanic)
      | EmptyRoot \<Rightarrow> Inr (Found None))"

fun account_loop :: "nat \<Rightarrow> state_lib \<Rightarrow> db \<Rightarrow> nibbles \<Rightarrow> nat \<Rightarrow> b256 \<Rightarrow> state_error + trie_account option" where
  "account_loop 0 sl d nibbles cursor current_hash = Inl (TrieFailure Diverges)"
| "account_loop (Suc k) sl d nibbles cursor current_hash =
     rbind (of_store (trie_node current_hash d)) (\<lambda>b. case b of
        None \<Rightarrow> Inr None
      | Some node_bytes \<Rightarrow> (case decode_node (s_trie sl) node_bytes of
          Inl e \<Rightarrow> if is_panic e then Inl (TrieFailure e) else Inr (dec_account sl node_bytes)
        | Inr (node, rest) \<Rightarrow>
            rbind (embedded_walk (Suc k) sl nibbles cursor node) (\<lambda>w. case w of
              Found a \<Rightarrow> Inr a | Refetch h cursor' \<Rightarrow> account_loop k sl d nibbles cursor' h)))"

definition get_account_from_trie :: "nat \<Rightarrow> state_lib \<Rightarrow> db \<Rightarrow> b256 \<Rightarrow> b256 \<Rightarrow> state_error + trie_account option" where
  "get_account_from_trie k sl d root hashed_address =
     account_loop k sl d (unpack (s_trie sl) hashed_address) 0 root"

definition account :: "nat \<Rightarrow> state_lib \<Rightarrow> db \<Rightarrow> address \<Rightarrow> b256 option \<Rightarrow> state_error + trie_account option" where
  "account k sl d addr state_root = (case state_root of
     Some root \<Rightarrow>
       if root = EMPTY_ROOT_HASH (s_trie sl) then Inr None
       else get_account_from_trie k sl d root (hash_address sl addr)
   | None \<Rightarrow> of_store (latest_account addr d))"

definition transaction_count :: "nat \<Rightarrow> state_lib \<Rightarrow> db \<Rightarrow> address \<Rightarrow> b256 option \<Rightarrow> state_error + u64" where
  "transaction_count k sl d addr state_root =
     rbind (account k sl d addr state_root) (\<lambda>a. Inr (case a of None \<Rightarrow> 0 | Some x \<Rightarrow> acc_nonce x))"

subsection \<open>Storage slots\<close>

definition trie_value :: "nat \<Rightarrow> state_lib \<Rightarrow> provider \<Rightarrow> b256 \<Rightarrow> b256 \<Rightarrow> state_error + u256" where
  "trie_value k sl p storage_root slot =
     rbind (of_trie (fst (trie_get k (s_trie sl) p (hash_word sl slot) (trie_new storage_root)))) (\<lambda>b. case b of
       Some bytes \<Rightarrow> ok_or (dec_u256 sl bytes) ValueDecode | None \<Rightarrow> Inr 0)"

definition storage :: "nat \<Rightarrow> state_lib \<Rightarrow> db \<Rightarrow> address \<Rightarrow> b256 \<Rightarrow> b256 option \<Rightarrow> state_error + u256" where
  "storage k sl d addr slot state_root = (case state_root of
     Some root \<Rightarrow>
       if root = EMPTY_ROOT_HASH (s_trie sl) then Inr 0
       else rbind (account k sl d addr (Some root)) (\<lambda>a. case a of
           None \<Rightarrow> Inr 0
         | Some acc \<Rightarrow> if acc_storage_root acc = EMPTY_ROOT_HASH (s_trie sl) then Inr 0
             else trie_value k sl (trie_provider d) (acc_storage_root acc) slot)
   | None \<Rightarrow> of_store (latest_storage addr slot d))"

fun decode_entries :: "state_lib \<Rightarrow> (b256 \<times> bytes) list \<Rightarrow> state_error + (b256 \<times> u256) list" where
  "decode_entries sl [] = Inr []"
| "decode_entries sl ((hashed_slot, b) # es) =
     rbind (ok_or (dec_u256 sl b) ValueDecode) (\<lambda>v. rbind (decode_entries sl es) (\<lambda>vs. Inr ((hashed_slot, v) # vs)))"

definition account_storages :: "nat \<Rightarrow> state_lib \<Rightarrow> db \<Rightarrow> address \<Rightarrow> b256 option \<Rightarrow> state_error + (b256 \<times> u256) list" where
  "account_storages k sl d addr state_root = (case state_root of
     Some root \<Rightarrow>
       rbind (account k sl d addr (Some root)) (\<lambda>a. case a of
           None \<Rightarrow> Inr []
         | Some acc \<Rightarrow> if acc_storage_root acc = EMPTY_ROOT_HASH (s_trie sl) then Inr []
             else rbind (of_trie (fst (all_entries k (s_trie sl) (trie_provider d) (trie_new (acc_storage_root acc)))))
               (decode_entries sl))
   | None \<Rightarrow> of_store (latest_account_storages addr d))"

subsection \<open>Enumeration with an explicit stack\<close>

datatype node_source = HashSource b256 | RawSource bytes

definition source_of :: "trie_lib \<Rightarrow> child \<Rightarrow> nibbles \<Rightarrow> (node_source \<times> nibbles) list" where
  "source_of L c path = (case as_hash L c of
     Some h \<Rightarrow> [(HashSource h, path)]
   | None \<Rightarrow> if c \<noteq> [] then [(RawSource c, path)] else [])"

text \<open>The top of the stack is the head of the list.  The code pushes the children of a branch from the
  last to the first, so the first is on top.\<close>

definition branch_sources :: "trie_lib \<Rightarrow> child list \<Rightarrow> nibbles \<Rightarrow> (node_source \<times> nibbles) list" where
  "branch_sources L stack path =
     fold (\<lambda>i st. source_of L (stack ! i) (path @ [of_nat i]) @ st) (rev [0 ..< 16]) []"

definition node_bytes_of :: "db \<Rightarrow> node_source \<Rightarrow> state_error + bytes option" where
  "node_bytes_of d s = (case s of HashSource h \<Rightarrow> of_store (trie_node h d) | RawSource raw \<Rightarrow> Inr (Some raw))"

fun iterate_loop :: "nat \<Rightarrow> trie_lib \<Rightarrow> db \<Rightarrow> (node_source \<times> nibbles) list \<Rightarrow> (b256 \<times> bytes) list \<Rightarrow>
    state_error + (b256 \<times> bytes) list" where
  "iterate_loop k L d [] leaves = Inr leaves"
| "iterate_loop 0 L d (x # st) leaves = Inl (TrieFailure Diverges)"
| "iterate_loop (Suc k) L d ((source, path) # st) leaves =
     rbind (node_bytes_of d source) (\<lambda>b. case b of
        None \<Rightarrow> iterate_loop k L d st leaves
      | Some data \<Rightarrow> (case decode_node L data of
          Inl e \<Rightarrow> if is_panic e then Inl (TrieFailure e) else iterate_loop k L d st leaves
        | Inr (node, rest) \<Rightarrow> (case node of
            Branch stack v \<Rightarrow>
              if length stack < 16 then Inl (TrieFailure IndexPanic)
              else iterate_loop k L d (branch_sources L stack path @ st)
                (leaves @ (case v of None \<Rightarrow> [] | Some w \<Rightarrow> full_entry L path w))
          | Leaf key v \<Rightarrow> iterate_loop k L d st (leaves @ full_entry L (path @ key) v)
          | Extension key c \<Rightarrow> iterate_loop k L d (source_of L c (path @ key) @ st) leaves
          | EmptyRoot \<Rightarrow> iterate_loop k L d st leaves)))"

definition iterate_trie :: "nat \<Rightarrow> trie_lib \<Rightarrow> db \<Rightarrow> b256 \<Rightarrow> state_error + (b256 \<times> bytes) list" where
  "iterate_trie k L d root =
     (if root = EMPTY_ROOT_HASH L then Inr [] else iterate_loop k L d [(HashSource root, [])] [])"

subsection \<open>Read-only roots\<close>

text \<open>The entries are collected in a hash map and sorted by key before the trie is built.\<close>

definition collect_sorted :: "(b256 \<times> bytes) list \<Rightarrow> (b256 \<times> bytes) list" where
  "collect_sorted es = sort_key fst (fold (\<lambda>(k, v). AList.update k v) es [])"

definition slot_leaves :: "state_lib \<Rightarrow> (b256 \<times> u256) list \<Rightarrow> (b256 \<times> bytes) list" where
  "slot_leaves sl es = map (\<lambda>(slot, v). (hash_word sl slot, enc_u256 sl v)) (filter (\<lambda>(slot, v). v \<noteq> 0) es)"

definition calculate_storage_root_read :: "nat \<Rightarrow> state_lib \<Rightarrow> db \<Rightarrow> address \<Rightarrow> b256 option \<Rightarrow> state_error + b256" where
  "calculate_storage_root_read k sl d addr state_root =
     rbind (case state_root of
         Some root \<Rightarrow> rbind (account k sl d addr (Some root)) (\<lambda>a. case a of
             Some acc \<Rightarrow> iterate_trie k (s_trie sl) d (acc_storage_root acc) | None \<Rightarrow> Inr [])
       | None \<Rightarrow> rbind (account_storages k sl d addr None) (\<lambda>es. Inr (slot_leaves sl es)))
       (\<lambda>es. if es = [] then Inr (EMPTY_ROOT_HASH (s_trie sl))
             else of_trie (calculate_trie_root k (s_trie sl) (collect_sorted es)))"

definition normal_code :: "state_lib \<Rightarrow> b256 \<Rightarrow> b256" where
  "normal_code sl h = (if h = 0 then KECCAK256_EMPTY sl else h)"

fun account_leaves :: "nat \<Rightarrow> state_lib \<Rightarrow> db \<Rightarrow> address list \<Rightarrow> state_error + (b256 \<times> bytes) list" where
  "account_leaves k sl d [] = Inr []"
| "account_leaves k sl d (addr # as) =
     rbind (account k sl d addr None) (\<lambda>a. case a of
        None \<Rightarrow> account_leaves k sl d as
      | Some acc \<Rightarrow>
          rbind (calculate_storage_root_read k sl d addr None) (\<lambda>storage_root.
          rbind (account_leaves k sl d as) (\<lambda>es.
            Inr ((hash_address sl addr, enc_account sl (acc\<lparr>acc_storage_root := storage_root,
              acc_code_hash := normal_code sl (acc_code_hash acc)\<rparr>)) # es))))"

definition calculate_state_root_read :: "nat \<Rightarrow> state_lib \<Rightarrow> db \<Rightarrow> b256 option \<Rightarrow> state_error + b256" where
  "calculate_state_root_read k sl d state_root =
     rbind (case state_root of
         Some root \<Rightarrow> iterate_trie k (s_trie sl) d root
       | None \<Rightarrow> rbind (of_store (addresses d)) (account_leaves k sl d))
       (\<lambda>es. of_trie (calculate_trie_root k (s_trie sl) (collect_sorted es)))"

subsection \<open>The account walk reads what the trie reads\<close>

lemma holds_fresh [simp]: "holds (trie_provider d) (trie_new r) h \<longleftrightarrow> (\<exists>b. trie_node h d = Inr (Some b))"
  by (auto simp: holds_def trie_new_def trie_provider_def split: sum.splits)

lemma root_trie_new [simp]: "root_hash (trie_new r) = r"
  by (simp add: trie_new_def)

lemma fetch_node:
  assumes L: "lib_ok L" "collision_free L S" and p: "pwf p" "encs L p \<subseteq> S"
    and t: "addressed L (trie_provider d) S (trie_new r)" "holds (trie_provider d) (trie_new r) (phash L p)"
  shows "trie_node (phash L p) d = Inr (Some (penc L p))" and "decode_node L (penc L p) = Inr (node_of L p, [])"
proof -
  obtain b where b: "trie_node (phash L p) d = Inr (Some b)" using t(2) by auto
  then have "trie_provider d (phash L p) = Inr (Some b)" by (simp add: trie_provider_def)
  with t(1) have "b \<in> S" "keccak256 L b = keccak256 L (penc L p)" by (auto simp: addressed_def phash_def)
  with penc_in [OF L(2) p(2)] L(2) have "b = penc L p" by (auto simp: collision_free_def inj_on_def)
  with b show "trie_node (phash L p) d = Inr (Some (penc L p))" by simp
  have "length (encode_node L (node_of L p)) < 2 ^ 64"
    using penc_in [OF L(2) p(2)] L(2) by (auto simp: collision_free_def penc_def)
  from decode_encode [OF L(1) node_of_ok [OF L p] this, of "[]"]
  show "decode_node L (penc L p) = Inr (node_of L p, [])" by (simp add: penc_def)
qed

text \<open>One walk below a fetched node: it ends, or it leaves through the hash of a subtree with the same answer.\<close>

definition walk_ok :: "state_lib \<Rightarrow> bytes set \<Rightarrow> nibbles \<Rightarrow> nat \<Rightarrow> ptrie \<Rightarrow> state_error + walk_result \<Rightarrow> bool" where
  "walk_ok sl S nibbles cursor p r \<longleftrightarrow>
     r = Inr (Found (Option.bind (plookup p (drop cursor nibbles)) (dec_account sl))) \<or>
     (\<exists>q cursor'. r = Inr (Refetch (phash (s_trie sl) q) cursor') \<and> cursor < cursor' \<and> cursor' \<le> length nibbles \<and>
       hashed (s_trie sl) q \<and> pwf q \<and> encs (s_trie sl) q \<subseteq> S \<and> subs q \<subseteq> psubs p \<and>
       plookup q (drop cursor' nibbles) = plookup p (drop cursor nibbles))"

lemma walk_ok_child:
  assumes "walk_ok sl S nibbles cursor' q r" and "cursor < cursor'" and "subs q \<subseteq> psubs p"
    and "plookup q (drop cursor' nibbles) = plookup p (drop cursor nibbles)"
  shows "walk_ok sl S nibbles cursor p r"
  using assms subs_psubs(2) [of q] unfolding walk_ok_def by (metis order.strict_trans order.trans)

lemma embedded_walk_ok:
  assumes L: "lib_ok (s_trie sl)" "collision_free (s_trie sl) S" and path: "nibble_path nibbles"
  shows "pwf p \<Longrightarrow> encs (s_trie sl) p \<subseteq> S \<Longrightarrow> cursor \<le> length nibbles \<Longrightarrow> length nibbles - cursor < k \<Longrightarrow>
    \<forall>v. plookup p (drop cursor nibbles) = Some v \<longrightarrow> dec_account sl v \<noteq> None \<Longrightarrow>
    walk_ok sl S nibbles cursor p (embedded_walk k sl nibbles cursor (node_of (s_trie sl) p))"
proof (induction k arbitrary: p cursor)
  case (Suc k)
  let ?L = "s_trie sl" and ?ns = "drop cursor nibbles"
  have child: "walk_ok sl S nibbles cursor p
      (case as_hash ?L (pref ?L q) of Some h \<Rightarrow> Inr (Refetch h cursor')
       | None \<Rightarrow> rbind (of_trie (decode_node ?L (pref ?L q))) (\<lambda>r. embedded_walk k sl nibbles cursor' (fst r)))"
    if q: "pwf q" "encs ?L q \<subseteq> S" "q \<noteq> PEmpty" "subs q \<subseteq> psubs p"
      and c: "cursor < cursor'" "cursor' \<le> length nibbles"
      and look: "plookup q (drop cursor' nibbles) = plookup p ?ns" for q cursor'
  proof (cases "hashed ?L q")
    case True
    with child_resolves(1) [OF L q(1-3)] q c look show ?thesis by (auto simp: walk_ok_def)
  next
    case False
    note r = child_resolves(2) [OF L q(1-3) False]
    have "walk_ok sl S nibbles cursor' q (embedded_walk k sl nibbles cursor' (node_of ?L q))"
      using Suc.prems(3-5) c look by (intro Suc.IH q(1,2)) auto
    from walk_ok_child [OF this c(1) q(4) look] r show ?thesis by (metis (lifting) fst_conv of_simps(3) option.case(1) rbind_simps(2))
  qed
  show ?case
  proof (cases p)
    case (PExt b key q)
    show ?thesis
    proof (cases "prefix key ?ns")
      case True
      then obtain r where ns: "?ns = key @ r" by (auto simp: prefix_def)
      then have "drop (cursor + length key) nibbles = r" by (metis append_eq_conv_conj drop_drop add.commute)
      moreover have "cursor + length key \<le> length nibbles" using ns Suc.prems(3) by (metis length_drop length_append le_add1 le_diff_conv2 add.commute)
      moreover have "key \<noteq> []" "pwf q" "q \<noteq> PEmpty" "encs ?L q \<subseteq> S" using Suc.prems PExt by (auto simp: encs_simps)
      ultimately show ?thesis using child [of q "cursor + length key"] PExt True ns by (auto simp: pref_def cong: option.case_cong)
    qed (use PExt in \<open>simp add: walk_ok_def\<close>)
  next
    case (PBranch b ps v)
    show ?thesis
    proof (cases "cursor = length nibbles")
      case False
      then have c: "cursor < length nibbles" using Suc.prems(3) by simp
      then have ns: "?ns = nibbles ! cursor # drop (cursor + 1) nibbles" by (metis Cons_nth_drop_Suc Suc_eq_plus1)
      let ?q = "ps ! unat (nibbles ! cursor)"
      have i: "unat (nibbles ! cursor) < 16" using c path by (intro nibble_index) (simp add: nibble_path_def)
      then have m: "?q \<in> set ps" "length ps = 16" using Suc.prems(1) PBranch by simp_all
      have e: "encs ?L ?q \<subseteq> S" using Suc.prems(2) PBranch m(1) by (auto simp: encs_simps)
      show ?thesis
      proof (cases "?q = PEmpty")
        case True
        then have "as_hash ?L (pref ?L ?q) = None" "pref ?L ?q = []"
          using lib_misc(6) [OF L(1), of "[]"] by (simp_all add: pref_def node_ref_def)
        then show ?thesis using PBranch False ns True i m(2) by (simp add: walk_ok_def pref_def nth_map)
      next
        case F: False
        have "walk_ok sl S nibbles cursor p
            (case as_hash ?L (pref ?L ?q) of Some h \<Rightarrow> Inr (Refetch h (cursor + 1))
             | None \<Rightarrow> rbind (of_trie (decode_node ?L (pref ?L ?q))) (\<lambda>r. embedded_walk k sl nibbles (cursor + 1) (fst r)))"
          using Suc.prems(1) PBranch e c ns F i m by (intro child) (auto intro: bexI [OF _ m(1)])
        moreover have "pref ?L ?q \<noteq> []"
          using child_resolves [OF L _ e F] Suc.prems(1) PBranch m(1) lib_misc(6) [OF L(1), of "[]"]
          by (cases "hashed ?L ?q") auto
        ultimately show ?thesis using PBranch False i m(2) by (simp add: pref_def nth_map Let_def cong: option.case_cong)
      qed
    qed (use PBranch in \<open>simp add: walk_ok_def\<close>)
  next
    case (PLeaf b key v)
    with Suc.prems(5) show ?thesis by (auto simp: walk_ok_def)
  qed (simp add: walk_ok_def)
qed simp

lemma account_loop_ok:
  assumes L: "lib_ok (s_trie sl)" "collision_free (s_trie sl) S" and path: "nibble_path nibbles"
    and t: "addressed (s_trie sl) (trie_provider d) S (trie_new r)"
  shows "pwf p \<Longrightarrow> encs (s_trie sl) p \<subseteq> S \<Longrightarrow> avail (s_trie sl) (trie_provider d) (trie_new r) p \<Longrightarrow>
    holds (trie_provider d) (trie_new r) (phash (s_trie sl) p) \<Longrightarrow> cursor \<le> length nibbles \<Longrightarrow>
    length nibbles - cursor < k \<Longrightarrow> \<forall>v. plookup p (drop cursor nibbles) = Some v \<longrightarrow> dec_account sl v \<noteq> None \<Longrightarrow>
    account_loop k sl d nibbles cursor (phash (s_trie sl) p) =
      Inr (Option.bind (plookup p (drop cursor nibbles)) (dec_account sl))"
proof (induction k arbitrary: p cursor)
  case (Suc k)
  note f = fetch_node [OF L Suc.prems(1,2) t Suc.prems(4)]
  have step: "account_loop (Suc k) sl d nibbles cursor (phash (s_trie sl) p) =
      rbind (embedded_walk (Suc k) sl nibbles cursor (node_of (s_trie sl) p)) (\<lambda>w. case w of
        Found a \<Rightarrow> Inr a | Refetch h cursor' \<Rightarrow> account_loop k sl d nibbles cursor' h)"
    by (simp only: account_loop.simps f of_simps rbind_simps option.case sum.case prod.case)
  from embedded_walk_ok [OF L path Suc.prems(1,2,5,6,7)]
  consider "embedded_walk (Suc k) sl nibbles cursor (node_of (s_trie sl) p) =
      Inr (Found (Option.bind (plookup p (drop cursor nibbles)) (dec_account sl)))"
    | q cursor' where "embedded_walk (Suc k) sl nibbles cursor (node_of (s_trie sl) p) =
        Inr (Refetch (phash (s_trie sl) q) cursor')" "cursor < cursor'" "cursor' \<le> length nibbles"
      "hashed (s_trie sl) q" "pwf q" "encs (s_trie sl) q \<subseteq> S" "subs q \<subseteq> psubs p"
      "plookup q (drop cursor' nibbles) = plookup p (drop cursor nibbles)"
    unfolding walk_ok_def by blast
  then show ?case
  proof cases
    case (2 q cursor')
    then have "avail_child (s_trie sl) (trie_provider d) (trie_new r) q"
      using Suc.prems(3) by (auto simp: avail_def avail_child_def)
    note a = avail_childD(1) [OF this] avail_childD(2) [OF this 2(4)]
    have "account_loop k sl d nibbles cursor' (phash (s_trie sl) q) =
        Inr (Option.bind (plookup q (drop cursor' nibbles)) (dec_account sl))"
      using 2 Suc.prems(6,7) by (intro Suc.IH a) auto
    then show ?thesis unfolding step using 2 by simp
  qed (simp only: step rbind_simps walk_result.case)
qed simp

text \<open>C13: reading an account at an older state root agrees with the trie.  On a stored trie whose value for the
  account decodes, the walk written out in \<open>get_account_from_trie\<close> ends and returns the decoding of what
  \<open>EthTrie::get\<close> finds under the hashed address.\<close>

theorem historical_account_equiv:
  assumes "lib_ok (s_trie sl)" and "collision_free (s_trie sl) S"
    and "represents (s_trie sl) (trie_provider d) S p (trie_new root)" and "193 < k"
    and "\<And>v. fst (trie_get k (s_trie sl) (trie_provider d) (hash_address sl a) (trie_new root)) = Inr (Some v) \<Longrightarrow>
      dec_account sl v \<noteq> None"
  shows "\<exists>b. fst (trie_get k (s_trie sl) (trie_provider d) (hash_address sl a) (trie_new root)) = Inr b \<and>
    account k sl d a (Some root) = Inr (Option.bind b (dec_account sl))"
proof -
  let ?L = "s_trie sl" and ?ns = "unpack (s_trie sl) (hash_address sl a)"
  have ns: "nibble_path ?ns" "length ?ns = 64" using assms(1) by (simp_all add: lib_ok_def)
  have g: "fst (trie_get k ?L (trie_provider d) (hash_address sl a) (trie_new root)) = Inr (plookup p ?ns)"
    using get_represents [OF assms(1,2,3) ns(1), of k] assms(4) ns(2) by (simp add: trie_get_def)
  have p: "pwf p" "encs ?L p \<subseteq> S" "addressed ?L (trie_provider d) S (trie_new root)"
    "avail ?L (trie_provider d) (trie_new root) p" "root = phash ?L p"
    using assms(3) unfolding represents_def by (blast, blast, blast, blast, simp)
  have "account k sl d a (Some root) = Inr (Option.bind (plookup p ?ns) (dec_account sl))"
  proof (cases "p = PEmpty")
    case True
    then have "root = EMPTY_ROOT_HASH ?L"
      using p(5) lib_misc(9) [OF assms(1)] by (simp add: phash_def penc_def encode_node_def)
    with True show ?thesis by (simp add: account_def)
  next
    case False
    then have "holds (trie_provider d) (trie_new root) (phash ?L p)" using assms(3) by (simp add: represents_def)
    from account_loop_ok [OF assms(1,2) ns(1) p(3,1,2,4) this, of 0 k] assms(4,5) g ns(2)
      phash_not_empty [OF assms(1,2) p(1,2) False] p(5)
    show ?thesis by (simp add: account_def get_account_from_trie_def)
  qed
  with g show ?thesis by blast
qed

subsection \<open>The enumeration lists exactly the entries\<close>

function ppaths :: "nibbles \<Rightarrow> ptrie \<Rightarrow> (nibbles \<times> bytes) list" where
  "ppaths path PEmpty = []"
| "ppaths path (PLeaf b key v) = [(path @ key, v)]"
| "ppaths path (PExt b key p) = ppaths (path @ key) p"
| "ppaths path (PBranch b ps v) = (case v of None \<Rightarrow> [] | Some w \<Rightarrow> [(path, w)]) @
     concat (map (\<lambda>i. ppaths (path @ [of_nat i]) (ps ! i)) [0 ..< length ps])"
  by pat_completeness auto
termination
  by (relation "measure (\<lambda>(path, p). size p)") (auto simp: nth_size [where n = 0, simplified])

fun psize :: "ptrie \<Rightarrow> nat" where
  "psize PEmpty = 0"
| "psize (PLeaf b key v) = 1"
| "psize (PExt b key p) = Suc (psize p)"
| "psize (PBranch b ps v) = Suc (sum_list (map psize ps))"

lemma nibble_of_nat: "i < 16 \<Longrightarrow> (of_nat i :: u8) < 16" "i < 16 \<Longrightarrow> unat (of_nat i :: u8) = i"
  by (simp_all add: word_less_nat_alt unat_of_nat)

lemma ex_list: "(\<exists>xs. P xs) \<longleftrightarrow> P [] \<or> (\<exists>x xs. P (x # xs))"
  by (metis list.exhaust)

lemma ppaths_iff:
  "pwf p \<Longrightarrow> (ms, v) \<in> set (ppaths path p) \<longleftrightarrow> (\<exists>ns. nibble_path ns \<and> ms = path @ ns \<and> plookup p ns = Some v)"
proof (induction path p arbitrary: ms v rule: ppaths.induct)
  case (3 path b key p)
  then have "(ms, v) \<in> set (ppaths (path @ key) p) \<longleftrightarrow> (\<exists>ns. nibble_path ns \<and> ms = path @ key @ ns \<and> plookup p ns = Some v)"
    by simp
  with 3(2) show ?case by (auto simp: prefix_def split: if_splits) (metis append.assoc append_eq_conv_conj nibble_path_simps(3))+
next
  case (4 path b ps w)
  have IH: "(ms, v) \<in> set (ppaths (path @ [of_nat i]) (ps ! i)) \<longleftrightarrow>
      (\<exists>ns. nibble_path ns \<and> ms = path @ of_nat i # ns \<and> plookup (ps ! i) ns = Some v)" if "i < 16" for i
    using 4 that by simp
  have "(\<exists>i < 16. (ms, v) \<in> set (ppaths (path @ [of_nat i]) (ps ! i))) \<longleftrightarrow>
      (\<exists>n ns. n < 16 \<and> nibble_path ns \<and> ms = path @ n # ns \<and> plookup (ps ! unat n) ns = Some v)"
  proof
    assume "\<exists>n ns. n < 16 \<and> nibble_path ns \<and> ms = path @ n # ns \<and> plookup (ps ! unat n) ns = Some v"
    then obtain n ns where "n < 16" "nibble_path ns" "ms = path @ n # ns" "plookup (ps ! unat n) ns = Some v" by blast
    with IH [of "unat n"] nibble_index [of n] show "\<exists>i < 16. (ms, v) \<in> set (ppaths (path @ [of_nat i]) (ps ! i))" by auto
  qed (use IH nibble_of_nat in \<open>metis\<close>)
  moreover have "(ms, v) \<in> set (ppaths path (PBranch b ps w)) \<longleftrightarrow> ms = path \<and> w = Some v \<or>
      (\<exists>i < 16. (ms, v) \<in> set (ppaths (path @ [of_nat i]) (ps ! i)))"
    using 4(2) by (cases w) auto
  moreover have "(\<exists>ns. nibble_path ns \<and> ms = path @ ns \<and> plookup (PBranch b ps w) ns = Some v) \<longleftrightarrow> ms = path \<and> w = Some v \<or>
      (\<exists>n ns. n < 16 \<and> nibble_path ns \<and> ms = path @ n # ns \<and> plookup (ps ! unat n) ns = Some v)"
    using 4(2) nibble_index by (subst ex_list) auto
  ultimately show ?case by blast
qed auto

definition entries_of :: "trie_lib \<Rightarrow> nibbles \<Rightarrow> ptrie \<Rightarrow> (b256 \<times> bytes) list" where
  "entries_of L path p = concat (map (\<lambda>(ns, v). full_entry L ns v) (ppaths path p))"

definition src_of :: "trie_lib \<Rightarrow> ptrie \<Rightarrow> node_source" where
  "src_of L p = (if hashed L p then HashSource (phash L p) else RawSource (penc L p))"

definition src_ok :: "trie_lib \<Rightarrow> db \<Rightarrow> ptrie \<Rightarrow> node_source \<Rightarrow> bool" where
  "src_ok L d p s \<longleftrightarrow> s = RawSource (penc L p) \<or> s = HashSource (phash L p) \<and> (\<exists>b. trie_node (phash L p) d = Inr (Some b))"

lemma source_of_child:
  assumes "lib_ok L" "collision_free L S" "pwf p" "encs L p \<subseteq> S"
  shows "source_of L (pref L p) path = (if p = PEmpty then [] else [(src_of L p, path)])"
proof (cases "p = PEmpty")
  case True
  with lib_misc(6) [OF assms(1), of "[]"] show ?thesis by (simp add: source_of_def pref_def node_ref_def)
next
  case False
  with child_resolves [OF assms] show ?thesis by (cases "hashed L p") (auto simp: source_of_def src_of_def)
qed

lemma branch_sources_concat:
  "branch_sources L stack path = concat (map (\<lambda>i. source_of L (stack ! i) (path @ [of_nat i])) [0 ..< 16])"
proof -
  have "fold (\<lambda>i st. f i @ st) (rev xs) [] = concat (map f xs)" for f :: "nat \<Rightarrow> (node_source \<times> nibbles) list" and xs
    by (induction xs) simp_all
  then show ?thesis by (simp add: branch_sources_def)
qed

lemma src_of_ok: "avail_child L (trie_provider d) (trie_new r) p \<Longrightarrow> src_ok L d p (src_of L p)"
  using avail_childD(2) [of L "trie_provider d" "trie_new r" p] by (auto simp: src_ok_def src_of_def)

type_synonym work = "ptrie \<times> nibbles \<times> node_source"

definition work_ok :: "trie_lib \<Rightarrow> bytes set \<Rightarrow> db \<Rightarrow> b256 \<Rightarrow> work \<Rightarrow> bool" where
  "work_ok L S d r = (\<lambda>(p, path, s). pwf p \<and> encs L p \<subseteq> S \<and> p \<noteq> PEmpty \<and>
     avail L (trie_provider d) (trie_new r) p \<and> src_ok L d p s)"

definition child_work :: "trie_lib \<Rightarrow> nibbles \<Rightarrow> ptrie list \<Rightarrow> work list" where
  "child_work L path ps = concat (map (\<lambda>i. if ps ! i = PEmpty then []
     else [(ps ! i, path @ [of_nat i], src_of L (ps ! i))]) [0 ..< 16])"

lemma child_work_sums:
  assumes "length ps = 16"
  shows "sum_list (map (\<lambda>w. psize (fst w)) (child_work L path ps)) = sum_list (map psize ps)"
    and "concat (map (\<lambda>w. entries_of L (fst (snd w)) (fst w)) (child_work L path ps)) =
      concat (map (\<lambda>i. entries_of L (path @ [of_nat i]) (ps ! i)) [0 ..< 16])"
proof -
  have "map psize ps = map (\<lambda>i. psize (ps ! i)) [0 ..< 16]" using assms by (intro nth_equalityI) simp_all
  moreover have "sum_list (map (\<lambda>w. psize (fst w)) (concat (map (\<lambda>i. if ps ! i = PEmpty then []
      else [(ps ! i, path @ [of_nat i], src_of L (ps ! i))]) xs))) = sum_list (map (\<lambda>i. psize (ps ! i)) xs)" for xs
    by (induction xs) auto
  ultimately show "sum_list (map (\<lambda>w. psize (fst w)) (child_work L path ps)) = sum_list (map psize ps)"
    by (simp add: child_work_def)
  have "concat (map (\<lambda>w. entries_of L (fst (snd w)) (fst w)) (concat (map (\<lambda>i. if ps ! i = PEmpty then []
      else [(ps ! i, path @ [of_nat i], src_of L (ps ! i))]) xs))) =
      concat (map (\<lambda>i. entries_of L (path @ [of_nat i]) (ps ! i)) xs)" for xs
    by (induction xs) (auto simp: entries_of_def)
  then show "concat (map (\<lambda>w. entries_of L (fst (snd w)) (fst w)) (child_work L path ps)) =
      concat (map (\<lambda>i. entries_of L (path @ [of_nat i]) (ps ! i)) [0 ..< 16])"
    by (simp add: child_work_def)
qed

lemma work_bytes:
  assumes L: "lib_ok L" "collision_free L S" and t: "addressed L (trie_provider d) S (trie_new r)" and w: "work_ok L S d r (p, path, s)"
  shows "node_bytes_of d s = Inr (Some (penc L p))" and "decode_node L (penc L p) = Inr (node_of L p, [])"
proof -
  have p: "pwf p" "encs L p \<subseteq> S" using w by (simp_all add: work_ok_def)
  have "length (encode_node L (node_of L p)) < 2 ^ 64"
    using penc_in [OF L(2) p(2)] L(2) by (auto simp: collision_free_def penc_def)
  from decode_encode [OF L(1) node_of_ok [OF L p] this, of "[]"]
  show "decode_node L (penc L p) = Inr (node_of L p, [])" by (simp add: penc_def)
  show "node_bytes_of d s = Inr (Some (penc L p))"
    using w fetch_node(1) [OF L p t] by (auto simp: work_ok_def src_ok_def node_bytes_of_def)
qed

lemma encs_child: "i < length ps \<Longrightarrow> encs L (PBranch b ps v) \<subseteq> S \<Longrightarrow> encs L (ps ! i) \<subseteq> S"
  using nth_mem by (fastforce simp: encs_simps)

lemma child_work_ok:
  assumes "work_ok L S d r (PBranch b ps v, path, s)" and "w \<in> set (child_work L path ps)"
  shows "work_ok L S d r w"
proof -
  from assms(2) obtain i where i: "i < 16" "ps ! i \<noteq> PEmpty" "w = (ps ! i, path @ [of_nat i], src_of L (ps ! i))"
    by (auto simp: child_work_def split: if_splits)
  then have m: "ps ! i \<in> set ps" using assms(1) by (simp add: work_ok_def)
  then have "avail_child L (trie_provider d) (trie_new r) (ps ! i)"
    using assms(1) by (simp add: work_ok_def avail_simps)
  with i m assms(1) avail_childD(1) src_of_ok encs_child [of i ps L b v S] show ?thesis by (auto simp: work_ok_def)
qed

lemma ext_work_ok:
  assumes "work_ok L S d r (PExt b key p, path, s)"
  shows "work_ok L S d r (p, path @ key, src_of L p)"
  using assms avail_childD(1) src_of_ok by (auto simp: work_ok_def encs_simps avail_simps)

lemma branch_sources_work:
  assumes "lib_ok L" "collision_free L S" "work_ok L S d r (PBranch b ps v, path, s)"
  shows "branch_sources L (map (pref L) ps) path = map (\<lambda>w. (snd (snd w), fst (snd w))) (child_work L path ps)"
proof -
  have ps: "length ps = 16" "\<And>i. i < 16 \<Longrightarrow> pwf (ps ! i) \<and> encs L (ps ! i) \<subseteq> S"
    using assms(3) encs_child [of _ ps L b v S] by (auto simp: work_ok_def)
  have "source_of L (map (pref L) ps ! i) q = map (\<lambda>w. (snd (snd w), fst (snd w))) (if ps ! i = PEmpty then [] else [(ps ! i, q, src_of L (ps ! i))])"
    if "i < 16" for i q
    using that ps source_of_child [OF assms(1,2)] by simp
  then have "map (\<lambda>i. source_of L (map (pref L) ps ! i) (path @ [of_nat i])) [0 ..< 16] =
      map (map (\<lambda>w. (snd (snd w), fst (snd w))) \<circ> (\<lambda>i. if ps ! i = PEmpty then [] else [(ps ! i, path @ [of_nat i], src_of L (ps ! i))])) [0 ..< 16]"
    by (intro map_cong) simp_all
  then show ?thesis unfolding branch_sources_concat child_work_def map_concat map_map by (rule arg_cong)
qed

lemma entries_branch:
  "entries_of L path (PBranch b ps v) = (case v of None \<Rightarrow> [] | Some w \<Rightarrow> full_entry L path w) @
     concat (map (\<lambda>i. entries_of L (path @ [of_nat i]) (ps ! i)) [0 ..< length ps])"
proof -
  have "concat (map f (concat xss)) = concat (map (\<lambda>xs. concat (map f xs)) xss)"
    for f :: "nibbles \<times> bytes \<Rightarrow> (b256 \<times> bytes) list" and xss by (induction xss) simp_all
  then show ?thesis by (cases v) (simp_all add: entries_of_def comp_def)
qed

lemma iterate_loop_ok:
  assumes L: "lib_ok L" "collision_free L S" and t: "addressed L (trie_provider d) S (trie_new r)"
  shows "\<forall>w \<in> set ws. work_ok L S d r w \<Longrightarrow> sum_list (map (\<lambda>w. psize (fst w)) ws) \<le> k \<Longrightarrow>
    iterate_loop k L d (map (\<lambda>w. (snd (snd w), fst (snd w))) ws) leaves =
      Inr (leaves @ concat (map (\<lambda>w. entries_of L (fst (snd w)) (fst w)) ws))"
proof (induction k arbitrary: ws leaves)
  case 0
  have "ws = []"
  proof (cases ws)
    case (Cons w ws')
    with 0 show ?thesis by (cases w; cases "fst w") (auto simp: work_ok_def)
  qed
  then show ?case by simp
next
  case (Suc k)
  show ?case
  proof (cases ws)
    case (Cons w ws')
    obtain p path s where w: "w = (p, path, s)" by (cases w)
    with Suc.prems(1) Cons have ok: "work_ok L S d r (p, path, s)" "\<forall>w \<in> set ws'. work_ok L S d r w" by simp_all
    note b = work_bytes [OF L t ok(1)]
    show ?thesis
    proof (cases p)
      case PEmpty
      with ok(1) show ?thesis by (simp add: work_ok_def)
    next
      case (PLeaf f key v)
      with Suc.prems(2) Suc.IH [OF ok(2)] Cons w b show ?thesis by (simp add: entries_of_def)
    next
      case (PExt f key q)
      have e: "work_ok L S d r (q, path @ key, src_of L q)" using ext_work_ok ok(1) PExt by simp
      then have "source_of L (pref L q) (path @ key) = [(src_of L q, path @ key)]"
        using source_of_child [OF L, of q] by (simp add: work_ok_def)
      with Suc.prems(2) Suc.IH [of "(q, path @ key, src_of L q) # ws'"] e ok(2) Cons w b PExt show ?thesis
        by (simp add: entries_of_def pref_def)
    next
      case (PBranch f ps v)
      have len: "length ps = 16" using ok(1) PBranch by (simp add: work_ok_def)
      note cs = branch_sources_work [OF L ok(1) [unfolded PBranch]] child_work_sums [OF len, of L path]
      have "sum_list (map (\<lambda>w. psize (fst w)) (child_work L path ps @ ws')) \<le> k"
        using Suc.prems(2) Cons w PBranch cs(2) by simp
      moreover have "\<forall>w \<in> set (child_work L path ps @ ws'). work_ok L S d r w"
        using ok(2) child_work_ok [OF ok(1) [unfolded PBranch]] by auto
      ultimately have "iterate_loop k L d (map (\<lambda>w. (snd (snd w), fst (snd w))) (child_work L path ps @ ws')) (leaves @ l) =
          Inr ((leaves @ l) @ concat (map (\<lambda>w. entries_of L (fst (snd w)) (fst w)) (child_work L path ps @ ws')))" for l
        using Suc.IH by blast
      with Cons w b PBranch len show ?thesis
        by (simp add: cs(1) [unfolded pref_def [abs_def]] cs(3) entries_branch)
    qed
  qed simp
qed

text \<open>C18: the enumeration of a stored trie is sound and complete.  \<open>iterate_trie\<close> ends with a list that has an
  entry for every key \<open>EthTrie::get\<close> finds a value for, and every entry of the list is a 64-nibble path with the
  value the trie has there.  The fuel is the number of nodes.\<close>

theorem iterate_trie_exact:
  assumes "lib_ok L" and "collision_free L S" and "represents L (trie_provider d) S p (trie_new root)"
    and "psize p \<le> k" and "193 < j"
  shows "\<exists>es. iterate_trie k L d root = Inr es \<and>
    (\<forall>key v. fst (trie_get j L (trie_provider d) key (trie_new root)) = Inr (Some v) \<longrightarrow> (key, v) \<in> set es) \<and>
    (\<forall>(key, v) \<in> set es. \<exists>ns. nibble_path ns \<and> length ns = 64 \<and> pack L ns = key \<and>
      fst (get_nibbles j L (trie_provider d) ns (trie_new root)) = Inr (Some v))"
proof -
  have p: "pwf p" "encs L p \<subseteq> S" "addressed L (trie_provider d) S (trie_new root)"
    "avail L (trie_provider d) (trie_new root) p" "root = phash L p"
    using assms(3) unfolding represents_def by (blast, blast, blast, blast, simp)
  have it: "iterate_trie k L d root = Inr (entries_of L [] p)"
  proof (cases "p = PEmpty")
    case True
    then have "root = EMPTY_ROOT_HASH L"
      using p(5) lib_misc(9) [OF assms(1)] by (simp add: phash_def penc_def encode_node_def)
    with True show ?thesis by (simp add: iterate_trie_def entries_of_def)
  next
    case False
    then have "work_ok L S d root (p, [], HashSource root)"
      using assms(3) p by (simp add: work_ok_def src_ok_def represents_def)
    from iterate_loop_ok [OF assms(1,2) p(3), of "[(p, [], HashSource root)]" k "[]"] this assms(4)
      phash_not_empty [OF assms(1,2) p(1,2) False] p(5)
    show ?thesis by (simp add: iterate_trie_def)
  qed
  have look: "fst (get_nibbles j L (trie_provider d) ns (trie_new root)) = Inr (plookup p ns)"
    if "nibble_path ns" "length ns = 64" for ns
    using get_represents [OF assms(1,2,3) that(1), of j] assms(5) that(2) by simp
  have u: "nibble_path (unpack L key)" "length (unpack L key) = 64" "pack L (unpack L key) = key" for key
    using assms(1) by (simp_all add: lib_ok_def)
  have e: "(key, v) \<in> set (entries_of L [] p) \<longleftrightarrow>
      (\<exists>ns. nibble_path ns \<and> length ns = 64 \<and> pack L ns = key \<and> plookup p ns = Some v)" for key v
    using ppaths_iff [OF p(1), of _ v "[]"] by (force simp: entries_of_def full_entry_def split: if_splits)
  have "(key, v) \<in> set (entries_of L [] p)" if "fst (trie_get j L (trie_provider d) key (trie_new root)) = Inr (Some v)" for key v
  proof -
    have "plookup p (unpack L key) = Some v" using that look [OF u(1,2)] by (simp add: trie_get_def)
    with u e show ?thesis by blast
  qed
  moreover have "\<exists>ns. nibble_path ns \<and> length ns = 64 \<and> pack L ns = key \<and>
      fst (get_nibbles j L (trie_provider d) ns (trie_new root)) = Inr (Some v)"
    if "(key, v) \<in> set (entries_of L [] p)" for key v
    using that look e by metis
  ultimately show ?thesis using it by blast
qed

subsection \<open>A stored account\<close>

text \<open>The reference encoding with the length as hash; it separates the two strings of this example.\<close>

definition length_lib :: trie_lib where
  "length_lib = ref_lib\<lparr>keccak256 := \<lambda>b. of_nat (length b), EMPTY_ROOT_HASH := 1\<rparr>"

lemma length_lib_ok: "lib_ok length_lib"
  using ref_lib_ok unfolding lib_ok_def rlp_item_def by (simp add: length_lib_def)

definition sample_account :: trie_account where
  "sample_account = \<lparr>acc_nonce = 4, acc_balance = 100, acc_storage_root = 1, acc_code_hash = 9\<rparr>"

definition sample_state_lib :: state_lib where
  "sample_state_lib = \<lparr>s_trie = length_lib, enc_account = (\<lambda>_. [7]),
     dec_account = (\<lambda>b. if b = [7] then Some sample_account else None),
     enc_u256 = be_bytes \<circ> unat, dec_u256 = (\<lambda>b. Some (of_nat (be_val b))), KECCAK256_EMPTY = 9\<rparr>"

definition account_tree :: ptrie where
  "account_tree = PLeaf False (unpack length_lib 20) [7]"

definition account_db :: db where
  "account_db = empty_db\<lparr>t_trie_nodes := tbl_insert 36 (penc length_lib account_tree) tbl_empty\<rparr>"

lemma account_tree_length: "length (penc length_lib account_tree) = 36"
proof -
  have pairs: "length (pack_pairs ns) = length ns div 2" for ns by (induction ns rule: pack_pairs.induct) simp_all
  have "length (unpack length_lib 20) = 64" using length_lib_ok by (simp add: lib_ok_def)
  then show ?thesis
    by (simp add: penc_def account_tree_def encoded_lengths leaf_length_def encode_path_def pairs Let_def
        length_lib_def ref_lib_def ref_bytes_def ref_header_def)
qed

lemma account_db_represents:
  "collision_free length_lib {[EMPTY_STRING_CODE], penc length_lib account_tree}"
  "represents length_lib (trie_provider account_db) {[EMPTY_STRING_CODE], penc length_lib account_tree} account_tree (trie_new 36)"
proof -
  have h: "keccak256 length_lib b = of_nat (length b)" for b by (simp add: length_lib_def)
  show "collision_free length_lib {[EMPTY_STRING_CODE], penc length_lib account_tree}"
    using account_tree_length by (auto simp: collision_free_def inj_on_def h)
  have node: "trie_node x account_db = (if x = 36 then Inr (Some (penc length_lib account_tree)) else Inr None)" for x
    by (simp add: trie_node_def read_tbl_def account_db_def empty_db_def)
  have "nibble_path (unpack length_lib 20)" using length_lib_ok by (simp add: lib_ok_def)
  then show "represents length_lib (trie_provider account_db) {[EMPTY_STRING_CODE], penc length_lib account_tree} account_tree (trie_new 36)"
    using account_tree_length node
    by (auto simp: represents_def account_tree_def encs_simps avail_simps addressed_def trie_new_def trie_provider_def h phash_def
        holds_def split: if_splits)
qed

lemma sample_hash_address: "hash_address sample_state_lib a = 20" "s_trie sample_state_lib = length_lib"
  by (simp_all add: hash_address_def sample_state_lib_def length_lib_def be_fixed_def)

theorem historical_account_equiv_witness:
  "account 194 sample_state_lib account_db 5 (Some 36) = Inr (Some sample_account)"
proof -
  have ns: "nibble_path (unpack length_lib 20)" "length (unpack length_lib 20) = 64"
    using length_lib_ok by (simp_all add: lib_ok_def)
  have g: "fst (trie_get 194 length_lib (trie_provider account_db) 20 (trie_new 36)) = Inr (Some [7])"
    using get_represents [OF length_lib_ok account_db_represents ns(1), of 194] ns(2) by (simp add: trie_get_def account_tree_def)
  have "\<exists>b. fst (trie_get 194 length_lib (trie_provider account_db) 20 (trie_new 36)) = Inr b \<and>
      account 194 sample_state_lib account_db 5 (Some 36) = Inr (Option.bind b (dec_account sample_state_lib))"
    using historical_account_equiv [of sample_state_lib _ account_db account_tree 36 194 5] length_lib_ok account_db_represents g
    unfolding sample_hash_address by (auto simp: sample_state_lib_def)
  with g show ?thesis by (auto simp: sample_state_lib_def)
qed

theorem iterate_trie_exact_witness:
  "\<exists>es. iterate_trie 1 length_lib account_db 36 = Inr es \<and> (20, [7]) \<in> set es"
proof -
  have ns: "nibble_path (unpack length_lib 20)" "length (unpack length_lib 20) = 64"
    using length_lib_ok by (simp_all add: lib_ok_def)
  have "fst (trie_get 194 length_lib (trie_provider account_db) 20 (trie_new 36)) = Inr (Some [7])"
    using get_represents [OF length_lib_ok account_db_represents ns(1), of 194] ns(2) by (simp add: trie_get_def account_tree_def)
  moreover have "psize account_tree \<le> 1" by (simp add: account_tree_def)
  ultimately show ?thesis
    using iterate_trie_exact [OF length_lib_ok account_db_represents, of 1 194] by auto
qed

end
