(* ===== verification/BatchState.thy ===== *)
theory BatchState
  imports StateRead StorageWrite "HOL-Library.Product_Lexorder"
begin

section \<open>State writes of a batch\<close>

text \<open>
  The state half of \<open>BatchWriter\<close> in \<^verbatim>\<open>wasix_eth_storage/src/write.rs\<close>: accounts, storage slots, the
  values they had before the batch, and the state root.  A batch is one open write transaction
  (\<open>bw_wtx\<close>) over the committed database (\<open>bw_committed\<close>) with its tracking sets.  The hash sets and
  maps are sets and maps here; the order in which the code iterates over them is the argument
  \<open>hash_order\<close>.  The second part has the state roots of \<open>DatabaseWriteProvider\<close>.
\<close>

record batch =
  bw_wtx :: db
  bw_committed :: db
  bw_base_root :: "b256 option"
  bw_touched :: "address set"
  bw_slots :: "(address \<times> b256) \<rightharpoonup> u256"
  bw_reset :: "address set"
  bw_old_accounts :: "address \<rightharpoonup> trie_account option"
  bw_old_slots :: "(address \<times> b256) \<rightharpoonup> u256"

type_synonym 'a batch_act = "(batch, state_error, 'a) act"

record hash_order =
  it_address :: "address set \<Rightarrow> address list"
  it_slot :: "(address \<times> b256) set \<Rightarrow> (address \<times> b256) list"
  it_word :: "b256 set \<Rightarrow> b256 list"

definition order_ok :: "hash_order \<Rightarrow> bool" where
  "order_ok ord \<longleftrightarrow> (\<forall>X. finite X \<longrightarrow> set (it_address ord X) = X \<and> distinct (it_address ord X)) \<and>
     (\<forall>X. finite X \<longrightarrow> set (it_slot ord X) = X \<and> distinct (it_slot ord X)) \<and>
     (\<forall>X. finite X \<longrightarrow> set (it_word ord X) = X \<and> distinct (it_word ord X))"

definition new_batch :: "db \<Rightarrow> batch" where
  "new_batch d = \<lparr>bw_wtx = d, bw_committed = d, bw_base_root = None, bw_touched = {}, bw_slots = Map.empty,
     bw_reset = {}, bw_old_accounts = Map.empty, bw_old_slots = Map.empty\<rparr>"

definition set_base_state_root :: "b256 \<Rightarrow> batch \<Rightarrow> batch" where
  "set_base_state_root root b = b\<lparr>bw_base_root := Some root\<rparr>"

definition on_wtx :: "'a wtx \<Rightarrow> 'a batch_act" where
  "on_wtx m b = (case m (bw_wtx b) of (r, d) \<Rightarrow> (of_store r, b\<lparr>bw_wtx := d\<rparr>))"

definition collect_account_changes :: "state_lib \<Rightarrow> hash_order \<Rightarrow> batch \<Rightarrow> (address \<times> bytes option) list" where
  "collect_account_changes sl ord b =
     map (\<lambda>a. (a, map_option (enc_account sl) (the (bw_old_accounts b a)))) (it_address ord (dom (bw_old_accounts b)))"

definition collect_storage_changes :: "hash_order \<Rightarrow> batch \<Rightarrow> (address \<times> b256 \<times> u256) list" where
  "collect_storage_changes ord b =
     map (\<lambda>(a, s). (a, s, the (bw_old_slots b (a, s)))) (it_slot ord (dom (bw_old_slots b)))"

definition batch_clear_tracking :: "batch \<Rightarrow> batch" where
  "batch_clear_tracking b = b\<lparr>bw_touched := {}, bw_slots := Map.empty, bw_reset := {},
     bw_old_accounts := Map.empty, bw_old_slots := Map.empty\<rparr>"

definition mark_account_touched :: "address \<Rightarrow> batch \<Rightarrow> batch" where
  "mark_account_touched addr b = b\<lparr>bw_touched := insert addr (bw_touched b)\<rparr>"

subsection \<open>Reads\<close>

definition overlay :: "storage_error + 'a option \<Rightarrow> storage_error + 'a option \<Rightarrow> storage_error + 'a option" where
  "overlay own committed = rbind own (\<lambda>v. case v of Some x \<Rightarrow> Inr (Some x) | None \<Rightarrow> committed)"

definition batch_bytecode :: "b256 \<Rightarrow> batch \<Rightarrow> storage_error + bytes option" where
  "batch_bytecode h b = overlay (bytecode h (bw_wtx b)) (bytecode h (bw_committed b))"

definition batch_plain_state :: "address \<Rightarrow> batch \<Rightarrow> storage_error + bytes option" where
  "batch_plain_state a b = overlay (plain_state a (bw_wtx b)) (plain_state a (bw_committed b))"

definition batch_hashed_state :: "b256 \<Rightarrow> batch \<Rightarrow> storage_error + bytes option" where
  "batch_hashed_state h b = overlay (hashed_state h (bw_wtx b)) (hashed_state h (bw_committed b))"

definition batch_trie_node :: "b256 \<Rightarrow> batch \<Rightarrow> storage_error + bytes option" where
  "batch_trie_node h b = overlay (trie_node h (bw_wtx b)) (trie_node h (bw_committed b))"

definition batch_provider :: "batch \<Rightarrow> provider" where
  "batch_provider b h = (case batch_trie_node h b of Inl e \<Rightarrow> Inl ProviderError | Inr v \<Rightarrow> Inr v)"

definition batch_account :: "nat \<Rightarrow> state_lib \<Rightarrow> address \<Rightarrow> b256 option \<Rightarrow> batch \<Rightarrow> state_error + trie_account option" where
  "batch_account k sl addr state_root b =
     (if addr \<in> bw_touched b then of_store (latest_account addr (bw_wtx b))
      else case or_else state_root (bw_base_root b) of
        Some root \<Rightarrow>
          if root = EMPTY_ROOT_HASH (s_trie sl) then Inr None
          else rbind (of_trie (fst (get_nibbles k (s_trie sl) (batch_provider b)
                   (unpack (s_trie sl) (hash_address sl addr)) (trie_new root)))) (\<lambda>v. case v of
              None \<Rightarrow> Inr None
            | Some bytes \<Rightarrow> rbind (ok_or (dec_account sl bytes) AccountDecode) (\<lambda>a. Inr (Some a)))
      | None \<Rightarrow> account k sl (bw_committed b) addr None)"

definition batch_accounts :: "batch \<Rightarrow> storage_error + (address \<times> trie_account) list" where
  "batch_accounts b = accounts (bw_wtx b)"

definition batch_addresses :: "hash_order \<Rightarrow> batch \<Rightarrow> storage_error + address list" where
  "batch_addresses ord b =
     rbind (addresses (bw_committed b)) (\<lambda>as. rbind (addresses (bw_wtx b)) (\<lambda>bs.
       Inr (it_address ord (set as \<union> set bs))))"

definition batch_transaction_count :: "nat \<Rightarrow> state_lib \<Rightarrow> address \<Rightarrow> b256 option \<Rightarrow> batch \<Rightarrow> state_error + u64" where
  "batch_transaction_count k sl addr state_root b =
     rbind (batch_account k sl addr state_root b) (\<lambda>a. Inr (case a of None \<Rightarrow> 0 | Some x \<Rightarrow> acc_nonce x))"

definition batch_storage :: "nat \<Rightarrow> state_lib \<Rightarrow> address \<Rightarrow> b256 \<Rightarrow> b256 option \<Rightarrow> batch \<Rightarrow> state_error + u256" where
  "batch_storage k sl addr slot state_root b =
     (case bw_slots b (addr, slot) of
        Some v \<Rightarrow> Inr v
      | None \<Rightarrow>
          if addr \<in> bw_reset b then Inr 0
          else case or_else state_root (bw_base_root b) of
            Some root \<Rightarrow>
              if root = EMPTY_ROOT_HASH (s_trie sl) then Inr 0
              else rbind (batch_account k sl addr (Some root) b) (\<lambda>a. case a of
                  None \<Rightarrow> Inr 0
                | Some acc \<Rightarrow> if acc_storage_root acc = EMPTY_ROOT_HASH (s_trie sl) then Inr 0
                    else trie_value k sl (batch_provider b) (acc_storage_root acc) slot)
          | None \<Rightarrow> storage k sl (bw_committed b) addr slot None)"

definition batch_account_storages :: "nat \<Rightarrow> state_lib \<Rightarrow> address \<Rightarrow> b256 option \<Rightarrow> batch \<Rightarrow> state_error + (b256 \<times> u256) list" where
  "batch_account_storages k sl addr state_root b =
     rbind (account_storages k sl (bw_committed b) addr state_root) (\<lambda>old.
     rbind (of_store (latest_account_storages addr (bw_wtx b))) (\<lambda>new.
       Inr (fold (\<lambda>(s, v). AList.update s v) (old @ new) [])))"

subsection \<open>Writes\<close>

definition remember_account :: "nat \<Rightarrow> state_lib \<Rightarrow> address \<Rightarrow> unit batch_act" where
  "remember_account k sl addr b =
     (if bw_old_accounts b addr \<noteq> None then (Inr (), b)
      else case batch_account k sl addr None b of
          Inl e \<Rightarrow> (Inl e, b)
        | Inr old \<Rightarrow> (Inr (), b\<lparr>bw_old_accounts := (bw_old_accounts b)(addr \<mapsto> old)\<rparr>))"

definition touch :: "address \<Rightarrow> unit batch_act" where
  "touch addr b = (Inr (), mark_account_touched addr b)"

definition batch_update_account :: "nat \<Rightarrow> state_lib \<Rightarrow> address \<Rightarrow> trie_account \<Rightarrow> unit batch_act" where
  "batch_update_account k sl addr acc =
     sseq (remember_account k sl addr)
    (sseq (on_wtx (wtx_upd TAccounts t_accounts_update (tbl_insert addr acc)))
          (touch addr))"

definition batch_remove_account :: "nat \<Rightarrow> state_lib \<Rightarrow> address \<Rightarrow> unit batch_act" where
  "batch_remove_account k sl addr =
     sseq (remember_account k sl addr)
    (sseq (on_wtx (wtx_upd TAccounts t_accounts_update (tbl_remove addr)))
          (touch addr))"

definition remember_slot :: "nat \<Rightarrow> state_lib \<Rightarrow> address \<Rightarrow> b256 \<Rightarrow> unit batch_act" where
  "remember_slot k sl addr slot b =
     (if bw_old_slots b (addr, slot) \<noteq> None then (Inr (), b)
      else case batch_storage k sl addr slot None b of
          Inl e \<Rightarrow> (Inl e, b)
        | Inr old \<Rightarrow> (Inr (), b\<lparr>bw_old_slots := (bw_old_slots b)((addr, slot) \<mapsto> old)\<rparr>))"

definition empty_account :: "state_lib \<Rightarrow> trie_account" where
  "empty_account sl = \<lparr>acc_nonce = 0, acc_balance = 0, acc_storage_root = EMPTY_ROOT_HASH (s_trie sl),
     acc_code_hash = KECCAK256_EMPTY sl\<rparr>"

definition ensure_touched :: "nat \<Rightarrow> state_lib \<Rightarrow> address \<Rightarrow> unit batch_act" where
  "ensure_touched k sl addr b =
     (if addr \<in> bw_touched b then (Inr (), b)
      else sbind (reads (batch_account k sl addr None))
        (\<lambda>acc. batch_update_account k sl addr (unwrap_or acc (empty_account sl))) b)"

definition batch_update_storage :: "nat \<Rightarrow> state_lib \<Rightarrow> address \<Rightarrow> b256 \<Rightarrow> u256 \<Rightarrow> unit batch_act" where
  "batch_update_storage k sl addr slot v =
     sseq (remember_slot k sl addr slot)
    (sseq (on_wtx (wtx_upd TStorages t_storages_update
             (if v = 0 then tbl_remove (addr, slot) else tbl_insert (addr, slot) v)))
    (sseq (\<lambda>b. (Inr (), b\<lparr>bw_slots := (bw_slots b)((addr, slot) \<mapsto> v)\<rparr>))
          (ensure_touched k sl addr)))"

definition batch_reset_storage :: "address \<Rightarrow> unit batch_act" where
  "batch_reset_storage addr b = (Inr (), b\<lparr>bw_reset := insert addr (bw_reset b)\<rparr>)"

definition batch_update_plain_state :: "address \<Rightarrow> bytes \<Rightarrow> unit batch_act" where
  "batch_update_plain_state addr st =
     sseq (on_wtx (wtx_upd TPlainState t_plain_state_update (tbl_insert addr st))) (touch addr)"

definition batch_remove_plain_state :: "address \<Rightarrow> unit batch_act" where
  "batch_remove_plain_state addr =
     sseq (on_wtx (wtx_upd TPlainState t_plain_state_update (tbl_remove addr))) (touch addr)"

subsection \<open>The storage root and the state root of a batch\<close>

text \<open>A trie over the batch reads its nodes through the batch as it is at the moment of each call.\<close>

type_synonym 'a trie_batch_act = "(batch \<times> trie, state_error, 'a) act"

definition on_trie :: "(provider \<Rightarrow> 'a trie_act) \<Rightarrow> 'a trie_batch_act" where
  "on_trie f = (\<lambda>(b, t). case f (batch_provider b) t of (r, t') \<Rightarrow> (of_trie r, (b, t')))"

definition on_batch :: "'a batch_act \<Rightarrow> 'a trie_batch_act" where
  "on_batch m = (\<lambda>(b, t). case m b of (r, b') \<Rightarrow> (r, (b', t)))"

definition combined_key :: "state_lib \<Rightarrow> address \<Rightarrow> b256 \<Rightarrow> b256" where
  "combined_key sl addr hashed_slot =
     keccak256 (s_trie sl) (be_fixed 32 (unat (hash_address sl addr)) @ be_fixed 32 (unat hashed_slot))"

definition slot_step :: "nat \<Rightarrow> state_lib \<Rightarrow> address \<Rightarrow> b256 option \<Rightarrow> b256 \<Rightarrow> unit trie_batch_act" where
  "slot_step k sl addr state_root slot = (\<lambda>(b, t).
     let hashed_slot = hash_word sl slot; L = s_trie sl in
     case batch_storage k sl addr slot state_root b of
       Inl (TrieFailure e) \<Rightarrow> if is_panic e then (Inl (TrieFailure e), (b, t)) else (Inr (), (b, t))
     | Inl e \<Rightarrow> (Inr (), (b, t))
     | Inr v \<Rightarrow>
         (if v = 0 then
            sseq (on_trie (\<lambda>p. trie_delete k L p hashed_slot))
                 (on_batch (on_wtx (wtx_upd THashedState t_hashed_state_update (tbl_remove (combined_key sl addr hashed_slot)))))
          else
            sseq (on_batch (on_wtx (wtx_upd THashedState t_hashed_state_update
                   (tbl_insert (combined_key sl addr hashed_slot) (be_fixed 32 (unat v))))))
                 (on_trie (\<lambda>p. trie_insert k L p hashed_slot (enc_u256 sl v)))) (b, t))"

definition finish_trie :: "b256 trie_batch_act" where
  "finish_trie = (\<lambda>(b, t).
     case commit (\<lambda>h data. on_wtx (wtx_update_trie_node h data)) t b of
       (Inl e, t', b') \<Rightarrow> (Inl e, (b', t')) | (Inr _, t', b') \<Rightarrow> (Inr (root_hash t), (b', t')))"

definition run_trie :: "b256 \<Rightarrow> 'a trie_batch_act \<Rightarrow> 'a batch_act" where
  "run_trie root m b = (case m (b, trie_new root) of (r, (b', t)) \<Rightarrow> (r, b'))"

definition calculate_storage_root_internal :: "nat \<Rightarrow> state_lib \<Rightarrow> hash_order \<Rightarrow> address \<Rightarrow> b256 option \<Rightarrow> b256 batch_act" where
  "calculate_storage_root_internal k sl ord addr state_root b =
     (let root = or_else state_root (bw_base_root b);
          slots = map snd (filter (\<lambda>x. fst x = addr) (it_slot ord (dom (bw_slots b))))
      in sbind (reads (\<lambda>b. if addr \<in> bw_reset b then Inr (EMPTY_ROOT_HASH (s_trie sl))
                 else rbind (batch_account k sl addr root b) (\<lambda>a.
                   Inr (case a of Some acc \<Rightarrow> acc_storage_root acc | None \<Rightarrow> EMPTY_ROOT_HASH (s_trie sl)))))
           (\<lambda>initial. run_trie initial (sseq (for_each slots (slot_step k sl addr root)) finish_trie)) b)"

definition is_empty_account :: "state_lib \<Rightarrow> trie_account \<Rightarrow> bool" where
  "is_empty_account sl acc \<longleftrightarrow> acc_nonce acc = 0 \<and> acc_balance acc = 0 \<and>
     (acc_code_hash acc = 0 \<or> acc_code_hash acc = KECCAK256_EMPTY sl)"

definition drop_state :: "state_lib \<Rightarrow> address \<Rightarrow> unit batch_act" where
  "drop_state sl addr =
     sseq (on_wtx (wtx_upd TPlainState t_plain_state_update (tbl_remove addr)))
          (on_wtx (wtx_upd THashedState t_hashed_state_update (tbl_remove (hash_address sl addr))))"

definition write_account :: "nat \<Rightarrow> state_lib \<Rightarrow> address \<Rightarrow> trie_account \<Rightarrow> unit trie_batch_act" where
  "write_account k sl addr trie_acc =
     (let rlp = enc_account sl trie_acc; hashed = hash_address sl addr in
      sseq (on_batch (on_wtx (wtx_upd TAccounts t_accounts_update (tbl_insert addr trie_acc))))
     (sseq (on_batch (on_wtx (wtx_upd TPlainState t_plain_state_update (tbl_insert addr rlp))))
     (sseq (on_batch (on_wtx (wtx_upd THashedState t_hashed_state_update (tbl_insert hashed rlp))))
           (on_trie (\<lambda>p. trie_insert k (s_trie sl) p hashed rlp)))))"

definition account_step :: "nat \<Rightarrow> state_lib \<Rightarrow> hash_order \<Rightarrow> bool \<Rightarrow> b256 option \<Rightarrow> address \<Rightarrow> unit trie_batch_act" where
  "account_step k sl ord is_eip161 state_root addr =
     (let L = s_trie sl; hashed = hash_address sl addr in
      sbind (on_batch (reads (batch_account k sl addr state_root))) (\<lambda>a. case a of
        Some acc \<Rightarrow>
          sbind (on_batch (calculate_storage_root_internal k sl ord addr state_root)) (\<lambda>storage_root.
            if is_eip161 \<and> is_empty_account sl acc \<and> storage_root = EMPTY_ROOT_HASH L then
              sseq (on_trie (\<lambda>p. trie_delete k L p hashed))
             (sseq (on_batch (on_wtx (wtx_upd TAccounts t_accounts_update (tbl_remove addr))))
                   (on_batch (drop_state sl addr)))
            else write_account k sl addr (acc\<lparr>acc_storage_root := storage_root,
              acc_code_hash := normal_code sl (acc_code_hash acc)\<rparr>))
      | None \<Rightarrow>
          sseq (on_trie (\<lambda>p. trie_delete k L p hashed))
               (on_batch (drop_state sl addr))))"

definition initial_root :: "state_lib \<Rightarrow> b256 option \<Rightarrow> db \<Rightarrow> b256" where
  "initial_root sl state_root d = (case state_root of Some r \<Rightarrow> r
     | None \<Rightarrow> (case ok_flat (header (IdNumber Latest) d) of
         Some h \<Rightarrow> h_state_root h | None \<Rightarrow> EMPTY_ROOT_HASH (s_trie sl)))"

definition calculate_state_root_internal :: "nat \<Rightarrow> state_lib \<Rightarrow> hash_order \<Rightarrow> bool \<Rightarrow> b256 option \<Rightarrow> b256 batch_act" where
  "calculate_state_root_internal k sl ord is_eip161 state_root b =
     (let root = or_else state_root (bw_base_root b)
      in run_trie (initial_root sl root (bw_committed b))
           (sseq (for_each (it_address ord (bw_touched b)) (account_step k sl ord is_eip161 root)) finish_trie) b)"

subsection \<open>The roots of the write provider\<close>

type_synonym 'a trie_store_act = "(store \<times> trie, state_error, 'a) act"

definition with_trie :: "(provider \<Rightarrow> 'a trie_act) \<Rightarrow> 'a trie_store_act" where
  "with_trie f = (\<lambda>(s, t). case f (trie_provider (s_db s)) t of (r, t') \<Rightarrow> (of_trie r, (s, t')))"

definition with_store :: "'a wr \<Rightarrow> 'a trie_store_act" where
  "with_store m = (\<lambda>(s, t). case m s of (r, s') \<Rightarrow> (of_store r, (s', t)))"

definition store_finish :: "b256 trie_store_act" where
  "store_finish = (\<lambda>(s, t). case commit update_trie_node t s of
     (Inl e, t', s') \<Rightarrow> (Inl (StoreFailure e), (s', t')) | (Inr _, t', s') \<Rightarrow> (Inr (root_hash t), (s', t')))"

definition store_slot_step :: "nat \<Rightarrow> state_lib \<Rightarrow> address \<Rightarrow> b256 option \<Rightarrow> b256 \<Rightarrow> unit trie_store_act" where
  "store_slot_step k sl addr state_root slot = (\<lambda>(s, t).
     let hashed_slot = hash_word sl slot; L = s_trie sl in
     case storage k sl (s_db s) addr slot state_root of
       Inl (TrieFailure e) \<Rightarrow> if is_panic e then (Inl (TrieFailure e), (s, t)) else (Inr (), (s, t))
     | Inl e \<Rightarrow> (Inr (), (s, t))
     | Inr v \<Rightarrow>
         with_trie (\<lambda>p. if v = 0 then trie_delete k L p hashed_slot
                        else trie_insert k L p hashed_slot (enc_u256 sl v)) (s, t))"

definition calculate_storage_root_store :: "nat \<Rightarrow> state_lib \<Rightarrow> hash_order \<Rightarrow> address \<Rightarrow> b256 option \<Rightarrow>
    (store, state_error, b256) act" where
  "calculate_storage_root_store k sl ord addr state_root s =
     (case account k sl (s_db s) addr None of
        Inl e \<Rightarrow> (Inl e, s)
      | Inr a \<Rightarrow>
          let initial = (case a of Some acc \<Rightarrow> acc_storage_root acc | None \<Rightarrow> EMPTY_ROOT_HASH (s_trie sl));
              slots = (case touched_storages s addr of Some X \<Rightarrow> it_word ord X | None \<Rightarrow> [])
          in case sseq (for_each slots (store_slot_step k sl addr state_root)) store_finish (s, trie_new initial) of
               (r, (s', t)) \<Rightarrow> (r, s'))"

definition store_account_step :: "nat \<Rightarrow> state_lib \<Rightarrow> hash_order \<Rightarrow> bool \<Rightarrow> b256 option \<Rightarrow> address \<Rightarrow> unit trie_store_act" where
  "store_account_step k sl ord is_eip161 state_root addr = (\<lambda>(s, t).
     let L = s_trie sl; hashed = hash_address sl addr in
     case account k sl (s_db s) addr None of
       Inl e \<Rightarrow> (Inl e, (s, t))
     | Inr (Some acc) \<Rightarrow>
         (case calculate_storage_root_store k sl ord addr state_root s of
            (Inl e, s') \<Rightarrow> (Inl e, (s', t))
          | (Inr storage_root, s') \<Rightarrow>
              (if is_eip161 \<and> is_empty_account sl acc \<and> storage_root = EMPTY_ROOT_HASH L then
                 sseq (with_trie (\<lambda>p. trie_delete k L p hashed))
                      (with_store (with_write (wtx_upd TAccounts t_accounts_update (tbl_remove addr))))
               else
                 let trie_acc = acc\<lparr>acc_storage_root := storage_root, acc_code_hash := normal_code sl (acc_code_hash acc)\<rparr> in
                 sseq (with_store (with_write (wtx_upd TAccounts t_accounts_update (tbl_insert addr trie_acc))))
                      (with_trie (\<lambda>p. trie_insert k L p hashed (enc_account sl trie_acc)))) (s', t))
     | Inr None \<Rightarrow> with_trie (\<lambda>p. trie_delete k L p hashed) (s, t))"

definition calculate_state_root_store :: "nat \<Rightarrow> state_lib \<Rightarrow> hash_order \<Rightarrow> bool \<Rightarrow> b256 option \<Rightarrow>
    (store, state_error, b256) act" where
  "calculate_state_root_store k sl ord is_eip161 state_root s =
     (case sseq (for_each (it_address ord (touched_accounts s)) (store_account_step k sl ord is_eip161 state_root))
        store_finish (s, trie_new (initial_root sl state_root (s_db s))) of (r, (s', t)) \<Rightarrow> (r, s'))"

end
