(* ===== verification/BatchRun.thy ===== *)
theory BatchRun imports BatchState begin

text \<open>What the writes of a batch change, and the change sets a run of writes leaves behind: they are what a
  reorganisation later applies to undo the block.\<close>

subsection \<open>What a write changes\<close>

lemma on_wtx_upd [simp]:
  "on_wtx (wtx_upd T upd f) b = (Inr u, b') \<longleftrightarrow> db_opens (bw_wtx b) T \<and> b' = b\<lparr>bw_wtx := upd f (bw_wtx b)\<rparr>"
  by (auto simp: on_wtx_def wtx_upd_def sseq_def sbind_def open_table_def)

lemma remember_account_Inr:
  "remember_account k sl addr b = (Inr u, b') \<longleftrightarrow> bw_old_accounts b addr \<noteq> None \<and> b' = b \<or>
     bw_old_accounts b addr = None \<and> (\<exists>old. batch_account k sl addr None b = Inr old \<and>
       b' = b\<lparr>bw_old_accounts := (bw_old_accounts b)(addr \<mapsto> old)\<rparr>)"
  by (auto simp: remember_account_def split: sum.splits)

lemma remember_slot_Inr:
  "remember_slot k sl addr slot b = (Inr u, b') \<longleftrightarrow> bw_old_slots b (addr, slot) \<noteq> None \<and> b' = b \<or>
     bw_old_slots b (addr, slot) = None \<and> (\<exists>old. batch_storage k sl addr slot None b = Inr old \<and>
       b' = b\<lparr>bw_old_slots := (bw_old_slots b)((addr, slot) \<mapsto> old)\<rparr>)"
  by (auto simp: remember_slot_def split: sum.splits)

text \<open>Reads depend on the node table, the tracking sets and the table row they read.\<close>

lemma provider_cong:
  "t_trie_nodes (bw_wtx b') = t_trie_nodes (bw_wtx b) \<Longrightarrow> db_opens (bw_wtx b') = db_opens (bw_wtx b) \<Longrightarrow>
    bw_committed b' = bw_committed b \<Longrightarrow> batch_provider b' = batch_provider b"
  by (simp add: batch_provider_def batch_trie_node_def trie_node_def read_tbl_def fun_eq_iff)

definition same_reads :: "batch \<Rightarrow> batch \<Rightarrow> bool" where
  "same_reads b b' \<longleftrightarrow> t_trie_nodes (bw_wtx b') = t_trie_nodes (bw_wtx b) \<and> db_opens (bw_wtx b') = db_opens (bw_wtx b) \<and>
     bw_committed b' = bw_committed b \<and> bw_base_root b' = bw_base_root b"

lemma account_cong:
  assumes "same_reads b b'" and "(a \<in> bw_touched b') = (a \<in> bw_touched b)"
    and "tbl_get (t_accounts (bw_wtx b')) a = tbl_get (t_accounts (bw_wtx b)) a"
  shows "batch_account k sl a r b' = batch_account k sl a r b"
proof -
  have e: "batch_provider b' = batch_provider b" "db_opens (bw_wtx b') = db_opens (bw_wtx b)" "bw_committed b' = bw_committed b"
    "bw_base_root b' = bw_base_root b" using assms(1) provider_cong [of b' b] by (auto simp: same_reads_def)
  show ?thesis unfolding batch_account_def latest_account_def read_tbl_def e assms(2,3) by (rule refl)
qed

lemma batch_account_base: "bw_base_root b = Some root \<Longrightarrow> batch_account k sl a (Some root) b = batch_account k sl a None b"
  by (simp add: batch_account_def)

lemma storage_cong:
  assumes "same_reads b b'" and "bw_slots b' (a, s) = bw_slots b (a, s)" and "(a \<in> bw_reset b') = (a \<in> bw_reset b)"
    and "\<And>root. bw_base_root b = Some root \<Longrightarrow> batch_account k sl a (Some root) b' = batch_account k sl a (Some root) b"
  shows "batch_storage k sl a s None b' = batch_storage k sl a s None b"
proof -
  have e: "batch_provider b' = batch_provider b" "bw_committed b' = bw_committed b" "bw_base_root b' = bw_base_root b"
    using assms(1) provider_cong [of b' b] by (auto simp: same_reads_def)
  show ?thesis
  proof (cases "bw_base_root b")
    case None
    show ?thesis unfolding batch_storage_def e assms(2,3) None or_else_simps option.case by (rule refl)
  next
    case (Some root)
    show ?thesis unfolding batch_storage_def e assms(2,3) Some or_else_simps option.case assms(4) [OF Some] by (rule refl)
  qed
qed

definition account_row :: "nat \<Rightarrow> state_lib \<Rightarrow> address \<Rightarrow> trie_account option \<Rightarrow> batch \<Rightarrow> batch \<Rightarrow> bool" where
  "account_row k sl addr v b b' \<longleftrightarrow> same_reads b b' \<and> bw_slots b' = bw_slots b \<and> bw_reset b' = bw_reset b \<and>
     bw_touched b' = insert addr (bw_touched b) \<and> bw_old_slots b' = bw_old_slots b \<and> db_opens (bw_wtx b) TAccounts \<and>
     t_accounts (bw_wtx b') = (case v of Some x \<Rightarrow> tbl_insert addr x | None \<Rightarrow> tbl_remove addr) (t_accounts (bw_wtx b)) \<and>
     (if bw_old_accounts b addr = None
      then \<exists>old. batch_account k sl addr None b = Inr old \<and> bw_old_accounts b' = (bw_old_accounts b)(addr \<mapsto> old)
      else bw_old_accounts b' = bw_old_accounts b)"

lemma update_account_row:
  "batch_update_account k sl addr acc b = (Inr u, b') \<Longrightarrow> account_row k sl addr (Some acc) b b'"
  "batch_remove_account k sl addr b = (Inr u, b') \<Longrightarrow> account_row k sl addr None b b'"
  by (auto simp: batch_update_account_def batch_remove_account_def sseq_Inr_iff remember_account_Inr touch_def
      mark_account_touched_def account_row_def same_reads_def)

lemma account_row_reads:
  assumes "account_row k sl addr v b b'"
  shows "batch_account k sl addr r b' = Inr v" and "a \<noteq> addr \<Longrightarrow> batch_account k sl a r b' = batch_account k sl a r b"
proof -
  have "tbl_get (t_accounts (bw_wtx b')) addr = v" "db_opens (bw_wtx b') TAccounts" "addr \<in> bw_touched b'"
    using assms by (auto simp: account_row_def same_reads_def split: option.splits)
  then show "batch_account k sl addr r b' = Inr v" by (simp add: batch_account_def latest_account_def read_tbl_def)
  show "a \<noteq> addr \<Longrightarrow> batch_account k sl a r b' = batch_account k sl a r b"
    using assms by (intro account_cong) (auto simp: account_row_def split: option.splits)
qed

lemma account_row_storage:
  assumes "account_row k sl addr v b b'"
    and "\<And>root. a = addr \<Longrightarrow> bw_base_root b = Some root \<Longrightarrow> \<exists>old. batch_account k sl addr None b = Inr old \<and>
      (case old of Some o' \<Rightarrow> acc_storage_root o' | None \<Rightarrow> EMPTY_ROOT_HASH (s_trie sl)) =
      (case v of Some o' \<Rightarrow> acc_storage_root o' | None \<Rightarrow> EMPTY_ROOT_HASH (s_trie sl))"
  shows "batch_storage k sl a s None b' = batch_storage k sl a s None b"
proof (cases "a = addr")
  case False
  with account_row_reads(2) [OF assms(1)] assms(1) show ?thesis by (intro storage_cong) (auto simp: account_row_def)
next
  case True
  have p: "batch_provider b' = batch_provider b" "bw_base_root b' = bw_base_root b" "bw_committed b' = bw_committed b"
    "bw_slots b' = bw_slots b" "bw_reset b' = bw_reset b"
    using assms(1) provider_cong [of b' b] by (auto simp: account_row_def same_reads_def)
  show ?thesis
  proof (cases "bw_base_root b")
    case None
    show ?thesis unfolding batch_storage_def p None or_else_simps option.case by (rule refl)
  next
    case (Some root)
    from assms(2) [OF True Some] obtain old where old: "batch_account k sl addr None b = Inr old"
      "(case old of Some o' \<Rightarrow> acc_storage_root o' | None \<Rightarrow> EMPTY_ROOT_HASH (s_trie sl)) =
       (case v of Some o' \<Rightarrow> acc_storage_root o' | None \<Rightarrow> EMPTY_ROOT_HASH (s_trie sl))" by blast
    have "batch_account k sl addr (Some root) b = Inr old" using old(1) batch_account_base [OF Some] by simp
    note a = this account_row_reads(1) [OF assms(1), of "Some root"]
    show ?thesis
      unfolding batch_storage_def p Some or_else_simps option.case True a rbind_simps
      by (cases "bw_slots b (addr, s)"; cases old; cases v) (use old(2) in simp_all)
  qed
qed

lemma ensure_touched_cases:
  assumes "ensure_touched k sl addr b = (Inr u, b')"
  obtains "addr \<in> bw_touched b" "b' = b"
  | old where "batch_account k sl addr None b = Inr old" "account_row k sl addr (Some (unwrap_or old (empty_account sl))) b b'"
proof (cases "addr \<in> bw_touched b")
  case True
  with assms have "b' = b" by (simp add: ensure_touched_def)
  with True show thesis by (rule that(1))
next
  case False
  with assms obtain old where "batch_account k sl addr None b = Inr old"
    "batch_update_account k sl addr (unwrap_or old (empty_account sl)) b = (Inr u, b')"
    by (auto simp: ensure_touched_def sbind_Inr_iff reads_def)
  with that(2) update_account_row(1) show thesis by blast
qed

lemma slot_write_storage:
  assumes "bw_old_slots b' = bw_old_slots b" "same_reads b b'" "bw_slots b' = (bw_slots b)(x \<mapsto> v)" "bw_reset b' = bw_reset b"
    "bw_touched b' = bw_touched b" "t_accounts (bw_wtx b') = t_accounts (bw_wtx b)" "(a, s) \<noteq> x"
  shows "batch_storage k sl a s None b' = batch_storage k sl a s None b"
  using assms account_cong [of b b' a k sl] by (intro storage_cong) auto

text \<open>The three parts of a slot write: the row and the tracking map, then the account when it was untouched.\<close>

lemma update_storage_parts:
  assumes "batch_update_storage k sl addr slot v b = (Inr u, b')"
  obtains b1 where "same_reads b b1" "bw_slots b1 = (bw_slots b)((addr, slot) \<mapsto> v)" "bw_reset b1 = bw_reset b"
    "bw_touched b1 = bw_touched b" "t_accounts (bw_wtx b1) = t_accounts (bw_wtx b)" "bw_old_accounts b1 = bw_old_accounts b"
    "if bw_old_slots b (addr, slot) = None
     then \<exists>old. batch_storage k sl addr slot None b = Inr old \<and> bw_old_slots b1 = (bw_old_slots b)((addr, slot) \<mapsto> old)
     else bw_old_slots b1 = bw_old_slots b"
    "ensure_touched k sl addr b1 = (Inr u, b')"
proof -
  let ?f = "if v = 0 then tbl_remove (addr, slot) else tbl_insert (addr, slot) v"
  from assms obtain m where m: "remember_slot k sl addr slot b = (Inr (), m)" and opens: "db_opens (bw_wtx m) TStorages"
    and e: "ensure_touched k sl addr (m\<lparr>bw_wtx := t_storages_update ?f (bw_wtx m), bw_slots := (bw_slots m)((addr, slot) \<mapsto> v)\<rparr>) = (Inr u, b')"
    unfolding batch_update_storage_def sseq_Inr_iff by auto
  have k: "bw_wtx m = bw_wtx b" "bw_committed m = bw_committed b" "bw_base_root m = bw_base_root b" "bw_slots m = bw_slots b"
    "bw_reset m = bw_reset b" "bw_touched m = bw_touched b" "bw_old_accounts m = bw_old_accounts b"
    using m by (auto simp: remember_slot_Inr)
  have o: "if bw_old_slots b (addr, slot) = None
     then \<exists>old. batch_storage k sl addr slot None b = Inr old \<and> bw_old_slots m = (bw_old_slots b)((addr, slot) \<mapsto> old)
     else bw_old_slots m = bw_old_slots b"
    using m unfolding remember_slot_Inr by auto
  show thesis
    by (rule that [OF _ _ _ _ _ _ _ e]) (simp_all add: same_reads_def k o)
qed

lemma ensure_touched_keeps:
  assumes "ensure_touched k sl addr b = (Inr u, b')"
  shows "batch_storage k sl a s None b' = batch_storage k sl a s None b"
    and "bw_slots b' = bw_slots b" and "bw_old_slots b' = bw_old_slots b"
    and "a \<noteq> addr \<Longrightarrow> batch_account k sl a r b' = batch_account k sl a r b"
proof -
  show "batch_storage k sl a s None b' = batch_storage k sl a s None b"
    using assms
  proof (cases rule: ensure_touched_cases)
    case (2 old)
    show ?thesis by (rule account_row_storage [OF 2(2)]) (use 2(1) in \<open>auto simp: empty_account_def split: option.split\<close>)
  qed simp
  show "bw_slots b' = bw_slots b" "bw_old_slots b' = bw_old_slots b"
    using assms by (cases rule: ensure_touched_cases; simp add: account_row_def)+
  show "a \<noteq> addr \<Longrightarrow> batch_account k sl a r b' = batch_account k sl a r b"
    using assms by (cases rule: ensure_touched_cases) (simp_all add: account_row_reads(2))
qed

text \<open>A batch reads its own slot writes.  After \<open>update_storage\<close> the slot reads as the written value at every
  state root, every other slot and every other account reads as before.\<close>

theorem batch_storage_write:
  assumes "batch_update_storage k sl addr slot v b = (Inr (), b')"
  shows "batch_storage k sl addr slot r b' = Inr v \<and>
    ((a, s) \<noteq> (addr, slot) \<longrightarrow> batch_storage k sl a s None b' = batch_storage k sl a s None b) \<and>
    (a \<noteq> addr \<longrightarrow> batch_account k sl a r b' = batch_account k sl a r b)"
proof -
  from update_storage_parts [OF assms] obtain b1 where b1: "same_reads b b1" "bw_slots b1 = (bw_slots b)((addr, slot) \<mapsto> v)"
    "bw_reset b1 = bw_reset b" "bw_touched b1 = bw_touched b" "t_accounts (bw_wtx b1) = t_accounts (bw_wtx b)"
    "ensure_touched k sl addr b1 = (Inr (), b')" by metis
  note e = ensure_touched_keeps [OF b1(6)]
  have "batch_storage k sl addr slot r b' = Inr v" using e(2) b1(2) by (simp add: batch_storage_def)
  moreover have "batch_storage k sl a s None b1 = batch_storage k sl a s None b" if "(a, s) \<noteq> (addr, slot)"
    using account_cong [OF b1(1)] b1 that by (intro storage_cong [OF b1(1)]) auto
  moreover have "a \<noteq> addr \<longrightarrow> batch_account k sl a r b' = batch_account k sl a r b"
    using e(4) account_cong [OF b1(1)] b1(4,5) by simp
  ultimately show ?thesis using e(1) by simp
qed

subsection \<open>What the computation of a root leaves alone\<close>

text \<open>The roots write the node table and \<open>HashedState\<close>; \<open>off_trie g\<close> says that \<open>g\<close> depends on neither.\<close>

definition off_trie :: "(batch \<Rightarrow> 'c) \<Rightarrow> bool" where
  "off_trie g \<longleftrightarrow> (\<forall>f b. g (b\<lparr>bw_wtx := t_hashed_state_update f (bw_wtx b)\<rparr>) = g b \<and>
     g (b\<lparr>bw_wtx := t_trie_nodes_update f (bw_wtx b)\<rparr>) = g b)"

lemma off_trie_writes:
  assumes "off_trie g"
  shows "frame g (on_wtx (wtx_upd T t_hashed_state_update f))" and "frame g (on_wtx (wtx_upd T t_trie_nodes_update f))"
  using assms by (simp_all add: frame_def on_wtx_def wtx_upd_def sseq_def sbind_def open_table_def off_trie_def)

lemma frame_on_trie: "frame (g \<circ> fst) (on_trie f)"
  by (auto simp: frame_def on_trie_def split: prod.splits)

lemma frame_on_batch: "frame g m \<Longrightarrow> frame (g \<circ> fst) (on_batch m)"
  by (auto simp: frame_def on_batch_def split: prod.splits) (metis snd_conv)

lemma frame_run_trie: "frame (g \<circ> fst) m \<Longrightarrow> frame g (run_trie root m)"
  by (auto simp: frame_def run_trie_def split: prod.splits) (metis fst_conv snd_conv comp_apply)

lemma slot_step_frame:
  assumes "off_trie g"
  shows "frame (g \<circ> fst) (slot_step k sl addr root slot)"
proof -
  have *: "frame (g \<circ> fst) (if v = 0 then
            sseq (on_trie (\<lambda>p. trie_delete k (s_trie sl) p (hash_word sl slot)))
                 (on_batch (on_wtx (wtx_upd THashedState t_hashed_state_update (tbl_remove (combined_key sl addr (hash_word sl slot))))))
          else
            sseq (on_batch (on_wtx (wtx_upd THashedState t_hashed_state_update
                   (tbl_insert (combined_key sl addr (hash_word sl slot)) (be_fixed 32 (unat v))))))
                 (on_trie (\<lambda>p. trie_insert k (s_trie sl) p (hash_word sl slot) (enc_u256 sl v))))" for v
    by (auto intro!: frame_sseq frame_on_trie frame_on_batch off_trie_writes assms)
  show ?thesis
    using * by (auto simp: frame_def slot_step_def Let_def split: sum.splits state_error.splits)
qed

lemma finish_frame:
  assumes "off_trie g"
  shows "frame (g \<circ> fst) finish_trie"
proof -
  have f: "frame g (for_each xs (\<lambda>(hash, data). on_wtx (wtx_update_trie_node hash data)))" for xs
    by (auto intro!: frame_for_each off_trie_writes assms simp: wtx_update_trie_node_def)
  have "g b' = g b"
    if "commit (\<lambda>h data. on_wtx (wtx_update_trie_node h data)) t b = (r, t', b')" for t b r t' b'
    using that frameD [OF f] by (auto simp: commit_def split: prod.splits)
  then show ?thesis
    by (auto simp: frame_def finish_trie_def split: prod.splits sum.splits)
qed

lemma storage_root_frame:
  assumes "off_trie g"
  shows "frame g (calculate_storage_root_internal k sl ord addr root)"
proof -
  have "frame g (sbind (reads h)
      (\<lambda>initial. run_trie initial (sseq (for_each xs (slot_step k sl addr r)) finish_trie)))" for h xs r
    by (intro frame_sbind frame_basic frame_run_trie frame_sseq frame_for_each slot_step_frame finish_frame assms)
  then show ?thesis unfolding frame_def calculate_storage_root_internal_def Let_def by blast
qed

text \<open>What a reset leaves behind: the batch reads zero, but nothing is recorded for undoing it and the row stays.\<close>

lemma reset_storage_unrecorded:
  assumes "bw_slots b (addr, slot) = None" and "batch_reset_storage addr b = (Inr (), b')"
  shows "batch_storage k sl addr slot r b' = Inr 0" and "collect_storage_changes ord b' = collect_storage_changes ord b"
    and "latest_storage addr slot (bw_wtx b') = latest_storage addr slot (bw_wtx b)"
  using assms by (auto simp: batch_reset_storage_def batch_storage_def collect_storage_changes_def)

subsection \<open>A batch on an empty database\<close>

definition sorted_order :: hash_order where
  "sorted_order = \<lparr>it_address = sorted_list_of_set, it_slot = sorted_list_of_set, it_word = sorted_list_of_set\<rparr>"

lemma sorted_order_ok: "order_ok sorted_order"
  by (simp add: order_ok_def sorted_order_def)

definition written_batch :: batch where
  "written_batch = snd (batch_update_storage 1 sample_state_lib 5 7 9 (new_batch empty_db))"

lemma empty_batch_reads:
  "batch_storage k sl a s None (new_batch empty_db) = Inr 0" "batch_account k sl a None (new_batch empty_db) = Inr None"
  by (simp_all add: new_batch_def batch_storage_def batch_account_def storage_def account_def latest_storage_def latest_account_def
      read_tbl_def empty_db_def)

lemma written_batch_run: "batch_update_storage 1 sample_state_lib 5 7 9 (new_batch empty_db) = (Inr (), written_batch)"
proof -
  have "fst (batch_update_storage 1 sample_state_lib 5 7 9 (new_batch empty_db)) = Inr ()"
    by (simp add: batch_update_storage_def remember_slot_def batch_storage_def storage_def latest_storage_def new_batch_def on_wtx_def
        wtx_upd_def open_table_def empty_db_def ensure_touched_def batch_account_def account_def latest_account_def read_tbl_def
        batch_update_account_def remember_account_def touch_def sseq_def sbind_def reads_def)
  then show ?thesis unfolding written_batch_def by (metis prod.collapse)
qed

theorem batch_storage_write_witness:
  "batch_storage 1 sample_state_lib 5 7 None written_batch = Inr 9 \<and> batch_storage 1 sample_state_lib 5 8 None written_batch = Inr 0"
  using batch_storage_write [OF written_batch_run, of None 5 8] empty_batch_reads(1) by simp

lemma written_batch_old: "bw_old_slots written_batch = [(5, 7) \<mapsto> 0]" "bw_old_accounts written_batch = [5 \<mapsto> None]"
  by (simp_all add: written_batch_def batch_update_storage_def remember_slot_def batch_storage_def storage_def latest_storage_def
      new_batch_def on_wtx_def wtx_upd_def open_table_def empty_db_def ensure_touched_def batch_account_def account_def
      latest_account_def read_tbl_def batch_update_account_def remember_account_def touch_def mark_account_touched_def
      sseq_def sbind_def reads_def)

lemma written_batch_touched: "bw_touched written_batch = {5}"
  by (simp add: written_batch_def batch_update_storage_def remember_slot_def batch_storage_def storage_def latest_storage_def
      new_batch_def on_wtx_def wtx_upd_def open_table_def empty_db_def ensure_touched_def batch_account_def account_def
      latest_account_def read_tbl_def batch_update_account_def remember_account_def touch_def mark_account_touched_def
      sseq_def sbind_def reads_def)

end
