(* ===== verification/ExecState.thy ===== *)
theory ExecState
  imports BatchRun Consensus
begin

section \<open>Execution: environment, backend, state changes\<close>

text \<open>
  \<^verbatim>\<open>wasix_eth_execution/src/config.rs\<close> (the environment of a block),
  \<^verbatim>\<open>backend.rs\<close> (\<open>SputnikBackend\<close>, the state as the interpreter reads it),
  \<^verbatim>\<open>state.rs\<close> (\<open>StateApplier\<close>, which writes the changes of a transaction) and
  \<^verbatim>\<open>block.rs\<close> (\<open>BlockProcessor\<close>, the changes outside transactions).  The interpreter
  itself is the \<^verbatim>\<open>evm\<close> crate; its change set is the record \<open>changeset\<close>, whose lists
  are the ordered maps and sets of that crate in iteration order.  All state goes through the batch
  of \<open>BatchState\<close>.
\<close>

subsection \<open>Environment of a block\<close>

datatype evm_config = CfgFrontier | CfgHomestead | CfgTangerineWhistle | CfgSpuriousDragon
  | CfgByzantium | CfgPetersburg | CfgIstanbul | CfgBerlin | CfgLondon | CfgShanghai | CfgCancun | CfgPrague

fun config_of_fork :: "hardfork \<Rightarrow> evm_config" where
  "config_of_fork Prague = CfgPrague"
| "config_of_fork Cancun = CfgCancun"
| "config_of_fork Shanghai = CfgShanghai"
| "config_of_fork Paris = CfgShanghai"
| "config_of_fork GrayGlacier = CfgLondon"
| "config_of_fork ArrowGlacier = CfgLondon"
| "config_of_fork London = CfgLondon"
| "config_of_fork Berlin = CfgBerlin"
| "config_of_fork MuirGlacier = CfgIstanbul"
| "config_of_fork Istanbul = CfgIstanbul"
| "config_of_fork Petersburg = CfgPetersburg"
| "config_of_fork Constantinople = CfgPetersburg"
| "config_of_fork Byzantium = CfgByzantium"
| "config_of_fork SpuriousDragon = CfgSpuriousDragon"
| "config_of_fork TangerineWhistle = CfgTangerineWhistle"
| "config_of_fork Homestead = CfgHomestead"
| "config_of_fork Frontier = CfgFrontier"

definition get_evm_config :: "chain_config \<Rightarrow> u64 \<Rightarrow> u64 \<Rightarrow> u256 option \<Rightarrow> evm_config" where
  "get_evm_config c number timestamp td =
     config_of_fork (get_active_fork_with_total_difficulty c number timestamp td)"

record evm_env =
  env_block_hashes :: "u256 \<rightharpoonup> b256"
  env_block_number :: u256
  env_block_timestamp :: u256
  env_block_gas_limit :: u256
  env_block_coinbase :: address
  env_block_difficulty :: u256
  env_block_base_fee_per_gas :: u256
  env_block_randomness :: "b256 option"
  env_chain_id :: u256
  env_blob_base_fee_per_gas :: u256
  env_blob_versioned_hashes :: "b256 list"

definition prepare_execution_env ::
  "crypto \<Rightarrow> u64 \<Rightarrow> chain_config \<Rightarrow> header \<Rightarrow> u256 option \<Rightarrow> hardfork \<times> evm_config \<times> evm_env" where
  "prepare_execution_env cr chain_id c hdr td =
     (let fork = get_active_fork_with_total_difficulty c (h_number hdr) (h_timestamp hdr) td;
          config = get_evm_config c (h_number hdr) (h_timestamp hdr) td;
          difficulty = (if fork \<ge> Paris then 0 else h_difficulty hdr);
          randomness = (if fork \<ge> Paris then Some (h_mix_hash hdr) else None);
          blob_price = (case h_excess_blob_gas hdr of None \<Rightarrow> 0
             | Some e \<Rightarrow> (case blob_params_of fork c of
                 Some p \<Rightarrow> calc_blob_gasprice (fake_exponential cr) e (bp_update_fraction p)
               | None \<Rightarrow> calc_blob_gasprice (fake_exponential cr) e (ucast BLOB_GASPRICE_UPDATE_FRACTION)))
      in (fork, config,
          \<lparr>env_block_hashes = Map.empty, env_block_number = ucast (h_number hdr),
           env_block_timestamp = ucast (h_timestamp hdr), env_block_gas_limit = ucast (h_gas_limit hdr),
           env_block_coinbase = h_beneficiary hdr, env_block_difficulty = difficulty,
           env_block_base_fee_per_gas = ucast (unwrap_or (h_base_fee_per_gas hdr) 0),
           env_block_randomness = randomness, env_chain_id = ucast chain_id,
           env_blob_base_fee_per_gas = ucast blob_price, env_blob_versioned_hashes = []\<rparr>))"

text \<open>Intrinsic gas; the loop over the call data counts gas and, for EIP-7623, tokens.\<close>

fun calldata_cost :: "u64 \<Rightarrow> bytes \<Rightarrow> u64 \<times> u64 \<Rightarrow> u64 \<times> u64" where
  "calldata_cost nz [] acc = acc"
| "calldata_cost nz (b # bs) (gas, tokens) =
     calldata_cost nz bs (if b = 0 then (gas + 4, tokens + 1) else (gas + nz, tokens + 4))"

definition creation_gas :: "hardfork \<Rightarrow> tx \<Rightarrow> u64" where
  "creation_gas fork t =
     (if tx_to t = None
      then 32000 + (if fork \<ge> Shanghai then (of_nat (length (tx_input t)) + 31) div 32 * 2 else 0) else 0)"

definition calculate_intrinsic_gas :: "tx \<Rightarrow> hardfork \<Rightarrow> u64" where
  "calculate_intrinsic_gas t fork =
     (let nz = (if fork \<ge> Istanbul then 16 else 68);
          (gas, tokens) = calldata_cost nz (tx_input t) (21000 + creation_gas fork t, 0);
          gas = (case tx_access_list t of None \<Rightarrow> gas
                 | Some al \<Rightarrow> foldl (\<lambda>g item. g + 2400 + of_nat (length (snd item)) * 1900) gas al);
          gas = (if tx_kind t = Eip7702
                 then gas + of_nat (length (unwrap_or (tx_authorization_list t) [])) * 2500 else gas);
          floor_cost = (if tx_to t = None then 53000 + tokens * 10 else 21000 + tokens * 10)
      in if fork \<ge> Prague \<and> gas < floor_cost then floor_cost else gas)"

subsection \<open>The backend of the interpreter\<close>

record backend =
  be_env :: evm_env
  be_root :: "b256 option"
  be_transient :: "(address \<times> b256) \<rightharpoonup> b256"
  be_hot_accounts :: "address set"
  be_hot_storage :: "(address \<times> b256) set"
  be_origin :: address

text \<open>A failed read counts as absent; a panic of the trie walk does not.\<close>

definition quiet :: "state_error + 'a option \<Rightarrow> state_error + 'a option" where
  "quiet r = (case r of
       Inl (TrieFailure e) \<Rightarrow> if is_panic e then Inl (TrieFailure e) else Inr None
     | Inl e \<Rightarrow> Inr None
     | Inr v \<Rightarrow> Inr v)"

definition is_account_empty :: "state_lib \<Rightarrow> trie_account \<Rightarrow> bool" where
  "is_account_empty sl acc \<longleftrightarrow>
     acc_nonce acc = 0 \<and> acc_balance acc = 0 \<and> acc_code_hash acc = KECCAK256_EMPTY sl"

definition backend_account :: "nat \<Rightarrow> state_lib \<Rightarrow> backend \<Rightarrow> batch \<Rightarrow> address \<Rightarrow> state_error + trie_account option" where
  "backend_account k sl be b addr = quiet (batch_account k sl addr (be_root be) b)"

definition delegation_target :: "bytes \<Rightarrow> address option" where
  "delegation_target code =
     (if take 3 code = [0xef, 0x01, 0x00] then
        (if length code = 23 then Some (of_nat (be_val (drop 3 code))) else None)
      else None)"

definition check_delegation :: "nat \<Rightarrow> state_lib \<Rightarrow> backend \<Rightarrow> batch \<Rightarrow> address \<Rightarrow> state_error + address option" where
  "check_delegation k sl be b addr =
     rbind (backend_account k sl be b addr) (\<lambda>a. Inr (case a of
         None \<Rightarrow> None
       | Some acc \<Rightarrow>
           if acc_code_hash acc \<noteq> KECCAK256_EMPTY sl
           then (case ok_flat (batch_bytecode (acc_code_hash acc) b) of
                   None \<Rightarrow> None | Some code \<Rightarrow> delegation_target code)
           else None))"

definition backend_balance :: "nat \<Rightarrow> state_lib \<Rightarrow> backend \<Rightarrow> batch \<Rightarrow> address \<Rightarrow> state_error + u256" where
  "backend_balance k sl be b addr =
     rbind (backend_account k sl be b addr) (\<lambda>a. Inr (case a of Some acc \<Rightarrow> acc_balance acc | None \<Rightarrow> 0))"

definition own_code :: "nat \<Rightarrow> state_lib \<Rightarrow> backend \<Rightarrow> batch \<Rightarrow> address \<Rightarrow> state_error + bytes" where
  "own_code k sl be b addr =
     rbind (backend_account k sl be b addr) (\<lambda>a. Inr (case a of
         None \<Rightarrow> []
       | Some acc \<Rightarrow>
           if acc_code_hash acc = 0 \<or> acc_code_hash acc = KECCAK256_EMPTY sl then []
           else unwrap_or (ok_flat (batch_bytecode (acc_code_hash acc) b)) []))"

definition own_storage :: "nat \<Rightarrow> state_lib \<Rightarrow> backend \<Rightarrow> batch \<Rightarrow> b256 \<Rightarrow> address \<Rightarrow> state_error + b256" where
  "own_storage k sl be b slot addr =
     rbind (quiet (rbind (batch_storage k sl addr slot (be_root be) b) (\<lambda>v. Inr (Some v))))
       (\<lambda>v. Inr (unwrap_or v 0))"

text \<open>\<open>code\<close> and \<open>storage\<close> call themselves on the delegation target, without a bound: a call
  that does not return is the value \<open>None\<close>.\<close>

partial_function (option) backend_code ::
  "nat \<Rightarrow> state_lib \<Rightarrow> backend \<Rightarrow> batch \<Rightarrow> address \<Rightarrow> (state_error + bytes) option" where
  "backend_code k sl be b addr =
     (case check_delegation k sl be b addr of
        Inl e \<Rightarrow> Some (Inl e)
      | Inr (Some target) \<Rightarrow> backend_code k sl be b target
      | Inr None \<Rightarrow> Some (own_code k sl be b addr))"

partial_function (option) backend_storage ::
  "nat \<Rightarrow> state_lib \<Rightarrow> backend \<Rightarrow> batch \<Rightarrow> b256 \<Rightarrow> address \<Rightarrow> (state_error + b256) option" where
  "backend_storage k sl be b slot addr =
     (case check_delegation k sl be b addr of
        Inl e \<Rightarrow> Some (Inl e)
      | Inr (Some target) \<Rightarrow> backend_storage k sl be b slot target
      | Inr None \<Rightarrow> Some (own_storage k sl be b slot addr))"

definition backend_exists :: "nat \<Rightarrow> state_lib \<Rightarrow> backend \<Rightarrow> batch \<Rightarrow> address \<Rightarrow> state_error + bool" where
  "backend_exists k sl be b addr =
     rbind (backend_account k sl be b addr) (\<lambda>a. Inr (case a of
         Some acc \<Rightarrow> \<not> is_account_empty sl acc | None \<Rightarrow> False))"

definition backend_nonce :: "nat \<Rightarrow> state_lib \<Rightarrow> backend \<Rightarrow> batch \<Rightarrow> address \<Rightarrow> state_error + u256" where
  "backend_nonce k sl be b addr =
     rbind (check_delegation k sl be b addr) (\<lambda>_.
     rbind (backend_account k sl be b addr) (\<lambda>a. Inr (case a of
         Some acc \<Rightarrow> ucast (acc_nonce acc) | None \<Rightarrow> 0)))"

definition backend_transient_storage :: "backend \<Rightarrow> address \<Rightarrow> b256 \<Rightarrow> b256" where
  "backend_transient_storage be addr slot = unwrap_or (be_transient be (addr, slot)) 0"

definition set_transient_storage :: "address \<Rightarrow> b256 \<Rightarrow> b256 \<Rightarrow> backend \<Rightarrow> backend" where
  "set_transient_storage addr slot v be = be\<lparr>be_transient := (be_transient be)((addr, slot) \<mapsto> v)\<rparr>"

definition is_cold :: "backend \<Rightarrow> address \<Rightarrow> b256 option \<Rightarrow> bool" where
  "is_cold be addr slot = (case slot of
       Some s \<Rightarrow> (addr, s) \<notin> be_hot_storage be | None \<Rightarrow> addr \<notin> be_hot_accounts be)"

definition mark_hot :: "address \<Rightarrow> backend \<Rightarrow> backend" where
  "mark_hot addr be = be\<lparr>be_hot_accounts := insert addr (be_hot_accounts be)\<rparr>"

definition mark_storage_hot :: "address \<Rightarrow> b256 \<Rightarrow> backend \<Rightarrow> backend" where
  "mark_storage_hot addr slot be = be\<lparr>be_hot_storage := insert (addr, slot) (be_hot_storage be)\<rparr>"

definition HISTORY_STORAGE_ADDRESS :: address where
  "HISTORY_STORAGE_ADDRESS = 0x0000F90827F1C53A10CB7A02335B175320002935"

text \<open>\<open>low_u64\<close> keeps the low 64 bits; the sum \<open>target_u64 + 8192\<close> wraps.\<close>

definition backend_block_hash ::
  "nat \<Rightarrow> state_lib \<Rightarrow> backend \<Rightarrow> batch \<Rightarrow> u256 \<Rightarrow> (state_error + b256) option" where
  "backend_block_hash k sl be b number =
     (case env_block_hashes (be_env be) number of
        Some hash \<Rightarrow> Some (Inr hash)
      | None \<Rightarrow>
          let target = (ucast number :: u64); current = (ucast (env_block_number (be_env be)) :: u64)
          in if current > target \<and> current \<le> target + 8192
             then backend_storage k sl be b (ucast (target mod 8192)) HISTORY_STORAGE_ADDRESS
             else Some (Inr 0))"

subsection \<open>Writing the changes of a transaction\<close>

record changeset =
  cs_logs :: "log_entry list"
  cs_balances :: "(address \<times> u256) list"
  cs_nonces :: "(address \<times> u256) list"
  cs_codes :: "(address \<times> bytes) list"
  cs_storage_resets :: "address list"
  cs_storages :: "((address \<times> b256) \<times> b256) list"
  cs_touched :: "address list"
  cs_deletes :: "address list"

datatype exec_error =
    ExecState state_error
  | ExecPanic
  | SignerNotRecovered
  | NonceMismatch u64 u64
  | InvalidChainId
  | MaxFeeTooLow | MaxFeeBelowPriority | MaxBlobFeeTooLow | Eip7702NotSupported | InitcodeTooLarge
  | InsufficientBlobBalance | BlobFeeWithdrawalFailed | FatalEvmError string
  | ParentStateRootNotFound u64 b256
  | BlockBlobGasExceedsLimit u64 u64 | BlockBlobGasMismatch u64 u64
  | ExecGasUsedMismatch u64 u64 | TransactionsRootMismatch b256 b256 | ExecReceiptsRootMismatch b256 b256
  | ExecLogsBloomMismatch | ExecStateRootMismatch b256 b256 | ExecWithdrawalsRootMismatch "b256 option" b256
  | SystemCallNoCode | SystemCallFailed string | MalformedRequests nat

type_synonym 'a exec_act = "(batch, exec_error, 'a) act"

definition lift_state :: "'a batch_act \<Rightarrow> 'a exec_act" where
  "lift_state m b = (case m b of (r, b') \<Rightarrow> (map_sum ExecState id r, b'))"

definition as_u64 :: "u256 \<Rightarrow> exec_error + u64" where
  "as_u64 n = (if unat n < 2 ^ 64 then Inr (ucast n) else Inl ExecPanic)"

definition batch_insert_bytecode :: "b256 \<Rightarrow> bytes \<Rightarrow> unit batch_act" where
  "batch_insert_bytecode hash code = on_wtx (wtx_insert_bytecode hash code)"

definition batch_update_hashed_state :: "b256 \<Rightarrow> bytes \<Rightarrow> unit batch_act" where
  "batch_update_hashed_state hash st = on_wtx (wtx_update_hashed_state hash st)"

definition get_or_materialize_account :: "nat \<Rightarrow> state_lib \<Rightarrow> address \<Rightarrow> b256 option \<Rightarrow> trie_account batch_act" where
  "get_or_materialize_account k sl addr root =
     sbind (reads (batch_account k sl addr root)) (\<lambda>a. ret (unwrap_or a (empty_account sl)))"

text \<open>Writing an account also writes its encoding to \<open>PlainState\<close> and \<open>HashedState\<close>.\<close>

definition sync_account :: "nat \<Rightarrow> state_lib \<Rightarrow> address \<Rightarrow> trie_account \<Rightarrow> unit batch_act" where
  "sync_account k sl addr acc =
     sseq (batch_update_account k sl addr acc)
    (sseq (batch_update_plain_state addr (enc_account sl acc))
          (batch_update_hashed_state (hash_address sl addr) (enc_account sl acc)))"

definition apply_balance :: "nat \<Rightarrow> state_lib \<Rightarrow> b256 option \<Rightarrow> address \<times> u256 \<Rightarrow> unit exec_act" where
  "apply_balance k sl root = (\<lambda>(addr, balance). lift_state
     (sbind (get_or_materialize_account k sl addr root)
        (\<lambda>acc. sync_account k sl addr (acc\<lparr>acc_balance := balance\<rparr>))))"

definition apply_nonce :: "nat \<Rightarrow> state_lib \<Rightarrow> b256 option \<Rightarrow> address \<times> u256 \<Rightarrow> unit exec_act" where
  "apply_nonce k sl root = (\<lambda>(addr, nonce).
     sbind (lift_state (get_or_materialize_account k sl addr root)) (\<lambda>acc.
     sbind (reads (\<lambda>_. as_u64 nonce)) (\<lambda>n.
       lift_state (sync_account k sl addr (acc\<lparr>acc_nonce := n\<rparr>)))))"

definition apply_code :: "nat \<Rightarrow> state_lib \<Rightarrow> b256 option \<Rightarrow> address \<times> bytes \<Rightarrow> unit exec_act" where
  "apply_code k sl root = (\<lambda>(addr, code). lift_state
     (sbind (get_or_materialize_account k sl addr root) (\<lambda>acc.
        let code_hash = keccak256 (s_trie sl) code in
        sseq (batch_insert_bytecode code_hash code)
             (sync_account k sl addr (acc\<lparr>acc_code_hash := code_hash\<rparr>)))))"

definition apply_slot :: "nat \<Rightarrow> state_lib \<Rightarrow> b256 option \<Rightarrow> (address \<times> b256) \<times> b256 \<Rightarrow> unit exec_act" where
  "apply_slot k sl root = (\<lambda>((addr, slot), v). lift_state
     (sbind (reads (\<lambda>b. quiet (rbind (batch_storage k sl addr slot root b) (\<lambda>x. Inr (Some x))))) (\<lambda>_.
      sseq (batch_update_storage k sl addr slot v)
           (batch_update_hashed_state (combined_key sl addr (hash_word sl slot)) (be_fixed 32 (unat v))))))"

definition settle_account :: "nat \<Rightarrow> state_lib \<Rightarrow> hash_order \<Rightarrow> changeset \<Rightarrow> bool \<Rightarrow> b256 option \<Rightarrow> address \<Rightarrow> unit exec_act" where
  "settle_account k sl ord cs eip161 root addr = lift_state
     (if addr \<in> set (cs_deletes cs)
      then sbind (reads (batch_account k sl addr root)) (\<lambda>_. batch_remove_account k sl addr)
      else sbind (reads (batch_account k sl addr root)) (\<lambda>a. case a of
          Some acc \<Rightarrow>
            sbind (calculate_storage_root_internal k sl ord addr root) (\<lambda>new_storage_root.
              let acc' = acc\<lparr>acc_storage_root := new_storage_root,
                             acc_code_hash := normal_code sl (acc_code_hash acc)\<rparr>
              in if eip161 \<and> is_account_empty sl acc'
                 then sseq (batch_remove_account k sl addr) (batch_remove_plain_state addr)
                 else sync_account k sl addr acc')
        | None \<Rightarrow>
            if \<not> is_account_empty sl (empty_account sl) then sync_account k sl addr (empty_account sl)
            else ret ()))"

definition affected_accounts :: "changeset \<Rightarrow> address list" where
  "affected_accounts cs = sorted_list_of_set
     (fst ` set (cs_balances cs) \<union> fst ` set (cs_nonces cs) \<union> fst ` set (cs_codes cs) \<union>
      set (cs_storage_resets cs) \<union> (fst \<circ> fst) ` set (cs_storages cs) \<union>
      set (cs_touched cs) \<union> set (cs_deletes cs))"

definition apply_changeset :: "nat \<Rightarrow> state_lib \<Rightarrow> hash_order \<Rightarrow> changeset \<Rightarrow> bool \<Rightarrow> b256 option \<Rightarrow> unit exec_act" where
  "apply_changeset k sl ord cs eip161 root =
     sseq (for_each (cs_balances cs) (apply_balance k sl root))
    (sseq (for_each (cs_nonces cs) (apply_nonce k sl root))
    (sseq (for_each (cs_codes cs) (apply_code k sl root))
    (sseq (for_each (cs_storage_resets cs) (\<lambda>addr. lift_state (batch_reset_storage addr)))
    (sseq (for_each (cs_storages cs) (apply_slot k sl root))
          (for_each (affected_accounts cs) (settle_account k sl ord cs eip161 root))))))"

subsection \<open>Changes outside transactions\<close>

definition BEACON_ROOTS_ADDRESS :: address where
  "BEACON_ROOTS_ADDRESS = 0x000F3df6D732807Ef1319fB7B8bB8522d0Beac02"

definition WITHDRAWAL_REQUEST_PREDEPLOY_ADDRESS :: address where
  "WITHDRAWAL_REQUEST_PREDEPLOY_ADDRESS = 0x00000961ef480eb55e80d19ad83579a64c007002"

definition CONSOLIDATION_REQUEST_PREDEPLOY_ADDRESS :: address where
  "CONSOLIDATION_REQUEST_PREDEPLOY_ADDRESS = 0x0000bbddc7ce488642fb579f8b00f3a590007251"

definition SYSTEM_ADDRESS :: address where
  "SYSTEM_ADDRESS = 0xfffffffffffffffffffffffffffffffffffffffe"

definition ensure_system_contract_code :: "nat \<Rightarrow> state_lib \<Rightarrow> address \<Rightarrow> bytes \<Rightarrow> b256 option \<Rightarrow> unit batch_act" where
  "ensure_system_contract_code k sl addr code root =
     sbind (reads (batch_account k sl addr root)) (\<lambda>a.
       let is_new = (a = None);
           acc = unwrap_or a ((empty_account sl)\<lparr>acc_nonce := 1\<rparr>);
           code_hash = keccak256 (s_trie sl) code;
           acc' = acc\<lparr>acc_code_hash := code_hash, acc_nonce := (if is_new then 1 else acc_nonce acc)\<rparr>
       in if is_new \<or> acc_code_hash acc \<noteq> code_hash
          then sseq (batch_insert_bytecode code_hash code) (batch_update_account k sl addr acc')
          else ret ())"

definition apply_beacon_root :: "nat \<Rightarrow> state_lib \<Rightarrow> bytes \<Rightarrow> hardfork \<Rightarrow> b256 \<Rightarrow> u64 \<Rightarrow> b256 option \<Rightarrow> u64 batch_act" where
  "apply_beacon_root k sl code fork beacon_root timestamp root =
     (if fork < Cancun then ret 0
      else let index = timestamp mod 8191 in
        sseq (ensure_system_contract_code k sl BEACON_ROOTS_ADDRESS code root)
       (sseq (batch_update_storage k sl BEACON_ROOTS_ADDRESS (ucast index) (ucast timestamp))
       (sseq (batch_update_storage k sl BEACON_ROOTS_ADDRESS (ucast (index + 8191)) beacon_root)
       (sseq (touch BEACON_ROOTS_ADDRESS) (ret 0)))))"

definition initialize_prague_system_contracts ::
  "nat \<Rightarrow> state_lib \<Rightarrow> bytes \<Rightarrow> bytes \<Rightarrow> bytes \<Rightarrow> hardfork \<Rightarrow> b256 option \<Rightarrow> u64 batch_act" where
  "initialize_prague_system_contracts k sl history_code withdrawal_code consolidation_code fork root =
     (if fork < Prague then ret 0
      else sseq (ensure_system_contract_code k sl HISTORY_STORAGE_ADDRESS history_code root)
          (sseq (ensure_system_contract_code k sl WITHDRAWAL_REQUEST_PREDEPLOY_ADDRESS withdrawal_code root)
          (sseq (ensure_system_contract_code k sl CONSOLIDATION_REQUEST_PREDEPLOY_ADDRESS consolidation_code root)
                (ret 0))))"

definition credit_withdrawal :: "nat \<Rightarrow> state_lib \<Rightarrow> hash_order \<Rightarrow> b256 option \<Rightarrow> withdrawal \<Rightarrow> unit batch_act" where
  "credit_withdrawal k sl ord root w =
     sbind (reads (batch_account k sl (w_address w) root)) (\<lambda>a.
       let acc = unwrap_or a (empty_account sl);
           amount_wei = saturating_mul (ucast (w_amount w)) 1000000000 in
       sbind (calculate_storage_root_internal k sl ord (w_address w) root) (\<lambda>storage_root.
         batch_update_account k sl (w_address w)
           (acc\<lparr>acc_balance := saturating_add (acc_balance acc) amount_wei,
                acc_storage_root := storage_root, acc_code_hash := normal_code sl (acc_code_hash acc)\<rparr>)))"

definition process_withdrawals :: "nat \<Rightarrow> state_lib \<Rightarrow> hash_order \<Rightarrow> withdrawal list \<Rightarrow> b256 option \<Rightarrow> unit batch_act" where
  "process_withdrawals k sl ord ws root =
     (if ws = [] then ret () else for_each ws (credit_withdrawal k sl ord root))"

definition block_reward :: "hardfork \<Rightarrow> u256" where
  "block_reward fork =
     (if fork \<le> SpuriousDragon then 5 * 10 ^ 18
      else if fork = Byzantium then 3 * 10 ^ 18
      else if fork \<le> GrayGlacier then 2 * 10 ^ 18 else 0)"

definition credit :: "nat \<Rightarrow> state_lib \<Rightarrow> b256 option \<Rightarrow> address \<Rightarrow> u256 \<Rightarrow> unit batch_act" where
  "credit k sl root addr reward =
     sbind (reads (batch_account k sl addr root)) (\<lambda>a.
       let acc = unwrap_or a (empty_account sl) in
       batch_update_account k sl addr
         (acc\<lparr>acc_code_hash := normal_code sl (acc_code_hash acc),
              acc_balance := saturating_add (acc_balance acc) reward\<rparr>))"

definition ommer_reward :: "u256 \<Rightarrow> u64 \<Rightarrow> header \<Rightarrow> u256" where
  "ommer_reward reward number ommer =
     saturating_mul reward (ucast (8 + h_number ommer - number)) div 8"

definition apply_block_rewards ::
  "nat \<Rightarrow> state_lib \<Rightarrow> hardfork \<Rightarrow> address \<Rightarrow> header list \<Rightarrow> b256 option \<Rightarrow> u64 \<Rightarrow> unit batch_act" where
  "apply_block_rewards k sl fork beneficiary ommers root number =
     (if fork \<ge> Paris then ret ()
      else let reward = block_reward fork in
        if reward > 0 then
          let main_reward = fold (\<lambda>_ r. saturating_add r (reward div 32)) ommers reward in
          sseq (credit k sl root beneficiary main_reward)
               (for_each ommers (\<lambda>om. credit k sl root (h_beneficiary om) (ommer_reward reward number om)))
        else ret ())"

end
