(* ===== verification/ExecFacts.thy ===== *)
theory ExecFacts
  imports ExecState
begin

text \<open>What the execution layer does to the state: when delegated code can be read at all, what a change set
  leaves in the batch, and what a block pays its beneficiaries.\<close>

subsection \<open>Delegated code\<close>

text \<open>\<open>delegation_settles\<close>: following the delegations from an address comes to an end.\<close>

inductive delegation_settles :: "nat \<Rightarrow> state_lib \<Rightarrow> backend \<Rightarrow> batch \<Rightarrow> address \<Rightarrow> bool" for k sl be b where
  panics: "check_delegation k sl be b a = Inl e \<Longrightarrow> delegation_settles k sl be b a"
| own: "check_delegation k sl be b a = Inr None \<Longrightarrow> delegation_settles k sl be b a"
| follow: "check_delegation k sl be b a = Inr (Some t) \<Longrightarrow> delegation_settles k sl be b t \<Longrightarrow>
    delegation_settles k sl be b a"

lemma settles_returns:
  assumes "delegation_settles k sl be b a"
  shows "backend_code k sl be b a \<noteq> None" and "backend_storage k sl be b s a \<noteq> None"
  using assms by (induction rule: delegation_settles.induct) (simp_all add: backend_code.simps backend_storage.simps)

lemma code_returns_settles: "delegation_settles k sl be b a" if "backend_code k sl be b a = Some r"
  by (rule backend_code.raw_induct [where P = "\<lambda>k sl be b a r. delegation_settles k sl be b a", OF _ that])
    (auto intro: delegation_settles.intros split: sum.splits option.splits)

lemma storage_returns_settles: "delegation_settles k sl be b a" if "backend_storage k sl be b s a = Some r"
  by (rule backend_storage.raw_induct [where P = "\<lambda>k sl be b s a r. delegation_settles k sl be b a", OF _ that])
    (auto intro: delegation_settles.intros split: sum.splits option.splits)

lemma delegation_cycle:
  assumes "delegation_settles k sl be b x" and "x \<in> C"
    and "\<And>a. a \<in> C \<Longrightarrow> \<exists>t \<in> C. check_delegation k sl be b a = Inr (Some t)"
  shows False
  using assms by (induction rule: delegation_settles.induct) force+

text \<open>The code and the storage of a delegated account are read from the target, and its target, and so
  on; nothing bounds the walk.  It returns exactly when the delegations from the account come to an end, so it
  never returns for an account of a set of accounts that delegate to each other.\<close>

theorem delegated_code_returns_iff:
  "(backend_code k sl be b a \<noteq> None \<longleftrightarrow> delegation_settles k sl be b a) \<and>
   (backend_storage k sl be b s a \<noteq> None \<longleftrightarrow> delegation_settles k sl be b a) \<and>
   (a \<in> C \<and> (\<forall>x \<in> C. \<exists>t \<in> C. check_delegation k sl be b x = Inr (Some t)) \<longrightarrow>
      backend_code k sl be b a = None \<and> backend_storage k sl be b s a = None)"
proof -
  have iff: "backend_code k sl be b a \<noteq> None \<longleftrightarrow> delegation_settles k sl be b a"
    "backend_storage k sl be b s a \<noteq> None \<longleftrightarrow> delegation_settles k sl be b a"
    using settles_returns code_returns_settles storage_returns_settles by (metis option.exhaust)+
  then show ?thesis using delegation_cycle by blast
qed

text \<open>Accounts 1 and 2 delegate to each other.\<close>

definition delegation_code :: "u8 \<Rightarrow> bytes" where
  "delegation_code n = [0xef, 0x01, 0x00] @ replicate 19 0 @ [n]"

definition delegating_batch :: batch where
  "delegating_batch = (new_batch (empty_db\<lparr>
     t_accounts := [(1, (empty_account sample_state_lib)\<lparr>acc_code_hash := 11\<rparr>),
                    (2, (empty_account sample_state_lib)\<lparr>acc_code_hash := 12\<rparr>)],
     t_bytecodes := [(11, delegation_code 2), (12, delegation_code 1)]\<rparr>))\<lparr>bw_touched := {1, 2}\<rparr>"

definition sample_env :: evm_env where
  "sample_env = \<lparr>env_block_hashes = Map.empty, env_block_number = 1, env_block_timestamp = 12,
     env_block_gas_limit = 30000000, env_block_coinbase = 9, env_block_difficulty = 0,
     env_block_base_fee_per_gas = 7, env_block_randomness = None, env_chain_id = 1,
     env_blob_base_fee_per_gas = 1, env_blob_versioned_hashes = []\<rparr>"

definition sample_backend :: backend where
  "sample_backend = \<lparr>be_env = sample_env, be_root = None, be_transient = Map.empty,
     be_hot_accounts = {}, be_hot_storage = {}, be_origin = 1\<rparr>"

lemma delegation_target_code: "delegation_target (delegation_code n) = Some (ucast n)"
proof -
  have "replicate 19 (0::u8) = [0,0,0,0,0,0,0,0,0,0,0,0,0,0,0,0,0,0,0]" by (simp add: numeral_eq_Suc)
  then show ?thesis by (simp add: delegation_target_def delegation_code_def be_val_def)
qed

theorem delegated_code_returns_iff_witness:
  "check_delegation 1 sample_state_lib sample_backend delegating_batch 1 = Inr (Some 2) \<and>
   check_delegation 1 sample_state_lib sample_backend delegating_batch 2 = Inr (Some 1) \<and>
   backend_code 1 sample_state_lib sample_backend delegating_batch 1 = None"
proof -
  have c: "check_delegation 1 sample_state_lib sample_backend delegating_batch 1 = Inr (Some 2)"
    "check_delegation 1 sample_state_lib sample_backend delegating_batch 2 = Inr (Some 1)"
    by (simp_all add: check_delegation_def backend_account_def batch_account_def delegating_batch_def new_batch_def
        latest_account_def read_tbl_def empty_db_def tbl_get_def quiet_def of_store_def batch_bytecode_def bytecode_def
        overlay_def sample_state_lib_def delegation_target_code)
  with delegated_code_returns_iff [of 1 sample_state_lib sample_backend delegating_batch 1 0 "{1, 2}"]
  show ?thesis by simp
qed

subsection \<open>What a change set does to the accounts\<close>

text \<open>The part of a batch that the reads of touched accounts and written slots depend on.\<close>

definition account_view :: "batch \<Rightarrow> (address, trie_account) table \<times> address set \<times> (address \<times> b256 \<rightharpoonup> u256) \<times> (tbl \<Rightarrow> bool)" where
  "account_view b = (t_accounts (bw_wtx b), bw_touched b, bw_slots b, db_opens (bw_wtx b))"

lemma frame_on_wtx:
  assumes "\<And>d. t_accounts (upd f d) = t_accounts d \<and> db_opens (upd f d) = db_opens d"
  shows "frame account_view (on_wtx (wtx_upd T upd f))"
  using assms by (simp add: frame_def on_wtx_def wtx_upd_def sseq_def sbind_def open_table_def account_view_def)

lemma account_view_off_trie: "off_trie account_view"
  by (simp add: off_trie_def account_view_def)

lemmas storage_root_view = storage_root_frame [OF account_view_off_trie]

text \<open>Reads of a touched account and of a written slot depend on the view only.\<close>

lemma view_reads:
  assumes "account_view b' = account_view b"
  shows "a \<in> bw_touched b \<Longrightarrow> batch_account k sl a r b' = batch_account k sl a r b"
    and "bw_slots b (a, s) \<noteq> None \<Longrightarrow> batch_storage k sl a s r b' = batch_storage k sl a s r b"
    and "bw_touched b' = bw_touched b" and "bw_slots b' = bw_slots b"
  using assms by (auto simp: account_view_def batch_account_def batch_storage_def latest_account_def read_tbl_def)

lemma lift_state_Inr: "lift_state m b = (Inr u, b') \<longleftrightarrow> m b = (Inr u, b')"
  by (cases "m b"; cases "fst (m b)") (auto simp: lift_state_def)

lemma sync_account_row:
  assumes "sync_account k sl addr acc b = (Inr u, b')"
  shows "account_row k sl addr (Some acc) b b'"
proof -
  from assms obtain b1 b2 where b1: "batch_update_account k sl addr acc b = (Inr (), b1)"
    and b2: "batch_update_plain_state addr (enc_account sl acc) b1 = (Inr (), b2)"
    and b3: "batch_update_hashed_state (hash_address sl addr) (enc_account sl acc) b2 = (Inr u, b')"
    by (auto simp: sync_account_def sseq_Inr_iff)
  have "addr \<in> bw_touched b1" using update_account_row(1) [OF b1] by (simp add: account_row_def)
  then show ?thesis
    using update_account_row(1) [OF b1] b2 b3
    by (auto simp: account_row_def same_reads_def batch_update_plain_state_def batch_update_hashed_state_def
        wtx_update_hashed_state_def sseq_Inr_iff touch_def mark_account_touched_def insert_absorb)
qed

text \<open>\<open>holding P a b\<close>: the batch has written account \<open>a\<close>, and its row satisfies \<open>P\<close>.\<close>

definition holding :: "(trie_account \<Rightarrow> bool) \<Rightarrow> address \<Rightarrow> batch \<Rightarrow> bool" where
  "holding P a b \<longleftrightarrow> a \<in> bw_touched b \<and> db_opens (bw_wtx b) TAccounts \<and>
     (\<exists>acc. tbl_get (t_accounts (bw_wtx b)) a = Some acc \<and> P acc)"

lemma holding_view: "account_view b' = account_view b \<Longrightarrow> holding P a b' = holding P a b"
  by (auto simp: account_view_def holding_def)

lemma holding_read: "holding P a b \<Longrightarrow> \<exists>acc. batch_account k sl a r b = Inr (Some acc) \<and> P acc"
  by (auto simp: holding_def batch_account_def latest_account_def read_tbl_def of_store_def)

lemma holding_row:
  assumes "account_row k sl addr v b b'"
  shows "a \<noteq> addr \<Longrightarrow> holding P a b \<Longrightarrow> holding P a b'"
    and "v = Some acc \<Longrightarrow> P acc \<Longrightarrow> holding P addr b'"
  using assms by (auto simp: account_row_def same_reads_def holding_def split: option.splits)

text \<open>\<open>row a v b\<close>: the batch has written account \<open>a\<close>, and its row is \<open>v\<close>.\<close>

definition row :: "address \<Rightarrow> trie_account option \<Rightarrow> batch \<Rightarrow> bool" where
  "row a v b \<longleftrightarrow> a \<in> bw_touched b \<and> db_opens (bw_wtx b) TAccounts \<and> tbl_get (t_accounts (bw_wtx b)) a = v"

lemma holding_iff: "holding P a b \<longleftrightarrow> (\<exists>acc. row a (Some acc) b \<and> P acc)"
  by (auto simp: holding_def row_def)

lemma row_view: "account_view b' = account_view b \<Longrightarrow> row a v b' = row a v b"
  by (auto simp: account_view_def row_def)

lemma row_read: "row a v b \<Longrightarrow> batch_account k sl a r b = Inr v"
  by (auto simp: row_def batch_account_def latest_account_def read_tbl_def of_store_def)

lemma row_written:
  assumes "account_row k sl addr w b b'"
  shows "row addr w b'" and "a \<noteq> addr \<Longrightarrow> row a v b \<Longrightarrow> row a v b'" and "bw_slots b' = bw_slots b"
  using assms by (auto simp: account_row_def same_reads_def row_def split: option.splits)

text \<open>One step of the balance, nonce and code loops: read the account, perhaps write elsewhere, write the account.\<close>

definition modifies :: "nat \<Rightarrow> state_lib \<Rightarrow> b256 option \<Rightarrow> address \<Rightarrow> (trie_account \<Rightarrow> trie_account) \<Rightarrow> batch \<Rightarrow> batch \<Rightarrow> bool" where
  "modifies k sl root addr f b b' \<longleftrightarrow> (\<exists>v b1. batch_account k sl addr root b = Inr v \<and> account_view b1 = account_view b \<and>
     sync_account k sl addr (f (unwrap_or v (empty_account sl))) b1 = (Inr (), b'))"

lemma modifies_effect:
  assumes "modifies k sl root addr f b b'"
  shows "(\<And>acc. P (f acc)) \<Longrightarrow> holding P addr b'"
    and "holding P a b \<Longrightarrow> (a = addr \<Longrightarrow> (\<And>acc. P acc \<Longrightarrow> P (f acc))) \<Longrightarrow> holding P a b'"
    and "bw_slots b' = bw_slots b"
proof -
  from assms obtain v b1 where v: "batch_account k sl addr root b = Inr v" and b1: "account_view b1 = account_view b"
    and s: "sync_account k sl addr (f (unwrap_or v (empty_account sl))) b1 = (Inr (), b')" by (auto simp: modifies_def)
  note w = row_written [OF sync_account_row [OF s]]
  show "holding P addr b'" if "\<And>acc. P (f acc)" using w(1) that by (auto simp: holding_iff)
  show "bw_slots b' = bw_slots b" using w(3) view_reads(4) [OF b1] by simp
  show "holding P a b'" if h: "holding P a b" and keep: "a = addr \<Longrightarrow> (\<And>acc. P acc \<Longrightarrow> P (f acc))"
  proof (cases "a = addr")
    case True
    with h obtain acc where acc: "row addr (Some acc) b" "P acc" by (auto simp: holding_iff)
    have "v = Some acc" using row_read [OF acc(1)] v by simp
    with w(1) True keep acc(2) show ?thesis by (auto simp: holding_iff)
  next
    case False
    with h w(2) row_view [OF b1] show ?thesis by (auto simp: holding_iff)
  qed
qed

lemma modifying_loop_establishes:
  assumes run: "for_each xs g b = (Inr u, b')" and "distinct (map fst xs)" and "(a, v) \<in> set xs"
    and step: "\<And>x s t. x \<in> set xs \<Longrightarrow> g x s = (Inr (), t) \<Longrightarrow> modifies k sl root (fst x) (f (snd x)) s t"
    and est: "\<And>acc. P (f v acc)"
  shows "holding P a b'"
  using run \<open>(a, v) \<in> set xs\<close>
proof (rule for_each_establishes [where J = "\<lambda>_. True"])
  show "distinct xs" using assms(2) by (simp add: distinct_map)
  show "holding P a t" if "g (a, v) s = (Inr (), t)" for s t
    using modifies_effect(1) [OF step [OF \<open>(a, v) \<in> set xs\<close> that]] est by simp
  show "holding P a t" if "y \<in> set xs" "y \<noteq> (a, v)" "holding P a s" "g y s = (Inr (), t)" for y s t
  proof -
    have "a \<noteq> fst y" using assms(2,3) that(1,2) by (metis eq_key_imp_eq_value prod.collapse)
    with modifies_effect(2) [OF step [OF that(1,4)] that(3)] show ?thesis by blast
  qed
qed simp_all

lemma modifying_loop_keeps:
  assumes run: "for_each xs g b = (Inr u, b')"
    and step: "\<And>x s t. x \<in> set xs \<Longrightarrow> g x s = (Inr (), t) \<Longrightarrow> modifies k sl root (fst x) (f (snd x)) s t"
  shows "holding P a b \<Longrightarrow> (\<And>y acc. P acc \<Longrightarrow> P (f y acc)) \<Longrightarrow> holding P a b'" and "bw_slots b' = bw_slots b"
proof -
  show "holding P a b'" if "holding P a b" "\<And>y acc. P acc \<Longrightarrow> P (f y acc)"
    by (rule for_each_Inr_keeps [where J = "holding P a", OF run that(1)])
      (use modifies_effect(2) [OF step] that(2) in blast)
  show "bw_slots b' = bw_slots b"
    by (rule for_each_Inr_keeps [where J = "\<lambda>s. bw_slots s = bw_slots b", OF run refl])
      (use modifies_effect(3) [OF step] in auto)
qed

lemma balance_modifies:
  "apply_balance k sl root x s = (Inr (), t) \<Longrightarrow> modifies k sl root (fst x) (acc_balance_update (\<lambda>_. snd x)) s t"
  by (auto simp: apply_balance_def lift_state_Inr get_or_materialize_account_def sbind_Inr_iff reads_def ret_def modifies_def
      split: prod.splits)

lemma nonce_modifies:
  "apply_nonce k sl root x s = (Inr (), t) \<Longrightarrow> modifies k sl root (fst x) (acc_nonce_update (\<lambda>_. ucast (snd x))) s t"
  by (auto simp: apply_nonce_def lift_state_Inr get_or_materialize_account_def sbind_Inr_iff reads_def ret_def as_u64_def
      modifies_def split: if_splits prod.splits)

lemma code_modifies:
  assumes "apply_code k sl root x s = (Inr (), t)"
  shows "modifies k sl root (fst x) (acc_code_hash_update (\<lambda>_. keccak256 (s_trie sl) (snd x))) s t"
proof -
  obtain addr c where x: "x = (addr, c)" by (cases x)
  from assms [unfolded x] obtain v b1 where v: "batch_account k sl addr root s = Inr v"
    and b1: "batch_insert_bytecode (keccak256 (s_trie sl) c) c s = (Inr (), b1)"
    and e: "sync_account k sl addr ((unwrap_or v (empty_account sl))\<lparr>acc_code_hash := keccak256 (s_trie sl) c\<rparr>) b1 = (Inr (), t)"
    by (auto simp: apply_code_def lift_state_Inr get_or_materialize_account_def sbind_Inr_iff sseq_Inr_iff reads_def ret_def Let_def)
  have "frame account_view (batch_insert_bytecode (keccak256 (s_trie sl) c) c)"
    unfolding batch_insert_bytecode_def wtx_insert_bytecode_def by (rule frame_on_wtx) simp
  from frameD [OF this b1] v e x show ?thesis by (auto simp: modifies_def)
qed

lemma reset_view: "lift_state (batch_reset_storage addr) b = (Inr u, b') \<Longrightarrow> account_view b' = account_view b"
  by (auto simp: lift_state_Inr batch_reset_storage_def account_view_def)

lemma update_storage_effect:
  assumes "batch_update_storage k sl addr slot v b = (Inr u, b')"
  shows "row a w b \<Longrightarrow> row a w b'" and "bw_slots b' = (bw_slots b)((addr, slot) \<mapsto> v)"
proof -
  from update_storage_parts [OF assms] obtain b1 where b1: "same_reads b b1" "bw_slots b1 = (bw_slots b)((addr, slot) \<mapsto> v)"
    "bw_touched b1 = bw_touched b" "t_accounts (bw_wtx b1) = t_accounts (bw_wtx b)"
    and e: "ensure_touched k sl addr b1 = (Inr u, b')" by metis
  have r1: "row a w b1" if "row a w b" using that b1 by (auto simp: row_def same_reads_def)
  show "bw_slots b' = (bw_slots b)((addr, slot) \<mapsto> v)" using e b1(2)
    by (cases rule: ensure_touched_cases) (auto simp: row_written(3))
  show "row a w b'" if "row a w b" using e
  proof (cases rule: ensure_touched_cases)
    case 1
    with r1 [OF that] show ?thesis by simp
  next
    case (2 old)
    show ?thesis
    proof (cases "a = addr \<and> a \<in> bw_touched b1")
      case True
      with e have "b' = b1" by (auto simp: ensure_touched_def)
      with r1 [OF that] show ?thesis by simp
    next
      case False
      with r1 [OF that] have "a \<noteq> addr" by (auto simp: row_def)
      with row_written(2) [OF 2(2)] r1 [OF that] show ?thesis by blast
    qed
  qed
qed

lemma apply_slot_effect:
  assumes "apply_slot k sl root ((addr, slot), v) b = (Inr u, b')"
  shows "row a w b \<Longrightarrow> row a w b'" and "bw_slots b' = (bw_slots b)((addr, slot) \<mapsto> v)"
proof -
  from assms obtain b1 where b1: "batch_update_storage k sl addr slot v b = (Inr (), b1)"
    and b2: "batch_update_hashed_state (combined_key sl addr (hash_word sl slot)) (be_fixed 32 (unat v)) b1 = (Inr u, b')"
    unfolding apply_slot_def prod.case lift_state_Inr sbind_Inr_iff sseq_Inr_iff reads_def by auto
  have "frame account_view (batch_update_hashed_state h st)" for h st
    unfolding batch_update_hashed_state_def wtx_update_hashed_state_def by (rule frame_on_wtx) simp
  from frameD [OF this b2] have v: "account_view b' = account_view b1" .
  show "bw_slots b' = (bw_slots b)((addr, slot) \<mapsto> v)" using update_storage_effect(2) [OF b1] view_reads(4) [OF v] by simp
  show "row a w b \<Longrightarrow> row a w b'" using update_storage_effect(1) [OF b1] row_view [OF v] by blast
qed


text \<open>The row a settled account ends with.\<close>

definition settled_row :: "state_lib \<Rightarrow> bool \<Rightarrow> trie_account \<Rightarrow> trie_account option" where
  "settled_row sl eip161 acc = (if eip161 \<and> is_account_empty sl acc then None else Some acc)"

lemma remove_both_row:
  assumes "sseq (batch_remove_account k sl addr) (batch_remove_plain_state addr) b = (Inr u, b')"
  shows "account_row k sl addr None b b'"
proof -
  from assms obtain b1 where b1: "batch_remove_account k sl addr b = (Inr (), b1)"
    and b2: "batch_remove_plain_state addr b1 = (Inr u, b')" by (auto simp: sseq_Inr_iff)
  have "addr \<in> bw_touched b1" using update_account_row(2) [OF b1] by (simp add: account_row_def)
  then show ?thesis
    using update_account_row(2) [OF b1] b2
    by (auto simp: account_row_def same_reads_def batch_remove_plain_state_def sseq_Inr_iff touch_def
        mark_account_touched_def insert_absorb)
qed

lemma settle_account_cases:
  assumes "settle_account k sl ord cs eip161 root addr b = (Inr u, b')"
  obtains (deleted) "addr \<in> set (cs_deletes cs)" "account_row k sl addr None b b'"
  | (absent) "addr \<notin> set (cs_deletes cs)" "batch_account k sl addr root b = Inr None"
      "b' = b \<or> account_row k sl addr (Some (empty_account sl)) b b'"
  | (settled) acc r b1 where "addr \<notin> set (cs_deletes cs)" "batch_account k sl addr root b = Inr (Some acc)"
      "account_view b1 = account_view b"
      "account_row k sl addr (settled_row sl eip161 (acc\<lparr>acc_storage_root := r, acc_code_hash := normal_code sl (acc_code_hash acc)\<rparr>)) b1 b'"
proof (cases "addr \<in> set (cs_deletes cs)")
  case True
  with assms have "account_row k sl addr None b b'"
    using update_account_row(2) by (auto simp: settle_account_def lift_state_Inr sbind_Inr_iff reads_def)
  with True deleted show thesis by blast
next
  case False
  let ?put = "\<lambda>acc'. if eip161 \<and> is_account_empty sl acc'
                 then sseq (batch_remove_account k sl addr) (batch_remove_plain_state addr)
                 else sync_account k sl addr acc'"
  let ?acc = "\<lambda>acc r. acc\<lparr>acc_storage_root := r, acc_code_hash := normal_code sl (acc_code_hash acc)\<rparr>"
  from assms False obtain w where w: "batch_account k sl addr root b = Inr w"
    and run: "(case w of Some acc \<Rightarrow> sbind (calculate_storage_root_internal k sl ord addr root) (\<lambda>r. ?put (?acc acc r))
        | None \<Rightarrow> if \<not> is_account_empty sl (empty_account sl) then sync_account k sl addr (empty_account sl) else ret ()) b
        = (Inr u, b')"
    by (auto simp: settle_account_def lift_state_Inr sbind_Inr_iff reads_def Let_def)
  show thesis
  proof (cases w)
    case None
    with run have "b' = b \<or> account_row k sl addr (Some (empty_account sl)) b b'"
      by (auto simp: ret_def split: if_splits dest: sync_account_row)
    with absent False w None show thesis by blast
  next
    case (Some acc)
    from run [unfolded Some option.case sbind_Inr_iff] obtain r b1 where
      b1: "calculate_storage_root_internal k sl ord addr root b = (Inr r, b1)"
      and e: "?put (?acc acc r) b1 = (Inr u, b')" by blast
    have "account_row k sl addr (settled_row sl eip161 (?acc acc r)) b1 b'"
      using e remove_both_row sync_account_row by (auto simp: settled_row_def split: if_splits)
    with settled False w Some frameD [OF storage_root_view b1] show thesis by blast
  qed
qed

lemma settle_account_keeps:
  assumes "settle_account k sl ord cs eip161 root addr b = (Inr u, b')"
  shows "a \<noteq> addr \<Longrightarrow> row a v b \<Longrightarrow> row a v b'" and "bw_slots b' = bw_slots b"
proof -
  show "row a v b'" if "a \<noteq> addr" "row a v b"
    using assms
  proof (cases rule: settle_account_cases)
    case deleted
    with that row_written(2) show ?thesis by blast
  next
    case absent
    with that row_written(2) show ?thesis by blast
  next
    case (settled acc r b1)
    with row_written(2) [OF settled(4) that(1)] row_view [OF settled(3)] that(2) show ?thesis by blast
  qed
  show "bw_slots b' = bw_slots b"
    using assms
  proof (cases rule: settle_account_cases)
    case deleted
    with row_written(3) show ?thesis by blast
  next
    case absent
    with row_written(3) show ?thesis by blast
  next
    case (settled acc r b1)
    with row_written(3) [OF settled(4)] view_reads(4) [OF settled(3)] show ?thesis by simp
  qed
qed

text \<open>The whole application, phase by phase.\<close>

lemma apply_changeset_phases:
  assumes "apply_changeset k sl ord cs eip161 root b = (Inr u, b')"
  obtains b1 b2 b3 b4 b5 where "for_each (cs_balances cs) (apply_balance k sl root) b = (Inr (), b1)"
    "for_each (cs_nonces cs) (apply_nonce k sl root) b1 = (Inr (), b2)"
    "for_each (cs_codes cs) (apply_code k sl root) b2 = (Inr (), b3)"
    "for_each (cs_storage_resets cs) (\<lambda>addr. lift_state (batch_reset_storage addr)) b3 = (Inr (), b4)"
    "for_each (cs_storages cs) (apply_slot k sl root) b4 = (Inr (), b5)"
    "for_each (affected_accounts cs) (settle_account k sl ord cs eip161 root) b5 = (Inr u, b')"
  using assms unfolding apply_changeset_def sseq_Inr_iff by auto

lemma slots_loop:
  assumes run: "for_each xs (apply_slot k sl root) b = (Inr u, b')"
  shows "row a w b \<Longrightarrow> row a w b'"
    and "distinct (map fst xs) \<Longrightarrow> (x, v) \<in> set xs \<Longrightarrow> bw_slots b' x = Some v"
proof -
  have step: "(row a w s \<longrightarrow> row a w t) \<and> bw_slots t = (bw_slots s)(fst y \<mapsto> snd y)"
    if "apply_slot k sl root y s = (Inr (), t)" for y s t a w
    using apply_slot_effect [of k sl root "fst (fst y)" "snd (fst y)" "snd y" s "()" t] that by simp
  show "row a w b'" if "row a w b"
    by (rule for_each_Inr_keeps [where J = "row a w", OF run that]) (use step in blast)
  show "bw_slots b' x = Some v" if d: "distinct (map fst xs)" and x: "(x, v) \<in> set xs"
    using run x
  proof (rule for_each_establishes [where J = "\<lambda>_. True"])
    show "distinct xs" using d by (simp add: distinct_map)
    show "bw_slots t x = Some v" if "apply_slot k sl root (x, v) s = (Inr (), t)" for s t
      using step [OF that] by simp
    show "bw_slots t x = Some v" if "y \<in> set xs" "y \<noteq> (x, v)" "bw_slots s x = Some v"
      "apply_slot k sl root y s = (Inr (), t)" for y s t
    proof -
      have "x \<noteq> fst y" using d x that(1,2) by (metis eq_key_imp_eq_value prod.collapse)
      with step [OF that(4)] that(3) show ?thesis by simp
    qed
  qed simp_all
qed

lemma resets_loop:
  assumes run: "for_each xs (\<lambda>addr. lift_state (batch_reset_storage addr)) b = (Inr u, b')"
  shows "account_view b' = account_view b"
  by (rule for_each_Inr_keeps [where J = "\<lambda>s. account_view s = account_view b", OF run refl])
    (use reset_view in auto)

lemma affected_distinct: "distinct (affected_accounts cs)"
  and affected_set: "set (affected_accounts cs) = fst ` set (cs_balances cs) \<union> fst ` set (cs_nonces cs) \<union>
    fst ` set (cs_codes cs) \<union> set (cs_storage_resets cs) \<union> (fst \<circ> fst) ` set (cs_storages cs) \<union>
    set (cs_touched cs) \<union> set (cs_deletes cs)"
  by (simp_all add: affected_accounts_def)

lemma settle_loop:
  assumes run: "for_each (affected_accounts cs) (settle_account k sl ord cs eip161 root) b = (Inr u, b')"
    and a: "a \<in> set (affected_accounts cs)"
  shows "a \<in> set (cs_deletes cs) \<Longrightarrow> row a None b'"
    and "a \<notin> set (cs_deletes cs) \<Longrightarrow> holding P a b \<Longrightarrow> \<exists>acc r. P acc \<and>
      row a (settled_row sl eip161 (acc\<lparr>acc_storage_root := r, acc_code_hash := normal_code sl (acc_code_hash acc)\<rparr>)) b'"
    and "bw_slots b' = bw_slots b"
proof -
  note keep = settle_account_keeps [of k sl ord cs eip161 root]
  show "row a None b'" if del: "a \<in> set (cs_deletes cs)"
  proof (rule for_each_establishes [where J = "\<lambda>_. True", OF run a affected_distinct])
    show "row a None t" if "settle_account k sl ord cs eip161 root a s = (Inr (), t)" for s t
      using that del by (cases rule: settle_account_cases) (auto dest: row_written(1))
  qed (use keep(1) in auto)
  let ?Q = "\<lambda>t. \<exists>acc r. P acc \<and>
      row a (settled_row sl eip161 (acc\<lparr>acc_storage_root := r, acc_code_hash := normal_code sl (acc_code_hash acc)\<rparr>)) t"
  show "?Q b'" if nd: "a \<notin> set (cs_deletes cs)" and h: "holding P a b"
  proof (rule for_each_establishes [where J = "holding P a", OF run a affected_distinct h])
    show "?Q t" if p: "holding P a s" and e: "settle_account k sl ord cs eip161 root a s = (Inr (), t)" for s t
    proof -
      from p obtain acc where acc: "row a (Some acc) s" "P acc" by (auto simp: holding_iff)
      note r = row_read [OF acc(1)]
      from e show ?thesis
      proof (cases rule: settle_account_cases)
        case (settled acc' r' b1)
        with r have "acc' = acc" by simp
        with row_written(1) [OF settled(4)] acc(2) show ?thesis by blast
      qed (use nd r in auto)
    qed
    show "holding P a t" if "y \<noteq> a" "holding P a s" "settle_account k sl ord cs eip161 root y s = (Inr (), t)" for y s t
      using that keep(1) [OF that(3)] unfolding holding_iff by metis
    show "?Q t" if "y \<noteq> a" "?Q s" "settle_account k sl ord cs eip161 root y s = (Inr (), t)" for y s t
      using that keep(1) [OF that(3)] by metis
  qed
  show "bw_slots b' = bw_slots b"
    by (rule for_each_Inr_keeps [where J = "\<lambda>s. bw_slots s = bw_slots b", OF run refl]) (use keep(2) in auto)
qed

lemma holding_conj: "holding P a b \<Longrightarrow> holding Q a b \<Longrightarrow> holding (\<lambda>acc. P acc \<and> Q acc) a b"
  by (auto simp: holding_def)

lemma holding_weaken: "holding P a b \<Longrightarrow> (\<And>acc. P acc \<Longrightarrow> Q acc) \<Longrightarrow> holding Q a b"
  by (auto simp: holding_def)

text \<open>What the change set says of an account.\<close>

definition as_changed :: "state_lib \<Rightarrow> changeset \<Rightarrow> address \<Rightarrow> trie_account \<Rightarrow> bool" where
  "as_changed sl cs a acc \<longleftrightarrow> (\<forall>v. (a, v) \<in> set (cs_balances cs) \<longrightarrow> acc_balance acc = v) \<and>
     (\<forall>n. (a, n) \<in> set (cs_nonces cs) \<longrightarrow> acc_nonce acc = ucast n) \<and>
     (\<forall>c. (a, c) \<in> set (cs_codes cs) \<longrightarrow> normal_code sl (acc_code_hash acc) = normal_code sl (keccak256 (s_trie sl) c))"

definition keyed :: "changeset \<Rightarrow> bool" where
  "keyed cs \<longleftrightarrow> distinct (map fst (cs_balances cs)) \<and> distinct (map fst (cs_nonces cs)) \<and>
     distinct (map fst (cs_codes cs)) \<and> distinct (map fst (cs_storages cs))"

lemma changed_before_settling:
  assumes "keyed cs" and "for_each (cs_balances cs) (apply_balance k sl root) b = (Inr (), b1)"
    and "for_each (cs_nonces cs) (apply_nonce k sl root) b1 = (Inr (), b2)"
    and "for_each (cs_codes cs) (apply_code k sl root) b2 = (Inr (), b3)"
    and a: "a \<in> fst ` set (cs_balances cs) \<union> fst ` set (cs_nonces cs) \<union> fst ` set (cs_codes cs)"
  shows "holding (as_changed sl cs a) a b3"
proof -
  let ?B = "\<lambda>acc. \<forall>v. (a, v) \<in> set (cs_balances cs) \<longrightarrow> acc_balance acc = v"
  let ?N = "\<lambda>acc. \<forall>n. (a, n) \<in> set (cs_nonces cs) \<longrightarrow> acc_nonce acc = ucast n"
  let ?C = "\<lambda>acc. \<forall>c. (a, c) \<in> set (cs_codes cs) \<longrightarrow> normal_code sl (acc_code_hash acc) = normal_code sl (keccak256 (s_trie sl) c)"
  note d = assms(1) [unfolded keyed_def]
  note keep2 = modifying_loop_keeps(1) [OF assms(3) nonce_modifies]
  note keep3 = modifying_loop_keeps(1) [OF assms(4) code_modifies]
  have B: "holding ?B a b3" if "a \<in> fst ` set (cs_balances cs)"
  proof -
    from that obtain v where v: "(a, v) \<in> set (cs_balances cs)" by auto
    have "holding (\<lambda>acc. acc_balance acc = v) a b1"
      by (rule modifying_loop_establishes [OF assms(2) _ v balance_modifies]) (use d in auto)
    then have "holding (\<lambda>acc. acc_balance acc = v) a b3" by (intro keep3 keep2) simp_all
    then show ?thesis by (rule holding_weaken) (use d v in \<open>auto dest: eq_key_imp_eq_value\<close>)
  qed
  have N: "holding ?N a b3" if "a \<in> fst ` set (cs_nonces cs)"
  proof -
    from that obtain n where n: "(a, n) \<in> set (cs_nonces cs)" by auto
    have "holding (\<lambda>acc. acc_nonce acc = ucast n) a b2"
      by (rule modifying_loop_establishes [OF assms(3) _ n nonce_modifies]) (use d in auto)
    then have "holding (\<lambda>acc. acc_nonce acc = ucast n) a b3" by (intro keep3) simp_all
    then show ?thesis by (rule holding_weaken) (use d n in \<open>auto dest: eq_key_imp_eq_value\<close>)
  qed
  have C: "holding ?C a b3" if "a \<in> fst ` set (cs_codes cs)"
  proof -
    from that obtain c where c: "(a, c) \<in> set (cs_codes cs)" by auto
    have "holding (\<lambda>acc. acc_code_hash acc = keccak256 (s_trie sl) c) a b3"
      by (rule modifying_loop_establishes [OF assms(4) _ c code_modifies]) (use d in auto)
    then show ?thesis by (rule holding_weaken) (use d c in \<open>auto dest: eq_key_imp_eq_value\<close>)
  qed
  have some: "holding (\<lambda>_. True) a b3" if "holding P a b3" for P by (rule holding_weaken [OF that]) simp
  from a have T: "holding (\<lambda>_. True) a b3" using some [OF B] some [OF N] some [OF C] by (elim UnE)
  have "holding ?B a b3"
  proof (cases "a \<in> fst ` set (cs_balances cs)")
    case False
    then have "(a, v) \<notin> set (cs_balances cs)" for v by (force simp: image_iff)
    with T show ?thesis by (simp add: holding_def)
  qed (rule B)
  moreover have "holding ?N a b3"
  proof (cases "a \<in> fst ` set (cs_nonces cs)")
    case False
    then have "(a, v) \<notin> set (cs_nonces cs)" for v by (force simp: image_iff)
    with T show ?thesis by (simp add: holding_def)
  qed (rule N)
  moreover have "holding ?C a b3"
  proof (cases "a \<in> fst ` set (cs_codes cs)")
    case False
    then have "(a, v) \<notin> set (cs_codes cs)" for v by (force simp: image_iff)
    with T show ?thesis by (simp add: holding_def)
  qed (rule C)
  ultimately show ?thesis unfolding as_changed_def by (intro holding_conj)
qed

text \<open>C6: applying the change set of a transaction.  When it succeeds, every deleted account reads as absent,
  every written slot reads as its new value, and every account with a new balance, nonce or code reads with
  exactly these, or as absent when it became empty and EIP-161 is in force.\<close>

theorem changeset_applied:
  assumes "apply_changeset k sl ord cs eip161 root b = (Inr (), b')" and "keyed cs"
  shows "(a \<in> set (cs_deletes cs) \<longrightarrow> batch_account k sl a r b' = Inr None) \<and>
    (((a, s), v) \<in> set (cs_storages cs) \<longrightarrow> batch_storage k sl a s r b' = Inr v) \<and>
    (a \<in> fst ` set (cs_balances cs) \<union> fst ` set (cs_nonces cs) \<union> fst ` set (cs_codes cs) - set (cs_deletes cs) \<longrightarrow>
      (\<exists>acc. as_changed sl cs a acc \<and>
        batch_account k sl a r b' = Inr (if eip161 \<and> is_account_empty sl acc then None else Some acc)))"
proof -
  from apply_changeset_phases [OF assms(1)] obtain b1 b2 b3 b4 b5 where
    p: "for_each (cs_balances cs) (apply_balance k sl root) b = (Inr (), b1)"
    "for_each (cs_nonces cs) (apply_nonce k sl root) b1 = (Inr (), b2)"
    "for_each (cs_codes cs) (apply_code k sl root) b2 = (Inr (), b3)"
    and p4: "for_each (cs_storage_resets cs) (\<lambda>addr. lift_state (batch_reset_storage addr)) b3 = (Inr (), b4)"
    and p5: "for_each (cs_storages cs) (apply_slot k sl root) b4 = (Inr (), b5)"
    and p6: "for_each (affected_accounts cs) (settle_account k sl ord cs eip161 root) b5 = (Inr (), b')" .
  note settle = settle_loop [OF p6]
  have "batch_account k sl a r b' = Inr None" if "a \<in> set (cs_deletes cs)"
    using settle(1) [of a] that row_read by (auto simp: affected_set)
  moreover have "batch_storage k sl a s r b' = Inr v" if x: "((a, s), v) \<in> set (cs_storages cs)"
  proof -
    have "a \<in> set (affected_accounts cs)" using x by (force simp: affected_set)
    moreover have "bw_slots b5 (a, s) = Some v" using slots_loop(2) [OF p5] x assms(2) by (simp add: keyed_def)
    ultimately show ?thesis using settle(3) by (simp add: batch_storage_def)
  qed
  moreover have "\<exists>acc. as_changed sl cs a acc \<and>
        batch_account k sl a r b' = Inr (if eip161 \<and> is_account_empty sl acc then None else Some acc)"
    if x: "a \<in> fst ` set (cs_balances cs) \<union> fst ` set (cs_nonces cs) \<union> fst ` set (cs_codes cs) - set (cs_deletes cs)"
  proof -
    have "holding (as_changed sl cs a) a b3" using changed_before_settling [OF assms(2) p] x by blast
    then have "holding (as_changed sl cs a) a b5"
      using slots_loop(1) [OF p5] row_view [OF resets_loop [OF p4]] by (auto simp: holding_iff)
    moreover have "a \<in> set (affected_accounts cs)" "a \<notin> set (cs_deletes cs)" using x by (auto simp: affected_set)
    ultimately obtain acc r' where acc: "as_changed sl cs a acc" and
      w: "row a (settled_row sl eip161 (acc\<lparr>acc_storage_root := r', acc_code_hash := normal_code sl (acc_code_hash acc)\<rparr>)) b'"
      using settle(2) [of a] by blast
    have "as_changed sl cs a (acc\<lparr>acc_storage_root := r', acc_code_hash := normal_code sl (acc_code_hash acc)\<rparr>)"
      using acc by (simp add: as_changed_def normal_code_def)
    with row_read [OF w] show ?thesis unfolding settled_row_def by blast
  qed
  ultimately show ?thesis by blast
qed

definition sample_changes :: changeset where
  "sample_changes = \<lparr>cs_logs = [], cs_balances = [(5, 100)], cs_nonces = [(5, 1)], cs_codes = [],
     cs_storage_resets = [], cs_storages = [], cs_touched = [], cs_deletes = []\<rparr>"

lemma sample_changes_apply:
  "fst (apply_changeset 1 sample_state_lib sorted_order sample_changes True None (new_batch empty_db)) = Inr ()"
  by (simp add: apply_changeset_def sample_changes_def apply_balance_def apply_nonce_def lift_state_def
      get_or_materialize_account_def sync_account_def batch_update_account_def remember_account_def touch_def
      mark_account_touched_def batch_update_plain_state_def batch_update_hashed_state_def wtx_update_hashed_state_def
      on_wtx_def wtx_upd_def open_table_def as_u64_def affected_accounts_def settle_account_def
      calculate_storage_root_internal_def run_trie_def finish_trie_def commit_def trie_new_def sorted_order_def
      is_account_empty_def empty_account_def normal_code_def
      batch_account_def account_def latest_account_def read_tbl_def of_store_def new_batch_def empty_db_def
      sseq_def sbind_def reads_def ret_def)

theorem changeset_applied_witness:
  "\<exists>b' acc. apply_changeset 1 sample_state_lib sorted_order sample_changes True None (new_batch empty_db) = (Inr (), b') \<and>
     batch_account 1 sample_state_lib 5 None b' = Inr (Some acc) \<and> acc_balance acc = 100 \<and> acc_nonce acc = 1"
proof -
  obtain b' where b': "apply_changeset 1 sample_state_lib sorted_order sample_changes True None (new_batch empty_db) = (Inr (), b')"
    using sample_changes_apply by (metis prod.collapse)
  have "keyed sample_changes" by (simp add: keyed_def sample_changes_def)
  note e = changeset_applied [OF b' this, of 5 None]
  then obtain acc where "as_changed sample_state_lib sample_changes 5 acc"
    "batch_account 1 sample_state_lib 5 None b' = Inr (if is_account_empty sample_state_lib acc then None else Some acc)"
    by (auto simp: sample_changes_def)
  with b' show ?thesis by (auto simp: as_changed_def sample_changes_def is_account_empty_def)
qed

subsection \<open>Block rewards\<close>

definition balance_at :: "nat \<Rightarrow> state_lib \<Rightarrow> b256 option \<Rightarrow> address \<Rightarrow> batch \<Rightarrow> nat" where
  "balance_at k sl root a b = (case batch_account k sl a root b of Inr (Some acc) \<Rightarrow> unat (acc_balance acc) | _ \<Rightarrow> 0)"

lemma balance_at_le: "balance_at k sl root a b \<le> 2 ^ 256 - 1"
proof -
  have "unat (acc_balance acc) < 2 ^ LENGTH(256)" for acc :: trie_account by (rule unsigned_less)
  then show ?thesis by (auto simp: balance_at_def less_Suc_eq_le [symmetric] split: sum.splits option.splits)
qed

lemma credit_effect:
  assumes "credit k sl root addr x b = (Inr u, b')"
  shows "balance_at k sl root a b' =
    min (balance_at k sl root a b + (if a = addr then unat x else 0)) (2 ^ 256 - 1)"
proof -
  from assms obtain v where v: "batch_account k sl addr root b = Inr v"
    and w: "batch_update_account k sl addr ((unwrap_or v (empty_account sl))
        \<lparr>acc_code_hash := normal_code sl (acc_code_hash (unwrap_or v (empty_account sl))),
         acc_balance := saturating_add (acc_balance (unwrap_or v (empty_account sl))) x\<rparr>) b = (Inr u, b')"
    by (auto simp: credit_def sbind_Inr_iff reads_def Let_def)
  note r = account_row_reads [OF update_account_row(1) [OF w]]
  show ?thesis
  proof (cases "a = addr")
    case True
    then show ?thesis
      by (cases v) (simp_all add: balance_at_def r(1) v unat_saturating_add empty_account_def)
  next
    case False
    have "balance_at k sl root a b' = balance_at k sl root a b" using r(2) [OF False] by (simp add: balance_at_def)
    with False balance_at_le [of k sl root a b] show ?thesis by simp
  qed
qed

lemma credit_loop:
  assumes "for_each xs (\<lambda>x. credit k sl root (f x) (g x)) b = (Inr u, b')"
  shows "balance_at k sl root a b' =
    min (balance_at k sl root a b + (\<Sum>x\<leftarrow>xs. if f x = a then unat (g x) else 0)) (2 ^ 256 - 1)"
  using assms
proof (induction xs arbitrary: b)
  case Nil
  then show ?case using balance_at_le [of k sl root a b] by (simp add: ret_def)
next
  case (Cons x xs)
  then obtain b1 where b1: "credit k sl root (f x) (g x) b = (Inr (), b1)"
    "for_each xs (\<lambda>x. credit k sl root (f x) (g x)) b1 = (Inr u, b')" by (auto simp: sseq_Inr_iff)
  show ?case unfolding Cons.IH [OF b1(2)] credit_effect [OF b1(1)] by auto
qed

lemma main_reward_sum:
  "unat (fold (\<lambda>_ r. saturating_add r d) xs c) = min (unat c + length xs * unat d) (2 ^ 256 - 1)"
  for c d :: u256
proof (induction xs arbitrary: c)
  case Nil
  have "unat c < 2 ^ LENGTH(256)" by (rule unsigned_less)
  then show ?case by simp
next
  case (Cons x xs)
  show ?case by (simp add: Cons.IH unat_saturating_add)
qed

text \<open>The reward of a block.  From the merge on nothing is paid.  Before it the beneficiary receives the
  reward of the fork and a 32nd of it for every ommer, every ommer's beneficiary receives the ommer's share, and no
  other balance changes; sums stop at the largest 256-bit number.\<close>

theorem block_rewards_paid:
  assumes "apply_block_rewards k sl fork beneficiary ommers root number b = (Inr (), b')"
  shows "(fork \<ge> Paris \<longrightarrow> b' = b) \<and>
    (fork < Paris \<longrightarrow> balance_at k sl root a b' = min (balance_at k sl root a b +
      (if a = beneficiary then unat (block_reward fork) + length ommers * (unat (block_reward fork) div 32) else 0) +
      (\<Sum>om\<leftarrow>ommers. if h_beneficiary om = a then unat (ommer_reward (block_reward fork) number om) else 0))
      (2 ^ 256 - 1))"
proof (cases "fork \<ge> Paris")
  case True
  then have "\<not> fork < Paris" by (simp add: not_less)
  moreover have "b' = b" using assms True by (simp add: apply_block_rewards_def ret_def)
  ultimately show ?thesis by blast
next
  case False
  let ?r = "block_reward fork"
  let ?m = "fold (\<lambda>_ r. saturating_add r (?r div 32)) ommers ?r"
  have pos: "?r > 0" using False by (cases fork) (simp_all add: block_reward_def less_eq_hardfork_def)
  with assms False obtain b1 where b1: "credit k sl root beneficiary ?m b = (Inr (), b1)"
    and b2: "for_each ommers (\<lambda>om. credit k sl root (h_beneficiary om) (ommer_reward ?r number om)) b1 = (Inr (), b')"
    by (auto simp: apply_block_rewards_def Let_def sseq_Inr_iff)
  have d: "unat (?r div 32) = unat ?r div 32" by (simp add: unat_div)
  show ?thesis
    using False unfolding credit_loop [OF b2] credit_effect [OF b1] main_reward_sum d by auto
qed

theorem block_rewards_paid_witness:
  "\<exists>b'. apply_block_rewards 1 sample_state_lib Byzantium 5 [] None 9 (new_batch empty_db) = (Inr (), b') \<and>
     balance_at 1 sample_state_lib None 5 b' = 3000000000000000000"
proof -
  have "fst (apply_block_rewards 1 sample_state_lib Byzantium 5 [] None 9 (new_batch empty_db)) = Inr ()"
    by (simp add: apply_block_rewards_def less_eq_hardfork_def block_reward_def credit_def batch_update_account_def
        remember_account_def touch_def on_wtx_def wtx_upd_def open_table_def batch_account_def account_def latest_account_def
        read_tbl_def of_store_def new_batch_def empty_db_def sseq_def sbind_def reads_def ret_def Let_def)
  then obtain b' where b': "apply_block_rewards 1 sample_state_lib Byzantium 5 [] None 9 (new_batch empty_db) = (Inr (), b')"
    by (metis prod.collapse)
  have "balance_at 1 sample_state_lib None 5 (new_batch empty_db) = 0" by (simp add: balance_at_def empty_batch_reads(2))
  with block_rewards_paid [OF b', of 5] b' show ?thesis
    by (simp add: less_eq_hardfork_def less_hardfork_def block_reward_def)
qed

text \<open>The share of an ommer is computed in 64-bit arithmetic that wraps below zero: an ommer nine blocks below its
  nephew earns more than \<open>10 ^ 37\<close> wei.\<close>

lemma old_ommer_reward_wraps: "unat (ommer_reward (block_reward Byzantium) 9 (devnet_header 0 0 0 0 0)) > 10 ^ 36"
proof -
  have n: "8 + h_number (devnet_header 0 0 0 0 0) - 9 = (0xFFFFFFFFFFFFFFFF :: u64)" by (simp add: devnet_header_def)
  have "block_reward Byzantium = 3000000000000000000" by (simp add: block_reward_def less_eq_hardfork_def)
  then show ?thesis unfolding ommer_reward_def n by (simp add: saturating_mul_def unat_div)
qed

end
