(* ===== verification/ChangeSets.thy ===== *)
theory ChangeSets
  imports ExecFacts
begin

section \<open>The change sets of a block\<close>

text \<open>
  What \<open>BatchWriter\<close> (\<^verbatim>\<open>wasix_eth_storage/src/write.rs\<close>) has recorded for undoing a block when the block is
  done.  The steps of a run are all the operations that execution calls on the batch: account and slot writes, storage
  resets, the bare touching of an account, the writes of the side tables, storage roots and the state root.
\<close>

subsection \<open>Reads survive new trie nodes\<close>

definition provider_le :: "provider \<Rightarrow> provider \<Rightarrow> bool" where
  "provider_le p q \<longleftrightarrow> (\<forall>h x. p h = Inr (Some x) \<longrightarrow> q h = Inr (Some x))"

lemma get_node_mono:
  assumes "provider_le p q" and "get_node L p h t = (Inr n, t')"
  shows "get_node L q h t = (Inr n, t')"
proof -
  have "node_data q h t = Inr x" if "node_data p h t = Inr x" for x
    using that assms(1)
    by (auto simp: node_data_def provider_le_def rbind_Inr_iff ok_or_def split: option.splits)
  with assms(2) show ?thesis
    by (auto simp: get_node_def rbind_Inr_iff split: if_splits option.splits sum.splits)
qed

lemma get_recursive_mono:
  shows "provider_le p q \<Longrightarrow> get_recursive k L p h ns t = (Inr v, t') \<Longrightarrow> get_recursive k L q h ns t = (Inr v, t')"
    and "provider_le p q \<Longrightarrow> get_recursive_node k L p n ns t = (Inr v, t') \<Longrightarrow> get_recursive_node k L q n ns t = (Inr v, t')"
    and "provider_le p q \<Longrightarrow> get_recursive_rlp k L p c ns t = (Inr v, t') \<Longrightarrow> get_recursive_rlp k L q c ns t = (Inr v, t')"
proof (induction k L p h ns and k L p n ns and k L p c ns arbitrary: t and t and t
    rule: get_recursive_get_recursive_node_get_recursive_rlp.induct)
  case (2 k L db hash ns)
  then show ?case by (auto simp: sbind_Inr_iff dest!: get_node_mono split: if_splits)
next
  case (4 k L db n ns)
  then show ?case by (auto split: mpt_node.splits if_splits list.splits)
next
  case (6 k L db c ns)
  then show ?case by (auto simp: sbind_Inr_iff split: option.splits if_splits)
qed (simp_all add: fail_def)

lemma get_nibbles_mono:
  "provider_le p q \<Longrightarrow> fst (get_nibbles k L p ns t) = Inr v \<Longrightarrow> fst (get_nibbles k L q ns t) = Inr v"
  unfolding get_nibbles_def by (metis fst_conv get_recursive_mono(1) prod.collapse)

text \<open>\<open>nodes_kept b b'\<close>: every trie node that the batch could read is still read, with the same bytes.  Nodes are
  filed under the hash of their bytes, so this is the absence of a collision.\<close>

definition nodes_kept :: "batch \<Rightarrow> batch \<Rightarrow> bool" where
  "nodes_kept b b' \<longleftrightarrow> (\<forall>h x. batch_trie_node h b = Inr (Some x) \<longrightarrow> batch_trie_node h b' = Inr (Some x))"

lemma nodes_kept_provider: "nodes_kept b b' \<Longrightarrow> provider_le (batch_provider b) (batch_provider b')"
  unfolding nodes_kept_def provider_le_def
proof (intro allI impI)
  fix h x
  assume kept: "\<forall>h x. batch_trie_node h b = Inr (Some x) \<longrightarrow> batch_trie_node h b' = Inr (Some x)" and "batch_provider b h = Inr (Some x)"
  then have "batch_trie_node h b = Inr (Some x)" by (simp add: batch_provider_def split: sum.splits)
  with kept show "batch_provider b' h = Inr (Some x)" by (simp add: batch_provider_def)
qed

text \<open>The effect of a step on the reads: outside \<open>U\<close> no account row and no touched mark changes.\<close>

definition batch_effect :: "address set \<Rightarrow> batch \<Rightarrow> batch \<Rightarrow> bool" where
  "batch_effect U b b' \<longleftrightarrow> nodes_kept b b' \<and> db_opens (bw_wtx b') = db_opens (bw_wtx b) \<and>
     bw_committed b' = bw_committed b \<and> bw_base_root b' = bw_base_root b \<and>
     (\<forall>a. a \<notin> U \<longrightarrow> (a \<in> bw_touched b') = (a \<in> bw_touched b) \<and>
        tbl_get (t_accounts (bw_wtx b')) a = tbl_get (t_accounts (bw_wtx b)) a)"

lemma effect_account:
  assumes "batch_effect U b b'" and "a \<notin> U" and "batch_account k sl a r b = Inr v"
  shows "batch_account k sl a r b' = Inr v"
proof -
  have e: "bw_committed b' = bw_committed b" "bw_base_root b' = bw_base_root b" "(a \<in> bw_touched b') = (a \<in> bw_touched b)"
    "tbl_get (t_accounts (bw_wtx b')) a = tbl_get (t_accounts (bw_wtx b)) a" "db_opens (bw_wtx b') = db_opens (bw_wtx b)"
    and p: "provider_le (batch_provider b) (batch_provider b')"
    using assms(1,2) nodes_kept_provider by (auto simp: batch_effect_def)
  have g: "of_trie (fst (get_nibbles k L (batch_provider b') ns t)) = Inr x"
    if "of_trie (fst (get_nibbles k L (batch_provider b) ns t)) = Inr x" for L ns t x
    using that get_nibbles_mono [OF p]
    by (cases "fst (get_nibbles k L (batch_provider b) ns t)") auto
  show ?thesis
    using assms(3) g unfolding batch_account_def latest_account_def read_tbl_def e
    by (auto simp: rbind_Inr_iff split: if_splits option.splits)
qed

text \<open>The storage root under which the unwritten slots of an account are read.\<close>

definition root_at :: "nat \<Rightarrow> state_lib \<Rightarrow> address \<Rightarrow> batch \<Rightarrow> state_error + b256" where
  "root_at k sl a b = rbind (batch_account k sl a None b)
     (\<lambda>v. Inr (case v of Some acc \<Rightarrow> acc_storage_root acc | None \<Rightarrow> EMPTY_ROOT_HASH (s_trie sl)))"

lemma batch_storage_root_at:
  "batch_storage k sl a s None b = (case bw_slots b (a, s) of Some v \<Rightarrow> Inr v | None \<Rightarrow>
     if a \<in> bw_reset b then Inr 0 else case bw_base_root b of
       None \<Rightarrow> storage k sl (bw_committed b) a s None
     | Some root \<Rightarrow> if root = EMPTY_ROOT_HASH (s_trie sl) then Inr 0 else rbind (root_at k sl a b)
         (\<lambda>r. if r = EMPTY_ROOT_HASH (s_trie sl) then Inr 0 else trie_value k sl (batch_provider b) r s))"
  by (auto simp: batch_storage_def root_at_def batch_account_base rbind_def split: option.splits sum.splits)

lemma trie_value_mono:
  assumes "provider_le p q" and "trie_value k sl p r s = Inr v"
  shows "trie_value k sl q r s = Inr v"
proof -
  have "of_trie (fst (get_nibbles k L q ns t)) = Inr x" if "of_trie (fst (get_nibbles k L p ns t)) = Inr x" for L ns t x
    using that get_nibbles_mono [OF assms(1)] by (cases "fst (get_nibbles k L p ns t)") auto
  with assms(2) show ?thesis
    by (auto simp: trie_value_def trie_get_def rbind_Inr_iff split: option.splits)
qed

lemma effect_storage:
  assumes "batch_effect U b b'" and "bw_slots b' (a, s) = bw_slots b (a, s)" and "(a \<in> bw_reset b') = (a \<in> bw_reset b)"
    and "\<And>r. root_at k sl a b = Inr r \<Longrightarrow> root_at k sl a b' = Inr r" and "batch_storage k sl a s None b = Inr v"
  shows "batch_storage k sl a s None b' = Inr v"
proof -
  have p: "provider_le (batch_provider b) (batch_provider b')" and e: "bw_committed b' = bw_committed b"
    "bw_base_root b' = bw_base_root b"
    using assms(1) nodes_kept_provider by (auto simp: batch_effect_def)
  show ?thesis
    using assms(4,5) trie_value_mono [OF p] unfolding batch_storage_root_at assms(2,3) e
    by (auto simp: rbind_Inr_iff split: option.splits if_splits)
qed

lemma effect_root: "batch_effect U b b' \<Longrightarrow> a \<notin> U \<Longrightarrow> root_at k sl a b = Inr r \<Longrightarrow> root_at k sl a b' = Inr r"
  using effect_account [of U b b' a k sl None] by (auto simp: root_at_def rbind_Inr_iff)

subsection \<open>What the steps of a run change\<close>

lemma same_reads_nodes: "same_reads b b' \<Longrightarrow> nodes_kept b b'"
  by (simp add: same_reads_def nodes_kept_def batch_trie_node_def trie_node_def read_tbl_def)

lemma account_row_effect: "account_row k sl addr v b b' \<Longrightarrow> batch_effect {addr} b b'"
  using same_reads_nodes [of b b']
  by (auto simp: account_row_def batch_effect_def same_reads_def split: option.splits)

definition rest_view :: "address set \<Rightarrow> batch \<Rightarrow> db \<times> b256 option \<times> address set \<times> (address \<times> b256 \<rightharpoonup> u256) \<times> address set \<times>
    (address \<rightharpoonup> trie_account option) \<times> (address \<times> b256 \<rightharpoonup> u256) \<times> (tbl \<Rightarrow> bool) \<times> (address \<rightharpoonup> trie_account)" where
  "rest_view U b = (bw_committed b, bw_base_root b, bw_touched b, bw_slots b, bw_reset b, bw_old_accounts b, bw_old_slots b,
     db_opens (bw_wtx b), \<lambda>a. if a \<in> U then None else tbl_get (t_accounts (bw_wtx b)) a)"

lemma rest_view_off_trie: "off_trie (rest_view U)"
  by (simp add: off_trie_def rest_view_def fun_eq_iff)

lemma rest_view_effect:
  assumes "rest_view U b' = rest_view U b" and "nodes_kept b b'"
  shows "batch_effect U b b'" and "bw_touched b' = bw_touched b" and "bw_slots b' = bw_slots b" and "bw_reset b' = bw_reset b"
    and "bw_old_accounts b' = bw_old_accounts b" and "bw_old_slots b' = bw_old_slots b"
proof -
  have "tbl_get (t_accounts (bw_wtx b')) a = tbl_get (t_accounts (bw_wtx b)) a" if "a \<notin> U" for a
  proof -
    have "(\<lambda>a. if a \<in> U then None else tbl_get (t_accounts (bw_wtx b')) a) a =
      (\<lambda>a. if a \<in> U then None else tbl_get (t_accounts (bw_wtx b)) a) a"
      using assms(1) unfolding rest_view_def prod.inject by metis
    with that show ?thesis by simp
  qed
  with assms show "batch_effect U b b'" by (simp add: batch_effect_def rest_view_def)
qed (use assms(1) in \<open>simp_all add: rest_view_def\<close>)

lemma rest_view_write:
  assumes "\<And>d. db_opens (upd f d) = db_opens d" and "\<And>d a. a \<notin> U \<Longrightarrow> tbl_get (t_accounts (upd f d)) a = tbl_get (t_accounts d) a"
  shows "frame (rest_view U) (on_wtx (wtx_upd T upd f))"
  using assms by (auto simp: frame_def on_wtx_def wtx_upd_def sseq_def sbind_def open_table_def rest_view_def)

lemma rest_view_account_step:
  assumes "addr \<in> U"
  shows "frame (rest_view U \<circ> fst) (account_step k sl ord e root addr)"
proof -
  have w: "frame (rest_view U) (on_wtx (wtx_upd T t_accounts_update (tbl_insert addr x)))"
    "frame (rest_view U) (on_wtx (wtx_upd T t_accounts_update (tbl_remove addr)))"
    "frame (rest_view U) (on_wtx (wtx_upd T t_plain_state_update g))"
    "frame (rest_view U) (on_wtx (wtx_upd T t_hashed_state_update h))" for T x g h
    using assms by (auto intro!: rest_view_write)
  show ?thesis
    unfolding account_step_def write_account_def drop_state_def Let_def
    by (auto intro!: frame_sbind frame_sseq frame_on_batch frame_on_trie frame_basic storage_root_frame rest_view_off_trie w
        split: option.splits)
qed

lemma frame_for_each_in: "(\<And>x. x \<in> set xs \<Longrightarrow> frame f (g x)) \<Longrightarrow> frame f (for_each xs g)"
  by (induction xs) (auto intro!: frame_sseq)

lemma state_root_view:
  assumes "set (it_address ord (bw_touched b)) \<subseteq> U" and "calculate_state_root_internal k sl ord e root b = (r, b')"
  shows "rest_view U b' = rest_view U b"
proof -
  have "frame (rest_view U) (run_trie h (sseq (for_each (it_address ord (bw_touched b)) (account_step k sl ord e root')) finish_trie))"
    for h root'
    using assms(1)
    by (auto intro!: frame_run_trie frame_sseq frame_for_each_in rest_view_account_step finish_frame rest_view_off_trie)
  from frameD [OF this] assms(2) show ?thesis unfolding calculate_state_root_internal_def Let_def by blast
qed

subsection \<open>Runs of a batch\<close>

text \<open>\<open>batch_run k sl ord A X R b0 b\<close>: the operations of a block take the batch from \<open>b0\<close> to \<open>b\<close>.  \<open>A\<close> collects the
  accounts that were marked as touched without a write, \<open>X\<close> those whose storage was replaced as a whole (the account was
  removed or marked, its storage reset, its storage root overwritten by another one), and \<open>R\<close> the slots
  that were first written after that.\<close>

definition keeps_root :: "nat \<Rightarrow> state_lib \<Rightarrow> address \<Rightarrow> trie_account \<Rightarrow> batch \<Rightarrow> bool" where
  "keeps_root k sl addr acc b \<longleftrightarrow> root_at k sl addr b = Inr (acc_storage_root acc)"

inductive batch_run :: "nat \<Rightarrow> state_lib \<Rightarrow> hash_order \<Rightarrow> address set \<Rightarrow> address set \<Rightarrow> (address \<times> b256) set \<Rightarrow> batch \<Rightarrow> batch \<Rightarrow> bool"
  for k sl ord where
  start: "batch_run k sl ord {} {} {} b b"
| put_account: "batch_run k sl ord A X R b0 b \<Longrightarrow> batch_update_account k sl addr acc b = (Inr (), b') \<Longrightarrow>
    batch_run k sl ord A (if keeps_root k sl addr acc b then X else insert addr X) R b0 b'"
| drop_account: "batch_run k sl ord A X R b0 b \<Longrightarrow> batch_remove_account k sl addr b = (Inr (), b') \<Longrightarrow>
    batch_run k sl ord A (insert addr X) R b0 b'"
| put_slot: "batch_run k sl ord A X R b0 b \<Longrightarrow> batch_update_storage k sl addr slot v b = (Inr (), b') \<Longrightarrow>
    batch_run k sl ord A X (if addr \<in> X \<and> bw_old_slots b (addr, slot) = None then insert (addr, slot) R else R) b0 b'"
| reset: "batch_run k sl ord A X R b0 b \<Longrightarrow> batch_reset_storage addr b = (Inr (), b') \<Longrightarrow>
    batch_run k sl ord A (insert addr X) R b0 b'"
| mark: "batch_run k sl ord A X R b0 b \<Longrightarrow> m b = (Inr (), b') \<Longrightarrow>
    m \<in> {touch addr, batch_update_plain_state addr st, batch_remove_plain_state addr} \<Longrightarrow>
    batch_run k sl ord (if addr \<in> bw_touched b then A else insert addr A)
      (if addr \<in> bw_touched b then X else insert addr X) R b0 b'"
| side: "batch_run k sl ord A X R b0 b \<Longrightarrow> m b = (Inr (), b') \<Longrightarrow>
    m \<in> {batch_update_hashed_state h st, batch_insert_bytecode h st} \<Longrightarrow> batch_run k sl ord A X R b0 b'"
| storage_root: "batch_run k sl ord A X R b0 b \<Longrightarrow> calculate_storage_root_internal k sl ord addr root b = (Inr r, b') \<Longrightarrow>
    nodes_kept b b' \<Longrightarrow> batch_run k sl ord A X R b0 b'"
| state_root: "batch_run k sl ord A X R b0 b \<Longrightarrow> calculate_state_root_internal k sl ord e root b = (Inr r, b') \<Longrightarrow>
    nodes_kept b b' \<Longrightarrow> batch_run k sl ord A (X \<union> bw_touched b) R b0 b'"

definition accounts_kept :: "nat \<Rightarrow> state_lib \<Rightarrow> address set \<Rightarrow> batch \<Rightarrow> batch \<Rightarrow> bool" where
  "accounts_kept k sl A b0 b \<longleftrightarrow> finite (dom (bw_old_accounts b)) \<and> finite (bw_touched b) \<and>
     (\<forall>a. a \<notin> A \<longrightarrow> (bw_old_accounts b a = None \<longrightarrow> a \<notin> bw_touched b) \<and>
       (\<forall>v. batch_account k sl a None b0 = Inr v \<longrightarrow>
         (\<forall>old. bw_old_accounts b a = Some old \<longrightarrow> old = v) \<and> (bw_old_accounts b a = None \<longrightarrow> batch_account k sl a None b = Inr v)))"

definition slots_kept :: "nat \<Rightarrow> state_lib \<Rightarrow> address set \<Rightarrow> (address \<times> b256) set \<Rightarrow> batch \<Rightarrow> batch \<Rightarrow> bool" where
  "slots_kept k sl X R b0 b \<longleftrightarrow> finite (dom (bw_old_slots b)) \<and>
     (\<forall>a s v. batch_storage k sl a s None b0 = Inr v \<longrightarrow>
       (\<forall>old. bw_old_slots b (a, s) = Some old \<longrightarrow> (a, s) \<notin> R \<longrightarrow> old = v) \<and>
       (bw_old_slots b (a, s) = None \<longrightarrow> a \<notin> X \<longrightarrow> batch_storage k sl a s None b = Inr v))"

lemma accounts_kept_step:
  assumes "accounts_kept k sl A b0 b" and "batch_effect U b b'" and "bw_old_accounts b' = bw_old_accounts b"
    and "finite (bw_touched b')" and "\<And>a. a \<in> U \<Longrightarrow> a \<notin> A' \<Longrightarrow> a \<in> bw_touched b" and "A \<subseteq> A'"
  shows "accounts_kept k sl A' b0 b'"
proof -
  have u: "a \<notin> U \<and> a \<notin> bw_touched b'" if "a \<notin> A'" "bw_old_accounts b a = None" for a
  proof -
    have "a \<notin> bw_touched b" using assms(1,6) that by (auto simp: accounts_kept_def)
    with assms(2,5) that(1) show ?thesis by (auto simp: batch_effect_def)
  qed
  then have "batch_account k sl a None b' = Inr v"
    if "a \<notin> A'" "bw_old_accounts b a = None" "batch_account k sl a None b = Inr v" for a v
    using effect_account [OF assms(2)] that by blast
  with u assms(1,4,6) show ?thesis unfolding accounts_kept_def assms(3) by (meson subsetD)
qed

lemma accounts_kept_row:
  assumes "accounts_kept k sl A b0 b" and "account_row k sl addr v b b'"
  shows "accounts_kept k sl A b0 b'"
proof (cases "bw_old_accounts b addr")
  case None
  then obtain old where old: "batch_account k sl addr None b = Inr old" "bw_old_accounts b' = (bw_old_accounts b)(addr \<mapsto> old)"
    "bw_touched b' = insert addr (bw_touched b)" using assms(2) by (auto simp: account_row_def)
  with None assms(1) account_row_reads(2) [OF assms(2)] show ?thesis by (auto simp: accounts_kept_def)
next
  case (Some old)
  with assms(2) have o: "bw_old_accounts b' = bw_old_accounts b" "bw_touched b' = insert addr (bw_touched b)"
    by (simp_all add: account_row_def)
  have "batch_account k sl a None b' = batch_account k sl a None b" if "bw_old_accounts b a = None" for a
    using account_row_reads(2) [OF assms(2)] that Some by (cases "a = addr") simp_all
  with o Some assms(1) show ?thesis by (auto simp: accounts_kept_def)
qed

lemma slots_kept_step:
  assumes "slots_kept k sl X R b0 b" and "batch_effect U b b'" and "bw_old_slots b' = bw_old_slots b"
    and "X \<subseteq> X'" and "R \<subseteq> R'" and "\<And>a s. a \<notin> X' \<Longrightarrow> bw_slots b' (a, s) = bw_slots b (a, s) \<and> (a \<in> bw_reset b') = (a \<in> bw_reset b)"
    and "\<And>a r. a \<notin> X' \<Longrightarrow> root_at k sl a b = Inr r \<Longrightarrow> root_at k sl a b' = Inr r"
  shows "slots_kept k sl X' R' b0 b'"
proof -
  have "batch_storage k sl a s None b' = Inr v" if "a \<notin> X'" "batch_storage k sl a s None b = Inr v" for a s v
    using assms(6,7) [OF that(1)] that(2) by (intro effect_storage [OF assms(2)]) auto
  with assms(1,4,5) show ?thesis unfolding slots_kept_def assms(3) by (meson subsetD)
qed

lemma same_reads_effect:
  "same_reads b b' \<Longrightarrow> bw_touched b' = bw_touched b \<Longrightarrow> t_accounts (bw_wtx b') = t_accounts (bw_wtx b) \<Longrightarrow> batch_effect {} b b'"
  using same_reads_nodes [of b b'] by (simp add: batch_effect_def same_reads_def)

lemma kept_touching:
  assumes "ensure_touched k sl addr b = (Inr u, b')"
  shows "accounts_kept k sl A b0 b \<Longrightarrow> accounts_kept k sl A b0 b'" and "slots_kept k sl X R b0 b \<Longrightarrow> slots_kept k sl X R b0 b'"
proof -
  show "accounts_kept k sl A b0 b'" if "accounts_kept k sl A b0 b"
    using assms that by (cases rule: ensure_touched_cases) (auto intro: accounts_kept_row)
  show "slots_kept k sl X R b0 b'" if kept: "slots_kept k sl X R b0 b"
    using assms
  proof (cases rule: ensure_touched_cases)
    case (2 old)
    show ?thesis
    proof (rule slots_kept_step [OF kept account_row_effect [OF 2(2)]])
      show "root_at k sl a b' = Inr r" if "root_at k sl a b = Inr r" for a r
      proof (cases "a = addr")
        case True
        with 2(1) that account_row_reads(1) [OF 2(2)] show ?thesis by (cases old) (simp_all add: root_at_def empty_account_def)
      qed (use effect_root [OF account_row_effect [OF 2(2)]] that in auto)
    qed (use 2(2) in \<open>auto simp: account_row_def\<close>)
  qed (use kept in simp)
qed

lemma kept_slot_write:
  assumes "batch_update_storage k sl addr slot v b = (Inr (), b')"
  shows "accounts_kept k sl A b0 b \<Longrightarrow> accounts_kept k sl A b0 b'"
    and "slots_kept k sl X R b0 b \<Longrightarrow>
      slots_kept k sl X (if addr \<in> X \<and> bw_old_slots b (addr, slot) = None then insert (addr, slot) R else R) b0 b'"
      (is "_ \<Longrightarrow> slots_kept k sl X ?R b0 b'")
proof -
  from update_storage_parts [OF assms] obtain b1 where b1: "same_reads b b1" "bw_slots b1 = (bw_slots b)((addr, slot) \<mapsto> v)"
    "bw_reset b1 = bw_reset b" "bw_touched b1 = bw_touched b" "t_accounts (bw_wtx b1) = t_accounts (bw_wtx b)"
    "bw_old_accounts b1 = bw_old_accounts b"
    "if bw_old_slots b (addr, slot) = None
     then \<exists>old. batch_storage k sl addr slot None b = Inr old \<and> bw_old_slots b1 = (bw_old_slots b)((addr, slot) \<mapsto> old)
     else bw_old_slots b1 = bw_old_slots b" "ensure_touched k sl addr b1 = (Inr (), b')" by metis
  have e: "batch_effect {} b b1" using same_reads_effect b1(1,4,5) by simp
  show "accounts_kept k sl A b0 b'" if "accounts_kept k sl A b0 b"
  proof (rule kept_touching(1) [OF b1(8)])
    show "accounts_kept k sl A b0 b1"
      by (rule accounts_kept_step [OF that e b1(6)]) (use that b1(4) in \<open>auto simp: accounts_kept_def\<close>)
  qed
  have other: "batch_storage k sl a s None b1 = Inr w" if "(a, s) \<noteq> (addr, slot)" "batch_storage k sl a s None b = Inr w" for a s w
    using b1(2,3) that effect_root [OF e] by (intro effect_storage [OF e]) auto
  have "slots_kept k sl X ?R b0 b1" if kept: "slots_kept k sl X R b0 b"
  proof (cases "bw_old_slots b (addr, slot)")
    case None
    then obtain old where old: "batch_storage k sl addr slot None b = Inr old" "bw_old_slots b1 = (bw_old_slots b)((addr, slot) \<mapsto> old)"
      using b1(7) by auto
    with None kept other show ?thesis by (auto simp: slots_kept_def)
  next
    case (Some old)
    with b1(7) have o: "bw_old_slots b1 = bw_old_slots b" by simp
    have "batch_storage k sl a s None b1 = Inr w" if "bw_old_slots b (a, s) = None" "batch_storage k sl a s None b = Inr w" for a s w
      using other that Some by (metis option.distinct(1))
    with kept Some show ?thesis unfolding slots_kept_def o by auto
  qed
  with kept_touching(2) [OF b1(8)] show "slots_kept k sl X R b0 b \<Longrightarrow> slots_kept k sl X ?R b0 b'" by blast
qed

definition fresh_batch :: "batch \<Rightarrow> bool" where
  "fresh_batch b \<longleftrightarrow> bw_touched b = {} \<and> bw_old_accounts b = Map.empty \<and> bw_old_slots b = Map.empty"

lemma kept_view:
  assumes "accounts_kept k sl A b0 b \<and> slots_kept k sl X R b0 b" and "rest_view U b' = rest_view U b" and "nodes_kept b b'"
    and "U \<subseteq> bw_touched b"
  shows "accounts_kept k sl A b0 b' \<and> slots_kept k sl (X \<union> U) R b0 b'"
proof -
  note e = rest_view_effect [OF assms(2,3)] and kept = conjunct1 [OF assms(1)] conjunct2 [OF assms(1)]
  have "finite (bw_touched b')" using kept(1) e(2) by (simp add: accounts_kept_def)
  with assms(4) have "accounts_kept k sl A b0 b'" by (intro accounts_kept_step [OF kept(1) e(1,5)]) auto
  moreover have "slots_kept k sl (X \<union> U) R b0 b'"
    by (rule slots_kept_step [OF kept(2) e(1,6)]) (use assms e effect_root [OF e(1)] in auto)
  ultimately show ?thesis by blast
qed

lemma batch_run_kept:
  assumes "batch_run k sl ord A X R b0 b" and "fresh_batch b0" and "order_ok ord"
  shows "accounts_kept k sl A b0 b \<and> slots_kept k sl X R b0 b"
  using assms
proof (induction rule: batch_run.induct)
  case (start b)
  then show ?case by (simp add: accounts_kept_def slots_kept_def fresh_batch_def)
next
  case (put_account A X R b0 b addr acc b')
  note row = update_account_row(1) [OF put_account(2)]
  have "slots_kept k sl (if keeps_root k sl addr acc b then X else insert addr X) R b0 b'"
  proof (rule slots_kept_step [OF _ account_row_effect [OF row]])
    show "root_at k sl a b' = Inr r"
      if "a \<notin> (if keeps_root k sl addr acc b then X else insert addr X)" "root_at k sl a b = Inr r" for a r
      using that effect_root [OF account_row_effect [OF row]] account_row_reads(1) [OF row]
      by (cases "a = addr") (auto simp: keeps_root_def root_at_def split: if_splits)
  qed (use put_account row in \<open>auto simp: account_row_def\<close>)
  with put_account accounts_kept_row [OF _ row] show ?case by blast
next
  case (drop_account A X R b0 b addr b')
  note row = update_account_row(2) [OF drop_account(2)]
  have "slots_kept k sl (insert addr X) R b0 b'"
    by (rule slots_kept_step [OF _ account_row_effect [OF row]])
      (use drop_account row effect_root [OF account_row_effect [OF row]] in \<open>auto simp: account_row_def\<close>)
  with drop_account accounts_kept_row [OF _ row] show ?case by blast
next
  case (put_slot A X R b0 b addr slot v b')
  then show ?case using kept_slot_write [OF put_slot(2)] by blast
next
  case (reset A X R b0 b addr b')
  then have kept: "accounts_kept k sl A b0 b" "slots_kept k sl X R b0 b" by simp_all
  from reset have r: "b' = b\<lparr>bw_reset := insert addr (bw_reset b)\<rparr>" by (simp add: batch_reset_storage_def)
  then have e: "batch_effect {} b b'" by (intro same_reads_effect) (simp_all add: same_reads_def)
  have "slots_kept k sl (insert addr X) R b0 b'"
    by (rule slots_kept_step [OF kept(2) e]) (use r effect_root [OF e] in auto)
  moreover have "accounts_kept k sl A b0 b'"
    by (rule accounts_kept_step [OF kept(1) e]) (use r kept(1) in \<open>simp_all add: accounts_kept_def\<close>)
  ultimately show ?case by blast
next
  case (mark A X R b0 b m b' addr st)
  then have kept: "accounts_kept k sl A b0 b" "slots_kept k sl X R b0 b" by simp_all
  from mark have t: "bw_touched b' = insert addr (bw_touched b)" "same_reads b b'" "bw_old_accounts b' = bw_old_accounts b"
    "bw_old_slots b' = bw_old_slots b" "bw_slots b' = bw_slots b" "bw_reset b' = bw_reset b" "t_accounts (bw_wtx b') = t_accounts (bw_wtx b)"
    by (auto simp: touch_def mark_account_touched_def batch_update_plain_state_def batch_remove_plain_state_def sseq_Inr_iff same_reads_def)
  then have e: "batch_effect {addr} b b'" using same_reads_nodes [OF t(2)] by (simp add: batch_effect_def same_reads_def)
  have e': "batch_effect {} b b'" if "addr \<in> bw_touched b" using e t that by (auto simp: batch_effect_def)
  have r: "root_at k sl a b' = Inr r" if "a \<notin> (if addr \<in> bw_touched b then X else insert addr X)" "root_at k sl a b = Inr r" for a r
    using effect_root [OF e] effect_root [OF e'] that by (cases "addr \<in> bw_touched b") auto
  have "accounts_kept k sl (if addr \<in> bw_touched b then A else insert addr A) b0 b'"
    by (rule accounts_kept_step [OF kept(1) e t(3)]) (use t(1) kept(1) in \<open>auto simp: accounts_kept_def split: if_splits\<close>)
  moreover have "slots_kept k sl (if addr \<in> bw_touched b then X else insert addr X) R b0 b'"
    by (rule slots_kept_step [OF kept(2) e t(4)]) (use t r in auto)
  ultimately show ?case by blast
next
  case (side A X R b0 b m b' h st)
  then have "rest_view {} b' = rest_view {} b" "same_reads b b'"
    by (auto simp: batch_update_hashed_state_def batch_insert_bytecode_def wtx_update_hashed_state_def wtx_insert_bytecode_def
        rest_view_def same_reads_def)
  with side kept_view [of k sl A b0 b X R "{}" b'] same_reads_nodes show ?case by simp
next
  case (storage_root A X R b0 b addr root r b')
  with kept_view [of k sl A b0 b X R "{}" b'] frameD [OF storage_root_frame [OF rest_view_off_trie] storage_root(2)]
  show ?case by simp
next
  case (state_root A X R b0 b e root r b')
  have "set (it_address ord (bw_touched b)) = bw_touched b"
    using state_root by (simp add: accounts_kept_def order_ok_def)
  with state_root kept_view [of k sl A b0 b X R "bw_touched b" b'] state_root_view [OF _ state_root(2), of "bw_touched b"]
  show ?case by simp
qed

text \<open>C3: the change sets of a batch.  Whatever operations a block runs on a fresh batch: of an account that was readable at
  the start, and was not merely marked as touched, the collected change holds the encoding of what it was at the start, and when
  there is none it still reads as at the start.  Of a slot that was readable at the start, the collected change holds the
  value of the start, unless the slot was first written after the storage of its account had been replaced (the account
  removed or marked, the storage reset, the storage root overwritten by another, as for every touched account when the state
  root is computed); and when there is none the slot still reads
  as at the start, unless the storage of its account was replaced.  New trie nodes do not collide with stored ones.\<close>

theorem batch_change_sets_exact:
  assumes "batch_run k sl ord A X R b0 b" and "fresh_batch b0" and "order_ok ord"
  shows "(a \<notin> A \<longrightarrow> batch_account k sl a None b0 = Inr v \<longrightarrow>
      ((a, c) \<in> set (collect_account_changes sl ord b) \<longrightarrow> c = map_option (enc_account sl) v) \<and>
      ((\<forall>c. (a, c) \<notin> set (collect_account_changes sl ord b)) \<longrightarrow> batch_account k sl a None b = Inr v)) \<and>
    (batch_storage k sl a s None b0 = Inr w \<longrightarrow>
      ((a, s, u) \<in> set (collect_storage_changes ord b) \<longrightarrow> (a, s) \<notin> R \<longrightarrow> u = w) \<and>
      ((\<forall>u. (a, s, u) \<notin> set (collect_storage_changes ord b)) \<longrightarrow> a \<notin> X \<longrightarrow> batch_storage k sl a s None b = Inr w))"
proof -
  note kept = batch_run_kept [OF assms]
  have "set (it_address ord (dom (bw_old_accounts b))) = dom (bw_old_accounts b)"
    "set (it_slot ord (dom (bw_old_slots b))) = dom (bw_old_slots b)"
    using assms(3) kept by (simp_all add: order_ok_def accounts_kept_def slots_kept_def)
  note sets = this
  have acc: "(a, c) \<in> set (collect_account_changes sl ord b) \<longleftrightarrow>
      (\<exists>old. bw_old_accounts b a = Some old \<and> c = map_option (enc_account sl) old)" for c
    using sets(1) by (force simp: collect_account_changes_def)
  have slot: "(a, s, w) \<in> set (collect_storage_changes ord b) \<longleftrightarrow> bw_old_slots b (a, s) = Some w" for w
    using sets(2) by (force simp: collect_storage_changes_def)
  show ?thesis
    using kept unfolding acc slot
    by (cases "bw_old_accounts b a"; cases "bw_old_slots b (a, s)") (auto simp: accounts_kept_def slots_kept_def)
qed

text \<open>A run in which a slot is written, its account marked, and the storage of another account reset.\<close>

definition marked_batch :: batch where
  "marked_batch = snd (batch_reset_storage 6 (mark_account_touched 5 written_batch))"

lemma marked_batch_run: "batch_run 1 sample_state_lib sorted_order {} {6} {} (new_batch empty_db) marked_batch"
proof -
  have "batch_run 1 sample_state_lib sorted_order {} {} {} (new_batch empty_db) written_batch"
    using batch_run.put_slot [OF batch_run.start written_batch_run] by simp
  from batch_run.mark [OF this, of "touch 5" _ 5 "[]"]
  have "batch_run 1 sample_state_lib sorted_order {} {} {} (new_batch empty_db) (mark_account_touched 5 written_batch)"
    by (simp add: touch_def written_batch_touched)
  from batch_run.reset [OF this, of 6 marked_batch] show ?thesis by (simp add: marked_batch_def batch_reset_storage_def)
qed

theorem batch_change_sets_exact_witness:
  "collect_storage_changes sorted_order marked_batch = [(5, 7, 0)] \<and>
    batch_storage 1 sample_state_lib 5 7 None (new_batch empty_db) = Inr 0 \<and>
    batch_storage 1 sample_state_lib 5 8 None marked_batch = Inr 0 \<and>
    collect_account_changes sample_state_lib sorted_order marked_batch = [(5, None)] \<and>
    batch_account 1 sample_state_lib 6 None marked_batch = Inr None"
proof -
  have f: "fresh_batch (new_batch empty_db)" by (simp add: new_batch_def fresh_batch_def)
  have c: "collect_storage_changes sorted_order marked_batch = [(5, 7, 0)]"
    "collect_account_changes sample_state_lib sorted_order marked_batch = [(5, None)]"
    by (simp_all add: collect_storage_changes_def collect_account_changes_def marked_batch_def mark_account_touched_def
        batch_reset_storage_def written_batch_old sorted_order_def)
  note change = batch_change_sets_exact [OF marked_batch_run f sorted_order_ok]
  have "batch_storage 1 sample_state_lib 5 8 None marked_batch = Inr 0"
    using change [where a = 5 and v = None and c = None and s = 8 and w = 0 and u = 0] by (simp add: c empty_batch_reads)
  moreover have "batch_account 1 sample_state_lib 6 None marked_batch = Inr None"
    using change [where a = 6 and v = None and c = None and s = 8 and w = 0 and u = 0] by (simp add: c empty_batch_reads)
  ultimately show ?thesis using c empty_batch_reads(1) by blast
qed

end
