(* ===== verification/Codecs.thy ===== *)
theory Codecs
  imports StateRead StorageWrite
begin

section \<open>Rows as bytes\<close>

text \<open>
  \<^verbatim>\<open>wasix_eth_storage/src/codecs.rs\<close> and the receipts of \<^verbatim>\<open>wasix_eth_types/src/lib.rs\<close>: how the keys and values of the tables are
  written to bytes and read back.  The tables of \<open>Storage\<close> hold typed values; a read of the code is \<open>from_bytes\<close> of what
  \<open>as_bytes\<close> made of the stored value, and a value that cannot be decoded is a panic.  RLP itself (\<open>alloy_rlp\<close>, \<open>alloy_consensus\<close>)
  and the text form of socket addresses are the fields of \<open>row_lib\<close>; \<open>row_lib_ok\<close> states what is documented of them.
\<close>

subsection \<open>Encoders and decoders\<close>

datatype codec_error = InputTooShort | UnexpectedString | UnexpectedLength | SlicePanic | CodecCustom string | CodecOther

record 'a codec =
  cd_enc :: "'a \<Rightarrow> bytes"
  cd_dec :: "bytes \<Rightarrow> codec_error + 'a \<times> bytes"

text \<open>What a receipt has besides its type: status, gas, logs, and the bloom filter.\<close>

type_synonym consensus_receipt = "(eip658_value \<times> u64 \<times> log_entry list) \<times> 2048 word"

record row_lib =
  rw_header :: "nat \<Rightarrow> bytes"
  rw_dec_header :: "bytes \<Rightarrow> codec_error + (bool \<times> nat) \<times> bytes"
  rw_address :: "address codec"
  rw_b256 :: "b256 codec"
  rw_u256 :: "u256 codec"
  rw_u64 :: "u64 codec"
  rw_bytes :: "bytes codec"
  rw_string :: "string codec"
  rw_block_header :: "header codec"
  rw_transaction :: "tx codec"
  rw_body :: "body codec"
  rw_block :: "block codec"
  rw_receipt :: "consensus_receipt codec"
  rw_receipts :: "receipt codec \<Rightarrow> receipt list codec"
  rw_metas :: "receipt_meta codec \<Rightarrow> receipt_meta list codec"
  rw_byte_lists :: "bytes list codec"
  rw_show_addr :: "string \<Rightarrow> string"
  rw_parse_addr :: "string \<Rightarrow> string option"

text \<open>\<open>&buf[..n]\<close> and \<open>&buf[n..]\<close>.\<close>

definition split_buf :: "nat \<Rightarrow> bytes \<Rightarrow> codec_error + bytes \<times> bytes" where
  "split_buf n buf = (if n \<le> length buf then Inr (take n buf, drop n buf) else Inl SlicePanic)"

definition put_list :: "row_lib \<Rightarrow> bytes \<Rightarrow> bytes" where
  "put_list L payload = rw_header L (length payload) @ payload"

definition u64_row :: "row_lib \<Rightarrow> u64 codec" where
  "u64_row L = \<lparr>cd_enc = (\<lambda>n. be_fixed 8 (unat n)),
     cd_dec = (\<lambda>buf. if buf = [] then Inl InputTooShort
        else if length buf = 8 then Inr (of_nat (be_val buf), [])
        else cd_dec (rw_u64 L) buf)\<rparr>"

text \<open>\<open>(Address, B256)\<close> and \<open>(B256, u64)\<close>; whether the header is one of a list is not looked at.\<close>

definition pair_row :: "row_lib \<Rightarrow> 'a codec \<Rightarrow> 'b codec \<Rightarrow> ('a \<times> 'b) codec" where
  "pair_row L c d = \<lparr>cd_enc = (\<lambda>(a, b). put_list L (cd_enc c a @ cd_enc d b)),
     cd_dec = (\<lambda>buf. rbind (rw_dec_header L buf) (\<lambda>(_, buf).
        rbind (cd_dec c buf) (\<lambda>(a, buf). rbind (cd_dec d buf) (\<lambda>(b, buf). Inr ((a, b), buf)))))\<rparr>"

text \<open>The loop over the entries of a change set; nothing makes it end unless each entry consumes something.\<close>

partial_function (option) entries_loop :: "(bytes \<Rightarrow> codec_error + 'a \<times> bytes) \<Rightarrow> 'a list \<Rightarrow> bytes \<Rightarrow> (codec_error + 'a list) option" where
  "entries_loop entry acc remaining =
     (if remaining = [] then Some (Inr acc)
      else case entry remaining of
          Inl e \<Rightarrow> Some (Inl e)
        | Inr (x, rest) \<Rightarrow> entries_loop entry (acc @ [x]) rest)"

definition change_set_decode ::
  "row_lib \<Rightarrow> (bytes \<Rightarrow> codec_error + 'a \<times> bytes) \<Rightarrow> bytes \<Rightarrow> (codec_error + 'a list \<times> bytes) option" where
  "change_set_decode L entry buf =
     (case rbind (rw_dec_header L buf) (\<lambda>((_, n), buf). split_buf n buf) of
        Inl e \<Rightarrow> Some (Inl e)
      | Inr (remaining, rest) \<Rightarrow> map_option (map_sum id (\<lambda>xs. (xs, rest))) (entries_loop entry [] remaining))"

definition account_change_encode :: "row_lib \<Rightarrow> address \<times> bytes option \<Rightarrow> bytes" where
  "account_change_encode L = (\<lambda>(a, b). put_list L (cd_enc (rw_address L) a @ (case b of Some v \<Rightarrow> cd_enc (rw_bytes L) v | None \<Rightarrow> [0xfb])))"

definition account_change_decode :: "row_lib \<Rightarrow> bytes \<Rightarrow> codec_error + (address \<times> bytes option) \<times> bytes" where
  "account_change_decode L buf =
     rbind (rw_dec_header L buf) (\<lambda>(_, buf). rbind (cd_dec (rw_address L) buf) (\<lambda>(a, buf).
       case buf of [] \<Rightarrow> Inl SlicePanic
       | x # xs \<Rightarrow> if x = 0xfb then Inr ((a, None), xs)
           else rbind (cd_dec (rw_bytes L) buf) (\<lambda>(v, buf). Inr ((a, Some v), buf))))"

definition account_changes_encode :: "row_lib \<Rightarrow> (address \<times> bytes option) list \<Rightarrow> bytes" where
  "account_changes_encode L cs = put_list L (concat (map (account_change_encode L) cs))"

definition account_changes_decode :: "row_lib \<Rightarrow> bytes \<Rightarrow> (codec_error + (address \<times> bytes option) list \<times> bytes) option" where
  "account_changes_decode L = change_set_decode L (account_change_decode L)"

definition storage_change_encode :: "row_lib \<Rightarrow> address \<times> b256 \<times> u256 \<Rightarrow> bytes" where
  "storage_change_encode L = (\<lambda>(a, s, v). put_list L (cd_enc (rw_address L) a @ cd_enc (rw_b256 L) s @ cd_enc (rw_u256 L) v))"

definition storage_change_decode :: "row_lib \<Rightarrow> bytes \<Rightarrow> codec_error + (address \<times> b256 \<times> u256) \<times> bytes" where
  "storage_change_decode L buf =
     rbind (rw_dec_header L buf) (\<lambda>(_, buf). rbind (cd_dec (rw_address L) buf) (\<lambda>(a, buf).
     rbind (cd_dec (rw_b256 L) buf) (\<lambda>(s, buf). rbind (cd_dec (rw_u256 L) buf) (\<lambda>(v, buf). Inr ((a, s, v), buf)))))"

definition storage_changes_encode :: "row_lib \<Rightarrow> (address \<times> b256 \<times> u256) list \<Rightarrow> bytes" where
  "storage_changes_encode L cs = put_list L (concat (map (storage_change_encode L) cs))"

definition storage_changes_decode :: "row_lib \<Rightarrow> bytes \<Rightarrow> (codec_error + (address \<times> b256 \<times> u256) list \<times> bytes) option" where
  "storage_changes_decode L = change_set_decode L (storage_change_decode L)"

text \<open>A receipt has its type in front, unless it is a legacy one.\<close>

definition receipt_body :: "receipt \<Rightarrow> consensus_receipt" where
  "receipt_body r = ((r_status r, r_cumulative_gas_used r, r_logs r), r_logs_bloom r)"

definition receipt_of :: "u8 \<Rightarrow> consensus_receipt \<Rightarrow> receipt" where
  "receipt_of ty = (\<lambda>((st, gas, logs), bloom).
     \<lparr>r_tx_type = ty, r_status = st, r_cumulative_gas_used = gas, r_logs = logs, r_logs_bloom = bloom\<rparr>)"

definition receipt_row :: "row_lib \<Rightarrow> receipt codec" where
  "receipt_row L = \<lparr>cd_enc = (\<lambda>r. if r_tx_type r = 0 then cd_enc (rw_receipt L) (receipt_body r)
        else r_tx_type r # cd_enc (rw_receipt L) (receipt_body r)),
     cd_dec = (\<lambda>buf. case buf of [] \<Rightarrow> Inl InputTooShort
        | x # xs \<Rightarrow> let (tx_type, buf) = (if x > 0x7f then (0, buf) else (x, xs))
            in rbind (cd_dec (rw_receipt L) buf) (\<lambda>(body, buf). Inr (receipt_of tx_type body, buf)))\<rparr>"

definition meta_row :: "row_lib \<Rightarrow> receipt_meta codec" where
  "meta_row L = \<lparr>cd_enc = (\<lambda>m. case rm_contract_address m of
        Some a \<Rightarrow> rw_header L 21 @ cd_enc (rw_address L) a | None \<Rightarrow> rw_header L 0),
     cd_dec = (\<lambda>buf. rbind (rw_dec_header L buf) (\<lambda>((is_list, n), buf).
        if \<not> is_list then Inl (CodecCustom ''Expected list for ReceiptMeta'')
        else rbind (split_buf n buf) (\<lambda>(body, rest).
          rbind (if body = [] then Inr (None, body)
                 else rbind (cd_dec (rw_address L) body) (\<lambda>(a, body). Inr (Some a, body))) (\<lambda>(a, body).
            if body \<noteq> [] then Inl UnexpectedLength else Inr (\<lparr>rm_contract_address = a\<rparr>, rest)))))\<rparr>"

definition bundle_encode :: "row_lib \<Rightarrow> blobs_bundle \<Rightarrow> bytes" where
  "bundle_encode L bu = put_list L (cd_enc (rw_byte_lists L) (bb_commitments bu) @ cd_enc (rw_byte_lists L) (bb_proofs bu) @
     cd_enc (rw_byte_lists L) (bb_blobs bu))"

text \<open>A list whose payload the reader takes off the buffer and must use up.\<close>

definition in_list :: "row_lib \<Rightarrow> (bytes \<Rightarrow> codec_error + 'a \<times> bytes) \<Rightarrow> bytes \<Rightarrow> codec_error + 'a \<times> bytes" where
  "in_list L inner buf =
     rbind (rw_dec_header L buf) (\<lambda>((is_list, n), buf).
       if \<not> is_list then Inl UnexpectedString
       else rbind (split_buf n buf) (\<lambda>(body, rest).
         rbind (inner body) (\<lambda>(x, body). if body \<noteq> [] then Inl UnexpectedLength else Inr (x, rest))))"

definition bundle_decode :: "row_lib \<Rightarrow> bytes \<Rightarrow> codec_error + blobs_bundle \<times> bytes" where
  "bundle_decode L = in_list L (\<lambda>buf.
     rbind (cd_dec (rw_byte_lists L) buf) (\<lambda>(cs, buf). rbind (cd_dec (rw_byte_lists L) buf) (\<lambda>(ps, buf).
     rbind (cd_dec (rw_byte_lists L) buf) (\<lambda>(bs, buf). Inr (\<lparr>bb_commitments = cs, bb_proofs = ps, bb_blobs = bs\<rparr>, buf)))))"

definition payload_row :: "row_lib \<Rightarrow> payload codec" where
  "payload_row L = \<lparr>cd_enc = (\<lambda>(b, rs, ms, bu). put_list L (cd_enc (rw_block L) b @ cd_enc (rw_receipts L (receipt_row L)) rs @
        cd_enc (rw_metas L (meta_row L)) ms @ bundle_encode L bu)),
     cd_dec = in_list L (\<lambda>buf. rbind (cd_dec (rw_block L) buf) (\<lambda>(b, buf).
        rbind (cd_dec (rw_receipts L (receipt_row L)) buf) (\<lambda>(rs, buf). rbind (cd_dec (rw_metas L (meta_row L)) buf) (\<lambda>(ms, buf).
        rbind (bundle_decode L buf) (\<lambda>(bu, buf). Inr ((b, rs, ms, bu), buf))))))\<rparr>"

definition peer_row :: "row_lib \<Rightarrow> peer_entry codec" where
  "peer_row L = \<lparr>cd_enc = (\<lambda>p. put_list L (cd_enc (rw_string L) (pe_peer_id p) @
        cd_enc (rw_string L) (rw_show_addr L (pe_discovery_addr p)) @ cd_enc (rw_string L) (rw_show_addr L (pe_p2p_addr p)))),
     cd_dec = (\<lambda>buf. rbind (rw_dec_header L buf) (\<lambda>((is_list, n), buf).
        if \<not> is_list then Inl (CodecCustom ''Expected list for PeerEntry'')
        else rbind (cd_dec (rw_string L) buf) (\<lambda>(pid, buf). rbind (cd_dec (rw_string L) buf) (\<lambda>(da, buf).
          rbind (cd_dec (rw_string L) buf) (\<lambda>(pa, buf).
          rbind (ok_or (rw_parse_addr L da) (CodecCustom ''Invalid discovery_addr'')) (\<lambda>d.
          rbind (ok_or (rw_parse_addr L pa) (CodecCustom ''Invalid p2p_addr'')) (\<lambda>p.
            Inr (\<lparr>pe_peer_id = pid, pe_discovery_addr = d, pe_p2p_addr = p\<rparr>, buf))))))))\<rparr>"

text \<open>\<open>RlpValue\<close>: a row that cannot be decoded is a panic, here the error.\<close>

definition as_bytes :: "'a codec \<Rightarrow> 'a \<Rightarrow> bytes" where
  "as_bytes c v = cd_enc c v"

definition from_bytes :: "'a codec \<Rightarrow> bytes \<Rightarrow> codec_error + 'a" where
  "from_bytes c data = rbind (cd_dec c data) (\<lambda>(v, _). Inr v)"

subsection \<open>What is relied on of the libraries\<close>

definition reads_back :: "'a codec \<Rightarrow> 'a \<Rightarrow> bool" where
  "reads_back c x \<longleftrightarrow> (\<forall>rest. cd_dec c (cd_enc c x @ rest) = Inr (x, rest))"

text \<open>List headers, and the items of fixed or small size, are read back; a string never starts with \<open>0xfb\<close>, the header of a long list,
  and a receipt, which is a list, never with a byte below \<open>0x80\<close>; a vector is read back if its items are.\<close>

definition row_lib_ok :: "row_lib \<Rightarrow> bool" where
  "row_lib_ok L \<longleftrightarrow>
     (\<forall>n rest. n < 2 ^ 64 \<longrightarrow> n \<le> length rest \<longrightarrow> rw_dec_header L (rw_header L n @ rest) = Inr ((True, n), rest)) \<and>
     (\<forall>n. rw_header L n \<noteq> []) \<and>
     (\<forall>a. reads_back (rw_address L) a \<and> length (cd_enc (rw_address L) a) = 21) \<and>
     (\<forall>h. reads_back (rw_b256 L) h \<and> length (cd_enc (rw_b256 L) h) = 33) \<and>
     (\<forall>v. reads_back (rw_u256 L) v \<and> length (cd_enc (rw_u256 L) v) \<le> 33) \<and>
     (\<forall>n. reads_back (rw_u64 L) n \<and> length (cd_enc (rw_u64 L) n) \<le> 9) \<and>
     (\<forall>b. length (cd_enc (rw_bytes L) b) < 2 ^ 64 \<longrightarrow> reads_back (rw_bytes L) b \<and> (\<exists>x xs. cd_enc (rw_bytes L) b = x # xs \<and> x \<noteq> 0xfb)) \<and>
     (\<forall>r. \<exists>x xs. cd_enc (rw_receipt L) r = x # xs \<and> 0x7f < x) \<and>
     (\<forall>c rs. length (cd_enc (rw_receipts L c) rs) < 2 ^ 64 \<longrightarrow> list_all (\<lambda>x. reads_back c x \<and> cd_enc c x \<noteq> []) rs \<longrightarrow>
        reads_back (rw_receipts L c) rs) \<and>
     (\<forall>c ms. length (cd_enc (rw_metas L c) ms) < 2 ^ 64 \<longrightarrow> list_all (\<lambda>x. reads_back c x \<and> cd_enc c x \<noteq> []) ms \<longrightarrow>
        reads_back (rw_metas L c) ms)"

lemma row_laws:
  assumes "row_lib_ok L"
  shows "n < 2 ^ 64 \<Longrightarrow> n \<le> length rest \<Longrightarrow> rw_dec_header L (rw_header L n @ rest) = Inr ((True, n), rest)"
    and "rw_header L n \<noteq> []"
    and "cd_dec (rw_address L) (cd_enc (rw_address L) a @ rest) = Inr (a, rest)" and "length (cd_enc (rw_address L) a) = 21"
    and "reads_back (rw_b256 L) h" and "length (cd_enc (rw_b256 L) h) = 33"
    and "reads_back (rw_u256 L) v" and "length (cd_enc (rw_u256 L) v) \<le> 33"
    and "reads_back (rw_u64 L) k" and "length (cd_enc (rw_u64 L) k) \<le> 9"
  using assms by (simp_all add: row_lib_ok_def reads_back_def)

lemma row_bytes:
  assumes "row_lib_ok L" and "length (cd_enc (rw_bytes L) b) < 2 ^ 64"
  obtains x xs where "cd_enc (rw_bytes L) b = x # xs" "x \<noteq> 0xfb" "cd_dec (rw_bytes L) (x # xs @ rest) = Inr (b, rest)"
proof -
  from assms obtain x xs where "cd_enc (rw_bytes L) b = x # xs" "x \<noteq> 0xfb" "reads_back (rw_bytes L) b"
    unfolding row_lib_ok_def by blast
  then show thesis by (intro that) (auto simp: reads_back_def dest: spec [of _ rest])
qed

lemma put_list_dec:
  "row_lib_ok L \<Longrightarrow> length payload < 2 ^ 64 \<Longrightarrow>
    rw_dec_header L (put_list L payload @ rest) = Inr ((True, length payload), payload @ rest)"
  by (simp add: put_list_def row_laws(1))

lemma put_list_nonempty: "row_lib_ok L \<Longrightarrow> put_list L payload \<noteq> []"
  by (simp add: put_list_def row_laws(2))

lemma put_list_length: "length payload \<le> length (put_list L payload)"
  by (simp add: put_list_def)

lemma split_buf_append [simp]: "split_buf (length xs) (xs @ ys) = Inr (xs, ys)"
  by (simp add: split_buf_def)

lemma from_as_bytes:
  assumes "reads_back c x"
  shows "from_bytes c (as_bytes c x) = Inr x"
proof -
  have "cd_dec c (cd_enc c x @ []) = Inr (x, [])" using assms unfolding reads_back_def by blast
  then show ?thesis by (simp add: from_bytes_def as_bytes_def)
qed

subsection \<open>Values survive their encoding\<close>

lemma be_val_be_fixed: "x < 256 ^ n \<Longrightarrow> be_val (be_fixed n x) = x"
proof (induction n arbitrary: x)
  case (Suc n)
  have "be_fixed (Suc n) x = be_fixed n (x div 256) @ [of_nat (x mod 256)]"
    by (rule nth_equalityI)
      (auto simp: be_fixed_def nth_append less_Suc_eq div_mult2_eq [symmetric] Suc_diff_Suc power_Suc [symmetric] simp del: power_Suc)
  moreover have "x div 256 < 256 ^ n" using Suc.prems by (simp add: less_mult_imp_div_less mult.commute)
  moreover have "unat (of_nat (x mod 256) :: u8) = x mod 256" by (simp add: unat_of_nat)
  ultimately show ?case using Suc.IH by (simp add: be_val_append)
qed (simp add: be_fixed_def be_val_def)

lemma u64_reads_back: "cd_dec (u64_row L) (cd_enc (u64_row L) n) = Inr (n, [])"
proof -
  have "unat n < 2 ^ LENGTH(64)" by (rule unsigned_less)
  then have "be_val (be_fixed 8 (unat n)) = unat n" by (intro be_val_be_fixed) simp
  moreover have "length (be_fixed 8 (unat n)) = 8" by (simp add: be_fixed_def)
  ultimately show ?thesis by (simp add: u64_row_def) (metis length_0_conv numeral_eq_iff zero_neq_numeral)
qed

lemma pair_reads_back:
  assumes "row_lib_ok L" "reads_back c a" "reads_back d b" "length (cd_enc c a @ cd_enc d b) < 2 ^ 64"
  shows "reads_back (pair_row L c d) (a, b)"
  using assms put_list_dec [OF assms(1,4)] by (simp add: reads_back_def pair_row_def)

lemma entries_loop_all:
  assumes "\<And>x rest. x \<in> set xs \<Longrightarrow> entry (f x @ rest) = Inr (x, rest) \<and> f x \<noteq> []"
  shows "entries_loop entry acc (concat (map f xs)) = Some (Inr (acc @ xs))"
  using assms
proof (induction xs arbitrary: acc)
  case (Cons x xs)
  have "entry (f x @ concat (map f xs)) = Inr (x, concat (map f xs))" "f x \<noteq> []" using Cons.prems by auto
  then show ?case using Cons.IH [of "acc @ [x]"] Cons.prems by (subst entries_loop.simps) simp
qed (simp add: entries_loop.simps)

lemma concat_part: "x \<in> set xs \<Longrightarrow> length (f x) \<le> length (concat (map f xs))"
  by (induction xs) auto

lemma change_set_reads_back:
  assumes "row_lib_ok L" and "length (put_list L (concat (map f xs))) < 2 ^ 64"
    and "\<And>x rest. x \<in> set xs \<Longrightarrow> length (f x) < 2 ^ 64 \<Longrightarrow> entry (f x @ rest) = Inr (x, rest) \<and> f x \<noteq> []"
  shows "change_set_decode L entry (put_list L (concat (map f xs)) @ rest) = Some (Inr (xs, rest))"
proof -
  have l: "length (concat (map f xs)) < 2 ^ 64" using assms(2) put_list_length [of "concat (map f xs)" L] by simp
  have "length (f x) < 2 ^ 64" if "x \<in> set xs" for x using concat_part [OF that, of f] l by simp
  then have "entries_loop entry [] (concat (map f xs)) = Some (Inr xs)" using entries_loop_all [of xs entry f "[]"] assms(3) by simp
  with put_list_dec [OF assms(1) l] show ?thesis by (simp add: change_set_decode_def del: length_concat)
qed

lemma account_change_reads_back:
  assumes "row_lib_ok L" "length (account_change_encode L x) < 2 ^ 64"
  shows "account_change_decode L (account_change_encode L x @ rest) = Inr (x, rest) \<and> account_change_encode L x \<noteq> []"
proof -
  obtain a b where x: "x = (a, b)" by (cases x)
  let ?tail = "case b of Some v \<Rightarrow> cd_enc (rw_bytes L) v | None \<Rightarrow> [0xfb]"
  have e: "account_change_encode L x = put_list L (cd_enc (rw_address L) a @ ?tail)" by (simp add: account_change_encode_def x)
  have l: "length (cd_enc (rw_address L) a @ ?tail) < 2 ^ 64" using assms(2) put_list_length [of "cd_enc (rw_address L) a @ ?tail" L] e by simp
  note h = put_list_dec [OF assms(1) l, of rest]
  show ?thesis
  proof (cases b)
    case None
    then show ?thesis
      using h put_list_nonempty [OF assms(1)] row_laws(3) [OF assms(1)] by (simp add: account_change_encode_def x account_change_decode_def)
  next
    case (Some v)
    with l have "length (cd_enc (rw_bytes L) v) < 2 ^ 64" by simp
    then obtain y ys where "cd_enc (rw_bytes L) v = y # ys" "y \<noteq> 0xfb" "cd_dec (rw_bytes L) (y # ys @ rest) = Inr (v, rest)"
      using row_bytes [OF assms(1)] by blast
    with Some show ?thesis
      using h put_list_nonempty [OF assms(1)] row_laws(3) [OF assms(1)] by (simp add: account_change_encode_def x account_change_decode_def)
  qed
qed

lemma storage_change_reads_back:
  assumes "row_lib_ok L"
  shows "storage_change_decode L (storage_change_encode L x @ rest) = Inr (x, rest) \<and> storage_change_encode L x \<noteq> []"
proof -
  obtain a s v where x: "x = (a, s, v)" by (metis prod.collapse)
  have "length (cd_enc (rw_address L) a @ cd_enc (rw_b256 L) s @ cd_enc (rw_u256 L) v) < 2 ^ 64"
    using row_laws(4) [OF assms, of a] row_laws(6) [OF assms, of s] row_laws(8) [OF assms, of v] by simp
  from put_list_dec [OF assms this, of rest] show ?thesis
    using put_list_nonempty [OF assms] row_laws(3,5,7) [OF assms] by (simp add: x storage_change_encode_def storage_change_decode_def reads_back_def)
qed

lemma receipt_of_body [simp]: "receipt_of (r_tx_type r) (receipt_body r) = r" "r_tx_type (receipt_of ty b) = ty"
  by (simp_all add: receipt_of_def receipt_body_def split_beta)

lemma receipt_reads_back:
  assumes "row_lib_ok L" "reads_back (rw_receipt L) (receipt_body r)" "r_tx_type r < 0x80"
  shows "reads_back (receipt_row L) r" and "cd_enc (receipt_row L) r \<noteq> []"
proof -
  obtain x xs where x: "cd_enc (rw_receipt L) (receipt_body r) = x # xs" "0x7f < x" using assms(1) unfolding row_lib_ok_def by blast
  have d: "cd_dec (rw_receipt L) (x # xs @ rest) = Inr (receipt_body r, rest)" for rest
    using assms(2) x(1) by (auto simp: reads_back_def dest: spec [of _ rest])
  have t: "\<not> 0x7f < r_tx_type r" using assms(3) by (simp add: word_less_nat_alt)
  have "cd_dec (receipt_row L) (cd_enc (receipt_row L) r @ rest) = Inr (r, rest)" for rest
  proof (cases "r_tx_type r = 0")
    case True
    then show ?thesis using receipt_of_body(1) [of r] by (simp add: receipt_row_def x d)
  next
    case False
    then show ?thesis using t by (simp add: receipt_row_def x d)
  qed
  then show "reads_back (receipt_row L) r" by (simp add: reads_back_def)
  show "cd_enc (receipt_row L) r \<noteq> []" using x by (simp add: receipt_row_def)
qed

lemma high_receipt_lost:
  assumes "\<not> r_tx_type r < 0x80"
  shows "from_bytes (receipt_row L) (as_bytes (receipt_row L) r) \<noteq> Inr r"
proof -
  have t: "0x7f < r_tx_type r" "r_tx_type r \<noteq> 0" using assms by (auto simp: word_less_nat_alt)
  let ?buf = "r_tx_type r # cd_enc (rw_receipt L) (receipt_body r)"
  have "from_bytes (receipt_row L) (as_bytes (receipt_row L) r) = rbind (cd_dec (rw_receipt L) ?buf) (\<lambda>(b, _). Inr (receipt_of 0 b))"
    using t by (cases "cd_dec (rw_receipt L) ?buf") (simp_all add: from_bytes_def as_bytes_def receipt_row_def split_beta)
  moreover have "receipt_of 0 b \<noteq> r" for b using t(2) by auto
  ultimately show ?thesis by (cases "cd_dec (rw_receipt L) ?buf") (simp_all add: split_beta)
qed

lemma meta_reads_back:
  assumes "row_lib_ok L"
  shows "reads_back (meta_row L) m" and "cd_enc (meta_row L) m \<noteq> []"
proof -
  have h: "rw_dec_header L (rw_header L 21 @ cd_enc (rw_address L) a @ rest) = Inr ((True, 21), cd_enc (rw_address L) a @ rest)"
    "rw_dec_header L (rw_header L 0 @ rest) = Inr ((True, 0), rest)" for a rest
    using row_laws(1) [OF assms, of 21] row_laws(1) [OF assms, of 0] row_laws(4) [OF assms] by simp_all
  have s: "split_buf 21 (cd_enc (rw_address L) a @ rest) = Inr (cd_enc (rw_address L) a, rest)" "cd_enc (rw_address L) a \<noteq> []" for a rest
    using row_laws(4) [OF assms, of a] split_buf_append [of "cd_enc (rw_address L) a" rest] by (auto simp del: split_buf_append)
  have "cd_dec (rw_address L) (cd_enc (rw_address L) a) = Inr (a, [])" for a using row_laws(3) [OF assms, of a "[]"] by simp
  with h s show "reads_back (meta_row L) m"
    by (cases m; cases "rm_contract_address m") (simp_all add: reads_back_def meta_row_def split_buf_def [of 0])
  show "cd_enc (meta_row L) m \<noteq> []" using row_laws(2) [OF assms] by (simp add: meta_row_def split: option.split)
qed

lemma in_list_reads_back:
  assumes "row_lib_ok L" and "length (put_list L payload) < 2 ^ 64" and "inner payload = Inr (x, [])"
  shows "in_list L inner (put_list L payload @ rest) = Inr (x, rest)"
proof -
  have l: "length payload < 2 ^ 64" using assms(2) put_list_length [of payload L] by simp
  show ?thesis by (simp add: in_list_def put_list_dec [OF assms(1) l] assms(3))
qed

lemma bundle_reads_back:
  assumes "row_lib_ok L" and "length (bundle_encode L bu) < 2 ^ 64"
    and "reads_back (rw_byte_lists L) (bb_commitments bu)" "reads_back (rw_byte_lists L) (bb_proofs bu)"
    and "cd_dec (rw_byte_lists L) (cd_enc (rw_byte_lists L) (bb_blobs bu)) = Inr (bb_blobs bu, [])"
  shows "bundle_decode L (bundle_encode L bu @ rest) = Inr (bu, rest)"
  unfolding bundle_decode_def bundle_encode_def
  by (rule in_list_reads_back [OF assms(1)]) (use assms(2-5) in \<open>simp_all add: bundle_encode_def reads_back_def\<close>)

text \<open>A stored payload is read back, if its block and its blobs are and no receipt has a type above \<open>0x7f\<close>.\<close>

theorem payload_reads_back:
  assumes "row_lib_ok L" and "length (as_bytes (payload_row L) (b, rs, ms, bu)) < 2 ^ 64" and "reads_back (rw_block L) b"
    and "list_all (\<lambda>r. reads_back (rw_receipt L) (receipt_body r) \<and> r_tx_type r < 0x80) rs"
    and "list_all (reads_back (rw_byte_lists L)) [bb_commitments bu, bb_proofs bu, bb_blobs bu]"
  shows "from_bytes (payload_row L) (as_bytes (payload_row L) (b, rs, ms, bu)) = Inr (b, rs, ms, bu)"
proof -
  let ?p = "cd_enc (rw_block L) b @ cd_enc (rw_receipts L (receipt_row L)) rs @ cd_enc (rw_metas L (meta_row L)) ms @ bundle_encode L bu"
  have l: "length ?p < 2 ^ 64" using assms(2) put_list_length [of ?p L] by (simp add: as_bytes_def payload_row_def)
  have "list_all (\<lambda>x. reads_back (receipt_row L) x \<and> cd_enc (receipt_row L) x \<noteq> []) rs"
    using assms(4) receipt_reads_back [OF assms(1)] by (auto simp: list_all_iff)
  then have rs: "reads_back (rw_receipts L (receipt_row L)) rs" using assms(1) l unfolding row_lib_ok_def by simp
  have "list_all (\<lambda>x. reads_back (meta_row L) x \<and> cd_enc (meta_row L) x \<noteq> []) ms"
    using meta_reads_back [OF assms(1)] by (simp add: list_all_iff)
  then have ms: "reads_back (rw_metas L (meta_row L)) ms" using assms(1) l unfolding row_lib_ok_def by simp
  have bu: "bundle_decode L (bundle_encode L bu) = Inr (bu, [])"
    using bundle_reads_back [OF assms(1), of bu "[]"] l assms(5) by (auto simp: reads_back_def dest: spec [of _ "[]"])
  have "in_list L (\<lambda>buf. rbind (cd_dec (rw_block L) buf) (\<lambda>(b, buf).
        rbind (cd_dec (rw_receipts L (receipt_row L)) buf) (\<lambda>(rs, buf). rbind (cd_dec (rw_metas L (meta_row L)) buf) (\<lambda>(ms, buf).
        rbind (bundle_decode L buf) (\<lambda>(bu, buf). Inr ((b, rs, ms, bu), buf)))))) (put_list L ?p @ []) = Inr ((b, rs, ms, bu), [])"
    by (rule in_list_reads_back [OF assms(1)]) (use assms(2,3) rs ms bu in \<open>simp_all add: reads_back_def as_bytes_def payload_row_def\<close>)
  then show ?thesis by (simp add: from_bytes_def as_bytes_def payload_row_def)
qed

theorem peer_reads_back:
  assumes "row_lib_ok L" and "length (as_bytes (peer_row L) p) < 2 ^ 64"
    and "list_all (reads_back (rw_string L)) [pe_peer_id p, rw_show_addr L (pe_discovery_addr p), rw_show_addr L (pe_p2p_addr p)]"
    and "rw_parse_addr L (rw_show_addr L (pe_discovery_addr p)) = Some (pe_discovery_addr p)"
    and "rw_parse_addr L (rw_show_addr L (pe_p2p_addr p)) = Some (pe_p2p_addr p)"
  shows "from_bytes (peer_row L) (as_bytes (peer_row L) p) = Inr p"
proof -
  let ?s = "cd_enc (rw_string L) (pe_peer_id p) @ cd_enc (rw_string L) (rw_show_addr L (pe_discovery_addr p)) @
    cd_enc (rw_string L) (rw_show_addr L (pe_p2p_addr p))"
  have l: "length ?s < 2 ^ 64" using assms(2) put_list_length [of ?s L] by (simp add: as_bytes_def peer_row_def)
  have d: "cd_dec (rw_string L) (cd_enc (rw_string L) (rw_show_addr L (pe_p2p_addr p))) = Inr (rw_show_addr L (pe_p2p_addr p), [])"
    using assms(3) by (auto simp: reads_back_def dest: spec [of _ "[]"])
  have "rw_dec_header L (put_list L ?s) = Inr ((True, length ?s), ?s)" using put_list_dec [OF assms(1) l, of "[]"] by simp
  then show ?thesis
    using assms(3-5) d by (simp add: from_bytes_def as_bytes_def peer_row_def reads_back_def ok_or_def)
qed

text \<open>C20: what is written to a table is read back.  Numbers, the two kinds of composite keys, receipt metadata and both kinds of
  change sets are decoded to the value that was encoded, whatever it is (the change sets as long as their encoding is shorter
  than $2^{64}$ bytes), and decoding the change sets ends.  A receipt is read back exactly if its type is below \<open>0x80\<close>, provided
  that the library reads back what is inside it.\<close>

theorem rows_read_back:
  assumes "row_lib_ok L"
  shows "from_bytes (u64_row L) (as_bytes (u64_row L) n) = Inr n \<and>
    from_bytes (pair_row L (rw_address L) (rw_b256 L)) (as_bytes (pair_row L (rw_address L) (rw_b256 L)) (a, h)) = Inr (a, h) \<and>
    from_bytes (pair_row L (rw_b256 L) (rw_u64 L)) (as_bytes (pair_row L (rw_b256 L) (rw_u64 L)) (h, n)) = Inr (h, n) \<and>
    from_bytes (meta_row L) (as_bytes (meta_row L) m) = Inr m \<and>
    (length (account_changes_encode L acs) < 2 ^ 64 \<longrightarrow>
      account_changes_decode L (account_changes_encode L acs) = Some (Inr (acs, []))) \<and>
    (length (storage_changes_encode L scs) < 2 ^ 64 \<longrightarrow>
      storage_changes_decode L (storage_changes_encode L scs) = Some (Inr (scs, []))) \<and>
    (reads_back (rw_receipt L) (receipt_body r) \<longrightarrow>
      (from_bytes (receipt_row L) (as_bytes (receipt_row L) r) = Inr r \<longleftrightarrow> r_tx_type r < 0x80))"
proof (intro conjI impI)
  show "from_bytes (u64_row L) (as_bytes (u64_row L) n) = Inr n" by (simp add: from_bytes_def as_bytes_def u64_reads_back)
  have "reads_back (pair_row L (rw_address L) (rw_b256 L)) (a, h)"
    using row_laws(3-6) [OF assms] by (intro pair_reads_back [OF assms]) (simp_all add: reads_back_def)
  then show "from_bytes (pair_row L (rw_address L) (rw_b256 L)) (as_bytes (pair_row L (rw_address L) (rw_b256 L)) (a, h)) = Inr (a, h)"
    by (rule from_as_bytes)
  have "length (cd_enc (rw_b256 L) h @ cd_enc (rw_u64 L) n) < 2 ^ 64"
    using row_laws(6) [OF assms, of h] row_laws(10) [OF assms, of n] by simp
  then have "reads_back (pair_row L (rw_b256 L) (rw_u64 L)) (h, n)"
    by (intro pair_reads_back [OF assms row_laws(5) [OF assms] row_laws(9) [OF assms]])
  then show "from_bytes (pair_row L (rw_b256 L) (rw_u64 L)) (as_bytes (pair_row L (rw_b256 L) (rw_u64 L)) (h, n)) = Inr (h, n)"
    by (rule from_as_bytes)
  show "from_bytes (meta_row L) (as_bytes (meta_row L) m) = Inr m"
    by (rule from_as_bytes [OF meta_reads_back(1) [OF assms]])
  show "account_changes_decode L (account_changes_encode L acs) = Some (Inr (acs, []))" if "length (account_changes_encode L acs) < 2 ^ 64"
    using change_set_reads_back [OF assms that [unfolded account_changes_encode_def], of "account_change_decode L" "[]"]
      account_change_reads_back [OF assms] by (simp add: account_changes_decode_def account_changes_encode_def)
  show "storage_changes_decode L (storage_changes_encode L scs) = Some (Inr (scs, []))" if "length (storage_changes_encode L scs) < 2 ^ 64"
    using change_set_reads_back [OF assms that [unfolded storage_changes_encode_def], of "storage_change_decode L" "[]"]
      storage_change_reads_back [OF assms] by (simp add: storage_changes_decode_def storage_changes_encode_def)
  show "from_bytes (receipt_row L) (as_bytes (receipt_row L) r) = Inr r \<longleftrightarrow> r_tx_type r < 0x80" if "reads_back (rw_receipt L) (receipt_body r)"
    using from_as_bytes [OF receipt_reads_back(1) [OF assms that]] high_receipt_lost [of r L] by blast
qed

lemma be_val_Cons: "be_val (x # bs) = unat x * 256 ^ length bs + be_val bs"
  by (induction bs rule: rev_induct) (simp_all add: be_val_def algebra_simps)

text \<open>The fallback for numbers of older databases, which were written as RLP, goes by the length: a number of seven bytes takes eight
  with its header, and is read as if the header were its first byte.\<close>

theorem seven_byte_number_misread:
  assumes "cd_enc (rw_u64 L) n = 0x87 # bs" "length bs = 7"
  shows "from_bytes (u64_row L) (cd_enc (rw_u64 L) n) = Inr (of_nat (0x87 * 256 ^ 7 + be_val bs))"
  using assms be_val_Cons [of "0x87" bs] by (simp add: from_bytes_def u64_row_def)

subsection \<open>Stored blocks\<close>

datatype row_error = RowStore storage_error | RowPanic codec_error

text \<open>A read of the code: the typed row, through its bytes.\<close>

definition reread :: "'a codec \<Rightarrow> storage_error + 'a option \<Rightarrow> row_error + 'a option" where
  "reread c r = (case r of
       Inl e \<Rightarrow> Inl (RowStore e)
     | Inr None \<Rightarrow> Inr None
     | Inr (Some v) \<Rightarrow> (case from_bytes c (as_bytes c v) of Inl e \<Rightarrow> Inl (RowPanic e) | Inr w \<Rightarrow> Inr (Some w)))"

lemma reread_same: "reads_back c v \<Longrightarrow> r = Inr (Some v) \<Longrightarrow> reread c r = Inr (Some v)"
  by (simp add: reread_def from_as_bytes)

lemma reread_u64: "r = Inr (Some n) \<Longrightarrow> reread (u64_row L) r = Inr (Some n)"
  by (simp add: reread_def from_bytes_def as_bytes_def u64_reads_back)

text \<open>C19: storing a block succeeds whenever its tables can be opened and the commit goes through, and then every read of the block
  through the codecs gives what was stored: header and body, the number, the total difficulty (the parent's plus its own),
  every transaction by hash with its position, every receipt and receipt metadata by index.  The hash is not zero, the
  hashes of the transactions are distinct, the receipts have types below \<open>0x80\<close>, and the libraries read back the header, the
  body, the transactions and the contents of the receipts.\<close>

theorem stored_block_readable:
  assumes "row_lib_ok L"
    and "\<forall>T \<in> set block_tables. db_opens (s_db s) T" and "s_commits s"
    and "hs (b_header b) \<noteq> 0" and "distinct (map tx_hash (b_transactions (b_body b)))"
    and "length receipts \<le> 2 ^ 64" and "length metas \<le> 2 ^ 64"
    and "reads_back (rw_block_header L) (b_header b)" and "reads_back (rw_body L) (b_body b)"
    and "list_all (reads_back (rw_transaction L)) (b_transactions (b_body b))"
    and "list_all (\<lambda>r. reads_back (rw_receipt L) (receipt_body r) \<and> r_tx_type r < 0x80) receipts"
  shows "\<exists>s'. insert_block hs b receipts metas s = (Inr (), s') \<and>
    (let d' = s_db s'; hash = hs (b_header b); hdr = b_header b in
      reread (rw_block_header L) (header (IdHash hash) d') = Inr (Some hdr) \<and>
      reread (rw_body L) (block_body_by_hash hash d') = Inr (Some (b_body b)) \<and>
      reread (u64_row L) (block_number hash d') = Inr (Some (h_number hdr)) \<and>
      reread (rw_u256 L) (header_td hash d') = Inr (Some ((if h_number hdr = 0 then 0
        else unwrap_or (tbl_get (t_header_td (s_db s)) (h_parent_hash hdr)) 0) + h_difficulty hdr)) \<and>
      (\<forall>i < length (b_transactions (b_body b)). let t = b_transactions (b_body b) ! i in
         reread (rw_transaction L) (transaction (tx_hash t) d') = Inr (Some t) \<and>
         reread (pair_row L (rw_b256 L) (rw_u64 L)) (transaction_lookup (tx_hash t) d') = Inr (Some (hash, of_nat i))) \<and>
      (\<forall>i < length receipts. reread (receipt_row L) (receipt_at hash (of_nat i) d') = Inr (Some (receipts ! i))) \<and>
      (\<forall>i < length metas. reread (meta_row L) (receipt_meta_at hash (of_nat i) d') = Inr (Some (metas ! i))))"
proof -
  from insert_block_rows [where s = s and hs = hs and b = b and receipts = receipts and metas = metas, OF assms(2-7)] obtain s' where ins: "insert_block hs b receipts metas s = (Inr (), s')"
    and r: "block_by_hash hs (hs (b_header b)) (s_db s') = Inr (Some b)" "block_number (hs (b_header b)) (s_db s') = Inr (Some (h_number (b_header b)))"
    "header_td (hs (b_header b)) (s_db s') = Inr (Some ((if h_number (b_header b) = 0 then 0
        else unwrap_or (tbl_get (t_header_td (s_db s)) (h_parent_hash (b_header b))) 0) + h_difficulty (b_header b)))"
    and t: "\<And>i. i < length (b_transactions (b_body b)) \<Longrightarrow>
         transaction (tx_hash (b_transactions (b_body b) ! i)) (s_db s') = Inr (Some (b_transactions (b_body b) ! i)) \<and>
         transaction_lookup (tx_hash (b_transactions (b_body b) ! i)) (s_db s') = Inr (Some (hs (b_header b), of_nat i))"
    and rc: "\<And>i. i < length receipts \<Longrightarrow> receipt_at (hs (b_header b)) (of_nat i) (s_db s') = Inr (Some (receipts ! i))"
    and mt: "\<And>i. i < length metas \<Longrightarrow> receipt_meta_at (hs (b_header b)) (of_nat i) (s_db s') = Inr (Some (metas ! i))"
    unfolding Let_def by blast
  have hb: "header (IdHash (hs (b_header b))) (s_db s') = Inr (Some (b_header b))"
    "block_body_by_hash (hs (b_header b)) (s_db s') = Inr (Some (b_body b))"
    using r(1) by (auto simp: block_by_hash_def block_def rbind_Inr_iff split: option.splits)
  have "length (cd_enc (rw_b256 L) h @ cd_enc (rw_u64 L) n) < 2 ^ 64" for h n
    using row_laws(6) [OF assms(1), of h] row_laws(10) [OF assms(1), of n] by simp
  then have look: "reads_back (pair_row L (rw_b256 L) (rw_u64 L)) (h, n)" for h n
    by (intro pair_reads_back [OF assms(1) row_laws(5) [OF assms(1)] row_laws(9) [OF assms(1)]])
  have rb: "reads_back (receipt_row L) (receipts ! i)" if "i < length receipts" for i
    using assms(11) that receipt_reads_back(1) [OF assms(1)] by (simp add: list_all_length)
  show ?thesis
    using ins reread_same [OF assms(8) hb(1)] reread_same [OF assms(9) hb(2)] reread_u64 [OF r(2)] reread_same [OF row_laws(7) [OF assms(1)] r(3)]
      assms(10) t rc mt reread_same [OF look] reread_same [OF rb] reread_same [OF meta_reads_back(1) [OF assms(1)]]
    by (simp add: Let_def list_all_length reread_same)
qed

subsection \<open>A reference instance of the library\<close>

text \<open>RLP items of the reference instance of the trie, words at full width; the compound values have a sample or two each.\<close>

definition item_codec :: "('a \<Rightarrow> bytes) \<Rightarrow> (bytes \<Rightarrow> 'a) \<Rightarrow> 'a codec" where
  "item_codec f g = \<lparr>cd_enc = (\<lambda>x. ref_bytes (f x)),
     cd_dec = (\<lambda>buf. case ref_dec_header buf of Some ((False, n), r) \<Rightarrow> Inr (g (take n r), drop n r) | _ \<Rightarrow> Inl CodecOther)\<rparr>"

definition one_codec :: "'a \<Rightarrow> 'a codec" where
  "one_codec v = \<lparr>cd_enc = (\<lambda>_. [0x80]), cd_dec = (\<lambda>buf. case buf of [] \<Rightarrow> Inl InputTooShort | _ # xs \<Rightarrow> Inr (v, xs))\<rparr>"

definition two_codec :: "'a \<Rightarrow> 'a \<Rightarrow> 'a codec" where
  "two_codec u v = \<lparr>cd_enc = (\<lambda>x. if x = u then [1] else [2]),
     cd_dec = (\<lambda>buf. case buf of [] \<Rightarrow> Inl InputTooShort | k # xs \<Rightarrow> Inr (if k = 1 then u else v, xs))\<rparr>"

fun take_many :: "'a codec \<Rightarrow> nat \<Rightarrow> bytes \<Rightarrow> codec_error + 'a list \<times> bytes" where
  "take_many c 0 buf = Inr ([], buf)"
| "take_many c (Suc n) buf = rbind (cd_dec c buf) (\<lambda>(x, buf). rbind (take_many c n buf) (\<lambda>(xs, buf). Inr (x # xs, buf)))"

definition vec_codec :: "'a codec \<Rightarrow> 'a list codec" where
  "vec_codec c = \<lparr>cd_enc = (\<lambda>xs. replicate (length xs) 1 @ 0 # concat (map (cd_enc c) xs)),
     cd_dec = (\<lambda>buf. let n = length (takeWhile (\<lambda>x. x = 1) buf) in take_many c n (drop (Suc n) buf))\<rparr>"

definition sample_rows :: row_lib where
  "sample_rows = \<lparr>rw_header = ref_header True,
     rw_dec_header = (\<lambda>buf. case ref_dec_header buf of None \<Rightarrow> Inl CodecOther | Some x \<Rightarrow> Inr x),
     rw_address = item_codec (\<lambda>a. be_fixed 20 (unat a)) (\<lambda>b. of_nat (be_val b)),
     rw_b256 = item_codec (\<lambda>a. be_fixed 32 (unat a)) (\<lambda>b. of_nat (be_val b)),
     rw_u256 = item_codec (\<lambda>a. be_fixed 32 (unat a)) (\<lambda>b. of_nat (be_val b)),
     rw_u64 = item_codec (\<lambda>a. be_fixed 8 (unat a)) (\<lambda>b. of_nat (be_val b)),
     rw_bytes = item_codec id id, rw_string = one_codec [], rw_block_header = one_codec (b_header sample_block),
     rw_transaction = two_codec (devnet_tx Eip1559 3 []) (devnet_tx Eip1559 4 []), rw_body = one_codec (b_body sample_block),
     rw_block = one_codec sample_block, rw_receipt = one_codec (receipt_body sample_receipt),
     rw_receipts = vec_codec, rw_metas = vec_codec, rw_byte_lists = one_codec [], rw_show_addr = id, rw_parse_addr = Some\<rparr>"

lemma item_reads_back: "length (f x) < 2 ^ 64 \<Longrightarrow> g (f x) = x \<Longrightarrow> reads_back (item_codec f g) x"
  by (simp add: reads_back_def item_codec_def ref_bytes_dec)

lemma take_many_all:
  "list_all (reads_back c) xs \<Longrightarrow> take_many c (length xs) (concat (map (cd_enc c) xs) @ rest) = Inr (xs, rest)"
  by (induction xs) (simp_all add: reads_back_def)

lemma vec_reads_back: "list_all (reads_back c) xs \<Longrightarrow> reads_back (vec_codec c) xs"
proof -
  assume xs: "list_all (reads_back c) xs"
  have "takeWhile (\<lambda>x. x = 1) (replicate n 1 @ 0 # ys) = replicate n (1 :: u8)" for n ys by (induction n) simp_all
  then show ?thesis using take_many_all [OF xs] by (simp add: reads_back_def vec_codec_def Let_def)
qed

lemma word_item_length: "1 < n \<Longrightarrow> n < 56 \<Longrightarrow> length (ref_bytes (be_fixed n x)) = Suc n"
  by (simp add: ref_bytes_def ref_header_def be_fixed_def)

lemma word_value: "of_nat (be_val (be_fixed n (unat w))) = w" if "2 ^ LENGTH('a) \<le> (256 :: nat) ^ n" for w :: "'a :: len word"
proof -
  have "unat w < 2 ^ LENGTH('a)" by (rule unsigned_less)
  then have "unat w < 256 ^ n" using that by (rule less_le_trans)
  then show ?thesis by (simp add: be_val_be_fixed)
qed

lemma bytes_item_first:
  assumes "length v < 2 ^ 64"
  shows "\<exists>x xs. ref_bytes v = x # xs \<and> x \<noteq> 0xfb"
proof (cases "length v = 1 \<and> unat (hd v) < 0x80")
  case True
  then obtain y where "v = [y]" "unat y < 0x80" by (cases v) auto
  then show ?thesis by (auto simp: ref_bytes_def)
next
  case False
  have "length (be_bytes (length v)) \<le> 8" using assms by (intro be_bytes_length) simp
  then have "unat (of_nat (0x80 + 55 + length (be_bytes (length v))) :: u8) \<noteq> 0xfb" by (simp add: unat_of_nat del: of_nat_add)
  then have l: "(of_nat (0x80 + 55 + length (be_bytes (length v))) :: u8) \<noteq> 0xfb" by auto
  have s: "(of_nat (0x80 + length v) :: u8) \<noteq> 0xfb" if "length v < 56"
  proof -
    have "unat (of_nat (0x80 + length v) :: u8) \<noteq> 0xfb" using that by (simp add: unat_of_nat del: of_nat_add)
    then show ?thesis by auto
  qed
  show ?thesis
  proof (cases "length v < 56")
    case True
    with s \<open>\<not> (length v = 1 \<and> unat (hd v) < 0x80)\<close> show ?thesis by (auto simp: ref_bytes_def ref_header_def Let_def simp del: of_nat_add)
  next
    case False
    with l show ?thesis by (auto simp: ref_bytes_def ref_header_def Let_def simp del: of_nat_add)
  qed
qed

lemma sample_rows_ok: "row_lib_ok sample_rows"
proof -
  have w: "reads_back (item_codec (\<lambda>a :: 'a :: len word. be_fixed n (unat a)) (\<lambda>b. of_nat (be_val b))) x"
    if "n < 2 ^ 64" "2 ^ LENGTH('a) \<le> (256 :: nat) ^ n" for n x
    using that by (intro item_reads_back) (simp_all add: word_value, simp add: be_fixed_def)
  have b: "length v < 2 ^ 64" if "length (ref_bytes v) < 2 ^ 64" for v
    using that by (auto simp: ref_bytes_def split: if_splits)
  have all: "list_all (reads_back c) xs" if "list_all (\<lambda>x. reads_back c x \<and> cd_enc c x \<noteq> []) xs" for c :: "'b codec" and xs
    using that by (simp add: list_all_iff)
  show ?thesis
    unfolding row_lib_ok_def
  proof (intro conjI allI impI)
    show "rw_dec_header sample_rows (rw_header sample_rows n @ rest) = Inr ((True, n), rest)" if "n < 2 ^ 64" for n rest
      using that by (simp add: sample_rows_def ref_header_dec)
    show "\<exists>x xs. cd_enc (rw_bytes sample_rows) v = x # xs \<and> x \<noteq> 0xfb" "reads_back (rw_bytes sample_rows) v"
      if "length (cd_enc (rw_bytes sample_rows) v) < 2 ^ 64" for v
      using that bytes_item_first [OF b] item_reads_back [of id v id] b by (simp_all add: sample_rows_def item_codec_def)
    show "\<exists>x xs. cd_enc (rw_receipt sample_rows) r = x # xs \<and> 0x7f < x" for r by (simp add: sample_rows_def one_codec_def)
    show "reads_back (rw_receipts sample_rows c) rs" if "list_all (\<lambda>x. reads_back c x \<and> cd_enc c x \<noteq> []) rs" for c rs
      using that by (simp add: sample_rows_def vec_reads_back list_all_iff)
    show "reads_back (rw_metas sample_rows c) ms" if "list_all (\<lambda>x. reads_back c x \<and> cd_enc c x \<noteq> []) ms" for c ms
      using that by (simp add: sample_rows_def vec_reads_back list_all_iff)
  qed (simp_all add: sample_rows_def w word_item_length, simp_all add: item_codec_def word_item_length)
qed

theorem rows_read_back_witness:
  "from_bytes (receipt_row sample_rows) (as_bytes (receipt_row sample_rows) sample_receipt) = Inr sample_receipt \<and>
   from_bytes (u64_row sample_rows) (as_bytes (u64_row sample_rows) 300) = Inr 300 \<and>
   account_changes_decode sample_rows (account_changes_encode sample_rows [(1, None), (2, Some [3])]) = Some (Inr ([(1, None), (2, Some [3])], []))"
proof -
  have "length (account_changes_encode sample_rows [(1, None), (2, Some [3])]) < 2 ^ 64"
    by (simp add: account_changes_encode_def account_change_encode_def put_list_def sample_rows_def item_codec_def ref_bytes_def ref_header_def
        be_fixed_def)
  moreover have "reads_back (rw_receipt sample_rows) (receipt_body sample_receipt)" "r_tx_type sample_receipt < 0x80"
    by (simp_all add: sample_rows_def one_codec_def reads_back_def) (simp add: sample_receipt_def)
  ultimately show ?thesis
    using rows_read_back [OF sample_rows_ok, where r = sample_receipt and n = 300 and acs = "[(1, None), (2, Some [3])]"] by blast
qed

theorem stored_block_readable_witness:
  "\<exists>s'. insert_block sample_hash sample_block [sample_receipt] [] (new_provider empty_db) = (Inr (), s') \<and>
     reread (rw_block_header sample_rows) (header (IdHash 7) (s_db s')) = Inr (Some (b_header sample_block)) \<and>
     reread (receipt_row sample_rows) (receipt_at 7 0 (s_db s')) = Inr (Some sample_receipt)"
proof -
  have h: "sample_hash (b_header sample_block) = 7"
    and t: "distinct (map tx_hash (b_transactions (b_body sample_block)))"
    by (simp_all add: sample_hash_def sample_block_def devnet_header_def devnet_tx_def)
  have rb: "reads_back (rw_block_header sample_rows) (b_header sample_block)" "reads_back (rw_body sample_rows) (b_body sample_block)"
    "list_all (reads_back (rw_transaction sample_rows)) (b_transactions (b_body sample_block))"
    "list_all (\<lambda>r. reads_back (rw_receipt sample_rows) (receipt_body r) \<and> r_tx_type r < 0x80) [sample_receipt]"
    by (simp_all add: sample_rows_def one_codec_def reads_back_def)
      (simp_all add: sample_block_def sample_receipt_def two_codec_def reads_back_def)
  show ?thesis
    using stored_block_readable [OF sample_rows_ok _ _ _ t _ _ rb(1,2,3,4), of "new_provider empty_db" sample_hash "[]"]
    unfolding h Let_def by auto
qed

end
