(* ===== verification/ExecTx.thy ===== *)
theory ExecTx
  imports ExecFacts
begin

section \<open>Execution of one transaction\<close>

text \<open>
  \<^verbatim>\<open>wasix_eth_execution/src/transaction.rs\<close> (\<open>TransactionExecutor\<close>) and
  \<^verbatim>\<open>executor.rs\<close> (system calls).  The interpreter is the \<^verbatim>\<open>evm\<close> crate: its overlay is the type
  \<open>'o\<close> and the record \<open>evm_lib\<close> holds the functions of the crate that the code calls.  A number
  that does not fit into 64 bits makes \<open>as_u64\<close> panic (\<open>ExecPanic\<close>).
\<close>

datatype gas_price = LegacyPrice u256 | FeeMarket u256 u256
datatype call_args = CallArgs address bytes | CreateArgs bytes

record transact_args =
  ta_caller :: address
  ta_value :: u256
  ta_gas_limit :: u256
  ta_gas_price :: gas_price
  ta_access_list :: "(address \<times> b256 list) list"
  ta_call_create :: call_args

datatype exit_succeed = Stopped | Returned | Suicided
datatype exit_error = ExitException string | ExitReverted | ExitFatal string
datatype call_value = CallValue exit_succeed bytes | CreateValue exit_succeed address

record transact_value =
  tv_call_create :: call_value
  tv_used_gas :: u256

record 'o evm_lib =
  overlay_new :: "evm_config \<Rightarrow> backend \<Rightarrow> batch \<Rightarrow> 'o"
  overlay_balance :: "'o \<Rightarrow> address \<Rightarrow> u256"
  overlay_withdrawal :: "address \<Rightarrow> u256 \<Rightarrow> 'o \<Rightarrow> 'o option"
  overlay_deposit :: "address \<Rightarrow> u256 \<Rightarrow> 'o \<Rightarrow> 'o"
  overlay_mark_hot :: "address \<Rightarrow> 'o \<Rightarrow> 'o"
  overlay_changes :: "'o \<Rightarrow> changeset"
  evm_transact :: "evm_config \<Rightarrow> transact_args \<Rightarrow> 'o \<Rightarrow> (exit_error + transact_value) \<times> 'o"
  effective_gas_price :: "evm_config \<Rightarrow> gas_price \<Rightarrow> 'o \<Rightarrow> u256"
  coinbase_reward :: "evm_config \<Rightarrow> gas_price \<Rightarrow> u256 \<Rightarrow> 'o \<Rightarrow> u256"
  logs_bloom :: "log_entry list \<Rightarrow> 2048 word"

text \<open>What the executor is built with: the environment of the block.\<close>

record block_ctx =
  cx_env :: evm_env
  cx_config :: evm_config
  cx_fork :: hardfork

record tx_result =
  xr_output :: bytes
  xr_gas_used :: u64
  xr_receipt :: receipt
  xr_meta :: receipt_meta
  xr_call_create :: call_value

definition MAX_INIT_CODE_SIZE :: nat where
  "MAX_INIT_CODE_SIZE = 49152"

definition validate_transaction_with_state ::
  "nat \<Rightarrow> state_lib \<Rightarrow> block_ctx \<Rightarrow> tx \<Rightarrow> address \<Rightarrow> b256 option \<Rightarrow> batch \<Rightarrow> exec_error + unit" where
  "validate_transaction_with_state k sl cx t sender root b =
     (let fork = cx_fork cx; env = cx_env cx in
      rbind (map_sum ExecState id (batch_account k sl sender root b)) (\<lambda>a.
      let nonce = (case a of Some acc \<Rightarrow> acc_nonce acc | None \<Rightarrow> 0) in
      andthen (ensure (tx_nonce t = nonce) (NonceMismatch nonce (tx_nonce t)))
     (andthen (case tx_chain_id t of None \<Rightarrow> Inr ()
               | Some cid \<Rightarrow> ensure (cid = ucast (env_chain_id env)) InvalidChainId)
     (andthen (if tx_kind t = Eip1559
               then rbind (as_u64 (env_block_base_fee_per_gas env)) (\<lambda>base_fee.
                 andthen (ensure (\<not> tx_max_fee_per_gas t < ucast base_fee) MaxFeeTooLow)
                         (ensure (\<not> tx_max_fee_per_gas t < unwrap_or (tx_max_priority_fee_per_gas t) 0)
                            MaxFeeBelowPriority))
               else Inr ())
     (andthen (if fork \<ge> Cancun \<and> tx_kind t = Eip4844
               then rbind (as_u64 (env_blob_base_fee_per_gas env)) (\<lambda>blob_base_fee.
                 ensure (case tx_max_fee_per_blob_gas t of None \<Rightarrow> False
                         | Some m \<Rightarrow> \<not> m < ucast blob_base_fee) MaxBlobFeeTooLow)
               else Inr ())
     (andthen (ensure (tx_kind t = Eip7702 \<longrightarrow> \<not> fork < Prague) Eip7702NotSupported)
              (ensure (fork \<ge> Shanghai \<longrightarrow> \<not> (tx_to t = None \<and> length (tx_input t) > MAX_INIT_CODE_SIZE))
                 InitcodeTooLarge)))))))"

definition precompiles :: "hardfork \<Rightarrow> address list" where
  "precompiles fork = map of_nat [1..<(if fork \<ge> Prague then 0x13 else if fork \<ge> Cancun then 0x0a else 0x09) + 1]"

definition prepare_backend :: "block_ctx \<Rightarrow> tx \<Rightarrow> address \<Rightarrow> b256 option \<Rightarrow> backend" where
  "prepare_backend cx t sender root =
     (let al = unwrap_or (tx_access_list t) []; berlin = cx_fork cx \<ge> Berlin in
      \<lparr>be_env = cx_env cx, be_root = root, be_transient = Map.empty,
       be_hot_accounts = (if berlin then set (precompiles (cx_fork cx)) \<union> {sender} \<union> set_option (tx_to t) \<union> fst ` set al
                          else {}),
       be_hot_storage = (if berlin then {(a, s). \<exists>ks. (a, ks) \<in> set al \<and> s \<in> set ks} else {}),
       be_origin = sender\<rparr>)"

definition blob_fee :: "tx \<Rightarrow> u64 \<Rightarrow> u256" where
  "blob_fee t blob_base_fee =
     ucast (of_nat (length (unwrap_or (tx_blob_versioned_hashes t) [])) * DATA_GAS_PER_BLOB :: u64) * ucast blob_base_fee"

definition handle_pre_execution_eip_logic :: "'o evm_lib \<Rightarrow> block_ctx \<Rightarrow> tx \<Rightarrow> address \<Rightarrow> 'o \<Rightarrow> exec_error + 'o" where
  "handle_pre_execution_eip_logic E cx t sender ov =
     (if cx_fork cx \<ge> Cancun \<and> tx_kind t = Eip4844
      then rbind (as_u64 (env_blob_base_fee_per_gas (cx_env cx))) (\<lambda>base.
        if overlay_balance E ov sender < blob_fee t base then Inl InsufficientBlobBalance
        else ok_or (overlay_withdrawal E sender (blob_fee t base) ov) BlobFeeWithdrawalFailed)
      else Inr ov)"

definition tx_gas_price_of :: "block_ctx \<Rightarrow> tx \<Rightarrow> gas_price" where
  "tx_gas_price_of cx t =
     (if tx_kind t = Eip1559 \<or> tx_kind t = Eip4844 then
        let base_fee = env_block_base_fee_per_gas (cx_env cx);
            max_fee = ucast (tx_max_fee_per_gas t);
            max_priority = ucast (unwrap_or (tx_max_priority_fee_per_gas t) 0)
        in FeeMarket (if max_fee \<ge> base_fee then min max_priority (saturating_sub max_fee base_fee) else 0) max_fee
      else LegacyPrice (ucast (unwrap_or (tx_gas_price t) 0)))"

definition prepare_transact_args :: "block_ctx \<Rightarrow> tx \<Rightarrow> address \<Rightarrow> transact_args" where
  "prepare_transact_args cx t sender =
     \<lparr>ta_caller = sender, ta_value = tx_value t, ta_gas_limit = ucast (tx_gas_limit t),
      ta_gas_price = tx_gas_price_of cx t, ta_access_list = unwrap_or (tx_access_list t) [],
      ta_call_create = (case tx_to t of Some to \<Rightarrow> CallArgs to (tx_input t) | None \<Rightarrow> CreateArgs (tx_input t))\<rparr>"

definition handle_transact_error ::
  "block_ctx \<Rightarrow> tx \<Rightarrow> exit_error \<Rightarrow> u256 \<Rightarrow> u256 \<Rightarrow> u256 \<Rightarrow> u256 \<Rightarrow> bool \<Rightarrow> exec_error + transact_value" where
  "handle_transact_error cx t e balance_before balance_after price reward_rate is_coinbase =
     (let deduction_rate = (if is_coinbase then saturating_sub price reward_rate else price);
          calculated = (if deduction_rate > 0 then saturating_sub balance_before balance_after div deduction_rate else 0);
          used_gas = max calculated (ucast (calculate_intrinsic_gas t (cx_fork cx)))
      in rbind (as_u64 used_gas) (\<lambda>used. case e of
           ExitFatal msg \<Rightarrow> Inl (FatalEvmError msg)
         | _ \<Rightarrow> Inr \<lparr>tv_call_create = CallValue Stopped [], tv_used_gas = ucast used\<rparr>))"

definition exit_of :: "call_value \<Rightarrow> exit_succeed" where
  "exit_of v = (case v of CallValue s _ \<Rightarrow> s | CreateValue s _ \<Rightarrow> s)"

definition tx_ty :: "tx_type \<Rightarrow> u8" where
  "tx_ty ty = (case ty of Legacy \<Rightarrow> 0 | Eip2930 \<Rightarrow> 1 | Eip1559 \<Rightarrow> 2 | Eip4844 \<Rightarrow> 3 | Eip7702 \<Rightarrow> 4)"

text \<open>The interpreter run: the outcome, whether it failed, and the overlay afterwards.\<close>

definition run_transact ::
  "'o evm_lib \<Rightarrow> block_ctx \<Rightarrow> tx \<Rightarrow> address \<Rightarrow> u256 \<Rightarrow> 'o \<Rightarrow> exec_error + (transact_value \<times> bool \<times> 'o)" where
  "run_transact E cx t sender balance_before ov =
     (let args = prepare_transact_args cx t sender;
          price = effective_gas_price E (cx_config cx) (ta_gas_price args) ov;
          reward_rate = coinbase_reward E (cx_config cx) (ta_gas_price args) 1 ov;
          is_coinbase = (sender = env_block_coinbase (cx_env cx))
      in case evm_transact E (cx_config cx) args ov of
           (Inr v, ov') \<Rightarrow> Inr (v, False, ov')
         | (Inl e, ov') \<Rightarrow>
             rbind (handle_transact_error cx t e balance_before (overlay_balance E ov' sender) price reward_rate is_coinbase)
               (\<lambda>v. Inr (v, True, ov')))"

definition tx_success :: "transact_value \<Rightarrow> bool \<Rightarrow> bool" where
  "tx_success v failed = (\<not> failed \<and> (exit_of (tv_call_create v) = Returned \<or> exit_of (tv_call_create v) = Stopped))"

text \<open>From the recovered sender to the overlay the interpreter leaves.\<close>

definition interpret_transaction ::
  "nat \<Rightarrow> state_lib \<Rightarrow> 'o evm_lib \<Rightarrow> block_ctx \<Rightarrow> tx \<Rightarrow> b256 option \<Rightarrow> batch \<Rightarrow>
   exec_error + (transact_value \<times> bool \<times> 'o)" where
  "interpret_transaction k sl E cx t root b =
     rbind (ok_or (tx_signer t) SignerNotRecovered) (\<lambda>sender.
     andthen (validate_transaction_with_state k sl cx t sender root b)
    (let be = prepare_backend cx t sender root;
         env = (if cx_fork cx \<ge> Cancun \<and> tx_kind t = Eip4844
                then (be_env be)\<lparr>env_blob_versioned_hashes := unwrap_or (tx_blob_versioned_hashes t) []\<rparr> else be_env be)
     in rbind (map_sum ExecState id (backend_balance k sl be b sender)) (\<lambda>balance_before.
        rbind (handle_pre_execution_eip_logic E cx t sender (overlay_new E (cx_config cx) (be\<lparr>be_env := env\<rparr>) b))
          (\<lambda>ov. run_transact E cx t sender balance_before ov))))"

type_synonym 'a tx_act = "(batch \<times> u64, exec_error, 'a) act"

definition on_exec :: "'a exec_act \<Rightarrow> 'a tx_act" where
  "on_exec m = (\<lambda>(b, cum). case m b of (r, b') \<Rightarrow> (r, (b', cum)))"

definition contract_of :: "call_value \<Rightarrow> bool \<Rightarrow> address option" where
  "contract_of v success = (case v of CallValue _ _ \<Rightarrow> None | CreateValue _ a \<Rightarrow> if success then Some a else None)"

definition output_of :: "call_value \<Rightarrow> bool \<Rightarrow> bytes" where
  "output_of v success = (case v of CallValue _ retval \<Rightarrow> retval
     | CreateValue _ a \<Rightarrow> if success then be_fixed 20 (unat a) else [])"

definition execute_transaction ::
  "nat \<Rightarrow> state_lib \<Rightarrow> hash_order \<Rightarrow> 'o evm_lib \<Rightarrow> block_ctx \<Rightarrow> address \<Rightarrow> tx \<Rightarrow> b256 option \<Rightarrow> tx_result tx_act" where
  "execute_transaction k sl ord E cx beneficiary t root =
     (let eip161 = cx_fork cx \<ge> SpuriousDragon in
      sbind (reads (\<lambda>(b, cum). interpret_transaction k sl E cx t root b)) (\<lambda>(v, failed, ov).
      sbind (reads (\<lambda>_. as_u64 (tv_used_gas v))) (\<lambda>gas_used.
      let cs = overlay_changes E ov;
          success = tx_success v failed;
          logs = (if success then cs_logs cs else [])
      in sseq (\<lambda>(b, cum). (Inr (), (b, cum + gas_used)))
        (sseq (on_exec (apply_changeset k sl ord cs eip161 root))
        (sbind (on_exec (lift_state (reads (batch_account k sl beneficiary root)))) (\<lambda>_.
         sbind (on_exec (lift_state (calculate_state_root_internal k sl ord eip161 root))) (\<lambda>intermediate_root.
         sbind (peeks snd) (\<lambda>cum.
           ret \<lparr>xr_output = output_of (tv_call_create v) success, xr_gas_used = gas_used,
                xr_receipt = \<lparr>r_tx_type = tx_ty (tx_kind t),
                  r_status = (if cx_fork cx \<ge> Byzantium then Eip658 success else PostState intermediate_root),
                  r_cumulative_gas_used = cum, r_logs = logs, r_logs_bloom = logs_bloom E logs\<rparr>,
                xr_meta = \<lparr>rm_contract_address = contract_of (tv_call_create v) success\<rparr>,
                xr_call_create = tv_call_create v\<rparr>))))))))"

subsection \<open>System calls\<close>

text \<open>The change set is a map from addresses to balances, so an insertion replaces the entry.\<close>

definition set_balance :: "address \<Rightarrow> u256 \<Rightarrow> changeset \<Rightarrow> changeset" where
  "set_balance a v cs = cs\<lparr>cs_balances := tbl_insert a v (cs_balances cs)\<rparr>"

definition execute_system_call ::
  "nat \<Rightarrow> state_lib \<Rightarrow> hash_order \<Rightarrow> 'o evm_lib \<Rightarrow> block_ctx \<Rightarrow> address \<Rightarrow> address \<Rightarrow> bytes \<Rightarrow> b256 option \<Rightarrow> (bytes \<times> u64) exec_act" where
  "execute_system_call k sl ord E cx caller to data root =
     sbind (lift_state (reads (batch_account k sl to root))) (\<lambda>a.
     sbind (lift_state (reads (\<lambda>b. of_store (batch_bytecode
              (case a of Some acc \<Rightarrow> acc_code_hash acc | None \<Rightarrow> KECCAK256_EMPTY sl) b)))) (\<lambda>code.
     if code = None \<or> code = Some [] then fail SystemCallNoCode
     else sbind (peeks id) (\<lambda>b.
       let berlin = cx_fork cx \<ge> Berlin;
           be = \<lparr>be_env = cx_env cx, be_root = root, be_transient = Map.empty,
                 be_hot_accounts = (if berlin then set (precompiles (cx_fork cx)) \<union> {caller, to} else {}),
                 be_hot_storage = {}, be_origin = caller\<rparr>;
           ov = overlay_mark_hot E caller (overlay_new E (cx_config cx) be b);
           original = overlay_balance E ov caller;
           args = \<lparr>ta_caller = caller, ta_value = 0, ta_gas_limit = 30000000, ta_gas_price = LegacyPrice 0,
                   ta_access_list = [], ta_call_create = CallArgs to data\<rparr>
       in case evm_transact E (cx_config cx) args (overlay_deposit E caller (10 ^ 30) ov) of
            (Inl e, _) \<Rightarrow> fail (SystemCallFailed ''execution'')
          | (Inr v, ov') \<Rightarrow> (case tv_call_create v of
               CreateValue _ _ \<Rightarrow> fail (SystemCallFailed ''result type'')
             | CallValue _ retval \<Rightarrow>
                 sseq (apply_changeset k sl ord (set_balance caller original (overlay_changes E ov'))
                         (cx_fork cx \<ge> SpuriousDragon) root)
                (sbind (reads (\<lambda>_. as_u64 (tv_used_gas v))) (\<lambda>gas. ret (retval, gas)))))))"

end
