(* ===== verification/ExecBlock.thy ===== *)
theory ExecBlock
  imports ExecTx
begin

section \<open>Execution of blocks\<close>

text \<open>
  \<^verbatim>\<open>wasix_eth_execution/src/execution_provider.rs\<close> (\<open>EthExecutionProvider\<close>): a block is
  executed in a batch, its header is checked or filled in, and the batch is committed.  The record
  \<open>exec_env\<close> holds what the provider is built with and what other crates compute; the chain
  configuration is JSON in the database and its parser is a parameter.  The reads of the provider see
  the committed database, which is \<open>bw_committed\<close> of the batch.
\<close>

record 'o exec_env =
  x_fuel :: nat
  x_state :: state_lib
  x_order :: hash_order
  x_crypto :: crypto
  x_evm :: "'o evm_lib"
  x_chain_id :: "db \<Rightarrow> storage_error + u64"
  x_chain_config :: "db \<Rightarrow> storage_error + chain_config option"
  x_default_config :: chain_config
  x_receipt_root :: "receipt list \<Rightarrow> b256"
  x_sha256 :: "bytes \<Rightarrow> bytes"
  x_empty_requests_hash :: b256
  x_beacon_code :: bytes

type_synonym executed = "block \<times> receipt list \<times> receipt_meta list"

definition unwrap_ok :: "'e + 'a \<Rightarrow> 'a \<Rightarrow> 'a" where
  "unwrap_ok r d = (case r of Inr x \<Rightarrow> x | Inl _ \<Rightarrow> d)"

definition of_db :: "storage_error + 'a \<Rightarrow> exec_error + 'a" where
  "of_db r = map_sum (\<lambda>e. ExecState (StoreFailure e)) id r"

definition config_or_default :: "'o exec_env \<Rightarrow> db \<Rightarrow> storage_error + chain_config" where
  "config_or_default X d = rbind (x_chain_config X d) (\<lambda>c. Inr (unwrap_or c (x_default_config X)))"

definition provider_execution_env :: "'o exec_env \<Rightarrow> header \<Rightarrow> db \<Rightarrow> storage_error + chain_config \<times> block_ctx" where
  "provider_execution_env X hdr d =
     rbind (config_or_default X d) (\<lambda>config.
       let td = (if h_number hdr = 0 then Some 0 else ok_flat (header_td (h_parent_hash hdr) d));
           (fork, cfg, env) = prepare_execution_env (x_crypto X) (unwrap_ok (x_chain_id X d) 1) config hdr td
       in Inr (config, \<lparr>cx_env = env, cx_config = cfg, cx_fork = fork\<rparr>))"

subsection \<open>The header of an executed block\<close>

definition accrued_bloom :: "receipt list \<Rightarrow> 2048 word" where
  "accrued_bloom receipts = fold (\<lambda>r bloom. Bit_Operations.or bloom (r_logs_bloom r)) receipts 0"

text \<open>The heuristic that decides whether the header is filled in or checked.\<close>

definition is_building :: "bool \<Rightarrow> header \<Rightarrow> u64 \<Rightarrow> bool" where
  "is_building building hdr cumulative_gas_used \<longleftrightarrow>
     building \<or> h_state_root hdr = 0 \<or> (h_gas_used hdr = 0 \<and> cumulative_gas_used > 0)"

definition fill_header :: "'o exec_env \<Rightarrow> hardfork \<Rightarrow> block \<Rightarrow> receipt list \<Rightarrow> u64 \<Rightarrow> b256 \<Rightarrow> header" where
  "fill_header X fork b receipts cum root =
     (let cr = x_crypto X; hdr = b_header b;
          h1 = hdr\<lparr>h_gas_used := cum, h_transactions_root := calculate_transaction_root cr (b_transactions (b_body b)),
                   h_receipts_root := x_receipt_root X receipts, h_logs_bloom := accrued_bloom receipts, h_state_root := root\<rparr>;
          h2 = (if fork \<ge> Shanghai \<and> h_withdrawals_root h1 = None
                then h1\<lparr>h_withdrawals_root := Some (calculate_withdrawals_root cr (unwrap_or (b_withdrawals (b_body b)) []))\<rparr>
                else h1)
      in if fork \<ge> Cancun
         then h2\<lparr>h_blob_gas_used := Some (unwrap_or (h_blob_gas_used h2) (blob_gas_of (b_transactions (b_body b)))),
                 h_excess_blob_gas := Some (unwrap_or (h_excess_blob_gas h2) 0),
                 h_parent_beacon_block_root := Some (unwrap_or (h_parent_beacon_block_root h2) 0)\<rparr>
         else h2)"

definition check_filled_header :: "'o exec_env \<Rightarrow> hardfork \<Rightarrow> bool \<Rightarrow> block \<Rightarrow> receipt list \<Rightarrow> u64 \<Rightarrow> b256 \<Rightarrow> exec_error + unit" where
  "check_filled_header X fork building b receipts cum root =
     (let cr = x_crypto X; hdr = b_header b;
          transactions_root = calculate_transaction_root cr (b_transactions (b_body b));
          receipts_root = x_receipt_root X receipts;
          withdrawals_root = calculate_withdrawals_root cr (unwrap_or (b_withdrawals (b_body b)) [])
      in andthen (ensure (building \<or> h_gas_used hdr = cum) (ExecGasUsedMismatch (h_gas_used hdr) cum))
        (andthen (ensure (h_transactions_root hdr = transactions_root)
                    (TransactionsRootMismatch (h_transactions_root hdr) transactions_root))
        (andthen (ensure (h_receipts_root hdr = receipts_root) (ExecReceiptsRootMismatch (h_receipts_root hdr) receipts_root))
        (andthen (ensure (h_logs_bloom hdr = accrued_bloom receipts) ExecLogsBloomMismatch)
        (andthen (ensure (h_state_root hdr = root) (ExecStateRootMismatch (h_state_root hdr) root))
                 (if fork \<ge> Shanghai
                  then ensure (h_withdrawals_root hdr = Some withdrawals_root)
                         (ExecWithdrawalsRootMismatch (h_withdrawals_root hdr) withdrawals_root)
                  else Inr ()))))))"

definition finalize_block_header_with_requests ::
  "'o exec_env \<Rightarrow> block \<Rightarrow> receipt list \<Rightarrow> u64 \<Rightarrow> b256 \<Rightarrow> hardfork \<Rightarrow> bool \<Rightarrow> exec_error + block" where
  "finalize_block_header_with_requests X b receipts cum root fork building =
     (if is_building building (b_header b) cum
      then Inr (b\<lparr>b_header := fill_header X fork b receipts cum root\<rparr>)
      else andthen (check_filled_header X fork building b receipts cum root) (Inr b))"

subsection \<open>Requests\<close>

definition digest_word :: "bytes \<Rightarrow> b256" where
  "digest_word bs = of_nat (be_val bs)"

text \<open>A \<open>BTreeMap\<close> from the request type to the requests of that type, iterated in key order.\<close>

definition group_by_type :: "bytes list \<Rightarrow> bytes list" where
  "group_by_type rs = concat (map (\<lambda>ty. filter (\<lambda>r. hd r = ty) rs) (sorted_list_of_set (hd ` set rs)))"

definition calculate_requests_hash :: "'o exec_env \<Rightarrow> hardfork \<Rightarrow> bytes list \<Rightarrow> b256" where
  "calculate_requests_hash X fork requests =
     (let filtered = filter (\<lambda>r. length r > 1) requests in
      if requests = [] \<or> filtered = [] then x_empty_requests_hash X
      else digest_word (x_sha256 X (concat (map (x_sha256 X)
             (if fork \<ge> Prague then group_by_type filtered else filtered)))))"

text \<open>The method of the same name of \<open>BlockProcessor\<close> sorts instead; \<open>r[0]\<close> panics on an empty request.\<close>

definition processor_requests_hash :: "'o exec_env \<Rightarrow> hardfork \<Rightarrow> bytes list \<Rightarrow> b256 option" where
  "processor_requests_hash X fork requests =
     (if requests = [] then Some (x_empty_requests_hash X)
      else if fork \<ge> Prague \<and> [] \<in> set requests \<and> length requests > 1 then None
      else Some (digest_word (x_sha256 X (concat (map (x_sha256 X)
             (if fork \<ge> Prague then sort_key hd requests else requests))))))"

fun chunks_exact :: "nat \<Rightarrow> bytes \<Rightarrow> bytes list" where
  "chunks_exact n bs = (if n = 0 \<or> length bs < n then [] else take n bs # chunks_exact n (drop n bs))"

declare chunks_exact.simps [simp del]

definition split_requests :: "u8 \<Rightarrow> nat \<Rightarrow> bytes \<Rightarrow> exec_error + bytes list" where
  "split_requests ty n output =
     (if output = [] then Inr []
      else if length output mod n \<noteq> 0 then Inl (MalformedRequests (length output))
      else Inr (map (\<lambda>chunk. ty # chunk) (chunks_exact n output)))"

definition collect_requests :: "'o exec_env \<Rightarrow> address \<Rightarrow> u8 \<Rightarrow> nat \<Rightarrow> header \<Rightarrow> store \<Rightarrow> exec_error + bytes list" where
  "collect_requests X target ty n hdr s =
     (let d = s_db s; k = x_fuel X; sl = x_state X in
      rbind (of_db (provider_execution_env X hdr d)) (\<lambda>(config, cx).
      if cx_fork cx < Prague then Inr []
      else rbind (if h_number hdr > 0
                  then rbind (of_db (header (IdHash (h_parent_hash hdr)) d)) (\<lambda>p. Inr (map_option h_state_root p))
                  else Inr None) (\<lambda>root.
        case execute_system_call k sl (x_order X) (x_evm X) cx SYSTEM_ADDRESS target [] root (new_batch d) of
          (Inl e, _) \<Rightarrow> Inl e
        | (Inr (output, gas), _) \<Rightarrow> split_requests ty n output)))"

definition collect_withdrawal_requests :: "'o exec_env \<Rightarrow> header \<Rightarrow> store \<Rightarrow> exec_error + bytes list" where
  "collect_withdrawal_requests X = collect_requests X WITHDRAWAL_REQUEST_PREDEPLOY_ADDRESS 0x01 76"

definition collect_consolidation_requests :: "'o exec_env \<Rightarrow> header \<Rightarrow> store \<Rightarrow> exec_error + bytes list" where
  "collect_consolidation_requests X = collect_requests X CONSOLIDATION_REQUEST_PREDEPLOY_ADDRESS 0x02 88"

subsection \<open>Running the transactions of a block\<close>

record run_acc =
  ra_receipts :: "receipt list"
  ra_metas :: "receipt_meta list"
  ra_blob_gas :: u64
  ra_txs :: "tx list"

text \<open>While a block is built a failing transaction is left out; a panic is not an error of the call.\<close>

definition exec_panics :: "exec_error \<Rightarrow> bool" where
  "exec_panics e = (case e of ExecPanic \<Rightarrow> True | ExecState (TrieFailure t) \<Rightarrow> is_panic t | _ \<Rightarrow> False)"

definition tx_blob_gas :: "hardfork \<Rightarrow> tx \<Rightarrow> u64" where
  "tx_blob_gas fork t =
     (if fork \<ge> Cancun \<and> tx_kind t = Eip4844
      then of_nat (length (unwrap_or (tx_blob_versioned_hashes t) [])) * DATA_GAS_PER_BLOB else 0)"

fun run_transactions :: "'o exec_env \<Rightarrow> block_ctx \<Rightarrow> address \<Rightarrow> bool \<Rightarrow> b256 option \<Rightarrow> tx list \<Rightarrow> run_acc \<Rightarrow> run_acc tx_act" where
  "run_transactions X cx beneficiary building root [] acc = ret acc"
| "run_transactions X cx beneficiary building root (t # ts) acc = (\<lambda>s.
     case execute_transaction (x_fuel X) (x_state X) (x_order X) (x_evm X) cx beneficiary t root s of
       (Inr res, s') \<Rightarrow> run_transactions X cx beneficiary building root ts
          \<lparr>ra_receipts = ra_receipts acc @ [xr_receipt res], ra_metas = ra_metas acc @ [xr_meta res],
           ra_blob_gas = ra_blob_gas acc + tx_blob_gas (cx_fork cx) t, ra_txs = ra_txs acc @ [t]\<rparr> s'
     | (Inl e, s') \<Rightarrow>
         if building \<and> \<not> exec_panics e then run_transactions X cx beneficiary building root ts acc s'
         else (Inl e, s'))"

definition empty_acc :: run_acc where
  "empty_acc = \<lparr>ra_receipts = [], ra_metas = [], ra_blob_gas = 0, ra_txs = []\<rparr>"

definition check_block_blob_gas :: "chain_config \<Rightarrow> hardfork \<Rightarrow> header \<Rightarrow> u64 \<Rightarrow> exec_error + unit" where
  "check_block_blob_gas config fork hdr blob_gas =
     (if fork \<ge> Cancun then
        let limit = (case blob_params_of fork config of
              Some p \<Rightarrow> bp_max_blob_count p * DATA_GAS_PER_BLOB | None \<Rightarrow> MAX_BLOB_GAS_PER_BLOCK)
        in andthen (ensure (\<not> blob_gas > limit) (BlockBlobGasExceedsLimit blob_gas limit))
             (case h_blob_gas_used hdr of None \<Rightarrow> Inr ()
              | Some used \<Rightarrow> ensure (used = blob_gas) (BlockBlobGasMismatch used blob_gas))
      else Inr ())"

definition base_root_of :: "block \<Rightarrow> b256 option \<Rightarrow> db \<Rightarrow> exec_error + b256 option" where
  "base_root_of b state_root d =
     (if state_root = None \<and> h_number (b_header b) > 0
      then rbind (of_db (header (IdHash (h_parent_hash (b_header b))) d)) (\<lambda>p. case p of
             Some parent \<Rightarrow> Inr (Some (h_state_root parent))
           | None \<Rightarrow> Inl (ParentStateRootNotFound (h_number (b_header b)) (h_parent_hash (b_header b))))
      else Inr state_root)"

text \<open>The parts of \<open>execute_block_with_batch\<close> around the loop: the beacon root before it; after it
  the blob gas, the withdrawals, the rewards, the state root and the header.\<close>

definition open_block :: "'o exec_env \<Rightarrow> header \<Rightarrow> block_ctx \<Rightarrow> b256 option \<Rightarrow> unit exec_act" where
  "open_block X hdr cx root =
     (case h_parent_beacon_block_root hdr of
        Some beacon_root \<Rightarrow>
          if cx_fork cx \<ge> Cancun
          then lift_state (sbind (apply_beacon_root (x_fuel X) (x_state X) (x_beacon_code X) (cx_fork cx) beacon_root (h_timestamp hdr) root)
                 (\<lambda>_. ret ()))
          else ret ()
      | None \<Rightarrow> ret ())"

definition run_block :: "'o exec_env \<Rightarrow> block \<Rightarrow> block_ctx \<Rightarrow> bool \<Rightarrow> b256 option \<Rightarrow> (run_acc \<times> u64) exec_act" where
  "run_block X b cx building root bt =
     (case run_transactions X cx (h_beneficiary (b_header b)) building root (b_transactions (b_body b)) empty_acc (bt, 0) of
        (r, (bt', cum)) \<Rightarrow> (map_sum id (\<lambda>acc. (acc, cum)) r, bt'))"

definition close_block ::
  "'o exec_env \<Rightarrow> block \<Rightarrow> chain_config \<Rightarrow> block_ctx \<Rightarrow> bool \<Rightarrow> b256 option \<Rightarrow> run_acc \<Rightarrow> u64 \<Rightarrow> executed exec_act" where
  "close_block X b config cx building root acc cum =
     (let hdr = b_header b; k = x_fuel X; sl = x_state X; ord = x_order X;
          b' = b\<lparr>b_body := (b_body b)\<lparr>b_transactions := ra_txs acc\<rparr>\<rparr> in
      sseq (reads (\<lambda>_. check_block_blob_gas config (cx_fork cx) hdr (ra_blob_gas acc)))
     (sseq (case b_withdrawals (b_body b) of
              Some ws \<Rightarrow> if ws = [] then ret () else lift_state (process_withdrawals k sl ord ws root)
            | None \<Rightarrow> ret ())
     (sseq (lift_state (apply_block_rewards k sl (cx_fork cx) (h_beneficiary hdr) (b_ommers (b_body b)) root (h_number hdr)))
     (sbind (lift_state (calculate_state_root_internal k sl ord (cx_fork cx \<ge> SpuriousDragon) root)) (\<lambda>calculated_root.
      sbind (reads (\<lambda>_. finalize_block_header_with_requests X b' (ra_receipts acc) cum calculated_root (cx_fork cx) building)) (\<lambda>final.
        ret (final, ra_receipts acc, ra_metas acc)))))))"

definition execute_block_with_batch :: "'o exec_env \<Rightarrow> block \<Rightarrow> b256 option \<Rightarrow> bool \<Rightarrow> executed exec_act" where
  "execute_block_with_batch X b state_root building =
     sbind (reads (\<lambda>bt. base_root_of b state_root (bw_committed bt))) (\<lambda>root.
     sseq (\<lambda>bt. (Inr (), case root of Some r \<Rightarrow> set_base_state_root r bt | None \<Rightarrow> bt))
    (sbind (reads (\<lambda>bt. of_db (provider_execution_env X (b_header b) (bw_committed bt)))) (\<lambda>(config, cx).
     sseq (open_block X (b_header b) cx root)
    (sbind (run_block X b cx building root) (\<lambda>(acc, cum).
       close_block X b config cx building root acc cum)))))"

definition exec_wtx :: "'a wtx \<Rightarrow> 'a exec_act" where
  "exec_wtx m = lift_state (on_wtx m)"

definition persist_changes :: "'o exec_env \<Rightarrow> executed \<Rightarrow> unit exec_act" where
  "persist_changes X = (\<lambda>(b, receipts, metas).
     let number = h_number (b_header b); hash = hash_slow (x_crypto X) (b_header b) in
     sbind (peeks id) (\<lambda>bt.
     sseq (exec_wtx (wtx_insert_account_change_set number (collect_account_changes (x_state X) (x_order X) bt)))
    (sseq (exec_wtx (wtx_insert_storage_change_set number (collect_storage_changes (x_order X) bt)))
          (for_each (List.enumerate 0 metas) (\<lambda>(i, m). exec_wtx (wtx_insert_receipt_meta hash (of_nat i) m))))))"

text \<open>A batch lives for one call; dropping it aborts the transaction.\<close>

definition execute_block_with_state_root_and_building ::
  "'o exec_env \<Rightarrow> block \<Rightarrow> bool \<Rightarrow> b256 option \<Rightarrow> bool \<Rightarrow> (store, exec_error, executed) act" where
  "execute_block_with_state_root_and_building X b commits state_root building s =
     (let s = clear_tracking_inherent s in
      case execute_block_with_batch X b state_root building (new_batch (s_db s)) of
        (Inl e, _) \<Rightarrow> (Inl e, s)
      | (Inr res, bt) \<Rightarrow>
          if commits then
            (case persist_changes X res bt of
               (Inl e, _) \<Rightarrow> (Inl e, s)
             | (Inr _, bt') \<Rightarrow>
                 if s_commits s then (Inr res, s\<lparr>s_db := bw_wtx bt'\<rparr>) else (Inl (ExecState (StoreFailure UpdateFailed)), s))
          else (Inr res, s))"

definition execute_block_with_state_root :: "'o exec_env \<Rightarrow> block \<Rightarrow> bool \<Rightarrow> b256 option \<Rightarrow> (store, exec_error, executed) act" where
  "execute_block_with_state_root X b commits state_root =
     execute_block_with_state_root_and_building X b commits state_root False"

definition execute_block_with_commit :: "'o exec_env \<Rightarrow> block \<Rightarrow> bool \<Rightarrow> (store, exec_error, executed) act" where
  "execute_block_with_commit X b commits = execute_block_with_state_root X b commits None"

definition execute_block :: "'o exec_env \<Rightarrow> block \<Rightarrow> (store, exec_error, executed) act" where
  "execute_block X b = execute_block_with_commit X b True"

subsection \<open>Building a payload\<close>

record payload_attributes =
  pa_timestamp :: u64
  pa_prev_randao :: b256
  pa_suggested_fee_recipient :: address
  pa_withdrawals :: "withdrawal list option"
  pa_parent_beacon_block_root :: "b256 option"

definition payload_blob_gas :: "tx list \<Rightarrow> u64" where
  "payload_blob_gas txs = foldl (\<lambda>g t. if tx_kind t = Eip4844
     then g + of_nat (length (unwrap_or (tx_blob_versioned_hashes t) [])) * DATA_GAS_PER_BLOB else g) 0 txs"

definition payload_template :: "'o exec_env \<Rightarrow> chain_config \<Rightarrow> tx list \<Rightarrow> header \<Rightarrow> payload_attributes \<Rightarrow> u64 option \<Rightarrow> block" where
  "payload_template X config txs parent attrs base_fee =
     (let number = h_number parent + 1; timestamp = pa_timestamp attrs;
          fork = get_active_fork config number timestamp; cr = x_crypto X;
          withdrawals = (if fork \<ge> Shanghai then Some (unwrap_or (pa_withdrawals attrs) []) else None);
          hdr = \<lparr>h_parent_hash = hash_slow cr parent, h_ommers_hash = EMPTY_OMMER_ROOT_HASH cr,
                 h_beneficiary = pa_suggested_fee_recipient attrs, h_state_root = 0, h_transactions_root = 0,
                 h_receipts_root = 0, h_logs_bloom = 0,
                 h_difficulty = (if fork \<ge> Paris then 0 else h_difficulty parent), h_number = number,
                 h_gas_limit = h_gas_limit parent, h_gas_used = 0, h_timestamp = timestamp, h_extra_data = [],
                 h_mix_hash = (if fork \<ge> Paris then pa_prev_randao attrs else h_mix_hash parent),
                 h_nonce = (if fork \<ge> Paris then 0 else 0x42), h_base_fee_per_gas = base_fee,
                 h_withdrawals_root = map_option (calculate_withdrawals_root cr) withdrawals,
                 h_blob_gas_used = (if fork \<ge> Cancun then Some (payload_blob_gas txs) else None),
                 h_excess_blob_gas = (if fork \<ge> Cancun
                    then Some (calc_excess_blob_gas (h_excess_blob_gas parent) (h_blob_gas_used parent)
                                 (blob_target (blob_params_of fork config))) else None),
                 h_parent_beacon_block_root = (if fork \<ge> Cancun then pa_parent_beacon_block_root attrs else None),
                 h_requests_hash = None\<rparr>
      in \<lparr>b_header = hdr, b_body = \<lparr>b_transactions = txs, b_ommers = [], b_withdrawals = withdrawals\<rparr>\<rparr>)"

definition execute_block_for_payload ::
  "'o exec_env \<Rightarrow> tx list \<Rightarrow> header \<Rightarrow> payload_attributes \<Rightarrow> u64 option \<Rightarrow> (store, exec_error, executed) act" where
  "execute_block_for_payload X txs parent attrs base_fee s =
     (case config_or_default X (s_db s) of
        Inl e \<Rightarrow> (Inl (ExecState (StoreFailure e)), s)
      | Inr config \<Rightarrow> execute_block_with_state_root_and_building X (payload_template X config txs parent attrs base_fee)
          False (Some (h_state_root parent)) True s)"

subsection \<open>Simulation\<close>

definition fund_sender :: "'o exec_env \<Rightarrow> tx \<Rightarrow> b256 option \<Rightarrow> unit exec_act" where
  "fund_sender X t root = (case tx_signer t of None \<Rightarrow> ret ()
     | Some from \<Rightarrow> lift_state (sbind (reads (batch_account (x_fuel X) (x_state X) from root)) (\<lambda>a.
         batch_update_account (x_fuel X) (x_state X) from
           ((unwrap_or a (empty_account (x_state X)))\<lparr>acc_balance := 10 ^ 30\<rparr>))))"

fun simulate_transactions ::
  "'o exec_env \<Rightarrow> block_ctx \<Rightarrow> header \<Rightarrow> bool \<Rightarrow> b256 option \<Rightarrow> tx list \<Rightarrow> tx_result list \<Rightarrow> tx_result list tx_act" where
  "simulate_transactions X cx hdr simulation root [] results = ret results"
| "simulate_transactions X cx hdr simulation root (t # ts) results =
     sseq (on_exec (if simulation then fund_sender X t root else ret ()))
    (sbind (execute_transaction (x_fuel X) (x_state X) (x_order X) (x_evm X) cx (h_beneficiary hdr) t root)
      (\<lambda>res. simulate_transactions X cx hdr simulation root ts (results @ [res])))"

definition ocean_execution_core_logic ::
  "'o exec_env \<Rightarrow> tx list \<Rightarrow> block \<Rightarrow> bool \<Rightarrow> b256 option \<Rightarrow> bool \<Rightarrow> (store, exec_error, tx_result list \<times> block) act" where
  "ocean_execution_core_logic X txs b apply_changes root simulation s =
     (let k = x_fuel X; sl = x_state X; ord = x_order X; hdr = b_header b in
      case sbind (reads (\<lambda>bt. of_db (provider_execution_env X hdr (bw_committed bt)))) (\<lambda>(config, cx).
           sbind (\<lambda>bt. case simulate_transactions X cx hdr simulation root txs [] (bt, 0) of
                    (r, (bt', cum)) \<Rightarrow> (map_sum id (\<lambda>rs. (rs, cum)) r, bt')) (\<lambda>(results, cum).
           let b' = b\<lparr>b_body := (b_body b)\<lparr>b_transactions := b_transactions (b_body b) @ txs\<rparr>\<rparr> in
           sseq (case b_withdrawals (b_body b) of Some ws \<Rightarrow> lift_state (process_withdrawals k sl ord ws root) | None \<Rightarrow> ret ())
          (sseq (lift_state (apply_block_rewards k sl (cx_fork cx) (h_beneficiary hdr) (b_ommers (b_body b)) root (h_number hdr)))
          (sbind (lift_state (calculate_state_root_internal k sl ord (cx_fork cx \<ge> SpuriousDragon) root)) (\<lambda>calculated_root.
           sbind (reads (\<lambda>_. finalize_block_header_with_requests X b' (map xr_receipt results) cum calculated_root (cx_fork cx) simulation))
             (\<lambda>final. ret (results, final))))))) (new_batch (s_db s)) of
        (Inl e, _) \<Rightarrow> (Inl e, s)
      | (Inr res, bt) \<Rightarrow>
          if apply_changes
          then (if s_commits s then (Inr res, s\<lparr>s_db := bw_wtx bt\<rparr>) else (Inl (ExecState (StoreFailure UpdateFailed)), s))
          else (Inr res, s))"

definition run_execution_with_state_root where
  "run_execution_with_state_root X txs b apply_changes root = ocean_execution_core_logic X txs b apply_changes root False"

definition run_execution where
  "run_execution X txs b apply_changes = run_execution_with_state_root X txs b apply_changes None"

definition run_simulation_with_state_root where
  "run_simulation_with_state_root X txs b root = ocean_execution_core_logic X txs b False root True"

end
