(* ===== verification/ExecBlockFacts.thy ===== *)
theory ExecBlockFacts
  imports ExecBlock "HOL-Library.Multiset" "HOL-Library.Sublist"
begin

text \<open>What executing a block guarantees: receipts and header agree, the database changes only on a committed
  success, the payloads the node builds pass its own header validation up to Cancun, and the two implementations of
  the requests hash agree.\<close>

subsection \<open>One transaction\<close>

lemma on_exec_Inr: "on_exec m (b, cum) = (Inr x, s') \<longleftrightarrow> (\<exists>b'. m b = (Inr x, b') \<and> s' = (b', cum))"
  by (auto simp: on_exec_def split: prod.splits)

text \<open>What a successful execution went through, and the result it returns.\<close>

lemma execute_transaction_parts:
  assumes "execute_transaction k sl ord E cx ben t root (b, cum) = (Inr res, (b', cum'))"
  obtains v failed ov gas b1 mid where "interpret_transaction k sl E cx t root b = Inr (v, failed, ov)"
    "as_u64 (tv_used_gas v) = Inr gas" "apply_changeset k sl ord (overlay_changes E ov) (cx_fork cx \<ge> SpuriousDragon) root b = (Inr (), b1)"
    "calculate_state_root_internal k sl ord (cx_fork cx \<ge> SpuriousDragon) root b1 = (Inr mid, b')" "cum' = cum + gas"
    "res = (let success = tx_success v failed; logs = (if success then cs_logs (overlay_changes E ov) else []) in
       \<lparr>xr_output = output_of (tv_call_create v) success, xr_gas_used = gas,
        xr_receipt = \<lparr>r_tx_type = tx_ty (tx_kind t),
          r_status = (if cx_fork cx \<ge> Byzantium then Eip658 success else PostState mid),
          r_cumulative_gas_used = cum', r_logs = logs, r_logs_bloom = logs_bloom E logs\<rparr>,
        xr_meta = \<lparr>rm_contract_address = contract_of (tv_call_create v) success\<rparr>,
        xr_call_create = tv_call_create v\<rparr>)"
  using assms
  by (auto simp: execute_transaction_def sbind_Inr_iff sseq_Inr_iff on_exec_Inr lift_state_Inr reads_def peeks_def ret_def Let_def)

text \<open>A transaction whose outermost frame ends by self-destruction.  The interpreter reports success
  (\<open>Suicided\<close> is one of its success values) and its changes are written, but the receipt says that
  the transaction failed, its logs are dropped and a created contract's address is not recorded.\<close>

theorem selfdestruct_receipt_fails:
  assumes "execute_transaction k sl ord E cx ben t root (b, cum) = (Inr res, (b', cum'))"
    and "interpret_transaction k sl E cx t root b = Inr (v, False, ov)"
    and "exit_of (tv_call_create v) = Suicided" and "cx_fork cx \<ge> Byzantium"
  shows "r_status (xr_receipt res) = Eip658 False \<and> r_logs (xr_receipt res) = [] \<and> rm_contract_address (xr_meta res) = None \<and>
    (\<exists>b1. apply_changeset k sl ord (overlay_changes E ov) (cx_fork cx \<ge> SpuriousDragon) root b = (Inr (), b1))"
  using assms(1)
proof (rule execute_transaction_parts)
  fix v' failed ov' gas b1 mid
  assume i: "interpret_transaction k sl E cx t root b = Inr (v', failed, ov')"
    and a: "apply_changeset k sl ord (overlay_changes E ov') (cx_fork cx \<ge> SpuriousDragon) root b = (Inr (), b1)"
    and res: "res = (let success = tx_success v' failed; logs = (if success then cs_logs (overlay_changes E ov') else []) in
       \<lparr>xr_output = output_of (tv_call_create v') success, xr_gas_used = gas,
        xr_receipt = \<lparr>r_tx_type = tx_ty (tx_kind t),
          r_status = (if cx_fork cx \<ge> Byzantium then Eip658 success else PostState mid),
          r_cumulative_gas_used = cum', r_logs = logs, r_logs_bloom = logs_bloom E logs\<rparr>,
        xr_meta = \<lparr>rm_contract_address = contract_of (tv_call_create v') success\<rparr>,
        xr_call_create = tv_call_create v'\<rparr>)"
  have e: "v' = v" "failed = False" "ov' = ov" using i assms(2) by simp_all
  have "\<not> tx_success v False" using assms(3) by (simp add: tx_success_def)
  with res a assms(4) e show ?thesis by (auto simp: contract_of_def split: call_value.splits)
qed

definition sample_evm :: "call_value \<Rightarrow> unit evm_lib" where
  "sample_evm v = \<lparr>overlay_new = (\<lambda>_ _ _. ()), overlay_balance = (\<lambda>_ _. 1000), overlay_withdrawal = (\<lambda>_ _ _. Some ()),
     overlay_deposit = (\<lambda>_ _ _. ()), overlay_mark_hot = (\<lambda>_ _. ()), overlay_changes = (\<lambda>_. sample_changes\<lparr>cs_logs := [sample_log], cs_balances := [], cs_nonces := []\<rparr>),
     evm_transact = (\<lambda>_ _ _. (Inr \<lparr>tv_call_create = v, tv_used_gas = 21000\<rparr>, ())),
     effective_gas_price = (\<lambda>_ _ _. 7), coinbase_reward = (\<lambda>_ _ _ _. 1), logs_bloom = (\<lambda>_. 0)\<rparr>"

definition sample_ctx :: "hardfork \<Rightarrow> block_ctx" where
  "sample_ctx fork = \<lparr>cx_env = sample_env, cx_config = config_of_fork fork, cx_fork = fork\<rparr>"

lemmas batch_run_simps = lift_state_def get_or_materialize_account_def sync_account_def batch_update_account_def remember_account_def
  touch_def mark_account_touched_def batch_update_plain_state_def batch_update_hashed_state_def wtx_update_hashed_state_def
  on_wtx_def wtx_upd_def open_table_def batch_account_def account_def latest_account_def read_tbl_def of_store_def
  new_batch_def empty_db_def sseq_def sbind_def reads_def ret_def peeks_def

lemma sample_interpret:
  "interpret_transaction k sample_state_lib (sample_evm v) (sample_ctx Shanghai) (devnet_tx Eip1559 0 []) None (new_batch empty_db) =
     Inr (\<lparr>tv_call_create = v, tv_used_gas = 21000\<rparr>, False, ())"
  by (simp add: interpret_transaction_def devnet_tx_def validate_transaction_with_state_def sample_ctx_def sample_env_def
      empty_batch_reads as_u64_def less_eq_hardfork_def less_hardfork_def prepare_backend_def backend_balance_def backend_account_def
      quiet_def handle_pre_execution_eip_logic_def run_transact_def sample_evm_def)

lemma sample_execute:
  "\<exists>res. execute_transaction k sample_state_lib sorted_order (sample_evm v) (sample_ctx Shanghai) 9 (devnet_tx Eip1559 0 []) None
     (new_batch empty_db, 0) = (Inr res, (new_batch empty_db, 21000))"
proof -
  have c: "apply_changeset k sample_state_lib sorted_order (overlay_changes (sample_evm v) ()) True None (new_batch empty_db) =
     (Inr (), new_batch empty_db)"
    by (simp add: apply_changeset_def sample_evm_def sample_changes_def affected_accounts_def ret_def)
  have r: "\<exists>x. calculate_state_root_internal k sample_state_lib sorted_order True None (new_batch empty_db) = (Inr x, new_batch empty_db)"
    by (simp add: calculate_state_root_internal_def run_trie_def finish_trie_def commit_def trie_new_def sorted_order_def ret_def
        new_batch_def)
  have cx: "cx_fork (sample_ctx Shanghai) = Shanghai" by (simp add: sample_ctx_def)
  from c r show ?thesis
    by (auto simp: execute_transaction_def sbind_def sseq_def reads_def sample_interpret as_u64_def on_exec_def lift_state_def
        cx less_eq_hardfork_def empty_batch_reads peeks_def ret_def Let_def)
qed

theorem selfdestruct_receipt_fails_witness:
  "\<exists>res. execute_transaction 1 sample_state_lib sorted_order (sample_evm (CallValue Suicided [])) (sample_ctx Shanghai) 9
       (devnet_tx Eip1559 0 []) None (new_batch empty_db, 0) = (Inr res, (new_batch empty_db, 21000)) \<and>
     r_status (xr_receipt res) = Eip658 False \<and> r_logs (xr_receipt res) = []"
proof -
  obtain res where res: "execute_transaction 1 sample_state_lib sorted_order (sample_evm (CallValue Suicided [])) (sample_ctx Shanghai) 9
     (devnet_tx Eip1559 0 []) None (new_batch empty_db, 0) = (Inr res, (new_batch empty_db, 21000))"
    using sample_execute by blast
  from selfdestruct_receipt_fails [OF res sample_interpret] res show ?thesis
    by (simp add: exit_of_def sample_ctx_def less_eq_hardfork_def)
qed

text \<open>The price of an EIP-7702 transaction is looked up in a field it does not have.\<close>

lemma eip7702_price_zero: "tx_kind t = Eip7702 \<Longrightarrow> tx_gas_price t = None \<Longrightarrow> tx_gas_price_of cx t = LegacyPrice 0"
  by (simp add: tx_gas_price_of_def)

subsection \<open>The run over the transactions\<close>

text \<open>What the loop has collected: one receipt and one contract address per transaction kept, the receipts
  ending with the gas counter.\<close>

definition final_gas :: "receipt list \<Rightarrow> u64" where
  "final_gas rs = (if rs = [] then 0 else r_cumulative_gas_used (last rs))"

definition acc_ok :: "run_acc \<Rightarrow> u64 \<Rightarrow> bool" where
  "acc_ok acc cum \<longleftrightarrow> length (ra_receipts acc) = length (ra_txs acc) \<and> length (ra_metas acc) = length (ra_txs acc) \<and>
     cum = final_gas (ra_receipts acc)"

lemma execute_transaction_gas:
  assumes "execute_transaction k sl ord E cx ben t root (b, cum) = (Inr res, (b', cum'))"
  shows "r_cumulative_gas_used (xr_receipt res) = cum'"
  using assms by (rule execute_transaction_parts) (simp add: Let_def)

lemma run_transactions_collects:
  assumes "run_transactions X cx ben False root ts acc (b, cum) = (Inr acc', (b', cum'))" and "acc_ok acc cum"
  shows "acc_ok acc' cum' \<and> ra_txs acc' = ra_txs acc @ ts"
  using assms
proof (induction ts arbitrary: acc b cum)
  case Nil
  then show ?case by (simp add: ret_def)
next
  case (Cons t ts)
  obtain r b1 c1 where e: "execute_transaction (x_fuel X) (x_state X) (x_order X) (x_evm X) cx ben t root (b, cum) = (r, (b1, c1))"
    by (metis prod.collapse)
  show ?case
  proof (cases r)
    case (Inl err)
    with Cons.prems e show ?thesis by simp
  next
    case (Inr res)
    let ?acc = "\<lparr>ra_receipts = ra_receipts acc @ [xr_receipt res], ra_metas = ra_metas acc @ [xr_meta res],
           ra_blob_gas = ra_blob_gas acc + tx_blob_gas (cx_fork cx) t, ra_txs = ra_txs acc @ [t]\<rparr>"
    have run: "run_transactions X cx ben False root ts ?acc (b1, c1) = (Inr acc', (b', cum'))" using Cons.prems(1) e Inr by simp
    have "acc_ok ?acc c1" using Cons.prems(2) execute_transaction_gas [OF e [unfolded Inr]] by (simp add: acc_ok_def final_gas_def)
    from Cons.IH [OF run this] show ?thesis by simp
  qed
qed

lemma run_transactions_skips:
  assumes "run_transactions X cx ben building root ts acc (b, cum) = (Inr acc', s')" and "length (ra_receipts acc) = length (ra_txs acc)"
  shows "length (ra_receipts acc') = length (ra_txs acc') \<and> (\<exists>us. ra_txs acc' = ra_txs acc @ us \<and> subseq us ts)"
  using assms
proof (induction ts arbitrary: acc b cum)
  case Nil
  then show ?case by (simp add: ret_def)
next
  case (Cons t ts)
  obtain r b1 c1 where e: "execute_transaction (x_fuel X) (x_state X) (x_order X) (x_evm X) cx ben t root (b, cum) = (r, (b1, c1))"
    by (metis prod.collapse)
  show ?case
  proof (cases r)
    case (Inl err)
    with Cons.prems e Cons.IH [of acc b1 c1] show ?thesis by (auto split: if_splits)
  next
    case (Inr res)
    let ?acc = "\<lparr>ra_receipts = ra_receipts acc @ [xr_receipt res], ra_metas = ra_metas acc @ [xr_meta res],
           ra_blob_gas = ra_blob_gas acc + tx_blob_gas (cx_fork cx) t, ra_txs = ra_txs acc @ [t]\<rparr>"
    have run: "run_transactions X cx ben building root ts ?acc (b1, c1) = (Inr acc', s')" using Cons.prems(1) e Inr by simp
    from Cons.IH [OF run] Cons.prems(2) obtain us where "length (ra_receipts acc') = length (ra_txs acc')"
      "ra_txs acc' = ra_txs acc @ t # us" "subseq us ts" by auto
    then show ?thesis by auto
  qed
qed

text \<open>The parts of a successful execution that its result depends on.\<close>

lemma run_block_Inr: "run_block X b cx building root bt = (Inr (acc, cum), bt') \<longleftrightarrow>
    run_transactions X cx (h_beneficiary (b_header b)) building root (b_transactions (b_body b)) empty_acc (bt, 0) = (Inr acc, (bt', cum))"
proof -
  obtain r s c where "run_transactions X cx (h_beneficiary (b_header b)) building root (b_transactions (b_body b)) empty_acc (bt, 0) = (r, (s, c))"
    by (metis prod.collapse)
  then show ?thesis by (cases r) (auto simp: run_block_def)
qed

lemma execute_block_parts:
  assumes "execute_block_with_batch X b state_root building bt = (Inr (b', rs, ms), bt')"
  obtains root config cx bt1 bt2 acc cum calculated where
    "provider_execution_env X (b_header b) (bw_committed bt) = Inr (config, cx)"
    "run_transactions X cx (h_beneficiary (b_header b)) building root (b_transactions (b_body b)) empty_acc (bt1, 0) = (Inr acc, (bt2, cum))"
    "rs = ra_receipts acc" "ms = ra_metas acc" "check_block_blob_gas config (cx_fork cx) (b_header b) (ra_blob_gas acc) = Inr ()"
    "finalize_block_header_with_requests X (b\<lparr>b_body := (b_body b)\<lparr>b_transactions := ra_txs acc\<rparr>\<rparr>) rs cum calculated (cx_fork cx) building = Inr b'"
proof -
  have of_db: "of_db r = Inr x \<longleftrightarrow> r = Inr x" for r x by (cases r) (auto simp: of_db_def)
  have comm: "bw_committed (case root of Some r \<Rightarrow> set_base_state_root r bt | None \<Rightarrow> bt) = bw_committed bt" for root
    by (simp add: set_base_state_root_def split: option.split)
  from assms obtain root config cx bt1 bt2 acc cum where run: "run_block X b cx building root bt1 = (Inr (acc, cum), bt2)"
    and env: "provider_execution_env X (b_header b) (bw_committed bt) = Inr (config, cx)"
    and close: "close_block X b config cx building root acc cum bt2 = (Inr (b', rs, ms), bt')"
    by (auto simp: execute_block_with_batch_def sbind_Inr_iff sseq_Inr_iff reads_def of_db comm)
  from run have "run_transactions X cx (h_beneficiary (b_header b)) building root (b_transactions (b_body b)) empty_acc (bt1, 0) = (Inr acc, (bt2, cum))"
    by (simp add: run_block_Inr)
  moreover from close obtain calculated where "rs = ra_receipts acc" "ms = ra_metas acc"
    "check_block_blob_gas config (cx_fork cx) (b_header b) (ra_blob_gas acc) = Inr ()"
    "finalize_block_header_with_requests X (b\<lparr>b_body := (b_body b)\<lparr>b_transactions := ra_txs acc\<rparr>\<rparr>) rs cum calculated (cx_fork cx) building = Inr b'"
    by (auto simp: close_block_def Let_def sbind_Inr_iff sseq_Inr_iff reads_def ret_def)
  ultimately show thesis using env that by blast
qed

text \<open>An executed block.  When a received block executes, its body is unchanged, it has one receipt per
  transaction, and gas used, receipts root and logs bloom of the resulting header are those of the receipts; so
  the validation after execution, which is given the state root of the resulting header, never rejects.  The header
  is the received one when the received one has a state root and gas used.\<close>

theorem executed_block_consistent:
  assumes "execute_block_with_batch X b state_root False bt = (Inr (b', rs, ms), bt')"
  shows "b_body b' = b_body b \<and> length rs = length (b_transactions (b_body b)) \<and> length ms = length rs \<and>
    validate_block_post_execution b' (final_gas rs) (x_receipt_root X rs) (accrued_bloom rs) (h_state_root (b_header b')) = Inr () \<and>
    (h_state_root (b_header b) \<noteq> 0 \<and> h_gas_used (b_header b) \<noteq> 0 \<longrightarrow> b' = b)"
proof -
  from assms obtain root config cx bt1 bt2 acc cum calculated where
    run: "run_transactions X cx (h_beneficiary (b_header b)) False root (b_transactions (b_body b)) empty_acc (bt1, 0) = (Inr acc, (bt2, cum))"
    and r: "rs = ra_receipts acc" "ms = ra_metas acc"
    and fin: "finalize_block_header_with_requests X (b\<lparr>b_body := (b_body b)\<lparr>b_transactions := ra_txs acc\<rparr>\<rparr>) rs cum calculated (cx_fork cx) False = Inr b'"
    by (rule execute_block_parts)
  have "acc_ok empty_acc 0" by (simp add: acc_ok_def empty_acc_def final_gas_def)
  from run_transactions_collects [OF run this]
  have acc: "acc_ok acc cum" "ra_txs acc = b_transactions (b_body b)" by (simp_all add: empty_acc_def)
  from acc(2) have same: "b\<lparr>b_body := (b_body b)\<lparr>b_transactions := ra_txs acc\<rparr>\<rparr> = b" by simp
  have cum: "cum = final_gas rs" using acc(1) r by (simp add: acc_ok_def)
  note fin' = fin [unfolded same]
  show ?thesis
  proof (cases "is_building False (b_header b) cum")
    case True
    then have b': "b' = b\<lparr>b_header := fill_header X (cx_fork cx) b rs cum calculated\<rparr>"
      using fin' by (simp add: finalize_block_header_with_requests_def)
    have "h_gas_used (b_header b') = cum \<and> h_receipts_root (b_header b') = x_receipt_root X rs \<and>
        h_logs_bloom (b_header b') = accrued_bloom rs"
      unfolding b' by (simp add: fill_header_def Let_def)
    with b' True cum acc r show ?thesis
      by (auto simp: validate_block_post_execution_def acc_ok_def is_building_def)
  next
    case False
    with fin' have "check_filled_header X (cx_fork cx) False b rs cum calculated = Inr ()" "b' = b"
      by (auto simp: finalize_block_header_with_requests_def rbind_Inr_iff)
    with cum acc r show ?thesis
      by (auto simp: validate_block_post_execution_def check_filled_header_def acc_ok_def rbind_Inr_iff Let_def split: if_splits)
  qed
qed

subsection \<open>Requests\<close>

lemma group_by_type_sort: "group_by_type rs = sort_key hd rs"
proof (rule sym, rule properties_for_sort_key)
  let ?ts = "sorted_list_of_set (hd ` set rs)"
  have m: "mset (concat (map (\<lambda>ty. filter (\<lambda>r. hd r = ty) rs) ts)) = filter_mset (\<lambda>r. hd r \<in> set ts) (mset rs)"
    if "distinct ts" for ts
    using that
  proof (induction ts)
    case (Cons t ts)
    then show ?case by (auto simp: multiset_eq_iff)
  qed simp
  have "filter_mset (\<lambda>r. hd r \<in> set ?ts) (mset rs) = mset rs" by (auto simp: filter_mset_eq_conv)
  with m [of ?ts] show "mset (group_by_type rs) = mset rs" by (simp add: group_by_type_def)
  show "filter (\<lambda>x. hd k = hd x) (group_by_type rs) = filter (\<lambda>x. hd k = hd x) rs" if "k \<in> set (group_by_type rs)" for k
  proof -
    have "filter (\<lambda>x. hd k = hd x) (concat (map (\<lambda>ty. filter (\<lambda>r. hd r = ty) rs) ts)) =
        (if hd k \<in> set ts then filter (\<lambda>x. hd k = hd x) rs else [])" if "distinct ts" for ts
      using that
    proof (induction ts)
      case (Cons t ts)
      have "filter (\<lambda>x. hd k = hd x) (filter (\<lambda>r. hd r = t) rs) = (if hd k = t then filter (\<lambda>x. hd k = hd x) rs else [])"
        by (auto intro: filter_cong)
      with Cons show ?case by auto
    qed simp
    moreover have "hd k \<in> set ?ts" using that by (auto simp: group_by_type_def)
    ultimately show ?thesis by (simp add: group_by_type_def)
  qed
  have "sorted (map hd (concat (map (\<lambda>ty. filter (\<lambda>r. hd r = ty) rs) ts)))" if "sorted ts" for ts
    using that by (induction ts) (auto simp: sorted_append intro!: sorted_map_same)
  then show "sorted (map hd (group_by_type rs))" by (simp add: group_by_type_def)
qed

text \<open>The two implementations of the requests hash.  The execution provider drops requests without data and
  groups the others by type in an ordered map; the block processor sorts.  On requests with data they agree.\<close>

theorem requests_hash_equiv:
  assumes "\<forall>r \<in> set requests. length r > 1"
  shows "processor_requests_hash X fork requests = Some (calculate_requests_hash X fork requests)"
proof -
  have f: "filter (\<lambda>r. length r > 1) requests = requests" using assms by (simp add: filter_id_conv)
  have "[] \<notin> set requests" using assms by fastforce
  with f show ?thesis by (simp add: processor_requests_hash_def calculate_requests_hash_def group_by_type_sort)
qed

subsection \<open>A block without transactions\<close>

definition sample_exec :: "unit exec_env" where
  "sample_exec = \<lparr>x_fuel = 1, x_state = sample_state_lib, x_order = sorted_order, x_crypto = devnet_crypto,
     x_evm = sample_evm (CallValue Stopped []), x_chain_id = (\<lambda>_. Inr 1), x_chain_config = (\<lambda>_. Inr None),
     x_default_config = devnet_config, x_receipt_root = (\<lambda>rs. of_nat (length rs)), x_sha256 = (\<lambda>bs. take 32 bs),
     x_empty_requests_hash = 0, x_beacon_code = [1]\<rparr>"

definition quiet_block :: block where
  "quiet_block = \<lparr>b_header = (devnet_header 6 112 0 900 0)\<lparr>h_state_root := 36, h_parent_beacon_block_root := None\<rparr>,
     b_body = \<lparr>b_transactions = [], b_ommers = [], b_withdrawals = Some []\<rparr>\<rparr>"

lemma quiet_root:
  "calculate_state_root_internal k sl sorted_order True (Some r) (set_base_state_root q (new_batch d)) =
     (Inr r, set_base_state_root q (new_batch d))"
  by (simp add: calculate_state_root_internal_def run_trie_def finish_trie_def commit_def trie_new_def sorted_order_def ret_def
      new_batch_def set_base_state_root_def initial_root_def)

lemma quiet_block_env:
  "\<exists>cx. provider_execution_env sample_exec (b_header quiet_block) d = Inr (devnet_config, cx) \<and> cx_fork cx = Cancun"
  by (simp add: provider_execution_env_def config_or_default_def sample_exec_def prepare_execution_env_def devnet_fork Let_def)

lemma quiet_block_runs:
  "execute_block_with_batch sample_exec quiet_block (Some 36) False (new_batch d) =
     (Inr (quiet_block, [], []), set_base_state_root 36 (new_batch d))"
proof -
  obtain cx where cx: "provider_execution_env sample_exec (b_header quiet_block) d = Inr (devnet_config, cx)" "cx_fork cx = Cancun"
    using quiet_block_env by blast
  have d: "bw_committed (set_base_state_root 36 (new_batch d)) = d" by (simp add: set_base_state_root_def new_batch_def)
  have fin: "finalize_block_header_with_requests sample_exec quiet_block [] 0 36 Cancun False = Inr quiet_block"
    by (simp add: finalize_block_header_with_requests_def is_building_def check_filled_header_def quiet_block_def devnet_header_def
        sample_exec_def devnet_crypto_def accrued_bloom_def less_eq_hardfork_def)
  have close: "close_block sample_exec quiet_block devnet_config cx False (Some 36) empty_acc 0 (set_base_state_root 36 (new_batch d)) =
      (Inr (quiet_block, [], []), set_base_state_root 36 (new_batch d))"
  proof -
    have "check_block_blob_gas devnet_config Cancun (b_header quiet_block) 0 = Inr ()"
      by (simp add: check_block_blob_gas_def quiet_block_def devnet_header_def devnet_config_def less_eq_hardfork_def)
    moreover have "quiet_block\<lparr>b_body := (b_body quiet_block)\<lparr>b_transactions := []\<rparr>\<rparr> = quiet_block"
      by (simp add: quiet_block_def)
    moreover have "b_withdrawals (b_body quiet_block) = Some []" by (simp add: quiet_block_def)
    moreover have "x_order sample_exec = sorted_order" by (simp add: sample_exec_def)
    ultimately show ?thesis
      by (simp add: close_block_def cx(2) empty_acc_def apply_block_rewards_def less_eq_hardfork_def quiet_root lift_state_def fin
          sseq_def sbind_def reads_def ret_def)
  qed
  have "open_block sample_exec (b_header quiet_block) cx root = ret ()" for root
    by (simp add: open_block_def quiet_block_def)
  moreover have "b_transactions (b_body quiet_block) = []" by (simp add: quiet_block_def)
  ultimately show ?thesis
    by (simp add: execute_block_with_batch_def base_root_of_def d cx(1) of_db_def run_block_def close sseq_def sbind_def reads_def ret_def)
qed

theorem executed_block_consistent_witness:
  "execute_block_with_batch sample_exec quiet_block (Some 36) False (new_batch empty_db) =
     (Inr (quiet_block, [], []), set_base_state_root 36 (new_batch empty_db)) \<and>
   validate_block_post_execution quiet_block 0 0 0 36 = Inr ()"
  using executed_block_consistent [OF quiet_block_runs [of empty_db]] quiet_block_runs [of empty_db]
  by (simp add: final_gas_def accrued_bloom_def sample_exec_def) (simp add: quiet_block_def)

theorem requests_hash_equiv_witness:
  "processor_requests_hash sample_exec Prague [[2, 7], [1, 8]] = Some (calculate_requests_hash sample_exec Prague [[2, 7], [1, 8]])"
  by (rule requests_hash_equiv) simp

subsection \<open>The header of a built payload\<close>

text \<open>The fields of the template that execution keeps.\<close>

lemma filled_template:
  assumes "F = get_active_fork c (h_number parent + 1) (pa_timestamp attrs)"
    and b_def: "b = payload_template X c txs parent attrs fee"
  shows "fill_header X F (b\<lparr>b_body := (b_body b)\<lparr>b_transactions := us\<rparr>\<rparr>) rs cum root =
    (b_header b)\<lparr>h_gas_used := cum, h_transactions_root := calculate_transaction_root (x_crypto X) us,
       h_receipts_root := x_receipt_root X rs, h_logs_bloom := accrued_bloom rs, h_state_root := root,
       h_parent_beacon_block_root := (if F \<ge> Cancun then Some (unwrap_or (pa_parent_beacon_block_root attrs) 0) else None)\<rparr>"
  by (auto simp: b_def fill_header_def payload_template_def Let_def assms(1))

lemma template_simps:
  assumes "F = get_active_fork c (h_number parent + 1) (pa_timestamp attrs)" and "F \<ge> Paris"
    and h_def: "h = b_header (payload_template X c txs parent attrs fee)"
  shows "h_number h = h_number parent + 1" "h_timestamp h = pa_timestamp attrs" "h_gas_limit h = h_gas_limit parent"
    "h_extra_data h = []" "h_base_fee_per_gas h = fee" "h_difficulty h = 0" "h_nonce h = 0" "h_ommers_hash h = EMPTY_OMMER_ROOT_HASH (x_crypto X)"
    "h_withdrawals_root h \<noteq> None \<longleftrightarrow> F \<ge> Shanghai" "h_requests_hash h = None" "h_parent_hash h = hash_slow (x_crypto X) parent"
    "h_blob_gas_used h = (if F \<ge> Cancun then Some (payload_blob_gas txs) else None)"
    "h_excess_blob_gas h = (if F \<ge> Cancun then Some (calc_excess_blob_gas (h_excess_blob_gas parent) (h_blob_gas_used parent)
        (blob_target (blob_params_of F c))) else None)"
  using assms(2) by (auto simp: h_def payload_template_def Let_def assms(1))

lemma built_payload_parts:
  assumes "execute_block_for_payload X txs parent attrs fee s = (Inr (b, rs, ms), s')" and "x_chain_config X (s_db s) = Inr (Some c)"
    and F: "F = get_active_fork c (h_number parent + 1) (pa_timestamp attrs)"
    and td: "get_active_fork_with_total_difficulty c (h_number parent + 1) (pa_timestamp attrs) (parent_td (x_crypto X) parent (s_db s)) = F"
    and n: "h_number parent + 1 \<noteq> 0" and "F \<ge> Paris"
  obtains us cum root where "b_header b = (b_header (payload_template X c txs parent attrs fee))
      \<lparr>h_gas_used := cum, h_transactions_root := calculate_transaction_root (x_crypto X) us,
       h_receipts_root := x_receipt_root X rs, h_logs_bloom := accrued_bloom rs, h_state_root := root,
       h_parent_beacon_block_root := (if F \<ge> Cancun then Some (unwrap_or (pa_parent_beacon_block_root attrs) 0) else None)\<rparr>"
    "F \<ge> Cancun \<Longrightarrow> payload_blob_gas txs \<le> blob_max (blob_params_of F c)"
proof -
  let ?b = "payload_template X c txs parent attrs fee"
  from assms(1,2) obtain bt bt' where run: "execute_block_with_batch X ?b (Some (h_state_root parent)) True (new_batch (s_db s)) = (Inr (b, rs, ms), bt')"
    by (auto simp: execute_block_for_payload_def config_or_default_def execute_block_with_state_root_and_building_def
        clear_tracking_inherent_def split: prod.splits sum.splits)
  from run show thesis
  proof (rule execute_block_parts)
    fix root config cx bt1 bt2 acc cum calculated
    assume env: "provider_execution_env X (b_header ?b) (bw_committed (new_batch (s_db s))) = Inr (config, cx)"
      and blob: "check_block_blob_gas config (cx_fork cx) (b_header ?b) (ra_blob_gas acc) = Inr ()"
      and fin: "finalize_block_header_with_requests X (?b\<lparr>b_body := (b_body ?b)\<lparr>b_transactions := ra_txs acc\<rparr>\<rparr>) rs cum calculated (cx_fork cx) True = Inr b"
    have cx: "config = c" "cx_fork cx = F"
      using env n td assms(2) template_simps(1,2,11) [OF F \<open>F \<ge> Paris\<close> refl, of X txs fee]
      by (auto simp: provider_execution_env_def config_or_default_def new_batch_def prepare_execution_env_def parent_td_def Let_def)
    show thesis
    proof (rule that)
      show "b_header b = (b_header ?b)
        \<lparr>h_gas_used := cum, h_transactions_root := calculate_transaction_root (x_crypto X) (ra_txs acc),
         h_receipts_root := x_receipt_root X rs, h_logs_bloom := accrued_bloom rs, h_state_root := calculated,
         h_parent_beacon_block_root := (if F \<ge> Cancun then Some (unwrap_or (pa_parent_beacon_block_root attrs) 0) else None)\<rparr>"
      proof -
        have "b_header b = fill_header X F (?b\<lparr>b_body := (b_body ?b)\<lparr>b_transactions := ra_txs acc\<rparr>\<rparr>) rs cum calculated"
          using fin by (auto simp: finalize_block_header_with_requests_def is_building_def cx(2))
        then show ?thesis unfolding filled_template [OF F refl] .
      qed
      show "payload_blob_gas txs \<le> blob_max (blob_params_of F c)" if "F \<ge> Cancun"
        using blob that template_simps(12) [OF F \<open>F \<ge> Paris\<close> refl, of X txs fee]
        by (auto simp: check_block_blob_gas_def cx rbind_Inr_iff blob_max_def Let_def split: option.splits)
    qed
  qed
qed

text \<open>Execution keeps the nonce of the template.  The template takes the fork without the total difficulty, header
  validation with it: once the terminal total difficulty is reached before the netsplit block, every payload the node builds has
  the nonce \<open>0x42\<close> and its header is refused.\<close>

lemma built_payload_nonce:
  assumes "execute_block_for_payload X txs parent attrs fee s = (Inr (b, rs, ms), s')" and "x_chain_config X (s_db s) = Inr (Some c)"
  shows "h_nonce (b_header b) = h_nonce (b_header (payload_template X c txs parent attrs fee))"
    and "h_number (b_header b) = h_number parent + 1" and "h_timestamp (b_header b) = pa_timestamp attrs"
proof -
  let ?b = "payload_template X c txs parent attrs fee"
  from assms obtain bt bt' where run: "execute_block_with_batch X ?b (Some (h_state_root parent)) True (new_batch (s_db s)) = (Inr (b, rs, ms), bt')"
    by (auto simp: execute_block_for_payload_def config_or_default_def execute_block_with_state_root_and_building_def
        clear_tracking_inherent_def split: prod.splits sum.splits)
  obtain F b1 cum root where "b_header b = fill_header X F b1 rs cum root" "b_header b1 = b_header ?b"
    using run by (rule execute_block_parts) (auto simp: finalize_block_header_with_requests_def is_building_def)
  then show "h_nonce (b_header b) = h_nonce (b_header ?b)" "h_number (b_header b) = h_number parent + 1"
    "h_timestamp (b_header b) = pa_timestamp attrs"
    by (simp_all add: fill_header_def Let_def payload_template_def)
qed

theorem payload_before_netsplit_refused:
  assumes "execute_block_for_payload X txs parent attrs fee s = (Inr (b, rs, ms), s')" and "x_chain_config X (s_db s) = Inr (Some c)"
    and "get_active_fork c (h_number parent + 1) (pa_timestamp attrs) < Paris"
    and "get_active_fork_with_total_difficulty c (h_number parent + 1) (pa_timestamp attrs) (parent_td (x_crypto X) parent (s_db s)) \<ge> Paris"
  shows "validate_header (x_crypto X) c (s_db s) now (b_header b) parent \<noteq> Inr ()"
proof -
  note k = built_payload_nonce [OF assms(1,2)]
  have "h_nonce (b_header b) = 0x42" using k(1) assms(3) by (simp add: payload_template_def Let_def)
  with k(2,3) assms(4) show ?thesis
    by (auto simp: validate_header_def Let_def check_merge_def rbind_Inr_iff ensure_def split: if_splits)
qed

text \<open>C29: the header of a payload the node builds on a stored parent passes the node's own header validation in the forks
  from the merge to Cancun, and never from Prague on, where the requests hash is required and never set.  The conditions:
  the fork of the new block is at least Paris and the same with and without the total difficulty (before the netsplit block it
  need not be, and then the header is refused), the parent is at least London with a base fee, has no blob fields before
  Cancun and a gas limit of at least 5000, the fee of the payload is the parent's next base fee, the timestamp is after
  the parent's and at most 15 seconds ahead, and the gas used is within the limit.\<close>

theorem built_payload_header_validates:
  assumes "execute_block_for_payload X txs parent attrs (Some fee) s = (Inr (b, rs, ms), s')" and "x_chain_config X (s_db s) = Inr (Some c)"
    and F: "F = get_active_fork c (h_number parent + 1) (pa_timestamp attrs)"
    and td: "get_active_fork_with_total_difficulty c (h_number parent + 1) (pa_timestamp attrs) (parent_td (x_crypto X) parent (s_db s)) = F"
    and P: "P = get_active_fork_with_total_difficulty c (h_number parent) (h_timestamp parent) (parent_td (x_crypto X) parent (s_db s))"
    and "h_number parent + 1 \<noteq> 0" and "F \<ge> Paris" and "P \<ge> London" and "calculate_next_base_fee parent = Inr (Some fee)"
    and "pa_timestamp attrs > h_timestamp parent" and "pa_timestamp attrs \<le> now + 15" and "h_gas_limit parent \<ge> 5000"
    and "h_gas_used (b_header b) \<le> h_gas_limit parent" and "h_base_fee_per_gas parent \<noteq> None"
    and "\<not> is_cancun_active P \<longrightarrow> h_excess_blob_gas parent = None \<and> h_blob_gas_used parent = None"
  shows "validate_header (x_crypto X) c (s_db s) now (b_header b) parent =
    (if F \<ge> Prague then Inl RequestsHashMissing else Inr ())"
proof -
  from built_payload_parts [OF assms(1,2) F td assms(6,7)] obtain us cum root where
    h: "b_header b = (b_header (payload_template X c txs parent attrs (Some fee)))
      \<lparr>h_gas_used := cum, h_transactions_root := calculate_transaction_root (x_crypto X) us,
       h_receipts_root := x_receipt_root X rs, h_logs_bloom := accrued_bloom rs, h_state_root := root,
       h_parent_beacon_block_root := (if F \<ge> Cancun then Some (unwrap_or (pa_parent_beacon_block_root attrs) 0) else None)\<rparr>"
    and blob: "F \<ge> Cancun \<Longrightarrow> payload_blob_gas txs \<le> blob_max (blob_params_of F c)" by blast
  note t = template_simps [OF F assms(7) refl, of X txs "Some fee"]
  have f: "h_number (b_header b) = h_number parent + 1" "h_timestamp (b_header b) = pa_timestamp attrs"
    "h_gas_limit (b_header b) = h_gas_limit parent" "h_extra_data (b_header b) = []" "h_base_fee_per_gas (b_header b) = Some fee"
    "h_difficulty (b_header b) = 0" "h_nonce (b_header b) = 0" "h_ommers_hash (b_header b) = EMPTY_OMMER_ROOT_HASH (x_crypto X)"
    "h_withdrawals_root (b_header b) \<noteq> None \<longleftrightarrow> F \<ge> Shanghai" "h_requests_hash (b_header b) = None"
    unfolding h using t by simp_all
  have "check_gas_limit P F (h_gas_limit parent) (h_gas_limit parent) = Inr ()"
  proof -
    have "\<not> P < London" using assms(8) by (simp add: not_less)
    moreover have "0 < h_gas_limit parent div 1024"
      using assms(12) by (simp add: word_less_nat_alt word_le_nat_alt unat_div div_greater_zero_iff)
    ultimately show ?thesis by (simp add: check_gas_limit_def)
  qed
  moreover have "check_base_fee F (b_header b) parent = Inr ()"
    using f(5) assms(7,9,14) by (auto simp: check_base_fee_def)
  moreover have "check_merge (x_crypto X) F (b_header b) = Inr ()" using f(6-8) by (simp add: check_merge_def)
  moreover have "check_shanghai F (b_header b) = Inr ()" using f(9) by (auto simp: check_shanghai_def)
  moreover have "check_cancun c P F (b_header b) parent = Inr ()"
  proof -
    have "calc_excess_blob_gas None None target = 0" for target
      by (simp add: calc_excess_blob_gas_def saturating_sub_def word_gt_0)
    then show ?thesis using blob assms(15) t(12,13) unfolding h by (auto simp: check_cancun_def Let_def)
  qed
  moreover have "check_prague F (b_header b) = (if F \<ge> Prague then Inl RequestsHashMissing else Inr ())"
    using f(10) by (simp add: check_prague_def)
  ultimately show ?thesis
    using assms(10-13) f(1-4) by (simp add: validate_header_def td P [symmetric] Let_def)
qed

definition sample_attrs :: payload_attributes where
  "sample_attrs = \<lparr>pa_timestamp = 112, pa_prev_randao = 3, pa_suggested_fee_recipient = 9, pa_withdrawals = None,
     pa_parent_beacon_block_root = None\<rparr>"

definition config_exec :: "unit exec_env" where
  "config_exec = sample_exec\<lparr>x_chain_config := (\<lambda>_. Inr (Some devnet_config))\<rparr>"

lemma devnet_fork_now: "get_active_fork devnet_config n ts = Cancun"
  by (simp add: get_active_fork_def devnet_fork)

lemma empty_payload_builds:
  "\<exists>b. execute_block_for_payload config_exec [] (devnet_parent\<lparr>h_state_root := 36\<rparr>) sample_attrs (Some 900) (new_provider empty_db) =
     (Inr (b, [], []), new_provider empty_db) \<and> h_gas_used (b_header b) = 0"
proof -
  let ?parent = "devnet_parent\<lparr>h_state_root := 36\<rparr>"
  let ?b = "payload_template config_exec devnet_config [] ?parent sample_attrs (Some 900)"
  let ?bt = "set_base_state_root 36 (new_batch empty_db)"
  have b: "b_transactions (b_body ?b) = []" "b_withdrawals (b_body ?b) = Some []" "h_parent_beacon_block_root (b_header ?b) = None"
    "h_blob_gas_used (b_header ?b) = Some 0"
    by (simp_all add: payload_template_def devnet_fork_now less_eq_hardfork_def sample_attrs_def payload_blob_gas_def Let_def)
  have X: "x_order config_exec = sorted_order" by (simp add: config_exec_def sample_exec_def)
  obtain cx where cx: "provider_execution_env config_exec (b_header ?b) empty_db = Inr (devnet_config, cx)" "cx_fork cx = Cancun"
    by (simp add: provider_execution_env_def config_or_default_def config_exec_def sample_exec_def prepare_execution_env_def devnet_fork Let_def)
  have d: "bw_committed ?bt = empty_db" by (simp add: set_base_state_root_def new_batch_def)
  obtain fin where fin: "finalize_block_header_with_requests config_exec (?b\<lparr>b_body := (b_body ?b)\<lparr>b_transactions := []\<rparr>\<rparr>) [] 0 36 Cancun True = Inr fin"
    "h_gas_used (b_header fin) = 0"
    by (simp add: finalize_block_header_with_requests_def is_building_def fill_header_def Let_def)
  have blob: "check_block_blob_gas devnet_config Cancun (b_header ?b) 0 = Inr ()"
    by (simp add: check_block_blob_gas_def b less_eq_hardfork_def)
  have close: "close_block config_exec ?b devnet_config cx True (Some 36) empty_acc 0 ?bt = (Inr (fin, [], []), ?bt)"
    by (simp add: close_block_def cx(2) b blob X empty_acc_def apply_block_rewards_def less_eq_hardfork_def quiet_root lift_state_def fin
        sseq_def sbind_def reads_def ret_def)
  have "execute_block_with_batch config_exec ?b (Some 36) True (new_batch empty_db) = (Inr (fin, [], []), ?bt)"
    by (simp add: execute_block_with_batch_def base_root_of_def d cx(1) of_db_def open_block_def run_block_def b close sseq_def sbind_def reads_def ret_def)
  then have "execute_block_for_payload config_exec [] ?parent sample_attrs (Some 900) (new_provider empty_db) =
     (Inr (fin, [], []), new_provider empty_db)"
    by (simp add: execute_block_for_payload_def config_or_default_def execute_block_with_state_root_and_building_def
        clear_tracking_inherent_def config_exec_def)
  with fin(2) show ?thesis by blast
qed

theorem built_payload_header_validates_witness:
  "\<exists>b. execute_block_for_payload config_exec [] (devnet_parent\<lparr>h_state_root := 36\<rparr>) sample_attrs (Some 900) (new_provider empty_db) =
     (Inr (b, [], []), new_provider empty_db) \<and>
     validate_header devnet_crypto devnet_config empty_db 1000 (b_header b) (devnet_parent\<lparr>h_state_root := 36\<rparr>) = Inr ()"
proof -
  let ?parent = "devnet_parent\<lparr>h_state_root := 36\<rparr>"
  from empty_payload_builds obtain b where b: "execute_block_for_payload config_exec [] ?parent sample_attrs (Some 900) (new_provider empty_db) =
     (Inr (b, [], []), new_provider empty_db)" "h_gas_used (b_header b) = 0" by blast
  have X: "x_crypto config_exec = devnet_crypto" "x_chain_config config_exec d = Inr (Some devnet_config)" for d
    by (simp_all add: config_exec_def sample_exec_def)
  have fee: "calculate_next_base_fee ?parent = Inr (Some 900)"
    by (simp add: calculate_next_base_fee_def devnet_header_def max_def word_le_nat_alt)
  have p: "h_number ?parent = 5" "h_timestamp ?parent = 100" "h_gas_limit ?parent = 30000000" "h_base_fee_per_gas ?parent = Some 800"
    "pa_timestamp sample_attrs = 112"
    by (simp_all add: devnet_header_def sample_attrs_def)
  have "validate_header (x_crypto config_exec) devnet_config (s_db (new_provider empty_db)) 1000 (b_header b) ?parent =
      (if Cancun \<ge> Prague then Inl RequestsHashMissing else Inr ())"
    by (rule built_payload_header_validates [OF b(1) X(2), where P = Cancun])
      (simp_all add: p b(2) fee devnet_fork devnet_fork_now less_eq_hardfork_def is_cancun_active_def)
  with b(1) X(1) show ?thesis by (simp add: less_eq_hardfork_def)
qed

end
