(* ===== verification/Payload.thy ===== *)
theory Payload
  imports Reorg Forkchoice ExecBlockFacts
begin

section \<open>Payload processing\<close>

text \<open>
  \<^verbatim>\<open>wasix_eth_core/src/sync/registry.rs\<close> (\<open>SyncRegistry\<close>) and
  \<^verbatim>\<open>engine/payload_processor.rs\<close> (\<open>PayloadProcessor\<close>): what the node does with a block
  handed to it by the consensus client or by a peer.  The processor shares the chain with the rest of
  the engine; its state is the record \<open>processor\<close>.  Tasks that the code spawns are recorded in
  \<open>pp_tasks\<close> and run by \<open>run_task\<close>.  Status messages with computed parts use the printers of the
  record \<open>engine_env\<close>.  \<open>RpcPanic\<close> is a panic of the caller's task: nothing after it runs.
\<close>

subsection \<open>Sync registry\<close>

datatype registry_status = RegIdle | RegSyncing | RegStalled

record sync_target =
  st_hash :: b256
  st_peer_id :: "string option"
  st_retries :: u32

text \<open>\<open>rg_permit\<close> is the permit that \<open>notify_one\<close> stores for the next waiter.\<close>

record registry =
  rg_targets :: "sync_target list"
  rg_status :: registry_status
  rg_permit :: bool

definition registry_new :: registry where
  "registry_new = \<lparr>rg_targets = [], rg_status = RegIdle, rg_permit = False\<rparr>"

definition add_target_with_retries ::
  "(header \<Rightarrow> b256) \<Rightarrow> chain \<Rightarrow> b256 \<Rightarrow> string option \<Rightarrow> u32 \<Rightarrow> registry \<Rightarrow> registry" where
  "add_target_with_retries hs c hash peer retries r =
     (if has_block hs c hash then r
      else if \<exists>t \<in> set (rg_targets r). st_hash t = hash then r
      else r\<lparr>rg_targets := rg_targets r @ [\<lparr>st_hash = hash, st_peer_id = peer, st_retries = retries\<rparr>], rg_permit := True\<rparr>)"

definition add_target :: "(header \<Rightarrow> b256) \<Rightarrow> chain \<Rightarrow> b256 \<Rightarrow> string option \<Rightarrow> registry \<Rightarrow> registry" where
  "add_target hs c hash peer r = add_target_with_retries hs c hash peer 0 r"

definition pop_target :: "registry \<Rightarrow> sync_target option \<times> registry" where
  "pop_target r = (case rg_targets r of [] \<Rightarrow> (None, r) | t # ts \<Rightarrow> (Some t, r\<lparr>rg_targets := ts\<rparr>))"

definition registry_set_status :: "registry_status \<Rightarrow> registry \<Rightarrow> registry" where
  "registry_set_status st r = r\<lparr>rg_status := st\<rparr>"

definition has_targets :: "registry \<Rightarrow> bool" where
  "has_targets r = (rg_targets r \<noteq> [])"

definition clear_targets :: "registry \<Rightarrow> registry" where
  "clear_targets r = r\<lparr>rg_targets := []\<rparr>"

definition is_syncing :: "registry \<Rightarrow> bool" where
  "is_syncing r = (rg_status r = RegSyncing)"

subsection \<open>State of the processor\<close>

datatype engine_event = NewBlock block bool | NewTransaction tx bool
datatype task = AddTarget b256 | InvalidateDescendants b256

record processor =
  pp_chain :: chain
  pp_processing :: "b256 set"
  pp_registry :: registry
  pp_tasks :: "task list"
  pp_events :: "engine_event list"

record 'o engine_env =
  en_exec :: "'o exec_env"
  en_now :: u64
  en_text :: "consensus_error \<Rightarrow> string"
  en_exec_text :: "exec_error \<Rightarrow> string"
  en_hex :: "b256 \<Rightarrow> string"

type_synonym 'a proc_act = "(processor, rpc_error, 'a) act"

abbreviation en_crypto :: "'o engine_env \<Rightarrow> crypto" where
  "en_crypto E \<equiv> x_crypto (en_exec E)"

abbreviation en_hash :: "'o engine_env \<Rightarrow> header \<Rightarrow> b256" where
  "en_hash E \<equiv> hash_slow (en_crypto E)"

abbreviation pp_db :: "processor \<Rightarrow> db" where
  "pp_db p \<equiv> ch_db (pp_chain p)"

definition config_of :: "'o engine_env \<Rightarrow> db \<Rightarrow> chain_config" where
  "config_of E d = unwrap_or (ok_flat (x_chain_config (en_exec E) d)) (x_default_config (en_exec E))"

definition status_of :: "payload_status_enum \<Rightarrow> b256 option \<Rightarrow> payload_status" where
  "status_of st latest = \<lparr>ps_status = st, ps_latest_valid_hash = latest\<rparr>"

definition latest_valid :: "'o engine_env \<Rightarrow> processor \<Rightarrow> b256 \<Rightarrow> b256 option" where
  "latest_valid E p hash = get_latest_valid_ancestor (en_hash E) (pp_chain p) hash"

definition mark :: "b256 \<Rightarrow> b256 \<Rightarrow> invalidation_reason \<Rightarrow> processor \<Rightarrow> processor" where
  "mark hash parent reason p = p\<lparr>pp_chain := add_invalid_block hash parent reason (pp_chain p)\<rparr>"

definition spawn :: "task \<Rightarrow> processor \<Rightarrow> processor" where
  "spawn t p = p\<lparr>pp_tasks := pp_tasks p @ [t]\<rparr>"

definition run_store :: "(store, 'e, 'a) act \<Rightarrow> (processor, 'e, 'a) act" where
  "run_store m p = (case m (ch_store (pp_chain p)) of (r, s) \<Rightarrow> (r, p\<lparr>pp_chain := (pp_chain p)\<lparr>ch_store := s\<rparr>\<rparr>))"

definition body_stored :: "processor \<Rightarrow> b256 \<Rightarrow> bool" where
  "body_stored p hash = (ok_flat (block_body_by_hash hash (pp_db p)) \<noteq> None)"

subsection \<open>Ancestors\<close>

definition get_header_from_anywhere :: "'o engine_env \<Rightarrow> chain \<Rightarrow> b256 \<Rightarrow> header option" where
  "get_header_from_anywhere E c hash =
     or_else (stored_header (ch_db c) hash)
    (or_else (payload_header (en_hash E) (ch_db c) hash) (tree_header (ch_tree c) hash))"

text \<open>The loop \<open>for i in 0..64\<close> over the ancestors of a block.\<close>

fun invalid_ancestor_walk :: "nat \<Rightarrow> 'o engine_env \<Rightarrow> chain \<Rightarrow> b256 \<Rightarrow> payload_status option" where
  "invalid_ancestor_walk 0 E c current = None"
| "invalid_ancestor_walk (Suc n) E c current =
     (if get_invalidation_reason c current \<noteq> None
      then Some (status_of (Invalid (''Ancestor block '' @ en_hex E current @ '' is known to be invalid''))
                  (get_latest_valid_ancestor (en_hash E) c current))
      else case get_header_from_anywhere E c current of
          Some hdr \<Rightarrow> if h_parent_hash hdr = 0 then None else invalid_ancestor_walk n E c (h_parent_hash hdr)
        | None \<Rightarrow> (case get_invalid_parent (ch_tree c) current of
             Some parent \<Rightarrow> invalid_ancestor_walk n E c parent
           | None \<Rightarrow> None))"

text \<open>What a check of the consensus rules leads to; its panic unwinds.\<close>

definition on_check :: "'o engine_env \<Rightarrow> consensus_error + unit \<Rightarrow> (string \<Rightarrow> 'a proc_act) \<Rightarrow> 'a proc_act \<Rightarrow> 'a proc_act" where
  "on_check E r bad good = (case r of
       Inr _ \<Rightarrow> good | Inl DivisionByZero \<Rightarrow> fail RpcPanic | Inl e \<Rightarrow> bad (en_text E e))"

definition failed_ancestor :: "'o engine_env \<Rightarrow> b256 \<Rightarrow> b256 \<Rightarrow> string \<Rightarrow> payload_status option proc_act" where
  "failed_ancestor E current parent msg p =
     (if has_block (en_hash E) (pp_chain p) current \<and> has_block (en_hash E) (pp_chain p) parent
      then let p' = mark current parent Hard p
           in (Inr (Some (status_of (Invalid (''Ancestor header validation failed: '' @ msg)) (latest_valid E p' parent))), p')
      else (Inr (Some (status_of Accepted None)), p))"

text \<open>The loop \<open>for i in 0..32\<close>; it is left at \<open>i = 15\<close>.\<close>

fun header_walk :: "nat \<Rightarrow> nat \<Rightarrow> 'o engine_env \<Rightarrow> chain_config \<Rightarrow> b256 \<Rightarrow> payload_status option proc_act" where
  "header_walk 0 i E cfg current = ret None"
| "header_walk (Suc n) i E cfg current = (\<lambda>p.
     let c = pp_chain p in
     case get_header_from_anywhere E c current of
       None \<Rightarrow> (Inr None, p)
     | Some hdr \<Rightarrow>
         let parent = h_parent_hash hdr;
             continue_up = (if parent = 0 \<or> i = 15 then ret None else header_walk n (Suc i) E cfg parent)
         in if get_invalidation_reason c parent \<noteq> None
            then (Inr (Some (status_of (Invalid ''Ancestor block is known to be invalid'') (latest_valid E p parent))),
                  spawn (InvalidateDescendants current) (mark current parent Hard p))
            else case get_header_from_anywhere E c parent of
              None \<Rightarrow> continue_up p
            | Some parent_header \<Rightarrow>
                on_check E (validate_header (en_crypto E) cfg (pp_db p) (en_now E) hdr parent_header)
                  (failed_ancestor E current parent) continue_up p)"

definition validate_parent_block :: "'o engine_env \<Rightarrow> b256 \<Rightarrow> payload_status option proc_act" where
  "validate_parent_block E parent_hash p =
     (case invalid_ancestor_walk 64 E (pp_chain p) parent_hash of
        Some st \<Rightarrow> (Inr (Some st), p)
      | None \<Rightarrow>
          let is_genesis = known_canonical (pp_chain p) parent_hash \<and> ok_flat (block_number parent_hash (pp_db p)) = Some 0
          in if \<not> is_genesis \<and> \<not> has_block (en_hash E) (pp_chain p) parent_hash
             then (Inr (Some (status_of Accepted None)), spawn (AddTarget parent_hash) p)
             else header_walk 32 0 E (config_of E (pp_db p)) parent_hash p)"

subsection \<open>Importing one block\<close>

text \<open>The ways a block is rejected.\<close>

definition soft_invalid :: "'o engine_env \<Rightarrow> b256 \<Rightarrow> b256 \<Rightarrow> string \<Rightarrow> processor \<Rightarrow> payload_status \<times> processor" where
  "soft_invalid E hash parent msg p =
     (let p' = (if body_stored p hash then p else mark hash parent Soft p)
      in (status_of (Invalid msg) (latest_valid E p' parent), p'))"

definition reject_soft :: "'o engine_env \<Rightarrow> b256 \<Rightarrow> b256 \<Rightarrow> string \<Rightarrow> payload_status proc_act" where
  "reject_soft E hash parent msg p = (case soft_invalid E hash parent msg p of (st, p') \<Rightarrow> (Inr st, p'))"

definition reject_hard :: "'o engine_env \<Rightarrow> b256 \<Rightarrow> b256 \<Rightarrow> string \<Rightarrow> payload_status proc_act" where
  "reject_hard E hash parent msg p =
     (let p' = snd (run_store (remove_payload_by_block_hash (en_hash E) hash) (mark hash parent Hard p))
      in (Inr (status_of (Invalid msg) (latest_valid E p' parent)), p'))"

definition reject_body :: "'o engine_env \<Rightarrow> b256 \<Rightarrow> b256 \<Rightarrow> string \<Rightarrow> payload_status proc_act" where
  "reject_body E hash parent msg p =
     (if (case stored_header (pp_db p) hash of Some hdr \<Rightarrow> en_hash E hdr = hash | None \<Rightarrow> False)
      then (Inr (status_of (Invalid msg) (latest_valid E p parent)), p)
      else reject_hard E hash parent msg p)"

definition persist_tx :: "b256 \<Rightarrow> receipt list \<Rightarrow> receipt_meta list \<Rightarrow> nat \<times> tx \<Rightarrow> unit wtx" where
  "persist_tx hash receipts metas = (\<lambda>(i, t).
     sseq (wtx_insert_transaction (tx_hash t) t)
    (sseq (if i < length receipts then wtx_insert_receipt hash (of_nat i) (receipts ! i) else ret ())
    (sseq (if i < length metas then wtx_insert_receipt_meta hash (of_nat i) (metas ! i) else ret ())
          (wtx_insert_transaction_lookup (tx_hash t) hash (of_nat i)))))"

definition persist_block :: "(header \<Rightarrow> b256) \<Rightarrow> block \<Rightarrow> u256 \<Rightarrow> receipt list \<Rightarrow> receipt_meta list \<Rightarrow> unit wtx" where
  "persist_block hs b td receipts metas =
     (let hash = hs (b_header b); number = h_number (b_header b) in
      sseq (wtx_insert_header hash (b_header b))
     (sseq (wtx_insert_header_td hash td)
     (sseq (wtx_insert_block_body hash number (b_body b))
     (sseq (wtx_insert_block_hash hash number)
     (sseq (for_each (List.enumerate 0 (b_transactions (b_body b))) (persist_tx hash receipts metas))
           (ignore_err (wtx_remove_payload_by_block_hash hs hash)))))))"

definition import_td :: "block \<Rightarrow> db \<Rightarrow> rpc_error + u256" where
  "import_td b d =
     (if h_number (b_header b) = 0 then Inr (0 + h_difficulty (b_header b))
      else case header_td (h_parent_hash (b_header b)) d of
          Inr (Some td) \<Rightarrow> Inr (td + h_difficulty (b_header b))
        | Inr None \<Rightarrow> Inl (Internal ''Parent TD not found'')
        | Inl _ \<Rightarrow> Inl (Internal ''Failed to retrieve parent TD''))"

definition commit_block :: "'o engine_env \<Rightarrow> executed \<Rightarrow> u256 \<Rightarrow> unit proc_act" where
  "commit_block E = (\<lambda>(final, receipts, metas) td p.
     case run_store (with_write (persist_block (en_hash E) final td receipts metas)) p of
       (Inl _, p') \<Rightarrow> (Inl (Internal ''Storage''), p') | (Inr _, p') \<Rightarrow> (Inr (), p'))"

text \<open>From the executed block to the answer \<open>VALID\<close>.\<close>

definition import_executed :: "'o engine_env \<Rightarrow> b256 \<Rightarrow> bool \<Rightarrow> executed \<Rightarrow> payload_status proc_act" where
  "import_executed E hash is_local x =
     sbind (reads (\<lambda>p. import_td (fst x) (pp_db p))) (\<lambda>td.
     sseq (commit_block E x td)
          (\<lambda>p. (Inr (status_of Valid (Some hash)),
                p\<lparr>pp_events := pp_events p @ [NewBlock (fst x) is_local],
                  pp_chain := remove_invalid_block hash (pp_chain p)\<rparr>)))"

definition execute_and_import :: "'o engine_env \<Rightarrow> block \<Rightarrow> header \<Rightarrow> bool \<Rightarrow> payload_status proc_act" where
  "execute_and_import E b parent is_local p =
     (let hash = en_hash E (b_header b); parent_hash = h_parent_hash (b_header b) in
      case run_store (execute_block_with_state_root (en_exec E) b True (Some (h_state_root parent))) p of
        (Inl e, p') \<Rightarrow>
          if exec_panics e then (Inl (Internal ''Execution task panicked''), p')
          else reject_hard E hash parent_hash (en_exec_text E e) p'
      | (Inr (final, receipts, metas), p') \<Rightarrow>
          on_check E (validate_block_post_execution final
              (case receipts of [] \<Rightarrow> 0 | _ \<Rightarrow> r_cumulative_gas_used (last receipts))
              (x_receipt_root (en_exec E) receipts) (accrued_bloom receipts) (h_state_root (b_header final)))
            (reject_hard E hash parent_hash) (import_executed E hash is_local (final, receipts, metas)) p')"

definition buffer :: "'o engine_env \<Rightarrow> block \<Rightarrow> payload_status \<Rightarrow> payload_status proc_act" where
  "buffer E b st p = (Inr st,
     p\<lparr>pp_chain := (pp_chain p)\<lparr>ch_tree := add_orphan (en_hash E) (h_parent_hash (b_header b)) b (ch_tree (pp_chain p))\<rparr>\<rparr>)"

definition import_on_parent :: "'o engine_env \<Rightarrow> chain_config \<Rightarrow> block \<Rightarrow> bool \<Rightarrow> payload_status proc_act" where
  "import_on_parent E cfg b is_local p =
     (let hash = en_hash E (b_header b); parent_hash = h_parent_hash (b_header b); d = pp_db p in
      case stored_header d parent_hash of
        Some parent \<Rightarrow>
          on_check E (validate_header (en_crypto E) cfg d (en_now E) (b_header b) parent)
            (reject_hard E hash parent_hash) (execute_and_import E b parent is_local) p
      | None \<Rightarrow>
          if parent_hash \<in> pp_processing p then (Inr (status_of Syncing None), p)
          else case get_header_from_anywhere E (pp_chain p) parent_hash of
            Some parent \<Rightarrow>
              on_check E (validate_header (en_crypto E) cfg d (en_now E) (b_header b) parent)
                (\<lambda>msg p. let p' = mark hash parent_hash Hard p
                         in (Inr (status_of (Invalid msg) (latest_valid E p' parent_hash)), p'))
                (buffer E b (status_of Accepted None)) p
          | None \<Rightarrow> (Inr (status_of Syncing None), p))"

definition on_parent_status ::
  "'o engine_env \<Rightarrow> chain_config \<Rightarrow> block \<Rightarrow> bool \<Rightarrow> payload_status option \<Rightarrow> payload_status proc_act" where
  "on_parent_status E cfg b is_local parent_status = (case parent_status of
       None \<Rightarrow> import_on_parent E cfg b is_local
     | Some st \<Rightarrow>
         if ps_status st = Syncing \<or> ps_status st = Accepted then buffer E b st
         else if ps_status st = Valid then import_on_parent E cfg b is_local
         else (\<lambda>p. let hash = en_hash E (b_header b); parent_hash = h_parent_hash (b_header b);
                        p' = spawn (InvalidateDescendants hash) (mark hash parent_hash Hard p)
                    in (Inr (status_of (ps_status st) (latest_valid E p' parent_hash)), p')))"

definition new_payload_internal_inner ::
  "'o engine_env \<Rightarrow> block \<Rightarrow> b256 list option \<Rightarrow> b256 option \<Rightarrow> bool \<Rightarrow> payload_status proc_act" where
  "new_payload_internal_inner E b blob_hashes beacon_root is_local p =
     (let hash = en_hash E (b_header b); parent_hash = h_parent_hash (b_header b);
          cfg = config_of E (pp_db p);
          cancun = get_active_fork cfg (h_number (b_header b)) (h_timestamp (b_header b)) \<ge> Cancun
      in on_check E (if cancun then validate_cancun b blob_hashes else Inr ()) (reject_soft E hash parent_hash)
        (on_check E (validate_body (en_crypto E) cfg (pp_db p) b) (reject_body E hash parent_hash)
        (on_check E (if cancun then validate_parent_beacon_block_root (b_header b) beacon_root else Inr ())
           (reject_soft E hash parent_hash)
        (sbind (validate_parent_block E parent_hash) (on_parent_status E cfg b is_local)))) p)"

subsection \<open>Dependent blocks\<close>

text \<open>One pass over the children of a block: \<open>Valid\<close> children are pushed on the stack.\<close>

fun revalidate_children :: "'o engine_env \<Rightarrow> b256 list \<Rightarrow> b256 list \<Rightarrow> b256 list proc_act" where
  "revalidate_children E [] stack p = (Inr stack, p)"
| "revalidate_children E (child # children) stack p =
     (case remove_block child (ch_tree (pp_chain p)) of (removed, t) \<Rightarrow>
        let p1 = p\<lparr>pp_chain := (pp_chain p)\<lparr>ch_tree := t\<rparr>\<rparr> in
        case removed of
          None \<Rightarrow> revalidate_children E children stack p1
        | Some b \<Rightarrow>
            if child \<in> pp_processing p1 then revalidate_children E children stack p1
            else case new_payload_internal_inner E b None None False
                        (p1\<lparr>pp_processing := insert child (pp_processing p1)\<rparr>) of (r, p2) \<Rightarrow>
              if r = Inl RpcPanic then (Inl RpcPanic, p2)
              else revalidate_children E children
                  (case r of Inr st \<Rightarrow> if ps_status st = Valid then child # stack else stack | Inl _ \<Rightarrow> stack)
                  (p2\<lparr>pp_processing := pp_processing p2 - {child}\<rparr>))"

partial_function (option) revalidate_dependent_payloads ::
  "'o engine_env \<Rightarrow> b256 list \<Rightarrow> processor \<Rightarrow> ((rpc_error + unit) \<times> processor) option" where
  "revalidate_dependent_payloads E stack p =
     (case stack of [] \<Rightarrow> Some (Inr (), p)
      | parent # rest \<Rightarrow>
          (case remove_children parent (ch_tree (pp_chain p)) of (children, t) \<Rightarrow>
             (case revalidate_children E children rest (p\<lparr>pp_chain := (pp_chain p)\<lparr>ch_tree := t\<rparr>\<rparr>) of
                (Inl e, p') \<Rightarrow> Some (Inl e, p')
              | (Inr stack', p') \<Rightarrow> revalidate_dependent_payloads E stack' p')))"

fun invalidate_children :: "b256 \<Rightarrow> b256 list \<Rightarrow> chain \<Rightarrow> chain" where
  "invalidate_children parent [] c = c"
| "invalidate_children parent (child # children) c =
     invalidate_children parent children (add_invalid_block child parent Hard c)"

partial_function (option) invalidate_loop :: "b256 list \<Rightarrow> b256 list \<Rightarrow> chain \<Rightarrow> (b256 list \<times> chain) option" where
  "invalidate_loop stack removed c =
     (case stack of [] \<Rightarrow> Some (removed, c)
      | parent # rest \<Rightarrow>
          (case remove_children parent (ch_tree c) of (children, t) \<Rightarrow>
             invalidate_loop (rev children @ rest) (removed @ children) (invalidate_children parent children (c\<lparr>ch_tree := t\<rparr>))))"

definition invalidate_descendants :: "b256 \<Rightarrow> chain \<Rightarrow> chain option" where
  "invalidate_descendants hash c =
     map_option (\<lambda>(removed, c'). c'\<lparr>ch_tree := fold (\<lambda>h t. snd (remove_block h t)) removed (ch_tree c')\<rparr>)
       (invalidate_loop [hash] [] c)"

definition run_task :: "'o engine_env \<Rightarrow> task \<Rightarrow> processor \<Rightarrow> processor option" where
  "run_task E t p = (case t of
       AddTarget hash \<Rightarrow> Some (p\<lparr>pp_registry := add_target (en_hash E) (pp_chain p) hash None (pp_registry p)\<rparr>)
     | InvalidateDescendants hash \<Rightarrow> map_option (\<lambda>c. p\<lparr>pp_chain := c\<rparr>) (invalidate_descendants hash (pp_chain p)))"

subsection \<open>The entry point\<close>

definition height_processing :: "processor \<Rightarrow> b256 \<Rightarrow> u64 \<Rightarrow> bool" where
  "height_processing p hash number \<longleftrightarrow>
     (\<exists>h \<in> pp_processing p. h \<noteq> hash \<and> map_option h_number (stored_header (pp_db p) h) = Some number)"

definition done_processing :: "b256 \<Rightarrow> processor \<Rightarrow> processor" where
  "done_processing hash p = p\<lparr>pp_processing := pp_processing p - {hash}\<rparr>"

text \<open>The checks between the registration of the block and its import.\<close>

definition known_outcome ::
  "'o engine_env \<Rightarrow> block \<Rightarrow> b256 list option \<Rightarrow> b256 option \<Rightarrow> processor \<Rightarrow> (payload_status \<times> processor) option" where
  "known_outcome E b blob_hashes beacon_root p =
     (let hash = en_hash E (b_header b); parent_hash = h_parent_hash (b_header b);
          cancun = get_active_fork (config_of E (pp_db p)) (h_number (b_header b)) (h_timestamp (b_header b)) \<ge> Cancun;
          soft = (\<lambda>e. Some (soft_invalid E hash parent_hash (en_text E e) p))
      in case (if cancun then validate_cancun b blob_hashes else Inr ()) of Inl e \<Rightarrow> soft e
       | Inr _ \<Rightarrow> (case (if cancun then validate_parent_beacon_block_root (b_header b) beacon_root else Inr ()) of Inl e \<Rightarrow> soft e
       | Inr _ \<Rightarrow>
           if body_stored p hash then Some (status_of Valid (Some hash), p)
           else if get_invalidation_reason (pp_chain p) hash = Some Hard
           then Some (status_of (Invalid ''Block is known to be invalid'') (latest_valid E p parent_hash), p)
           else (case get_invalidation_reason (pp_chain p) parent_hash of
               None \<Rightarrow> None
             | Some reason \<Rightarrow>
                 Some (status_of (Invalid (if reason = Hard then ''Parent block is known to be invalid''
                                           else ''Parent block is known to be invalid (Soft)''))
                        (latest_valid E p parent_hash), mark hash parent_hash reason p))))"

definition new_payload_internal ::
  "'o engine_env \<Rightarrow> block \<Rightarrow> b256 \<Rightarrow> b256 list option \<Rightarrow> b256 option \<Rightarrow> bool \<Rightarrow> processor \<Rightarrow>
   ((rpc_error + payload_status) \<times> processor) option" where
  "new_payload_internal E b expected_hash blob_hashes beacon_root is_local p =
     (let hash = en_hash E (b_header b); parent_hash = h_parent_hash (b_header b) in
      if hash \<noteq> expected_hash then
        (if body_stored p hash then Some (Inr (status_of (Invalid ''INVALID_BLOCK_HASH'') (Some hash)), p)
         else Some (Inr (status_of (Invalid ''INVALID_BLOCK_HASH'') None), mark hash parent_hash Soft p))
      else if hash \<in> pp_processing p \<or> height_processing p hash (h_number (b_header b))
      then Some (Inr (status_of Syncing None), p)
      else let p1 = p\<lparr>pp_processing := insert hash (pp_processing p)\<rparr> in
        case known_outcome E b blob_hashes beacon_root p1 of
          Some (st, p2) \<Rightarrow> Some (Inr st, done_processing hash p2)
        | None \<Rightarrow>
            (case new_payload_internal_inner E b blob_hashes beacon_root is_local p1 of (r, p2) \<Rightarrow>
               if r = Inl RpcPanic then Some (Inl RpcPanic, p2)
               else
                 let p3 = done_processing hash p2 in
                 if (case r of Inr st \<Rightarrow> ps_status st = Valid | Inl _ \<Rightarrow> False)
                 then (case revalidate_dependent_payloads E [hash] p3 of
                         None \<Rightarrow> None
                       | Some (Inl e, p4) \<Rightarrow> Some (Inl e, p4)
                       | Some (Inr _, p4) \<Rightarrow> Some (r, p4))
                 else Some (r, p3)))"

end
