(* ===== verification/PayloadFacts.thy ===== *)
theory PayloadFacts
  imports Payload
begin

section \<open>Payload processing: properties\<close>

text \<open>
  What \<open>newPayload\<close> promises: it returns and releases the block it worked on, what an answer
  \<open>VALID\<close> stands for, how invalid blocks take their descendants with them, and the queue of sync
  targets.  The samples of the witnesses import one empty Shanghai block.
\<close>

subsection \<open>Invalidation of descendants\<close>

text \<open>\<open>child_of t p h\<close>: the block \<open>h\<close> is buffered as a child of \<open>p\<close>.\<close>

definition child_of :: "block_tree \<Rightarrow> b256 \<Rightarrow> b256 \<Rightarrow> bool" where
  "child_of t parent h \<longleftrightarrow> h \<in> set (get_children t parent)"

lemma invalidate_children_frame [simp]:
  "bt_children (ch_tree (invalidate_children parent hs c)) = bt_children (ch_tree c)"
  "ch_store (invalidate_children parent hs c) = ch_store c"
  by (induction hs arbitrary: c) (simp_all add: add_invalid_block_def mark_invalid_def Let_def)

lemma invalidate_children_reason:
  "get_invalidation_reason (invalidate_children parent hs c) h =
     (if h \<in> set hs then Some Hard else get_invalidation_reason c h)"
  by (induction hs arbitrary: c)
    (auto simp: add_invalid_block_def mark_invalid_def get_invalidation_reason_def tree_invalidation_reason_def Let_def)

lemma invalidate_children_blocks:
  "bt_blocks (ch_tree (invalidate_children parent hs c)) h =
     (if h \<in> set hs then None else bt_blocks (ch_tree c) h)"
  by (induction hs arbitrary: c) (auto simp: add_invalid_block_def mark_invalid_def Let_def)

text \<open>What the loop reaches from the hashes on its stack.\<close>

definition below :: "block_tree \<Rightarrow> b256 set \<Rightarrow> b256 set" where
  "below t S = {h. \<exists>p \<in> S. (child_of t)\<^sup>+\<^sup>+ p h}"

lemma child_of_remove_children:
  "child_of (snd (remove_children parent t)) p h \<longleftrightarrow> p \<noteq> parent \<and> child_of t p h"
  by (simp add: child_of_def get_children_def remove_children_def)

lemma below_remove_children:
  "below t (insert parent S) =
     set (get_children t parent) \<union> below (snd (remove_children parent t)) (set (get_children t parent) \<union> S)"
    (is "?L = ?C \<union> below ?t' (?C \<union> S)")
proof
  have mono: "(child_of t)\<^sup>+\<^sup>+ p h" if "(child_of ?t')\<^sup>+\<^sup>+ p h" for p h
    using that by (induction rule: tranclp_induct)
      (auto simp: child_of_remove_children intro: tranclp.intros)
  show "?C \<union> below ?t' (?C \<union> S) \<subseteq> ?L"
  proof
    fix h assume "h \<in> ?C \<union> below ?t' (?C \<union> S)"
    then consider "child_of t parent h" | p where "p \<in> ?C" "(child_of t)\<^sup>+\<^sup>+ p h" | p where "p \<in> S" "(child_of t)\<^sup>+\<^sup>+ p h"
      using mono by (auto simp: below_def child_of_def)
    then show "h \<in> ?L"
      by cases (auto simp: below_def child_of_def intro: tranclp_into_tranclp2 [of "child_of t"])
  qed
  have "h \<in> ?C \<union> below ?t' (?C \<union> S)" if "(child_of t)\<^sup>+\<^sup>+ p h" "p \<in> insert parent S" for p h
    using that
  proof (induction rule: tranclp_induct)
    case (base h)
    then show ?case by (auto simp: below_def child_of_def child_of_remove_children intro!: bexI [of _ p])
       (metis child_of_def child_of_remove_children tranclp.r_into_trancl)+
  next
    case (step h h')
    then have "h \<in> ?C \<union> below ?t' (?C \<union> S)" by blast
    show ?case
    proof (cases "h = parent")
      case True
      with step show ?thesis by (simp add: child_of_def)
    next
      case False
      with step.hyps have s: "child_of ?t' h h'" by (simp add: child_of_remove_children)
      from \<open>h \<in> ?C \<union> _\<close> show ?thesis
      proof
        assume "h \<in> ?C"
        with s show ?thesis by (auto simp: below_def intro: tranclp.r_into_trancl)
      next
        assume "h \<in> below ?t' (?C \<union> S)"
        with s show ?thesis by (auto simp: below_def intro: tranclp.trancl_into_trancl)
      qed
    qed
  qed
  then show "?L \<subseteq> ?C \<union> below ?t' (?C \<union> S)" by (auto simp: below_def)
qed

text \<open>What the traversal leaves behind, and the order in which it records the descendants.\<close>

definition invalidated :: "chain \<Rightarrow> b256 set \<Rightarrow> chain \<Rightarrow> bool" where
  "invalidated c S c' \<longleftrightarrow>
     (\<forall>h. get_invalidation_reason c' h = (if h \<in> S then Some Hard else get_invalidation_reason c h)) \<and>
     (\<forall>h. bt_blocks (ch_tree c') h = (if h \<in> S then None else bt_blocks (ch_tree c) h)) \<and>
     ch_store c' = ch_store c"

lemma invalidated_trans: "invalidated c S c1 \<Longrightarrow> invalidated c1 T c2 \<Longrightarrow> invalidated c (S \<union> T) c2"
  by (simp add: invalidated_def)

lemma invalidated_step:
  "invalidated c (set hs) (invalidate_children parent hs (c\<lparr>ch_tree := snd (remove_children parent (ch_tree c))\<rparr>))"
  by (simp add: invalidated_def invalidate_children_reason invalidate_children_blocks)
    (simp add: get_invalidation_reason_def tree_invalidation_reason_def remove_children_def)

lemma child_of_invalidate_children:
  "child_of (ch_tree (invalidate_children parent hs c)) = child_of (ch_tree c)"
  by (simp add: child_of_def get_children_def fun_eq_iff)

lemma below_cong: "bt_children t = bt_children t' \<Longrightarrow> below t S = below t' S"
  by (simp add: below_def child_of_def [abs_def] get_children_def)

lemma below_empty [simp]: "below t {} = {}"
  by (simp add: below_def)

lemma below_leaf: "bt_children t parent = None \<Longrightarrow> below t (insert parent S) = below t S"
  using below_remove_children [of t parent S]
  by (simp add: get_children_def remove_children_def fun_upd_idem)

lemma invalidate_loop_spec:
  assumes "finite (dom (bt_children (ch_tree c)))"
  shows "\<exists>removed' c'. invalidate_loop stack removed c = Some (removed', c') \<and>
    set removed' = set removed \<union> below (ch_tree c) (set stack) \<and>
    invalidated c (below (ch_tree c) (set stack)) c'"
  using assms
proof (induction "(card (dom (bt_children (ch_tree c))), length stack)" arbitrary: stack removed c
    rule: wf_induct_rule [OF wf_lex_prod [OF wf_less wf_less]])
  case (1 stack c removed)
  show ?case
  proof (cases stack)
    case Nil
    then show ?thesis by (subst invalidate_loop.simps) (simp add: invalidated_def)
  next
    case (Cons parent rest)
    let ?hs = "get_children (ch_tree c) parent"
    let ?c0 = "c\<lparr>ch_tree := snd (remove_children parent (ch_tree c))\<rparr>"
    let ?c1 = "invalidate_children parent ?hs ?c0"
    have unf: "invalidate_loop stack removed c = invalidate_loop (rev ?hs @ rest) (removed @ ?hs) ?c1"
      by (subst invalidate_loop.simps) (simp add: Cons remove_children_def get_children_def)
    have ch: "bt_children (ch_tree ?c1) = (bt_children (ch_tree c))(parent := None)"
      by (simp add: remove_children_def)
    have fin: "finite (dom (bt_children (ch_tree ?c1)))" using 1(2) by (simp add: remove_children_def)
    have dec: "((card (dom (bt_children (ch_tree ?c1))), length (rev ?hs @ rest)),
        card (dom (bt_children (ch_tree c))), length stack) \<in> {(x, y). x < y} <*lex*> {(x, y). x < y}"
    proof (cases "bt_children (ch_tree c) parent")
      case None
      then show ?thesis by (simp add: remove_children_def Cons get_children_def fun_upd_idem)
    next
      case (Some cs)
      then have "card (dom (bt_children (ch_tree c)) - {parent}) < card (dom (bt_children (ch_tree c)))"
        using 1(2) by (intro card_Diff1_less) auto
      then show ?thesis by (simp add: remove_children_def)
    qed
    obtain removed' c' where r: "invalidate_loop (rev ?hs @ rest) (removed @ ?hs) ?c1 = Some (removed', c')"
      "set removed' = set (removed @ ?hs) \<union> below (ch_tree ?c1) (set (rev ?hs @ rest))"
      "invalidated ?c1 (below (ch_tree ?c1) (set (rev ?hs @ rest))) c'"
      using 1(1) [OF dec fin] by blast
    have b: "below (ch_tree ?c1) (set (rev ?hs @ rest)) =
        below (snd (remove_children parent (ch_tree c))) (set ?hs \<union> set rest)"
      by (rule trans [OF below_cong [where t' = "snd (remove_children parent (ch_tree c))"]])
        (simp_all add: remove_children_def)
    have s: "below (ch_tree c) (set stack) = set ?hs \<union> below (ch_tree ?c1) (set (rev ?hs @ rest))"
      unfolding b Cons by (simp add: below_remove_children)
    have "invalidated c (below (ch_tree c) (set stack)) c'"
      unfolding s using invalidated_trans [OF invalidated_step r(3)] .
    with r(1,2) unf s show ?thesis by auto
  qed
qed

lemma fold_remove_block:
  "bt_children (fold (\<lambda>h t. snd (remove_block h t)) hs t) = bt_children t"
  "bt_invalid (fold (\<lambda>h t. snd (remove_block h t)) hs t) = bt_invalid t"
  "bt_blocks (fold (\<lambda>h t. snd (remove_block h t)) hs t) k = (if k \<in> set hs then None else bt_blocks t k)"
  by (induction hs arbitrary: t) (simp_all add: remove_block_def)

text \<open>C26: \<open>invalidate_descendants\<close> returns for every finite pool of buffered blocks, even when the child
  index has cycles; afterwards exactly the blocks below the given one (one or more steps of the child
  index) are Hard-invalid and gone from the pool, and every other block keeps its mark and its entry.\<close>

theorem invalidate_descendants_exact:
  assumes "finite (dom (bt_children (ch_tree c)))"
  shows "\<exists>c'. invalidate_descendants hash c = Some c' \<and>
    (\<forall>h. get_invalidation_reason c' h =
       (if (child_of (ch_tree c))\<^sup>+\<^sup>+ hash h then Some Hard else get_invalidation_reason c h)) \<and>
    (\<forall>h. bt_blocks (ch_tree c') h =
       (if (child_of (ch_tree c))\<^sup>+\<^sup>+ hash h then None else bt_blocks (ch_tree c) h))"
proof -
  obtain removed c' where l: "invalidate_loop [hash] [] c = Some (removed, c')"
    and set: "set removed = below (ch_tree c) {hash}" and i: "invalidated c (below (ch_tree c) {hash}) c'"
    using invalidate_loop_spec [OF assms, of "[hash]" "[]"] by auto
  have b: "h \<in> below (ch_tree c) {hash} \<longleftrightarrow> (child_of (ch_tree c))\<^sup>+\<^sup>+ hash h" for h
    by (simp add: below_def)
  show ?thesis
    using l i unfolding invalidate_descendants_def invalidated_def
    by (auto simp: fold_remove_block set b get_invalidation_reason_def tree_invalidation_reason_def)
qed

subsection \<open>One import\<close>

abbreviation buffered :: "processor \<Rightarrow> b256 set" where
  "buffered p \<equiv> dom (bt_blocks (ch_tree (pp_chain p)))"

lemma rules_no_panic:
  "validate_body cr c d b \<noteq> Inl DivisionByZero"
  "validate_cancun b expected \<noteq> Inl DivisionByZero"
  "validate_parent_beacon_block_root hdr root \<noteq> Inl DivisionByZero"
  "validate_block_post_execution b g r l s \<noteq> Inl DivisionByZero"
  by (auto simp: validate_body_def validate_cancun_def validate_parent_beacon_block_root_def
      validate_block_post_execution_def Let_def rbind_Inl_iff split: option.splits)

lemma on_check_panic_free:
  assumes "r \<noteq> Inl DivisionByZero"
  shows "on_check E r bad good = (case r of Inr _ \<Rightarrow> good | Inl e \<Rightarrow> bad (en_text E e))"
  using assms by (auto simp: on_check_def split: sum.splits consensus_error.splits)

lemma on_check_cases:
  assumes "r \<noteq> Inl DivisionByZero" and "\<And>e. r = Inl e \<Longrightarrow> P (bad (en_text E e) p)"
    and "r = Inr () \<Longrightarrow> P (good p)"
  shows "P (on_check E r bad good p)"
  using assms by (cases r) (auto simp: on_check_panic_free)

text \<open>\<open>steady p x\<close>: the call did not panic, kept the set of blocks in progress and buffered nothing.
  \<open>settled h p x\<close>: the same, except that an answer other than \<open>VALID\<close> may have buffered \<open>h\<close>.\<close>

definition steady :: "processor \<Rightarrow> (rpc_error + 'a) \<times> processor \<Rightarrow> bool" where
  "steady p x \<longleftrightarrow> fst x \<noteq> Inl RpcPanic \<and> pp_processing (snd x) = pp_processing p \<and> buffered (snd x) \<subseteq> buffered p"

definition is_valid :: "rpc_error + payload_status \<Rightarrow> bool" where
  "is_valid r \<longleftrightarrow> (case r of Inr st \<Rightarrow> ps_status st = Valid | Inl _ \<Rightarrow> False)"

definition settled :: "b256 \<Rightarrow> processor \<Rightarrow> (rpc_error + payload_status) \<times> processor \<Rightarrow> bool" where
  "settled h p x \<longleftrightarrow> fst x \<noteq> Inl RpcPanic \<and> pp_processing (snd x) = pp_processing p \<and>
     buffered (snd x) \<subseteq> (if is_valid (fst x) then buffered p else insert h (buffered p))"

lemma steady_settled: "steady p x \<Longrightarrow> settled h p x"
  by (auto simp: steady_def settled_def)

lemma settled_trans: "steady p (r, p') \<Longrightarrow> settled h p' x \<Longrightarrow> settled h p x"
  unfolding steady_def settled_def by (simp split: if_splits) blast+

lemma steady_trans: "steady p (r, p') \<Longrightarrow> steady p' x \<Longrightarrow> steady p x"
  unfolding steady_def by (simp, blast)

lemma mark_keeps:
  "pp_processing (mark h ph r p) = pp_processing p" "buffered (mark h ph r p) \<subseteq> buffered p"
  "ch_store (pp_chain (mark h ph r p)) = ch_store (pp_chain p)"
  by (auto simp: mark_def add_invalid_block_def mark_invalid_def Let_def)

lemma spawn_keeps [simp]:
  "pp_processing (spawn t p) = pp_processing p" "pp_chain (spawn t p) = pp_chain p"
  by (simp_all add: spawn_def)

lemma run_store_keeps:
  "pp_processing (snd (run_store m p)) = pp_processing p"
  "ch_tree (pp_chain (snd (run_store m p))) = ch_tree (pp_chain p)"
  by (simp_all add: run_store_def split: prod.splits)

lemma steady_reject: 
  "steady p (reject_soft E h ph msg p)" "steady p (reject_hard E h ph msg p)" "steady p (reject_body E h ph msg p)"
  using mark_keeps [of h ph _ p]
  by (auto simp: steady_def reject_soft_def soft_invalid_def reject_hard_def reject_body_def Let_def run_store_keeps)

lemma steady_failed_ancestor: "steady p (failed_ancestor E h ph msg p)"
  using mark_keeps [of h ph Hard p] by (auto simp: steady_def failed_ancestor_def Let_def)

lemma steady_header_walk: "steady p (header_walk n i E cfg h p)"
proof (induction n arbitrary: i h)
  case (Suc n)
  have stop: "steady p (Inr None, p)"
    by (simp add: steady_def)
  have "steady p (Inr st, spawn t (mark h ph Hard p))" for st :: "payload_status option" and t ph
    using mark_keeps [of h ph Hard p] by (simp add: steady_def)
  then show ?case
    using Suc.IH stop steady_failed_ancestor [of p E h]
    by (auto simp: Let_def validate_header_no_panic split: option.split intro!: on_check_cases [where P = "steady p"])
qed (simp add: steady_def)

lemma steady_validate_parent: "steady p (validate_parent_block E ph p)"
  using steady_header_walk [of p 32 0 E _ ph]
  by (auto simp: validate_parent_block_def Let_def split: option.split) (auto simp: steady_def)

lemma steady_commit_block: "steady p (commit_block E x td p)"
proof -
  obtain final receipts metas where x: "x = (final, receipts, metas)" by (metis prod_cases3)
  let ?m = "with_write (persist_block (en_hash E) final td receipts metas)"
  obtain r p' where r: "run_store ?m p = (r, p')" by fastforce
  then show ?thesis
    using run_store_keeps [of ?m p] by (cases r) (simp_all add: x commit_block_def steady_def)
qed

lemma steady_import_executed: "steady p (import_executed E hash is_local x p)"
proof (cases "import_td (fst x) (pp_db p)")
  case (Inl e)
  then show ?thesis
    by (auto simp: import_executed_def steady_def import_td_def split: sum.splits option.splits if_splits)
next
  case (Inr td)
  obtain r p' where c: "commit_block E x td p = (r, p')" by fastforce
  with steady_commit_block [of p E x td] have "steady p (r, p')" by simp
  then show ?thesis
    using Inr c by (cases r) (simp_all add: import_executed_def steady_def remove_invalid_block_def remove_invalid_def)
qed

lemma steady_execute_and_import: "steady p (execute_and_import E b parent is_local p)"
proof -
  let ?run = "run_store (execute_block_with_state_root (en_exec E) b True (Some (h_state_root parent))) p"
  obtain r p' where run: "?run = (r, p')" by fastforce
  with run_store_keeps [of "execute_block_with_state_root (en_exec E) b True (Some (h_state_root parent))" p]
  have p': "steady p (Inr (), p')" by (simp add: steady_def)
  show ?thesis
  proof (cases r)
    case (Inl e)
    have "steady p (reject_hard E h ph msg p')" for h ph msg
      by (rule steady_trans [OF p' steady_reject(2)])
    then show ?thesis
      using p' unfolding execute_and_import_def run Inl by (simp add: Let_def) (simp add: steady_def)
  next
    case (Inr x)
    show ?thesis
      unfolding execute_and_import_def run Inr Let_def
      by (cases x, simp, rule on_check_cases [where P = "steady p"])
        (auto intro: steady_trans [OF p'] steady_reject steady_import_executed simp: rules_no_panic)
  qed
qed

lemma settled_buffer:
  "ps_status st \<noteq> Valid \<Longrightarrow> settled (en_hash E (b_header b)) p (buffer E b st p)"
  by (auto simp: settled_def buffer_def is_valid_def add_orphan_def Let_def)

lemma settled_import_on_parent: "settled (en_hash E (b_header b)) p (import_on_parent E cfg b is_local p)"
proof -
  have s: "settled h p (Inr (status_of Syncing None), p)" for h
    by (auto simp: settled_def is_valid_def status_of_def)
  have m: "settled h p (Inr st, mark h' ph Hard p)" for h h' ph st
    using mark_keeps [of h' ph Hard p] by (auto simp: settled_def)
  show ?thesis
    unfolding import_on_parent_def Let_def
    by (auto split: option.split intro!: s m on_check_cases [where P = "settled _ _"] steady_settled
        [OF steady_reject(2)] steady_settled [OF steady_execute_and_import] settled_buffer
        simp: validate_header_no_panic) (simp add: status_of_def)
qed

lemma settled_on_parent_status: "settled (en_hash E (b_header b)) p (on_parent_status E cfg b is_local st p)"
proof -
  have "settled h p (Inr st, spawn t (mark h ph Hard p))" for h ph st t
    using mark_keeps [of h ph Hard p] by (auto simp: settled_def)
  then show ?thesis
    by (auto simp: on_parent_status_def Let_def settled_import_on_parent intro!: settled_buffer split: option.split)
qed

lemma settled_inner:
  "settled (en_hash E (b_header b)) p (new_payload_internal_inner E b blobs root is_local p)"
proof -
  let ?h = "en_hash E (b_header b)" and ?ph = "h_parent_hash (b_header b)"
  obtain r p' where v: "validate_parent_block E ?ph p = (r, p')" by fastforce
  with steady_validate_parent [of p E ?ph] have p': "steady p (r, p')" by simp
  have "settled ?h p (Inl e, p')" if "r = Inl e" for e
    using p' that by (auto simp: steady_def settled_def is_valid_def)
  then have parent: "settled ?h p (sbind (validate_parent_block E ?ph) (on_parent_status E cfg b is_local) p)" for cfg
    using settled_trans [OF p' settled_on_parent_status] by (cases r) (simp_all add: sbind_def v)
  show ?thesis
    unfolding new_payload_internal_inner_def Let_def
    by (intro on_check_cases [where P = "settled _ _"] parent steady_settled [OF steady_reject(1)]
        steady_settled [OF steady_reject(3)]) (simp_all add: rules_no_panic)
qed

subsection \<open>Termination of an import\<close>

text \<open>Every block pushed on the stack of \<open>revalidate_dependent_payloads\<close> has left the pool for good.\<close>

lemma card_settled:
  assumes "finite D" and "child \<in> D" and "D' \<subseteq> (if v then D - {child} else insert h (D - {child}))"
  shows "finite D'" and "card D' + (if v then 1 else 0) \<le> card D"
proof -
  show "finite D'" using assms(1,3) by (auto intro: finite_subset split: if_splits)
  have c: "Suc (card (D - {child})) = card D" using assms(1,2) by (rule card_Suc_Diff1)
  have "card (insert h (D - {child})) \<le> Suc (card (D - {child}))" by (rule card_insert_le_m1) simp_all
  then show "card D' + (if v then 1 else 0) \<le> card D"
    using assms(1,3) c card_mono [of "D - {child}" D'] card_mono [of "insert h (D - {child})" D'] by (cases v) simp_all
qed

lemma revalidate_children_spec:
  assumes "finite (buffered p)"
  shows "\<exists>stack' p'. revalidate_children E hs stack p = (Inr stack', p') \<and> pp_processing p' = pp_processing p \<and>
    finite (buffered p') \<and> card (buffered p') + length stack' \<le> card (buffered p) + length stack"
  using assms
proof (induction hs arbitrary: stack p)
  case (Cons child hs)
  let ?p1 = "p\<lparr>pp_chain := (pp_chain p)\<lparr>ch_tree := snd (remove_block child (ch_tree (pp_chain p)))\<rparr>\<rparr>"
  have b1: "buffered ?p1 = buffered p - {child}" by (auto simp: remove_block_def)
  have skip: ?case if "revalidate_children E (child # hs) stack p = revalidate_children E hs stack ?p1"
    using Cons.IH [of ?p1 stack] Cons.prems that b1 card_mono [of "buffered p" "buffered p - {child}"] by force
  show ?case
  proof (cases "bt_blocks (ch_tree (pp_chain p)) child")
    case None
    then show ?thesis by (intro skip) (simp add: remove_block_def)
  next
    case (Some b)
    show ?thesis
    proof (cases "child \<in> pp_processing p")
      case True
      then show ?thesis by (intro skip) (simp add: remove_block_def Some)
    next
      case False
      let ?q = "?p1\<lparr>pp_processing := insert child (pp_processing p)\<rparr>"
      obtain r p2 where r: "new_payload_internal_inner E b None None False ?q = (r, p2)" by fastforce
      let ?stack = "case r of Inr st \<Rightarrow> if ps_status st = Valid then child # stack else stack | Inl _ \<Rightarrow> stack"
      let ?p3 = "p2\<lparr>pp_processing := pp_processing p2 - {child}\<rparr>"
      have s: "settled (en_hash E (b_header b)) ?q (r, p2)"
        using settled_inner [of E b ?q None None False] by (simp only: r)
      then have np: "r \<noteq> Inl RpcPanic" and pr: "pp_processing ?p3 = pp_processing p"
        using False by (auto simp: settled_def)
      have bf: "buffered p2 \<subseteq> (if is_valid r then buffered p - {child} else insert (en_hash E (b_header b)) (buffered p - {child}))"
        using s b1 by (simp add: settled_def split: if_splits)
      note c = card_settled [OF Cons.prems _ bf]
      have "child \<in> buffered p" using Some by blast
      have fin: "finite (buffered ?p3)" and cd: "card (buffered ?p3) + length ?stack \<le> card (buffered p) + length stack"
        using c [OF \<open>child \<in> buffered p\<close>] by (auto simp: is_valid_def split: sum.splits if_splits)
      have "revalidate_children E (child # hs) stack p = revalidate_children E hs ?stack ?p3"
        using False np r by (auto simp: remove_block_def Some Let_def split: sum.split)
      then show ?thesis using Cons.IH [OF fin, of ?stack] cd pr by fastforce
    qed
  qed
qed simp

lemma revalidate_returns:
  assumes "finite (buffered p)"
  shows "\<exists>p'. revalidate_dependent_payloads E stack p = Some (Inr (), p') \<and>
    pp_processing p' = pp_processing p \<and> finite (buffered p')"
  using assms
proof (induction "card (buffered p) + length stack" arbitrary: stack p rule: less_induct)
  case less
  show ?case
  proof (cases stack)
    case Nil
    then show ?thesis using less.prems by (subst revalidate_dependent_payloads.simps) simp
  next
    case (Cons parent rest)
    let ?cs = "fst (remove_children parent (ch_tree (pp_chain p)))"
    let ?p0 = "p\<lparr>pp_chain := (pp_chain p)\<lparr>ch_tree := snd (remove_children parent (ch_tree (pp_chain p)))\<rparr>\<rparr>"
    have b0: "buffered ?p0 = buffered p" by (simp add: remove_children_def)
    with less.prems obtain stack' p' where r: "revalidate_children E ?cs rest ?p0 = (Inr stack', p')"
      "pp_processing p' = pp_processing p" "finite (buffered p')"
      "card (buffered p') + length stack' \<le> card (buffered p) + length rest"
      using revalidate_children_spec [of ?p0 E ?cs rest] by auto
    have "revalidate_dependent_payloads E stack p = revalidate_dependent_payloads E stack' p'"
      using r(1) by (subst revalidate_dependent_payloads.simps) (simp add: Cons case_prod_beta)
    then show ?thesis using less.hyps [of p' stack'] r Cons by simp
  qed
qed

lemma steady_mark: "steady p (Inr x, mark h ph r p)"
  using mark_keeps [of h ph r p] by (simp add: steady_def)

lemma steady_here: "steady p (Inr x, p)"
  by (simp add: steady_def)

lemma steady_soft: "soft_invalid E h ph msg p = (st, p') \<Longrightarrow> steady p (Inr st, p')"
  by (auto simp: soft_invalid_def Let_def steady_mark steady_here)

lemma known_outcome_steady:
  "known_outcome E b blobs root p = Some (st, p') \<Longrightarrow> steady p (Inr st, p')"
  unfolding known_outcome_def Let_def
  by (auto split: sum.splits if_splits option.splits intro: steady_soft steady_mark steady_here)

lemma new_payload_total:
  assumes "finite (dom (bt_blocks (ch_tree (pp_chain p))))"
  shows "\<exists>r p'. new_payload_internal E b expected blobs root is_local p = Some (r, p') \<and> r \<noteq> Inl RpcPanic \<and>
    pp_processing p' = pp_processing p \<and> finite (dom (bt_blocks (ch_tree (pp_chain p'))))"
proof -
  let ?h = "en_hash E (b_header b)" and ?ph = "h_parent_hash (b_header b)"
  let ?p1 = "p\<lparr>pp_processing := insert ?h (pp_processing p)\<rparr>"
  have early: ?thesis if "new_payload_internal E b expected blobs root is_local p = Some (Inr st, p')"
    "pp_processing p' = pp_processing p" "buffered p' \<subseteq> buffered p" for st p'
    using that assms finite_subset by blast
  show ?thesis
  proof (cases "?h = expected \<and> ?h \<notin> pp_processing p \<and> \<not> height_processing p ?h (h_number (b_header b))")
    case False
    then show ?thesis
      using early mark_keeps [of ?h ?ph Soft p] by (auto simp: new_payload_internal_def Let_def)
  next
    case True
    show ?thesis
    proof (cases "known_outcome E b blobs root ?p1")
      case (Some x)
      then obtain st p2 where x: "known_outcome E b blobs root ?p1 = Some (st, p2)" by fastforce
      with known_outcome_steady [OF x] True show ?thesis
        by (intro early [of st "done_processing ?h p2"]) (auto simp: new_payload_internal_def steady_def done_processing_def)
    next
      case None
      obtain r p2 where i: "new_payload_internal_inner E b blobs root is_local ?p1 = (r, p2)" by fastforce
      let ?p3 = "done_processing ?h p2"
      have s: "settled ?h ?p1 (r, p2)" using settled_inner [of E b ?p1] i by metis
      then have np: "r \<noteq> Inl RpcPanic" and pr: "pp_processing ?p3 = pp_processing p" and fin: "finite (buffered ?p3)"
        using True assms by (auto simp: settled_def done_processing_def intro: finite_subset split: if_splits)
      obtain p4 where re: "revalidate_dependent_payloads E [?h] ?p3 = Some (Inr (), p4)"
        "pp_processing p4 = pp_processing ?p3" "finite (buffered p4)"
        using revalidate_returns [OF fin] by blast
      have "new_payload_internal E b expected blobs root is_local p = Some (r, if is_valid r then p4 else ?p3)"
        using True None i np re(1) by (auto simp: new_payload_internal_def Let_def is_valid_def split: sum.split)
      then show ?thesis using np pr fin re by simp
    qed
  qed
qed

text \<open>C4: the block in progress is released on every way out of \<open>newPayload\<close>.  The execution of a block (the interpreter
  with its callbacks into \<^verbatim>\<open>backend.rs\<close>, which need not return on delegation cycles, and the trie walks) is taken to
  return.  Then, with finitely many blocks buffered, the recursion of the processor over the buffered descendants
  ends, no division panics, the set of blocks in progress is what it was before the call, so no hash stays locked,
  and the buffer is still finite, so that the same holds of the next call.\<close>

theorem processing_released:
  assumes "finite (dom (bt_blocks (ch_tree (pp_chain p))))"
  shows "\<exists>r p'. new_payload_internal E b expected blobs root is_local p = Some (r, p') \<and> r \<noteq> Inl RpcPanic \<and>
    pp_processing p' = pp_processing p \<and> finite (dom (bt_blocks (ch_tree (pp_chain p'))))"
  using new_payload_total [OF assms] .

subsection \<open>What \<open>VALID\<close> means\<close>

lemma header_walk_None: "header_walk n i E cfg h p = (Inr None, p') \<Longrightarrow> p' = p"
proof (induction n arbitrary: i h)
  case (Suc n)
  from Suc.prems show ?case
    by (auto simp: Let_def on_check_panic_free validate_header_no_panic failed_ancestor_def
        split: option.splits if_splits sum.splits dest: Suc.IH)
qed simp

lemma header_walk_not_valid: "header_walk n i E cfg h p = (Inr (Some st), p') \<Longrightarrow> ps_status st \<noteq> Valid"
proof (induction n arbitrary: i h)
  case (Suc n)
  from Suc.prems show ?case
    by (auto simp: Let_def on_check_panic_free validate_header_no_panic failed_ancestor_def status_of_def
        split: option.splits if_splits sum.splits dest: Suc.IH)
qed simp

lemma invalid_walk_None: "invalid_ancestor_walk n E c h = None \<Longrightarrow> 0 < n \<Longrightarrow> get_invalidation_reason c h = None"
  by (cases n) (auto split: if_splits)

lemma validate_parent_None: "validate_parent_block E h p = (Inr None, p') \<Longrightarrow> p' = p \<and> get_invalidation_reason (pp_chain p) h = None"
  by (auto simp: validate_parent_block_def Let_def split: option.splits if_splits dest: header_walk_None invalid_walk_None)

lemma invalid_walk_status: "invalid_ancestor_walk n E c h = Some st \<Longrightarrow> \<exists>msg. ps_status st = Invalid msg"
  by (induction n arbitrary: h) (auto simp: status_of_def split: if_splits option.splits)

lemma validate_parent_not_valid: "validate_parent_block E h p = (Inr (Some st), p') \<Longrightarrow> ps_status st \<noteq> Valid"
  by (auto simp: validate_parent_block_def Let_def status_of_def split: option.splits if_splits
      dest: header_walk_not_valid invalid_walk_status)

lemma frame_persist_tx:
  "frame t_headers (persist_tx hash rs ms x)" "frame t_block_bodies (persist_tx hash rs ms x)" "frame t_header_td (persist_tx hash rs ms x)"
  "frame db_opens (persist_tx hash rs ms x)"
  unfolding persist_tx_def wtx_insert_transaction_def wtx_insert_receipt_def wtx_insert_receipt_meta_def
    wtx_insert_transaction_lookup_def
  by (cases x; auto intro!: frame_sseq frame_wtx_upd frame_basic)+

lemma frame_payload_removal:
  "frame t_headers (wtx_remove_payload_by_block_hash hs h)" "frame t_block_bodies (wtx_remove_payload_by_block_hash hs h)"
  "frame t_header_td (wtx_remove_payload_by_block_hash hs h)" "frame db_opens (wtx_remove_payload_by_block_hash hs h)"
  unfolding wtx_remove_payload_by_block_hash_def by (intro frame_wtx_upd; simp)+

lemma frame_body_txs:
  "frame t_headers (for_each xs (wtx_insert_body_tx h))" "frame t_block_bodies (for_each xs (wtx_insert_body_tx h))"
  "frame t_header_td (for_each xs (wtx_insert_body_tx h))" "frame db_opens (for_each xs (wtx_insert_body_tx h))"
  unfolding wtx_insert_body_tx_def by (auto intro!: frame_for_each frame_prod frame_sseq frame_wtx_upd)

text \<open>What the write transaction of an imported block leaves readable.\<close>

lemma persist_block_readable:
  assumes "persist_block hs b td rs ms d = (Inr u, d')"
  shows "block_body_by_hash (hs (b_header b)) d' = Inr (Some (b_body b))"
    "header_td (hs (b_header b)) d' = Inr (Some td)"
    "hs (b_header b) \<noteq> 0 \<Longrightarrow> stored_header d' (hs (b_header b)) = Some (b_header b)"
proof -
  let ?h = "hs (b_header b)" and ?txs = "List.enumerate 0 (b_transactions (b_body b))"
  from assms obtain d1 d2 d3 d4 where
    s: "wtx_insert_header ?h (b_header b) d = (Inr (), d1)" "wtx_insert_header_td ?h td d1 = (Inr (), d2)"
    "wtx_insert_block_body ?h (h_number (b_header b)) (b_body b) d2 = (Inr (), d3)"
    "wtx_insert_block_hash ?h (h_number (b_header b)) d3 = (Inr (), d4)"
    and f: "sseq (for_each ?txs (persist_tx ?h rs ms)) (ignore_err (wtx_remove_payload_by_block_hash hs ?h)) d4 = (Inr u, d')"
    unfolding persist_block_def Let_def by (auto simp: sseq_Inr_iff simp del: for_each.simps)
  have fr: "frame f (sseq (for_each ?txs (persist_tx ?h rs ms)) (ignore_err (wtx_remove_payload_by_block_hash hs ?h)))"
    if "\<And>x. frame f (persist_tx ?h rs ms x)" "frame f (wtx_remove_payload_by_block_hash hs ?h)" for f :: "db \<Rightarrow> 'z"
    using that by (intro frame_sseq frame_for_each frame_ignore_err)
  have e: "t_headers d' = t_headers d4" "t_block_bodies d' = t_block_bodies d4" "t_header_td d' = t_header_td d4" "db_opens d' = db_opens d4"
    by (rule frameD [OF fr f]; rule frame_persist_tx frame_payload_removal)+
  from s(3) obtain d21 where b: "d21 = t_block_bodies_update (tbl_insert ?h (b_body b)) d2" "db_opens d2 TBlockBodies"
    and w: "for_each ?txs (wtx_insert_body_tx ?h) d21 = (Inr (), d3)"
    unfolding wtx_insert_block_body_def by (auto simp: sseq_Inr_iff simp del: for_each.simps)
  have k: "t_headers d3 = t_headers d21" "t_block_bodies d3 = t_block_bodies d21" "t_header_td d3 = t_header_td d21" "db_opens d3 = db_opens d21"
    by (rule frameD [OF frame_body_txs(1) w] frameD [OF frame_body_txs(2) w] frameD [OF frame_body_txs(3) w] frameD [OF frame_body_txs(4) w])+
  have t: "t_headers d' = tbl_insert ?h (b_header b) (t_headers d)" "t_block_bodies d' = tbl_insert ?h (b_body b) (t_block_bodies d)"
    "t_header_td d' = tbl_insert ?h td (t_header_td d)" "db_opens d' = db_opens d"
    and o: "db_opens d THeaders" "db_opens d THeaderTD" "db_opens d TBlockBodies"
    using e k b s(1,2,4) by (auto simp: wtx_insert_header_def wtx_insert_header_td_def wtx_insert_block_hash_def sseq_Inr_iff)
  show "block_body_by_hash ?h d' = Inr (Some (b_body b))" "header_td ?h d' = Inr (Some td)"
    using t o by (simp_all add: block_body_by_hash_def header_td_def read_tbl_def)
  show "stored_header d' ?h = Some (b_header b)" if "?h \<noteq> 0"
    using t o that by (simp add: stored_header_def header_def  read_tbl_def)
qed

lemma execute_and_import_valid:
  assumes "execute_and_import E b parent is_local p = (Inr st, p')" and "ps_status st = Valid"
  obtains final receipts metas s td where
    "execute_block_with_state_root (en_exec E) b True (Some (h_state_root parent)) (ch_store (pp_chain p)) = (Inr (final, receipts, metas), s)"
    "block_body_by_hash (en_hash E (b_header final)) (pp_db p') = Inr (Some (b_body final))"
    "import_td final (s_db s) = Inr td" "header_td (en_hash E (b_header final)) (pp_db p') = Inr (Some td)"
    "get_invalidation_reason (pp_chain p') (en_hash E (b_header b)) = None"
    "ps_latest_valid_hash st = Some (en_hash E (b_header b))"
    "pp_events p' = pp_events p @ [NewBlock final is_local]"
proof -
  let ?m = "execute_block_with_state_root (en_exec E) b True (Some (h_state_root parent))"
  have inv: "ps_status (status_of (Invalid m) l) \<noteq> Valid" for m l by (simp add: status_of_def)
  have rj: "reject_hard E h ph msg q \<noteq> (Inr st, p')" for h ph msg q
    using assms(2) inv by (auto simp: reject_hard_def Let_def)
  obtain r s where m: "?m (ch_store (pp_chain p)) = (r, s)" by fastforce
  let ?q = "p\<lparr>pp_chain := (pp_chain p)\<lparr>ch_store := s\<rparr>\<rparr>"
  obtain final rs ms where r: "r = Inr (final, rs, ms)"
    using assms(1) rj by (cases r) (auto simp: execute_and_import_def run_store_def m Let_def split: if_splits)
  have i: "import_executed E (en_hash E (b_header b)) is_local (final, rs, ms) ?q = (Inr st, p')"
    using assms(1) rj by (auto simp: execute_and_import_def run_store_def m r Let_def on_check_panic_free rules_no_panic split: sum.splits)
  then obtain td q where td: "import_td final (s_db s) = Inr td" and c: "commit_block E (final, rs, ms) td ?q = (Inr (), q)"
    and st: "st = status_of Valid (Some (en_hash E (b_header b)))"
    and p': "p' = q\<lparr>pp_events := pp_events q @ [NewBlock final is_local], pp_chain := remove_invalid_block (en_hash E (b_header b)) (pp_chain q)\<rparr>"
    by (auto simp: import_executed_def sbind_Inr_iff sseq_Inr_iff)
  from c obtain d where d: "persist_block (en_hash E) final td rs ms (s_db s) = (Inr (), d)"
    and q: "q = ?q\<lparr>pp_chain := (pp_chain ?q)\<lparr>ch_store := s\<lparr>s_db := d\<rparr>\<rparr>\<rparr>"
    by (auto simp: commit_block_def run_store_def with_write_Inr split: prod.splits sum.splits)
  have dp: "pp_db p' = d" by (simp add: p' q remove_invalid_block_def)
  show ?thesis
    by (rule that [of final rs ms s td])
      (use m r td persist_block_readable [OF d] dp in
        \<open>simp_all add: st p' q status_of_def remove_invalid_block_def remove_invalid_def get_invalidation_reason_def
           tree_invalidation_reason_def\<close>)
qed

lemma inner_valid_parts:
  assumes "new_payload_internal_inner E b blobs root is_local p = (Inr st, p')" and "ps_status st = Valid"
  obtains parent where "stored_header (pp_db p) (h_parent_hash (b_header b)) = Some parent"
    "validate_header (en_crypto E) (config_of E (pp_db p)) (pp_db p) (en_now E) (b_header b) parent = Inr ()"
    "validate_body (en_crypto E) (config_of E (pp_db p)) (pp_db p) b = Inr ()"
    "get_active_fork (config_of E (pp_db p)) (h_number (b_header b)) (h_timestamp (b_header b)) \<ge> Cancun \<Longrightarrow> validate_cancun b blobs = Inr ()"
    "get_invalidation_reason (pp_chain p) (h_parent_hash (b_header b)) = None"
    "execute_and_import E b parent is_local p = (Inr st, p')"
proof -
  let ?h = "en_hash E (b_header b)" and ?ph = "h_parent_hash (b_header b)" and ?cfg = "config_of E (pp_db p)"
  have inv: "ps_status (status_of (Invalid m) l) \<noteq> Valid" "ps_status (status_of Syncing l) \<noteq> Valid" for m l by (simp_all add: status_of_def)
  have rj: "reject_hard E h ph msg q \<noteq> (Inr st, p')" "reject_soft E h ph msg q \<noteq> (Inr st, p')" "reject_body E h ph msg q \<noteq> (Inr st, p')"
    for h ph msg q
    using assms(2) inv by (auto simp: reject_hard_def reject_soft_def soft_invalid_def reject_body_def Let_def split: if_splits)
  have "sbind (validate_parent_block E ?ph) (on_parent_status E ?cfg b is_local) p = (Inr st, p')"
    and b: "validate_body (en_crypto E) ?cfg (pp_db p) b = Inr ()"
    and c: "get_active_fork ?cfg (h_number (b_header b)) (h_timestamp (b_header b)) \<ge> Cancun \<Longrightarrow> validate_cancun b blobs = Inr ()"
    using assms(1) rj unfolding new_payload_internal_inner_def Let_def
    by (auto simp: on_check_panic_free rules_no_panic split: sum.splits if_splits)
  then obtain ps p1 where v: "validate_parent_block E ?ph p = (Inr ps, p1)" and o: "on_parent_status E ?cfg b is_local ps p1 = (Inr st, p')"
    by (auto simp: sbind_Inr_iff)
  have none: "ps = None"
  proof (rule ccontr)
    assume "ps \<noteq> None"
    then obtain st' where ps: "ps = Some st'" by blast
    with v validate_parent_not_valid [of E ?ph p st' p1] have nv: "ps_status st' \<noteq> Valid" by blast
    have "ps_status (status_of (ps_status st') l) \<noteq> Valid" for l using nv by (simp add: status_of_def)
    with o nv assms(2) show False
      by (auto simp: on_parent_status_def ps buffer_def Let_def split: if_splits)
  qed
  with v validate_parent_None [of E ?ph p p1] have p1: "p1 = p" "get_invalidation_reason (pp_chain p) ?ph = None" by auto
  with o none have "import_on_parent E ?cfg b is_local p = (Inr st, p')" by (simp add: on_parent_status_def)
  then obtain parent where "stored_header (pp_db p) ?ph = Some parent"
    "validate_header (en_crypto E) ?cfg (pp_db p) (en_now E) (b_header b) parent = Inr ()"
    "execute_and_import E b parent is_local p = (Inr st, p')"
    using rj inv assms(2)
    by (auto simp: import_on_parent_def Let_def on_check_panic_free validate_header_no_panic buffer_def status_of_def
        split: option.splits sum.splits if_splits)
  then show ?thesis using that b c p1 by blast
qed

text \<open>C1: a block is answered \<open>VALID\<close> only after its parent's header was found in the database, the
  header and the body passed the consensus rules, no ancestor was marked, and the EVM executed it with
  the parent's state root; then the executed block is readable with its total difficulty and the block's
  invalidation mark is gone.  The executed block has the body of the received one, and it is the received
  block when the header claims a state root and a non-zero gas total; otherwise the header may have been
  rewritten, and what is stored has another hash than the one answered for.\<close>

theorem valid_payload_sound:
  assumes "new_payload_internal_inner E b blobs root is_local p = (Inr st, p')" and "ps_status st = Valid"
  shows "\<exists>parent final receipts metas s td.
    stored_header (pp_db p) (h_parent_hash (b_header b)) = Some parent \<and>
    validate_header (en_crypto E) (config_of E (pp_db p)) (pp_db p) (en_now E) (b_header b) parent = Inr () \<and>
    validate_body (en_crypto E) (config_of E (pp_db p)) (pp_db p) b = Inr () \<and>
    get_invalidation_reason (pp_chain p) (h_parent_hash (b_header b)) = None \<and>
    execute_block_with_state_root (en_exec E) b True (Some (h_state_root parent)) (ch_store (pp_chain p)) = (Inr (final, receipts, metas), s) \<and>
    block_body_by_hash (en_hash E (b_header final)) (pp_db p') = Inr (Some (b_body b)) \<and>
    import_td final (s_db s) = Inr td \<and> header_td (en_hash E (b_header final)) (pp_db p') = Inr (Some td) \<and>
    (h_state_root (b_header b) \<noteq> 0 \<and> h_gas_used (b_header b) \<noteq> 0 \<longrightarrow> final = b) \<and>
    get_invalidation_reason (pp_chain p') (en_hash E (b_header b)) = None \<and>
    ps_latest_valid_hash st = Some (en_hash E (b_header b))"
proof -
  from assms obtain parent where pa: "stored_header (pp_db p) (h_parent_hash (b_header b)) = Some parent"
    "validate_header (en_crypto E) (config_of E (pp_db p)) (pp_db p) (en_now E) (b_header b) parent = Inr ()"
    "validate_body (en_crypto E) (config_of E (pp_db p)) (pp_db p) b = Inr ()"
    "get_invalidation_reason (pp_chain p) (h_parent_hash (b_header b)) = None"
    "execute_and_import E b parent is_local p = (Inr st, p')"
    by (rule inner_valid_parts)
  from execute_and_import_valid [OF pa(5) assms(2)] obtain final receipts metas s td where ex:
    "execute_block_with_state_root (en_exec E) b True (Some (h_state_root parent)) (ch_store (pp_chain p)) = (Inr (final, receipts, metas), s)"
    "block_body_by_hash (en_hash E (b_header final)) (pp_db p') = Inr (Some (b_body final))"
    "import_td final (s_db s) = Inr td" "header_td (en_hash E (b_header final)) (pp_db p') = Inr (Some td)"
    "get_invalidation_reason (pp_chain p') (en_hash E (b_header b)) = None"
    "ps_latest_valid_hash st = Some (en_hash E (b_header b))"
    by metis
  obtain bt where "execute_block_with_batch (en_exec E) b (Some (h_state_root parent)) False (new_batch (s_db (ch_store (pp_chain p)))) =
      (Inr (final, receipts, metas), bt)"
    using ex(1) by (auto simp: execute_block_with_state_root_def execute_block_with_state_root_and_building_def
        clear_tracking_inherent_def Let_def split: prod.splits sum.splits if_splits)
  from executed_block_consistent [OF this] pa ex show ?thesis by auto
qed

subsection \<open>A sample import\<close>

definition shanghai_config :: chain_config where
  "shanghai_config = devnet_config\<lparr>cancun_time := None\<rparr>"

lemma shanghai_fork: "get_active_fork_with_total_difficulty shanghai_config n ts td = Shanghai"
proof -
  have "sort_key fork_sort_key (config_forks shanghai_config) = config_forks shanghai_config"
    by (simp add: shanghai_config_def devnet_config_def config_forks_def fork_opt_def fork_sort_key_def less_eq_prod_def)
  then show ?thesis
    unfolding get_active_fork_with_total_difficulty_def
    by (simp add: shanghai_config_def devnet_config_def config_forks_def fork_opt_def fork_reached_def less_hardfork_def)
qed

definition plain_header :: "u64 \<Rightarrow> u64 \<Rightarrow> u64 \<Rightarrow> header" where
  "plain_header n used fee = (devnet_header n (100 + n) used fee 0)\<lparr>h_state_root := 36, h_blob_gas_used := None,
     h_excess_blob_gas := None, h_parent_beacon_block_root := None\<rparr>"

definition plain_block :: block where
  "plain_block = \<lparr>b_header = plain_header 6 0 900, b_body = \<lparr>b_transactions = [], b_ommers = [], b_withdrawals = Some []\<rparr>\<rparr>"

definition plain_exec :: "unit exec_env" where
  "plain_exec = sample_exec\<lparr>x_default_config := shanghai_config\<rparr>"

definition plain_env :: "unit engine_env" where
  "plain_env = \<lparr>en_exec = plain_exec, en_now = 1000, en_text = (\<lambda>_. ''rule''), en_exec_text = (\<lambda>_. ''exec''), en_hex = (\<lambda>_. ''hash'')\<rparr>"

definition plain_processor :: "block_tree \<Rightarrow> processor" where
  "plain_processor t = \<lparr>pp_chain = \<lparr>ch_store = new_provider (empty_db\<lparr>t_headers := [(6, plain_header 5 30000000 800)], t_header_td := [(6, 17)]\<rparr>),
      ch_tree = t, ch_fc = \<lparr>fc_head = 6, fc_safe = 6, fc_finalized = 6\<rparr>, ch_number = 5, ch_sync = SyncNone\<rparr>,
     pp_processing = {}, pp_registry = registry_new, pp_tasks = [], pp_events = []\<rparr>"

lemma plain_runs:
  "execute_block_with_batch plain_exec plain_block (Some 36) False (new_batch d) =
     (Inr (plain_block, [], []), set_base_state_root 36 (new_batch d))"
proof -
  obtain cx where cx: "provider_execution_env plain_exec (b_header plain_block) d = Inr (shanghai_config, cx)" "cx_fork cx = Shanghai"
    by (simp add: provider_execution_env_def config_or_default_def plain_exec_def sample_exec_def prepare_execution_env_def shanghai_fork Let_def)
  have d: "bw_committed (set_base_state_root 36 (new_batch d)) = d" by (simp add: set_base_state_root_def new_batch_def)
  have fin: "finalize_block_header_with_requests plain_exec plain_block [] 0 36 Shanghai False = Inr plain_block"
    by (simp add: finalize_block_header_with_requests_def is_building_def check_filled_header_def plain_block_def plain_header_def
        devnet_header_def plain_exec_def sample_exec_def devnet_crypto_def accrued_bloom_def less_eq_hardfork_def)
  have close: "close_block plain_exec plain_block shanghai_config cx False (Some 36) empty_acc 0 (set_base_state_root 36 (new_batch d)) =
      (Inr (plain_block, [], []), set_base_state_root 36 (new_batch d))"
  proof -
    have "check_block_blob_gas shanghai_config Shanghai (b_header plain_block) 0 = Inr ()"
      by (simp add: check_block_blob_gas_def less_eq_hardfork_def)
    moreover have "plain_block\<lparr>b_body := (b_body plain_block)\<lparr>b_transactions := []\<rparr>\<rparr> = plain_block"
      by (simp add: plain_block_def)
    moreover have "b_withdrawals (b_body plain_block) = Some []" by (simp add: plain_block_def)
    moreover have "x_order plain_exec = sorted_order" by (simp add: plain_exec_def sample_exec_def)
    ultimately show ?thesis
      by (simp add: close_block_def cx(2) empty_acc_def apply_block_rewards_def less_eq_hardfork_def quiet_root lift_state_def fin
          sseq_def sbind_def reads_def ret_def)
  qed
  have "open_block plain_exec (b_header plain_block) cx root = ret ()" for root
    by (simp add: open_block_def plain_block_def plain_header_def)
  moreover have "b_transactions (b_body plain_block) = []" by (simp add: plain_block_def)
  ultimately show ?thesis
    by (simp add: execute_block_with_batch_def base_root_of_def d cx(1) of_db_def run_block_def close sseq_def sbind_def reads_def ret_def)
qed

lemma plain_accepts:
  "validate_header devnet_crypto shanghai_config d 1000 (plain_header 6 0 900) (plain_header 5 30000000 800) = Inr ()"
proof -
  have "calculate_next_base_fee (plain_header 5 30000000 800) = Inr (Some 900)"
    using devnet_base_fee by (simp add: calculate_next_base_fee_def plain_header_def devnet_header_def)
  then have "check_base_fee Shanghai (plain_header 6 0 900) (plain_header 5 30000000 800) = Inr ()"
    by (simp add: check_base_fee_def plain_header_def devnet_header_def less_eq_hardfork_def)
  moreover have "check_cancun shanghai_config Shanghai Shanghai (plain_header 6 0 900) (plain_header 5 30000000 800) = Inr ()"
    by (simp add: check_cancun_def plain_header_def devnet_header_def less_eq_hardfork_def)
  ultimately show ?thesis
    by (simp add: validate_header_def shanghai_fork check_merge_def check_shanghai_def check_prague_def
        check_gas_limit_def less_eq_hardfork_def less_hardfork_def)
      (simp add: plain_header_def devnet_header_def devnet_crypto_def)
qed

lemma plain_commits:
  assumes True: "\<forall>T. db_opens d0 T"
  obtains d where "execute_block_with_state_root plain_exec plain_block True (Some 36) (new_provider d0) =
      (Inr (plain_block, [], []), new_provider d)" "db_opens d = db_opens d0" "t_header_td d = t_header_td d0"
proof -
  let ?b = "set_base_state_root 36 (new_batch d0)"
  have c: "clear_tracking_inherent (new_provider d0) = new_provider d0"
    by (simp add: clear_tracking_inherent_def)
  have t: "collect_account_changes (x_state plain_exec) (x_order plain_exec) ?b = []" "collect_storage_changes (x_order plain_exec) ?b = []"
    by (simp_all add: collect_account_changes_def collect_storage_changes_def plain_exec_def sample_exec_def set_base_state_root_def new_batch_def sorted_order_def)
  let ?d = "bw_wtx (snd (persist_changes plain_exec (plain_block, [], []) ?b))"
  have p: "fst (persist_changes plain_exec (plain_block, [], []) ?b) = Inr ()" "db_opens ?d = db_opens d0" "t_header_td ?d = t_header_td d0"
    using True by (simp_all add: persist_changes_def t exec_wtx_def lift_state_def on_wtx_def wtx_insert_account_change_set_def
        wtx_insert_storage_change_set_def wtx_upd_def open_table_def sseq_def sbind_def peeks_def Let_def set_base_state_root_def
        new_batch_def of_store_def ret_def)
  obtain bt where bt: "persist_changes plain_exec (plain_block, [], []) ?b = (Inr (), bt)"
    using p(1) by (metis prod.collapse)
  have "execute_block_with_state_root plain_exec plain_block True (Some 36) (new_provider d0) = (Inr (plain_block, [], []), new_provider ?d)"
    by (simp add: execute_block_with_state_root_def execute_block_with_state_root_and_building_def c plain_runs bt)
      (simp add: new_provider_def)
  then show ?thesis using that p by blast
qed

abbreviation plain_start :: processor where
  "plain_start \<equiv> plain_processor tree_new"

lemma plain_reads:
  "stored_header (pp_db plain_start) h = (if h = 6 then Some (plain_header 5 30000000 800) else None)"
  "get_payload_by_block_hash hs h (pp_db plain_start) = None"
  "get_header_from_anywhere plain_env (pp_chain plain_start) h = (if h = 6 then Some (plain_header 5 30000000 800) else None)"
  "get_invalidation_reason (pp_chain plain_start) h = None" "body_stored plain_start h = False"
proof -
  show s: "stored_header (pp_db plain_start) h = (if h = 6 then Some (plain_header 5 30000000 800) else None)"
    and g: "get_payload_by_block_hash hs h (pp_db plain_start) = None" for h hs
    by (auto simp: stored_header_def header_def get_payload_by_block_hash_def read_tbl_def plain_processor_def new_provider_def
        empty_db_def tbl_get_def tbl_empty_def tbl_iter_def)
  show "get_header_from_anywhere plain_env (pp_chain plain_start) h = (if h = 6 then Some (plain_header 5 30000000 800) else None)"
    by (simp add: get_header_from_anywhere_def s payload_header_def g) (simp add: plain_processor_def tree_header_def get_block_def tree_new_def)
  show "get_invalidation_reason (pp_chain plain_start) h = None"
    by (simp add: get_invalidation_reason_def tree_invalidation_reason_def plain_processor_def tree_new_def)
  show "body_stored plain_start h = False"
    by (simp add: body_stored_def block_body_by_hash_def read_tbl_def plain_processor_def new_provider_def empty_db_def tbl_get_def tbl_empty_def)
qed

lemma plain_config: "config_of plain_env d = shanghai_config" "en_hash plain_env h = ucast (h_number h) + 1"
  by (simp_all add: config_of_def plain_env_def plain_exec_def sample_exec_def devnet_crypto_def)

lemma plain_parents: "h_parent_hash (plain_header n used fee) = ucast n" "get_invalid_parent (ch_tree (pp_chain plain_start)) h = None"
  by (simp_all add: plain_header_def devnet_header_def get_invalid_parent_def plain_processor_def tree_new_def)

lemma plain_parent: "validate_parent_block plain_env 6 plain_start = (Inr None, plain_start)"
proof -
  have "invalid_ancestor_walk 64 plain_env (pp_chain plain_start) 6 = None"
    using invalid_ancestor_walk.simps(2) [of 63 plain_env "pp_chain plain_start" 6]
      invalid_ancestor_walk.simps(2) [of 62 plain_env "pp_chain plain_start" 5]
    by (simp add: plain_reads plain_parents)
  moreover have "header_walk 32 0 plain_env cfg 6 plain_start = (Inr None, plain_start)" for cfg
    using header_walk.simps(2) [of 31 0 plain_env cfg 6] header_walk.simps(2) [of 30 1 plain_env cfg 5]
    by (simp add: plain_reads plain_parents Let_def)
  moreover have "has_block hs (pp_chain plain_start) 6" for hs
    using plain_reads(1) [of 6] by (simp add: has_block_def)
  ultimately show ?thesis by (simp add: validate_parent_block_def Let_def)
qed

lemma persist_empty_ok:
  assumes "\<forall>T. db_opens d T" and "b_transactions (b_body b) = []"
  shows "\<exists>d'. persist_block hs b td [] [] d = (Inr (), d')"
  using assms by (simp add: persist_block_def wtx_insert_header_def wtx_insert_header_td_def wtx_insert_block_body_def wtx_insert_block_hash_def
      wtx_upd_def open_table_def sseq_def sbind_def ret_def ignore_err_def Let_def)

lemma plain_imports:
  "\<exists>st p'. new_payload_internal_inner plain_env plain_block None None False plain_start = (Inr st, p') \<and> ps_status st = Valid"
proof -
  let ?b = "plain_block" and ?E = plain_env
  have hdr: "b_header ?b = plain_header 6 0 900" "h_parent_hash (b_header ?b) = 6" "h_number (b_header ?b) = 6" "h_state_root (plain_header 5 30000000 800) = 36"
    by (simp_all add: plain_block_def plain_header_def devnet_header_def)
  define d0 where "d0 = empty_db\<lparr>t_headers := [(6, plain_header 5 30000000 800)], t_header_td := [(6, 17)]\<rparr>"
  have opens: "\<forall>T. db_opens d0 T" and st0: "ch_store (pp_chain plain_start) = new_provider d0" and td0: "header_td 6 d0 = Inr (Some 17)"
    by (simp_all add: d0_def plain_processor_def empty_db_def header_td_def read_tbl_def tbl_get_def)
  obtain d where ex: "execute_block_with_state_root plain_exec ?b True (Some 36) (new_provider d0) =
      (Inr (?b, [], []), new_provider d)" and d: "db_opens d = db_opens d0" "t_header_td d = t_header_td d0"
    using plain_commits [OF opens] by blast
  obtain d' where per: "persist_block (en_hash ?E) ?b 17 [] [] d = (Inr (), d')"
    using persist_empty_ok [of d ?b "en_hash ?E" 17] opens d(1) by (auto simp: plain_block_def)
  have td: "import_td ?b d = Inr 17"
    using td0 d opens by (simp add: import_td_def hdr header_td_def read_tbl_def) (simp add: hdr plain_header_def devnet_header_def)
  let ?q = "plain_start\<lparr>pp_chain := (pp_chain plain_start)\<lparr>ch_store := new_provider d\<rparr>\<rparr>"
  have com: "\<exists>q. commit_block ?E (?b, [], []) 17 ?q = (Inr (), q)"
    using per by (simp add: commit_block_def run_store_def with_write_def with_write_then_def)
  have post: "validate_block_post_execution ?b 0 (x_receipt_root plain_exec []) (accrued_bloom []) (h_state_root (b_header ?b)) = Inr ()"
    by (simp add: validate_block_post_execution_def plain_block_def plain_header_def devnet_header_def plain_exec_def sample_exec_def accrued_bloom_def)
  have "\<exists>st p'. execute_and_import ?E ?b (plain_header 5 30000000 800) False plain_start = (Inr st, p') \<and> ps_status st = Valid"
    using ex com post td unfolding execute_and_import_def run_store_def hdr(4) st0
    by (auto simp: Let_def plain_env_def on_check_panic_free import_executed_def sbind_def sseq_def status_of_def)
  moreover have "new_payload_internal_inner ?E ?b None None False plain_start =
      execute_and_import ?E ?b (plain_header 5 30000000 800) False plain_start"
  proof -
    have v: "validate_body (en_crypto ?E) shanghai_config (pp_db plain_start) ?b = Inr ()"
      by (simp add: validate_body_def plain_block_def plain_header_def devnet_header_def plain_env_def plain_exec_def sample_exec_def devnet_crypto_def)
    have h: "validate_header (en_crypto ?E) shanghai_config (pp_db plain_start) (en_now ?E) (b_header ?b) (plain_header 5 30000000 800) = Inr ()"
      using plain_accepts by (simp add: hdr plain_env_def plain_exec_def sample_exec_def)
    have f: "\<not> Cancun \<le> get_active_fork shanghai_config n ts" for n ts
      by (simp add: get_active_fork_def shanghai_fork less_eq_hardfork_def)
    show ?thesis
      by (simp add: new_payload_internal_inner_def plain_config on_check_def v f hdr(2) plain_parent sbind_def on_parent_status_def
          import_on_parent_def plain_reads h)
  qed
  ultimately show ?thesis by simp
qed

theorem valid_payload_sound_witness:
  "\<exists>st p' (final :: block). new_payload_internal_inner plain_env plain_block None None False plain_start = (Inr st, p') \<and>
     ps_latest_valid_hash st = Some 7 \<and> block_body_by_hash (en_hash plain_env (b_header final)) (pp_db p') = Inr (Some (b_body plain_block)) \<and>
     get_invalidation_reason (pp_chain p') 7 = None"
proof -
  from plain_imports obtain st p' where i: "new_payload_internal_inner plain_env plain_block None None False plain_start = (Inr st, p')"
    and v: "ps_status st = Valid" by blast
  have h: "en_hash plain_env (b_header plain_block) = 7"
    by (simp add: plain_config plain_block_def plain_header_def devnet_header_def)
  from valid_payload_sound [OF i v, unfolded h] obtain final :: block where
    "block_body_by_hash (en_hash plain_env (b_header final)) (pp_db p') = Inr (Some (b_body plain_block))"
    "get_invalidation_reason (pp_chain p') 7 = None" "ps_latest_valid_hash st = Some 7"
    by (elim exE conjE) (rule that)
  with i show ?thesis by (intro exI conjI)
qed

theorem processing_released_witness:
  "\<exists>r p'. new_payload_internal plain_env plain_block 7 None None False plain_start = Some (r, p') \<and> pp_processing p' = {}"
proof -
  have "finite (buffered plain_start)" by (simp add: plain_processor_def tree_new_def)
  from processing_released [OF this, of plain_env plain_block 7 None None False] show ?thesis
    by (auto simp: plain_processor_def)
qed

definition cyclic_chain :: chain where
  "cyclic_chain = sample_chain\<lparr>ch_tree := (ch_tree sample_chain)\<lparr>bt_children := [2 \<mapsto> [3], 3 \<mapsto> [2]]\<rparr>\<rparr>"

theorem invalidate_descendants_exact_witness:
  "\<exists>c'. invalidate_descendants 2 cyclic_chain = Some c' \<and> get_invalidation_reason c' 3 = Some Hard \<and>
     get_invalidation_reason c' 2 = Some Hard \<and> bt_blocks (ch_tree c') 3 = None"
proof -
  let ?t = "ch_tree cyclic_chain"
  have "finite (dom (bt_children ?t))" by (simp add: cyclic_chain_def)
  from invalidate_descendants_exact [OF this, of 2] obtain c' where c: "invalidate_descendants 2 cyclic_chain = Some c'"
    "\<And>h. (child_of ?t)\<^sup>+\<^sup>+ 2 h \<Longrightarrow> get_invalidation_reason c' h = Some Hard"
    "\<And>h. (child_of ?t)\<^sup>+\<^sup>+ 2 h \<Longrightarrow> bt_blocks (ch_tree c') h = None"
    by auto
  have "child_of ?t 2 3" "child_of ?t 3 2" by (simp_all add: child_of_def get_children_def cyclic_chain_def)
  then have "(child_of ?t)\<^sup>+\<^sup>+ 2 3" "(child_of ?t)\<^sup>+\<^sup>+ 2 2" by (auto intro: tranclp.intros)
  with c show ?thesis by auto
qed

subsection \<open>Known-invalid parents\<close>

text \<open>The child of a block that is marked invalid is answered \<open>INVALID\<close> without being executed: it is
  marked with its parent's reason, dropped from the pool, the database is untouched, and the answer
  carries the latest valid ancestor of the parent.\<close>

theorem invalid_parent_propagates:
  assumes "expected = en_hash E (b_header b)" and "en_hash E (b_header b) \<notin> pp_processing p"
    and "\<not> height_processing p (en_hash E (b_header b)) (h_number (b_header b))"
    and "validate_cancun b blobs = Inr ()" and "validate_parent_beacon_block_root (b_header b) root = Inr ()"
    and "\<not> body_stored p (en_hash E (b_header b))" and "get_invalidation_reason (pp_chain p) (en_hash E (b_header b)) \<noteq> Some Hard"
    and "get_invalidation_reason (pp_chain p) (h_parent_hash (b_header b)) = Some reason"
  shows "\<exists>msg p'. new_payload_internal E b expected blobs root is_local p =
      Some (Inr (status_of (Invalid msg) (get_latest_valid_ancestor (en_hash E) (pp_chain p) (h_parent_hash (b_header b)))), p') \<and>
    get_invalidation_reason (pp_chain p') expected = Some reason \<and> bt_blocks (ch_tree (pp_chain p')) expected = None \<and>
    ch_store (pp_chain p') = ch_store (pp_chain p) \<and> pp_processing p' = pp_processing p"
  using assms
  by (auto simp: new_payload_internal_def known_outcome_def Let_def body_stored_def latest_valid_def done_processing_def mark_def
      add_invalid_block_def mark_invalid_def get_invalidation_reason_def tree_invalidation_reason_def)

theorem invalid_parent_propagates_witness:
  "\<exists>msg p'. new_payload_internal plain_env plain_block 7 None None False
       (plain_processor \<lparr>bt_blocks = Map.empty, bt_children = Map.empty, bt_invalid = [6 \<mapsto> (5, Soft)]\<rparr>) =
     Some (Inr (status_of (Invalid msg) (get_latest_valid_ancestor (en_hash plain_env)
       (pp_chain (plain_processor \<lparr>bt_blocks = Map.empty, bt_children = Map.empty, bt_invalid = [6 \<mapsto> (5, Soft)]\<rparr>)) 6)), p') \<and>
     get_invalidation_reason (pp_chain p') 7 = Some Soft"
proof -
  let ?p = "plain_processor \<lparr>bt_blocks = Map.empty, bt_children = Map.empty, bt_invalid = [6 \<mapsto> (5, Soft)]\<rparr>"
  have h: "en_hash plain_env (b_header plain_block) = 7" "h_parent_hash (b_header plain_block) = 6"
    by (simp_all add: plain_config plain_block_def plain_header_def devnet_header_def)
  have "\<not> body_stored ?p 7"
    by (simp add: body_stored_def block_body_by_hash_def read_tbl_def plain_processor_def new_provider_def empty_db_def tbl_get_def tbl_empty_def)
  then show ?thesis
    using invalid_parent_propagates [of 7 plain_env plain_block ?p None None Soft False, unfolded h]
    by (auto simp: plain_processor_def height_processing_def validate_cancun_def validate_parent_beacon_block_root_def
        get_invalidation_reason_def tree_invalidation_reason_def)
qed

subsection \<open>Sync registry\<close>

inductive registry_step :: "(header \<Rightarrow> b256) \<Rightarrow> registry \<Rightarrow> registry \<Rightarrow> bool" for hs where
  step_add: "registry_step hs r (add_target_with_retries hs c hash peer retries r)"
| step_pop: "registry_step hs r (snd (pop_target r))"
| step_status: "registry_step hs r (registry_set_status st r)"
| step_clear: "registry_step hs r (clear_targets r)"

text \<open>In every state the sync registry can reach no block is queued twice, and popping takes the targets
  in the order in which they were added.\<close>

theorem registry_targets_distinct:
  assumes "(registry_step hs)\<^sup>*\<^sup>* registry_new r"
  shows "distinct (map st_hash (rg_targets r)) \<and>
    (case pop_target r of (Some t, r') \<Rightarrow> rg_targets r = t # rg_targets r' | (None, r') \<Rightarrow> rg_targets r = [] \<and> r' = r)"
proof
  show "distinct (map st_hash (rg_targets r))"
    using assms
  proof (induction rule: rtranclp_induct)
    case base
    then show ?case by (simp add: registry_new_def)
  next
    case (step r r')
    from step.hyps(2) step.IH show ?case
      by (cases rule: registry_step.cases)
        (auto simp: add_target_with_retries_def pop_target_def registry_set_status_def clear_targets_def split: list.splits)
  qed
  show "case pop_target r of (Some t, r') \<Rightarrow> rg_targets r = t # rg_targets r' | (None, r') \<Rightarrow> rg_targets r = [] \<and> r' = r"
    by (simp add: pop_target_def split: list.split)
qed

theorem registry_targets_distinct_witness:
  "distinct (map st_hash (rg_targets (add_target sample_hash sample_chain 9 None
     (add_target sample_hash sample_chain 9 None registry_new))))"
proof -
  let ?r = "add_target sample_hash sample_chain 9 None registry_new"
  have "(registry_step sample_hash)\<^sup>*\<^sup>* registry_new (add_target sample_hash sample_chain 9 None ?r)"
    unfolding add_target_def
    by (rule converse_rtranclp_into_rtranclp, rule step_add, rule r_into_rtranclp, rule step_add)
  from registry_targets_distinct [OF this] show ?thesis by blast
qed

end
