(* ===== verification/MempoolProvider.thy ===== *)
theory MempoolProvider
  imports MempoolLimits Storage
begin

section \<open>Pool provider and listener\<close>

text \<open>
  \<^verbatim>\<open>wasix_eth_core/src/mempool/mempool_provider.rs\<close>: the trait \<open>MempoolProvider\<close> with its two
  implementations, and \<^verbatim>\<open>listener.rs\<close>: the task that keeps the pool in step with the chain.  The trait is
  the locale \<open>mempool_provider\<close> over a record of operations (\<open>dyn MempoolProvider\<close>); the listener is verified
  once in it, and both implementations interpret it.  A panic of the listener's task ends it: later events are dropped.
\<close>

type_synonym 'p pool_act = "('p, mempool_error, unit) act"

subsection \<open>Revalidation\<close>

text \<open>\<open>state.account(address, None)\<close> reads the account table.\<close>

definition sender_state :: "db \<Rightarrow> address \<Rightarrow> u64 \<times> u256" where
  "sender_state d a =
     (case ok_flat (latest_account a d) of Some acc \<Rightarrow> (acc_nonce acc, acc_balance acc) | None \<Rightarrow> (0, 0))"

definition required_balance :: "tx \<Rightarrow> u128 \<Rightarrow> u256" where
  "required_balance t amount = ucast (ucast (tx_gas_limit t) * tx_max_fee_per_gas t + amount)"

definition is_stale :: "u256 \<Rightarrow> (b256 \<rightharpoonup> blob_data) \<Rightarrow> u64 \<times> u256 \<Rightarrow> tx \<Rightarrow> mempool_error + bool" where
  "is_stale base_fee bl = (\<lambda>(current_nonce, current_balance) t.
     rbind (u256_to_u128 base_fee) (\<lambda>fee.
       if tx_max_fee_per_gas t < fee then Inr True
       else rbind (u256_to_u128 (tx_value t)) (\<lambda>amount.
         if tx_nonce t < current_nonce \<or> current_balance < required_balance t amount then Inr True
         else Inr (is_eip4844 t \<and> (\<exists>h \<in> set (blob_hashes_of t). bl h = None)))))"

fun stale_hashes :: "(tx \<Rightarrow> mempool_error + bool) \<Rightarrow> tx list \<Rightarrow> mempool_error + b256 list" where
  "stale_hashes chk [] = Inr []"
| "stale_hashes chk (t # ts) =
     rbind (chk t) (\<lambda>s. rbind (stale_hashes chk ts) (\<lambda>hs. Inr (if s then tx_hash t # hs else hs)))"

definition process_address :: "db \<Rightarrow> mempool \<Rightarrow> address \<Rightarrow> mempool_error + b256 list \<times> address list" where
  "process_address d m a =
     (let chk = is_stale (mp_base_fee m) (blobs m) (sender_state d a) in
      rbind (stale_hashes chk (queue_of (pending_transactions m) a)) (\<lambda>hs1.
      rbind (stale_hashes chk (queue_of (queued_transactions m) a)) (\<lambda>hs2.
        Inr (hs1 @ hs2, if map_of (queued_transactions m) a = None then [] else [a]))))"

fun process_addresses :: "db \<Rightarrow> mempool \<Rightarrow> address list \<Rightarrow> mempool_error + b256 list \<times> address list" where
  "process_addresses d m [] = Inr ([], [])"
| "process_addresses d m (a # as) =
     rbind (process_address d m a) (\<lambda>(hs, ps).
     rbind (process_addresses d m as) (\<lambda>(hs', ps'). Inr (hs @ hs', ps @ ps')))"

definition all_senders :: "mempool \<Rightarrow> address list" where
  "all_senders m =
     map fst (pending_transactions m) @
     filter (\<lambda>a. map_of (pending_transactions m) a = None) (map fst (queued_transactions m))"

definition promote_sender :: "search \<Rightarrow> db \<Rightarrow> address \<Rightarrow> mempool \<Rightarrow> mempool" where
  "promote_sender bs d a m =
     (let q = queue_of (pending_transactions m) a
      in promote_queued bs a (if q = [] then fst (sender_state d a) else tx_nonce (last q) + 1) m)"

definition revalidate :: "search \<Rightarrow> db \<Rightarrow> address list option \<Rightarrow> mempool pool_act" where
  "revalidate bs d addrs m =
     (case process_addresses d m (case addrs of Some as \<Rightarrow> as | None \<Rightarrow> all_senders m) of
        Inl e \<Rightarrow> (Inl e, m)
      | Inr (to_remove, addresses_to_promote) \<Rightarrow>
          (Inr (), fold (promote_sender bs d) addresses_to_promote
             (if to_remove = [] then m else remove_transactions to_remove m)))"

definition update_base_fee :: "search \<Rightarrow> u256 \<Rightarrow> db \<Rightarrow> mempool pool_act" where
  "update_base_fee bs new_base_fee d m =
     (let increased = new_base_fee > mp_base_fee m; m' = m\<lparr>mp_base_fee := new_base_fee\<rparr>
      in if increased then revalidate bs d None m' else (Inr (), m'))"

subsection \<open>Lookups\<close>

definition get_transactions_by_sender :: "mempool \<Rightarrow> address \<Rightarrow> tx list" where
  "get_transactions_by_sender m a = queue_of (pending_transactions m) a @ queue_of (queued_transactions m) a"

definition get_transaction :: "mempool \<Rightarrow> b256 \<Rightarrow> tx option" where
  "get_transaction m hash =
     or_else (List.find (\<lambda>t. tx_hash t = hash) (concat (map snd (pending_transactions m))))
       (List.find (\<lambda>t. tx_hash t = hash) (concat (map snd (queued_transactions m))))"

definition add_blob :: "b256 \<Rightarrow> blob_data \<Rightarrow> mempool \<Rightarrow> mempool" where
  "add_blob versioned_hash blob m = m\<lparr>blobs := (blobs m)(versioned_hash \<mapsto> blob)\<rparr>"

definition get_blob :: "mempool \<Rightarrow> b256 \<Rightarrow> blob_data option" where
  "get_blob m versioned_hash = blobs m versioned_hash"

definition add_pooled_envelope :: "b256 \<Rightarrow> bytes \<Rightarrow> mempool \<Rightarrow> mempool" where
  "add_pooled_envelope hash pooled m = m\<lparr>pooled_envelopes := (pooled_envelopes m)(hash \<mapsto> pooled)\<rparr>"

definition get_pooled_envelope :: "mempool \<Rightarrow> b256 \<Rightarrow> bytes option" where
  "get_pooled_envelope m hash = pooled_envelopes m hash"

definition add_pooled_bytes :: "b256 \<Rightarrow> bytes \<Rightarrow> mempool \<Rightarrow> mempool" where
  "add_pooled_bytes hash bs m = m\<lparr>pooled_bytes := (pooled_bytes m)(hash \<mapsto> bs)\<rparr>"

definition get_pooled_bytes :: "mempool \<Rightarrow> b256 \<Rightarrow> bytes option" where
  "get_pooled_bytes m hash = pooled_bytes m hash"

definition nonce_lookup :: "mempool \<Rightarrow> address \<Rightarrow> u64 \<Rightarrow> u64 \<times> u64" where
  "nonce_lookup m a state_nonce =
     (state_nonce, case map_of (pending_transactions m) a of
        Some q \<Rightarrow> expected_nonce q state_nonce | None \<Rightarrow> state_nonce)"

subsection \<open>The listener\<close>

record 'p mempool_ops =
  op_remove_transactions :: "b256 list \<Rightarrow> 'p pool_act"
  op_base_fee :: "'p \<Rightarrow> u256"
  op_update_base_fee :: "u256 \<Rightarrow> db \<Rightarrow> 'p pool_act"
  op_revalidate :: "db \<Rightarrow> address list option \<Rightarrow> 'p pool_act"
  op_get_all_transactions :: "'p \<Rightarrow> tx list"

definition pool_ops :: "search \<Rightarrow> mempool mempool_ops" where
  "pool_ops bs = \<lparr>op_remove_transactions = (\<lambda>hs m. (Inr (), remove_transactions hs m)), op_base_fee = mp_base_fee,
     op_update_base_fee = update_base_fee bs, op_revalidate = revalidate bs,
     op_get_all_transactions = get_all_transactions\<rparr>"

definition noop_ops :: "unit mempool_ops" where
  "noop_ops = \<lparr>op_remove_transactions = (\<lambda>_. ret ()), op_base_fee = (\<lambda>_. 0),
     op_update_base_fee = (\<lambda>_ _. ret ()), op_revalidate = (\<lambda>_ _. ret ()), op_get_all_transactions = (\<lambda>_. [])\<rparr>"

datatype mempool_event = CanonicalBlock block | Reorg b256

definition process_canonical_block :: "'p mempool_ops \<Rightarrow> db \<Rightarrow> block \<Rightarrow> 'p pool_act" where
  "process_canonical_block ops d b =
     (let base_fee = unwrap_or (h_base_fee_per_gas (b_header b)) 0; txs = b_transactions (b_body b);
          affected = List.map_filter tx_signer txs; hashes = map tx_hash txs; new_base_fee = ucast base_fee
      in sseq (if hashes \<noteq> [] then op_remove_transactions ops hashes else ret ())
        (sbind (peeks (op_base_fee ops)) (\<lambda>old_base_fee.
         sseq (op_update_base_fee ops new_base_fee d)
           (if new_base_fee \<le> old_base_fee \<and> affected \<noteq> []
            then op_revalidate ops d (Some (sort (remdups affected))) else ret ()))))"

definition process_reorg :: "'p mempool_ops \<Rightarrow> db \<Rightarrow> b256 \<Rightarrow> 'p pool_act" where
  "process_reorg ops d head_hash =
     (case ok_flat (header (IdHash head_hash) d) of
        Some hdr \<Rightarrow> sseq (op_update_base_fee ops (ucast (unwrap_or (h_base_fee_per_gas hdr) 0)) d)
          (op_revalidate ops d None)
      | None \<Rightarrow> ret ())"

definition process_event :: "'p mempool_ops \<Rightarrow> db \<times> mempool_event \<Rightarrow> 'p pool_act" where
  "process_event ops = (\<lambda>(d, ev). case ev of
     CanonicalBlock b \<Rightarrow> process_canonical_block ops d b | Reorg h \<Rightarrow> process_reorg ops d h)"

text \<open>The task: the events in the order they were sent, each with the database at its time.  A panic ends it.\<close>

definition listener_run :: "'p mempool_ops \<Rightarrow> (db \<times> mempool_event) list \<Rightarrow> 'p pool_act" where
  "listener_run ops evs = for_each evs (process_event ops)"

definition after_removal :: "'p mempool_ops \<Rightarrow> block \<Rightarrow> 'p \<Rightarrow> 'p" where
  "after_removal ops b p = (let hs = map tx_hash (b_transactions (b_body b))
     in if hs = [] then p else snd (op_remove_transactions ops hs p))"

subsection \<open>The contract of the trait\<close>

locale mempool_provider =
  fixes ops :: "'p mempool_ops" and inv :: "'p \<Rightarrow> bool"
  assumes inv_remove: "inv p \<Longrightarrow> inv (snd (op_remove_transactions ops hs p))"
    and inv_update: "inv p \<Longrightarrow> inv (snd (op_update_base_fee ops fee d p))"
    and inv_revalidate: "inv p \<Longrightarrow> inv (snd (op_revalidate ops d as p))"
    and remove_total: "fst (op_remove_transactions ops hs p) = Inr ()"
    and removes: "set (op_get_all_transactions ops (snd (op_remove_transactions ops hs p)))
      \<subseteq> {t \<in> set (op_get_all_transactions ops p). tx_hash t \<notin> set hs}"
    and update_shrinks: "set (op_get_all_transactions ops (snd (op_update_base_fee ops fee d p)))
      \<subseteq> set (op_get_all_transactions ops p)"
    and revalidate_shrinks: "set (op_get_all_transactions ops (snd (op_revalidate ops d as p)))
      \<subseteq> set (op_get_all_transactions ops p)"
begin

lemma tail_shrinks:
  "set (op_get_all_transactions ops (snd (sseq (op_update_base_fee ops fee d)
     (if c then op_revalidate ops d as else ret ()) p))) \<subseteq> set (op_get_all_transactions ops p)"
  using update_shrinks [of fee d p] revalidate_shrinks [of d as "snd (op_update_base_fee ops fee d p)"]
  by (cases "op_update_base_fee ops fee d p"; cases "fst (op_update_base_fee ops fee d p)"; cases c)
    (simp_all add: sseq_def sbind_def ret_def)

lemma tail_inv:
  "inv p \<Longrightarrow> inv (snd (sseq (op_update_base_fee ops fee d) (if c then op_revalidate ops d as else ret ()) p))"
  using inv_update [of p fee d] inv_revalidate [of "snd (op_update_base_fee ops fee d p)" d as]
  by (cases "op_update_base_fee ops fee d p") (auto simp: sseq_def sbind_def ret_def split: sum.splits)

lemma canonical_block_unfold:
  "process_canonical_block ops d b p =
     (let fee = ucast (unwrap_or (h_base_fee_per_gas (b_header b)) 0); p1 = after_removal ops b p;
          affected = List.map_filter tx_signer (b_transactions (b_body b))
      in sseq (op_update_base_fee ops fee d)
        (if fee \<le> op_base_fee ops p1 \<and> affected \<noteq> [] then op_revalidate ops d (Some (sort (remdups affected))) else ret ()) p1)"
proof (cases "b_transactions (b_body b) = []")
  case True
  then show ?thesis
    by (auto simp: process_canonical_block_def after_removal_def Let_def map_filter_simps sseq_def sbind_def peeks_def ret_def
        split: prod.split sum.split)
next
  case False
  moreover obtain p1 where "op_remove_transactions ops (map tx_hash (b_transactions (b_body b))) p = (Inr (), p1)"
    using remove_total by (metis prod.collapse)
  ultimately show ?thesis
    by (auto simp: process_canonical_block_def after_removal_def Let_def sseq_def sbind_def peeks_def ret_def)
qed

lemma after_removal_contents:
  "set (op_get_all_transactions ops (after_removal ops b p))
     \<subseteq> {t \<in> set (op_get_all_transactions ops p). tx_hash t \<notin> tx_hash ` set (b_transactions (b_body b))}"
  using removes [of "map tx_hash (b_transactions (b_body b))" p] by (auto simp: after_removal_def Let_def)

lemma canonical_block_removes:
  "set (op_get_all_transactions ops (snd (process_canonical_block ops d b p)))
     \<subseteq> {t \<in> set (op_get_all_transactions ops p). tx_hash t \<notin> tx_hash ` set (b_transactions (b_body b))}"
  unfolding canonical_block_unfold Let_def
  by (rule subset_trans [OF tail_shrinks after_removal_contents])

lemma process_event_shrinks:
  "set (op_get_all_transactions ops (snd (process_event ops e p))) \<subseteq> set (op_get_all_transactions ops p)"
proof (cases e)
  case (Pair d ev)
  show ?thesis
  proof (cases ev)
    case (CanonicalBlock b)
    with Pair canonical_block_removes [of d b p] show ?thesis by (auto simp: process_event_def)
  next
    case (Reorg h)
    with Pair tail_shrinks [where c = True] show ?thesis
      by (auto simp: process_event_def process_reorg_def ret_def split: option.splits)
  qed
qed

lemma process_event_inv: "inv p \<Longrightarrow> inv (snd (process_event ops e p))"
  using inv_remove tail_inv tail_inv [where c = True]
  by (auto simp: process_event_def process_reorg_def canonical_block_unfold Let_def after_removal_def ret_def
      split: prod.splits mempool_event.splits option.splits)

lemma listener_inv: "inv p \<Longrightarrow> inv (snd (listener_run ops evs p))"
  unfolding listener_run_def by (rule for_each_keeps) (use process_event_inv in auto)

lemma listener_shrinks:
  "set (op_get_all_transactions ops (snd (listener_run ops evs p))) \<subseteq> set (op_get_all_transactions ops p)"
  unfolding listener_run_def
  by (rule for_each_keeps [where I = "\<lambda>q. set (op_get_all_transactions ops q) \<subseteq> set (op_get_all_transactions ops p)"])
    (use process_event_shrinks in blast)+

text \<open>Every block whose event is reached is cleaned out of the pool, also when its own handling panics.\<close>

lemma listener_removes:
  assumes "listener_run ops evs p = (r, p')" and "evs = pre @ (d, CanonicalBlock b) # post"
    and "fst (listener_run ops pre p) = Inr ()" and "t \<in> set (op_get_all_transactions ops p')"
  shows "tx_hash t \<notin> tx_hash ` set (b_transactions (b_body b))"
proof -
  obtain p1 where p1: "listener_run ops pre p = (Inr (), p1)" using assms(3) by (metis prod.collapse)
  obtain r2 p2 where p2: "process_canonical_block ops d b p1 = (r2, p2)" by fastforce
  have "set (op_get_all_transactions ops p') \<subseteq> set (op_get_all_transactions ops p2)"
  proof (cases r2)
    case (Inl e)
    with assms(1,2) p1 p2 show ?thesis
      by (auto simp: listener_run_def for_each_append sseq_def sbind_def process_event_def)
  next
    case (Inr u)
    with assms(1,2) p1 p2 have "listener_run ops post p2 = (r, p')"
      by (simp add: listener_run_def for_each_append sseq_def sbind_def process_event_def)
    with listener_shrinks [of post p2] show ?thesis by simp
  qed
  with assms(4) canonical_block_removes [of d b p1] p2 show ?thesis by auto
qed

end

subsection \<open>What promotion and removal leave\<close>

definition in_queues :: "queues \<Rightarrow> tx set" where
  "in_queues qs = (\<Union>e \<in> set qs. set (snd e))"

lemma get_all_in_queues:
  "set (get_all_transactions m) = in_queues (pending_transactions m) \<union> in_queues (queued_transactions m)"
  by (auto simp: get_all_transactions_def in_queues_def)

lemma in_queues_update: "in_queues (AList.update a q qs) \<subseteq> set q \<union> in_queues qs"
  by (induction qs) (auto simp: in_queues_def split: if_splits)

lemma in_queues_delete: "in_queues (AList.delete a qs) \<subseteq> in_queues qs"
  by (auto simp: in_queues_def AList.delete_eq)

lemma in_queues_map_of: "map_of qs a = Some q \<Longrightarrow> set q \<subseteq> in_queues qs"
  by (force simp: in_queues_def dest: map_of_SomeD)

lemma in_queues_queue_of: "set (queue_of qs a) \<subseteq> in_queues qs"
  by (cases "map_of qs a") (use in_queues_map_of in \<open>auto simp: queue_of_def\<close>)

lemma insert_at_subset: "set (insert_at i x xs) \<subseteq> insert x (set xs)"
  unfolding insert_at_def by (auto dest: in_set_takeD in_set_dropD)

lemma promote_loop_shrinks:
  "set (get_all_transactions (promote_loop bs a n m)) \<subseteq> set (get_all_transactions m)"
proof (induction bs a n m rule: promote_loop.induct)
  case (1 bs a n m)
  show ?case
  proof (cases "\<exists>q pos. map_of (queued_transactions m) a = Some q \<and> bs n (nonces q) = Inr pos \<and> pos < length q")
    case False
    then show ?thesis by (subst promote_loop.simps) (auto split: option.split sum.split)
  next
    case True
    then obtain q pos where q: "map_of (queued_transactions m) a = Some q"
      and pos: "bs n (nonces q) = Inr pos" "pos < length q" by blast
    define t' where "t' = q ! pos"
    define m1 where "m1 = m\<lparr>queued_transactions := AList.update a (remove_at pos q) (queued_transactions m)\<rparr>"
    define p where "p = queue_of (pending_transactions m1) a"
    define p' where "p' = (case bs (tx_nonce t') (nonces p) of Inr _ \<Rightarrow> p | Inl p_pos \<Rightarrow> insert_at p_pos t' p)"
    let ?m2 = "m1\<lparr>pending_transactions := AList.update a p' (pending_transactions m1)\<rparr>"
    have t': "t' \<in> in_queues (queued_transactions m)"
      using in_queues_map_of [OF q] pos(2) by (auto simp: t'_def)
    have "set p' \<subseteq> insert t' (set p)"
      using insert_at_subset [of _ t' p] by (auto simp: p'_def split: sum.splits)
    then have "set p' \<subseteq> set (get_all_transactions m)"
      using t' in_queues_queue_of [of "pending_transactions m" a] by (auto simp: get_all_in_queues p_def m1_def)
    moreover have "set (remove_at pos q) \<subseteq> set (get_all_transactions m)"
      using remove_at_set in_queues_map_of [OF q] by (fastforce simp: get_all_in_queues)
    ultimately have "set (get_all_transactions ?m2) \<subseteq> set (get_all_transactions m)"
      using in_queues_update [of a p'] in_queues_update [of a "remove_at pos q"]
      by (fastforce simp: get_all_in_queues m1_def)
    moreover have "promote_loop bs a n m = promote_loop bs a (n + 1) ?m2"
      unfolding p'_def p_def m1_def t'_def
      by (subst promote_loop.simps) (simp only: q pos option.case sum.case Let_def if_True)
    ultimately show ?thesis using 1 [OF q pos t'_def m1_def p_def p'_def] by simp
  qed
qed

lemma promote_queued_shrinks:
  "set (get_all_transactions (promote_queued bs a n m)) \<subseteq> set (get_all_transactions m)"
proof -
  let ?m = "promote_loop bs a n m"
  have "in_queues (queued_transactions (promote_queued bs a n m)) \<subseteq> in_queues (queued_transactions ?m)"
    using in_queues_delete [of a "queued_transactions ?m"] by (simp add: promote_queued_def Let_def)
  then have "set (get_all_transactions (promote_queued bs a n m)) \<subseteq> set (get_all_transactions ?m)"
    unfolding get_all_in_queues promote_queued_pending by blast
  with promote_loop_shrinks show ?thesis by blast
qed

lemma promote_senders_shrinks:
  "set (get_all_transactions (fold (promote_sender bs d) as m)) \<subseteq> set (get_all_transactions m)"
proof (induction as arbitrary: m)
  case (Cons a as)
  have "set (get_all_transactions (promote_sender bs d a m)) \<subseteq> set (get_all_transactions m)"
    unfolding promote_sender_def Let_def by (rule promote_queued_shrinks)
  with Cons show ?case by fastforce
qed simp

lemma promote_senders_wf: "search_ok bs \<Longrightarrow> mempool_wf m \<Longrightarrow> mempool_wf (fold (promote_sender bs d) as m)"
  by (induction as arbitrary: m) (simp_all add: promote_sender_def Let_def promote_queued_wf)

lemma remove_transactions_contents:
  "set (get_all_transactions (remove_transactions hs m)) = {t \<in> set (get_all_transactions m). tx_hash t \<notin> set hs}"
proof -
  have "in_queues (filter (\<lambda>(a, q). q \<noteq> []) (map (\<lambda>(a, q). (a, filter P q)) qs)) = {t \<in> in_queues qs. P t}" for P qs
    by (induction qs) (auto simp: in_queues_def filter_empty_conv)
  then show ?thesis
    by (simp add: remove_transactions_def Let_def get_all_in_queues) blast
qed

lemma revalidate_cases:
  obtains (panic) e where "process_addresses d m (case as of Some l \<Rightarrow> l | None \<Rightarrow> all_senders m) = Inl e"
    "revalidate bs d as m = (Inl e, m)"
  | (swept) rem prom where "process_addresses d m (case as of Some l \<Rightarrow> l | None \<Rightarrow> all_senders m) = Inr (rem, prom)"
    "revalidate bs d as m = (Inr (), fold (promote_sender bs d) prom (if rem = [] then m else remove_transactions rem m))"
proof (cases "process_addresses d m (case as of Some l \<Rightarrow> l | None \<Rightarrow> all_senders m)")
  case (Inl e)
  then show ?thesis by (rule panic) (simp only: revalidate_def Inl sum.case)
next
  case (Inr rp)
  obtain rem prom where "rp = (rem, prom)" by fastforce
  with Inr swept show ?thesis by (simp add: revalidate_def)
qed

lemma revalidate_shrinks:
  "set (get_all_transactions (snd (revalidate bs d as m))) \<subseteq> set (get_all_transactions m)"
proof (cases rule: revalidate_cases [where bs = bs and d = d and as = as and m = m])
  case (swept rem prom)
  have "set (get_all_transactions (if rem = [] then m else remove_transactions rem m)) \<subseteq> set (get_all_transactions m)"
    by (auto simp: remove_transactions_contents)
  with swept(2) promote_senders_shrinks show ?thesis by (metis snd_conv subset_trans)
qed simp

lemma revalidate_wf: "search_ok bs \<Longrightarrow> mempool_wf m \<Longrightarrow> mempool_wf (snd (revalidate bs d as m))"
  by (cases rule: revalidate_cases [where bs = bs and d = d and as = as and m = m]) (simp_all add: promote_senders_wf remove_transactions_wf)

lemma get_all_base_fee [simp]: "get_all_transactions (m\<lparr>mp_base_fee := fee\<rparr>) = get_all_transactions m"
  by (simp add: get_all_transactions_def)

lemma mempool_wf_base_fee [simp]: "mempool_wf (m\<lparr>mp_base_fee := fee\<rparr>) = mempool_wf m"
  by (simp add: mempool_wf_def)

interpretation pool: mempool_provider "pool_ops bs" "\<lambda>m. search_ok bs \<longrightarrow> mempool_wf m" for bs
proof unfold_locales
  fix m :: mempool and fee d
  show "set (op_get_all_transactions (pool_ops bs) (snd (op_update_base_fee (pool_ops bs) fee d m)))
      \<subseteq> set (op_get_all_transactions (pool_ops bs) m)"
    using revalidate_shrinks [of bs d None "m\<lparr>mp_base_fee := fee\<rparr>"] by (simp add: pool_ops_def update_base_fee_def Let_def)
qed (use revalidate_shrinks in \<open>simp_all add: pool_ops_def update_base_fee_def Let_def remove_transactions_wf revalidate_wf
    remove_transactions_contents\<close>)

interpretation noop: mempool_provider noop_ops "\<lambda>_. True"
  by unfold_locales (simp_all add: noop_ops_def ret_def)

subsection \<open>Full revalidation\<close>

text \<open>The reference: what a transaction must satisfy to stay, over the natural numbers.  The cost is reduced modulo
  $2^{128}$, as the code computes it.\<close>

definition still_valid :: "mempool \<Rightarrow> db \<Rightarrow> tx \<Rightarrow> bool" where
  "still_valid m d t \<longleftrightarrow>
     unat (mp_base_fee m) \<le> unat (tx_max_fee_per_gas t) \<and> fst (sender_state d (sender_of t)) \<le> tx_nonce t \<and>
     (unat (tx_gas_limit t) * unat (tx_max_fee_per_gas t) + unat (tx_value t)) mod 2 ^ 128
       \<le> unat (snd (sender_state d (sender_of t))) \<and>
     (is_eip4844 t \<longrightarrow> (\<forall>h \<in> set (blob_hashes_of t). blobs m h \<noteq> None))"

definition check_panics :: "mempool \<Rightarrow> tx \<Rightarrow> bool" where
  "check_panics m t \<longleftrightarrow> 2 ^ 128 \<le> unat (mp_base_fee m) \<or>
     unat (mp_base_fee m) \<le> unat (tx_max_fee_per_gas t) \<and> 2 ^ 128 \<le> unat (tx_value t)"

lemma u256_to_u128_cases:
  "u256_to_u128 w = (if unat w < 2 ^ 128 then Inr (ucast w) else Inl ConversionPanic)"
  by (simp add: u256_to_u128_def word_less_nat_alt)

lemma unat_required_balance:
  "unat (required_balance t v) = (unat (tx_gas_limit t) * unat (tx_max_fee_per_gas t) + unat v) mod 2 ^ 128"
proof -
  let ?w = "ucast (tx_gas_limit t) * tx_max_fee_per_gas t + v"
  have "unat (ucast ?w :: u256) = unat ?w"
    by (rule unat_ucast_fits) (use unsigned_less [of ?w, where ?'a = nat] in simp)
  moreover have "unat (ucast (tx_gas_limit t) :: u128) = unat (tx_gas_limit t)"
    by (rule unat_ucast_fits) (use unsigned_less [of "tx_gas_limit t", where ?'a = nat] in simp)
  ultimately show ?thesis
    by (simp add: required_balance_def unat_word_ariths mod_add_left_eq)
qed

lemma is_stale_spec:
  "is_stale (mp_base_fee m) (blobs m) (sender_state d (sender_of t)) t =
     (if check_panics m t then Inl ConversionPanic else Inr (\<not> still_valid m d t))"
proof -
  obtain n bal where st: "sender_state d (sender_of t) = (n, bal)" by fastforce
  have v: "unat (ucast w :: u128) = unat w" if "unat w < 2 ^ 128" for w :: u256
    using that by (intro unat_ucast_fits) simp
  have "is_stale (mp_base_fee m) (blobs m) (n, bal) t =
     (if \<not> unat (mp_base_fee m) < 2 ^ 128 then Inl ConversionPanic
      else if unat (tx_max_fee_per_gas t) < unat (mp_base_fee m) then Inr True
      else if \<not> unat (tx_value t) < 2 ^ 128 then Inl ConversionPanic
      else Inr (tx_nonce t < n \<or>
        unat bal < (unat (tx_gas_limit t) * unat (tx_max_fee_per_gas t) + unat (tx_value t)) mod 2 ^ 128 \<or>
        is_eip4844 t \<and> (\<exists>h \<in> set (blob_hashes_of t). blobs m h = None)))"
    by (auto simp: is_stale_def u256_to_u128_cases v word_less_nat_alt unat_required_balance)
  then show ?thesis
    unfolding st check_panics_def still_valid_def by (auto simp: not_le not_less simp del: not_None_eq)
qed

lemma stale_hashes_spec:
  assumes "\<And>t. t \<in> set ts \<Longrightarrow> chk t = (if P t then Inl ConversionPanic else Inr (\<not> V t))"
  shows "case stale_hashes chk ts of Inl e \<Rightarrow> \<exists>t \<in> set ts. P t
    | Inr hs \<Rightarrow> (\<forall>t \<in> set ts. \<not> P t) \<and> set hs = tx_hash ` {t \<in> set ts. \<not> V t}"
  using assms
proof (induction ts)
  case (Cons t ts)
  have IH: "case stale_hashes chk ts of Inl e \<Rightarrow> \<exists>t \<in> set ts. P t
    | Inr hs \<Rightarrow> (\<forall>t \<in> set ts. \<not> P t) \<and> set hs = tx_hash ` {t \<in> set ts. \<not> V t}"
    by (rule Cons.IH) (use Cons.prems in simp)
  have "chk t = (if P t then Inl ConversionPanic else Inr (\<not> V t))" using Cons.prems by simp
  with IH show ?case by (cases "stale_hashes chk ts"; cases "V t") auto
qed simp

lemma process_address_spec:
  assumes "mempool_wf m"
  shows "case process_address d m a of Inl e \<Rightarrow> \<exists>t \<in> set (get_transactions_by_sender m a). check_panics m t
    | Inr (hs, ps) \<Rightarrow> (\<forall>t \<in> set (get_transactions_by_sender m a). \<not> check_panics m t) \<and>
        set hs = tx_hash ` {t \<in> set (get_transactions_by_sender m a). \<not> still_valid m d t}"
proof -
  let ?chk = "is_stale (mp_base_fee m) (blobs m) (sender_state d a)"
  have s: "sender_of t = a" if "t \<in> set (queue_of (pending_transactions m) a) \<or> t \<in> set (queue_of (queued_transactions m) a)" for t
    using that assms queue_of_wf by (auto simp: mempool_wf_def queue_wf_def)
  have c: "?chk t = (if check_panics m t then Inl ConversionPanic else Inr (\<not> still_valid m d t))"
    if "t \<in> set (queue_of (pending_transactions m) a) \<or> t \<in> set (queue_of (queued_transactions m) a)" for t
    using is_stale_spec [of m d t] s [OF that] by simp
  note p = stale_hashes_spec [where ts = "queue_of (pending_transactions m) a" and chk = ?chk and P = "check_panics m"
      and V = "still_valid m d"]
  note q = stale_hashes_spec [where ts = "queue_of (queued_transactions m) a" and chk = ?chk and P = "check_panics m"
      and V = "still_valid m d"]
  show ?thesis
    using p q c
    by (cases "stale_hashes ?chk (queue_of (pending_transactions m) a)"; cases "stale_hashes ?chk (queue_of (queued_transactions m) a)")
      (auto simp: process_address_def Let_def get_transactions_by_sender_def)
qed

lemma process_addresses_spec:
  assumes "mempool_wf m"
  defines "T \<equiv> \<lambda>as. (\<Union>a \<in> set as. set (get_transactions_by_sender m a))"
  shows "case process_addresses d m as of Inl e \<Rightarrow> \<exists>t \<in> T as. check_panics m t
    | Inr (hs, ps) \<Rightarrow> (\<forall>t \<in> T as. \<not> check_panics m t) \<and> set hs = tx_hash ` {t \<in> T as. \<not> still_valid m d t}"
proof (induction as)
  case (Cons a as)
  with process_address_spec [OF assms(1), where d = d and a = a] show ?case
    by (cases "process_address d m a"; cases "process_addresses d m as") (auto simp: T_def split: prod.splits)
qed (simp add: T_def)

lemma all_senders_complete:
  assumes "mempool_wf m"
  shows "(\<Union>a \<in> set (all_senders m). set (get_transactions_by_sender m a)) = set (get_all_transactions m)"
proof -
  have a: "a \<in> set (all_senders m)" if "t \<in> set (get_transactions_by_sender m a)" for t a
  proof (cases "map_of (pending_transactions m) a")
    case (Some q)
    then show ?thesis by (auto simp: all_senders_def dest!: map_of_SomeD intro: rev_image_eqI)
  next
    case None
    with that obtain q where "map_of (queued_transactions m) a = Some q"
      by (cases "map_of (queued_transactions m) a") (auto simp: get_transactions_by_sender_def queue_of_def)
    with None show ?thesis by (auto simp: all_senders_def dest!: map_of_SomeD intro: rev_image_eqI)
  qed
  have u: "t \<in> set (get_all_transactions m) \<longleftrightarrow> (\<exists>a. t \<in> set (get_transactions_by_sender m a))" for t
    using in_pool_wf_iff [OF assms, of t] by (simp add: get_transactions_by_sender_def)
  show ?thesis
    unfolding set_eq_iff u UN_iff
  proof (intro allI iffI)
    show "\<exists>a \<in> set (all_senders m). t \<in> set (get_transactions_by_sender m a)"
      if "\<exists>a. t \<in> set (get_transactions_by_sender m a)" for t
      using that by (elim exE) (intro bexI, assumption, erule a)
  qed (erule bexE, erule exI)
qed

text \<open>No promotion loses a nonce of a sender.\<close>

definition covers :: "mempool \<Rightarrow> mempool \<Rightarrow> bool" where
  "covers m m' \<longleftrightarrow> (\<forall>t \<in> set (get_all_transactions m). \<exists>t' \<in> set (get_all_transactions m').
     sender_of t' = sender_of t \<and> tx_nonce t' = tx_nonce t)"

lemma covers_refl [simp]: "covers m m"
  by (auto simp: covers_def)

lemma covers_trans: "covers m m1 \<Longrightarrow> covers m1 m2 \<Longrightarrow> covers m m2"
  unfolding covers_def by metis

lemma in_queues_wf: "queues_wf qs \<Longrightarrow> t \<in> in_queues qs \<longleftrightarrow> (\<exists>a. t \<in> set (queue_of qs a))"
  using in_queue_of [of t qs] queue_of_mem by (fastforce simp: in_queues_def queues_wf_def)

lemma in_queues_updated:
  assumes "queues_wf qs" and "queue_wf a q"
  shows "t \<in> in_queues (AList.update a q qs) \<longleftrightarrow> t \<in> set q \<or> (\<exists>b. b \<noteq> a \<and> t \<in> set (queue_of qs b))"
  unfolding in_queues_wf [OF queues_wf_update [OF assms]] by (auto simp: queue_of_update)

lemma promote_step_covers:
  assumes bs: "search_ok bs" and m: "mempool_wf m" and q: "map_of (queued_transactions m) a = Some q"
    and pos: "bs n (nonces q) = Inr pos"
  defines "m1 \<equiv> m\<lparr>queued_transactions := AList.update a (remove_at pos q) (queued_transactions m)\<rparr>"
  defines "p \<equiv> queue_of (pending_transactions m1) a"
  defines "p' \<equiv> (case bs (tx_nonce (q ! pos)) (nonces p) of Inr _ \<Rightarrow> p | Inl i \<Rightarrow> insert_at i (q ! pos) p)"
  shows "covers m (m1\<lparr>pending_transactions := AList.update a p' (pending_transactions m1)\<rparr>)"
    and "mempool_wf (m1\<lparr>pending_transactions := AList.update a p' (pending_transactions m1)\<rparr>)"
proof -
  let ?t = "q ! pos"
  have qw: "queue_wf a q" using m q by (simp add: mempool_wf_def queues_wf_def)
  note pos' = search_Inr [OF bs qw pos]
  have t: "sender_of ?t = a" using qw pos' by (simp add: queue_wf_def)
  have pw: "queue_wf a p" using m by (simp add: p_def m1_def mempool_wf_def queue_of_wf)
  have p'w: "queue_wf a p'" using pw queue_wf_insert [OF bs pw t] by (auto simp: p'_def split: sum.splits)
  have rw: "queue_wf a (remove_at pos q)" using qw by (rule queue_wf_remove)
  show "mempool_wf (m1\<lparr>pending_transactions := AList.update a p' (pending_transactions m1)\<rparr>)"
    using m p'w rw by (simp add: m1_def mempool_wf_def queues_wf_update)
  have p': "set p \<subseteq> set p'" "\<exists>t' \<in> set p'. sender_of t' = a \<and> tx_nonce t' = tx_nonce ?t"
  proof -
    show "set p \<subseteq> set p'"
      using queue_wf_insert [OF bs pw t] by (auto simp: p'_def insert_at_set split: sum.splits)
    show "\<exists>t' \<in> set p'. sender_of t' = a \<and> tx_nonce t' = tx_nonce ?t"
    proof (cases "bs (tx_nonce ?t) (nonces p)")
      case (Inl i)
      then show ?thesis using t queue_wf_insert [OF bs pw t] by (auto simp: p'_def insert_at_set)
    next
      case (Inr i)
      then show ?thesis
        using search_Inr [OF bs pw Inr] pw by (auto simp: p'_def queue_wf_def intro!: bexI [of _ "p ! i"])
    qed
  qed
  have rest: "x = ?t \<or> x \<in> set (remove_at pos q)" if "x \<in> set q" for x
  proof -
    have "q = take pos q @ ?t # drop (Suc pos) q" using pos'(1) by (rule id_take_nth_drop)
    with that show ?thesis unfolding remove_at_def by (metis Un_iff set_ConsD set_append)
  qed
  have pq: "queues_wf (pending_transactions m)" "queues_wf (queued_transactions m)" "queue_of (queued_transactions m) a = q"
    using m q by (simp_all add: mempool_wf_def queue_of_def)
  show "covers m (m1\<lparr>pending_transactions := AList.update a p' (pending_transactions m1)\<rparr>)"
    unfolding covers_def
  proof
    fix x assume "x \<in> set (get_all_transactions m)"
    then consider b where "x \<in> set (queue_of (pending_transactions m) b)" | b where "x \<in> set (queue_of (queued_transactions m) b)"
      unfolding get_all_in_queues using in_queues_wf pq(1,2) by blast
    then show "\<exists>t' \<in> set (get_all_transactions (m1\<lparr>pending_transactions := AList.update a p' (pending_transactions m1)\<rparr>)).
      sender_of t' = sender_of x \<and> tx_nonce t' = tx_nonce x"
    proof cases
      case 1
      then have "x \<in> in_queues (AList.update a p' (pending_transactions m))"
        using p'(1) by (cases "b = a") (auto simp: in_queues_updated [OF pq(1) p'w] p_def m1_def)
      then show ?thesis by (auto simp: get_all_in_queues m1_def)
    next
      case 2
      show ?thesis
      proof (cases "x = ?t \<and> b = a")
        case True
        moreover have "set p' \<subseteq> in_queues (AList.update a p' (pending_transactions m))"
          by (auto simp: in_queues_updated [OF pq(1) p'w])
        ultimately show ?thesis
          using p'(2) t by (simp add: get_all_in_queues m1_def) blast
      next
        case False
        with 2 rest pq(3) have "x \<in> in_queues (AList.update a (remove_at pos q) (queued_transactions m))"
          by (cases "b = a") (auto simp: in_queues_updated [OF pq(2) rw])
        then show ?thesis by (auto simp: get_all_in_queues m1_def)
      qed
    qed
  qed
qed

lemma promote_loop_covers:
  "search_ok bs \<Longrightarrow> mempool_wf m \<Longrightarrow> covers m (promote_loop bs a n m)"
proof (induction bs a n m rule: promote_loop.induct)
  case (1 bs a n m)
  show ?case
  proof (cases "\<exists>q pos. map_of (queued_transactions m) a = Some q \<and> bs n (nonces q) = Inr pos \<and> pos < length q")
    case False
    then show ?thesis by (subst promote_loop.simps) (auto split: option.split sum.split)
  next
    case True
    then obtain q pos where q: "map_of (queued_transactions m) a = Some q"
      and pos: "bs n (nonces q) = Inr pos" "pos < length q" by blast
    note step = promote_step_covers [OF 1(2,3) q pos(1)]
    have "promote_loop bs a n m = promote_loop bs a (n + 1) (let m1 = m\<lparr>queued_transactions := AList.update a (remove_at pos q) (queued_transactions m)\<rparr>;
        p = queue_of (pending_transactions m1) a;
        p' = (case bs (tx_nonce (q ! pos)) (nonces p) of Inr _ \<Rightarrow> p | Inl i \<Rightarrow> insert_at i (q ! pos) p)
        in m1\<lparr>pending_transactions := AList.update a p' (pending_transactions m1)\<rparr>)"
      by (subst promote_loop.simps) (simp only: q pos option.case sum.case Let_def if_True)
    then show ?thesis
      unfolding Let_def using covers_trans [OF step(1) 1(1) [OF q pos refl refl refl refl 1(2) step(2)]] by (simp only:)
  qed
qed

lemma promote_sender_covers:
  assumes "search_ok bs" and "mempool_wf m"
  shows "covers m (promote_sender bs d a m)"
proof -
  have "in_queues (AList.delete a qs) = in_queues qs" if "queues_wf qs" "map_of qs a = Some []" for a qs
  proof -
    have "queue_of qs a = []" using that(2) by (simp add: queue_of_def)
    then have "(\<exists>b. t \<in> set (queue_of (AList.delete a qs) b)) \<longleftrightarrow> (\<exists>b. t \<in> set (queue_of qs b))" for t
      by (metis empty_iff list.set(1) queue_of_delete)
    then show ?thesis using in_queues_wf [OF that(1)] in_queues_wf [OF queues_wf_delete [OF that(1)]] by blast
  qed
  then have "set (get_all_transactions (promote_queued bs a n m)) = set (get_all_transactions (promote_loop bs a n m))" for n
    using promote_loop_wf [OF assms, of a n] by (simp add: promote_queued_def Let_def get_all_in_queues mempool_wf_def)
  then show ?thesis
    using promote_loop_covers [OF assms] by (simp add: promote_sender_def Let_def covers_def)
qed

lemma promote_senders_cover:
  "search_ok bs \<Longrightarrow> mempool_wf m \<Longrightarrow> covers m (fold (promote_sender bs d) as m)"
proof (induction as arbitrary: m)
  case (Cons a as)
  have "mempool_wf (promote_sender bs d a m)"
    using promote_senders_wf [OF Cons.prems, where as = "[a]"] by simp
  with Cons.IH Cons.prems(1) have "covers (promote_sender bs d a m) (fold (promote_sender bs d) (a # as) m)" by simp
  with promote_sender_covers [OF Cons.prems] show ?case by (rule covers_trans)
qed simp

text \<open>C23: what a full revalidation leaves in the pool.  Every transaction that is left was there before and passes the code's own
  test against the new state: fee, nonce, blobs, and a balance of at least the cost as the code computes it, modulo $2^{128}$ (so a
  transaction whose true cost is larger may stay).  For every transaction that passes the test, and whose hash no failing one
  has, the pool still has a transaction of its sender with its nonce, which need not be the same one.  And the pool stays
  well-formed.\<close>

theorem revalidate_sweeps:
  assumes "search_ok bs" and "mempool_wf m" and "revalidate bs d None m = (Inr (), m')"
  shows "mempool_wf m' \<and>
    set (get_all_transactions m') \<subseteq> {t \<in> set (get_all_transactions m). still_valid m d t} \<and>
    (\<forall>t \<in> set (get_all_transactions m).
       (\<forall>u \<in> set (get_all_transactions m). tx_hash u = tx_hash t \<longrightarrow> still_valid m d u) \<longrightarrow>
       (\<exists>t' \<in> set (get_all_transactions m'). sender_of t' = sender_of t \<and> tx_nonce t' = tx_nonce t))"
proof -
  have r: "fst (revalidate bs d None m) \<noteq> Inl e" for e using assms(3) by simp
  obtain rem prom where p: "process_addresses d m (all_senders m) = Inr (rem, prom)"
    and m': "m' = fold (promote_sender bs d) prom (if rem = [] then m else remove_transactions rem m)"
    by (cases rule: revalidate_cases [where bs = bs and d = d and as = None and m = m]) (use assms(3) r in auto)
  let ?m = "if rem = [] then m else remove_transactions rem m"
  have rem: "set rem = tx_hash ` {t \<in> set (get_all_transactions m). \<not> still_valid m d t}"
    using process_addresses_spec [OF assms(2), where d = d and as = "all_senders m"]
    unfolding all_senders_complete [OF assms(2)] p by simp
  have w: "mempool_wf ?m" using assms(2) by (simp add: remove_transactions_wf)
  have c: "set (get_all_transactions ?m) = {t \<in> set (get_all_transactions m). tx_hash t \<notin> set rem}"
    by (simp add: remove_transactions_contents)
  have "set (get_all_transactions m') \<subseteq> {t \<in> set (get_all_transactions m). still_valid m d t}"
    using promote_senders_shrinks [of bs d prom ?m] rem unfolding m' c by blast
  moreover have "\<exists>t' \<in> set (get_all_transactions m'). sender_of t' = sender_of t \<and> tx_nonce t' = tx_nonce t"
    if "t \<in> set (get_all_transactions m)"
      and "\<forall>u \<in> set (get_all_transactions m). tx_hash u = tx_hash t \<longrightarrow> still_valid m d u" for t
  proof -
    have "t \<in> set (get_all_transactions ?m)" unfolding c rem using that by auto
    with promote_senders_cover [OF assms(1) w] show ?thesis unfolding m' covers_def by blast
  qed
  ultimately show ?thesis using promote_senders_wf [OF assms(1) w] unfolding m' by blast
qed

text \<open>A full revalidation panics exactly when it comes across a transaction that moves $2^{128}$ wei or more and whose
  fee covers the base fee (or the base fee itself does not fit 128 bits); the pool is then left as it was.  The
  listener's task ends with the panic, and no later block or reorganisation reaches the pool.\<close>

theorem large_value_stops_listener:
  assumes "mempool_wf m"
  shows "((\<exists>e. revalidate bs d None m = (Inl e, m)) \<longleftrightarrow>
      (\<exists>t \<in> set (get_all_transactions m). 2 ^ 128 \<le> unat (mp_base_fee m) \<or>
         unat (mp_base_fee m) \<le> unat (tx_max_fee_per_gas t) \<and> 2 ^ 128 \<le> unat (tx_value t))) \<and>
    (fst (process_event (pool_ops bs) ev m) = Inr () \<or>
     listener_run (pool_ops bs) (ev # evs) m = process_event (pool_ops bs) ev m)"
proof
  have "(\<exists>e. revalidate bs d None m = (Inl e, m)) \<longleftrightarrow> (\<exists>t \<in> set (get_all_transactions m). check_panics m t)"
    using process_addresses_spec [OF assms, where d = d and as = "all_senders m"]
    unfolding all_senders_complete [OF assms]
    by (cases rule: revalidate_cases [where bs = bs and d = d and as = None and m = m]) auto
  then show "(\<exists>e. revalidate bs d None m = (Inl e, m)) \<longleftrightarrow>
      (\<exists>t \<in> set (get_all_transactions m). 2 ^ 128 \<le> unat (mp_base_fee m) \<or>
         unat (mp_base_fee m) \<le> unat (tx_max_fee_per_gas t) \<and> 2 ^ 128 \<le> unat (tx_value t))"
    unfolding check_panics_def .
  show "fst (process_event (pool_ops bs) ev m) = Inr () \<or>
     listener_run (pool_ops bs) (ev # evs) m = process_event (pool_ops bs) ev m"
    by (cases "process_event (pool_ops bs) ev m"; cases "fst (process_event (pool_ops bs) ev m)")
      (simp_all add: listener_run_def sseq_def sbind_def)
qed

text \<open>Once the listener has come to a canonical block, none of the block's transactions is in the pool any more,
  whatever later events do and also when the handling of the block itself panics; the listener never adds a
  transaction and keeps the pool well-formed.\<close>

theorem included_transactions_removed:
  assumes "search_ok bs" and "mempool_wf m"
    and "listener_run (pool_ops bs) (pre @ (d, CanonicalBlock b) # post) m = (r, m')"
    and "fst (listener_run (pool_ops bs) pre m) = Inr ()"
  shows "mempool_wf m' \<and> set (get_all_transactions m') \<subseteq> set (get_all_transactions m) \<and>
    tx_hash ` set (get_all_transactions m') \<inter> tx_hash ` set (b_transactions (b_body b)) = {}"
proof -
  let ?evs = "pre @ (d, CanonicalBlock b) # post"
  have g: "op_get_all_transactions (pool_ops bs) = get_all_transactions" by (simp add: pool_ops_def)
  have "mempool_wf m'"
    using pool.listener_inv [of bs m ?evs] assms(1-3) by simp
  moreover have "set (get_all_transactions m') \<subseteq> set (get_all_transactions m)"
    using pool.listener_shrinks [of bs ?evs m] unfolding assms(3) g by simp
  moreover have "tx_hash t \<notin> tx_hash ` set (b_transactions (b_body b))" if "t \<in> set (get_all_transactions m')" for t
    by (rule pool.listener_removes [OF assms(3) refl assms(4)]) (use that in \<open>simp add: g\<close>)
  ultimately show ?thesis by blast
qed

subsection \<open>Concrete pools\<close>

definition funded_db :: db where
  "funded_db = empty_db\<lparr>t_accounts := tbl_insert 1 \<lparr>acc_nonce = 6, acc_balance = 10 ^ 9, acc_storage_root = 0, acc_code_hash = 0\<rparr> tbl_empty\<rparr>"

definition two_nonces :: mempool where
  "two_nonces = sample_pool [sample_tx Legacy 5 (Some 9), sample_tx Legacy 6 (Some 9)] []"

lemma two_nonces_wf: "mempool_wf two_nonces"
  unfolding two_nonces_def by (rule sample_pool_wf) (simp_all add: queue_wf_def)

lemma two_nonces_simps [simp]:
  "get_all_transactions two_nonces = [sample_tx Legacy 5 (Some 9), sample_tx Legacy 6 (Some 9)]"
  "mp_base_fee two_nonces = 7"
  by (simp_all add: two_nonces_def get_all_transactions_def) (simp add: sample_pool_def mempool_new_def)

lemma funded_state: "sender_state funded_db 1 = (6, 10 ^ 9)"
  by (simp add: sender_state_def latest_account_def read_tbl_def funded_db_def empty_db_def tbl_get_insert)

theorem revalidate_sweeps_witness:
  "\<exists>m'. revalidate linear_search funded_db None two_nonces = (Inr (), m') \<and> mempool_wf m' \<and>
     sample_tx Legacy 5 (Some 9) \<notin> set (get_all_transactions m') \<and> sample_tx Legacy 6 (Some 9) \<in> set (get_all_transactions m')"
proof -
  let ?m = "two_nonces" and ?t5 = "sample_tx Legacy 5 (Some 9)" and ?t6 = "sample_tx Legacy 6 (Some 9)"
  have "\<not> (\<exists>t \<in> set (get_all_transactions ?m). check_panics ?m t)"
    by (simp add: check_panics_def sample_tx_def)
  then obtain rp where "process_addresses funded_db ?m (all_senders ?m) = Inr rp"
    using process_addresses_spec [OF two_nonces_wf, where d = funded_db and as = "all_senders ?m"]
    unfolding all_senders_complete [OF two_nonces_wf]
    by (cases "process_addresses funded_db ?m (all_senders ?m)") simp_all
  then obtain m' where m': "revalidate linear_search funded_db None ?m = (Inr (), m')"
    by (cases rule: revalidate_cases [where bs = linear_search and d = funded_db and as = None and m = ?m]) simp_all
  have v: "\<not> still_valid ?m funded_db ?t5" "still_valid ?m funded_db ?t6"
    by (simp_all add: still_valid_def funded_state) (simp_all add: sample_tx_def is_eip4844_def)
  have h: "tx_hash ?t5 \<noteq> tx_hash ?t6" by (simp add: sample_tx_def)
  note s = revalidate_sweeps [OF linear_search_ok two_nonces_wf m']
  from s v(1) have "?t5 \<notin> set (get_all_transactions m')" by blast
  moreover from s v h have "\<exists>t' \<in> set (get_all_transactions m'). sender_of t' = 1 \<and> tx_nonce t' = 6" by auto
  with s have "?t6 \<in> set (get_all_transactions m')" by auto
  ultimately show ?thesis using m' s by blast
qed

definition large_tx :: tx where
  "large_tx = (sample_tx Legacy 5 (Some 9))\<lparr>tx_value := 2 ^ 128\<rparr>"

theorem large_value_stops_listener_witness:
  "\<exists>e. revalidate linear_search funded_db None (sample_pool [large_tx] []) = (Inl e, sample_pool [large_tx] [])"
proof -
  have w: "mempool_wf (sample_pool [large_tx] [])"
    by (rule sample_pool_wf) (simp_all add: queue_wf_def large_tx_def sender_of_def sample_tx_def)
  have "\<exists>t \<in> set (get_all_transactions (sample_pool [large_tx] [])). 2 ^ 128 \<le> unat (mp_base_fee (sample_pool [large_tx] [])) \<or>
      unat (mp_base_fee (sample_pool [large_tx] [])) \<le> unat (tx_max_fee_per_gas t) \<and> 2 ^ 128 \<le> unat (tx_value t)"
    by (simp add: get_all_transactions_def large_tx_def) (simp add: sample_pool_def mempool_new_def)
  then show ?thesis using large_value_stops_listener [OF w, of linear_search funded_db] by blast
qed

definition block_of_five :: block where
  "block_of_five = \<lparr>b_header = devnet_header 6 112 21000 900 0, b_body = \<lparr>b_transactions = [sample_tx Legacy 5 (Some 9)], b_ommers = [], b_withdrawals = None\<rparr>\<rparr>"

theorem included_transactions_removed_witness:
  "sample_tx Legacy 5 (Some 9) \<notin> set (get_all_transactions (snd (listener_run (pool_ops linear_search)
     [(funded_db, CanonicalBlock block_of_five)] two_nonces)))"
proof -
  obtain r m' where r: "listener_run (pool_ops linear_search) ([] @ (funded_db, CanonicalBlock block_of_five) # []) two_nonces = (r, m')"
    by fastforce
  have "fst (listener_run (pool_ops linear_search) [] two_nonces) = Inr ()" by (simp add: listener_run_def ret_def)
  from included_transactions_removed [OF linear_search_ok two_nonces_wf r this] show ?thesis
    using r by (auto simp: block_of_five_def)
qed

end
