(* ===== verification/EngineMapper.thy ===== *)
theory EngineMapper
  imports PayloadFacts MempoolProvider
begin

section \<open>Payloads of the Engine API\<close>

text \<open>
  \<^verbatim>\<open>wasix_eth_utils/src/engine_mapper.rs\<close> (\<open>EngineMapper\<close>) and
  \<^verbatim>\<open>wasix_eth_types/src/engine_types.rs\<close>: the payload structs of the four versions and their conversion from
  and to blocks.  The record \<open>tx_codec\<close> stands for the EIP-2718 codec of the \<open>alloy\<close> crate; a transaction of the
  model has no sidecar, so \<open>tc_encode\<close> is the consensus encoding.  Before Shanghai the node's own V2 struct has no
  withdrawals, while the one of the \<open>alloy\<close> crate inside V3 always has a list.
\<close>

record tx_codec =
  tc_encode :: "tx \<Rightarrow> bytes"
  tc_decode :: "bytes \<Rightarrow> tx option"

record execution_payload_v1 =
  e1_parent_hash :: b256
  e1_fee_recipient :: address
  e1_state_root :: b256
  e1_receipts_root :: b256
  e1_logs_bloom :: "2048 word"
  e1_prev_randao :: b256
  e1_block_number :: u64
  e1_gas_limit :: u64
  e1_gas_used :: u64
  e1_timestamp :: u64
  e1_extra_data :: bytes
  e1_base_fee_per_gas :: u256
  e1_block_hash :: b256
  e1_transactions :: "bytes list"

record execution_payload_v2 =
  e2_inner :: execution_payload_v1
  e2_withdrawals :: "withdrawal list option"

record execution_payload_v3 =
  e3_inner :: execution_payload_v1
  e3_withdrawals :: "withdrawal list"
  e3_blob_gas_used :: u64
  e3_excess_blob_gas :: u64

record execution_payload_v4 =
  e4_inner :: execution_payload_v3
  e4_block_access_list :: bytes

datatype payload_field_v2 = FieldV2 execution_payload_v1 "withdrawal list" | FieldV1 execution_payload_v1

record envelope_v2 =
  n2_execution_payload :: payload_field_v2
  n2_block_value :: u256

record envelope_v3 =
  n3_execution_payload :: execution_payload_v3
  n3_block_value :: u256
  n3_blobs_bundle :: blobs_bundle
  n3_should_override_builder :: bool

record envelope_v4 =
  n4_inner :: envelope_v3
  n4_execution_requests :: "bytes list"

record payload_body_v1 =
  pb_transactions :: "bytes list"
  pb_withdrawals :: "withdrawal list option"

subsection \<open>From blocks to payloads\<close>

definition to_execution_payload_v1 :: "crypto \<Rightarrow> tx_codec \<Rightarrow> block \<Rightarrow> chain_config \<Rightarrow> execution_payload_v1" where
  "to_execution_payload_v1 cr tc b cfg =
     (let hdr = b_header b; fork = get_active_fork cfg (h_number hdr) (h_timestamp hdr) in
      \<lparr>e1_parent_hash = h_parent_hash hdr, e1_fee_recipient = h_beneficiary hdr, e1_state_root = h_state_root hdr,
       e1_receipts_root = h_receipts_root hdr, e1_logs_bloom = h_logs_bloom hdr, e1_prev_randao = h_mix_hash hdr,
       e1_block_number = h_number hdr, e1_gas_limit = h_gas_limit hdr, e1_gas_used = h_gas_used hdr,
       e1_timestamp = h_timestamp hdr, e1_extra_data = h_extra_data hdr,
       e1_base_fee_per_gas = (if fork \<ge> London then ucast (unwrap_or (h_base_fee_per_gas hdr) 0) else 0),
       e1_block_hash = hash_slow cr hdr, e1_transactions = map (tc_encode tc) (b_transactions (b_body b))\<rparr>)"

definition to_execution_payload_v2 :: "crypto \<Rightarrow> tx_codec \<Rightarrow> block \<Rightarrow> chain_config \<Rightarrow> execution_payload_v2" where
  "to_execution_payload_v2 cr tc b cfg =
     \<lparr>e2_inner = to_execution_payload_v1 cr tc b cfg, e2_withdrawals = b_withdrawals (b_body b)\<rparr>"

definition to_execution_payload_envelope_v2 :: "execution_payload_v2 \<Rightarrow> u256 \<Rightarrow> hardfork \<Rightarrow> envelope_v2" where
  "to_execution_payload_envelope_v2 p block_value fork =
     \<lparr>n2_execution_payload = (if fork \<ge> Shanghai then FieldV2 (e2_inner p) (unwrap_or (e2_withdrawals p) [])
        else FieldV1 (e2_inner p)), n2_block_value = block_value\<rparr>"

definition to_execution_payload_v3 :: "crypto \<Rightarrow> tx_codec \<Rightarrow> block \<Rightarrow> chain_config \<Rightarrow> execution_payload_v3" where
  "to_execution_payload_v3 cr tc b cfg =
     (let p2 = to_execution_payload_v2 cr tc b cfg in
      \<lparr>e3_inner = e2_inner p2, e3_withdrawals = unwrap_or (e2_withdrawals p2) [],
       e3_blob_gas_used = unwrap_or (h_blob_gas_used (b_header b)) 0,
       e3_excess_blob_gas = unwrap_or (h_excess_blob_gas (b_header b)) 0\<rparr>)"

definition to_execution_payload_envelope_v3 :: "execution_payload_v3 \<Rightarrow> u256 \<Rightarrow> blobs_bundle \<Rightarrow> envelope_v3" where
  "to_execution_payload_envelope_v3 p block_value bundle =
     \<lparr>n3_execution_payload = p, n3_block_value = block_value, n3_blobs_bundle = bundle, n3_should_override_builder = False\<rparr>"

definition to_execution_payload_v4 :: "crypto \<Rightarrow> tx_codec \<Rightarrow> block \<Rightarrow> chain_config \<Rightarrow> execution_payload_v4" where
  "to_execution_payload_v4 cr tc b cfg =
     \<lparr>e4_inner = to_execution_payload_v3 cr tc b cfg, e4_block_access_list = []\<rparr>"

definition to_execution_payload_envelope_v4 ::
  "execution_payload_v4 \<Rightarrow> u256 \<Rightarrow> blobs_bundle \<Rightarrow> bytes list \<Rightarrow> envelope_v4" where
  "to_execution_payload_envelope_v4 p block_value bundle requests =
     \<lparr>n4_inner = \<lparr>n3_execution_payload = e4_inner p, n3_block_value = block_value, n3_blobs_bundle = bundle,
        n3_should_override_builder = False\<rparr>, n4_execution_requests = requests\<rparr>"

definition to_execution_payload_body_v1 :: "tx_codec \<Rightarrow> block \<Rightarrow> payload_body_v1" where
  "to_execution_payload_body_v1 tc b =
     \<lparr>pb_transactions = map (tc_encode tc) (b_transactions (b_body b)), pb_withdrawals = b_withdrawals (b_body b)\<rparr>"

subsection \<open>From payloads to blocks\<close>

text \<open>\<open>base_fee_per_gas.to::<u64>()\<close> panics for a fee of 64 bits or more.\<close>

definition payload_v1_to_block ::
  "crypto \<Rightarrow> execution_payload_v1 \<Rightarrow> tx list \<Rightarrow> withdrawal list option \<Rightarrow> chain_config \<Rightarrow> u64 option \<Rightarrow> u64 option \<Rightarrow>
   b256 option \<Rightarrow> rpc_error + block" where
  "payload_v1_to_block cr p txs withdrawals cfg blob_gas_used excess_blob_gas beacon_root =
     (let fork = get_active_fork cfg (e1_block_number p) (e1_timestamp p) in
      rbind (if fork \<ge> London
             then (if e1_base_fee_per_gas p < 2 ^ 64 then Inr (Some (ucast (e1_base_fee_per_gas p))) else Inl RpcPanic)
             else Inr None) (\<lambda>base_fee.
      Inr \<lparr>b_header =
             \<lparr>h_parent_hash = e1_parent_hash p, h_ommers_hash = EMPTY_OMMER_ROOT_HASH cr, h_beneficiary = e1_fee_recipient p,
              h_state_root = e1_state_root p, h_transactions_root = calculate_transaction_root cr txs,
              h_receipts_root = e1_receipts_root p, h_logs_bloom = e1_logs_bloom p,
              h_difficulty = (if fork \<ge> Paris then 0 else 0x30000), h_number = e1_block_number p,
              h_gas_limit = e1_gas_limit p, h_gas_used = e1_gas_used p, h_timestamp = e1_timestamp p,
              h_extra_data = e1_extra_data p, h_mix_hash = e1_prev_randao p,
              h_nonce = (if fork \<ge> Paris then 0 else 0x42), h_base_fee_per_gas = base_fee,
              h_withdrawals_root = (if fork \<ge> Shanghai
                then or_else (map_option (calculate_withdrawals_root cr) withdrawals) (Some (calculate_withdrawals_root cr []))
                else None),
              h_blob_gas_used = (if fork \<ge> Cancun then Some (unwrap_or blob_gas_used 0) else None),
              h_excess_blob_gas = (if fork \<ge> Cancun then Some (unwrap_or excess_blob_gas 0) else None),
              h_parent_beacon_block_root = (if fork \<ge> Cancun then Some (unwrap_or beacon_root 0) else None),
              h_requests_hash = None\<rparr>,
           b_body = \<lparr>b_transactions = txs, b_ommers = [],
              b_withdrawals = (if fork \<ge> Shanghai then Some (unwrap_or withdrawals []) else None)\<rparr>\<rparr>))"

definition payload_v3_to_block ::
  "crypto \<Rightarrow> execution_payload_v3 \<Rightarrow> tx list \<Rightarrow> b256 \<Rightarrow> chain_config \<Rightarrow> rpc_error + block" where
  "payload_v3_to_block cr p txs beacon_root cfg =
     payload_v1_to_block cr (e3_inner p) txs (Some (e3_withdrawals p)) cfg (Some (e3_blob_gas_used p))
       (Some (e3_excess_blob_gas p)) (Some beacon_root)"

text \<open>The execution requests are not used.\<close>

definition payload_v4_to_block ::
  "crypto \<Rightarrow> execution_payload_v4 \<Rightarrow> tx list \<Rightarrow> b256 \<Rightarrow> bytes list \<Rightarrow> chain_config \<Rightarrow> rpc_error + block" where
  "payload_v4_to_block cr p txs beacon_root execution_requests cfg =
     payload_v3_to_block cr (e4_inner p) txs beacon_root cfg"

text \<open>\<^verbatim>\<open>Engine::decode_transactions\<close>.\<close>

fun decode_transactions :: "tx_codec \<Rightarrow> bytes list \<Rightarrow> rpc_error + tx list" where
  "decode_transactions tc [] = Inr []"
| "decode_transactions tc (bs # rest) =
     rbind (ok_or (tc_decode tc bs) (InvalidParams ''Failed to decode transaction'')) (\<lambda>t.
     rbind (decode_transactions tc rest) (\<lambda>ts. Inr (t # ts)))"

subsection \<open>The conversions are inverse\<close>

text \<open>The fields of a header that a payload does not carry have their values of the fork.\<close>

definition payload_shaped :: "crypto \<Rightarrow> chain_config \<Rightarrow> block \<Rightarrow> bool" where
  "payload_shaped cr cfg b \<longleftrightarrow>
     (let hdr = b_header b; fork = get_active_fork cfg (h_number hdr) (h_timestamp hdr); ws = b_withdrawals (b_body b) in
      fork \<ge> Paris \<and> h_difficulty hdr = 0 \<and> h_nonce hdr = 0 \<and> h_ommers_hash hdr = EMPTY_OMMER_ROOT_HASH cr \<and>
      b_ommers (b_body b) = [] \<and> h_transactions_root hdr = calculate_transaction_root cr (b_transactions (b_body b)) \<and>
      h_base_fee_per_gas hdr \<noteq> None \<and> h_requests_hash hdr = None \<and>
      (ws \<noteq> None) = (fork \<ge> Shanghai) \<and> h_withdrawals_root hdr = map_option (calculate_withdrawals_root cr) ws \<and>
      (h_blob_gas_used hdr \<noteq> None) = (fork \<ge> Cancun) \<and> (h_excess_blob_gas hdr \<noteq> None) = (fork \<ge> Cancun) \<and>
      (h_parent_beacon_block_root hdr \<noteq> None) = (fork \<ge> Cancun))"

lemma fork_chain:
  "f \<ge> Paris \<Longrightarrow> f \<ge> London" "f \<ge> Cancun \<Longrightarrow> f \<ge> Shanghai" "f \<ge> Shanghai \<Longrightarrow> f \<ge> Paris"
  by (cases f; simp add: less_eq_hardfork_def)+

lemma decode_encoded:
  "(\<And>t. t \<in> set txs \<Longrightarrow> tc_decode tc (tc_encode tc t) = Some t) \<Longrightarrow> decode_transactions tc (map (tc_encode tc) txs) = Inr txs"
  by (induction txs) simp_all

lemma u64_through_u256:
  fixes w :: u64
  shows "ucast (ucast w :: u256) = w" "(ucast w :: u256) < 0x10000000000000000"
proof -
  have f: "unat (ucast w :: u256) = unat w"
    by (rule unat_ucast_fits) (use unsigned_less [of w, where ?'a = nat] in simp)
  have "unat (ucast (ucast w :: u256) :: u64) = unat w"
    using f unsigned_less [of w, where ?'a = nat] by (subst unat_ucast_fits) simp_all
  then show "ucast (ucast w :: u256) = w" by (simp only: word_unat_eq_iff)
  show "(ucast w :: u256) < 0x10000000000000000"
    using f unsigned_less [of w, where ?'a = nat] by (simp add: word_less_nat_alt)
qed

text \<open>C21: payloads carry whole blocks.  A block after the merge that has the fields of its fork, turned into a payload
  and back, is the same block, with the hash the payload names: through V1 and V2 before Cancun (the withdrawals beside the
  payload), and through V3 from Cancun on (the beacon root beside it), when its transactions survive their encoding.\<close>

theorem payload_roundtrip:
  assumes "payload_shaped cr cfg b"
    and "\<And>t. t \<in> set (b_transactions (b_body b)) \<Longrightarrow> tc_decode tc (tc_encode tc t) = Some t"
  shows "decode_transactions tc (e1_transactions (to_execution_payload_v1 cr tc b cfg)) = Inr (b_transactions (b_body b)) \<and>
    e1_block_hash (to_execution_payload_v1 cr tc b cfg) = hash_slow cr (b_header b) \<and>
    (if get_active_fork cfg (h_number (b_header b)) (h_timestamp (b_header b)) \<ge> Cancun
     then \<exists>root. payload_v3_to_block cr (to_execution_payload_v3 cr tc b cfg) (b_transactions (b_body b)) root cfg = Inr b \<and>
            h_parent_beacon_block_root (b_header b) = Some root
     else payload_v1_to_block cr (to_execution_payload_v1 cr tc b cfg) (b_transactions (b_body b))
            (e2_withdrawals (to_execution_payload_v2 cr tc b cfg)) cfg None None None = Inr b)"
proof (intro conjI)
  let ?hdr = "b_header b" and ?p = "to_execution_payload_v1 cr tc b cfg"
  let ?f = "get_active_fork cfg (h_number ?hdr) (h_timestamp ?hdr)"
  show "decode_transactions tc (e1_transactions ?p) = Inr (b_transactions (b_body b))"
    using decode_encoded assms(2) by (simp add: to_execution_payload_v1_def Let_def)
  show "e1_block_hash ?p = hash_slow cr ?hdr" by (simp add: to_execution_payload_v1_def Let_def)
  have forks: "Paris \<le> ?f" "London \<le> ?f" using assms(1) fork_chain by (auto simp: payload_shaped_def Let_def)
  show "if Cancun \<le> ?f
     then \<exists>root. payload_v3_to_block cr (to_execution_payload_v3 cr tc b cfg) (b_transactions (b_body b)) root cfg = Inr b \<and>
            h_parent_beacon_block_root ?hdr = Some root
     else payload_v1_to_block cr ?p (b_transactions (b_body b)) (e2_withdrawals (to_execution_payload_v2 cr tc b cfg)) cfg
            None None None = Inr b"
  proof (cases "Cancun \<le> ?f")
    case True
    then have "Shanghai \<le> ?f" by (rule fork_chain)
    with True assms(1) forks show ?thesis
      by (auto simp: payload_shaped_def Let_def payload_v3_to_block_def payload_v1_to_block_def to_execution_payload_v3_def
          to_execution_payload_v2_def to_execution_payload_v1_def u64_through_u256)
  next
    case False
    with assms(1) forks show ?thesis
      by (cases "b_withdrawals (b_body b)")
        (auto simp: payload_shaped_def Let_def payload_v1_to_block_def to_execution_payload_v2_def
          to_execution_payload_v1_def u64_through_u256)
  qed
qed

definition sample_codec :: tx_codec where
  "sample_codec = \<lparr>tc_encode = (\<lambda>t. [ucast (tx_nonce t)]), tc_decode = (\<lambda>bs. if bs = [4] then Some (devnet_tx Eip1559 4 []) else None)\<rparr>"

definition cancun_block :: block where
  "cancun_block = \<lparr>b_header = (devnet_header 6 112 21000 900 0)\<lparr>h_transactions_root := 1\<rparr>,
     b_body = \<lparr>b_transactions = [devnet_tx Eip1559 4 []], b_ommers = [], b_withdrawals = Some []\<rparr>\<rparr>"

theorem payload_roundtrip_witness:
  "\<exists>root. payload_v3_to_block devnet_crypto (to_execution_payload_v3 devnet_crypto sample_codec cancun_block devnet_config)
     [devnet_tx Eip1559 4 []] root devnet_config = Inr cancun_block"
proof -
  have f: "get_active_fork devnet_config n ts = Cancun" for n ts by (simp add: get_active_fork_def devnet_fork)
  have "payload_shaped devnet_crypto devnet_config cancun_block"
    by (simp add: payload_shaped_def f cancun_block_def devnet_header_def devnet_crypto_def less_eq_hardfork_def)
  moreover have "tc_decode sample_codec (tc_encode sample_codec t) = Some t" if "t \<in> set (b_transactions (b_body cancun_block))" for t
    using that by (simp add: cancun_block_def sample_codec_def devnet_tx_def)
  moreover have "b_transactions (b_body cancun_block) = [devnet_tx Eip1559 4 []]" by (simp add: cancun_block_def)
  ultimately show ?thesis
    using payload_roundtrip [of devnet_crypto devnet_config cancun_block sample_codec] by (auto simp: f)
qed

end
