(* ===== verification/PayloadBuilder.thy ===== *)
theory PayloadBuilder
  imports EngineMapper
begin

section \<open>Building payloads\<close>

text \<open>
  \<^verbatim>\<open>wasix_eth_core/src/engine/payload_builder.rs\<close> (\<open>PayloadBuilder\<close>): an empty payload first, then rebuilds from the
  pool while the slot lasts.  \<open>engine\<close> is the state the engine's parts share: the processor with the chain, the pool,
  the events sent to the pool's listener, and the builder's cancellation tokens (a token is a number; \<open>eg_cancelled\<close> holds
  those whose flag is set).  The record \<open>builder_lib\<close> holds the hash that makes a payload id
  (\<open>DefaultHasher\<close>) and \<open>effective_tip_per_gas\<close>.  Building holds the lock \<open>build_lock\<close>, so the
  second look for an existing payload sees what the first saw.
\<close>

record engine =
  eg_proc :: processor
  eg_pool :: mempool
  eg_listener :: "mempool_event list"
  eg_tokens :: "payload_id \<rightharpoonup> nat"
  eg_cancelled :: "nat set"
  eg_next_token :: nat
  eg_builds :: "(payload_id \<times> nat) list"

record builder_lib =
  bl_payload_id :: "b256 \<Rightarrow> payload_attributes \<Rightarrow> payload_id"
  bl_tip :: "tx \<Rightarrow> u64 \<Rightarrow> u128 option"

type_synonym 'a eng_act = "(engine, rpc_error, 'a) act"

abbreviation eg_chain :: "engine \<Rightarrow> chain" where
  "eg_chain g \<equiv> pp_chain (eg_proc g)"

abbreviation eg_db :: "engine \<Rightarrow> db" where
  "eg_db g \<equiv> ch_db (eg_chain g)"

definition on_proc :: "(processor, 'e, 'a) act \<Rightarrow> (engine, 'e, 'a) act" where
  "on_proc m g = (case m (eg_proc g) of (r, p) \<Rightarrow> (r, g\<lparr>eg_proc := p\<rparr>))"

definition map_err :: "('e \<Rightarrow> 'f) \<Rightarrow> ('s, 'e, 'a) act \<Rightarrow> ('s, 'f, 'a) act" where
  "map_err f m s = (case m s of (r, s') \<Rightarrow> (map_sum f id r, s'))"

text \<open>\<open>let _ = \<dots>\<close>: an error is dropped, a panic is not.\<close>

definition unless_panic :: "unit eng_act \<Rightarrow> unit eng_act" where
  "unless_panic m g = (case m g of (r, g') \<Rightarrow> (if r = Inl RpcPanic then Inl RpcPanic else Inr (), g'))"

subsection \<open>The value of a block\<close>

definition builder_gas_price :: "u64 \<Rightarrow> tx \<Rightarrow> u128" where
  "builder_gas_price base_fee t =
     (if tx_kind t = Legacy \<or> tx_kind t = Eip2930 then unwrap_or (tx_gas_price t) 0
      else ucast base_fee + min (unwrap_or (tx_max_priority_fee_per_gas t) 0)
             (saturating_sub (tx_max_fee_per_gas t) (ucast base_fee)))"

fun block_value_loop :: "u64 \<Rightarrow> u64 \<Rightarrow> (tx \<times> receipt) list \<Rightarrow> u256 \<Rightarrow> u256" where
  "block_value_loop base_fee prev_cumulative_gas [] val = val"
| "block_value_loop base_fee prev_cumulative_gas ((t, r) # rest) val =
     (let cumulative_gas = r_cumulative_gas_used r;
          gas_used = saturating_sub cumulative_gas prev_cumulative_gas;
          priority_fee_per_gas = saturating_sub (builder_gas_price base_fee t) (ucast base_fee)
      in block_value_loop base_fee cumulative_gas rest (val + ucast gas_used * ucast priority_fee_per_gas))"

definition calculate_block_value :: "block \<Rightarrow> receipt list \<Rightarrow> u256" where
  "calculate_block_value b receipts =
     block_value_loop (unwrap_or (h_base_fee_per_gas (b_header b)) 0) 0 (zip (b_transactions (b_body b)) receipts) 0"

subsection \<open>Building\<close>

definition block_or_payload :: "'o engine_env \<Rightarrow> b256 \<Rightarrow> db \<Rightarrow> rpc_error + block option" where
  "block_or_payload E hash d =
     rbind (map_sum (\<lambda>_. Internal ''storage'') id (block_by_hash (en_hash E) hash d)) (\<lambda>b.
       Inr (or_else b (map_option fst (get_payload_by_block_hash (en_hash E) hash d))))"

text \<open>Fees are computed in the caller's task: a division by zero is a panic.\<close>

definition next_base_fee :: "header \<Rightarrow> rpc_error + u64 option" where
  "next_base_fee parent = map_sum (\<lambda>_. RpcPanic) id (calculate_next_base_fee parent)"

text \<open>The execution and the write run in blocking tasks: their panics become errors.\<close>

definition exec_failure :: "'o engine_env \<Rightarrow> exec_error \<Rightarrow> rpc_error" where
  "exec_failure E e = Internal (if exec_panics e then ''Payload building task panicked'' else en_exec_text E e)"

definition build_block ::
  "'o engine_env \<Rightarrow> tx list \<Rightarrow> header \<Rightarrow> payload_attributes \<Rightarrow> u64 option \<Rightarrow> executed eng_act" where
  "build_block E txs parent attr base_fee =
     map_err (exec_failure E) (on_proc (run_store (execute_block_for_payload (en_exec E) txs parent attr base_fee)))"

definition store_payload :: "payload_id \<Rightarrow> payload \<Rightarrow> unit eng_act" where
  "store_payload pid p = map_err (\<lambda>_. Internal ''storage'') (on_proc (run_store (add_payload pid p)))"

definition empty_bundle :: blobs_bundle where
  "empty_bundle = \<lparr>bb_commitments = [], bb_proofs = [], bb_blobs = []\<rparr>"

definition build_empty_payload :: "'o engine_env \<Rightarrow> b256 \<Rightarrow> payload_attributes \<Rightarrow> payload_id \<Rightarrow> unit eng_act" where
  "build_empty_payload E head_hash attr pid =
     sbind (reads (\<lambda>g. block_or_payload E head_hash (eg_db g))) (\<lambda>found.
     sbind (reads (\<lambda>_. ok_or found (InvalidForkchoiceState ''Head block not found for empty payload building''))) (\<lambda>parent.
     sbind (reads (\<lambda>_. next_base_fee (b_header parent))) (\<lambda>base_fee.
     sbind (build_block E [] (b_header parent) attr base_fee) (\<lambda>(final, receipts, metas).
       store_payload pid (final, receipts, metas, empty_bundle)))))"

definition attributes_of :: "block \<Rightarrow> payload_attributes" where
  "attributes_of b = \<lparr>pa_timestamp = h_timestamp (b_header b), pa_prev_randao = h_mix_hash (b_header b),
     pa_suggested_fee_recipient = h_beneficiary (b_header b), pa_withdrawals = b_withdrawals (b_body b),
     pa_parent_beacon_block_root = h_parent_beacon_block_root (b_header b)\<rparr>"

fun collect_blobs :: "mempool \<Rightarrow> b256 list \<Rightarrow> blobs_bundle \<Rightarrow> rpc_error + blobs_bundle" where
  "collect_blobs m [] bundle = Inr bundle"
| "collect_blobs m (h # hs) bundle =
     (case get_blob m h of
        Some (blob, commitment, proof) \<Rightarrow>
          collect_blobs m hs (bundle\<lparr>bb_blobs := bb_blobs bundle @ [blob],
            bb_commitments := bb_commitments bundle @ [commitment], bb_proofs := bb_proofs bundle @ [proof]\<rparr>)
      | None \<Rightarrow> Inl (Internal ''Missing blob for transaction included in rebuilt block''))"

definition blob_hashes_in :: "tx list \<Rightarrow> b256 list" where
  "blob_hashes_in txs = concat (map blob_hashes_of (filter is_eip4844 txs))"

definition should_replace :: "block \<times> receipt list \<Rightarrow> block \<times> receipt list \<Rightarrow> bool" where
  "should_replace = (\<lambda>(old, old_receipts) (new, new_receipts).
     (let new_value = calculate_block_value new new_receipts; old_value = calculate_block_value old old_receipts in
      if new_value > old_value then True
      else if new_value = old_value
      then length (b_transactions (b_body new)) \<ge> length (b_transactions (b_body old)) else False))"

definition rebuild_with ::
  "'o engine_env \<Rightarrow> payload_id \<Rightarrow> block \<times> receipt list \<Rightarrow> header \<Rightarrow> u64 option \<Rightarrow> tx list \<Rightarrow> unit eng_act" where
  "rebuild_with E pid old parent base_fee txs =
     sbind (build_block E txs parent (attributes_of (fst old)) base_fee) (\<lambda>(final, receipts, metas).
       if \<not> should_replace old (final, receipts) \<and> b_transactions (b_body (fst old)) \<noteq> [] then ret ()
       else sbind (reads (\<lambda>g. collect_blobs (eg_pool g) (blob_hashes_in (b_transactions (b_body final))) empty_bundle))
         (\<lambda>bundle. store_payload pid (final, receipts, metas, bundle)))"

definition max_blobs_at :: "'o engine_env \<Rightarrow> db \<Rightarrow> header \<Rightarrow> u64 \<Rightarrow> u32 option" where
  "max_blobs_at E d parent timestamp =
     (let cfg = config_of E d; active_fork = get_active_fork cfg (h_number parent + 1) timestamp
      in map_option (\<lambda>p. ucast (bp_max_blob_count p)) (blob_params_of active_fork cfg))"

definition maybe_rebuild_payload :: "'o engine_env \<Rightarrow> builder_lib \<Rightarrow> payload_id \<Rightarrow> unit eng_act" where
  "maybe_rebuild_payload E B pid g =
     (case get_payload pid (eg_db g) of
        None \<Rightarrow> (Inr (), g)
      | Some (b, receipts, _, _) \<Rightarrow>
          sbind (reads (\<lambda>g. block_or_payload E (h_parent_hash (b_header b)) (eg_db g))) (\<lambda>found.
            case found of None \<Rightarrow> ret ()
            | Some parent \<Rightarrow>
                let old_txs = b_transactions (b_body b) in
                sbind (reads (\<lambda>_. next_base_fee (b_header parent))) (\<lambda>base_fee.
                sbind (reads (\<lambda>g. map_sum (\<lambda>_. RpcPanic) id (peek_best_transactions (bl_tip B) (h_gas_limit (b_header parent))
                    (ucast (unwrap_or base_fee 0)) (max_blobs_at E (eg_db g) (b_header parent) (h_timestamp (b_header b)))
                    (eg_pool g)))) (\<lambda>txs.
                  if map tx_hash txs = map tx_hash old_txs then ret ()
                  else if txs = [] \<and> old_txs \<noteq> [] then ret ()
                  else rebuild_with E pid (b, receipts) (b_header parent) base_fee txs))) g)"

definition issue_token :: "payload_id \<Rightarrow> engine \<Rightarrow> nat \<times> engine" where
  "issue_token pid g =
     (let token = eg_next_token g in
      (token, g\<lparr>eg_next_token := Suc token, eg_tokens := (eg_tokens g)(pid \<mapsto> token),
                eg_cancelled := (case eg_tokens g pid of None \<Rightarrow> eg_cancelled g | Some old \<Rightarrow> insert old (eg_cancelled g)),
                eg_builds := eg_builds g @ [(pid, token)]\<rparr>))"

definition build_new_payload ::
  "'o engine_env \<Rightarrow> builder_lib \<Rightarrow> b256 \<Rightarrow> payload_attributes \<Rightarrow> payload_status \<Rightarrow> payload_id option eng_act" where
  "build_new_payload E B head_hash attr status g =
     (if ps_status status = Syncing then (Inr None, g)
      else let pid = bl_payload_id B head_hash attr in
        if get_payload pid (eg_db g) \<noteq> None then (Inr (Some pid), g)
        else sbind (reads (\<lambda>g. block_or_payload E head_hash (eg_db g))) (\<lambda>found.
             sbind (reads (\<lambda>_. ok_or found (InvalidForkchoiceState ''Head block not found for payload building''))) (\<lambda>parent.
             sseq (reads (\<lambda>_. ensure (pa_timestamp attr > h_timestamp (b_header parent))
                                (InvalidPayloadAttributes ''Invalid timestamp'')))
            (sseq (build_empty_payload E head_hash attr pid)
            (sseq (unless_panic (maybe_rebuild_payload E B pid))
                  (\<lambda>g. (Inr (Some pid), snd (issue_token pid g))))))) g)"

text \<open>The task of one payload: \<open>rounds\<close> is the number of passes before the slot ends.\<close>

definition finish_build :: "payload_id \<Rightarrow> nat \<Rightarrow> engine \<Rightarrow> engine" where
  "finish_build pid token g =
     (case eg_tokens g pid of None \<Rightarrow> g
      | Some t \<Rightarrow> if (t \<in> eg_cancelled g) = (token \<in> eg_cancelled g) then g\<lparr>eg_tokens := (eg_tokens g)(pid := None)\<rparr> else g)"

fun continuous_build :: "'o engine_env \<Rightarrow> builder_lib \<Rightarrow> payload_id \<Rightarrow> nat \<Rightarrow> nat \<Rightarrow> engine \<Rightarrow> engine" where
  "continuous_build E B pid token 0 g = finish_build pid token g"
| "continuous_build E B pid token (Suc rounds) g =
     (if token \<in> eg_cancelled g then finish_build pid token g
      else case maybe_rebuild_payload E B pid g of (r, g') \<Rightarrow>
        if r = Inl RpcPanic then g' else continuous_build E B pid token rounds g')"

text \<open>The error value is built with \<open>B256::from_slice\<close> of the eight bytes of the id, which panics: an unknown id never
  gets as far as an answer.\<close>

definition builder_get_payload :: "payload_id \<Rightarrow> db \<Rightarrow> rpc_error + payload" where
  "builder_get_payload pid d = ok_or (get_payload pid d) RpcPanic"

subsection \<open>What a rebuild keeps\<close>

lemma payload_execution_pure: "snd (execute_block_for_payload X txs parent attr fee s) = s"
  by (simp add: execute_block_for_payload_def execute_block_with_state_root_and_building_def clear_tracking_inherent_def
      split: sum.split prod.split)

lemma build_block_pure: "snd (build_block E txs parent attr fee g) = g"
proof -
  obtain r where "execute_block_for_payload (en_exec E) txs parent attr fee (ch_store (eg_chain g)) = (r, ch_store (eg_chain g))"
    using payload_execution_pure by (metis prod.collapse)
  then show ?thesis by (simp add: build_block_def map_err_def on_proc_def run_store_def)
qed

lemma filled_header_keeps:
  "h_timestamp (fill_header X f b rs cum root) = h_timestamp (b_header b)"
  "h_beneficiary (fill_header X f b rs cum root) = h_beneficiary (b_header b)"
  "h_parent_hash (fill_header X f b rs cum root) = h_parent_hash (b_header b)"
  "h_number (fill_header X f b rs cum root) = h_number (b_header b)"
  by (simp_all add: fill_header_def Let_def)

lemma template_keeps:
  "h_timestamp (b_header (payload_template X cfg txs parent attr fee)) = pa_timestamp attr"
  "h_beneficiary (b_header (payload_template X cfg txs parent attr fee)) = pa_suggested_fee_recipient attr"
  "h_parent_hash (b_header (payload_template X cfg txs parent attr fee)) = hash_slow (x_crypto X) parent"
  "h_number (b_header (payload_template X cfg txs parent attr fee)) = h_number parent + 1"
  by (simp_all add: payload_template_def Let_def)

lemma built_block_attributes:
  assumes "build_block E txs parent attr fee g = (Inr (b, rs, ms), g')"
  shows "h_timestamp (b_header b) = pa_timestamp attr \<and> h_beneficiary (b_header b) = pa_suggested_fee_recipient attr \<and>
    h_parent_hash (b_header b) = en_hash E parent \<and> h_number (b_header b) = h_number parent + 1"
proof -
  let ?X = "en_exec E"
  obtain cfg bt where "execute_block_with_batch ?X (payload_template ?X cfg txs parent attr fee) (Some (h_state_root parent)) True
      (new_batch (eg_db g)) = (Inr (b, rs, ms), bt)"
    using assms
    by (auto simp: build_block_def map_err_def on_proc_def run_store_def execute_block_for_payload_def
        execute_block_with_state_root_and_building_def clear_tracking_inherent_def Let_def split: prod.splits sum.splits)
  then show ?thesis
  proof (rule execute_block_parts)
    fix root config cx bt1 bt2 acc cum calculated
    assume "finalize_block_header_with_requests ?X ((payload_template ?X cfg txs parent attr fee)
        \<lparr>b_body := (b_body (payload_template ?X cfg txs parent attr fee))\<lparr>b_transactions := ra_txs acc\<rparr>\<rparr>) rs cum calculated (cx_fork cx) True = Inr b"
    then show ?thesis
      by (auto simp: finalize_block_header_with_requests_def is_building_def rbind_Inr_iff filled_header_keeps template_keeps)
  qed
qed

text \<open>What a payload has of the attributes it was requested with, in its fork.\<close>

definition built_from :: "hardfork \<Rightarrow> payload_attributes \<Rightarrow> block \<Rightarrow> bool" where
  "built_from F attr b \<longleftrightarrow> h_timestamp (b_header b) = pa_timestamp attr \<and> h_beneficiary (b_header b) = pa_suggested_fee_recipient attr \<and>
     (F \<ge> Paris \<longrightarrow> h_mix_hash (b_header b) = pa_prev_randao attr) \<and>
     (F \<ge> Shanghai \<longrightarrow> b_withdrawals (b_body b) = Some (unwrap_or (pa_withdrawals attr) [])) \<and>
     (F \<ge> Cancun \<and> pa_parent_beacon_block_root attr \<noteq> None \<longrightarrow>
        h_parent_beacon_block_root (b_header b) = pa_parent_beacon_block_root attr)"

lemma built_block_from:
  assumes "build_block E txs parent attr fee g = (Inr (b, rs, ms), g')"
  shows "built_from (get_active_fork (config_of E (eg_db g)) (h_number parent + 1) (pa_timestamp attr)) attr b"
proof -
  let ?X = "en_exec E" and ?cfg = "config_of E (eg_db g)"
  let ?b = "payload_template ?X ?cfg txs parent attr fee"
  obtain bt where "execute_block_with_batch ?X ?b (Some (h_state_root parent)) True (new_batch (eg_db g)) = (Inr (b, rs, ms), bt)"
    using assms
    by (auto simp: build_block_def map_err_def on_proc_def run_store_def execute_block_for_payload_def config_or_default_def
        execute_block_with_state_root_and_building_def clear_tracking_inherent_def config_of_def ok_flat_def rbind_Inr_iff Let_def
        split: prod.splits sum.splits)
  then show ?thesis
  proof (rule execute_block_parts)
    fix root config cx bt1 bt2 acc cum calculated
    assume "finalize_block_header_with_requests ?X (?b\<lparr>b_body := (b_body ?b)\<lparr>b_transactions := ra_txs acc\<rparr>\<rparr>) rs cum calculated (cx_fork cx) True = Inr b"
    then have "b = ?b\<lparr>b_body := (b_body ?b)\<lparr>b_transactions := ra_txs acc\<rparr>,
        b_header := fill_header ?X (cx_fork cx) (?b\<lparr>b_body := (b_body ?b)\<lparr>b_transactions := ra_txs acc\<rparr>\<rparr>) rs cum calculated\<rparr>"
      by (simp add: finalize_block_header_with_requests_def is_building_def)
    then show ?thesis
      by (auto simp: built_from_def fill_header_def payload_template_def Let_def)
  qed
qed

lemma store_payload_cases:
  obtains (stored) g' where "store_payload pid pl g = (Inr (), g')" "get_payload pid (eg_db g') = Some pl"
      "\<And>q. q \<noteq> pid \<Longrightarrow> get_payload q (eg_db g') = get_payload q (eg_db g)" "eg_pool g' = eg_pool g" "eg_tokens g' = eg_tokens g"
      "\<And>h. stored_header (eg_db g') h = stored_header (eg_db g) h" "get_state (eg_chain g') = get_state (eg_chain g)"
  | (failed) e where "store_payload pid pl g = (Inl (Internal e), g)"
proof (cases "add_payload pid pl (ch_store (eg_chain g))")
  case (Pair r s)
  show ?thesis
  proof (cases r)
    case (Inl e)
    with Pair have "s = ch_store (eg_chain g)" unfolding add_payload_def by (blast dest: with_write_Inl)
    with Pair Inl show ?thesis by (intro failed) (simp add: store_payload_def map_err_def on_proc_def run_store_def)
  next
    case (Inr u)
    with Pair obtain d where d: "wtx_upd TPayloads t_payloads_update (tbl_insert pid pl) (eg_db g) = (Inr (), d)"
      and s: "s = (ch_store (eg_chain g))\<lparr>s_db := d\<rparr>"
      unfolding add_payload_def by (auto simp: with_write_Inr)
    let ?g = "g\<lparr>eg_proc := (eg_proc g)\<lparr>pp_chain := (eg_chain g)\<lparr>ch_store := s\<rparr>\<rparr>\<rparr>"
    have "store_payload pid pl g = (Inr (), ?g)"
      using Pair Inr by (simp add: store_payload_def map_err_def on_proc_def run_store_def)
    then show ?thesis
    proof (rule stored)
      have u: "d = t_payloads_update (tbl_insert pid pl) (eg_db g)" "db_opens (eg_db g) TPayloads"
        using d by auto
      show "get_payload pid (eg_db ?g) = Some pl"
        using u by (simp add: s get_payload_def tbl_get_insert)
      show "get_payload q (eg_db ?g) = get_payload q (eg_db g)" if "q \<noteq> pid" for q
        using u that by (simp add: s get_payload_def tbl_get_insert)
    qed (use d in \<open>simp_all add: s stored_header_def header_def read_tbl_def get_state_def\<close>)
  qed
qed

text \<open>The steps of a rebuild: nothing happens, or one payload is replaced.\<close>

lemma build_block_Inr:
  "build_block E txs parent attr fee g = (Inr x, g') \<Longrightarrow> g' = g"
  using build_block_pure [of E txs parent attr fee g] by simp

lemma rebuild_with_cases:
  obtains (kept) r where "rebuild_with E pid old parent fee txs g = (r, g)"
  | (replaced) final receipts metas bu g' where "rebuild_with E pid old parent fee txs g = (Inr (), g')"
      "store_payload pid (final, receipts, metas, bu) g = (Inr (), g')"
      "build_block E txs parent (attributes_of (fst old)) fee g = (Inr (final, receipts, metas), g)"
      "collect_blobs (eg_pool g) (blob_hashes_in (b_transactions (b_body final))) empty_bundle = Inr bu"
      "should_replace old (final, receipts) \<or> b_transactions (b_body (fst old)) = []"
proof (cases "build_block E txs parent (attributes_of (fst old)) fee g")
  case (Pair r g1)
  have g1: "g1 = g" using build_block_pure [of E txs parent "attributes_of (fst old)" fee g] Pair by simp
  show ?thesis
  proof (cases r)
    case (Inl e)
    with Pair g1 kept show ?thesis by (simp add: rebuild_with_def sbind_def)
  next
    case (Inr x)
    obtain final receipts metas where x: "x = (final, receipts, metas)" by (metis prod.collapse)
    note b = Pair [unfolded g1 Inr x]
    let ?blobs = "collect_blobs (eg_pool g) (blob_hashes_in (b_transactions (b_body final))) empty_bundle"
    show ?thesis
    proof (cases "\<not> should_replace old (final, receipts) \<and> b_transactions (b_body (fst old)) \<noteq> []")
      case True
      with b kept show ?thesis by (simp add: rebuild_with_def sbind_def ret_def)
    next
      case False
      show ?thesis
      proof (cases ?blobs)
        case (Inl e)
        with b False kept show ?thesis by (auto simp: rebuild_with_def sbind_def reads_def)
      next
        case (Inr bu)
        with b False have eq: "rebuild_with E pid old parent fee txs g = store_payload pid (final, receipts, metas, bu) g"
          by (auto simp: rebuild_with_def sbind_def reads_def)
        show ?thesis
        proof (cases rule: store_payload_cases [where pid = pid and pl = "(final, receipts, metas, bu)" and g = g])
          case (stored g')
          with eq replaced [of g' final receipts metas bu] b Inr False show ?thesis by auto
        next
          case (failed e)
          with eq kept show ?thesis by simp
        qed
      qed
    qed
  qed
qed

lemma maybe_rebuild_cases:
  obtains (kept) r where "maybe_rebuild_payload E B pid g = (r, g)"
  | (rebuilt) b receipts metas bu parent fee txs where "get_payload pid (eg_db g) = Some (b, receipts, metas, bu)"
      "block_or_payload E (h_parent_hash (b_header b)) (eg_db g) = Inr (Some parent)"
      "maybe_rebuild_payload E B pid g = rebuild_with E pid (b, receipts) (b_header parent) fee txs g"
proof (cases "get_payload pid (eg_db g)")
  case None
  with kept show ?thesis by (simp add: maybe_rebuild_payload_def)
next
  case (Some pl)
  obtain b receipts metas bu where pl: "pl = (b, receipts, metas, bu)" by (metis prod.collapse)
  show ?thesis
  proof (cases "block_or_payload E (h_parent_hash (b_header b)) (eg_db g)")
    case (Inl e)
    with Some pl kept show ?thesis by (simp add: maybe_rebuild_payload_def sbind_def reads_def)
  next
    case (Inr found)
    show ?thesis
    proof (cases found)
      case None
      with Some pl Inr kept show ?thesis by (simp add: maybe_rebuild_payload_def sbind_def reads_def ret_def)
    next
      case (Some parent)
      note st = \<open>get_payload pid (eg_db g) = Some pl\<close> [unfolded pl] Inr [unfolded Some]
      show ?thesis
      proof (cases "next_base_fee (b_header parent)")
        case (Inl e)
        with st kept show ?thesis by (simp add: maybe_rebuild_payload_def sbind_def reads_def Let_def)
      next
        case (Inr fee)
        show ?thesis
        proof (cases "map_sum (\<lambda>_. RpcPanic) id (peek_best_transactions (bl_tip B) (h_gas_limit (b_header parent))
              (ucast (unwrap_or fee 0)) (max_blobs_at E (eg_db g) (b_header parent) (h_timestamp (b_header b))) (eg_pool g))")
          case (Inl e)
          with st Inr kept show ?thesis by (simp add: maybe_rebuild_payload_def sbind_def reads_def Let_def)
        next
          case (Inr txs)
          show ?thesis
          proof (cases "map tx_hash txs = map tx_hash (b_transactions (b_body b)) \<or> txs = [] \<and> b_transactions (b_body b) \<noteq> []")
            case True
            with st \<open>next_base_fee (b_header parent) = Inr fee\<close> Inr kept show ?thesis
              by (auto simp: maybe_rebuild_payload_def sbind_def reads_def Let_def ret_def)
          next
            case False
            with st \<open>next_base_fee (b_header parent) = Inr fee\<close> Inr
            have "maybe_rebuild_payload E B pid g = rebuild_with E pid (b, receipts) (b_header parent) fee txs g"
              by (auto simp: maybe_rebuild_payload_def sbind_def reads_def Let_def)
            with st show ?thesis by (rule rebuilt)
          qed
        qed
      qed
    qed
  qed
qed

lemma collect_blobs_complete:
  assumes "collect_blobs m hs bu = Inr bu'"
  shows "bb_blobs bu' = bb_blobs bu @ map (\<lambda>h. fst (the (get_blob m h))) hs"
    "bb_commitments bu' = bb_commitments bu @ map (\<lambda>h. fst (snd (the (get_blob m h)))) hs"
    "bb_proofs bu' = bb_proofs bu @ map (\<lambda>h. snd (snd (the (get_blob m h)))) hs"
    "\<forall>h \<in> set hs. get_blob m h \<noteq> None"
  using assms by (induction hs arbitrary: bu) (auto split: option.splits prod.splits)

lemma rebuild_outcome:
  assumes "get_payload pid (eg_db g) = Some (b, receipts, metas, bundle)" and "maybe_rebuild_payload E B pid g = (r, g')"
  shows "\<exists>b' receipts' metas' bundle'. get_payload pid (eg_db g') = Some (b', receipts', metas', bundle') \<and>
    (b_transactions (b_body b) \<noteq> [] \<longrightarrow> calculate_block_value b receipts \<le> calculate_block_value b' receipts') \<and>
    h_timestamp (b_header b') = h_timestamp (b_header b) \<and> h_beneficiary (b_header b') = h_beneficiary (b_header b) \<and>
    ((b', bundle') = (b, bundle) \<or>
      (\<exists>parent. block_or_payload E (h_parent_hash (b_header b)) (eg_db g) = Inr (Some parent) \<and>
         h_parent_hash (b_header b') = en_hash E (b_header parent) \<and>
         bb_blobs bundle' = map (\<lambda>h. fst (the (get_blob (eg_pool g) h))) (blob_hashes_in (b_transactions (b_body b'))) \<and>
         bb_commitments bundle' = map (\<lambda>h. fst (snd (the (get_blob (eg_pool g) h)))) (blob_hashes_in (b_transactions (b_body b'))) \<and>
         bb_proofs bundle' = map (\<lambda>h. snd (snd (the (get_blob (eg_pool g) h)))) (blob_hashes_in (b_transactions (b_body b'))) \<and>
         list_all (\<lambda>h. get_blob (eg_pool g) h \<noteq> None) (blob_hashes_in (b_transactions (b_body b'))) \<and>
         built_from (get_active_fork (config_of E (eg_db g)) (h_number (b_header parent) + 1) (h_timestamp (b_header b)))
           (attributes_of b) b')) \<and>
    (\<forall>q. q \<noteq> pid \<longrightarrow> get_payload q (eg_db g') = get_payload q (eg_db g)) \<and> eg_pool g' = eg_pool g \<and>
    get_state (eg_chain g') = get_state (eg_chain g)"
proof (cases rule: maybe_rebuild_cases [where E = E and B = B and pid = pid and g = g])
  case (kept r')
  with assms show ?thesis by simp
next
  case (rebuilt b0 receipts0 metas0 bundle0 parent fee txs)
  then have b0: "b0 = b" "receipts0 = receipts" using assms(1) by simp_all
  note eq = rebuilt(3) [unfolded b0 assms(2), symmetric]
  show ?thesis
  proof (cases rule: rebuild_with_cases [where E = E and pid = pid and old = "(b, receipts)" and parent = "b_header parent"
        and fee = fee and txs = txs and g = g])
    case (kept r')
    with eq assms(1) show ?thesis by simp
  next
    case (replaced final rs ms bu g2)
    have g2: "g2 = g'" using replaced(1) eq by simp
    have a: "h_timestamp (b_header final) = h_timestamp (b_header b)" "h_beneficiary (b_header final) = h_beneficiary (b_header b)"
        "h_parent_hash (b_header final) = en_hash E (b_header parent)"
      using built_block_attributes [OF replaced(3)] by (simp_all add: attributes_of_def)
    have f: "built_from (get_active_fork (config_of E (eg_db g)) (h_number (b_header parent) + 1) (h_timestamp (b_header b)))
           (attributes_of b) final" using built_block_from [OF replaced(3)] by (simp add: attributes_of_def)
    have v: "calculate_block_value b receipts \<le> calculate_block_value final rs" if "b_transactions (b_body b) \<noteq> []"
      using replaced(5) that by (auto simp: should_replace_def Let_def split: if_splits)
    note c = collect_blobs_complete [OF replaced(4)]
    show ?thesis
    proof (cases rule: store_payload_cases [where pid = pid and pl = "(final, rs, ms, bu)" and g = g])
      case (stored g3)
      with replaced(2) g2 have "g3 = g'" by simp
      with stored(2-5,7) show ?thesis
        using a v c f rebuilt(2) [unfolded b0] by (auto simp: empty_bundle_def list_all_iff)
    next
      case (failed e)
      with replaced(2) show ?thesis by simp
    qed
  qed
qed

text \<open>C12: rebuilding never makes a payload worse.  Whatever the outcome, the payload is still there; a payload with
  transactions is only replaced by one of at least its value; the replacement has the timestamp and the fee recipient of
  the payload, from Paris on its randomness, from Shanghai on its withdrawals, from Cancun on its parent beacon block root, and is a
  child of the parent's header; its bundle holds, for each blob hash of its transactions in order, the blob, the commitment
  and the proof the pool has for that hash; other payloads, the pool and the fork choice are untouched.\<close>

theorem rebuild_never_worse:
  assumes "get_payload pid (eg_db g) = Some (b, receipts, metas, bundle)" and "maybe_rebuild_payload E B pid g = (r, g')"
  shows "\<exists>b' receipts' metas' bundle'. get_payload pid (eg_db g') = Some (b', receipts', metas', bundle') \<and>
    (b_transactions (b_body b) \<noteq> [] \<longrightarrow> calculate_block_value b receipts \<le> calculate_block_value b' receipts') \<and>
    h_timestamp (b_header b') = h_timestamp (b_header b) \<and> h_beneficiary (b_header b') = h_beneficiary (b_header b) \<and>
    ((b', bundle') = (b, bundle) \<or>
      (\<exists>parent. block_or_payload E (h_parent_hash (b_header b)) (eg_db g) = Inr (Some parent) \<and>
         h_parent_hash (b_header b') = en_hash E (b_header parent) \<and>
         bb_blobs bundle' = map (\<lambda>h. fst (the (get_blob (eg_pool g) h))) (blob_hashes_in (b_transactions (b_body b'))) \<and>
         bb_commitments bundle' = map (\<lambda>h. fst (snd (the (get_blob (eg_pool g) h)))) (blob_hashes_in (b_transactions (b_body b'))) \<and>
         bb_proofs bundle' = map (\<lambda>h. snd (snd (the (get_blob (eg_pool g) h)))) (blob_hashes_in (b_transactions (b_body b'))) \<and>
         list_all (\<lambda>h. get_blob (eg_pool g) h \<noteq> None) (blob_hashes_in (b_transactions (b_body b'))) \<and>
         built_from (get_active_fork (config_of E (eg_db g)) (h_number (b_header parent) + 1) (h_timestamp (b_header b)))
           (attributes_of b) b')) \<and>
    (\<forall>q. q \<noteq> pid \<longrightarrow> get_payload q (eg_db g') = get_payload q (eg_db g)) \<and> eg_pool g' = eg_pool g \<and>
    get_state (eg_chain g') = get_state (eg_chain g)"
  using assms by (rule rebuild_outcome)

lemma build_empty_Inr:
  assumes "build_empty_payload E head_hash attr pid g = (Inr u, g')"
  obtains parent fee b receipts metas where "block_or_payload E head_hash (eg_db g) = Inr (Some parent)"
    "build_block E [] (b_header parent) attr fee g = (Inr (b, receipts, metas), g)"
    "get_payload pid (eg_db g') = Some (b, receipts, metas, empty_bundle)"
    "get_state (eg_chain g') = get_state (eg_chain g)"
proof -
  from assms obtain found parent fee x g1 where f: "block_or_payload E head_hash (eg_db g) = Inr found"
    "ok_or found (InvalidForkchoiceState ''Head block not found for empty payload building'') = Inr parent"
    and b: "build_block E [] (b_header parent) attr fee g = (Inr x, g1)"
    and s: "(case x of (final, receipts, metas) \<Rightarrow> store_payload pid (final, receipts, metas, empty_bundle)) g1 = (Inr u, g')"
    unfolding build_empty_payload_def sbind_Inr_iff by (auto simp: reads_def)
  obtain final receipts metas where x: "x = (final, receipts, metas)" by (metis prod.collapse)
  have g1: "g1 = g" using b by (rule build_block_Inr)
  have "found = Some parent" using f(2) by (cases found) simp_all
  moreover have "get_payload pid (eg_db g') = Some (final, receipts, metas, empty_bundle)"
    "get_state (eg_chain g') = get_state (eg_chain g)"
    using s x g1
    by (cases rule: store_payload_cases [where pid = pid and pl = "(final, receipts, metas, empty_bundle)" and g = g]; simp)+
  ultimately show ?thesis using that f(1) b x g1 by blast
qed

lemma issue_token_frame [simp]:
  "eg_proc (snd (issue_token pid g)) = eg_proc g" "eg_tokens (snd (issue_token pid g)) pid = Some (eg_next_token g)"
  by (simp_all add: issue_token_def Let_def)

text \<open>A payload id that is handed out can be redeemed.  The payload is stored under the id when the call returns; when
  it was not there before, it was built on the block the fork choice names, after that block's time, with the timestamp and the fee
  recipient of the attributes, and a running build has its token under the id.  The fork choice is not touched.\<close>

theorem built_payload_redeemable:
  assumes "build_new_payload E B head_hash attr status g = (Inr (Some pid), g')"
  shows "\<exists>b receipts metas bu. get_payload pid (eg_db g') = Some (b, receipts, metas, bu) \<and>
    pid = bl_payload_id B head_hash attr \<and> get_state (eg_chain g') = get_state (eg_chain g) \<and>
    (get_payload pid (eg_db g) = None \<longrightarrow>
      (\<exists>parent. block_or_payload E head_hash (eg_db g) = Inr (Some parent) \<and>
         h_timestamp (b_header parent) < h_timestamp (b_header b)) \<and>
      h_timestamp (b_header b) = pa_timestamp attr \<and> h_beneficiary (b_header b) = pa_suggested_fee_recipient attr \<and>
      eg_tokens g' pid \<noteq> None)"
proof (cases "get_payload (bl_payload_id B head_hash attr) (eg_db g)")
  case (Some pl)
  with assms have "pid = bl_payload_id B head_hash attr" "g' = g"
    by (auto simp: build_new_payload_def Let_def simp del: not_None_eq split: if_splits)
  with Some show ?thesis by (cases pl) auto
next
  case None
  let ?pid = "bl_payload_id B head_hash attr"
  define tail where "tail = sseq (build_empty_payload E head_hash attr ?pid)
     (sseq (unless_panic (maybe_rebuild_payload E B ?pid)) (\<lambda>g. (Inr (Some ?pid), snd (issue_token ?pid g))))"
  have "ps_status status \<noteq> Syncing" using assms by (auto simp: build_new_payload_def)
  with assms None have "sbind (reads (\<lambda>g. block_or_payload E head_hash (eg_db g))) (\<lambda>found.
      sbind (reads (\<lambda>_. ok_or found (InvalidForkchoiceState ''Head block not found for payload building''))) (\<lambda>parent.
      sseq (reads (\<lambda>_. ensure (pa_timestamp attr > h_timestamp (b_header parent)) (InvalidPayloadAttributes ''Invalid timestamp''))) tail)) g
      = (Inr (Some pid), g')"
    by (simp add: build_new_payload_def Let_def tail_def)
  then obtain found parent where
    f: "block_or_payload E head_hash (eg_db g) = Inr found"
    and o: "ok_or found (InvalidForkchoiceState ''Head block not found for payload building'') = Inr parent"
    and t: "ensure (pa_timestamp attr > h_timestamp (b_header parent)) (InvalidPayloadAttributes ''Invalid timestamp'') = Inr ()"
    and "tail g = (Inr (Some pid), g')"
    by (auto simp: sbind_Inr_iff sseq_Inr_iff reads_def)
  then obtain g1 g2 where e: "build_empty_payload E head_hash attr ?pid g = (Inr (), g1)"
    and m: "unless_panic (maybe_rebuild_payload E B ?pid) g1 = (Inr (), g2)"
    and g': "pid = ?pid" "g' = snd (issue_token ?pid g2)"
    unfolding tail_def sseq_Inr_iff by auto
  have p: "block_or_payload E head_hash (eg_db g) = Inr (Some parent)" "pa_timestamp attr > h_timestamp (b_header parent)"
    using f o t by (cases found; simp add: ensure_Inr_iff)+
  obtain parent' fee b receipts metas where "block_or_payload E head_hash (eg_db g) = Inr (Some parent')" and
    bb: "build_block E [] (b_header parent') attr fee g = (Inr (b, receipts, metas), g)"
    and st: "get_payload ?pid (eg_db g1) = Some (b, receipts, metas, empty_bundle)" "get_state (eg_chain g1) = get_state (eg_chain g)"
    using e by (rule build_empty_Inr)
  obtain r where "maybe_rebuild_payload E B ?pid g1 = (r, g2)"
    using m by (auto simp: unless_panic_def split: prod.splits if_splits)
  from rebuild_outcome [OF st(1) this] obtain b' receipts' metas' bu' where
    r: "get_payload ?pid (eg_db g2) = Some (b', receipts', metas', bu')" "h_timestamp (b_header b') = h_timestamp (b_header b)"
    "h_beneficiary (b_header b') = h_beneficiary (b_header b)" "get_state (eg_chain g2) = get_state (eg_chain g1)" by blast
  then show ?thesis
    using p g' st(2) built_block_attributes [OF bb] by auto
qed

definition cancun_env :: "unit engine_env" where
  "cancun_env = \<lparr>en_exec = config_exec, en_now = 1000, en_text = (\<lambda>_. ''rule''), en_exec_text = (\<lambda>_. ''exec''), en_hex = (\<lambda>_. ''hash'')\<rparr>"

definition empty_engine :: "db \<Rightarrow> engine" where
  "empty_engine d = \<lparr>eg_proc = \<lparr>pp_chain = \<lparr>ch_store = new_provider d, ch_tree = tree_new,
       ch_fc = \<lparr>fc_head = 6, fc_safe = 6, fc_finalized = 6\<rparr>, ch_number = 5, ch_sync = SyncNone\<rparr>,
     pp_processing = {}, pp_registry = registry_new, pp_tasks = [], pp_events = []\<rparr>,
     eg_pool = mempool_new 7, eg_listener = [], eg_tokens = Map.empty, eg_cancelled = {}, eg_next_token = 0, eg_builds = []\<rparr>"

definition sample_builder :: builder_lib where
  "sample_builder = \<lparr>bl_payload_id = (\<lambda>_ _. 1), bl_tip = (\<lambda>_ _. Some 1)\<rparr>"

lemma sample_payload_stored: "get_payload 1 (eg_db (empty_engine sample_db)) = Some sample_payload"
  by (simp add: empty_engine_def get_payload_def sample_db_def new_provider_def empty_db_def tbl_get_def)

theorem rebuild_never_worse_witness:
  "\<exists>b receipts metas bu. get_payload 1 (eg_db (snd (maybe_rebuild_payload cancun_env sample_builder 1 (empty_engine sample_db)))) =
     Some (b, receipts, metas, bu) \<and> calculate_block_value (fst sample_payload) (fst (snd sample_payload)) \<le> calculate_block_value b receipts"
proof -
  obtain r g' where r: "maybe_rebuild_payload cancun_env sample_builder 1 (empty_engine sample_db) = (r, g')" by fastforce
  have "get_payload 1 (eg_db (empty_engine sample_db)) = Some (sample_block, [sample_receipt], [], snd (snd (snd sample_payload)))"
    by (simp add: sample_payload_stored) (simp add: sample_payload_def)
  from rebuild_never_worse [OF this r] r show ?thesis
    by (auto simp: sample_payload_def sample_block_def)
qed

theorem built_payload_redeemable_witness:
  "\<exists>b receipts metas bu. get_payload 1 (eg_db (snd (build_new_payload cancun_env sample_builder 6 sample_attrs
       (status_of Valid (Some 6)) (empty_engine sample_db)))) = Some (b, receipts, metas, bu)"
proof -
  have "build_new_payload cancun_env sample_builder 6 sample_attrs (status_of Valid (Some 6)) (empty_engine sample_db) =
     (Inr (Some 1), empty_engine sample_db)"
    by (simp add: build_new_payload_def status_of_def sample_builder_def sample_payload_stored del: not_None_eq)
  from built_payload_redeemable [OF this] this show ?thesis by auto
qed

end
