(* ===== verification/Engine.thy ===== *)
theory Engine
  imports PayloadBuilder
begin

section \<open>The engine\<close>

text \<open>
  \<^verbatim>\<open>wasix_eth_core/src/engine/engine.rs\<close> (\<open>Engine\<close>): the entry points of the Engine API over the parts
  modelled before.  \<open>forkchoice_updated\<close> may walk forever on a chain whose parent links form a cycle, so it returns
  an option.  The writes of the fork choice are \<open>let _ = \<dots>\<close> in the code; metrics are left out.  Events for the
  pool's listener go to \<open>eg_listener\<close>, the broadcast ones to \<open>pp_events\<close>.
\<close>

definition on_chain :: "'a chain_act \<Rightarrow> (engine, storage_error, 'a) act" where
  "on_chain m g = (case m (eg_chain g) of (r, c) \<Rightarrow> (r, g\<lparr>eg_proc := (eg_proc g)\<lparr>pp_chain := c\<rparr>\<rparr>))"

definition notify :: "mempool_event \<Rightarrow> engine \<Rightarrow> engine" where
  "notify ev g = g\<lparr>eg_listener := eg_listener g @ [ev]\<rparr>"

subsection \<open>newPayload\<close>

definition new_payload_fork_validation ::
  "execution_payload_v1 \<Rightarrow> withdrawal list option \<Rightarrow> chain_config \<Rightarrow> rpc_error option" where
  "new_payload_fork_validation p withdrawals cfg =
     (let fork = get_active_fork cfg (e1_block_number p) (e1_timestamp p) in
      if fork \<ge> Shanghai \<and> withdrawals = None then Some (InvalidParamsCode ''missing withdrawals'')
      else if \<not> fork \<ge> Shanghai \<and> withdrawals \<noteq> None then Some (InvalidParamsCode ''unexpected withdrawals'')
      else if fork \<ge> Cancun then Some (UnsupportedFork ''unsupported fork'')
      else None)"

type_synonym payload_answer = "((rpc_error + payload_status) \<times> processor) option"

definition new_payload ::
  "'o engine_env \<Rightarrow> tx_codec \<Rightarrow> execution_payload_v1 \<Rightarrow> withdrawal list option \<Rightarrow> processor \<Rightarrow> payload_answer" where
  "new_payload E tc p withdrawals s =
     (let cfg = config_of E (pp_db s) in
      case new_payload_fork_validation p withdrawals cfg of Some e \<Rightarrow> Some (Inl e, s)
      | None \<Rightarrow>
          (case rbind (decode_transactions tc (e1_transactions p)) (\<lambda>txs.
                  payload_v1_to_block (en_crypto E) p txs withdrawals cfg None None None) of
             Inl e \<Rightarrow> Some (Inl e, s)
           | Inr b \<Rightarrow> new_payload_internal E b (e1_block_hash p) None None True s))"

definition new_payload_v3 ::
  "'o engine_env \<Rightarrow> tx_codec \<Rightarrow> execution_payload_v3 \<Rightarrow> b256 list \<Rightarrow> b256 \<Rightarrow> processor \<Rightarrow> payload_answer" where
  "new_payload_v3 E tc p blob_hashes beacon_root s =
     (let cfg = config_of E (pp_db s); p1 = e3_inner p in
      if get_active_fork cfg (e1_block_number p1) (e1_timestamp p1) < Cancun
      then Some (Inl (UnsupportedFork ''unsupported fork''), s)
      else case rbind (decode_transactions tc (e1_transactions p1)) (\<lambda>txs.
                  payload_v3_to_block (en_crypto E) p txs beacon_root cfg) of
             Inl e \<Rightarrow> Some (Inl e, s)
           | Inr b \<Rightarrow> new_payload_internal E b (e1_block_hash p1) (Some blob_hashes) (Some beacon_root) True s)"

definition new_payload_v4 ::
  "'o engine_env \<Rightarrow> tx_codec \<Rightarrow> execution_payload_v4 \<Rightarrow> b256 list \<Rightarrow> b256 \<Rightarrow> bytes list \<Rightarrow> processor \<Rightarrow> payload_answer" where
  "new_payload_v4 E tc p blob_hashes beacon_root requests s =
     (let cfg = config_of E (pp_db s); p1 = e3_inner (e4_inner p) in
      if get_active_fork cfg (e1_block_number p1) (e1_timestamp p1) < Prague
      then Some (Inl (UnsupportedFork ''unsupported fork''), s)
      else case rbind (decode_transactions tc (e1_transactions p1)) (\<lambda>txs.
                  payload_v4_to_block (en_crypto E) p txs beacon_root requests cfg) of
             Inl e \<Rightarrow> Some (Inl e, s)
           | Inr b \<Rightarrow> new_payload_internal E b (e1_block_hash p1) (Some blob_hashes) (Some beacon_root) True s)"

definition import_block :: "'o engine_env \<Rightarrow> block \<Rightarrow> processor \<Rightarrow> ((string + unit) \<times> processor) option" where
  "import_block E b s =
     (case new_payload_internal E b (en_hash E (b_header b)) None None False
             (s\<lparr>pp_chain := set_sync_status SyncNone (pp_chain s)\<rparr>) of
        None \<Rightarrow> None
      | Some (Inl e, s') \<Rightarrow> Some (Inl ''Payload internal failed'', s')
      | Some (Inr st, s') \<Rightarrow> Some (case ps_status st of Invalid msg \<Rightarrow> Inl (''Block is INVALID: '' @ msg) | _ \<Rightarrow> Inr (), s'))"

subsection \<open>getPayload, bodies and blobs\<close>

definition payload_fork :: "'o engine_env \<Rightarrow> db \<Rightarrow> block \<Rightarrow> hardfork" where
  "payload_fork E d b = get_active_fork (config_of E d) (h_number (b_header b)) (h_timestamp (b_header b))"

definition get_payload_v1 :: "'o engine_env \<Rightarrow> tx_codec \<Rightarrow> payload_id \<Rightarrow> db \<Rightarrow> rpc_error + execution_payload_v1" where
  "get_payload_v1 E tc pid d =
     rbind (builder_get_payload pid d) (\<lambda>(b, _, _, _).
       if payload_fork E d b \<ge> Cancun
       then Inl (UnsupportedFork ''engine_getPayloadV1 must be used for forks before Cancun'')
       else Inr (to_execution_payload_v1 (en_crypto E) tc b (config_of E d)))"

definition get_payload_v2 :: "'o engine_env \<Rightarrow> tx_codec \<Rightarrow> payload_id \<Rightarrow> db \<Rightarrow> rpc_error + envelope_v2" where
  "get_payload_v2 E tc pid d =
     rbind (builder_get_payload pid d) (\<lambda>(b, receipts, _, _).
       if payload_fork E d b \<ge> Cancun
       then Inl (UnsupportedFork ''engine_getPayloadV2 must be used for forks before Cancun'')
       else Inr (to_execution_payload_envelope_v2 (to_execution_payload_v2 (en_crypto E) tc b (config_of E d))
                   (calculate_block_value b receipts) (payload_fork E d b)))"

definition get_payload_v3 :: "'o engine_env \<Rightarrow> tx_codec \<Rightarrow> payload_id \<Rightarrow> db \<Rightarrow> rpc_error + envelope_v3" where
  "get_payload_v3 E tc pid d =
     rbind (builder_get_payload pid d) (\<lambda>(b, receipts, _, blobs_of).
       if payload_fork E d b < Cancun
       then Inl (UnsupportedFork ''engine_getPayloadV3 and above must be used for Cancun and above'')
       else Inr (to_execution_payload_envelope_v3 (to_execution_payload_v3 (en_crypto E) tc b (config_of E d))
                   (calculate_block_value b receipts) blobs_of))"

definition payload_body :: "tx_codec \<Rightarrow> storage_error + body option \<Rightarrow> header option \<Rightarrow> rpc_error + payload_body_v1 option" where
  "payload_body tc bd hdr =
     rbind (map_sum (\<lambda>_. Internal ''storage'') id bd) (\<lambda>b_opt.
       Inr (case b_opt of None \<Rightarrow> None
            | Some bdy \<Rightarrow> map_option (\<lambda>h. to_execution_payload_body_v1 tc \<lparr>b_header = h, b_body = bdy\<rparr>) hdr))"

fun collect_results :: "('e + 'a) list \<Rightarrow> 'e + 'a list" where
  "collect_results [] = Inr []"
| "collect_results (r # rs) = rbind r (\<lambda>x. rbind (collect_results rs) (\<lambda>xs. Inr (x # xs)))"

definition get_payload_bodies_by_hash :: "tx_codec \<Rightarrow> b256 list \<Rightarrow> db \<Rightarrow> rpc_error + payload_body_v1 option list" where
  "get_payload_bodies_by_hash tc hashes d =
     collect_results (map (\<lambda>h. payload_body tc (block_body_by_hash h d) (stored_header d h)) hashes)"

definition get_payload_bodies_by_range ::
  "tx_codec \<Rightarrow> u64 \<Rightarrow> u64 \<Rightarrow> chain \<Rightarrow> rpc_error + payload_body_v1 option list" where
  "get_payload_bodies_by_range tc start cnt c =
     (let d = ch_db c; head_number = snd (head_block c) in
      if cnt = 0 then Inl (InvalidParamsCode ''count must be at least 1'')
      else if start = 0 then Inl (InvalidParamsCode ''start must be at least 1'')
      else if start > head_number then Inr []
      else let actual_count = min cnt (head_number - start + 1) in
        collect_results (map (\<lambda>i. let number = start + of_nat i in
            payload_body tc (block_body number d) (ok_flat (header (IdNumber (Number number)) d)))
          [0 ..< unat actual_count]))"

definition get_blobs_v1 :: "mempool \<Rightarrow> b256 list \<Rightarrow> (bytes \<times> bytes) option list" where
  "get_blobs_v1 m hashes = map (\<lambda>h. map_option (\<lambda>(blob, _, proof). (blob, proof)) (get_blob m h)) hashes"

fun get_blobs_v2 :: "mempool \<Rightarrow> b256 list \<Rightarrow> (bytes \<times> bytes list) list option" where
  "get_blobs_v2 m [] = Some []"
| "get_blobs_v2 m (h # hs) =
     (case get_blob m h of None \<Rightarrow> None
      | Some (blob, _, proof) \<Rightarrow> map_option (\<lambda>rest. (blob, [proof]) # rest) (get_blobs_v2 m hs))"

definition get_blobs_v3 :: "mempool \<Rightarrow> b256 list \<Rightarrow> (bytes \<times> bytes list) option list option" where
  "get_blobs_v3 m hashes = Some (map (\<lambda>h. map_option (\<lambda>(blob, _, proof). (blob, [proof])) (get_blob m h)) hashes)"

subsection \<open>Checking a fork choice\<close>

definition engine_payload_status :: "'o engine_env \<Rightarrow> chain \<Rightarrow> b256 \<Rightarrow> payload_status" where
  "engine_payload_status E c hash =
     (if ok_flat (block_body_by_hash hash (ch_db c)) \<noteq> None then status_of Valid (Some hash)
      else determine_payload_status (en_hash E) c hash)"

definition reason_text :: "invalidation_reason \<Rightarrow> string" where
  "reason_text r = (case r of Hard \<Rightarrow> ''Hard'' | Soft \<Rightarrow> ''Soft'')"

definition marked_answer :: "'o engine_env \<Rightarrow> chain \<Rightarrow> string \<Rightarrow> b256 \<Rightarrow> invalidation_reason \<Rightarrow> payload_status" where
  "marked_answer E c what hash reason =
     status_of (if reason = Soft then Syncing else Invalid (what @ '' is known to be invalid: '' @ reason_text reason))
       (get_latest_valid_ancestor (en_hash E) c hash)"

definition head_objection :: "'o engine_env \<Rightarrow> chain \<Rightarrow> b256 \<Rightarrow> payload_status_enum \<Rightarrow> payload_status option" where
  "head_objection E c head st =
     (case st of Valid \<Rightarrow> None | Accepted \<Rightarrow> None
      | _ \<Rightarrow> (case get_invalidation_reason c head of
          Some reason \<Rightarrow> Some (marked_answer E c ''Head block'' head reason)
        | None \<Rightarrow> (case get_header_from_anywhere E c head of None \<Rightarrow> None
            | Some hdr \<Rightarrow> map_option (marked_answer E c (''Parent block '' @ en_hex E (h_parent_hash hdr)) (h_parent_hash hdr))
                (get_invalidation_reason c (h_parent_hash hdr)))))"

definition check_forkchoice :: "'o engine_env \<Rightarrow> chain \<Rightarrow> forkchoice_state \<Rightarrow> rpc_error + u64" where
  "check_forkchoice E c st =
     (let hs = en_hash E; accept = (\<lambda>objection n. case objection of Some e \<Rightarrow> Inl e | None \<Rightarrow> Inr n) in
      if fc_head st = 0 then Inr 0
      else case fc_header hs c (fc_head st) of
          Some hdr \<Rightarrow> accept (or_else (check_safe_block hs c st hdr) (check_finalized_block hs c st hdr)) (h_number hdr)
        | None \<Rightarrow> accept (check_header_without_headheader c st) 0)"

subsection \<open>Moving the head\<close>

definition set_forkchoice :: "forkchoice_state \<Rightarrow> u64 \<Rightarrow> engine \<Rightarrow> engine" where
  "set_forkchoice st n g = snd (on_chain (update_state st n) g)"

definition engine_revert_to_height :: "'o engine_env \<Rightarrow> u64 \<Rightarrow> (engine, storage_error, unit) act" where
  "engine_revert_to_height E height =
     sseq (on_chain (revert_to_height (dec_account (x_state (en_exec E))) height))
       (\<lambda>g. let head_hash = fst (head_block (eg_chain g)) in
            (Inr (), case header (IdHash head_hash) (eg_db g) of Inr _ \<Rightarrow> notify (Reorg head_hash) g | Inl _ \<Rightarrow> g))"

text \<open>The blobs of a discarded block go back into the pool; \<open>blob_idx\<close> counts through its bundle.  A bundle with fewer
  commitments or proofs than blobs is an index out of bounds.\<close>

fun readd_blobs :: "blobs_bundle \<Rightarrow> b256 list \<Rightarrow> nat \<Rightarrow> mempool \<Rightarrow> (rpc_error + unit) \<times> mempool" where
  "readd_blobs bu [] blob_idx m = (Inr (), m)"
| "readd_blobs bu (h # hs) blob_idx m =
     (if blob_idx < length (bb_blobs bu)
      then if blob_idx < length (bb_commitments bu) \<and> blob_idx < length (bb_proofs bu)
        then readd_blobs bu hs (Suc blob_idx)
               (add_blob h (bb_blobs bu ! blob_idx, bb_commitments bu ! blob_idx, bb_proofs bu ! blob_idx) m)
        else (Inl RpcPanic, m)
      else readd_blobs bu hs blob_idx m)"

partial_function (option) discarded_walk ::
  "(header \<Rightarrow> b256) \<Rightarrow> db \<Rightarrow> b256 \<Rightarrow> b256 \<Rightarrow> tx list \<Rightarrow> mempool \<Rightarrow> ((rpc_error + tx list) \<times> mempool) option" where
  "discarded_walk hs d ancestor hash txs m =
     (if hash = 0 \<or> hash = ancestor then Some (Inr txs, m)
      else case ok_flat (block_by_hash hs hash d) of
          None \<Rightarrow> Some (Inr txs, m)
        | Some b \<Rightarrow>
            (case (case get_payload_by_block_hash hs hash d of None \<Rightarrow> (Inr (), m)
                   | Some pl \<Rightarrow> readd_blobs (snd (snd (snd pl))) (concat (map blob_hashes_of (b_transactions (b_body b)))) 0 m) of
               (Inl e, m') \<Rightarrow> Some (Inl e, m')
             | (Inr _, m') \<Rightarrow> discarded_walk hs d ancestor (h_parent_hash (b_header b)) (txs @ b_transactions (b_body b)) m'))"

definition handle_reorgs_for_mempool ::
  "'o engine_env \<Rightarrow> forkchoice_state \<Rightarrow> b256 \<Rightarrow> b256 \<Rightarrow> engine \<Rightarrow> ((rpc_error + unit) \<times> engine) option" where
  "handle_reorgs_for_mempool E st old_head ancestor g =
     (let g1 = notify (Reorg (fc_head st)) g in
      case discarded_walk (en_hash E) (eg_db g1) ancestor old_head [] (eg_pool g1) of
        None \<Rightarrow> None
      | Some (Inl e, m) \<Rightarrow> Some (Inl e, g1\<lparr>eg_pool := m\<rparr>)
      | Some (Inr txs, m) \<Rightarrow> Some (Inr (), g1\<lparr>eg_pool := m, eg_proc := (eg_proc g1)
            \<lparr>pp_events := pp_events (eg_proc g1) @ map (\<lambda>t. NewTransaction t True) (rev txs)\<rparr>\<rparr>))"

text \<open>Payloads that become canonical without having been imported are executed, in the order of the context: the newest
  block first.  The execution runs in the caller's task.\<close>

definition commit_payload :: "'o engine_env \<Rightarrow> block \<Rightarrow> unit eng_act" where
  "commit_payload E b g =
     (if ok_flat (block_body_by_hash (en_hash E (b_header b)) (eg_db g)) \<noteq> None then (Inr (), g)
      else case on_proc (run_store (execute_block_with_commit (en_exec E) b True)) g of
          (Inr _, g') \<Rightarrow> (Inr (), g')
        | (Inl e, g') \<Rightarrow> (Inl (if exec_panics e then RpcPanic
             else Internal (''Failed to execute block from payload during promotion: '' @ en_exec_text E e)), g'))"

definition promote_branch :: "'o engine_env \<Rightarrow> block list \<Rightarrow> unit eng_act" where
  "promote_branch E blocks =
     (if blocks = [] then ret ()
      else sseq (for_each blocks (commit_payload E))
          (sseq (map_err (\<lambda>_. Internal ''Canonical marking failed'') (on_chain (mark_branch_canonical (en_hash E) blocks)))
                (\<lambda>g. (Inr (), fold (\<lambda>b. notify (CanonicalBlock b)) blocks g))))"

definition undo_branch ::
  "'o engine_env \<Rightarrow> forkchoice_state \<Rightarrow> forkchoice_state \<times> u64 \<Rightarrow> reorg_context \<Rightarrow> engine \<Rightarrow> ((rpc_error + unit) \<times> engine) option" where
  "undo_branch E st old ctx g =
     (if \<not> is_reorg ctx then Some (Inr (), g)
      else let height = unwrap_or (map_option h_number (stored_header (eg_db g) (common_ancestor_hash ctx))) 0 in
        case engine_revert_to_height E height g of
          (Inl _, g') \<Rightarrow> Some (Inl (Internal ''Revert failed''), set_forkchoice (fst old) (snd old) g')
        | (Inr _, g') \<Rightarrow> handle_reorgs_for_mempool E st (fc_head (fst old)) (common_ancestor_hash ctx) g')"

definition advance_head ::
  "'o engine_env \<Rightarrow> forkchoice_state \<Rightarrow> u64 \<Rightarrow> engine \<Rightarrow> ((rpc_error + unit) \<times> engine) option" where
  "advance_head E st n g =
     (let old = get_state (eg_chain g);
          head_number = (if n = 0 \<and> fc_head st \<noteq> 0 then unwrap_or (ok_flat (block_number (fc_head st) (eg_db g))) 0 else n);
          g1 = set_forkchoice st head_number g
      in case or_else (stored_header (eg_db g1) (fc_head st)) (payload_header (en_hash E) (eg_db g1) (fc_head st)) of
           None \<Rightarrow> Some (Inr (), g1)
         | Some hdr \<Rightarrow>
             let g2 = g1\<lparr>eg_proc := (eg_proc g1)\<lparr>pp_chain := set_sync_status SyncNone (eg_chain g1)\<rparr>\<rparr> in
             (case resolve_reorg (en_hash E) (eg_chain g2) (fc_head (fst old)) (fc_head st) of
                None \<Rightarrow> None
              | Some (Inl _) \<Rightarrow> Some (Inl (Internal ''Reorg resolution failed''), g2)
              | Some (Inr ctx) \<Rightarrow>
                  (case undo_branch E st old ctx g2 of
                     None \<Rightarrow> None
                   | Some (Inl e, g3) \<Rightarrow> Some (Inl e, g3)
                   | Some (Inr _, g3) \<Rightarrow>
                       (case promote_branch E (new_canonical_blocks ctx) g3 of
                          (Inl e, g4) \<Rightarrow> Some (Inl e, g4)
                        | (Inr _, g4) \<Rightarrow> Some (Inr (), set_forkchoice st (h_number hdr) g4)))))"

subsection \<open>Payload attributes\<close>

definition v3_message :: string where
  "v3_message = ''engine_forkchoiceUpdatedV3 and above must be used for Cancun and above''"

definition v2_message :: string where
  "v2_message = ''engine_forkchoiceUpdatedV2 and below must be used for forks before Cancun''"

definition fork_validation :: "u8 \<Rightarrow> chain_config \<Rightarrow> payload_attributes \<Rightarrow> rpc_error option" where
  "fork_validation version cfg attr =
     (let fork = get_active_fork cfg 0 (pa_timestamp attr); root = pa_parent_beacon_block_root attr in
      if version \<ge> 3 \<and> fork < Cancun
      then Some (if root \<noteq> None then UnsupportedFork v3_message else InvalidPayloadAttributes v3_message)
      else if version < 3 \<and> fork \<ge> Cancun
      then Some (if root \<noteq> None then InvalidPayloadAttributes v2_message else UnsupportedFork v2_message)
      else if fork \<ge> Shanghai \<and> pa_withdrawals attr = None
      then Some (InvalidPayloadAttributes ''missing withdrawals in payload attributes'')
      else if \<not> fork \<ge> Shanghai \<and> pa_withdrawals attr \<noteq> None
      then Some (InvalidPayloadAttributes ''unexpected withdrawals in payload attributes'')
      else if fork \<ge> Cancun \<and> root = None
      then Some (InvalidPayloadAttributes ''missing parentBeaconBlockRoot in payload attributes'')
      else if \<not> fork \<ge> Cancun \<and> root \<noteq> None
      then Some (InvalidPayloadAttributes ''unexpected parentBeaconBlockRoot in payload attributes'')
      else None)"

record fork_choice_answer =
  fu_status :: payload_status
  fu_payload_id :: "payload_id option"

definition check_attributes :: "'o engine_env \<Rightarrow> chain_config \<Rightarrow> u8 \<Rightarrow> b256 \<Rightarrow> payload_attributes \<Rightarrow> db \<Rightarrow> rpc_error option" where
  "check_attributes E cfg version head attr d =
     (case or_else (ok_flat (block_by_hash (en_hash E) head d)) (map_option fst (get_payload_by_block_hash (en_hash E) head d)) of
        Some parent \<Rightarrow> if pa_timestamp attr \<le> h_timestamp (b_header parent)
          then Some (InvalidPayloadAttributes ''Invalid timestamp'') else fork_validation version cfg attr
      | None \<Rightarrow> fork_validation version cfg attr)"

definition answer_attributes ::
  "'o engine_env \<Rightarrow> builder_lib \<Rightarrow> chain_config \<Rightarrow> forkchoice_state \<Rightarrow> payload_attributes option \<Rightarrow> u8 \<Rightarrow> payload_status \<Rightarrow>
   fork_choice_answer eng_act" where
  "answer_attributes E B cfg st attributes version status g =
     (case attributes of
        None \<Rightarrow> (Inr \<lparr>fu_status = status, fu_payload_id = None\<rparr>, g)
      | Some attr \<Rightarrow>
          (case check_attributes E cfg version (fc_head st) attr (eg_db g) of
             Some e \<Rightarrow> (Inl e, g)
           | None \<Rightarrow>
               (case build_new_payload E B (fc_head st) attr status g of (r, g') \<Rightarrow>
                  (if r = Inl RpcPanic then Inl RpcPanic
                   else Inr \<lparr>fu_status = status, fu_payload_id = (case r of Inr pid \<Rightarrow> pid | Inl _ \<Rightarrow> None)\<rparr>, g'))))"

definition forkchoice_updated ::
  "'o engine_env \<Rightarrow> builder_lib \<Rightarrow> forkchoice_state \<Rightarrow> payload_attributes option \<Rightarrow> u8 \<Rightarrow> engine \<Rightarrow>
   ((rpc_error + fork_choice_answer) \<times> engine) option" where
  "forkchoice_updated E B st attributes version g =
     (let c = eg_chain g; status = engine_payload_status E c (fc_head st) in
      case head_objection E c (fc_head st) (ps_status status) of
        Some s \<Rightarrow> Some (Inr \<lparr>fu_status = s, fu_payload_id = None\<rparr>, g)
      | None \<Rightarrow>
          if ps_status status \<noteq> Valid then Some (Inr \<lparr>fu_status = status, fu_payload_id = None\<rparr>, g)
          else (case check_forkchoice E c st of
              Inl e \<Rightarrow> Some (Inl e, g)
            | Inr n \<Rightarrow>
                (case advance_head E st n g of
                   None \<Rightarrow> None
                 | Some (Inl e, g') \<Rightarrow> Some (Inl e, g')
                 | Some (Inr _, g') \<Rightarrow> Some (answer_attributes E B (config_of E (eg_db g)) st attributes version status g'))))"

end
