(* ===== verification/EngineFacts.thy ===== *)
theory EngineFacts
  imports Engine
begin

section \<open>What the Engine API guarantees\<close>

text \<open>
  The effects of a fork choice update and what its answers mean, the limits of payload attributes and of
  \<open>newPayloadV4\<close>.
\<close>

subsection \<open>Payloads from Prague on\<close>

lemma late_fork_any_td:
  assumes "get_active_fork c n ts \<ge> Paris"
  shows "get_active_fork_with_total_difficulty c n ts td = get_active_fork c n ts"
  using assms by (auto simp: get_active_fork_def get_active_fork_with_total_difficulty_def Let_def less_le_not_le split: option.splits)

lemma payload_v1_to_block_Inr:
  assumes "payload_v1_to_block cr p txs ws cfg used excess root = Inr b"
  shows "h_requests_hash (b_header b) = None" "h_number (b_header b) = e1_block_number p" "h_timestamp (b_header b) = e1_timestamp p"
  using assms by (auto simp: payload_v1_to_block_def rbind_Inr_iff Let_def)

lemma new_payload_internal_valid:
  assumes "new_payload_internal E b expected hashes root is_local p = Some (Inr st, p')" and "ps_status st = Valid"
    and "\<not> body_stored p expected"
  obtains parent q where "validate_header (en_crypto E) (config_of E (pp_db p)) (pp_db p) (en_now E) (b_header b) parent = Inr ()"
    "en_hash E (b_header b) = expected"
proof -
  let ?hash = "en_hash E (b_header b)"
  let ?p1 = "p\<lparr>pp_processing := insert ?hash (pp_processing p)\<rparr>"
  have inv: "ps_status (status_of (Invalid m) l) \<noteq> Valid" "ps_status (status_of Syncing l) \<noteq> Valid" for m l by (simp_all add: status_of_def)
  have h: "?hash = expected"
    using assms(1,2) inv by (auto simp: new_payload_internal_def Let_def split: if_splits)
  have st: "\<not> body_stored ?p1 ?hash" using assms(3) h by (simp add: body_stored_def)
  have k: "ps_status (fst x) \<noteq> Valid" if "known_outcome E b hashes root ?p1 = Some x" for x
    using that st inv by (auto simp: known_outcome_def soft_invalid_def Let_def split: sum.splits if_splits option.splits)
  obtain p2 where "new_payload_internal_inner E b hashes root is_local ?p1 = (Inr st, p2)"
  proof (cases "known_outcome E b hashes root ?p1")
    case (Some x)
    with assms(1,2) h k [of x] inv show ?thesis
      by (auto simp: new_payload_internal_def Let_def split: if_splits prod.splits)
  next
    case None
    with assms(1,2) h inv that show ?thesis
      by (auto simp: new_payload_internal_def Let_def split: if_splits prod.splits option.splits sum.splits)
  qed
  then obtain parent where "validate_header (en_crypto E) (config_of E (pp_db ?p1)) (pp_db ?p1) (en_now E) (b_header b) parent = Inr ()"
    using assms(2) by (blast elim: inner_valid_parts)
  with h that show ?thesis by simp
qed

text \<open>C40: no Prague block gets in through \<open>newPayloadV4\<close>.  The block is rebuilt without its requests hash, which header
  validation requires from Prague on: a payload whose block is not yet stored is never answered VALID.\<close>

theorem new_payload_v4_never_valid:
  assumes "\<not> body_stored s (e1_block_hash (e3_inner (e4_inner p)))"
    and "new_payload_v4 E tc p blob_hashes root requests s = Some (Inr st, s')"
  shows "ps_status st \<noteq> Valid"
proof
  let ?p1 = "e3_inner (e4_inner p)" and ?cfg = "config_of E (pp_db s)"
  assume v: "ps_status st = Valid"
  from assms(2) obtain txs b where f: "get_active_fork ?cfg (e1_block_number ?p1) (e1_timestamp ?p1) \<ge> Prague"
    and b: "payload_v4_to_block (en_crypto E) p txs root requests ?cfg = Inr b"
    and n: "new_payload_internal E b (e1_block_hash ?p1) (Some blob_hashes) (Some root) True s = Some (Inr st, s')"
    by (auto simp: new_payload_v4_def Let_def rbind_Inr_iff not_less split: if_splits sum.splits)
  from new_payload_internal_valid [OF n v assms(1)] obtain parent where
    vh: "validate_header (en_crypto E) ?cfg (pp_db s) (en_now E) (b_header b) parent = Inr ()" by metis
  note h = payload_v1_to_block_Inr [OF b [unfolded payload_v4_to_block_def payload_v3_to_block_def]]
  have "Paris \<le> Prague" by (simp add: less_eq_hardfork_def)
  with f have "get_active_fork ?cfg (h_number (b_header b)) (h_timestamp (b_header b)) \<ge> Paris"
    unfolding h by (rule order_trans [rotated])
  from late_fork_any_td [OF this] validate_header_ok(12) [OF vh] f show False
    by (simp add: check_prague_def h ensure_Inr_iff)
qed

subsection \<open>Payload attributes\<close>

lemma late_block_fork_hides_times:
  assumes "e \<in> set (config_forks cfg)" and "\<not> fst (snd e)" and "0 < fst e"
  shows "get_active_fork cfg 0 ts \<le> Paris"
proof -
  let ?es = "sort_key fork_sort_key (config_forks cfg)"
  let ?tw = "takeWhile (fork_reached 0 ts) ?es"
  have e: "e \<in> set ?es" "\<not> fork_reached 0 ts e" using assms by (auto simp: fork_reached_def)
  have "\<not> fst (snd x)" if "x \<in> set ?tw" for x
  proof
    assume x: "fst (snd x)"
    from split_list [OF that] obtain as bs where tw: "?tw = as @ x # bs" by blast
    then have "?es = as @ x # bs @ dropWhile (fork_reached 0 ts) ?es"
      by (metis append.assoc append_Cons takeWhile_dropWhile_id)
    moreover have "e \<in> set (dropWhile (fork_reached 0 ts) ?es)"
      using e by (metis Un_iff set_append set_takeWhileD takeWhile_dropWhile_id)
    ultimately obtain cs where cs: "?es = as @ x # cs" "e \<in> set cs" by fastforce
    have "sorted (map fork_sort_key (as @ x # cs))" by (simp flip: cs(1))
    then have "fork_sort_key x \<le> fork_sort_key e" using cs(2) by (simp add: sorted_append)
    with x assms(2) show False by (simp add: fork_sort_key_def less_eq_prod_def)
  qed
  then have b: "snd (snd x) \<le> Paris" if "x \<in> set ?tw" for x
  proof -
    have "x = (fst x, False, snd (snd x))" using \<open>\<And>x. x \<in> set ?tw \<Longrightarrow> \<not> fst (snd x)\<close> [OF that] by (cases x) simp
    moreover have "x \<in> set (config_forks cfg)" using that by (auto dest: set_takeWhileD)
    ultimately show ?thesis by (metis config_forks_block)
  qed
  have "scan_forks 0 ts Frontier ?es \<le> Paris"
  proof (cases "?tw = []")
    case False
    then have "snd (snd (last ?tw)) \<le> Paris" by (intro b) simp
    with False show ?thesis unfolding scan_forks_takeWhile by (cases ?tw) simp_all
  qed (simp add: scan_forks_takeWhile)
  then show ?thesis
    by (auto simp: get_active_fork_def get_active_fork_with_total_difficulty_def Let_def split: option.splits)
qed

text \<open>On a chain with a fork at a block number above 0 (as on the main network) no payload can be requested for a
  fork after the merge.  The fork of the attributes is looked up at block number 0, where the scan stops before the
  first such fork and never comes to the timestamps: version 3 of the call is always refused, and so are withdrawals.\<close>

theorem scheduled_forks_refuse_attributes:
  assumes "e \<in> set (config_forks cfg)" and "\<not> fst (snd e)" and "0 < fst e"
  shows "if version \<ge> 3
    then fork_validation version cfg attr =
      Some (if pa_parent_beacon_block_root attr \<noteq> None then UnsupportedFork v3_message else InvalidPayloadAttributes v3_message)
    else pa_withdrawals attr = None \<or>
      fork_validation version cfg attr = Some (InvalidPayloadAttributes ''unexpected withdrawals in payload attributes'')"
proof -
  have "get_active_fork cfg 0 (pa_timestamp attr) \<le> Paris" by (rule late_block_fork_hides_times [OF assms])
  then have "get_active_fork cfg 0 (pa_timestamp attr) < Cancun" "\<not> Shanghai \<le> get_active_fork cfg 0 (pa_timestamp attr)"
      "\<not> Cancun \<le> get_active_fork cfg 0 (pa_timestamp attr)"
    by (simp_all add: less_eq_hardfork_def less_hardfork_def)
  then show ?thesis by (simp add: fork_validation_def Let_def)
qed

subsection \<open>The fork choice in effect\<close>

lemma set_forkchoice_state [simp]: "get_state (eg_chain (set_forkchoice st n g)) = (st, n)"
  by (auto simp: set_forkchoice_def on_chain_def update_state_def persist_forkchoice_def on_store_def get_state_def split: prod.splits)

lemma set_forkchoice_reads [simp]:
  "stored_header (eg_db (set_forkchoice st n g)) h = stored_header (eg_db g) h"
  "payload_header hs (eg_db (set_forkchoice st n g)) h = payload_header hs (eg_db g) h"
proof -
  obtain r s where s: "update_forkchoice (fc_head st) (Some (fc_safe st)) (Some (fc_finalized st)) (ch_store (eg_chain g)) = (r, s)"
    by fastforce
  have "s_db s = s_db (ch_store (eg_chain g)) \<or> (\<exists>t. s_db s = (eg_db g)\<lparr>t_forkchoice := t\<rparr>)"
  proof (cases r)
    case (Inl e)
    with s show ?thesis unfolding update_forkchoice_def by (auto dest: with_write_Inl)
  next
    case (Inr u)
    with s update_forkchoice_ok show ?thesis by fastforce
  qed
  moreover have "eg_db (set_forkchoice st n g) = eg_db g \<or> eg_db (set_forkchoice st n g) = s_db s"
    by (simp add: set_forkchoice_def on_chain_def update_state_def persist_forkchoice_def on_store_def s)
  ultimately show "stored_header (eg_db (set_forkchoice st n g)) h = stored_header (eg_db g) h"
    "payload_header hs (eg_db (set_forkchoice st n g)) h = payload_header hs (eg_db g) h"
    by (auto simp: stored_header_def header_def read_tbl_def payload_header_def get_payload_by_block_hash_def)
qed

lemma store_payload_state: "get_state (eg_chain (snd (store_payload pid pl g))) = get_state (eg_chain g)"
  by (cases rule: store_payload_cases [where pid = pid and pl = pl and g = g]) simp_all

lemma rebuild_state: "get_state (eg_chain (snd (maybe_rebuild_payload E B pid g))) = get_state (eg_chain g)"
proof (cases rule: maybe_rebuild_cases [where E = E and B = B and pid = pid and g = g])
  case (rebuilt b receipts metas bu parent fee txs)
  show ?thesis
  proof (cases rule: rebuild_with_cases [where E = E and pid = pid and old = "(b, receipts)" and parent = "b_header parent"
        and fee = fee and txs = txs and g = g])
    case (kept r)
    with rebuilt show ?thesis by simp
  next
    case (replaced final rs ms bu' g')
    with rebuilt store_payload_state [of pid "(final, rs, ms, bu')" g] show ?thesis by simp
  qed
qed simp

lemma frame_state_builder:
  "frame (\<lambda>g. get_state (eg_chain g)) (build_empty_payload E h attr pid)"
  "frame (\<lambda>g. get_state (eg_chain g)) (unless_panic (maybe_rebuild_payload E B pid))"
  "frame (\<lambda>g. get_state (eg_chain g)) (\<lambda>g. (Inr x, snd (issue_token pid g)))"
proof -
  show "frame (\<lambda>g. get_state (eg_chain g)) (build_empty_payload E h attr pid)"
    unfolding build_empty_payload_def
    by (intro frame_sbind frame_basic frame_prod) (simp_all add: frame_def build_block_pure store_payload_state)
  show "frame (\<lambda>g. get_state (eg_chain g)) (unless_panic (maybe_rebuild_payload E B pid))"
    using rebuild_state [of E B pid] by (simp add: frame_def unless_panic_def split_beta)
qed (simp add: frame_def)

lemma build_new_payload_state:
  "get_state (eg_chain (snd (build_new_payload E B h attr status g))) = get_state (eg_chain g)"
proof -
  let ?pid = "bl_payload_id B h attr"
  have "frame (\<lambda>g. get_state (eg_chain g)) (sbind (reads (\<lambda>g. block_or_payload E h (eg_db g))) (\<lambda>found.
      sbind (reads (\<lambda>_. ok_or found (InvalidForkchoiceState ''Head block not found for payload building''))) (\<lambda>parent.
      sseq (reads (\<lambda>_. ensure (pa_timestamp attr > h_timestamp (b_header parent)) (InvalidPayloadAttributes ''Invalid timestamp'')))
     (sseq (build_empty_payload E h attr ?pid) (sseq (unless_panic (maybe_rebuild_payload E B ?pid))
        (\<lambda>g. (Inr (Some ?pid), snd (issue_token ?pid g))))))))"
    by (intro frame_sbind frame_sseq frame_basic frame_state_builder)
  then show ?thesis unfolding frame_def build_new_payload_def Let_def by simp
qed

text \<open>What an update that is not refused went through.\<close>

lemma answer_attributes_Inr:
  assumes "answer_attributes E B cfg st attrs v status g = (Inr u, g')"
  shows "fu_status u = status" "get_state (eg_chain g') = get_state (eg_chain g)"
  using assms build_new_payload_state [of E B "fc_head st" _ status g]
  by (auto simp: answer_attributes_def split: option.splits prod.splits if_splits) (metis snd_conv)+

lemma head_objection_not_valid: "head_objection E c h st = Some s \<Longrightarrow> ps_status s \<noteq> Valid"
  by (auto simp: head_objection_def marked_answer_def status_of_def split: payload_status_enum.splits option.splits if_splits)

lemma forkchoice_updated_cases:
  assumes "forkchoice_updated E B st attrs v g = Some (r, g')"
  obtains (refused) u where "r = Inr u" "g' = g" "ps_status (fu_status u) \<noteq> Valid" "fu_payload_id u = None"
  | (objected) e where "r = Inl e" "g' = g" "check_forkchoice E (eg_chain g) st = Inl e"
  | (stuck) e n where "r = Inl e" "check_forkchoice E (eg_chain g) st = Inr n" "advance_head E st n g = Some (Inl e, g')"
  | (moved) n g1 where "check_forkchoice E (eg_chain g) st = Inr n" "advance_head E st n g = Some (Inr (), g1)"
      "ps_status (engine_payload_status E (eg_chain g) (fc_head st)) = Valid"
      "(r, g') = answer_attributes E B (config_of E (eg_db g)) st attrs v (engine_payload_status E (eg_chain g) (fc_head st)) g1"
proof -
  let ?status = "engine_payload_status E (eg_chain g) (fc_head st)"
  show ?thesis
  proof (cases "head_objection E (eg_chain g) (fc_head st) (ps_status ?status)")
    case (Some s)
    with assms have "r = Inr \<lparr>fu_status = s, fu_payload_id = None\<rparr>" "g' = g" by (simp_all add: forkchoice_updated_def)
    then show ?thesis by (rule refused) (simp_all add: head_objection_not_valid [OF Some])
  next
    case None
    show ?thesis
    proof (cases "ps_status ?status = Valid")
      case False
      with assms None have "Some (Inr \<lparr>fu_status = ?status, fu_payload_id = None\<rparr>, g) = Some (r, g')"
        unfolding forkchoice_updated_def Let_def by (simp only: option.case if_True not_False_eq_True)
      then have "r = Inr \<lparr>fu_status = ?status, fu_payload_id = None\<rparr>" "g' = g" by blast+
      then show ?thesis by (rule refused) (simp_all add: False)
    next
      case True
      show ?thesis
      proof (cases "check_forkchoice E (eg_chain g) st")
        case (Inl e)
        with assms None True have "r = Inl e" "g' = g" by (simp_all add: forkchoice_updated_def)
        then show ?thesis using Inl by (rule objected)
      next
        case (Inr n)
        from assms None True Inr obtain a g1 where a: "advance_head E st n g = Some (a, g1)"
          by (cases "advance_head E st n g") (auto simp: forkchoice_updated_def)
        show ?thesis
        proof (cases a)
          case (Inl e)
          with assms None True \<open>check_forkchoice E (eg_chain g) st = Inr n\<close> a stuck [of e n] show ?thesis
            by (simp add: forkchoice_updated_def)
        next
          case (Inr x)
          with assms None True \<open>check_forkchoice E (eg_chain g) st = Inr n\<close> a moved [of n g1] show ?thesis
            by (simp add: forkchoice_updated_def Let_def)
        qed
      qed
    qed
  qed
qed

text \<open>C25: an update whose head is not answered VALID, or whose safe or finalized block is refused, changes nothing at all,
  neither the fork choice nor the chain, the pool or the events, and starts no payload.\<close>

theorem refused_forkchoice_changes_nothing:
  assumes "forkchoice_updated E B st attrs v g = Some (r, g')"
    and "case r of Inr u \<Rightarrow> ps_status (fu_status u) \<noteq> Valid | Inl e \<Rightarrow> check_forkchoice E (eg_chain g) st = Inl e"
  shows "g' = g \<and> (case r of Inr u \<Rightarrow> fu_payload_id u = None | Inl e \<Rightarrow> True)"
  using assms(1)
proof (cases rule: forkchoice_updated_cases)
  case (moved n g1)
  show ?thesis
  proof (cases r)
    case (Inl e)
    with moved(1) assms(2) show ?thesis by simp
  next
    case (Inr u)
    with moved(4) have "fu_status u = engine_payload_status E (eg_chain g) (fc_head st)"
      by (intro answer_attributes_Inr(1)) (rule sym, simp)
    with moved(3) assms(2) Inr show ?thesis by simp
  qed
qed (use assms(2) in auto)

lemma advance_head_state:
  assumes "advance_head E st n g = Some (Inr (), g')"
  shows "get_state (eg_chain g') =
    (st, case or_else (stored_header (eg_db g) (fc_head st)) (payload_header (en_hash E) (eg_db g) (fc_head st)) of
       Some hdr \<Rightarrow> h_number hdr
     | None \<Rightarrow> if n = 0 \<and> fc_head st \<noteq> 0 then unwrap_or (ok_flat (block_number (fc_head st) (eg_db g))) 0 else n)"
  using assms by (auto simp: advance_head_def Let_def split: option.splits sum.splits prod.splits)

lemma check_forkchoice_Inr:
  assumes "check_forkchoice E c st = Inr n" and "fc_head st \<noteq> 0" and "fc_header (en_hash E) c (fc_head st) = Some hdr"
  shows "n = h_number hdr" "check_safe_block (en_hash E) c st hdr = None" "check_finalized_block (en_hash E) c st hdr = None"
  using assms by (auto simp: check_forkchoice_def Let_def or_else_eq_None split: option.splits)

lemma check_forkchoice_without_header:
  "check_forkchoice E c st = Inr n \<Longrightarrow> fc_head st \<noteq> 0 \<Longrightarrow> fc_header (en_hash E) c (fc_head st) = None \<Longrightarrow>
    check_header_without_headheader c st = None"
  by (simp add: check_forkchoice_def Let_def split: option.splits)

text \<open>C5: a fork choice answered VALID is in effect.  It passed the checks of its safe and finalized block against the
  chain it was made on, and afterwards it is the fork choice the node works with, with the number of the head's header;
  the answer names the head as the latest valid block, also when a payload was built.\<close>

theorem forkchoice_in_effect:
  assumes "forkchoice_updated E B st attrs v g = Some (Inr u, g')" and "ps_status (fu_status u) = Valid"
  shows "fst (get_state (eg_chain g')) = st \<and> ps_latest_valid_hash (fu_status u) = Some (fc_head st) \<and>
    (fc_head st = 0 \<or> (case fc_header (en_hash E) (eg_chain g) (fc_head st) of
       Some hdr \<Rightarrow> (snd (get_state (eg_chain g')) = h_number hdr \<or> h_number hdr = 0) \<and>
         check_safe_block (en_hash E) (eg_chain g) st hdr = None \<and> check_finalized_block (en_hash E) (eg_chain g) st hdr = None
     | None \<Rightarrow> check_header_without_headheader (eg_chain g) st = None))"
  using assms(1)
proof (cases rule: forkchoice_updated_cases)
  case (moved n g1)
  let ?c = "eg_chain g" and ?head = "fc_head st"
  note a = answer_attributes_Inr [OF moved(4) [symmetric]]
  have s: "get_state (eg_chain g') =
      (st, case or_else (stored_header (eg_db g) ?head) (payload_header (en_hash E) (eg_db g) ?head) of
         Some hdr \<Rightarrow> h_number hdr
       | None \<Rightarrow> if n = 0 \<and> ?head \<noteq> 0 then unwrap_or (ok_flat (block_number ?head (eg_db g))) 0 else n)"
    using advance_head_state [OF moved(2)] a(2) by simp
  have l: "ps_latest_valid_hash (fu_status u) = Some ?head"
    using moved(3) a(1) by (auto simp: engine_payload_status_def determine_payload_status_def status_of_def split: if_splits)
  show ?thesis
  proof (cases "?head = 0")
    case False
    show ?thesis
    proof (cases "fc_header (en_hash E) ?c ?head")
      case (Some hdr)
      have "snd (get_state (eg_chain g')) = h_number hdr \<or> h_number hdr = 0"
        using Some check_forkchoice_Inr(1) [OF moved(1) False Some] unfolding s fc_header_def
        by (cases "stored_header (eg_db g) ?head"; cases "payload_header (en_hash E) (eg_db g) ?head") auto
      then show ?thesis using s l Some check_forkchoice_Inr(2,3) [OF moved(1) False Some] by simp
    next
      case None
      then show ?thesis using s l check_forkchoice_without_header [OF moved(1) False] by simp
    qed
  qed (simp add: s l)
qed (use assms(2) in auto)

lemma map_sum_Inl: "map_sum f h x = Inl e \<longleftrightarrow> (\<exists>a. x = Inl a \<and> e = f a)"
  by (cases x) auto

lemma for_each_error:
  "for_each xs f s = (Inl e, s') \<Longrightarrow> \<exists>x s1 s2. f x s1 = (Inl e, s2)"
proof (induction xs arbitrary: s)
  case (Cons x xs)
  obtain r s1 where "f x s = (r, s1)" by fastforce
  with Cons show ?case by (cases r) (auto simp: sseq_def sbind_def)
qed (simp add: ret_def)

lemma promote_branch_error:
  assumes "promote_branch E blocks g = (Inl e, g')"
  shows "e = RpcPanic \<or> e = Internal ''Canonical marking failed'' \<or>
    (\<exists>msg. e = Internal (''Failed to execute block from payload during promotion: '' @ msg))"
proof (cases "for_each blocks (commit_payload E) g")
  case (Pair r g1)
  show ?thesis
  proof (cases r)
    case (Inl e')
    with assms Pair have "e' = e" by (auto simp: promote_branch_def sseq_def sbind_def ret_def split: if_splits)
    with Pair Inl obtain b g2 g3 where "commit_payload E b g2 = (Inl e, g3)" using for_each_error by metis
    then show ?thesis by (auto simp: commit_payload_def split: if_splits prod.splits sum.splits)
  next
    case (Inr u)
    with assms Pair show ?thesis
      by (auto simp: promote_branch_def sseq_def sbind_def ret_def map_err_def map_sum_Inl split: if_splits prod.splits sum.splits)
  qed
qed

lemma readd_blobs_error: "readd_blobs bu hs i m = (Inl e, m') \<Longrightarrow> e = RpcPanic"
  by (induction bu hs i m rule: readd_blobs.induct) (auto split: if_splits)

lemma discarded_walk_error:
  assumes "discarded_walk hs d ancestor hash txs m = Some y"
  shows "fst y = Inl e \<Longrightarrow> e = RpcPanic"
proof -
  have "fst y = Inl e \<longrightarrow> e = RpcPanic"
  proof (rule discarded_walk.raw_induct [OF _ assms, where P = "\<lambda>hs d ancestor hash txs m y. fst y = Inl e \<longrightarrow> e = RpcPanic"])
    fix walk :: "(header \<Rightarrow> b256) \<Rightarrow> db \<Rightarrow> b256 \<Rightarrow> b256 \<Rightarrow> tx list \<Rightarrow> mempool \<Rightarrow> ((rpc_error + tx list) \<times> mempool) option"
    fix hs d ancestor hash txs m y
    assume IH: "\<And>hs d ancestor hash txs m y. walk hs d ancestor hash txs m = Some y \<Longrightarrow> fst y = Inl e \<longrightarrow> e = RpcPanic"
    assume "(if hash = 0 \<or> hash = ancestor then Some (Inr txs, m)
      else case ok_flat (block_by_hash hs hash d) of
          None \<Rightarrow> Some (Inr txs, m)
        | Some b \<Rightarrow>
            (case (case get_payload_by_block_hash hs hash d of None \<Rightarrow> (Inr (), m)
                   | Some pl \<Rightarrow> readd_blobs (snd (snd (snd pl))) (concat (map blob_hashes_of (b_transactions (b_body b)))) 0 m) of
               (Inl e, m') \<Rightarrow> Some (Inl e, m')
             | (Inr _, m') \<Rightarrow> walk hs d ancestor (h_parent_hash (b_header b)) (txs @ b_transactions (b_body b)) m')) = Some y"
    then show "fst y = Inl e \<longrightarrow> e = RpcPanic"
      using IH readd_blobs_error by (auto split: if_splits option.splits prod.splits sum.splits)
  qed
  then show "fst y = Inl e \<Longrightarrow> e = RpcPanic" by blast
qed

lemma handle_reorgs_error: "handle_reorgs_for_mempool E st a b g = Some (Inl e, g') \<Longrightarrow> e = RpcPanic"
  using discarded_walk_error
  by (auto simp: handle_reorgs_for_mempool_def Let_def split: option.splits prod.splits sum.splits)

lemma check_forkchoice_error: "check_forkchoice E c st = Inl e \<Longrightarrow> \<exists>msg. e = InvalidForkchoiceState msg"
  by (auto simp: check_forkchoice_def check_safe_block_def check_finalized_block_def check_header_without_headheader_def
      or_else_def Let_def split: if_splits option.splits)

lemma answer_attributes_error:
  "answer_attributes E B cfg st attrs v status g = (Inl e, g') \<Longrightarrow> e \<noteq> Internal msg"
  by (auto simp: answer_attributes_def check_attributes_def fork_validation_def Let_def
      split: if_splits option.splits prod.splits)

text \<open>When the reversal of the old branch fails, the fork choice the node works with is the one it had before the
  call.\<close>

theorem failed_revert_restores_forkchoice:
  assumes "forkchoice_updated E B st attrs v g = Some (Inl (Internal ''Revert failed''), g')"
  shows "get_state (eg_chain g') = get_state (eg_chain g)"
  using assms
proof (cases rule: forkchoice_updated_cases)
  case (stuck e n)
  have p: "promote_branch E blocks g3 \<noteq> (Inl (Internal ''Revert failed''), g4)" for blocks g3 g4
    using promote_branch_error by fastforce
  have h: "handle_reorgs_for_mempool E st a b g3 \<noteq> Some (Inl (Internal ''Revert failed''), g4)" for a b g3 g4
    using handle_reorgs_error by fastforce
  from stuck show ?thesis
    by (auto simp: advance_head_def undo_branch_def Let_def p h split: option.splits sum.splits prod.splits if_splits)
next
  case (objected e)
  with check_forkchoice_error [OF objected(3)] show ?thesis by auto
next
  case (moved n g1)
  with answer_attributes_error [OF moved(4) [symmetric]] show ?thesis by blast
qed simp

subsection \<open>The order of a new branch\<close>

lemma frame_listener_commit: "frame eg_listener (commit_payload E b)"
  unfolding frame_def commit_payload_def
  by (auto simp: on_proc_def split: prod.split sum.split)

lemma notify_all: "eg_listener (fold (\<lambda>b. notify (f b)) bs g) = eg_listener g @ map f bs"
  by (induction bs arbitrary: g) (simp_all add: notify_def)

lemma promote_branch_events:
  assumes "promote_branch E blocks g = (Inr (), g')"
  shows "eg_listener g' = eg_listener g @ map CanonicalBlock blocks"
proof (cases "blocks = []")
  case True
  with assms show ?thesis by (simp add: promote_branch_def ret_def)
next
  case False
  with assms obtain g1 g2 where g1: "for_each blocks (commit_payload E) g = (Inr (), g1)"
    and g2: "map_err (\<lambda>_. Internal ''Canonical marking failed'') (on_chain (mark_branch_canonical (en_hash E) blocks)) g1 = (Inr (), g2)"
    and g': "g' = fold (\<lambda>b. notify (CanonicalBlock b)) blocks g2"
    by (auto simp: promote_branch_def sseq_Inr_iff)
  have "eg_listener g1 = eg_listener g"
    by (rule frameD [OF frame_for_each g1]) (rule frame_listener_commit)
  moreover have "eg_listener g2 = eg_listener g1"
    using g2 by (auto simp: map_err_def on_chain_def split: prod.splits)
  ultimately show ?thesis by (simp add: g' notify_all)
qed

lemma promote_queued_base_fee [simp]: "mp_base_fee (promote_queued bs a n m) = mp_base_fee m"
proof -
  have "mp_base_fee (promote_loop bs a n m) = mp_base_fee m"
  proof (induction bs a n m rule: promote_loop.induct)
    case (1 bs a n m)
    then show ?case
      by (subst promote_loop.simps) (auto simp: Let_def split: option.split sum.split)
  qed
  then show ?thesis by (simp add: promote_queued_def Let_def)
qed

lemma remove_transactions_base_fee [simp]: "mp_base_fee (remove_transactions hs m) = mp_base_fee m"
proof -
  have "mp_base_fee (fold drop_data ts m) = mp_base_fee m" for ts m by (induction ts arbitrary: m) simp_all
  then show ?thesis by (simp add: remove_transactions_def Let_def)
qed

lemma revalidate_base_fee [simp]: "mp_base_fee (snd (revalidate bs d as m)) = mp_base_fee m"
proof -
  have "mp_base_fee (fold (promote_sender bs d) ps m) = mp_base_fee m" for ps m
    by (induction ps arbitrary: m) (simp_all add: promote_sender_def Let_def)
  then show ?thesis
    by (cases rule: revalidate_cases [where bs = bs and d = d and as = as and m = m]) simp_all
qed

lemma update_base_fee_sets: "mp_base_fee (snd (update_base_fee bs fee d m)) = fee"
  by (simp add: update_base_fee_def Let_def)

lemma canonical_block_fee:
  assumes "process_canonical_block (pool_ops bs) d b m = (Inr (), m')"
  shows "mp_base_fee m' = ucast (unwrap_or (h_base_fee_per_gas (b_header b)) 0)"
proof -
  let ?fee = "ucast (unwrap_or (h_base_fee_per_gas (b_header b)) 0) :: u256"
  have ops: "op_update_base_fee (pool_ops bs) = update_base_fee bs" "op_revalidate (pool_ops bs) = revalidate bs"
    by (simp_all add: pool_ops_def)
  define c signers where "c \<longleftrightarrow> ?fee \<le> op_base_fee (pool_ops bs) (after_removal (pool_ops bs) b m) \<and>
      List.map_filter tx_signer (b_transactions (b_body b)) \<noteq> []"
    and "signers = sort (remdups (List.map_filter tx_signer (b_transactions (b_body b))))"
  obtain v m2 where u: "update_base_fee bs ?fee d (after_removal (pool_ops bs) b m) = (Inr v, m2)"
    and r: "(if c then revalidate bs d (Some signers) else ret ()) m2 = (Inr (), m')"
    using assms unfolding pool.canonical_block_unfold Let_def sseq_Inr_iff ops c_def [symmetric] signers_def [symmetric]
    by (elim exE conjE)
  from u have "mp_base_fee m2 = ?fee"
    using update_base_fee_sets [of bs ?fee d "after_removal (pool_ops bs) b m"] by simp
  moreover have "mp_base_fee m' = mp_base_fee m2"
  proof (cases c)
    case True
    with r have "m' = snd (revalidate bs d (Some signers) m2)" by simp
    then show ?thesis by simp
  qed (use r in \<open>simp add: ret_def\<close>)
  ultimately show ?thesis by simp
qed

text \<open>A new branch of several blocks leaves the pool with the base fee of its oldest block.  The blocks of a
  reorganisation are collected from the new head backwards, and the engine announces them in that order; the listener sets the
  pool's base fee from each in turn.\<close>

theorem branch_leaves_oldest_base_fee:
  assumes "promote_branch E (blocks @ [oldest]) g = (Inr (), g')"
    and "listener_run (pool_ops bs) (map (\<lambda>b. (d, CanonicalBlock b)) (blocks @ [oldest])) m = (Inr (), m')"
  shows "eg_listener g' = eg_listener g @ map CanonicalBlock (blocks @ [oldest]) \<and>
    mp_base_fee m' = ucast (unwrap_or (h_base_fee_per_gas (b_header oldest)) 0)"
proof
  show "eg_listener g' = eg_listener g @ map CanonicalBlock (blocks @ [oldest])" by (rule promote_branch_events [OF assms(1)])
  from assms(2) obtain m1 where "process_canonical_block (pool_ops bs) d oldest m1 = (Inr (), m')"
    by (auto simp: listener_run_def for_each_append sseq_Inr_iff process_event_def ret_def)
  then show "mp_base_fee m' = ucast (unwrap_or (h_base_fee_per_gas (b_header oldest)) 0)" by (rule canonical_block_fee)
qed

subsection \<open>Witnesses\<close>

definition prague_config :: chain_config where
  "prague_config = devnet_config\<lparr>prague_time := Some 0\<rparr>"

lemma prague_fork: "get_active_fork prague_config n ts = Prague"
proof -
  have "sort_key fork_sort_key (config_forks prague_config) = config_forks prague_config"
    by (simp add: prague_config_def devnet_config_def config_forks_def fork_opt_def fork_sort_key_def less_eq_prod_def)
  then show ?thesis
    unfolding get_active_fork_def get_active_fork_with_total_difficulty_def
    by (simp add: prague_config_def devnet_config_def config_forks_def fork_opt_def fork_reached_def less_hardfork_def)
qed

definition prague_env :: "unit engine_env" where
  "prague_env = cancun_env\<lparr>en_exec := config_exec\<lparr>x_chain_config := (\<lambda>_. Inr (Some prague_config))\<rparr>\<rparr>"

definition prague_payload :: execution_payload_v4 where
  "prague_payload = \<lparr>e4_inner = to_execution_payload_v3 devnet_crypto sample_codec cancun_block prague_config, e4_block_access_list = []\<rparr>"

lemma cancun_env_hash [simp]: "hash_slow devnet_crypto = sample_hash" "en_crypto cancun_env = devnet_crypto"
  by (auto simp: cancun_env_def config_exec_def sample_exec_def devnet_crypto_def sample_hash_def)

theorem new_payload_v4_never_valid_witness:
  "\<exists>st s'. new_payload_v4 prague_env sample_codec
     (prague_payload\<lparr>e4_inner := (e4_inner prague_payload)\<lparr>e3_inner := (e3_inner (e4_inner prague_payload))\<lparr>e1_block_hash := 8\<rparr>\<rparr>\<rparr>)
     [] 0 [] plain_start = Some (Inr st, s') \<and> ps_status st \<noteq> Valid"
proof -
  let ?p = "prague_payload\<lparr>e4_inner := (e4_inner prague_payload)\<lparr>e3_inner := (e3_inner (e4_inner prague_payload))\<lparr>e1_block_hash := 8\<rparr>\<rparr>\<rparr>"
  have c: "config_of prague_env d = prague_config" "en_hash prague_env h = ucast (h_number h) + 1" for d h
    by (simp_all add: prague_env_def cancun_env_def config_of_def config_exec_def sample_exec_def devnet_crypto_def)
  have p: "e1_transactions (e3_inner (e4_inner prague_payload)) = [[4]]" "e1_base_fee_per_gas (e3_inner (e4_inner prague_payload)) = 900"
      "e1_block_number (e3_inner (e4_inner prague_payload)) = 6"
    by (simp_all add: prague_payload_def to_execution_payload_v3_def to_execution_payload_v2_def to_execution_payload_v1_def
        cancun_block_def sample_codec_def devnet_tx_def devnet_header_def Let_def prague_fork less_eq_hardfork_def)
  have "decode_transactions sample_codec [[4]] = Inr [devnet_tx Eip1559 4 []]" by (simp add: sample_codec_def)
  then obtain st s' where "new_payload_v4 prague_env sample_codec ?p [] 0 [] plain_start = Some (Inr st, s')"
    by (cases "body_stored plain_start 7") (auto simp: new_payload_v4_def c prague_fork p payload_v4_to_block_def payload_v3_to_block_def payload_v1_to_block_def
        Let_def new_payload_internal_def less_eq_hardfork_def)
  moreover have "\<not> body_stored plain_start (e1_block_hash (e3_inner (e4_inner ?p)))" 
    by (simp add: body_stored_def block_body_by_hash_def read_tbl_def plain_processor_def new_provider_def empty_db_def tbl_get_def tbl_empty_def)
  ultimately show ?thesis using new_payload_v4_never_valid by blast
qed

theorem scheduled_forks_refuse_attributes_witness:
  "fork_validation 3 mainnet_config sample_attrs = Some (UnsupportedFork v3_message) \<or>
   fork_validation 3 mainnet_config sample_attrs = Some (InvalidPayloadAttributes v3_message)"
proof -
  have "(1150000, False, Homestead) \<in> set (config_forks mainnet_config)"
    by (simp add: config_forks_def mainnet_config_def fork_opt_def)
  from scheduled_forks_refuse_attributes [OF this, of 3 sample_attrs] show ?thesis by (simp split: if_splits)
qed

definition branch_engine :: "chain \<Rightarrow> engine" where
  "branch_engine c = (empty_engine empty_db)\<lparr>eg_proc := (eg_proc (empty_engine empty_db))\<lparr>pp_chain := c\<rparr>\<rparr>"

lemma branch_engine_chain [simp]: "eg_chain (branch_engine c) = c" "eg_listener (branch_engine c) = []"
  by (simp_all add: branch_engine_def empty_engine_def)

theorem refused_forkchoice_changes_nothing_witness:
  "\<exists>r. forkchoice_updated cancun_env sample_builder \<lparr>fc_head = 9, fc_safe = 0, fc_finalized = 0\<rparr> (Some sample_attrs) 3
     (branch_engine reorg_chain) = Some (r, branch_engine reorg_chain)"
proof -
  let ?st = "\<lparr>fc_head = 9, fc_safe = 0, fc_finalized = 0\<rparr>" and ?g = "branch_engine reorg_chain"
  have t: "get_invalidation_reason reorg_chain 9 = None" "is_invalid reorg_chain 9 = False" "tree_header (ch_tree reorg_chain) 9 = None"
    by (simp_all add: is_invalid_def get_invalidation_reason_def tree_invalidation_reason_def tree_header_def get_block_def
        reorg_chain_def sample_chain_def)
  have s: "engine_payload_status cancun_env reorg_chain 9 = \<lparr>ps_status = Syncing, ps_latest_valid_hash = None\<rparr>"
    by (simp add: engine_payload_status_def determine_payload_status_def reorg_chain_reads t)
  moreover have "get_header_from_anywhere cancun_env reorg_chain 9 = None"
    by (simp add: get_header_from_anywhere_def payload_header_def reorg_chain_reads t)
  ultimately obtain r g' where r: "forkchoice_updated cancun_env sample_builder ?st (Some sample_attrs) 3 ?g = Some (r, g')"
    "case r of Inr u \<Rightarrow> ps_status (fu_status u) \<noteq> Valid | Inl e \<Rightarrow> False"
    by (simp add: forkchoice_updated_def head_objection_def t)
  then have "case r of Inr u \<Rightarrow> ps_status (fu_status u) \<noteq> Valid
      | Inl e \<Rightarrow> check_forkchoice cancun_env (eg_chain ?g) ?st = Inl e" by (cases r) simp_all
  from refused_forkchoice_changes_nothing [OF r(1) this] r(1) show ?thesis by auto
qed

theorem forkchoice_in_effect_witness:
  "\<exists>u g'. forkchoice_updated cancun_env sample_builder \<lparr>fc_head = 3, fc_safe = 0, fc_finalized = 0\<rparr> None 3
     (branch_engine (reorg_chain\<lparr>ch_fc := \<lparr>fc_head = 3, fc_safe = 3, fc_finalized = 3\<rparr>\<rparr>)) = Some (Inr u, g') \<and>
     get_state (eg_chain g') = (\<lparr>fc_head = 3, fc_safe = 0, fc_finalized = 0\<rparr>, 2)"
proof -
  let ?st = "\<lparr>fc_head = 3, fc_safe = 0, fc_finalized = 0\<rparr>"
    and ?c = "reorg_chain\<lparr>ch_fc := \<lparr>fc_head = 3, fc_safe = 3, fc_finalized = 3\<rparr>\<rparr>"
  let ?g = "branch_engine ?c"
  have d: "ch_db ?c = reorg_db" using reorg_chain_db(1) by simp
  have n: "h_number (devnet_header 2 102 21000 900 0) = 2" by (simp add: devnet_header_def)
  have status: "engine_payload_status cancun_env ?c 3 = status_of Valid (Some 3)"
    by (simp only: engine_payload_status_def d reorg_chain_reads) simp
  have hdr: "fc_header sample_hash ?c 3 = Some (sample_header 2)"
    by (simp only: fc_header_def d reorg_chain_reads) simp
  then have check: "check_forkchoice cancun_env ?c ?st = Inr 2"
    by (simp add: check_forkchoice_def check_safe_block_def check_finalized_block_def n)
  have walk: "resolve_reorg sample_hash c 3 3 = Some (Inr (reorg_context_of 3 3 ([], Some 3)))" for c
    by (simp add: resolve_reorg_def reorg_walk.simps)
  have "stored_header (eg_db ?g) 3 = Some (sample_header 2)" by (simp add: d reorg_chain_reads)
  then obtain g' where "advance_head cancun_env ?st 2 ?g = Some (Inr (), g')"
    by (auto simp: advance_head_def Let_def get_state_def walk reorg_context_of_def undo_branch_def promote_branch_def ret_def)
  then obtain u where u: "forkchoice_updated cancun_env sample_builder ?st None 3 ?g = Some (Inr u, g')" "ps_status (fu_status u) = Valid"
    by (auto simp: forkchoice_updated_def status head_objection_def check answer_attributes_def status_of_def)
  from forkchoice_in_effect [OF u] hdr show ?thesis
    using u(1) by (auto simp: n prod_eq_iff)
qed

text \<open>A database whose commits fail.\<close>

definition stuck_chain :: chain where
  "stuck_chain = reorg_chain\<lparr>ch_store := (ch_store reorg_chain)\<lparr>s_commits := False\<rparr>, ch_fc := \<lparr>fc_head = 9, fc_safe = 0, fc_finalized = 0\<rparr>\<rparr>"

lemma stuck_write: "\<not> s_commits s \<Longrightarrow> \<exists>e. with_write m s = (Inl e, s)"
  by (auto simp: with_write_def with_write_then_def split: prod.split sum.split)

lemma stuck_forkchoice:
  assumes "\<not> s_commits (ch_store c)"
  shows "set_forkchoice st n (branch_engine c) = branch_engine (c\<lparr>ch_fc := st, ch_number := n\<rparr>)"
proof -
  obtain e where "update_forkchoice (fc_head st) (Some (fc_safe st)) (Some (fc_finalized st)) (ch_store c) = (Inl e, ch_store c)"
    using stuck_write [OF assms] unfolding update_forkchoice_def by blast
  then show ?thesis
    by (auto simp: set_forkchoice_def on_chain_def update_state_def persist_forkchoice_def on_store_def
        branch_engine_def empty_engine_def)
qed

lemma stuck_revert:
  assumes "\<not> s_commits (ch_store c)" and "ch_db c = reorg_db" and "ch_number c = 2"
  shows "\<exists>e. revert_to_height dec 1 c = (Inl e, c)"
proof -
  obtain e where "remove_change_set 2 (ch_store c) = (Inl e, ch_store c)"
    using stuck_write [OF assms(1)] unfolding remove_change_set_def by blast
  moreover have "account_change_set 2 reorg_db = Inr None" "storage_change_set 2 reorg_db = Inr None"
    by (simp_all add: account_change_set_def storage_change_set_def read_tbl_def)
      (simp_all add: reorg_db_def empty_db_def tbl_get_def tbl_empty_def)
  ultimately show ?thesis
    by (simp add: revert_to_height_def get_head_def assms inclusive_range_def revert_block_def sseq_def sbind_def reads_def ret_def
        on_store_def)
qed

theorem failed_revert_restores_forkchoice_witness:
  "\<exists>g'. forkchoice_updated cancun_env sample_builder \<lparr>fc_head = 3, fc_safe = 0, fc_finalized = 0\<rparr> None 3
     (branch_engine stuck_chain) = Some (Inl (Internal ''Revert failed''), g') \<and>
     fc_head (fst (get_state (eg_chain g'))) = 9"
proof -
  let ?st = "\<lparr>fc_head = 3, fc_safe = 0, fc_finalized = 0\<rparr>"
  let ?g = "branch_engine stuck_chain" and ?c = "stuck_chain\<lparr>ch_fc := ?st, ch_number := 2, ch_sync := SyncNone\<rparr>"
  have d: "ch_db stuck_chain = reorg_db" "\<not> s_commits (ch_store stuck_chain)" "get_state stuck_chain = (\<lparr>fc_head = 9, fc_safe = 0, fc_finalized = 0\<rparr>, 1)"
    using reorg_chain_db(1,3) by (simp_all add: stuck_chain_def get_state_def)
  have n: "h_number (devnet_header 2 102 21000 900 0) = 2" "h_parent_hash (devnet_header 2 102 21000 900 0) = 2"
    "h_number (devnet_header 1 101 21000 900 0) = 1" by (simp_all add: devnet_header_def)
  have status: "engine_payload_status cancun_env stuck_chain 3 = status_of Valid (Some 3)"
    by (simp add: engine_payload_status_def d reorg_chain_reads)
  have check: "check_forkchoice cancun_env stuck_chain ?st = Inr 2"
    by (simp add: check_forkchoice_def check_safe_block_def check_finalized_block_def n fc_header_def d reorg_chain_reads)
  have walk: "resolve_reorg sample_hash ?c 9 3 = Some (Inr \<lparr>common_ancestor_hash = 2,
      new_canonical_blocks = [\<lparr>b_header = sample_header 2, b_body = reorg_body\<rparr>], is_reorg = True\<rparr>)"
  proof -
    have "reorg_walk sample_hash ?c 9 [] 3 = Some (Inr ([\<lparr>b_header = sample_header 2, b_body = reorg_body\<rparr>], Some 2))"
      by (subst reorg_walk.simps, simp add: marked_canonical_def reorg_chain_reads reorg_chain_block d n)
        (subst reorg_walk.simps, simp add: marked_canonical_def reorg_chain_reads d)
    then show ?thesis by (simp add: resolve_reorg_def reorg_context_of_def)
  qed
  have revert: "\<exists>e. revert_to_height dec 1 ?c = (Inl e, ?c)" for dec
    by (rule stuck_revert) (simp_all add: d)
  have "\<exists>g'. advance_head cancun_env ?st 2 ?g = Some (Inl (Internal ''Revert failed''), g')"
  proof -
    have g1: "set_forkchoice ?st 2 ?g = branch_engine (stuck_chain\<lparr>ch_fc := ?st, ch_number := 2\<rparr>)"
      by (rule stuck_forkchoice) (rule d)
    have up: "(branch_engine c)\<lparr>eg_proc := (eg_proc (branch_engine c))\<lparr>pp_chain := c'\<rparr>\<rparr> = branch_engine c'" for c c'
      by (simp add: branch_engine_def empty_engine_def)
    obtain e where "engine_revert_to_height cancun_env 1 (branch_engine ?c) = (Inl e, branch_engine ?c)"
      using revert [of "dec_account (x_state (en_exec cancun_env))"]
      by (auto simp: engine_revert_to_height_def on_chain_def sseq_def sbind_def up)
    then show ?thesis
      by (simp add: advance_head_def Let_def g1 d reorg_chain_reads up set_sync_status_def walk n undo_branch_def)
  qed
  then obtain g' where g': "forkchoice_updated cancun_env sample_builder ?st None 3 ?g = Some (Inl (Internal ''Revert failed''), g')"
    by (auto simp: forkchoice_updated_def status head_objection_def check status_of_def)
  from failed_revert_restores_forkchoice [OF g'] d(3) g' show ?thesis by simp
qed

text \<open>A new branch of two blocks, the newer one with the higher base fee.\<close>

definition branch_block :: "u64 \<Rightarrow> u64 \<Rightarrow> block" where
  "branch_block n fee = \<lparr>b_header = devnet_header n (100 + n) 0 fee 0, b_body = \<lparr>b_transactions = [], b_ommers = [], b_withdrawals = None\<rparr>\<rparr>"

definition branch_chain :: chain where
  "branch_chain = reorg_chain\<lparr>ch_store := new_provider (reorg_db\<lparr>t_block_bodies :=
     [(3, b_body (branch_block 2 900)), (4, b_body (branch_block 3 950))]\<rparr>)\<rparr>"

theorem branch_leaves_oldest_base_fee_witness:
  "\<exists>g' m'. promote_branch cancun_env [branch_block 3 950, branch_block 2 900] (branch_engine branch_chain) = (Inr (), g') \<and>
     eg_listener g' = [CanonicalBlock (branch_block 3 950), CanonicalBlock (branch_block 2 900)] \<and>
     listener_run (pool_ops (\<lambda>_ _. Inr 0)) (map (\<lambda>ev. (empty_db, ev)) (eg_listener g')) (mempool_new 7) = (Inr (), m') \<and> mp_base_fee m' = 900"
proof -
  let ?bs = "[branch_block 3 950] @ [branch_block 2 900]" and ?g = "branch_engine branch_chain"
  have hd: "healthy_chain branch_chain"
    by (simp add: branch_chain_def healthy_db_def reorg_db_def)
  have stored: "commit_payload cancun_env b ?g = (Inr (), ?g)" if "b \<in> set ?bs" for b
    using that by (auto simp: commit_payload_def branch_chain_def block_body_by_hash_def read_tbl_def branch_block_def
        sample_hash_def devnet_header_def reorg_db_def tbl_get_def)
  obtain c' where "mark_branch_canonical sample_hash ?bs branch_chain = (Inr (), c')"
    using mark_branch_canonical_total [OF hd] by blast
  then obtain g' where g': "promote_branch cancun_env ?bs ?g = (Inr (), g')"
    using stored [of "branch_block 3 950"] stored [of "branch_block 2 900"]
    by (auto simp: promote_branch_def sseq_def sbind_def ret_def map_err_def on_chain_def)
  obtain m' where m': "listener_run (pool_ops (\<lambda>_ _. Inr 0)) (map (\<lambda>b. (empty_db, CanonicalBlock b)) ?bs) (mempool_new 7) = (Inr (), m')"
    by (auto simp: listener_run_def process_event_def process_canonical_block_def pool_ops_def branch_block_def devnet_header_def
        sseq_def sbind_def ret_def peeks_def update_base_fee_def revalidate_def mempool_new_def all_senders_def map_filter_simps Let_def)
  from branch_leaves_oldest_base_fee [OF g' m'] g' m' show ?thesis
    by (auto simp: branch_block_def devnet_header_def)
qed

end
