(* ===== verification/Deposits.thy ===== *)
theory Deposits
  imports EngineFacts
begin

section \<open>Deposit requests\<close>

text \<open>
  The module \<open>eip6110_utils\<close> of \<^verbatim>\<open>wasix_eth_types/src/lib.rs\<close>, \<open>collect_deposits\<close> of
  \<^verbatim>\<open>execution_provider.rs\<close> and \<open>get_payload_v4\<close> of \<^verbatim>\<open>engine.rs\<close>: the deposits of a block are
  read from the ABI encoded logs of the deposit contract and offered as execution requests.  Sizes are \<open>usize\<close>,
  whose number of bits is a parameter; additions wrap at it.  A slice whose end is before its start, or a 256 bit number
  above \<open>usize\<close>, is a panic.  \<open>deposit_lib\<close> holds what comes from other crates: the address of the
  contract and RLP strings and integers.
\<close>

record deposit_request =
  dr_pubkey :: bytes
  dr_withdrawal_credentials :: bytes
  dr_amount :: u64
  dr_signature :: bytes
  dr_index :: u64

record deposit_lib =
  dl_usize_bits :: nat
  dl_contract :: address
  dl_rlp_bytes :: "bytes \<Rightarrow> bytes"
  dl_rlp_uint :: "u64 \<Rightarrow> bytes"

datatype deposit_error = DepositInvalid string | DepositPanic

definition DEPOSIT_EVENT_SIGNATURE :: b256 where
  "DEPOSIT_EVENT_SIGNATURE = 0x649bbe30d5d036237248064a38d58c142c3098528994539a82046465494191c0"

definition encode_deposit_request :: "deposit_lib \<Rightarrow> deposit_request \<Rightarrow> bytes" where
  "encode_deposit_request dl d =
     dl_rlp_bytes dl (dr_pubkey d) @ dl_rlp_bytes dl (dr_withdrawal_credentials d) @ dl_rlp_uint dl (dr_amount d) @
     dl_rlp_bytes dl (dr_signature d) @ dl_rlp_uint dl (dr_index d)"

definition read_usize :: "nat \<Rightarrow> bytes \<Rightarrow> deposit_error + nat" where
  "read_usize w bs = (if be_val bs < 2 ^ w then Inr (be_val bs) else Inl DepositPanic)"

definition deposit_field :: "nat \<Rightarrow> bytes \<Rightarrow> nat \<Rightarrow> deposit_error + bytes" where
  "deposit_field w data i =
     rbind (read_usize w (take 32 (drop (i * 32) data))) (\<lambda>offset.
     let start = (offset + 32) mod 2 ^ w in
     if start > length data then Inl (DepositInvalid ''Invalid offset in deposit log'')
     else if start < offset then Inl DepositPanic
     else rbind (read_usize w (take 32 (drop offset data))) (\<lambda>len.
       let stop = (start + len) mod 2 ^ w in
       if stop > length data then Inl (DepositInvalid ''Invalid length in deposit log'')
       else if stop < start then Inl DepositPanic
       else Inr (take (stop - start) (drop start data))))"

definition sized_field :: "nat \<Rightarrow> bytes \<Rightarrow> nat \<Rightarrow> nat \<Rightarrow> string \<Rightarrow> deposit_error + bytes" where
  "sized_field w data i n msg =
     rbind (deposit_field w data i) (\<lambda>f. if length f \<noteq> n then Inl (DepositInvalid msg) else Inr f)"

definition from_le_bytes :: "bytes \<Rightarrow> u64" where
  "from_le_bytes bs = of_nat (be_val (rev bs))"

definition decode_deposit_log :: "nat \<Rightarrow> bytes \<Rightarrow> deposit_error + deposit_request" where
  "decode_deposit_log w data =
     (if length data < 160 then Inl (DepositInvalid ''Invalid deposit log data length'')
      else rbind (sized_field w data 0 48 ''Invalid pubkey length'') (\<lambda>pubkey.
        rbind (sized_field w data 1 32 ''Invalid withdrawal_credentials length'') (\<lambda>credentials.
        rbind (sized_field w data 2 8 ''Invalid amount length'') (\<lambda>amount.
        rbind (sized_field w data 3 96 ''Invalid signature length'') (\<lambda>signature.
        rbind (sized_field w data 4 8 ''Invalid index length'') (\<lambda>index.
          Inr \<lparr>dr_pubkey = pubkey, dr_withdrawal_credentials = credentials, dr_amount = from_le_bytes amount,
               dr_signature = signature, dr_index = from_le_bytes index\<rparr>))))))"

definition is_deposit_log :: "deposit_lib \<Rightarrow> log_entry \<Rightarrow> bool" where
  "is_deposit_log dl l \<longleftrightarrow> l_address l = dl_contract dl \<and>
     (case l_topics l of topic0 # _ \<Rightarrow> topic0 = DEPOSIT_EVENT_SIGNATURE | [] \<Rightarrow> False)"

fun deposits_of_logs :: "deposit_lib \<Rightarrow> log_entry list \<Rightarrow> deposit_error + deposit_request list" where
  "deposits_of_logs dl [] = Inr []"
| "deposits_of_logs dl (l # ls) =
     (if is_deposit_log dl l
      then case decode_deposit_log (dl_usize_bits dl) (l_data l) of
          Inr d \<Rightarrow> rbind (deposits_of_logs dl ls) (\<lambda>ds. Inr (d # ds))
        | Inl DepositPanic \<Rightarrow> Inl DepositPanic
        | Inl (DepositInvalid _) \<Rightarrow> deposits_of_logs dl ls
      else deposits_of_logs dl ls)"

definition collect_deposits :: "deposit_lib \<Rightarrow> receipt list \<Rightarrow> deposit_error + deposit_request list" where
  "collect_deposits dl receipts = deposits_of_logs dl (concat (map r_logs receipts))"

text \<open>The requests of a payload: deposits, withdrawals, consolidations.  An error of a system call is logged only.\<close>

definition requests_or_none :: "exec_error + bytes list \<Rightarrow> rpc_error + bytes list" where
  "requests_or_none r = (case r of Inr rs \<Rightarrow> Inr rs | Inl e \<Rightarrow> if exec_panics e then Inl RpcPanic else Inr [])"

definition execution_requests :: "'o engine_env \<Rightarrow> deposit_lib \<Rightarrow> header \<Rightarrow> receipt list \<Rightarrow> store \<Rightarrow> rpc_error + bytes list" where
  "execution_requests E dl hdr receipts s =
     rbind (map_sum (\<lambda>_. RpcPanic) id (collect_deposits dl receipts)) (\<lambda>deposits.
     rbind (requests_or_none (collect_withdrawal_requests (en_exec E) hdr s)) (\<lambda>withdrawals.
     rbind (requests_or_none (collect_consolidation_requests (en_exec E) hdr s)) (\<lambda>consolidations.
       Inr (map (\<lambda>d. dl_rlp_uint dl 0 @ encode_deposit_request dl d) deposits @ withdrawals @ consolidations))))"

definition get_payload_v4 :: "'o engine_env \<Rightarrow> tx_codec \<Rightarrow> deposit_lib \<Rightarrow> payload_id \<Rightarrow> store \<Rightarrow> rpc_error + envelope_v4" where
  "get_payload_v4 E tc dl pid s =
     (let d = s_db s in
      rbind (builder_get_payload pid d) (\<lambda>(b, receipts, _, blobs_of).
      rbind (if payload_fork E d b \<ge> Prague then execution_requests E dl (b_header b) receipts s else Inr []) (\<lambda>requests.
        Inr (to_execution_payload_envelope_v4 (to_execution_payload_v4 (en_crypto E) tc b (config_of E d))
               (calculate_block_value b receipts) blobs_of requests))))"

subsection \<open>Decoding what the contract logs\<close>

text \<open>The reference: the ABI encoding of the event \<open>DepositEvent(bytes, bytes, bytes, bytes, bytes)\<close>.  Numbers of the contract are
  little endian byte strings.\<close>

definition abi_word :: "nat \<Rightarrow> bytes" where
  "abi_word n = replicate 30 0 @ [of_nat (n div 256), of_nat (n mod 256)]"

definition abi_bytes :: "bytes \<Rightarrow> bytes" where
  "abi_bytes bs = abi_word (length bs) @ bs @ replicate ((32 - length bs mod 32) mod 32) 0"

fun le_bytes :: "nat \<Rightarrow> nat \<Rightarrow> bytes" where
  "le_bytes 0 n = []"
| "le_bytes (Suc k) n = of_nat (n mod 256) # le_bytes k (n div 256)"

definition deposit_log :: "deposit_request \<Rightarrow> bytes" where
  "deposit_log d = concat (map abi_word [160, 256, 320, 384, 512]) @ abi_bytes (dr_pubkey d) @
     abi_bytes (dr_withdrawal_credentials d) @ abi_bytes (le_bytes 8 (unat (dr_amount d))) @ abi_bytes (dr_signature d) @
     abi_bytes (le_bytes 8 (unat (dr_index d)))"

definition deposit_wf :: "deposit_request \<Rightarrow> bool" where
  "deposit_wf d \<longleftrightarrow> length (dr_pubkey d) = 48 \<and> length (dr_withdrawal_credentials d) = 32 \<and> length (dr_signature d) = 96"

lemma be_val_append1: "be_val (bs @ [b]) = be_val bs * 256 + unat b"
  by (simp add: be_val_def)

lemma be_val_abi_word: "n < 65536 \<Longrightarrow> be_val (abi_word n) = n"
proof -
  assume n: "n < 65536"
  then have "n div 256 < 256" by simp
  then have "unat (of_nat (n div 256) :: u8) = n div 256" "unat (of_nat (n mod 256) :: u8) = n mod 256"
    by (simp_all add: unat_of_nat take_bit_eq_mod)
  then show ?thesis by (simp add: abi_word_def be_val_zeros) (simp add: be_val_def)
qed

lemma length_abi [simp]: "length (abi_word n) = 32" by (simp add: abi_word_def)

lemma length_le_bytes [simp]: "length (le_bytes k n) = k"
  by (induction k arbitrary: n) simp_all

lemma be_val_le_bytes: "be_val (rev (le_bytes k n)) = n mod 256 ^ k"
proof (induction k arbitrary: n)
  case (Suc k)
  have "unat (of_nat (n mod 256) :: u8) = n mod 256" by (simp add: unat_of_nat take_bit_eq_mod)
  with Suc [of "n div 256"] show ?case by (simp add: be_val_append1 mod_mult2_eq)
qed (simp add: be_val_def)

lemma from_le_bytes_le [simp]: "from_le_bytes (le_bytes 8 (unat x)) = x"
proof -
  have "unat x mod 256 ^ 8 = unat x" using unsigned_less [of x, where ?'a = nat] by simp
  then show ?thesis by (simp add: from_le_bytes_def be_val_le_bytes)
qed

text \<open>A field that lies in the data as the encoding puts it is found.\<close>

lemma deposit_field_found:
  assumes "take 32 (drop (i * 32) data) = abi_word off" and "drop off data = abi_bytes bs @ rest" and "off \<le> length data"
    and "length data < 2 ^ w" and "length data < 65536"
  shows "deposit_field w data i = Inr bs"
proof -
  have len: "length data = off + length (abi_bytes bs) + length rest"
    using assms(2,3) by (metis append_take_drop_id length_append length_take min.absorb2 add.assoc)
  then have l: "off + 32 + length bs \<le> length data" by (simp add: abi_bytes_def)
  have "take 32 (drop off data) = abi_word (length bs)" by (simp add: assms(2) abi_bytes_def)
  moreover have "drop (off + 32) data = bs @ replicate ((32 - length bs mod 32) mod 32) 0 @ rest"
  proof -
    have "drop (off + 32) data = drop 32 (drop off data)" by (simp add: add.commute)
    then show ?thesis by (simp add: assms(2) abi_bytes_def)
  qed
  moreover have "off < 65536" "length bs < 65536" using l assms(5) by simp_all
  moreover have "off + 32 < 2 ^ w" "off + 32 + length bs < 2 ^ w" "off < 2 ^ w" "length bs < 2 ^ w" using l assms(4) by simp_all
  ultimately show ?thesis
    using l by (simp add: deposit_field_def read_usize_def assms(1) be_val_abi_word Let_def)
qed

lemma length_abi_bytes: "length (abi_bytes bs) = 32 + length bs + (32 - length bs mod 32) mod 32"
  by (simp add: abi_bytes_def)

lemma deposit_log_length: "deposit_wf d \<Longrightarrow> length (deposit_log d) = 576"
  by (simp add: deposit_log_def deposit_wf_def length_abi_bytes)

lemma deposit_log_heads:
  "take 32 (drop (0 * 32) (deposit_log d)) = abi_word 160" "take 32 (drop (1 * 32) (deposit_log d)) = abi_word 256"
  "take 32 (drop (2 * 32) (deposit_log d)) = abi_word 320" "take 32 (drop (3 * 32) (deposit_log d)) = abi_word 384"
  "take 32 (drop (4 * 32) (deposit_log d)) = abi_word 512"
  by (simp_all add: deposit_log_def)

lemma deposit_log_tails:
  assumes "deposit_wf d"
  shows "\<exists>r. drop 160 (deposit_log d) = abi_bytes (dr_pubkey d) @ r"
    "\<exists>r. drop 256 (deposit_log d) = abi_bytes (dr_withdrawal_credentials d) @ r"
    "\<exists>r. drop 320 (deposit_log d) = abi_bytes (le_bytes 8 (unat (dr_amount d))) @ r"
    "\<exists>r. drop 384 (deposit_log d) = abi_bytes (dr_signature d) @ r"
    "\<exists>r. drop 512 (deposit_log d) = abi_bytes (le_bytes 8 (unat (dr_index d))) @ r"
  using assms by (simp_all add: deposit_log_def deposit_wf_def length_abi_bytes)

lemma deposit_log_field:
  assumes "deposit_wf d" and "10 \<le> w" and "take 32 (drop (i * 32) (deposit_log d)) = abi_word off"
    and "\<exists>r. drop off (deposit_log d) = abi_bytes bs @ r" and "off \<le> 576"
  shows "deposit_field w (deposit_log d) i = Inr bs"
proof -
  have "(2 :: nat) ^ 10 \<le> 2 ^ w" using assms(2) by (rule power_increasing) simp
  with assms deposit_field_found [OF assms(3)] show ?thesis by (auto simp: deposit_log_length)
qed

lemma deposit_log_decodes:
  assumes "deposit_wf d" and "10 \<le> w"
  shows "decode_deposit_log w (deposit_log d) = Inr d"
proof -
  note f = deposit_log_field [OF assms]
  note t = deposit_log_tails [OF assms(1)]
  have "deposit_field w (deposit_log d) 0 = Inr (dr_pubkey d)" by (rule f [OF deposit_log_heads(1) t(1)]) simp
  moreover have "deposit_field w (deposit_log d) 1 = Inr (dr_withdrawal_credentials d)" by (rule f [OF deposit_log_heads(2) t(2)]) simp
  moreover have "deposit_field w (deposit_log d) 2 = Inr (le_bytes 8 (unat (dr_amount d)))" by (rule f [OF deposit_log_heads(3) t(3)]) simp
  moreover have "deposit_field w (deposit_log d) 3 = Inr (dr_signature d)" by (rule f [OF deposit_log_heads(4) t(4)]) simp
  moreover have "deposit_field w (deposit_log d) 4 = Inr (le_bytes 8 (unat (dr_index d)))" by (rule f [OF deposit_log_heads(5) t(5)]) simp
  ultimately show ?thesis
    using assms(1) by (simp add: decode_deposit_log_def sized_field_def deposit_log_length deposit_wf_def)
qed

text \<open>The decoder reads back every deposit the contract logs: the five fields of the event's ABI encoding, with the amount and
  the index from their little endian byte strings, whatever the width of \<open>usize\<close> from 10 bits on.\<close>

theorem deposit_log_roundtrip:
  assumes "deposit_wf d" and "10 \<le> w"
  shows "decode_deposit_log w (deposit_log d) = Inr d"
  using assms by (rule deposit_log_decodes)

subsection \<open>The requests of a payload\<close>

lemma sized_field_length: "sized_field w data i n msg = Inr f \<Longrightarrow> length f = n"
  by (auto simp: sized_field_def rbind_Inr_iff split: if_splits)

lemma decoded_deposit_wf: "decode_deposit_log w data = Inr d \<Longrightarrow> deposit_wf d"
  by (auto simp: decode_deposit_log_def deposit_wf_def rbind_Inr_iff dest: sized_field_length split: if_splits)

lemma deposits_of_logs_sound:
  "deposits_of_logs dl ls = Inr ds \<Longrightarrow> d \<in> set ds \<Longrightarrow>
     \<exists>l \<in> set ls. is_deposit_log dl l \<and> decode_deposit_log (dl_usize_bits dl) (l_data l) = Inr d"
proof (induction ls arbitrary: ds)
  case (Cons l ls)
  then show ?case by (auto simp: rbind_Inr_iff split: if_splits sum.splits deposit_error.splits)
qed simp

lemma split_requests_Inr:
  "split_requests ty n output = Inr rs \<Longrightarrow> 0 < n \<Longrightarrow> r \<in> set rs \<Longrightarrow> length r = Suc n \<and> hd r = ty"
proof -
  have "length c = n" if "c \<in> set (chunks_exact n bs)" for c bs
    using that by (induction n bs rule: chunks_exact.induct) (subst (asm) (2) chunks_exact.simps, auto split: if_splits)
  then show "split_requests ty n output = Inr rs \<Longrightarrow> 0 < n \<Longrightarrow> r \<in> set rs \<Longrightarrow> length r = Suc n \<and> hd r = ty"
    by (auto simp: split_requests_def split: if_splits)
qed

lemma collect_requests_source:
  assumes "collect_requests X target ty n hdr s = Inr rs"
  shows "rs = [] \<or> (\<exists>out. split_requests ty n out = Inr rs)"
proof -
  from assms obtain config cx where c: "of_db (provider_execution_env X hdr (s_db s)) = Inr (config, cx)"
    unfolding collect_requests_def Let_def rbind_Inr_iff by auto
  show ?thesis
  proof (cases "cx_fork cx < Prague")
    case True
    with assms c show ?thesis by (simp add: collect_requests_def Let_def)
  next
    case False
    with assms c obtain root where
      "(case execute_system_call (x_fuel X) (x_state X) (x_order X) (x_evm X) cx SYSTEM_ADDRESS target [] root (new_batch (s_db s)) of
          (Inl e, _) \<Rightarrow> Inl e | (Inr (output, gas), _) \<Rightarrow> split_requests ty n output) = Inr rs"
      by (simp add: collect_requests_def Let_def) (auto simp: rbind_Inr_iff)
    then show ?thesis by (simp split: prod.split_asm sum.split_asm) blast
  qed
qed

lemma collect_requests_Inr:
  "collect_requests X target ty n hdr s = Inr rs \<Longrightarrow> 0 < n \<Longrightarrow> r \<in> set rs \<Longrightarrow> length r = Suc n \<and> hd r = ty"
  using collect_requests_source split_requests_Inr by (metis empty_iff empty_set)

lemma map_sum_Inr: "map_sum f h x = Inr b \<longleftrightarrow> (\<exists>a. x = Inr a \<and> b = h a)"
  by (cases x) auto

lemma requests_or_none_Inr: "requests_or_none r = Inr rs \<Longrightarrow> rs = [] \<or> r = Inr rs"
  by (auto simp: requests_or_none_def split: sum.splits if_splits)

text \<open>The execution requests \<open>getPayloadV4\<close> hands out are well formed and in order: first the deposits the contract
  logged in the payload's receipts, each with fields of the sizes of the specification, then the withdrawal requests (type
  1, 76 bytes), then the consolidation requests (type 2, 88 bytes); before Prague there are none.  The block value and the
  blobs are those of the stored payload.\<close>

theorem payload_v4_requests_shaped:
  assumes "get_payload_v4 E tc dl pid s = Inr env"
  shows "\<exists>b receipts metas bu deposits withdrawals consolidations.
    get_payload pid (s_db s) = Some (b, receipts, metas, bu) \<and>
    n3_blobs_bundle (n4_inner env) = bu \<and> n3_block_value (n4_inner env) = calculate_block_value b receipts \<and>
    n4_execution_requests env = map (\<lambda>d. dl_rlp_uint dl 0 @ encode_deposit_request dl d) deposits @ withdrawals @ consolidations \<and>
    (payload_fork E (s_db s) b < Prague \<longrightarrow> n4_execution_requests env = []) \<and>
    (\<forall>d \<in> set deposits. deposit_wf d \<and> (\<exists>r \<in> set receipts. \<exists>l \<in> set (r_logs r). is_deposit_log dl l \<and>
        decode_deposit_log (dl_usize_bits dl) (l_data l) = Inr d)) \<and>
    (\<forall>r \<in> set withdrawals. length r = 77 \<and> hd r = 0x01) \<and> (\<forall>r \<in> set consolidations. length r = 89 \<and> hd r = 0x02)"
proof -
  from assms obtain b receipts metas bu where p: "get_payload pid (s_db s) = Some (b, receipts, metas, bu)"
    by (cases "get_payload pid (s_db s)") (auto simp: get_payload_v4_def Let_def builder_get_payload_def)
  with assms obtain requests where r: "(if payload_fork E (s_db s) b \<ge> Prague
      then execution_requests E dl (b_header b) receipts s else Inr []) = Inr requests"
    and env: "n4_execution_requests env = requests" "n3_blobs_bundle (n4_inner env) = bu"
      "n3_block_value (n4_inner env) = calculate_block_value b receipts"
    by (auto simp: get_payload_v4_def Let_def builder_get_payload_def rbind_Inr_iff to_execution_payload_envelope_v4_def)
  show ?thesis
  proof (cases "payload_fork E (s_db s) b \<ge> Prague")
    case False
    with r env p show ?thesis by (intro exI [of _ "[]"] exI conjI) (simp_all add: not_le)
  next
    case True
    with r obtain ds ws cs where ds: "collect_deposits dl receipts = Inr ds"
      and w: "requests_or_none (collect_withdrawal_requests (en_exec E) (b_header b) s) = Inr ws"
      and c: "requests_or_none (collect_consolidation_requests (en_exec E) (b_header b) s) = Inr cs"
      and req: "requests = map (\<lambda>d. dl_rlp_uint dl 0 @ encode_deposit_request dl d) ds @ ws @ cs"
      by (auto simp: execution_requests_def rbind_Inr_iff map_sum_Inr)
    have "\<exists>r \<in> set receipts. \<exists>l \<in> set (r_logs r). is_deposit_log dl l \<and> decode_deposit_log (dl_usize_bits dl) (l_data l) = Inr d"
      if "d \<in> set ds" for d
      using deposits_of_logs_sound [OF ds [unfolded collect_deposits_def] that] by auto
    moreover have "length r = 77 \<and> hd r = 0x01" if "r \<in> set ws" for r
      using that requests_or_none_Inr [OF w]
      by (auto simp: collect_withdrawal_requests_def dest: collect_requests_Inr)
    moreover have "length r = 89 \<and> hd r = 0x02" if "r \<in> set cs" for r
      using that requests_or_none_Inr [OF c]
      by (auto simp: collect_consolidation_requests_def dest: collect_requests_Inr)
    ultimately show ?thesis
      using p env req True by (intro exI conjI) (auto simp: not_le dest: decoded_deposit_wf)
  qed
qed

subsection \<open>Witnesses\<close>

definition sample_deposit :: deposit_request where
  "sample_deposit = \<lparr>dr_pubkey = replicate 48 1, dr_withdrawal_credentials = replicate 32 2, dr_amount = 32000000000,
     dr_signature = replicate 96 3, dr_index = 7\<rparr>"

theorem deposit_log_roundtrip_witness: "decode_deposit_log 32 (deposit_log sample_deposit) = Inr sample_deposit"
  by (rule deposit_log_roundtrip) (simp_all add: deposit_wf_def sample_deposit_def)

text \<open>A stored Prague payload with one deposit; the system calls fail because the configuration cannot be read.\<close>

definition deposit_block_db :: db where
  "deposit_block_db = empty_db\<lparr>t_payloads := [(1, cancun_block, [sample_receipt\<lparr>r_logs :=
     [sample_log, \<lparr>l_address = 77, l_topics = [DEPOSIT_EVENT_SIGNATURE], l_data = deposit_log sample_deposit\<rparr>]\<rparr>], [], empty_bundle)]\<rparr>"

definition offline_env :: "unit engine_env" where
  "offline_env = cancun_env\<lparr>en_exec := config_exec\<lparr>x_chain_config := (\<lambda>_. Inl UpdateFailed), x_default_config := prague_config\<rparr>\<rparr>"

definition sample_deposit_lib :: deposit_lib where
  "sample_deposit_lib = \<lparr>dl_usize_bits = 32, dl_contract = 77, dl_rlp_bytes = (\<lambda>bs. bs), dl_rlp_uint = (\<lambda>n. [0x80 + ucast n])\<rparr>"

theorem payload_v4_requests_shaped_witness:
  "\<exists>env. get_payload_v4 offline_env sample_codec sample_deposit_lib 1 (new_provider deposit_block_db) = Inr env \<and>
     n3_blobs_bundle (n4_inner env) = empty_bundle \<and>
     n4_execution_requests env = [0x80 # encode_deposit_request sample_deposit_lib sample_deposit]"
proof -
  let ?s = "new_provider deposit_block_db" and ?r = "sample_receipt\<lparr>r_logs :=
     [sample_log, \<lparr>l_address = 77, l_topics = [DEPOSIT_EVENT_SIGNATURE], l_data = deposit_log sample_deposit\<rparr>]\<rparr>"
  have p: "get_payload 1 deposit_block_db = Some (cancun_block, [?r], [], empty_bundle)"
    by (simp add: deposit_block_db_def get_payload_def empty_db_def tbl_get_def)
  have f: "payload_fork offline_env d b = Prague" for d b
    by (simp add: payload_fork_def config_of_def offline_env_def prague_fork)
  have dec: "decode_deposit_log 32 (deposit_log sample_deposit) = Inr sample_deposit"
    by (rule deposit_log_decodes) (simp_all add: deposit_wf_def sample_deposit_def)
  have log: "is_deposit_log sample_deposit_lib sample_log = False"
      "is_deposit_log sample_deposit_lib \<lparr>l_address = 77, l_topics = [DEPOSIT_EVENT_SIGNATURE], l_data = x\<rparr>" for x
    by (simp_all add: is_deposit_log_def sample_log_def sample_deposit_lib_def DEPOSIT_EVENT_SIGNATURE_def)
  have "dl_usize_bits sample_deposit_lib = 32" by (simp add: sample_deposit_lib_def)
  then have "collect_deposits sample_deposit_lib [?r] = Inr [sample_deposit]"
    by (simp add: collect_deposits_def log dec)
  moreover have "requests_or_none (collect_requests (en_exec offline_env) target ty n hdr s) = Inr []" for target ty n hdr s
    by (simp add: collect_requests_def provider_execution_env_def config_or_default_def offline_env_def of_db_def
        requests_or_none_def exec_panics_def)
  ultimately obtain env where env: "get_payload_v4 offline_env sample_codec sample_deposit_lib 1 ?s = Inr env"
      "n4_execution_requests env = [0x80 # encode_deposit_request sample_deposit_lib sample_deposit]"
    by (simp add: get_payload_v4_def builder_get_payload_def p f execution_requests_def collect_withdrawal_requests_def
        collect_consolidation_requests_def to_execution_payload_envelope_v4_def) (simp add: sample_deposit_lib_def)
  from payload_v4_requests_shaped [OF env(1)] p env show ?thesis by auto
qed

end
