(* ===== verification/RpcEngine.thy ===== *)
theory RpcEngine
  imports Deposits
begin

section \<open>Transactions and queries over RPC\<close>

text \<open>
  \<^verbatim>\<open>wasix_eth_core/src/engine/api.rs\<close> (\<open>RPCEngine\<close>) with \<^verbatim>\<open>account_manager.rs\<close>, and the methods of
  \<open>SyncProvider\<close> that \<open>Engine\<close> forwards to them.  The state adds to the engine's the senders whose revalidation
  was spawned.  \<open>wallet_lib\<close> holds the signature scheme and the decoders of the \<open>alloy\<close> crates; \<open>'k\<close> is
  the type of a private key.  A pooled transaction (\<open>TxPooledEnvelope\<close>) is its encoding, its blob hashes, its
  sidecar if it has one, and what \<open>try_into\<close> makes of it.  A message with numbers in it is its fixed part.
\<close>

record rpc_state =
  rs_eng :: engine
  rs_revalidations :: "address list"

type_synonym 'a rpc_act = "(rpc_state, rpc_error, 'a) act"

abbreviation rs_db :: "rpc_state \<Rightarrow> db" where
  "rs_db s \<equiv> eg_db (rs_eng s)"

abbreviation rs_pool :: "rpc_state \<Rightarrow> mempool" where
  "rs_pool s \<equiv> eg_pool (rs_eng s)"

abbreviation rs_events :: "rpc_state \<Rightarrow> engine_event list" where
  "rs_events s \<equiv> pp_events (eg_proc (rs_eng s))"

definition with_pool :: "mempool \<Rightarrow> rpc_state \<Rightarrow> rpc_state" where
  "with_pool m s = s\<lparr>rs_eng := (rs_eng s)\<lparr>eg_pool := m\<rparr>\<rparr>"

definition announce :: "tx \<Rightarrow> bool \<Rightarrow> rpc_state \<Rightarrow> rpc_state" where
  "announce t is_local s = s\<lparr>rs_eng := (rs_eng s)\<lparr>eg_proc := (eg_proc (rs_eng s))
     \<lparr>pp_events := rs_events s @ [NewTransaction t is_local]\<rparr>\<rparr>\<rparr>"

text \<open>\<open>downcast_ref::<RpcError>\<close>: of the read provider's errors only the missing block is an \<open>RpcError\<close>.\<close>

definition rpc_of_store :: "storage_error \<Rightarrow> rpc_error" where
  "rpc_of_store e = (case e of Storage.BlockNotFound b \<Rightarrow> RpcErrors.BlockNotFound b | _ \<Rightarrow> Internal ''storage'')"

definition internal_err :: "'e + 'a \<Rightarrow> rpc_error + 'a" where
  "internal_err r = map_sum (\<lambda>_. Internal ''storage'') id r"

text \<open>Reads of the state trie may panic.\<close>

definition state_err :: "state_error + 'a \<Rightarrow> rpc_error + 'a" where
  "state_err r = map_sum (\<lambda>e. case e of TrieFailure t \<Rightarrow> if is_panic t then RpcPanic else Internal ''storage'' | _ \<Rightarrow> Internal ''storage'') id r"

subsection \<open>Accounts\<close>

record 'k wallet_lib =
  wl_address :: "'k \<Rightarrow> address"
  wl_sign_tx :: "'k \<Rightarrow> tx \<Rightarrow> tx option"
  wl_sign_message :: "'k \<Rightarrow> bytes \<Rightarrow> bytes option"
  wl_test_signer :: "tx \<Rightarrow> address option"
  wl_encode :: "tx \<Rightarrow> bytes"
  wl_hex :: "string \<Rightarrow> bytes option"

type_synonym 'k signers = "address \<rightharpoonup> 'k"

definition add_signer :: "'k wallet_lib \<Rightarrow> 'k \<Rightarrow> 'k signers \<Rightarrow> 'k signers" where
  "add_signer W k ss = ss(wl_address W k \<mapsto> k)"

definition is_managed :: "'k signers \<Rightarrow> address \<Rightarrow> bool" where
  "is_managed ss a \<longleftrightarrow> ss a \<noteq> None"

text \<open>\<open>sign_transaction\<close> and \<open>sign_transaction_1559\<close> differ in the type of the transaction only.\<close>

definition wallet_sign_transaction :: "'k wallet_lib \<Rightarrow> 'k signers \<Rightarrow> address \<Rightarrow> tx \<Rightarrow> rpc_error + tx" where
  "wallet_sign_transaction W ss from t =
     rbind (ok_or (ss from) (AccountNotFound from)) (\<lambda>k. ok_or (wl_sign_tx W k t) (Internal ''Signing failed''))"

definition wallet_sign :: "'k wallet_lib \<Rightarrow> 'k signers \<Rightarrow> address \<Rightarrow> bytes \<Rightarrow> rpc_error + bytes" where
  "wallet_sign W ss from message =
     rbind (ok_or (ss from) (AccountNotFound from)) (\<lambda>k. ok_or (wl_sign_message W k message) (Internal ''Signing failed''))"

subsection \<open>Submitting transactions\<close>

definition check_submission :: "'o engine_env \<Rightarrow> tx \<Rightarrow> db \<Rightarrow> rpc_error + unit" where
  "check_submission E t d =
     rbind (internal_err (x_chain_id (en_exec E) d)) (\<lambda>network_chain_id.
       if tx_chain_id t \<noteq> None \<and> tx_chain_id t \<noteq> Some network_chain_id then Inl (InvalidParams ''Invalid chain ID'')
       else case ok_flat (header (IdNumber Latest) d) of
           None \<Rightarrow> Inr ()
         | Some hdr \<Rightarrow>
             let current_fork = get_active_fork (config_of E d) (h_number hdr) (h_timestamp hdr) in
             if tx_kind t = Eip7702 \<and> current_fork < Prague
             then Inl (InvalidParams ''EIP-7702 transactions are not supported in this fork'')
             else if current_fork \<ge> Shanghai \<and> tx_to t = None \<and> length (tx_input t) > MAX_INIT_CODE_SIZE
             then Inl (InvalidParams ''Initcode size exceeds maximum limit'')
             else Inr ())"

text \<open>\<open>transaction_count(from, head, None)\<close> reads the account table, whatever the head; the second read of the code sees the
  same database.\<close>

definition state_nonce_of :: "'o engine_env \<Rightarrow> db \<Rightarrow> address \<Rightarrow> u64" where
  "state_nonce_of E d from = unwrap_ok (transaction_count (x_fuel (en_exec E)) (x_state (en_exec E)) d from None) 0"

definition submit_transaction_with_source :: "'o engine_env \<Rightarrow> search \<Rightarrow> bool \<Rightarrow> tx \<Rightarrow> bool \<Rightarrow> b256 rpc_act" where
  "submit_transaction_with_source E bs coin t is_local s =
     (case check_submission E t (rs_db s) of
        Inl e \<Rightarrow> (Inl e, s)
      | Inr _ \<Rightarrow>
          let from = unwrap_or (tx_signer t) 0;
              state_nonce = state_nonce_of E (rs_db s) from;
              next_pending_nonce = snd (nonce_lookup (rs_pool s) from state_nonce)
          in case add_transaction bs coin t state_nonce (rs_pool s) of
               Inl _ \<Rightarrow> (Inl RpcPanic, s)
             | Inr (True, m) \<Rightarrow> (Inr (tx_hash t), announce t is_local (with_pool m s))
             | Inr (False, m) \<Rightarrow>
                 if \<not> is_local then (Inr (tx_hash t), with_pool m s)
                 else if tx_nonce t < state_nonce then (Inl (InvalidParams ''Nonce too low''), with_pool m s)
                 else (Inl (InvalidParams ''Nonce too low''),
                       if next_pending_nonce < state_nonce
                       then (with_pool m s)\<lparr>rs_revalidations := rs_revalidations s @ [from]\<rparr> else with_pool m s))"

definition submit_transaction :: "'o engine_env \<Rightarrow> search \<Rightarrow> bool \<Rightarrow> tx \<Rightarrow> b256 rpc_act" where
  "submit_transaction E bs coin t = submit_transaction_with_source E bs coin t True"

record pooled_tx =
  po_hash :: b256
  po_encoding :: bytes
  po_blob_hashes :: "b256 list"
  po_sidecar :: "blobs_bundle option"
  po_envelope :: "tx option"

fun add_sidecar :: "blobs_bundle \<Rightarrow> b256 list \<Rightarrow> nat \<Rightarrow> mempool \<Rightarrow> mempool" where
  "add_sidecar sc [] i m = m"
| "add_sidecar sc (vh # vhs) i m =
     add_sidecar sc vhs (Suc i)
       (if i < length (bb_blobs sc) \<and> i < length (bb_commitments sc) \<and> i < length (bb_proofs sc)
        then add_blob vh (bb_blobs sc ! i, bb_commitments sc ! i, bb_proofs sc ! i) m else m)"

definition store_pooled :: "pooled_tx \<Rightarrow> bytes \<Rightarrow> mempool \<Rightarrow> mempool" where
  "store_pooled p data m =
     (let m' = add_pooled_bytes (po_hash p) data (add_pooled_envelope (po_hash p) (po_encoding p) m)
      in case po_sidecar p of None \<Rightarrow> m' | Some sc \<Rightarrow> add_sidecar sc (po_blob_hashes p) 0 m')"

definition import_pooled_transaction_with_source ::
  "'o engine_env \<Rightarrow> search \<Rightarrow> bool \<Rightarrow> pooled_tx \<Rightarrow> bytes \<Rightarrow> bool \<Rightarrow> b256 rpc_act" where
  "import_pooled_transaction_with_source E bs coin p data is_local s =
     (let s' = with_pool (store_pooled p data (rs_pool s)) s in
      case po_envelope p of
        None \<Rightarrow> (Inl (InvalidParams ''Failed to convert pooled tx to envelope''), s')
      | Some t \<Rightarrow> submit_transaction_with_source E bs coin t is_local s')"

definition import_pooled_transaction :: "'o engine_env \<Rightarrow> search \<Rightarrow> bool \<Rightarrow> pooled_tx \<Rightarrow> bytes \<Rightarrow> b256 rpc_act" where
  "import_pooled_transaction E bs coin p data = import_pooled_transaction_with_source E bs coin p data True"

text \<open>\<open>trim_start_matches\<close> takes the prefix off as often as it is there.\<close>

fun trim_0x :: "string \<Rightarrow> string" where
  "trim_0x cs = (case cs of a # b # rest \<Rightarrow> if a = CHR ''0'' \<and> b = CHR ''x'' then trim_0x rest else cs | _ \<Rightarrow> cs)"

declare trim_0x.simps [simp del]

definition send_raw_transaction ::
  "'o engine_env \<Rightarrow> search \<Rightarrow> bool \<Rightarrow> 'k wallet_lib \<Rightarrow> (bytes \<Rightarrow> pooled_tx option) \<Rightarrow> string \<Rightarrow> b256 rpc_act" where
  "send_raw_transaction E bs coin W decode data =
     sbind (reads (\<lambda>_. ok_or (wl_hex W (trim_0x data)) (InvalidParams ''Invalid hex''))) (\<lambda>bytes.
     sbind (reads (\<lambda>_. ok_or (decode bytes) (InvalidParams ''Invalid RLP''))) (\<lambda>p.
       import_pooled_transaction E bs coin p bytes))"

text \<open>\<open>Engine\<close> as \<open>SyncProvider\<close>: the answers are dropped, panics are not.\<close>

definition drop_answer :: "'a rpc_act \<Rightarrow> unit rpc_act" where
  "drop_answer m s = (case m s of (r, s') \<Rightarrow> (if r = Inl RpcPanic then Inl RpcPanic else Inr (), s'))"

definition process_gossip_transactions :: "'o engine_env \<Rightarrow> search \<Rightarrow> bool \<Rightarrow> tx list \<Rightarrow> unit rpc_act" where
  "process_gossip_transactions E bs coin txs =
     for_each txs (\<lambda>t. drop_answer (submit_transaction_with_source E bs coin t False))"

definition process_pooled_transactions :: "'o engine_env \<Rightarrow> search \<Rightarrow> bool \<Rightarrow> pooled_tx list \<Rightarrow> unit rpc_act" where
  "process_pooled_transactions E bs coin ps =
     for_each ps (\<lambda>p. drop_answer (import_pooled_transaction_with_source E bs coin p (po_encoding p) False))"

subsection \<open>Building transactions\<close>

text \<open>\<open>TransactionRequest\<close>; \<open>rq_to\<close> tells an absent recipient from the explicit creation of a contract.\<close>

record tx_request =
  rq_from :: "address option"
  rq_to :: "address option option"
  rq_nonce :: "u64 option"
  rq_gas :: "u64 option"
  rq_gas_price :: "u128 option"
  rq_max_fee :: "u128 option"
  rq_max_priority :: "u128 option"
  rq_value :: "u256 option"
  rq_input :: "bytes option"
  rq_access_list :: "(address \<times> b256 list) list option"

definition tx_1559 :: "tx_request \<Rightarrow> u64 \<Rightarrow> u64 \<Rightarrow> u64 \<Rightarrow> u128 \<Rightarrow> u128 \<Rightarrow> tx" where
  "tx_1559 rq chain_id nonce gas_limit max_fee max_priority =
     \<lparr>tx_kind = Eip1559, tx_hash = 0, tx_signer = None, tx_nonce = nonce, tx_gas_limit = gas_limit, tx_gas_price = None,
      tx_max_fee_per_gas = max_fee, tx_max_priority_fee_per_gas = Some max_priority, tx_blob_versioned_hashes = None,
      tx_max_fee_per_blob_gas = None, tx_chain_id = Some chain_id, tx_to = unwrap_or (rq_to rq) None,
      tx_value = unwrap_or (rq_value rq) 0, tx_input = unwrap_or (rq_input rq) [],
      tx_access_list = Some (unwrap_or (rq_access_list rq) []), tx_authorization_list = None\<rparr>"

definition tx_legacy :: "tx_request \<Rightarrow> u64 \<Rightarrow> u64 \<Rightarrow> u64 \<Rightarrow> u128 \<Rightarrow> tx" where
  "tx_legacy rq chain_id nonce gas_limit gas_price =
     \<lparr>tx_kind = Legacy, tx_hash = 0, tx_signer = None, tx_nonce = nonce, tx_gas_limit = gas_limit, tx_gas_price = Some gas_price,
      tx_max_fee_per_gas = gas_price, tx_max_priority_fee_per_gas = None, tx_blob_versioned_hashes = None,
      tx_max_fee_per_blob_gas = None, tx_chain_id = Some chain_id, tx_to = unwrap_or (rq_to rq) None,
      tx_value = unwrap_or (rq_value rq) 0, tx_input = unwrap_or (rq_input rq) [],
      tx_access_list = None, tx_authorization_list = None\<rparr>"

text \<open>The envelope of a simulation carries the test signature and the hash zero.\<close>

definition build_transaction_envelope :: "'o engine_env \<Rightarrow> 'k wallet_lib \<Rightarrow> tx_request \<Rightarrow> db \<Rightarrow> rpc_error + tx" where
  "build_transaction_envelope E W rq d =
     rbind (internal_err (x_chain_id (en_exec E) d)) (\<lambda>chain_id.
       let nonce = unwrap_or (rq_nonce rq) 0; gas_limit = unwrap_or (rq_gas rq) 30000000;
           t = (case (rq_max_fee rq, rq_max_priority rq) of
                  (Some max_fee, Some max_priority) \<Rightarrow> tx_1559 rq chain_id nonce gas_limit max_fee max_priority
                | _ \<Rightarrow> tx_legacy rq chain_id nonce gas_limit (unwrap_or (rq_gas_price rq) 1000000000))
       in Inr (t\<lparr>tx_signer := wl_test_signer W t\<rparr>))"

definition get_gas_price :: "db \<Rightarrow> u128" where
  "get_gas_price d =
     (case ok_flat (header (IdNumber Latest) d) of
        Some hdr \<Rightarrow> (case h_base_fee_per_gas hdr of Some base_fee \<Rightarrow> ucast (base_fee + 1500000000) | None \<Rightarrow> 1000000000)
      | None \<Rightarrow> 1000000000)"

text \<open>A simulation on a stored block; \<open>unwrap\<close> of the first result.\<close>

definition simulate_request :: "'o engine_env \<Rightarrow> 'k wallet_lib \<Rightarrow> tx_request \<Rightarrow> block_id option \<Rightarrow> store \<Rightarrow> rpc_error + tx_result" where
  "simulate_request E W rq bid s =
     (let b_id = unwrap_or bid (IdNumber Latest); d = s_db s in
      rbind (internal_err (header b_id d)) (\<lambda>h.
      rbind (ok_or h (RpcErrors.BlockNotFound b_id)) (\<lambda>hdr.
      rbind (internal_err (block (en_hash E) b_id d)) (\<lambda>bl.
      rbind (ok_or bl (RpcErrors.BlockNotFound b_id)) (\<lambda>b.
      rbind (map_sum (\<lambda>_. Internal ''Failed to build transaction envelope'') id (build_transaction_envelope E W rq d)) (\<lambda>t.
        case fst (run_simulation_with_state_root (en_exec E) [t] b (Some (h_state_root hdr)) s) of
          Inl e \<Rightarrow> Inl (if exec_panics e then RpcPanic else Internal (en_exec_text E e))
        | Inr (results, _) \<Rightarrow> (case results of [] \<Rightarrow> Inl RpcPanic | r # _ \<Rightarrow> Inr r)))))))"

definition estimate_gas :: "'o engine_env \<Rightarrow> 'k wallet_lib \<Rightarrow> tx_request \<Rightarrow> block_id option \<Rightarrow> store \<Rightarrow> rpc_error + u256" where
  "estimate_gas E W rq bid s = rbind (simulate_request E W rq bid s) (\<lambda>r. Inr (ucast (xr_gas_used r)))"

definition rpc_call :: "'o engine_env \<Rightarrow> 'k wallet_lib \<Rightarrow> tx_request \<Rightarrow> block_id option \<Rightarrow> store \<Rightarrow> rpc_error + bytes" where
  "rpc_call E W rq bid s =
     rbind (simulate_request E W rq bid s) (\<lambda>r.
       Inr (case xr_call_create r of CallValue _ retval \<Rightarrow> retval | CreateValue _ _ \<Rightarrow> []))"

subsection \<open>Queries\<close>

definition get_block_by_id :: "'o engine_env \<Rightarrow> block_id \<Rightarrow> chain \<Rightarrow> rpc_error + block option" where
  "get_block_by_id E bid c =
     rbind (map_sum rpc_of_store id (block (en_hash E) bid (ch_db c))) (\<lambda>b.
       Inr (case b of Some x \<Rightarrow> Some x
            | None \<Rightarrow> (case bid of IdHash hash \<Rightarrow> if is_invalid c hash then None
                  else map_option fst (get_payload_by_block_hash (en_hash E) hash (ch_db c))
                | IdNumber _ \<Rightarrow> None)))"

definition get_block_transaction_count :: "'o engine_env \<Rightarrow> block_id \<Rightarrow> db \<Rightarrow> rpc_error + u64 option" where
  "get_block_transaction_count E bid d =
     rbind (map_sum rpc_of_store id (block (en_hash E) bid d)) (\<lambda>b.
       Inr (map_option (\<lambda>x. of_nat (length (b_transactions (b_body x)))) b))"

definition rpc_latest_block_number :: "chain \<Rightarrow> u64" where
  "rpc_latest_block_number c = snd (head_block c)"

definition rpc_chain_id :: "'o engine_env \<Rightarrow> db \<Rightarrow> rpc_error + u64" where
  "rpc_chain_id E d = internal_err (x_chain_id (en_exec E) d)"

definition get_account_addresses :: "db \<Rightarrow> rpc_error + address list" where
  "get_account_addresses d = internal_err (Storage.addresses d)"

definition get_logs :: "log_filter \<Rightarrow> db \<Rightarrow> rpc_error + rpc_log list" where
  "get_logs f d = internal_err (logs f d)"

type_synonym block_ref = "u64 \<times> b256 \<times> u64"

definition get_transaction_by_hash :: "b256 \<Rightarrow> mempool \<Rightarrow> db \<Rightarrow> rpc_error + (tx \<times> block_ref option) option" where
  "get_transaction_by_hash hash m d =
     rbind (internal_err (transaction hash d)) (\<lambda>t.
       case t of
         Some x \<Rightarrow> rbind (internal_err (transaction_block_reference hash d)) (\<lambda>ref. Inr (Some (x, ref)))
       | None \<Rightarrow> Inr (map_option (\<lambda>x. (x, None)) (get_transaction m hash)))"

definition get_transaction_receipt :: "b256 \<Rightarrow> db \<Rightarrow> rpc_error + (receipt \<times> block_ref) option" where
  "get_transaction_receipt hash d =
     rbind (internal_err (transaction_block_reference hash d)) (\<lambda>ref.
       case ref of None \<Rightarrow> Inr None
       | Some (n, bh, index) \<Rightarrow> rbind (internal_err (receipt_at bh index d)) (\<lambda>r.
           Inr (map_option (\<lambda>x. (x, (n, bh, index))) r)))"

definition get_receipts_by_block_id :: "'o engine_env \<Rightarrow> block_id \<Rightarrow> chain \<Rightarrow> rpc_error + receipt list" where
  "get_receipts_by_block_id E bid c =
     rbind (get_block_by_id E bid c) (\<lambda>found. rbind (ok_or found (RpcErrors.BlockNotFound bid)) (\<lambda>b.
       if h_number (b_header b) = 0 then Inr []
       else collect_results (map (\<lambda>t. rbind (internal_err (transaction_receipt (tx_hash t) (ch_db c))) (\<lambda>r.
              ok_or r (Internal ''Receipt not found for transaction''))) (b_transactions (b_body b)))))"

definition root_of_block :: "block_id \<Rightarrow> db \<Rightarrow> rpc_error + b256 option" where
  "root_of_block bid d = rbind (map_sum rpc_of_store id (header bid d)) (\<lambda>h. Inr (map_option h_state_root h))"

definition rpc_account :: "'o engine_env \<Rightarrow> address \<Rightarrow> block_id \<Rightarrow> db \<Rightarrow> rpc_error + trie_account option" where
  "rpc_account E a bid d =
     rbind (root_of_block bid d) (\<lambda>root. state_err (account (x_fuel (en_exec E)) (x_state (en_exec E)) d a root))"

fun deduct_pending :: "tx list \<Rightarrow> u256 \<Rightarrow> rpc_error + u256" where
  "deduct_pending [] balance = Inr balance"
| "deduct_pending (t # ts) balance =
     (case u256_to_u128 (tx_value t) of
        Inl _ \<Rightarrow> Inl RpcPanic
      | Inr v \<Rightarrow>
          let cost = required_balance t v
          in deduct_pending ts (if balance > cost then balance - cost else 0))"

definition get_balance :: "'o engine_env \<Rightarrow> address \<Rightarrow> block_id \<Rightarrow> mempool \<Rightarrow> db \<Rightarrow> rpc_error + u256" where
  "get_balance E a bid m d =
     rbind (rpc_account E a bid d) (\<lambda>acc.
       let balance = (case acc of Some x \<Rightarrow> acc_balance x | None \<Rightarrow> 0) in
       if bid = IdNumber Pending then deduct_pending (get_transactions_by_sender m a) balance else Inr balance)"

definition get_transaction_count :: "'o engine_env \<Rightarrow> address \<Rightarrow> block_id \<Rightarrow> mempool \<Rightarrow> db \<Rightarrow> rpc_error + u64" where
  "get_transaction_count E a bid m d =
     rbind (root_of_block bid d) (\<lambda>root.
     rbind (state_err (transaction_count (x_fuel (en_exec E)) (x_state (en_exec E)) d a root)) (\<lambda>n.
       Inr (if bid = IdNumber Pending then next_expected_nonce m a n else n)))"

definition get_code :: "'o engine_env \<Rightarrow> address \<Rightarrow> block_id \<Rightarrow> db \<Rightarrow> rpc_error + bytes" where
  "get_code E a bid d =
     rbind (rpc_account E a bid d) (\<lambda>acc. case acc of None \<Rightarrow> Inr []
       | Some x \<Rightarrow> rbind (internal_err (bytecode (acc_code_hash x) d)) (\<lambda>code. Inr (unwrap_or code [])))"

definition get_storage_at :: "'o engine_env \<Rightarrow> address \<Rightarrow> b256 \<Rightarrow> block_id \<Rightarrow> db \<Rightarrow> rpc_error + b256" where
  "get_storage_at E a slot bid d =
     rbind (root_of_block bid d) (\<lambda>root.
       state_err (storage (x_fuel (en_exec E)) (x_state (en_exec E)) d a slot root))"

subsection \<open>Sending and signing\<close>

definition u256_to_u64_rpc :: "u256 \<Rightarrow> rpc_error + u64" where
  "u256_to_u64_rpc x = (if x < 2 ^ 64 then Inr (ucast x) else Inl RpcPanic)"

definition choose_gas :: "'o engine_env \<Rightarrow> 'k wallet_lib \<Rightarrow> tx_request \<Rightarrow> store \<Rightarrow> rpc_error + u64" where
  "choose_gas E W rq s = (case rq_gas rq of Some g \<Rightarrow> Inr g
     | None \<Rightarrow> if rq_to rq \<noteq> None \<and> rq_input rq = None then Inr 21000
         else rbind (estimate_gas E W rq None s) u256_to_u64_rpc)"

definition choose_nonce :: "'o engine_env \<Rightarrow> tx_request \<Rightarrow> address \<Rightarrow> mempool \<Rightarrow> db \<Rightarrow> rpc_error + u64" where
  "choose_nonce E rq from m d = (case rq_nonce rq of Some n \<Rightarrow> Inr n
     | None \<Rightarrow> get_transaction_count E from (IdNumber Pending) m d)"

definition managed_sender :: "'k signers \<Rightarrow> tx_request \<Rightarrow> rpc_error + address" where
  "managed_sender ss rq =
     rbind (ok_or (rq_from rq) (InvalidParams ''from address is required'')) (\<lambda>from.
       if is_managed ss from then Inr from else Inl (AccountNotFound from))"

definition signed_request :: "'o engine_env \<Rightarrow> 'k wallet_lib \<Rightarrow> 'k signers \<Rightarrow> tx_request \<Rightarrow> mempool \<Rightarrow> store \<Rightarrow> rpc_error + tx" where
  "signed_request E W ss rq m s =
     rbind (managed_sender ss rq) (\<lambda>from.
     rbind (internal_err (x_chain_id (en_exec E) (s_db s))) (\<lambda>chain_id.
     rbind (choose_nonce E rq from m (s_db s)) (\<lambda>nonce.
     rbind (choose_gas E W rq s) (\<lambda>gas_limit.
       map_sum (\<lambda>_. Internal ''Signing failed'') id (wallet_sign_transaction W ss from
         (case (rq_max_fee rq, rq_max_priority rq) of
            (Some max_fee, Some max_priority) \<Rightarrow> tx_1559 rq chain_id nonce gas_limit max_fee max_priority
          | _ \<Rightarrow> tx_legacy rq chain_id nonce gas_limit
                   (case rq_gas_price rq of Some p \<Rightarrow> p | None \<Rightarrow> get_gas_price (s_db s))))))))"

definition send_transaction :: "'o engine_env \<Rightarrow> search \<Rightarrow> bool \<Rightarrow> 'k wallet_lib \<Rightarrow> 'k signers \<Rightarrow> tx_request \<Rightarrow> b256 rpc_act" where
  "send_transaction E bs coin W ss rq =
     sbind (reads (\<lambda>s. signed_request E W ss rq (rs_pool s) (ch_store (eg_chain (rs_eng s))))) (\<lambda>t.
       sbind (submit_transaction E bs coin t) (\<lambda>_. ret (tx_hash t)))"

definition sign_transaction :: "'o engine_env \<Rightarrow> 'k wallet_lib \<Rightarrow> 'k signers \<Rightarrow> tx_request \<Rightarrow> mempool \<Rightarrow> db \<Rightarrow> rpc_error + bytes" where
  "sign_transaction E W ss rq m d =
     rbind (managed_sender ss rq) (\<lambda>from.
     rbind (choose_nonce E rq from m d) (\<lambda>nonce.
     rbind (map_sum (\<lambda>_. Internal ''Failed to build transaction envelope'') id
              (build_transaction_envelope E W (rq\<lparr>rq_nonce := Some nonce\<rparr>) d)) (\<lambda>t. Inr (wl_encode W t))))"

definition sign :: "'k wallet_lib \<Rightarrow> 'k signers \<Rightarrow> address \<Rightarrow> string \<Rightarrow> rpc_error + bytes" where
  "sign W ss a message =
     (if \<not> is_managed ss a then Inl (AccountNotFound a)
      else rbind (ok_or (wl_hex W (trim_0x message)) (InvalidParams ''Invalid hex'')) (wallet_sign W ss a))"

subsection \<open>The engine as sync provider\<close>

definition trigger_sync :: "'o engine_env \<Rightarrow> processor \<Rightarrow> processor" where
  "trigger_sync E p = p\<lparr>pp_registry := add_target (en_hash E) (pp_chain p) 0 None (pp_registry p)\<rparr>"

definition get_block_by_hash :: "'o engine_env \<Rightarrow> b256 \<Rightarrow> chain \<Rightarrow> block option" where
  "get_block_by_hash E hash c = or_else (ok_flat (block_by_hash (en_hash E) hash (ch_db c))) (get_block (ch_tree c) hash)"

definition process_gossip_block :: "'o engine_env \<Rightarrow> block \<Rightarrow> processor \<Rightarrow> ((string + unit) \<times> processor) option" where
  "process_gossip_block E b = import_block E b"

subsection \<open>What a submission does\<close>

lemma with_pool_simps [simp]:
  "rs_pool (with_pool m s) = m" "rs_db (with_pool m s) = rs_db s" "rs_events (with_pool m s) = rs_events s"
  "eg_chain (rs_eng (with_pool m s)) = eg_chain (rs_eng s)" "rs_revalidations (with_pool m s) = rs_revalidations s"
  by (simp_all add: with_pool_def)

lemma announce_simps [simp]:
  "rs_pool (announce t l s) = rs_pool s" "rs_events (announce t l s) = rs_events s @ [NewTransaction t l]"
  "eg_chain (rs_eng (announce t l s)) = eg_chain (rs_eng s)" "rs_revalidations (announce t l s) = rs_revalidations s"
  by (simp_all add: announce_def)

lemma submit_cases:
  obtains (refused) e where "check_submission E t (rs_db s) = Inl e" "submit_transaction_with_source E bs coin t l s = (Inl e, s)"
  | (panicked) e where "check_submission E t (rs_db s) = Inr ()"
      "add_transaction bs coin t (state_nonce_of E (rs_db s) (sender_of t)) (rs_pool s) = Inl e"
      "submit_transaction_with_source E bs coin t l s = (Inl RpcPanic, s)"
  | (added) m where "check_submission E t (rs_db s) = Inr ()"
      "add_transaction bs coin t (state_nonce_of E (rs_db s) (sender_of t)) (rs_pool s) = Inr (True, m)"
      "submit_transaction_with_source E bs coin t l s = (Inr (tx_hash t), announce t l (with_pool m s))"
  | (rejected) m r s' where "check_submission E t (rs_db s) = Inr ()"
      "add_transaction bs coin t (state_nonce_of E (rs_db s) (sender_of t)) (rs_pool s) = Inr (False, m)"
      "submit_transaction_with_source E bs coin t l s = (r, s')"
      "r = (if l then Inl (InvalidParams ''Nonce too low'') else Inr (tx_hash t))" "rs_eng s' = rs_eng (with_pool m s)"
proof (cases "check_submission E t (rs_db s)")
  case (Inl e)
  then show ?thesis by (intro refused) (simp_all add: submit_transaction_with_source_def)
next
  case (Inr u)
  then have c: "check_submission E t (rs_db s) = Inr ()" by simp
  let ?n = "state_nonce_of E (rs_db s) (sender_of t)"
  show ?thesis
  proof (cases "add_transaction bs coin t ?n (rs_pool s)")
    case (Inl e)
    with c show ?thesis by (intro panicked) (simp_all add: submit_transaction_with_source_def Let_def sender_of_def)
  next
    case (Inr x)
    obtain r m where x: "x = (r, m)" by fastforce
    show ?thesis
    proof (cases r)
      case True
      with Inr x c show ?thesis by (intro added) (simp_all add: submit_transaction_with_source_def Let_def sender_of_def)
    next
      case False
      obtain a s' where a: "submit_transaction_with_source E bs coin t l s = (a, s')" by fastforce
      then have "a = (if l then Inl (InvalidParams ''Nonce too low'') else Inr (tx_hash t))" "rs_eng s' = rs_eng (with_pool m s)"
        using Inr x False c
        by (auto simp: submit_transaction_with_source_def Let_def sender_of_def split: if_splits)
      with Inr x False c a show ?thesis using rejected [of m a s'] by simp
    qed
  qed
qed

lemma add_transaction_True:
  assumes "search_ok bs" and "mempool_wf m" and "add_transaction bs coin t n m = Inr (True, m')"
  shows "t \<in> set (get_all_transactions m')"
proof -
  have "n \<le> tx_nonce t" using assms(3) by (auto simp: add_transaction_def not_less [symmetric] split: if_splits)
  from add_transaction_decompose [OF assms this] obtain m1 b where "mempool_wf m1" "place_in_queue bs (sender_of t) t b m1 = (True, m')"
    by metis
  with place_in_queue_True [OF assms(1)] show ?thesis by simp
qed

text \<open>C14: what the answer to a submitted transaction means.  A hash means that the transaction passed the checks (chain id, fork, size of
  the init code) and either is in the pool and was announced, or came from the network and was dropped; a local
  transaction is never dropped silently.  An error announces nothing.  The chain is not touched, and the pool stays well
  formed.\<close>

theorem submission_outcome:
  assumes "search_ok bs" and "mempool_wf (rs_pool s)" and "submit_transaction_with_source E bs coin t is_local s = (r, s')"
  shows "eg_chain (rs_eng s') = eg_chain (rs_eng s) \<and> mempool_wf (rs_pool s') \<and>
    (case r of
       Inr h \<Rightarrow> h = tx_hash t \<and> check_submission E t (rs_db s) = Inr () \<and>
         (t \<in> set (get_all_transactions (rs_pool s')) \<and> rs_events s' = rs_events s @ [NewTransaction t is_local] \<or>
          \<not> is_local \<and> rs_events s' = rs_events s)
     | Inl e \<Rightarrow> rs_events s' = rs_events s)"
proof (cases rule: submit_cases [where E = E and t = t and s = s and bs = bs and coin = coin and l = is_local])
  case (added m)
  with assms add_transaction_True [OF assms(1,2)] add_transaction_wf [OF assms(1,2)] show ?thesis by auto
next
  case (rejected m r' s'')
  with assms(3) add_transaction_wf [OF assms(1,2) rejected(2)] show ?thesis by auto
qed (use assms in auto)

subsection \<open>Pooled transactions\<close>

lemma add_sidecar_keeps [simp]:
  "pooled_envelopes (add_sidecar sc vhs i m) = pooled_envelopes m" "pooled_bytes (add_sidecar sc vhs i m) = pooled_bytes m"
  "pending_transactions (add_sidecar sc vhs i m) = pending_transactions m"
  "queued_transactions (add_sidecar sc vhs i m) = queued_transactions m"
  by (induction sc vhs i m rule: add_sidecar.induct) (simp_all add: add_blob_def)

lemma add_sidecar_other: "vh \<notin> set vhs \<Longrightarrow> get_blob (add_sidecar sc vhs i m) vh = get_blob m vh"
  by (induction sc vhs i m rule: add_sidecar.induct) (auto simp: add_blob_def get_blob_def)

lemma add_sidecar_stored:
  assumes "distinct vhs" and "j < length vhs" and "i + j < length (bb_blobs sc)" and "i + j < length (bb_commitments sc)"
    and "i + j < length (bb_proofs sc)"
  shows "get_blob (add_sidecar sc vhs i m) (vhs ! j) = Some (bb_blobs sc ! (i + j), bb_commitments sc ! (i + j), bb_proofs sc ! (i + j))"
  using assms
proof (induction sc vhs i m arbitrary: j rule: add_sidecar.induct)
  case (2 sc vh vhs i m)
  show ?case
  proof (cases j)
    case 0
    with 2 show ?thesis by (simp add: add_sidecar_other) (simp add: add_blob_def get_blob_def)
  next
    case (Suc k)
    with 2(1) [of k] 2(2-) show ?thesis by simp
  qed
qed simp

lemma store_pooled_keeps:
  "pooled_envelopes (store_pooled p data m) = (pooled_envelopes m)(po_hash p \<mapsto> po_encoding p)"
  "pooled_bytes (store_pooled p data m) = (pooled_bytes m)(po_hash p \<mapsto> data)"
  "pending_transactions (store_pooled p data m) = pending_transactions m"
  "queued_transactions (store_pooled p data m) = queued_transactions m"
  by (simp_all add: store_pooled_def Let_def add_pooled_bytes_def add_pooled_envelope_def split: option.split)

text \<open>A pooled transaction that is refused leaves its data behind.  When the transaction fails the checks, its envelope, its bytes
  and every blob of its sidecar are in the pool all the same, although no transaction of the pool needs them.\<close>

theorem refused_pooled_data_stays:
  assumes "po_envelope p = Some t" and "check_submission E t (rs_db s) = Inl e"
    and "po_sidecar p = Some sc" and "distinct (po_blob_hashes p)" and "length (bb_blobs sc) = length (po_blob_hashes p)"
    and "length (bb_commitments sc) = length (po_blob_hashes p)" and "length (bb_proofs sc) = length (po_blob_hashes p)"
  shows "\<exists>s'. import_pooled_transaction_with_source E bs coin p data is_local s = (Inl e, s') \<and>
    get_all_transactions (rs_pool s') = get_all_transactions (rs_pool s) \<and>
    get_pooled_envelope (rs_pool s') (po_hash p) = Some (po_encoding p) \<and> get_pooled_bytes (rs_pool s') (po_hash p) = Some data \<and>
    map (get_blob (rs_pool s')) (po_blob_hashes p) = map Some (zip (bb_blobs sc) (zip (bb_commitments sc) (bb_proofs sc)))"
proof -
  let ?m = "store_pooled p data (rs_pool s)"
  have "submit_transaction_with_source E bs coin t is_local (with_pool ?m s) = (Inl e, with_pool ?m s)"
    using assms(2) by (simp add: submit_transaction_with_source_def)
  then have i: "import_pooled_transaction_with_source E bs coin p data is_local s = (Inl e, with_pool ?m s)"
    using assms(1) by (simp add: import_pooled_transaction_with_source_def)
  have "map (get_blob ?m) (po_blob_hashes p) = map Some (zip (bb_blobs sc) (zip (bb_commitments sc) (bb_proofs sc)))"
    using assms(3-7) add_sidecar_stored [where i = 0 and sc = sc and vhs = "po_blob_hashes p"]
    by (auto intro!: nth_equalityI simp: store_pooled_def Let_def)
  with i show ?thesis
    by (simp add: store_pooled_keeps get_pooled_envelope_def get_pooled_bytes_def get_all_transactions_def)
qed

subsection \<open>Balances and receipts\<close>

definition pending_cost :: "tx \<Rightarrow> nat" where
  "pending_cost t = (unat (tx_gas_limit t) * unat (tx_max_fee_per_gas t) + unat (tx_value t)) mod 2 ^ 128"

lemma required_balance_cost:
  assumes "u256_to_u128 (tx_value t) = Inr v"
  shows "unat (required_balance t v) = pending_cost t"
proof -
  have "unat v = unat (tx_value t)"
    using assms by (auto simp: u256_to_u128_cases unat_ucast_fits split: if_splits)
  then show ?thesis by (simp add: pending_cost_def unat_required_balance)
qed

lemma deduct_pending_cost:
  assumes "deduct_pending ts b = Inr b'"
  shows "unat b' = unat b - sum_list (map pending_cost ts)"
  using assms
proof (induction ts arbitrary: b)
  case (Cons t ts)
  then obtain v where v: "u256_to_u128 (tx_value t) = Inr v"
    and r: "deduct_pending ts (if b > required_balance t v then b - required_balance t v else 0) = Inr b'"
    by (auto simp: Let_def split: sum.splits)
  have "unat (if b > required_balance t v then b - required_balance t v else 0) = unat b - pending_cost t"
    using required_balance_cost [OF v] by (auto simp: unat_sub word_less_nat_alt word_le_nat_alt)
  with Cons.IH [OF r] show ?case by simp
qed simp

lemma deduct_pending_panics: "deduct_pending ts b = Inl e \<longleftrightarrow> e = RpcPanic \<and> (\<exists>t \<in> set ts. 2 ^ 128 \<le> tx_value t)"
  by (induction ts arbitrary: b) (auto simp: u256_to_u128_def not_less Let_def split: if_splits)

text \<open>The pending balance is the balance at the block less what the sender's transactions in the pool may cost, and never below zero.
  The costs are those of the pool, each reduced modulo $2^{128}$; a value of 128 bits or more among them is a panic.\<close>

theorem pending_balance_exact:
  assumes "rpc_account E a (IdNumber Pending) d = Inr acc"
  shows "case get_balance E a (IdNumber Pending) m d of
      Inr x \<Rightarrow> unat x = unat (case acc of Some y \<Rightarrow> acc_balance y | None \<Rightarrow> 0) - (\<Sum>t \<leftarrow> get_transactions_by_sender m a. pending_cost t)
    | Inl e \<Rightarrow> e = RpcPanic \<and> (\<exists>t \<in> set (get_transactions_by_sender m a). 2 ^ 128 \<le> tx_value t)"
  using assms deduct_pending_cost deduct_pending_panics by (auto simp: get_balance_def split: sum.split)

lemma collect_results_Inr: "collect_results rs = Inr xs \<longleftrightarrow> rs = map Inr xs"
proof (induction rs arbitrary: xs)
  case (Cons r rs)
  then show ?case by (cases r) (auto simp: rbind_Inr_iff Cons_eq_map_conv)
qed auto

lemma block_reference_canonical:
  assumes "transaction_block_reference h d = Inr (Some (n, bh, i))"
  shows "block_hash n d = Inr (Some bh)"
  using assms unfolding transaction_block_reference_def rbind_Inr_iff
  by (auto simp: rbind_Inr_iff split: option.split_asm if_split_asm)

text \<open>The receipts of a block are given in the order of its transactions, one for each, and every one of them belongs to a canonical
  block: a block that is not canonical gets an error unless all its transactions are canonical elsewhere.\<close>

theorem block_receipts_exact:
  assumes "get_receipts_by_block_id E bid c = Inr rs"
  shows "\<exists>b. get_block_by_id E bid c = Inr (Some b) \<and>
    (if h_number (b_header b) = 0 then rs = []
     else length rs = length (b_transactions (b_body b)) \<and>
       (\<forall>i < length rs. \<exists>n bh index. transaction_block_reference (tx_hash (b_transactions (b_body b) ! i)) (ch_db c) = Inr (Some (n, bh, index)) \<and>
          block_hash n (ch_db c) = Inr (Some bh) \<and> receipt_at bh index (ch_db c) = Inr (Some (rs ! i))))"
proof -
  from assms obtain b where b: "get_block_by_id E bid c = Inr (Some b)"
    by (auto simp: get_receipts_by_block_id_def rbind_Inr_iff ok_or_def split: option.splits)
  show ?thesis
  proof (cases "h_number (b_header b) = 0")
    case True
    with assms b show ?thesis by (simp add: get_receipts_by_block_id_def)
  next
    case False
    let ?f = "\<lambda>t. rbind (internal_err (transaction_receipt (tx_hash t) (ch_db c))) (\<lambda>r. ok_or r (Internal ''Receipt not found for transaction''))"
    from assms b False have m: "map ?f (b_transactions (b_body b)) = map Inr rs"
      by (simp add: get_receipts_by_block_id_def collect_results_Inr)
    then have l: "length rs = length (b_transactions (b_body b))" by (metis length_map)
    have "\<exists>n bh index. transaction_block_reference (tx_hash (b_transactions (b_body b) ! i)) (ch_db c) = Inr (Some (n, bh, index)) \<and>
          block_hash n (ch_db c) = Inr (Some bh) \<and> receipt_at bh index (ch_db c) = Inr (Some (rs ! i))" if "i < length rs" for i
    proof -
      let ?h = "tx_hash (b_transactions (b_body b) ! i)"
      have "map ?f (b_transactions (b_body b)) ! i = map Inr rs ! i" by (simp only: m)
      then have "?f (b_transactions (b_body b) ! i) = Inr (rs ! i)" using that l by simp
      then have "transaction_receipt ?h (ch_db c) = Inr (Some (rs ! i))"
        by (auto simp: internal_err_def rbind_Inr_iff map_sum_Inr ok_or_def split: option.splits)
      then obtain n bh index where ref: "transaction_block_reference ?h (ch_db c) = Inr (Some (n, bh, index))"
        and "receipt_at bh index (ch_db c) = Inr (Some (rs ! i))"
        by (auto simp: transaction_receipt_def rbind_Inr_iff split: option.splits)
      moreover from ref have "block_hash n (ch_db c) = Inr (Some bh)" by (rule block_reference_canonical)
      ultimately show ?thesis by blast
    qed
    with b l False show ?thesis by auto
  qed
qed

subsection \<open>Witnesses\<close>

definition rpc_start :: "db \<Rightarrow> mempool \<Rightarrow> rpc_state" where
  "rpc_start d m = \<lparr>rs_eng = (empty_engine d)\<lparr>eg_pool := m\<rparr>, rs_revalidations = []\<rparr>"

lemma rpc_start_simps [simp]: "rs_db (rpc_start d m) = d" "rs_pool (rpc_start d m) = m" "rs_events (rpc_start d m) = []"
  by (simp_all add: rpc_start_def empty_engine_def)

lemma funded_latest: "header (IdNumber Latest) funded_db = Inr None" "header (IdNumber Pending) funded_db = Inr None"
  by (simp_all add: header_def head_or_latest_def forkchoice_def latest_block_number_def block_hash_def read_tbl_def funded_db_def empty_db_def
      tbl_get_def tbl_empty_def tbl_iter_def)

lemma cancun_chain_id: "x_chain_id (en_exec cancun_env) d = Inr 1"
  by (simp add: cancun_env_def config_exec_def sample_exec_def)

theorem submission_outcome_witness:
  "\<exists>s'. submit_transaction_with_source cancun_env linear_search False (sample_tx Legacy 7 (Some 9)) True (rpc_start funded_db two_nonces) =
     (Inr 7, s') \<and> sample_tx Legacy 7 (Some 9) \<in> set (get_all_transactions (rs_pool s')) \<and>
     rs_events s' = [NewTransaction (sample_tx Legacy 7 (Some 9)) True]"
proof -
  let ?t = "sample_tx Legacy 7 (Some 9)" and ?s = "rpc_start funded_db two_nonces"
  have c: "check_submission cancun_env ?t funded_db = Inr ()"
    by (simp add: check_submission_def internal_err_def cancun_chain_id funded_latest) (simp add: sample_tx_def)
  have n: "state_nonce_of cancun_env funded_db 1 = 6"
    by (simp add: state_nonce_of_def transaction_count_def account_def latest_account_def of_store_def read_tbl_def unwrap_ok_def)
      (simp add: funded_db_def empty_db_def tbl_get_insert)
  obtain m where "add_transaction linear_search False ?t 6 two_nonces = Inr (True, m)"
    by (simp add: add_transaction_def insert_into_queue_def place_in_queue_def sel_queues_def queue_of_def set_queue_def
        linear_search_def Let_def next_pending_nonce_def max_def two_nonces_def sample_pool_def)
  then have a: "submit_transaction_with_source cancun_env linear_search False ?t True ?s = (Inr 7, announce ?t True (with_pool m ?s))"
    using c n by (simp add: submit_transaction_with_source_def Let_def sample_tx_def)
  have "mempool_wf (rs_pool ?s)" by (simp add: two_nonces_wf)
  from submission_outcome [OF linear_search_ok this a] a show ?thesis by simp
qed

definition wrong_chain_tx :: tx where
  "wrong_chain_tx = (sample_tx Eip4844 7 None)\<lparr>tx_chain_id := Some 5\<rparr>"

definition sample_pooled :: pooled_tx where
  "sample_pooled = \<lparr>po_hash = 7, po_encoding = [1, 2], po_blob_hashes = [40, 41],
     po_sidecar = Some \<lparr>bb_commitments = [[3], [4]], bb_proofs = [[5], [6]], bb_blobs = [[7], [8]]\<rparr>, po_envelope = Some wrong_chain_tx\<rparr>"

theorem refused_pooled_data_stays_witness:
  "\<exists>s'. import_pooled_transaction_with_source cancun_env linear_search False sample_pooled [1, 2] False (rpc_start funded_db two_nonces) =
     (Inl (InvalidParams ''Invalid chain ID''), s') \<and> get_blob (rs_pool s') 41 = Some ([8], [4], [6]) \<and>
     get_pooled_bytes (rs_pool s') 7 = Some [1, 2]"
proof -
  have c: "check_submission cancun_env wrong_chain_tx (rs_db (rpc_start funded_db two_nonces)) = Inl (InvalidParams ''Invalid chain ID'')"
    by (simp add: check_submission_def internal_err_def cancun_chain_id wrong_chain_tx_def)
  have p: "po_envelope sample_pooled = Some wrong_chain_tx" by (simp add: sample_pooled_def)
  from refused_pooled_data_stays [OF p c, of "\<lparr>bb_commitments = [[3], [4]], bb_proofs = [[5], [6]], bb_blobs = [[7], [8]]\<rparr>"
      linear_search False "[1, 2]" False]
  show ?thesis by (auto simp: sample_pooled_def)
qed

theorem pending_balance_exact_witness:
  "\<exists>x. get_balance cancun_env 1 (IdNumber Pending) two_nonces funded_db = Inr x \<and> unat x = 10 ^ 9 - 42000000"
proof -
  let ?acc = "\<lparr>acc_nonce = 6, acc_balance = 10 ^ 9, acc_storage_root = 0, acc_code_hash = 0\<rparr>"
  have "rpc_account cancun_env 1 (IdNumber Pending) funded_db = Inr (Some ?acc)"
    by (simp add: rpc_account_def root_of_block_def funded_latest account_def latest_account_def of_store_def state_err_def read_tbl_def)
      (simp add: funded_db_def empty_db_def tbl_get_insert)
  from pending_balance_exact [OF this, of two_nonces] show ?thesis
    by (auto simp: get_transactions_by_sender_def two_nonces_def queue_of_def pending_cost_def split: sum.splits)
      (simp_all add: sample_tx_def)
qed

definition receipt_db :: db where
  "receipt_db = sample_db\<lparr>t_headers := [(7, devnet_header 6 112 21000 900 0)],
     t_block_bodies := [(7, \<lparr>b_transactions = [devnet_tx Eip1559 3 []], b_ommers = [], b_withdrawals = Some []\<rparr>)]\<rparr>"

lemma receipt_db_reads:
  "transaction_lookup 3 receipt_db = Inr (Some (7, 0))" "block_number 7 receipt_db = Inr (Some 6)"
  "block_hash 6 receipt_db = Inr (Some 7)" "receipt_at 7 0 receipt_db = Inr (Some sample_receipt)"
  "header (IdHash 7) receipt_db = Inr (Some (devnet_header 6 112 21000 900 0))"
  "block_body_by_hash 7 receipt_db = Inr (Some \<lparr>b_transactions = [devnet_tx Eip1559 3 []], b_ommers = [], b_withdrawals = Some []\<rparr>)"
  by (simp_all add: header_def block_body_by_hash_def transaction_lookup_def block_number_def block_hash_def receipt_at_def read_tbl_def)
    (simp_all add: receipt_db_def sample_db_def empty_db_def tbl_get_def)

theorem block_receipts_exact_witness:
  "\<exists>rs. get_receipts_by_block_id cancun_env (IdHash 7) (eg_chain (empty_engine receipt_db)) = Inr rs \<and> length rs = 1 \<and>
     (\<exists>n bh index. block_hash n receipt_db = Inr (Some bh) \<and> receipt_at bh index receipt_db = Inr (Some (rs ! 0)))"
proof -
  let ?c = "eg_chain (empty_engine receipt_db)"
  have d: "ch_db ?c = receipt_db" by (simp add: empty_engine_def)
  have r: "transaction_receipt 3 receipt_db = Inr (Some sample_receipt)"
    by (simp add: transaction_receipt_def transaction_block_reference_def receipt_db_reads)
  have b: "get_block_by_id cancun_env (IdHash 7) ?c = Inr (Some \<lparr>b_header = devnet_header 6 112 21000 900 0,
      b_body = \<lparr>b_transactions = [devnet_tx Eip1559 3 []], b_ommers = [], b_withdrawals = Some []\<rparr>\<rparr>)"
  proof -
    have "sample_hash (devnet_header 6 112 21000 900 0) = 7" by (simp add: sample_hash_def devnet_header_def)
    then show ?thesis by (simp add: get_block_by_id_def d block_def receipt_db_reads)
  qed
  have g: "get_receipts_by_block_id cancun_env (IdHash 7) ?c = Inr [sample_receipt]"
    by (simp add: get_receipts_by_block_id_def b d r internal_err_def) (simp add: devnet_header_def devnet_tx_def internal_err_def r)
  from block_receipts_exact [OF g] b d g show ?thesis by (auto simp: devnet_header_def)
qed

end
