(* ===== verification/Routing.thy ===== *)
theory Routing
  imports EthTypes "HOL-Library.Multiset"
begin

section \<open>The routing table of the discovery protocol\<close>

text \<open>
  \<^verbatim>\<open>wasix_eth_p2p/src/discovery/kbuckets.rs\<close> (\<open>RoutingTable\<close>): 256 buckets of at most 16 nodes, by the
  logarithm of the XOR distance of the hashes of their ids.  The hash (keccak) and the clock are parameters, and
  \<open>'e\<close> is the type of endpoints.
\<close>

type_synonym node_id = "512 word"

record 'e node_record =
  nr_id :: node_id
  nr_endpoint :: 'e
  nr_last_seen :: nat

record 'e routing_table =
  rt_local_id :: node_id
  rt_local_id_hash :: b256
  rt_buckets :: "'e node_record list list"
  rt_max_bucket_size :: nat

definition routing_new :: "(node_id \<Rightarrow> b256) \<Rightarrow> node_id \<Rightarrow> 'e routing_table" where
  "routing_new H local_id = \<lparr>rt_local_id = local_id, rt_local_id_hash = H local_id, rt_buckets = replicate 256 [], rt_max_bucket_size = 16\<rparr>"

text \<open>The bytes of a hash from the most significant one, and the leading zeros of a byte.\<close>

definition byte_at :: "b256 \<Rightarrow> nat \<Rightarrow> u8" where
  "byte_at x i = ucast (drop_bit (8 * (31 - i)) x)"

definition byte_leading_zeros :: "u8 \<Rightarrow> nat" where
  "byte_leading_zeros b = length (takeWhile (\<lambda>k. \<not> bit b k) (rev [0 ..< 8]))"

definition distance_log2 :: "(node_id \<Rightarrow> b256) \<Rightarrow> 'e routing_table \<Rightarrow> node_id \<Rightarrow> nat option" where
  "distance_log2 H t i =
     (let x = Bit_Operations.xor (rt_local_id_hash t) (H i) in
      map_option (\<lambda>k. 255 - (k * 8 + byte_leading_zeros (byte_at x k))) (List.find (\<lambda>k. byte_at x k \<noteq> 0) [0 ..< 32]))"

definition add_node :: "(node_id \<Rightarrow> b256) \<Rightarrow> nat \<Rightarrow> node_id \<Rightarrow> 'e \<Rightarrow> 'e routing_table \<Rightarrow> 'e node_record option \<times> 'e routing_table" where
  "add_node H now i ep t =
     (if i = rt_local_id t then (None, t)
      else case distance_log2 H t i of
          None \<Rightarrow> (None, t)
        | Some k \<Rightarrow>
            let bucket = rt_buckets t ! k; put = (\<lambda>b. t\<lparr>rt_buckets := (rt_buckets t)[k := b]\<rparr>) in
            (case List.find (\<lambda>n. nr_id n = i) bucket of
               Some existing \<Rightarrow>
                 (None, put (filter (\<lambda>n. nr_id n \<noteq> i) bucket @ [existing\<lparr>nr_endpoint := ep, nr_last_seen := now\<rparr>]))
             | None \<Rightarrow>
                 if length bucket < rt_max_bucket_size t
                 then (None, put (bucket @ [\<lparr>nr_id = i, nr_endpoint = ep, nr_last_seen = now\<rparr>]))
                 else (Some (bucket ! 0), t)))"

definition remove_node :: "(node_id \<Rightarrow> b256) \<Rightarrow> node_id \<Rightarrow> 'e routing_table \<Rightarrow> 'e routing_table" where
  "remove_node H i t =
     (case distance_log2 H t i of None \<Rightarrow> t
      | Some k \<Rightarrow> t\<lparr>rt_buckets := (rt_buckets t)[k := filter (\<lambda>n. nr_id n \<noteq> i) (rt_buckets t ! k)]\<rparr>)"

definition get_all_nodes :: "'e routing_table \<Rightarrow> 'e node_record list" where
  "get_all_nodes t = concat (rt_buckets t)"

definition node_distance :: "(node_id \<Rightarrow> b256) \<Rightarrow> node_id \<Rightarrow> 'e node_record \<Rightarrow> b256" where
  "node_distance H target n = Bit_Operations.xor (H target) (H (nr_id n))"

definition closest_nodes :: "(node_id \<Rightarrow> b256) \<Rightarrow> node_id \<Rightarrow> nat \<Rightarrow> 'e routing_table \<Rightarrow> 'e node_record list" where
  "closest_nodes H target cnt t = take cnt (sort_key (node_distance H target) (get_all_nodes t))"

subsection \<open>The index of a bucket is a logarithm\<close>

lemma length_takeWhile_lt:
  "x \<in> set xs \<Longrightarrow> \<not> P x \<Longrightarrow> length (takeWhile P xs) < length xs"
  by (induction xs) auto

lemma byte_leading_zeros_bit:
  assumes "b \<noteq> 0"
  shows "byte_leading_zeros b < 8" "bit b (7 - byte_leading_zeros b)" "\<forall>k. 7 - byte_leading_zeros b < k \<longrightarrow> \<not> bit b k"
proof -
  let ?ks = "rev [0 ..< 8 :: nat]" and ?P = "\<lambda>k. \<not> bit b k"
  let ?n = "byte_leading_zeros b"
  obtain k where k: "k < 8" "bit b k"
    using assms bit_eqI [of b 0] bit_imp_le_length [of b] by auto
  then have n: "?n < 8"
    unfolding byte_leading_zeros_def using length_takeWhile_lt [of k ?ks ?P] by simp
  show "?n < 8" by (rule n)
  have nth: "?ks ! j = 7 - j" if "j < 8" for j using that by (simp add: rev_nth)
  show "bit b (7 - ?n)"
    using nth_length_takeWhile [of ?P ?ks] n nth [OF n] by (simp add: byte_leading_zeros_def)
  show "\<forall>k. 7 - ?n < k \<longrightarrow> \<not> bit b k"
  proof (intro allI impI)
    fix k assume k: "7 - ?n < k"
    show "\<not> bit b k"
    proof (cases "k < 8")
      case True
      then have "7 - k < ?n" "?ks ! (7 - k) = k" using k nth [of "7 - k"] by simp_all
      then show ?thesis
        using takeWhile_nth [of "7 - k" ?P ?ks] set_takeWhileD nth_mem unfolding byte_leading_zeros_def by metis
    next
      case False
      then show ?thesis using bit_imp_le_length [of b k] by auto
    qed
  qed
qed

lemma bit_byte_at:
  "bit (byte_at x i) k \<longleftrightarrow> k < 8 \<and> bit x (8 * (31 - i) + k)"
  by (auto simp: byte_at_def bit_ucast_iff bit_drop_bit_eq add.commute)

lemma distance_log2_top_bit:
  assumes x: "x = Bit_Operations.xor (rt_local_id_hash t) (H i)" and "distance_log2 H t i = Some d"
  shows "d < 256" "bit x d" "d < k \<Longrightarrow> \<not> bit x k"
proof -
  obtain j where j: "List.find (\<lambda>k. byte_at x k \<noteq> 0) [0 ..< 32] = Some j"
    and d: "d = 255 - (j * 8 + byte_leading_zeros (byte_at x j))"
    using assms(2) by (auto simp: distance_log2_def Let_def x simp del: upt_rec_numeral)
  have j32: "j < 32" and nz: "byte_at x j \<noteq> 0" and before: "\<forall>k < j. byte_at x k = 0"
    using j by (auto simp: find_Some_iff simp del: upt_rec_numeral)
  let ?z = "byte_leading_zeros (byte_at x j)"
  have z: "?z < 8" "bit (byte_at x j) (7 - ?z)" "\<forall>k. 7 - ?z < k \<longrightarrow> \<not> bit (byte_at x j) k"
    using byte_leading_zeros_bit [OF nz] by blast+
  have deq: "d = 8 * (31 - j) + (7 - ?z)" using d z(1) j32 by linarith
  show "d < 256" using deq z(1) by linarith
  show "bit x d" using z(2) deq by (simp add: bit_byte_at)
  show "\<not> bit x k" if "d < k"
  proof (cases "k < 256")
    case True
    let ?m = "31 - k div 8"
    have km: "k = 8 * (31 - ?m) + k mod 8" using True by simp
    have "?m \<le> j" using that deq True j32 by linarith
    then consider "?m < j" | "?m = j" by linarith
    then show ?thesis
    proof cases
      case 1
      then have "\<not> bit (byte_at x ?m) (k mod 8)" using before by simp
      then show ?thesis using km by (simp add: bit_byte_at)
    next
      case 2
      then have "7 - ?z < k mod 8" using that deq km by linarith
      then have "\<not> bit (byte_at x ?m) (k mod 8)" using z(3) 2 by simp
      then show ?thesis using km by (simp add: bit_byte_at)
    qed
  next
    case False
    then show ?thesis using bit_imp_le_length [of x k] by auto
  qed
qed

lemma distance_log2_none:
  assumes "distance_log2 H t i = None"
  shows "H i = rt_local_id_hash t"
proof -
  let ?x = "Bit_Operations.xor (rt_local_id_hash t) (H i)"
  have z: "byte_at ?x k = 0" if "k < 32" for k
    using assms that by (auto simp: distance_log2_def Let_def find_None_iff simp del: upt_rec_numeral)
  have "?x = 0"
  proof (rule bit_eqI)
    fix n
    have "\<not> bit (byte_at ?x (31 - n div 8)) (n mod 8)" using z by simp
    then have "n < 256 \<Longrightarrow> \<not> bit ?x n" unfolding bit_byte_at by simp
    then show "bit ?x n \<longleftrightarrow> bit 0 n" using bit_imp_le_length [of ?x n] by auto
  qed
  then have "Bit_Operations.xor (rt_local_id_hash t) ?x = rt_local_id_hash t" by simp
  then show ?thesis by (simp add: xor.assoc [symmetric])
qed

lemma top_bit_bounds:
  fixes x :: "'a::len word"
  assumes "bit x d" and "\<And>k. d < k \<Longrightarrow> \<not> bit x k"
  shows "2 ^ d \<le> unat x" "unat x < 2 ^ Suc d"
proof -
  have "bit (unat x) d" using assms(1) by (simp add: bit_unsigned_iff bit_imp_le_length)
  then have "unat x div 2 ^ d \<noteq> 0" unfolding bit_iff_odd by (metis even_zero)
  then show "2 ^ d \<le> unat x" by (metis div_less not_le)
  have "take_bit (Suc d) x = x"
  proof (rule bit_eqI)
    show "bit (take_bit (Suc d) x) n \<longleftrightarrow> bit x n" for n
      using assms(2) [of n] by (cases "d < n") (simp_all add: bit_take_bit_iff)
  qed
  then have "unat x = take_bit (Suc d) (unat x)" by (metis unsigned_take_bit_eq)
  then show "unat x < 2 ^ Suc d" by (metis take_bit_nat_less_exp)
qed

lemma power2_bracket_unique:
  fixes n :: nat
  assumes "2 ^ a \<le> n" "n < 2 ^ Suc a" "2 ^ b \<le> n" "n < 2 ^ Suc b"
  shows "a = b"
proof -
  have "(2::nat) ^ a < 2 ^ Suc b" "(2::nat) ^ b < 2 ^ Suc a" using assms by linarith+
  then have "a < Suc b" "b < Suc a" by (simp_all only: power_strict_increasing_iff one_less_numeral_iff semiring_norm)
  then show ?thesis by simp
qed

text \<open>The index of the bucket of a node is exactly the binary logarithm of the XOR distance of the two hashes, so
  that every pair of nodes with different hashes has one bucket of the 256, and only equal hashes have none.
\<close>

theorem bucket_index_is_log_distance:
  "distance_log2 H t i = Some d \<longleftrightarrow>
     2 ^ d \<le> unat (Bit_Operations.xor (rt_local_id_hash t) (H i)) \<and> unat (Bit_Operations.xor (rt_local_id_hash t) (H i)) < 2 ^ Suc d"
  (is "_ \<longleftrightarrow> _ \<le> unat ?x \<and> _")
proof (cases "distance_log2 H t i")
  case None
  then show ?thesis using distance_log2_none [OF None] by simp
next
  case (Some e)
  note b = distance_log2_top_bit [OF refl Some]
  have "2 ^ e \<le> unat ?x" "unat ?x < 2 ^ Suc e" using top_bit_bounds [of ?x e] b(2,3) by blast+
  then show ?thesis using Some power2_bracket_unique [of e "unat ?x" d] by auto
qed

subsection \<open>The invariant of the table\<close>

definition bucket_wf :: "(node_id \<Rightarrow> b256) \<Rightarrow> 'e routing_table \<Rightarrow> nat \<Rightarrow> 'e node_record list \<Rightarrow> bool" where
  "bucket_wf H t k b \<longleftrightarrow>
     length b \<le> rt_max_bucket_size t \<and> distinct (map nr_id b) \<and>
     (\<forall>n\<in>set b. nr_id n \<noteq> rt_local_id t \<and> distance_log2 H t (nr_id n) = Some k)"

definition table_wf :: "(node_id \<Rightarrow> b256) \<Rightarrow> 'e routing_table \<Rightarrow> bool" where
  "table_wf H t \<longleftrightarrow>
     length (rt_buckets t) = 256 \<and> rt_max_bucket_size t = 16 \<and> rt_local_id_hash t = H (rt_local_id t) \<and>
     (\<forall>k<256. bucket_wf H t k (rt_buckets t ! k))"

lemma distance_log2_bound: "distance_log2 H t i = Some d \<Longrightarrow> d < 256"
  using distance_log2_top_bit(1) [OF refl] .

lemma distance_log2_buckets [simp]: "distance_log2 H (t\<lparr>rt_buckets := bs\<rparr>) i = distance_log2 H t i"
  by (simp add: distance_log2_def)

lemma bucket_wf_buckets [simp]: "bucket_wf H (t\<lparr>rt_buckets := bs\<rparr>) = bucket_wf H t"
  by (auto simp: bucket_wf_def fun_eq_iff)

lemma table_wf_put:
  assumes "table_wf H t" "bucket_wf H t k b"
  shows "table_wf H (t\<lparr>rt_buckets := (rt_buckets t)[k := b]\<rparr>)"
proof -
  have "bucket_wf H t j ((rt_buckets t)[k := b] ! j)" if "j < 256" for j
    using assms that by (cases "j = k") (auto simp: table_wf_def)
  then show ?thesis using assms by (simp add: table_wf_def)
qed

lemma distinct_map_filter_other: "distinct (map f xs) \<Longrightarrow> distinct (map f (filter P xs))"
  by (induction xs) auto

lemma bucket_wf_filter: "bucket_wf H t k b \<Longrightarrow> bucket_wf H t k (filter P b)"
  unfolding bucket_wf_def by (auto intro: distinct_map_filter_other order_trans [OF length_filter_le])

lemma table_wf_new: "table_wf H (routing_new H l)"
  by (simp add: table_wf_def routing_new_def bucket_wf_def)

lemma table_wf_remove:
  assumes "table_wf H t"
  shows "table_wf H (remove_node H i t)"
  using assms distance_log2_bound [of H t i]
  by (auto simp: remove_node_def split: option.split intro!: table_wf_put bucket_wf_filter) (auto simp: table_wf_def)

lemma table_wf_add:
  assumes "table_wf H t"
  shows "table_wf H (snd (add_node H now i ep t))"
proof (cases "i = rt_local_id t \<or> distance_log2 H t i = None")
  case True
  then show ?thesis using assms by (auto simp: add_node_def)
next
  case False
  then obtain k where k: "distance_log2 H t i = Some k" and l: "i \<noteq> rt_local_id t" by auto
  have b: "bucket_wf H t k (rt_buckets t ! k)" using assms distance_log2_bound [OF k] by (simp add: table_wf_def)
  show ?thesis
  proof (cases "List.find (\<lambda>n. nr_id n = i) (rt_buckets t ! k)")
    case None
    then have "i \<notin> nr_id ` set (rt_buckets t ! k)" by (auto simp: find_None_iff)
    then show ?thesis
      using assms b k l None by (auto simp: add_node_def Let_def bucket_wf_def intro!: table_wf_put)
  next
    case (Some e)
    then have e: "e \<in> set (rt_buckets t ! k)" "nr_id e = i" by (auto simp: find_Some_iff)
    then have "length (filter (\<lambda>n. nr_id n \<noteq> i) (rt_buckets t ! k)) < length (rt_buckets t ! k)"
      by (intro length_filter_less) auto
    then have "bucket_wf H t k (filter (\<lambda>n. nr_id n \<noteq> i) (rt_buckets t ! k) @ [e\<lparr>nr_endpoint := ep, nr_last_seen := now\<rparr>])"
      using b k l e by (auto simp: bucket_wf_def intro: distinct_map_filter_other)
    then show ?thesis using assms k l Some by (simp add: add_node_def Let_def table_wf_put)
  qed
qed

datatype 'e routing_op = AddNode nat node_id 'e | RemoveNode node_id

fun routing_step :: "(node_id \<Rightarrow> b256) \<Rightarrow> 'e routing_op \<Rightarrow> 'e routing_table \<Rightarrow> 'e routing_table" where
  "routing_step H (AddNode now i ep) t = snd (add_node H now i ep t)"
| "routing_step H (RemoveNode i) t = remove_node H i t"

text \<open>C27: after any sequence of operations on a new table there are 256 buckets of at most 16 nodes, no bucket holds an id
  twice, every node is in the bucket of its distance, and the local node is in none.
\<close>

theorem routing_table_invariant: "table_wf H (fold (routing_step H) ops (routing_new H l))"
proof -
  have "table_wf H t \<Longrightarrow> table_wf H (fold (routing_step H) ops t)" for t :: "'a routing_table"
  proof (induction ops arbitrary: t)
    case (Cons a ops)
    then show ?case by (cases a) (auto simp: table_wf_add table_wf_remove)
  qed simp
  then show ?thesis by (simp add: table_wf_new)
qed

text \<open>An answer to a query for neighbours holds the nodes of the table nearest to the target, nearest first: it and
  the nodes it leaves out are all the nodes of the table in the order of their distance.
\<close>

theorem closest_nodes_nearest:
  "\<exists>rest. mset (closest_nodes H target cnt t @ rest) = mset (get_all_nodes t) \<and>
          sorted (map (node_distance H target) (closest_nodes H target cnt t @ rest)) \<and>
          length (closest_nodes H target cnt t) = min cnt (length (get_all_nodes t))"
  by (rule exI [where x = "drop cnt (sort_key (node_distance H target) (get_all_nodes t))"])
     (simp only: closest_nodes_def append_take_drop_id mset_sort sorted_sort_key length_take length_sort simp_thms min.commute)

text \<open>A full bucket is left as it is, and its oldest node is handed back to be pinged.\<close>

theorem full_bucket_hands_back_oldest:
  assumes "table_wf H t" "i \<noteq> rt_local_id t" "distance_log2 H t i = Some k"
    and "length (rt_buckets t ! k) = 16" and "i \<notin> nr_id ` set (rt_buckets t ! k)"
  shows "add_node H now i ep t = (Some (rt_buckets t ! k ! 0), t)"
proof -
  have "List.find (\<lambda>n. nr_id n = i) (rt_buckets t ! k) = None" using assms(5) by (auto simp: find_None_iff)
  then show ?thesis using assms by (simp add: add_node_def table_wf_def)
qed

text \<open>A node that was just seen is the last of its bucket, with its new endpoint, unless the bucket was full without it.\<close>

theorem add_node_moves_to_end:
  assumes "table_wf H t" "i \<noteq> rt_local_id t" "distance_log2 H t i = Some k"
    and "fst (add_node H now i ep t) = None"
  shows "last (rt_buckets (snd (add_node H now i ep t)) ! k) = \<lparr>nr_id = i, nr_endpoint = ep, nr_last_seen = now\<rparr>"
proof -
  have "k < length (rt_buckets t)" using assms(1) distance_log2_bound [OF assms(3)] by (simp add: table_wf_def)
  moreover have "e\<lparr>nr_endpoint := ep, nr_last_seen := now\<rparr> = \<lparr>nr_id = i, nr_endpoint = ep, nr_last_seen = now\<rparr>"
    if "List.find (\<lambda>n. nr_id n = i) (rt_buckets t ! k) = Some e" for e
  proof -
    have "nr_id e = i" using that by (auto simp: find_Some_iff)
    then show ?thesis by simp
  qed
  ultimately show ?thesis
    using assms by (auto simp: add_node_def Let_def split: option.splits if_splits)
qed

end
