(* ===== verification/Rlpx.thy ===== *)
theory Rlpx
  imports EthTypes
begin

section \<open>The encrypted transport\<close>

text \<open>
  \<^verbatim>\<open>wasix_eth_p2p/src/rlpx\<close>: the session secrets and ECIES envelopes of \<^verbatim>\<open>crypto.rs\<close>, the frames of
  \<^verbatim>\<open>frame.rs\<close> and the message stream of \<^verbatim>\<open>stream.rs\<close>.  What the third-party crates compute
  (Keccak, SHA-256, HMAC, the AES block and key streams, secp256k1, Snappy, the RLP of one byte) is the record \<open>rlpx_lib\<close>.
  A hasher is the list of the bytes fed to it; a stream cipher is its position in its key stream, which it XORs to the data.
\<close>

record ('sk, 'pk) rlpx_lib =
  rx_keccak :: "bytes \<Rightarrow> bytes"
  rx_sha256 :: "bytes \<Rightarrow> bytes"
  rx_hmac :: "bytes \<Rightarrow> bytes \<Rightarrow> bytes"
  rx_aes256 :: "bytes \<Rightarrow> bytes \<Rightarrow> bytes"
  rx_ctr64 :: "bytes \<Rightarrow> nat \<Rightarrow> u8"
  rx_ctr128 :: "bytes \<Rightarrow> bytes \<Rightarrow> nat \<Rightarrow> u8"
  rx_diffie_hellman :: "'sk \<Rightarrow> 'pk \<Rightarrow> bytes"
  rx_public_key :: "'sk \<Rightarrow> 'pk"
  rx_encode_point :: "'pk \<Rightarrow> bytes"
  rx_from_sec1 :: "bytes \<Rightarrow> 'pk option"
  rx_encode_u8 :: "u8 \<Rightarrow> bytes"
  rx_decode_u8 :: "bytes \<Rightarrow> (u8 \<times> bytes) option"
  rx_compress :: "bytes \<Rightarrow> bytes option"
  rx_decompress_len :: "bytes \<Rightarrow> nat option"
  rx_decompress :: "bytes \<Rightarrow> bytes option"

datatype rlpx_error = HeaderMacMismatch | FrameMacMismatch | FrameTooLarge nat | ClosedInHeader | ClosedInBody | NoCodec
  | FrameTooShort nat nat | BadMessageId | DecompressLenFailed | SizeExceedsLimit nat | DecompressFailed | CompressFailed
  | NotNegotiated string | EciesTooShort | EciesBadKey | EciesTagMismatch

definition xor_bytes :: "bytes \<Rightarrow> bytes \<Rightarrow> bytes" where
  "xor_bytes = map2 Bit_Operations.xor"

definition key_stream :: "(nat \<Rightarrow> u8) \<Rightarrow> nat \<Rightarrow> bytes \<Rightarrow> bytes" where
  "key_stream ks pos data = xor_bytes data (map ks [pos ..< pos + length data])"

subsection \<open>Message authentication\<close>

record mac =
  mac_secret :: bytes
  mac_data :: bytes

definition mac_new :: "bytes \<Rightarrow> mac" where
  "mac_new secret = \<lparr>mac_secret = secret, mac_data = []\<rparr>"

definition mac_update :: "bytes \<Rightarrow> mac \<Rightarrow> mac" where
  "mac_update data m = m\<lparr>mac_data := mac_data m @ data\<rparr>"

definition mac_digest :: "('sk, 'pk) rlpx_lib \<Rightarrow> mac \<Rightarrow> bytes" where
  "mac_digest L m = take 16 (rx_keccak L (mac_data m))"

definition update_header :: "('sk, 'pk) rlpx_lib \<Rightarrow> bytes \<Rightarrow> mac \<Rightarrow> mac" where
  "update_header L data m = mac_update (xor_bytes (rx_aes256 L (mac_secret m) (mac_digest L m)) data) m"

definition update_body :: "('sk, 'pk) rlpx_lib \<Rightarrow> bytes \<Rightarrow> mac \<Rightarrow> mac" where
  "update_body L data m =
     (let m = mac_update data m; prev = mac_digest L m
      in mac_update (xor_bytes (rx_aes256 L (mac_secret m) prev) prev) m)"

subsection \<open>Session secrets\<close>

record secrets =
  aes_secret :: bytes
  sec_mac_secret :: bytes
  egress_mac_init_data :: bytes
  ingress_mac_init_data :: bytes

definition derive_session_secrets ::
  "('sk, 'pk) rlpx_lib \<Rightarrow> bool \<Rightarrow> bytes \<Rightarrow> bytes \<Rightarrow> bytes \<Rightarrow> bytes \<Rightarrow> bytes \<Rightarrow> secrets" where
  "derive_session_secrets L initiator initiator_nonce recipient_nonce agreed_secret auth_packet ack_packet =
     (let h_nonce = rx_keccak L (recipient_nonce @ initiator_nonce);
          shared_secret = rx_keccak L (agreed_secret @ h_nonce);
          aes = rx_keccak L (agreed_secret @ shared_secret);
          mac = rx_keccak L (agreed_secret @ aes)
      in if initiator
         then \<lparr>aes_secret = aes, sec_mac_secret = mac, egress_mac_init_data = xor_bytes mac recipient_nonce @ auth_packet,
               ingress_mac_init_data = xor_bytes mac initiator_nonce @ ack_packet\<rparr>
         else \<lparr>aes_secret = aes, sec_mac_secret = mac, egress_mac_init_data = xor_bytes mac initiator_nonce @ ack_packet,
               ingress_mac_init_data = xor_bytes mac recipient_nonce @ auth_packet\<rparr>)"

subsection \<open>ECIES\<close>

definition be_u32 :: "nat \<Rightarrow> bytes" where
  "be_u32 n = map (\<lambda>i. of_nat (n div 256 ^ i)) (rev [0 ..< 4])"

definition be_u16 :: "nat \<Rightarrow> bytes" where
  "be_u16 n = map (\<lambda>i. of_nat (n div 256 ^ i)) (rev [0 ..< 2])"

text \<open>The loop of \<open>kdf\<close> gives as many bytes as asked for; every round has at least one, as a digest has 32.\<close>

fun kdf_loop :: "('sk, 'pk) rlpx_lib \<Rightarrow> bytes \<Rightarrow> bytes \<Rightarrow> nat \<Rightarrow> nat \<Rightarrow> bytes" where
  "kdf_loop L secret s1 counter len =
     (if len = 0 then []
      else let digest = rx_sha256 L (be_u32 counter @ secret @ s1); k = min (length digest) len
           in if k = 0 then [] else take k digest @ kdf_loop L secret s1 (Suc counter) (len - k))"

declare kdf_loop.simps [simp del]

definition kdf :: "('sk, 'pk) rlpx_lib \<Rightarrow> bytes \<Rightarrow> bytes \<Rightarrow> nat \<Rightarrow> bytes" where
  "kdf L secret s1 len = kdf_loop L secret s1 1 len"

definition ecies_keys :: "('sk, 'pk) rlpx_lib \<Rightarrow> bytes \<Rightarrow> bytes \<times> bytes" where
  "ecies_keys L shared = (let d = kdf L shared [] 32 in (take 16 d, rx_sha256 L (take 16 (drop 16 d))))"

definition ecies_encrypt :: "('sk, 'pk) rlpx_lib \<Rightarrow> 'pk \<Rightarrow> bytes \<Rightarrow> 'sk \<Rightarrow> bytes \<Rightarrow> bytes" where
  "ecies_encrypt L remote_pub data ephemeral_sk iv =
     (let keys = ecies_keys L (rx_diffie_hellman L ephemeral_sk remote_pub);
          s2 = be_u16 (65 + 16 + length data + 32);
          cipher_text = key_stream (rx_ctr128 L (fst keys) iv) 0 data;
          tag = rx_hmac L (snd keys) (iv @ cipher_text @ s2)
      in s2 @ rx_encode_point L (rx_public_key L ephemeral_sk) @ iv @ cipher_text @ tag)"

definition ecies_decrypt :: "('sk, 'pk) rlpx_lib \<Rightarrow> 'sk \<Rightarrow> bytes \<Rightarrow> bytes \<Rightarrow> rlpx_error + bytes" where
  "ecies_decrypt L local_sk data s2 =
     (if length data < 65 + 16 + 32 then Inl EciesTooShort
      else case rx_from_sec1 L (take 65 data) of
          None \<Rightarrow> Inl EciesBadKey
        | Some pk \<Rightarrow>
            let iv = take 16 (drop 65 data); tag = drop (length data - 32) data;
                cipher_text = take (length data - 32 - 81) (drop 81 data);
                keys = ecies_keys L (rx_diffie_hellman L local_sk pk)
            in if rx_hmac L (snd keys) (iv @ cipher_text @ s2) \<noteq> tag then Inl EciesTagMismatch
               else Inr (key_stream (rx_ctr128 L (fst keys) iv) 0 cipher_text))"

subsection \<open>Frames\<close>

record frame_codec =
  fc_aes_secret :: bytes
  fc_enc_pos :: nat
  fc_dec_pos :: nat
  egress_mac :: mac
  ingress_mac :: mac

definition codec_new :: "secrets \<Rightarrow> frame_codec" where
  "codec_new s =
     \<lparr>fc_aes_secret = aes_secret s, fc_enc_pos = 0, fc_dec_pos = 0,
      egress_mac = mac_update (egress_mac_init_data s) (mac_new (sec_mac_secret s)),
      ingress_mac = mac_update (ingress_mac_init_data s) (mac_new (sec_mac_secret s))\<rparr>"

definition frame_header :: "nat \<Rightarrow> bytes" where
  "frame_header frame_size = drop 1 (be_u32 frame_size) @ [0xc2, 0x80, 0x80] @ replicate 10 0"

definition pad_len :: "nat \<Rightarrow> nat" where
  "pad_len frame_size = (16 - frame_size mod 16) mod 16"

definition write_frame :: "('sk, 'pk) rlpx_lib \<Rightarrow> u8 \<Rightarrow> bytes \<Rightarrow> frame_codec \<Rightarrow> bytes \<times> frame_codec" where
  "write_frame L msg_id payload c =
     (let ks = rx_ctr64 L (fc_aes_secret c);
          content = rx_encode_u8 L msg_id @ payload;
          frame_size = length content;
          header_ciphertext = key_stream ks (fc_enc_pos c) (frame_header frame_size);
          m1 = update_header L header_ciphertext (egress_mac c);
          padded = content @ replicate (pad_len frame_size) 0;
          frame_ciphertext = key_stream ks (fc_enc_pos c + 16) padded;
          m2 = update_body L frame_ciphertext m1
      in (header_ciphertext @ mac_digest L m1 @ frame_ciphertext @ mac_digest L m2,
          c\<lparr>fc_enc_pos := fc_enc_pos c + 16 + length padded, egress_mac := m2\<rparr>))"

definition be_size :: "bytes \<Rightarrow> nat" where
  "be_size h = unat (h ! 0) * 65536 + unat (h ! 1) * 256 + unat (h ! 2)"

definition read_header :: "('sk, 'pk) rlpx_lib \<Rightarrow> bytes \<Rightarrow> bytes \<Rightarrow> (frame_codec, rlpx_error, nat) act" where
  "read_header L header_ciphertext header_mac c =
     (let m = update_header L header_ciphertext (ingress_mac c); c = c\<lparr>ingress_mac := m\<rparr>
      in if mac_digest L m \<noteq> header_mac then (Inl HeaderMacMismatch, c)
         else let h = key_stream (rx_ctr64 L (fc_aes_secret c)) (fc_dec_pos c) header_ciphertext;
                  c = c\<lparr>fc_dec_pos := fc_dec_pos c + length header_ciphertext\<rparr>;
                  frame_size = be_size h
              in if frame_size > 16 * 1024 * 1024 then (Inl (FrameTooLarge frame_size), c) else (Inr frame_size, c))"

definition read_frame_payload :: "('sk, 'pk) rlpx_lib \<Rightarrow> bytes \<Rightarrow> bytes \<Rightarrow> (frame_codec, rlpx_error, bytes) act" where
  "read_frame_payload L frame_ciphertext frame_mac c =
     (let m = update_body L frame_ciphertext (ingress_mac c); c = c\<lparr>ingress_mac := m\<rparr>
      in if mac_digest L m \<noteq> frame_mac then (Inl FrameMacMismatch, c)
         else (Inr (key_stream (rx_ctr64 L (fc_aes_secret c)) (fc_dec_pos c) frame_ciphertext),
               c\<lparr>fc_dec_pos := fc_dec_pos c + length frame_ciphertext\<rparr>))"

subsection \<open>The message stream\<close>

datatype partial_frame = ReadHeader | ReadBody nat

record shared_capability =
  sc_name :: string
  sc_version :: u8
  sc_offset :: u8

text \<open>\<open>st_out\<close> are the bytes written to the socket; the bytes that arrive are given to \<open>read_message\<close> in chunks.\<close>

record rlpx_stream =
  st_codec :: "frame_codec option"
  st_caps :: "shared_capability list"
  st_msg_buffer :: "(u8 \<times> bytes) list"
  st_read_buffer :: bytes
  st_partial :: "partial_frame option"
  st_out :: bytes

definition find_cap :: "string \<Rightarrow> rlpx_stream \<Rightarrow> shared_capability option" where
  "find_cap name st = List.find (\<lambda>c. sc_name c = name) (st_caps st)"

definition snappy_enabled :: "rlpx_stream \<Rightarrow> bool" where
  "snappy_enabled st = list_ex (\<lambda>c. sc_name c = ''eth'' \<and> 65 \<le> sc_version c \<or> sc_name c = ''snap'') (st_caps st)"

definition send_raw_payload :: "('sk, 'pk) rlpx_lib \<Rightarrow> u8 \<Rightarrow> bytes \<Rightarrow> (rlpx_stream, rlpx_error, unit) act" where
  "send_raw_payload L msg_id payload st =
     (case st_codec st of None \<Rightarrow> (Inl NoCodec, st)
      | Some c \<Rightarrow> (case write_frame L msg_id payload c of (f, c') \<Rightarrow> (Inr (), st\<lparr>st_codec := Some c', st_out := st_out st @ f\<rparr>)))"

definition compress_if :: "('sk, 'pk) rlpx_lib \<Rightarrow> bool \<Rightarrow> bytes \<Rightarrow> rlpx_error + bytes" where
  "compress_if L b payload = (if b then ok_or (rx_compress L payload) CompressFailed else Inr payload)"

text \<open>The messages are given by their encodings; \<open>id + cap.offset\<close> is an addition of bytes.\<close>

definition send_p2p :: "('sk, 'pk) rlpx_lib \<Rightarrow> bytes \<Rightarrow> u8 \<Rightarrow> (rlpx_stream, rlpx_error, unit) act" where
  "send_p2p L payload i st =
     sbind (reads (\<lambda>st. compress_if L (snappy_enabled st \<and> 1 < i \<and> i < 16) payload)) (\<lambda>p. send_raw_payload L i p) st"

definition send_eth :: "('sk, 'pk) rlpx_lib \<Rightarrow> bytes \<Rightarrow> u8 \<Rightarrow> (rlpx_stream, rlpx_error, unit) act" where
  "send_eth L payload i =
     sbind (reads (\<lambda>st. ok_or (find_cap ''eth'' st) (NotNegotiated ''eth''))) (\<lambda>cap.
     sbind (reads (\<lambda>st. compress_if L (snappy_enabled st) payload)) (\<lambda>p. send_raw_payload L (i + sc_offset cap) p))"

definition send_snap :: "('sk, 'pk) rlpx_lib \<Rightarrow> bytes \<Rightarrow> u8 \<Rightarrow> (rlpx_stream, rlpx_error, unit) act" where
  "send_snap L payload i =
     sbind (reads (\<lambda>st. ok_or (find_cap ''snap'' st) (NotNegotiated ''snap''))) (\<lambda>cap.
     sbind (reads (\<lambda>_. compress_if L True payload)) (\<lambda>p. send_raw_payload L (i + sc_offset cap) p))"

definition send_eth_raw :: "('sk, 'pk) rlpx_lib \<Rightarrow> u8 \<Rightarrow> bytes \<Rightarrow> (rlpx_stream, rlpx_error, unit) act" where
  "send_eth_raw L i payload = send_eth L payload i"

definition send_snap_raw :: "('sk, 'pk) rlpx_lib \<Rightarrow> u8 \<Rightarrow> bytes \<Rightarrow> (rlpx_stream, rlpx_error, unit) act" where
  "send_snap_raw L i payload = send_snap L payload i"

text \<open>
  The loop of \<open>read_message\<close>.  \<open>None\<close> is a read that still waits for bytes; what it has read so far stays in the stream,
  so that it can be taken up again.  A read of no bytes is a closed connection.
\<close>

type_synonym 'a poll = "(rlpx_error + 'a) option"

definition is_body :: "rlpx_stream \<Rightarrow> bool" where
  "is_body st = (case st_partial st of Some (ReadBody n) \<Rightarrow> True | _ \<Rightarrow> False)"

definition header_step :: "('sk, 'pk) rlpx_lib \<Rightarrow> rlpx_stream \<Rightarrow> (rlpx_error + unit) \<times> rlpx_stream" where
  "header_step L st =
     (let buf = st_read_buffer st in
      case st_codec st of None \<Rightarrow> (Inl NoCodec, st)
      | Some c \<Rightarrow>
         (case read_header L (take 16 buf) (take 16 (drop 16 buf)) c of
            (Inl e, c') \<Rightarrow> (Inl e, st\<lparr>st_codec := Some c'\<rparr>)
          | (Inr n, c') \<Rightarrow> (Inr (), st\<lparr>st_codec := Some c', st_read_buffer := drop 32 buf, st_partial := Some (ReadBody n)\<rparr>)))"

definition body_step :: "('sk, 'pk) rlpx_lib \<Rightarrow> nat \<Rightarrow> rlpx_stream \<Rightarrow> (rlpx_error + (u8 \<times> bytes)) \<times> rlpx_stream" where
  "body_step L frame_size st =
     (let buf = st_read_buffer st; padded_size = (frame_size + 15) div 16 * 16 in
      case st_codec st of None \<Rightarrow> (Inl NoCodec, st)
      | Some c \<Rightarrow>
         (case read_frame_payload L (take padded_size buf) (take 16 (drop padded_size buf)) c of
            (Inl e, c') \<Rightarrow> (Inl e, st\<lparr>st_codec := Some c'\<rparr>)
          | (Inr decrypted, c') \<Rightarrow>
              let st = st\<lparr>st_codec := Some c'\<rparr> in
              if length decrypted < frame_size then (Inl (FrameTooShort frame_size (length decrypted)), st)
              else case rx_decode_u8 L (take frame_size decrypted) of
                  None \<Rightarrow> (Inl BadMessageId, st)
                | Some m \<Rightarrow> (Inr m, st\<lparr>st_read_buffer := drop (padded_size + 16) buf, st_partial := None\<rparr>)))"

definition read_target :: "rlpx_stream \<Rightarrow> nat" where
  "read_target st = (case st_partial st of Some (ReadBody n) \<Rightarrow> (n + 15) div 16 * 16 + 16 | _ \<Rightarrow> 32)"

lemma header_step_is_body: "header_step L st = (Inr x, st') \<Longrightarrow> is_body st'"
  by (auto simp: header_step_def is_body_def Let_def split: option.splits sum.splits prod.splits)

function read_loop :: "('sk, 'pk) rlpx_lib \<Rightarrow> rlpx_stream \<Rightarrow> bytes list \<Rightarrow> (u8 \<times> bytes) poll \<times> rlpx_stream \<times> bytes list" where
  "read_loop L st chunks =
     (if length (st_read_buffer st) < read_target st
      then case chunks of
          [] \<Rightarrow> (None, st, [])
        | c # cs \<Rightarrow>
            if c = [] then (Some (Inl (if is_body st then ClosedInBody else ClosedInHeader)), st, cs)
            else read_loop L (st\<lparr>st_read_buffer := st_read_buffer st @ c\<rparr>) cs
      else case st_partial st of
          Some (ReadBody n) \<Rightarrow> (case body_step L n st of (r, st') \<Rightarrow> (Some r, st', chunks))
        | _ \<Rightarrow> (case header_step L st of (Inl e, st') \<Rightarrow> (Some (Inl e), st', chunks) | (Inr _, st') \<Rightarrow> read_loop L st' chunks))"
  by pat_completeness auto
termination
  by (relation "measures [\<lambda>(L, st, cs). length cs, \<lambda>(L, st, cs). if is_body st then 0 else 1]")
     (auto dest!: header_step_is_body [OF sym] simp: is_body_def split: option.splits partial_frame.splits)

declare read_loop.simps [simp del]

definition MAX_PAYLOAD_SIZE :: nat where
  "MAX_PAYLOAD_SIZE = 16 * 1024 * 1024"

definition decompress :: "('sk, 'pk) rlpx_lib \<Rightarrow> bool \<Rightarrow> u8 \<Rightarrow> bytes \<Rightarrow> rlpx_error + bytes" where
  "decompress L snappy msg_id payload =
     (if (16 \<le> msg_id \<or> 1 < msg_id \<and> msg_id < 16) \<and> snappy
      then if payload = [] then Inr []
           else rbind (ok_or (rx_decompress_len L payload) DecompressLenFailed) (\<lambda>n.
                if n > MAX_PAYLOAD_SIZE then Inl (SizeExceedsLimit n) else ok_or (rx_decompress L payload) DecompressFailed)
      else Inr payload)"

definition read_message :: "('sk, 'pk) rlpx_lib \<Rightarrow> rlpx_stream \<Rightarrow> bytes list \<Rightarrow> (u8 \<times> bytes) poll \<times> rlpx_stream \<times> bytes list" where
  "read_message L st chunks =
     (case st_msg_buffer st of
        m # ms \<Rightarrow> (Some (Inr m), st\<lparr>st_msg_buffer := ms\<rparr>, chunks)
      | [] \<Rightarrow>
          (case read_loop L st chunks of
             (Some (Inr (i, p)), st', cs) \<Rightarrow> (Some (rbind (decompress L (snappy_enabled st') i p) (\<lambda>q. Inr (i, q))), st', cs)
           | r \<Rightarrow> r))"

subsection \<open>Frames are read as they were written\<close>

text \<open>What is relied on of the crates: the lengths of a digest, and that decoders read what encoders wrote.\<close>

definition rlpx_laws :: "('sk, 'pk) rlpx_lib \<Rightarrow> bool" where
  "rlpx_laws L \<longleftrightarrow>
     (\<forall>d. length (rx_keccak L d) = 32) \<and>
     (\<forall>b rest. rx_decode_u8 L (rx_encode_u8 L b @ rest) = Some (b, rest)) \<and>
     (\<forall>p q. rx_compress L p = Some q \<longrightarrow> q \<noteq> [] \<and> rx_decompress_len L q = Some (length p) \<and> rx_decompress L q = Some p)"

definition in_sync :: "frame_codec \<Rightarrow> frame_codec \<Rightarrow> bool" where
  "in_sync w r \<longleftrightarrow> fc_aes_secret r = fc_aes_secret w \<and> fc_dec_pos r = fc_enc_pos w \<and> ingress_mac r = egress_mac w"

lemma length_key_stream [simp]: "length (key_stream ks p d) = length d"
  by (simp add: key_stream_def xor_bytes_def)

lemma key_stream_twice [simp]: "key_stream ks p (key_stream ks p d) = d"
  by (rule nth_equalityI) (simp_all add: key_stream_def xor_bytes_def xor.assoc)

lemma length_mac_digest: "rlpx_laws L \<Longrightarrow> length (mac_digest L m) = 16"
  by (simp add: mac_digest_def rlpx_laws_def)

lemma be_u32_bytes: "be_u32 n = [of_nat (n div 16777216), of_nat (n div 65536), of_nat (n div 256), of_nat n]"
  by (simp add: be_u32_def upt_rec)

lemma length_frame_header [simp]: "length (frame_header n) = 16"
  by (simp add: frame_header_def be_u32_bytes)

lemma be_size_header:
  assumes "n < 2 ^ 24"
  shows "be_size (frame_header n) = n"
proof -
  have lt: "n div 65536 < 256" using assms by (simp add: div_less_iff_less_mult)
  have "n div 65536 * 65536 + n div 256 mod 256 * 256 + n mod 256 = n"
  proof -
    let ?q = "n div 256"
    have "n div 65536 = ?q div 256" by (simp add: div_mult2_eq [symmetric])
    moreover have "256 * ?q + n mod 256 = n" "256 * (?q div 256) + ?q mod 256 = ?q" by simp_all
    ultimately show ?thesis by linarith
  qed
  then show ?thesis using lt by (simp add: be_size_def frame_header_def be_u32_bytes unat_of_nat)
qed

lemma padded_size: "(n + 15) div 16 * 16 = n + pad_len n"
proof -
  obtain q m where n: "n = 16 * q + m" "m < 16"
    using that [of "n div 16" "n mod 16"] by simp
  then have "(n + 15) div 16 = (if m = 0 then q else q + 1)" by auto
  then show ?thesis using n by (auto simp: pad_len_def)
qed

text \<open>A frame is a header with its tag, and the padded content with its tag.\<close>

lemma write_frame_read:
  assumes laws: "rlpx_laws L" and sync: "in_sync w r"
    and n: "n = length (rx_encode_u8 L i) + length p" "n < 2 ^ 24" and f: "write_frame L i p w = (f, w')"
  obtains h hm b bm r1 r2 where
    "f = h @ hm @ b @ bm" "length h = 16" "length hm = 16" "length b = (n + 15) div 16 * 16" "length bm = 16"
    "read_header L h hm r = (Inr n, r1)"
    "read_frame_payload L b bm r1 = (Inr (rx_encode_u8 L i @ p @ replicate (pad_len n) 0), r2)" "in_sync w' r2"
proof -
  define ks where "ks = rx_ctr64 L (fc_aes_secret w)"
  define h where "h = key_stream ks (fc_enc_pos w) (frame_header n)"
  define m1 where "m1 = update_header L h (egress_mac w)"
  define b where "b = key_stream ks (fc_enc_pos w + 16) (rx_encode_u8 L i @ p @ replicate (pad_len n) 0)"
  define m2 where "m2 = update_body L b m1"
  define r1 where "r1 = r\<lparr>ingress_mac := m1, fc_dec_pos := fc_dec_pos r + 16\<rparr>"
  define r2 where "r2 = r1\<lparr>ingress_mac := m2, fc_dec_pos := fc_dec_pos r1 + length b\<rparr>"
  note defs = h_def m1_def b_def m2_def
  have sy: "fc_aes_secret r = fc_aes_secret w" "fc_dec_pos r = fc_enc_pos w" "ingress_mac r = egress_mac w"
    using sync by (simp_all add: in_sync_def)
  have fw: "f = h @ mac_digest L m1 @ b @ mac_digest L m2"
    "w' = w\<lparr>fc_enc_pos := fc_enc_pos w + 16 + (n + pad_len n), egress_mac := m2\<rparr>"
    using f n(1) by (auto simp: write_frame_def Let_def defs ks_def add.assoc)
  have lh: "length h = 16" and lb: "length b = (n + 15) div 16 * 16"
    using n(1) by (simp_all add: h_def b_def padded_size)
  have "key_stream ks (fc_enc_pos w) h = frame_header n" by (simp add: h_def)
  then have rh: "read_header L h (mac_digest L m1) r = (Inr n, r1)"
    using be_size_header [OF n(2)] n(2) lh
    by (simp add: read_header_def Let_def sy m1_def [symmetric] r1_def ks_def [symmetric])
  have "key_stream ks (fc_enc_pos w + 16) b = rx_encode_u8 L i @ p @ replicate (pad_len n) 0" by (simp add: b_def)
  then have rb: "read_frame_payload L b (mac_digest L m2) r1 = (Inr (rx_encode_u8 L i @ p @ replicate (pad_len n) 0), r2)"
    by (simp add: read_frame_payload_def Let_def r1_def r2_def sy m2_def [symmetric] ks_def [symmetric])
  have "in_sync w' r2"
    by (simp add: in_sync_def fw(2) r2_def r1_def sy lb padded_size)
  then show ?thesis
    using that [OF fw(1) lh _ lb _ rh rb] length_mac_digest [OF laws] by simp
qed

subsection \<open>Messages survive any cutting into chunks\<close>

lemma read_loop_more:
  assumes "length (st_read_buffer st) < read_target st" "c \<noteq> []"
  shows "read_loop L st (c # cs) = read_loop L (st\<lparr>st_read_buffer := st_read_buffer st @ c\<rparr>) cs"
  using assms by (subst read_loop.simps) simp

lemma read_target_buffer [simp]: "read_target (st\<lparr>st_read_buffer := b\<rparr>) = read_target st"
  by (simp add: read_target_def)

text \<open>As long as bytes are missing, the loop takes the next chunks.\<close>

lemma read_loop_fill:
  assumes "st_read_buffer st @ concat cs = target @ rest" "length target = read_target st" "[] \<notin> set cs"
  obtains buf' cs' where "read_loop L st cs = read_loop L (st\<lparr>st_read_buffer := target @ buf'\<rparr>) cs'"
    "buf' @ concat cs' = rest" "[] \<notin> set cs'"
  using assms
proof (induction cs arbitrary: st thesis)
  case Nil
  then show ?case using Nil.prems(1) [of rest "[]"] by (simp add: Nil.prems(2) [simplified, symmetric])
next
  case (Cons c cs)
  show ?case
  proof (cases "length (st_read_buffer st) < read_target st")
    case True
    let ?st = "st\<lparr>st_read_buffer := st_read_buffer st @ c\<rparr>"
    have "read_loop L st (c # cs) = read_loop L ?st cs" using Cons.prems(4) by (intro read_loop_more [OF True]) auto
    moreover obtain buf' cs' where "read_loop L ?st cs = read_loop L (?st\<lparr>st_read_buffer := target @ buf'\<rparr>) cs'"
      "buf' @ concat cs' = rest" "[] \<notin> set cs'"
      using Cons.IH [of ?st] Cons.prems(2-4) by auto
    ultimately show ?thesis using Cons.prems(1) by simp
  next
    case False
    then have "take (length target) (st_read_buffer st) = target"
      using arg_cong [OF Cons.prems(2), of "take (length target)"] Cons.prems(3) by simp
    then obtain buf' where b: "st_read_buffer st = target @ buf'" "buf' @ concat (c # cs) = rest"
      using Cons.prems(2) append_take_drop_id [of "length target" "st_read_buffer st"] by (metis append.assoc same_append_eq)
    have "st\<lparr>st_read_buffer := target @ buf'\<rparr> = st" using b(1) by simp
    then show ?thesis using Cons.prems(1) [of buf' "c # cs"] Cons.prems(4) b(2) by simp
  qed
qed

lemma read_loop_header:
  assumes "\<not> is_body st" "st_read_buffer st = h @ hm @ buf" "length h = 16" "length hm = 16"
    and "st_codec st = Some r" "read_header L h hm r = (Inr n, r1)"
  shows "read_loop L st cs = read_loop L (st\<lparr>st_codec := Some r1, st_read_buffer := buf, st_partial := Some (ReadBody n)\<rparr>) cs"
  using assms
  by (subst read_loop.simps) (auto simp: read_target_def is_body_def header_step_def split: option.splits partial_frame.splits)

lemma read_loop_body:
  assumes "st_partial st = Some (ReadBody n)" "st_read_buffer st = b @ bm @ buf" "length b = (n + 15) div 16 * 16" "length bm = 16"
    and "st_codec st = Some r" "read_frame_payload L b bm r = (Inr d, r2)" "n \<le> length d" "rx_decode_u8 L (take n d) = Some m"
  shows "read_loop L st cs = (Some (Inr m), st\<lparr>st_codec := Some r2, st_read_buffer := buf, st_partial := None\<rparr>, cs)"
  using assms by (subst read_loop.simps) (simp add: read_target_def body_step_def Let_def)

lemma read_loop_frame:
  assumes laws: "rlpx_laws L" and sync: "in_sync w r" and size: "length (rx_encode_u8 L i) + length p < 2 ^ 24"
    and f: "write_frame L i p w = (f, w')" and st: "st_codec st = Some r" "st_partial st = None"
    and arrive: "st_read_buffer st @ concat cs = f @ rest" "[] \<notin> set cs"
  obtains r2 buf' cs' where "in_sync w' r2" "buf' @ concat cs' = rest" "[] \<notin> set cs'"
    "read_loop L st cs = (Some (Inr (i, p)), st\<lparr>st_codec := Some r2, st_read_buffer := buf'\<rparr>, cs')"
proof -
  define n where "n = length (rx_encode_u8 L i) + length p"
  obtain h hm b bm r1 r2 where fr: "f = h @ hm @ b @ bm" "length h = 16" "length hm = 16" "length b = (n + 15) div 16 * 16"
      "length bm = 16" "read_header L h hm r = (Inr n, r1)"
    and body: "read_frame_payload L b bm r1 = (Inr (rx_encode_u8 L i @ p @ replicate (pad_len n) 0), r2)" and s2: "in_sync w' r2"
    using write_frame_read [OF laws sync n_def _ f] size n_def by metis
  obtain buf1 cs1 where one: "read_loop L st cs = read_loop L (st\<lparr>st_read_buffer := (h @ hm) @ buf1\<rparr>) cs1"
    "buf1 @ concat cs1 = b @ bm @ rest" "[] \<notin> set cs1"
    using read_loop_fill [of st cs "h @ hm" "b @ bm @ rest" L] arrive fr st(2) by (auto simp: read_target_def)
  let ?st = "st\<lparr>st_codec := Some r1, st_read_buffer := buf1, st_partial := Some (ReadBody n)\<rparr>"
  have two: "read_loop L st cs = read_loop L ?st cs1"
    unfolding one(1) using st fr by (subst read_loop_header [of _ h hm buf1 r L n r1]) (simp_all add: is_body_def)
  obtain buf2 cs2 where three: "read_loop L ?st cs1 = read_loop L (?st\<lparr>st_read_buffer := (b @ bm) @ buf2\<rparr>) cs2"
    "buf2 @ concat cs2 = rest" "[] \<notin> set cs2"
    using read_loop_fill [of ?st cs1 "b @ bm" rest L] one(2,3) fr by (auto simp: read_target_def)
  have "rx_decode_u8 L (take n (rx_encode_u8 L i @ p @ replicate (pad_len n) 0)) = Some (i, p)"
    using laws by (simp add: n_def rlpx_laws_def)
  then have "read_loop L (?st\<lparr>st_read_buffer := (b @ bm) @ buf2\<rparr>) cs2 =
      (Some (Inr (i, p)), ?st\<lparr>st_codec := Some r2, st_read_buffer := buf2, st_partial := None\<rparr>, cs2)"
    using fr body by (subst read_loop_body [of _ n b bm buf2 r1 L "rx_encode_u8 L i @ p @ replicate (pad_len n) 0" r2 "(i, p)"]) (simp_all add: n_def)
  moreover have "?st\<lparr>st_codec := Some r2, st_read_buffer := buf2, st_partial := None\<rparr> = st\<lparr>st_codec := Some r2, st_read_buffer := buf2\<rparr>"
    using st(2) by simp
  ultimately show ?thesis using that [OF s2 three(2,3)] two three(1) by simp
qed

definition eth_fits :: "('sk, 'pk) rlpx_lib \<Rightarrow> rlpx_stream \<Rightarrow> u8 \<times> bytes \<Rightarrow> bool" where
  "eth_fits L st = (\<lambda>(i, p).
     length p \<le> MAX_PAYLOAD_SIZE \<and>
     (case (find_cap ''eth'' st, compress_if L (snappy_enabled st) p) of
        (Some cap, Inr q) \<Rightarrow> unat i + unat (sc_offset cap) < 256 \<and> length (rx_encode_u8 L (i + sc_offset cap)) + length q < 2 ^ 24 | _ \<Rightarrow> True))"

definition eth_id :: "rlpx_stream \<Rightarrow> u8 \<Rightarrow> u8" where
  "eth_id st i = i + (case find_cap ''eth'' st of None \<Rightarrow> 0 | Some cap \<Rightarrow> sc_offset cap)"

definition streams_match :: "rlpx_stream \<Rightarrow> rlpx_stream \<Rightarrow> bool" where
  "streams_match w r \<longleftrightarrow>
     (case (st_codec w, st_codec r) of (Some cw, Some cr) \<Rightarrow> in_sync cw cr | _ \<Rightarrow> False) \<and> st_caps r = st_caps w \<and>
     (case find_cap ''eth'' w of None \<Rightarrow> True | Some cap \<Rightarrow> 16 \<le> sc_offset cap) \<and>
     st_partial r = None \<and> st_msg_buffer r = []"

lemma send_eth_frame:
  assumes "send_eth L p i w = (Inr (), w')"
  obtains cap q cw f cw' where "find_cap ''eth'' w = Some cap" "compress_if L (snappy_enabled w) p = Inr q"
    "st_codec w = Some cw" "write_frame L (i + sc_offset cap) q cw = (f, cw')"
    "w' = w\<lparr>st_codec := Some cw', st_out := st_out w @ f\<rparr>"
  using assms
  by (auto simp: send_eth_def sbind_def reads_def ok_or_def send_raw_payload_def
      split: option.splits sum.splits if_splits prod.splits)

lemma add_offset_subprotocol:
  fixes i off :: u8
  assumes "unat i + unat off < 256" "16 \<le> off"
  shows "16 \<le> i + off"
proof -
  have "unat (i + off) = unat i + unat off" using assms(1) by (subst unat_plus_if_size) (simp add: word_size)
  then show ?thesis using assms(2) by (simp add: word_le_nat_alt)
qed

lemma decompress_compressed:
  assumes "rlpx_laws L" "compress_if L sn p = Inr q" "16 \<le> i" "length p \<le> MAX_PAYLOAD_SIZE"
  shows "decompress L sn i q = Inr p"
  using assms by (auto simp: decompress_def compress_if_def ok_or_def rlpx_laws_def split: option.splits if_splits)

lemma eth_message_read:
  assumes laws: "rlpx_laws L" and match: "streams_match w r" and send: "send_eth L p i w = (Inr (), w')"
    and fits: "eth_fits L w (i, p)"
    and arrive: "st_out w @ st_read_buffer r @ concat cs = st_out w' @ rest" "[] \<notin> set cs"
  obtains r' cs' where "read_message L r cs = (Some (Inr (eth_id w i, p)), r', cs')" "streams_match w' r'"
    "st_read_buffer r' @ concat cs' = rest" "[] \<notin> set cs'" "st_caps w' = st_caps w"
proof -
  obtain cap q cw f cw' where s: "find_cap ''eth'' w = Some cap" "compress_if L (snappy_enabled w) p = Inr q"
    "st_codec w = Some cw" "write_frame L (i + sc_offset cap) q cw = (f, cw')"
    "w' = w\<lparr>st_codec := Some cw', st_out := st_out w @ f\<rparr>"
    using send_eth_frame [OF send] by metis
  obtain cr where r: "st_codec r = Some cr" "in_sync cw cr" "st_caps r = st_caps w" "16 \<le> sc_offset cap" "st_partial r = None"
    "st_msg_buffer r = []"
    using match s by (auto simp: streams_match_def split: option.splits)
  have arr: "st_read_buffer r @ concat cs = f @ rest" using arrive(1) s(5) by simp
  have size: "length (rx_encode_u8 L (i + sc_offset cap)) + length q < 2 ^ 24" and low: "unat i + unat (sc_offset cap) < 256"
    using fits s(1,2) by (simp_all add: eth_fits_def)
  obtain r2 buf' cs' where l: "in_sync cw' r2" "buf' @ concat cs' = rest" "[] \<notin> set cs'"
    "read_loop L r cs = (Some (Inr (i + sc_offset cap, q)), r\<lparr>st_codec := Some r2, st_read_buffer := buf'\<rparr>, cs')"
    by (rule read_loop_frame [OF laws r(2) size s(4) r(1,5) arr arrive(2)])
  let ?r = "r\<lparr>st_codec := Some r2, st_read_buffer := buf'\<rparr>"
  have "snappy_enabled ?r = snappy_enabled w" using r(3) by (simp add: snappy_enabled_def)
  then have "decompress L (snappy_enabled ?r) (i + sc_offset cap) q = Inr p"
    using decompress_compressed [OF laws s(2) add_offset_subprotocol [OF low r(4)]] fits by (simp add: eth_fits_def)
  then have "read_message L r cs = (Some (Inr (eth_id w i, p)), ?r, cs')"
    using l(4) r(6) s(1) by (simp add: read_message_def eth_id_def)
  moreover have "streams_match w' ?r"
    using l(1) r s by (simp add: streams_match_def find_cap_def)
  ultimately show ?thesis using that [of ?r cs'] l(2,3) s(5) by simp
qed

fun read_all :: "('sk, 'pk) rlpx_lib \<Rightarrow> nat \<Rightarrow> rlpx_stream \<Rightarrow> bytes list \<Rightarrow> (u8 \<times> bytes) list poll \<times> rlpx_stream \<times> bytes list" where
  "read_all L 0 r cs = (Some (Inr []), r, cs)"
| "read_all L (Suc n) r cs =
     (case read_message L r cs of
        (Some (Inr m), r', cs') \<Rightarrow>
          (case read_all L n r' cs' of (Some (Inr ms), r'', cs'') \<Rightarrow> (Some (Inr (m # ms)), r'', cs'') | x \<Rightarrow> x)
      | (Some (Inl e), r', cs') \<Rightarrow> (Some (Inl e), r', cs')
      | (None, r', cs') \<Rightarrow> (None, r', cs'))"

definition send_all :: "('sk, 'pk) rlpx_lib \<Rightarrow> (u8 \<times> bytes) list \<Rightarrow> (rlpx_stream, rlpx_error, unit) act" where
  "send_all L ms = for_each ms (\<lambda>(i, p). send_eth L p i)"

lemma send_all_ConsE:
  assumes "send_all L ((i, p) # ms) w = (Inr (), w')"
  obtains w1 where "send_eth L p i w = (Inr (), w1)" "send_all L ms w1 = (Inr (), w')"
  using assms by (auto simp: send_all_def sseq_def sbind_def split: prod.splits sum.splits)

text \<open>Sending succeeds once the handshakes are over, as long as the compressor and the message ids allow it.\<close>

lemma send_all_succeeds:
  assumes "find_cap ''eth'' w = Some cap" "st_codec w \<noteq> None"
    and "list_all (\<lambda>(i, p). rx_compress L p \<noteq> None) ms"
  shows "fst (send_all L ms w) = Inr ()"
  using assms
proof (induction ms arbitrary: w)
  case (Cons m ms)
  obtain i p q c where m: "m = (i, p)" "rx_compress L p = Some q" "st_codec w = Some c"
    using Cons.prems by (cases m) auto
  let ?q = "if snappy_enabled w then q else p"
  let ?w = "w\<lparr>st_codec := Some (snd (write_frame L (i + sc_offset cap) ?q c)), st_out := st_out w @ fst (write_frame L (i + sc_offset cap) ?q c)\<rparr>"
  have "send_eth L p i w = (Inr (), ?w)"
    using m Cons.prems(1)
    by (auto simp: send_eth_def sbind_def reads_def ok_or_def compress_if_def send_raw_payload_def split: prod.splits)
  moreover have "fst (send_all L ms ?w) = Inr ()" using Cons.prems by (intro Cons.IH) (simp_all add: find_cap_def)
  ultimately show ?case using m by (simp add: send_all_def sseq_def sbind_def)
qed (simp add: send_all_def ret_def)

lemma st_out_grows: "send_all L ms w = (Inr (), w') \<Longrightarrow> \<exists>g. st_out w' = st_out w @ g"
proof (induction ms arbitrary: w)
  case (Cons m ms)
  obtain i p where m: "m = (i, p)" by (cases m)
  obtain w1 where w1: "send_eth L p i w = (Inr (), w1)" "send_all L ms w1 = (Inr (), w')"
    using send_all_ConsE Cons.prems m by blast
  obtain f where "st_out w1 = st_out w @ f" by (rule send_eth_frame [OF w1(1)]) simp
  then show ?case using Cons.IH [OF w1(2)] by auto
qed (simp add: send_all_def ret_def)

lemma find_cap_caps: "st_caps w' = st_caps w \<Longrightarrow> find_cap name w' = find_cap name w"
  by (simp add: find_cap_def)

lemma eth_fits_caps: "st_caps w' = st_caps w \<Longrightarrow> eth_fits L w' = eth_fits L w"
  by (simp add: eth_fits_def find_cap_def snappy_enabled_def fun_eq_iff)

lemma messages_read:
  assumes "rlpx_laws L" "streams_match w r" "send_all L ms w = (Inr (), w')" "list_all (eth_fits L w) ms"
    and "st_out w @ st_read_buffer r @ concat cs = st_out w'" "[] \<notin> set cs"
  shows "\<exists>r'. read_all L (length ms) r cs = (Some (Inr (map (apfst (eth_id w)) ms)), r', []) \<and> streams_match w' r' \<and> st_read_buffer r' = []"
  using assms(2-)
proof (induction ms arbitrary: w r cs)
  case Nil
  then show ?case by (cases cs) (auto simp: send_all_def ret_def)
next
  case (Cons m ms)
  obtain i p where m: "m = (i, p)" by (cases m)
  obtain w1 where w1: "send_eth L p i w = (Inr (), w1)" "send_all L ms w1 = (Inr (), w')"
    using send_all_ConsE Cons.prems(2) m by blast
  obtain g where g: "st_out w' = st_out w1 @ g" using st_out_grows [OF w1(2)] by blast
  have fits: "eth_fits L w (i, p)" "list_all (eth_fits L w) ms" using Cons.prems(3) m by simp_all
  have arr: "st_out w @ st_read_buffer r @ concat cs = st_out w1 @ g" using Cons.prems(4) g by simp
  obtain r1 cs1 where r1: "read_message L r cs = (Some (Inr (eth_id w i, p)), r1, cs1)" "streams_match w1 r1"
    "st_read_buffer r1 @ concat cs1 = g" "[] \<notin> set cs1" "st_caps w1 = st_caps w"
    by (rule eth_message_read [OF assms(1) Cons.prems(1) w1(1) fits(1) arr Cons.prems(5)])
  have id: "eth_id w1 = eth_id w" using find_cap_caps [OF r1(5)] by (simp add: eth_id_def fun_eq_iff)
  obtain r' where "read_all L (length ms) r1 cs1 = (Some (Inr (map (apfst (eth_id w1)) ms)), r', [])" "streams_match w' r'" "st_read_buffer r' = []"
    using Cons.IH [OF r1(2) w1(2)] fits(2) g r1(3,4) by (auto simp: eth_fits_caps [OF r1(5)])
  then show ?case using r1(1) m id by simp
qed

subsection \<open>From the handshake to the messages\<close>

text \<open>The stream of one side when the handshakes are over.\<close>

definition established ::
  "('sk, 'pk) rlpx_lib \<Rightarrow> bool \<Rightarrow> bytes \<Rightarrow> bytes \<Rightarrow> bytes \<Rightarrow> bytes \<Rightarrow> bytes \<Rightarrow> shared_capability list \<Rightarrow> rlpx_stream" where
  "established L initiator ni nr agreed auth ack caps =
     \<lparr>st_codec = Some (codec_new (derive_session_secrets L initiator ni nr agreed auth ack)), st_caps = caps,
      st_msg_buffer = [], st_read_buffer = [], st_partial = None, st_out = []\<rparr>"

lemma derived_in_sync:
  "in_sync (codec_new (derive_session_secrets L a ni nr s auth ack)) (codec_new (derive_session_secrets L (\<not> a) ni nr s auth ack))"
  by (simp add: in_sync_def codec_new_def derive_session_secrets_def Let_def)

lemma established_match:
  assumes "list_all (\<lambda>c. 16 \<le> sc_offset c) caps"
  shows "streams_match (established L a ni nr s auth ack caps) (established L (\<not> a) ni nr s auth ack caps)"
proof -
  have "16 \<le> sc_offset cap" if "List.find (\<lambda>c. sc_name c = ''eth'') caps = Some cap" for cap
    using that assms by (auto simp: find_Some_iff list_all_length)
  then show ?thesis
    by (auto simp: streams_match_def established_def derived_in_sync find_cap_def split: option.split)
qed

text \<open>C8: after a handshake, whatever the sequence of protocol messages one side sends and however the network cuts their
  bytes into chunks, the other side reads exactly these messages, in order, and none of the bytes is left over.
\<close>

theorem transport_delivers:
  assumes "rlpx_laws L" "list_all (\<lambda>c. 16 \<le> sc_offset c) caps"
    and "send_all L ms (established L a ni nr s auth ack caps) = (Inr (), w')"
    and "list_all (eth_fits L (established L a ni nr s auth ack caps)) ms"
    and "concat cs = st_out w'" "[] \<notin> set cs"
  shows "\<exists>r'. read_all L (length ms) (established L (\<not> a) ni nr s auth ack caps) cs =
             (Some (Inr (map (apfst (eth_id (established L a ni nr s auth ack caps))) ms)), r', [])"
  using messages_read [OF assms(1) established_match [OF assms(2)] assms(3,4) _ assms(6)] assms(5)
  by (auto simp: established_def)

text \<open>
  The size of a frame is written in three bytes, so a message of 16 MiB or more is announced with a wrong size, and the
  limit that \<open>read_header\<close> checks can never be passed.
\<close>

theorem frame_size_truncated: "frame_header (n + 2 ^ 24) = frame_header n"
proof -
  have "(n + 2 ^ 24) div 65536 = n div 65536 + 256" "(n + 2 ^ 24) div 256 = n div 256 + 65536"
    using div_mult_self1 [of 65536 n 256] div_mult_self1 [of 256 n 65536] by simp_all
  then show ?thesis by (simp add: frame_header_def be_u32_bytes)
qed

theorem frame_limit_unreachable: "fst (read_header L h m c) \<noteq> Inl (FrameTooLarge k)"
proof -
  have "unat b \<le> 255" for b :: u8
  proof -
    have "unat b < 2 ^ LENGTH(8)" by (rule unsigned_less)
    then show ?thesis by simp
  qed
  then have "be_size x \<le> 255 * 65536 + 255 * 256 + 255" for x
    unfolding be_size_def by (intro add_mono mult_right_mono) simp_all
  then have "be_size x < 16 * 1024 * 1024" for x
    by (rule le_less_trans) simp
  then have "\<not> be_size x > 16 * 1024 * 1024" for x
    by (simp add: less_imp_le not_less)
  then show ?thesis by (simp add: read_header_def Let_def)
qed

definition sample_lib :: "(nat, nat) rlpx_lib" where
  "sample_lib =
     \<lparr>rx_keccak = (\<lambda>d. replicate 32 (of_nat (length d))), rx_sha256 = (\<lambda>d. replicate 32 (of_nat (length d))),
      rx_hmac = (\<lambda>k d. replicate 32 (of_nat (length d))), rx_aes256 = (\<lambda>k b. rev b), rx_ctr64 = (\<lambda>k n. of_nat n),
      rx_ctr128 = (\<lambda>k iv n. of_nat n), rx_diffie_hellman = (\<lambda>a b. [of_nat ((a + b) mod 65)]), rx_public_key = (\<lambda>a. a mod 65),
      rx_encode_point = (\<lambda>p. 4 # replicate p 1 @ replicate (64 - p) 0),
      rx_from_sec1 = (\<lambda>b. if b = [] then None else Some (length (takeWhile (\<lambda>x. x = 1) (tl b)))),
      rx_encode_u8 = (\<lambda>b. [b]), rx_decode_u8 = (\<lambda>b. case b of [] \<Rightarrow> None | x # r \<Rightarrow> Some (x, r)),
      rx_compress = (\<lambda>p. Some (7 # p)), rx_decompress_len = (\<lambda>q. Some (length q - 1)), rx_decompress = (\<lambda>q. Some (tl q))\<rparr>"

lemma sample_lib_laws: "rlpx_laws sample_lib"
  by (simp add: rlpx_laws_def sample_lib_def)

definition sample_caps :: "shared_capability list" where
  "sample_caps = [\<lparr>sc_name = ''eth'', sc_version = 68, sc_offset = 16\<rparr>]"

definition sample_end :: "bool \<Rightarrow> rlpx_stream" where
  "sample_end a = established sample_lib a [1] [2] [3] [4] [5] sample_caps"

lemma sample_cap: "find_cap ''eth'' (sample_end a) = Some \<lparr>sc_name = ''eth'', sc_version = 68, sc_offset = 16\<rparr>"
  by (simp add: find_cap_def sample_end_def established_def sample_caps_def)

lemma sample_sends: "fst (send_all sample_lib [(0, [1, 2]), (3, [])] (sample_end True)) = Inr ()"
  by (rule send_all_succeeds [where cap = "\<lparr>sc_name = ''eth'', sc_version = 68, sc_offset = 16\<rparr>"])
     (simp_all add: sample_cap, simp_all add: sample_end_def established_def sample_lib_def)

lemma sample_fits: "list_all (eth_fits sample_lib (sample_end True)) [(0, [1, 2]), (3, [])]"
  by (simp add: eth_fits_def sample_cap compress_if_def ok_or_def MAX_PAYLOAD_SIZE_def) (simp add: sample_lib_def)

theorem transport_delivers_witness:
  "\<exists>r'. read_all sample_lib 2 (sample_end False)
           (map (\<lambda>b. [b]) (st_out (snd (send_all sample_lib [(0, [1, 2]), (3, [])] (sample_end True))))) =
         (Some (Inr [(16, [1, 2]), (19, [])]), r', [])"
proof -
  let ?w = "snd (send_all sample_lib [(0, [1, 2]), (3, [])] (sample_end True))"
  have send: "send_all sample_lib [(0, [1, 2]), (3, [])] (established sample_lib True [1] [2] [3] [4] [5] sample_caps) = (Inr (), ?w)"
    using sample_sends by (simp add: prod_eq_iff sample_end_def)
  have caps: "list_all (\<lambda>c. 16 \<le> sc_offset c) sample_caps" by (simp add: sample_caps_def)
  have bytes: "concat (map (\<lambda>b. [b]) (st_out ?w)) = st_out ?w" "[] \<notin> set (map (\<lambda>b. [b]) (st_out ?w))" by auto
  show ?thesis
    using transport_delivers [OF sample_lib_laws caps send sample_fits [unfolded sample_end_def] bytes] sample_cap [of True]
    by (simp add: eth_id_def sample_end_def numeral_2_eq_2)
qed

subsection \<open>ECIES envelopes\<close>

definition ecies_laws :: "('sk, 'pk) rlpx_lib \<Rightarrow> bool" where
  "ecies_laws L \<longleftrightarrow>
     (\<forall>k d. length (rx_hmac L k d) = 32) \<and>
     (\<forall>a b. rx_diffie_hellman L a (rx_public_key L b) = rx_diffie_hellman L b (rx_public_key L a)) \<and>
     (\<forall>a. length (rx_encode_point L (rx_public_key L a)) = 65 \<and>
          rx_from_sec1 L (rx_encode_point L (rx_public_key L a)) = Some (rx_public_key L a))"

definition read_u16 :: "bytes \<Rightarrow> nat" where
  "read_u16 b = unat (b ! 0) * 256 + unat (b ! 1)"

lemma be_u16_bytes: "be_u16 n = [of_nat (n div 256), of_nat n]"
  by (simp add: be_u16_def upt_rec)

lemma read_be_u16: "n < 65536 \<Longrightarrow> read_u16 (be_u16 n) = n"
  by (simp add: read_u16_def be_u16_bytes unat_of_nat div_less_iff_less_mult)

lemma ecies_roundtrip_both:
  assumes laws: "ecies_laws L" and iv: "length iv = 16" and size: "length data + 113 < 65536"
    and pkt: "pkt = ecies_encrypt L (rx_public_key L sk) data eph iv"
  shows "ecies_decrypt L sk (drop 2 pkt) (take 2 pkt) = Inr data \<and> read_u16 (take 2 pkt) = length (drop 2 pkt)"
proof -
  define keys where "keys = ecies_keys L (rx_diffie_hellman L eph (rx_public_key L sk))"
  define s2 where "s2 = be_u16 (65 + 16 + length data + 32)"
  define ct where "ct = key_stream (rx_ctr128 L (fst keys) iv) 0 data"
  define tag where "tag = rx_hmac L (snd keys) (iv @ ct @ s2)"
  define pk where "pk = rx_encode_point L (rx_public_key L eph)"
  have p: "pkt = s2 @ pk @ iv @ ct @ tag"
    by (simp add: pkt ecies_encrypt_def Let_def keys_def s2_def ct_def tag_def pk_def)
  have len: "length s2 = 2" "length pk = 65" "length tag = 32" "length ct = length data"
    using laws by (simp_all add: s2_def be_u16_bytes pk_def tag_def ct_def ecies_laws_def)
  have dh: "rx_diffie_hellman L sk (rx_public_key L eph) = rx_diffie_hellman L eph (rx_public_key L sk)"
    and pt: "rx_from_sec1 L pk = Some (rx_public_key L eph)"
    using laws by (auto simp: ecies_laws_def pk_def)
  have d: "drop 2 pkt = pk @ iv @ ct @ tag" "take 2 pkt = s2" using p len by simp_all
  have "read_u16 (take 2 pkt) = length (drop 2 pkt)"
    using d len iv read_be_u16 [of "65 + 16 + length data + 32"] size by (simp add: s2_def)
  moreover have "ecies_decrypt L sk (drop 2 pkt) (take 2 pkt) = Inr data"
    using len iv pt
    by (simp add: d ecies_decrypt_def Let_def dh keys_def [symmetric] tag_def [symmetric] drop_Cons' take_Cons')
       (simp add: ct_def)
  ultimately show ?thesis by simp
qed

text \<open>The recipient of an ECIES envelope reads the length of the rest from its first two bytes and decrypts exactly what
  was sealed for its key, whatever the data (up to the size the two bytes can tell), the ephemeral key and the vector.
\<close>

theorem ecies_roundtrip:
  assumes laws: "ecies_laws L" and iv: "length iv = 16" and size: "length data + 113 < 65536"
    and pkt: "pkt = ecies_encrypt L (rx_public_key L sk) data eph iv"
  shows "ecies_decrypt L sk (drop 2 pkt) (take 2 pkt) = Inr data \<and> read_u16 (take 2 pkt) = length (drop 2 pkt)"
  using ecies_roundtrip_both [OF assms] .

lemma sample_point: "takeWhile (\<lambda>x. x = 1) (replicate p 1 @ replicate q (0 :: u8)) = replicate p 1"
  by (induction p) (cases q; simp)+

lemma sample_ecies_laws: "ecies_laws sample_lib"
proof -
  have "a mod 65 \<le> 64" for a :: nat by (simp add: less_Suc_eq_le [symmetric])
  then show ?thesis
    by (auto simp: ecies_laws_def sample_lib_def sample_point mod_add_right_eq add.commute)
qed

theorem ecies_roundtrip_witness:
  "ecies_decrypt sample_lib 9 (drop 2 (ecies_encrypt sample_lib (rx_public_key sample_lib 9) [1, 2, 3] 70 (replicate 16 5)))
     (take 2 (ecies_encrypt sample_lib (rx_public_key sample_lib 9) [1, 2, 3] 70 (replicate 16 5))) = Inr [1, 2, 3]"
  using ecies_roundtrip [OF sample_ecies_laws _ _ refl, of "replicate 16 5" "[1, 2, 3]" 9 70] by simp

end
