(* ===== verification/NetTypes.thy ===== *)
theory NetTypes
  imports EthTypes
begin

section \<open>Network message types\<close>

text \<open>
  \<^verbatim>\<open>wasix_eth_types/src/p2p.rs\<close>: protocol versions, message ids, disconnect reasons, the request envelope and the
  messages.  The RLP of third-party types is given by parameters: \<open>rlp_lib\<close> has the header and \<open>u64\<close> codecs of \<open>alloy_rlp\<close>.
\<close>

subsection \<open>Versions and message ids\<close>

datatype eth_version = Eth64 | Eth65 | Eth66 | Eth67 | Eth68 | Eth69 | Eth70 | Eth71 | Eth72

fun version_u8 :: "eth_version \<Rightarrow> u8" where
  "version_u8 Eth64 = 64" | "version_u8 Eth65 = 65" | "version_u8 Eth66 = 66" | "version_u8 Eth67 = 67"
| "version_u8 Eth68 = 68" | "version_u8 Eth69 = 69" | "version_u8 Eth70 = 70" | "version_u8 Eth71 = 71"
| "version_u8 Eth72 = 72"

datatype rlp_error = InputTooShort | UnexpectedString | UnexpectedLength | RlpCustom string | RlpOther

definition version_try_from :: "u8 \<Rightarrow> rlp_error + eth_version" where
  "version_try_from v =
     (if v = 64 then Inr Eth64 else if v = 65 then Inr Eth65 else if v = 66 then Inr Eth66 else if v = 67 then Inr Eth67
      else if v = 68 then Inr Eth68 else if v = 69 then Inr Eth69 else if v = 70 then Inr Eth70 else if v = 71 then Inr Eth71
      else if v = 72 then Inr Eth72 else Inl (RlpCustom ''Unknown eth version''))"

definition has_request_id :: "eth_version \<Rightarrow> bool" where
  "has_request_id v = (version_u8 Eth66 \<le> version_u8 v)"

definition is_eth72 :: "eth_version \<Rightarrow> bool" where
  "is_eth72 v = (version_u8 Eth72 \<le> version_u8 v)"

definition is_eth71 :: "eth_version \<Rightarrow> bool" where
  "is_eth71 v = (version_u8 Eth71 \<le> version_u8 v)"

definition is_eth69_or_newer :: "eth_version \<Rightarrow> bool" where
  "is_eth69_or_newer v = (version_u8 Eth69 \<le> version_u8 v)"

definition is_eth68_or_newer :: "eth_version \<Rightarrow> bool" where
  "is_eth68_or_newer v = (version_u8 Eth68 \<le> version_u8 v)"

definition supports_get_node_data :: "eth_version \<Rightarrow> bool" where
  "supports_get_node_data v = (version_u8 v < version_u8 Eth67)"

datatype eth_message_id = MStatus | MNewBlockHashes | MTransactions | MGetBlockHeaders | MBlockHeaders | MGetBlockBodies
  | MBlockBodies | MNewBlock | MNewPooledTransactionHashes | MGetPooledTransactions | MPooledTransactions | MGetNodeData
  | MNodeData | MGetReceipts | MReceipts | MBlockRangeUpdate | MGetBlockAccessLists | MBlockAccessLists | MGetCells | MCells
  | MOther u8

fun id_u8 :: "eth_message_id \<Rightarrow> u8" where
  "id_u8 MStatus = 0x00" | "id_u8 MNewBlockHashes = 0x01" | "id_u8 MTransactions = 0x02" | "id_u8 MGetBlockHeaders = 0x03"
| "id_u8 MBlockHeaders = 0x04" | "id_u8 MGetBlockBodies = 0x05" | "id_u8 MBlockBodies = 0x06" | "id_u8 MNewBlock = 0x07"
| "id_u8 MNewPooledTransactionHashes = 0x08" | "id_u8 MGetPooledTransactions = 0x09" | "id_u8 MPooledTransactions = 0x0a"
| "id_u8 MGetNodeData = 0x0d" | "id_u8 MNodeData = 0x0e" | "id_u8 MGetReceipts = 0x0f" | "id_u8 MReceipts = 0x10"
| "id_u8 MBlockRangeUpdate = 0x11" | "id_u8 MGetBlockAccessLists = 0x12" | "id_u8 MBlockAccessLists = 0x13"
| "id_u8 MGetCells = 0x14" | "id_u8 MCells = 0x15" | "id_u8 (MOther v) = v"

definition id_encode :: "eth_message_id \<Rightarrow> bytes" where
  "id_encode i = [id_u8 i]"

definition id_of_u8 :: "u8 \<Rightarrow> eth_message_id" where
  "id_of_u8 b =
     (if b = 0x00 then MStatus else if b = 0x01 then MNewBlockHashes else if b = 0x02 then MTransactions
      else if b = 0x03 then MGetBlockHeaders else if b = 0x04 then MBlockHeaders else if b = 0x05 then MGetBlockBodies
      else if b = 0x06 then MBlockBodies else if b = 0x07 then MNewBlock else if b = 0x08 then MNewPooledTransactionHashes
      else if b = 0x09 then MGetPooledTransactions else if b = 0x0a then MPooledTransactions else if b = 0x0d then MGetNodeData
      else if b = 0x0e then MNodeData else if b = 0x0f then MGetReceipts else if b = 0x10 then MReceipts
      else if b = 0x11 then MBlockRangeUpdate else if b = 0x12 then MGetBlockAccessLists
      else if b = 0x13 then MBlockAccessLists else if b = 0x14 then MGetCells else if b = 0x15 then MCells else MOther b)"

definition id_decode :: "bytes \<Rightarrow> rlp_error + (eth_message_id \<times> bytes)" where
  "id_decode buf = (case buf of [] \<Rightarrow> Inl InputTooShort | b # rest \<Rightarrow> Inr (id_of_u8 b, rest))"

definition id_max :: "eth_version \<Rightarrow> u8" where
  "id_max v =
     (if is_eth72 v then id_u8 MCells else if is_eth71 v then id_u8 MBlockAccessLists
      else if is_eth69_or_newer v then id_u8 MBlockRangeUpdate else id_u8 MReceipts)"

definition message_count :: "eth_version \<Rightarrow> u8" where
  "message_count v = id_max v + 1"

subsection \<open>Disconnect reasons\<close>

datatype disconnect_reason = DisconnectRequested | TcpSubsystemError | ProtocolBreach | UselessPeer | TooManyPeers
  | AlreadyConnected | IncompatibleP2PProtocolVersion | NullNodeIdentity | ClientQuitting | UnexpectedHandshakeIdentity
  | ConnectedToSelf | PingTimeout | SubprotocolSpecific | UnknownReason

fun reason_u8 :: "disconnect_reason \<Rightarrow> u8" where
  "reason_u8 DisconnectRequested = 0x00" | "reason_u8 TcpSubsystemError = 0x01" | "reason_u8 ProtocolBreach = 0x02"
| "reason_u8 UselessPeer = 0x03" | "reason_u8 TooManyPeers = 0x04" | "reason_u8 AlreadyConnected = 0x05"
| "reason_u8 IncompatibleP2PProtocolVersion = 0x06" | "reason_u8 NullNodeIdentity = 0x07" | "reason_u8 ClientQuitting = 0x08"
| "reason_u8 UnexpectedHandshakeIdentity = 0x09" | "reason_u8 ConnectedToSelf = 0x0a" | "reason_u8 PingTimeout = 0x0b"
| "reason_u8 SubprotocolSpecific = 0x10" | "reason_u8 UnknownReason = 0xff"

definition reason_from :: "u64 \<Rightarrow> disconnect_reason" where
  "reason_from v =
     (if v = 0x00 then DisconnectRequested else if v = 0x01 then TcpSubsystemError else if v = 0x02 then ProtocolBreach
      else if v = 0x03 then UselessPeer else if v = 0x04 then TooManyPeers else if v = 0x05 then AlreadyConnected
      else if v = 0x06 then IncompatibleP2PProtocolVersion else if v = 0x07 then NullNodeIdentity
      else if v = 0x08 then ClientQuitting else if v = 0x09 then UnexpectedHandshakeIdentity
      else if v = 0x0a then ConnectedToSelf else if v = 0x0b then PingTimeout else if v = 0x10 then SubprotocolSpecific
      else UnknownReason)"

text \<open>\<open>rl_header\<close> gives whether a list follows, the length of its payload and the rest of the buffer.\<close>

record rlp_lib =
  rl_encode_header :: "bool \<Rightarrow> nat \<Rightarrow> bytes"
  rl_header :: "bytes \<Rightarrow> rlp_error + (bool \<times> nat \<times> bytes)"
  rl_encode_u64 :: "u64 \<Rightarrow> bytes"
  rl_u64 :: "bytes \<Rightarrow> rlp_error + (u64 \<times> bytes)"
  rl_encode_u8 :: "u8 \<Rightarrow> bytes"
  rl_u8 :: "bytes \<Rightarrow> rlp_error + (u8 \<times> bytes)"

definition reason_encode :: "rlp_lib \<Rightarrow> disconnect_reason \<Rightarrow> bytes" where
  "reason_encode R d = (let p = rl_encode_u8 R (reason_u8 d) in rl_encode_header R True (length p) @ p)"

definition reason_decode :: "rlp_lib \<Rightarrow> bytes \<Rightarrow> rlp_error + (disconnect_reason \<times> bytes)" where
  "reason_decode R buf =
     (case buf of [] \<Rightarrow> Inl InputTooShort
      | first # _ \<Rightarrow>
         let code = (\<lambda>b. rbind (rl_u8 R b) (\<lambda>(c, rest). Inr (reason_from (ucast c), rest))) in
         if 0x80 \<le> first
         then rbind (rl_header R buf) (\<lambda>(is_list, n, b).
              if \<not> is_list then Inl UnexpectedString
              else if n = 0 then Inr (DisconnectRequested, b) else code b)
         else code buf)"

subsection \<open>Requests\<close>

record 'a request_pair =
  request_id :: u64
  rp_message :: 'a

definition request_pair_encode :: "rlp_lib \<Rightarrow> ('a \<Rightarrow> bytes) \<Rightarrow> 'a request_pair \<Rightarrow> bytes" where
  "request_pair_encode R enc p =
     (let payload = rl_encode_u64 R (request_id p) @ enc (rp_message p) in rl_encode_header R True (length payload) @ payload)"

definition request_pair_decode ::
  "rlp_lib \<Rightarrow> (bytes \<Rightarrow> rlp_error + ('a \<times> bytes)) \<Rightarrow> bytes \<Rightarrow> rlp_error + ('a request_pair \<times> bytes)" where
  "request_pair_decode R dec buf =
     rbind (rl_header R buf) (\<lambda>(is_list, payload_length, b0).
       if \<not> is_list then Inl UnexpectedString
       else rbind (rl_u64 R b0) (\<lambda>(i, b1).
            rbind (dec b1) (\<lambda>(m, b2).
              if length b0 - length b2 \<noteq> payload_length then Inl UnexpectedLength
              else Inr (\<lparr>request_id = i, rp_message = m\<rparr>, b2))))"

datatype block_hash_or_number = HashOf b256 | NumberOf u64

fun as_number :: "block_hash_or_number \<Rightarrow> u64 option" where
  "as_number (NumberOf n) = Some n"
| "as_number (HashOf h) = None"

text \<open>A hash is written with its length byte \<open>0xa0\<close>, which no number starts with.\<close>

definition hash_or_number_encode :: "rlp_lib \<Rightarrow> (b256 \<Rightarrow> bytes) \<Rightarrow> block_hash_or_number \<Rightarrow> bytes" where
  "hash_or_number_encode R enc_hash x = (case x of HashOf h \<Rightarrow> enc_hash h | NumberOf n \<Rightarrow> rl_encode_u64 R n)"

definition hash_or_number_decode ::
  "rlp_lib \<Rightarrow> (bytes \<Rightarrow> rlp_error + (b256 \<times> bytes)) \<Rightarrow> bytes \<Rightarrow> rlp_error + (block_hash_or_number \<times> bytes)" where
  "hash_or_number_decode R dec_hash buf =
     (case buf of [] \<Rightarrow> Inl InputTooShort
      | first # _ \<Rightarrow>
         let number = rbind (rl_u64 R buf) (\<lambda>(n, rest). Inr (NumberOf n, rest)) in
         if first = 0xa0 then (case dec_hash buf of Inr (h, rest) \<Rightarrow> Inr (HashOf h, rest) | Inl _ \<Rightarrow> number) else number)"

record get_block_headers =
  gh_block :: block_hash_or_number
  gh_amount :: u64
  gh_skip :: u64
  gh_reverse :: bool

record new_pooled_hashes =
  np_types :: bytes
  np_sizes :: "u64 list"
  np_hashes :: "b256 list"

subsection \<open>Decoders read what encoders wrote\<close>

text \<open>An encoder and a decoder of values that may be followed by other bytes.\<close>

locale wire_codec =
  fixes enc :: "'a \<Rightarrow> bytes" and dec :: "bytes \<Rightarrow> 'e + ('a \<times> bytes)" and ok :: "'a \<Rightarrow> bool"
  assumes dec_enc: "ok x \<Longrightarrow> dec (enc x @ rest) = Inr (x, rest)"
begin

lemma enc_inject:
  assumes "ok x" "ok y" "enc x @ r = enc y @ s"
  shows "x = y \<and> r = s"
proof -
  have "dec (enc y @ s) = Inr (x, r)" using dec_enc [OF assms(1), of r] by (simp only: assms(3))
  then show ?thesis by (simp add: dec_enc [OF assms(2)])
qed

fun enc_all :: "'a list \<Rightarrow> bytes" where
  "enc_all [] = []"
| "enc_all (x # xs) = enc x @ enc_all xs"

fun dec_n :: "nat \<Rightarrow> bytes \<Rightarrow> 'e + ('a list \<times> bytes)" where
  "dec_n 0 b = Inr ([], b)"
| "dec_n (Suc n) b = (case dec b of Inl e \<Rightarrow> Inl e | Inr (x, b') \<Rightarrow> (case dec_n n b' of Inl e \<Rightarrow> Inl e | Inr (xs, b'') \<Rightarrow> Inr (x # xs, b'')))"

lemma dec_n_enc_all: "list_all ok xs \<Longrightarrow> dec_n (length xs) (enc_all xs @ rest) = Inr (xs, rest)"
  by (induction xs) (simp_all add: dec_enc)

end

definition known_id :: "eth_message_id \<Rightarrow> bool" where
  "known_id i = (case i of MOther b \<Rightarrow> id_of_u8 b = MOther b | _ \<Rightarrow> True)"

lemma id_of_id_u8: "known_id i \<Longrightarrow> id_of_u8 (id_u8 i) = i"
  by (cases i) (simp_all add: known_id_def, simp_all add: id_of_u8_def)

interpretation id_wire: wire_codec id_encode id_decode known_id
  by unfold_locales (simp add: id_encode_def id_decode_def id_of_id_u8)

text \<open>What is relied on of \<open>alloy_rlp\<close>: it reads the list headers and numbers it wrote; lists start at \<open>0x80\<close> or above, numbers never with \<open>0xa0\<close>.\<close>

definition rlp_laws :: "rlp_lib \<Rightarrow> bool" where
  "rlp_laws R \<longleftrightarrow>
     (\<forall>n p. n \<le> length p \<longrightarrow> rl_header R (rl_encode_header R True n @ p) = Inr (True, n, p)) \<and>
     (\<forall>n. \<exists>b bs. rl_encode_header R True n = b # bs \<and> 0x80 \<le> b) \<and>
     (\<forall>n rest. rl_u64 R (rl_encode_u64 R n @ rest) = Inr (n, rest)) \<and>
     (\<forall>n. \<exists>b bs. rl_encode_u64 R n = b # bs \<and> b \<noteq> 0xa0) \<and>
     (\<forall>b rest. rl_u8 R (rl_encode_u8 R b @ rest) = Inr (b, rest) \<and> rl_encode_u8 R b \<noteq> [])"

lemma reason_from_u8: "reason_from (ucast (reason_u8 d)) = d"
  by (cases d) (simp_all add: reason_from_def)

text \<open>Whatever message a request or an answer carries, its envelope is read back from the bytes it is written to, with
  its request id, leaving exactly the bytes that follow it.
\<close>

theorem request_pair_roundtrip:
  assumes "rlp_laws R" and dec: "\<And>rest. dec (enc (rp_message p) @ rest) = Inr (rp_message p, rest)"
  shows "request_pair_decode R dec (request_pair_encode R enc p @ rest) = Inr (p, rest)"
proof -
  let ?pl = "rl_encode_u64 R (request_id p) @ enc (rp_message p)"
  have "rl_header R (rl_encode_header R True (length ?pl) @ ?pl @ rest) = Inr (True, length ?pl, ?pl @ rest)"
    using assms(1) by (simp add: rlp_laws_def)
  then show ?thesis
    using assms by (simp add: request_pair_encode_def request_pair_decode_def Let_def rlp_laws_def)
qed

theorem reason_roundtrip:
  assumes "rlp_laws R"
  shows "reason_decode R (reason_encode R d @ rest) = Inr (d, rest)"
proof -
  let ?p = "rl_encode_u8 R (reason_u8 d)"
  have h: "rl_header R (rl_encode_header R True (length ?p) @ ?p @ rest) = Inr (True, length ?p, ?p @ rest)"
    and u: "rl_u8 R (?p @ rest) = Inr (reason_u8 d, rest)" "?p \<noteq> []"
    using assms by (simp_all add: rlp_laws_def)
  obtain b bs where b: "rl_encode_header R True (length ?p) = b # bs" "0x80 \<le> b" using assms by (meson rlp_laws_def)
  then show ?thesis
    using h u by (simp add: reason_encode_def reason_decode_def Let_def reason_from_u8)
qed

theorem hash_or_number_roundtrip:
  assumes "rlp_laws R" and "\<And>h rest. dec_hash (enc_hash h @ rest) = Inr (h, rest)" and "\<And>h. \<exists>bs. enc_hash h = 0xa0 # bs"
  shows "hash_or_number_decode R dec_hash (hash_or_number_encode R enc_hash x @ rest) = Inr (x, rest)"
proof (cases x)
  case (HashOf h)
  obtain bs where bs: "enc_hash h = 0xa0 # bs" using assms(3) by blast
  have "dec_hash (0xa0 # bs @ rest) = Inr (h, rest)" using assms(2) [of h rest] bs by simp
  then show ?thesis using HashOf bs by (simp add: hash_or_number_encode_def hash_or_number_decode_def)
next
  case (NumberOf n)
  obtain b bs where b: "rl_encode_u64 R n = b # bs" "b \<noteq> 0xa0" using assms(1) by (meson rlp_laws_def)
  have "rl_u64 R (b # bs @ rest) = Inr (n, rest)" using assms(1) b(1) by (metis append_Cons rlp_laws_def)
  then show ?thesis using NumberOf b by (simp add: hash_or_number_encode_def hash_or_number_decode_def)
qed

text \<open>A concrete codec in the style of RLP, with a sign byte for the header and a unary length.\<close>

definition unary_rlp :: rlp_lib where
  "unary_rlp =
     \<lparr>rl_encode_header = (\<lambda>l n. (if l then 0xc0 else 0) # replicate n 1 @ [0]),
      rl_header = (\<lambda>b. case b of [] \<Rightarrow> Inl InputTooShort
         | t # r \<Rightarrow> Inr (t = 0xc0, length (takeWhile (\<lambda>x. x = 1) r), drop (Suc (length (takeWhile (\<lambda>x. x = 1) r))) r)),
      rl_encode_u64 = (\<lambda>n. 1 # replicate (unat n) 1 @ [0]),
      rl_u64 = (\<lambda>b. case b of [] \<Rightarrow> Inl InputTooShort
         | t # r \<Rightarrow> Inr (of_nat (length (takeWhile (\<lambda>x. x = 1) r)), drop (Suc (length (takeWhile (\<lambda>x. x = 1) r))) r)),
      rl_encode_u8 = (\<lambda>b. [b]), rl_u8 = (\<lambda>b. case b of [] \<Rightarrow> Inl InputTooShort | x # r \<Rightarrow> Inr (x, r))\<rparr>"

lemma takeWhile_unary: "takeWhile (\<lambda>x. x = 1) (replicate n 1 @ (0 :: u8) # r) = replicate n 1"
  by (induction n) simp_all

lemma unary_rlp_laws: "rlp_laws unary_rlp"
  by (simp add: rlp_laws_def unary_rlp_def takeWhile_unary)

theorem request_pair_roundtrip_witness:
  "request_pair_decode unary_rlp id_decode (request_pair_encode unary_rlp id_encode \<lparr>request_id = 7, rp_message = MGetReceipts\<rparr> @ [9]) =
     Inr (\<lparr>request_id = 7, rp_message = MGetReceipts\<rparr>, [9])"
  by (rule request_pair_roundtrip [OF unary_rlp_laws]) (simp add: id_wire.dec_enc known_id_def)

end
