(* ===== verification/ForkId.thy ===== *)
theory ForkId
  imports EthTypes
begin

section \<open>Fork identifiers\<close>

text \<open>
  \<open>ForkId\<close> of \<^verbatim>\<open>wasix_eth_types/src/p2p.rs\<close> (EIP-2124 and EIP-6122): \<open>fork_id_new\<close> computes the identifier a node announces
  in its status message, \<open>fork_id_validate\<close> judges the identifier of a peer.  The checksum \<open>crc\<close> of the bytes fed to the
  digest (CRC-32 of the \<open>crc\<close> crate) is a parameter.  The four bytes of \<open>hash\<close> are the big-endian bytes of the checksum,
  which \<open>validate\<close> reads back, and are kept here as the number.
\<close>

subsection \<open>The operations\<close>

type_synonym fork_point = "u64 \<times> bool"

record fork_config = chain_config +
  dao_fork_block :: "u64 option"

record fork_id =
  fi_hash :: u32
  fi_next :: u64

datatype fork_id_error = WrongNext u64 u64 | BehindWrongNext u64 u64 | BypassedFork | IncompatibleHistory

definition be_bytes_u64 :: "u64 \<Rightarrow> bytes" where
  "be_bytes_u64 n = map (\<lambda>i. ucast (drop_bit (8 * i) n)) (rev [0 ..< 8])"

definition be_bytes_b256 :: "b256 \<Rightarrow> bytes" where
  "be_bytes_b256 n = map (\<lambda>i. ucast (drop_bit (8 * i) n)) (rev [0 ..< 32])"

definition push_fork :: "bool \<Rightarrow> u64 option \<Rightarrow> fork_point list" where
  "push_fork is_timestamp v = (case v of None \<Rightarrow> [] | Some b \<Rightarrow> [(b, is_timestamp)])"

definition announced_forks :: "fork_config \<Rightarrow> fork_point list" where
  "announced_forks c =
     concat (map (push_fork False)
       [homestead_block c, dao_fork_block c, eip150_block c, eip155_block c, eip158_block c, byzantium_block c,
        constantinople_block c, petersburg_block c, istanbul_block c, muir_glacier_block c, berlin_block c, london_block c,
        arrow_glacier_block c, gray_glacier_block c, merge_netsplit_block c]) @
     concat (map (push_fork True) [shanghai_time c, cancun_time c, prague_time c])"

definition sorted_forks :: "fork_config \<Rightarrow> fork_point list" where
  "sorted_forks c = sort_key (\<lambda>f. (snd f, fst f)) (announced_forks c)"

definition fork_active :: "u64 \<Rightarrow> u64 \<Rightarrow> fork_point \<Rightarrow> bool" where
  "fork_active head_num head_time f = (if snd f then fst f \<le> head_time else fst f \<le> head_num)"

definition fork_at_genesis :: "u64 \<Rightarrow> fork_point \<Rightarrow> bool" where
  "fork_at_genesis genesis_time f = (if snd f then fst f \<le> genesis_time else fst f = 0)"

text \<open>The loop of \<open>new\<close>: the bytes fed to the digest, the last value fed, and the first inactive fork.\<close>

fun fork_id_loop :: "u64 \<Rightarrow> u64 \<Rightarrow> u64 \<Rightarrow> fork_point list \<Rightarrow> bytes \<Rightarrow> u64 \<Rightarrow> bytes \<times> u64" where
  "fork_id_loop hn ht gt [] digest last_added = (digest, 0)"
| "fork_id_loop hn ht gt (f # fs) digest last_added =
     (if fork_active hn ht f
      then if \<not> fork_at_genesis gt f \<and> fst f \<noteq> last_added
           then fork_id_loop hn ht gt fs (digest @ be_bytes_u64 (fst f)) (fst f)
           else fork_id_loop hn ht gt fs digest last_added
      else (digest, fst f))"

definition fork_id_new :: "(bytes \<Rightarrow> u32) \<Rightarrow> b256 \<Rightarrow> fork_config \<Rightarrow> u64 \<Rightarrow> u64 \<Rightarrow> u64 \<Rightarrow> fork_id" where
  "fork_id_new crc genesis_hash c head_num head_time genesis_time =
     (case fork_id_loop head_num head_time genesis_time (sorted_forks c) (be_bytes_b256 genesis_hash) 0 of
        (digest, nxt) \<Rightarrow> \<lparr>fi_hash = crc digest, fi_next = nxt\<rparr>)"

text \<open>The checksums of \<open>validate\<close>, one for the genesis block and one for every fork that changes the digest.\<close>

fun local_hashes_loop :: "(bytes \<Rightarrow> u32) \<Rightarrow> u64 \<Rightarrow> fork_point list \<Rightarrow> bytes \<Rightarrow> u64 \<Rightarrow> (u32 \<times> u64) list" where
  "local_hashes_loop crc gt [] digest last_added = []"
| "local_hashes_loop crc gt (f # fs) digest last_added =
     (if \<not> fork_at_genesis gt f \<and> fst f \<noteq> last_added
      then let digest' = digest @ be_bytes_u64 (fst f) in (crc digest', fst f) # local_hashes_loop crc gt fs digest' (fst f)
      else local_hashes_loop crc gt fs digest last_added)"

definition local_hashes :: "(bytes \<Rightarrow> u32) \<Rightarrow> b256 \<Rightarrow> fork_config \<Rightarrow> u64 \<Rightarrow> (u32 \<times> u64) list" where
  "local_hashes crc genesis_hash c gt =
     (let digest = be_bytes_b256 genesis_hash in (crc digest, 0) # local_hashes_loop crc gt (sorted_forks c) digest 0)"

definition position :: "('a \<Rightarrow> bool) \<Rightarrow> 'a list \<Rightarrow> nat option" where
  "position P xs = List.find (\<lambda>i. P (xs ! i)) [0 ..< length xs]"

definition rposition :: "('a \<Rightarrow> bool) \<Rightarrow> 'a list \<Rightarrow> nat option" where
  "rposition P xs = List.find (\<lambda>i. P (xs ! i)) (rev [0 ..< length xs])"

definition current_local_idx :: "u64 \<Rightarrow> u64 \<Rightarrow> (u32 \<times> u64) list \<Rightarrow> fork_point list \<Rightarrow> nat" where
  "current_local_idx hn ht hs fs =
     fold (\<lambda>f idx. if fork_active hn ht f then (case rposition (\<lambda>h. snd h \<le> fst f) hs of None \<Rightarrow> 0 | Some i \<Rightarrow> i) else idx) fs 0"

definition get_or_zero :: "(u32 \<times> u64) list \<Rightarrow> nat \<Rightarrow> u64" where
  "get_or_zero hs i = (if i < length hs then snd (hs ! i) else 0)"

definition fork_id_validate ::
  "(bytes \<Rightarrow> u32) \<Rightarrow> fork_id \<Rightarrow> b256 \<Rightarrow> fork_config \<Rightarrow> u64 \<Rightarrow> u64 \<Rightarrow> u64 \<Rightarrow> fork_id_error + unit" where
  "fork_id_validate crc fid genesis_hash c head_num head_time genesis_time =
     (let hs = local_hashes crc genesis_hash c genesis_time;
          cur = current_local_idx head_num head_time hs (sorted_forks c)
      in case position (\<lambda>h. fst h = fi_hash fid) hs of
           None \<Rightarrow> Inl IncompatibleHistory
         | Some r \<Rightarrow>
             if r = cur then
               (let nxt = get_or_zero hs (cur + 1) in if fi_next fid \<noteq> nxt then Inl (WrongNext (fi_next fid) nxt) else Inr ())
             else if r < cur then
               (let nxt = get_or_zero hs (r + 1) in if fi_next fid \<noteq> nxt then Inl (BehindWrongNext (fi_next fid) nxt) else Inr ())
             else
               (let nxt = get_or_zero hs (cur + 1) in if nxt \<noteq> 0 \<and> fi_next fid = nxt then Inl BypassedFork else Inr ()))"

subsection \<open>The schedule as a list of distinct points\<close>

text \<open>The values fed to the digest: the forks after genesis, each once.\<close>

fun fork_values :: "u64 \<Rightarrow> fork_point list \<Rightarrow> u64 \<Rightarrow> u64 list" where
  "fork_values gt [] last_added = []"
| "fork_values gt (f # fs) last_added =
     (if \<not> fork_at_genesis gt f \<and> fst f \<noteq> last_added then fst f # fork_values gt fs (fst f) else fork_values gt fs last_added)"

definition digest_after :: "bytes \<Rightarrow> u64 list \<Rightarrow> bytes" where
  "digest_after d vs = d @ concat (map be_bytes_u64 vs)"

lemma digest_after_simps [simp]:
  "digest_after d [] = d" "digest_after d (v # vs) = digest_after (d @ be_bytes_u64 v) vs"
  by (simp_all add: digest_after_def)

lemma local_hashes_loop_eq:
  "local_hashes_loop crc gt fs d l =
     map (\<lambda>i. (crc (digest_after d (take (Suc i) (fork_values gt fs l))), fork_values gt fs l ! i)) [0 ..< length (fork_values gt fs l)]"
proof (induction crc gt fs d l rule: local_hashes_loop.induct)
  case (2 crc gt f fs d l)
  then show ?case
    by (simp add: Let_def map_upt_Suc del: upt_Suc)
qed simp

lemma fork_id_loop_eq:
  "fork_id_loop hn ht gt fs d l =
     (digest_after d (fork_values gt (takeWhile (fork_active hn ht) fs) l),
      case dropWhile (fork_active hn ht) fs of [] \<Rightarrow> 0 | f # _ \<Rightarrow> fst f)"
  by (induction hn ht gt fs d l rule: fork_id_loop.induct) simp_all

definition schedule :: "u64 \<Rightarrow> fork_config \<Rightarrow> u64 list" where
  "schedule gt c = fork_values gt (sorted_forks c) 0"

lemma local_hashes_eq:
  "local_hashes crc g c gt =
     map (\<lambda>i. (crc (digest_after (be_bytes_b256 g) (take i (schedule gt c))), (0 # schedule gt c) ! i)) [0 ..< Suc (length (schedule gt c))]"
  by (simp add: local_hashes_def Let_def local_hashes_loop_eq schedule_def map_upt_Suc del: upt_Suc)

lemma fork_values_append:
  "\<exists>l'. fork_values gt (fs @ gs) l = fork_values gt fs l @ fork_values gt gs l' \<and> l' \<in> insert l (fst ` set fs)"
proof (induction fs arbitrary: l)
  case (Cons f fs)
  show ?case
    using Cons.IH [of l] Cons.IH [of "fst f"] by (auto 0 3)
qed simp

lemma set_fork_values: "set (fork_values gt fs l) \<subseteq> fst ` {f \<in> set fs. \<not> fork_at_genesis gt f}"
  by (induction gt fs l rule: fork_values.induct) auto

lemma fork_values_increasing:
  assumes "sorted (l # map fst fs)"
  shows "sorted_wrt (<) (l # fork_values gt fs l)"
  using assms
proof (induction fs arbitrary: l)
  case (Cons f fs)
  show ?case
  proof (cases "\<not> fork_at_genesis gt f \<and> fst f \<noteq> l")
    case True
    then have "l < fst f" using Cons.prems by auto
    moreover have "sorted_wrt (<) (fst f # fork_values gt fs (fst f))" using Cons.prems by (intro Cons.IH) auto
    ultimately show ?thesis using True by auto
  next
    case False
    moreover have "sorted_wrt (<) (l # fork_values gt fs l)" using Cons.prems by (intro Cons.IH) auto
    ultimately show ?thesis by auto
  qed
qed simp

subsection \<open>Ordered schedules and heads\<close>

text \<open>
  In a schedule in use every block number of a fork is below every fork time, and the forks that are active at a head
  are an initial part of the schedule.
\<close>

definition ordered_schedule :: "fork_config \<Rightarrow> bool" where
  "ordered_schedule c \<longleftrightarrow>
     (\<forall>b\<in>set (sorted_forks c). \<forall>t\<in>set (sorted_forks c). \<not> snd b \<longrightarrow> snd t \<longrightarrow> fst b < fst t)"

definition head_on_schedule :: "fork_config \<Rightarrow> u64 \<Rightarrow> u64 \<Rightarrow> u64 \<Rightarrow> bool" where
  "head_on_schedule c gt hn ht \<longleftrightarrow>
     gt \<le> ht \<and> filter (fork_active hn ht) (sorted_forks c) = takeWhile (fork_active hn ht) (sorted_forks c)"

definition passed :: "fork_config \<Rightarrow> u64 \<Rightarrow> u64 \<Rightarrow> u64 \<Rightarrow> nat" where
  "passed c gt hn ht = length (fork_values gt (takeWhile (fork_active hn ht) (sorted_forks c)) 0)"

lemma ordered_scheduleD:
  assumes "ordered_schedule c" "b \<in> set (sorted_forks c)" "t \<in> set (sorted_forks c)" "\<not> snd b" "snd t"
  shows "fst b < fst t"
  using assms by (simp add: ordered_schedule_def)

lemma sorted_forks_values:
  assumes "ordered_schedule c"
  shows "sorted (map fst (sorted_forks c))"
proof -
  have "sorted_wrt (\<lambda>f g. (snd f, fst f) \<le> (snd g, fst g)) (sorted_forks c)"
    using sorted_sort_key [of "\<lambda>f. (snd f, fst f)" "announced_forks c"] by (simp add: sorted_forks_def sorted_map)
  then have "sorted_wrt (\<lambda>f g. fst f \<le> fst g) (sorted_forks c)"
    by (rule sorted_wrt_mono_rel [rotated]) (use ordered_scheduleD [OF assms] in \<open>fastforce simp: less_eq_prod_def intro: less_imp_le\<close>)
  then show ?thesis by (simp add: sorted_map)
qed

lemma schedule_increasing:
  assumes "ordered_schedule c"
  shows "sorted_wrt (<) (0 # schedule gt c)"
  unfolding schedule_def by (rule fork_values_increasing) (simp add: sorted_forks_values [OF assms])

lemma later_forks_inactive:
  assumes "head_on_schedule c gt hn ht" "g \<in> set (dropWhile (fork_active hn ht) (sorted_forks c))"
  shows "\<not> fork_active hn ht g"
proof -
  let ?P = "fork_active hn ht" and ?fs = "sorted_forks c"
  have "filter ?P (takeWhile ?P ?fs @ dropWhile ?P ?fs) = takeWhile ?P ?fs"
    using assms(1) by (simp only: takeWhile_dropWhile_id head_on_schedule_def)
  moreover have "filter ?P (takeWhile ?P ?fs) = takeWhile ?P ?fs" by (auto simp: filter_id_conv dest: set_takeWhileD)
  ultimately have "filter ?P (dropWhile ?P ?fs) = []" by (simp only: filter_append append_self_conv)
  then show ?thesis using assms(2) by (simp add: filter_empty_conv)
qed

lemma active_before_inactive:
  assumes "ordered_schedule c" "head_on_schedule c gt hn ht"
    and f: "f \<in> set (takeWhile (fork_active hn ht) (sorted_forks c))"
    and g: "g \<in> set (dropWhile (fork_active hn ht) (sorted_forks c))"
  shows "fst f < fst g"
proof -
  have fa: "fork_active hn ht f" "f \<in> set (sorted_forks c)" using f set_takeWhileD by fastforce+
  have ga: "\<not> fork_active hn ht g" "g \<in> set (sorted_forks c)"
    using later_forks_inactive [OF assms(2) g] g set_dropWhileD by fastforce+
  have "sorted (map (\<lambda>f. (snd f, fst f)) (takeWhile (fork_active hn ht) (sorted_forks c) @ dropWhile (fork_active hn ht) (sorted_forks c)))"
    by (simp add: sorted_forks_def)
  then have "(snd f, fst f) \<le> (snd g, fst g)" using f g unfolding map_append sorted_append by auto
  then show ?thesis
    using fa ga ordered_scheduleD [OF assms(1)] by (cases "snd f"; cases "snd g") (auto simp: fork_active_def less_eq_prod_def)
qed

text \<open>The part of the schedule passed at a head, and the part still to come.\<close>

lemma schedule_split:
  fixes hn ht :: u64
  assumes "ordered_schedule c" "head_on_schedule c gt hn ht"
  defines "pre \<equiv> takeWhile (fork_active hn ht) (sorted_forks c)" and "post \<equiv> dropWhile (fork_active hn ht) (sorted_forks c)"
  shows "take (passed c gt hn ht) (schedule gt c) = fork_values gt pre 0"
    and "post \<noteq> [] \<Longrightarrow> schedule gt c ! passed c gt hn ht = fst (hd post) \<and> passed c gt hn ht < length (schedule gt c)"
    and "post = [] \<Longrightarrow> passed c gt hn ht = length (schedule gt c)"
    and "set (drop (passed c gt hn ht) (schedule gt c)) \<subseteq> fst ` set post"
proof -
  obtain l where l: "schedule gt c = fork_values gt pre 0 @ fork_values gt post l" "l \<in> insert 0 (fst ` set pre)"
    using fork_values_append [of gt pre post 0] by (auto simp: schedule_def pre_def post_def)
  have n: "passed c gt hn ht = length (fork_values gt pre 0)" by (simp add: passed_def pre_def)
  show "take (passed c gt hn ht) (schedule gt c) = fork_values gt pre 0" using l n by simp
  show "set (drop (passed c gt hn ht) (schedule gt c)) \<subseteq> fst ` set post"
    using l n set_fork_values [of gt post l] by auto
  show "passed c gt hn ht = length (schedule gt c)" if "post = []" using that l n by simp
  have hd: "\<exists>vs. fork_values gt post l = fst (hd post) # vs" if ne: "post \<noteq> []"
  proof -
    have p: "hd post \<in> set post" using ne by simp
    then have ia: "\<not> fork_active hn ht (hd post)" using later_forks_inactive [OF assms(2)] by (simp add: post_def)
    moreover have "gt \<le> ht" using assms(2) by (simp add: head_on_schedule_def)
    ultimately have "\<not> fork_at_genesis gt (hd post)" "fst (hd post) \<noteq> 0"
      by (auto simp: fork_active_def fork_at_genesis_def split: if_splits)
    moreover have "fst (hd post) \<noteq> l"
      using active_before_inactive [OF assms(1,2)] p l(2) \<open>fst (hd post) \<noteq> 0\<close> unfolding pre_def post_def by fastforce
    ultimately show ?thesis using ne by (cases post) auto
  qed
  then show "post \<noteq> [] \<Longrightarrow> schedule gt c ! passed c gt hn ht = fst (hd post) \<and> passed c gt hn ht < length (schedule gt c)"
    using l(1) n by (auto simp: nth_append)
qed

lemma position_eqI:
  assumes "n < length xs" "P (xs ! n)" "\<And>j. j < n \<Longrightarrow> \<not> P (xs ! j)"
  shows "position P xs = Some n"
  unfolding position_def find_Some_iff using assms by (intro exI [of _ n]) auto

lemma position_distinct:
  assumes "distinct (map f xs)" "n < length xs"
  shows "position (\<lambda>x. f x = f (xs ! n)) xs = Some n"
proof (rule position_eqI [OF assms(2)])
  show "f (xs ! j) \<noteq> f (xs ! n)" if "j < n" for j
    using nth_eq_iff_index_eq [OF assms(1), of j n] that assms(2) by simp
qed simp

lemma rposition_eqI:
  assumes "n < length xs" "P (xs ! n)" "\<And>j. n < j \<Longrightarrow> j < length xs \<Longrightarrow> \<not> P (xs ! j)"
  shows "rposition P xs = Some n"
  unfolding rposition_def find_Some_iff
proof (intro exI conjI allI impI)
  show "length xs - Suc n < length (rev [0 ..< length xs])" using assms(1) by simp
  show "P (xs ! (rev [0 ..< length xs] ! (length xs - Suc n)))" "n = rev [0 ..< length xs] ! (length xs - Suc n)"
    using assms(1,2) by (simp_all add: rev_nth)
  show "\<not> P (xs ! (rev [0 ..< length xs] ! j))" if "j < length xs - Suc n" for j
    using assms(1) assms(3) [of "length xs - Suc j"] that by (simp add: rev_nth)
qed

lemma fold_last_match:
  "fold (\<lambda>f i. if P f then q f else i) fs z = (if filter P fs = [] then z else q (last (filter P fs)))"
  by (induction fs rule: rev_induct) auto

lemma sorted_map_le_last: "sorted (map f xs) \<Longrightarrow> x \<in> set xs \<Longrightarrow> f x \<le> f (last xs)"
  by (induction xs rule: rev_induct) (auto simp: sorted_append)

lemma current_local_idx_passed:
  assumes "ordered_schedule c" "head_on_schedule c gt hn ht"
  shows "current_local_idx hn ht (local_hashes crc g c gt) (sorted_forks c) = passed c gt hn ht"
proof -
  let ?A = "fork_active hn ht" and ?us = "schedule gt c" and ?hs = "local_hashes crc g c gt" and ?n = "passed c gt hn ht"
  let ?pre = "takeWhile ?A (sorted_forks c)"
  have fil: "filter ?A (sorted_forks c) = ?pre" using assms(2) by (simp add: head_on_schedule_def)
  show ?thesis
  proof (cases "?pre = []")
    case True
    then show ?thesis unfolding current_local_idx_def fold_last_match fil by (simp add: passed_def)
  next
    case False
    let ?v = "fst (last ?pre)"
    have last: "last ?pre \<in> set ?pre" using False by simp
    have le: "x \<le> ?v" if "x \<in> insert 0 (fst ` set ?pre)" for x
    proof -
      have "sorted (map fst ?pre)"
        using sorted_forks_values [OF assms(1)] by (metis map_append sorted_append takeWhile_dropWhile_id)
      then show ?thesis using that sorted_map_le_last by fastforce
    qed
    have n: "?n \<le> length ?us"
      using arg_cong [OF schedule_split(1) [OF assms], of length] by (simp add: passed_def)
    have "snd (?hs ! ?n) \<le> ?v"
    proof (cases ?n)
      case (Suc m)
      then have "?us ! m \<in> set (take ?n ?us)" using n by (auto simp: in_set_conv_nth intro!: exI [of _ m])
      then have "?us ! m \<in> fst ` set ?pre"
        unfolding schedule_split(1) [OF assms] using set_fork_values by fastforce
      then show ?thesis using le n Suc by (simp add: local_hashes_eq del: upt_Suc)
    qed (simp add: local_hashes_eq del: upt_Suc)
    moreover have "\<not> snd (?hs ! j) \<le> ?v" if "?n < j" "j < length ?hs" for j
    proof -
      obtain k where k: "j = Suc k" using \<open>?n < j\<close> by (cases j) auto
      then have "?us ! k \<in> set (drop ?n ?us)"
        using that by (auto simp: local_hashes_eq in_set_conv_nth intro!: exI [of _ "k - ?n"])
      then obtain h where "h \<in> set (dropWhile ?A (sorted_forks c))" "?us ! k = fst h"
        using schedule_split(4) [OF assms] by auto
      then have "?v < ?us ! k" using active_before_inactive [OF assms last] by simp
      then show ?thesis using k that by (simp add: local_hashes_eq del: upt_Suc)
    qed
    ultimately have "rposition (\<lambda>h. snd h \<le> ?v) ?hs = Some ?n"
      using n by (intro rposition_eqI) (auto simp: local_hashes_eq)
    then show ?thesis unfolding current_local_idx_def fold_last_match fil using False by simp
  qed
qed

lemma fork_id_new_eq:
  assumes "ordered_schedule c" "head_on_schedule c gt hn ht"
  shows "fork_id_new crc g c hn ht gt =
    \<lparr>fi_hash = fst (local_hashes crc g c gt ! passed c gt hn ht), fi_next = get_or_zero (local_hashes crc g c gt) (Suc (passed c gt hn ht))\<rparr>"
proof -
  let ?post = "dropWhile (fork_active hn ht) (sorted_forks c)" and ?n = "passed c gt hn ht"
  have n: "?n \<le> length (schedule gt c)"
    using arg_cong [OF schedule_split(1) [OF assms], of length] by (simp add: passed_def)
  have "fst (local_hashes crc g c gt ! ?n) = crc (digest_after (be_bytes_b256 g) (take ?n (schedule gt c)))"
    using n by (simp add: local_hashes_eq del: upt_Suc)
  moreover have "get_or_zero (local_hashes crc g c gt) (Suc ?n) = (case ?post of [] \<Rightarrow> 0 | f # _ \<Rightarrow> fst f)"
    using schedule_split(2,3) [OF assms] by (cases ?post) (auto simp: get_or_zero_def local_hashes_eq simp del: upt_Suc dropWhile_eq_Nil_conv)
  ultimately show ?thesis by (simp add: fork_id_new_def fork_id_loop_eq schedule_split(1) [OF assms])
qed

subsection \<open>Nodes of one network accept each other\<close>

lemma passed_le: "ordered_schedule c \<Longrightarrow> head_on_schedule c gt hn ht \<Longrightarrow> passed c gt hn ht \<le> length (schedule gt c)"
  using arg_cong [OF schedule_split(1) [of c gt hn ht], of length] by (simp add: passed_def)

lemma length_local_hashes: "length (local_hashes crc g c gt) = Suc (length (schedule gt c))"
  by (simp add: local_hashes_eq)

lemma get_or_zero_later:
  assumes "ordered_schedule c" "i < j" "get_or_zero (local_hashes crc g c gt) i \<noteq> 0"
  shows "get_or_zero (local_hashes crc g c gt) j \<noteq> get_or_zero (local_hashes crc g c gt) i"
proof (cases "j < Suc (length (schedule gt c))")
  case True
  then have "(0 # schedule gt c) ! i < (0 # schedule gt c) ! j"
    using sorted_wrt_nth_less [OF schedule_increasing [OF assms(1)] assms(2)] by simp
  then show ?thesis using True assms(2) by (simp add: get_or_zero_def local_hashes_eq del: upt_Suc)
next
  case False
  then show ?thesis using assms(3) by (simp add: get_or_zero_def length_local_hashes)
qed

lemma same_schedule_accepts:
  assumes "ordered_schedule c" "head_on_schedule c gt hn ht" "head_on_schedule c gt hn' ht'"
    and d: "distinct (map fst (local_hashes crc g c gt))"
  shows "fork_id_validate crc (fork_id_new crc g c hn' ht' gt) g c hn ht gt = Inr ()"
proof -
  let ?hs = "local_hashes crc g c gt" and ?n = "passed c gt hn ht" and ?m = "passed c gt hn' ht'"
  have lt: "?m < length ?hs" using passed_le [OF assms(1,3)] by (simp add: length_local_hashes)
  note position_distinct [OF d lt]
  moreover have "get_or_zero ?hs (Suc ?m) \<noteq> get_or_zero ?hs (Suc ?n)" if "?n < ?m" "get_or_zero ?hs (Suc ?n) \<noteq> 0"
    using get_or_zero_later [OF assms(1) _ that(2)] that(1) by simp
  ultimately show ?thesis
    by (cases ?m ?n rule: linorder_cases)
      (auto simp: fork_id_validate_def Let_def current_local_idx_passed [OF assms(1,2)] fork_id_new_eq [OF assms(1,3)])
qed

text \<open>Two nodes with the same genesis and the same fork schedule accept each other's fork identifiers, wherever in the
  schedule their heads are, before, at or after each other, as long as the checksums of the schedule differ.
\<close>

theorem fork_ids_compatible:
  assumes "ordered_schedule c" "head_on_schedule c gt hn ht" "head_on_schedule c gt hn' ht'"
    and "distinct (map fst (local_hashes crc g c gt))"
  shows "fork_id_validate crc (fork_id_new crc g c hn' ht' gt) g c hn ht gt = Inr ()"
  using same_schedule_accepts [OF assms] .

definition sample_forks :: fork_config where
  "sample_forks =
     \<lparr>homestead_block = Some 0, eip150_block = None, eip155_block = None, eip158_block = None, byzantium_block = None,
      constantinople_block = None, petersburg_block = None, istanbul_block = None, muir_glacier_block = None,
      berlin_block = None, london_block = Some 5, arrow_glacier_block = None, gray_glacier_block = None,
      merge_netsplit_block = Some 5, shanghai_time = Some 100, cancun_time = Some 200, prague_time = None,
      terminal_total_difficulty = Some 0, blob_schedule = [], dao_fork_block = None\<rparr>"

definition length_sum :: "bytes \<Rightarrow> u32" where
  "length_sum b = of_nat (length b)"

lemma sample_sorted: "sorted_forks sample_forks = [(0, False), (5, False), (5, False), (100, True), (200, True)]"
  by (simp add: sorted_forks_def sample_forks_def announced_forks_def push_fork_def less_eq_prod_def)

lemma sample_hyps:
  "ordered_schedule sample_forks" "head_on_schedule sample_forks 10 3 50" "head_on_schedule sample_forks 10 9 150"
  "distinct (map fst (local_hashes length_sum g sample_forks 10))"
  by (simp_all add: ordered_schedule_def head_on_schedule_def sample_sorted fork_active_def local_hashes_def
      fork_at_genesis_def length_sum_def be_bytes_u64_def be_bytes_b256_def)

theorem fork_ids_compatible_witness:
  "fork_id_validate length_sum (fork_id_new length_sum 0 sample_forks 9 150 10) 0 sample_forks 3 50 10 = Inr () \<and>
   fork_id_validate length_sum (fork_id_new length_sum 0 sample_forks 3 50 10) 0 sample_forks 9 150 10 = Inr () \<and>
   fork_id_new length_sum 0 sample_forks 3 50 10 \<noteq> fork_id_new length_sum 0 sample_forks 9 150 10"
proof (intro conjI)
  show "fork_id_validate length_sum (fork_id_new length_sum 0 sample_forks 9 150 10) 0 sample_forks 3 50 10 = Inr ()"
    by (rule fork_ids_compatible [OF sample_hyps(1,2,3,4)])
  show "fork_id_validate length_sum (fork_id_new length_sum 0 sample_forks 3 50 10) 0 sample_forks 9 150 10 = Inr ()"
    by (rule fork_ids_compatible [OF sample_hyps(1,3,2,4)])
  show "fork_id_new length_sum 0 sample_forks 3 50 10 \<noteq> fork_id_new length_sum 0 sample_forks 9 150 10"
    by (simp add: fork_id_new_def sample_sorted fork_active_def fork_at_genesis_def)
qed

text \<open>
  A peer at the same point of the schedule that announces a later fork this node has not heard of is refused, although
  EIP-2124 has such a peer accepted until the announced fork is passed.
\<close>

theorem unknown_next_fork_refused:
  assumes "ordered_schedule c" "head_on_schedule c gt hn ht" "distinct (map fst (local_hashes crc g c gt))"
    and "fi_hash fid = fi_hash (fork_id_new crc g c hn ht gt)" "fi_next fid \<noteq> fi_next (fork_id_new crc g c hn ht gt)"
  shows "fork_id_validate crc fid g c hn ht gt = Inl (WrongNext (fi_next fid) (fi_next (fork_id_new crc g c hn ht gt)))"
proof -
  let ?hs = "local_hashes crc g c gt" and ?n = "passed c gt hn ht"
  have lt: "?n < length ?hs" using passed_le [OF assms(1,2)] by (simp add: length_local_hashes)
  show ?thesis
    using assms(4,5) position_distinct [OF assms(3) lt]
    by (simp add: fork_id_validate_def Let_def current_local_idx_passed [OF assms(1,2)] fork_id_new_eq [OF assms(1,2)])
qed

end
