(* ===== verification/Handshake.thy ===== *)
theory Handshake
  imports Rlpx NetTypes ForkId Storage
begin

section \<open>Handshakes\<close>

text \<open>
  \<^verbatim>\<open>wasix_eth_p2p/src/rlpx/handshake\<close>: the key agreement of \<^verbatim>\<open>ecies.rs\<close> and the negotiation of capabilities and the
  status exchange of \<^verbatim>\<open>protocol.rs\<close>.  The random keys, nonces, vectors and paddings are arguments.  \<open>hs_lib\<close> adds
  signatures and the RLP of headers, byte arrays and numbers to the library of the transport.
\<close>

subsection \<open>Key agreement\<close>

record ('sk, 'pk) hs_lib = "('sk, 'pk) rlpx_lib" +
  hs_sign :: "'sk \<Rightarrow> bytes \<Rightarrow> bytes option"
  hs_recover :: "bytes \<Rightarrow> bytes \<Rightarrow> 'pk option"
  hs_list :: "nat \<Rightarrow> bytes"
  hs_header :: "bytes \<Rightarrow> (nat \<times> bytes) option"
  hs_array :: "bytes \<Rightarrow> bytes"
  hs_read_array :: "nat \<Rightarrow> bytes \<Rightarrow> (bytes \<times> bytes) option"
  hs_u64 :: "u64 \<Rightarrow> bytes"
  hs_read_u64 :: "bytes \<Rightarrow> (u64 \<times> bytes) option"

datatype await_error = DisconnectedInHandshake bytes | UnexpectedMessage u8

datatype handshake_error = SigningFailed | UnexpectedEof | Ecies rlpx_error | BadAuth | BadAck | InvalidPublicKey | RecoveryFailed
  | NoCommonCapabilities | InvalidEthVersion | EthNotNegotiated | BadStatus | BadHello | AwaitFailed await_error | GenesisMismatch | ForkIdRejected fork_id_error

record auth_msg =
  am_signature :: bytes
  am_pubkey :: bytes
  am_nonce :: bytes
  am_version :: u64

record auth_ack =
  ak_pubkey :: bytes
  ak_nonce :: bytes
  ak_version :: u64

definition rlp_list :: "('sk, 'pk, 'z) hs_lib_scheme \<Rightarrow> bytes \<Rightarrow> bytes" where
  "rlp_list L payload = hs_list L (length payload) @ payload"

definition encode_auth :: "('sk, 'pk, 'z) hs_lib_scheme \<Rightarrow> auth_msg \<Rightarrow> bytes" where
  "encode_auth L m = rlp_list L (hs_array L (am_signature m) @ hs_array L (am_pubkey m) @ hs_array L (am_nonce m) @ hs_u64 L (am_version m))"

definition encode_ack :: "('sk, 'pk, 'z) hs_lib_scheme \<Rightarrow> auth_ack \<Rightarrow> bytes" where
  "encode_ack L m = rlp_list L (hs_array L (ak_pubkey m) @ hs_array L (ak_nonce m) @ hs_u64 L (ak_version m))"

text \<open>What follows the known fields inside the list, and the padding after the list, is ignored.\<close>

definition decode_auth :: "('sk, 'pk, 'z) hs_lib_scheme \<Rightarrow> bytes \<Rightarrow> auth_msg option" where
  "decode_auth L buf =
     Option.bind (hs_header L buf) (\<lambda>(n, b).
     Option.bind (hs_read_array L 65 (take n b)) (\<lambda>(sg, b1).
     Option.bind (hs_read_array L 64 b1) (\<lambda>(pk, b2).
     Option.bind (hs_read_array L 32 b2) (\<lambda>(nonce, b3).
     Option.bind (hs_read_u64 L b3) (\<lambda>(v, b4).
       Some \<lparr>am_signature = sg, am_pubkey = pk, am_nonce = nonce, am_version = v\<rparr>)))))"

definition decode_ack :: "('sk, 'pk, 'z) hs_lib_scheme \<Rightarrow> bytes \<Rightarrow> auth_ack option" where
  "decode_ack L buf =
     Option.bind (hs_header L buf) (\<lambda>(n, b).
     Option.bind (hs_read_array L 64 (take n b)) (\<lambda>(pk, b1).
     Option.bind (hs_read_array L 32 b1) (\<lambda>(nonce, b2).
     Option.bind (hs_read_u64 L b2) (\<lambda>(v, b3).
       Some \<lparr>ak_pubkey = pk, ak_nonce = nonce, ak_version = v\<rparr>))))"

abbreviation rlpx_of :: "('sk, 'pk) hs_lib \<Rightarrow> ('sk, 'pk) rlpx_lib" where
  "rlpx_of L \<equiv> rlpx_lib.truncate L"

definition b512_to_pubkey :: "('sk, 'pk) hs_lib \<Rightarrow> bytes \<Rightarrow> 'pk option" where
  "b512_to_pubkey L i = rx_from_sec1 L (0x04 # i)"

definition pubkey_to_b512 :: "('sk, 'pk) hs_lib \<Rightarrow> 'pk \<Rightarrow> bytes" where
  "pubkey_to_b512 L pk = drop 1 (rx_encode_point L pk)"

definition initiator_auth :: "('sk, 'pk) hs_lib \<Rightarrow> 'sk \<Rightarrow> 'pk \<Rightarrow> 'sk \<Rightarrow> bytes \<Rightarrow> bytes \<Rightarrow> nat \<Rightarrow> handshake_error + bytes" where
  "initiator_auth L local_sk remote_pk eph nonce iv pad =
     (let msg_to_sign = xor_bytes (rx_diffie_hellman L local_sk remote_pk) nonce in
      rbind (ok_or (hs_sign L eph msg_to_sign) SigningFailed) (\<lambda>sg.
        let m = \<lparr>am_signature = sg, am_pubkey = pubkey_to_b512 L (rx_public_key L local_sk), am_nonce = nonce, am_version = 4\<rparr>
        in Inr (ecies_encrypt (rlpx_of L) remote_pk (encode_auth L m @ replicate pad 0) eph iv)))"

definition read_packet :: "bytes \<Rightarrow> handshake_error + (bytes \<times> bytes)" where
  "read_packet incoming =
     (if length incoming < 2 \<or> length (drop 2 incoming) < read_u16 (take 2 incoming) then Inl UnexpectedEof
      else Inr (take 2 incoming, take (read_u16 (take 2 incoming)) (drop 2 incoming)))"

definition ecies_open :: "('sk, 'pk) hs_lib \<Rightarrow> 'sk \<Rightarrow> bytes \<Rightarrow> handshake_error + (bytes \<times> bytes)" where
  "ecies_open L sk incoming =
     rbind (read_packet incoming) (\<lambda>(len, packet).
       case ecies_decrypt (rlpx_of L) sk packet len of Inl e \<Rightarrow> Inl (Ecies e) | Inr d \<Rightarrow> Inr (len @ packet, d))"

definition initiator_finish ::
  "('sk, 'pk) hs_lib \<Rightarrow> 'sk \<Rightarrow> 'pk \<Rightarrow> 'sk \<Rightarrow> bytes \<Rightarrow> bytes \<Rightarrow> bytes \<Rightarrow> handshake_error + (secrets \<times> bytes)" where
  "initiator_finish L local_sk remote_pk eph nonce full_auth incoming =
     rbind (ecies_open L local_sk incoming) (\<lambda>(full_ack, ack_rlp).
     rbind (ok_or (decode_ack L ack_rlp) BadAck) (\<lambda>m.
     rbind (ok_or (b512_to_pubkey L (ak_pubkey m)) InvalidPublicKey) (\<lambda>eph_pk.
       Inr (derive_session_secrets (rlpx_of L) True nonce (ak_nonce m) (rx_diffie_hellman L eph eph_pk) full_auth full_ack,
            pubkey_to_b512 L remote_pk))))"

definition recipient_handshake ::
  "('sk, 'pk) hs_lib \<Rightarrow> 'sk \<Rightarrow> bytes \<Rightarrow> 'sk \<Rightarrow> bytes \<Rightarrow> bytes \<Rightarrow> nat \<Rightarrow> handshake_error + (bytes \<times> secrets \<times> bytes)" where
  "recipient_handshake L local_sk incoming eph nonce iv pad =
     rbind (ecies_open L local_sk incoming) (\<lambda>(full_auth, auth_rlp).
     rbind (ok_or (decode_auth L auth_rlp) BadAuth) (\<lambda>m.
     rbind (ok_or (b512_to_pubkey L (am_pubkey m)) InvalidPublicKey) (\<lambda>initiator_pk.
       let msg_to_sign = xor_bytes (rx_diffie_hellman L local_sk initiator_pk) (am_nonce m) in
     rbind (ok_or (hs_recover L (am_signature m) msg_to_sign) RecoveryFailed) (\<lambda>initiator_eph.
       let ack = \<lparr>ak_pubkey = pubkey_to_b512 L (rx_public_key L eph), ak_nonce = nonce, ak_version = 4\<rparr>;
           full_ack = ecies_encrypt (rlpx_of L) initiator_pk (encode_ack L ack @ replicate pad 0) eph iv
       in Inr (full_ack,
               derive_session_secrets (rlpx_of L) False (am_nonce m) nonce (rx_diffie_hellman L eph initiator_eph) full_auth full_ack,
               am_pubkey m)))))"

definition hs_laws :: "('sk, 'pk) hs_lib \<Rightarrow> bool" where
  "hs_laws L \<longleftrightarrow>
     ecies_laws (rlpx_of L) \<and>
     (\<forall>a. hd (rx_encode_point L (rx_public_key L a)) = 0x04) \<and>
     (\<forall>sk msg sg. hs_sign L sk msg = Some sg \<longrightarrow> length sg = 65 \<and> hs_recover L sg msg = Some (rx_public_key L sk)) \<and>
     (\<forall>n p. n \<le> length p \<longrightarrow> hs_header L (hs_list L n @ p) = Some (n, p)) \<and>
     (\<forall>b rest. hs_read_array L (length b) (hs_array L b @ rest) = Some (b, rest)) \<and>
     (\<forall>n rest. hs_read_u64 L (hs_u64 L n @ rest) = Some (n, rest))"

lemma decode_auth_encode:
  assumes "hs_laws L" "length (am_signature m) = 65" "length (am_pubkey m) = 64" "length (am_nonce m) = 32"
  shows "decode_auth L (encode_auth L m @ rest) = Some m"
proof -
  let ?p = "hs_array L (am_signature m) @ hs_array L (am_pubkey m) @ hs_array L (am_nonce m) @ hs_u64 L (am_version m)"
  have h: "hs_header L (hs_list L (length ?p) @ ?p @ rest) = Some (length ?p, ?p @ rest)"
    using assms(1) unfolding hs_laws_def by (metis length_append le_add1)
  have a: "hs_read_array L n (hs_array L b @ r) = Some (b, r)" if "length b = n" for n b r
    using assms(1) that by (auto simp: hs_laws_def)
  have u: "hs_read_u64 L (hs_u64 L (am_version m)) = Some (am_version m, [])"
    using assms(1) unfolding hs_laws_def by (metis append_Nil2)
  have "take (length ?p) (?p @ rest) = ?p" by simp
  then show ?thesis
    unfolding decode_auth_def encode_auth_def rlp_list_def append.assoc [of "hs_list L _"] h
    by (simp only: bind.bind_lunit prod.case a [OF assms(2)] a [OF assms(3)] a [OF assms(4)] u) simp
qed

lemma decode_ack_encode:
  assumes "hs_laws L" "length (ak_pubkey m) = 64" "length (ak_nonce m) = 32"
  shows "decode_ack L (encode_ack L m @ rest) = Some m"
proof -
  let ?p = "hs_array L (ak_pubkey m) @ hs_array L (ak_nonce m) @ hs_u64 L (ak_version m)"
  have h: "hs_header L (hs_list L (length ?p) @ ?p @ rest) = Some (length ?p, ?p @ rest)"
    using assms(1) unfolding hs_laws_def by (metis length_append le_add1)
  have a: "hs_read_array L n (hs_array L b @ r) = Some (b, r)" if "length b = n" for n b r
    using assms(1) that by (auto simp: hs_laws_def)
  have u: "hs_read_u64 L (hs_u64 L (ak_version m)) = Some (ak_version m, [])"
    using assms(1) unfolding hs_laws_def by (metis append_Nil2)
  have "take (length ?p) (?p @ rest) = ?p" by simp
  then show ?thesis
    unfolding decode_ack_def encode_ack_def rlp_list_def append.assoc [of "hs_list L _"] h
    by (simp only: bind.bind_lunit prod.case a [OF assms(2)] a [OF assms(3)] u) simp
qed

lemma truncate_simps [simp]:
  "rx_diffie_hellman (rlpx_of L) = rx_diffie_hellman L" "rx_public_key (rlpx_of L) = rx_public_key L"
  "rx_encode_point (rlpx_of L) = rx_encode_point L" "rx_from_sec1 (rlpx_of L) = rx_from_sec1 L"
  by (simp_all add: rlpx_lib.defs)

lemma pubkey_b512:
  assumes "hs_laws L"
  shows "b512_to_pubkey L (pubkey_to_b512 L (rx_public_key L a)) = Some (rx_public_key L a)"
    and "length (pubkey_to_b512 L (rx_public_key L a)) = 64"
proof -
  let ?e = "rx_encode_point L (rx_public_key L a)"
  have e: "length ?e = 65" "rx_from_sec1 L ?e = Some (rx_public_key L a)" "hd ?e = 0x04"
    using assms by (simp_all add: hs_laws_def ecies_laws_def)
  then have "?e = 0x04 # drop 1 ?e" by (cases ?e) auto
  then show "b512_to_pubkey L (pubkey_to_b512 L (rx_public_key L a)) = Some (rx_public_key L a)"
    using e(2) by (simp add: b512_to_pubkey_def pubkey_to_b512_def)
  show "length (pubkey_to_b512 L (rx_public_key L a)) = 64" using e(1) by (simp add: pubkey_to_b512_def)
qed

text \<open>An envelope sealed for a key is opened with it, and its bytes are those that were sent.\<close>

lemma ecies_open_sealed:
  assumes "hs_laws L" "length iv = 16" "length data + 113 < 65536"
    and pkt: "pkt = ecies_encrypt (rlpx_of L) (rx_public_key L sk) data eph iv"
  shows "ecies_open L sk pkt = Inr (pkt, data)"
proof -
  have "ecies_laws (rlpx_of L)" using assms(1) by (simp add: hs_laws_def)
  then have d: "ecies_decrypt (rlpx_of L) sk (drop 2 pkt) (take 2 pkt) = Inr data" "read_u16 (take 2 pkt) = length (drop 2 pkt)"
    using ecies_roundtrip_both [OF _ assms(2,3), of "rlpx_of L" pkt sk eph] pkt by simp_all
  moreover have "2 \<le> length pkt" by (simp add: pkt ecies_encrypt_def Let_def be_u16_bytes)
  ultimately show ?thesis by (simp add: ecies_open_def read_packet_def)
qed

text \<open>C15: when an initiator and a recipient run the key agreement with each other, whatever their keys, nonces and paddings,
  both sides succeed, each learns the identity of the other, and they derive their secrets from the same nonces, the same
  shared secret and the same two packets, so that what one side calls outgoing is incoming at the other.
\<close>

theorem key_agreement:
  assumes laws: "hs_laws L"
    and auth: "initiator_auth L ski (rx_public_key L skr) ephi ni ivi padi = Inr auth"
    and len: "length ni = 32" "length nr = 32" "length ivi = 16" "length ivr = 16"
    and fit: "length (encode_auth L m) + padi + 113 < 65536"
      "length (encode_ack L \<lparr>ak_pubkey = pubkey_to_b512 L (rx_public_key L ephr), ak_nonce = nr, ak_version = 4\<rparr>) + padr + 113 < 65536"
    and m: "m = \<lparr>am_signature = the (hs_sign L ephi (xor_bytes (rx_diffie_hellman L ski (rx_public_key L skr)) ni)),
                 am_pubkey = pubkey_to_b512 L (rx_public_key L ski), am_nonce = ni, am_version = 4\<rparr>"
  shows "\<exists>ack s. recipient_handshake L skr auth ephr nr ivr padr =
             Inr (ack, derive_session_secrets (rlpx_of L) False ni nr s auth ack, pubkey_to_b512 L (rx_public_key L ski)) \<and>
           initiator_finish L ski (rx_public_key L skr) ephi ni auth ack =
             Inr (derive_session_secrets (rlpx_of L) True ni nr s auth ack, pubkey_to_b512 L (rx_public_key L skr))"
proof -
  let ?msg = "xor_bytes (rx_diffie_hellman L ski (rx_public_key L skr)) ni"
  let ?ack = "\<lparr>ak_pubkey = pubkey_to_b512 L (rx_public_key L ephr), ak_nonce = nr, ak_version = 4\<rparr>"
  obtain sg where sg: "hs_sign L ephi ?msg = Some sg" "auth = ecies_encrypt (rlpx_of L) (rx_public_key L skr) (encode_auth L m @ replicate padi 0) ephi ivi"
    using auth m by (auto simp: initiator_auth_def rbind_def ok_or_def Let_def split: option.splits)
  have sl: "length sg = 65" "hs_recover L sg ?msg = Some (rx_public_key L ephi)"
    using laws sg(1) by (auto simp: hs_laws_def)
  have dh: "rx_diffie_hellman L a (rx_public_key L b) = rx_diffie_hellman L b (rx_public_key L a)" for a b
    using laws by (simp add: hs_laws_def ecies_laws_def)
  have open1: "ecies_open L skr auth = Inr (auth, encode_auth L m @ replicate padi 0)"
    using ecies_open_sealed [OF laws len(3) _ sg(2)] fit(1) by simp
  have dec1: "decode_auth L (encode_auth L m @ replicate padi 0) = Some m"
    using sl(1) sg(1) len(1) pubkey_b512(2) [OF laws] m by (intro decode_auth_encode [OF laws]) simp_all
  have mf: "am_signature m = sg" "am_pubkey m = pubkey_to_b512 L (rx_public_key L ski)" "am_nonce m = ni"
    using m sg(1) by simp_all
  define ack where "ack = ecies_encrypt (rlpx_of L) (rx_public_key L ski) (encode_ack L ?ack @ replicate padr 0) ephr ivr"
  define s where "s = rx_diffie_hellman L ephi (rx_public_key L ephr)"
  have rec: "recipient_handshake L skr auth ephr nr ivr padr =
      Inr (ack, derive_session_secrets (rlpx_of L) False ni nr s auth ack, pubkey_to_b512 L (rx_public_key L ski))"
    using sl(2)
    by (simp add: recipient_handshake_def open1 dec1 mf ok_or_def pubkey_b512(1) [OF laws] dh [of skr ski] dh [of ephr ephi]
        Let_def ack_def s_def)
  have open2: "ecies_open L ski ack = Inr (ack, encode_ack L ?ack @ replicate padr 0)"
    using ecies_open_sealed [OF laws len(4) _ ack_def] fit(2) by simp
  have dec2: "decode_ack L (encode_ack L ?ack @ replicate padr 0) = Some ?ack"
    using len(2) pubkey_b512(2) [OF laws] by (intro decode_ack_encode [OF laws]) simp_all
  have "initiator_finish L ski (rx_public_key L skr) ephi ni auth ack =
      Inr (derive_session_secrets (rlpx_of L) True ni nr s auth ack, pubkey_to_b512 L (rx_public_key L skr))"
    by (simp add: initiator_finish_def open2 dec2 ok_or_def pubkey_b512(1) [OF laws] s_def)
  with rec show ?thesis by blast
qed

subsection \<open>Negotiation of capabilities\<close>

text \<open>
  \<open>do_p2p_handshake\<close> compares every local with every remote capability.  The map \<open>shared_capabilities_map\<close> and the ordered
  set \<open>shared_capability_names\<close> are kept as a map and a sorted list without duplicates.
\<close>

type_synonym capability = "string \<times> u64"
type_synonym negotiation = "(string \<rightharpoonup> u64) \<times> string list"

definition cap_step :: "capability \<times> capability \<Rightarrow> negotiation \<Rightarrow> negotiation" where
  "cap_step = (\<lambda>((ln, lv), (rn, rv)) (m, names).
     if ln = rn then
       (let entry = unwrap_or (m ln) 0 in
        if rv \<le> lv \<and> entry < rv then (m(ln \<mapsto> rv), insort_insert ln names)
        else if lv < rv \<and> entry < lv then (m(ln \<mapsto> lv), insort_insert ln names)
        else (m(ln \<mapsto> entry), names))
     else (m, names))"

definition negotiate :: "capability list \<Rightarrow> capability list \<Rightarrow> negotiation" where
  "negotiate locals remotes = fold cap_step (List.product locals remotes) (Map.empty, [])"

fun assign_offsets :: "(string \<rightharpoonup> u64) \<Rightarrow> u8 \<Rightarrow> string list \<Rightarrow> shared_capability list \<Rightarrow> handshake_error + shared_capability list" where
  "assign_offsets m off [] caps = Inr caps"
| "assign_offsets m off (name # names) caps =
     (let version = ucast (the (m name)) :: u8;
          caps' = caps @ [\<lparr>sc_name = name, sc_version = version, sc_offset = off\<rparr>] in
      rbind (if name = ''eth''
             then (case version_try_from version of Inl _ \<Rightarrow> Inl InvalidEthVersion | Inr ev \<Rightarrow> Inr (off + message_count ev))
             else if name = ''snap'' then Inr (off + 8) else Inr (off + 16))
        (\<lambda>off'. assign_offsets m off' names caps'))"

definition negotiate_capabilities :: "capability list \<Rightarrow> capability list \<Rightarrow> handshake_error + shared_capability list" where
  "negotiate_capabilities locals remotes =
     (case negotiate locals remotes of (m, names) \<Rightarrow>
        if names = [] then Inl NoCommonCapabilities else assign_offsets m 16 names [])"

definition local_capabilities :: "capability list" where
  "local_capabilities =
     [(''eth'', 64), (''eth'', 65), (''eth'', 66), (''eth'', 67), (''eth'', 68), (''eth'', 69), (''eth'', 70), (''eth'', 71),
      (''eth'', 72), (''snap'', 1)]"

text \<open>A comparison raises the entry of a name to the lower of the two versions, when it is higher.\<close>

lemma cap_step_eq:
  "cap_step ((ln, lv), (rn, rv)) (m, names) =
     (if ln = rn
      then (m(ln \<mapsto> max (unwrap_or (m ln) 0) (min lv rv)),
            if unwrap_or (m ln) 0 < min lv rv then insort_insert ln names else names)
      else (m, names))"
proof -
  define e where "e = unwrap_or (m ln) 0"
  consider "rv \<le> lv" "e < rv" | "rv \<le> lv" "\<not> e < rv" | "lv < rv" "e < lv" | "lv < rv" "\<not> e < lv" by fastforce
  then show ?thesis
    by cases (simp_all add: cap_step_def Let_def e_def [symmetric] max_def min_def not_less, auto)
qed

lemma cap_step_entry:
  "unwrap_or (fst (cap_step ((ln, lv), (rn, rv)) (m, names)) name) 0 =
     (if ln = name \<and> rn = name then max (unwrap_or (m name) 0) (min lv rv) else unwrap_or (m name) 0)"
  by (auto simp: cap_step_eq unwrap_or_def)

lemma negotiate_entry: "unwrap_or (fst (fold cap_step ps (m, names)) name) 0 =
   fold (\<lambda>p e. if fst (fst p) = name \<and> fst (snd p) = name then max e (min (snd (fst p)) (snd (snd p))) else e) ps (unwrap_or (m name) 0)"
proof (induction ps arbitrary: m names)
  case (Cons p ps)
  obtain ln lv rn rv where p: "p = ((ln, lv), (rn, rv))" by (metis surj_pair)
  obtain m' names' where s: "cap_step p (m, names) = (m', names')" by fastforce
  then have "unwrap_or (m' name) 0 = (if ln = name \<and> rn = name then max (unwrap_or (m name) 0) (min lv rv) else unwrap_or (m name) 0)"
    using cap_step_entry [of ln lv rn rv m names name] p by simp
  then show ?case using Cons.IH [of m' names'] s p by simp
qed simp

definition names_ok :: "negotiation \<Rightarrow> bool" where
  "names_ok s \<longleftrightarrow> sorted (snd s) \<and> distinct (snd s) \<and> (\<forall>n. n \<in> set (snd s) \<longleftrightarrow> 0 < unwrap_or (fst s n) 0)"

lemma names_ok_step:
  assumes "names_ok s"
  shows "names_ok (cap_step p s)"
proof -
  obtain ln lv rn rv m names where ps: "p = ((ln, lv), (rn, rv))" "s = (m, names)" by (metis surj_pair)
  define e where "e = unwrap_or (m ln) 0"
  have ok: "sorted names" "distinct names" "n \<in> set names \<longleftrightarrow> 0 < unwrap_or (m n) 0" for n
    using assms ps by (auto simp: names_ok_def)
  have look: "unwrap_or ((m(ln \<mapsto> v)) n) 0 = (if n = ln then v else unwrap_or (m n) 0)" for v n by (simp add: unwrap_or_def)
  have step: "cap_step p s = (if ln = rn then (m(ln \<mapsto> max e (min lv rv)), if e < min lv rv then insort_insert ln names else names) else (m, names))"
    by (simp add: ps cap_step_eq e_def)
  show ?thesis
  proof (cases "ln = rn \<and> e < min lv rv")
    case True
    moreover have "0 < max e (min lv rv)" using True word_gt_0 by fastforce
    ultimately show ?thesis
      using ok by (simp add: step names_ok_def sorted_insort_insert distinct_insort_insert set_insort_insert look)
  next
    case False
    then have "ln = rn \<Longrightarrow> max e (min lv rv) = e" by (metis max.absorb1 not_less)
    then show ?thesis using False ok by (auto simp: step names_ok_def look e_def)
  qed
qed

lemma names_ok_negotiate: "names_ok (negotiate ls rs)"
proof -
  have "names_ok s \<Longrightarrow> names_ok (fold cap_step ps s)" for ps s
    by (induction ps arbitrary: s) (simp_all add: names_ok_step)
  then show ?thesis unfolding negotiate_def by (simp add: names_ok_def unwrap_or_def)
qed

text \<open>The versions of a name that a list of capabilities offers.\<close>

definition offered :: "string \<Rightarrow> capability list \<Rightarrow> u64 set" where
  "offered name cs = {v. (name, v) \<in> set cs}"

lemma finite_offered: "finite (offered name cs)"
  by (rule finite_subset [of _ "snd ` set cs"]) (force simp: offered_def)+

lemma Max_insert_max: "finite M \<Longrightarrow> Max (insert (max a b) M) = Max (insert a (insert b M))"
  by (cases "M = {}") (simp_all add: max.assoc)

lemma fold_max_image:
  fixes q :: "'p \<Rightarrow> 'v :: linorder"
  shows "fold (\<lambda>p e. if P p then max e (q p) else e) ps e = Max (insert e (q ` {p \<in> set ps. P p}))"
proof (induction ps arbitrary: e)
  case (Cons p ps)
  have fin: "finite (q ` {p \<in> set ps. P p})" by simp
  show ?case
  proof (cases "P p")
    case True
    then have "{p' \<in> set (p # ps). P p'} = insert p {p' \<in> set ps. P p'}" by auto
    then show ?thesis
      using True Cons.IH [of "max e (q p)"] Max_insert_max [OF fin] by (simp only: fold_simps if_True image_insert)
  next
    case False
    then have "{p' \<in> set (p # ps). P p'} = {p' \<in> set ps. P p'}" by auto
    then show ?thesis using False Cons.IH by simp
  qed
qed simp

lemma negotiated_entry:
  "unwrap_or (fst (negotiate ls rs) name) 0 = Max (insert 0 {min lv rv | lv rv. lv \<in> offered name ls \<and> rv \<in> offered name rs})"
proof -
  let ?P = "\<lambda>p :: capability \<times> capability. fst (fst p) = name \<and> fst (snd p) = name"
  let ?q = "\<lambda>p :: capability \<times> capability. min (snd (fst p)) (snd (snd p))"
  have "unwrap_or (fst (negotiate ls rs) name) 0 = fold (\<lambda>p e. if ?P p then max e (?q p) else e) (List.product ls rs) 0"
    using negotiate_entry [of "List.product ls rs" Map.empty "[]" name]
    by (simp add: negotiate_def)
  also have "\<dots> = Max (insert 0 (?q ` {p \<in> set (List.product ls rs). ?P p}))" by (rule fold_max_image)
  also have "?q ` {p \<in> set (List.product ls rs). ?P p} = {min lv rv | lv rv. lv \<in> offered name ls \<and> rv \<in> offered name rs}"
    by (force simp: offered_def image_iff)
  finally show ?thesis .
qed

lemma negotiated_min_max:
  assumes "offered name ls \<noteq> {}" "offered name rs \<noteq> {}"
  shows "unwrap_or (fst (negotiate ls rs) name) 0 = min (Max (offered name ls)) (Max (offered name rs))"
  unfolding negotiated_entry
proof (rule Max_eqI)
  let ?S = "{min lv rv | lv rv. lv \<in> offered name ls \<and> rv \<in> offered name rs}"
  have "?S \<subseteq> (\<lambda>(a, b). min a b) ` (offered name ls \<times> offered name rs)" by auto
  then show "finite (insert 0 ?S)" by (meson finite_SigmaI finite_imageI finite_insert finite_offered finite_subset)
  show "y \<le> min (Max (offered name ls)) (Max (offered name rs))" if inS: "y \<in> insert 0 ?S" for y
  proof (cases "y = 0")
    case False
    then obtain a b where y: "y = min a b" "a \<in> offered name ls" "b \<in> offered name rs" using inS by auto
    then have "a \<le> Max (offered name ls)" "b \<le> Max (offered name rs)" by (simp_all add: finite_offered)
    then show ?thesis unfolding y(1) by (rule min.mono)
  qed simp
  show "min (Max (offered name ls)) (Max (offered name rs)) \<in> insert 0 ?S"
    using Max_in [OF finite_offered assms(1)] Max_in [OF finite_offered assms(2)] by blast
qed

lemma negotiated_swap: "unwrap_or (fst (negotiate rs ls) name) 0 = unwrap_or (fst (negotiate ls rs) name) 0"
  unfolding negotiated_entry by (rule arg_cong [where f = "\<lambda>S. Max (insert 0 S)"]) (metis (lifting) min.commute)

lemma rbind_cong: "r = r' \<Longrightarrow> (\<And>x. r' = Inr x \<Longrightarrow> f x = g x) \<Longrightarrow> rbind r f = rbind r' g"
  by (cases r') simp_all

lemma assign_offsets_cong:
  "(\<And>n. n \<in> set names \<Longrightarrow> the (m n) = the (m' n)) \<Longrightarrow> assign_offsets m off names caps = assign_offsets m' off names caps"
  by (induction m off names caps rule: assign_offsets.induct) (simp_all add: Let_def cong: rbind_cong)

text \<open>C31: both ends of a connection come to the same capabilities with the same versions and message offsets, or both fail in
  the same way, whatever each of them offers.
\<close>

theorem negotiation_symmetric: "negotiate_capabilities ls rs = negotiate_capabilities rs ls"
proof -
  obtain m names m' names' where n: "negotiate ls rs = (m, names)" "negotiate rs ls = (m', names')" by fastforce
  have e: "unwrap_or (m' name) 0 = unwrap_or (m name) 0" for name using negotiated_swap [of rs ls name] n by simp
  have ok: "names_ok (m, names)" "names_ok (m', names')" using names_ok_negotiate n by metis+
  then have mem: "k \<in> set names \<longleftrightarrow> 0 < unwrap_or (m k) 0" "k \<in> set names' \<longleftrightarrow> 0 < unwrap_or (m' k) 0" for k
    by (simp_all add: names_ok_def)
  then have "set names = set names'" using e by (simp add: set_eq_iff)
  moreover have "sorted names" "sorted names'" "distinct names" "distinct names'" using ok by (simp_all add: names_ok_def)
  ultimately have "names = names'" by (simp add: sorted_distinct_set_unique)
  moreover have "the (m k) = the (m' k)" if "k \<in> set names" for k
    using mem(1) [of k] e [of k] that by (cases "m k"; cases "m' k") (simp_all add: unwrap_or_def)
  ultimately show ?thesis using assign_offsets_cong [of names m m'] n by (simp add: negotiate_capabilities_def)
qed

text \<open>The version taken is the lower of the two highest ones.\<close>

theorem negotiated_version:
  assumes "offered name ls \<noteq> {}" "offered name rs \<noteq> {}" "0 < Max (offered name ls)" "0 < Max (offered name rs)"
  shows "fst (negotiate ls rs) name = Some (min (Max (offered name ls)) (Max (offered name rs)))"
proof -
  have "min (Max (offered name ls)) (Max (offered name rs)) \<noteq> 0" using assms(3,4) by (auto simp: min_def)
  then show ?thesis using negotiated_min_max [OF assms(1,2)] by (cases "fst (negotiate ls rs) name") simp_all
qed

text \<open>
  A peer that offers a version beyond those known here gets a version of its own protocol that it may never have offered:
  here eth/72 is taken with a peer that offers eth/68 and eth/73 only, and both sides shared eth/68.
\<close>

theorem negotiated_version_not_offered:
  "fst (negotiate local_capabilities [(''eth'', 68), (''eth'', 73)]) ''eth'' = Some 72 \<and> 72 \<notin> offered ''eth'' [(''eth'', 68), (''eth'', 73)]"
  by (simp add: negotiate_def local_capabilities_def cap_step_def offered_def)

subsection \<open>Waiting for a message of the handshake\<close>

text \<open>
  The loops of \<open>do_p2p_handshake\<close> (\<open>want = 0\<close>, Hello) and \<open>do_eth_handshake\<close> (\<open>want\<close> the offset, Status): pings are
  answered, messages of the subprotocols are kept for later.  \<open>None\<close> is a loop that still waits.
\<close>

record await_result =
  aw_result :: "(await_error + bytes) option"
  aw_temp :: "(u8 \<times> bytes) list"
  aw_rest :: "(u8 \<times> bytes) list"
  aw_pongs :: nat

fun await :: "u8 \<Rightarrow> (u8 \<times> bytes) list \<Rightarrow> (u8 \<times> bytes) list \<Rightarrow> nat \<Rightarrow> await_result" where
  "await want [] temp pongs = \<lparr>aw_result = None, aw_temp = temp, aw_rest = [], aw_pongs = pongs\<rparr>"
| "await want ((i, p) # msgs) temp pongs =
     (if i = want then \<lparr>aw_result = Some (Inr p), aw_temp = temp, aw_rest = msgs, aw_pongs = pongs\<rparr>
      else if i = 0x01 then \<lparr>aw_result = Some (Inl (DisconnectedInHandshake p)), aw_temp = temp, aw_rest = msgs, aw_pongs = pongs\<rparr>
      else if i = 0x02 then await want msgs temp (Suc pongs)
      else if i = 0x03 then await want msgs temp pongs
      else if 0x10 \<le> i then await want msgs (temp @ [(i, p)]) pongs
      else \<lparr>aw_result = Some (Inl (UnexpectedMessage i)), aw_temp = temp, aw_rest = msgs, aw_pongs = pongs\<rparr>)"

text \<open>The kept messages are put back in front: what \<open>read_message\<close> gives after the handshake.\<close>

definition messages_after :: "await_result \<Rightarrow> (u8 \<times> bytes) list" where
  "messages_after r = aw_temp r @ aw_rest r"

definition subprotocol :: "(u8 \<times> bytes) list \<Rightarrow> (u8 \<times> bytes) list" where
  "subprotocol = filter (\<lambda>m. 0x10 \<le> fst m)"

lemma await_keeps:
  assumes "aw_result (await want msgs temp pongs) = Some (Inr p)" "subprotocol temp = temp"
  shows "\<exists>before after. msgs = before @ (want, p) # after \<and> want \<notin> fst ` set before \<and>
           messages_after (await want msgs temp pongs) = temp @ subprotocol before @ after \<and>
           aw_pongs (await want msgs temp pongs) = pongs + length (filter (\<lambda>m. fst m = 0x02) before)"
  using assms
proof (induction msgs arbitrary: temp pongs)
  case (Cons m msgs)
  obtain i q where m: "m = (i, q)" by (cases m)
  show ?case
  proof (cases "i = want")
    case True
    then show ?thesis
      using Cons.prems m by (intro exI [of _ "[]"] exI [of _ msgs]) (simp add: messages_after_def subprotocol_def)
  next
    case False
    define temp' where "temp' = (if 0x10 \<le> i then temp @ [(i, q)] else temp)"
    define pongs' where "pongs' = (if i = 0x02 then Suc pongs else pongs)"
    have step: "await want (m # msgs) temp pongs = await want msgs temp' pongs'"
      using False Cons.prems(1) m by (auto simp: temp'_def pongs'_def split: if_splits)
    have "subprotocol temp' = temp'" using Cons.prems(2) by (simp add: temp'_def subprotocol_def)
    then obtain before after where b: "msgs = before @ (want, p) # after" "want \<notin> fst ` set before"
      "messages_after (await want msgs temp' pongs') = temp' @ subprotocol before @ after"
      "aw_pongs (await want msgs temp' pongs') = pongs' + length (filter (\<lambda>m. fst m = 0x02) before)"
      using Cons.IH [of temp' pongs'] Cons.prems(1) unfolding step by blast
    show ?thesis
      unfolding step b(3,4)
      by (intro exI [of _ "m # before"] exI [of _ after]) (use False b(1,2) m in \<open>auto simp: subprotocol_def temp'_def pongs'_def\<close>)
  qed
qed simp

text \<open>C32: a handshake that ends with the awaited message has answered every ping before it and lost nothing: the messages
  of the subprotocols that came before it and all that came after it are read next, in the order they arrived.\<close>

theorem handshake_keeps_messages:
  assumes "aw_result (await want msgs [] 0) = Some (Inr p)"
  shows "\<exists>before after. msgs = before @ (want, p) # after \<and> want \<notin> fst ` set before \<and>
           messages_after (await want msgs [] 0) = subprotocol before @ after \<and>
           aw_pongs (await want msgs [] 0) = length (filter (\<lambda>m. fst m = 0x02) before)"
  using await_keeps [OF assms] by (simp add: subprotocol_def)

theorem handshake_keeps_messages_witness:
  "aw_result (await 0x00 [(0x02, []), (0x15, [7]), (0x00, [1]), (0x12, [])] [] 0) = Some (Inr [1]) \<and>
   (\<exists>before after. [(0x02, []), (0x15, [7]), (0x00, [1]), (0x12, [])] = before @ (0x00, [1]) # after \<and> 0x00 \<notin> fst ` set before \<and>
      messages_after (await 0x00 [(0x02, []), (0x15, [7]), (0x00, [1]), (0x12, [])] [] 0) = subprotocol before @ after \<and>
      aw_pongs (await 0x00 [(0x02, []), (0x15, [7]), (0x00, [1]), (0x12, [])] [] 0) = length (filter (\<lambda>m. fst m = 0x02) before))"
proof -
  have e: "aw_result (await 0x00 [(0x02, []), (0x15, [7]), (0x00, [1]), (0x12, [])] [] 0) = Some (Inr [1])" by simp
  show ?thesis by (rule conjI [OF e handshake_keeps_messages [OF e]])
qed

subsection \<open>The status exchange\<close>

record status =
  su_version :: eth_version
  su_chain :: u64
  su_total_difficulty :: u256
  su_blockhash :: b256
  su_genesis :: b256
  su_forkid :: fork_id

record status_eth69 =
  s9_version :: eth_version
  s9_chain :: u64
  s9_genesis :: b256
  s9_forkid :: fork_id
  s9_earliest :: u64
  s9_latest :: u64
  s9_blockhash :: b256

datatype status_message = LegacyStatus status | Eth69Status status_eth69

text \<open>What the status exchange uses of the registry: the database, the head of the chain manager and the configuration.\<close>

record node_view =
  nv_genesis_hash :: b256
  nv_network_id :: u64
  nv_config :: fork_config
  nv_db :: db
  nv_head :: "b256 \<times> u64"

definition header_time :: "node_view \<Rightarrow> b256 \<Rightarrow> u64" where
  "header_time nv h = (case ok_flat (header (IdHash h) (nv_db nv)) of None \<Rightarrow> 0 | Some hdr \<Rightarrow> h_timestamp hdr)"

definition get_fork_id :: "(bytes \<Rightarrow> u32) \<Rightarrow> node_view \<Rightarrow> fork_id" where
  "get_fork_id crc nv =
     fork_id_new crc (nv_genesis_hash nv) (nv_config nv) (snd (nv_head nv)) (header_time nv (fst (nv_head nv)))
       (header_time nv (nv_genesis_hash nv))"

definition negotiated_eth :: "shared_capability list \<Rightarrow> eth_version" where
  "negotiated_eth caps =
     (case version_try_from (case List.find (\<lambda>c. sc_name c = ''eth'') caps of None \<Rightarrow> 68 | Some c \<Rightarrow> sc_version c) of
        Inl _ \<Rightarrow> Eth68 | Inr v \<Rightarrow> v)"

definition create_local_status :: "(bytes \<Rightarrow> u32) \<Rightarrow> node_view \<Rightarrow> shared_capability list \<Rightarrow> status_message" where
  "create_local_status crc nv caps =
     (let version = negotiated_eth caps; head_hash = fst (nv_head nv) in
      if is_eth69_or_newer version
      then Eth69Status \<lparr>s9_version = version, s9_chain = nv_network_id nv, s9_genesis = nv_genesis_hash nv,
             s9_forkid = get_fork_id crc nv,
             s9_earliest = (case ok_flat (header (IdNumber Earliest) (nv_db nv)) of None \<Rightarrow> 0 | Some hdr \<Rightarrow> h_number hdr),
             s9_latest = snd (nv_head nv), s9_blockhash = head_hash\<rparr>
      else LegacyStatus \<lparr>su_version = version, su_chain = nv_network_id nv,
             su_total_difficulty = unwrap_or (ok_flat (header_td head_hash (nv_db nv))) 0, su_blockhash = head_hash,
             su_genesis = nv_genesis_hash nv, su_forkid = get_fork_id crc nv\<rparr>)"

text \<open>Since eth/69 the status has another shape; the legacy one is still tried.\<close>

definition decode_status ::
  "(bytes \<Rightarrow> status option) \<Rightarrow> (bytes \<Rightarrow> status_eth69 option) \<Rightarrow> eth_version \<Rightarrow> bytes \<Rightarrow> handshake_error + status_message" where
  "decode_status dec dec69 version payload =
     (let legacy = (case dec payload of None \<Rightarrow> Inl BadStatus | Some s \<Rightarrow> Inr (LegacyStatus s)) in
      if is_eth69_or_newer version then (case dec69 payload of Some s \<Rightarrow> Inr (Eth69Status s) | None \<Rightarrow> legacy) else legacy)"

fun status_forkid :: "status_message \<Rightarrow> fork_id" where
  "status_forkid (LegacyStatus s) = su_forkid s"
| "status_forkid (Eth69Status s) = s9_forkid s"

fun status_genesis :: "status_message \<Rightarrow> b256" where
  "status_genesis (LegacyStatus s) = su_genesis s"
| "status_genesis (Eth69Status s) = s9_genesis s"

definition check_status :: "(bytes \<Rightarrow> u32) \<Rightarrow> node_view \<Rightarrow> status_message \<Rightarrow> handshake_error + status_message" where
  "check_status crc nv s =
     (if status_genesis s \<noteq> nv_genesis_hash nv then Inl GenesisMismatch
      else case fork_id_validate crc (status_forkid s) (nv_genesis_hash nv) (nv_config nv) (snd (nv_head nv))
             (header_time nv (fst (nv_head nv))) (header_time nv (nv_genesis_hash nv)) of
          Inl e \<Rightarrow> Inl (ForkIdRejected e)
        | Inr _ \<Rightarrow> Inr s)"

text \<open>\<open>do_p2p_handshake\<close> after its own Hello was sent; of a Hello the capabilities and the node id are used.\<close>

definition p2p_handshake ::
  "(bytes \<Rightarrow> (capability list \<times> bytes) option) \<Rightarrow> capability list \<Rightarrow> (u8 \<times> bytes) list \<Rightarrow>
   (handshake_error + bytes \<times> shared_capability list) option" where
  "p2p_handshake dec locals msgs =
     (case aw_result (await 0 msgs [] 0) of
        None \<Rightarrow> None
      | Some (Inl e) \<Rightarrow> Some (Inl (AwaitFailed e))
      | Some (Inr payload) \<Rightarrow>
          Some (case dec payload of None \<Rightarrow> Inl BadHello
                | Some (remotes, i) \<Rightarrow> rbind (negotiate_capabilities locals remotes) (\<lambda>caps. Inr (i, caps))))"

text \<open>\<open>do_eth_handshake\<close> after its own status was sent: \<open>None\<close> while it waits.\<close>

definition eth_handshake ::
  "(bytes \<Rightarrow> u32) \<Rightarrow> (bytes \<Rightarrow> status option) \<Rightarrow> (bytes \<Rightarrow> status_eth69 option) \<Rightarrow> node_view \<Rightarrow> shared_capability list \<Rightarrow>
   (u8 \<times> bytes) list \<Rightarrow> (handshake_error + status_message) option" where
  "eth_handshake crc dec dec69 nv caps msgs =
     (case List.find (\<lambda>c. sc_name c = ''eth'') caps of
        None \<Rightarrow> Some (Inl EthNotNegotiated)
      | Some cap \<Rightarrow>
         (case aw_result (await (sc_offset cap) msgs [] 0) of
            None \<Rightarrow> None
          | Some (Inl e) \<Rightarrow> Some (Inl (AwaitFailed e))
          | Some (Inr payload) \<Rightarrow>
              Some (case version_try_from (sc_version cap) of
                      Inl _ \<Rightarrow> Inl InvalidEthVersion
                    | Inr v \<Rightarrow> rbind (decode_status dec dec69 v payload) (check_status crc nv))))"

definition on_network :: "node_view \<Rightarrow> bool" where
  "on_network nv =
     head_on_schedule (nv_config nv) (header_time nv (nv_genesis_hash nv)) (snd (nv_head nv)) (header_time nv (fst (nv_head nv)))"

lemma status_of_local: "status_genesis (create_local_status crc nv caps) = nv_genesis_hash nv"
  "status_forkid (create_local_status crc nv caps) = get_fork_id crc nv"
  by (simp_all add: create_local_status_def Let_def)

text \<open>C16: two nodes with the same genesis block and the same fork schedule accept each other's status, whatever their heads
  and whichever version of the protocol they negotiated.\<close>

theorem honest_status_accepted:
  assumes "nv_genesis_hash b = nv_genesis_hash a" "nv_config b = nv_config a"
    and "header_time b (nv_genesis_hash a) = header_time a (nv_genesis_hash a)"
    and "ordered_schedule (nv_config a)" "on_network a" "on_network b"
    and "distinct (map fst (local_hashes crc (nv_genesis_hash a) (nv_config a) (header_time a (nv_genesis_hash a))))"
  shows "check_status crc b (create_local_status crc a caps) = Inr (create_local_status crc a caps)"
  using same_schedule_accepts [OF assms(4), of "header_time a (nv_genesis_hash a)" "snd (nv_head b)" "header_time b (fst (nv_head b))"
      "snd (nv_head a)" "header_time a (fst (nv_head a))" crc "nv_genesis_hash a"] assms
  by (simp add: check_status_def status_of_local get_fork_id_def on_network_def)

text \<open>The network id of a status is not compared: a peer of another network with the same genesis and forks is accepted.\<close>

theorem network_id_unchecked:
  "check_status crc nv (LegacyStatus (s\<lparr>su_chain := c\<rparr>)) = Inr (LegacyStatus (s\<lparr>su_chain := c\<rparr>)) \<longleftrightarrow>
   check_status crc nv (LegacyStatus s) = Inr (LegacyStatus s)"
  by (auto simp: check_status_def split: sum.splits)

definition sample_view :: "u64 \<Rightarrow> u64 \<Rightarrow> node_view" where
  "sample_view n t =
     \<lparr>nv_genesis_hash = 1, nv_network_id = 5, nv_config = sample_forks,
      nv_db = empty_db\<lparr>t_headers := tbl_insert 1 (devnet_header 0 10 0 0 0) (tbl_insert 2 (devnet_header n t 0 0 0) tbl_empty)\<rparr>,
      nv_head = (2, n)\<rparr>"

lemma sample_view_times: "header_time (sample_view n t) 1 = 10" "header_time (sample_view n t) 2 = t"
  by (simp_all add: header_time_def sample_view_def header_def read_tbl_def empty_db_def ok_flat_def tbl_get_insert devnet_header_def)

theorem honest_status_accepted_witness:
  "check_status length_sum (sample_view 3 50) (create_local_status length_sum (sample_view 9 150) sample_caps) =
     Inr (create_local_status length_sum (sample_view 9 150) sample_caps)"
proof (rule honest_status_accepted)
  have v: "nv_genesis_hash (sample_view n t) = 1" "nv_config (sample_view n t) = sample_forks" "nv_head (sample_view n t) = (2, n)" for n t
    by (simp_all add: sample_view_def)
  show "nv_genesis_hash (sample_view 3 50) = nv_genesis_hash (sample_view 9 150)"
    "nv_config (sample_view 3 50) = nv_config (sample_view 9 150)"
    "header_time (sample_view 3 50) (nv_genesis_hash (sample_view 9 150)) = header_time (sample_view 9 150) (nv_genesis_hash (sample_view 9 150))"
    by (simp_all add: v sample_view_times)
  show "ordered_schedule (nv_config (sample_view 9 150))" "on_network (sample_view 9 150)" "on_network (sample_view 3 50)"
    "distinct (map fst (local_hashes length_sum (nv_genesis_hash (sample_view 9 150)) (nv_config (sample_view 9 150))
       (header_time (sample_view 9 150) (nv_genesis_hash (sample_view 9 150)))))"
    using sample_hyps(1-3) sample_hyps(4) [of 1] by (simp_all add: v sample_view_times on_network_def)
qed

definition unary_count :: "bytes \<Rightarrow> nat" where
  "unary_count b = length (takeWhile (\<lambda>x. x = 1) b)"

definition sample_hs :: "(nat, nat) hs_lib" where
  "sample_hs = rlpx_lib.extend sample_lib
     (hs_lib.fields (\<lambda>sk msg. Some (replicate 65 (of_nat (sk mod 65)))) (\<lambda>sg msg. Some (unat (hd sg)))
        (\<lambda>n. replicate n 1 @ [0]) (\<lambda>b. Some (unary_count b, drop (Suc (unary_count b)) b))
        (\<lambda>b. b) (\<lambda>n b. Some (take n b, drop n b))
        (\<lambda>n. replicate (unat n) 1 @ [0]) (\<lambda>b. Some (of_nat (unary_count b), drop (Suc (unary_count b)) b)))"

lemma sample_hs_fields:
  "rlpx_of sample_hs = sample_lib" "rx_public_key sample_hs a = a mod 65" "rx_encode_point sample_hs = rx_encode_point sample_lib"
  "hs_sign sample_hs = (\<lambda>sk msg. Some (replicate 65 (of_nat (sk mod 65))))" "hs_recover sample_hs = (\<lambda>sg msg. Some (unat (hd sg)))"
  "hs_list sample_hs n = replicate n 1 @ [0]" "hs_header sample_hs b = Some (unary_count b, drop (Suc (unary_count b)) b)"
  "hs_array sample_hs b = b" "hs_read_array sample_hs n b = Some (take n b, drop n b)"
  "hs_u64 sample_hs k = replicate (unat k) 1 @ [0]"
  "hs_read_u64 sample_hs b = Some (of_nat (unary_count b), drop (Suc (unary_count b)) b)"
  by (simp_all add: sample_hs_def rlpx_lib.defs hs_lib.defs sample_lib_def)

lemma unary_count_replicate: "unary_count (replicate n 1 @ 0 # r) = n"
  by (simp add: unary_count_def takeWhile_unary)

lemma sample_hs_laws: "hs_laws sample_hs"
proof -
  have "a mod 65 < 256" for a :: nat by (rule less_le_trans [of _ 65]) simp_all
  then have "unat (of_nat (a mod 65) :: u8) = a mod 65" for a by (simp add: unat_of_nat)
  then show ?thesis
    by (simp add: hs_laws_def sample_hs_fields sample_ecies_laws unary_count_replicate)
       (simp add: sample_lib_def)
qed

theorem key_agreement_witness:
  "\<exists>auth ack s. initiator_auth sample_hs 3 (rx_public_key sample_hs 9) 11 (replicate 32 1) (replicate 16 5) 100 = Inr auth \<and>
     recipient_handshake sample_hs 9 auth 20 (replicate 32 2) (replicate 16 6) 100 =
       Inr (ack, derive_session_secrets (rlpx_of sample_hs) False (replicate 32 1) (replicate 32 2) s auth ack,
            pubkey_to_b512 sample_hs (rx_public_key sample_hs 3)) \<and>
     initiator_finish sample_hs 3 (rx_public_key sample_hs 9) 11 (replicate 32 1) auth ack =
       Inr (derive_session_secrets (rlpx_of sample_hs) True (replicate 32 1) (replicate 32 2) s auth ack,
            pubkey_to_b512 sample_hs (rx_public_key sample_hs 9))"
proof -
  obtain auth where auth: "initiator_auth sample_hs 3 (rx_public_key sample_hs 9) 11 (replicate 32 1) (replicate 16 5) 100 = Inr auth"
    by (auto simp: initiator_auth_def ok_or_def Let_def sample_hs_fields)
  have l: "length (pubkey_to_b512 sample_hs (rx_public_key sample_hs a)) = 64" for a by (rule pubkey_b512(2) [OF sample_hs_laws])
  have fit: "length (encode_auth sample_hs \<lparr>am_signature = the (hs_sign sample_hs 11 x),
      am_pubkey = pubkey_to_b512 sample_hs (rx_public_key sample_hs 3), am_nonce = replicate 32 1, am_version = 4\<rparr>) + 100 + 113 < 65536"
    "length (encode_ack sample_hs \<lparr>ak_pubkey = pubkey_to_b512 sample_hs (rx_public_key sample_hs 20), ak_nonce = replicate 32 2,
      ak_version = 4\<rparr>) + 100 + 113 < 65536" for x
    using l [of 3] l [of 20] by (simp_all add: encode_auth_def encode_ack_def rlp_list_def sample_hs_fields)
  show ?thesis
    using key_agreement [OF sample_hs_laws auth _ _ _ _ fit(1) fit(2) refl] auth by simp
qed

end
