(* ===== verification/Session.thy ===== *)
theory Session
  imports Handshake
begin

section \<open>Peer sessions\<close>

text \<open>
  \<^verbatim>\<open>wasix_eth_p2p/src/rlpx/session\<close> (\<^verbatim>\<open>mod.rs\<close>, \<^verbatim>\<open>task.rs\<close>, \<^verbatim>\<open>types.rs\<close>): the task of a session moves requests of the node to
  the stream, matches answers with the requests that wait for them, and passes the messages of the peer on.  The RLP of
  the messages is a parameter: \<open>sl_encode\<close> of a message, and \<open>sl_decode\<close> of the message of an id, with or without the
  envelope that carries a request id.  A waiting request is known by a number, the \<open>oneshot\<close> sender of the source.
\<close>

subsection \<open>Messages\<close>

datatype eth_message =
    GetHeaders get_block_headers
  | GetBodies "b256 list"
  | GetPooled "b256 list"
  | GetReceipts "b256 list"
  | GetNodes "b256 list"
  | Headers "EthTypes.header list"
  | Bodies "body list"
  | Pooled "bytes list"
  | ReceiptLists "receipt list list"
  | Nodes "bytes list"
  | BlockHashes "(b256 \<times> u64) list"
  | Txs "tx list"
  | WholeBlock EthTypes.block u256
  | PooledHashes new_pooled_hashes
  | PooledHashes66 "b256 list"
  | RangeUpdate u64 u64 b256

datatype wire = Plain eth_message | Paired u64 eth_message | PingMsg | PongMsg | DisconnectMsg disconnect_reason

record session_lib =
  sl_encode :: "wire \<Rightarrow> bytes"
  sl_decode :: "bool \<Rightarrow> eth_message_id \<Rightarrow> bytes \<Rightarrow> wire option"
  sl_status :: "bytes \<Rightarrow> status option"
  sl_status69 :: "bytes \<Rightarrow> status_eth69 option"

datatype gossip_message =
    GossipBlockHashes "(b256 \<times> u64) list"
  | GossipTransactions "tx list"
  | GossipBlock EthTypes.block u256
  | GossipPooledHashes new_pooled_hashes
  | GossipRequest u64 eth_message

subsection \<open>The state of a session\<close>

record session_task =
  tk_stream :: rlpx_stream
  tk_peer_id :: string
  tk_session_id :: u64
  tk_eth_offset :: u8
  tk_gossip_open :: bool
  tk_disconnect_open :: bool
  tk_status :: "status_message option"
  tk_best_height :: u64
  tk_pending_headers :: "u64 \<rightharpoonup> nat"
  tk_pending_bodies :: "u64 \<rightharpoonup> nat"
  tk_pending_pooled_txs :: "u64 \<rightharpoonup> nat"
  tk_pending_receipts :: "u64 \<rightharpoonup> nat"
  tk_pending_node_data :: "u64 \<rightharpoonup> nat"
  tk_answered :: "(nat \<times> (rlpx_error + u64 \<times> eth_message)) list"
  tk_gossip :: "(string \<times> u64 \<times> gossip_message) list"
  tk_disconnects :: "(string \<times> u64) list"

definition stream_eth_version :: "rlpx_stream \<Rightarrow> eth_version option" where
  "stream_eth_version st =
     Option.bind (find_cap ''eth'' st) (\<lambda>c. case version_try_from (sc_version c) of Inl _ \<Rightarrow> None | Inr v \<Rightarrow> Some v)"

definition initial_height :: "status_message option \<Rightarrow> u64" where
  "initial_height s = (case s of Some (Eth69Status e) \<Rightarrow> s9_latest e | _ \<Rightarrow> 0)"

definition session_new :: "rlpx_stream \<Rightarrow> string \<Rightarrow> u64 \<Rightarrow> bool \<Rightarrow> bool \<Rightarrow> status_message option \<Rightarrow> session_task" where
  "session_new st peer sid gossip disc s =
     \<lparr>tk_stream = st, tk_peer_id = peer, tk_session_id = sid,
      tk_eth_offset = (case find_cap ''eth'' st of None \<Rightarrow> 0x10 | Some c \<Rightarrow> sc_offset c), tk_gossip_open = gossip,
      tk_disconnect_open = disc, tk_status = s, tk_best_height = initial_height s, tk_pending_headers = Map.empty,
      tk_pending_bodies = Map.empty, tk_pending_pooled_txs = Map.empty, tk_pending_receipts = Map.empty,
      tk_pending_node_data = Map.empty, tk_answered = [], tk_gossip = [], tk_disconnects = []\<rparr>"

definition eth_status :: "session_task \<Rightarrow> status option" where
  "eth_status t =
     map_option (\<lambda>s. case s of LegacyStatus l \<Rightarrow> l
       | Eth69Status e \<Rightarrow> \<lparr>su_version = s9_version e, su_chain = s9_chain e, su_total_difficulty = 0,
                          su_blockhash = s9_blockhash e, su_genesis = s9_genesis e, su_forkid = s9_forkid e\<rparr>) (tk_status t)"

subsection \<open>Requests of the node\<close>

datatype session_request =
    AskHeaders u64 get_block_headers nat
  | AskBodies u64 "b256 list" nat
  | AskPooled u64 "b256 list" nat
  | AskReceipts u64 "b256 list" nat
  | AskNodeData u64 "b256 list" nat
  | SendBlockHashes "(b256 \<times> u64) list"
  | SendTransactions "tx list"
  | SendNewBlock EthTypes.block u256
  | SendPooledHashes new_pooled_hashes
  | SendPing
  | SendDisconnect disconnect_reason
  | SendHeaders u64 "EthTypes.header list"
  | SendBodies u64 "body list"
  | SendPooled u64 "bytes list"
  | SendReceipts u64 "receipt list list"
  | SendNodeData u64 "bytes list"

definition with_request_id :: "session_task \<Rightarrow> bool" where
  "with_request_id t = (case stream_eth_version (tk_stream t) of None \<Rightarrow> False | Some v \<Rightarrow> has_request_id v)"

definition put_eth :: "session_lib \<Rightarrow> ('sk, 'pk) rlpx_lib \<Rightarrow> eth_message_id \<Rightarrow> wire \<Rightarrow> (session_task, rlpx_error, unit) act" where
  "put_eth S L i w t = (case send_eth L (sl_encode S w) (id_u8 i) (tk_stream t) of (r, st) \<Rightarrow> (r, t\<lparr>tk_stream := st\<rparr>))"

definition put_p2p :: "session_lib \<Rightarrow> ('sk, 'pk) rlpx_lib \<Rightarrow> u8 \<Rightarrow> wire \<Rightarrow> session_task \<Rightarrow> session_task" where
  "put_p2p S L i w t = t\<lparr>tk_stream := snd (send_p2p L (sl_encode S w) i (tk_stream t))\<rparr>"

definition envelope :: "session_task \<Rightarrow> u64 \<Rightarrow> eth_message \<Rightarrow> wire" where
  "envelope t rid m = (if with_request_id t then Paired rid m else Plain m)"

definition answer :: "nat \<Rightarrow> rlpx_error + u64 \<times> eth_message \<Rightarrow> session_task \<Rightarrow> session_task" where
  "answer tok r t = t\<lparr>tk_answered := tk_answered t @ [(tok, r)]\<rparr>"

text \<open>A request that cannot be sent is answered with the error; otherwise it waits in its table, in the place of its id.\<close>

definition ask ::
  "session_lib \<Rightarrow> ('sk, 'pk) rlpx_lib \<Rightarrow> eth_message_id \<Rightarrow> u64 \<Rightarrow> eth_message \<Rightarrow> nat \<Rightarrow>
   (((u64 \<rightharpoonup> nat) \<Rightarrow> (u64 \<rightharpoonup> nat)) \<Rightarrow> session_task \<Rightarrow> session_task) \<Rightarrow> session_task \<Rightarrow> session_task" where
  "ask S L i rid m tok upd t =
     (case put_eth S L i (envelope t rid m) t of
        (Inl e, t') \<Rightarrow> answer tok (Inl e) t'
      | (Inr _, t') \<Rightarrow> upd (\<lambda>p. p(rid \<mapsto> tok)) t')"

definition tell :: "session_lib \<Rightarrow> ('sk, 'pk) rlpx_lib \<Rightarrow> eth_message_id \<Rightarrow> wire \<Rightarrow> session_task \<Rightarrow> session_task" where
  "tell S L i w t = snd (put_eth S L i w t)"

text \<open>The result tells whether the session goes on.\<close>

fun handle_request :: "session_lib \<Rightarrow> ('sk, 'pk) rlpx_lib \<Rightarrow> session_request \<Rightarrow> session_task \<Rightarrow> bool \<times> session_task" where
  "handle_request S L (AskHeaders rid q tok) t = (True, ask S L MGetBlockHeaders rid (GetHeaders q) tok tk_pending_headers_update t)"
| "handle_request S L (AskBodies rid hs tok) t = (True, ask S L MGetBlockBodies rid (GetBodies hs) tok tk_pending_bodies_update t)"
| "handle_request S L (AskPooled rid hs tok) t = (True, ask S L MGetPooledTransactions rid (GetPooled hs) tok tk_pending_pooled_txs_update t)"
| "handle_request S L (AskReceipts rid hs tok) t = (True, ask S L MGetReceipts rid (GetReceipts hs) tok tk_pending_receipts_update t)"
| "handle_request S L (AskNodeData rid hs tok) t = (True, ask S L MGetNodeData rid (GetNodes hs) tok tk_pending_node_data_update t)"
| "handle_request S L (SendBlockHashes m) t = (True, tell S L MNewBlockHashes (Plain (BlockHashes m)) t)"
| "handle_request S L (SendTransactions m) t = (True, tell S L MTransactions (Plain (Txs m)) t)"
| "handle_request S L (SendNewBlock b td) t = (True, tell S L MNewBlock (Plain (WholeBlock b td)) t)"
| "handle_request S L (SendPooledHashes m) t =
     (True, tell S L MNewPooledTransactionHashes
       (Plain (if (case stream_eth_version (tk_stream t) of None \<Rightarrow> False | Some v \<Rightarrow> is_eth68_or_newer v) then PooledHashes m
               else PooledHashes66 (np_hashes m))) t)"
| "handle_request S L SendPing t = (True, put_p2p S L 0x02 PingMsg t)"
| "handle_request S L (SendDisconnect r) t = (False, put_p2p S L 0x01 (DisconnectMsg r) t)"
| "handle_request S L (SendHeaders rid m) t = (True, tell S L MBlockHeaders (envelope t rid (Headers m)) t)"
| "handle_request S L (SendBodies rid m) t = (True, tell S L MBlockBodies (envelope t rid (Bodies m)) t)"
| "handle_request S L (SendPooled rid m) t = (True, tell S L MPooledTransactions (envelope t rid (Pooled m)) t)"
| "handle_request S L (SendReceipts rid m) t = (True, tell S L MReceipts (envelope t rid (ReceiptLists m)) t)"
| "handle_request S L (SendNodeData rid m) t = (True, tell S L MNodeData (envelope t rid (Nodes m)) t)"

subsection \<open>Messages of the peer\<close>

definition raise_height :: "u64 list \<Rightarrow> session_task \<Rightarrow> session_task" where
  "raise_height ns t = t\<lparr>tk_best_height := fold (\<lambda>n h. if n > h then n else h) ns (tk_best_height t)\<rparr>"

definition gossip :: "gossip_message \<Rightarrow> session_task \<Rightarrow> session_task" where
  "gossip m t = (if tk_gossip_open t then t\<lparr>tk_gossip := tk_gossip t @ [(tk_peer_id t, tk_session_id t, m)]\<rparr> else t)"

definition notify_disconnect :: "session_task \<Rightarrow> session_task" where
  "notify_disconnect t = (if tk_disconnect_open t then t\<lparr>tk_disconnects := tk_disconnects t @ [(tk_peer_id t, tk_session_id t)]\<rparr> else t)"

text \<open>A message with its request id: 0 where the version of the protocol has none.\<close>

definition unwrap_message :: "session_lib \<Rightarrow> eth_message_id \<Rightarrow> bytes \<Rightarrow> session_task \<Rightarrow> (u64 \<times> eth_message) option" where
  "unwrap_message S i payload t =
     (case sl_decode S (with_request_id t) i payload of
        Some (Paired rid m) \<Rightarrow> (if with_request_id t then Some (rid, m) else None)
      | Some (Plain m) \<Rightarrow> (if with_request_id t then None else Some (0, m))
      | _ \<Rightarrow> None)"

definition handle_peer_request :: "session_lib \<Rightarrow> eth_message_id \<Rightarrow> bytes \<Rightarrow> session_task \<Rightarrow> session_task" where
  "handle_peer_request S i payload t =
     (case unwrap_message S i payload t of None \<Rightarrow> t | Some (rid, m) \<Rightarrow> gossip (GossipRequest rid m) t)"

definition resolve ::
  "(session_task \<Rightarrow> (u64 \<rightharpoonup> nat)) \<Rightarrow> (((u64 \<rightharpoonup> nat) \<Rightarrow> (u64 \<rightharpoonup> nat)) \<Rightarrow> session_task \<Rightarrow> session_task) \<Rightarrow>
   u64 \<Rightarrow> eth_message \<Rightarrow> session_task \<Rightarrow> session_task" where
  "resolve get upd rid m t =
     (case get t rid of None \<Rightarrow> t | Some tok \<Rightarrow> answer tok (Inr (rid, m)) (upd (\<lambda>p. p(rid := None)) t))"

definition handle_answer ::
  "session_lib \<Rightarrow> eth_message_id \<Rightarrow> (session_task \<Rightarrow> (u64 \<rightharpoonup> nat)) \<Rightarrow>
   (((u64 \<rightharpoonup> nat) \<Rightarrow> (u64 \<rightharpoonup> nat)) \<Rightarrow> session_task \<Rightarrow> session_task) \<Rightarrow> bytes \<Rightarrow> session_task \<Rightarrow> session_task" where
  "handle_answer S i get upd payload t =
     (case unwrap_message S i payload t of None \<Rightarrow> t
      | Some (rid, m) \<Rightarrow>
          resolve get upd rid m (case m of Headers hs \<Rightarrow> raise_height (map h_number hs) t | _ \<Rightarrow> t))"

definition handle_status :: "session_lib \<Rightarrow> bytes \<Rightarrow> session_task \<Rightarrow> session_task" where
  "handle_status S payload t =
     (case sl_status S payload of
        Some s \<Rightarrow> t\<lparr>tk_status := Some (LegacyStatus s)\<rparr>
      | None \<Rightarrow>
         (case sl_status69 S payload of
            Some s \<Rightarrow> (raise_height [s9_latest s] t)\<lparr>tk_status := Some (Eth69Status s)\<rparr>
          | None \<Rightarrow> t))"

definition handle_new_block_hashes :: "session_lib \<Rightarrow> bytes \<Rightarrow> session_task \<Rightarrow> session_task" where
  "handle_new_block_hashes S payload t =
     (case sl_decode S False MNewBlockHashes payload of
        Some (Plain (BlockHashes m)) \<Rightarrow> gossip (GossipBlockHashes m) (raise_height (map snd m) t)
      | _ \<Rightarrow> t)"

definition handle_transactions :: "session_lib \<Rightarrow> bytes \<Rightarrow> session_task \<Rightarrow> session_task" where
  "handle_transactions S payload t =
     (case sl_decode S False MTransactions payload of Some (Plain (Txs m)) \<Rightarrow> gossip (GossipTransactions m) t | _ \<Rightarrow> t)"

definition handle_new_block :: "session_lib \<Rightarrow> bytes \<Rightarrow> session_task \<Rightarrow> session_task" where
  "handle_new_block S payload t =
     (case sl_decode S False MNewBlock payload of
        Some (Plain (WholeBlock b td)) \<Rightarrow> gossip (GossipBlock b td) (raise_height [h_number (b_header b)] t)
      | _ \<Rightarrow> t)"

text \<open>Before eth/68 the announcement of pooled transactions is a bare list of hashes.\<close>

definition handle_new_pooled_transaction_hashes :: "session_lib \<Rightarrow> bytes \<Rightarrow> session_task \<Rightarrow> session_task" where
  "handle_new_pooled_transaction_hashes S payload t =
     (case sl_decode S False MNewPooledTransactionHashes payload of
        Some (Plain (PooledHashes m)) \<Rightarrow>
          (if (case stream_eth_version (tk_stream t) of None \<Rightarrow> False | Some v \<Rightarrow> is_eth68_or_newer v) then gossip (GossipPooledHashes m) t else t)
      | Some (Plain (PooledHashes66 hs)) \<Rightarrow>
          (if (case stream_eth_version (tk_stream t) of None \<Rightarrow> False | Some v \<Rightarrow> is_eth68_or_newer v) then t
           else gossip (GossipPooledHashes \<lparr>np_types = [], np_sizes = [], np_hashes = hs\<rparr>) t)
      | _ \<Rightarrow> t)"

definition node_data_allowed :: "session_task \<Rightarrow> bool" where
  "node_data_allowed t = (case stream_eth_version (tk_stream t) of None \<Rightarrow> True | Some v \<Rightarrow> supports_get_node_data v)"

definition supports_receipts :: "eth_version \<Rightarrow> bool" where
  "supports_receipts v = True"

definition receipts_allowed :: "session_task \<Rightarrow> bool" where
  "receipts_allowed t = (case stream_eth_version (tk_stream t) of None \<Rightarrow> True | Some v \<Rightarrow> supports_receipts v)"

lemma receipts_allowed [simp]: "receipts_allowed t"
  by (simp add: receipts_allowed_def supports_receipts_def split: option.splits)

definition handle_eth_message :: "session_lib \<Rightarrow> u8 \<Rightarrow> bytes \<Rightarrow> session_task \<Rightarrow> session_task" where
  "handle_eth_message S i payload t =
     (let mid = id_of_u8 i in
      case mid of
        MStatus \<Rightarrow> handle_status S payload t
      | MNewBlockHashes \<Rightarrow> handle_new_block_hashes S payload t
      | MTransactions \<Rightarrow> handle_transactions S payload t
      | MGetBlockHeaders \<Rightarrow> handle_peer_request S mid payload t
      | MBlockHeaders \<Rightarrow> handle_answer S mid tk_pending_headers tk_pending_headers_update payload t
      | MGetBlockBodies \<Rightarrow> handle_peer_request S mid payload t
      | MBlockBodies \<Rightarrow> handle_answer S mid tk_pending_bodies tk_pending_bodies_update payload t
      | MGetPooledTransactions \<Rightarrow> handle_peer_request S mid payload t
      | MPooledTransactions \<Rightarrow> handle_answer S mid tk_pending_pooled_txs tk_pending_pooled_txs_update payload t
      | MGetReceipts \<Rightarrow> (if receipts_allowed t then handle_peer_request S mid payload t else t)
      | MReceipts \<Rightarrow>
          (if receipts_allowed t then handle_answer S mid tk_pending_receipts tk_pending_receipts_update payload t else t)
      | MGetNodeData \<Rightarrow> (if node_data_allowed t then handle_peer_request S mid payload t else t)
      | MNodeData \<Rightarrow>
          (if node_data_allowed t then handle_answer S mid tk_pending_node_data tk_pending_node_data_update payload t else t)
      | MNewBlock \<Rightarrow> handle_new_block S payload t
      | MNewPooledTransactionHashes \<Rightarrow> handle_new_pooled_transaction_hashes S payload t
      | _ \<Rightarrow> t)"

definition handle_p2p_message :: "session_lib \<Rightarrow> ('sk, 'pk) rlpx_lib \<Rightarrow> u8 \<Rightarrow> session_task \<Rightarrow> bool \<times> session_task" where
  "handle_p2p_message S L i t =
     (if i = 0x01 then (False, notify_disconnect t)
      else if i = 0x02 then (True, put_p2p S L 0x03 PongMsg t)
      else (True, t))"

definition handle_message :: "session_lib \<Rightarrow> ('sk, 'pk) rlpx_lib \<Rightarrow> u8 \<Rightarrow> bytes \<Rightarrow> session_task \<Rightarrow> bool \<times> session_task" where
  "handle_message S L i payload t =
     (if i < tk_eth_offset t then handle_p2p_message S L i t
      else (True, handle_eth_message S (i - tk_eth_offset t) payload t))"

subsection \<open>The loop of a session\<close>

text \<open>Of the branches of \<open>select!\<close> one is taken at a time; a read gives a message or an error.\<close>

datatype session_event = NodeRequest session_request | PingTick | PeerMessage u8 bytes | ReadError

fun session_step :: "session_lib \<Rightarrow> ('sk, 'pk) rlpx_lib \<Rightarrow> session_event \<Rightarrow> session_task \<Rightarrow> bool \<times> session_task" where
  "session_step S L (NodeRequest r) t = handle_request S L r t"
| "session_step S L PingTick t = (True, put_p2p S L 0x02 PingMsg t)"
| "session_step S L (PeerMessage i p) t = handle_message S L i p t"
| "session_step S L ReadError t = (False, t)"

text \<open>The result tells whether the loop has ended; then the disconnect was reported.\<close>

fun session_run :: "session_lib \<Rightarrow> ('sk, 'pk) rlpx_lib \<Rightarrow> session_event list \<Rightarrow> session_task \<Rightarrow> bool \<times> session_task" where
  "session_run S L [] t = (False, t)"
| "session_run S L (e # es) t =
     (case session_step S L e t of (True, t') \<Rightarrow> session_run S L es t' | (False, t') \<Rightarrow> (True, notify_disconnect t'))"

subsection \<open>Waiting requests and their answers\<close>

datatype answer_kind = OfHeaders | OfBodies | OfPooled | OfReceipts | OfNodes

fun pending :: "session_task \<Rightarrow> answer_kind \<Rightarrow> u64 \<rightharpoonup> nat" where
  "pending t OfHeaders = tk_pending_headers t"
| "pending t OfBodies = tk_pending_bodies t"
| "pending t OfPooled = tk_pending_pooled_txs t"
| "pending t OfReceipts = tk_pending_receipts t"
| "pending t OfNodes = tk_pending_node_data t"

fun asks :: "session_event \<Rightarrow> (answer_kind \<times> u64 \<times> nat) option" where
  "asks (NodeRequest (AskHeaders rid q tok)) = Some (OfHeaders, rid, tok)"
| "asks (NodeRequest (AskBodies rid q tok)) = Some (OfBodies, rid, tok)"
| "asks (NodeRequest (AskPooled rid q tok)) = Some (OfPooled, rid, tok)"
| "asks (NodeRequest (AskReceipts rid q tok)) = Some (OfReceipts, rid, tok)"
| "asks (NodeRequest (AskNodeData rid q tok)) = Some (OfNodes, rid, tok)"
| "asks _ = None"

fun answers_table :: "eth_message \<Rightarrow> answer_kind option" where
  "answers_table (Headers _) = Some OfHeaders"
| "answers_table (Bodies _) = Some OfBodies"
| "answers_table (Pooled _) = Some OfPooled"
| "answers_table (ReceiptLists _) = Some OfReceipts"
| "answers_table (Nodes _) = Some OfNodes"
| "answers_table _ = None"

fun answer_id :: "answer_kind \<Rightarrow> eth_message_id" where
  "answer_id OfHeaders = MBlockHeaders"
| "answer_id OfBodies = MBlockBodies"
| "answer_id OfPooled = MPooledTransactions"
| "answer_id OfReceipts = MReceipts"
| "answer_id OfNodes = MNodeData"

text \<open>The decoder of an answer gives a message of its type.\<close>

definition typed_lib :: "session_lib \<Rightarrow> bool" where
  "typed_lib S \<longleftrightarrow>
     (\<forall>b k p m rid. sl_decode S b (answer_id k) p = Some (Plain m) \<or> sl_decode S b (answer_id k) p = Some (Paired rid m) \<longrightarrow>
        answers_table m = Some k)"

lemma typed_libD:
  assumes "typed_lib S"
  shows "sl_decode S b (answer_id k) p = Some (Plain m) \<Longrightarrow> answers_table m = Some k"
    and "sl_decode S b (answer_id k) p = Some (Paired rid m) \<Longrightarrow> answers_table m = Some k"
  using assms unfolding typed_lib_def by blast+

definition same_requests :: "session_task \<Rightarrow> session_task \<Rightarrow> bool" where
  "same_requests t t' \<longleftrightarrow> pending t' = pending t \<and> tk_answered t' = tk_answered t"

lemma pending_eq_iff:
  "pending t' = pending t \<longleftrightarrow>
     tk_pending_headers t' = tk_pending_headers t \<and> tk_pending_bodies t' = tk_pending_bodies t \<and>
     tk_pending_pooled_txs t' = tk_pending_pooled_txs t \<and> tk_pending_receipts t' = tk_pending_receipts t \<and>
     tk_pending_node_data t' = tk_pending_node_data t"
proof
  assume "pending t' = pending t"
  then have "pending t' k = pending t k" for k by simp
  from this [of OfHeaders] this [of OfBodies] this [of OfPooled] this [of OfReceipts] this [of OfNodes]
  show "tk_pending_headers t' = tk_pending_headers t \<and> tk_pending_bodies t' = tk_pending_bodies t \<and>
     tk_pending_pooled_txs t' = tk_pending_pooled_txs t \<and> tk_pending_receipts t' = tk_pending_receipts t \<and>
     tk_pending_node_data t' = tk_pending_node_data t" by simp
next
  assume a: "tk_pending_headers t' = tk_pending_headers t \<and> tk_pending_bodies t' = tk_pending_bodies t \<and>
     tk_pending_pooled_txs t' = tk_pending_pooled_txs t \<and> tk_pending_receipts t' = tk_pending_receipts t \<and>
     tk_pending_node_data t' = tk_pending_node_data t"
  show "pending t' = pending t"
  proof
    show "pending t' k = pending t k" for k using a by (cases k) simp_all
  qed
qed

lemma same_requests_simps [simp]:
  "same_requests t t" "same_requests t (t\<lparr>tk_stream := st\<rparr>)" "same_requests t (gossip m t)" "same_requests t (raise_height ns t)"
  "same_requests t (notify_disconnect t)" "same_requests t (t\<lparr>tk_status := s\<rparr>)"
  "same_requests t (snd (put_eth S L i w t))" "same_requests t (put_p2p S L j w t)" "same_requests t (tell S L i w t)"
  by (simp_all add: same_requests_def pending_eq_iff gossip_def raise_height_def notify_disconnect_def put_eth_def put_p2p_def
      tell_def split: prod.splits)

lemma same_requests_trans: "same_requests t u \<Longrightarrow> same_requests u v \<Longrightarrow> same_requests t v"
  by (simp add: same_requests_def)

fun table_update :: "answer_kind \<Rightarrow> ((u64 \<rightharpoonup> nat) \<Rightarrow> (u64 \<rightharpoonup> nat)) \<Rightarrow> session_task \<Rightarrow> session_task" where
  "table_update OfHeaders = tk_pending_headers_update"
| "table_update OfBodies = tk_pending_bodies_update"
| "table_update OfPooled = tk_pending_pooled_txs_update"
| "table_update OfReceipts = tk_pending_receipts_update"
| "table_update OfNodes = tk_pending_node_data_update"

lemma pending_table_update: "pending (table_update k f t) = (pending t)(k := f (pending t k))"
proof
  show "pending (table_update k f t) j = ((pending t)(k := f (pending t k))) j" for j
    by (cases k; cases j) simp_all
qed

lemma pending_answer [simp]: "pending (answer tok r t) = pending t" "tk_answered (answer tok r t) = tk_answered t @ [(tok, r)]"
  by (simp_all add: answer_def pending_eq_iff)

lemma answered_table_update [simp]: "tk_answered (table_update k f t) = tk_answered t"
  by (cases k) simp_all

text \<open>What one event does to the tables and the answers.\<close>

inductive request_step :: "(answer_kind \<times> u64 \<times> nat) option \<Rightarrow> session_task \<Rightarrow> session_task \<Rightarrow> bool" for a t where
  keep: "same_requests t t' \<Longrightarrow> request_step a t t'"
| wait: "a = Some (k, rid, tok) \<Longrightarrow> pending t' = (pending t)(k := (pending t k)(rid \<mapsto> tok)) \<Longrightarrow> tk_answered t' = tk_answered t \<Longrightarrow>
    request_step a t t'"
| refuse: "a = Some (k, rid, tok) \<Longrightarrow> pending t' = pending t \<Longrightarrow> tk_answered t' = tk_answered t @ [(tok, Inl e)] \<Longrightarrow> request_step a t t'"
| deliver: "a = None \<Longrightarrow> pending t k rid = Some tok \<Longrightarrow> pending t' = (pending t)(k := (pending t k)(rid := None)) \<Longrightarrow>
    answers_table m = Some k \<Longrightarrow> with_request_id t \<or> rid = 0 \<Longrightarrow> tk_answered t' = tk_answered t @ [(tok, Inr (rid, m))] \<Longrightarrow> request_step a t t'"

lemma ask_request_step: "request_step (Some (k, rid, tok)) t (ask S L i rid m tok (table_update k) t)"
proof (cases "put_eth S L i (envelope t rid m) t")
  case (Pair r t')
  have same: "same_requests t t'" using same_requests_simps(7) [of t S L i "envelope t rid m"] Pair by simp
  show ?thesis
  proof (cases r)
    case (Inl e)
    then have "ask S L i rid m tok (table_update k) t = answer tok (Inl e) t'" using Pair by (simp add: ask_def)
    then show ?thesis using same by (intro refuse) (simp_all add: answer_def same_requests_def pending_eq_iff)
  next
    case (Inr u)
    then have "ask S L i rid m tok (table_update k) t = table_update k (\<lambda>p. p(rid \<mapsto> tok)) t'" using Pair by (simp add: ask_def)
    then show ?thesis using same by (intro wait) (simp_all add: pending_table_update same_requests_def)
  qed
qed

lemma handle_answer_request_step:
  assumes "typed_lib S"
  shows "request_step None t (handle_answer S (answer_id k) (\<lambda>t. pending t k) (table_update k) p t)"
proof (cases "unwrap_message S (answer_id k) p t")
  case None
  then show ?thesis by (auto simp: handle_answer_def intro: keep)
next
  case (Some rm)
  obtain rid m where rm: "rm = (rid, m)" by (cases rm)
  have tab: "answers_table m = Some k"
    using Some rm typed_libD [OF assms] by (auto simp: unwrap_message_def split: option.splits wire.splits if_splits)
  have rid: "with_request_id t \<or> rid = 0"
    using Some rm by (auto simp: unwrap_message_def split: option.splits wire.splits if_splits)
  define u where "u = (case m of Headers hs \<Rightarrow> raise_height (map h_number hs) t | _ \<Rightarrow> t)"
  have same: "same_requests t u" by (simp add: u_def split: eth_message.splits)
  have eq: "handle_answer S (answer_id k) (\<lambda>t. pending t k) (table_update k) p t = resolve (\<lambda>t. pending t k) (table_update k) rid m u"
    using Some rm by (simp add: handle_answer_def u_def)
  show ?thesis
  proof (cases "pending u k rid")
    case None
    then show ?thesis using same by (auto simp: eq resolve_def intro: keep)
  next
    case (Some tok)
    then have res: "resolve (\<lambda>t. pending t k) (table_update k) rid m u = answer tok (Inr (rid, m)) (table_update k (\<lambda>p. p(rid := None)) u)"
      by (simp add: resolve_def)
    show ?thesis
      unfolding eq res using same tab rid Some
      by (intro deliver [of _ _ k rid tok]) (simp_all add: same_requests_def pending_table_update)
  qed
qed

lemmas handle_answer_steps = handle_answer_request_step [where k = OfHeaders, simplified] handle_answer_request_step [where k = OfBodies, simplified]
  handle_answer_request_step [where k = OfPooled, simplified] handle_answer_request_step [where k = OfReceipts, simplified]
  handle_answer_request_step [where k = OfNodes, simplified]

lemmas ask_steps = ask_request_step [where k = OfHeaders, simplified] ask_request_step [where k = OfBodies, simplified]
  ask_request_step [where k = OfPooled, simplified] ask_request_step [where k = OfReceipts, simplified]
  ask_request_step [where k = OfNodes, simplified]

lemma handle_eth_message_step:
  assumes "typed_lib S"
  shows "request_step None t (handle_eth_message S i p t)"
proof -
  have k: "request_step None t u" if "same_requests t u" for u using that by (rule keep)
  have g: "request_step None t (gossip m (raise_height ns t))" for m ns
    by (rule k) (rule same_requests_trans [OF same_requests_simps(4) same_requests_simps(3)])
  have st: "request_step None t ((raise_height ns t)\<lparr>tk_status := s\<rparr>)" for ns s
    by (rule k) (rule same_requests_trans [OF same_requests_simps(4) same_requests_simps(6)])
  show ?thesis
    by (cases "id_of_u8 i")
       (auto simp: handle_eth_message_def Let_def handle_status_def handle_new_block_hashes_def handle_transactions_def
         handle_new_block_def handle_new_pooled_transaction_hashes_def handle_peer_request_def
         intro!: handle_answer_steps [OF assms] k g st split: option.splits wire.splits eth_message.splits)
qed

lemma session_step_requests:
  assumes "typed_lib S" "session_step S L e t = (c, t')"
  shows "request_step (asks e) t t'"
proof (cases e)
  case (NodeRequest r)
  then show ?thesis using assms(2) by (cases r) (auto intro!: ask_steps intro: keep)
next
  case (PeerMessage i p)
  then show ?thesis
    using assms by (auto simp: handle_message_def handle_p2p_message_def intro!: handle_eth_message_step intro: keep split: if_splits)
qed (use assms(2) in \<open>auto intro: keep\<close>)

text \<open>Every waiting or answered request was asked for; no two wait with the same sender, and none is answered twice.\<close>

definition requests_inv :: "(answer_kind \<times> u64 \<times> nat) set \<Rightarrow> nat set \<Rightarrow> session_task \<Rightarrow> bool" where
  "requests_inv A used t \<longleftrightarrow>
     (\<forall>k rid tok. pending t k rid = Some tok \<longrightarrow> (k, rid, tok) \<in> A \<and> tok \<in> used \<and> tok \<notin> fst ` set (tk_answered t)) \<and>
     (\<forall>k rid k' rid' tok. pending t k rid = Some tok \<longrightarrow> pending t k' rid' = Some tok \<longrightarrow> k' = k \<and> rid' = rid) \<and>
     fst ` set (tk_answered t) \<subseteq> used \<and> distinct (map fst (tk_answered t)) \<and>
     (\<forall>tok r. (tok, r) \<in> set (tk_answered t) \<longrightarrow>
        (\<exists>k rid. (k, rid, tok) \<in> A \<and> (case r of Inl _ \<Rightarrow> True | Inr (rid', m) \<Rightarrow> rid' = rid \<and> answers_table m = Some k)))"

definition token_of :: "(answer_kind \<times> u64 \<times> nat) option \<Rightarrow> nat set" where
  "token_of a = (case a of None \<Rightarrow> {} | Some (k, rid, tok) \<Rightarrow> {tok})"

lemma requests_inv_mono: "requests_inv A used t \<Longrightarrow> used \<subseteq> used' \<Longrightarrow> requests_inv A used' t"
  unfolding requests_inv_def by (elim conjE, intro conjI) (blast | assumption)+

lemma requests_inv_same: "requests_inv A used t \<Longrightarrow> same_requests t t' \<Longrightarrow> requests_inv A used t'"
  by (simp add: requests_inv_def same_requests_def)

lemma requests_invD:
  assumes "requests_inv A used t"
  shows "pending t k rid = Some tok \<Longrightarrow> (k, rid, tok) \<in> A \<and> tok \<in> used \<and> tok \<notin> fst ` set (tk_answered t)"
    and "pending t k rid = Some tok \<Longrightarrow> pending t k' rid' = Some tok \<Longrightarrow> k' = k \<and> rid' = rid"
    and "tok \<in> fst ` set (tk_answered t) \<Longrightarrow> tok \<in> used"
    and "distinct (map fst (tk_answered t))"
    and "(tok, r) \<in> set (tk_answered t) \<Longrightarrow>
      \<exists>k rid. (k, rid, tok) \<in> A \<and> (case r of Inl _ \<Rightarrow> True | Inr (rid', m) \<Rightarrow> rid' = rid \<and> answers_table m = Some k)"
proof -
  note i = assms [unfolded requests_inv_def]
  show "pending t k rid = Some tok \<Longrightarrow> (k, rid, tok) \<in> A \<and> tok \<in> used \<and> tok \<notin> fst ` set (tk_answered t)"
    using conjunct1 [OF i] by (elim allE) (erule mp)
  show "pending t k rid = Some tok \<Longrightarrow> pending t k' rid' = Some tok \<Longrightarrow> k' = k \<and> rid' = rid"
    using conjunct1 [OF conjunct2 [OF i]] by simp
  show "tok \<in> fst ` set (tk_answered t) \<Longrightarrow> tok \<in> used"
    using conjunct1 [OF conjunct2 [OF conjunct2 [OF i]]] by (rule subsetD)
  show "distinct (map fst (tk_answered t))" using conjunct1 [OF conjunct2 [OF conjunct2 [OF conjunct2 [OF i]]]] .
  show "(tok, r) \<in> set (tk_answered t) \<Longrightarrow>
      \<exists>k rid. (k, rid, tok) \<in> A \<and> (case r of Inl _ \<Rightarrow> True | Inr (rid', m) \<Rightarrow> rid' = rid \<and> answers_table m = Some k)"
    using conjunct2 [OF conjunct2 [OF conjunct2 [OF conjunct2 [OF i]]]] by (elim allE) (erule mp)
qed

lemma requests_inv_step:
  assumes inv: "requests_inv A used t" and "request_step a t t'" and fresh: "token_of a \<inter> used = {}"
    and known: "\<And>x. a = Some x \<Longrightarrow> x \<in> A"
  shows "requests_inv A (used \<union> token_of a) t'"
  using assms(2)
proof cases
  case keep
  then show ?thesis using requests_inv_mono [OF requests_inv_same [OF inv]] by blast
next
  case (wait k rid tok)
  have p: "pending t' j i = (if j = k \<and> i = rid then Some tok else pending t j i)" for j i using wait(2) by simp
  have new: "tok \<notin> used" "(k, rid, tok) \<in> A" using fresh known wait(1) by (auto simp: token_of_def)
  have old: "pending t j i \<noteq> Some tok" for j i using requests_invD(1) [OF inv, of j i tok] new(1) by blast
  have "tok \<notin> fst ` set (tk_answered t)" using requests_invD(3) [OF inv, of tok] new(1) by blast
  then show ?thesis
    using inv new old unfolding requests_inv_def wait(3) p
    by (elim conjE, intro conjI) (auto simp: token_of_def wait(1) split: if_splits)
next
  case (refuse k rid tok e)
  have new: "tok \<notin> used" "(k, rid, tok) \<in> A" using fresh known refuse(1) by (auto simp: token_of_def)
  then show ?thesis
    using inv unfolding requests_inv_def refuse(2,3)
    by (elim conjE, intro conjI) (auto simp: token_of_def refuse(1))
next
  case (deliver k rid tok m)
  have p: "pending t' j i = (if j = k \<and> i = rid then None else pending t j i)" for j i using deliver(3) by simp
  have tok: "(k, rid, tok) \<in> A" "tok \<in> used" "tok \<notin> fst ` set (tk_answered t)" using requests_invD(1) [OF inv deliver(2)] by blast+
  have only: "j = k \<and> i = rid" if "pending t j i = Some tok" for j i using requests_invD(2) [OF inv deliver(2) that] .
  show ?thesis
    using inv tok only deliver(4) unfolding requests_inv_def deliver(6) p
    by (elim conjE, intro conjI) (auto simp: token_of_def deliver(1) split: if_splits)
qed

definition tokens :: "session_event list \<Rightarrow> nat list" where
  "tokens es = map (\<lambda>(k, rid, tok). tok) (List.map_filter asks es)"

lemma tokens_Cons: "tokens (e # es) = (case asks e of None \<Rightarrow> tokens es | Some (k, rid, tok) \<Rightarrow> tok # tokens es)"
  by (auto simp: tokens_def List.map_filter_def split: option.splits)

lemma requests_inv_run:
  assumes "typed_lib S" "requests_inv A used t" "session_run S L es t = (b, t')"
    and "set (List.map_filter asks es) \<subseteq> A" "distinct (tokens es)" "set (tokens es) \<inter> used = {}"
  shows "requests_inv A (used \<union> set (tokens es)) t'"
  using assms(2-)
proof (induction es arbitrary: t used)
  case (Cons e es)
  obtain c u where u: "session_step S L e t = (c, u)" by fastforce
  have st: "set (tokens (e # es)) = token_of (asks e) \<union> set (tokens es)"
    by (auto simp: tokens_Cons token_of_def split: option.splits)
  have "requests_inv A (used \<union> token_of (asks e)) u"
  proof (rule requests_inv_step [OF Cons.prems(1) session_step_requests [OF assms(1) u]])
    show "token_of (asks e) \<inter> used = {}" using Cons.prems(5) st by blast
    show "asks e = Some x \<Longrightarrow> x \<in> A" for x using Cons.prems(3) by (simp add: List.map_filter_simps)
  qed
  moreover have "token_of (asks e) \<inter> set (tokens es) = {}"
    using Cons.prems(4) by (auto simp: tokens_Cons token_of_def split: option.splits)
  ultimately have u': "requests_inv A (used \<union> token_of (asks e)) u" "set (tokens es) \<inter> (used \<union> token_of (asks e)) = {}"
    using Cons.prems(5) st by blast+
  have rest: "set (List.map_filter asks es) \<subseteq> A" "distinct (tokens es)"
    using Cons.prems(3,4) by (auto simp: List.map_filter_simps tokens_Cons split: option.splits)
  have eq: "used \<union> set (tokens (e # es)) = used \<union> token_of (asks e) \<union> set (tokens es)" using st by blast
  show ?case
  proof (cases c)
    case True
    then have "session_run S L es u = (b, t')" using Cons.prems(2) u by simp
    then show ?thesis unfolding eq using Cons.IH [OF u'(1) _ rest u'(2)] by blast
  next
    case False
    then have "t' = notify_disconnect u" using Cons.prems(2) u by simp
    then show ?thesis
      unfolding eq using requests_inv_mono [OF requests_inv_same [OF u'(1) same_requests_simps(5)] Un_upper1] by simp
  qed
qed (simp add: tokens_def List.map_filter_simps)

text \<open>C17: whatever the node asks for and whatever the peer sends, no waiting request is answered twice, and an answer is
  given only to a request that was made, with the id it was made with and the kind of data it asked for.\<close>

theorem session_answers_matched:
  assumes "typed_lib S" "distinct (tokens es)" "session_run S L es (session_new st peer sid open disc s) = (b, t)"
  shows "distinct (map fst (tk_answered t)) \<and>
    (\<forall>(tok, r) \<in> set (tk_answered t).
       \<exists>k rid. Some (k, rid, tok) \<in> asks ` set es \<and> (case r of Inl _ \<Rightarrow> True | Inr (rid', m) \<Rightarrow> rid' = rid \<and> answers_table m = Some k))"
proof -
  have "pending (session_new st peer sid open disc s) k rid = None" for k rid by (cases k) (simp_all add: session_new_def)
  then have "requests_inv (set (List.map_filter asks es)) {} (session_new st peer sid open disc s)"
    by (simp add: requests_inv_def session_new_def)
  then have inv: "requests_inv (set (List.map_filter asks es)) (set (tokens es)) t"
    using requests_inv_run [OF assms(1) _ assms(3) subset_refl assms(2), of "{}"] by simp
  have "x \<in> set (List.map_filter asks es) \<longleftrightarrow> Some x \<in> asks ` set es" for x
    by (induction es) (auto simp: List.map_filter_simps split: option.splits)
  then show ?thesis using requests_invD(4,5) [OF inv] by auto
qed

text \<open>An answer that carries the id of a waiting request reaches it, and the request waits no longer.\<close>

theorem answer_delivered:
  assumes "pending t k rid = Some tok" "unwrap_message S (answer_id k) p t = Some (rid, m)" "k = OfNodes \<longrightarrow> node_data_allowed t"
    and "unat (tk_eth_offset t) + unat (id_u8 (answer_id k)) < 256"
  shows "\<exists>t'. session_step S L (PeerMessage (tk_eth_offset t + id_u8 (answer_id k)) p) t = (True, t') \<and>
    tk_answered t' = tk_answered t @ [(tok, Inr (rid, m))] \<and> pending t' k rid = None"
proof -
  define u where "u = (case m of Headers hs \<Rightarrow> raise_height (map h_number hs) t | _ \<Rightarrow> t)"
  have same: "same_requests t u" by (simp add: u_def split: eth_message.splits)
  have "\<not> tk_eth_offset t + id_u8 (answer_id k) < tk_eth_offset t"
    using assms(4) by (simp add: word_less_nat_alt unat_add_lem [THEN iffD1])
  then have "session_step S L (PeerMessage (tk_eth_offset t + id_u8 (answer_id k)) p) t =
      (True, handle_eth_message S (id_u8 (answer_id k)) p t)" by (simp add: handle_message_def)
  also have "handle_eth_message S (id_u8 (answer_id k)) p t = handle_answer S (answer_id k) (\<lambda>t. pending t k) (table_update k) p t"
    using assms(3) by (cases k) (simp_all add: handle_eth_message_def id_of_u8_def Let_def)
  also have "\<dots> = answer tok (Inr (rid, m)) (table_update k (\<lambda>p. p(rid := None)) u)"
    using assms(1,2) same by (simp add: handle_answer_def u_def [symmetric] resolve_def same_requests_def)
  finally show ?thesis using same by (simp add: pending_table_update same_requests_def)
qed

subsection \<open>Sessions without request ids\<close>

lemma send_caps:
  "st_caps (snd (send_raw_payload L i p st)) = st_caps st"
  "st_caps (snd (send_eth L p i st)) = st_caps st"
  "st_caps (snd (send_p2p L p i st)) = st_caps st"
  by (simp_all add: send_raw_payload_def send_eth_def send_p2p_def sbind_def reads_def split: option.splits prod.splits sum.splits)

lemma put_caps [simp]:
  "st_caps (tk_stream (snd (put_eth S L i w t))) = st_caps (tk_stream t)"
  "st_caps (tk_stream (put_p2p S L j w t)) = st_caps (tk_stream t)"
  "st_caps (tk_stream (tell S L i w t)) = st_caps (tk_stream t)"
  using send_caps(2) [of L "sl_encode S w" "id_u8 i" "tk_stream t"]
  by (cases "send_eth L (sl_encode S w) (id_u8 i) (tk_stream t)"; simp add: put_eth_def put_p2p_def tell_def send_caps)+

lemma stream_simps [simp]:
  "tk_stream (gossip g t) = tk_stream t" "tk_stream (raise_height ns t) = tk_stream t" "tk_stream (notify_disconnect t) = tk_stream t"
  "tk_stream (answer tok r t) = tk_stream t" "tk_stream (table_update k f t) = tk_stream t"
  by (simp_all add: gossip_def raise_height_def notify_disconnect_def answer_def) (cases k, simp_all)

lemma ask_caps: "st_caps (tk_stream (ask S L i rid m tok (table_update k) t)) = st_caps (tk_stream t)"
  using put_caps(1) [of S L i "envelope t rid m" t]
  by (cases "put_eth S L i (envelope t rid m) t") (auto simp: ask_def split: sum.splits)

lemmas ask_caps_all = ask_caps [where k = OfHeaders, simplified] ask_caps [where k = OfBodies, simplified]
  ask_caps [where k = OfPooled, simplified] ask_caps [where k = OfReceipts, simplified] ask_caps [where k = OfNodes, simplified]

lemma handle_answer_stream: "tk_stream (handle_answer S i get (table_update k) p t) = tk_stream t"
  by (simp add: handle_answer_def resolve_def split: option.splits eth_message.splits)

lemmas handle_answer_streams = handle_answer_stream [where k = OfHeaders, simplified] handle_answer_stream [where k = OfBodies, simplified]
  handle_answer_stream [where k = OfPooled, simplified] handle_answer_stream [where k = OfReceipts, simplified]
  handle_answer_stream [where k = OfNodes, simplified]

lemma handle_eth_message_stream: "tk_stream (handle_eth_message S i p t) = tk_stream t"
  by (cases "id_of_u8 i")
     (simp_all add: handle_eth_message_def Let_def handle_status_def handle_new_block_hashes_def handle_transactions_def
       handle_new_block_def handle_new_pooled_transaction_hashes_def handle_peer_request_def handle_answer_streams
       split: option.splits wire.splits eth_message.splits)

lemma session_step_caps:
  assumes "session_step S L e t = (c, t')"
  shows "st_caps (tk_stream t') = st_caps (tk_stream t)"
proof (cases e)
  case (NodeRequest r)
  then show ?thesis using assms by (cases r) (auto simp: ask_caps_all)
next
  case (PeerMessage i p)
  then show ?thesis
    using assms by (auto simp: handle_message_def handle_p2p_message_def handle_eth_message_stream split: if_splits)
qed (use assms in auto)

lemma with_request_id_caps: "st_caps (tk_stream t') = st_caps (tk_stream t) \<Longrightarrow> with_request_id t' = with_request_id t"
  by (simp add: with_request_id_def stream_eth_version_def find_cap_def)

text \<open>
  Before eth/66 messages carry no request id and every answer counts as one to request 0: a request made with another
  id, as all of the node are, is never answered with data.
\<close>

theorem legacy_answers_lost:
  assumes "typed_lib S" "\<not> with_request_id t" "\<forall>k. pending t k 0 = None" "\<forall>e k rid tok. e \<in> set es \<and> asks e = Some (k, rid, tok) \<longrightarrow> rid \<noteq> 0"
    and "session_run S L es t = (b, t')"
  shows "filter (\<lambda>(tok, r). \<not> isl r) (tk_answered t') = filter (\<lambda>(tok, r). \<not> isl r) (tk_answered t)"
  using assms(2-)
proof (induction es arbitrary: t)
  case (Cons e es)
  obtain c u where u: "session_step S L e t = (c, u)" by fastforce
  have w: "\<not> with_request_id u" using with_request_id_caps [OF session_step_caps [OF u]] Cons.prems(1) by simp
  have step: "filter (\<lambda>(tok, r). \<not> isl r) (tk_answered u) = filter (\<lambda>(tok, r). \<not> isl r) (tk_answered t) \<and> (\<forall>k. pending u k 0 = None)"
    using session_step_requests [OF assms(1) u]
  proof cases
    case keep
    then show ?thesis using Cons.prems(2) by (simp add: same_requests_def)
  next
    case (wait k rid tok)
    then have "rid \<noteq> 0" using Cons.prems(3) by (metis list.set_intros(1))
    then show ?thesis using wait Cons.prems(2) by simp
  next
    case refuse
    then show ?thesis using Cons.prems(2) by simp
  next
    case deliver
    then show ?thesis using Cons.prems(1,2) by simp
  qed
  show ?case
  proof (cases c)
    case True
    then have "session_run S L es u = (b, t')" using Cons.prems(4) u by simp
    moreover have "\<forall>e k rid tok. e \<in> set es \<and> asks e = Some (k, rid, tok) \<longrightarrow> rid \<noteq> 0"
      using Cons.prems(3) set_subset_Cons [of es e] by blast
    ultimately show ?thesis using Cons.IH [of u] w step by simp
  next
    case False
    then have "t' = notify_disconnect u" using Cons.prems(4) u by simp
    then show ?thesis using step by (simp add: notify_disconnect_def)
  qed
qed simp

subsection \<open>A session of eth/68\<close>

text \<open>A decoder of answers: a byte for the request id, an empty list of the data asked for.\<close>

definition sample_answer :: "eth_message_id \<Rightarrow> eth_message option" where
  "sample_answer i =
     (if i = MBlockHeaders then Some (Headers []) else if i = MBlockBodies then Some (Bodies [])
      else if i = MPooledTransactions then Some (Pooled []) else if i = MReceipts then Some (ReceiptLists [])
      else if i = MNodeData then Some (Nodes []) else None)"

definition sample_slib :: session_lib where
  "sample_slib =
     \<lparr>sl_encode = (\<lambda>w. [1]),
      sl_decode = (\<lambda>b i p. case p of [x] \<Rightarrow> map_option (if b then Paired (ucast x) else Plain) (sample_answer i) | _ \<Rightarrow> None),
      sl_status = (\<lambda>p. None), sl_status69 = (\<lambda>p. None)\<rparr>"

lemma sample_slib_typed: "typed_lib sample_slib"
proof -
  have "sample_answer (answer_id k) = Some m \<Longrightarrow> answers_table m = Some k" for k m by (cases k) (auto simp: sample_answer_def)
  then show ?thesis by (auto simp: typed_lib_def sample_slib_def split: list.splits if_splits)
qed

definition sample_query :: get_block_headers where
  "sample_query = \<lparr>gh_block = NumberOf 0, gh_amount = 1, gh_skip = 0, gh_reverse = False\<rparr>"

definition sample_task :: session_task where
  "sample_task = session_new (sample_end True) ''p'' 1 True True None"

definition legacy_task :: session_task where
  "legacy_task = session_new ((sample_end True)\<lparr>st_caps := [\<lparr>sc_name = ''eth'', sc_version = 65, sc_offset = 16\<rparr>]\<rparr>) ''p'' 1 True True None"

definition sample_events :: "session_event list" where
  "sample_events = [NodeRequest (AskHeaders 7 sample_query 0), NodeRequest (AskBodies 7 [] 1), PeerMessage 20 [7], PeerMessage 20 [7]]"

theorem session_answers_matched_witness:
  "distinct (map fst (tk_answered (snd (session_run sample_slib sample_lib sample_events sample_task)))) \<and>
   list_all (\<lambda>(tok, r). \<exists>k rid. Some (k, rid, tok) \<in> asks ` set sample_events \<and>
       (case r of Inl _ \<Rightarrow> True | Inr (rid', m) \<Rightarrow> rid' = rid \<and> answers_table m = Some k))
     (tk_answered (snd (session_run sample_slib sample_lib sample_events sample_task)))"
proof -
  have "distinct (tokens sample_events)" by (simp add: sample_events_def tokens_def List.map_filter_simps)
  moreover have "session_run sample_slib sample_lib sample_events (session_new (sample_end True) ''p'' 1 True True None) =
      (fst (session_run sample_slib sample_lib sample_events sample_task), snd (session_run sample_slib sample_lib sample_events sample_task))"
    by (simp add: sample_task_def)
  ultimately show ?thesis
    unfolding list_all_iff by (rule session_answers_matched [OF sample_slib_typed])
qed

theorem answer_delivered_witness:
  "\<exists>t'. session_step sample_slib sample_lib (PeerMessage 20 [7]) (sample_task\<lparr>tk_pending_headers := [7 \<mapsto> 3]\<rparr>) = (True, t') \<and>
    tk_answered t' = [(3, Inr (7, Headers []))] \<and> pending t' OfHeaders 7 = None"
proof -
  let ?t = "sample_task\<lparr>tk_pending_headers := [7 \<mapsto> 3]\<rparr>"
  have o: "tk_eth_offset ?t = 16" "tk_answered ?t = []" by (simp_all add: sample_task_def session_new_def sample_cap)
  have v: "with_request_id ?t"
    by (simp add: with_request_id_def stream_eth_version_def sample_task_def session_new_def sample_cap version_try_from_def has_request_id_def)
  then have "unwrap_message sample_slib (answer_id OfHeaders) [7] ?t = Some (7, Headers [])"
    by (simp add: unwrap_message_def sample_slib_def sample_answer_def)
  then show ?thesis
    using answer_delivered [of ?t OfHeaders 7 3 sample_slib "[7]" "Headers []" sample_lib] o by simp
qed

theorem legacy_answers_lost_witness:
  "filter (\<lambda>(tok, r). \<not> isl r) (tk_answered (snd (session_run sample_slib sample_lib sample_events legacy_task))) = []"
proof -
  have "filter (\<lambda>(tok, r). \<not> isl r) (tk_answered (snd (session_run sample_slib sample_lib sample_events legacy_task))) =
      filter (\<lambda>(tok, r). \<not> isl r) (tk_answered legacy_task)"
  proof (rule legacy_answers_lost [OF sample_slib_typed])
    show "\<not> with_request_id legacy_task"
      by (simp add: with_request_id_def stream_eth_version_def legacy_task_def session_new_def find_cap_def version_try_from_def has_request_id_def)
    show "\<forall>k. pending legacy_task k 0 = None"
    proof
      show "pending legacy_task k 0 = None" for k by (cases k) (simp_all add: legacy_task_def session_new_def)
    qed
    show "\<forall>e k rid tok. e \<in> set sample_events \<and> asks e = Some (k, rid, tok) \<longrightarrow> rid \<noteq> 0" by (auto simp: sample_events_def)
    show "session_run sample_slib sample_lib sample_events legacy_task =
        (fst (session_run sample_slib sample_lib sample_events legacy_task), snd (session_run sample_slib sample_lib sample_events legacy_task))" by simp
  qed
  then show ?thesis by (simp add: legacy_task_def session_new_def)
qed

end
