(* ===== verification/PeerRegistry.thy ===== *)
theory PeerRegistry
  imports NetTypes StorageWrite "HOL-Library.AList"
begin

section \<open>The registry of peers\<close>

text \<open>
  \<^verbatim>\<open>wasix_eth_p2p/src/peer/peer_registry.rs\<close>.  The table of sessions is a hash map, here an association list; the metric of
  connected peers and the requests to disconnect that are sent to sessions are part of the state.  Every operation first
  waits two seconds for the lock of the table: \<open>lock\<close> tells whether it got it.  The number of connected peers is taken under the lock
  but published after the lock is released, and after the replaced session was told to disconnect: what is left to do then is in
  \<open>rg_tails\<close>, and each entry is a step of its own, in any order.  Peer ids are strings.
\<close>

subsection \<open>State and operations\<close>

record peer_session =
  ps_is_initiator :: bool
  ps_remote_addr :: string
  ps_last_activity :: nat

type_synonym registered_session = "u64 \<times> peer_session"

text \<open>What a task does after it released the lock: publish the number it saw, and for an ended session forget the stored peer.\<close>

type_synonym registry_tail = "nat \<times> string option"

record peer_registry =
  rg_local_peer_id :: string
  rg_sessions :: "(string \<times> registered_session) list"
  rg_next_session_id :: u64
  rg_connected_peers :: nat
  rg_tails :: "registry_tail list"
  rg_closing :: "(peer_session \<times> disconnect_reason) list"
  rg_events :: "(string \<times> u64) list"
  rg_store :: store

definition peer_registry_new :: "string \<Rightarrow> store \<Rightarrow> peer_registry" where
  "peer_registry_new local_id st =
     \<lparr>rg_local_peer_id = local_id, rg_sessions = [], rg_next_session_id = 1, rg_connected_peers = 0, rg_tails = [], rg_closing = [],
      rg_events = [], rg_store = st\<rparr>"

definition find_session :: "string \<Rightarrow> peer_registry \<Rightarrow> registered_session option" where
  "find_session pid r = map_of (rg_sessions r) pid"

definition next_session_id :: "peer_registry \<Rightarrow> u64 \<times> peer_registry" where
  "next_session_id r = (rg_next_session_id r, r\<lparr>rg_next_session_id := rg_next_session_id r + 1\<rparr>)"

definition close_session :: "peer_session \<Rightarrow> disconnect_reason \<Rightarrow> peer_registry \<Rightarrow> peer_registry" where
  "close_session s reason r = r\<lparr>rg_closing := rg_closing r @ [(s, reason)]\<rparr>"

definition put_session :: "string \<Rightarrow> u64 \<Rightarrow> peer_session \<Rightarrow> peer_registry \<Rightarrow> peer_registry" where
  "put_session pid sid s r =
     (let ss = AList.update pid (sid, s) (rg_sessions r) in r\<lparr>rg_sessions := ss, rg_tails := rg_tails r @ [(length ss, None)]\<rparr>)"

definition register_session_arc :: "bool \<Rightarrow> string \<Rightarrow> u64 \<Rightarrow> peer_session \<Rightarrow> peer_registry \<Rightarrow> peer_registry" where
  "register_session_arc lock pid sid s r =
     (if \<not> lock then close_session s TooManyPeers r
      else case find_session pid r of
          None \<Rightarrow> put_session pid sid s r
        | Some (_, existing) \<Rightarrow>
            let we_are_higher = rg_local_peer_id r > pid;
                keep_existing = (if we_are_higher then ps_is_initiator existing else \<not> ps_is_initiator existing)
            in if keep_existing then close_session s AlreadyConnected r
               else close_session existing AlreadyConnected (put_session pid sid s r))"

text \<open>The task that reads the channel of disconnects.\<close>

definition handle_disconnect_event :: "bool \<Rightarrow> string \<times> u64 \<Rightarrow> peer_registry \<Rightarrow> peer_registry" where
  "handle_disconnect_event lock = (\<lambda>(pid, sid) r.
     if \<not> lock then r
     else case find_session pid r of
         None \<Rightarrow> r
       | Some (current, _) \<Rightarrow>
           if current = sid
           then let ss = AList.delete pid (rg_sessions r)
                in r\<lparr>rg_sessions := ss, rg_tails := rg_tails r @ [(length ss, Some pid)]\<rparr>
           else r)"

definition finish_tail :: "nat \<Rightarrow> peer_registry \<Rightarrow> peer_registry" where
  "finish_tail i r =
     (if i < length (rg_tails r) then
        case rg_tails r ! i of (len, forgotten) \<Rightarrow>
          r\<lparr>rg_tails := take i (rg_tails r) @ drop (Suc i) (rg_tails r), rg_connected_peers := len,
            rg_store := (case forgotten of Some pid \<Rightarrow> snd (remove_peer pid (rg_store r)) | None \<Rightarrow> rg_store r)\<rparr>
      else r)"

definition is_current_session :: "bool \<Rightarrow> string \<Rightarrow> u64 \<Rightarrow> peer_registry \<Rightarrow> bool" where
  "is_current_session lock pid sid r =
     (lock \<and> (case find_session pid r of None \<Rightarrow> False | Some (current, _) \<Rightarrow> current = sid))"

definition get_session :: "bool \<Rightarrow> string \<Rightarrow> peer_registry \<Rightarrow> peer_session option" where
  "get_session lock pid r = (if lock then map_option snd (find_session pid r) else None)"

definition get_all_sessions :: "bool \<Rightarrow> peer_registry \<Rightarrow> peer_session list" where
  "get_all_sessions lock r = (if lock then map (\<lambda>(pid, sid, s). s) (rg_sessions r) else [])"

definition disconnect_peer :: "bool \<Rightarrow> string \<Rightarrow> peer_registry \<Rightarrow> peer_registry" where
  "disconnect_peer lock pid r =
     (if lock then case find_session pid r of None \<Rightarrow> r | Some (sid, _) \<Rightarrow> r\<lparr>rg_events := rg_events r @ [(pid, sid)]\<rparr>
      else r)"

text \<open>Times are in milliseconds; a session without activity for more than 30 seconds is told to disconnect.\<close>

definition cleanup_stale_peers :: "bool \<Rightarrow> nat \<Rightarrow> peer_registry \<Rightarrow> peer_registry" where
  "cleanup_stale_peers lock now r =
     fold (\<lambda>s r. if now - ps_last_activity s > 30000 then close_session s PingTimeout r else r) (get_all_sessions lock r) r"

definition stored_peers :: "db \<Rightarrow> storage_error + peer_entry list" where
  "stored_peers d = (if db_opens d TActivePeers then Inr (map snd (tbl_iter (t_active_peers d))) else Inl (TableError TActivePeers))"

definition get_active_peers :: "bool \<Rightarrow> peer_registry \<Rightarrow> storage_error + peer_entry list" where
  "get_active_peers lock r =
     rbind (stored_peers (s_db (rg_store r))) (\<lambda>peers.
       Inr (if lock
            then fold (\<lambda>(pid, sid, s) ps.
                   if list_ex (\<lambda>p. pe_peer_id p = pid) ps then ps
                   else ps @ [\<lparr>pe_peer_id = pid, pe_discovery_addr = ps_remote_addr s, pe_p2p_addr = ps_remote_addr s\<rparr>])
                 (rg_sessions r) peers
            else peers))"

text \<open>A connection whose handshake succeeded, as the server and the dialer register it.\<close>

definition add_connection :: "bool \<Rightarrow> peer_entry \<Rightarrow> peer_session \<Rightarrow> peer_registry \<Rightarrow> peer_registry" where
  "add_connection lock entry s r =
     (let r = r\<lparr>rg_store := snd (register_peer entry (rg_store r))\<rparr> in
      case next_session_id r of (sid, r) \<Rightarrow> register_session_arc lock (pe_peer_id entry) sid s r)"

subsection \<open>The table stays consistent\<close>

datatype registry_op = Connect bool peer_entry peer_session | Report bool "string \<times> u64" | Drop bool string | Cleanup bool nat
  | Finish nat

fun registry_step :: "registry_op \<Rightarrow> peer_registry \<Rightarrow> peer_registry" where
  "registry_step (Connect lock e s) r = add_connection lock e s r"
| "registry_step (Report lock ev) r = handle_disconnect_event lock ev r"
| "registry_step (Drop lock pid) r = disconnect_peer lock pid r"
| "registry_step (Cleanup lock now) r = cleanup_stale_peers lock now r"
| "registry_step (Finish i) r = finish_tail i r"

definition registry_inv :: "nat \<Rightarrow> peer_registry \<Rightarrow> bool" where
  "registry_inv n r \<longleftrightarrow>
     distinct (map fst (rg_sessions r)) \<and>
     unat (rg_next_session_id r) = Suc n \<and> distinct (map (fst \<circ> snd) (rg_sessions r)) \<and>
     list_all (\<lambda>e. unat (fst (snd e)) \<le> n) (rg_sessions r)"

text \<open>The published number is that of the table, or the last tail will make it so.\<close>

definition count_pending :: "peer_registry \<Rightarrow> bool" where
  "count_pending r \<longleftrightarrow> (if rg_tails r = [] then rg_connected_peers r else fst (last (rg_tails r))) = length (rg_sessions r)"

lemma register_session_cases:
  obtains "register_session_arc lock pid sid s r = close_session s (if lock then AlreadyConnected else TooManyPeers) r"
      "lock \<Longrightarrow> find_session pid r \<noteq> None"
  | "lock" "find_session pid r = None" "register_session_arc lock pid sid s r = put_session pid sid s r"
  | old existing where "lock" "find_session pid r = Some (old, existing)"
      "ps_is_initiator existing = (\<not> rg_local_peer_id r > pid)"
      "register_session_arc lock pid sid s r = close_session existing AlreadyConnected (put_session pid sid s r)"
  by (cases lock; cases "find_session pid r"; cases "rg_local_peer_id r > pid"; cases "ps_is_initiator (snd (the (find_session pid r)))")
     (auto simp: register_session_arc_def Let_def)

lemma put_session_simps [simp]:
  "rg_sessions (put_session pid sid s r) = AList.update pid (sid, s) (rg_sessions r)"
  "rg_tails (put_session pid sid s r) = rg_tails r @ [(length (AList.update pid (sid, s) (rg_sessions r)), None)]"
  "rg_next_session_id (put_session pid sid s r) = rg_next_session_id r" "rg_closing (put_session pid sid s r) = rg_closing r"
  "rg_local_peer_id (put_session pid sid s r) = rg_local_peer_id r"
  by (simp_all add: put_session_def Let_def)

lemma close_session_simps [simp]:
  "rg_sessions (close_session s d r) = rg_sessions r" "rg_connected_peers (close_session s d r) = rg_connected_peers r"
  "rg_tails (close_session s d r) = rg_tails r"
  "rg_next_session_id (close_session s d r) = rg_next_session_id r" "rg_closing (close_session s d r) = rg_closing r @ [(s, d)]"
  "rg_local_peer_id (close_session s d r) = rg_local_peer_id r"
  by (simp_all add: close_session_def)

lemma set_update_subset: "set (AList.update k v ss) \<subseteq> insert (k, v) (set ss)"
  by (induction ss) auto

lemma ids_update:
  assumes "distinct (map (fst \<circ> snd) ss)" "sid \<notin> (fst \<circ> snd) ` set ss"
  shows "distinct (map (fst \<circ> snd) (AList.update pid (sid, s) ss))"
  using assms
proof (induction ss)
  case (Cons e ss)
  have "(fst \<circ> snd) ` set (AList.update pid (sid, s) ss) \<subseteq> insert sid ((fst \<circ> snd) ` set ss)"
    using set_update_subset [of pid "(sid, s)" ss] by fastforce
  then show ?case using Cons by (cases e) auto
qed simp

lemma all_update: "list_all P ss \<Longrightarrow> P (pid, v) \<Longrightarrow> list_all P (AList.update pid v ss)"
  by (induction ss) auto

lemma registry_inv_put:
  assumes inv: "distinct (map fst (rg_sessions r))" "distinct (map (fst \<circ> snd) (rg_sessions r))"
    "list_all (\<lambda>e. unat (fst (snd e)) \<le> n) (rg_sessions r)" and "unat (rg_next_session_id r) = Suc (Suc n)" "unat sid = Suc n"
  shows "registry_inv (Suc n) (put_session pid sid s r)"
proof -
  have "sid \<notin> (fst \<circ> snd) ` set (rg_sessions r)" using inv(3) assms(5) by (auto simp: list_all_iff)
  moreover have "list_all (\<lambda>e. unat (fst (snd e)) \<le> Suc n) (rg_sessions r)" using inv(3) by (auto simp: list_all_iff intro: le_SucI)
  ultimately show ?thesis
    using inv assms(4,5) by (simp add: registry_inv_def distinct_update ids_update all_update)
qed

lemma registry_inv_step:
  assumes inv: "registry_inv n r" and "Suc (Suc n) < 2 ^ 64"
  shows "registry_inv (case op of Connect _ _ _ \<Rightarrow> Suc n | _ \<Rightarrow> n) (registry_step op r)"
proof (cases op)
  case (Connect lock e s)
  define r1 where "r1 = snd (next_session_id (r\<lparr>rg_store := snd (register_peer e (rg_store r))\<rparr>))"
  have r1: "rg_sessions r1 = rg_sessions r" "rg_next_session_id r1 = rg_next_session_id r + 1"
    by (simp_all add: r1_def next_session_id_def)
  have id: "unat (rg_next_session_id r) = Suc n" using inv by (simp add: registry_inv_def)
  have nx: "unat (rg_next_session_id r1) = Suc (Suc n)"
    using id assms(2) r1(2) by (simp add: unat_plus_if_size word_size)
  have step: "registry_step op r = register_session_arc lock (pe_peer_id e) (rg_next_session_id r) s r1"
    by (simp add: Connect add_connection_def Let_def r1_def next_session_id_def)
  note put = registry_inv_put [of r1 n "rg_next_session_id r" "pe_peer_id e" s]
  have keep: "registry_inv (Suc n) (close_session s d r1)" for d
    using inv r1 nx by (auto simp: registry_inv_def list_all_iff intro: le_SucI)
  have "registry_inv (Suc n) (register_session_arc lock (pe_peer_id e) (rg_next_session_id r) s r1)"
  proof (cases rule: register_session_cases [of lock "pe_peer_id e" "rg_next_session_id r" s r1])
    case 1
    then show ?thesis using keep by simp
  next
    case 2
    then show ?thesis using put inv r1 nx id by (simp add: registry_inv_def)
  next
    case (3 old existing)
    then show ?thesis using put inv r1 nx id by (simp add: registry_inv_def)
  qed
  then show ?thesis using Connect step by simp
next
  case (Report lock ev)
  then show ?thesis
    using inv
    by (auto simp: handle_disconnect_event_def registry_inv_def AList.delete_eq distinct_map_filter list_all_iff Let_def
        split: prod.splits option.splits)
next
  case (Drop lock pid)
  then show ?thesis using inv by (auto simp: disconnect_peer_def registry_inv_def split: option.splits)
next
  case (Cleanup lock now)
  have "registry_inv n (fold (\<lambda>s r. if now - ps_last_activity s > 30000 then close_session s PingTimeout r else r) ss r)" if "registry_inv n r" for ss r
    using that by (induction ss arbitrary: r) (simp_all add: registry_inv_def)
  then show ?thesis using inv Cleanup by (simp add: cleanup_stale_peers_def)
next
  case (Finish i)
  then show ?thesis using inv by (simp add: finish_tail_def registry_inv_def split: prod.splits)
qed

text \<open>Tails that are finished in the order in which their tasks held the lock keep the number right.\<close>

definition in_order :: "registry_op list \<Rightarrow> bool" where
  "in_order ops \<longleftrightarrow> list_all (\<lambda>op. case op of Finish i \<Rightarrow> i = 0 | _ \<Rightarrow> True) ops"

lemma cleanup_keeps:
  "rg_sessions (cleanup_stale_peers lock now r) = rg_sessions r" "rg_tails (cleanup_stale_peers lock now r) = rg_tails r"
  "rg_connected_peers (cleanup_stale_peers lock now r) = rg_connected_peers r"
proof -
  have "rg_sessions (fold (\<lambda>s r. if now - ps_last_activity s > 30000 then close_session s PingTimeout r else r) ss r) = rg_sessions r \<and>
    rg_tails (fold (\<lambda>s r. if now - ps_last_activity s > 30000 then close_session s PingTimeout r else r) ss r) = rg_tails r \<and>
    rg_connected_peers (fold (\<lambda>s r. if now - ps_last_activity s > 30000 then close_session s PingTimeout r else r) ss r) = rg_connected_peers r"
    for ss r by (induction ss arbitrary: r) simp_all
  then show "rg_sessions (cleanup_stale_peers lock now r) = rg_sessions r" "rg_tails (cleanup_stale_peers lock now r) = rg_tails r"
    "rg_connected_peers (cleanup_stale_peers lock now r) = rg_connected_peers r"
    by (simp_all add: cleanup_stale_peers_def)
qed

lemma count_pending_step:
  assumes "count_pending r" and "in_order [op]"
  shows "count_pending (registry_step op r)"
proof (cases op)
  case (Connect lock e s)
  define r1 where "r1 = snd (next_session_id (r\<lparr>rg_store := snd (register_peer e (rg_store r))\<rparr>))"
  have r1: "count_pending r1" using assms(1) by (auto simp: r1_def next_session_id_def count_pending_def split: if_splits)
  have "registry_step op r = register_session_arc lock (pe_peer_id e) (rg_next_session_id r) s r1"
    by (simp add: Connect add_connection_def Let_def r1_def next_session_id_def)
  then show ?thesis
    using r1 by (cases rule: register_session_cases [of lock "pe_peer_id e" "rg_next_session_id r" s r1])
      (auto simp: count_pending_def split: if_splits)
next
  case (Report lock ev)
  then show ?thesis
    using assms(1) by (auto simp: handle_disconnect_event_def count_pending_def Let_def split: prod.splits option.splits)
next
  case (Drop lock pid)
  then show ?thesis using assms(1) by (auto simp: disconnect_peer_def count_pending_def split: option.splits)
next
  case (Cleanup lock now)
  then show ?thesis using assms(1) by (auto simp: count_pending_def cleanup_keeps split: if_splits)
next
  case (Finish i)
  then show ?thesis
    using assms by (cases "rg_tails r") (auto simp: finish_tail_def count_pending_def in_order_def split: prod.splits)
qed

definition connects :: "registry_op list \<Rightarrow> nat" where
  "connects ops = length (filter (\<lambda>op. case op of Connect _ _ _ \<Rightarrow> True | _ \<Rightarrow> False) ops)"

text \<open>C33: however peers connect, sessions end and stale ones are cleaned up, and whatever locks time out, the registry has at
  most one session per peer and every session has its own id, as long as fewer than $2^{64} - 2$ connections were made.  If moreover
  the tasks publish the number of connected peers in the order in which they held the lock, then the published number is that of
  the table once nothing is left to publish.\<close>

theorem registry_consistent:
  assumes "connects ops + 2 < 2 ^ 64"
  shows "registry_inv (connects ops) (fold registry_step ops (peer_registry_new l st)) \<and>
    (in_order ops \<longrightarrow> rg_tails (fold registry_step ops (peer_registry_new l st)) = [] \<longrightarrow>
      rg_connected_peers (fold registry_step ops (peer_registry_new l st)) =
        length (rg_sessions (fold registry_step ops (peer_registry_new l st))))"
proof -
  have c: "count_pending (fold registry_step ops r)" if "count_pending r" "in_order ops" for r
    using that count_pending_step by (induction ops arbitrary: r) (auto simp: in_order_def)
  have "registry_inv (n + connects ops) (fold registry_step ops r)" if "registry_inv n r" "n + connects ops + 2 < 2 ^ 64" for n r
    using that
  proof (induction ops arbitrary: n r)
    case (Cons op ops)
    show ?case
    proof (cases "\<exists>lock e s. op = Connect lock e s")
      case True
      then have "registry_inv (Suc n) (registry_step op r)" "connects (op # ops) = Suc (connects ops)"
        using registry_inv_step [OF Cons.prems(1), of op] Cons.prems(2) by (auto simp: connects_def)
      then show ?thesis using Cons.IH [of "Suc n" "registry_step op r"] Cons.prems(2) by simp
    next
      case False
      then have "registry_inv n (registry_step op r)" "connects (op # ops) = connects ops"
        using registry_inv_step [OF Cons.prems(1), of op] Cons.prems(2) by (auto simp: connects_def split: registry_op.splits)
      then show ?thesis using Cons.IH [of n "registry_step op r"] Cons.prems(2) by simp
    qed
  qed (simp add: connects_def)
  from this [of 0 "peer_registry_new l st"]
  have "registry_inv (connects ops) (fold registry_step ops (peer_registry_new l st))"
    using assms by (simp add: registry_inv_def peer_registry_new_def)
  moreover have "count_pending (peer_registry_new l st)" by (simp add: count_pending_def peer_registry_new_def)
  ultimately show ?thesis using c [of "peer_registry_new l st"] by (auto simp: count_pending_def)
qed

text \<open>Nothing makes the tasks do so.  Two peers connect, the second task publishes its number first: two sessions, one connected
  peer, and nothing left to correct it.\<close>

theorem connected_count_left_wrong:
  "\<exists>ops. let r = fold registry_step ops (peer_registry_new l st) in
     rg_tails r = [] \<and> length (rg_sessions r) = 2 \<and> rg_connected_peers r = 1"
proof -
  let ?e = "\<lambda>p. \<lparr>pe_peer_id = p, pe_discovery_addr = [], pe_p2p_addr = []\<rparr>"
  let ?s = "\<lparr>ps_is_initiator = True, ps_remote_addr = [], ps_last_activity = 0\<rparr>"
  show ?thesis
    by (rule exI [of _ "[Connect True (?e ''p'') ?s, Connect True (?e ''q'') ?s, Finish 1, Finish 0]"])
      (simp add: add_connection_def register_session_arc_def next_session_id_def find_session_def peer_registry_new_def
        put_session_def finish_tail_def Let_def)
qed

subsection \<open>Which sessions leave the table\<close>

text \<open>C34: a session leaves the table only when its own end is reported or when the tie-break replaces it, and then it is told
  to disconnect; reports about sessions that were replaced or refused change nothing.\<close>

theorem session_leaves_only:
  assumes "find_session pid r = Some (sid, s)" "find_session pid (registry_step op r) \<noteq> Some (sid, s)"
  shows "(\<exists>lock. op = Report lock (pid, sid)) \<or>
         (\<exists>lock e s'. op = Connect lock e s' \<and> pe_peer_id e = pid \<and> (s, AlreadyConnected) \<in> set (rg_closing (registry_step op r)))"
proof (cases op)
  case (Connect lock e s')
  define r1 where "r1 = snd (next_session_id (r\<lparr>rg_store := snd (register_peer e (rg_store r))\<rparr>))"
  have f: "find_session q r1 = find_session q r" for q by (simp add: r1_def next_session_id_def find_session_def)
  have step: "registry_step op r = register_session_arc lock (pe_peer_id e) (rg_next_session_id r) s' r1"
    by (simp add: Connect add_connection_def Let_def r1_def next_session_id_def)
  have upd: "find_session pid (put_session q i v r1) = (if pid = q then Some (i, v) else find_session pid r)" for q i v
    using f by (simp add: find_session_def update_conv')
  show ?thesis
  proof (cases rule: register_session_cases [of lock "pe_peer_id e" "rg_next_session_id r" s' r1])
    case 1
    then show ?thesis using assms step f by (simp add: find_session_def)
  next
    case 2
    then show ?thesis using assms step f upd by (auto split: if_splits)
  next
    case (3 old existing)
    then have "find_session pid (registry_step op r) = (if pid = pe_peer_id e then Some (rg_next_session_id r, s') else find_session pid r)"
      using step upd by (simp add: find_session_def)
    then have "pid = pe_peer_id e" using assms by (auto split: if_splits)
    then show ?thesis using 3 assms(1) f step Connect by auto
  qed
next
  case (Report lock ev)
  then show ?thesis
    using assms
    by (cases ev) (auto simp: handle_disconnect_event_def find_session_def delete_conv' Let_def split: option.splits if_splits)
next
  case (Drop lock q)
  then show ?thesis using assms by (auto simp: disconnect_peer_def find_session_def split: option.splits if_splits)
next
  case (Cleanup lock now)
  have "rg_sessions (fold (\<lambda>s r. if now - ps_last_activity s > 30000 then close_session s PingTimeout r else r) ss r) = rg_sessions r" for ss r
    by (induction ss arbitrary: r) simp_all
  then show ?thesis using assms Cleanup by (simp add: cleanup_stale_peers_def find_session_def)
next
  case (Finish i)
  then show ?thesis using assms by (auto simp: finish_tail_def find_session_def split: prod.splits if_splits)
qed

subsection \<open>Two connections at the same time\<close>

text \<open>Two sessions with the same peer, registered in either order.\<close>

definition register_two :: "bool \<Rightarrow> string \<Rightarrow> registered_session \<Rightarrow> registered_session \<Rightarrow> peer_registry \<Rightarrow> peer_registry" where
  "register_two order pid a b r =
     (let reg = (\<lambda>(i, s). register_session_arc True pid i s) in if order then reg b (reg a r) else reg a (reg b r))"

lemma tie_break:
  assumes "find_session pid r = None" "ps_is_initiator s1 \<noteq> ps_is_initiator s2"
  shows "\<exists>kept lost. {(i1, s1), (i2, s2)} = {kept, lost} \<and> find_session pid (register_two order pid (i1, s1) (i2, s2) r) = Some kept \<and>
           ps_is_initiator (snd kept) = (rg_local_peer_id r > pid) \<and>
           rg_closing (register_two order pid (i1, s1) (i2, s2) r) = rg_closing r @ [(snd lost, AlreadyConnected)]"
proof -
  have one: "register_session_arc True pid i s r = put_session pid i s r" for i s
    using assms(1) by (simp add: register_session_arc_def)
  have found: "find_session pid (put_session pid i s r') = Some (i, s)" for i s r' by (simp add: find_session_def update_conv')
  have two: "\<exists>kept lost. {(i, s), (j, t)} = {kept, lost} \<and>
       find_session pid (register_session_arc True pid j t (put_session pid i s r)) = Some kept \<and>
       ps_is_initiator (snd kept) = (rg_local_peer_id r > pid) \<and>
       rg_closing (register_session_arc True pid j t (put_session pid i s r)) = rg_closing r @ [(snd lost, AlreadyConnected)]"
    if st: "ps_is_initiator t = (\<not> ps_is_initiator s)" for i s j t
  proof (cases "ps_is_initiator s = (rg_local_peer_id r > pid)")
    case True
    then have "register_session_arc True pid j t (put_session pid i s r) = close_session t AlreadyConnected (put_session pid i s r)"
      by (simp add: register_session_arc_def found)
    then show ?thesis using True found by (intro exI [of _ "(i, s)"] exI [of _ "(j, t)"]) (simp add: find_session_def)
  next
    case False
    then have "register_session_arc True pid j t (put_session pid i s r) =
        close_session s AlreadyConnected (put_session pid j t (put_session pid i s r))"
      by (auto simp: register_session_arc_def found)
    then show ?thesis
      using False st found by (intro exI [of _ "(j, t)"] exI [of _ "(i, s)"]) (auto simp: find_session_def update_conv')
  qed
  show ?thesis
  proof (cases order)
    case True
    then show ?thesis using two [of s2 s1 i1 i2] assms(2) by (simp add: register_two_def one)
  next
    case False
    then show ?thesis using two [of s1 s2 i2 i1] assms(2) by (simp add: register_two_def one insert_commute)
  qed
qed

text \<open>Of two connections that two nodes open to each other at the same time the registry keeps exactly one and tells the
  other to disconnect, in whichever order they are registered: it keeps the one it opened itself exactly if its own id is
  the higher of the two.  So if both nodes compare the same two ids, both keep the same connection.\<close>

theorem tie_break_keeps_one:
  assumes "find_session pid r = None" "ps_is_initiator s1 \<noteq> ps_is_initiator s2"
  shows "\<exists>kept lost. {(i1, s1), (i2, s2)} = {kept, lost} \<and> find_session pid (register_two order pid (i1, s1) (i2, s2) r) = Some kept \<and>
           ps_is_initiator (snd kept) = (rg_local_peer_id r > pid) \<and>
           rg_closing (register_two order pid (i1, s1) (i2, s2) r) = rg_closing r @ [(snd lost, AlreadyConnected)]"
  using tie_break [OF assms] .

text \<open>
  The two ids are not written alike.  The own one is the hexadecimal SEC1 encoding of the public key
  (\<open>Identity::peer_id\<close>), whose first byte is 2, 3 or 4; that of a peer is the debug form of its 64 bytes, with \<open>0x\<close> in front.
\<close>

definition hex_digit :: "nat \<Rightarrow> char" where
  "hex_digit n = ''0123456789abcdef'' ! n"

definition hex_encode :: "bytes \<Rightarrow> string" where
  "hex_encode b = concat (map (\<lambda>x. [hex_digit (unat x div 16), hex_digit (unat x mod 16)]) b)"

definition local_peer_id_of :: "bytes \<Rightarrow> string" where
  "local_peer_id_of sec1 = hex_encode sec1"

definition remote_peer_id_of :: "bytes \<Rightarrow> string" where
  "remote_peer_id_of b512 = ''0x'' @ hex_encode b512"

lemma local_id_never_higher:
  assumes "hd sec1 \<in> {2, 3, 4}" "sec1 \<noteq> []"
  shows "\<not> local_peer_id_of sec1 > remote_peer_id_of b"
proof -
  obtain x xs where x: "sec1 = x # xs" "x \<in> {2, 3, 4}" using assms by (cases sec1) auto
  have lt: "CHR ''2'' < CHR ''x''" "CHR ''3'' < CHR ''x''" "CHR ''4'' < CHR ''x''" by (simp_all add: less_char_def)
  from x(2) lt have "local_peer_id_of sec1 < remote_peer_id_of b"
    by (auto simp: x(1) local_peer_id_of_def remote_peer_id_of_def hex_encode_def hex_digit_def)
  then show ?thesis by simp
qed

text \<open>C35: as the ids are compared, no node ever has the higher one.  When two nodes connect to each other at the same time,
  each keeps the connection the other opened and closes its own, so that both connections are closed.\<close>

theorem simultaneous_connections_lost:
  assumes "rg_local_peer_id a = local_peer_id_of ka" "rg_local_peer_id b = local_peer_id_of kb"
    and "ka \<noteq> []" "hd ka \<in> {2, 3, 4}" "kb \<noteq> []" "hd kb \<in> {2, 3, 4}"
    and "find_session (remote_peer_id_of pb) a = None" "find_session (remote_peer_id_of pa) b = None"
    and "ps_is_initiator sa" "\<not> ps_is_initiator sb" "\<not> ps_is_initiator ta" "ps_is_initiator tb"
  shows "(sa, AlreadyConnected) \<in> set (rg_closing (register_two o1 (remote_peer_id_of pb) (i, sa) (j, ta) a)) \<and>
         (tb, AlreadyConnected) \<in> set (rg_closing (register_two o2 (remote_peer_id_of pa) (k, sb) (l, tb) b))"
proof -
  have higher: "\<not> rg_local_peer_id a > remote_peer_id_of pb" "\<not> rg_local_peer_id b > remote_peer_id_of pa"
    using local_id_never_higher assms(1-6) by simp_all
  obtain kept lost where one: "{(i, sa), (j, ta)} = {kept, lost}" "\<not> ps_is_initiator (snd kept)"
    "rg_closing (register_two o1 (remote_peer_id_of pb) (i, sa) (j, ta) a) = rg_closing a @ [(snd lost, AlreadyConnected)]"
    using tie_break [OF assms(7), of sa ta i j o1] assms(9,11) higher(1) by auto
  obtain kept' lost' where two: "{(k, sb), (l, tb)} = {kept', lost'}" "\<not> ps_is_initiator (snd kept')"
    "rg_closing (register_two o2 (remote_peer_id_of pa) (k, sb) (l, tb) b) = rg_closing b @ [(snd lost', AlreadyConnected)]"
    using tie_break [OF assms(8), of sb tb k l o2] assms(10,12) higher(2) by auto
  have "snd lost = sa" using one(1,2) assms(9) by (auto simp: doubleton_eq_iff)
  moreover have "snd lost' = tb" using two(1,2) assms(12) by (auto simp: doubleton_eq_iff)
  ultimately show ?thesis using one(3) two(3) by simp
qed

subsection \<open>Witnesses\<close>

definition sample_session :: "bool \<Rightarrow> peer_session" where
  "sample_session b = \<lparr>ps_is_initiator = b, ps_remote_addr = ''10.0.0.1'', ps_last_activity = 0\<rparr>"

definition sample_entry :: "string \<Rightarrow> peer_entry" where
  "sample_entry p = \<lparr>pe_peer_id = p, pe_discovery_addr = ''a'', pe_p2p_addr = ''a''\<rparr>"

definition sample_registry :: "bytes \<Rightarrow> peer_registry" where
  "sample_registry k = peer_registry_new (local_peer_id_of k) (new_provider empty_db)"

definition sample_ops :: "registry_op list" where
  "sample_ops = [Connect True (sample_entry ''p'') (sample_session True), Connect True (sample_entry ''q'') (sample_session False),
     Finish 0, Report True (''p'', 1), Finish 0, Finish 0]"

theorem registry_consistent_witness:
  "registry_inv 2 (fold registry_step sample_ops (peer_registry_new ''n'' (new_provider empty_db))) \<and>
    rg_connected_peers (fold registry_step sample_ops (peer_registry_new ''n'' (new_provider empty_db))) = 1"
proof -
  have s: "connects sample_ops = 2" "in_order sample_ops" by (simp_all add: sample_ops_def connects_def in_order_def)
  have r: "rg_tails (fold registry_step sample_ops (peer_registry_new ''n'' (new_provider empty_db))) = []"
    "length (rg_sessions (fold registry_step sample_ops (peer_registry_new ''n'' (new_provider empty_db)))) = 1"
    by (simp_all add: sample_ops_def add_connection_def register_session_arc_def next_session_id_def find_session_def
        peer_registry_new_def put_session_def finish_tail_def handle_disconnect_event_def sample_entry_def Let_def)
  show ?thesis
    using registry_consistent [of sample_ops "''n''" "new_provider empty_db"] s r by simp
qed

lemma registered_sample:
  "find_session ''p'' (register_session_arc True ''p'' 1 s (sample_registry [2])) = Some (1, s)"
  by (simp add: register_session_arc_def find_session_def sample_registry_def peer_registry_new_def)

theorem session_leaves_only_witness:
  "find_session ''p'' (register_session_arc True ''p'' 1 (sample_session True) (sample_registry [2])) = Some (1, sample_session True) \<and>
   find_session ''p'' (registry_step (Report True (''p'', 1))
     (register_session_arc True ''p'' 1 (sample_session True) (sample_registry [2]))) = None \<and>
   ((\<exists>lock. Report True (''p'', 1) = Report lock (''p'', 1)) \<or>
    (\<exists>lock e s'. Report True (''p'', 1 :: u64) = Connect lock e s' \<and> pe_peer_id e = ''p'' \<and>
     (sample_session True, AlreadyConnected) \<in>
       set (rg_closing (registry_step (Report True (''p'', 1)) (register_session_arc True ''p'' 1 (sample_session True) (sample_registry [2]))))))"
proof -
  let ?r = "register_session_arc True ''p'' 1 (sample_session True) (sample_registry [2])"
  note found = registered_sample [of "sample_session True"]
  have gone: "find_session ''p'' (registry_step (Report True (''p'', 1)) ?r) = None"
    using found by (simp add: handle_disconnect_event_def Let_def) (simp add: find_session_def delete_conv')
  then have "find_session ''p'' (registry_step (Report True (''p'', 1)) ?r) \<noteq> Some (1, sample_session True)" by simp
  from session_leaves_only [OF found this] show ?thesis using found gone by (intro conjI)
qed

theorem tie_break_keeps_one_witness:
  "\<exists>kept lost. {(1, sample_session True), (2, sample_session False)} = {kept, lost} \<and>
     find_session ''p'' (register_two True ''p'' (1, sample_session True) (2, sample_session False) (sample_registry [2])) = Some kept \<and>
     ps_is_initiator (snd kept) = (rg_local_peer_id (sample_registry [2]) > ''p'') \<and>
     rg_closing (register_two True ''p'' (1, sample_session True) (2, sample_session False) (sample_registry [2])) =
       rg_closing (sample_registry [2]) @ [(snd lost, AlreadyConnected)]"
  by (rule tie_break_keeps_one) (simp_all add: find_session_def sample_registry_def peer_registry_new_def sample_session_def)

theorem simultaneous_connections_lost_witness:
  "(sample_session True, AlreadyConnected) \<in>
     set (rg_closing (register_two True (remote_peer_id_of [7]) (1, sample_session True) (2, sample_session False) (sample_registry [2]))) \<and>
   (sample_session True, AlreadyConnected) \<in>
     set (rg_closing (register_two False (remote_peer_id_of [9]) (1, sample_session False) (2, sample_session True) (sample_registry [3])))"
  by (rule simultaneous_connections_lost [where ka = "[2]" and kb = "[3]"])
     (simp_all add: find_session_def sample_registry_def peer_registry_new_def sample_session_def)

end
