(* ===== verification/Sync.thy ===== *)
theory Sync
  imports EngineFacts RpcEngine NetTypes "HOL-Library.Sublist"
begin

section \<open>Synchronisation\<close>

text \<open>
  \<^verbatim>\<open>wasix_eth_core/src/sync\<close>: \<^verbatim>\<open>downloader.rs\<close>, \<^verbatim>\<open>processor.rs\<close>, \<^verbatim>\<open>controller.rs\<close> and \<^verbatim>\<open>sync_orchestrator.rs\<close>.  The peers are a
  parameter: \<open>peer_net\<close> reads and changes a state \<open>'n\<close> of the network, so that every answer may depend on all requests
  before it.  \<open>None\<close> is a call that never returns (\<open>forkchoiceUpdated\<close> walks the chain of blocks).  Messages to the log and
  metrics are left out.
\<close>

subsection \<open>Peers and downloads\<close>

datatype fetch_error = FetchTimedOut | FetchSessionClosed | FetchChannelClosed | NoSession | NothingReturned | FetchOther string

text \<open>Of a session: the total difficulty of its status, if it has one, and its best height.\<close>

record 'n peer_net =
  pn_active :: "'n \<Rightarrow> string list option"
  pn_session :: "string \<Rightarrow> 'n \<Rightarrow> (u256 option \<times> u64) option"
  pn_headers :: "string \<Rightarrow> block_hash_or_number \<Rightarrow> u64 \<Rightarrow> 'n \<Rightarrow> (fetch_error + header list) \<times> 'n"
  pn_bodies :: "string \<Rightarrow> b256 list \<Rightarrow> 'n \<Rightarrow> (fetch_error + body list) \<times> 'n"
  pn_pooled :: "string \<Rightarrow> b256 list \<Rightarrow> 'n \<Rightarrow> (fetch_error + pooled_tx list) \<times> 'n"
  pn_disconnect :: "string \<Rightarrow> 'n \<Rightarrow> 'n"
  pn_choose :: "string list \<Rightarrow> 'n \<Rightarrow> string"

definition better_peer :: "u256 \<Rightarrow> u64 \<Rightarrow> u256 \<Rightarrow> u64 \<Rightarrow> bool" where
  "better_peer td height max_td max_height =
     (if td > max_td then True
      else if td = max_td \<and> td > 0 then height > max_height
      else if td = 0 then height > max_height else False)"

definition best_peer_step ::
  "'n peer_net \<Rightarrow> 'n \<Rightarrow> string \<Rightarrow> (string \<times> u256 \<times> u64) option \<times> u256 \<times> u64 \<Rightarrow> (string \<times> u256 \<times> u64) option \<times> u256 \<times> u64" where
  "best_peer_step P n pid = (\<lambda>(best, max_td, max_height).
     case pn_session P pid n of
       None \<Rightarrow> (best, max_td, max_height)
     | Some (st, height) \<Rightarrow>
         let td = unwrap_or st 0 in
         if better_peer td height max_td max_height then (Some (pid, td, height), td, height) else (best, max_td, max_height))"

definition get_best_peer :: "'n peer_net \<Rightarrow> 'n \<Rightarrow> (string \<times> u256 \<times> u64) option" where
  "get_best_peer P n = (case pn_active P n of None \<Rightarrow> None | Some ids \<Rightarrow> fst (fold (best_peer_step P n) ids (None, 0, 0)))"

definition get_any_peer :: "'n peer_net \<Rightarrow> 'n \<Rightarrow> string option" where
  "get_any_peer P n = (case pn_active P n of None \<Rightarrow> None | Some ids \<Rightarrow> if ids = [] then None else Some (pn_choose P ids n))"

text \<open>A peer whose session is closed is reported as disconnected.\<close>

definition report_closed :: "'n peer_net \<Rightarrow> string \<Rightarrow> (fetch_error + 'a) \<times> 'n \<Rightarrow> (fetch_error + 'a) \<times> 'n" where
  "report_closed P pid = (\<lambda>(r, n).
     (r, case r of Inl e \<Rightarrow> if e = FetchSessionClosed \<or> e = FetchChannelClosed then pn_disconnect P pid n else n | Inr _ \<Rightarrow> n))"

definition download_headers :: "'n peer_net \<Rightarrow> string \<Rightarrow> u64 \<Rightarrow> u64 \<Rightarrow> ('n, fetch_error, header list) act" where
  "download_headers P pid start amount n =
     (if pn_session P pid n = None then (Inl NoSession, n) else report_closed P pid (pn_headers P pid (NumberOf start) amount n))"

definition download_bodies :: "'n peer_net \<Rightarrow> string \<Rightarrow> b256 list \<Rightarrow> ('n, fetch_error, body list) act" where
  "download_bodies P pid hashes n =
     (if pn_session P pid n = None then (Inl NoSession, n) else report_closed P pid (pn_bodies P pid hashes n))"


definition first_of :: "'a list \<Rightarrow> fetch_error + 'a" where
  "first_of xs = (case xs of [] \<Rightarrow> Inl NothingReturned | x # _ \<Rightarrow> Inr x)"

definition download_block_by_hash :: "'n peer_net \<Rightarrow> string \<Rightarrow> b256 \<Rightarrow> ('n, fetch_error, block) act" where
  "download_block_by_hash P pid hash n =
     (if pn_session P pid n = None then (Inl NoSession, n)
      else sbind (pn_headers P pid (HashOf hash) 1) (\<lambda>hs.
           sbind (reads (\<lambda>_. first_of hs)) (\<lambda>hdr.
           sbind (pn_bodies P pid [hash]) (\<lambda>bs.
           sbind (reads (\<lambda>_. first_of bs)) (\<lambda>body. ret \<lparr>b_header = hdr, b_body = body\<rparr>)))) n)"

subsection \<open>The controller\<close>

record 'n controller =
  cc_rpc :: rpc_state
  cc_net :: 'n
  cc_seen_blocks :: "b256 set"
  cc_seen_txs :: "b256 set"

datatype sync_error =
    FetchFailed fetch_error
  | KnownInvalid b256
  | ProcessingFailed string
  | NotContiguous u64
  | BodyCount nat nat
  | SyncStorage storage_error
  | SyncPanic

type_synonym ('n, 'a) sync_act = "'n controller \<Rightarrow> ((sync_error + 'a) \<times> 'n controller) option"

abbreviation cc_eng :: "'n controller \<Rightarrow> engine" where
  "cc_eng c \<equiv> rs_eng (cc_rpc c)"

abbreviation cc_chain :: "'n controller \<Rightarrow> chain" where
  "cc_chain c \<equiv> eg_chain (cc_eng c)"

abbreviation cc_db :: "'n controller \<Rightarrow> db" where
  "cc_db c \<equiv> ch_db (cc_chain c)"

definition set_eng :: "engine \<Rightarrow> 'n controller \<Rightarrow> 'n controller" where
  "set_eng g c = c\<lparr>cc_rpc := (cc_rpc c)\<lparr>rs_eng := g\<rparr>\<rparr>"

definition set_proc :: "processor \<Rightarrow> 'n controller \<Rightarrow> 'n controller" where
  "set_proc p c = set_eng ((cc_eng c)\<lparr>eg_proc := p\<rparr>) c"

definition on_registry :: "(registry \<Rightarrow> registry) \<Rightarrow> 'n controller \<Rightarrow> 'n controller" where
  "on_registry f c = (let p = eg_proc (cc_eng c) in set_proc (p\<lparr>pp_registry := f (pp_registry p)\<rparr>) c)"

definition on_chain_state :: "(chain \<Rightarrow> chain) \<Rightarrow> 'n controller \<Rightarrow> 'n controller" where
  "on_chain_state f c = (let p = eg_proc (cc_eng c) in set_proc (p\<lparr>pp_chain := f (pp_chain p)\<rparr>) c)"

definition on_net :: "('n, 'e, 'a) act \<Rightarrow> ('n controller, 'e, 'a) act" where
  "on_net m c = (case m (cc_net c) of (r, n) \<Rightarrow> (r, c\<lparr>cc_net := n\<rparr>))"

definition process_block :: "'o engine_env \<Rightarrow> block \<Rightarrow> ('n, unit) sync_act" where
  "process_block E b c =
     map_option (\<lambda>(r, p). (map_sum ProcessingFailed id r, set_proc p c)) (import_block E b (eg_proc (cc_eng c)))"

subsection \<open>Fetching ancestors\<close>

fun try_peers :: "'n peer_net \<Rightarrow> b256 \<Rightarrow> string list \<Rightarrow> 'n \<Rightarrow> block option \<times> 'n" where
  "try_peers P hash [] n = (None, n)"
| "try_peers P hash (pid # pids) n =
     (case download_block_by_hash P pid hash n of (Inr b, n') \<Rightarrow> (Some b, n') | (Inl _, n') \<Rightarrow> try_peers P hash pids n')"

definition fetch_block :: "'n peer_net \<Rightarrow> string \<Rightarrow> b256 \<Rightarrow> ('n, fetch_error, block) act" where
  "fetch_block P pid hash n =
     (case download_block_by_hash P pid hash n of
        (Inr b, n') \<Rightarrow> (Inr b, n')
      | (Inl e, n') \<Rightarrow>
          (case pn_active P n' of
             None \<Rightarrow> (Inl e, n')
           | Some ids \<Rightarrow>
               (case try_peers P hash (filter (\<lambda>p. p \<noteq> pid) ids) n' of
                  (Some b, n'') \<Rightarrow> (Inr b, n'') | (None, n'') \<Rightarrow> (Inl e, n''))))"

definition parent_among :: "(header \<Rightarrow> b256) \<Rightarrow> b256 \<Rightarrow> b256 \<Rightarrow> block list \<Rightarrow> b256" where
  "parent_among hs hash fallback bs =
     (case List.find (\<lambda>b. hs (b_header b) = hash) bs of None \<Rightarrow> fallback | Some b \<Rightarrow> h_parent_hash (b_header b))"

text \<open>The requested head is marked with its own parent, where it was downloaded, and all targets are dropped.\<close>

definition give_up :: "(header \<Rightarrow> b256) \<Rightarrow> b256 \<Rightarrow> b256 \<Rightarrow> b256 \<Rightarrow> block list \<Rightarrow> 'n controller \<Rightarrow> 'n controller" where
  "give_up hs requested_head culprit fallback bs c =
     on_registry clear_targets
       (if requested_head \<noteq> culprit
        then on_chain_state (add_invalid_block requested_head (parent_among hs requested_head fallback bs) Hard) c else c)"

function fetch_walk ::
  "'o engine_env \<Rightarrow> 'n peer_net \<Rightarrow> string \<Rightarrow> b256 \<Rightarrow> block list \<Rightarrow> b256 \<Rightarrow> ('n controller, sync_error, block list) act" where
  "fetch_walk E P pid requested_head to_process current c =
     (if current = 0 then (Inr to_process, c)
      else case block_by_hash (en_hash E) current (cc_db c) of
        Inl e \<Rightarrow> (Inl (SyncStorage e), c)
      | Inr (Some _) \<Rightarrow> (Inr to_process, c)
      | Inr None \<Rightarrow>
          if get_invalidation_reason (cc_chain c) current = Some Hard
          then (Inl (KnownInvalid current), give_up (en_hash E) requested_head current 0 to_process c)
          else
            let c1 = (if get_invalidation_reason (cc_chain c) current = None then c
                      else on_chain_state (remove_invalid_block current) c)
            in case on_net (fetch_block P pid current) c1 of
                 (Inl e, c2) \<Rightarrow> (Inl (FetchFailed e), c2)
               | (Inr b, c2) \<Rightarrow>
                   let to_process' = to_process @ [b] in
                   if length to_process' > 100 then (Inr to_process', c2)
                   else fetch_walk E P pid requested_head to_process' (h_parent_hash (b_header b)) c2)"
  by pat_completeness auto
termination
  by (relation "measure (\<lambda>(E, P, pid, rh, to_process, current, c). 101 - length to_process)") auto

declare fetch_walk.simps [simp del]

text \<open>The last block that was imported or known: hash, number and timestamp.\<close>

type_synonym last_block = "(b256 \<times> u64 \<times> u64) option"

definition last_of :: "(header \<Rightarrow> b256) \<Rightarrow> block \<Rightarrow> last_block" where
  "last_of hs b = Some (hs (b_header b), h_number (b_header b), h_timestamp (b_header b))"

fun process_ancestors :: "'o engine_env \<Rightarrow> b256 \<Rightarrow> block list \<Rightarrow> block list \<Rightarrow> last_block \<Rightarrow> ('n, last_block) sync_act" where
  "process_ancestors E requested_head all [] prev c = Some (Inr prev, c)"
| "process_ancestors E requested_head all (b # bs) prev c =
     (let hash = en_hash E (b_header b) in
      if has_block (en_hash E) (cc_chain c) hash then process_ancestors E requested_head all bs (last_of (en_hash E) b) c
      else case process_block E b c of
          None \<Rightarrow> None
        | Some (Inl e, c') \<Rightarrow> Some (Inl e, give_up (en_hash E) requested_head hash (h_parent_hash (b_header b)) all c')
        | Some (Inr _, c') \<Rightarrow> process_ancestors E requested_head all bs (last_of (en_hash E) b) c')"

text \<open>Before the merge the fork choice follows the last block; a panic unwinds, an error is only logged.\<close>

definition follow :: "'o engine_env \<Rightarrow> builder_lib \<Rightarrow> hardfork \<Rightarrow> forkchoice_state \<Rightarrow> ('n, unit) sync_act" where
  "follow E B fork st c =
     (case forkchoice_updated E B st None (if fork \<ge> Cancun then 3 else 2) (cc_eng c) of
        None \<Rightarrow> None
      | Some (r, g) \<Rightarrow> Some (if r = Inl RpcPanic then Inl SyncPanic else Inr (), set_eng g c))"

definition follow_last :: "'o engine_env \<Rightarrow> builder_lib \<Rightarrow> chain_config \<Rightarrow> last_block \<Rightarrow> ('n, unit) sync_act" where
  "follow_last E B cfg prev c =
     (case prev of
        None \<Rightarrow> Some (Inr (), c)
      | Some (hash, number, timestamp) \<Rightarrow>
          let fork = get_active_fork cfg number timestamp in
          if fork \<ge> Paris then Some (Inr (), c)
          else follow E B fork \<lparr>fc_head = hash, fc_safe = hash, fc_finalized = 0\<rparr> c)"

definition fetch_ancestors :: "'o engine_env \<Rightarrow> builder_lib \<Rightarrow> 'n peer_net \<Rightarrow> string \<Rightarrow> b256 \<Rightarrow> b256 \<Rightarrow> ('n, unit) sync_act" where
  "fetch_ancestors E B P pid hash requested_head c =
     (let cfg = config_of E (cc_db c) in
      case fetch_walk E P pid requested_head [] hash c of
        (Inl e, c1) \<Rightarrow> Some (Inl e, c1)
      | (Inr blocks, c1) \<Rightarrow>
          (case process_ancestors E requested_head blocks (rev blocks) None c1 of
             None \<Rightarrow> None
           | Some (Inl e, c2) \<Rightarrow> Some (Inl e, c2)
           | Some (Inr prev, c2) \<Rightarrow> follow_last E B cfg prev c2))"

subsection \<open>Ranges\<close>

definition BATCH_SIZE :: u64 where
  "BATCH_SIZE = 128"

text \<open>The first header that does not follow the one before it.\<close>

fun broken_link :: "(header \<Rightarrow> b256) \<Rightarrow> header list \<Rightarrow> u64 option" where
  "broken_link hs (a # b # rest) = (if h_parent_hash b \<noteq> hs a then Some (h_number b) else broken_link hs (b # rest))"
| "broken_link hs _ = None"

fun process_range :: "'o engine_env \<Rightarrow> block list \<Rightarrow> last_block \<Rightarrow> ('n, last_block) sync_act" where
  "process_range E [] prev c = Some (Inr prev, c)"
| "process_range E (b # bs) prev c =
     (if has_block (en_hash E) (cc_chain c) (en_hash E (b_header b)) then process_range E bs (last_of (en_hash E) b) c
      else case process_block E b c of
          None \<Rightarrow> None
        | Some (Inl e, c') \<Rightarrow> Some (Inl e, c')
        | Some (Inr _, c') \<Rightarrow> process_range E bs (last_of (en_hash E) b) c')"

definition reset_status :: "'n controller \<Rightarrow> 'n controller" where
  "reset_status c = on_chain_state (set_sync_status SyncNone) c"

definition range_info :: "u64 \<Rightarrow> header list \<Rightarrow> db \<Rightarrow> sync_status" where
  "range_info start headers d =
     SyncInfo \<lparr>si_current_block = ucast start, si_highest_block = ucast (h_number (last headers)),
       si_starting_block = ucast (case latest_block_number d of Inr (Some n) \<Rightarrow> n | _ \<Rightarrow> 0), si_stages = None\<rparr>"

definition import_range :: "'o engine_env \<Rightarrow> builder_lib \<Rightarrow> chain_config \<Rightarrow> header list \<Rightarrow> body list \<Rightarrow> ('n, unit) sync_act" where
  "import_range E B cfg headers bodies c =
     (case process_range E (map (\<lambda>(h, b). \<lparr>b_header = h, b_body = b\<rparr>) (zip headers bodies)) None c of
        None \<Rightarrow> None
      | Some (Inl e, c') \<Rightarrow> Some (Inl e, reset_status c')
      | Some (Inr prev, c') \<Rightarrow>
          (case follow_last E B cfg prev c' of
             None \<Rightarrow> None
           | Some (Inl e, c'') \<Rightarrow> Some (Inl e, c'')
           | Some (Inr _, c'') \<Rightarrow> Some (Inr (), reset_status c'')))"

definition sync_range :: "'o engine_env \<Rightarrow> builder_lib \<Rightarrow> 'n peer_net \<Rightarrow> string \<Rightarrow> u64 \<Rightarrow> ('n, unit) sync_act" where
  "sync_range E B P pid start c =
     (case latest_block_number (cc_db c) of
        Inl e \<Rightarrow> Some (Inl (SyncStorage e), c)
      | Inr _ \<Rightarrow>
          (let cfg = config_of E (cc_db c) in
           case on_net (download_headers P pid start BATCH_SIZE) c of
             (Inl e, c1) \<Rightarrow> Some (Inl (FetchFailed e), reset_status c1)
           | (Inr headers, c1) \<Rightarrow>
               if headers = [] then Some (Inr (), c1)
               else
                 let c2 = on_chain_state (set_sync_status (range_info start headers (cc_db c))) c1 in
                 (case broken_link (en_hash E) headers of
                    Some n \<Rightarrow> Some (Inl (NotContiguous n), reset_status c2)
                  | None \<Rightarrow>
                      (case on_net (download_bodies P pid (map (en_hash E) headers)) c2 of
                         (Inl e, c3) \<Rightarrow> Some (Inl (FetchFailed e), reset_status c3)
                       | (Inr bodies, c3) \<Rightarrow>
                           if length bodies \<noteq> length headers
                           then Some (Inl (BodyCount (length bodies) (length headers)), reset_status c3)
                           else import_range E B cfg headers bodies c3))))"

subsection \<open>One step\<close>

definition choose_peer :: "'n peer_net \<Rightarrow> string option \<Rightarrow> 'n \<Rightarrow> string option" where
  "choose_peer P affinity n =
     or_else (case affinity of Some pid \<Rightarrow> if pn_session P pid n \<noteq> None then Some pid else None | None \<Rightarrow> None)
    (or_else (map_option fst (get_best_peer P n)) (get_any_peer P n))"

definition put_back :: "'o engine_env \<Rightarrow> b256 \<Rightarrow> string option \<Rightarrow> u32 \<Rightarrow> 'n controller \<Rightarrow> 'n controller" where
  "put_back E hash affinity retries c =
     (if retries < 5 then on_registry (add_target_with_retries (en_hash E) (cc_chain c) hash affinity (retries + 1)) c else c)"

definition sync_target_step :: "'o engine_env \<Rightarrow> builder_lib \<Rightarrow> 'n peer_net \<Rightarrow> ('n, unit) sync_act" where
  "sync_target_step E B P c =
     (case pop_target (pp_registry (eg_proc (cc_eng c))) of
        (None, _) \<Rightarrow> Some (Inr (), c)
      | (Some t, r) \<Rightarrow>
          (let c1 = on_registry (\<lambda>_. r) c in
           if st_hash t = 0 then Some (Inr (), c1)
           else case choose_peer P (st_peer_id t) (cc_net c1) of
               None \<Rightarrow> Some (Inr (), put_back E (st_hash t) (st_peer_id t) (st_retries t) c1)
             | Some pid \<Rightarrow>
                 (case fetch_ancestors E B P pid (st_hash t) (st_hash t) c1 of
                    None \<Rightarrow> None
                  | Some (Inl SyncPanic, c2) \<Rightarrow> Some (Inl SyncPanic, c2)
                  | Some (Inl _, c2) \<Rightarrow> Some (Inr (), put_back E (st_hash t) None (st_retries t) c2)
                  | Some (Inr _, c2) \<Rightarrow> Some (Inr (), c2))))"

text \<open>The head and its total difficulty are read before the targets are worked on.\<close>

definition sync_step :: "'o engine_env \<Rightarrow> builder_lib \<Rightarrow> 'n peer_net \<Rightarrow> bool \<Rightarrow> ('n, unit) sync_act" where
  "sync_step E B P lock c =
     (let local_height = snd (head_block (cc_chain c)); local_td = total_difficulty (cc_chain c) in
      if \<not> lock then Some (Inr (), c)
      else case sync_target_step E B P c of
          None \<Rightarrow> None
        | Some (Inl e, c1) \<Rightarrow> Some (Inl e, c1)
        | Some (Inr _, c1) \<Rightarrow>
            (case get_best_peer P (cc_net c1) of
               None \<Rightarrow> Some (Inr (), c1)
             | Some (pid, td, height) \<Rightarrow>
                 if better_peer td height local_td local_height then sync_range E B P pid (local_height + 1) c1
                 else Some (Inr (), reset_status c1)))"

text \<open>The inner loop of \<open>start\<close>, and the orchestrator.\<close>

partial_function (option) catch_up :: "'o engine_env \<Rightarrow> builder_lib \<Rightarrow> 'n peer_net \<Rightarrow> 'n controller \<Rightarrow> 'n controller option" where
  "catch_up E B P c =
     (case sync_step E B P True c of
        None \<Rightarrow> None
      | Some (Inl e, c') \<Rightarrow> Some c'
      | Some (Inr _, c') \<Rightarrow> if has_targets (pp_registry (eg_proc (cc_eng c'))) then catch_up E B P c' else Some c')"


subsection \<open>Gossip\<close>








subsection \<open>Importing blocks leaves the head alone\<close>

abbreviation pp_head :: "processor \<Rightarrow> forkchoice_state \<times> u64" where
  "pp_head p \<equiv> get_state (pp_chain p)"

lemma pp_head_simps [simp]:
  "pp_head (mark h ph r p) = pp_head p" "pp_head (spawn k p) = pp_head p"
  "get_state (c\<lparr>ch_tree := t\<rparr>) = get_state c" "get_state (c\<lparr>ch_store := s\<rparr>) = get_state c" "get_state (c\<lparr>ch_sync := y\<rparr>) = get_state c"
  "get_state (set_sync_status y c) = get_state c" "get_state (remove_invalid_block h c) = get_state c"
  "get_state (add_invalid_block h ph r c) = get_state c"
  by (simp_all add: get_state_def mark_def spawn_def set_sync_status_def remove_invalid_block_def add_invalid_block_def)





















lemma head_done [simp]: "pp_head (done_processing h p) = pp_head p"
  by (simp add: done_processing_def)



subsection \<open>What synchronisation leaves alone\<close>




lemma set_proc_simps [simp]: "eg_proc (cc_eng (set_proc p c)) = p" "cc_net (set_proc p c) = cc_net c"
  by (simp_all add: set_proc_def set_eng_def)

lemma chain_on_registry [simp]: "cc_chain (on_registry f c) = cc_chain c"
  by (simp add: on_registry_def Let_def)

lemma chain_on_chain_state [simp]: "cc_chain (on_chain_state f c) = f (cc_chain c)"
  by (simp add: on_chain_state_def Let_def)










subsection \<open>How the network moves the head\<close>














lemma chain_submit [simp]: "eg_chain (rs_eng (snd (submit_transaction_with_source E bs coin t l s))) = eg_chain (rs_eng s)"
  by (simp add: submit_transaction_with_source_def announce_def Let_def with_pool_def split: sum.splits prod.splits bool.splits)











text \<open>It is the block that counts, not the head.  When a peer answers a target with a block that is known and before Paris, the
  node makes this block its head, however far its own head is past the merge, and forgets the finalized block.\<close>

theorem known_old_block_followed:
  assumes "block_by_hash (en_hash E) h (cc_db c) = Inr None" and "h \<noteq> 0" and "get_invalidation_reason (cc_chain c) h = None"
    and "on_net (fetch_block P pid h) c = (Inr b, c1)"
    and "block_by_hash (en_hash E) (h_parent_hash (b_header b)) (cc_db c1) = Inr (Some parent)"
    and "has_block (en_hash E) (cc_chain c1) (en_hash E (b_header b))"
    and "F = get_active_fork (config_of E (cc_db c)) (h_number (b_header b)) (h_timestamp (b_header b))" and "F < Paris"
  shows "fetch_ancestors E B P pid h h c =
    follow E B F \<lparr>fc_head = en_hash E (b_header b), fc_safe = en_hash E (b_header b), fc_finalized = 0\<rparr> c1"
proof -
  have "fetch_walk E P pid h [] h c = (Inr [b], c1)"
    using assms(1-5) by (simp add: fetch_walk.simps [of E P pid h "[]" h] fetch_walk.simps [of E P pid h "[b]"] Let_def)
  moreover have "\<not> Paris \<le> F" using assms(8) by simp
  ultimately show ?thesis
    using assms(6,7) by (simp add: fetch_ancestors_def Let_def last_of_def follow_last_def)
qed

subsection \<open>The best peer\<close>

definition session_td :: "'n peer_net \<Rightarrow> 'n \<Rightarrow> string \<Rightarrow> (u256 \<times> u64) option" where
  "session_td P n pid = map_option (\<lambda>(st, h). (unwrap_or st 0, h)) (pn_session P pid n)"

definition lex_le :: "u256 \<times> u64 \<Rightarrow> u256 \<times> u64 \<Rightarrow> bool" where
  "lex_le a b \<longleftrightarrow> fst a < fst b \<or> fst a = fst b \<and> snd a \<le> snd b"

lemma lex_le_trans: "lex_le a b \<Longrightarrow> lex_le b c \<Longrightarrow> lex_le a c"
  by (auto simp: lex_le_def)

lemma better_peer_lex:
  "td = 0 \<longrightarrow> m = 0 \<Longrightarrow> better_peer td h m k \<longleftrightarrow> \<not> lex_le (td, h) (m, k)"
  by (auto simp: better_peer_def lex_le_def word_gt_0)

text \<open>\<open>before\<close> are the peers seen so far.\<close>

definition best_so_far :: "'n peer_net \<Rightarrow> 'n \<Rightarrow> string set \<Rightarrow> (string \<times> u256 \<times> u64) option \<times> u256 \<times> u64 \<Rightarrow> bool" where
  "best_so_far P n before = (\<lambda>(best, m, k).
     (case best of None \<Rightarrow> m = 0 \<and> k = 0 | Some (pid, td, h) \<Rightarrow> td = m \<and> h = k \<and> pid \<in> before \<and> session_td P n pid = Some (m, k)) \<and>
     (\<forall>pid x. pid \<in> before \<and> session_td P n pid = Some x \<longrightarrow> lex_le x (m, k)))"

lemma best_peer_step_best:
  assumes "best_so_far P n before acc" "\<And>td h. session_td P n pid = Some (td, h) \<Longrightarrow> td = 0 \<longrightarrow> fst (snd acc) = 0"
  shows "best_so_far P n (insert pid before) (best_peer_step P n pid acc)"
proof -
  obtain best m k where acc: "acc = (best, m, k)" by (metis prod_cases3)
  show ?thesis
  proof (cases "session_td P n pid")
    case None
    then show ?thesis using assms(1) by (auto simp: best_so_far_def best_peer_step_def acc session_td_def split: option.splits)
  next
    case (Some x)
    obtain td h where x: "x = (td, h)" by (cases x)
    obtain st where st: "pn_session P pid n = Some (st, h)" "unwrap_or st 0 = td" using Some x by (auto simp: session_td_def)
    have lex: "better_peer td h m k \<longleftrightarrow> \<not> lex_le (td, h) (m, k)" using assms(2) [of td h] Some x by (intro better_peer_lex) (simp add: acc)
    have total: "lex_le (td, h) (m, k) \<or> lex_le (m, k) (td, h)" by (auto simp: lex_le_def)
    show ?thesis
    proof (cases "better_peer td h m k")
      case True
      then have "lex_le y (td, h)" if "lex_le y (m, k)" for y using lex total lex_le_trans that by blast
      moreover have "lex_le (td, h) (td, h)" by (simp add: lex_le_def)
      ultimately show ?thesis
        using True assms(1) Some x st by (auto simp: best_so_far_def best_peer_step_def acc Let_def split: option.splits)
    next
      case False
      then show ?thesis
        using lex assms(1) Some x st by (auto simp: best_so_far_def best_peer_step_def acc Let_def split: option.splits)
    qed
  qed
qed

lemma best_peer_fold:
  assumes "best_so_far P n before acc" "\<And>pid td h. pid \<in> before \<union> set ids \<Longrightarrow> session_td P n pid = Some (td, h) \<Longrightarrow> (td = 0) = zero"
  shows "best_so_far P n (before \<union> set ids) (fold (best_peer_step P n) ids acc)"
  using assms
proof (induction ids arbitrary: before acc)
  case (Cons pid ids)
  obtain best m k where acc: "acc = (best, m, k)" by (metis prod_cases3)
  have "td = 0 \<longrightarrow> m = 0" if "session_td P n pid = Some (td, h)" for td h
  proof (cases best)
    case None
    then show ?thesis using Cons.prems(1) by (simp add: best_so_far_def acc)
  next
    case (Some b)
    then have "fst b \<in> before" "session_td P n (fst b) = Some (m, k)" using Cons.prems(1) by (auto simp: best_so_far_def acc)
    then show ?thesis using Cons.prems(2) [of pid td h] Cons.prems(2) [of "fst b" m k] that by auto
  qed
  then have "best_so_far P n (insert pid before) (best_peer_step P n pid acc)"
    by (intro best_peer_step_best [OF Cons.prems(1)]) (simp add: acc)
  from Cons.IH [OF this] Cons.prems(2) show ?case by simp
qed simp

text \<open>C36: among peers that all give a total difficulty, or all give none, the one chosen for a range is a best one: its
  session has the difficulty and height that are reported, and no other peer has a higher difficulty, or the same and a
  greater height.\<close>

theorem best_peer_maximal:
  assumes "pn_active P n = Some ids" "get_best_peer P n = Some (pid, td, h)"
    and "\<And>q t k. q \<in> set ids \<Longrightarrow> session_td P n q = Some (t, k) \<Longrightarrow> (t = 0) = zero"
  shows "pid \<in> set ids \<and> session_td P n pid = Some (td, h) \<and>
    (\<forall>q x. q \<in> set ids \<and> session_td P n q = Some x \<longrightarrow> lex_le x (td, h))"
proof -
  have "best_so_far P n {} (None, 0, 0)" by (simp add: best_so_far_def)
  from best_peer_fold [OF this, of ids zero] assms(3)
  have "best_so_far P n (set ids) (fold (best_peer_step P n) ids (None, 0, 0))" by simp
  then show ?thesis
    using assms(1,2) by (cases "fold (best_peer_step P n) ids (None, 0, 0)") (auto simp: get_best_peer_def best_so_far_def)
qed

subsection \<open>Targets of invalid chains\<close>

text \<open>C37: a target that is known to be invalid, at the front of the queue with fewer than five retries so far and with a peer to ask,
  is not given up: all other targets are dropped, and it is put back as the only one, with one retry more.\<close>

theorem invalid_target_retried:
  assumes "pp_registry (eg_proc (cc_eng c)) = r" "rg_targets r = t # ts" "st_hash t \<noteq> 0" "st_retries t < 5"
    and "choose_peer P (st_peer_id t) (cc_net c) = Some pid"
    and "get_invalidation_reason (cc_chain c) (st_hash t) = Some Hard"
    and "\<not> has_block (en_hash E) (cc_chain c) (st_hash t)" "block_by_hash (en_hash E) (st_hash t) (cc_db c) = Inr None"
  shows "\<exists>c'. sync_target_step E B P c = Some (Inr (), c') \<and>
    rg_targets (pp_registry (eg_proc (cc_eng c'))) = [\<lparr>st_hash = st_hash t, st_peer_id = None, st_retries = st_retries t + 1\<rparr>]"
proof -
  let ?c1 = "on_registry (\<lambda>_. r\<lparr>rg_targets := ts\<rparr>) c"
  have net: "cc_net ?c1 = cc_net c" by (simp add: on_registry_def Let_def)
  have "fetch_ancestors E B P pid (st_hash t) (st_hash t) ?c1 = Some (Inl (KnownInvalid (st_hash t)), on_registry clear_targets ?c1)"
    using assms(3,6,8) by (simp add: fetch_ancestors_def Let_def fetch_walk.simps give_up_def)
  then have "sync_target_step E B P c = Some (Inr (), put_back E (st_hash t) None (st_retries t) (on_registry clear_targets ?c1))"
    using assms(1,2,3,5) net by (simp add: sync_target_step_def pop_target_def Let_def)
  then show ?thesis
    using assms(4,7)
    by (simp add: put_back_def) (simp add: on_registry_def Let_def add_target_with_retries_def clear_targets_def)
qed

subsection \<open>Examples\<close>

text \<open>Peers that answer every request for a header or a body with the same block.\<close>

definition sample_net :: "(string \<rightharpoonup> u256 option \<times> u64) \<Rightarrow> string list \<Rightarrow> unit peer_net" where
  "sample_net sess ids =
     \<lparr>pn_active = (\<lambda>n. Some ids), pn_session = (\<lambda>pid n. sess pid), pn_headers = (\<lambda>pid b k n. (Inr [b_header plain_block], n)),
      pn_bodies = (\<lambda>pid hs n. (Inr [b_body plain_block], n)), pn_pooled = (\<lambda>pid hs n. (Inr [], n)), pn_disconnect = (\<lambda>pid n. n),
      pn_choose = (\<lambda>ids n. hd ids)\<rparr>"

definition sample_peers :: "unit peer_net" where
  "sample_peers = sample_net [''a'' \<mapsto> (None, 7), ''b'' \<mapsto> (None, 9)] [''a'', ''b'']"

definition sample_controller :: "sync_target list \<Rightarrow> unit controller" where
  "sample_controller ts =
     (let g = empty_engine empty_db; p = eg_proc g in
      \<lparr>cc_rpc = \<lparr>rs_eng = g\<lparr>eg_proc := p\<lparr>pp_registry := registry_new\<lparr>rg_targets := ts\<rparr>,
           pp_chain := add_invalid_block 9 8 Hard (pp_chain p)\<rparr>\<rparr>, rs_revalidations = []\<rparr>,
       cc_net = (), cc_seen_blocks = {}, cc_seen_txs = {}\<rparr>)"

lemma sample_controller_simps:
  "get_state (cc_chain (sample_controller ts)) = (\<lparr>fc_head = 6, fc_safe = 6, fc_finalized = 6\<rparr>, 5)"
  "cc_db (sample_controller ts) = empty_db" "rg_targets (pp_registry (eg_proc (cc_eng (sample_controller ts)))) = ts"
  "get_invalidation_reason (cc_chain (sample_controller ts)) 9 = Some Hard" "contains_block (ch_tree (cc_chain (sample_controller ts))) h = False"
  by (simp_all add: sample_controller_def Let_def empty_engine_def tree_new_def add_invalid_block_def mark_invalid_def get_state_def
      get_invalidation_reason_def tree_invalidation_reason_def contains_block_def registry_new_def)



theorem best_peer_maximal_witness:
  "''b'' \<in> set [''a'', ''b''] \<and> session_td sample_peers () ''b'' = Some (0, 9) \<and> lex_le (0, 7) (0, 9)"
proof -
  have ids: "pn_active sample_peers () = Some [''a'', ''b'']" by (simp add: sample_peers_def sample_net_def)
  have best: "get_best_peer sample_peers () = Some (''b'', 0, 9)"
    by (simp add: get_best_peer_def best_peer_step_def better_peer_def Let_def sample_peers_def sample_net_def)
  have all: "(t = 0) = True" if "q \<in> set [''a'', ''b'']" "session_td sample_peers () q = Some (t, k)" for q t k
    using that by (auto simp: session_td_def sample_peers_def sample_net_def)
  have "session_td sample_peers () ''a'' = Some (0, 7)" by (simp add: session_td_def sample_peers_def sample_net_def)
  moreover have "''b'' \<in> set [''a'', ''b''] \<and> session_td sample_peers () ''b'' = Some (0, 9) \<and>
      (\<forall>q x. q \<in> set [''a'', ''b''] \<and> session_td sample_peers () q = Some x \<longrightarrow> lex_le x (0, 9))"
    by (rule best_peer_maximal [OF ids best all])
  ultimately show ?thesis by (metis list.set_intros(1))
qed

text \<open>With both kinds of peers the choice depends on the order: here it is the peer with the lowest difficulty that is given.\<close>

theorem best_peer_mixed:
  "get_best_peer (sample_net [''a'' \<mapsto> (Some 5, 10), ''b'' \<mapsto> (None, 11), ''c'' \<mapsto> (Some 1, 1)] [''a'', ''b'', ''c'']) () = Some (''c'', 1, 1)"
  by (simp add: get_best_peer_def best_peer_step_def better_peer_def Let_def sample_net_def)

text \<open>A block that was asked for by its hash is taken as it comes: its hash is not compared.\<close>

theorem unrequested_block_taken:
  "sess pid \<noteq> None \<Longrightarrow> download_block_by_hash (sample_net sess ids) pid hash n = (Inr plain_block, n)"
  by (auto simp: download_block_by_hash_def sample_net_def first_of_def reads_def ret_def sbind_def)

theorem invalid_target_retried_witness:
  "\<exists>c'. sync_target_step plain_env sample_builder sample_peers
      (sample_controller [\<lparr>st_hash = 9, st_peer_id = None, st_retries = 0\<rparr>, \<lparr>st_hash = 4, st_peer_id = None, st_retries = 0\<rparr>]) = Some (Inr (), c') \<and>
    rg_targets (pp_registry (eg_proc (cc_eng c'))) = [\<lparr>st_hash = 9, st_peer_id = None, st_retries = 1\<rparr>]"
proof -
  let ?t = "\<lparr>st_hash = 9, st_peer_id = None, st_retries = 0\<rparr>"
  let ?ts = "[\<lparr>st_hash = 4, st_peer_id = None, st_retries = 0\<rparr>]"
  let ?c = "sample_controller (?t # ?ts)"
  have peer: "choose_peer sample_peers (st_peer_id ?t) (cc_net ?c) = Some ''b''"
    by (simp add: choose_peer_def or_else_def get_best_peer_def best_peer_step_def better_peer_def Let_def sample_peers_def sample_net_def)
  have no: "\<not> has_block (en_hash plain_env) (cc_chain ?c) (st_hash ?t)" "block_by_hash (en_hash plain_env) (st_hash ?t) (cc_db ?c) = Inr None"
    by (simp_all add: has_block_def sample_controller_simps stored_header_def header_def get_payload_by_block_hash_def block_by_hash_def block_def
        read_tbl_def empty_db_def tbl_get_def tbl_empty_def tbl_iter_def)
  from invalid_target_retried [OF refl sample_controller_simps(3) _ _ peer _ no, of sample_builder]
  show ?thesis by (simp add: sample_controller_simps)
qed

end
