(* ===== verification/Spec2Isabelle.thy ===== *)
theory Spec2Isabelle
  imports Consensus Reorg Forkchoice MempoolLimits TrieFacts ChangeSets Codecs PayloadFacts EngineFacts RpcEngine Routing Session PeerRegistry Sync
begin

text \<open>
  A verification development for the WASIX Ethereum execution client (Rust workspace
  \<^verbatim>\<open>src/wasix_eth\<close>).

  \<^bold>\<open>The program.\<close>  A consensus client drives the node through the Engine API.  \<open>newPayload\<close> hands it a
  block: the node checks the hash, looks for the parent (database, side-chain tree), validates header and body,
  executes the transactions on the parent's state in a batch, compares or fills in the header, and stores block,
  receipts, change sets and trie nodes in a \<open>redb\<close> database.  \<open>forkchoiceUpdated\<close> names head, safe and
  finalized block; a head on another branch is a reorganisation that reverts blocks with their change sets.
  A transaction pool orders pending transactions per sender and offers the best ones to the block builder.  Blocks
  whose parents are missing are buffered and put into the registry of sync targets.

  \<^bold>\<open>Conventions (Prelude).\<close>  Rust's unsigned integers are words of their width; the workspace is built in release
  mode, so arithmetic wraps, and saturating or checked operations are written out.  A fallible function returns a
  sum (\<open>Inl\<close> the error), a stateful one an action \<open>state \<Rightarrow> result \<times> state\<close>: state changed before an
  early return stays changed.  A panic is an error value nothing catches.  Loops that need not end are
  \<open>partial_function (option)\<close>; bounded ones carry the source's own bound.  Code that is not in the
  repository (keccak, RLP, the signature scheme, the interpreter of the \<open>evm\<close> crate, the binary search of a
  \<open>VecDeque\<close>, hash map iteration orders) is a parameter; what a theorem needs of it is a named
  hypothesis (\<open>lib_ok\<close>, \<open>collision_free\<close>, \<open>search_ok\<close>, \<dots>), and the witness
  instantiates it.

  \<^bold>\<open>Theories and sources.\<close>
  \<^item> \<^verbatim>\<open>Tables\<close>: the ordered tables of \<open>redb\<close>; locale \<open>kv_table\<close> with its interpretation.
  \<^item> \<^verbatim>\<open>EthTypes\<close>: \<^verbatim>\<open>wasix_eth_types/src/lib.rs\<close>, \<^verbatim>\<open>chain.rs\<close>: headers,
    transactions, chain configuration, hard fork selection, blob gas.
  \<^item> \<^verbatim>\<open>Storage\<close>, \<^verbatim>\<open>StateRead\<close>: \<^verbatim>\<open>wasix_eth_storage/src/tables.rs\<close>,
    \<^verbatim>\<open>read.rs\<close>: the schema, the read provider, log queries, accounts and slots at a block.  The tables hold typed values.
  \<^item> \<^verbatim>\<open>Codecs\<close>: \<^verbatim>\<open>wasix_eth_storage/src/codecs.rs\<close> and the receipts of \<^verbatim>\<open>wasix_eth_types/src/lib.rs\<close>: these values as bytes;
    the record \<open>row_lib\<close> holds the encoders of \<open>alloy_rlp\<close> and \<open>alloy_consensus\<close>, \<open>row_lib_ok\<close> what is relied on of them.
  \<^item> \<^verbatim>\<open>StorageWrite\<close>, \<^verbatim>\<open>BatchState\<close>: \<^verbatim>\<open>wasix_eth_storage/src/write.rs\<close>: the write provider and the batch writer;
    \<^verbatim>\<open>BatchRun\<close>: what single operations of a batch leave alone; \<^verbatim>\<open>ChangeSets\<close>: whole runs of them (\<open>batch_run\<close>) and the
    change sets they leave.
  \<^item> \<^verbatim>\<open>TrieNode\<close>, \<^verbatim>\<open>Trie\<close>: \<^verbatim>\<open>wasix_eth_storage/src/trie.rs\<close>; \<^verbatim>\<open>TrieSpec\<close>,
    \<^verbatim>\<open>TrieRefine\<close>, \<^verbatim>\<open>TrieFacts\<close>: the abstract trie, the refinement, its consequences.
  \<^item> \<^verbatim>\<open>Consensus\<close>: \<^verbatim>\<open>wasix_eth_core/src/consensus.rs\<close>: header and body rules, EIP-1559.
  \<^item> \<^verbatim>\<open>Chain\<close>: \<^verbatim>\<open>engine/sidechain_tracker.rs\<close>, \<^verbatim>\<open>canonical_state.rs\<close>,
    \<^verbatim>\<open>chain_manager.rs\<close>; \<^verbatim>\<open>Reorg\<close>: \<^verbatim>\<open>engine/reorg_manager.rs\<close>;
    \<^verbatim>\<open>RpcErrors\<close>: \<^verbatim>\<open>wasix_eth_types/src/error.rs\<close>; \<^verbatim>\<open>Forkchoice\<close>:
    \<^verbatim>\<open>engine/forkchoice_validator.rs\<close>, with the locale \<open>ancestry\<close> that states what the validator relies on
    in the chain manager.
  \<^item> \<^verbatim>\<open>Mempool\<close>, \<^verbatim>\<open>MempoolAdd\<close>, \<^verbatim>\<open>MempoolLimits\<close>:
    \<^verbatim>\<open>wasix_eth_core/src/mempool/mempool.rs\<close>.
  \<^item> \<^verbatim>\<open>ExecState\<close>, \<^verbatim>\<open>ExecTx\<close>, \<^verbatim>\<open>ExecBlock\<close>: \<^verbatim>\<open>wasix_eth_execution/src\<close>
    (configuration, backend, state, block processor, transaction executor, execution provider);
    \<^verbatim>\<open>ExecFacts\<close>, \<^verbatim>\<open>ExecBlockFacts\<close>: what they guarantee.
  \<^item> \<^verbatim>\<open>Payload\<close>, \<^verbatim>\<open>PayloadFacts\<close>: \<^verbatim>\<open>engine/payload_processor.rs\<close> and
    \<^verbatim>\<open>sync/registry.rs\<close>.
  \<^item> \<^verbatim>\<open>MempoolProvider\<close>: \<^verbatim>\<open>mempool/mempool_provider.rs\<close>, \<^verbatim>\<open>listener.rs\<close>:
    revalidation against the state, the listener; locale \<open>mempool_provider\<close>, interpreted by both implementations.
  \<^item> \<^verbatim>\<open>EngineMapper\<close>: \<^verbatim>\<open>wasix_eth_utils/src/engine_mapper.rs\<close>: blocks to payloads and back.
  \<^item> \<^verbatim>\<open>PayloadBuilder\<close>: \<^verbatim>\<open>engine/payload_builder.rs\<close>; its record \<open>engine\<close> is the state
    the engine's parts share.
  \<^item> \<^verbatim>\<open>Engine\<close>: \<^verbatim>\<open>engine/engine.rs\<close>: the entry points of the Engine API; \<^verbatim>\<open>EngineFacts\<close>:
    what they guarantee.
  \<^item> \<^verbatim>\<open>Deposits\<close>: deposit logs (\<^verbatim>\<open>wasix_eth_types/src/lib.rs\<close>, \<open>eip6110_utils\<close>) and \<open>getPayloadV4\<close>.
  \<^item> \<^verbatim>\<open>RpcEngine\<close>: \<^verbatim>\<open>engine/api.rs\<close>, \<^verbatim>\<open>account_manager.rs\<close>: submission of transactions, queries.
  \<^item> \<^verbatim>\<open>Sync\<close>: \<^verbatim>\<open>wasix_eth_core/src/sync\<close>: downloads, ancestors, ranges, sync steps, gossip.
  \<^item> \<^verbatim>\<open>NetTypes\<close>, \<^verbatim>\<open>ForkId\<close>: \<^verbatim>\<open>wasix_eth_types/src/p2p.rs\<close>: message ids and envelopes (locale \<open>wire_codec\<close>);
    fork identifiers.
  \<^item> \<^verbatim>\<open>Rlpx\<close>: \<^verbatim>\<open>wasix_eth_p2p/src/rlpx\<close> (\<^verbatim>\<open>crypto.rs\<close>, \<^verbatim>\<open>frame.rs\<close>, \<^verbatim>\<open>stream.rs\<close>): the encrypted transport;
    \<^verbatim>\<open>Handshake\<close>: \<^verbatim>\<open>rlpx/handshake\<close>: key agreement, capabilities, status exchange; \<^verbatim>\<open>Session\<close>:
    \<^verbatim>\<open>rlpx/session\<close>: the task of a session, its waiting requests and its messages.
  \<^item> \<^verbatim>\<open>PeerRegistry\<close>: \<^verbatim>\<open>peer/peer_registry.rs\<close>: the sessions of the node and the tie-break between them.
  \<^item> \<^verbatim>\<open>Routing\<close>: \<^verbatim>\<open>discovery/kbuckets.rs\<close>: the routing table.
  \<^bold>\<open>What is shown.\<close>
  \<^item> Trie: a lookup after an insertion, the enumeration, node encoding and decoding, against the abstract trie.
  \<^item> Storage: rows are decoded to what was encoded, and a stored block is read back through the codecs of its rows; log queries
    are exact; historical reads walk the trie correctly; the change sets of a batch hold the values of its start, with the
    cases named in which they do not (a storage that was replaced, an account that was only marked); a revert restores what was
    recorded.
  \<^item> Chain: the ancestor test and the latest valid ancestor are correct on linked chains; a reorganisation
    collects the branch; an accepted fork choice is consistent; the consensus rules make a chain linear.
  \<^item> Pool: sorted queues without duplicates under every operation, what an addition answers, capacity, selection.
  \<^item> Execution: change sets are applied, rewards are paid; a built header validates before Prague under
    named conditions (the fork must be the same with and without the total difficulty).
  \<^item> Payloads: a VALID answer is justified; the block in progress is released on every way out, given that execution
    returns; invalidity spreads to exactly the descendants.
  \<^item> Builder: a payload id can be redeemed, rebuilding never makes a payload worse; payloads and blocks convert into
    each other.
  \<^item> Engine: a fork choice answered VALID is in effect, a refused one changes nothing, a failed reversal is undone; where
    \<open>newPayloadV4\<close> and payload attributes cannot succeed.  The listener removes what a block includes, and
    revalidation leaves what passes the code's own test.
  \<^item> RPC: what the answer to a submitted transaction means; pending balances and block receipts are exact; deposit logs
    decode to what was encoded, and execution requests are well formed.
  \<^item> Synchronisation: the network moves the head to blocks from before the merge only, and a peer can still make it do so
    after the merge; the best peer is chosen; an invalid target is retried.
  \<^item> Network: what one side of a connection sends the other reads, however the bytes arrive; the key agreement and the
    negotiation bring both sides to the same secrets and capabilities; nodes of one network accept each other;
    answers reach the request they belong to and no other; the registry has one session per
    peer, and its published count is right if it is published in order; the routing table keeps its shape and answers with the nearest nodes.
  Where the code does not do what it means to, the property states what it does, and a finding of the manifest names it.

  \<^bold>\<open>Fuel and bounds.\<close>  The ancestor walk has the source's bound of 2048 steps.  Trie walks take the
  number of calls as fuel: a trie of depth 64 needs at most two calls per level, and the theorems state how much is
  enough.  The revalidation of buffered children recurses on the finite tree of buffered blocks and is proved to return.
  The interpreter of the \<open>evm\<close> crate is a total parameter, so no theorem says that an execution returns: its callbacks
  \<open>code\<close> and \<open>storage\<close> of \<^verbatim>\<open>backend.rs\<close> follow delegations without a bound and are partial functions here
  (\<open>delegated_code_returns_iff\<close>).  All other loops are total functions.

  \<^bold>\<open>Not modelled.\<close>  Sockets, the packets of UDP discovery and dialling
  (\<^verbatim>\<open>wasix_eth_p2p\<close>; its cryptography is a parameter), the derived codecs of network messages, the HTTP and JSON layer
  (\<^verbatim>\<open>wasix_eth_rpc\<close>), command line and start-up (\<^verbatim>\<open>wasix_eth_app\<close>), logging and
  metrics: they are I/O or calls of third-party crates.  Interleavings of tasks are not modelled in general: locks make the modelled
  operations run one after the other, and a spawned task is a recorded event that runs later.  The exception is the peer registry,
  where what a task does after releasing the lock is kept as a tail that runs later, in any order.
\<close>

end
